(* ===== verification/Dstu_Prelude.thy ===== *)
theory Dstu_Prelude
  imports Main "HOL-Library.Word"
begin

unbundle bit_operations_syntax

text \<open>
  Shared vocabulary of the development: the machine types, byte slices and their
  Rust operations (\<open>copy_from_slice\<close>, \<open>chunks_exact\<close>, \<open>zip\<close>-style XOR), the
  little-endian conversions \<open>from_le_bytes\<close>/\<open>to_le_bytes\<close>, and the generic lemmas on
  them that the component theories use. Nothing in this theory is specific to one
  component.
\<close>

section \<open>Machine types\<close>

type_synonym u8 = "8 word"
type_synonym u32 = "32 word"
type_synonym u64 = "64 word"
type_synonym u128 = "128 word"
type_synonym bytes = "u8 list"

named_theorems len_simps \<open>lengths of the byte buffers the operations return\<close>
named_theorems bit_rules \<open>bits of the values the operations return\<close>

section \<open>Slices\<close>

text \<open>\<open>slice a b xs\<close> is Rust's \<open>xs[a..b]\<close>; \<open>write_at xs off ys\<close> is
  \<open>xs[off..off + ys.len()].copy_from_slice(ys)\<close>.\<close>

definition slice :: "nat \<Rightarrow> nat \<Rightarrow> 'a list \<Rightarrow> 'a list" where
  "slice a b xs = take (b - a) (drop a xs)"

definition write_at :: "'a list \<Rightarrow> nat \<Rightarrow> 'a list \<Rightarrow> 'a list" where
  "write_at xs off ys = take off xs @ ys @ drop (off + length ys) xs"

lemma length_slice [simp, len_simps]: "length (slice a b xs) = min (b - a) (length xs - a)"
  by (simp add: slice_def)

lemma length_write_at [simp, len_simps]:
  "off + length ys \<le> length xs \<Longrightarrow> length (write_at xs off ys) = length xs"
  by (simp add: write_at_def)

lemma nth_write_at:
  "off + length ys \<le> length xs \<Longrightarrow> i < length xs \<Longrightarrow>
   write_at xs off ys ! i = (if off \<le> i \<and> i < off + length ys then ys ! (i - off) else xs ! i)"
  by (auto simp: write_at_def nth_append min_def)

lemma slice_whole [simp]: "length xs = n \<Longrightarrow> slice 0 n xs = xs"
  by (simp add: slice_def)

lemma slice_append_left: "b \<le> length xs \<Longrightarrow> slice a b (xs @ ys) = slice a b xs"
  by (simp add: slice_def)

lemma slice_append_right:
  "length xs \<le> a \<Longrightarrow> slice a b (xs @ ys) = slice (a - length xs) (b - length xs) ys"
  by (simp add: slice_def)

section \<open>XOR of byte buffers\<close>

text \<open>\<open>for (b, o) in buf.iter_mut().zip(other) { *b ^= *o; }\<close>: the bytes of \<open>buf\<close>
  past the end of \<open>other\<close> stay as they are.\<close>

definition xor_into :: "bytes \<Rightarrow> bytes \<Rightarrow> bytes" where
  "xor_into buf other = map2 (XOR) buf other @ drop (length other) buf"

lemma length_xor_into [simp, len_simps]: "length (xor_into b k) = length b"
  by (simp add: xor_into_def min_def)

lemma nth_xor_into:
  "i < length b \<Longrightarrow> xor_into b k ! i = (if i < length k then b ! i XOR k ! i else b ! i)"
  by (auto simp: xor_into_def nth_append)

lemma xor_into_twice [simp]: "xor_into (xor_into b k) k = b"
  by (rule nth_equalityI) (simp_all add: nth_xor_into xor.assoc)

lemma xor_into_Nil [simp]: "xor_into [] k = []" "xor_into b [] = b"
  by (simp_all add: xor_into_def)

lemma xor_into_Cons [simp]: "xor_into (x # b) (y # k) = (x XOR y) # xor_into b k"
  by (simp add: xor_into_def)

lemma xor_into_commute: "length a = length b \<Longrightarrow> xor_into a b = xor_into b a"
  by (rule nth_equalityI) (simp_all add: nth_xor_into xor.commute)

lemma xor_into_left_twice:
  "length a = length k \<Longrightarrow> length b = length k \<Longrightarrow> xor_into a (xor_into a b) = b"
  by (rule nth_equalityI) (simp_all add: nth_xor_into flip: xor.assoc)

lemma xor_into_assoc:
  "length a = n \<Longrightarrow> length b = n \<Longrightarrow> length c = n \<Longrightarrow>
   xor_into (xor_into a b) c = xor_into a (xor_into b c)"
  by (rule nth_equalityI) (simp_all add: nth_xor_into xor.assoc)

lemma xor_into_append:
  "length a = length k \<Longrightarrow> xor_into (a @ b) (k @ l) = xor_into a k @ xor_into b l"
  by (simp add: xor_into_def)

lemma xor_into_append_left:
  "xor_into (a @ b) k = xor_into a (take (length a) k) @ xor_into b (drop (length a) k)"
  by (rule nth_equalityI) (auto simp: nth_xor_into nth_append)

lemma xor_into_take: "xor_into a (take (length a) k) = xor_into a k"
  by (rule nth_equalityI) (auto simp: nth_xor_into)

lemma xor_into_zeros [simp]: "xor_into a (replicate n 0) = a"
  by (rule nth_equalityI) (auto simp: nth_xor_into)

lemma xor_into_self: "xor_into a a = replicate (length a) 0"
  by (rule nth_equalityI) (auto simp: nth_xor_into)

lemma take_xor_into: "take n (xor_into a b) = xor_into (take n a) b"
  by (rule nth_equalityI) (auto simp: nth_xor_into)

lemma drop_xor_into: "drop n (xor_into a b) = xor_into (drop n a) (drop n b)"
  by (rule nth_equalityI) (auto simp: nth_xor_into nth_append)

section \<open>Fixed-size chunks\<close>

text \<open>\<open>xs.chunks_exact(n)\<close> and its \<open>remainder()\<close>. Rust panics on \<open>n = 0\<close>; every call
  in the modelled code has a positive literal, and the model yields no chunk there.\<close>

function chunks_exact :: "nat \<Rightarrow> 'a list \<Rightarrow> 'a list list" where
  "chunks_exact n xs =
     (if n = 0 \<or> length xs < n then [] else take n xs # chunks_exact n (drop n xs))"
  by pat_completeness auto
termination
  by (relation "measure (\<lambda>(n, xs). length xs)") auto

declare chunks_exact.simps [simp del]

definition chunks_remainder :: "nat \<Rightarrow> 'a list \<Rightarrow> 'a list" where
  "chunks_remainder n xs = drop (n * (length xs div n)) xs"

lemma chunks_exact_short [simp]: "length xs < n \<Longrightarrow> chunks_exact n xs = []"
  by (simp add: chunks_exact.simps)

lemma chunks_exact_Nil [simp]: "chunks_exact n [] = []"
  by (cases n) (simp_all add: chunks_exact.simps)

lemma chunks_exact_append [simp]:
  "length ys = n \<Longrightarrow> 0 < n \<Longrightarrow> chunks_exact n (ys @ xs) = ys # chunks_exact n xs"
  by (simp add: chunks_exact.simps [of n "ys @ xs"])

lemma chunks_exact_length: "b \<in> set (chunks_exact n xs) \<Longrightarrow> length b = n"
proof (induction n xs rule: chunks_exact.induct)
  case (1 n xs)
  then show ?case
    by (cases "n = 0 \<or> length xs < n") (auto simp: chunks_exact.simps [of n xs])
qed

lemma concat_chunks_exact:
  "0 < n \<Longrightarrow> concat (chunks_exact n xs) = take (n * (length xs div n)) xs"
proof (induction n xs rule: chunks_exact.induct)
  case (1 n xs)
  show ?case
  proof (cases "length xs < n")
    case True
    then show ?thesis by simp
  next
    case False
    then have "length xs div n = Suc ((length xs - n) div n)"
      using 1(2) by (simp add: le_div_geq)
    with False 1 show ?thesis
      by (simp add: chunks_exact.simps [of n xs] take_add)
  qed
qed

lemma concat_chunks_exact_aligned:
  "length xs mod n = 0 \<Longrightarrow> 0 < n \<Longrightarrow> concat (chunks_exact n xs) = xs"
  by (simp add: concat_chunks_exact mult_div_mod_eq [symmetric] minus_mod_eq_mult_div [symmetric])

lemma chunks_exact_remainder:
  "0 < n \<Longrightarrow> concat (chunks_exact n xs) @ chunks_remainder n xs = xs"
  by (simp add: concat_chunks_exact chunks_remainder_def)

lemma length_chunks_remainder: "length (chunks_remainder n xs) = length xs mod n"
  by (simp add: chunks_remainder_def minus_mult_div_eq_mod)

lemma chunks_exact_concat:
  "\<forall>b \<in> set bs. length b = n \<Longrightarrow> 0 < n \<Longrightarrow> chunks_exact n (concat bs) = bs"
  by (induction bs) simp_all

lemma length_concat_const: "\<forall>b \<in> set bs. length b = n \<Longrightarrow> length (concat bs) = n * length bs"
  by (induction bs) simp_all

section \<open>Little-endian integers\<close>

text \<open>\<open>uN::from_le_bytes\<close> and \<open>uN::to_le_bytes\<close>, byte 0 least significant; \<open>n\<close> is the
  width in bytes.\<close>

definition from_le_bytes :: "bytes \<Rightarrow> 'a::len word" where
  "from_le_bytes bs = foldr (\<lambda>b acc. ucast b OR push_bit 8 acc) bs 0"

definition to_le_bytes :: "nat \<Rightarrow> 'a::len word \<Rightarrow> bytes" where
  "to_le_bytes n w = map (\<lambda>i. ucast (drop_bit (8 * i) w)) [0..<n]"

lemma length_to_le_bytes [simp, len_simps]: "length (to_le_bytes n w) = n"
  by (simp add: to_le_bytes_def)

lemma nth_to_le_bytes: "i < n \<Longrightarrow> to_le_bytes n w ! i = ucast (drop_bit (8 * i) w)"
  by (simp add: to_le_bytes_def)

lemma from_le_bytes_Nil [simp]: "from_le_bytes [] = 0"
  by (simp add: from_le_bytes_def)

lemma from_le_bytes_Cons:
  "from_le_bytes (b # bs) = (ucast b OR push_bit 8 (from_le_bytes bs) :: 'a::len word)"
  by (simp add: from_le_bytes_def)

lemma unat_u8_less: "unat (b :: u8) < 256"
  using unsigned_less [of b] by simp

lemma bit_u8_less: "bit (b :: u8) n \<Longrightarrow> n < 8"
  using bit_imp_le_length [of b n] by simp

lemma bit_from_le_bytes:
  "bit (from_le_bytes bs :: 'a::len word) n \<longleftrightarrow>
     n < LENGTH('a) \<and> n div 8 < length bs \<and> bit (bs ! (n div 8)) (n mod 8)"
proof (induction bs arbitrary: n)
  case Nil
  then show ?case by simp
next
  case (Cons b bs)
  show ?case
  proof (cases "n < 8")
    case True
    then show ?thesis
      by (auto simp: from_le_bytes_Cons bit_simps)
  next
    case False
    then have "n div 8 = Suc ((n - 8) div 8)" "n mod 8 = (n - 8) mod 8"
      by (simp_all add: le_div_geq le_mod_geq)
    with False show ?thesis
      by (auto simp: from_le_bytes_Cons bit_simps Cons.IH dest: bit_u8_less)
  qed
qed

lemma bit_to_le_bytes:
  "i < n \<Longrightarrow> bit (to_le_bytes n (w :: 'a::len word) ! i) j \<longleftrightarrow> j < 8 \<and> bit w (8 * i + j)"
  by (auto simp: nth_to_le_bytes bit_simps dest: bit_imp_le_length)

lemma from_to_le_bytes [simp]:
  "LENGTH('a) \<le> 8 * n \<Longrightarrow> from_le_bytes (to_le_bytes n w) = (w :: 'a::len word)"
  by (rule bit_word_eqI) (simp add: bit_from_le_bytes bit_to_le_bytes less_mult_imp_div_less)

lemma to_from_le_bytes [simp]:
  assumes "length bs = n" "8 * n \<le> LENGTH('a)"
  shows "to_le_bytes n (from_le_bytes bs :: 'a::len word) = bs"
proof (rule nth_equalityI)
  show "length (to_le_bytes n (from_le_bytes bs :: 'a word)) = length bs"
    using assms by simp
next
  fix i assume "i < length (to_le_bytes n (from_le_bytes bs :: 'a word))"
  then have i: "i < n" by simp
  show "to_le_bytes n (from_le_bytes bs :: 'a word) ! i = bs ! i"
    using i assms by (intro bit_word_eqI) (auto simp: bit_to_le_bytes bit_from_le_bytes)
qed

lemma to_le_bytes_inject:
  "LENGTH('a) \<le> 8 * n \<Longrightarrow> to_le_bytes n (v :: 'a::len word) = to_le_bytes n w \<longleftrightarrow> v = w"
  by (metis from_to_le_bytes)

lemma from_le_bytes_inject:
  "length bs = n \<Longrightarrow> length cs = n \<Longrightarrow> 8 * n \<le> LENGTH('a) \<Longrightarrow>
   (from_le_bytes bs :: 'a::len word) = from_le_bytes cs \<longleftrightarrow> bs = cs"
  by (metis to_from_le_bytes)

lemma to_le_bytes_xor: "to_le_bytes n (v XOR w) = xor_into (to_le_bytes n v) (to_le_bytes n w)"
  by (rule nth_equalityI) (simp_all add: nth_to_le_bytes nth_xor_into bit_eq_iff bit_simps)

lemma from_le_bytes_xor:
  "length bs = length cs \<Longrightarrow>
   (from_le_bytes (xor_into bs cs) :: 'a::len word) = from_le_bytes bs XOR from_le_bytes cs"
  by (rule bit_word_eqI) (auto simp: bit_from_le_bytes bit_simps nth_xor_into)

lemma to_le_bytes_0 [simp]: "to_le_bytes n 0 = replicate n 0"
  by (rule nth_equalityI) (simp_all add: nth_to_le_bytes)

section \<open>Power-of-two index masks\<close>

text \<open>\<open>x & (n - 1)\<close> for a power of two \<open>n\<close>, the gather index of the fused round
  functions.\<close>

lemma and_mask_mod: "(x :: nat) AND (2 ^ k - 1) = x mod 2 ^ k"
  using take_bit_eq_mask [of k x] by (simp add: take_bit_eq_mod mask_eq_exp_minus_1)

section \<open>Loops that write an array\<close>

lemma fold_list_update_length [simp]:
  "length (fold (\<lambda>x l. l[f x := g x l]) xs ys) = length ys"
  by (induction xs arbitrary: ys) simp_all

lemma fold_scatter_other:
  "(\<And>x. x \<in> set xs \<Longrightarrow> \<sigma> x \<noteq> i) \<Longrightarrow> fold (\<lambda>x l. l[\<sigma> x := g x]) xs ys ! i = ys ! i"
  by (induction xs arbitrary: ys) simp_all

lemma fold_scatter_hit:
  "distinct (map \<sigma> xs) \<Longrightarrow> x \<in> set xs \<Longrightarrow> \<sigma> x < length ys \<Longrightarrow>
   fold (\<lambda>x l. l[\<sigma> x := g x]) xs ys ! \<sigma> x = g x"
proof (induction xs arbitrary: ys)
  case Nil
  then show ?case by simp
next
  case (Cons y xs)
  show ?case
  proof (cases "x = y")
    case True
    with Cons.prems have "\<And>z. z \<in> set xs \<Longrightarrow> \<sigma> z \<noteq> \<sigma> x"
      by (auto simp: image_iff)
    with True Cons.prems show ?thesis by (simp add: fold_scatter_other)
  next
    case False
    with Cons show ?thesis by simp
  qed
qed

end
