(* ===== verification/Tables.thy ===== *)
theory Tables
  imports Table_Data
begin

text \<open>
  \<open>crates/dstu-core/src/hazmat/tables.rs\<close>: the GF(2^8) multiplication, the MDS
  matrices, the linear layer in its two resource profiles (the default one over
  \<open>MDS_TABLE\<close>/\<open>MDS_INV_TABLE\<close>, the \<open>small-tables\<close> one over \<open>gf_mul\<close>) and the fused
  S-box-and-mix lookups. The lemmas show that the inverse S-boxes and the inverse matrix
  undo the forward ones, that both linear layers are additive, and that the two profiles
  agree entry by entry.
\<close>

section \<open>Definitions\<close>

definition ROWS :: nat where "ROWS = 8"

definition MDS_MATRIX :: "u8 list list" where
  "MDS_MATRIX = [
    [0x01, 0x01, 0x05, 0x01, 0x08, 0x06, 0x07, 0x04],
    [0x04, 0x01, 0x01, 0x05, 0x01, 0x08, 0x06, 0x07],
    [0x07, 0x04, 0x01, 0x01, 0x05, 0x01, 0x08, 0x06],
    [0x06, 0x07, 0x04, 0x01, 0x01, 0x05, 0x01, 0x08],
    [0x08, 0x06, 0x07, 0x04, 0x01, 0x01, 0x05, 0x01],
    [0x01, 0x08, 0x06, 0x07, 0x04, 0x01, 0x01, 0x05],
    [0x05, 0x01, 0x08, 0x06, 0x07, 0x04, 0x01, 0x01],
    [0x01, 0x05, 0x01, 0x08, 0x06, 0x07, 0x04, 0x01]]"

definition MDS_INV_MATRIX :: "u8 list list" where
  "MDS_INV_MATRIX = [
    [0xad, 0x95, 0x76, 0xa8, 0x2f, 0x49, 0xd7, 0xca],
    [0xca, 0xad, 0x95, 0x76, 0xa8, 0x2f, 0x49, 0xd7],
    [0xd7, 0xca, 0xad, 0x95, 0x76, 0xa8, 0x2f, 0x49],
    [0x49, 0xd7, 0xca, 0xad, 0x95, 0x76, 0xa8, 0x2f],
    [0x2f, 0x49, 0xd7, 0xca, 0xad, 0x95, 0x76, 0xa8],
    [0xa8, 0x2f, 0x49, 0xd7, 0xca, 0xad, 0x95, 0x76],
    [0x76, 0xa8, 0x2f, 0x49, 0xd7, 0xca, 0xad, 0x95],
    [0x95, 0x76, 0xa8, 0x2f, 0x49, 0xd7, 0xca, 0xad]]"

text \<open>One pass of the \<open>for _ in 0..8\<close> loop of \<open>gf_mul\<close> on \<open>(x, y, result)\<close>.\<close>

definition gf_mul_step :: "u8 \<times> u8 \<times> u8 \<Rightarrow> u8 \<times> u8 \<times> u8" where
  "gf_mul_step = (\<lambda>(x, y, result).
     (push_bit 1 x XOR (0x1D AND (0 - drop_bit 7 x)),
      drop_bit 1 y,
      result XOR (x AND (0 - (y AND 1)))))"

definition gf_mul :: "u8 \<Rightarrow> u8 \<Rightarrow> u8" where
  "gf_mul x y = snd (snd ((gf_mul_step ^^ 8) (x, y, 0)))"

text \<open>The default profile's linear layer: one table lookup per byte of the column,
  accumulated by XOR.\<close>

definition mix_column :: "u64 list list \<Rightarrow> bytes \<Rightarrow> u64" where
  "mix_column table column =
     foldl (\<lambda>acc in_row. acc XOR table ! in_row ! unat (column ! in_row)) 0 [0..<length column]"

definition apply_matrix :: "bytes list \<Rightarrow> u64 list list \<Rightarrow> bytes list" where
  "apply_matrix state table = map (\<lambda>column. to_le_bytes 8 (mix_column table column)) state"

definition apply_matrix_via_gf_mul :: "bytes list \<Rightarrow> u8 list list \<Rightarrow> bytes list" where
  "apply_matrix_via_gf_mul state matrix =
     map (\<lambda>column. map (\<lambda>out_row.
       foldl (\<lambda>out_byte in_row. out_byte XOR gf_mul (column ! in_row) (matrix ! out_row ! in_row))
         0 [0..<length column]) [0..<ROWS]) state"

definition apply_forward_matrix :: "bytes list \<Rightarrow> bytes list" where
  "apply_forward_matrix state = apply_matrix state MDS_TABLE"

definition apply_forward_matrix_small :: "bytes list \<Rightarrow> bytes list" where
  "apply_forward_matrix_small state = apply_matrix_via_gf_mul state MDS_MATRIX"

definition apply_inverse_matrix :: "bytes list \<Rightarrow> bytes list" where
  "apply_inverse_matrix state = apply_matrix state MDS_INV_TABLE"

definition apply_inverse_matrix_small :: "bytes list \<Rightarrow> bytes list" where
  "apply_inverse_matrix_small state = apply_matrix_via_gf_mul state MDS_INV_MATRIX"

definition mds_column_via_gf_mul :: "u8 list list \<Rightarrow> nat \<Rightarrow> u8 \<Rightarrow> u64" where
  "mds_column_via_gf_mul matrix in_row byte =
     foldl (\<lambda>word out_row.
       word OR push_bit (8 * out_row) (ucast (gf_mul byte (matrix ! out_row ! in_row)))) 0 [0..<ROWS]"

definition build_sbox_mds :: "u64 list list" where
  "build_sbox_mds = map (\<lambda>row. map (\<lambda>byte.
     MDS_TABLE ! row ! unat (SBOXES ! (row mod 4) ! byte)) [0..<256]) [0..<ROWS]"

definition SBOX_MDS :: "u64 list list" where "SBOX_MDS = build_sbox_mds"

definition forward_sbox_mds :: "nat \<Rightarrow> u8 \<Rightarrow> u64" where
  "forward_sbox_mds row byte = SBOX_MDS ! row ! unat byte"

definition forward_sbox_mds_small :: "nat \<Rightarrow> u8 \<Rightarrow> u64" where
  "forward_sbox_mds_small row byte =
     mds_column_via_gf_mul MDS_MATRIX row (SBOXES ! (row mod 4) ! unat byte)"

definition build_sbox_mds_dec :: "u64 list list" where
  "build_sbox_mds_dec = map (\<lambda>row. map (\<lambda>byte.
     MDS_INV_TABLE ! row ! unat (SBOXES_DEC ! (row mod 4) ! byte)) [0..<256]) [0..<ROWS]"

definition SBOX_MDS_DEC :: "u64 list list" where "SBOX_MDS_DEC = build_sbox_mds_dec"

definition inverse_sbox_mds :: "nat \<Rightarrow> u8 \<Rightarrow> u64" where
  "inverse_sbox_mds row byte = SBOX_MDS_DEC ! row ! unat byte"

definition inverse_sbox_mds_small :: "nat \<Rightarrow> u8 \<Rightarrow> u64" where
  "inverse_sbox_mds_small row byte =
     mds_column_via_gf_mul MDS_INV_MATRIX row (SBOXES_DEC ! (row mod 4) ! unat byte)"

section \<open>Additive functions on bytes\<close>

text \<open>A function on bytes that distributes over XOR is fixed by its values on the eight
  powers of two; \<open>xor_comb\<close> is the combination of such values that a byte selects, and
  \<open>xor_span\<close> lists it for all bytes in order.\<close>

definition additive8 :: "(u8 \<Rightarrow> 'a::len word) \<Rightarrow> bool" where
  "additive8 f \<longleftrightarrow> (\<forall>x y. f (x XOR y) = f x XOR f y)"

fun xor_comb :: "'a::len word list \<Rightarrow> nat \<Rightarrow> 'a word" where
  "xor_comb [] n = 0"
| "xor_comb (b # bs) n = (if odd n then b else 0) XOR xor_comb bs (n div 2)"

fun xor_span :: "'a::len word list \<Rightarrow> 'a word list" where
  "xor_span [] = [0]"
| "xor_span (b # bs) = concat (map (\<lambda>w. [w, b XOR w]) (xor_span bs))"

lemma length_xor_span: "length (xor_span bs) = 2 ^ length bs"
  by (induction bs) (simp_all add: length_concat comp_def sum_list_triv)

lemma nth_concat_pairs:
  "n < 2 * length ws \<Longrightarrow>
   concat (map (\<lambda>w. [w, b XOR w]) ws) ! n = (if odd n then b XOR ws ! (n div 2) else ws ! (n div 2))"
proof (induction ws arbitrary: n)
  case Nil
  then show ?case by simp
next
  case (Cons w ws)
  consider "n = 0" | "n = 1" | m where "n = Suc (Suc m)"
    by (metis One_nat_def nat.exhaust)
  then show ?case
    using Cons by cases simp_all
qed

lemma nth_xor_span: "n < 2 ^ length bs \<Longrightarrow> xor_span bs ! n = xor_comb bs n"
proof (induction bs arbitrary: n)
  case Nil
  then show ?case by simp
next
  case (Cons b bs)
  then have "n div 2 < 2 ^ length bs" by (simp add: less_mult_imp_div_less)
  then show ?case
    using Cons by (simp add: nth_concat_pairs length_xor_span)
qed

lemma additive8_0: "additive8 f \<Longrightarrow> f 0 = 0"
  by (metis additive8_def xor_self_eq)

lemma of_nat_shift_split:
  "(of_nat (push_bit j n) :: u8) =
     (if odd n then push_bit j 1 else 0) XOR of_nat (push_bit (Suc j) (n div 2))"
proof (rule bit_word_eqI)
  have bit_word_of_nat_iff: "bit (of_nat m :: u8) k \<longleftrightarrow> k < 8 \<and> bit m k" for m k
    by transfer (simp add: bit_take_bit_iff bit_of_nat_iff)
  fix i assume "i < LENGTH(8)"
  have "bit n (i - j) \<longleftrightarrow> (if i \<le> j then odd n else bit (n div 2) (i - Suc j))"
    by (auto simp: bit_0 Suc_diff_Suc not_le simp flip: bit_Suc)
  with \<open>i < LENGTH(8)\<close> show "bit (of_nat (push_bit j n) :: u8) i =
      bit ((if odd n then push_bit j 1 else 0) XOR of_nat (push_bit (Suc j) (n div 2)) :: u8) i"
    by (auto simp: bit_word_of_nat_iff bit_push_bit_iff_nat bit_push_bit_iff bit_xor_iff bit_1_iff
        simp del: push_bit_Suc push_bit_of_1 split: if_splits)
qed

lemma additive8_comb_shift:
  assumes "additive8 f"
  shows "push_bit j n < (256 :: nat) \<Longrightarrow> j \<le> 8 \<Longrightarrow>
    f (of_nat (push_bit j n)) = xor_comb (map (\<lambda>i. f (push_bit i 1)) [j..<8]) n"
proof (induction "8 - j" arbitrary: j n)
  case 0
  then show ?case using additive8_0 [OF assms] by (cases "n = 0") (simp_all add: push_bit_eq_mult)
next
  case (Suc k)
  from Suc.hyps(2) have j: "j < 8" by simp
  have "push_bit (Suc j) (n div 2) \<le> push_bit j n"
    unfolding push_bit_eq_mult power_Suc by (simp add: mult.assoc [symmetric])
  with Suc.prems(1) have "push_bit (Suc j) (n div 2) < 256" by (rule le_less_trans [rotated])
  then have IH: "f (of_nat (push_bit (Suc j) (n div 2))) =
      xor_comb (map (\<lambda>i. f (push_bit i 1)) [Suc j..<8]) (n div 2)"
    using Suc.hyps(2) j by (intro Suc.hyps(1)) simp_all
  have "f (of_nat (push_bit j n)) =
      f (if odd n then push_bit j 1 else 0) XOR f (of_nat (push_bit (Suc j) (n div 2)))"
    using assms by (subst of_nat_shift_split) (simp add: additive8_def)
  with IH show ?case
    using j additive8_0 [OF assms] by (simp only: upt_conv_Cons list.map xor_comb.simps if_distrib)
qed

lemma additive8_comb:
  assumes "additive8 f"
  shows "f x = xor_comb (map (\<lambda>i. f (push_bit i 1)) [0..<8]) (unat x)"
  using additive8_comb_shift [OF assms, of 0 "unat x"] unsigned_less [of x] by simp

lemma additive8_eqI:
  assumes "additive8 f" "additive8 g" "map (\<lambda>i. f (push_bit i 1)) [0..<8] = map (\<lambda>i. g (push_bit i 1)) [0..<8]"
  shows "f x = g x"
  using assms by (metis additive8_comb)

lemma additive8_compose_xor:
  "additive8 f \<Longrightarrow> (\<And>v w. g (v XOR w) = g v XOR g w) \<Longrightarrow> additive8 (\<lambda>x. g (f x))"
  by (simp add: additive8_def)

section \<open>GF(2^8) multiplication\<close>

lemma byte_mask: "(0 - drop_bit 7 (x :: u8)) = (if bit x 7 then - 1 else 0)"
proof -
  have "drop_bit 7 x = (if bit x 7 then 1 else 0)"
  proof (rule bit_word_eqI)
    fix n
    have "\<not> bit x (7 + Suc m)" for m
      using bit_u8_less [of x "7 + Suc m"] by auto
    then show "bit (drop_bit 7 x) n = bit (if bit x 7 then 1 else 0 :: u8) n"
      by (cases n) (simp_all add: bit_drop_bit_eq bit_1_iff)
  qed
  then show ?thesis by simp
qed

lemma xtime_xor:
  "push_bit 1 (x XOR y) XOR (0x1D AND (0 - drop_bit 7 (x XOR y :: u8))) =
   (push_bit 1 x XOR (0x1D AND (0 - drop_bit 7 x))) XOR (push_bit 1 y XOR (0x1D AND (0 - drop_bit 7 y)))"
  unfolding byte_mask by (auto simp: bit_xor_iff push_bit_xor ac_simps)

lemma and_mask_xor: "(x XOR y) AND (m :: u8) = (x AND m) XOR (y AND m)"
  by (rule bit_word_eqI) (auto simp: bit_simps)

lemma gf_mul_step_xor:
  assumes "gf_mul_step (x, y, r) = (x1, y1, r1)" "gf_mul_step (x', y, r') = (x1', y1', r1')"
  shows "gf_mul_step (x XOR x', y, r XOR r') = (x1 XOR x1', y1, r1 XOR r1') \<and> y1' = y1"
proof -
  have e: "x1 XOR x1' = push_bit 1 (x XOR x') XOR (0x1D AND (0 - drop_bit 7 (x XOR x')))"
    using assms unfolding gf_mul_step_def prod.case prod.inject by (simp only: xtime_xor)
  show ?thesis
    unfolding e using assms
    by (auto simp: gf_mul_step_def and_mask_xor ac_simps simp del: push_bit_xor drop_bit_xor)
qed

lemma gf_mul_steps_xor:
  "(gf_mul_step ^^ n) (x, y, r) = (x1, y1, r1) \<Longrightarrow> (gf_mul_step ^^ n) (x', y, r') = (x1', y1', r1') \<Longrightarrow>
   (gf_mul_step ^^ n) (x XOR x', y, r XOR r') = (x1 XOR x1', y1, r1 XOR r1') \<and> y1' = y1"
proof (induction n arbitrary: x1 y1 r1 x1' y1' r1')
  case 0
  then show ?case by simp
next
  case (Suc n)
  obtain x2 y2 r2 where 1: "(gf_mul_step ^^ n) (x, y, r) = (x2, y2, r2)" by (metis prod_cases3)
  obtain x2' y2' r2' where 2: "(gf_mul_step ^^ n) (x', y, r') = (x2', y2', r2')" by (metis prod_cases3)
  show ?case
    using Suc.IH [OF 1 2] Suc.prems gf_mul_step_xor [of x2 y2 r2 x1 y1 r1 x2' r2' x1' y1' r1']
    by (simp add: 1 2)
qed

lemma gf_mul_xor: "gf_mul (x XOR x') y = gf_mul x y XOR gf_mul x' y"
proof -
  obtain x1 y1 r1 where 1: "(gf_mul_step ^^ 8) (x, y, 0) = (x1, y1, r1)" by (metis prod_cases3)
  obtain x1' y1' r1' where 2: "(gf_mul_step ^^ 8) (x', y, 0) = (x1', y1', r1')" by (metis prod_cases3)
  show ?thesis
    using gf_mul_steps_xor [OF 1 2] by (simp add: gf_mul_def 1 2)
qed

lemma gf_mul_0 [simp]: "gf_mul 0 y = 0"
  by (metis gf_mul_xor xor_self_eq)

text \<open>The product selects, by the bits of \<open>y\<close>, the successive doublings of \<open>x\<close>.\<close>

definition xtime :: "u8 \<Rightarrow> u8" where
  "xtime x = push_bit 1 x XOR (0x1D AND (0 - drop_bit 7 x))"

lemma gf_mul_step_xtime:
  "gf_mul_step (x, y, r) = (xtime x, drop_bit 1 y, r XOR (if odd (unat y) then x else 0))"
proof -
  have "y AND 1 = (if odd (unat y) then 1 else 0)"
    by (simp add: and_one_eq mod_2_eq_odd bit_unsigned_iff flip: bit_0)
  then show ?thesis by (simp add: gf_mul_step_def xtime_def)
qed

lemma gf_mul_steps_comb:
  "snd (snd ((gf_mul_step ^^ n) (x, y, r))) =
     r XOR xor_comb (map (\<lambda>j. (xtime ^^ j) x) [0..<n]) (unat y)"
proof (induction n arbitrary: x y r)
  case 0
  then show ?case by simp
next
  case (Suc n)
  have "map (\<lambda>j. (xtime ^^ j) x) [0..<Suc n] = x # map (\<lambda>j. (xtime ^^ j) (xtime x)) [0..<n]"
    by (simp only: upt_conv_Cons [of 0 "Suc n"] map_Suc_upt [symmetric]) (simp add: funpow_swap1)
  moreover have "unat (y div 2) = unat y div 2"
    by (simp add: unat_div_distrib)
  ultimately show ?case
    using Suc [of "xtime x" "drop_bit 1 y"]
    by (simp add: funpow_Suc_right gf_mul_step_xtime drop_bit_Suc xor.assoc
        del: funpow.simps upt_Suc)
qed

lemma gf_mul_comb: "gf_mul x y = xor_comb (map (\<lambda>j. (xtime ^^ j) x) [0..<8]) (unat y)"
  by (simp add: gf_mul_def gf_mul_steps_comb)

lemma xtime_powers:
  "xtime 1 = 2" "xtime 2 = 4" "xtime 4 = 8" "xtime 8 = 16" "xtime 16 = 32" "xtime 32 = 64"
  "xtime 64 = 128" "xtime 128 = 0x1D" "xtime 0x1D = 0x3A" "xtime 0x3A = 0x74" "xtime 0x74 = 0xE8"
  "xtime 0xE8 = 0xCD" "xtime 0xCD = 0x87" "xtime 0x87 = 0x13"
  by (simp_all add: xtime_def)

lemma mds_column_bytes:
  "mds_column_via_gf_mul matrix in_row byte =
     from_le_bytes (map (\<lambda>out_row. gf_mul byte (matrix ! out_row ! in_row)) [0..<8])"
  by (simp add: mds_column_via_gf_mul_def ROWS_def from_le_bytes_def upt_rec push_bit_or ac_simps)

lemma mds_column_additive: "additive8 (mds_column_via_gf_mul matrix in_row)"
  unfolding additive8_def
proof (intro allI)
  fix x y
  have "map (\<lambda>out_row. gf_mul (x XOR y) (matrix ! out_row ! in_row)) [0..<8] =
      xor_into (map (\<lambda>out_row. gf_mul x (matrix ! out_row ! in_row)) [0..<8])
        (map (\<lambda>out_row. gf_mul y (matrix ! out_row ! in_row)) [0..<8])"
    by (rule nth_equalityI) (simp_all add: nth_xor_into gf_mul_xor)
  then show "mds_column_via_gf_mul matrix in_row (x XOR y) =
      mds_column_via_gf_mul matrix in_row x XOR mds_column_via_gf_mul matrix in_row y"
    by (simp add: mds_column_bytes from_le_bytes_xor)
qed

section \<open>The precomputed tables\<close>

lemma table_row_span:
  assumes "row = xor_span (map (\<lambda>i. f (push_bit i 1)) [0..<8])" "additive8 f"
  shows "row ! unat (x :: u8) = f x"
proof -
  have "row ! unat x = xor_comb (map (\<lambda>i. f (push_bit i 1)) [0..<8]) (unat x)"
    unfolding assms(1) using unsigned_less [of x] by (subst nth_xor_span) simp_all
  then show ?thesis using additive8_comb [OF assms(2), of x] by simp
qed

lemma basis8: "[0..<8] = [0, 1, 2, 3, 4, 5, 6, 7 :: nat]"
  by (simp add: upt_rec)

lemma gf_mul_basis:
  "gf_mul x y = xor_comb [x, xtime x, xtime (xtime x), xtime (xtime (xtime x)),
     xtime (xtime (xtime (xtime x))), xtime (xtime (xtime (xtime (xtime x)))),
     xtime (xtime (xtime (xtime (xtime (xtime x))))),
     xtime (xtime (xtime (xtime (xtime (xtime (xtime x))))))] (unat y)"
  by (simp add: gf_mul_comb basis8 numeral_eq_Suc)

lemmas column_eval = basis8 mds_column_bytes gf_mul_basis xtime_powers from_le_bytes_def

lemma MDS_TABLE_0_basis:
  "map (\<lambda>i. mds_column_via_gf_mul MDS_MATRIX 0 (push_bit i 1)) [0..<8] =
   map (\<lambda>i. MDS_TABLE_0 ! i) [1, 2, 4, 8, 16, 32, 64, 128]"
  by (simp add: column_eval MDS_MATRIX_def MDS_TABLE_0_def)

lemma MDS_TABLE_1_basis:
  "map (\<lambda>i. mds_column_via_gf_mul MDS_MATRIX 1 (push_bit i 1)) [0..<8] =
   map (\<lambda>i. MDS_TABLE_1 ! i) [1, 2, 4, 8, 16, 32, 64, 128]"
  by (simp add: column_eval MDS_MATRIX_def MDS_TABLE_1_def)

lemma MDS_TABLE_2_basis:
  "map (\<lambda>i. mds_column_via_gf_mul MDS_MATRIX 2 (push_bit i 1)) [0..<8] =
   map (\<lambda>i. MDS_TABLE_2 ! i) [1, 2, 4, 8, 16, 32, 64, 128]"
  by (simp add: column_eval MDS_MATRIX_def MDS_TABLE_2_def)

lemma MDS_TABLE_3_basis:
  "map (\<lambda>i. mds_column_via_gf_mul MDS_MATRIX 3 (push_bit i 1)) [0..<8] =
   map (\<lambda>i. MDS_TABLE_3 ! i) [1, 2, 4, 8, 16, 32, 64, 128]"
  by (simp add: column_eval MDS_MATRIX_def MDS_TABLE_3_def)

lemma MDS_TABLE_4_basis:
  "map (\<lambda>i. mds_column_via_gf_mul MDS_MATRIX 4 (push_bit i 1)) [0..<8] =
   map (\<lambda>i. MDS_TABLE_4 ! i) [1, 2, 4, 8, 16, 32, 64, 128]"
  by (simp add: column_eval MDS_MATRIX_def MDS_TABLE_4_def)

lemma MDS_TABLE_5_basis:
  "map (\<lambda>i. mds_column_via_gf_mul MDS_MATRIX 5 (push_bit i 1)) [0..<8] =
   map (\<lambda>i. MDS_TABLE_5 ! i) [1, 2, 4, 8, 16, 32, 64, 128]"
  by (simp add: column_eval MDS_MATRIX_def MDS_TABLE_5_def)

lemma MDS_TABLE_6_basis:
  "map (\<lambda>i. mds_column_via_gf_mul MDS_MATRIX 6 (push_bit i 1)) [0..<8] =
   map (\<lambda>i. MDS_TABLE_6 ! i) [1, 2, 4, 8, 16, 32, 64, 128]"
  by (simp add: column_eval MDS_MATRIX_def MDS_TABLE_6_def)

lemma MDS_TABLE_7_basis:
  "map (\<lambda>i. mds_column_via_gf_mul MDS_MATRIX 7 (push_bit i 1)) [0..<8] =
   map (\<lambda>i. MDS_TABLE_7 ! i) [1, 2, 4, 8, 16, 32, 64, 128]"
  by (simp add: column_eval MDS_MATRIX_def MDS_TABLE_7_def)

lemma MDS_INV_TABLE_0_basis:
  "map (\<lambda>i. mds_column_via_gf_mul MDS_INV_MATRIX 0 (push_bit i 1)) [0..<8] =
   map (\<lambda>i. MDS_INV_TABLE_0 ! i) [1, 2, 4, 8, 16, 32, 64, 128]"
  by (simp add: column_eval MDS_INV_MATRIX_def MDS_INV_TABLE_0_def)

lemma MDS_INV_TABLE_1_basis:
  "map (\<lambda>i. mds_column_via_gf_mul MDS_INV_MATRIX 1 (push_bit i 1)) [0..<8] =
   map (\<lambda>i. MDS_INV_TABLE_1 ! i) [1, 2, 4, 8, 16, 32, 64, 128]"
  by (simp add: column_eval MDS_INV_MATRIX_def MDS_INV_TABLE_1_def)

lemma MDS_INV_TABLE_2_basis:
  "map (\<lambda>i. mds_column_via_gf_mul MDS_INV_MATRIX 2 (push_bit i 1)) [0..<8] =
   map (\<lambda>i. MDS_INV_TABLE_2 ! i) [1, 2, 4, 8, 16, 32, 64, 128]"
  by (simp add: column_eval MDS_INV_MATRIX_def MDS_INV_TABLE_2_def)

lemma MDS_INV_TABLE_3_basis:
  "map (\<lambda>i. mds_column_via_gf_mul MDS_INV_MATRIX 3 (push_bit i 1)) [0..<8] =
   map (\<lambda>i. MDS_INV_TABLE_3 ! i) [1, 2, 4, 8, 16, 32, 64, 128]"
  by (simp add: column_eval MDS_INV_MATRIX_def MDS_INV_TABLE_3_def)

lemma MDS_INV_TABLE_4_basis:
  "map (\<lambda>i. mds_column_via_gf_mul MDS_INV_MATRIX 4 (push_bit i 1)) [0..<8] =
   map (\<lambda>i. MDS_INV_TABLE_4 ! i) [1, 2, 4, 8, 16, 32, 64, 128]"
  by (simp add: column_eval MDS_INV_MATRIX_def MDS_INV_TABLE_4_def)

lemma MDS_INV_TABLE_5_basis:
  "map (\<lambda>i. mds_column_via_gf_mul MDS_INV_MATRIX 5 (push_bit i 1)) [0..<8] =
   map (\<lambda>i. MDS_INV_TABLE_5 ! i) [1, 2, 4, 8, 16, 32, 64, 128]"
  by (simp add: column_eval MDS_INV_MATRIX_def MDS_INV_TABLE_5_def)

lemma MDS_INV_TABLE_6_basis:
  "map (\<lambda>i. mds_column_via_gf_mul MDS_INV_MATRIX 6 (push_bit i 1)) [0..<8] =
   map (\<lambda>i. MDS_INV_TABLE_6 ! i) [1, 2, 4, 8, 16, 32, 64, 128]"
  by (simp add: column_eval MDS_INV_MATRIX_def MDS_INV_TABLE_6_def)

lemma MDS_INV_TABLE_7_basis:
  "map (\<lambda>i. mds_column_via_gf_mul MDS_INV_MATRIX 7 (push_bit i 1)) [0..<8] =
   map (\<lambda>i. MDS_INV_TABLE_7 ! i) [1, 2, 4, 8, 16, 32, 64, 128]"
  by (simp add: column_eval MDS_INV_MATRIX_def MDS_INV_TABLE_7_def)

lemma MDS_TABLE_0_span:
  "MDS_TABLE_0 = xor_span (map (\<lambda>i. MDS_TABLE_0 ! i) [1, 2, 4, 8, 16, 32, 64, 128])"
  by (simp add: MDS_TABLE_0_def)

lemma MDS_TABLE_1_span:
  "MDS_TABLE_1 = xor_span (map (\<lambda>i. MDS_TABLE_1 ! i) [1, 2, 4, 8, 16, 32, 64, 128])"
  by (simp add: MDS_TABLE_1_def)

lemma MDS_TABLE_2_span:
  "MDS_TABLE_2 = xor_span (map (\<lambda>i. MDS_TABLE_2 ! i) [1, 2, 4, 8, 16, 32, 64, 128])"
  by (simp add: MDS_TABLE_2_def)

lemma MDS_TABLE_3_span:
  "MDS_TABLE_3 = xor_span (map (\<lambda>i. MDS_TABLE_3 ! i) [1, 2, 4, 8, 16, 32, 64, 128])"
  by (simp add: MDS_TABLE_3_def)

lemma MDS_TABLE_4_span:
  "MDS_TABLE_4 = xor_span (map (\<lambda>i. MDS_TABLE_4 ! i) [1, 2, 4, 8, 16, 32, 64, 128])"
  by (simp add: MDS_TABLE_4_def)

lemma MDS_TABLE_5_span:
  "MDS_TABLE_5 = xor_span (map (\<lambda>i. MDS_TABLE_5 ! i) [1, 2, 4, 8, 16, 32, 64, 128])"
  by (simp add: MDS_TABLE_5_def)

lemma MDS_TABLE_6_span:
  "MDS_TABLE_6 = xor_span (map (\<lambda>i. MDS_TABLE_6 ! i) [1, 2, 4, 8, 16, 32, 64, 128])"
  by (simp add: MDS_TABLE_6_def)

lemma MDS_TABLE_7_span:
  "MDS_TABLE_7 = xor_span (map (\<lambda>i. MDS_TABLE_7 ! i) [1, 2, 4, 8, 16, 32, 64, 128])"
  by (simp add: MDS_TABLE_7_def)

lemmas MDS_TABLE_row_facts =
  table_row_span [OF MDS_TABLE_0_span [folded MDS_TABLE_0_basis] mds_column_additive]
  table_row_span [OF MDS_TABLE_1_span [folded MDS_TABLE_1_basis] mds_column_additive]
  table_row_span [OF MDS_TABLE_2_span [folded MDS_TABLE_2_basis] mds_column_additive]
  table_row_span [OF MDS_TABLE_3_span [folded MDS_TABLE_3_basis] mds_column_additive]
  table_row_span [OF MDS_TABLE_4_span [folded MDS_TABLE_4_basis] mds_column_additive]
  table_row_span [OF MDS_TABLE_5_span [folded MDS_TABLE_5_basis] mds_column_additive]
  table_row_span [OF MDS_TABLE_6_span [folded MDS_TABLE_6_basis] mds_column_additive]
  table_row_span [OF MDS_TABLE_7_span [folded MDS_TABLE_7_basis] mds_column_additive]

lemma MDS_TABLE_column: "r < 8 \<Longrightarrow> MDS_TABLE ! r ! unat x = mds_column_via_gf_mul MDS_MATRIX r x"
  using MDS_TABLE_row_facts by (auto simp: MDS_TABLE_def less_Suc_eq numeral_eq_Suc)

lemma MDS_INV_TABLE_0_span:
  "MDS_INV_TABLE_0 = xor_span (map (\<lambda>i. MDS_INV_TABLE_0 ! i) [1, 2, 4, 8, 16, 32, 64, 128])"
  by (simp add: MDS_INV_TABLE_0_def)

lemma MDS_INV_TABLE_1_span:
  "MDS_INV_TABLE_1 = xor_span (map (\<lambda>i. MDS_INV_TABLE_1 ! i) [1, 2, 4, 8, 16, 32, 64, 128])"
  by (simp add: MDS_INV_TABLE_1_def)

lemma MDS_INV_TABLE_2_span:
  "MDS_INV_TABLE_2 = xor_span (map (\<lambda>i. MDS_INV_TABLE_2 ! i) [1, 2, 4, 8, 16, 32, 64, 128])"
  by (simp add: MDS_INV_TABLE_2_def)

lemma MDS_INV_TABLE_3_span:
  "MDS_INV_TABLE_3 = xor_span (map (\<lambda>i. MDS_INV_TABLE_3 ! i) [1, 2, 4, 8, 16, 32, 64, 128])"
  by (simp add: MDS_INV_TABLE_3_def)

lemma MDS_INV_TABLE_4_span:
  "MDS_INV_TABLE_4 = xor_span (map (\<lambda>i. MDS_INV_TABLE_4 ! i) [1, 2, 4, 8, 16, 32, 64, 128])"
  by (simp add: MDS_INV_TABLE_4_def)

lemma MDS_INV_TABLE_5_span:
  "MDS_INV_TABLE_5 = xor_span (map (\<lambda>i. MDS_INV_TABLE_5 ! i) [1, 2, 4, 8, 16, 32, 64, 128])"
  by (simp add: MDS_INV_TABLE_5_def)

lemma MDS_INV_TABLE_6_span:
  "MDS_INV_TABLE_6 = xor_span (map (\<lambda>i. MDS_INV_TABLE_6 ! i) [1, 2, 4, 8, 16, 32, 64, 128])"
  by (simp add: MDS_INV_TABLE_6_def)

lemma MDS_INV_TABLE_7_span:
  "MDS_INV_TABLE_7 = xor_span (map (\<lambda>i. MDS_INV_TABLE_7 ! i) [1, 2, 4, 8, 16, 32, 64, 128])"
  by (simp add: MDS_INV_TABLE_7_def)

lemmas MDS_INV_TABLE_row_facts =
  table_row_span [OF MDS_INV_TABLE_0_span [folded MDS_INV_TABLE_0_basis] mds_column_additive]
  table_row_span [OF MDS_INV_TABLE_1_span [folded MDS_INV_TABLE_1_basis] mds_column_additive]
  table_row_span [OF MDS_INV_TABLE_2_span [folded MDS_INV_TABLE_2_basis] mds_column_additive]
  table_row_span [OF MDS_INV_TABLE_3_span [folded MDS_INV_TABLE_3_basis] mds_column_additive]
  table_row_span [OF MDS_INV_TABLE_4_span [folded MDS_INV_TABLE_4_basis] mds_column_additive]
  table_row_span [OF MDS_INV_TABLE_5_span [folded MDS_INV_TABLE_5_basis] mds_column_additive]
  table_row_span [OF MDS_INV_TABLE_6_span [folded MDS_INV_TABLE_6_basis] mds_column_additive]
  table_row_span [OF MDS_INV_TABLE_7_span [folded MDS_INV_TABLE_7_basis] mds_column_additive]

lemma MDS_INV_TABLE_column: "r < 8 \<Longrightarrow> MDS_INV_TABLE ! r ! unat x = mds_column_via_gf_mul MDS_INV_MATRIX r x"
  using MDS_INV_TABLE_row_facts by (auto simp: MDS_INV_TABLE_def less_Suc_eq numeral_eq_Suc)

section \<open>The linear layers are inverse to each other\<close>

lemma table_row_comb:
  assumes "row = xor_span bs" "length bs = 8"
  shows "n < 256 \<Longrightarrow> row ! n = xor_comb bs n"
  using assms by (simp add: nth_xor_span)

lemma MDS_INV_TABLE_0_comb:
  "n < 256 \<Longrightarrow> MDS_INV_TABLE ! 0 ! n = xor_comb [0x9576A82F49D7CAAD, 0x37EC4D5E92B38947, 0x6EC59ABC397B0F8E, 0xDC97296572F61E01,
     0xA53352CAE4F13C02, 0x5766A489D5FF7804, 0xAECC550FB7E3F008, 0x4185AA1E73DBFD10] n"
  using table_row_comb [OF MDS_INV_TABLE_0_span, of n]
  by (simp add: MDS_INV_TABLE_def MDS_INV_TABLE_0_def del: xor_comb.simps xor_span.simps)

lemma MDS_INV_TABLE_1_comb:
  "n < 256 \<Longrightarrow> MDS_INV_TABLE ! Suc 0 ! n = xor_comb [0x76A82F49D7CAAD95, 0xEC4D5E92B3894737, 0xC59ABC397B0F8E6E, 0x97296572F61E01DC,
     0x3352CAE4F13C02A5, 0x66A489D5FF780457, 0xCC550FB7E3F008AE, 0x85AA1E73DBFD1041] n"
  using table_row_comb [OF MDS_INV_TABLE_1_span, of n]
  by (simp add: MDS_INV_TABLE_def MDS_INV_TABLE_1_def del: xor_comb.simps xor_span.simps)

lemma MDS_INV_TABLE_2_comb:
  "n < 256 \<Longrightarrow> MDS_INV_TABLE ! 2 ! n = xor_comb [0xA82F49D7CAAD9576, 0x4D5E92B3894737EC, 0x9ABC397B0F8E6EC5, 0x296572F61E01DC97,
     0x52CAE4F13C02A533, 0xA489D5FF78045766, 0x550FB7E3F008AECC, 0xAA1E73DBFD104185] n"
  using table_row_comb [OF MDS_INV_TABLE_2_span, of n]
  by (simp add: MDS_INV_TABLE_def MDS_INV_TABLE_2_def del: xor_comb.simps xor_span.simps)

lemma MDS_INV_TABLE_3_comb:
  "n < 256 \<Longrightarrow> MDS_INV_TABLE ! 3 ! n = xor_comb [0x2F49D7CAAD9576A8, 0x5E92B3894737EC4D, 0xBC397B0F8E6EC59A, 0x6572F61E01DC9729,
     0xCAE4F13C02A53352, 0x89D5FF78045766A4, 0x0FB7E3F008AECC55, 0x1E73DBFD104185AA] n"
  using table_row_comb [OF MDS_INV_TABLE_3_span, of n]
  by (simp add: MDS_INV_TABLE_def MDS_INV_TABLE_3_def del: xor_comb.simps xor_span.simps)

lemma MDS_INV_TABLE_4_comb:
  "n < 256 \<Longrightarrow> MDS_INV_TABLE ! 4 ! n = xor_comb [0x49D7CAAD9576A82F, 0x92B3894737EC4D5E, 0x397B0F8E6EC59ABC, 0x72F61E01DC972965,
     0xE4F13C02A53352CA, 0xD5FF78045766A489, 0xB7E3F008AECC550F, 0x73DBFD104185AA1E] n"
  using table_row_comb [OF MDS_INV_TABLE_4_span, of n]
  by (simp add: MDS_INV_TABLE_def MDS_INV_TABLE_4_def del: xor_comb.simps xor_span.simps)

lemma MDS_INV_TABLE_5_comb:
  "n < 256 \<Longrightarrow> MDS_INV_TABLE ! 5 ! n = xor_comb [0xD7CAAD9576A82F49, 0xB3894737EC4D5E92, 0x7B0F8E6EC59ABC39, 0xF61E01DC97296572,
     0xF13C02A53352CAE4, 0xFF78045766A489D5, 0xE3F008AECC550FB7, 0xDBFD104185AA1E73] n"
  using table_row_comb [OF MDS_INV_TABLE_5_span, of n]
  by (simp add: MDS_INV_TABLE_def MDS_INV_TABLE_5_def del: xor_comb.simps xor_span.simps)

lemma MDS_INV_TABLE_6_comb:
  "n < 256 \<Longrightarrow> MDS_INV_TABLE ! 6 ! n = xor_comb [0xCAAD9576A82F49D7, 0x894737EC4D5E92B3, 0x0F8E6EC59ABC397B, 0x1E01DC97296572F6,
     0x3C02A53352CAE4F1, 0x78045766A489D5FF, 0xF008AECC550FB7E3, 0xFD104185AA1E73DB] n"
  using table_row_comb [OF MDS_INV_TABLE_6_span, of n]
  by (simp add: MDS_INV_TABLE_def MDS_INV_TABLE_6_def del: xor_comb.simps xor_span.simps)

lemma MDS_INV_TABLE_7_comb:
  "n < 256 \<Longrightarrow> MDS_INV_TABLE ! 7 ! n = xor_comb [0xAD9576A82F49D7CA, 0x4737EC4D5E92B389, 0x8E6EC59ABC397B0F, 0x01DC97296572F61E,
     0x02A53352CAE4F13C, 0x045766A489D5FF78, 0x08AECC550FB7E3F0, 0x104185AA1E73DBFD] n"
  using table_row_comb [OF MDS_INV_TABLE_7_span, of n]
  by (simp add: MDS_INV_TABLE_def MDS_INV_TABLE_7_def del: xor_comb.simps xor_span.simps)

lemmas MDS_INV_TABLE_comb =
  MDS_INV_TABLE_0_comb MDS_INV_TABLE_1_comb MDS_INV_TABLE_2_comb MDS_INV_TABLE_3_comb MDS_INV_TABLE_4_comb MDS_INV_TABLE_5_comb MDS_INV_TABLE_6_comb MDS_INV_TABLE_7_comb

lemma mix_column_8:
  "length c = 8 \<Longrightarrow> mix_column t c = t ! 0 ! unat (c ! 0) XOR (t ! 1 ! unat (c ! 1) XOR (t ! 2 ! unat (c ! 2) XOR
     (t ! 3 ! unat (c ! 3) XOR (t ! 4 ! unat (c ! 4) XOR (t ! 5 ! unat (c ! 5) XOR
     (t ! 6 ! unat (c ! 6) XOR t ! 7 ! unat (c ! 7)))))))"
  by (simp add: mix_column_def basis8 xor.assoc)

lemmas inverse_eval = mix_column_8 nth_to_le_bytes MDS_INV_TABLE_comb

lemma MDS_inverse_row_0:
  "map (\<lambda>i. mix_column MDS_INV_TABLE (to_le_bytes 8 (MDS_TABLE ! 0 ! i))) [1, 2, 4, 8, 16, 32, 64, 128] =
   map (\<lambda>i. push_bit (0 + i) 1) [0..<8]"
  by (simp add: inverse_eval basis8 MDS_TABLE_def MDS_TABLE_0_def)

lemma MDS_inverse_row_1:
  "map (\<lambda>i. mix_column MDS_INV_TABLE (to_le_bytes 8 (MDS_TABLE ! 1 ! i))) [1, 2, 4, 8, 16, 32, 64, 128] =
   map (\<lambda>i. push_bit (8 + i) 1) [0..<8]"
  by (simp add: inverse_eval basis8 MDS_TABLE_def MDS_TABLE_1_def)

lemma MDS_inverse_row_2:
  "map (\<lambda>i. mix_column MDS_INV_TABLE (to_le_bytes 8 (MDS_TABLE ! 2 ! i))) [1, 2, 4, 8, 16, 32, 64, 128] =
   map (\<lambda>i. push_bit (16 + i) 1) [0..<8]"
  by (simp add: inverse_eval basis8 MDS_TABLE_def MDS_TABLE_2_def)

lemma MDS_inverse_row_3:
  "map (\<lambda>i. mix_column MDS_INV_TABLE (to_le_bytes 8 (MDS_TABLE ! 3 ! i))) [1, 2, 4, 8, 16, 32, 64, 128] =
   map (\<lambda>i. push_bit (24 + i) 1) [0..<8]"
  by (simp add: inverse_eval basis8 MDS_TABLE_def MDS_TABLE_3_def)

lemma MDS_inverse_row_4:
  "map (\<lambda>i. mix_column MDS_INV_TABLE (to_le_bytes 8 (MDS_TABLE ! 4 ! i))) [1, 2, 4, 8, 16, 32, 64, 128] =
   map (\<lambda>i. push_bit (32 + i) 1) [0..<8]"
  by (simp add: inverse_eval basis8 MDS_TABLE_def MDS_TABLE_4_def)

lemma MDS_inverse_row_5:
  "map (\<lambda>i. mix_column MDS_INV_TABLE (to_le_bytes 8 (MDS_TABLE ! 5 ! i))) [1, 2, 4, 8, 16, 32, 64, 128] =
   map (\<lambda>i. push_bit (40 + i) 1) [0..<8]"
  by (simp add: inverse_eval basis8 MDS_TABLE_def MDS_TABLE_5_def)

lemma MDS_inverse_row_6:
  "map (\<lambda>i. mix_column MDS_INV_TABLE (to_le_bytes 8 (MDS_TABLE ! 6 ! i))) [1, 2, 4, 8, 16, 32, 64, 128] =
   map (\<lambda>i. push_bit (48 + i) 1) [0..<8]"
  by (simp add: inverse_eval basis8 MDS_TABLE_def MDS_TABLE_6_def)

lemma MDS_inverse_row_7:
  "map (\<lambda>i. mix_column MDS_INV_TABLE (to_le_bytes 8 (MDS_TABLE ! 7 ! i))) [1, 2, 4, 8, 16, 32, 64, 128] =
   map (\<lambda>i. push_bit (56 + i) 1) [0..<8]"
  by (simp add: inverse_eval basis8 MDS_TABLE_def MDS_TABLE_7_def)

lemma from_le_bytes_Cons_xor:
  "(from_le_bytes (b # bs) :: u64) = ucast b XOR push_bit 8 (from_le_bytes bs)"
  unfolding from_le_bytes_Cons
  by (rule bit_word_eqI) (auto simp: bit_simps dest: bit_u8_less)

lemma from_le_bytes_8:
  assumes "length c = 8"
  shows "from_le_bytes c = (ucast (c ! 0) XOR (push_bit 8 (ucast (c ! 1)) XOR (push_bit 16 (ucast (c ! 2)) XOR
     (push_bit 24 (ucast (c ! 3)) XOR (push_bit 32 (ucast (c ! 4)) XOR (push_bit 40 (ucast (c ! 5)) XOR
     (push_bit 48 (ucast (c ! 6)) XOR push_bit 56 (ucast (c ! 7)))))))) :: u64)"
proof -
  from assms obtain c0 c1 c2 c3 c4 c5 c6 c7 where "c = [c0, c1, c2, c3, c4, c5, c6, c7]"
    by (auto simp: numeral_eq_Suc length_Suc_conv)
  then show ?thesis by (simp add: from_le_bytes_Cons_xor push_bit_xor)
qed

lemma mix_column_xor:
  assumes "\<And>r. r < 8 \<Longrightarrow> additive8 (\<lambda>x. t ! r ! unat x)" "length a = 8" "length b = 8"
  shows "mix_column t (xor_into a b) = mix_column t a XOR mix_column t b"
proof -
  have "t ! r ! unat (x XOR y) = t ! r ! unat x XOR t ! r ! unat y" if "r < 8" for r and x y :: u8
    using assms(1) [OF that] by (simp add: additive8_def)
  with assms(2,3) show ?thesis by (simp add: mix_column_8 nth_xor_into ac_simps)
qed

lemma MDS_TABLE_additive: "r < 8 \<Longrightarrow> additive8 (\<lambda>x. MDS_TABLE ! r ! unat x)"
  by (simp add: MDS_TABLE_column mds_column_additive)

lemma MDS_INV_TABLE_additive: "r < 8 \<Longrightarrow> additive8 (\<lambda>x. MDS_INV_TABLE ! r ! unat x)"
  by (simp add: MDS_INV_TABLE_column mds_column_additive)

lemma mix_inv_word_xor:
  "mix_column MDS_INV_TABLE (to_le_bytes 8 (v XOR w)) =
   mix_column MDS_INV_TABLE (to_le_bytes 8 v) XOR mix_column MDS_INV_TABLE (to_le_bytes 8 w)"
  by (simp add: to_le_bytes_xor mix_column_xor MDS_INV_TABLE_additive)

lemma additive8_ucast_shift: "additive8 (\<lambda>x. push_bit n (ucast x) :: u64)"
  unfolding additive8_def by (intro allI bit_word_eqI) (auto simp: bit_simps)

lemma MDS_inverse_byte_step:
  assumes "map (\<lambda>i. mix_column MDS_INV_TABLE (to_le_bytes 8 (MDS_TABLE ! r ! i))) [1, 2, 4, 8, 16, 32, 64, 128] =
     map (\<lambda>i. push_bit (n + i) 1) [0..<8]" "r < 8"
  shows "mix_column MDS_INV_TABLE (to_le_bytes 8 (MDS_TABLE ! r ! unat (x :: u8))) = push_bit n (ucast x)"
proof (rule additive8_eqI [where x = x
      and f = "\<lambda>x :: u8. mix_column MDS_INV_TABLE (to_le_bytes 8 (MDS_TABLE ! r ! unat x))"
      and g = "\<lambda>x. push_bit n (ucast x)"])
  show "additive8 (\<lambda>x. mix_column MDS_INV_TABLE (to_le_bytes 8 (MDS_TABLE ! r ! unat x)))"
    using MDS_TABLE_additive [OF assms(2)] by (simp add: additive8_def mix_inv_word_xor)
  show "additive8 (\<lambda>x. push_bit n (ucast x) :: u64)" by (rule additive8_ucast_shift)
  have pow: "map (\<lambda>i. unat (push_bit i 1 :: u8)) [0..<8] = [1, 2, 4, 8, 16, 32, 64, 128]"
    by (simp add: basis8)
  have shift: "map (\<lambda>i. push_bit n (ucast (push_bit i 1 :: u8)) :: u64) [0..<8] = map (\<lambda>i. push_bit (n + i) 1) [0..<8]"
    by (simp add: basis8 power_add push_bit_eq_mult)
  show "map (\<lambda>i. mix_column MDS_INV_TABLE (to_le_bytes 8 (MDS_TABLE ! r ! unat (push_bit i 1 :: u8)))) [0..<8] =
      map (\<lambda>i. push_bit n (ucast (push_bit i 1 :: u8))) [0..<8]"
    unfolding shift using assms(1) [folded pow] by (simp only: map_map comp_def)
qed

lemmas MDS_inverse_bytes =
  MDS_inverse_byte_step [OF MDS_inverse_row_0, simplified]
  MDS_inverse_byte_step [OF MDS_inverse_row_1, simplified]
  MDS_inverse_byte_step [OF MDS_inverse_row_2, simplified]
  MDS_inverse_byte_step [OF MDS_inverse_row_3, simplified]
  MDS_inverse_byte_step [OF MDS_inverse_row_4, simplified]
  MDS_inverse_byte_step [OF MDS_inverse_row_5, simplified]
  MDS_inverse_byte_step [OF MDS_inverse_row_6, simplified]
  MDS_inverse_byte_step [OF MDS_inverse_row_7, simplified]

lemma mix_inverse_forward:
  assumes "length c = 8"
  shows "mix_column MDS_INV_TABLE (to_le_bytes 8 (mix_column MDS_TABLE c)) = from_le_bytes c"
  using assms by (simp add: mix_column_8 [of c MDS_TABLE] mix_inv_word_xor MDS_inverse_bytes from_le_bytes_8)

section \<open>State-level facts\<close>

lemma finite_left_inverse:
  fixes f g :: "'a::finite \<Rightarrow> 'a"
  assumes "\<And>x. g (f x) = x"
  shows "f (g x) = x"
proof -
  have "inj f" using assms by (metis injI)
  then have "surj f" by (simp add: finite_UNIV_inj_surj)
  then show ?thesis using assms by (metis surjD)
qed

lemma mix_forward_inverse:
  assumes "length c = 8"
  shows "mix_column MDS_TABLE (to_le_bytes 8 (mix_column MDS_INV_TABLE c)) = from_le_bytes c"
proof -
  have "mix_column MDS_TABLE (to_le_bytes 8 (mix_column MDS_INV_TABLE (to_le_bytes 8 (from_le_bytes c :: u64)))) =
      from_le_bytes c"
    by (rule finite_left_inverse [where f = "\<lambda>w. mix_column MDS_TABLE (to_le_bytes 8 w)"
          and g = "\<lambda>w. mix_column MDS_INV_TABLE (to_le_bytes 8 w)"])
      (simp add: mix_inverse_forward)
  with assms show ?thesis by simp
qed

text \<open>A state is a list of eight-byte columns.\<close>

definition wf_state :: "bytes list \<Rightarrow> bool" where
  "wf_state st \<longleftrightarrow> (\<forall>c \<in> set st. length c = 8)"

lemma wf_state_nth: "wf_state st \<Longrightarrow> i < length st \<Longrightarrow> length (st ! i) = 8"
  by (simp add: wf_state_def)

lemma wf_state_simps [simp]:
  "wf_state []" "wf_state (c # st) \<longleftrightarrow> length c = 8 \<and> wf_state st"
  "wf_state (st @ st') \<longleftrightarrow> wf_state st \<and> wf_state st'"
  "wf_state (replicate n (replicate 8 0))"
  by (auto simp: wf_state_def)

lemma wf_state_take [simp]: "wf_state st \<Longrightarrow> wf_state (take n st)"
  by (meson in_set_takeD wf_state_def)

lemma wf_state_drop [simp]: "wf_state st \<Longrightarrow> wf_state (drop n st)"
  by (meson in_set_dropD wf_state_def)

lemma wf_state_map [simp]: "(\<And>c. length (f c) = 8) \<Longrightarrow> wf_state (map f xs)"
  by (auto simp: wf_state_def)

lemma wf_apply_matrix [simp]: "wf_state (apply_matrix st t)"
  by (simp add: apply_matrix_def)

lemma length_apply_matrix [simp]:
  "length (apply_matrix st t) = length st"
  "length (apply_forward_matrix st) = length st" "length (apply_inverse_matrix st) = length st"
  by (simp_all add: apply_matrix_def apply_forward_matrix_def apply_inverse_matrix_def)

lemma wf_apply_forward_matrix [simp]: "wf_state (apply_forward_matrix st)"
  by (simp add: apply_forward_matrix_def)

lemma wf_apply_inverse_matrix [simp]: "wf_state (apply_inverse_matrix st)"
  by (simp add: apply_inverse_matrix_def)

lemma apply_inverse_forward: "wf_state st \<Longrightarrow> apply_inverse_matrix (apply_forward_matrix st) = st"
  by (auto simp: apply_inverse_matrix_def apply_forward_matrix_def apply_matrix_def wf_state_def
      mix_inverse_forward intro!: map_idI)

lemma apply_forward_inverse: "wf_state st \<Longrightarrow> apply_forward_matrix (apply_inverse_matrix st) = st"
  by (auto simp: apply_inverse_matrix_def apply_forward_matrix_def apply_matrix_def wf_state_def
      mix_forward_inverse intro!: map_idI)

text \<open>The two resource profiles compute the same linear layer.\<close>

lemma mix_column_gf_mul:
  assumes "\<And>r x. r < 8 \<Longrightarrow> t ! r ! unat (x :: u8) = mds_column_via_gf_mul m r x" "length c = 8"
  shows "to_le_bytes 8 (mix_column t c) = map (\<lambda>out_row.
     foldl (\<lambda>out_byte in_row. out_byte XOR gf_mul (c ! in_row) (m ! out_row ! in_row)) 0 [0..<length c]) [0..<8]"
proof -
  have "to_le_bytes 8 (mds_column_via_gf_mul m r x) = map (\<lambda>out_row. gf_mul x (m ! out_row ! r)) [0..<8]"
    for r x by (simp add: mds_column_bytes)
  then show ?thesis
    using assms by (simp add: mix_column_8 to_le_bytes_xor basis8 xor.assoc)
qed

lemma apply_matrix_profiles:
  "wf_state st \<Longrightarrow> apply_forward_matrix_small st = apply_forward_matrix st"
  "wf_state st \<Longrightarrow> apply_inverse_matrix_small st = apply_inverse_matrix st"
  by (auto simp: apply_forward_matrix_small_def apply_forward_matrix_def apply_inverse_matrix_small_def
      apply_inverse_matrix_def apply_matrix_via_gf_mul_def apply_matrix_def ROWS_def wf_state_def
      mix_column_gf_mul [OF MDS_TABLE_column] mix_column_gf_mul [OF MDS_INV_TABLE_column])

section \<open>Substitution\<close>

lemma SBOXES_lengths:
  "length SBOXES_0 = 256" "length SBOXES_1 = 256" "length SBOXES_2 = 256" "length SBOXES_3 = 256"
  by (simp_all add: SBOXES_0_def SBOXES_1_def SBOXES_2_def SBOXES_3_def)

lemma table_inverse_nth:
  assumes "map (\<lambda>x. d ! unat x) e = map of_nat [0..<256]" "length e = 256"
  shows "d ! unat (e ! unat (x :: u8)) = x"
proof -
  have "d ! unat (e ! unat x) = map (\<lambda>x. d ! unat x) e ! unat x"
    using assms(2) by (simp add: unat_u8_less)
  also have "\<dots> = x" by (simp add: assms(1) unat_u8_less)
  finally show ?thesis .
qed

lemma forward_sbox_mds_eq:
  "row < 8 \<Longrightarrow> forward_sbox_mds row b = MDS_TABLE ! row ! unat (SBOXES ! (row mod 4) ! unat b)"
  by (simp add: forward_sbox_mds_def SBOX_MDS_def build_sbox_mds_def ROWS_def unat_u8_less)

lemma inverse_sbox_mds_eq:
  "row < 8 \<Longrightarrow> inverse_sbox_mds row b = MDS_INV_TABLE ! row ! unat (SBOXES_DEC ! (row mod 4) ! unat b)"
  by (simp add: inverse_sbox_mds_def SBOX_MDS_DEC_def build_sbox_mds_dec_def ROWS_def unat_u8_less)

lemma SBOXES_0_inverse:
  "map (\<lambda>x. SBOXES_DEC_0 ! unat x) SBOXES_0 = map of_nat [0..<256]"
  by code_simp

lemma SBOXES_1_inverse:
  "map (\<lambda>x. SBOXES_DEC_1 ! unat x) SBOXES_1 = map of_nat [0..<256]"
  by code_simp

lemma SBOXES_2_inverse:
  "map (\<lambda>x. SBOXES_DEC_2 ! unat x) SBOXES_2 = map of_nat [0..<256]"
  by code_simp

lemma SBOXES_3_inverse:
  "map (\<lambda>x. SBOXES_DEC_3 ! unat x) SBOXES_3 = map of_nat [0..<256]"
  by code_simp

lemmas SBOXES_inverse_nth =
  table_inverse_nth [OF SBOXES_0_inverse SBOXES_lengths(1)]
  table_inverse_nth [OF SBOXES_1_inverse SBOXES_lengths(2)]
  table_inverse_nth [OF SBOXES_2_inverse SBOXES_lengths(3)]
  table_inverse_nth [OF SBOXES_3_inverse SBOXES_lengths(4)]

lemma SBOXES_inverse [simp]:
  "SBOXES_DEC ! (row mod 4) ! unat (SBOXES ! (row mod 4) ! unat x) = x"
proof -
  have "row mod 4 < 4" by simp
  then consider "row mod 4 = 0" | "row mod 4 = 1" | "row mod 4 = 2" | "row mod 4 = 3" by linarith
  then show ?thesis
    by cases (simp_all add: SBOXES_def SBOXES_DEC_def SBOXES_inverse_nth)
qed

lemma SBOXES_DEC_inverse [simp]:
  "SBOXES ! (row mod 4) ! unat (SBOXES_DEC ! (row mod 4) ! unat x) = x"
  by (rule finite_left_inverse [where f = "\<lambda>x. SBOXES ! (row mod 4) ! unat x"
        and g = "\<lambda>x. SBOXES_DEC ! (row mod 4) ! unat x"]) simp

lemma sbox_mds_profiles:
  "row < 8 \<Longrightarrow> forward_sbox_mds_small row b = forward_sbox_mds row b"
  "row < 8 \<Longrightarrow> inverse_sbox_mds_small row b = inverse_sbox_mds row b"
  by (simp_all add: forward_sbox_mds_small_def inverse_sbox_mds_small_def forward_sbox_mds_eq
      inverse_sbox_mds_eq MDS_TABLE_column MDS_INV_TABLE_column)

lemma table_shape:
  "length MDS_TABLE = 8" "length MDS_INV_TABLE = 8"
  "list_all (\<lambda>row. length row = 256) MDS_TABLE" "list_all (\<lambda>row. length row = 256) MDS_INV_TABLE"
  by (simp_all add: MDS_TABLE_def MDS_INV_TABLE_def MDS_TABLE_0_def MDS_TABLE_1_def MDS_TABLE_2_def
      MDS_TABLE_3_def MDS_TABLE_4_def MDS_TABLE_5_def MDS_TABLE_6_def MDS_TABLE_7_def MDS_INV_TABLE_0_def
      MDS_INV_TABLE_1_def MDS_INV_TABLE_2_def MDS_INV_TABLE_3_def MDS_INV_TABLE_4_def MDS_INV_TABLE_5_def
      MDS_INV_TABLE_6_def MDS_INV_TABLE_7_def)

lemma table_tabulate:
  assumes "length t = 8" "list_all (\<lambda>row. length row = 256) t"
    and "\<And>r (x :: u8). r < 8 \<Longrightarrow> t ! r ! unat x = f r x"
  shows "t = map (\<lambda>r. map (\<lambda>x. f r (of_nat x)) [0..<256]) [0..<8]"
proof (rule nth_equalityI)
  fix r assume "r < length t"
  then have r: "r < 8" "length (t ! r) = 256" using assms(1,2) by (simp_all add: list_all_length)
  have "t ! r = map (\<lambda>x. f r (of_nat x)) [0..<256]"
  proof (rule nth_equalityI)
    fix x assume "x < length (t ! r)"
    with r have "unat (of_nat x :: u8) = x" by (simp add: unat_of_nat)
    with assms(3) [OF r(1), of "of_nat x"] \<open>x < length (t ! r)\<close> r
    show "t ! r ! x = map (\<lambda>x. f r (of_nat x)) [0..<256] ! x" by simp
  qed (simp add: r)
  with r show "t ! r = map (\<lambda>r. map (\<lambda>x. f r (of_nat x)) [0..<256]) [0..<8] ! r" by simp
qed (simp add: assms(1))

section \<open>Properties\<close>

text \<open>The two precomputed mix tables, all 4096 words of them, are the columns that bitwise
  GF(2^8) multiplication by the two MDS matrices gives.\<close>

theorem mds_tables_match_gf_mul:
  "MDS_TABLE = map (\<lambda>r. map (\<lambda>x. mds_column_via_gf_mul MDS_MATRIX r (of_nat x)) [0..<256]) [0..<8] \<and>
   MDS_INV_TABLE = map (\<lambda>r. map (\<lambda>x. mds_column_via_gf_mul MDS_INV_MATRIX r (of_nat x)) [0..<256]) [0..<8]"
  using table_tabulate [OF table_shape(1,3) MDS_TABLE_column]
    table_tabulate [OF table_shape(2,4) MDS_INV_TABLE_column] by simp

text \<open>Each of the four inverse S-boxes inverts its S-box, in both directions, on every byte.\<close>

theorem sboxes_mutually_inverse:
  "SBOXES_DEC ! (row mod 4) ! unat (SBOXES ! (row mod 4) ! unat x) = x \<and>
   SBOXES ! (row mod 4) ! unat (SBOXES_DEC ! (row mod 4) ! unat x) = x"
  by simp

text \<open>The inverse mix layer undoes the forward one and the forward one the inverse, on every
  state of eight-byte columns.\<close>

theorem mix_layers_mutually_inverse:
  assumes "list_all (\<lambda>c. length c = ROWS) state"
  shows "apply_inverse_matrix (apply_forward_matrix state) = state \<and>
    apply_forward_matrix (apply_inverse_matrix state) = state"
  using assms by (simp add: apply_inverse_forward apply_forward_inverse wf_state_def list_all_iff ROWS_def)

theorem mix_layers_mutually_inverse_witness:
  "apply_inverse_matrix (apply_forward_matrix [[1, 2, 3, 4, 5, 6, 7, 8]]) = [[1, 2, 3, 4, 5, 6, 7, 8]] \<and>
   apply_forward_matrix (apply_inverse_matrix [[1, 2, 3, 4, 5, 6, 7, 8]]) = [[1, 2, 3, 4, 5, 6, 7, 8]]"
  using mix_layers_mutually_inverse [of "[[1, 2, 3, 4, 5, 6, 7, 8]]"] by (simp add: ROWS_def)

text \<open>The \<open>small-tables\<close> profile computes what the default profile looks up: both mix
  layers, and both fused S-box-and-mix contributions of every row.\<close>

theorem resource_profiles_agree:
  assumes "list_all (\<lambda>c. length c = ROWS) state" "row < ROWS"
  shows "apply_forward_matrix_small state = apply_forward_matrix state \<and>
    apply_inverse_matrix_small state = apply_inverse_matrix state \<and>
    forward_sbox_mds_small row b = forward_sbox_mds row b \<and>
    inverse_sbox_mds_small row b = inverse_sbox_mds row b"
  using assms by (simp add: apply_matrix_profiles sbox_mds_profiles wf_state_def list_all_iff ROWS_def)

theorem resource_profiles_agree_witness:
  "apply_forward_matrix_small [replicate 8 0xC3] = apply_forward_matrix [replicate 8 0xC3] \<and>
   apply_inverse_matrix_small [replicate 8 0xC3] = apply_inverse_matrix [replicate 8 0xC3] \<and>
   forward_sbox_mds_small 5 0x7F = forward_sbox_mds 5 0x7F \<and>
   inverse_sbox_mds_small 5 0x7F = inverse_sbox_mds 5 0x7F"
  using resource_profiles_agree [where state = "[replicate 8 0xC3]" and row = 5 and b = "0x7F"] by (simp add: ROWS_def)

end
