(* ===== verification/Block_Cipher.thy ===== *)
theory Block_Cipher
  imports Dstu_Prelude
begin

text \<open>
  The interface between a block cipher and the modes of operation built on it: what every
  \<open>kalyna_*\<close> mode of \<open>crates/dstu-core/src/hazmat/\<close> relies on when it calls
  \<open>encrypt_block\<close>/\<open>decrypt_block\<close> of an expanded key. The modes prove their laws inside the
  locale, and the Kalyna theory interprets it on the five variants.
\<close>

text \<open>\<open>pub struct InvalidLength\<close>, which the raw modes each declare for a buffer that does not
  fit the block grid.\<close>

datatype invalid_length = InvalidLength

lemma finite_blocks: "finite {bs :: bytes. length bs = n}"
  using finite_lists_length_eq [of "UNIV :: u8 set" n] by simp

lemma chunks_exact_lengths: "\<forall>b \<in> set (chunks_exact n xs). length b = n"
  by (blast dest: chunks_exact_length)

lemma chunks_exact_aligned_append:
  "0 < n \<Longrightarrow> length xs mod n = 0 \<Longrightarrow> chunks_exact n (xs @ ys) = chunks_exact n xs @ chunks_exact n ys"
proof (induction n xs rule: chunks_exact.induct)
  case (1 n xs)
  show ?case
  proof (cases "length xs < n")
    case True
    with 1 have "xs = []" by simp
    then show ?thesis by simp
  next
    case False
    then have "(length xs - n) mod n = 0" using 1 by (simp add: le_mod_geq [symmetric])
    with False 1 show ?thesis
      by (simp add: chunks_exact.simps [of n xs] chunks_exact.simps [of n "xs @ ys"])
  qed
qed

lemma chunks_exact_count: "0 < n \<Longrightarrow> length (chunks_exact n xs) = length xs div n"
proof (induction n xs rule: chunks_exact.induct)
  case (1 n xs)
  then show ?case
    by (cases "length xs < n") (simp_all add: chunks_exact.simps [of n xs] le_div_geq)
qed

lemma slice_middle: "length a = n \<Longrightarrow> length b = m - n \<Longrightarrow> slice n m (a @ b @ c) = b"
  by (simp add: slice_def)

lemma write_at_middle: "length a = n \<Longrightarrow> length b' = length b \<Longrightarrow> write_at (a @ b @ c) n b' = a @ b' @ c"
  by (simp add: write_at_def)

locale block_cipher =
  fixes valid :: "'k \<Rightarrow> bool"
    and E :: "'k \<Rightarrow> bytes \<Rightarrow> bytes"
    and D :: "'k \<Rightarrow> bytes \<Rightarrow> bytes"
    and bl :: nat
  assumes bl_pos: "0 < bl"
    and length_E [simp]: "valid k \<Longrightarrow> length b = bl \<Longrightarrow> length (E k b) = bl"
    and D_E [simp]: "valid k \<Longrightarrow> length b = bl \<Longrightarrow> D k (E k b) = b"
begin

lemma E_onto:
  assumes "valid k" "length b = bl"
  obtains p where "length p = bl" "E k p = b"
proof -
  let ?B = "{bs :: bytes. length bs = bl}"
  have "inj_on (E k) ?B"
    by (rule inj_on_inverseI [where g = "D k"]) (simp add: assms(1))
  then have "E k ` ?B = ?B"
    by (intro endo_inj_surj finite_blocks) (auto simp: assms(1))
  moreover have "b \<in> ?B" using assms(2) by simp
  ultimately have "b \<in> E k ` ?B" by simp
  then show thesis using that by auto
qed

lemma E_D [simp]: "valid k \<Longrightarrow> length b = bl \<Longrightarrow> E k (D k b) = b"
  using E_onto [of k b] D_E [of k] by metis

lemma length_D [simp]: "valid k \<Longrightarrow> length b = bl \<Longrightarrow> length (D k b) = bl"
  using E_onto [of k b] D_E [of k] by metis

lemma E_inject:
  "valid k \<Longrightarrow> length a = bl \<Longrightarrow> length b = bl \<Longrightarrow> E k a = E k b \<longleftrightarrow> a = b"
  by (metis D_E)

end

end
