(* ===== verification/Kalyna.thy ===== *)
theory Kalyna
  imports Tables Block_Cipher
begin

text \<open>
  \<open>crates/dstu-core/src/hazmat/kalyna.rs\<close>: the Kalyna block cipher (DSTU 7624:2014) in
  its five block/key-size variants. A state is a list of eight-byte columns; the round
  functions, the key schedule and the single-block operations are translated one by one,
  the fused and const-generic rounds beside the three-pass reference they replace. The
  lemmas show that the fused rounds compute the reference rounds, that the key schedule
  never runs out of its arrays, and that decryption, with its transformed round keys,
  inverts encryption.
\<close>

section \<open>Round functions\<close>

definition MAX_NB :: nat where "MAX_NB = 8"

definition ROUND_KEYS_LEN :: nat where "ROUND_KEYS_LEN = 19"

definition ZERO_COLUMN :: bytes where "ZERO_COLUMN = replicate ROWS 0"

definition sub_bytes :: "bytes list \<Rightarrow> bytes list" where
  "sub_bytes state = map (\<lambda>column. map (\<lambda>row.
     SBOXES ! (row mod 4) ! unat (column ! row)) [0..<length column]) state"

definition inv_sub_bytes :: "bytes list \<Rightarrow> bytes list" where
  "inv_sub_bytes state = map (\<lambda>column. map (\<lambda>row.
     SBOXES_DEC ! (row mod 4) ! unat (column ! row)) [0..<length column]) state"

text \<open>The body of the inner loop of \<open>shift_rows\<close>: one byte moves to its new column.\<close>

definition shift_rows_move :: "bytes list \<Rightarrow> nat \<Rightarrow> nat \<Rightarrow> bytes list \<Rightarrow> bytes list" where
  "shift_rows_move state row col shifted =
     (let nb = length state; dst = (col + row * nb div ROWS) mod nb
      in shifted[dst := (shifted ! dst)[row := state ! col ! row]])"

definition shift_rows :: "bytes list \<Rightarrow> bytes list" where
  "shift_rows state =
     take (length state)
       (fold (\<lambda>row. fold (\<lambda>col. shift_rows_move state row col) [0..<length state]) [0..<ROWS]
         (replicate MAX_NB ZERO_COLUMN))"

definition inv_shift_rows :: "bytes list \<Rightarrow> bytes list" where
  "inv_shift_rows state =
     (let nb = length state
      in map (\<lambda>col. map (\<lambda>row. state ! ((col + row * nb div ROWS) mod nb) ! row) [0..<ROWS]) [0..<nb])"

definition add_round_key :: "bytes list \<Rightarrow> bytes list \<Rightarrow> bytes list" where
  "add_round_key state key =
     map2 (\<lambda>s k. to_le_bytes 8 (from_le_bytes s + from_le_bytes k :: u64)) state key
       @ drop (length key) state"

definition sub_round_key :: "bytes list \<Rightarrow> bytes list \<Rightarrow> bytes list" where
  "sub_round_key state key =
     map2 (\<lambda>s k. to_le_bytes 8 (from_le_bytes s - from_le_bytes k :: u64)) state key
       @ drop (length key) state"

definition xor_round_key :: "bytes list \<Rightarrow> bytes list \<Rightarrow> bytes list" where
  "xor_round_key state key = map2 xor_into state key @ drop (length key) state"

definition encipher_round :: "bytes list \<Rightarrow> bytes list" where
  "encipher_round state =
     (let nb = length state; nb_mask = nb - 1
      in map (\<lambda>out_col. to_le_bytes 8 (foldl (\<lambda>acc row.
           let shift = row * nb div ROWS;
               src_col = (out_col + nb - shift) AND nb_mask
           in acc XOR forward_sbox_mds row (state ! src_col ! row)) 0 [0..<ROWS])) [0..<nb])"

definition decipher_round :: "bytes list \<Rightarrow> bytes list" where
  "decipher_round state = inv_sub_bytes (inv_shift_rows (apply_inverse_matrix state))"

definition fused_inv_round :: "bytes list \<Rightarrow> bytes list" where
  "fused_inv_round state =
     (let nb = length state; nb_mask = nb - 1
      in map (\<lambda>out_col. to_le_bytes 8 (foldl (\<lambda>acc row.
           let shift = row * nb div ROWS;
               src_col = (out_col + shift) AND nb_mask
           in acc XOR inverse_sbox_mds row (state ! src_col ! row)) 0 [0..<ROWS])) [0..<nb])"

text \<open>The const-generic twins, with \<open>NB\<close> in place of \<open>state.len()\<close>.\<close>

definition encipher_round_n :: "nat \<Rightarrow> bytes list \<Rightarrow> bytes list" where
  "encipher_round_n NB state =
     (let nb_mask = NB - 1
      in map (\<lambda>out_col. to_le_bytes 8 (foldl (\<lambda>acc row.
           let shift = row * NB div ROWS;
               src_col = (out_col + NB - shift) AND nb_mask
           in acc XOR forward_sbox_mds row (state ! src_col ! row)) 0 [0..<ROWS])) [0..<NB])"

definition fused_inv_round_n :: "nat \<Rightarrow> bytes list \<Rightarrow> bytes list" where
  "fused_inv_round_n NB state =
     (let nb_mask = NB - 1
      in map (\<lambda>out_col. to_le_bytes 8 (foldl (\<lambda>acc row.
           let shift = row * NB div ROWS;
               src_col = (out_col + shift) AND nb_mask
           in acc XOR inverse_sbox_mds row (state ! src_col ! row)) 0 [0..<ROWS])) [0..<NB])"

section \<open>Key schedule\<close>

type_synonym round_keys = "bytes list list"

definition transform_keys_for_decrypt :: "round_keys \<Rightarrow> nat \<Rightarrow> nat \<Rightarrow> round_keys" where
  "transform_keys_for_decrypt rks nb nr =
     map (\<lambda>i. if 1 \<le> i \<and> i < nr then apply_inverse_matrix (take nb (rks ! i)) @ drop nb (rks ! i)
              else rks ! i) [0..<length rks]"

definition round_key_from :: "bytes list \<Rightarrow> bytes list \<Rightarrow> bytes list" where
  "round_key_from base tmp =
     (let nb = length base;
          state = add_round_key base tmp;
          state = encipher_round state;
          state = xor_round_key state tmp;
          state = encipher_round state;
          state = add_round_key state tmp
      in state @ replicate (MAX_NB - nb) ZERO_COLUMN)"

definition columns_from_bytes :: "bytes \<Rightarrow> nat \<Rightarrow> bytes list" where
  "columns_from_bytes bs count =
     map (\<lambda>c. if c < count then slice (c * ROWS) ((c + 1) * ROWS) bs else ZERO_COLUMN) [0..<MAX_NB]"

definition shift_left_words :: "bytes list \<Rightarrow> bytes list" where
  "shift_left_words state =
     map (\<lambda>column. to_le_bytes 8 (push_bit 1 (from_le_bytes column :: u64))) state"

text \<open>\<open>rotate_words_left(buf, count)\<close>: an empty rotation is a no-op, otherwise the first
  of the \<open>count\<close> words moves behind the others.\<close>

definition rotate_words_left :: "bytes list \<Rightarrow> nat \<Rightarrow> bytes list" where
  "rotate_words_left buf count =
     (if count = 0 then buf
      else slice 1 count buf @ [buf ! 0] @ drop count buf)"

definition rotate_bytes_left :: "bytes \<Rightarrow> nat \<Rightarrow> bytes" where
  "rotate_bytes_left buf shift = map (\<lambda>i. buf ! ((i + shift) mod length buf)) [0..<length buf]"

definition key_expand_kt :: "bytes \<Rightarrow> nat \<Rightarrow> nat \<Rightarrow> bytes list" where
  "key_expand_kt key nb nk =
     (let state = (replicate MAX_NB ZERO_COLUMN)[0 := to_le_bytes 8 (of_nat (nb + nk + 1) :: u64)];
          k0 = columns_from_bytes key nb;
          k1 = (if nk = nb then k0 else columns_from_bytes (drop (nb * ROWS) key) nb);
          st = add_round_key (take nb state) (take nb k0);
          st = encipher_round st;
          st = xor_round_key st (take nb k1);
          st = encipher_round st;
          st = add_round_key st (take nb k0);
          st = encipher_round st
      in st @ drop nb state)"

definition mod_add_columns :: "bytes list \<Rightarrow> bytes list \<Rightarrow> bytes list" where
  "mod_add_columns a b =
     (let sums = map2 (\<lambda>x y. to_le_bytes 8 (from_le_bytes x + from_le_bytes y :: u64)) a b
      in sums @ replicate (MAX_NB - length sums) ZERO_COLUMN)"

text \<open>\<open>round_keys[round][..nb].copy_from_slice(..)\<close>; \<open>None\<close> is the index panic past the
  end of the schedule array.\<close>

definition store_round_key :: "round_keys \<Rightarrow> nat \<Rightarrow> nat \<Rightarrow> bytes list \<Rightarrow> round_keys option" where
  "store_round_key rks round nb k =
     (if round < length rks then Some (rks[round := take nb k @ drop nb (rks ! round)]) else None)"

lemma store_round_key_length:
  "store_round_key rks round nb k = Some rks' \<Longrightarrow> length rks' = length rks \<and> round < length rks"
  by (auto simp: store_round_key_def split: if_splits)

text \<open>The \<open>loop\<close> of \<open>key_expand_even\<close> from one value of its mutable variables.\<close>

function key_expand_even_loop ::
  "bytes list \<Rightarrow> nat \<Rightarrow> nat \<Rightarrow> nat \<Rightarrow> nat \<Rightarrow> bytes list \<Rightarrow> bytes list \<Rightarrow> round_keys \<Rightarrow> round_keys option" where
  "key_expand_even_loop kt nb nk nr round initial_data tmv rks =
     (let kt_round = mod_add_columns (take nb kt) (take nb tmv);
          key_a = round_key_from (take nb initial_data) (take nb kt_round)
      in case store_round_key rks round nb key_a of
           None \<Rightarrow> None
         | Some rks \<Rightarrow>
             if round = nr then Some rks
             else if nk \<noteq> nb then
               (let round = round + 2;
                    tmv = shift_left_words (take nb tmv) @ drop nb tmv;
                    kt_round = mod_add_columns (take nb kt) (take nb tmv);
                    key_b = round_key_from (slice nb nk initial_data) (take nb kt_round)
                in case store_round_key rks round nb key_b of
                     None \<Rightarrow> None
                   | Some rks \<Rightarrow>
                       if round = nr then Some rks
                       else key_expand_even_loop kt nb nk nr (round + 2)
                         (rotate_words_left (take nk initial_data) nk @ drop nk initial_data)
                         (shift_left_words (take nb tmv) @ drop nb tmv) rks)
             else key_expand_even_loop kt nb nk nr (round + 2)
               (rotate_words_left (take nk initial_data) nk @ drop nk initial_data)
               (shift_left_words (take nb tmv) @ drop nb tmv) rks)"
  by pat_completeness auto
termination
  by (relation "measure (\<lambda>(kt, nb, nk, nr, round, ini, tmv, rks). length rks - round)")
    (auto dest!: store_round_key_length)

definition key_expand_even :: "bytes \<Rightarrow> bytes list \<Rightarrow> nat \<Rightarrow> nat \<Rightarrow> nat \<Rightarrow> round_keys \<Rightarrow> round_keys option" where
  "key_expand_even key kt nb nk nr rks =
     key_expand_even_loop kt nb nk nr 0 (columns_from_bytes key nk)
       (replicate nb (to_le_bytes 8 (0x0001000100010001 :: u64)) @ replicate (MAX_NB - nb) ZERO_COLUMN) rks"

function key_expand_odd_loop :: "round_keys \<Rightarrow> nat \<Rightarrow> nat \<Rightarrow> nat \<Rightarrow> round_keys option" where
  "key_expand_odd_loop rks nb nr i =
     (if i < nr then
        if \<not> i - 1 < length rks then None
        else
        (let previous = rks ! (i - 1);
             bs = rotate_bytes_left (concat (take nb previous)) (2 * nb + 3);
             cols = map (\<lambda>c. slice (c * ROWS) ((c + 1) * ROWS) bs) [0..<nb]
         in case store_round_key rks i nb cols of
              None \<Rightarrow> None
            | Some rks \<Rightarrow> key_expand_odd_loop rks nb nr (i + 2))
      else Some rks)"
  by pat_completeness auto
termination
  by (relation "measure (\<lambda>(rks, nb, nr, i). nr - i)") auto

declare key_expand_even_loop.simps [simp del] key_expand_odd_loop.simps [simp del]

definition key_expand_odd :: "round_keys \<Rightarrow> nat \<Rightarrow> nat \<Rightarrow> round_keys option" where
  "key_expand_odd rks nb nr = key_expand_odd_loop rks nb nr 1"

definition key_expand :: "bytes \<Rightarrow> nat \<Rightarrow> nat \<Rightarrow> nat \<Rightarrow> round_keys option" where
  "key_expand key nb nk nr =
     (let kt = key_expand_kt key nb nk;
          rks = replicate ROUND_KEYS_LEN (replicate MAX_NB ZERO_COLUMN)
      in case key_expand_even key kt nb nk nr rks of
           None \<Rightarrow> None
         | Some rks \<Rightarrow> key_expand_odd rks nb nr)"

section \<open>Single-block operations\<close>

text \<open>The indices \<open>unroll_rounds!\<close> is given in \<open>encrypt_with_schedule\<close>; the constant
  assertion there admits no other \<open>NR\<close>.\<close>

definition unrolled_rounds :: "nat \<Rightarrow> nat list" where
  "unrolled_rounds NR =
     (if NR = 10 then [1, 2, 3, 4, 5, 6, 7, 8, 9]
      else if NR = 14 then [1, 2, 3, 4, 5, 6, 7, 8, 9, 10, 11, 12, 13]
      else [1, 2, 3, 4, 5, 6, 7, 8, 9, 10, 11, 12, 13, 14, 15, 16, 17])"

definition encrypt_with_schedule :: "nat \<Rightarrow> nat \<Rightarrow> round_keys \<Rightarrow> bytes \<Rightarrow> bytes" where
  "encrypt_with_schedule NB NR rks plaintext =
     (let state = take NB (columns_from_bytes plaintext NB);
          state = add_round_key state (take NB (rks ! 0));
          state = fold (\<lambda>i st. xor_round_key (encipher_round_n NB st) (take NB (rks ! i)))
                    (unrolled_rounds NR) state;
          state = encipher_round_n NB state;
          state = add_round_key state (take NB (rks ! NR))
      in concat state @ replicate ((MAX_NB - NB) * ROWS) 0)"

text \<open>The same for the decryption order, \<open>NR - 1\<close> down to 1.\<close>

definition unrolled_rounds_dec :: "nat \<Rightarrow> nat list" where
  "unrolled_rounds_dec NR =
     (if NR = 10 then [9, 8, 7, 6, 5, 4, 3, 2, 1]
      else if NR = 14 then [13, 12, 11, 10, 9, 8, 7, 6, 5, 4, 3, 2, 1]
      else [17, 16, 15, 14, 13, 12, 11, 10, 9, 8, 7, 6, 5, 4, 3, 2, 1])"

definition decrypt_with_schedule :: "nat \<Rightarrow> nat \<Rightarrow> round_keys \<Rightarrow> round_keys \<Rightarrow> bytes \<Rightarrow> bytes" where
  "decrypt_with_schedule NB NR rks dec_keys ciphertext =
     (let state = take NB (columns_from_bytes ciphertext NB);
          state = sub_round_key state (take NB (rks ! NR));
          state = apply_inverse_matrix state;
          state = fold (\<lambda>i st. xor_round_key (fused_inv_round_n NB st) (take NB (dec_keys ! i)))
                    (unrolled_rounds_dec NR) state;
          state = inv_shift_rows state;
          state = inv_sub_bytes state;
          state = sub_round_key state (take NB (rks ! 0))
      in concat state @ replicate ((MAX_NB - NB) * ROWS) 0)"

datatype kalyna_variant =
  Kalyna128_128 | Kalyna128_256 | Kalyna256_256 | Kalyna256_512 | Kalyna512_512

text \<open>The literals of the five \<open>kalyna_variant!\<close> invocations.\<close>

fun key_bytes :: "kalyna_variant \<Rightarrow> nat" where
  "key_bytes Kalyna128_128 = 16"
| "key_bytes Kalyna128_256 = 32"
| "key_bytes Kalyna256_256 = 32"
| "key_bytes Kalyna256_512 = 64"
| "key_bytes Kalyna512_512 = 64"

fun block_bytes :: "kalyna_variant \<Rightarrow> nat" where
  "block_bytes Kalyna128_128 = 16"
| "block_bytes Kalyna128_256 = 16"
| "block_bytes Kalyna256_256 = 32"
| "block_bytes Kalyna256_512 = 32"
| "block_bytes Kalyna512_512 = 64"

fun v_nb :: "kalyna_variant \<Rightarrow> nat" where
  "v_nb Kalyna128_128 = 2"
| "v_nb Kalyna128_256 = 2"
| "v_nb Kalyna256_256 = 4"
| "v_nb Kalyna256_512 = 4"
| "v_nb Kalyna512_512 = 8"

fun v_nk :: "kalyna_variant \<Rightarrow> nat" where
  "v_nk Kalyna128_128 = 2"
| "v_nk Kalyna128_256 = 4"
| "v_nk Kalyna256_256 = 4"
| "v_nk Kalyna256_512 = 8"
| "v_nk Kalyna512_512 = 8"

fun v_nr :: "kalyna_variant \<Rightarrow> nat" where
  "v_nr Kalyna128_128 = 10"
| "v_nr Kalyna128_256 = 14"
| "v_nr Kalyna256_256 = 14"
| "v_nr Kalyna256_512 = 18"
| "v_nr Kalyna512_512 = 18"

definition encrypt_generic :: "nat \<Rightarrow> nat \<Rightarrow> bytes \<Rightarrow> bytes \<Rightarrow> nat \<Rightarrow> nat \<Rightarrow> bytes option" where
  "encrypt_generic NB NR key plaintext nk nr =
     map_option (\<lambda>rks. encrypt_with_schedule NB NR rks plaintext) (key_expand key NB nk nr)"

definition decrypt_generic :: "nat \<Rightarrow> nat \<Rightarrow> bytes \<Rightarrow> bytes \<Rightarrow> nat \<Rightarrow> nat \<Rightarrow> bytes option" where
  "decrypt_generic NB NR key ciphertext nk nr =
     map_option (\<lambda>rks. decrypt_with_schedule NB NR rks (transform_keys_for_decrypt rks NB nr) ciphertext)
       (key_expand key NB nk nr)"

text \<open>\<open>$name::encrypt\<close> and \<open>$name::decrypt\<close>; \<open>None\<close> is a panic of the key schedule.\<close>

definition kalyna_encrypt :: "kalyna_variant \<Rightarrow> bytes \<Rightarrow> bytes \<Rightarrow> bytes option" where
  "kalyna_encrypt v key block =
     map_option (take (block_bytes v)) (encrypt_generic (v_nb v) (v_nr v) key block (v_nk v) (v_nr v))"

definition kalyna_decrypt :: "kalyna_variant \<Rightarrow> bytes \<Rightarrow> bytes \<Rightarrow> bytes option" where
  "kalyna_decrypt v key block =
     map_option (take (block_bytes v)) (decrypt_generic (v_nb v) (v_nr v) key block (v_nk v) (v_nr v))"

record expanded_key =
  ek_round_keys :: round_keys
  ek_dec_keys :: round_keys

definition expanded_key_new :: "kalyna_variant \<Rightarrow> bytes \<Rightarrow> expanded_key option" where
  "expanded_key_new v key =
     map_option (\<lambda>rks. \<lparr>ek_round_keys = rks,
         ek_dec_keys = transform_keys_for_decrypt rks (v_nb v) (v_nr v)\<rparr>)
       (key_expand key (v_nb v) (v_nk v) (v_nr v))"

definition encrypt_block :: "kalyna_variant \<Rightarrow> expanded_key \<Rightarrow> bytes \<Rightarrow> bytes" where
  "encrypt_block v ek block =
     take (block_bytes v) (encrypt_with_schedule (v_nb v) (v_nr v) (ek_round_keys ek) block)"

definition decrypt_block :: "kalyna_variant \<Rightarrow> expanded_key \<Rightarrow> bytes \<Rightarrow> bytes" where
  "decrypt_block v ek block =
     take (block_bytes v)
       (decrypt_with_schedule (v_nb v) (v_nr v) (ek_round_keys ek) (ek_dec_keys ek) block)"



section \<open>Reference forms\<close>

text \<open>The three-pass forms the module's own tests keep as independent references for the
  fused rounds and for the restructured decryption.\<close>

definition naive_encipher_round :: "bytes list \<Rightarrow> bytes list" where
  "naive_encipher_round state = apply_forward_matrix (shift_rows (sub_bytes state))"

definition naive_decrypt_with_schedule :: "round_keys \<Rightarrow> bytes \<Rightarrow> nat \<Rightarrow> nat \<Rightarrow> bytes" where
  "naive_decrypt_with_schedule rks ciphertext nb nr =
     (let state = take nb (columns_from_bytes ciphertext nb);
          state = sub_round_key state (take nb (rks ! nr));
          state = fold (\<lambda>rk st. xor_round_key (decipher_round st) (take nb rk))
                    (rev (slice 1 nr rks)) state;
          state = decipher_round state;
          state = sub_round_key state (take nb (rks ! 0))
      in concat state @ replicate ((MAX_NB - nb) * ROWS) 0)"

section \<open>Shapes\<close>

definition valid_nb :: "nat \<Rightarrow> bool" where
  "valid_nb nb \<longleftrightarrow> nb = 2 \<or> nb = 4 \<or> nb = 8"

lemma valid_nb_v_nb [simp]: "valid_nb (v_nb v)"
  by (cases v) (simp_all add: valid_nb_def)

lemma valid_nb_bounds: "valid_nb nb \<Longrightarrow> 0 < nb" "valid_nb nb \<Longrightarrow> nb \<le> 8"
  by (auto simp: valid_nb_def)

lemma block_bytes_nb: "block_bytes v = 8 * v_nb v"
  by (cases v) simp_all

lemma state_eqI:
  assumes "length a = length b" "wf_state a" "wf_state b"
    and "\<And>c r. c < length a \<Longrightarrow> r < 8 \<Longrightarrow> a ! c ! r = b ! c ! r"
  shows "a = b"
  using assms by (intro nth_equalityI) (auto simp: wf_state_nth)

lemma wf_update: "wf_state st \<Longrightarrow> length c = 8 \<Longrightarrow> wf_state (st[i := c])"
  unfolding wf_state_def by (metis insertE set_update_subset_insert subsetD)

lemma length_state_ops [simp]:
  "length (sub_bytes st) = length st" "length (inv_sub_bytes st) = length st"
  "length (inv_shift_rows st) = length st"
  "length (encipher_round st) = length st" "length (encipher_round_n nb st) = nb"
  "length (fused_inv_round st) = length st" "length (fused_inv_round_n nb st) = nb"
  "length (add_round_key st k) = length st" "length (sub_round_key st k) = length st"
  "length (xor_round_key st k) = length st"
  by (simp_all add: sub_bytes_def inv_sub_bytes_def inv_shift_rows_def encipher_round_def
      encipher_round_n_def fused_inv_round_def fused_inv_round_n_def add_round_key_def
      sub_round_key_def xor_round_key_def Let_def)

lemma wf_state_ops [simp]:
  "wf_state st \<Longrightarrow> wf_state (sub_bytes st)" "wf_state st \<Longrightarrow> wf_state (inv_sub_bytes st)"
  "wf_state (inv_shift_rows st)" "wf_state (encipher_round st)" "wf_state (encipher_round_n nb st)"
  "wf_state (fused_inv_round st)" "wf_state (fused_inv_round_n nb st)"
  by (auto simp: wf_state_def sub_bytes_def inv_sub_bytes_def inv_shift_rows_def encipher_round_def
      encipher_round_n_def fused_inv_round_def fused_inv_round_n_def ROWS_def Let_def)

lemma wf_map2_state: "(\<And>s k. length s = 8 \<Longrightarrow> length (f s k) = 8) \<Longrightarrow> wf_state st \<Longrightarrow>
    wf_state (map2 f st ks @ drop (length ks) st)"
  by (auto simp: wf_state_def dest!: set_zip_leftD in_set_dropD)

lemma wf_round_key_ops [simp]:
  "wf_state st \<Longrightarrow> wf_state (add_round_key st k)" "wf_state st \<Longrightarrow> wf_state (sub_round_key st k)"
  "wf_state st \<Longrightarrow> wf_state (xor_round_key st k)"
  unfolding add_round_key_def sub_round_key_def xor_round_key_def by (rule wf_map2_state; simp)+

section \<open>Substitution and permutation\<close>

lemma sub_bytes_nth:
  "wf_state st \<Longrightarrow> c < length st \<Longrightarrow> r < 8 \<Longrightarrow>
   sub_bytes st ! c ! r = SBOXES ! (r mod 4) ! unat (st ! c ! r)"
  by (simp add: sub_bytes_def wf_state_nth)

lemma inv_sub_bytes_nth:
  "wf_state st \<Longrightarrow> c < length st \<Longrightarrow> r < 8 \<Longrightarrow>
   inv_sub_bytes st ! c ! r = SBOXES_DEC ! (r mod 4) ! unat (st ! c ! r)"
  by (simp add: inv_sub_bytes_def wf_state_nth)

lemma inv_sub_bytes_sub_bytes: "wf_state st \<Longrightarrow> inv_sub_bytes (sub_bytes st) = st"
  by (rule state_eqI) (simp_all add: sub_bytes_nth inv_sub_bytes_nth)

lemma inv_shift_rows_nth:
  "c < length st \<Longrightarrow> r < 8 \<Longrightarrow>
   inv_shift_rows st ! c ! r = st ! ((c + r * length st div 8) mod length st) ! r"
  by (simp add: inv_shift_rows_def Let_def ROWS_def)

text \<open>A loop that writes column \<open>\<sigma> x\<close> of one row for every \<open>x\<close>.\<close>

lemma row_scatter_shape:
  "length (fold (\<lambda>x l. l[\<sigma> x := (l ! \<sigma> x)[row := g x]]) xs l) = length l"
  "wf_state l \<Longrightarrow> (\<And>x. x \<in> set xs \<Longrightarrow> \<sigma> x < length l) \<Longrightarrow>
   wf_state (fold (\<lambda>x l. l[\<sigma> x := (l ! \<sigma> x)[row := g x]]) xs l)"
  by (induction xs arbitrary: l) (simp_all add: wf_update wf_state_nth)

lemma row_scatter_other_row:
  "r \<noteq> row \<Longrightarrow> fold (\<lambda>x l. l[\<sigma> x := (l ! \<sigma> x)[row := g x]]) xs l ! c ! r = l ! c ! r"
proof (induction xs arbitrary: l)
  case (Cons x xs)
  then show ?case by (cases "c = \<sigma> x"; cases "\<sigma> x < length l") (simp_all add: list_update_beyond)
qed simp

lemma row_scatter_other_col:
  "(\<And>x. x \<in> set xs \<Longrightarrow> \<sigma> x \<noteq> c) \<Longrightarrow> fold (\<lambda>x l. l[\<sigma> x := (l ! \<sigma> x)[row := g x]]) xs l ! c = l ! c"
  by (induction xs arbitrary: l) simp_all

lemma row_scatter_hit:
  "distinct (map \<sigma> xs) \<Longrightarrow> x \<in> set xs \<Longrightarrow> \<sigma> x < length l \<Longrightarrow> row < length (l ! \<sigma> x) \<Longrightarrow>
   fold (\<lambda>x l. l[\<sigma> x := (l ! \<sigma> x)[row := g x]]) xs l ! \<sigma> x ! row = g x"
proof (induction xs arbitrary: l)
  case (Cons y xs)
  show ?case
  proof (cases "x = y")
    case True
    with Cons.prems have "\<And>z. z \<in> set xs \<Longrightarrow> \<sigma> z \<noteq> \<sigma> x" by (auto simp: image_iff)
    with True Cons.prems show ?thesis by (simp add: row_scatter_other_col)
  next
    case False
    with Cons.prems have "\<sigma> x \<noteq> \<sigma> y" by (auto simp: image_iff)
    with False Cons show ?thesis by simp
  qed
qed simp

lemma shift_less: "0 < nb \<Longrightarrow> r < 8 \<Longrightarrow> r * nb div 8 < (nb :: nat)"
  by (simp add: less_mult_imp_div_less)

lemma rotate_index: "c < (n :: nat) \<Longrightarrow> s < n \<Longrightarrow> ((c + n - s) mod n + s) mod n = c"
  by (simp add: mod_add_left_eq)

lemma distinct_rotation: "distinct (map (\<lambda>c. (c + s) mod n) [0..<(n :: nat)])"
proof -
  have "inj_on (\<lambda>c. (c + s) mod n) {0..<n}"
  proof (rule inj_onI)
    fix x y assume xy: "x \<in> {0..<n}" "y \<in> {0..<n}" "(x + s) mod n = (y + s) mod n"
    have "((x + s) mod n + (n - s mod n)) mod n = x" if "x < n" for x
    proof -
      have "((x + s) mod n + (n - s mod n)) mod n = (x + s mod n + (n - s mod n)) mod n"
        by (metis mod_add_left_eq mod_add_right_eq)
      also have "x + s mod n + (n - s mod n) = x + n" using that by simp
      finally show ?thesis using that by simp
    qed
    with xy show "x = y" by (metis atLeastLessThan_iff)
  qed
  then show ?thesis by (simp add: distinct_map)
qed

text \<open>One pass moves row \<open>row\<close> by \<open>sh row\<close> columns; all eight passes rotate the rows of a state.\<close>

definition rotate_pass :: "(nat \<Rightarrow> nat) \<Rightarrow> bytes list \<Rightarrow> nat \<Rightarrow> bytes list \<Rightarrow> bytes list" where
  "rotate_pass sh st row l = fold (\<lambda>col l. l[(col + sh row) mod length st :=
     (l ! ((col + sh row) mod length st))[row := st ! col ! row]]) [0..<length st] l"

definition rotate_rows :: "(nat \<Rightarrow> nat) \<Rightarrow> nat \<Rightarrow> bytes list \<Rightarrow> bytes list" where
  "rotate_rows sh width st = take (length st) (fold (rotate_pass sh st) [0..<8] (replicate width (replicate 8 0)))"

lemma rotate_pass:
  "length (rotate_pass sh st row l) = length l"
  "wf_state l \<Longrightarrow> 0 < length st \<Longrightarrow> length st \<le> length l \<Longrightarrow> wf_state (rotate_pass sh st row l)"
  "r \<noteq> row \<Longrightarrow> rotate_pass sh st row l ! c ! r = l ! c ! r"
  unfolding rotate_pass_def
  by (simp add: row_scatter_shape)
    (rule row_scatter_shape, simp_all add: row_scatter_other_row less_le_trans [OF mod_less_divisor])

lemma rotate_pass_hit:
  assumes "wf_state l" "c < length st" "length st \<le> length l" "r < 8" "sh r < length st"
  shows "rotate_pass sh st r l ! c ! r = st ! ((c + length st - sh r) mod length st) ! r"
proof -
  let ?n = "length st"
  let ?src = "(c + ?n - sh r) mod ?n"
  have n: "0 < ?n" using assms(2) by auto
  have c: "(?src + sh r) mod ?n = c" using assms(2,5) by (rule rotate_index)
  have "fold (\<lambda>col l. l[(col + sh r) mod ?n := (l ! ((col + sh r) mod ?n))[r := st ! col ! r]])
      [0..<?n] l ! ((?src + sh r) mod ?n) ! r = st ! ?src ! r"
    using assms n by (intro row_scatter_hit distinct_rotation) (simp_all add: c wf_state_nth)
  then show ?thesis
    unfolding rotate_pass_def c .
qed

lemma rotate_passes:
  "length (fold (rotate_pass sh st) rs l) = length l"
  "wf_state l \<Longrightarrow> 0 < length st \<Longrightarrow> length st \<le> length l \<Longrightarrow> wf_state (fold (rotate_pass sh st) rs l)"
  "r \<notin> set rs \<Longrightarrow> fold (rotate_pass sh st) rs l ! c ! r = l ! c ! r"
  by (induction rs arbitrary: l) (simp_all add: rotate_pass)

lemma length_rotate_rows [simp]: "length st \<le> width \<Longrightarrow> length (rotate_rows sh width st) = length st"
  by (simp add: rotate_rows_def rotate_passes)

lemma wf_rotate_rows: "0 < length st \<Longrightarrow> length st \<le> width \<Longrightarrow> wf_state (rotate_rows sh width st)"
proof -
  assume "0 < length st" "length st \<le> width"
  then have "wf_state (fold (rotate_pass sh st) [0..<8] (replicate width (replicate 8 0)))"
    by (intro rotate_passes) (simp_all add: wf_state_def)
  then show ?thesis unfolding rotate_rows_def wf_state_def by (meson in_set_takeD)
qed

lemma rotate_rows_nth:
  assumes "c < length st" "length st \<le> width" "r < (8 :: nat)" "sh r < length st"
  shows "rotate_rows sh width st ! c ! r = st ! ((c + length st - sh r) mod length st) ! r"
proof -
  let ?z = "replicate width (replicate 8 0)" and ?p = "rotate_pass sh st"
  have "[0..<8] = [0..<r] @ r # [Suc r..<8]"
    using assms(3) upt_add_eq_append [of 0 r "8 - r"] by (simp add: upt_conv_Cons)
  then have "fold ?p [0..<8] ?z = fold ?p [Suc r..<8] (?p r (fold ?p [0..<r] ?z))"
    by (metis comp_apply fold.simps(2) fold_append)
  moreover have "0 < length st" using assms(1) by auto
  then have "wf_state (fold ?p [0..<r] ?z)"
    using assms by (intro rotate_passes) (simp_all add: wf_state_def)
  ultimately show ?thesis
    using assms by (simp add: rotate_rows_def rotate_passes rotate_pass_hit)
qed

lemma shift_rows_alt: "shift_rows st = rotate_rows (\<lambda>r. r * length st div 8) 8 st"
proof -
  have "shift_rows_move st row = (\<lambda>col l. l[(col + row * length st div 8) mod length st :=
      (l ! ((col + row * length st div 8) mod length st))[row := st ! col ! row]])" for row
    by (simp add: fun_eq_iff shift_rows_move_def Let_def ROWS_def)
  then have "(\<lambda>row. fold (\<lambda>col. shift_rows_move st row col) [0..<length st]) = rotate_pass (\<lambda>r. r * length st div 8) st"
    by (intro ext) (simp add: rotate_pass_def)
  then show ?thesis by (simp add: shift_rows_def rotate_rows_def ROWS_def MAX_NB_def ZERO_COLUMN_def)
qed

lemma length_shift_rows [simp]: "length st \<le> 8 \<Longrightarrow> length (shift_rows st) = length st"
  by (simp add: shift_rows_alt)

lemma wf_shift_rows: "0 < length st \<Longrightarrow> length st \<le> 8 \<Longrightarrow> wf_state (shift_rows st)"
  by (simp add: shift_rows_alt wf_rotate_rows)

lemma shift_rows_nth:
  assumes "c < length st" "length st \<le> 8" "r < (8 :: nat)"
  shows "shift_rows st ! c ! r = st ! ((c + length st - r * length st div 8) mod length st) ! r"
proof -
  have "0 < length st" using assms(1) by auto
  then have "r * length st div 8 < length st" using assms(3) by (rule shift_less)
  then show ?thesis unfolding shift_rows_alt using assms by (intro rotate_rows_nth)
qed

lemma inv_shift_rows_shift_rows:
  assumes "wf_state st" "0 < length st" "length st \<le> 8"
  shows "inv_shift_rows (shift_rows st) = st" "shift_rows (inv_shift_rows st) = st"
proof -
  show "inv_shift_rows (shift_rows st) = st"
  proof (rule state_eqI)
    fix c r :: nat assume cr: "c < length (inv_shift_rows (shift_rows st))" "r < 8"
    then have s: "r * length st div 8 < length st" using assms by (simp add: shift_less)
    have "((c + r * length st div 8) mod length st + length st - r * length st div 8) mod length st = c"
      using cr s assms by (simp add: mod_if)
    with cr assms show "inv_shift_rows (shift_rows st) ! c ! r = st ! c ! r"
      by (simp add: inv_shift_rows_nth shift_rows_nth)
  qed (use assms in simp_all)
  show "shift_rows (inv_shift_rows st) = st"
  proof (rule state_eqI)
    fix c r :: nat assume cr: "c < length (shift_rows (inv_shift_rows st))" "r < 8"
    then have s: "r * length st div 8 < length st" using assms by (simp add: shift_less)
    with cr assms show "shift_rows (inv_shift_rows st) ! c ! r = st ! c ! r"
      by (simp add: inv_shift_rows_nth shift_rows_nth rotate_index)
  qed (use assms in \<open>simp_all add: wf_shift_rows\<close>)
qed

section \<open>Fused rounds\<close>

lemma gather_mask: "valid_nb nb \<Longrightarrow> x AND (nb - Suc 0) = x mod nb"
  using and_mask_mod [of x 1] and_mask_mod [of x 2] and_mask_mod [of x 3]
  by (auto simp: valid_nb_def)

lemma mix_column_foldl:
  "(\<And>r. r < 8 \<Longrightarrow> f r = t ! r ! unat (c ! r)) \<Longrightarrow> length c = 8 \<Longrightarrow>
   foldl (\<lambda>acc row. acc XOR f row) 0 [0..<8] = mix_column t c"
  by (simp add: mix_column_8 basis8 xor.assoc)

lemma encipher_round_n_eq:
  assumes "valid_nb nb" "length st = nb" "wf_state st"
  shows "encipher_round_n nb st = apply_forward_matrix (shift_rows (sub_bytes st))"
proof -
  have nb: "0 < nb" "nb \<le> 8" using assms(1) by (simp_all add: valid_nb_bounds)
  have w: "wf_state (shift_rows (sub_bytes st))" using nb assms by (intro wf_shift_rows) simp_all
  show ?thesis
    unfolding encipher_round_n_def apply_forward_matrix_def apply_matrix_def Let_def
  proof (rule nth_equalityI)
    fix c assume "c < length (map (\<lambda>out_col. to_le_bytes 8 (foldl (\<lambda>acc row. acc XOR
      forward_sbox_mds row (st ! ((out_col + nb - row * nb div ROWS) AND (nb - 1)) ! row)) 0 [0..<ROWS])) [0..<nb])"
    then have c: "c < nb" by simp
    have "forward_sbox_mds r (st ! ((c + nb - r * nb div 8) AND (nb - 1)) ! r) =
      MDS_TABLE ! r ! unat (shift_rows (sub_bytes st) ! c ! r)" if "r < 8" for r
      using that c nb assms
      by (simp add: forward_sbox_mds_eq gather_mask shift_rows_nth sub_bytes_nth)
    with c w nb assms show "map (\<lambda>out_col. to_le_bytes 8 (foldl (\<lambda>acc row. acc XOR
      forward_sbox_mds row (st ! ((out_col + nb - row * nb div ROWS) AND (nb - 1)) ! row)) 0 [0..<ROWS])) [0..<nb] ! c =
      map (\<lambda>column. to_le_bytes 8 (mix_column MDS_TABLE column)) (shift_rows (sub_bytes st)) ! c"
      by (simp add: ROWS_def mix_column_foldl wf_state_nth)
  qed (use nb assms in simp)
qed

lemma encipher_round_is_n: "encipher_round st = encipher_round_n (length st) st"
  by (simp add: encipher_round_def encipher_round_n_def Let_def)

lemma fused_inv_round_is_n: "fused_inv_round st = fused_inv_round_n (length st) st"
  by (simp add: fused_inv_round_def fused_inv_round_n_def Let_def)

lemma fused_inv_round_n_eq:
  assumes "valid_nb nb" "length st = nb" "wf_state st"
  shows "fused_inv_round_n nb st = apply_inverse_matrix (inv_sub_bytes (inv_shift_rows st))"
proof -
  have nb: "0 < nb" "nb \<le> 8" using assms(1) by (simp_all add: valid_nb_bounds)
  show ?thesis
    unfolding fused_inv_round_n_def apply_inverse_matrix_def apply_matrix_def Let_def
  proof (rule nth_equalityI)
    fix c assume "c < length (map (\<lambda>out_col. to_le_bytes 8 (foldl (\<lambda>acc row. acc XOR
      inverse_sbox_mds row (st ! ((out_col + row * nb div ROWS) AND (nb - 1)) ! row)) 0 [0..<ROWS])) [0..<nb])"
    then have c: "c < nb" by simp
    have "inverse_sbox_mds r (st ! ((c + r * nb div 8) AND (nb - 1)) ! r) =
      MDS_INV_TABLE ! r ! unat (inv_sub_bytes (inv_shift_rows st) ! c ! r)" if "r < 8" for r
      using that c nb assms
      by (simp add: inverse_sbox_mds_eq gather_mask inv_shift_rows_nth inv_sub_bytes_nth)
    with c nb assms show "map (\<lambda>out_col. to_le_bytes 8 (foldl (\<lambda>acc row. acc XOR
      inverse_sbox_mds row (st ! ((out_col + row * nb div ROWS) AND (nb - 1)) ! row)) 0 [0..<ROWS])) [0..<nb] ! c =
      map (\<lambda>column. to_le_bytes 8 (mix_column MDS_INV_TABLE column)) (inv_sub_bytes (inv_shift_rows st)) ! c"
      by (simp add: ROWS_def mix_column_foldl wf_state_nth)
  qed (use nb assms in simp)
qed

lemma inverse_layers_encipher_round_n:
  assumes "valid_nb nb" "length st = nb" "wf_state st"
  shows "inv_sub_bytes (inv_shift_rows (apply_inverse_matrix (encipher_round_n nb st))) = st"
  using assms valid_nb_bounds [OF assms(1)]
  by (simp add: encipher_round_n_eq apply_inverse_forward wf_shift_rows inv_shift_rows_shift_rows
      inv_sub_bytes_sub_bytes)



section \<open>Round trip of the rounds\<close>

definition state_ok :: "nat \<Rightarrow> bytes list \<Rightarrow> bool" where
  "state_ok nb st \<longleftrightarrow> length st = nb \<and> wf_state st"

lemma state_okD: "state_ok nb st \<Longrightarrow> length st = nb" "state_ok nb st \<Longrightarrow> wf_state st"
  by (simp_all add: state_ok_def)

lemma state_ok_ops [simp]:
  "state_ok nb (encipher_round_n nb st)" "state_ok nb (fused_inv_round_n nb st)"
  "state_ok nb st \<Longrightarrow> state_ok nb (encipher_round st)"
  "state_ok nb st \<Longrightarrow> state_ok nb (apply_inverse_matrix st)"
  "state_ok nb st \<Longrightarrow> state_ok nb (inv_shift_rows st)"
  "state_ok nb st \<Longrightarrow> state_ok nb (inv_sub_bytes st)"
  "state_ok nb st \<Longrightarrow> state_ok nb (add_round_key st k)"
  "state_ok nb st \<Longrightarrow> state_ok nb (sub_round_key st k)"
  "state_ok nb st \<Longrightarrow> state_ok nb (xor_round_key st k)"
  by (simp_all add: state_ok_def)

lemma nth_round_key_ops:
  assumes "c < length st" "length k = length st"
  shows "add_round_key st k ! c = to_le_bytes 8 (from_le_bytes (st ! c) + from_le_bytes (k ! c) :: u64)"
    and "sub_round_key st k ! c = to_le_bytes 8 (from_le_bytes (st ! c) - from_le_bytes (k ! c) :: u64)"
    and "xor_round_key st k ! c = xor_into (st ! c) (k ! c)"
  using assms by (simp_all add: add_round_key_def sub_round_key_def xor_round_key_def nth_append)

lemma round_key_inverses:
  assumes "state_ok nb st" "length k = nb"
  shows "sub_round_key (add_round_key st k) k = st" "add_round_key (sub_round_key st k) k = st"
    "xor_round_key (xor_round_key st k) k = st"
  using assms by (auto intro!: nth_equalityI simp: nth_round_key_ops state_ok_def wf_state_nth)

lemma apply_inverse_matrix_xor:
  assumes "state_ok nb st" "state_ok nb k"
  shows "apply_inverse_matrix (xor_round_key st k) =
    xor_round_key (apply_inverse_matrix st) (apply_inverse_matrix k)"
proof (rule nth_equalityI)
  fix c assume "c < length (apply_inverse_matrix (xor_round_key st k))"
  with assms show "apply_inverse_matrix (xor_round_key st k) ! c =
      xor_round_key (apply_inverse_matrix st) (apply_inverse_matrix k) ! c"
    by (simp add: nth_round_key_ops state_ok_def apply_inverse_matrix_def apply_matrix_def
        mix_column_xor wf_state_nth MDS_INV_TABLE_additive to_le_bytes_xor)
qed simp

lemma rounds_roundtrip:
  assumes nb: "valid_nb nb"
    and keys: "\<And>i. i \<in> set is \<Longrightarrow> state_ok nb (ek i) \<and> dk i = apply_inverse_matrix (ek i)"
    and st: "state_ok nb st"
  shows "fold (\<lambda>i st. xor_round_key (fused_inv_round_n nb st) (dk i)) (rev is)
      (apply_inverse_matrix (encipher_round_n nb
        (fold (\<lambda>i st. xor_round_key (encipher_round_n nb st) (ek i)) is st))) =
    apply_inverse_matrix (encipher_round_n nb st)"
  using keys st
proof (induction "is" arbitrary: st)
  case (Cons i "is")
  let ?s = "xor_round_key (encipher_round_n nb st) (ek i)"
  have s: "state_ok nb ?s" and i: "state_ok nb (ek i)" "dk i = apply_inverse_matrix (ek i)"
    using Cons.prems by simp_all
  have "fused_inv_round_n nb (apply_inverse_matrix (encipher_round_n nb ?s)) = apply_inverse_matrix ?s"
    using s nb by (subst fused_inv_round_n_eq)
      (simp_all add: inverse_layers_encipher_round_n state_ok_def)
  also have "\<dots> = xor_round_key (apply_inverse_matrix (encipher_round_n nb st)) (dk i)"
    using i by (simp add: apply_inverse_matrix_xor [of nb])
  finally show ?case
    using Cons i s by (simp add: round_key_inverses [of nb] state_okD)
qed simp

lemma unrolled_rounds_rev: "unrolled_rounds_dec nr = rev (unrolled_rounds nr)"
  by (simp add: unrolled_rounds_dec_def unrolled_rounds_def)

lemma unrolled_rounds_upt: "nr \<in> {10, 14, 18} \<Longrightarrow> unrolled_rounds nr = [1..<nr]"
  by (auto simp: unrolled_rounds_def upt_rec)

section \<open>Blocks and columns\<close>

lemma columns_from_bytes_shape:
  "8 * count \<le> length bs \<Longrightarrow> wf_state (columns_from_bytes bs count)"
  "length (columns_from_bytes bs count) = 8"
  by (auto simp: wf_state_def columns_from_bytes_def ZERO_COLUMN_def ROWS_def MAX_NB_def)

lemma columns_state_ok:
  "nb \<le> 8 \<Longrightarrow> length bs = 8 * nb \<Longrightarrow> state_ok nb (take nb (columns_from_bytes bs nb))"
  by (simp add: state_ok_def columns_from_bytes_shape)

lemma take_columns_from_bytes:
  "nb \<le> 8 \<Longrightarrow> take nb (columns_from_bytes bs nb) = map (\<lambda>c. slice (8 * c) (8 * c + 8) bs) [0..<nb]"
  by (rule nth_equalityI) (simp_all add: columns_from_bytes_def MAX_NB_def ROWS_def algebra_simps)

lemma concat_slices:
  "length bs = 8 * n \<Longrightarrow> concat (map (\<lambda>c. slice (8 * c) (8 * c + 8) bs) [0..<n]) = bs"
proof (induction n arbitrary: bs)
  case (Suc n)
  have "concat (map (\<lambda>c. slice (8 * c) (8 * c + 8) bs) [0..<n]) =
    concat (map (\<lambda>c. slice (8 * c) (8 * c + 8) (take (8 * n) bs)) [0..<n])"
    by (rule arg_cong [of _ _ concat]) (auto simp: slice_def drop_take min_def)
  also have "\<dots> = take (8 * n) bs" using Suc by simp
  finally show ?case using Suc.prems by (simp add: slice_def)
qed simp

lemma concat_columns: "nb \<le> 8 \<Longrightarrow> length bs = 8 * nb \<Longrightarrow> concat (take nb (columns_from_bytes bs nb)) = bs"
  by (simp add: take_columns_from_bytes concat_slices)

lemma slice_concat:
  "wf_state st \<Longrightarrow> c < length st \<Longrightarrow> slice (8 * c) (8 * c + 8) (concat st @ zs) = st ! c"
proof (induction st arbitrary: c)
  case (Cons s st)
  then show ?case
  proof (cases c)
    case (Suc c')
    with Cons show ?thesis using Cons.IH [of c'] by (simp add: slice_append_right add.commute)
  qed (simp add: slice_def)
qed simp

lemma length_concat_state: "state_ok nb st \<Longrightarrow> length (concat st) = 8 * nb"
  by (auto simp: state_ok_def wf_state_def length_concat_const)

lemma columns_concat: "nb \<le> 8 \<Longrightarrow> state_ok nb st \<Longrightarrow> take nb (columns_from_bytes (concat st) nb) = st"
  by (rule nth_equalityI)
    (simp_all add: take_columns_from_bytes state_ok_def slice_concat [where zs = "[]", simplified])


section \<open>The key schedule\<close>

definition wf_schedule :: "round_keys \<Rightarrow> bool" where
  "wf_schedule rks \<longleftrightarrow> length rks = 19 \<and> (\<forall>rk \<in> set rks. length rk = 8 \<and> wf_state rk)"

lemma wf_schedule_nth:
  "wf_schedule rks \<Longrightarrow> i < 19 \<Longrightarrow> length (rks ! i) = 8" "wf_schedule rks \<Longrightarrow> i < 19 \<Longrightarrow> wf_state (rks ! i)"
  by (simp_all add: wf_schedule_def)

lemma wf_schedule_update:
  "wf_schedule rks \<Longrightarrow> i < 19 \<Longrightarrow> nb \<le> 8 \<Longrightarrow> state_ok nb k \<Longrightarrow> wf_schedule (rks[i := k @ drop nb (rks ! i)])"
  unfolding wf_schedule_def state_ok_def
  by (auto dest!: set_update_subset_insert [THEN subsetD])

lemma wf_schedule_take: "wf_schedule rks \<Longrightarrow> i < 19 \<Longrightarrow> nb \<le> 8 \<Longrightarrow> state_ok nb (take nb (rks ! i))"
  by (simp add: wf_schedule_nth state_ok_def)

lemma store_round_key_ok:
  assumes "wf_schedule rks" "round < 19" "nb \<le> 8" "nb \<le> length k" "wf_state k"
  shows "\<exists>rks'. store_round_key rks round nb k = Some rks' \<and> wf_schedule rks'"
proof -
  have "state_ok nb (take nb k)" using assms by (simp add: state_ok_def)
  with wf_schedule_update [OF assms(1-3)] have "wf_schedule (rks[round := take nb k @ drop nb (rks ! round)])" .
  moreover have "round < length rks" using assms by (simp add: wf_schedule_def)
  ultimately show ?thesis by (simp add: store_round_key_def)
qed

lemma round_key_from_ok:
  "wf_state base \<Longrightarrow> wf_state (round_key_from base tmp)" "length base \<le> length (round_key_from base tmp)"
  by (simp_all add: round_key_from_def Let_def ZERO_COLUMN_def ROWS_def)

lemma wf_rotate_words:
  assumes "wf_state buf" "count \<le> length buf" "0 < count"
  shows "wf_state (rotate_words_left buf count)" "length (rotate_words_left buf count) = length buf"
  proof -
  have "length (buf ! 0) = 8" using assms by (intro wf_state_nth) auto
  with assms show "wf_state (rotate_words_left buf count)" "length (rotate_words_left buf count) = length buf"
    by (auto simp: rotate_words_left_def slice_def min_def)
qed

lemma rotate_words_prefix_ok:
  "wf_state buf \<Longrightarrow> length buf = 8 \<Longrightarrow> 0 < nk \<Longrightarrow> nk \<le> 8 \<Longrightarrow>
   wf_state (rotate_words_left (take nk buf) nk @ drop nk buf) \<and>
   length (rotate_words_left (take nk buf) nk @ drop nk buf) = 8"
  by (simp add: wf_rotate_words)

lemma key_expand_even_loop_ok:
  assumes "0 < nb" "nb \<le> 8" "nk = nb \<or> nk = 2 * nb" "nk \<le> 8" "nr < 19"
    and "round \<le> nr" "even (nr - round)" "wf_schedule rks" "wf_state ini" "length ini = 8"
  shows "\<exists>rks'. key_expand_even_loop kt nb nk nr round ini tmv rks = Some rks' \<and> wf_schedule rks'"
  using assms(6-)
proof (induction "nr - round" arbitrary: round ini tmv rks rule: less_induct)
  case less
  let ?kt = "\<lambda>t. take nb (mod_add_columns (take nb kt) (take nb t))"
  let ?a = "round_key_from (take nb ini) (?kt tmv)"
  let ?ini = "rotate_words_left (take nk ini) nk @ drop nk ini"
  let ?tmv = "shift_left_words (take nb tmv) @ drop nb tmv"
  let ?b = "round_key_from (slice nb nk ini) (?kt ?tmv)"
  have a: "wf_state ?a" "nb \<le> length ?a"
    using less.prems assms round_key_from_ok(2) [of "take nb ini"] by (simp_all add: round_key_from_ok)
  obtain rks1 where 1: "store_round_key rks round nb ?a = Some rks1" "wf_schedule rks1"
    using store_round_key_ok [OF less.prems(3) _ assms(2) a(2,1), of round] less.prems assms(5) by auto
  have ini: "wf_state ?ini" "length ?ini = 8"
    using rotate_words_prefix_ok [OF less.prems(4,5), of nk] assms by auto
  show ?case
  proof (cases "round = nr")
    case True
    with 1 show ?thesis by (subst key_expand_even_loop.simps) (simp add: Let_def)
  next
    case False
    with less.prems have r2: "round + 2 \<le> nr" "even (nr - (round + 2))" by presburger+
    show ?thesis
    proof (cases "nk = nb")
      case True
      with less.hyps [OF _ r2 1(2) ini, of ?tmv] False 1 r2 show ?thesis
        by (subst key_expand_even_loop.simps) (simp add: Let_def)
    next
      case nk: False
      have b: "wf_state ?b" "nb \<le> length ?b"
        using nk less.prems assms round_key_from_ok(2) [of "slice nb nk ini"]
        by (auto simp: round_key_from_ok slice_def)
      obtain rks2 where 2: "store_round_key rks1 (round + 2) nb ?b = Some rks2" "wf_schedule rks2"
        using store_round_key_ok [OF 1(2) _ assms(2) b(2,1), of "round + 2"] r2 assms(5) by auto
      show ?thesis
      proof (cases "round + 2 = nr")
        case True
        with 1 2 False nk show ?thesis by (subst key_expand_even_loop.simps) (simp add: Let_def)
      next
        case 4: False
        with r2 have r4: "round + 2 + 2 \<le> nr" "even (nr - (round + 2 + 2))" by presburger+
        with less.hyps [OF _ r4 2(2) ini, of "shift_left_words (take nb ?tmv) @ drop nb ?tmv"] 1 2 False nk 4
        show ?thesis
          by (subst key_expand_even_loop.simps) (simp add: Let_def)
      qed
    qed
  qed
qed

lemma odd_round_key_state:
  assumes "state_ok nb k"
  shows "state_ok nb (map (\<lambda>c. slice (c * ROWS) ((c + 1) * ROWS) (rotate_bytes_left (concat k) (2 * nb + 3))) [0..<nb])"
proof -
  have "length (rotate_bytes_left (concat k) (2 * nb + 3)) = 8 * nb"
    using assms by (simp add: rotate_bytes_left_def length_concat_state)
  then show ?thesis by (auto simp: state_ok_def wf_state_def ROWS_def)
qed

lemma key_expand_odd_loop_ok:
  "wf_schedule rks \<Longrightarrow> 0 < nb \<Longrightarrow> nb \<le> 8 \<Longrightarrow> nr < 19 \<Longrightarrow> 0 < i \<Longrightarrow>
   \<exists>rks'. key_expand_odd_loop rks nb nr i = Some rks' \<and> wf_schedule rks'"
proof (induction rks nb nr i rule: key_expand_odd_loop.induct)
  case (1 rks nb nr i)
  show ?case
  proof (cases "i < nr")
    case True
    let ?cols = "map (\<lambda>c. slice (c * ROWS) ((c + 1) * ROWS) (rotate_bytes_left (concat (take nb (rks ! (i - 1)))) (2 * nb + 3))) [0..<nb]"
    have len: "length rks = 19" using 1 by (simp add: wf_schedule_def)
    have "state_ok nb (take nb (rks ! (i - 1)))" using 1 True by (intro wf_schedule_take) auto
    then have cols: "state_ok nb ?cols" by (rule odd_round_key_state)
    obtain rks1 where s: "store_round_key rks i nb ?cols = Some rks1" "wf_schedule rks1"
      using store_round_key_ok [OF 1(2) _ 1(4), of i ?cols] cols 1 True by (auto simp: state_ok_def)
    then show ?thesis using 1(1) [OF True _ refl refl refl s(1)] 1 True len
      by (subst key_expand_odd_loop.simps) (simp add: Let_def)
  qed (use 1 in \<open>simp add: key_expand_odd_loop.simps\<close>)
qed

lemma key_expand_ok:
  assumes "valid_nb nb" "nk = nb \<or> nk = 2 * nb" "nk \<le> 8" "even nr" "nr < 19" "length key = 8 * nk"
  shows "\<exists>rks. key_expand key nb nk nr = Some rks \<and> wf_schedule rks"
proof -
  have nb: "0 < nb" "nb \<le> 8" using assms(1) by (simp_all add: valid_nb_bounds)
  have "wf_schedule (replicate ROUND_KEYS_LEN (replicate MAX_NB ZERO_COLUMN))"
    by (simp add: wf_schedule_def ROUND_KEYS_LEN_def MAX_NB_def ZERO_COLUMN_def ROWS_def)
  then obtain rks where
    "key_expand_even key (key_expand_kt key nb nk) nb nk nr
       (replicate ROUND_KEYS_LEN (replicate MAX_NB ZERO_COLUMN)) = Some rks" "wf_schedule rks"
    using key_expand_even_loop_ok [OF nb assms(2,3,5)] assms columns_from_bytes_shape [where count = nk and bs = key]
    unfolding key_expand_even_def by (metis le0 le_refl minus_nat.diff_0)
  then show ?thesis
    using key_expand_odd_loop_ok [OF _ nb assms(5), of rks 1] by (simp add: key_expand_def key_expand_odd_def)
qed

lemma variant_params:
  "v_nk v = v_nb v \<or> v_nk v = 2 * v_nb v" "v_nk v \<le> 8" "even (v_nr v)" "v_nr v < 19"
  "key_bytes v = 8 * v_nk v" "v_nr v \<in> {10, 14, 18}"
  by (cases v; simp)+

lemma key_expand_variant:
  "length key = key_bytes v \<Longrightarrow> \<exists>rks. key_expand key (v_nb v) (v_nk v) (v_nr v) = Some rks \<and> wf_schedule rks"
  using variant_params [of v] by (intro key_expand_ok) simp_all

lemma key_expand_variant_wf:
  "length key = key_bytes v \<Longrightarrow> key_expand key (v_nb v) (v_nk v) (v_nr v) = Some rks \<Longrightarrow> wf_schedule rks"
  using key_expand_variant [of key v] by auto

section \<open>The round keys in closed form\<close>

text \<open>The even round keys come from the words of the key, rotated as one ring, and the intermediate key plus
  a constant that doubles from one even round key to the next.\<close>

definition round_constants :: "nat \<Rightarrow> nat \<Rightarrow> bytes list" where
  "round_constants nb j = replicate nb (to_le_bytes 8 (push_bit j (0x0001000100010001 :: u64)))"

definition even_round_key :: "bytes list \<Rightarrow> bytes list \<Rightarrow> nat \<Rightarrow> nat \<Rightarrow> bytes list" where
  "even_round_key kt ws nb i =
     (let base = (if length ws = nb then rotate (i div 2) ws
                  else if i mod 4 = 0 then take nb (rotate (i div 4) ws) else drop nb (rotate (i div 4) ws))
      in take nb (round_key_from base (take nb (mod_add_columns (take nb kt) (round_constants nb (i div 2))))))"

lemma store_round_key_nth:
  assumes "store_round_key rks round nb k = Some rks'" "nb \<le> length k"
  shows "take nb (rks' ! round) = take nb k" "j \<noteq> round \<Longrightarrow> rks' ! j = rks ! j"
  using assms by (auto simp: store_round_key_def split: if_splits)

lemma rotate_words_prefix:
  assumes "length buf = 8" "0 < nk" "nk \<le> 8"
  shows "take nk (rotate_words_left (take nk buf) nk @ drop nk buf) = rotate1 (take nk buf)"
proof -
  have "rotate_words_left xs (length xs) = rotate1 xs" if "xs \<noteq> []" for xs :: "bytes list"
    using that by (cases xs) (simp_all add: rotate_words_left_def slice_def)
  moreover have "length (take nk buf) = nk" "take nk buf \<noteq> []" using assms by auto
  ultimately have "rotate_words_left (take nk buf) nk = rotate1 (take nk buf)" by metis
  then show ?thesis using assms by simp
qed

lemma shift_constants:
  assumes "take nb tmv = round_constants nb j" "nb \<le> length tmv"
  shows "take nb (shift_left_words (take nb tmv) @ drop nb tmv) = round_constants nb (Suc j)"
proof -
  have "to_le_bytes 8 (push_bit 1 (from_le_bytes (to_le_bytes 8 (push_bit j w)) :: u64)) = to_le_bytes 8 (push_bit (Suc j) w)" for w :: u64
    by (simp add: from_to_le_bytes)
  from this [of "0x0001000100010001"] have "map (\<lambda>c. to_le_bytes 8 (push_bit 1 (from_le_bytes c :: u64))) (round_constants nb j) = round_constants nb (Suc j)"
    unfolding round_constants_def map_replicate by (rule arg_cong)
  then show ?thesis using assms by (simp add: shift_left_words_def round_constants_def)
qed

text \<open>The variables of the loop of \<open>key_expand_even\<close> where it stores the first key of a turn.\<close>

definition even_inv :: "nat \<Rightarrow> nat \<Rightarrow> bytes list \<Rightarrow> nat \<Rightarrow> bytes list \<Rightarrow> bytes list \<Rightarrow> bool" where
  "even_inv nb nk ws round ini tmv \<longleftrightarrow> length ini = 8 \<and> length tmv = 8 \<and> even round \<and> (nk = nb \<or> round mod 4 = 0) \<and>
     take nk ini = rotate (if nk = nb then round div 2 else round div 4) ws \<and> take nb tmv = round_constants nb (round div 2)"

lemma even_inv_keys:
  assumes "even_inv nb nk ws round ini tmv" "nb \<le> 8" "nk = nb \<or> nk = 2 * nb" "length ws = nk"
  shows "take nb (round_key_from (take nb ini) (take nb (mod_add_columns (take nb kt) (take nb tmv)))) = even_round_key kt ws nb round"
    and "nk \<noteq> nb \<Longrightarrow> take nb (round_key_from (slice nb nk ini)
      (take nb (mod_add_columns (take nb kt) (take nb (shift_left_words (take nb tmv) @ drop nb tmv))))) = even_round_key kt ws nb (round + 2)"
proof -
  have i: "take nb ini = take nb (take nk ini)" "slice nb nk ini = drop nb (take nk ini)"
    using assms(3) by (auto simp: slice_def drop_take min_def)
  show "take nb (round_key_from (take nb ini) (take nb (mod_add_columns (take nb kt) (take nb tmv)))) = even_round_key kt ws nb round"
    unfolding i using assms by (auto simp: even_round_key_def even_inv_def Let_def)
  assume nk: "nk \<noteq> nb"
  then have "round mod 4 = 0" using assms(1) by (simp add: even_inv_def)
  then have r: "(round + 2) mod 4 = 2" "(round + 2) div 4 = round div 4" "(round + 2) div 2 = Suc (round div 2)" by presburger+
  show "take nb (round_key_from (slice nb nk ini)
      (take nb (mod_add_columns (take nb kt) (take nb (shift_left_words (take nb tmv) @ drop nb tmv))))) = even_round_key kt ws nb (round + 2)"
    unfolding i using shift_constants [of nb tmv "round div 2"] assms nk by (simp add: even_round_key_def even_inv_def Let_def r [simplified])
qed

lemma even_inv_step:
  assumes "even_inv nb nk ws round ini tmv" "0 < nb" "nb \<le> 8" "nk = nb \<or> nk = 2 * nb" "nk \<le> 8"
  defines "tmv1 \<equiv> shift_left_words (take nb tmv) @ drop nb tmv" and "ini1 \<equiv> rotate_words_left (take nk ini) nk @ drop nk ini"
  shows "nk = nb \<Longrightarrow> even_inv nb nk ws (round + 2) ini1 tmv1"
    and "nk \<noteq> nb \<Longrightarrow> even_inv nb nk ws (round + 2 + 2) ini1 (shift_left_words (take nb tmv1) @ drop nb tmv1)"
proof -
  have "length ini = 8" "length tmv = 8" using assms(1) by (simp_all add: even_inv_def)
  then have l: "length tmv1 = 8" "length ini1 = 8" "length (shift_left_words (take nb tmv1) @ drop nb tmv1) = 8"
    using assms(2-5) by (auto simp: tmv1_def ini1_def shift_left_words_def rotate_words_left_def slice_def)
  have t: "take nb tmv1 = round_constants nb (Suc (round div 2))"
    "take nb (shift_left_words (take nb tmv1) @ drop nb tmv1) = round_constants nb (Suc (Suc (round div 2)))"
    using shift_constants [of nb tmv "round div 2"] shift_constants [of nb tmv1 "Suc (round div 2)"] assms l(1)
    by (simp_all add: even_inv_def)
  have i: "take nk ini1 = rotate1 (take nk ini)"
    unfolding ini1_def using assms(1-5) by (intro rotate_words_prefix) (auto simp: even_inv_def)
  show "nk = nb \<Longrightarrow> even_inv nb nk ws (round + 2) ini1 tmv1"
    using assms(1) l t(1) i by (simp add: even_inv_def)
  show "nk \<noteq> nb \<Longrightarrow> even_inv nb nk ws (round + 2 + 2) ini1 (shift_left_words (take nb tmv1) @ drop nb tmv1)"
    using assms(1) l t(2) i by (auto simp: even_inv_def)
qed

lemma key_expand_even_loop_keys:
  assumes "0 < nb" "nb \<le> 8" "nk = nb \<or> nk = 2 * nb" "nk \<le> 8" "length ws = nk" "even nr"
    and "key_expand_even_loop kt nb nk nr round ini tmv rks = Some rks'" "even_inv nb nk ws round ini tmv" "round \<le> nr"
  shows "(i < round \<longrightarrow> rks' ! i = rks ! i) \<and>
    (round \<le> i \<and> i \<le> nr \<and> even i \<longrightarrow> take nb (rks' ! i) = even_round_key kt ws nb i)"
  using assms(7-)
proof (induction "nr - round" arbitrary: round ini tmv rks rule: less_induct)
  case less
  let ?kt = "\<lambda>t. take nb (mod_add_columns (take nb kt) (take nb t))"
  let ?a = "round_key_from (take nb ini) (?kt tmv)"
  let ?ini = "rotate_words_left (take nk ini) nk @ drop nk ini"
  let ?tmv = "shift_left_words (take nb tmv) @ drop nb tmv"
  let ?b = "round_key_from (slice nb nk ini) (?kt ?tmv)"
  note keys = even_inv_keys [OF less.prems(2) assms(2,3,5), of kt] and inv = even_inv_step [OF less.prems(2) assms(1-4)]
  have len: "nb \<le> length ?a" "nk \<noteq> nb \<Longrightarrow> nb \<le> length ?b"
    using round_key_from_ok(2) [of "take nb ini" "?kt tmv"] round_key_from_ok(2) [of "slice nb nk ini" "?kt ?tmv"]
      less.prems(2) assms(2-4) by (auto simp: even_inv_def slice_def)
  have "even round" using less.prems(2) by (simp add: even_inv_def)
  then have parity: "round \<noteq> nr \<Longrightarrow> round + 2 \<le> nr" "round \<noteq> nr \<Longrightarrow> round + 2 \<noteq> nr \<Longrightarrow> round + 2 + 2 \<le> nr"
    using less.prems(3) assms(6) by presburger+
  obtain rks1 where s1: "store_round_key rks round nb ?a = Some rks1"
    using less.prems(1) by (subst (asm) key_expand_even_loop.simps) (auto simp: Let_def split: option.splits)
  note k1 = store_round_key_nth [OF s1 len(1)]
  consider (last) "round = nr" | (single) "round \<noteq> nr" "nk = nb" | (double) "round \<noteq> nr" "nk \<noteq> nb" by blast
  then show ?case
  proof cases
    case last
    then have "rks' = rks1" using less.prems(1) s1 by (subst (asm) key_expand_even_loop.simps) (simp add: Let_def)
    then show ?thesis using last k1 keys(1) by auto
  next
    case single
    have "key_expand_even_loop kt nb nk nr (round + 2) ?ini ?tmv rks1 = Some rks'"
      using less.prems(1) s1 single by (subst (asm) key_expand_even_loop.simps) (simp add: Let_def)
    from less.hyps [OF _ this inv(1)] single parity(1) show ?thesis using k1 keys(1)
      by (cases "i = round"; cases "i = Suc round") (use less.prems(2) in \<open>auto simp: even_inv_def\<close>)
  next
    case double
    obtain rks2 where s2: "store_round_key rks1 (round + 2) nb ?b = Some rks2"
      using less.prems(1) s1 double by (subst (asm) key_expand_even_loop.simps) (auto simp: Let_def split: option.splits)
    note k2 = store_round_key_nth [OF s2 len(2) [OF double(2)]]
    have kk: "take nb (rks1 ! round) = even_round_key kt ws nb round" "take nb (rks2 ! (round + 2)) = even_round_key kt ws nb (round + 2)"
      using k1(1) k2(1) keys(1) keys(2) [OF double(2)] by simp_all
    show ?thesis
    proof (cases "round + 2 = nr")
      case True
      then have "rks' = rks2" using less.prems(1) s1 s2 double by (subst (asm) key_expand_even_loop.simps) (simp add: Let_def)
      then show ?thesis using True kk k1(2) [of i] k2(2) [of i] k2(2) [of round] \<open>even round\<close>
        by (cases "i = round"; cases "i = Suc round"; cases "i = round + 2") auto
    next
      case False
      have "key_expand_even_loop kt nb nk nr (round + 2 + 2) ?ini (shift_left_words (take nb ?tmv) @ drop nb ?tmv) rks2 = Some rks'"
        using less.prems(1) s1 s2 double False by (subst (asm) key_expand_even_loop.simps) (simp add: Let_def)
      from less.hyps [OF _ this inv(2)] double parity(2) [OF double(1) False]
      have ih: "i < round + 2 + 2 \<longrightarrow> rks' ! i = rks2 ! i"
        "round + 2 + 2 \<le> i \<and> i \<le> nr \<and> even i \<longrightarrow> take nb (rks' ! i) = even_round_key kt ws nb i" by simp_all
      show ?thesis using kk ih k1(2) [of i] k2(2) [of i] k2(2) [of round] \<open>even round\<close>
        by (cases "i = round"; cases "i = Suc round"; cases "i = round + 2"; cases "i = round + 3") auto
    qed
  qed
qed

lemma rotate_bytes_left_rotate: "rotate_bytes_left buf s = rotate s buf"
  by (intro nth_equalityI) (simp_all add: rotate_bytes_left_def nth_rotate add.commute)

lemma concat_rows:
  assumes "length bs = 8 * n"
  shows "concat (map (\<lambda>c. slice (c * ROWS) ((c + 1) * ROWS) bs) [0..<n]) = bs"
proof -
  have "slice (c * ROWS) ((c + 1) * ROWS) bs = slice (8 * c) (8 * c + 8) bs" for c by (simp add: ROWS_def mult.commute add.commute)
  then show ?thesis using concat_slices [OF assms] by simp
qed

lemma key_expand_odd_loop_keys:
  assumes "key_expand_odd_loop rks nb nr i = Some rks'" "wf_schedule rks" "0 < nb" "nb \<le> 8" "nr < 19" "odd i"
  shows "(j < i \<or> even j \<longrightarrow> rks' ! j = rks ! j) \<and> (i \<le> j \<and> j < nr \<and> odd j \<longrightarrow>
    concat (take nb (rks' ! j)) = rotate (2 * nb + 3) (concat (take nb (rks ! (j - 1)))))"
  using assms
proof (induction rks nb nr i rule: key_expand_odd_loop.induct)
  case (1 rks nb nr i)
  show ?case
  proof (cases "i < nr")
    case True
    let ?bs = "rotate_bytes_left (concat (take nb (rks ! (i - 1)))) (2 * nb + 3)"
    let ?cols = "map (\<lambda>c. slice (c * ROWS) ((c + 1) * ROWS) ?bs) [0..<nb]"
    have len: "length rks = 19" using 1 by (simp add: wf_schedule_def)
    have prev: "state_ok nb (take nb (rks ! (i - 1)))" using 1 True by (intro wf_schedule_take) auto
    have "length ?bs = 8 * nb" using prev by (simp add: rotate_bytes_left_def length_concat_state)
    from odd_round_key_state [OF prev] concat_rows [OF this] have cols: "state_ok nb ?cols" "concat ?cols = ?bs" .
    obtain rks1 where s: "store_round_key rks i nb ?cols = Some rks1" "wf_schedule rks1"
      using store_round_key_ok [OF 1(3) _ 1(5), of i ?cols] cols(1) 1 True by (auto simp: state_ok_def)
    have "i - 1 < length rks" using 1(6) True len by simp
    then have "key_expand_odd_loop rks1 nb nr (i + 2) = Some rks'" using 1(2) s(1) True
      by (subst (asm) key_expand_odd_loop.simps) (simp add: Let_def)
    then have ih: "(j < i + 2 \<or> even j \<longrightarrow> rks' ! j = rks1 ! j) \<and> (i + 2 \<le> j \<and> j < nr \<and> odd j \<longrightarrow>
        concat (take nb (rks' ! j)) = rotate (2 * nb + 3) (concat (take nb (rks1 ! (j - 1)))))"
      using 1(1) [OF True _ refl refl refl s(1)] 1(4-7) s(2) len True by simp
    have k: "take nb (rks1 ! i) = ?cols" "\<And>j. j \<noteq> i \<Longrightarrow> rks1 ! j = rks ! j"
      using store_round_key_nth [OF s(1)] cols(1) by (auto simp: state_ok_def)
    show ?thesis using ih k cols(2) 1(7) by (cases "j = i"; cases "j = Suc i") (auto simp: rotate_bytes_left_rotate)
  qed (use 1 in \<open>auto simp: key_expand_odd_loop.simps\<close>)
qed

lemma key_expand_keys:
  assumes "valid_nb nb" "nk = nb \<or> nk = 2 * nb" "nk \<le> 8" "even nr" "nr < 19" "length key = 8 * nk"
    and "key_expand key nb nk nr = Some rks" "i \<le> nr"
  defines "ws \<equiv> map (\<lambda>c. slice (c * ROWS) ((c + 1) * ROWS) key) [0..<nk]"
  shows "concat (take nb (rks ! i)) = (if even i then concat (even_round_key (key_expand_kt key nb nk) ws nb i)
    else rotate (2 * nb + 3) (concat (even_round_key (key_expand_kt key nb nk) ws nb (i - 1))))"
proof -
  have nb: "0 < nb" "nb \<le> 8" using assms(1) by (simp_all add: valid_nb_bounds)
  let ?z = "replicate ROUND_KEYS_LEN (replicate MAX_NB ZERO_COLUMN)" let ?kt = "key_expand_kt key nb nk"
  let ?tmv = "replicate nb (to_le_bytes 8 (0x0001000100010001 :: u64)) @ replicate (MAX_NB - nb) ZERO_COLUMN"
  have z: "wf_schedule ?z" by (simp add: wf_schedule_def ROUND_KEYS_LEN_def MAX_NB_def ZERO_COLUMN_def ROWS_def)
  have ini: "even_inv nb nk ws 0 (columns_from_bytes key nk) ?tmv"
    using nb assms(2,3) by (auto simp: even_inv_def ws_def columns_from_bytes_def round_constants_def MAX_NB_def take_map)
  obtain rks1 where e: "key_expand_even_loop ?kt nb nk nr 0 (columns_from_bytes key nk) ?tmv ?z = Some rks1"
    and o: "key_expand_odd_loop rks1 nb nr 1 = Some rks"
    using assms(7) by (auto simp: key_expand_def key_expand_even_def key_expand_odd_def split: option.splits)
  have "wf_schedule rks1" using key_expand_even_loop_ok [OF nb assms(2,3,5) _ _ z, of 0 "columns_from_bytes key nk" ?kt ?tmv]
      e assms(4) columns_from_bytes_shape [where count = nk and bs = key] assms(3,6) by auto
  note odd = key_expand_odd_loop_keys [OF o this nb assms(5)]
  note even = key_expand_even_loop_keys [OF nb assms(2,3) _ assms(4) e ini]
  have ws: "length ws = nk" by (simp add: ws_def)
  show ?thesis
  proof (cases "even i")
    case True
    then show ?thesis using even [OF ws, of i] odd [of i] assms(8) by simp
  next
    case False
    then have "i < nr" "even (i - 1)" "1 \<le> i" using assms(4,8) by (auto simp: le_less elim: oddE)
    then show ?thesis using False even [OF ws, of "i - 1"] odd [of i] by simp
  qed
qed

section \<open>Round trip of a block\<close>

lemma transformed_round_key:
  assumes "wf_schedule rks" "nb \<le> 8" "nr < 19" "i \<in> set [1..<nr]"
  shows "state_ok nb (take nb (rks ! i)) \<and>
    take nb (transform_keys_for_decrypt rks nb nr ! i) = apply_inverse_matrix (take nb (rks ! i))"
  using assms wf_schedule_take [OF assms(1) _ assms(2), of i]
  by (simp add: transform_keys_for_decrypt_def wf_schedule_def state_ok_def)

lemma schedule_roundtrip:
  assumes "valid_nb nb" "nr \<in> {10, 14, 18}" "wf_schedule rks" "length pt = 8 * nb"
  shows "decrypt_with_schedule nb nr rks (transform_keys_for_decrypt rks nb nr)
           (take (8 * nb) (encrypt_with_schedule nb nr rks pt)) =
         pt @ replicate ((MAX_NB - nb) * ROWS) 0"
    and "length (encrypt_with_schedule nb nr rks pt) = 8 * nb + (MAX_NB - nb) * ROWS"
proof -
  have nb: "0 < nb" "nb \<le> 8" using assms(1) by (simp_all add: valid_nb_bounds)
  have nr: "nr < 19" using assms(2) by auto
  let ?ek = "\<lambda>i. take nb (rks ! i)"
  let ?dk = "\<lambda>i. take nb (transform_keys_for_decrypt rks nb nr ! i)"
  have ek: "state_ok nb (?ek i)" if "i < 19" for i
    using wf_schedule_take [OF assms(3) that nb(2)] .
  have keys: "state_ok nb (?ek i) \<and> ?dk i = apply_inverse_matrix (?ek i)"
    if "i \<in> set (unrolled_rounds nr)" for i
    using transformed_round_key [OF assms(3) nb(2) nr] that assms(2) by (simp add: unrolled_rounds_upt)
  let ?p = "take nb (columns_from_bytes pt nb)"
  let ?init = "add_round_key ?p (?ek 0)"
  let ?s = "fold (\<lambda>i st. xor_round_key (encipher_round_n nb st) (?ek i)) (unrolled_rounds nr) ?init"
  let ?c = "add_round_key (encipher_round_n nb ?s) (?ek nr)"
  have p: "state_ok nb ?p" using nb assms by (simp add: columns_state_ok)
  have c: "state_ok nb ?c" by simp
  have enc: "encrypt_with_schedule nb nr rks pt = concat ?c @ replicate ((MAX_NB - nb) * ROWS) 0"
    by (simp add: encrypt_with_schedule_def Let_def)
  then show "length (encrypt_with_schedule nb nr rks pt) = 8 * nb + (MAX_NB - nb) * ROWS"
    using length_concat_state [OF c] by simp
  have cols: "take nb (columns_from_bytes (take (8 * nb) (encrypt_with_schedule nb nr rks pt)) nb) = ?c"
    unfolding enc using length_concat_state [OF c] nb c by (simp add: columns_concat)
  have last: "sub_round_key ?c (?ek nr) = encipher_round_n nb ?s"
    using ek [OF nr] by (intro round_key_inverses [of nb]) (simp_all only: state_ok_ops state_okD)
  have first: "sub_round_key ?init (?ek 0) = ?p"
    using ek [of 0] p by (intro round_key_inverses [of nb]) (simp_all only: state_okD)
  have rounds: "fold (\<lambda>i st. xor_round_key (fused_inv_round_n nb st) (?dk i)) (unrolled_rounds_dec nr)
      (apply_inverse_matrix (sub_round_key ?c (?ek nr))) = apply_inverse_matrix (encipher_round_n nb ?init)"
    unfolding last using rounds_roundtrip [OF assms(1), of "unrolled_rounds nr" ?ek ?dk ?init] keys p
    by (simp add: unrolled_rounds_rev)
  have layers: "inv_sub_bytes (inv_shift_rows (apply_inverse_matrix (encipher_round_n nb ?init))) = ?init"
    using p assms(1) nb by (intro inverse_layers_encipher_round_n)
      (simp_all add: state_okD columns_from_bytes_shape)
  show "decrypt_with_schedule nb nr rks (transform_keys_for_decrypt rks nb nr)
           (take (8 * nb) (encrypt_with_schedule nb nr rks pt)) = pt @ replicate ((MAX_NB - nb) * ROWS) 0"
    unfolding decrypt_with_schedule_def Let_def cols rounds layers first
    using nb assms(4) by (simp add: concat_columns)
qed


lemma slice_nth_map: "b \<le> length xs \<Longrightarrow> slice a b xs = map ((!) xs) [a..<b]"
  by (rule nth_equalityI) (auto simp: slice_def)

lemma decrypt_rounds_naive:
  assumes nb: "valid_nb nb"
    and keys: "\<And>i. i \<in> set is \<Longrightarrow> state_ok nb (ek i) \<and> dk i = apply_inverse_matrix (ek i)"
    and st: "state_ok nb st"
  shows "fold (\<lambda>i st. xor_round_key (fused_inv_round_n nb st) (dk i)) is (apply_inverse_matrix st) =
      apply_inverse_matrix (fold (\<lambda>i st. xor_round_key (decipher_round st) (ek i)) is st)"
  using keys st
proof (induction "is" arbitrary: st)
  case (Cons i "is")
  have d: "state_ok nb (decipher_round st)" using Cons.prems by (simp add: decipher_round_def)
  have "fused_inv_round_n nb (apply_inverse_matrix st) = apply_inverse_matrix (decipher_round st)"
    using Cons.prems(2) nb by (subst fused_inv_round_n_eq) (simp_all add: decipher_round_def state_okD)
  then have "xor_round_key (fused_inv_round_n nb (apply_inverse_matrix st)) (dk i) =
      apply_inverse_matrix (xor_round_key (decipher_round st) (ek i))"
    using apply_inverse_matrix_xor [OF d] Cons.prems(1) by simp
  with Cons d show ?case by simp
qed simp

lemma decrypt_with_schedule_naive:
  assumes "valid_nb nb" "nr \<in> {10, 14, 18}" "wf_schedule rks" "length ct = 8 * nb"
  shows "decrypt_with_schedule nb nr rks (transform_keys_for_decrypt rks nb nr) ct =
    naive_decrypt_with_schedule rks ct nb nr"
proof -
  have nb: "0 < nb" "nb \<le> 8" using assms(1) by (simp_all add: valid_nb_bounds)
  have nr: "nr < 19" "nr \<le> length rks" using assms by (auto simp: wf_schedule_def)
  let ?st = "sub_round_key (take nb (columns_from_bytes ct nb)) (take nb (rks ! nr))"
  have st: "state_ok nb ?st" using columns_state_ok [OF nb(2) assms(4)] by simp
  have "fold (\<lambda>i st. xor_round_key (fused_inv_round_n nb st)
          (take nb (transform_keys_for_decrypt rks nb nr ! i))) (rev [1..<nr]) (apply_inverse_matrix ?st) =
      apply_inverse_matrix (fold (\<lambda>i st. xor_round_key (decipher_round st) (take nb (rks ! i))) (rev [1..<nr]) ?st)"
    using transformed_round_key [OF assms(3) nb(2) nr(1)]
    by (intro decrypt_rounds_naive [OF assms(1) _ st]) simp
  then show ?thesis
    using assms(2) nr
    by (simp add: decrypt_with_schedule_def naive_decrypt_with_schedule_def Let_def unrolled_rounds_rev
        unrolled_rounds_upt slice_nth_map rev_map fold_map comp_def decipher_round_def)
qed

text \<open>An expanded key the code can hold: the value of \<open>new\<close> on a key of the variant's size.\<close>

definition valid_expanded_key :: "kalyna_variant \<Rightarrow> expanded_key \<Rightarrow> bool" where
  "valid_expanded_key v ek \<longleftrightarrow> wf_schedule (ek_round_keys ek) \<and>
     ek_dec_keys ek = transform_keys_for_decrypt (ek_round_keys ek) (v_nb v) (v_nr v)"

lemma expanded_key_new_total:
  "length key = key_bytes v \<Longrightarrow> \<exists>ek. expanded_key_new v key = Some ek \<and> valid_expanded_key v ek"
  using key_expand_variant [of key v] by (auto simp: expanded_key_new_def valid_expanded_key_def)

lemma expanded_key_new_valid:
  "length key = key_bytes v \<Longrightarrow> expanded_key_new v key = Some ek \<Longrightarrow> valid_expanded_key v ek"
  using expanded_key_new_total [of key v] by auto

lemma length_encrypt_block [simp]:
  assumes "valid_expanded_key v ek" "length b = block_bytes v"
  shows "length (encrypt_block v ek b) = block_bytes v"
  using schedule_roundtrip(2) [of "v_nb v" "v_nr v" "ek_round_keys ek" b] variant_params(6) [of v] assms
  by (simp add: encrypt_block_def block_bytes_nb valid_expanded_key_def)

lemma decrypt_encrypt_block:
  assumes "valid_expanded_key v ek" "length b = block_bytes v"
  shows "decrypt_block v ek (encrypt_block v ek b) = b"
  using schedule_roundtrip(1) [of "v_nb v" "v_nr v" "ek_round_keys ek" b] variant_params(6) [of v] assms
  by (simp add: encrypt_block_def decrypt_block_def block_bytes_nb valid_expanded_key_def)

interpretation kalyna: block_cipher "valid_expanded_key v" "encrypt_block v" "decrypt_block v" "block_bytes v"
  for v
proof unfold_locales
  show "0 < block_bytes v" by (cases v) simp_all
qed (simp_all add: decrypt_encrypt_block)

lemma kalyna_oneshot:
  "expanded_key_new v key = Some ek \<Longrightarrow> kalyna_encrypt v key b = Some (encrypt_block v ek b)"
  "expanded_key_new v key = Some ek \<Longrightarrow> kalyna_decrypt v key b = Some (decrypt_block v ek b)"
  by (auto simp: expanded_key_new_def kalyna_encrypt_def kalyna_decrypt_def encrypt_generic_def
      decrypt_generic_def encrypt_block_def decrypt_block_def)

section \<open>Properties\<close>

text \<open>C1. For each of the five variants and every key and block of the declared sizes, the key
  schedule returns, the cached and the one-shot operations agree, and decryption gives the
  block back.\<close>

theorem kalyna_roundtrip:
  assumes "length key = key_bytes v" "length block = block_bytes v"
  shows "\<exists>ek ct. expanded_key_new v key = Some ek \<and> ct = encrypt_block v ek block \<and>
    length ct = block_bytes v \<and> decrypt_block v ek ct = block \<and>
    kalyna_encrypt v key block = Some ct \<and> kalyna_decrypt v key ct = Some block"
proof -
  obtain ek where ek: "expanded_key_new v key = Some ek" "valid_expanded_key v ek"
    using expanded_key_new_total [OF assms(1)] by auto
  then show ?thesis
    using assms(2) by (auto simp: kalyna_oneshot)
qed

theorem kalyna_roundtrip_witness:
  "\<exists>ek ct. expanded_key_new Kalyna512_512 (replicate 64 7) = Some ek \<and>
    ct = encrypt_block Kalyna512_512 ek (replicate 64 9) \<and> length ct = 64 \<and>
    decrypt_block Kalyna512_512 ek ct = replicate 64 9 \<and>
    kalyna_encrypt Kalyna512_512 (replicate 64 7) (replicate 64 9) = Some ct \<and>
    kalyna_decrypt Kalyna512_512 (replicate 64 7) ct = Some (replicate 64 9)"
  using kalyna_roundtrip [of "replicate 64 7" Kalyna512_512 "replicate 64 9"]
  by simp

text \<open>Decryption is a permutation of the blocks with encryption as its inverse: encrypting
  the decryption of any block gives it back.\<close>

theorem kalyna_decrypt_encrypt:
  assumes "length key = key_bytes v" "length block = block_bytes v"
  shows "\<exists>pt. kalyna_decrypt v key block = Some pt \<and> length pt = block_bytes v \<and>
    kalyna_encrypt v key pt = Some block"
proof -
  obtain ek where ek: "expanded_key_new v key = Some ek" "valid_expanded_key v ek"
    using expanded_key_new_total [OF assms(1)] by auto
  then show ?thesis
    using assms(2) by (auto simp: kalyna_oneshot)
qed

theorem kalyna_decrypt_encrypt_witness:
  "\<exists>pt. kalyna_decrypt Kalyna128_256 (replicate 32 1) (replicate 16 2) = Some pt \<and> length pt = 16 \<and>
    kalyna_encrypt Kalyna128_256 (replicate 32 1) pt = Some (replicate 16 2)"
  using kalyna_decrypt_encrypt [of "replicate 32 1" Kalyna128_256 "replicate 16 2"]
  by simp

text \<open>C35. The key schedule of every variant, for every key of the declared size, fills its nineteen-entry
  array with round keys of eight columns of eight bytes, and no access of its two loops is out of range.
  Round key \<open>i\<close>, for every \<open>i\<close> up to the number of rounds, has a closed form: an even one is
  \<open>round_key_from\<close> of the key's words, rotated as one ring by one word per turn (of the left and the right half
  in alternation when the key is twice the block), and of the intermediate key plus the constant doubled
  \<open>i/2\<close> times; an odd one is the even one below it, its bytes rotated left by \<open>2 nb + 3\<close>.\<close>

theorem key_schedule_closed_form:
  assumes "length key = key_bytes v"
  defines "nb \<equiv> v_nb v" and "ws \<equiv> map (\<lambda>c. slice (c * ROWS) ((c + 1) * ROWS) key) [0..<v_nk v]"
    and "kt \<equiv> key_expand_kt key (v_nb v) (v_nk v)"
  shows "\<exists>rks. key_expand key nb (v_nk v) (v_nr v) = Some rks \<and> length rks = ROUND_KEYS_LEN \<and>
    list_all (\<lambda>rk. length rk = MAX_NB \<and> list_all (\<lambda>c. length c = ROWS) rk) rks \<and>
    (\<forall>i \<le> v_nr v. concat (take nb (rks ! i)) =
      (if even i then concat (even_round_key kt ws nb i) else rotate (2 * nb + 3) (concat (even_round_key kt ws nb (i - 1)))))"
proof -
  obtain rks where r: "key_expand key nb (v_nk v) (v_nr v) = Some rks" "wf_schedule rks"
    using key_expand_variant [OF assms(1)] unfolding nb_def by blast
  have "concat (take nb (rks ! i)) =
      (if even i then concat (even_round_key kt ws nb i) else rotate (2 * nb + 3) (concat (even_round_key kt ws nb (i - 1))))"
    if "i \<le> v_nr v" for i
    unfolding kt_def ws_def nb_def using r(1) that assms(1) variant_params [of v]
    by (intro key_expand_keys) (simp_all add: nb_def)
  with r show ?thesis by (auto simp: wf_schedule_def wf_state_def list_all_iff ROUND_KEYS_LEN_def MAX_NB_def ROWS_def)
qed

theorem key_schedule_closed_form_witness:
  "\<exists>rks. key_expand (replicate 64 3) 4 8 18 = Some rks \<and> length rks = ROUND_KEYS_LEN \<and>
    concat (take 4 (rks ! 17)) = rotate 11 (concat (take 4 (rks ! 16)))"
proof -
  obtain rks where "key_expand (replicate 64 3) 4 8 18 = Some rks" "length rks = ROUND_KEYS_LEN"
    "\<forall>i \<le> 18. concat (take 4 (rks ! i)) = (let kt = key_expand_kt (replicate 64 3) 4 8;
        ws = map (\<lambda>c. slice (c * ROWS) ((c + 1) * ROWS) (replicate 64 3)) [0..<8] in
      if even i then concat (even_round_key kt ws 4 i) else rotate 11 (concat (even_round_key kt ws 4 (i - 1))))"
    using key_schedule_closed_form [of "replicate 64 3" Kalyna256_512] by (auto simp: Let_def)
  then show ?thesis by (auto simp: Let_def dest: spec [of _ 16] spec [of _ 17])
qed

text \<open>The fused table-driven round, in its runtime and its const-generic form, computes the
  three passes substitute, shift, mix on every state of two, four or eight columns.\<close>

theorem fused_encipher_round_matches_naive:
  assumes "length state = nb" "nb = 2 \<or> nb = 4 \<or> nb = 8" "list_all (\<lambda>c. length c = ROWS) state"
  shows "encipher_round state = naive_encipher_round state \<and>
    encipher_round_n nb state = naive_encipher_round state"
  using assms encipher_round_n_eq [of nb state]
  by (simp add: encipher_round_is_n naive_encipher_round_def valid_nb_def wf_state_def list_all_iff ROWS_def)

theorem fused_encipher_round_matches_naive_witness:
  "encipher_round (replicate 4 (replicate 8 0x5A)) = naive_encipher_round (replicate 4 (replicate 8 0x5A)) \<and>
   encipher_round_n 4 (replicate 4 (replicate 8 0x5A)) = naive_encipher_round (replicate 4 (replicate 8 0x5A))"
  using fused_encipher_round_matches_naive [of "replicate 4 (replicate 8 0x5A)" 4]
  by (simp add: list_all_iff ROWS_def)

text \<open>C2. Decryption by fused rounds under inverse-mixed round keys gives, for every schedule and
  every ciphertext, the bytes of the untransformed three-pass decryption.\<close>

theorem decrypt_fusion_matches_naive:
  assumes "nb = 2 \<or> nb = 4 \<or> nb = 8" "nr = 10 \<or> nr = 14 \<or> nr = 18" "length ciphertext = nb * ROWS"
    and "length rks = ROUND_KEYS_LEN"
    and "list_all (\<lambda>rk. length rk = MAX_NB \<and> list_all (\<lambda>c. length c = ROWS) rk) rks"
  shows "decrypt_with_schedule nb nr rks (transform_keys_for_decrypt rks nb nr) ciphertext =
    naive_decrypt_with_schedule rks ciphertext nb nr"
  using assms by (intro decrypt_with_schedule_naive)
    (auto simp: valid_nb_def wf_schedule_def wf_state_def list_all_iff ROUND_KEYS_LEN_def MAX_NB_def ROWS_def)

theorem decrypt_fusion_matches_naive_witness:
  "decrypt_with_schedule 2 14 (replicate 19 (replicate 8 (replicate 8 0x11)))
     (transform_keys_for_decrypt (replicate 19 (replicate 8 (replicate 8 0x11))) 2 14) (replicate 16 0xA5) =
   naive_decrypt_with_schedule (replicate 19 (replicate 8 (replicate 8 0x11))) (replicate 16 0xA5) 2 14"
  using decrypt_fusion_matches_naive [of 2 14 "replicate 16 0xA5" "replicate 19 (replicate 8 (replicate 8 0x11))"]
  by (simp add: list_all_iff ROUND_KEYS_LEN_def MAX_NB_def ROWS_def)

end
