(* ===== verification/Kalyna_Ecb.thy ===== *)
theory Kalyna_Ecb
  imports Kalyna
begin

text \<open>
  \<open>crates/dstu-core/src/hazmat/kalyna_ecb.rs\<close>: the electronic-codebook mode, every block of the
  buffer on its own. A call returns \<open>Inl InvalidLength\<close> with the buffer untouched, or the new
  contents of the buffer.
\<close>

record kalyna_ecb =
  ecb_key :: expanded_key

definition ecb_new :: "kalyna_variant \<Rightarrow> bytes \<Rightarrow> kalyna_ecb option" where
  "ecb_new v key = map_option (\<lambda>ek. \<lparr>ecb_key = ek\<rparr>) (expanded_key_new v key)"

definition ecb_encrypt_in_place :: "kalyna_variant \<Rightarrow> kalyna_ecb \<Rightarrow> bytes \<Rightarrow> invalid_length + bytes" where
  "ecb_encrypt_in_place v self buf =
     (if length buf mod block_bytes v \<noteq> 0 then Inl InvalidLength
      else Inr (concat (map (encrypt_block v (ecb_key self)) (chunks_exact (block_bytes v) buf))))"

definition ecb_decrypt_in_place :: "kalyna_variant \<Rightarrow> kalyna_ecb \<Rightarrow> bytes \<Rightarrow> invalid_length + bytes" where
  "ecb_decrypt_in_place v self buf =
     (if length buf mod block_bytes v \<noteq> 0 then Inl InvalidLength
      else Inr (concat (map (decrypt_block v (ecb_key self)) (chunks_exact (block_bytes v) buf))))"

context block_cipher
begin

lemma blockwise_roundtrip:
  assumes "valid k" "length buf mod bl = 0"
  shows "concat (map (D k) (chunks_exact bl (concat (map (E k) (chunks_exact bl buf))))) = buf"
    and "length (concat (map (E k) (chunks_exact bl buf))) = length buf"
proof -
  let ?bs = "chunks_exact bl buf"
  have bs: "\<forall>b \<in> set ?bs. length b = bl" by (rule chunks_exact_lengths)
  have blocks: "\<forall>b \<in> set (map (E k) ?bs). length b = bl" using assms(1) bs by auto
  have "map (D k) (map (E k) ?bs) = map (\<lambda>b. b) ?bs"
    unfolding map_map using assms(1) bs by (intro map_cong) auto
  then show "concat (map (D k) (chunks_exact bl (concat (map (E k) ?bs)))) = buf"
    using assms(2) bl_pos by (simp only: chunks_exact_concat [OF blocks bl_pos] map_ident
        concat_chunks_exact_aligned)
  show "length (concat (map (E k) ?bs)) = length buf"
    using length_concat_const [OF blocks] length_concat_const [OF bs]
      concat_chunks_exact_aligned [OF assms(2) bl_pos] by (metis length_map)
qed

end

lemma ecb_new_valid:
  "length key = key_bytes v \<Longrightarrow> ecb_new v key = Some self \<Longrightarrow> valid_expanded_key v (ecb_key self)"
  by (auto simp: ecb_new_def expanded_key_new_valid)

section \<open>Properties\<close>

text \<open>ECB accepts exactly the block-aligned buffers, keeps their length, and decryption
  restores the buffer; every other length is refused in both directions.\<close>

theorem ecb_roundtrip:
  assumes "length key = key_bytes v" "ecb_new v key = Some self"
  shows "case ecb_encrypt_in_place v self buf of
      Inl e \<Rightarrow> length buf mod block_bytes v \<noteq> 0 \<and> ecb_decrypt_in_place v self buf = Inl InvalidLength
    | Inr ct \<Rightarrow> length buf mod block_bytes v = 0 \<and> length ct = length buf \<and>
        ecb_decrypt_in_place v self ct = Inr buf"
  using ecb_new_valid [OF assms]
  by (simp add: ecb_encrypt_in_place_def ecb_decrypt_in_place_def kalyna.blockwise_roundtrip)

theorem ecb_roundtrip_witness:
  "\<exists>self. ecb_new Kalyna256_256 (replicate 32 5) = Some self \<and>
    (case ecb_encrypt_in_place Kalyna256_256 self (replicate 64 1) of
      Inl e \<Rightarrow> length (replicate 64 (1 :: u8)) mod block_bytes Kalyna256_256 \<noteq> 0 \<and>
        ecb_decrypt_in_place Kalyna256_256 self (replicate 64 1) = Inl InvalidLength
    | Inr ct \<Rightarrow> length (replicate 64 (1 :: u8)) mod block_bytes Kalyna256_256 = 0 \<and>
        length ct = length (replicate 64 (1 :: u8)) \<and>
        ecb_decrypt_in_place Kalyna256_256 self ct = Inr (replicate 64 1))"
proof -
  obtain self where "ecb_new Kalyna256_256 (replicate 32 5) = Some self"
    using expanded_key_new_total [of "replicate 32 5" Kalyna256_256] by (auto simp: ecb_new_def)
  then show ?thesis
    using ecb_roundtrip [of "replicate 32 5" Kalyna256_256 self "replicate 64 1"] by auto
qed

end
