(* ===== verification/Kalyna_Cbc.thy ===== *)
theory Kalyna_Cbc
  imports Kalyna
begin

text \<open>
  \<open>crates/dstu-core/src/hazmat/kalyna_cbc.rs\<close>: cipher block chaining with the chaining register
  carried from call to call. The block loops are stated over an arbitrary block function and
  their laws proved in the block-cipher interface; the operations instantiate them with the
  variant's cipher.
\<close>

record kalyna_cbc =
  cbc_key :: expanded_key
  cbc_gamma :: bytes

definition cbc_new :: "kalyna_variant \<Rightarrow> bytes \<Rightarrow> bytes \<Rightarrow> kalyna_cbc option" where
  "cbc_new v key iv = map_option (\<lambda>ek. \<lparr>cbc_key = ek, cbc_gamma = iv\<rparr>) (expanded_key_new v key)"

fun cbc_encrypt_blocks :: "(bytes \<Rightarrow> bytes) \<Rightarrow> bytes \<Rightarrow> bytes list \<Rightarrow> bytes list \<times> bytes" where
  "cbc_encrypt_blocks enc gamma [] = ([], gamma)"
| "cbc_encrypt_blocks enc gamma (block # blocks) =
     (let gamma = enc (xor_into gamma block);
          (out, gamma') = cbc_encrypt_blocks enc gamma blocks
      in (gamma # out, gamma'))"

fun cbc_decrypt_blocks :: "(bytes \<Rightarrow> bytes) \<Rightarrow> bytes \<Rightarrow> bytes list \<Rightarrow> bytes list \<times> bytes" where
  "cbc_decrypt_blocks dec gamma [] = ([], gamma)"
| "cbc_decrypt_blocks dec gamma (block # blocks) =
     (let (out, gamma') = cbc_decrypt_blocks dec block blocks
      in (xor_into (dec block) gamma # out, gamma'))"

definition cbc_encrypt_in_place ::
  "kalyna_variant \<Rightarrow> kalyna_cbc \<Rightarrow> bytes \<Rightarrow> invalid_length + bytes \<times> kalyna_cbc" where
  "cbc_encrypt_in_place v self buf =
     (if length buf mod block_bytes v \<noteq> 0 then Inl InvalidLength
      else let (out, gamma) = cbc_encrypt_blocks (encrypt_block v (cbc_key self)) (cbc_gamma self)
                 (chunks_exact (block_bytes v) buf)
           in Inr (concat out, self\<lparr>cbc_gamma := gamma\<rparr>))"

definition cbc_decrypt_in_place ::
  "kalyna_variant \<Rightarrow> kalyna_cbc \<Rightarrow> bytes \<Rightarrow> invalid_length + bytes \<times> kalyna_cbc" where
  "cbc_decrypt_in_place v self buf =
     (if length buf mod block_bytes v \<noteq> 0 then Inl InvalidLength
      else let (out, gamma) = cbc_decrypt_blocks (decrypt_block v (cbc_key self)) (cbc_gamma self)
                 (chunks_exact (block_bytes v) buf)
           in Inr (concat out, self\<lparr>cbc_gamma := gamma\<rparr>))"

section \<open>Laws of the loops\<close>

lemma cbc_encrypt_blocks_append:
  "cbc_encrypt_blocks enc gamma (xs @ ys) =
     (let (o1, g1) = cbc_encrypt_blocks enc gamma xs; (o2, g2) = cbc_encrypt_blocks enc g1 ys
      in (o1 @ o2, g2))"
  by (induction xs arbitrary: gamma) (simp_all add: Let_def case_prod_beta)

context block_cipher
begin

lemma cbc_blocks_roundtrip:
  assumes "valid k"
  shows "length g = bl \<Longrightarrow> \<forall>b \<in> set bs. length b = bl \<Longrightarrow>
    cbc_decrypt_blocks (D k) g (fst (cbc_encrypt_blocks (E k) g bs)) = (bs, snd (cbc_encrypt_blocks (E k) g bs))"
proof (induction bs arbitrary: g)
  case (Cons b bs)
  have "xor_into (xor_into g b) g = b"
    using Cons.prems by (simp add: xor_into_commute [of g b])
  with Cons assms show ?case by (simp add: Let_def case_prod_beta)
qed simp

lemma cbc_encrypt_blocks_shape:
  assumes "valid k"
  shows "length g = bl \<Longrightarrow> \<forall>b \<in> set bs. length b = bl \<Longrightarrow>
    (\<forall>b \<in> set (fst (cbc_encrypt_blocks (E k) g bs)). length b = bl) \<and>
    length (fst (cbc_encrypt_blocks (E k) g bs)) = length bs \<and>
    length (snd (cbc_encrypt_blocks (E k) g bs)) = bl"
  proof (induction bs arbitrary: g)
  case (Cons b bs)
  then have "length (E k (xor_into g b)) = bl" using assms by simp
  from Cons.IH [OF this] Cons.prems show ?case using assms by (simp add: Let_def case_prod_beta)
qed simp

end

lemma cbc_new_valid:
  "length key = key_bytes v \<Longrightarrow> cbc_new v key iv = Some self \<Longrightarrow>
   valid_expanded_key v (cbc_key self) \<and> cbc_gamma self = iv"
  by (auto simp: cbc_new_def expanded_key_new_valid)

lemmas cbc_defs = cbc_encrypt_in_place_def cbc_decrypt_in_place_def

lemma cbc_in_place_roundtrip:
  assumes "valid_expanded_key v (cbc_key self)" "length (cbc_gamma self) = block_bytes v"
    and "length buf mod block_bytes v = 0"
  shows "\<exists>ct self'. cbc_encrypt_in_place v self buf = Inr (ct, self') \<and> length ct = length buf \<and>
    cbc_decrypt_in_place v self ct = Inr (buf, self')"
proof -
  let ?bs = "chunks_exact (block_bytes v) buf"
  have bs: "\<forall>b \<in> set ?bs. length b = block_bytes v" by (rule chunks_exact_lengths)
  obtain out g where enc: "cbc_encrypt_blocks (encrypt_block v (cbc_key self)) (cbc_gamma self) ?bs = (out, g)"
    by (cases "cbc_encrypt_blocks (encrypt_block v (cbc_key self)) (cbc_gamma self) ?bs")
  have out: "\<forall>b \<in> set out. length b = block_bytes v" "length out = length ?bs"
    using kalyna.cbc_encrypt_blocks_shape [OF assms(1,2) bs] enc by simp_all
  have dec: "cbc_decrypt_blocks (decrypt_block v (cbc_key self)) (cbc_gamma self) out = (?bs, g)"
    using kalyna.cbc_blocks_roundtrip [OF assms(1,2) bs] enc by simp
  have buf: "concat ?bs = buf" using assms(3) kalyna.bl_pos by (rule concat_chunks_exact_aligned)
  have len: "length (concat out) = length buf"
    by (metis length_concat_const out bs buf)
  have "cbc_encrypt_in_place v self buf = Inr (concat out, self\<lparr>cbc_gamma := g\<rparr>)"
    using assms(3) enc by (simp add: cbc_encrypt_in_place_def)
  moreover have "cbc_decrypt_in_place v self (concat out) = Inr (buf, self\<lparr>cbc_gamma := g\<rparr>)"
    using assms(3) dec by (simp add: cbc_decrypt_in_place_def len buf chunks_exact_concat [OF out(1) kalyna.bl_pos])
  ultimately show ?thesis using len by blast
qed

section \<open>Properties\<close>

text \<open>CBC decryption from the same IV restores every block-aligned buffer, leaving both
  sides with the same chaining register, and any other length is refused before the state
  changes.\<close>

theorem cbc_roundtrip:
  assumes "length key = key_bytes v" "length iv = block_bytes v" "cbc_new v key iv = Some self"
  shows "if length buf mod block_bytes v = 0
    then \<exists>ct self'. cbc_encrypt_in_place v self buf = Inr (ct, self') \<and> length ct = length buf \<and>
      cbc_decrypt_in_place v self ct = Inr (buf, self')
    else cbc_encrypt_in_place v self buf = Inl InvalidLength \<and>
      cbc_decrypt_in_place v self buf = Inl InvalidLength"
  using cbc_new_valid [OF assms(1,3)] cbc_in_place_roundtrip [of v self buf] assms(2)
  by (simp add: cbc_defs)

theorem cbc_roundtrip_witness:
  "\<exists>self. cbc_new Kalyna128_128 (replicate 16 1) (replicate 16 2) = Some self \<and>
    (\<exists>ct self'. cbc_encrypt_in_place Kalyna128_128 self (replicate 48 3) = Inr (ct, self') \<and> length ct = 48 \<and>
      cbc_decrypt_in_place Kalyna128_128 self ct = Inr (replicate 48 3, self'))"
proof -
  obtain self where "cbc_new Kalyna128_128 (replicate 16 1) (replicate 16 2) = Some self"
    using expanded_key_new_total [of "replicate 16 1" Kalyna128_128] by (auto simp: cbc_new_def)
  then show ?thesis
    using cbc_roundtrip [of "replicate 16 1" Kalyna128_128 "replicate 16 2" self "replicate 48 3"] by simp
qed

text \<open>A block-aligned message encrypted in two aligned calls gives the ciphertext and the
  register of a single call over the whole message.\<close>

theorem cbc_chunk_invariance:
  assumes "cbc_encrypt_in_place v self a = Inr (ca, self1)"
    and "cbc_encrypt_in_place v self1 b = Inr (cb, self2)"
  shows "cbc_encrypt_in_place v self (a @ b) = Inr (ca @ cb, self2)"
  using assms chunks_exact_aligned_append [OF kalyna.bl_pos, of a v b]
  by (auto simp: cbc_defs Let_def case_prod_beta cbc_encrypt_blocks_append mod_add_left_eq
      split: if_splits)

theorem cbc_chunk_invariance_witness:
  "\<exists>self ca self1 cb self2. cbc_new Kalyna128_128 (replicate 16 1) (replicate 16 2) = Some self \<and>
    cbc_encrypt_in_place Kalyna128_128 self (replicate 16 3) = Inr (ca, self1) \<and>
    cbc_encrypt_in_place Kalyna128_128 self1 (replicate 32 4) = Inr (cb, self2) \<and>
    cbc_encrypt_in_place Kalyna128_128 self (replicate 16 3 @ replicate 32 4) = Inr (ca @ cb, self2)"
proof -
  obtain self where self: "cbc_new Kalyna128_128 (replicate 16 1) (replicate 16 2) = Some self"
    using expanded_key_new_total [of "replicate 16 1" Kalyna128_128] by (auto simp: cbc_new_def)
  obtain ca self1 where 1: "cbc_encrypt_in_place Kalyna128_128 self (replicate 16 3) = Inr (ca, self1)"
    by (auto simp: cbc_encrypt_in_place_def Let_def case_prod_beta)
  obtain cb self2 where 2: "cbc_encrypt_in_place Kalyna128_128 self1 (replicate 32 4) = Inr (cb, self2)"
    by (auto simp: cbc_encrypt_in_place_def Let_def case_prod_beta)
  from self 1 2 cbc_chunk_invariance [OF 1 2] show ?thesis by blast
qed

end
