(* ===== verification/Keystream.thy ===== *)
theory Keystream
  imports Dstu_Prelude
begin

text \<open>
  The interface of the stateful keystream modes (OFB and CTR of
  \<open>crates/dstu-core/src/hazmat/\<close>): an abstract byte-at-a-time generator that a buffered
  \<open>apply_in_place\<close> implements. Chunk invariance and self-inverse application are proved once
  here, for every implementation that refines the generator.
\<close>

text \<open>XOR a buffer with the generator's bytes, one after the other.\<close>

fun xor_stream :: "('s \<Rightarrow> u8 \<times> 's) \<Rightarrow> 's \<Rightarrow> bytes \<Rightarrow> bytes \<times> 's" where
  "xor_stream gen s [] = ([], s)"
| "xor_stream gen s (x # xs) =
     (let (k, s1) = gen s; (out, s2) = xor_stream gen s1 xs in ((x XOR k) # out, s2))"

lemma xor_stream_append:
  "xor_stream gen s (xs @ ys) =
     (let (o1, s1) = xor_stream gen s xs; (o2, s2) = xor_stream gen s1 ys in (o1 @ o2, s2))"
  by (induction xs arbitrary: s) (simp_all add: Let_def case_prod_beta)

lemma length_xor_stream [simp]: "length (fst (xor_stream gen s xs)) = length xs"
  by (induction xs arbitrary: s) (simp_all add: Let_def case_prod_beta)

lemma xor_stream_involutive:
  "xor_stream gen s (fst (xor_stream gen s xs)) = (xs, snd (xor_stream gen s xs))"
  by (induction xs arbitrary: s) (simp_all add: Let_def case_prod_beta xor.assoc)

text \<open>A run of the generator over a stretch it serves from one block of key bytes.\<close>

lemma xor_stream_block:
  assumes "\<And>i. i < length xs \<Longrightarrow> gen (st i) = (ks ! i, st (Suc i))" "length xs \<le> length ks"
  shows "xor_stream gen (st 0) xs = (xor_into xs ks, st (length xs))"
  using assms
proof (induction xs arbitrary: st ks)
  case (Cons x xs)
  then obtain k ks' where ks: "ks = k # ks'" by (cases ks) auto
  have "xor_stream gen (st (Suc 0)) xs = (xor_into xs ks', st (Suc (length xs)))"
    using Cons.IH [of "\<lambda>i. st (Suc i)" ks'] Cons.prems ks by fastforce
  moreover have "gen (st 0) = (k, st (Suc 0))" using Cons.prems(1) [of 0] ks by simp
  ultimately show ?case using ks by (simp add: Let_def)
qed simp

text \<open>A message handed over in pieces.\<close>

primrec apply_chunks :: "('s \<Rightarrow> bytes \<Rightarrow> bytes \<times> 's) \<Rightarrow> 's \<Rightarrow> bytes list \<Rightarrow> bytes" where
  "apply_chunks app s [] = []"
| "apply_chunks app s (b # bs) = fst (app s b) @ apply_chunks app (snd (app s b)) bs"

text \<open>An implementation whose state represents the generator's state through \<open>abs\<close>.\<close>

locale keystream_refinement =
  fixes inv :: "'s \<Rightarrow> bool"
    and abs :: "'s \<Rightarrow> 't"
    and gen :: "'t \<Rightarrow> u8 \<times> 't"
    and app :: "'s \<Rightarrow> bytes \<Rightarrow> bytes \<times> 's"
  assumes app_out: "inv s \<Longrightarrow> fst (app s buf) = fst (xor_stream gen (abs s) buf)"
    and app_abs: "inv s \<Longrightarrow> abs (snd (app s buf)) = snd (xor_stream gen (abs s) buf)"
    and app_keeps_inv: "inv s \<Longrightarrow> inv (snd (app s buf))"
begin

lemma app_out_length: "inv s \<Longrightarrow> length (fst (app s buf)) = length buf"
  by (simp add: app_out)

lemma app_out_append: "inv s \<Longrightarrow> fst (app s (xs @ ys)) = fst (app s xs) @ fst (app (snd (app s xs)) ys)"
  by (simp add: app_out app_abs app_keeps_inv xor_stream_append case_prod_beta Let_def)

lemma app_abs_append: "inv s \<Longrightarrow> abs (snd (app s (xs @ ys))) = abs (snd (app (snd (app s xs)) ys))"
  by (simp add: app_out app_abs app_keeps_inv xor_stream_append case_prod_beta Let_def)

lemma app_out_involutive: "inv s \<Longrightarrow> inv s' \<Longrightarrow> abs s' = abs s \<Longrightarrow> fst (app s' (fst (app s buf))) = buf"
  by (simp add: app_out xor_stream_involutive)

lemma apply_chunks_stream: "inv s \<Longrightarrow> apply_chunks app s bs = fst (xor_stream gen (abs s) (concat bs))"
  by (induction bs arbitrary: s)
    (simp_all add: app_out app_abs app_keeps_inv xor_stream_append case_prod_beta Let_def)

end

locale keystream =
  fixes inv :: "'s \<Rightarrow> bool"
    and norm :: "'s \<Rightarrow> 's"
    and gen :: "'s \<Rightarrow> u8 \<times> 's"
    and app :: "'s \<Rightarrow> bytes \<Rightarrow> bytes \<times> 's"
  assumes app_refines: "inv s \<Longrightarrow> app s buf = xor_stream gen (norm s) buf"
    and inv_norm: "inv s \<Longrightarrow> inv (norm s)"
    and inv_gen: "inv s \<Longrightarrow> norm s = s \<Longrightarrow> inv (snd (gen s))"
    and norm_norm: "inv s \<Longrightarrow> norm (norm s) = norm s"
    and norm_gen: "inv s \<Longrightarrow> norm s = s \<Longrightarrow> norm (snd (gen s)) = snd (gen s)"
begin

lemma stream_state: "inv s \<Longrightarrow> norm s = s \<Longrightarrow>
    inv (snd (xor_stream gen s xs)) \<and> norm (snd (xor_stream gen s xs)) = snd (xor_stream gen s xs)"
proof (induction xs arbitrary: s)
  case (Cons x xs)
  then have "inv (snd (gen s))" "norm (snd (gen s)) = snd (gen s)"
    by (simp_all add: inv_gen norm_gen)
  from Cons.IH [OF this] show ?case by (simp add: Let_def case_prod_beta)
qed simp

lemma app_inv: "inv s \<Longrightarrow> inv (snd (app s buf))"
  by (simp add: app_refines stream_state inv_norm norm_norm)

lemma app_length: "inv s \<Longrightarrow> length (fst (app s buf)) = length buf"
  by (simp add: app_refines)

lemma app_append:
  assumes "inv s"
  shows "app s (xs @ ys) = (let (o1, s1) = app s xs; (o2, s2) = app s1 ys in (o1 @ o2, s2))"
proof -
  have "inv (snd (app s xs))" "norm (snd (app s xs)) = snd (app s xs)"
    using assms by (simp_all add: app_refines stream_state inv_norm norm_norm)
  then show ?thesis
    using assms by (simp add: app_refines xor_stream_append case_prod_beta)
qed

lemma app_involutive: "inv s \<Longrightarrow> app s (fst (app s buf)) = (buf, snd (app s buf))"
  by (simp add: app_refines xor_stream_involutive)

end

sublocale keystream \<subseteq> refinement: keystream_refinement inv norm gen app
  by unfold_locales (simp_all add: app_refines stream_state inv_norm norm_norm app_inv)

end
