(* ===== verification/Kalyna_Ofb.thy ===== *)
theory Kalyna_Ofb
  imports Kalyna Keystream
begin

text \<open>
  \<open>crates/dstu-core/src/hazmat/kalyna_ofb.rs\<close>: output feedback. The buffered operation is shown
  to refine a byte-at-a-time generator that re-encrypts the register whenever it is used up, and
  the keystream interface then gives self-inverse application and chunk invariance.
\<close>

record kalyna_ofb =
  ofb_key :: expanded_key
  ofb_gamma :: bytes
  ofb_used_gamma_len :: nat

definition ofb_new :: "kalyna_variant \<Rightarrow> bytes \<Rightarrow> bytes \<Rightarrow> kalyna_ofb option" where
  "ofb_new v key iv =
     map_option (\<lambda>ek. \<lparr>ofb_key = ek, ofb_gamma = iv, ofb_used_gamma_len = 0\<rparr>) (expanded_key_new v key)"

text \<open>The \<open>while data_off < buf.len()\<close> loop, over the rest of the buffer.\<close>

function ofb_loop :: "kalyna_variant \<Rightarrow> kalyna_ofb \<Rightarrow> bytes \<Rightarrow> bytes \<times> kalyna_ofb" where
  "ofb_loop v self buf =
     (if buf = [] then ([], self)
      else let gamma = encrypt_block v (ofb_key self) (ofb_gamma self);
               n = min (block_bytes v) (length buf);
               (out, self') = ofb_loop v (self\<lparr>ofb_gamma := gamma, ofb_used_gamma_len := n\<rparr>) (drop n buf)
           in (xor_into (take n buf) gamma @ out, self'))"
  by pat_completeness auto
termination
proof (relation "measure (\<lambda>(v, self, buf). length buf)", goal_cases)
  case (2 v self buf gamma n)
  have "0 < block_bytes v" by (cases v) simp_all
  with 2 show ?case by auto
qed simp

declare ofb_loop.simps [simp del]

definition ofb_apply_in_place :: "kalyna_variant \<Rightarrow> kalyna_ofb \<Rightarrow> bytes \<Rightarrow> bytes \<times> kalyna_ofb" where
  "ofb_apply_in_place v self buf =
     (if ofb_used_gamma_len self \<noteq> 0 then
        (let used = ofb_used_gamma_len self;
             avail = block_bytes v - used;
             n = min avail (length buf);
             (out, self') = ofb_loop v (self\<lparr>ofb_used_gamma_len := used + n\<rparr>) (drop n buf)
         in (xor_into (take n buf) (drop used (ofb_gamma self)) @ out, self'))
      else ofb_loop v self buf)"

section \<open>The byte generator\<close>

definition ofb_inv :: "kalyna_variant \<Rightarrow> kalyna_ofb \<Rightarrow> bool" where
  "ofb_inv v s \<longleftrightarrow> valid_expanded_key v (ofb_key s) \<and> length (ofb_gamma s) = block_bytes v \<and>
     ofb_used_gamma_len s \<le> block_bytes v"

definition ofb_gen :: "kalyna_variant \<Rightarrow> kalyna_ofb \<Rightarrow> u8 \<times> kalyna_ofb" where
  "ofb_gen v s =
     (if ofb_used_gamma_len s = 0 \<or> ofb_used_gamma_len s = block_bytes v then
        (let gamma = encrypt_block v (ofb_key s) (ofb_gamma s)
         in (gamma ! 0, s\<lparr>ofb_gamma := gamma, ofb_used_gamma_len := 1\<rparr>))
      else (ofb_gamma s ! ofb_used_gamma_len s, s\<lparr>ofb_used_gamma_len := ofb_used_gamma_len s + 1\<rparr>))"

lemma ofb_inv_gen: "ofb_inv v s \<Longrightarrow> ofb_inv v (snd (ofb_gen v s))"
  using kalyna.bl_pos [of v] by (auto simp: ofb_inv_def ofb_gen_def Let_def)

lemma ofb_gen_block:
  assumes "ofb_inv v s" "ofb_used_gamma_len s = 0 \<or> ofb_used_gamma_len s = block_bytes v"
    and "length xs \<le> block_bytes v" "xs \<noteq> []"
  shows "xor_stream (ofb_gen v) s xs =
    (xor_into xs (encrypt_block v (ofb_key s) (ofb_gamma s)),
     s\<lparr>ofb_gamma := encrypt_block v (ofb_key s) (ofb_gamma s), ofb_used_gamma_len := length xs\<rparr>)"
proof -
  let ?g = "encrypt_block v (ofb_key s) (ofb_gamma s)"
  let ?st = "\<lambda>i. if i = 0 then s else s\<lparr>ofb_gamma := ?g, ofb_used_gamma_len := i\<rparr>"
  have "xor_stream (ofb_gen v) (?st 0) xs = (xor_into xs ?g, ?st (length xs))"
    using assms by (intro xor_stream_block) (auto simp: ofb_gen_def Let_def ofb_inv_def)
  with assms(4) show ?thesis by simp
qed

lemma ofb_loop_refines:
  "ofb_inv v s \<Longrightarrow> buf = [] \<or> ofb_used_gamma_len s = 0 \<or> ofb_used_gamma_len s = block_bytes v \<Longrightarrow>
   ofb_loop v s buf = xor_stream (ofb_gen v) s buf"
proof (induction v s buf rule: ofb_loop.induct)
  case (1 v s buf)
  show ?case
  proof (cases "buf = []")
    case False
    let ?n = "min (block_bytes v) (length buf)"
    let ?g = "encrypt_block v (ofb_key s) (ofb_gamma s)"
    let ?s = "s\<lparr>ofb_gamma := ?g, ofb_used_gamma_len := ?n\<rparr>"
    have inv: "ofb_inv v ?s" using 1(2) by (simp add: ofb_inv_def)
    have "drop ?n buf = [] \<or> ofb_used_gamma_len ?s = block_bytes v" by auto
    then have IH: "ofb_loop v ?s (drop ?n buf) = xor_stream (ofb_gen v) ?s (drop ?n buf)"
      using 1(1) [OF False refl refl] inv by blast
    have "take ?n buf \<noteq> []" using False kalyna.bl_pos [of v] by simp
    then have "xor_stream (ofb_gen v) s (take ?n buf) = (xor_into (take ?n buf) ?g, ?s)"
      using ofb_gen_block [OF 1(2), of "take ?n buf"] 1(3) False by (simp add: min.commute)
    then show ?thesis
      using xor_stream_append [of "ofb_gen v" s "take ?n buf" "drop ?n buf"] IH False
      by (simp add: ofb_loop.simps [of v s buf] Let_def)
  qed (simp add: ofb_loop.simps)
qed

lemma ofb_apply_refines:
  assumes "ofb_inv v s"
  shows "ofb_apply_in_place v s buf = xor_stream (ofb_gen v) s buf"
proof (cases "ofb_used_gamma_len s = 0")
  case True
  then show ?thesis using ofb_loop_refines [OF assms] by (simp add: ofb_apply_in_place_def)
next
  case False
  let ?u = "ofb_used_gamma_len s"
  let ?n = "min (block_bytes v - ?u) (length buf)"
  let ?s = "s\<lparr>ofb_used_gamma_len := ?u + ?n\<rparr>"
  have inv: "ofb_inv v ?s" using assms by (auto simp: ofb_inv_def)
  have "drop ?n buf = [] \<or> ofb_used_gamma_len ?s = block_bytes v" using assms by (auto simp: ofb_inv_def)
  then have rest: "ofb_loop v ?s (drop ?n buf) = xor_stream (ofb_gen v) ?s (drop ?n buf)"
    using ofb_loop_refines [OF inv] by blast
  have "xor_stream (ofb_gen v) (s\<lparr>ofb_used_gamma_len := ?u + 0\<rparr>) (take ?n buf) =
      (xor_into (take ?n buf) (drop ?u (ofb_gamma s)), s\<lparr>ofb_used_gamma_len := ?u + length (take ?n buf)\<rparr>)"
    using assms False by (intro xor_stream_block) (auto simp: ofb_gen_def ofb_inv_def)
  then have "xor_stream (ofb_gen v) s (take ?n buf) = (xor_into (take ?n buf) (drop ?u (ofb_gamma s)), ?s)"
    by (simp add: min.commute)
  then show ?thesis
    using xor_stream_append [of "ofb_gen v" s "take ?n buf" "drop ?n buf"] rest False
    by (simp add: ofb_apply_in_place_def Let_def)
qed

interpretation ofb: keystream "ofb_inv v" id "ofb_gen v" "ofb_apply_in_place v" for v
  by unfold_locales (simp_all add: ofb_apply_refines ofb_inv_gen)

lemma ofb_new_inv:
  "length key = key_bytes v \<Longrightarrow> length iv = block_bytes v \<Longrightarrow> ofb_new v key iv = Some s \<Longrightarrow> ofb_inv v s"
  by (auto simp: ofb_new_def ofb_inv_def expanded_key_new_valid)

lemma ofb_new_total:
  "length key = key_bytes v \<Longrightarrow> \<exists>s. ofb_new v key iv = Some s"
  using expanded_key_new_total [of key v] by (auto simp: ofb_new_def)

section \<open>Properties\<close>

text \<open>OFB is its own inverse, however the message is cut: applying the keystream in two calls
  of any lengths equals one call over the whole, and applying it again from the same start
  gives the message back.\<close>

theorem ofb_chunked_self_inverse:
  assumes "length key = key_bytes v" "length iv = block_bytes v" "ofb_new v key iv = Some s"
    and "ofb_apply_in_place v s a = (ca, s1)" "ofb_apply_in_place v s1 b = (cb, s2)"
  shows "ofb_apply_in_place v s (a @ b) = (ca @ cb, s2) \<and>
    fst (ofb_apply_in_place v s (ca @ cb)) = a @ b"
proof -
  note inv = ofb_new_inv [OF assms(1-3)]
  have "ofb_apply_in_place v s (a @ b) = (ca @ cb, s2)"
    using ofb.app_append [OF inv, of a b] assms(4,5) by simp
  then show ?thesis using ofb.app_involutive [OF inv, of "a @ b"] by simp
qed

theorem ofb_chunked_self_inverse_witness:
  "\<exists>s ca s1 cb s2. ofb_new Kalyna256_512 (replicate 64 1) (replicate 32 2) = Some s \<and>
    ofb_apply_in_place Kalyna256_512 s [1, 2, 3] = (ca, s1) \<and>
    ofb_apply_in_place Kalyna256_512 s1 [4, 5] = (cb, s2) \<and>
    ofb_apply_in_place Kalyna256_512 s ([1, 2, 3] @ [4, 5]) = (ca @ cb, s2) \<and>
    fst (ofb_apply_in_place Kalyna256_512 s (ca @ cb)) = [1, 2, 3] @ [4, 5]"
proof -
  obtain s where s: "ofb_new Kalyna256_512 (replicate 64 1) (replicate 32 2) = Some s"
    using ofb_new_total [of "replicate 64 1" Kalyna256_512] by auto
  obtain ca s1 where 1: "ofb_apply_in_place Kalyna256_512 s [1, 2, 3] = (ca, s1)" by fastforce
  obtain cb s2 where 2: "ofb_apply_in_place Kalyna256_512 s1 [4, 5] = (cb, s2)" by fastforce
  show ?thesis
    using s 1 2 ofb_chunked_self_inverse [OF _ _ s 1 2] by auto
qed

end
