(* ===== verification/Kalyna_Ctr.thy ===== *)
theory Kalyna_Ctr
  imports Kalyna Keystream
begin

text \<open>
  \<open>crates/dstu-core/src/hazmat/kalyna_ctr.rs\<close>: the counter mode. \<open>feed\<close> is the counter, \<open>gamma\<close>
  the key bytes of the current counter value; the three loops of \<open>apply_in_place\<close> (the rest of a
  begun block, whole blocks, the final partial block) are shown to refine one byte generator.
\<close>

record kalyna_ctr =
  ctr_key :: expanded_key
  ctr_gamma :: bytes
  ctr_feed :: bytes
  ctr_used_gamma_len :: nat

definition ctr_new :: "kalyna_variant \<Rightarrow> bytes \<Rightarrow> bytes \<Rightarrow> kalyna_ctr option" where
  "ctr_new v key iv = map_option (\<lambda>ek.
     let gamma = encrypt_block v ek iv
     in \<lparr>ctr_key = ek, ctr_gamma = gamma, ctr_feed = gamma, ctr_used_gamma_len = block_bytes v\<rparr>)
     (expanded_key_new v key)"

fun increment_counter :: "bytes \<Rightarrow> bytes" where
  "increment_counter [] = []"
| "increment_counter (b # bs) =
     (let b' = b + 1 in if b' \<noteq> 0 then b' # bs else b' # increment_counter bs)"

text \<open>\<open>Self::increment_counter(&mut self.feed); self.gamma = self.key.encrypt_block(&self.feed)\<close>.\<close>

definition ctr_advance :: "kalyna_variant \<Rightarrow> kalyna_ctr \<Rightarrow> kalyna_ctr" where
  "ctr_advance v self =
     (let feed = increment_counter (ctr_feed self)
      in self\<lparr>ctr_feed := feed, ctr_gamma := encrypt_block v (ctr_key self) feed\<rparr>)"

text \<open>The three loops, each over the rest of the buffer.\<close>

fun ctr_head :: "nat \<Rightarrow> bytes \<Rightarrow> nat \<Rightarrow> bytes \<Rightarrow> bytes \<times> nat \<times> bytes" where
  "ctr_head bl gamma offset [] = ([], offset, [])"
| "ctr_head bl gamma offset (b # bs) =
     (if offset < bl
      then let (out, offset', rest) = ctr_head bl gamma (offset + 1) bs
           in ((b XOR gamma ! offset) # out, offset', rest)
      else ([], offset, b # bs))"

function ctr_blocks :: "kalyna_variant \<Rightarrow> kalyna_ctr \<Rightarrow> bytes \<Rightarrow> bytes \<times> kalyna_ctr \<times> bytes" where
  "ctr_blocks v self buf =
     (if block_bytes v \<le> length buf then
        (let block = xor_into (take (block_bytes v) buf) (ctr_gamma self);
             (out, self', rest) = ctr_blocks v (ctr_advance v self) (drop (block_bytes v) buf)
         in (block @ out, self', rest))
      else ([], self, buf))"
  by pat_completeness auto
termination
proof (relation "measure (\<lambda>(v, self, buf). length buf)", goal_cases)
  case (2 v self buf)
  have "0 < block_bytes v" by (cases v) simp_all
  with 2 show ?case by simp
qed simp

declare ctr_blocks.simps [simp del]

fun ctr_tail :: "bytes \<Rightarrow> nat \<Rightarrow> bytes \<Rightarrow> bytes \<times> nat" where
  "ctr_tail gamma offset [] = ([], offset)"
| "ctr_tail gamma offset (b # bs) =
     (let (out, offset') = ctr_tail gamma (offset + 1) bs in ((b XOR gamma ! offset) # out, offset'))"

definition ctr_apply_in_place :: "kalyna_variant \<Rightarrow> kalyna_ctr \<Rightarrow> bytes \<Rightarrow> bytes \<times> kalyna_ctr" where
  "ctr_apply_in_place v self buf =
     (let offset = ctr_used_gamma_len self;
          (head, self, offset, rest) =
            (if offset \<noteq> 0 then
               (let (head, offset, rest) = ctr_head (block_bytes v) (ctr_gamma self) offset buf
                in if offset = block_bytes v then (head, ctr_advance v self, 0, rest)
                   else (head, self, offset, rest))
             else ([], self, offset, buf));
          (blocks, self, rest) = ctr_blocks v self rest;
          (tail, offset) = ctr_tail (ctr_gamma self) offset rest
      in (head @ blocks @ tail, self\<lparr>ctr_used_gamma_len := offset\<rparr>))"

section \<open>The counter\<close>

text \<open>A byte string as a little-endian number.\<close>

definition le_value :: "bytes \<Rightarrow> nat" where
  "le_value bs = foldr (\<lambda>b acc. unat b + 256 * acc) bs 0"

lemma le_value_simps [simp]: "le_value [] = 0" "le_value (b # bs) = unat b + 256 * le_value bs"
  by (simp_all add: le_value_def)

lemma le_value_less: "le_value bs < 256 ^ length bs"
proof (induction bs)
  case (Cons b bs)
  have "unat b + 256 * le_value bs < 256 * (le_value bs + 1)" using unat_u8_less [of b] by simp
  also have "\<dots> \<le> 256 * 256 ^ length bs" using Cons by simp
  finally show ?case by simp
qed simp

lemma length_increment_counter [simp]: "length (increment_counter bs) = length bs"
  by (induction bs) (simp_all add: Let_def)

lemma le_value_increment: "le_value (increment_counter bs) = (le_value bs + 1) mod 256 ^ length bs"
proof (induction bs)
  case (Cons b bs)
  show ?case
  proof (cases "b + 1 = 0")
    case True
    then have "b = 255" by (simp add: add_eq_0_iff2)
    then have "unat b = 255" by simp
    then show ?thesis using True Cons mult_mod_right [of 256 "le_value bs + 1" "256 ^ length bs"]
      by (simp add: Let_def)
  next
    case False
    have "b \<noteq> 255" using False by auto
    then have "unat b \<noteq> 255" by (simp add: word_unat_eq_iff)
    then have "unat b + 1 < 256" using unat_u8_less [of b] by simp
    then have u: "unat (b + 1) = unat b + 1" using unat_add_lem [of b 1] by simp
    from \<open>unat b + 1 < 256\<close>
    have "unat b + 1 + 256 * le_value bs < 256 * (le_value bs + 1)" by simp
    also have "\<dots> \<le> 256 * 256 ^ length bs" using le_value_less [of bs] by simp
    finally show ?thesis using False u by (simp add: Let_def)
  qed
qed simp

section \<open>The byte generator\<close>

definition ctr_inv :: "kalyna_variant \<Rightarrow> kalyna_ctr \<Rightarrow> bool" where
  "ctr_inv v s \<longleftrightarrow> valid_expanded_key v (ctr_key s) \<and> length (ctr_gamma s) = block_bytes v \<and>
     length (ctr_feed s) = block_bytes v \<and> ctr_used_gamma_len s \<le> block_bytes v"

text \<open>A used-up block is replaced by that of the next counter value.\<close>

definition ctr_norm :: "kalyna_variant \<Rightarrow> kalyna_ctr \<Rightarrow> kalyna_ctr" where
  "ctr_norm v s = (if ctr_used_gamma_len s = block_bytes v
     then (ctr_advance v s)\<lparr>ctr_used_gamma_len := 0\<rparr> else s)"

definition ctr_gen :: "kalyna_variant \<Rightarrow> kalyna_ctr \<Rightarrow> u8 \<times> kalyna_ctr" where
  "ctr_gen v s = (ctr_gamma s ! ctr_used_gamma_len s,
     ctr_norm v (s\<lparr>ctr_used_gamma_len := ctr_used_gamma_len s + 1\<rparr>))"

lemma ctr_advance_simps [simp]:
  "ctr_key (ctr_advance v s) = ctr_key s" "ctr_used_gamma_len (ctr_advance v s) = ctr_used_gamma_len s"
  "ctr_feed (ctr_advance v s) = increment_counter (ctr_feed s)"
  "ctr_gamma (ctr_advance v s) = encrypt_block v (ctr_key s) (increment_counter (ctr_feed s))"
  by (simp_all add: ctr_advance_def Let_def)

lemma ctr_advance_used [simp]:
  "ctr_advance v (s\<lparr>ctr_used_gamma_len := n\<rparr>) = (ctr_advance v s)\<lparr>ctr_used_gamma_len := n\<rparr>"
  by (simp add: ctr_advance_def Let_def)

lemma ctr_inv_advance: "ctr_inv v s \<Longrightarrow> ctr_inv v (ctr_advance v s)"
  by (simp add: ctr_inv_def)

lemma ctr_norm_laws:
  "ctr_inv v s \<Longrightarrow> ctr_inv v (ctr_norm v s)" "ctr_norm v (ctr_norm v s) = ctr_norm v s"
  using kalyna.bl_pos [of v] by (auto simp: ctr_inv_def ctr_norm_def)

lemma ctr_norm_fixed: "ctr_norm v s = s \<Longrightarrow> ctr_used_gamma_len s \<noteq> block_bytes v"
  using kalyna.bl_pos [of v] by (auto simp: ctr_norm_def dest: arg_cong [where f = ctr_used_gamma_len])

lemma ctr_gen_laws:
  assumes "ctr_inv v s" "ctr_norm v s = s"
  shows "ctr_inv v (snd (ctr_gen v s))" "ctr_norm v (snd (ctr_gen v s)) = snd (ctr_gen v s)"
proof -
  have "ctr_inv v (s\<lparr>ctr_used_gamma_len := ctr_used_gamma_len s + 1\<rparr>)"
    using assms(1) ctr_norm_fixed [OF assms(2)] by (simp add: ctr_inv_def)
  then show "ctr_inv v (snd (ctr_gen v s))" "ctr_norm v (snd (ctr_gen v s)) = snd (ctr_gen v s)"
    by (simp_all add: ctr_gen_def ctr_norm_laws)
qed

lemma ctr_gen_stretch:
  assumes "ctr_inv v s" "length xs \<le> block_bytes v - ctr_used_gamma_len s"
  shows "xor_stream (ctr_gen v) (ctr_norm v s) xs =
    (xor_into xs (drop (ctr_used_gamma_len s) (ctr_gamma s)),
     ctr_norm v (s\<lparr>ctr_used_gamma_len := ctr_used_gamma_len s + length xs\<rparr>))"
proof -
  let ?u = "ctr_used_gamma_len s"
  let ?st = "\<lambda>i. ctr_norm v (s\<lparr>ctr_used_gamma_len := ?u + i\<rparr>)"
  have "xor_stream (ctr_gen v) (?st 0) xs = (xor_into xs (drop ?u (ctr_gamma s)), ?st (length xs))"
  proof (rule xor_stream_block)
    fix i assume "i < length xs"
    with assms(2) have "?u + i < block_bytes v" by simp
    then show "ctr_gen v (?st i) = (drop ?u (ctr_gamma s) ! i, ?st (Suc i))"
      using assms(1) by (simp add: ctr_gen_def ctr_norm_def ctr_inv_def)
  qed (use assms in \<open>simp add: ctr_inv_def\<close>)
  then show ?thesis by simp
qed

lemma ctr_head_eq:
  "ctr_head bl gamma off buf =
     (let n = min (bl - off) (length buf)
      in (map2 (XOR) (take n buf) (map (\<lambda>i. gamma ! i) [off..<off + n]), off + n, drop n buf))"
proof (induction buf arbitrary: off)
  case (Cons b bs)
  show ?case
  proof (cases "off < bl")
    case True
    then have "min (bl - off) (length (b # bs)) = Suc (min (bl - Suc off) (length bs))" by auto
    with True Cons.IH [of "Suc off"] show ?thesis
      by (simp add: Let_def upt_conv_Cons del: upt_Suc)
  qed simp
qed simp

lemma ctr_head_xor:
  assumes "length gamma = bl" "n = min (bl - off) (length buf)"
  shows "ctr_head bl gamma off buf = (xor_into (take n buf) (drop off gamma), off + n, drop n buf)"
proof -
  have "map2 (XOR) (take n buf) (map (\<lambda>i. gamma ! i) [off..<off + n]) = xor_into (take n buf) (drop off gamma)"
    using assms by (intro nth_equalityI) (auto simp: nth_xor_into)
  with assms show ?thesis by (simp add: ctr_head_eq Let_def)
qed

lemma ctr_tail_xor:
  assumes "off + length buf \<le> length gamma"
  shows "ctr_tail gamma off buf = (xor_into buf (drop off gamma), off + length buf)"
  using assms
proof (induction buf arbitrary: off)
  case (Cons b bs)
  then show ?case by (simp add: Let_def Cons_nth_drop_Suc [symmetric])
qed simp

lemma ctr_blocks_refines:
  assumes "ctr_inv v s" "ctr_used_gamma_len s = 0"
  shows "\<exists>out s' rest. ctr_blocks v s buf = (out, s', rest) \<and> length rest < block_bytes v \<and>
    ctr_inv v s' \<and> ctr_used_gamma_len s' = 0 \<and>
    xor_stream (ctr_gen v) s buf = (let (o2, s2) = xor_stream (ctr_gen v) s' rest in (out @ o2, s2))"
  using assms
proof (induction v s buf rule: ctr_blocks.induct)
  case (1 v s buf)
  show ?case
  proof (cases "block_bytes v \<le> length buf")
    case True
    let ?b = "take (block_bytes v) buf" and ?r = "drop (block_bytes v) buf"
    have norm: "ctr_norm v s = s" using 1(3) kalyna.bl_pos [of v] by (simp add: ctr_norm_def)
    have "ctr_norm v (s\<lparr>ctr_used_gamma_len := block_bytes v\<rparr>) = ctr_advance v s"
      using 1(3) by (simp add: ctr_norm_def)
    then have first: "xor_stream (ctr_gen v) s ?b = (xor_into ?b (ctr_gamma s), ctr_advance v s)"
      using ctr_gen_stretch [OF 1(2), of ?b] 1(3) True norm by (simp add: min_absorb2)
    obtain out s' rest where IH: "ctr_blocks v (ctr_advance v s) ?r = (out, s', rest)"
      "length rest < block_bytes v" "ctr_inv v s'" "ctr_used_gamma_len s' = 0"
      "xor_stream (ctr_gen v) (ctr_advance v s) ?r = (let (o2, s2) = xor_stream (ctr_gen v) s' rest in (out @ o2, s2))"
      using 1(1) [OF True refl] 1(2,3) by (auto simp: ctr_inv_advance)
    have "xor_stream (ctr_gen v) s buf =
        (let (o2, s2) = xor_stream (ctr_gen v) s' rest in ((xor_into ?b (ctr_gamma s) @ out) @ o2, s2))"
      using xor_stream_append [of "ctr_gen v" s ?b ?r] first IH(5) by (simp add: Let_def case_prod_beta)
    then show ?thesis
      using IH True by (subst ctr_blocks.simps) (simp add: Let_def)
  next
    case False
    then show ?thesis using 1(2,3) by (subst ctr_blocks.simps) (simp add: Let_def)
  qed
qed

lemma ctr_whole_blocks:
  assumes "ctr_inv v s" "ctr_used_gamma_len s = 0"
  shows "xor_stream (ctr_gen v) s buf =
    (let (blocks, s', rest) = ctr_blocks v s buf; (tail, offset) = ctr_tail (ctr_gamma s') 0 rest
     in (blocks @ tail, s'\<lparr>ctr_used_gamma_len := offset\<rparr>))"
proof -
  obtain out s' rest where b: "ctr_blocks v s buf = (out, s', rest)" "length rest < block_bytes v"
    "ctr_inv v s'" "ctr_used_gamma_len s' = 0"
    "xor_stream (ctr_gen v) s buf = (let (o2, s2) = xor_stream (ctr_gen v) s' rest in (out @ o2, s2))"
    using ctr_blocks_refines [OF assms] by blast
  have "ctr_norm v s' = s'" "ctr_norm v (s'\<lparr>ctr_used_gamma_len := length rest\<rparr>) = s'\<lparr>ctr_used_gamma_len := length rest\<rparr>"
    using b(2,4) kalyna.bl_pos [of v] by (simp_all add: ctr_norm_def)
  then have "xor_stream (ctr_gen v) s' rest = (xor_into rest (ctr_gamma s'), s'\<lparr>ctr_used_gamma_len := length rest\<rparr>)"
    using ctr_gen_stretch [OF b(3), of rest] b(2,4) by simp
  then show ?thesis
    using b ctr_tail_xor [of 0 rest "ctr_gamma s'"] by (simp add: ctr_inv_def)
qed

lemma ctr_blocks_Nil: "ctr_blocks v s [] = ([], s, [])"
  using kalyna.bl_pos [of v] by (simp add: ctr_blocks.simps)

lemma ctr_blocks_used:
  "ctr_blocks v (s\<lparr>ctr_used_gamma_len := n\<rparr>) buf =
     (let (out, s', rest) = ctr_blocks v s buf in (out, s'\<lparr>ctr_used_gamma_len := n\<rparr>, rest))"
proof (induction v s buf rule: ctr_blocks.induct)
  case (1 v s buf)
  then show ?case
    by (simp add: ctr_blocks.simps [of v s buf] ctr_blocks.simps [of v "s\<lparr>ctr_used_gamma_len := n\<rparr>" buf]
        Let_def case_prod_beta)
qed

lemma ctr_apply_refines:
  assumes "ctr_inv v s"
  shows "ctr_apply_in_place v s buf = xor_stream (ctr_gen v) (ctr_norm v s) buf"
proof (cases "ctr_used_gamma_len s = 0")
  case True
  then have "ctr_norm v s = s" using kalyna.bl_pos [of v] by (simp add: ctr_norm_def)
  then show ?thesis
    using ctr_whole_blocks [OF assms True, of buf] True
    by (simp add: ctr_apply_in_place_def Let_def case_prod_beta)
next
  case False
  let ?u = "ctr_used_gamma_len s"
  let ?n = "min (block_bytes v - ?u) (length buf)"
  let ?s = "ctr_norm v (s\<lparr>ctr_used_gamma_len := ?u + ?n\<rparr>)"
  have head: "ctr_head (block_bytes v) (ctr_gamma s) ?u buf =
      (xor_into (take ?n buf) (drop ?u (ctr_gamma s)), ?u + ?n, drop ?n buf)"
    using assms by (intro ctr_head_xor) (simp_all add: ctr_inv_def)
  have "xor_stream (ctr_gen v) (ctr_norm v s) (take ?n buf) =
      (xor_into (take ?n buf) (drop ?u (ctr_gamma s)), ?s)"
    using ctr_gen_stretch [OF assms, of "take ?n buf"] by (simp add: min.commute)
  then have split: "xor_stream (ctr_gen v) (ctr_norm v s) buf =
      (let (o2, s2) = xor_stream (ctr_gen v) ?s (drop ?n buf)
       in (xor_into (take ?n buf) (drop ?u (ctr_gamma s)) @ o2, s2))"
    using xor_stream_append [of "ctr_gen v" "ctr_norm v s" "take ?n buf" "drop ?n buf"] by simp
  show ?thesis
  proof (cases "?u + ?n = block_bytes v")
    case True
    then have s: "?s = (ctr_advance v s)\<lparr>ctr_used_gamma_len := 0\<rparr>" by (simp add: ctr_norm_def)
    have "ctr_inv v ?s" using assms True by (intro ctr_norm_laws) (simp add: ctr_inv_def)
    then have "xor_stream (ctr_gen v) ?s (drop ?n buf) =
        (let (blocks, s', rest) = ctr_blocks v ?s (drop ?n buf); (tail, offset) = ctr_tail (ctr_gamma s') 0 rest
         in (blocks @ tail, s'\<lparr>ctr_used_gamma_len := offset\<rparr>))"
      by (rule ctr_whole_blocks) (simp add: s)
    with split head True False show ?thesis
      unfolding s ctr_blocks_used by (simp add: ctr_apply_in_place_def Let_def case_prod_beta)
  next
    case no: False
    then have "drop ?n buf = []" using assms by (auto simp: ctr_inv_def)
    with split head no False show ?thesis
      by (simp add: ctr_apply_in_place_def Let_def ctr_blocks_Nil ctr_norm_def)
  qed
qed

interpretation ctr: keystream "ctr_inv v" "ctr_norm v" "ctr_gen v" "ctr_apply_in_place v" for v
  by unfold_locales (simp_all add: ctr_apply_refines ctr_norm_laws ctr_gen_laws)

lemma ctr_new_inv:
  "length key = key_bytes v \<Longrightarrow> length iv = block_bytes v \<Longrightarrow> ctr_new v key iv = Some s \<Longrightarrow> ctr_inv v s"
  by (auto simp: ctr_new_def ctr_inv_def Let_def expanded_key_new_valid)

lemma ctr_new_total: "length key = key_bytes v \<Longrightarrow> \<exists>s. ctr_new v key iv = Some s"
  using expanded_key_new_total [of key v] by (auto simp: ctr_new_def)

section \<open>Properties\<close>

text \<open>CTR is its own inverse, however the message is cut: applying the keystream in two calls
  of any lengths equals one call over the whole, and applying it again from the same start
  gives the message back.\<close>

theorem ctr_chunked_self_inverse:
  assumes "length key = key_bytes v" "length iv = block_bytes v" "ctr_new v key iv = Some s"
    and "ctr_apply_in_place v s a = (ca, s1)" "ctr_apply_in_place v s1 b = (cb, s2)"
  shows "ctr_apply_in_place v s (a @ b) = (ca @ cb, s2) \<and>
    fst (ctr_apply_in_place v s (ca @ cb)) = a @ b"
proof -
  note inv = ctr_new_inv [OF assms(1-3)]
  have "ctr_apply_in_place v s (a @ b) = (ca @ cb, s2)"
    using ctr.app_append [OF inv, of a b] assms(4,5) by simp
  then show ?thesis using ctr.app_involutive [OF inv, of "a @ b"] by simp
qed

theorem ctr_chunked_self_inverse_witness:
  "\<exists>s ca s1 cb s2. ctr_new Kalyna512_512 (replicate 64 1) (replicate 64 2) = Some s \<and>
    ctr_apply_in_place Kalyna512_512 s [1, 2, 3] = (ca, s1) \<and>
    ctr_apply_in_place Kalyna512_512 s1 [4, 5] = (cb, s2) \<and>
    ctr_apply_in_place Kalyna512_512 s ([1, 2, 3] @ [4, 5]) = (ca @ cb, s2) \<and>
    fst (ctr_apply_in_place Kalyna512_512 s (ca @ cb)) = [1, 2, 3] @ [4, 5]"
proof -
  obtain s where s: "ctr_new Kalyna512_512 (replicate 64 1) (replicate 64 2) = Some s"
    using ctr_new_total [of "replicate 64 1" Kalyna512_512] by auto
  obtain ca s1 where 1: "ctr_apply_in_place Kalyna512_512 s [1, 2, 3] = (ca, s1)" by fastforce
  obtain cb s2 where 2: "ctr_apply_in_place Kalyna512_512 s1 [4, 5] = (cb, s2)" by fastforce
  show ?thesis
    using s 1 2 ctr_chunked_self_inverse [OF _ _ s 1 2] by auto
qed

text \<open>The counter step adds one to the little-endian value of the block and wraps to zero
  only from the all-ones block.\<close>

theorem increment_counter_value:
  "length (increment_counter counter) = length counter \<and>
   le_value (increment_counter counter) = (le_value counter + 1) mod 256 ^ length counter"
  by (simp add: le_value_increment)

end
