(* ===== verification/Kalyna_Cfb.thy ===== *)
theory Kalyna_Cfb
  imports Kalyna
begin

text \<open>
  \<open>crates/dstu-core/src/hazmat/kalyna_cfb.rs\<close>: cipher feedback with a feedback width \<open>q\<close>. Encryption
  and decryption are separate operations with three loops each; a call that does not start on a
  \<open>q\<close> boundary is refused. The state invariant fixes where an aligned call resumes, the round
  trip and the chunk law follow from the loops.
\<close>

datatype cfb_error = InvalidFeedbackWidth | NonAlignedIntermediateCall

record kalyna_cfb =
  cfb_key :: expanded_key
  cfb_gamma :: bytes
  cfb_feed :: bytes
  cfb_q :: nat
  cfb_used_gamma_len :: nat

definition cfb_new :: "kalyna_variant \<Rightarrow> bytes \<Rightarrow> bytes \<Rightarrow> nat \<Rightarrow> (cfb_error + kalyna_cfb) option" where
  "cfb_new v key iv q =
     (if q = 0 \<or> q > block_bytes v \<or> q \<notin> set [1, 8, 16, 32, 64] then Some (Inl InvalidFeedbackWidth)
      else map_option (\<lambda>ek. Inr \<lparr>cfb_key = ek, cfb_gamma = iv, cfb_feed = iv, cfb_q = q,
          cfb_used_gamma_len = block_bytes v\<rparr>) (expanded_key_new v key))"

fun cfb_encrypt_head :: "nat \<Rightarrow> bytes \<Rightarrow> bytes \<Rightarrow> nat \<Rightarrow> bytes \<Rightarrow> bytes \<times> bytes \<times> nat \<times> bytes" where
  "cfb_encrypt_head q gamma feed offset [] = ([], feed, offset, [])"
| "cfb_encrypt_head q gamma feed offset (b # bs) =
     (if offset < q
      then let c = b XOR gamma ! offset;
               (out, feed', offset', rest) = cfb_encrypt_head q gamma (feed[offset := c]) (offset + 1) bs
           in (c # out, feed', offset', rest)
      else ([], feed, offset, b # bs))"

fun cfb_decrypt_head :: "nat \<Rightarrow> bytes \<Rightarrow> bytes \<Rightarrow> nat \<Rightarrow> bytes \<Rightarrow> bytes \<times> bytes \<times> nat \<times> bytes" where
  "cfb_decrypt_head q gamma feed offset [] = ([], feed, offset, [])"
| "cfb_decrypt_head q gamma feed offset (b # bs) =
     (if offset < q
      then let (out, feed', offset', rest) = cfb_decrypt_head q gamma (feed[offset := b]) (offset + 1) bs
           in ((b XOR gamma ! offset) # out, feed', offset', rest)
      else ([], feed, offset, b # bs))"

text \<open>The loops over whole groups of \<open>q\<close> bytes; \<open>new\<close> excludes \<open>q = 0\<close>, on which the Rust loop
  would not end and the model stops.\<close>

function cfb_encrypt_groups ::
  "(bytes \<Rightarrow> bytes) \<Rightarrow> nat \<Rightarrow> nat \<Rightarrow> bytes \<Rightarrow> bytes \<Rightarrow> bytes \<Rightarrow> bytes \<times> bytes \<times> bytes \<times> bytes" where
  "cfb_encrypt_groups enc q offset gamma feed buf =
     (if q = 0 \<or> length buf < q then ([], gamma, feed, buf)
      else let group = xor_into (take q buf) (slice offset (offset + q) gamma);
               feed = write_at gamma offset group;
               gamma = enc feed;
               (out, gamma', feed', rest) = cfb_encrypt_groups enc q offset gamma feed (drop q buf)
           in (group @ out, gamma', feed', rest))"
  by pat_completeness auto
termination
  by (relation "measure (\<lambda>(enc, q, offset, gamma, feed, buf). length buf)") auto

function cfb_decrypt_groups ::
  "(bytes \<Rightarrow> bytes) \<Rightarrow> nat \<Rightarrow> nat \<Rightarrow> bytes \<Rightarrow> bytes \<Rightarrow> bytes \<Rightarrow> bytes \<times> bytes \<times> bytes \<times> bytes" where
  "cfb_decrypt_groups enc q offset gamma feed buf =
     (if q = 0 \<or> length buf < q then ([], gamma, feed, buf)
      else let ciphertext_chunk = take q buf;
               group = xor_into (take q buf) (slice offset (offset + q) gamma);
               feed = write_at gamma offset ciphertext_chunk;
               gamma = enc feed;
               (out, gamma', feed', rest) = cfb_decrypt_groups enc q offset gamma feed (drop q buf)
           in (group @ out, gamma', feed', rest))"
  by pat_completeness auto
termination
  by (relation "measure (\<lambda>(enc, q, offset, gamma, feed, buf). length buf)") auto

declare cfb_encrypt_groups.simps [simp del] cfb_decrypt_groups.simps [simp del]

fun cfb_encrypt_tail :: "nat \<Rightarrow> bytes \<Rightarrow> bytes \<Rightarrow> nat \<Rightarrow> bytes \<Rightarrow> bytes \<times> bytes \<times> nat" where
  "cfb_encrypt_tail bl gamma feed offset [] = ([], feed, offset)"
| "cfb_encrypt_tail bl gamma feed offset (b # bs) =
     (let c = b XOR gamma ! (bl - length (b # bs));
          (out, feed', offset') = cfb_encrypt_tail bl gamma (feed[offset := c]) (offset + 1) bs
      in (c # out, feed', offset'))"

fun cfb_decrypt_tail :: "nat \<Rightarrow> bytes \<Rightarrow> bytes \<Rightarrow> nat \<Rightarrow> bytes \<Rightarrow> bytes \<times> bytes \<times> nat" where
  "cfb_decrypt_tail bl gamma feed offset [] = ([], feed, offset)"
| "cfb_decrypt_tail bl gamma feed offset (b # bs) =
     (let (out, feed', offset') = cfb_decrypt_tail bl gamma (feed[offset := b]) (offset + 1) bs
      in ((b XOR gamma ! (bl - length (b # bs))) # out, feed', offset'))"

definition cfb_encrypt_in_place ::
  "kalyna_variant \<Rightarrow> kalyna_cfb \<Rightarrow> bytes \<Rightarrow> cfb_error + bytes \<times> kalyna_cfb" where
  "cfb_encrypt_in_place v self buf =
     (if cfb_used_gamma_len self mod cfb_q self \<noteq> 0 then Inl NonAlignedIntermediateCall
      else let q = cfb_q self; enc = encrypt_block v (cfb_key self); offset = cfb_used_gamma_len self;
               (head, gamma, feed, offset, rest) =
                 (if offset \<noteq> 0 then
                    (let (head, feed, offset, rest) = cfb_encrypt_head q (cfb_gamma self) (cfb_feed self) offset buf
                     in if offset = block_bytes v then (head, enc feed, feed, block_bytes v - q, rest)
                        else (head, cfb_gamma self, feed, offset, rest))
                  else ([], cfb_gamma self, cfb_feed self, offset, buf));
               (groups, gamma, feed, rest) = cfb_encrypt_groups enc q offset gamma feed rest;
               (tail, feed, offset) = cfb_encrypt_tail (block_bytes v) gamma feed offset rest
           in Inr (head @ groups @ tail,
                   self\<lparr>cfb_gamma := gamma, cfb_feed := feed, cfb_used_gamma_len := offset\<rparr>))"

definition cfb_decrypt_in_place ::
  "kalyna_variant \<Rightarrow> kalyna_cfb \<Rightarrow> bytes \<Rightarrow> cfb_error + bytes \<times> kalyna_cfb" where
  "cfb_decrypt_in_place v self buf =
     (if cfb_used_gamma_len self mod cfb_q self \<noteq> 0 then Inl NonAlignedIntermediateCall
      else let q = cfb_q self; enc = encrypt_block v (cfb_key self); offset = cfb_used_gamma_len self;
               (head, gamma, feed, offset, rest) =
                 (if offset \<noteq> 0 then
                    (let (head, feed, offset, rest) = cfb_decrypt_head q (cfb_gamma self) (cfb_feed self) offset buf
                     in if offset = block_bytes v then (head, enc feed, feed, block_bytes v - q, rest)
                        else (head, cfb_gamma self, feed, offset, rest))
                  else ([], cfb_gamma self, cfb_feed self, offset, buf));
               (groups, gamma, feed, rest) = cfb_decrypt_groups enc q offset gamma feed rest;
               (tail, feed, offset) = cfb_decrypt_tail (block_bytes v) gamma feed offset rest
           in Inr (head @ groups @ tail,
                   self\<lparr>cfb_gamma := gamma, cfb_feed := feed, cfb_used_gamma_len := offset\<rparr>))"

section \<open>The state an aligned call resumes from\<close>

definition cfb_inv :: "kalyna_variant \<Rightarrow> kalyna_cfb \<Rightarrow> bool" where
  "cfb_inv v s \<longleftrightarrow> 0 < cfb_q s \<and> cfb_q s \<le> block_bytes v \<and> block_bytes v mod cfb_q s = 0 \<and>
     block_bytes v - cfb_q s \<le> cfb_used_gamma_len s \<and> cfb_used_gamma_len s \<le> block_bytes v"

definition cfb_resume :: "kalyna_variant \<Rightarrow> kalyna_cfb \<Rightarrow> bytes" where
  "cfb_resume v s = (if cfb_used_gamma_len s = block_bytes v
     then encrypt_block v (cfb_key s) (cfb_feed s) else cfb_gamma s)"

lemma cfb_new_inv:
  assumes "cfb_new v key iv q = Some (Inr s)"
  shows "cfb_inv v s" "cfb_used_gamma_len s mod cfb_q s = 0"
proof -
  have q: "0 < q" "q \<le> block_bytes v" "q \<in> {1, 8, 16, 32, 64}"
    and s: "cfb_q s = q" "cfb_used_gamma_len s = block_bytes v"
    using assms by (auto simp: cfb_new_def split: if_splits)
  have "block_bytes v mod q = 0" using q by (cases v) auto
  with q s show "cfb_inv v s" "cfb_used_gamma_len s mod cfb_q s = 0" by (simp_all add: cfb_inv_def)
qed

lemma aligned_offset:
  assumes "0 < q" "(bl :: nat) mod q = 0" "bl - q \<le> u" "u \<le> bl" "u mod q = 0" "q \<le> bl"
  shows "u = bl \<or> u = bl - q"
proof -
  obtain m where m: "bl = q * m" using assms(2) by auto
  obtain n where n: "u = q * n" using assms(5) by auto
  have "n \<le> m" using assms m n by simp
  moreover have "q * (m - 1) \<le> q * n" using assms(3) m n by (simp add: diff_mult_distrib2)
  then have "m - 1 \<le> n" using assms(1) by simp
  ultimately have "n = m \<or> n = m - 1" by linarith
  then show ?thesis using m n by (auto simp: diff_mult_distrib2)
qed

lemma cfb_head_skip:
  "q \<le> offset \<Longrightarrow> cfb_encrypt_head q gamma feed offset buf = ([], feed, offset, buf)"
  "q \<le> offset \<Longrightarrow> cfb_decrypt_head q gamma feed offset buf = ([], feed, offset, buf)"
  by (cases buf; simp)+

lemma cfb_aligned_calls:
  assumes inv: "cfb_inv v s" and al: "cfb_used_gamma_len s mod cfb_q s = 0"
  defines "off \<equiv> block_bytes v - cfb_q s"
  shows "cfb_encrypt_in_place v s buf =
      (let (groups, gamma, feed, rest) = cfb_encrypt_groups (encrypt_block v (cfb_key s)) (cfb_q s) off
              (cfb_resume v s) (cfb_feed s) buf;
           (tail, feed, offset) = cfb_encrypt_tail (block_bytes v) gamma feed off rest
       in Inr (groups @ tail, s\<lparr>cfb_gamma := gamma, cfb_feed := feed, cfb_used_gamma_len := offset\<rparr>))"
    and "cfb_decrypt_in_place v s buf =
      (let (groups, gamma, feed, rest) = cfb_decrypt_groups (encrypt_block v (cfb_key s)) (cfb_q s) off
              (cfb_resume v s) (cfb_feed s) buf;
           (tail, feed, offset) = cfb_decrypt_tail (block_bytes v) gamma feed off rest
       in Inr (groups @ tail, s\<lparr>cfb_gamma := gamma, cfb_feed := feed, cfb_used_gamma_len := offset\<rparr>))"
proof -
  let ?q = "cfb_q s" and ?u = "cfb_used_gamma_len s"
  have q: "0 < ?q" "?q \<le> block_bytes v" "block_bytes v mod ?q = 0" "block_bytes v - ?q \<le> ?u" "?u \<le> block_bytes v"
    using inv by (auto simp: cfb_inv_def)
  have u: "?u = block_bytes v \<or> ?u = off"
    using aligned_offset [OF q(1,3,4,5) al q(2)] by (simp add: off_def)
  have "?u = 0 \<or> ?q \<le> ?u"
  proof (cases "?u = block_bytes v")
    case False
    show ?thesis using al q(1) by (metis mod_less not_less)
  qed (use q in simp)
  then have head: "?u \<noteq> 0 \<Longrightarrow> cfb_encrypt_head ?q (cfb_gamma s) (cfb_feed s) ?u buf = ([], cfb_feed s, ?u, buf)"
    "?u \<noteq> 0 \<Longrightarrow> cfb_decrypt_head ?q (cfb_gamma s) (cfb_feed s) ?u buf = ([], cfb_feed s, ?u, buf)"
    by (auto simp: cfb_head_skip)
  have "?u \<noteq> block_bytes v \<Longrightarrow> ?u = off" "block_bytes v \<noteq> 0" using u q by auto
  with al head show "cfb_encrypt_in_place v s buf =
      (let (groups, gamma, feed, rest) = cfb_encrypt_groups (encrypt_block v (cfb_key s)) (cfb_q s) off
              (cfb_resume v s) (cfb_feed s) buf;
           (tail, feed, offset) = cfb_encrypt_tail (block_bytes v) gamma feed off rest
       in Inr (groups @ tail, s\<lparr>cfb_gamma := gamma, cfb_feed := feed, cfb_used_gamma_len := offset\<rparr>))"
    "cfb_decrypt_in_place v s buf =
      (let (groups, gamma, feed, rest) = cfb_decrypt_groups (encrypt_block v (cfb_key s)) (cfb_q s) off
              (cfb_resume v s) (cfb_feed s) buf;
           (tail, feed, offset) = cfb_decrypt_tail (block_bytes v) gamma feed off rest
       in Inr (groups @ tail, s\<lparr>cfb_gamma := gamma, cfb_feed := feed, cfb_used_gamma_len := offset\<rparr>))"
    by (auto simp: cfb_encrypt_in_place_def cfb_decrypt_in_place_def cfb_resume_def Let_def off_def)
qed

section \<open>Laws of the loops\<close>

lemma cfb_groups_roundtrip:
  assumes "0 < q"
  shows "cfb_encrypt_groups enc q off gamma feed buf = (out, g, f, rest) \<Longrightarrow> length t = length rest \<Longrightarrow>
    \<exists>pt. cfb_decrypt_groups enc q off gamma feed (out @ t) = (pt, g, f, t) \<and> pt @ rest = buf \<and> length rest < q"
  using assms
proof (induction enc q off gamma feed buf arbitrary: out rule: cfb_encrypt_groups.induct)
  case (1 enc q off gamma feed buf)
  show ?case
  proof (cases "length buf < q")
    case True
    with 1 show ?thesis
      by (auto simp: cfb_encrypt_groups.simps [of enc q off gamma feed buf] cfb_decrypt_groups.simps)
  next
    case False
    let ?k = "slice off (off + q) gamma"
    let ?c = "xor_into (take q buf) ?k"
    let ?f = "write_at gamma off ?c"
    obtain out' where rec: "cfb_encrypt_groups enc q off (enc ?f) ?f (drop q buf) = (out', g, f, rest)"
      and out: "out = ?c @ out'"
      using 1(2) False 1(4)
      by (auto simp: cfb_encrypt_groups.simps [of enc q off gamma feed buf] Let_def case_prod_beta prod_eq_iff)
    obtain pt where IH: "cfb_decrypt_groups enc q off (enc ?f) ?f (out' @ t) = (pt, g, f, t)"
      "pt @ rest = drop q buf" "length rest < q"
      using 1(1) [OF _ refl refl refl rec] False 1(3,4) by auto
    have "length ?c = q" using False by simp
    with IH False 1(4) have "cfb_decrypt_groups enc q off gamma feed (out @ t) = (take q buf @ pt, g, f, t)"
      unfolding out by (subst cfb_decrypt_groups.simps) (simp add: Let_def)
    with IH show ?thesis by simp
  qed
qed

lemma cfb_tail_roundtrip:
  "cfb_encrypt_tail bl gamma feed off buf = (out, f, off') \<Longrightarrow>
   cfb_decrypt_tail bl gamma feed off out = (buf, f, off') \<and> length out = length buf \<and> off' = off + length buf"
proof (induction buf arbitrary: feed off out)
  case (Cons b bs)
  let ?c = "b XOR gamma ! (bl - length (b # bs))"
  obtain o2 where o2: "cfb_encrypt_tail bl gamma (feed[off := ?c]) (off + 1) bs = (o2, f, off')" "out = ?c # o2"
    using Cons.prems by (auto simp: Let_def case_prod_beta prod_eq_iff)
  from Cons.IH [OF o2(1)] o2(2) show ?case by (simp add: xor.assoc)
qed simp

lemma cfb_groups_append:
  assumes "0 < q"
  shows "length a mod q = 0 \<Longrightarrow> cfb_encrypt_groups enc q off gamma feed a = (oa, g, f, r) \<Longrightarrow>
    r = [] \<and> cfb_encrypt_groups enc q off gamma feed (a @ b) =
      (let (ob, g2, f2, r2) = cfb_encrypt_groups enc q off g f b in (oa @ ob, g2, f2, r2))"
  using assms
proof (induction enc q off gamma feed a arbitrary: oa rule: cfb_encrypt_groups.induct)
  case (1 enc q off gamma feed a)
  show ?case
  proof (cases "length a < q")
    case True
    with 1 have "a = []" by simp
    with 1 show ?thesis by (auto simp: cfb_encrypt_groups.simps [of enc q off gamma feed "[]"] Let_def)
  next
    case False
    let ?c = "xor_into (take q a) (slice off (off + q) gamma)"
    let ?f = "write_at gamma off ?c"
    obtain oa' where rec: "cfb_encrypt_groups enc q off (enc ?f) ?f (drop q a) = (oa', g, f, r)"
      and oa: "oa = ?c @ oa'"
      using 1(3) False 1(4)
      by (auto simp: cfb_encrypt_groups.simps [of enc q off gamma feed a] Let_def case_prod_beta prod_eq_iff)
    have "length (drop q a) mod q = 0" using 1(2) False by (simp add: le_mod_geq [symmetric])
    from 1(1) [OF _ refl refl refl this rec] False 1(4) oa show ?thesis
      by (simp add: cfb_encrypt_groups.simps [of enc q off gamma feed "a @ b"] Let_def case_prod_beta)
  qed
qed

lemma cfb_groups_rest_length:
  "0 < q \<Longrightarrow> length (snd (snd (snd (cfb_encrypt_groups enc q off gamma feed buf)))) = length buf mod q"
proof (induction enc q off gamma feed buf rule: cfb_encrypt_groups.induct)
  case (1 enc q off gamma feed buf)
  show ?case
  proof (cases "length buf < q")
    case False
    with 1 have "(length buf - q) mod q = length buf mod q" by (simp add: le_mod_geq)
    with False 1(1) [OF _ refl refl refl] 1(2) show ?thesis
      by (simp add: cfb_encrypt_groups.simps [of enc q off gamma feed buf] Let_def case_prod_beta)
  qed (simp add: cfb_encrypt_groups.simps)
qed

lemma cfb_after_encrypt:
  assumes "cfb_inv v s" "cfb_used_gamma_len s mod cfb_q s = 0" "cfb_encrypt_in_place v s a = Inr (ca, s1)"
  shows "cfb_inv v s1" "cfb_q s1 = cfb_q s" "cfb_used_gamma_len s1 mod cfb_q s = length a mod cfb_q s"
proof -
  let ?off = "block_bytes v - cfb_q s" and ?enc = "encrypt_block v (cfb_key s)"
  have q: "0 < cfb_q s" "cfb_q s \<le> block_bytes v" "block_bytes v mod cfb_q s = 0"
    using assms(1) by (simp_all add: cfb_inv_def)
  obtain out g f r where
    grp: "cfb_encrypt_groups ?enc (cfb_q s) ?off (cfb_resume v s) (cfb_feed s) a = (out, g, f, r)"
    by (metis prod_cases4)
  obtain t f' off' where tail: "cfb_encrypt_tail (block_bytes v) g f ?off r = (t, f', off')"
    by (metis prod_cases3)
  have r: "length r = length a mod cfb_q s"
    using cfb_groups_rest_length [OF q(1), of ?enc ?off "cfb_resume v s" "cfb_feed s" a] grp by simp
  then have "length r < cfb_q s" using q(1) by simp
  moreover have s1: "cfb_q s1 = cfb_q s" "cfb_used_gamma_len s1 = ?off + length r"
    using assms(3) grp tail cfb_tail_roundtrip [OF tail] by (auto simp: cfb_aligned_calls [OF assms(1,2)])
  ultimately have "block_bytes v - cfb_q s \<le> cfb_used_gamma_len s1" "cfb_used_gamma_len s1 \<le> block_bytes v"
    using q by linarith+
  then show "cfb_inv v s1" "cfb_q s1 = cfb_q s" using q s1(1) by (simp_all add: cfb_inv_def)
  have "?off mod cfb_q s = 0" using q by (simp add: le_mod_geq [symmetric])
  then show "cfb_used_gamma_len s1 mod cfb_q s = length a mod cfb_q s"
    unfolding s1 r by (metis add_0 mod_add_eq mod_mod_trivial)
qed

lemma cfb_chunks:
  assumes "cfb_inv v s" "cfb_used_gamma_len s mod cfb_q s = 0" "cfb_encrypt_in_place v s a = Inr (ca, s1)"
    and "length a mod cfb_q s = 0"
  shows "\<exists>cb s2. cfb_encrypt_in_place v s1 b = Inr (cb, s2) \<and> cfb_encrypt_in_place v s (a @ b) = Inr (ca @ cb, s2)"
proof -
  let ?off = "block_bytes v - cfb_q s" and ?enc = "encrypt_block v (cfb_key s)"
  note after = cfb_after_encrypt [OF assms(1-3)]
  have q: "0 < cfb_q s" "cfb_q s \<le> block_bytes v" using assms(1) by (simp_all add: cfb_inv_def)
  obtain out g f r where
    grp: "cfb_encrypt_groups ?enc (cfb_q s) ?off (cfb_resume v s) (cfb_feed s) a = (out, g, f, r)"
    by (metis prod_cases4)
  note app = cfb_groups_append [OF q(1) assms(4) grp, of b]
  have s1: "s1 = s\<lparr>cfb_gamma := g, cfb_feed := f, cfb_used_gamma_len := ?off\<rparr>" "ca = out"
    using assms(3) grp app by (simp_all add: cfb_aligned_calls [OF assms(1,2)])
  have "?off \<noteq> block_bytes v" using q by linarith
  then have "cfb_resume v s1 = g" by (simp add: s1 cfb_resume_def)
  moreover have "cfb_used_gamma_len s1 mod cfb_q s1 = 0" using after assms(4) by simp
  note cfb_aligned_calls(1) [OF after(1) this, of b]
  ultimately show ?thesis
    using app by (simp add: cfb_aligned_calls [OF assms(1,2)] s1 Let_def case_prod_beta)
qed

lemma cfb_new_total:
  "length key = key_bytes v \<Longrightarrow> q \<in> set [1, 8, 16] \<Longrightarrow> \<exists>s. cfb_new v key iv q = Some (Inr s)"
  using expanded_key_new_total [of key v] by (cases v) (auto simp: cfb_new_def)

section \<open>Properties\<close>

text \<open>A fresh CFB instance of any admitted feedback width encrypts a buffer of any length,
  decryption from the same start gives it back, and the two sides end in the same state.\<close>

theorem cfb_roundtrip:
  assumes "cfb_new v key iv q = Some (Inr s)"
  shows "\<exists>ct s'. cfb_encrypt_in_place v s buf = Inr (ct, s') \<and> cfb_decrypt_in_place v s ct = Inr (buf, s')"
proof -
  note inv = cfb_new_inv [OF assms]
  let ?off = "block_bytes v - cfb_q s" and ?enc = "encrypt_block v (cfb_key s)"
  have q: "0 < cfb_q s" using inv(1) by (simp add: cfb_inv_def)
  obtain out g f rest where
    grp: "cfb_encrypt_groups ?enc (cfb_q s) ?off (cfb_resume v s) (cfb_feed s) buf = (out, g, f, rest)"
    by (metis prod_cases4)
  obtain t f' off' where tail: "cfb_encrypt_tail (block_bytes v) g f ?off rest = (t, f', off')"
    by (metis prod_cases3)
  note dt = cfb_tail_roundtrip [OF tail]
  obtain pt where "cfb_decrypt_groups ?enc (cfb_q s) ?off (cfb_resume v s) (cfb_feed s) (out @ t) = (pt, g, f, t)"
    "pt @ rest = buf" using cfb_groups_roundtrip [OF q grp, of t] dt by auto
  with grp tail dt show ?thesis by (simp add: cfb_aligned_calls [OF inv])
qed

theorem cfb_roundtrip_witness:
  "\<exists>s. cfb_new Kalyna256_256 (replicate 32 1) (replicate 32 2) 8 = Some (Inr s) \<and>
    (\<exists>ct s'. cfb_encrypt_in_place Kalyna256_256 s (replicate 21 3) = Inr (ct, s') \<and>
      cfb_decrypt_in_place Kalyna256_256 s ct = Inr (replicate 21 3, s'))"
  using cfb_new_total [of "replicate 32 1" Kalyna256_256 8 "replicate 32 2"] cfb_roundtrip by fastforce

text \<open>A call of a length that is a multiple of \<open>q\<close> can be followed by another, and the two
  together equal one call over the whole buffer; after any other length the next call is
  refused.\<close>

theorem cfb_chunk_invariance:
  assumes "cfb_new v key iv q = Some (Inr s)" "cfb_encrypt_in_place v s a = Inr (ca, s1)"
  shows "if length a mod q = 0
    then \<exists>cb s2. cfb_encrypt_in_place v s1 b = Inr (cb, s2) \<and> cfb_encrypt_in_place v s (a @ b) = Inr (ca @ cb, s2)
    else cfb_encrypt_in_place v s1 b = Inl NonAlignedIntermediateCall"
proof -
  note inv = cfb_new_inv [OF assms(1)]
  have q: "cfb_q s = q" using assms(1) by (auto simp: cfb_new_def split: if_splits)
  show ?thesis
  proof (cases "length a mod q = 0")
    case True
    then show ?thesis using cfb_chunks [OF inv assms(2)] q by simp
  next
    case False
    then show ?thesis
      using cfb_after_encrypt [OF inv assms(2)] q by (simp add: cfb_encrypt_in_place_def)
  qed
qed

theorem cfb_chunk_invariance_witness:
  "\<exists>s ca s1. cfb_new Kalyna128_128 (replicate 16 1) (replicate 16 2) 8 = Some (Inr s) \<and>
    cfb_encrypt_in_place Kalyna128_128 s [1, 2, 3] = Inr (ca, s1) \<and>
    cfb_encrypt_in_place Kalyna128_128 s1 [4] = Inl NonAlignedIntermediateCall"
proof -
  obtain s where s: "cfb_new Kalyna128_128 (replicate 16 1) (replicate 16 2) 8 = Some (Inr s)"
    using cfb_new_total [of "replicate 16 1" Kalyna128_128 8] by auto
  obtain ca s1 where 1: "cfb_encrypt_in_place Kalyna128_128 s [1, 2, 3] = Inr (ca, s1)"
    using cfb_aligned_calls(1) [OF cfb_new_inv [OF s], of "[1, 2, 3]"] by (auto simp: Let_def case_prod_beta)
  from s 1 cfb_chunk_invariance [OF s 1, of "[4]"] show ?thesis by auto
qed

end
