(* ===== verification/Kalyna_Cmac.thy ===== *)
theory Kalyna_Cmac
  imports Kalyna
begin

text \<open>
  \<open>crates/dstu-core/src/hazmat/kalyna_cmac.rs\<close>: the block-cipher MAC, a CBC chain over all blocks
  but the last and a final block masked with \<open>E_K(0)\<close> or \<open>E_K(1)\<close>. The theory proves what
  \<open>verify\<close> accepts, and the structural property the module documents: after one zero block the
  mask cancels, so the MAC answers with a raw block encryption.
\<close>

datatype cmac_error = EmptyMessage | TagMismatch

definition cmac_mac_with_cipher :: "kalyna_variant \<Rightarrow> expanded_key \<Rightarrow> bytes \<Rightarrow> cmac_error + bytes" where
  "cmac_mac_with_cipher v cipher message =
     (if message = [] then Inl EmptyMessage
      else let bl = block_bytes v;
               len = length message;
               chain_len = (if len mod bl = 0 then len - bl else (len div bl) * bl);
               tail = drop chain_len message;
               state = foldl (\<lambda>state block. encrypt_block v cipher (xor_into state block)) (replicate bl 0)
                 (chunks_exact bl (take chain_len message));
               last_block = write_at (replicate bl 0) 0 tail;
               last_block = (if length tail mod bl \<noteq> 0 then last_block[length tail := 0x80] else last_block);
               rkey = (replicate bl 0)[0 := if length tail mod bl \<noteq> 0 then 1 else 0];
               rkey = encrypt_block v cipher rkey;
               state = xor_into state (xor_into last_block rkey)
           in Inr (take 16 (encrypt_block v cipher state)))"

definition cmac_mac :: "kalyna_variant \<Rightarrow> bytes \<Rightarrow> bytes \<Rightarrow> (cmac_error + bytes) option" where
  "cmac_mac v key message =
     map_option (\<lambda>cipher. cmac_mac_with_cipher v cipher message) (expanded_key_new v key)"

definition cmac_verify_with_cipher ::
  "kalyna_variant \<Rightarrow> expanded_key \<Rightarrow> bytes \<Rightarrow> bytes \<Rightarrow> cmac_error + unit" where
  "cmac_verify_with_cipher v cipher message expected =
     (case cmac_mac_with_cipher v cipher message of
        Inl e \<Rightarrow> Inl e
      | Inr tag \<Rightarrow> if tag = expected then Inr () else Inl TagMismatch)"

definition cmac_verify :: "kalyna_variant \<Rightarrow> bytes \<Rightarrow> bytes \<Rightarrow> bytes \<Rightarrow> (cmac_error + unit) option" where
  "cmac_verify v key message expected =
     map_option (\<lambda>cipher. cmac_verify_with_cipher v cipher message expected) (expanded_key_new v key)"

section \<open>Lemmas\<close>

lemma block_bytes_16: "16 \<le> block_bytes v"
  by (cases v) simp_all

lemma cmac_chain_length:
  assumes "valid_expanded_key v ek" "\<forall>b \<in> set bs. length b = block_bytes v" "length st = block_bytes v"
  shows "length (foldl (\<lambda>state block. encrypt_block v ek (xor_into state block)) st bs) = block_bytes v"
  using assms by (induction bs arbitrary: st) simp_all

lemma length_cmac:
  assumes "valid_expanded_key v ek" "cmac_mac_with_cipher v ek message = Inr tag"
  shows "length tag = 16"
  using assms(2) block_bytes_16 [of v] cmac_chain_length [OF assms(1) chunks_exact_lengths] assms(1)
  by (auto simp: cmac_mac_with_cipher_def Let_def split: if_splits)

lemma cmac_aligned:
  assumes "length (xs @ y) mod block_bytes v = 0" "length y = block_bytes v"
  shows "cmac_mac_with_cipher v ek (xs @ y) = Inr (take 16 (encrypt_block v ek (xor_into
    (foldl (\<lambda>state block. encrypt_block v ek (xor_into state block)) (replicate (block_bytes v) 0)
      (chunks_exact (block_bytes v) xs))
    (xor_into y (encrypt_block v ek (replicate (block_bytes v) 0))))))"
proof -
  have "xs @ y \<noteq> []" using assms(2) kalyna.bl_pos [of v] by auto
  moreover have "(replicate (block_bytes v) (0 :: u8))[0 := 0] = replicate (block_bytes v) 0"
    using list_update_id [of "replicate (block_bytes v) (0 :: u8)" 0] kalyna.bl_pos [of v] by simp
  moreover have "drop (length (xs @ y) - block_bytes v) (xs @ y) = y"
    "take (length (xs @ y) - block_bytes v) (xs @ y) = xs" "write_at (replicate (block_bytes v) 0) 0 y = y"
    "length y mod block_bytes v = 0" using assms(2) by (simp_all add: write_at_def)
  ultimately show ?thesis
    using assms(1) by (simp only: cmac_mac_with_cipher_def Let_def if_True if_False refl simp_thms)
qed

lemma cmac_zero_block:
  assumes "valid_expanded_key v ek" "length y = block_bytes v"
  shows "cmac_mac_with_cipher v ek (replicate (block_bytes v) 0 @ y) = Inr (take 16 (encrypt_block v ek y))"
proof -
  let ?z = "replicate (block_bytes v) (0 :: u8)"
  let ?m = "encrypt_block v ek ?z"
  have m: "length ?m = block_bytes v" using assms(1) by simp
  have "chunks_exact (block_bytes v) ?z = [?z]"
    using chunks_exact_append [of ?z "block_bytes v" "[]"] kalyna.bl_pos [of v] by simp
  moreover have "xor_into ?m (xor_into y ?m) = y"
    using assms(2) m by (simp add: xor_into_commute [of y ?m] xor_into_left_twice [where k = ?m])
  ultimately show ?thesis
    using assms(2) by (simp add: cmac_aligned xor_into_self)
qed

section \<open>Properties\<close>

text \<open>The documented weakness of the construction: the MAC of a zero block followed by a block
  \<open>Y\<close> is the first sixteen bytes of \<open>E_K(Y)\<close>.\<close>

theorem cmac_block_oracle:
  assumes "length key = key_bytes v" "length y = block_bytes v"
  shows "\<exists>ct. kalyna_encrypt v key y = Some ct \<and>
    cmac_mac v key (replicate (block_bytes v) 0 @ y) = Some (Inr (take 16 ct))"
proof -
  obtain ek where "expanded_key_new v key = Some ek" "valid_expanded_key v ek"
    using expanded_key_new_total [OF assms(1)] by auto
  then show ?thesis
    using assms(2) by (simp add: cmac_mac_def cmac_zero_block kalyna_oneshot)
qed

theorem cmac_block_oracle_witness:
  "\<exists>ct. kalyna_encrypt Kalyna256_512 (replicate 64 1) (replicate 32 2) = Some ct \<and>
    cmac_mac Kalyna256_512 (replicate 64 1) (replicate 32 0 @ replicate 32 2) = Some (Inr (take 16 ct))"
  using cmac_block_oracle [of "replicate 64 1" Kalyna256_512 "replicate 32 2"] by simp

text \<open>An empty message is an error of both operations; on any other message \<open>mac\<close> returns
  sixteen bytes and \<open>verify\<close> accepts that tag and no other.\<close>

theorem cmac_verify_exact:
  assumes "length key = key_bytes v"
  shows "if message = []
    then cmac_mac v key message = Some (Inl EmptyMessage) \<and>
      cmac_verify v key message expected = Some (Inl EmptyMessage)
    else \<exists>tag. cmac_mac v key message = Some (Inr tag) \<and> length tag = 16 \<and>
      cmac_verify v key message expected = Some (if expected = tag then Inr () else Inl TagMismatch)"
proof -
  obtain ek where ek: "expanded_key_new v key = Some ek" "valid_expanded_key v ek"
    using expanded_key_new_total [OF assms] by auto
  show ?thesis
  proof (cases "message = []")
    case True
    then have "cmac_mac_with_cipher v ek message = Inl EmptyMessage" by (simp add: cmac_mac_with_cipher_def)
    with True ek show ?thesis by (simp add: cmac_mac_def cmac_verify_def cmac_verify_with_cipher_def)
  next
    case False
    then obtain tag where tag: "cmac_mac_with_cipher v ek message = Inr tag"
      by (simp add: cmac_mac_with_cipher_def Let_def)
    with False ek length_cmac [OF ek(2) tag] show ?thesis
      by (simp add: cmac_mac_def cmac_verify_def cmac_verify_with_cipher_def eq_commute [of expected])
  qed
qed

theorem cmac_verify_exact_witness:
  "\<exists>tag. cmac_mac Kalyna128_128 (replicate 16 1) [1, 2, 3] = Some (Inr tag) \<and> length tag = 16 \<and>
    cmac_verify Kalyna128_128 (replicate 16 1) [1, 2, 3] (replicate 16 0) =
      Some (if replicate 16 0 = tag then Inr () else Inl TagMismatch)"
  using cmac_verify_exact [of "replicate 16 1" Kalyna128_128 "[1, 2, 3]" "replicate 16 0"] by simp

end
