(* ===== verification/Gf2_Poly.thy ===== *)
theory Gf2_Poly
  imports Dstu_Prelude
begin

text \<open>
  Polynomials over GF(2) as natural numbers, the reference the limb arithmetic of
  \<open>crates/dstu-core/src/hazmat/gf2m_wide.rs\<close> is measured against: carry-less multiplication,
  its ring laws, degrees, and congruence modulo a polynomial with the uniqueness of the
  reduced representative.
\<close>

section \<open>Carry-less multiplication\<close>

function clmul :: "nat \<Rightarrow> nat \<Rightarrow> nat" where
  "clmul a b = (if b = 0 then 0 else (if odd b then a else 0) XOR 2 * clmul a (b div 2))"
  by pat_completeness auto
termination
  by (relation "measure snd") auto

declare clmul.simps [simp del]

lemma clmul_0_right [simp]: "clmul a 0 = 0"
  by (simp add: clmul.simps)

lemma clmul_rec: "clmul a b = (if odd b then a else 0) XOR 2 * clmul a (b div 2)"
  by (cases "b = 0") (simp_all add: clmul.simps [of a b])

lemma xor_left_self [simp]: "x XOR (x XOR a) = (a :: nat)"
  by (simp add: xor.assoc [symmetric])

lemma xor_cancel_left: "(x XOR a) XOR (x XOR b) = a XOR (b :: nat)"
  by (metis xor.assoc xor.commute xor_left_self)

lemma double_xor: "2 * (x XOR y) = (2 * x) XOR (2 * y :: nat)"
  using push_bit_xor [of 1 x y] by (simp add: push_bit_eq_mult mult.commute)

lemma half_xor: "(x XOR y) div 2 = (x div 2) XOR (y div 2 :: nat)"
  using drop_bit_xor [of 1 x y] by (simp add: drop_bit_eq_div)

lemma odd_xor: "odd (x XOR y :: nat) \<longleftrightarrow> (odd x \<noteq> odd y)"
  by (simp add: even_xor_iff)

lemma clmul_0_left [simp]: "clmul 0 b = 0"
proof (induction b rule: less_induct)
  case (less b)
  then show ?case by (cases "b = 0") (simp_all add: clmul_rec [of 0 b])
qed

lemma clmul_one_right [simp]: "clmul a (Suc 0) = a"
  by (simp add: clmul.simps)

lemma clmul_xor_right: "clmul a (b XOR c) = clmul a b XOR clmul a c"
proof (induction "b + c" arbitrary: b c rule: less_induct)
  case less
  show ?case
  proof (cases "b = 0 \<and> c = 0")
    case False
    then have "b div 2 + c div 2 < b + c" by linarith
    then have "clmul a (b div 2 XOR c div 2) = clmul a (b div 2) XOR clmul a (c div 2)" by (rule less)
    then show ?thesis
      unfolding clmul_rec [of a "b XOR c"] clmul_rec [of a b] clmul_rec [of a c]
      by (simp add: half_xor odd_xor double_xor ac_simps)
  qed simp
qed

lemma clmul_xor_left: "clmul (a XOR b) c = clmul a c XOR clmul b c"
proof (induction c rule: less_induct)
  case (less c)
  show ?case
  proof (cases "c = 0")
    case False
    then have "clmul (a XOR b) (c div 2) = clmul a (c div 2) XOR clmul b (c div 2)" by (intro less) simp
    then show ?thesis
      unfolding clmul_rec [of "a XOR b" c] clmul_rec [of a c] clmul_rec [of b c]
      by (simp add: double_xor ac_simps)
  qed simp
qed

lemma clmul_double_right: "clmul a (2 * b) = 2 * clmul a b"
  unfolding clmul_rec [of a "2 * b"] by simp

lemma clmul_double_left: "clmul (2 * a) b = 2 * clmul a b"
proof (induction b rule: less_induct)
  case (less b)
  show ?case
  proof (cases "b = 0")
    case False
    then have "clmul (2 * a) (b div 2) = 2 * clmul a (b div 2)" by (intro less) simp
    then show ?thesis unfolding clmul_rec [of "2 * a" b] clmul_rec [of a b] by (simp add: double_xor)
  qed simp
qed

lemma nat_split_low: "(b :: nat) = (if odd b then 1 else 0) XOR 2 * (b div 2)"
proof (rule bit_eqI)
  fix n show "bit b n \<longleftrightarrow> bit ((if odd b then 1 else 0) XOR 2 * (b div 2)) n"
    by (cases n) (auto simp: bit_simps bit_0 bit_Suc even_xor_iff half_xor)
qed

lemma clmul_one_left [simp]: "clmul (Suc 0) b = b"
proof (induction b rule: less_induct)
  case (less b)
  show ?case
  proof (cases "b = 0")
    case False
    with less have "clmul (Suc 0) (b div 2) = b div 2" by simp
    then show ?thesis
      unfolding clmul_rec [of "Suc 0" b] using nat_split_low [of b] by (simp only: One_nat_def)
  qed simp
qed

lemma clmul_commute: "clmul a b = clmul b a"
proof (induction b rule: less_induct)
  case (less b)
  show ?case
  proof (cases "b = 0")
    case False
    then have IH: "clmul a (b div 2) = clmul (b div 2) a" by (intro less) simp
    have "clmul b a = clmul ((if odd b then 1 else 0) XOR 2 * (b div 2)) a"
      by (simp add: nat_split_low [of b, symmetric])
    then show ?thesis
      unfolding clmul_rec [of a b] IH by (simp add: clmul_xor_left clmul_double_left)
  qed simp
qed

lemma clmul_assoc: "clmul (clmul a b) c = clmul a (clmul b c)"
proof (induction c rule: less_induct)
  case (less c)
  show ?case
  proof (cases "c = 0")
    case False
    then have "clmul (clmul a b) (c div 2) = clmul a (clmul b (c div 2))" by (intro less) simp
    then show ?thesis
      unfolding clmul_rec [of "clmul a b" c] clmul_rec [of b c]
      by (simp add: clmul_xor_right clmul_double_right)
  qed simp
qed

lemma clmul_push_right: "clmul a (push_bit n b) = push_bit n (clmul a b)"
  by (induction n arbitrary: b) (simp_all add: clmul_double_right mult.commute [of _ 2])

lemma clmul_push_left: "clmul (push_bit n a) b = push_bit n (clmul a b)"
  by (metis clmul_commute clmul_push_right)

section \<open>Degrees\<close>

lemma xor_less_exp: "x < 2 ^ n \<Longrightarrow> y < 2 ^ n \<Longrightarrow> x XOR y < (2 ^ n :: nat)"
  by (metis take_bit_nat_eq_self_iff take_bit_xor)

lemma clmul_less: "a < 2 ^ m \<Longrightarrow> b < 2 ^ n \<Longrightarrow> clmul a b < 2 ^ (m + n)"
proof (induction n arbitrary: b)
  case (Suc n)
  then have "clmul a (b div 2) < 2 ^ (m + n)" by (intro Suc) (simp_all add: less_mult_imp_div_less)
  then have "2 * clmul a (b div 2) < 2 ^ (m + Suc n)" by simp
  moreover have "(if odd b then a else 0) < 2 ^ (m + Suc n)"
    using order_less_le_trans [OF Suc.prems(1) power_increasing [of m "m + Suc n"]] by simp
  ultimately show ?case by (subst clmul_rec) (rule xor_less_exp)
qed simp

text \<open>\<open>has_degree a d\<close>: the polynomial \<open>a\<close> has degree \<open>d\<close>.\<close>

definition has_degree :: "nat \<Rightarrow> nat \<Rightarrow> bool" where
  "has_degree a d \<longleftrightarrow> 2 ^ d \<le> a \<and> a < 2 ^ Suc d"

lemma has_degree_exists: "a \<noteq> 0 \<Longrightarrow> \<exists>d. has_degree a d"
proof (induction a rule: less_induct)
  case (less a)
  show ?case
  proof (cases "a = 1")
    case True
    then have "has_degree a 0" by (simp add: has_degree_def)
    then show ?thesis ..
  next
    case False
    with less.prems have "a div 2 < a" "a div 2 \<noteq> 0" by auto
    with less obtain d where "has_degree (a div 2) d" by blast
    then have "has_degree a (Suc d)" by (auto simp: has_degree_def)
    then show ?thesis ..
  qed
qed

lemma has_degree_add: "x < 2 ^ d \<Longrightarrow> has_degree y d \<Longrightarrow> has_degree (x XOR y) d"
proof -
  assume x: "x < 2 ^ d" and y: "has_degree y d"
  have "drop_bit d x = 0" using x by (simp add: drop_bit_eq_div)
  then have "drop_bit d (x XOR y) = drop_bit d y" by (simp add: drop_bit_xor)
  moreover have "drop_bit d y = 1" using y by (auto simp: has_degree_def drop_bit_eq_div intro: div_nat_eqI)
  ultimately have "(x XOR y) div 2 ^ d = 1" by (simp add: drop_bit_eq_div)
  then have "2 ^ d \<le> x XOR y" by (metis div_less not_less zero_neq_one)
  moreover have "x XOR y < 2 ^ Suc d" using x y by (intro xor_less_exp) (simp_all add: has_degree_def)
  ultimately show "has_degree (x XOR y) d" by (simp add: has_degree_def)
qed

lemma clmul_has_degree: "has_degree a m \<Longrightarrow> has_degree b n \<Longrightarrow> has_degree (clmul a b) (m + n)"
proof (induction n arbitrary: b)
  case 0
  then have "b = 1" by (simp add: has_degree_def)
  with 0 show ?case by simp
next
  case (Suc n)
  then have "has_degree (b div 2) n" by (auto simp: has_degree_def)
  with Suc have "has_degree (clmul a (b div 2)) (m + n)" by blast
  then have "has_degree (2 * clmul a (b div 2)) (m + Suc n)" by (auto simp: has_degree_def)
  moreover have "a < 2 ^ (m + Suc n)"
    using Suc.prems(1) by (auto simp: has_degree_def intro: less_le_trans)
  ultimately show ?case
    unfolding clmul_rec [of a b] using has_degree_add [of "if odd b then a else 0"] by simp
qed

section \<open>Congruence modulo a polynomial\<close>

definition pcong :: "nat \<Rightarrow> nat \<Rightarrow> nat \<Rightarrow> bool" where
  "pcong f a b \<longleftrightarrow> (\<exists>q. a XOR b = clmul q f)"

lemma pcong_refl [simp]: "pcong f a a"
  unfolding pcong_def by (rule exI [of _ 0]) simp

lemma pcong_sym: "pcong f a b \<Longrightarrow> pcong f b a"
  unfolding pcong_def by (simp add: xor.commute)

lemma pcong_trans: "pcong f a b \<Longrightarrow> pcong f b c \<Longrightarrow> pcong f a c"
  unfolding pcong_def
proof (elim exE)
  fix q r assume "a XOR b = clmul q f" "b XOR c = clmul r f"
  then have "(a XOR b) XOR (b XOR c) = clmul (q XOR r) f" by (simp add: clmul_xor_left)
  moreover have "(a XOR b) XOR (b XOR c) = a XOR c"
    by (metis xor.assoc xor_self_eq xor.right_neutral)
  ultimately show "\<exists>q. a XOR c = clmul q f" by metis
qed

lemma pcong_xor: "pcong f a b \<Longrightarrow> pcong f c d \<Longrightarrow> pcong f (a XOR c) (b XOR d)"
  unfolding pcong_def
proof (elim exE)
  fix q r assume "a XOR b = clmul q f" "c XOR d = clmul r f"
  then have "(a XOR b) XOR (c XOR d) = clmul (q XOR r) f" by (simp add: clmul_xor_left)
  then show "\<exists>q. (a XOR c) XOR (b XOR d) = clmul q f" by (metis xor.assoc xor.commute)
qed

lemma pcong_clmul: "pcong f a b \<Longrightarrow> pcong f (clmul a c) (clmul b c)"
  unfolding pcong_def
proof (elim exE)
  fix q assume "a XOR b = clmul q f"
  then have "clmul a c XOR clmul b c = clmul (clmul q c) f"
    by (metis clmul_assoc clmul_commute clmul_xor_left)
  then show "\<exists>q. clmul a c XOR clmul b c = clmul q f" ..
qed

lemma pcong_unique:
  assumes "has_degree f m" "a < 2 ^ m" "b < 2 ^ m" "pcong f a b"
  shows "a = b"
proof -
  obtain q where q: "a XOR b = clmul q f" using assms(4) by (auto simp: pcong_def)
  have "q = 0"
  proof (rule ccontr)
    assume "q \<noteq> 0"
    then obtain d where "has_degree q d" using has_degree_exists by blast
    then have "has_degree (a XOR b) (d + m)" using q assms(1) clmul_has_degree by simp
    then have "2 ^ m \<le> a XOR b" by (auto simp: has_degree_def power_add intro: order_trans [rotated])
    with xor_less_exp [OF assms(2,3)] show False by simp
  qed
  with q have "a XOR b = 0" by simp
  then show ?thesis by (metis xor.assoc xor.left_neutral xor_self_eq)
qed

end
