(* ===== verification/Gf2m_Wide.thy ===== *)
theory Gf2m_Wide
  imports Gf2_Poly
begin

text \<open>
  \<open>crates/dstu-core/src/hazmat/gf2m_wide.rs\<close>: the three binary fields of the authenticated and
  tweaked modes, as arrays of 64-bit limbs, little-endian. The limb routines are proved against
  polynomials over GF(2): the masked four-bit window multiplies, the word-wise reduction and the
  bit-serial one it replaced give the same unique remainder, and the doubling shortcut is the
  product by \<open>x\<close>. The carry-less multiply instruction is a parameter, and both dispatch paths of
  \<open>multiply\<close> agree for every instruction that multiplies.
\<close>

section \<open>Definitions\<close>

datatype gf_field = Gf2m128 | Gf2m256 | Gf2m512

fun gf_limbs :: "gf_field \<Rightarrow> nat" where
  "gf_limbs Gf2m128 = 2" | "gf_limbs Gf2m256 = 4" | "gf_limbs Gf2m512 = 8"

fun gf_m :: "gf_field \<Rightarrow> nat" where
  "gf_m Gf2m128 = 128" | "gf_m Gf2m256 = 256" | "gf_m Gf2m512 = 512"

fun gf_terms :: "gf_field \<Rightarrow> nat list" where
  "gf_terms Gf2m128 = [7, 2, 1]" | "gf_terms Gf2m256 = [10, 5, 2]" | "gf_terms Gf2m512 = [8, 5, 2]"

definition gf_from_le_bytes :: "gf_field \<Rightarrow> bytes \<Rightarrow> u64 list" where
  "gf_from_le_bytes F bs = map (\<lambda>i. from_le_bytes (slice (i * 8) (i * 8 + 8) bs)) [0..<gf_limbs F]"

definition gf_to_le_bytes :: "gf_field \<Rightarrow> u64 list \<Rightarrow> bytes" where
  "gf_to_le_bytes F self = concat (map (to_le_bytes 8) self)"

definition gf_add :: "gf_field \<Rightarrow> u64 list \<Rightarrow> u64 list \<Rightarrow> u64 list" where
  "gf_add F self other = map (\<lambda>i. self ! i XOR other ! i) [0..<gf_limbs F]"

text \<open>The carry loop of \<open>shl1\<close>, \<open>shl4\<close> and \<open>double\<close>, for a shift by \<open>k\<close> bits.\<close>

fun shl_limbs :: "nat \<Rightarrow> u64 \<Rightarrow> u64 list \<Rightarrow> u64 list" where
  "shl_limbs k carry [] = []"
| "shl_limbs k carry (limb # limbs) = (push_bit k limb OR carry) # shl_limbs k (drop_bit (64 - k) limb) limbs"

definition shl1 :: "u64 list \<Rightarrow> u64 list" where "shl1 x = shl_limbs 1 0 x"

definition shl4 :: "u64 list \<Rightarrow> u64 list" where "shl4 x = shl_limbs 4 0 x"

definition xor_masked :: "gf_field \<Rightarrow> u64 list \<Rightarrow> u64 list \<Rightarrow> u64 \<Rightarrow> u64 list" where
  "xor_masked F acc row msk =
     map2 (\<lambda>acc_w row_w. acc_w XOR (row_w AND msk)) (take (gf_limbs F + 1) acc) row
       @ drop (gf_limbs F + 1) acc"

definition window_rows :: "gf_field \<Rightarrow> u64 list \<Rightarrow> u64 list list" where
  "window_rows F a =
     (let r0 = a @ replicate (gf_limbs F) 0; r1 = shl1 r0; r2 = shl1 r1; r3 = shl1 r2 in [r0, r1, r2, r3])"

definition window_step :: "gf_field \<Rightarrow> u64 list list \<Rightarrow> u64 list \<times> u64 \<Rightarrow> u64 list \<times> u64" where
  "window_step F rows = (\<lambda>(acc, w).
     let acc = shl4 acc;
         masks = map (\<lambda>s. 0 - (drop_bit s w AND 1)) [60, 61, 62, 63];
         acc = fold (\<lambda>(row, msk) acc. xor_masked F acc row msk) (zip rows masks) acc
     in (acc, push_bit 4 w))"

definition poly_mul_wide :: "gf_field \<Rightarrow> u64 list \<Rightarrow> u64 list \<Rightarrow> u64 list" where
  "poly_mul_wide F a b =
     (let rows = window_rows F a
      in fold (\<lambda>word acc. fst ((window_step F rows ^^ 16) (acc, word))) (rev b)
           (replicate (2 * gf_limbs F) 0))"

text \<open>The instruction path: \<open>clm\<close> is the 64-by-64-bit carry-less multiply of the processor, low
  word first.\<close>

definition hw_step ::
  "(u64 \<Rightarrow> u64 \<Rightarrow> u64 \<times> u64) \<Rightarrow> u64 list \<Rightarrow> u64 list \<Rightarrow> nat \<times> nat \<Rightarrow> u64 list \<Rightarrow> u64 list" where
  "hw_step clm a b = (\<lambda>(i, j) out.
     let (lo, hi) = clm (a ! i) (b ! j); out = out[i + j := out ! (i + j) XOR lo]
     in out[i + j + 1 := out ! (i + j + 1) XOR hi])"

definition poly_mul_wide_hw :: "(u64 \<Rightarrow> u64 \<Rightarrow> u64 \<times> u64) \<Rightarrow> gf_field \<Rightarrow> u64 list \<Rightarrow> u64 list \<Rightarrow> u64 list" where
  "poly_mul_wide_hw clm F a b =
     fold (hw_step clm a b)
       (List.product [0..<gf_limbs F] [0..<gf_limbs F]) (replicate (2 * gf_limbs F) 0)"

definition reduce_shift :: "u64 \<Rightarrow> nat \<Rightarrow> nat \<Rightarrow> u64 list \<Rightarrow> u64 list" where
  "reduce_shift t base shift c =
     (let c = c[base := c ! base XOR push_bit shift t]
      in c[base + 1 := c ! (base + 1) XOR drop_bit (64 - shift) t])"

definition reduce_word :: "gf_field \<Rightarrow> nat \<Rightarrow> u64 list \<Rightarrow> u64 list" where
  "reduce_word F i c =
     (let t = c ! i; base = i - gf_limbs F; c = c[base := c ! base XOR t]
      in fold (reduce_shift t base) (gf_terms F) c)"

definition reduce :: "gf_field \<Rightarrow> u64 list \<Rightarrow> u64 list" where
  "reduce F c = take (gf_limbs F) (fold (reduce_word F) (rev [gf_limbs F..<2 * gf_limbs F]) c)"

definition flip_bit_at :: "nat \<Rightarrow> u64 list \<Rightarrow> u64 list" where
  "flip_bit_at d c = c[d div 64 := c ! (d div 64) XOR push_bit (d mod 64) 1]"

definition reduce_degree :: "gf_field \<Rightarrow> nat \<Rightarrow> u64 list \<Rightarrow> u64 list" where
  "reduce_degree F degree c =
     (if drop_bit (degree mod 64) (c ! (degree div 64)) AND 1 = 1 then
        (let c = flip_bit_at degree c; shift = degree - gf_m F
         in fold (\<lambda>term. flip_bit_at (shift + term)) (gf_terms F @ [0]) c)
      else c)"

definition reduce_bit_serial_reference :: "gf_field \<Rightarrow> u64 list \<Rightarrow> u64 list" where
  "reduce_bit_serial_reference F c =
     take (gf_limbs F) (fold (reduce_degree F) (rev [gf_m F..<2 * gf_limbs F * 64]) c)"

text \<open>\<open>hw\<close> is the instruction when \<open>feature_available\<close> finds it.\<close>

definition gf_multiply ::
  "(u64 \<Rightarrow> u64 \<Rightarrow> u64 \<times> u64) option \<Rightarrow> gf_field \<Rightarrow> u64 list \<Rightarrow> u64 list \<Rightarrow> u64 list" where
  "gf_multiply hw F self other =
     (case hw of
        Some clm \<Rightarrow> reduce F (poly_mul_wide_hw clm F self other)
      | None \<Rightarrow> reduce F (poly_mul_wide F self other))"

definition double_term :: "u64 \<Rightarrow> nat \<Rightarrow> u64 list \<Rightarrow> u64 list" where
  "double_term msk t out = out[t div 64 := out ! (t div 64) XOR (msk AND push_bit (t mod 64) 1)]"

definition gf_double :: "gf_field \<Rightarrow> u64 list \<Rightarrow> u64 list" where
  "gf_double F self =
     (let top_bit = drop_bit 63 (self ! (gf_limbs F - 1)) AND 1;
          out = shl_limbs 1 0 self;
          msk = 0 - top_bit;
          out = out[0 := out ! 0 XOR (msk AND 1)]
      in fold (double_term msk) (gf_terms F) out)"

section \<open>Limb values\<close>

fun lv :: "u64 list \<Rightarrow> nat" where
  "lv [] = 0"
| "lv (w # ws) = unat w + 2 ^ 64 * lv ws"

lemma bit_lv_0: "n < 64 \<Longrightarrow> bit (lv (w # ws)) n = bit w n"
  and bit_lv_Suc: "64 \<le> n \<Longrightarrow> bit (lv (w # ws)) n = bit (lv ws) (n - 64)"
proof -
  have "unat w + push_bit 64 (lv ws) = unat w OR push_bit 64 (lv ws)"
    by (rule disjunctive_add) (auto simp: bit_simps dest: bit_imp_le_length)
  then have split: "lv (w # ws) = unat w OR push_bit 64 (lv ws)"
    by (simp add: push_bit_eq_mult mult.commute)
  show "bit (lv (w # ws)) n = bit w n" if "n < 64" using that unfolding split by (simp add: bit_simps)
  show "bit (lv (w # ws)) n = bit (lv ws) (n - 64)" if "64 \<le> n"
    using that unfolding split by (auto simp: bit_simps dest: bit_imp_le_length)
qed

lemma bit_lv: "bit (lv ws) n \<longleftrightarrow> n div 64 < length ws \<and> bit (ws ! (n div 64)) (n mod 64)"
proof (induction ws arbitrary: n)
  case (Cons w ws)
  show ?case
  proof (cases "n < 64")
    case False
    then have "n div 64 = Suc ((n - 64) div 64)" "n mod 64 = (n - 64) mod 64"
      by (simp_all add: le_div_geq le_mod_geq)
    with False show ?thesis by (simp add: bit_lv_Suc Cons.IH del: lv.simps)
  qed (simp add: bit_lv_0 del: lv.simps)
qed simp

declare lv.simps [simp del]

lemma lv_less: "lv ws < 2 ^ (64 * length ws)"
proof (induction ws)
  case (Cons w ws)
  have "lv (w # ws) < 2 ^ 64 * (1 + lv ws)" using unsigned_less [of w] by (simp add: lv.simps)
  also have "\<dots> \<le> 2 ^ 64 * 2 ^ (64 * length ws)" using Cons by simp
  also have "\<dots> = 2 ^ (64 * length (w # ws))" by (simp only: power_add [symmetric]) simp
  finally show ?case .
qed (simp add: lv.simps)

lemma lv_inject: "length a = length b \<Longrightarrow> lv a = lv b \<longleftrightarrow> a = b"
proof (rule iffI)
  assume len: "length a = length b" and eq: "lv a = lv b"
  show "a = b"
  proof (rule nth_equalityI)
    fix i assume i: "i < length a"
    show "a ! i = b ! i"
    proof (rule bit_word_eqI)
      fix n assume "n < LENGTH(64)"
      then have "(64 * i + n) div 64 = i" "(64 * i + n) mod 64 = n" by simp_all
      with arg_cong [OF eq, of "\<lambda>x. bit x (64 * i + n)"] i len show "bit (a ! i) n = bit (b ! i) n"
        by (simp add: bit_lv)
    qed
  qed (rule len)
qed simp

lemma lv_replicate_0 [simp]: "lv (replicate n 0) = 0"
  by (induction n) (simp_all add: lv.simps)

lemma lv_append: "lv (a @ b) = lv a + 2 ^ (64 * length a) * lv b"
  by (induction a) (simp_all add: lv.simps power_add algebra_simps)

lemma lv_append_xor: "lv (a @ b) = lv a XOR push_bit (64 * length a) (lv b)"
proof (rule bit_eqI)
  fix n
  show "bit (lv (a @ b)) n \<longleftrightarrow> bit (lv a XOR push_bit (64 * length a) (lv b)) n"
  proof (cases "n < 64 * length a")
    case True
    then have "n div 64 < length a" by (simp add: div_less_iff_less_mult mult.commute)
    with True show ?thesis by (simp add: bit_lv bit_simps nth_append)
  next
    case False
    then obtain d where d: "n = 64 * length a + d" by (metis le_Suc_ex not_less)
    have "n div 64 = length a + d div 64" "n mod 64 = d mod 64" unfolding d by simp_all
    with d show ?thesis by (simp add: bit_lv bit_simps nth_append)
  qed
qed

lemma lv_update_xor:
  assumes "j < length c"
  shows "lv (c[j := c ! j XOR w]) = lv c XOR push_bit (64 * j) (unat w)"
proof -
  have c: "c = take j c @ c ! j # drop (Suc j) c" using assms by (simp add: id_take_nth_drop)
  have "lv (c[j := c ! j XOR w]) = lv (take j c @ (c ! j XOR w) # drop (Suc j) c)"
    using assms by (simp add: upd_conv_take_nth_drop)
  moreover have "lv ((x XOR w) # ws) = lv (x # ws) XOR unat w" for x ws
  proof (rule bit_eqI)
    fix n show "bit (lv ((x XOR w) # ws)) n \<longleftrightarrow> bit (lv (x # ws) XOR unat w) n"
      by (cases "n < 64") (auto simp: bit_lv_0 bit_lv_Suc bit_simps dest: bit_imp_le_length)
  qed
  ultimately have "lv (c[j := c ! j XOR w]) =
      lv (take j c) XOR push_bit (64 * j) (lv (c ! j # drop (Suc j) c) XOR unat w)"
    using assms by (simp add: lv_append_xor)
  also have "\<dots> = lv (take j c @ c ! j # drop (Suc j) c) XOR push_bit (64 * j) (unat w)"
    using assms by (simp add: lv_append_xor push_bit_xor xor.assoc)
  finally show ?thesis using c by simp
qed

section \<open>Shifts and masked addition\<close>

lemma length_shl_limbs [simp]: "length (shl_limbs k c ws) = length ws"
  by (induction ws arbitrary: c) simp_all

lemma shl_limbs_nth:
  "i < length ws \<Longrightarrow> shl_limbs k c ws ! i =
     push_bit k (ws ! i) OR (if i = 0 then c else drop_bit (64 - k) (ws ! (i - 1)))"
proof (induction ws arbitrary: c i)
  case (Cons w ws)
  show ?case
  proof (cases i)
    case (Suc i')
    with Cons show ?thesis by (cases i') simp_all
  qed simp
qed simp

lemma lv_shl_limbs:
  assumes "k \<le> 64"
  shows "lv (shl_limbs k 0 ws) = take_bit (64 * length ws) (push_bit k (lv ws))"
proof (rule bit_eqI)
  fix n :: nat
  define i j where "i = n div 64" and "j = n mod 64"
  have n: "n = 64 * i + j" "j < 64" by (simp_all add: i_def j_def)
  have len: "n < 64 * length ws \<longleftrightarrow> i < length ws"
    by (simp add: i_def div_less_iff_less_mult mult.commute)
  have lhs: "bit (lv (shl_limbs k 0 ws)) n \<longleftrightarrow> i < length ws \<and>
      (k \<le> j \<and> bit (ws ! i) (j - k) \<or> 0 < i \<and> bit (ws ! (i - 1)) (64 - k + j))"
  proof -
    have "bit (lv (shl_limbs k 0 ws)) n \<longleftrightarrow> i < length ws \<and> bit (shl_limbs k 0 ws ! i) j"
      by (simp add: bit_lv i_def j_def)
    then show ?thesis
      using n(2) by (cases "i = 0") (auto simp: shl_limbs_nth bit_or_iff bit_push_bit_iff bit_drop_bit_eq)
  qed
  show "bit (lv (shl_limbs k 0 ws)) n \<longleftrightarrow> bit (take_bit (64 * length ws) (push_bit k (lv ws))) n"
  proof (cases "k \<le> j")
    case True
    have "n - k = 64 * i + (j - k)" "j - k < 64" "k \<le> n" using n True by linarith+
    then have nk: "(n - k) div 64 = i" "(n - k) mod 64 = j - k" "k \<le> n" by simp_all
    have "\<not> bit (ws ! (i - 1)) (64 - k + j)" using True assms by (auto dest: bit_imp_le_length)
    with True nk show ?thesis unfolding lhs by (auto simp: bit_take_bit_iff bit_push_bit_iff bit_lv len)
  next
    case False
    show ?thesis
    proof (cases i)
      case 0
      then show ?thesis unfolding lhs using False n by (simp add: bit_take_bit_iff bit_push_bit_iff)
    next
      case (Suc i')
      have "n - k = 64 * i' + (64 - k + j)" "64 - k + j < 64" "k \<le> n" using n False assms Suc by linarith+
      then have nk: "(n - k) div 64 = i'" "(n - k) mod 64 = 64 - k + j" "k \<le> n" by simp_all
      with False Suc show ?thesis unfolding lhs
        by (auto simp: bit_take_bit_iff bit_push_bit_iff bit_lv len)
    qed
  qed
qed

lemma lv_shl_exact:
  "k \<le> 64 \<Longrightarrow> push_bit k (lv ws) < 2 ^ (64 * length ws) \<Longrightarrow> lv (shl_limbs k 0 ws) = push_bit k (lv ws)"
  by (simp add: lv_shl_limbs take_bit_nat_eq_self_iff)

lemma lv_map2_xor: "length a = length b \<Longrightarrow> lv (map2 (XOR) a b) = lv a XOR lv b"
  by (rule bit_eqI) (auto simp: bit_lv bit_simps)

lemma bit_mask: "- (drop_bit s w AND 1 :: u64) = (if bit w s then - 1 else 0)"
proof -
  have "drop_bit s w AND 1 = (if bit w s then 1 else 0 :: u64)"
    by (auto simp: and_one_eq mod_2_eq_odd bit_iff_odd_drop_bit)
  then show ?thesis by simp
qed

lemma lv_high_zero: "lv c < 2 ^ (64 * n) \<Longrightarrow> n \<le> i \<Longrightarrow> i < length c \<Longrightarrow> c ! i = 0"
proof (rule bit_word_eqI)
  fix j assume c: "lv c < 2 ^ (64 * n)" "n \<le> i" "i < length c" "j < LENGTH(64)"
  have "\<not> bit (lv c) (64 * i + j)"
  proof
    assume "bit (lv c) (64 * i + j)"
    moreover have "take_bit (64 * n) (lv c) = lv c" using c(1) by (simp add: take_bit_nat_eq_self_iff)
    ultimately have "64 * i + j < 64 * n" by (metis bit_take_bit_iff)
    with c(2) show False by simp
  qed
  with c show "bit (c ! i) j = bit 0 j" by (simp add: bit_lv)
qed

lemma gf_limbs_ge: "2 \<le> gf_limbs F"
  by (cases F) simp_all

lemma length_xor_masked [simp]: "length acc = length row \<Longrightarrow> length (xor_masked F acc row msk) = length acc"
  by (cases "length row \<le> gf_limbs F + 1") (simp_all add: xor_masked_def)

lemma lv_xor_masked:
  assumes "length acc = length row" "lv row < 2 ^ (64 * (gf_limbs F + 1))"
  shows "lv (xor_masked F acc row (0 - (drop_bit s w AND 1))) = lv acc XOR (if bit w s then lv row else 0)"
proof (cases "bit w s")
  case True
  have "xor_masked F acc row (- 1) = map2 (XOR) acc row"
  proof (rule nth_equalityI)
    fix i assume "i < length (xor_masked F acc row (- 1))"
    then have i: "i < length acc" using assms(1) by simp
    show "xor_masked F acc row (- 1) ! i = map2 (XOR) acc row ! i"
      using i assms lv_high_zero [OF assms(2), of i] by (auto simp: xor_masked_def nth_append)
  qed (simp add: assms(1))
  then show ?thesis using True assms(1) by (simp add: bit_mask lv_map2_xor)
next
  case False
  have "xor_masked F acc row 0 = acc"
    using assms(1) by (intro nth_equalityI) (auto simp: xor_masked_def nth_append min_def)
  then show ?thesis using False by (simp add: bit_mask)
qed

section \<open>The window multiplication\<close>

definition bitsel :: "bool \<Rightarrow> nat \<Rightarrow> nat" where
  "bitsel b k = (if b then 2 ^ k else 0)"

lemma bit_bitsel [simp]: "bit (bitsel b k) n \<longleftrightarrow> b \<and> n = k"
  by (simp add: bitsel_def bit_simps)

lemma clmul_bitsel: "clmul a (bitsel b k) = (if b then push_bit k a else 0)"
  using clmul_push_right [of a k 1] by (simp add: bitsel_def push_bit_eq_mult mult.commute)

lemma clmul_bits4:
  "clmul a (unat (drop_bit 60 (w :: u64))) =
     (if bit w 60 then push_bit 0 a else 0) XOR (if bit w 61 then push_bit 1 a else 0) XOR
     (if bit w 62 then push_bit 2 a else 0) XOR (if bit w 63 then push_bit 3 a else 0)"
proof -
  have "unat (drop_bit 60 w) =
      bitsel (bit w 60) 0 XOR bitsel (bit w 61) 1 XOR bitsel (bit w 62) 2 XOR bitsel (bit w 63) 3"
  proof (rule bit_eqI)
    fix n :: nat
    consider "n = 0" | "n = 1" | "n = 2" | "n = 3" | "4 \<le> n" by linarith
    then show "bit (unat (drop_bit 60 w)) n \<longleftrightarrow> bit (bitsel (bit w 60) 0 XOR bitsel (bit w 61) 1 XOR
        bitsel (bit w 62) 2 XOR bitsel (bit w 63) 3) n"
      by cases (auto simp: bit_simps dest: bit_imp_le_length)
  qed
  then show ?thesis by (simp only: clmul_xor_right clmul_bitsel)
qed

lemma window_rows_value:
  assumes "length a = gf_limbs F"
  obtains r0 r1 r2 r3 where "window_rows F a = [r0, r1, r2, r3]"
    and "length r0 = 2 * gf_limbs F" "length r1 = 2 * gf_limbs F" "length r2 = 2 * gf_limbs F" "length r3 = 2 * gf_limbs F"
    and "lv r0 = lv a" "lv r1 = push_bit 1 (lv a)" "lv r2 = push_bit 2 (lv a)" "lv r3 = push_bit 3 (lv a)"
proof -
  let ?L = "gf_limbs F"
  have a: "lv a < 2 ^ (64 * ?L)" using lv_less [of a] assms by simp
  have bound: "push_bit j (lv a) < 2 ^ (64 * (2 * ?L))" if "j \<le> 3" for j
  proof -
    have "push_bit j (lv a) < 2 ^ j * 2 ^ (64 * ?L)" using a by (simp add: push_bit_eq_mult)
    also have "\<dots> \<le> 2 ^ (64 * (2 * ?L))"
      unfolding power_add [symmetric] using that gf_limbs_ge [of F] by (intro power_increasing) simp_all
    finally show ?thesis .
  qed
  let ?r0 = "a @ replicate ?L 0"
  let ?r1 = "shl1 ?r0" let ?r2 = "shl1 ?r1" let ?r3 = "shl1 ?r2"
  have 0: "lv ?r0 = lv a" by (simp add: lv_append_xor)
  have 1: "lv ?r1 = push_bit 1 (lv a)"
    unfolding shl1_def using lv_shl_exact [of 1 ?r0] bound [of 1] 0 assms by (simp del: One_nat_def)
  have 2: "lv ?r2 = push_bit 2 (lv a)"
    unfolding shl1_def using lv_shl_exact [of 1 ?r1] bound [of 2] 1 assms
    by (simp add: shl1_def push_bit_push_bit del: One_nat_def)
  have 3: "lv ?r3 = push_bit 3 (lv a)"
    unfolding shl1_def using lv_shl_exact [of 1 ?r2] bound [of 3] 2 assms
    by (simp add: shl1_def push_bit_push_bit del: One_nat_def)
  show thesis
    by (rule that [of ?r0 ?r1 ?r2 ?r3]) (use 0 1 2 3 assms in \<open>simp_all add: window_rows_def Let_def shl1_def\<close>)
qed

lemma window_step_value:
  assumes a: "length a = gf_limbs F" and acc: "length acc = 2 * gf_limbs F"
    and val: "lv acc = clmul (lv a) B" and room: "push_bit 4 B < 2 ^ (64 * gf_limbs F)"
  shows "\<exists>acc'. window_step F (window_rows F a) (acc, w) = (acc', push_bit 4 w) \<and>
    length acc' = 2 * gf_limbs F \<and> lv acc' = clmul (lv a) (push_bit 4 B XOR unat (drop_bit 60 w))"
proof -
  let ?L = "gf_limbs F"
  obtain r0 r1 r2 r3 where rows: "window_rows F a = [r0, r1, r2, r3]"
    "length r0 = 2 * ?L" "length r1 = 2 * ?L" "length r2 = 2 * ?L" "length r3 = 2 * ?L"
    "lv r0 = push_bit 0 (lv a)" "lv r1 = push_bit 1 (lv a)" "lv r2 = push_bit 2 (lv a)" "lv r3 = push_bit 3 (lv a)"
    using window_rows_value [OF a] by (metis push_bit_0_id id_apply)
  have A: "lv a < 2 ^ (64 * ?L)" using lv_less [of a] a by simp
  have small: "push_bit j (lv a) < 2 ^ (64 * (?L + 1))" if "j \<le> 3" for j
  proof -
    have "push_bit j (lv a) < 2 ^ j * 2 ^ (64 * ?L)" using A by (simp add: push_bit_eq_mult)
    also have "\<dots> \<le> 2 ^ (64 * (?L + 1))"
      unfolding power_add [symmetric] using that by (intro power_increasing) simp_all
    finally show ?thesis .
  qed
  have "push_bit 4 (lv acc) < 2 ^ (64 * ?L + 64 * ?L)"
    using clmul_less [OF A room] by (simp add: val clmul_push_right)
  then have sh: "lv (shl4 acc) = push_bit 4 (lv acc)"
    unfolding shl4_def by (intro lv_shl_exact) (simp_all add: acc mult_2)
  have len: "length (shl4 acc) = 2 * ?L" by (simp add: shl4_def acc)
  let ?m = "\<lambda>s. 0 - (drop_bit s w AND 1)"
  let ?x0 = "xor_masked F (shl4 acc) r0 (?m 60)" let ?x1 = "xor_masked F ?x0 r1 (?m 61)"
  let ?x2 = "xor_masked F ?x1 r2 (?m 62)" let ?x3 = "xor_masked F ?x2 r3 (?m 63)"
  have "window_step F (window_rows F a) (acc, w) = (?x3, push_bit 4 w)"
    by (simp add: window_step_def rows Let_def)
  moreover have lens: "length ?x0 = 2 * ?L" "length ?x1 = 2 * ?L" "length ?x2 = 2 * ?L" "length ?x3 = 2 * ?L"
    using len rows by simp_all
  moreover have "lv ?x3 = push_bit 4 (lv acc) XOR (if bit w 60 then lv r0 else 0) XOR
      (if bit w 61 then lv r1 else 0) XOR (if bit w 62 then lv r2 else 0) XOR (if bit w 63 then lv r3 else 0)"
    using lv_xor_masked [of "shl4 acc" r0 F 60 w] lv_xor_masked [of ?x0 r1 F 61 w]
      lv_xor_masked [of ?x1 r2 F 62 w] lv_xor_masked [of ?x2 r3 F 63 w] small [of 0] small [of 1] small [of 2]
      small [of 3] lens len rows sh
    by (simp only: xor.assoc)
  moreover have "\<dots> = clmul (lv a) (push_bit 4 B XOR unat (drop_bit 60 w))"
    unfolding rows(6-9) val clmul_xor_right clmul_bits4 clmul_push_right by (simp only: xor.assoc)
  ultimately show ?thesis by metis
qed

lemma window_shift_step:
  assumes "k < 16"
  shows "push_bit 4 (push_bit (4 * k) B XOR unat (drop_bit (64 - 4 * k) w)) XOR
      unat (drop_bit 60 (push_bit (4 * k) (w :: u64))) =
    push_bit (4 * Suc k) B XOR unat (drop_bit (64 - 4 * Suc k) w)"
proof -
  have "push_bit 4 (unat (drop_bit (64 - 4 * k) w)) XOR unat (drop_bit 60 (push_bit (4 * k) w)) =
      unat (drop_bit (64 - 4 * Suc k) w)"
  proof (rule bit_eqI)
    fix n :: nat
    show "bit (push_bit 4 (unat (drop_bit (64 - 4 * k) w)) XOR unat (drop_bit 60 (push_bit (4 * k) w))) n \<longleftrightarrow>
        bit (unat (drop_bit (64 - 4 * Suc k) w)) n"
    proof (cases "4 \<le> n")
      case True
      then have "64 - 4 * k + (n - 4) = 64 - 4 * Suc k + n" using assms by auto
      with True show ?thesis
        by (auto simp: bit_xor_iff bit_push_bit_iff bit_drop_bit_eq bit_unsigned_iff dest: bit_imp_le_length)
    next
      case False
      then have "60 + n - 4 * k = 64 - 4 * Suc k + n" "60 + n < 64" "4 * k \<le> 60 + n" using assms by auto
      with False show ?thesis
        by (simp add: bit_xor_iff bit_push_bit_iff bit_drop_bit_eq bit_unsigned_iff)
    qed
  qed
  then show ?thesis by (simp add: push_bit_xor xor.assoc push_bit_push_bit add.commute)
qed

lemma window_word_value:
  assumes a: "length a = gf_limbs F" and acc: "length acc = 2 * gf_limbs F"
    and val: "lv acc = clmul (lv a) B" and B: "push_bit 64 B < 2 ^ (64 * gf_limbs F)"
  shows "length (fst ((window_step F (window_rows F a) ^^ 16) (acc, w))) = 2 * gf_limbs F \<and>
    lv (fst ((window_step F (window_rows F a) ^^ 16) (acc, w))) = clmul (lv a) (push_bit 64 B XOR unat w)"
proof -
  let ?B = "\<lambda>k. push_bit (4 * k) B XOR unat (drop_bit (64 - 4 * k) w)"
  have room: "push_bit 4 (?B k) < 2 ^ (64 * gf_limbs F)" if "k < 16" for k
  proof -
    have "(2 :: nat) ^ (4 * Suc k) \<le> 2 ^ 64" using that by (intro power_increasing) simp_all
    then have "push_bit (4 * Suc k) B \<le> push_bit 64 B"
      unfolding push_bit_eq_mult by (rule mult_le_mono2)
    then have hi: "push_bit (4 * Suc k) B < 2 ^ (64 * gf_limbs F)" using B by simp
    have "unat (drop_bit (64 - 4 * k) w) < 2 ^ (4 * k)"
    proof -
      have "take_bit (4 * k) (unat (drop_bit (64 - 4 * k) w)) = unat (drop_bit (64 - 4 * k) w)"
        by (rule bit_eqI) (use that in \<open>auto simp: bit_simps dest: bit_imp_le_length\<close>)
      then show ?thesis by (simp add: take_bit_nat_eq_self_iff)
    qed
    then have "push_bit 4 (unat (drop_bit (64 - 4 * k) w)) < 2 ^ (4 + 4 * k)"
      by (simp add: push_bit_eq_mult power_add)
    also have "\<dots> \<le> 2 ^ (64 * gf_limbs F)"
      using that gf_limbs_ge [of F] by (intro power_increasing) simp_all
    finally have "push_bit 4 (unat (drop_bit (64 - 4 * k) w)) < 2 ^ (64 * gf_limbs F)" .
    with hi show ?thesis
      by (simp add: push_bit_xor push_bit_push_bit add.commute xor_less_exp)
  qed
  have "k \<le> 16 \<Longrightarrow> \<exists>acc'. (window_step F (window_rows F a) ^^ k) (acc, w) = (acc', push_bit (4 * k) w) \<and>
      length acc' = 2 * gf_limbs F \<and> lv acc' = clmul (lv a) (?B k)" for k
  proof (induction k)
    case 0
    have "unat (drop_bit 64 w) = 0" by (rule bit_eqI) (auto simp: bit_simps dest: bit_imp_le_length)
    then show ?case using acc val by simp
  next
    case (Suc k)
    then obtain acc' where IH: "(window_step F (window_rows F a) ^^ k) (acc, w) = (acc', push_bit (4 * k) w)"
      "length acc' = 2 * gf_limbs F" "lv acc' = clmul (lv a) (?B k)" by auto
    have "k < 16" using Suc.prems by simp
    from window_step_value [OF a IH(2,3) room [OF this], of "push_bit (4 * k) w"]
    obtain acc2 where "window_step F (window_rows F a) (acc', push_bit (4 * k) w) = (acc2, push_bit 4 (push_bit (4 * k) w))"
      "length acc2 = 2 * gf_limbs F" "lv acc2 = clmul (lv a) (?B (Suc k))"
      unfolding window_shift_step [OF \<open>k < 16\<close>] by blast
    moreover have "push_bit 4 (push_bit (4 * k) w) = push_bit (4 * Suc k) w" by (simp add: push_bit_push_bit)
    ultimately show ?case using IH(1) by simp
  qed
  from this [of 16] obtain acc' where "(window_step F (window_rows F a) ^^ 16) (acc, w) = (acc', push_bit (4 * 16) w)"
    "length acc' = 2 * gf_limbs F" "lv acc' = clmul (lv a) (?B 16)" by blast
  then show ?thesis by simp
qed

lemma poly_mul_wide_value:
  assumes "length a = gf_limbs F" "length b = gf_limbs F"
  shows "length (poly_mul_wide F a b) = 2 * gf_limbs F" "lv (poly_mul_wide F a b) = clmul (lv a) (lv b)"
proof -
  let ?f = "\<lambda>word acc. fst ((window_step F (window_rows F a) ^^ 16) (acc, word))"
  have "length ws \<le> gf_limbs F \<Longrightarrow>
      length (fold ?f (rev ws) (replicate (2 * gf_limbs F) 0)) = 2 * gf_limbs F \<and>
      lv (fold ?f (rev ws) (replicate (2 * gf_limbs F) 0)) = clmul (lv a) (lv ws)" for ws
  proof (induction ws)
    case (Cons w ws)
    let ?acc = "fold ?f (rev ws) (replicate (2 * gf_limbs F) 0)"
    have acc: "length ?acc = 2 * gf_limbs F" "lv ?acc = clmul (lv a) (lv ws)" using Cons by simp_all
    have w: "lv (w # ws) = push_bit 64 (lv ws) XOR unat w"
      using lv_append_xor [of "[w]" ws] by (simp add: lv.simps(1) lv.simps(2) [of w "[]"] xor.commute)
    have "push_bit 64 (lv ws) < 2 ^ 64 * 2 ^ (64 * length ws)" using lv_less [of ws] by (simp add: push_bit_eq_mult)
    also have "\<dots> \<le> 2 ^ (64 * gf_limbs F)"
      unfolding power_add [symmetric] using Cons.prems by (intro power_increasing) simp_all
    finally have "push_bit 64 (lv ws) < 2 ^ (64 * gf_limbs F)" .
    from window_word_value [OF assms(1) acc this, of w] w show ?case by simp
  qed (simp add: lv.simps)
  from this [of b] assms(2)
  show "length (poly_mul_wide F a b) = 2 * gf_limbs F" "lv (poly_mul_wide F a b) = clmul (lv a) (lv b)"
    by (simp_all add: poly_mul_wide_def Let_def)
qed

section \<open>Reduction\<close>

text \<open>The low terms of the reduction polynomial and the polynomial itself.\<close>

definition gf_low :: "gf_field \<Rightarrow> nat" where
  "gf_low F = fold (\<lambda>s acc. acc XOR 2 ^ s) (gf_terms F) 1"

definition gf_poly :: "gf_field \<Rightarrow> nat" where
  "gf_poly F = gf_low F XOR 2 ^ gf_m F"

lemma gf_m_limbs: "gf_m F = 64 * gf_limbs F"
  by (cases F) simp_all

lemma gf_terms_range: "s \<in> set (gf_terms F) \<Longrightarrow> 0 < s \<and> s < 64"
  by (cases F) auto

lemma gf_low_less: "gf_low F < 2 ^ 64"
  by (cases F) (simp_all add: gf_low_def)

lemma gf_poly_degree: "has_degree (gf_poly F) (gf_m F)"
proof -
  have "2 ^ 64 \<le> (2 :: nat) ^ gf_m F" by (rule power_increasing) (cases F; simp)+
  then have "gf_low F < 2 ^ gf_m F" using gf_low_less [of F] by (rule less_le_trans [rotated])
  then show ?thesis unfolding gf_poly_def by (rule has_degree_add) (simp add: has_degree_def)
qed

lemma clmul_gf_low_fold:
  "fold (\<lambda>s acc. acc XOR push_bit s t) ss (clmul t e) = clmul t (fold (\<lambda>s acc. acc XOR 2 ^ s) ss e)"
proof (induction ss arbitrary: e)
  case (Cons s ss)
  have "push_bit s t = clmul t (2 ^ s)" using clmul_push_right [of t s 1] by (simp add: push_bit_eq_mult)
  then show ?case using Cons [of "e XOR 2 ^ s"] by (simp add: clmul_xor_right)
qed simp

lemma split_shift:
  assumes "0 < s" "s < 64"
  shows "push_bit s (unat (t :: u64)) = unat (push_bit s t) XOR push_bit 64 (unat (drop_bit (64 - s) t))"
proof (rule bit_eqI)
  fix n :: nat
  show "bit (push_bit s (unat t)) n \<longleftrightarrow> bit (unat (push_bit s t) XOR push_bit 64 (unat (drop_bit (64 - s) t))) n"
  proof (cases "n < 64")
    case True
    then show ?thesis by (auto simp: bit_simps)
  next
    case False
    then have "64 - s + (n - 64) = n - s" "s \<le> n" using assms by linarith+
    with False show ?thesis
      by (auto simp: bit_xor_iff bit_push_bit_iff bit_drop_bit_eq bit_unsigned_iff dest: bit_imp_le_length)
  qed
qed

lemma lv_reduce_shift:
  assumes "0 < s" "s < 64" "base + 1 < length c"
  shows "lv (reduce_shift t base s c) = lv c XOR push_bit (64 * base) (push_bit s (unat t))"
proof -
  have "push_bit (64 * base) (push_bit s (unat t)) =
      push_bit (64 * base) (unat (push_bit s t)) XOR push_bit (64 * (base + 1)) (unat (drop_bit (64 - s) t))"
    unfolding split_shift [OF assms(1,2)] by (simp add: push_bit_xor push_bit_push_bit add.commute)
  moreover have "lv (reduce_shift t base s c) = (lv c XOR push_bit (64 * base) (unat (push_bit s t))) XOR
      push_bit (64 * (base + 1)) (unat (drop_bit (64 - s) t))"
    unfolding reduce_shift_def Let_def using assms(3) by (subst lv_update_xor; simp add: lv_update_xor)+
  ultimately show ?thesis by (simp only: xor.assoc)
qed

lemma length_reduce_shift [simp]: "length (reduce_shift t base s c) = length c"
  by (simp add: reduce_shift_def Let_def)

lemma lv_reduce_shifts:
  assumes "\<forall>s \<in> set ss. 0 < s \<and> s < 64" "base + 1 < length c"
  shows "lv (fold (reduce_shift t base) ss c) =
    lv c XOR push_bit (64 * base) (fold (\<lambda>s acc. acc XOR push_bit s (unat t)) ss 0)"
  using assms
proof (induction ss arbitrary: c)
  case (Cons s ss)
  have push: "fold (\<lambda>s acc. acc XOR push_bit s x) ss (e XOR d) = d XOR fold (\<lambda>s acc. acc XOR push_bit s x) ss e"
    for d e x :: nat
  proof (induction ss arbitrary: e)
    case (Cons a ss)
    from Cons [of "e XOR push_bit a x"] show ?case by (simp add: ac_simps)
  qed (simp add: xor.commute)
  from Cons show ?case
    using push [of "unat t" 0 "push_bit s (unat t)"]
    by (simp add: lv_reduce_shift push_bit_xor xor.assoc)
qed simp

lemma take_reduce_shifts:
  "base + 1 < i \<Longrightarrow> take i (fold (reduce_shift t base) ss c) = fold (reduce_shift t base) ss (take i c)"
proof (induction ss arbitrary: c)
  case (Cons s ss)
  then have "take i (reduce_shift t base s c) = reduce_shift t base s (take i c)"
    by (simp add: reduce_shift_def Let_def take_update_swap nth_list_update)
  with Cons show ?case by simp
qed simp

lemma length_reduce_word [simp]: "length (reduce_word F i c) = length c"
proof -
  have "length (fold (reduce_shift t base) ss c) = length c" for t base ss c
    by (induction ss arbitrary: c) simp_all
  then show ?thesis by (simp add: reduce_word_def Let_def)
qed

lemma reduce_word_value:
  assumes "gf_limbs F \<le> i" "i < length c"
  shows "lv (take i (reduce_word F i c)) =
    lv (take i c) XOR push_bit (64 * (i - gf_limbs F)) (clmul (unat (c ! i)) (gf_low F))"
proof -
  let ?t = "c ! i" and ?b = "i - gf_limbs F"
  have b: "?b + 1 < i" using assms(1) gf_limbs_ge [of F] by linarith
  have "take i (reduce_word F i c) = fold (reduce_shift ?t ?b) (gf_terms F) ((take i c)[?b := take i c ! ?b XOR ?t])"
    unfolding reduce_word_def Let_def using b by (simp add: take_reduce_shifts take_update_swap)
  moreover have "lv ((take i c)[?b := take i c ! ?b XOR ?t]) = lv (take i c) XOR push_bit (64 * ?b) (unat ?t)"
    using b assms(2) by (intro lv_update_xor) simp
  moreover have "lv (fold (reduce_shift ?t ?b) (gf_terms F) ((take i c)[?b := take i c ! ?b XOR ?t])) =
      lv ((take i c)[?b := take i c ! ?b XOR ?t]) XOR
      push_bit (64 * ?b) (fold (\<lambda>s acc. acc XOR push_bit s (unat ?t)) (gf_terms F) 0)"
    using b assms(2) gf_terms_range [of _ F] by (intro lv_reduce_shifts) auto
  ultimately have "lv (take i (reduce_word F i c)) = (lv (take i c) XOR push_bit (64 * ?b) (unat ?t)) XOR
      push_bit (64 * ?b) (fold (\<lambda>s acc. acc XOR push_bit s (unat ?t)) (gf_terms F) 0)"
    by simp
  moreover have "unat ?t XOR fold (\<lambda>s acc. acc XOR push_bit s (unat ?t)) (gf_terms F) 0 = clmul (unat ?t) (gf_low F)"
    using clmul_gf_low_fold [of "unat ?t" "gf_terms F" 1] by (cases F) (simp_all add: gf_low_def xor.assoc)
  ultimately show ?thesis by (simp only: push_bit_xor [symmetric] xor.assoc)
qed

lemma reduce_word_cong:
  assumes "gf_limbs F \<le> i" "i < length c"
  shows "pcong (gf_poly F) (lv (take (Suc i) c)) (lv (take i (reduce_word F i c)))"
proof -
  let ?t = "unat (c ! i)" and ?b = "i - gf_limbs F"
  have "take (Suc i) c = take i c @ [c ! i]" using assms(2) by (simp add: take_Suc_conv_app_nth)
  then have "lv (take (Suc i) c) = lv (take i c) XOR push_bit (64 * i) ?t"
    using assms(2) by (simp add: lv_append_xor lv.simps)
  moreover have "push_bit (64 * i) ?t = push_bit (64 * ?b) (clmul ?t (2 ^ gf_m F))"
  proof -
    have "clmul ?t (2 ^ gf_m F) = push_bit (64 * gf_limbs F) ?t"
      using clmul_push_right [of ?t "gf_m F" 1] by (simp add: push_bit_eq_mult gf_m_limbs)
    then show ?thesis using assms(1) by (simp add: push_bit_push_bit add_mult_distrib2 [symmetric])
  qed
  ultimately have "lv (take (Suc i) c) XOR lv (take i (reduce_word F i c)) =
      push_bit (64 * ?b) (clmul ?t (gf_low F XOR 2 ^ gf_m F))"
    unfolding reduce_word_value [OF assms] clmul_xor_right push_bit_xor
    by (simp only: xor_cancel_left xor.commute)
  then have "lv (take (Suc i) c) XOR lv (take i (reduce_word F i c)) = clmul (push_bit (64 * ?b) ?t) (gf_poly F)"
    by (simp add: gf_poly_def clmul_push_left)
  then show ?thesis unfolding pcong_def ..
qed

lemma reduce_value:
  assumes "length c = 2 * gf_limbs F"
  shows "length (reduce F c) = gf_limbs F" "pcong (gf_poly F) (lv c) (lv (reduce F c))"
proof -
  let ?L = "gf_limbs F"
  have "length c = 2 * ?L \<Longrightarrow> n \<le> ?L \<Longrightarrow>
      length (fold (reduce_word F) (rev [?L..<?L + n]) c) = 2 * ?L \<and>
      pcong (gf_poly F) (lv (take (?L + n) c)) (lv (take ?L (fold (reduce_word F) (rev [?L..<?L + n]) c)))" for n
  proof (induction n arbitrary: c)
    case (Suc n)
    have "pcong (gf_poly F) (lv (take (?L + Suc n) c)) (lv (take (?L + n) (reduce_word F (?L + n) c)))"
      using reduce_word_cong [of F "?L + n" c] Suc.prems by simp
    with Suc.IH [of "reduce_word F (?L + n) c"] Suc.prems show ?case by (auto intro: pcong_trans)
  qed simp
  from this [of ?L] assms show "length (reduce F c) = ?L" "pcong (gf_poly F) (lv c) (lv (reduce F c))"
    by (simp_all add: reduce_def mult_2)
qed

lemma reduced_unique:
  assumes "length a = gf_limbs F" "length b = gf_limbs F" "pcong (gf_poly F) (lv a) (lv b)"
  shows "a = b"
proof -
  have "lv a = lv b"
    using pcong_unique [OF gf_poly_degree _ _ assms(3)] lv_less [of a] lv_less [of b] assms(1,2)
    by (simp add: gf_m_limbs)
  with assms show ?thesis by (simp add: lv_inject)
qed

section \<open>The bit-serial reduction\<close>

lemma lv_flip_bit: "d div 64 < length c \<Longrightarrow> lv (flip_bit_at d c) = lv c XOR 2 ^ d"
proof -
  assume d: "d div 64 < length c"
  have "unat (push_bit (d mod 64) 1 :: u64) = 2 ^ (d mod 64)"
    by (rule bit_eqI) (auto simp: bit_simps)
  then have "push_bit (64 * (d div 64)) (unat (push_bit (d mod 64) 1 :: u64)) = 2 ^ d"
    by (simp add: push_bit_eq_mult power_add [symmetric])
  with d show ?thesis by (simp add: flip_bit_at_def lv_update_xor)
qed

lemma length_flip_bit [simp]: "length (flip_bit_at d c) = length c"
  by (simp add: flip_bit_at_def)

lemma length_flip_bits [simp]: "length (fold (\<lambda>term. flip_bit_at (s + term)) ts c) = length c"
  by (induction ts arbitrary: c) simp_all

lemma lv_flip_bits:
  assumes "\<forall>t \<in> set ts. (s + t) div 64 < length c"
  shows "lv (fold (\<lambda>term. flip_bit_at (s + term)) ts c) = lv c XOR push_bit s (fold (\<lambda>t acc. acc XOR 2 ^ t) ts 0)"
  using assms
proof (induction ts arbitrary: c)
  case (Cons t ts)
  have push: "fold (\<lambda>t acc. acc XOR 2 ^ t) ts (e XOR d) = d XOR fold (\<lambda>t acc. acc XOR 2 ^ t) ts e" for d e :: nat
  proof (induction ts arbitrary: e)
    case (Cons a ts)
    from Cons [of "e XOR 2 ^ a"] show ?case by (simp add: ac_simps)
  qed (simp add: xor.commute)
  have "2 ^ (s + t) = push_bit s (2 ^ t :: nat)" by (simp add: push_bit_eq_mult power_add)
  with Cons show ?case
    using push [of 0 "2 ^ t"] by (simp add: lv_flip_bit push_bit_xor xor.assoc)
qed simp

lemma reduce_degree_step:
  assumes "length c = 2 * gf_limbs F" "gf_m F \<le> d" "d < 2 * gf_limbs F * 64" "lv c < 2 ^ Suc d"
  shows "lv (reduce_degree F d c) < 2 ^ d" "pcong (gf_poly F) (lv c) (lv (reduce_degree F d c))"
    "length (reduce_degree F d c) = 2 * gf_limbs F"
proof -
  have dl: "d div 64 < 2 * gf_limbs F" using assms(3) by (simp add: less_mult_imp_div_less)
  have sel: "(drop_bit (d mod 64) (c ! (d div 64)) AND 1 = 1) \<longleftrightarrow> bit (lv c) d"
  proof -
    have "(drop_bit k w AND 1 = 1) \<longleftrightarrow> bit w k" for k and w :: u64
      by (simp add: and_one_eq mod_2_eq_odd bit_iff_odd_drop_bit)
    then show ?thesis using dl assms(1) by (simp add: bit_lv)
  qed
  show len: "length (reduce_degree F d c) = 2 * gf_limbs F"
    using assms(1) by (simp add: reduce_degree_def Let_def)
  have "lv (reduce_degree F d c) < 2 ^ d \<and> pcong (gf_poly F) (lv c) (lv (reduce_degree F d c))"
  proof (cases "bit (lv c) d")
    case False
    then have "take_bit d (lv c) = take_bit (Suc d) (lv c)"
      by (intro bit_eqI) (auto simp: bit_simps less_Suc_eq)
    also have "\<dots> = lv c" using assms(4) by (simp only: take_bit_nat_eq_self_iff)
    finally have "lv c < 2 ^ d" by (simp add: take_bit_nat_eq_self_iff)
    then show ?thesis using False sel by (simp add: reduce_degree_def)
  next
    case True
    let ?s = "d - gf_m F"
    have low: "fold (\<lambda>t acc. acc XOR 2 ^ t) (gf_terms F @ [0]) 0 = gf_low F"
      by (cases F) (simp_all add: gf_low_def)
    have "\<forall>t \<in> set (gf_terms F @ [0]). (?s + t) div 64 < length (flip_bit_at d c)"
    proof
      fix t assume "t \<in> set (gf_terms F @ [0])"
      then have "t < 64" using gf_terms_range by fastforce
      then have "?s + t \<le> d" using assms(2) gf_limbs_ge [of F] by (simp add: gf_m_limbs)
      then show "(?s + t) div 64 < length (flip_bit_at d c)"
        using assms(1) dl div_le_mono [of "?s + t" d 64] by simp
    qed
    then have "lv (reduce_degree F d c) = (lv c XOR 2 ^ d) XOR push_bit ?s (gf_low F)"
      using True sel dl assms(1) lv_flip_bits [of "gf_terms F @ [0]" ?s "flip_bit_at d c"] low
      by (simp only: reduce_degree_def Let_def if_True lv_flip_bit length_flip_bit)
    moreover have "lv c XOR 2 ^ d < 2 ^ d"
    proof -
      have "take_bit (Suc d) (lv c) = lv c" using assms(4) by (simp only: take_bit_nat_eq_self_iff)
      then have "take_bit d (lv c XOR 2 ^ d) = lv c XOR 2 ^ d"
        using True by (intro bit_eqI) (metis bit_exp_iff bit_take_bit_iff bit_xor_iff less_Suc_eq)
      then show ?thesis by (simp only: take_bit_nat_eq_self_iff)
    qed
    moreover have "push_bit ?s (gf_low F) < 2 ^ d"
    proof -
      have "push_bit ?s (gf_low F) < 2 ^ ?s * 2 ^ 64" using gf_low_less [of F] by (simp add: push_bit_eq_mult)
      also have "\<dots> \<le> 2 ^ d" unfolding power_add [symmetric]
        using assms(2) gf_limbs_ge [of F] by (intro power_increasing) (simp_all add: gf_m_limbs)
      finally show ?thesis .
    qed
    moreover have "2 ^ d XOR push_bit ?s (gf_low F) = clmul (2 ^ ?s) (gf_poly F)"
    proof -
      have "clmul (2 ^ ?s) (gf_poly F) = push_bit ?s (gf_poly F)"
        using clmul_push_left [of ?s 1 "gf_poly F"] by (simp add: push_bit_eq_mult mult.commute)
      moreover have "push_bit ?s (2 ^ gf_m F :: nat) = 2 ^ d"
        using assms(2) by (simp add: push_bit_eq_mult power_add [symmetric])
      ultimately show ?thesis by (simp add: gf_poly_def push_bit_xor xor.commute)
    qed
    then have "lv c XOR ((lv c XOR 2 ^ d) XOR push_bit ?s (gf_low F)) = clmul (2 ^ ?s) (gf_poly F)"
      by (simp add: xor.assoc)
    ultimately show ?thesis unfolding pcong_def by (metis xor_less_exp)
  qed
  then show "lv (reduce_degree F d c) < 2 ^ d" "pcong (gf_poly F) (lv c) (lv (reduce_degree F d c))" by simp_all
qed

lemma reduce_bit_serial_value:
  assumes "length c = 2 * gf_limbs F"
  shows "length (reduce_bit_serial_reference F c) = gf_limbs F"
    "pcong (gf_poly F) (lv c) (lv (reduce_bit_serial_reference F c))"
proof -
  let ?m = "gf_m F"
  have "?m + n \<le> 2 * gf_limbs F * 64 \<Longrightarrow> length c = 2 * gf_limbs F \<Longrightarrow> lv c < 2 ^ (?m + n) \<Longrightarrow>
      (let c' = fold (reduce_degree F) (rev [?m..<?m + n]) c
       in length c' = 2 * gf_limbs F \<and> lv c' < 2 ^ ?m \<and> pcong (gf_poly F) (lv c) (lv c'))" for n
  proof (induction n arbitrary: c)
    case (Suc n)
    note step = reduce_degree_step [of c F "?m + n"]
    from Suc.prems Suc.IH [of "reduce_degree F (?m + n) c"] step show ?case
      by (auto simp: Let_def intro: pcong_trans)
  qed (simp add: Let_def)
  moreover have "?m + ?m = 2 * gf_limbs F * 64" by (simp add: gf_m_limbs)
  moreover have "lv c < 2 ^ (?m + ?m)" using lv_less [of c] assms by (simp add: gf_m_limbs mult_2)
  ultimately have c': "let c' = fold (reduce_degree F) (rev [?m..<2 * gf_limbs F * 64]) c
      in length c' = 2 * gf_limbs F \<and> lv c' < 2 ^ ?m \<and> pcong (gf_poly F) (lv c) (lv c')"
    using assms by (metis order_refl)
  let ?c = "fold (reduce_degree F) (rev [?m..<2 * gf_limbs F * 64]) c"
  have "lv ?c = lv (take (gf_limbs F) ?c) XOR push_bit (64 * gf_limbs F) (lv (drop (gf_limbs F) ?c))"
    using c' lv_append_xor [of "take (gf_limbs F) ?c" "drop (gf_limbs F) ?c"] by (simp add: Let_def)
  moreover have "drop (gf_limbs F) ?c = replicate (gf_limbs F) 0"
    using c' lv_high_zero [of ?c "gf_limbs F"] by (intro nth_equalityI) (simp_all add: Let_def gf_m_limbs)
  ultimately have "lv ?c = lv (take (gf_limbs F) ?c)" by simp
  with c' show "length (reduce_bit_serial_reference F c) = gf_limbs F"
    "pcong (gf_poly F) (lv c) (lv (reduce_bit_serial_reference F c))"
    by (simp_all add: reduce_bit_serial_reference_def Let_def)
qed

section \<open>Doubling\<close>

lemma gf_double_flips:
  "gf_double F a = (if bit (a ! (gf_limbs F - 1)) 63
     then fold (\<lambda>term. flip_bit_at (0 + term)) (0 # gf_terms F) (shl_limbs 1 0 a) else shl_limbs 1 0 a)"
proof -
  have "double_term (- 1) = (\<lambda>term. flip_bit_at (0 + term))" "double_term 0 = (\<lambda>t out. out)"
    by (simp_all add: fun_eq_iff double_term_def flip_bit_at_def)
  moreover have "fold (\<lambda>t out. out) ts out = out" for ts :: "nat list" and out :: "u64 list"
    by (induction ts) simp_all
  ultimately show ?thesis by (simp add: gf_double_def Let_def bit_mask flip_bit_at_def)
qed

lemma push_bit_1_split:
  assumes "v < 2 ^ m" "0 < m"
  shows "push_bit 1 v = take_bit m (push_bit 1 v) XOR (if bit v (m - 1) then 2 ^ m else (0 :: nat))"
proof (rule bit_eqI)
  fix n
  have v: "bit v k \<Longrightarrow> k < m" for k using assms(1) by (metis bit_take_bit_iff take_bit_nat_eq_self_iff)
  have "bit (push_bit 1 v) n \<longleftrightarrow> 1 \<le> n \<and> bit v (n - 1)" by (rule bit_push_bit_iff_nat)
  moreover have "bit (if bit v (m - 1) then 2 ^ m else (0 :: nat)) n \<longleftrightarrow> bit v (m - 1) \<and> n = m"
    by (simp add: bit_exp_iff)
  ultimately show "bit (push_bit 1 v) n \<longleftrightarrow> bit (take_bit m (push_bit 1 v) XOR (if bit v (m - 1) then 2 ^ m else 0)) n"
    unfolding bit_xor_iff bit_take_bit_iff using v [of "n - 1"] assms(2) by (cases "n = m") auto
qed

lemma gf_double_value:
  assumes "length a = gf_limbs F"
  shows "length (gf_double F a) = gf_limbs F" "pcong (gf_poly F) (push_bit 1 (lv a)) (lv (gf_double F a))"
proof -
  let ?m = "gf_m F"
  have L: "0 < gf_limbs F" "0 < ?m" using gf_limbs_ge [of F] by (simp_all add: gf_m_limbs)
  show "length (gf_double F a) = gf_limbs F"
    using assms length_flip_bits [of 0] by (simp add: gf_double_flips del: add_0 fold_simps)
  have "(?m - 1) div 64 = gf_limbs F - 1" "(?m - 1) mod 64 = 63" by (cases F; simp)+
  then have topbit: "bit (a ! (gf_limbs F - 1)) 63 \<longleftrightarrow> bit (lv a) (?m - 1)"
    using assms L by (simp add: bit_lv)
  have low: "fold (\<lambda>t acc. acc XOR 2 ^ t) (0 # gf_terms F) 0 = gf_low F"
    by (simp add: gf_low_def)
  have "\<forall>t \<in> set (0 # gf_terms F). (0 + t) div 64 < length (shl_limbs 1 0 a)"
    using assms L gf_terms_range [of _ F] by auto
  from lv_flip_bits [OF this] have dbl: "lv (gf_double F a) = take_bit ?m (push_bit 1 (lv a)) XOR
      (if bit (lv a) (?m - 1) then gf_low F else 0)"
    using assms by (simp only: gf_double_flips topbit low lv_shl_limbs if_distrib [of lv] push_bit_0_id id_apply
        gf_m_limbs one_le_numeral xor.right_neutral split: if_split) simp
  have "push_bit 1 (lv a) XOR lv (gf_double F a) = (if bit (lv a) (?m - 1) then gf_poly F else 0)"
  proof -
    have "lv a < 2 ^ ?m" using lv_less [of a] assms by (simp add: gf_m_limbs)
    from push_bit_1_split [OF this L(2)]
    have "push_bit 1 (lv a) XOR lv (gf_double F a) =
        (if bit (lv a) (?m - 1) then 2 ^ ?m else 0) XOR (if bit (lv a) (?m - 1) then gf_low F else 0)"
      unfolding dbl by (metis xor_cancel_left)
    then show ?thesis by (simp add: gf_poly_def xor.commute)
  qed
  also have "\<dots> = clmul (if bit (lv a) (?m - 1) then 1 else 0) (gf_poly F)" by simp
  finally show "pcong (gf_poly F) (push_bit 1 (lv a)) (lv (gf_double F a))" unfolding pcong_def ..
qed

section \<open>The instruction path\<close>

text \<open>What the processor manuals state of the carry-less multiply instruction.\<close>

definition multiplies_carryless :: "(u64 \<Rightarrow> u64 \<Rightarrow> u64 \<times> u64) \<Rightarrow> bool" where
  "multiplies_carryless clm \<longleftrightarrow>
     (\<forall>x y. unat (fst (clm x y)) + 2 ^ 64 * unat (snd (clm x y)) = clmul (unat x) (unat y))"

lemma length_hw_step [simp]: "length (hw_step clm a b ij out) = length out"
  by (simp add: hw_step_def Let_def split: prod.split)

lemma lv_hw_step:
  assumes "multiplies_carryless clm" "i + j + 1 < length out"
  shows "lv (hw_step clm a b (i, j) out) = lv out XOR push_bit (64 * (i + j)) (clmul (unat (a ! i)) (unat (b ! j)))"
proof -
  obtain lo hi where c: "clm (a ! i) (b ! j) = (lo, hi)" by fastforce
  have "clmul (unat (a ! i)) (unat (b ! j)) = lv ([lo] @ [hi])"
    using assms(1) [unfolded multiplies_carryless_def, rule_format, of "a ! i" "b ! j"] c by (simp add: lv.simps)
  also have "\<dots> = unat lo XOR push_bit 64 (unat hi)" by (simp only: lv_append_xor) (simp add: lv.simps)
  finally have prod: "clmul (unat (a ! i)) (unat (b ! j)) = unat lo XOR push_bit 64 (unat hi)" .
  let ?o = "out[i + j := out ! (i + j) XOR lo]"
  have "lv (hw_step clm a b (i, j) out) = lv ?o XOR push_bit (64 * (i + j + 1)) (unat hi)"
    using assms(2) lv_update_xor [of "i + j + 1" ?o hi] by (simp add: hw_step_def c)
  also have "lv ?o = lv out XOR push_bit (64 * (i + j)) (unat lo)"
    using assms(2) by (simp add: lv_update_xor)
  finally show ?thesis
    unfolding prod by (simp add: push_bit_xor push_bit_push_bit xor.assoc add.commute)
qed

lemma lv_take_Suc: "n < length b \<Longrightarrow> lv (take (Suc n) b) = lv (take n b) XOR push_bit (64 * n) (unat (b ! n))"
  by (simp add: take_Suc_conv_app_nth lv_append_xor lv.simps)

lemma lv_hw_row:
  assumes "multiplies_carryless clm" "i < L" "length b = L" "length out = 2 * L" "n \<le> L"
  shows "lv (fold (hw_step clm a b) (map (Pair i) [0..<n]) out) =
      lv out XOR push_bit (64 * i) (clmul (unat (a ! i)) (lv (take n b))) \<and>
    length (fold (hw_step clm a b) (map (Pair i) [0..<n]) out) = 2 * L"
  using assms(5)
proof (induction n)
  case 0
  then show ?case using assms(4) by (simp add: lv.simps)
next
  case (Suc n)
  let ?o = "fold (hw_step clm a b) (map (Pair i) [0..<n]) out"
  have "lv (hw_step clm a b (i, n) ?o) = lv ?o XOR push_bit (64 * (i + n)) (clmul (unat (a ! i)) (unat (b ! n)))"
    using Suc assms(2) by (intro lv_hw_step [OF assms(1)]) simp
  moreover have "fold (hw_step clm a b) (map (Pair i) [0..<Suc n]) out = hw_step clm a b (i, n) ?o" by simp
  ultimately show ?case
    using Suc assms(3) by (simp add: lv_take_Suc clmul_xor_right clmul_push_right push_bit_xor
        push_bit_push_bit xor.assoc add_mult_distrib2 add.commute del: upt_Suc)
qed

lemma product_upt_Suc: "List.product [0..<Suc n] ys = List.product [0..<n] ys @ map (Pair n) ys"
proof -
  have "List.product (xs @ [x]) ys = List.product xs ys @ map (Pair x) ys" for xs and x :: nat
    by (induction xs) simp_all
  from this [of "[0..<n]" n] show ?thesis by simp
qed

lemma hw_products_value:
  assumes "multiplies_carryless clm" "length a = L" "length b = L"
  shows "length (fold (hw_step clm a b) (List.product [0..<L] [0..<L]) (replicate (2 * L) 0)) = 2 * L"
    "lv (fold (hw_step clm a b) (List.product [0..<L] [0..<L]) (replicate (2 * L) 0)) = clmul (lv a) (lv b)"
proof -
  let ?z = "replicate (2 * L) (0 :: u64)"
  let ?f = "\<lambda>n. fold (hw_step clm a b) (List.product [0..<n] [0..<L]) ?z"
  have "n \<le> L \<Longrightarrow> length (?f n) = 2 * L \<and> lv (?f n) = clmul (lv (take n a)) (lv b)" for n
  proof (induction n)
    case (Suc n)
    then have IH: "length (?f n) = 2 * L" "lv (?f n) = clmul (lv (take n a)) (lv b)" by simp_all
    have "n < L" using Suc.prems by simp
    note row = lv_hw_row [OF assms(1) this assms(3) IH(1) order_refl, of a]
    have "?f (Suc n) = fold (hw_step clm a b) (map (Pair n) [0..<L]) (?f n)"
      unfolding product_upt_Suc by simp
    with row IH(2) Suc.prems assms(2,3) show ?case
      by (simp add: lv_take_Suc clmul_xor_left clmul_push_left)
  qed (simp add: lv.simps)
  from this [of L] assms(2) show "length (?f L) = 2 * L" "lv (?f L) = clmul (lv a) (lv b)" by simp_all
qed

lemma poly_mul_wide_hw_value:
  assumes "multiplies_carryless clm" "length a = gf_limbs F" "length b = gf_limbs F"
  shows "length (poly_mul_wide_hw clm F a b) = 2 * gf_limbs F"
    "lv (poly_mul_wide_hw clm F a b) = clmul (lv a) (lv b)"
  using hw_products_value [OF assms] by (simp_all add: poly_mul_wide_hw_def)

lemma poly_mul_wide_hw_eq:
  assumes "multiplies_carryless clm" "length a = gf_limbs F" "length b = gf_limbs F"
  shows "poly_mul_wide_hw clm F a b = poly_mul_wide F a b"
  using poly_mul_wide_hw_value [OF assms] poly_mul_wide_value [OF assms(2,3)]
    lv_inject [of "poly_mul_wide_hw clm F a b" "poly_mul_wide F a b"] by simp

section \<open>Field elements\<close>

lemma gf_multiply_value:
  assumes "length a = gf_limbs F" "length b = gf_limbs F"
  shows "length (gf_multiply None F a b) = gf_limbs F"
    "pcong (gf_poly F) (clmul (lv a) (lv b)) (lv (gf_multiply None F a b))"
  using reduce_value [OF poly_mul_wide_value(1) [OF assms]] poly_mul_wide_value(2) [OF assms]
  by (simp_all add: gf_multiply_def)

lemma gf_multiply_length:
  assumes "length a = gf_limbs F" "length b = gf_limbs F" "\<forall>clm \<in> set_option hw. multiplies_carryless clm"
  shows "length (gf_multiply hw F a b) = gf_limbs F"
  using gf_multiply_value(1) [OF assms(1,2)] assms(3) reduce_value(1) [OF poly_mul_wide_hw_value(1) [OF _ assms(1,2)]]
  by (cases hw) (simp_all add: gf_multiply_def)

lemma gf_multiply_eqI:
  assumes "length a = gf_limbs F" "length b = gf_limbs F" "length c = gf_limbs F"
    and "pcong (gf_poly F) (clmul (lv a) (lv b)) (lv c)"
  shows "gf_multiply None F a b = c"
  using gf_multiply_value [OF assms(1,2)] assms(3,4)
  by (intro reduced_unique) (auto intro: pcong_trans pcong_sym)

lemma lv_gf_add: "length a = gf_limbs F \<Longrightarrow> length b = gf_limbs F \<Longrightarrow> lv (gf_add F a b) = lv a XOR lv b"
  by (rule bit_eqI) (auto simp: bit_lv gf_add_def bit_simps)

lemma length_gf_add [simp]: "length (gf_add F a b) = gf_limbs F"
  by (simp add: gf_add_def)

lemma length_gf_from_le_bytes [simp]: "length (gf_from_le_bytes F bs) = gf_limbs F"
  by (simp add: gf_from_le_bytes_def)

lemma length_gf_to_le_bytes [simp]: "length (gf_to_le_bytes F ws) = 8 * length ws"
  by (induction ws) (simp_all add: gf_to_le_bytes_def)

lemma lv_small: "lv (w # replicate n 0) = unat w"
  by (simp add: lv.simps)

lemma carryless_instance:
  "multiplies_carryless (\<lambda>x y. (word_of_nat (clmul (unat x) (unat y)), word_of_nat (clmul (unat x) (unat y) div 2 ^ 64)))"
  unfolding multiplies_carryless_def
proof (intro allI)
  fix x y :: u64
  let ?p = "clmul (unat x) (unat y)"
  have "?p < 2 ^ (64 + 64)" using unsigned_less [of x] unsigned_less [of y] by (intro clmul_less) simp_all
  then have "?p div 2 ^ 64 < 2 ^ 64" by (simp add: less_mult_imp_div_less)
  then show "unat (fst (word_of_nat ?p :: u64, word_of_nat (?p div 2 ^ 64) :: u64)) +
      2 ^ 64 * unat (snd (word_of_nat ?p :: u64, word_of_nat (?p div 2 ^ 64) :: u64)) = ?p"
    by (simp add: unat_of_nat)
qed

section \<open>Properties\<close>

text \<open>C36. On both dispatch paths of \<open>multiply\<close>, the portable window method and the carry-less multiply
  instruction, the field product is the carry-less product reduced by the field's polynomial: a multiple of
  the polynomial away from it, and of degree below the polynomial's. Of the instruction nothing is assumed but
  that it multiplies two words carry-lessly.\<close>

theorem gf_multiply_is_product_mod:
  assumes "length a = gf_limbs F" "length b = gf_limbs F" "\<forall>clm \<in> set_option hw. multiplies_carryless clm"
  shows "length (gf_multiply hw F a b) = gf_limbs F \<and> lv (gf_multiply hw F a b) < 2 ^ gf_m F \<and>
    (\<exists>q. clmul (lv a) (lv b) = clmul q (gf_poly F) XOR lv (gf_multiply hw F a b))"
proof -
  have eq: "gf_multiply hw F a b = gf_multiply None F a b"
    using assms poly_mul_wide_hw_eq [OF _ assms(1,2)] by (cases hw) (simp_all add: gf_multiply_def)
  note val = gf_multiply_value [OF assms(1,2)]
  have "lv (gf_multiply None F a b) < 2 ^ gf_m F"
    using lv_less [of "gf_multiply None F a b"] val(1) by (simp add: gf_m_limbs)
  moreover have "\<exists>q. clmul (lv a) (lv b) = clmul q (gf_poly F) XOR lv (gf_multiply None F a b)"
    using val(2) unfolding pcong_def by (metis xor.commute xor_left_self)
  ultimately show ?thesis using val(1) unfolding eq by blast
qed

theorem gf_multiply_is_product_mod_witness:
  "\<exists>clm q. multiplies_carryless clm \<and> length (gf_multiply (Some clm) Gf2m128 [3, 5] [7, 11]) = 2 \<and>
    clmul (lv [3, 5]) (lv [7, 11]) = clmul q (gf_poly Gf2m128) XOR lv (gf_multiply (Some clm) Gf2m128 [3, 5] [7, 11])"
  using gf_multiply_is_product_mod [of "[3, 5]" Gf2m128 "[7, 11]" "Some (\<lambda>x y. (word_of_nat (clmul (unat x) (unat y)),
      word_of_nat (clmul (unat x) (unat y) div 2 ^ 64)))"] carryless_instance by auto

text \<open>The word-wise reduction gives the words of the bit-serial reduction it replaced, on every
  double-width input.\<close>

theorem reduce_matches_bit_serial_reference:
  assumes "length c = 2 * gf_limbs F"
  shows "reduce F c = reduce_bit_serial_reference F c"
  using reduce_value [OF assms] reduce_bit_serial_value [OF assms]
  by (intro reduced_unique) (auto intro: pcong_trans pcong_sym)

theorem reduce_matches_bit_serial_reference_witness:
  "reduce Gf2m256 (replicate 8 0xFFFFFFFFFFFFFFFF) = reduce_bit_serial_reference Gf2m256 (replicate 8 0xFFFFFFFFFFFFFFFF)"
  using reduce_matches_bit_serial_reference [of "replicate 8 0xFFFFFFFFFFFFFFFF" Gf2m256] by simp

text \<open>The two dispatch paths of \<open>multiply\<close> agree: with any instruction that multiplies
  carry-lessly, the hardware path gives the product of the portable window method.\<close>

theorem multiply_dispatch_agrees:
  assumes "multiplies_carryless clm" "length a = gf_limbs F" "length b = gf_limbs F"
  shows "gf_multiply (Some clm) F a b = gf_multiply None F a b"
  using poly_mul_wide_hw_eq [OF assms] by (simp add: gf_multiply_def)

theorem multiply_dispatch_agrees_witness:
  "gf_multiply (Some (\<lambda>x y. (word_of_nat (clmul (unat x) (unat y)), word_of_nat (clmul (unat x) (unat y) div 2 ^ 64))))
     Gf2m128 [1, 2] [3, 4] = gf_multiply None Gf2m128 [1, 2] [3, 4]"
  using multiply_dispatch_agrees [OF carryless_instance, of "[1, 2]" Gf2m128 "[3, 4]"] by simp

text \<open>\<open>double\<close>, the tweak step of XTS, is multiplication by the field element \<open>x\<close>.\<close>

theorem double_matches_general_multiply_by_two:
  assumes "length a = gf_limbs F"
  shows "gf_double F a = gf_multiply None F a (2 # replicate (gf_limbs F - 1) 0)"
proof (rule sym, rule gf_multiply_eqI)
  have "clmul (lv a) (lv (2 # replicate (gf_limbs F - 1) 0)) = push_bit 1 (lv a)"
    using clmul_push_right [of "lv a" 1 1] by (simp add: lv_small push_bit_eq_mult)
  then show "pcong (gf_poly F) (clmul (lv a) (lv (2 # replicate (gf_limbs F - 1) 0))) (lv (gf_double F a))"
    using gf_double_value(2) [OF assms] by simp
qed (use assms gf_limbs_ge [of F] gf_double_value(1) [OF assms] in simp_all)

theorem double_matches_general_multiply_by_two_witness:
  "gf_double Gf2m128 [0, 0x8000000000000000] = gf_multiply None Gf2m128 [0, 0x8000000000000000] [2, 0]"
  using double_matches_general_multiply_by_two [of "[0, 0x8000000000000000]" Gf2m128] by simp

text \<open>The elements form a commutative ring: the product is commutative and associative,
  distributes over \<open>add\<close>, and has the element 1 as its unit.\<close>

theorem gf_ring_laws:
  assumes "length a = gf_limbs F" "length b = gf_limbs F" "length c = gf_limbs F"
  shows "gf_multiply None F a b = gf_multiply None F b a \<and>
    gf_multiply None F (gf_multiply None F a b) c = gf_multiply None F a (gf_multiply None F b c) \<and>
    gf_multiply None F (gf_add F a b) c = gf_add F (gf_multiply None F a c) (gf_multiply None F b c) \<and>
    gf_multiply None F a (1 # replicate (gf_limbs F - 1) 0) = a"
proof (intro conjI)
  note ab = gf_multiply_value [OF assms(1,2)] and bc = gf_multiply_value [OF assms(2,3)]
    and ac = gf_multiply_value [OF assms(1,3)] and ba = gf_multiply_value [OF assms(2,1)]
  note abc = gf_multiply_value [OF assms(1) bc(1)]
  show "gf_multiply None F a b = gf_multiply None F b a"
    using ba by (intro gf_multiply_eqI) (simp_all add: assms clmul_commute [of "lv a"])
  have "pcong (gf_poly F) (clmul (lv (gf_multiply None F a b)) (lv c)) (clmul (clmul (lv a) (lv b)) (lv c))"
    by (rule pcong_sym [OF pcong_clmul [OF ab(2)]])
  moreover have "pcong (gf_poly F) (clmul (clmul (lv a) (lv b)) (lv c)) (clmul (lv a) (lv (gf_multiply None F b c)))"
    using pcong_clmul [OF bc(2), of "lv a"] by (simp only: clmul_assoc clmul_commute [of _ "lv a"])
  ultimately show "gf_multiply None F (gf_multiply None F a b) c = gf_multiply None F a (gf_multiply None F b c)"
    using abc ab(1) by (intro gf_multiply_eqI) (auto simp: assms intro: pcong_trans)
  have "pcong (gf_poly F) (clmul (lv (gf_add F a b)) (lv c))
      (lv (gf_add F (gf_multiply None F a c) (gf_multiply None F b c)))"
    using pcong_xor [OF ac(2) bc(2)] ac(1) bc(1) by (simp add: lv_gf_add assms clmul_xor_left)
  then show "gf_multiply None F (gf_add F a b) c = gf_add F (gf_multiply None F a c) (gf_multiply None F b c)"
    by (intro gf_multiply_eqI) (simp_all add: assms)
  show "gf_multiply None F a (1 # replicate (gf_limbs F - 1) 0) = a"
    using gf_limbs_ge [of F] by (intro gf_multiply_eqI) (simp_all add: assms lv_small)
qed

theorem gf_ring_laws_witness:
  "gf_multiply None Gf2m128 [1, 2] [3, 4] = gf_multiply None Gf2m128 [3, 4] [1, 2] \<and>
    gf_multiply None Gf2m128 (gf_multiply None Gf2m128 [1, 2] [3, 4]) [5, 6] =
      gf_multiply None Gf2m128 [1, 2] (gf_multiply None Gf2m128 [3, 4] [5, 6]) \<and>
    gf_multiply None Gf2m128 (gf_add Gf2m128 [1, 2] [3, 4]) [5, 6] =
      gf_add Gf2m128 (gf_multiply None Gf2m128 [1, 2] [5, 6]) (gf_multiply None Gf2m128 [3, 4] [5, 6]) \<and>
    gf_multiply None Gf2m128 [1, 2] [1, 0] = [1, 2]"
  using gf_ring_laws [of "[1, 2]" Gf2m128 "[3, 4]" "[5, 6]"] by auto

end
