(* ===== verification/Kalyna_Xts.thy ===== *)
theory Kalyna_Xts
  imports Kalyna Gf2m_Wide
begin

text \<open>
  \<open>crates/dstu-core/src/hazmat/kalyna_xts.rs\<close>: the tweaked disk-sector mode. Block \<open>i\<close> is masked
  before and after the cipher with the tweak \<open>E_K(iv)\<close> doubled \<open>i\<close> times in the field of the
  block size; a partial last block steals from the block before it. The theory proves that
  decryption inverts encryption for every length of at least one block, stealing included.
\<close>

datatype xts_error = InvalidLength

record kalyna_xts =
  xts_key :: expanded_key

fun v_gf :: "kalyna_variant \<Rightarrow> gf_field" where
  "v_gf Kalyna128_128 = Gf2m128"
| "v_gf Kalyna128_256 = Gf2m128"
| "v_gf Kalyna256_256 = Gf2m256"
| "v_gf Kalyna256_512 = Gf2m256"
| "v_gf Kalyna512_512 = Gf2m512"

definition xor_block :: "bytes \<Rightarrow> bytes \<Rightarrow> bytes" where
  "xor_block buf other = xor_into buf other"

definition xts_new :: "kalyna_variant \<Rightarrow> bytes \<Rightarrow> kalyna_xts option" where
  "xts_new v key = map_option (\<lambda>ek. \<lparr>xts_key = ek\<rparr>) (expanded_key_new v key)"

text \<open>One block under one tweak: mask, run the block function, mask.\<close>

definition xts_tweaked :: "(bytes \<Rightarrow> bytes) \<Rightarrow> gf_field \<Rightarrow> u64 list \<Rightarrow> bytes \<Rightarrow> bytes" where
  "xts_tweaked f F gamma block =
     xor_block (f (xor_block block (gf_to_le_bytes F gamma))) (gf_to_le_bytes F gamma)"

fun xts_blocks :: "(bytes \<Rightarrow> bytes) \<Rightarrow> gf_field \<Rightarrow> u64 list \<Rightarrow> bytes list \<Rightarrow> bytes list \<times> u64 list" where
  "xts_blocks f F gamma [] = ([], gamma)"
| "xts_blocks f F gamma (block # blocks) =
     (let gamma = gf_double F gamma; (out, gamma') = xts_blocks f F gamma blocks
      in (xts_tweaked f F gamma block # out, gamma'))"

definition xts_encrypt_in_place :: "kalyna_variant \<Rightarrow> kalyna_xts \<Rightarrow> bytes \<Rightarrow> bytes \<Rightarrow> xts_error + bytes" where
  "xts_encrypt_in_place v self iv buffer =
     (let n = length buffer; bl = block_bytes v; F = v_gf v; enc = encrypt_block v (xts_key self) in
      if n < bl then Inl InvalidLength
      else let gamma = gf_from_le_bytes F (enc iv); k = n div bl; r = n mod bl in
        if r = 0 then Inr (concat (fst (xts_blocks enc F gamma (chunks_exact bl buffer))))
        else let (out, gamma) = xts_blocks enc F gamma (chunks_exact bl (take (k * bl) buffer));
                 buffer = concat out @ drop (k * bl) buffer;
                 last_off = (k - 1) * bl;
                 tail_off = k * bl;
                 scratch = slice last_off (last_off + bl) buffer;
                 combined = slice tail_off (tail_off + r) buffer @ drop r scratch;
                 gamma = gf_double F gamma;
                 combined = xts_tweaked enc F gamma combined;
                 buffer = write_at buffer last_off combined;
                 buffer = write_at buffer tail_off (take r scratch)
             in Inr buffer)"

definition xts_decrypt_in_place :: "kalyna_variant \<Rightarrow> kalyna_xts \<Rightarrow> bytes \<Rightarrow> bytes \<Rightarrow> xts_error + bytes" where
  "xts_decrypt_in_place v self iv buffer =
     (let n = length buffer; bl = block_bytes v; F = v_gf v; dec = decrypt_block v (xts_key self) in
      if n < bl then Inl InvalidLength
      else let gamma = gf_from_le_bytes F (encrypt_block v (xts_key self) iv); k = n div bl; r = n mod bl in
        if r = 0 then Inr (concat (fst (xts_blocks dec F gamma (chunks_exact bl buffer))))
        else let (out, gamma) = xts_blocks dec F gamma (chunks_exact bl (take ((k - 1) * bl) buffer));
                 buffer = concat out @ drop ((k - 1) * bl) buffer;
                 gamma_k = gf_double F gamma;
                 gamma_k_plus_1 = gf_double F gamma_k;
                 last_off = (k - 1) * bl;
                 tail_off = k * bl;
                 combined = slice last_off (last_off + bl) buffer;
                 combined = xts_tweaked dec F gamma_k_plus_1 combined;
                 reconstructed = slice tail_off (tail_off + r) buffer @ drop r combined;
                 reconstructed = xts_tweaked dec F gamma_k reconstructed;
                 buffer = write_at buffer last_off reconstructed;
                 buffer = write_at buffer tail_off (take r combined)
             in Inr buffer)"

section \<open>Laws of the tweaked blocks\<close>

lemma v_gf_limbs: "8 * gf_limbs (v_gf v) = block_bytes v"
  by (cases v) simp_all

context block_cipher
begin

lemma tweaked_inverse:
  assumes "valid k" "length b = bl" "8 * length g = bl"
  shows "length (xts_tweaked (E k) F g b) = bl" "xts_tweaked (D k) F g (xts_tweaked (E k) F g b) = b"
  using assms by (simp_all add: xts_tweaked_def xor_block_def)

lemma xts_blocks_inverse:
  assumes "valid k" "8 * gf_limbs F = bl"
  shows "\<forall>b \<in> set bs. length b = bl \<Longrightarrow> length g = gf_limbs F \<Longrightarrow>
    (\<forall>b \<in> set (fst (xts_blocks (E k) F g bs)). length b = bl) \<and>
    length (fst (xts_blocks (E k) F g bs)) = length bs \<and> length (snd (xts_blocks (E k) F g bs)) = gf_limbs F \<and>
    xts_blocks (D k) F g (fst (xts_blocks (E k) F g bs)) = (bs, snd (xts_blocks (E k) F g bs))"
proof (induction bs arbitrary: g)
  case (Cons b bs)
  have g: "length (gf_double F g) = gf_limbs F" using Cons.prems by (simp add: gf_double_value)
  have t: "length (xts_tweaked (E k) F (gf_double F g) b) = bl"
    "xts_tweaked (D k) F (gf_double F g) (xts_tweaked (E k) F (gf_double F g) b) = b"
    using Cons.prems assms g by (simp_all add: tweaked_inverse)
  from Cons.IH [OF _ g] Cons.prems t show ?case by (auto simp: Let_def case_prod_beta)
qed simp

end

lemma xts_blocks_append:
  "xts_blocks f F g (xs @ ys) =
     (let (o1, g1) = xts_blocks f F g xs; (o2, g2) = xts_blocks f F g1 ys in (o1 @ o2, g2))"
  by (induction xs arbitrary: g) (simp_all add: Let_def case_prod_beta)

section \<open>Ciphertext stealing\<close>

text \<open>A buffer that is not block-aligned, cut at its last whole block.\<close>

lemma stealing_split:
  assumes "0 < bl" "bl \<le> length buf" "length buf mod bl \<noteq> 0"
  obtains ps p t where "buf = concat ps @ p @ t" "\<forall>b \<in> set ps. length b = bl" "length p = bl"
    "length t = length buf mod bl" "length ps = length buf div bl - 1"
proof -
  let ?k = "length buf div bl"
  let ?bs = "chunks_exact bl buf"
  have bs: "\<forall>b \<in> set ?bs. length b = bl" by (rule chunks_exact_lengths)
  have buf: "concat ?bs @ chunks_remainder bl buf = buf" using assms(1) by (rule chunks_exact_remainder)
  have "length (concat ?bs) = bl * ?k"
    using concat_chunks_exact [OF assms(1), of buf] by simp
  then have k: "length ?bs = ?k" using length_concat_const [OF bs] assms(1) by simp
  then have "?bs \<noteq> []" using assms(1,2) div_greater_zero_iff [of "length buf" bl] by auto
  then have last: "butlast ?bs @ [last ?bs] = ?bs" by simp
  show thesis
  proof (rule that [of "butlast ?bs" "last ?bs" "chunks_remainder bl buf"])
    show "buf = concat (butlast ?bs) @ last ?bs @ chunks_remainder bl buf"
      using buf arg_cong [OF last, of concat] by (metis append.assoc append_Nil2 concat.simps concat_append)
    show "\<forall>b \<in> set (butlast ?bs). length b = bl" using bs by (meson in_set_butlastD)
    show "length (last ?bs) = bl" using bs \<open>?bs \<noteq> []\<close> by simp
    show "length (butlast ?bs) = length buf div bl - 1" using k by simp
  qed (rule length_chunks_remainder)
qed

lemma stealing_lengths:
  assumes "\<forall>b \<in> set ps. length b = bl" "length p = bl" "length t = r" "0 < r" "r < bl"
  shows "length (concat ps @ p @ t) div bl = Suc (length ps)" "length (concat ps @ p @ t) mod bl = r"
    "length (concat ps) = length ps * bl"
proof -
  show c: "length (concat ps) = length ps * bl" using length_concat_const [OF assms(1)] by (simp add: mult.commute)
  have "length (concat ps @ p @ t) = Suc (length ps) * bl + r" using c assms by simp
  then show "length (concat ps @ p @ t) div bl = Suc (length ps)" "length (concat ps @ p @ t) mod bl = r"
    using assms(4,5) by (simp_all del: mult_Suc)
qed

lemma xts_encrypt_stealing:
  fixes v self iv
  defines "enc \<equiv> encrypt_block v (xts_key self)" and "F \<equiv> v_gf v" and "bl \<equiv> block_bytes v"
  assumes ps: "\<forall>b \<in> set ps. length b = bl" "length p = bl" "length t = r" "0 < r" "r < bl"
    and valid: "valid_expanded_key v (xts_key self)"
    and blocks: "xts_blocks enc F (gf_from_le_bytes F (enc iv)) ps = (cs, g)"
    and c: "c = xts_tweaked enc F (gf_double F g) p"
  shows "xts_encrypt_in_place v self iv (concat ps @ p @ t) =
    Inr (concat cs @ xts_tweaked enc F (gf_double F (gf_double F g)) (t @ drop r c) @ take r c)"
proof -
  let ?buf = "concat ps @ p @ t"
  have F: "8 * gf_limbs F = bl" by (simp add: F_def bl_def v_gf_limbs)
  note len = stealing_lengths [OF ps]
  have inv: "\<forall>b \<in> set cs. length b = bl" "length cs = length ps" "length g = gf_limbs F"
    using kalyna.xts_blocks_inverse [OF valid F [unfolded bl_def] ps(1) [unfolded bl_def], of "gf_from_le_bytes F (enc iv)"]
      blocks by (simp_all add: enc_def bl_def)
  have cs: "length (concat cs) = length ps * bl"
    using length_concat_const [OF inv(1)] inv(2) by (simp add: mult.commute)
  have g1: "length (gf_double F g) = gf_limbs F" "length (gf_double F (gf_double F g)) = gf_limbs F"
    using inv(3) by (simp_all add: gf_double_value)
  have lc: "length c = bl"
    using kalyna.tweaked_inverse(1) [OF valid, of p "gf_double F g" F] ps(2) g1 F by (simp add: c enc_def bl_def)
  have lcc: "length (xts_tweaked enc F (gf_double F (gf_double F g)) (t @ drop r c)) = bl"
    using kalyna.tweaked_inverse(1) [OF valid, of "t @ drop r c" "gf_double F (gf_double F g)" F] ps lc g1 F
    by (simp add: enc_def bl_def)
  have "chunks_exact bl (take (Suc (length ps) * bl) ?buf) = ps @ [p]"
  proof -
    have "take (Suc (length ps) * bl) ?buf = concat (ps @ [p])" using len(3) ps(2) by simp
    then show ?thesis using ps by (simp only: chunks_exact_concat) (rule chunks_exact_concat, auto)
  qed
  then have out: "xts_blocks enc F (gf_from_le_bytes F (enc iv)) (chunks_exact bl (take (Suc (length ps) * bl) ?buf)) =
      (cs @ [c], gf_double F g)"
    using blocks by (simp only: xts_blocks_append c) (simp add: Let_def)
  have drop: "drop (Suc (length ps) * bl) ?buf = t" using len(3) ps(2) by simp
  have n: "\<not> length ?buf < bl" using ps by simp
  show ?thesis
    unfolding xts_encrypt_in_place_def Let_def enc_def [symmetric] F_def [symmetric] bl_def [symmetric] len(1,2)
    using n out drop ps cs lc lcc
    by (simp add: slice_middle [where a = "concat cs" and b = c] slice_middle [where a = "concat cs @ c" and c = "[]", simplified]
        write_at_middle [where a = "concat cs" and b = c]
        write_at_middle [where a = "concat cs @ x" and b = t and c = "[]" for x, simplified])
qed

lemma xts_decrypt_stealing:
  fixes v self iv
  defines "dec \<equiv> decrypt_block v (xts_key self)" and "F \<equiv> v_gf v" and "bl \<equiv> block_bytes v"
  assumes cs: "\<forall>b \<in> set cs. length b = bl" "length cc = bl" "length s = r" "0 < r" "r < bl"
    and blocks: "xts_blocks dec F (gf_from_le_bytes F (encrypt_block v (xts_key self) iv)) cs = (ps, g)"
    and ps: "length (concat ps) = length cs * bl"
    and d: "d = xts_tweaked dec F (gf_double F (gf_double F g)) cc" "length d = bl"
    and p: "p = xts_tweaked dec F (gf_double F g) (s @ drop r d)" "length p = bl"
  shows "xts_decrypt_in_place v self iv (concat cs @ cc @ s) = Inr (concat ps @ p @ take r d)"
proof -
  let ?buf = "concat cs @ cc @ s"
  note len = stealing_lengths [OF cs]
  have n: "\<not> length ?buf < bl" using cs by simp
  have "chunks_exact bl (take ((Suc (length cs) - 1) * bl) ?buf) = cs"
    using len(3) cs by (simp add: chunks_exact_concat)
  with blocks have out: "xts_blocks dec F (gf_from_le_bytes F (encrypt_block v (xts_key self) iv))
      (chunks_exact bl (take ((Suc (length cs) - 1) * bl) ?buf)) = (ps, g)" by simp
  have drop: "drop ((Suc (length cs) - 1) * bl) ?buf = cc @ s" using len(3) by simp
  show ?thesis
    unfolding xts_decrypt_in_place_def Let_def dec_def [symmetric] F_def [symmetric] bl_def [symmetric] len(1,2)
    using n out drop cs ps d p
    by (simp add: slice_middle [where a = "concat ps" and b = cc] slice_middle [where a = "concat ps @ cc" and c = "[]", simplified]
        write_at_middle [where a = "concat ps" and b = cc]
        write_at_middle [where a = "concat ps @ x" and b = s and c = "[]" for x, simplified])
qed

lemma xts_stealing_roundtrip:
  assumes "valid_expanded_key v (xts_key self)" "block_bytes v \<le> length buf" "length buf mod block_bytes v \<noteq> 0"
  shows "\<exists>ct. xts_encrypt_in_place v self iv buf = Inr ct \<and> length ct = length buf \<and>
    xts_decrypt_in_place v self iv ct = Inr buf"
proof -
  let ?bl = "block_bytes v" and ?F = "v_gf v" and ?enc = "encrypt_block v (xts_key self)"
  let ?dec = "decrypt_block v (xts_key self)" and ?r = "length buf mod block_bytes v"
  let ?g0 = "gf_from_le_bytes ?F (?enc iv)"
  obtain ps p t where buf: "buf = concat ps @ p @ t" and ps: "\<forall>b \<in> set ps. length b = ?bl" "length p = ?bl"
    "length t = ?r" using stealing_split [OF kalyna.bl_pos assms(2,3)] by metis
  have r: "0 < ?r" "?r < ?bl" using assms(3) kalyna.bl_pos [of v] by simp_all
  obtain cs g where enc: "xts_blocks ?enc ?F ?g0 ps = (cs, g)" by fastforce
  have inv: "\<forall>b \<in> set cs. length b = ?bl" "length cs = length ps" "length g = gf_limbs ?F"
    "xts_blocks ?dec ?F ?g0 cs = (ps, g)"
    using kalyna.xts_blocks_inverse [OF assms(1) v_gf_limbs ps(1), of ?g0] enc by simp_all
  let ?g1 = "gf_double ?F g" let ?g2 = "gf_double ?F ?g1"
  have g: "8 * length ?g1 = ?bl" "8 * length ?g2 = ?bl"
    using inv(3) by (simp_all add: gf_double_value v_gf_limbs)
  let ?c = "xts_tweaked ?enc ?F ?g1 p"
  note c = kalyna.tweaked_inverse [OF assms(1) ps(2) g(1), of ?F]
  let ?cc = "xts_tweaked ?enc ?F ?g2 (t @ drop ?r ?c)"
  have "length (t @ drop ?r ?c) = ?bl" using c(1) ps(3) r by simp
  note cc = kalyna.tweaked_inverse [OF assms(1) this g(2), of ?F]
  have e: "xts_encrypt_in_place v self iv buf = Inr (concat cs @ ?cc @ take ?r ?c)"
    unfolding buf by (rule xts_encrypt_stealing) (use ps r assms(1) enc in \<open>simp_all flip: buf\<close>)
  have lens: "length (concat ps) = length cs * ?bl" "length (concat cs) = length cs * ?bl"
    using length_concat_const [OF ps(1)] length_concat_const [OF inv(1)] inv(2) by (simp_all add: mult.commute)
  have "xts_decrypt_in_place v self iv (concat cs @ ?cc @ take ?r ?c) =
      Inr (concat ps @ p @ take ?r (t @ drop ?r ?c))"
  proof (rule xts_decrypt_stealing [OF inv(1) cc(1) _ r inv(4) lens(1)])
    show "t @ drop ?r ?c = xts_tweaked ?dec ?F ?g2 ?cc" using cc(2) by simp
    have "take ?r ?c @ drop ?r (t @ drop ?r ?c) = ?c" using ps(3) by simp
    then show "p = xts_tweaked ?dec ?F ?g1 (take ?r ?c @ drop ?r (t @ drop ?r ?c))" using c(2) by simp
  qed (use c(1) ps r in simp_all)
  moreover have "concat ps @ p @ take ?r (t @ drop ?r ?c) = buf"
    using ps(3) unfolding buf [symmetric] by (simp add: buf [symmetric])
  moreover have "length (concat cs @ ?cc @ take ?r ?c) = length buf"
  proof -
    have "length buf = length (concat ps) + length p + length t" by (metis buf append.assoc length_append)
    moreover have "length (take ?r ?c) = ?r" using c(1) r by simp
    ultimately show ?thesis using lens cc(1) ps(2,3) by (simp only: length_append)
  qed
  ultimately show ?thesis using e by metis
qed

lemma xts_aligned_roundtrip:
  assumes "valid_expanded_key v (xts_key self)" "block_bytes v \<le> length buf" "length buf mod block_bytes v = 0"
  shows "\<exists>ct. xts_encrypt_in_place v self iv buf = Inr ct \<and> length ct = length buf \<and>
    xts_decrypt_in_place v self iv ct = Inr buf"
proof -
  let ?bl = "block_bytes v" and ?F = "v_gf v" and ?enc = "encrypt_block v (xts_key self)"
  let ?bs = "chunks_exact ?bl buf" and ?g0 = "gf_from_le_bytes (v_gf v) (encrypt_block v (xts_key self) iv)"
  have bs: "\<forall>b \<in> set ?bs. length b = ?bl" by (rule chunks_exact_lengths)
  have buf: "concat ?bs = buf" using assms(3) kalyna.bl_pos by (rule concat_chunks_exact_aligned)
  obtain cs g where enc: "xts_blocks ?enc ?F ?g0 ?bs = (cs, g)" by fastforce
  have inv: "\<forall>b \<in> set cs. length b = ?bl" "length cs = length ?bs"
    "xts_blocks (decrypt_block v (xts_key self)) ?F ?g0 cs = (?bs, g)"
    using kalyna.xts_blocks_inverse [OF assms(1) v_gf_limbs bs, of ?g0] enc by simp_all
  have len: "length (concat cs) = length buf" by (metis length_concat_const inv(1,2) bs buf)
  have "xts_encrypt_in_place v self iv buf = Inr (concat cs)"
    using assms enc by (simp add: xts_encrypt_in_place_def Let_def)
  moreover have "xts_decrypt_in_place v self iv (concat cs) = Inr buf"
    unfolding xts_decrypt_in_place_def Let_def len
    using assms inv(3) by (simp add: chunks_exact_concat [OF inv(1) kalyna.bl_pos] buf)
  ultimately show ?thesis using len by blast
qed

lemma xts_new_valid:
  "length key = key_bytes v \<Longrightarrow> xts_new v key = Some self \<Longrightarrow> valid_expanded_key v (xts_key self)"
  by (auto simp: xts_new_def expanded_key_new_valid)

section \<open>Properties\<close>

text \<open>XTS refuses exactly the buffers below one block; every other length, aligned or with
  ciphertext stealing, keeps its length and is restored by decryption under the same tweak
  seed.\<close>

theorem xts_roundtrip:
  assumes "length key = key_bytes v" "xts_new v key = Some self"
  shows "if length buf < block_bytes v
    then xts_encrypt_in_place v self iv buf = Inl InvalidLength \<and>
      xts_decrypt_in_place v self iv buf = Inl InvalidLength
    else \<exists>ct. xts_encrypt_in_place v self iv buf = Inr ct \<and> length ct = length buf \<and>
      xts_decrypt_in_place v self iv ct = Inr buf"
proof (cases "length buf < block_bytes v")
  case True
  then show ?thesis by (simp add: xts_encrypt_in_place_def xts_decrypt_in_place_def Let_def)
next
  case False
  then show ?thesis
    using xts_stealing_roundtrip [OF xts_new_valid [OF assms], of buf iv]
      xts_aligned_roundtrip [OF xts_new_valid [OF assms], of buf iv]
    by (cases "length buf mod block_bytes v = 0") simp_all
qed

theorem xts_roundtrip_witness:
  "\<exists>self. xts_new Kalyna128_256 (replicate 32 7) = Some self \<and>
    (\<exists>ct. xts_encrypt_in_place Kalyna128_256 self (replicate 16 1) (replicate 37 2) = Inr ct \<and> length ct = 37 \<and>
      xts_decrypt_in_place Kalyna128_256 self (replicate 16 1) ct = Inr (replicate 37 2))"
proof -
  obtain self where "xts_new Kalyna128_256 (replicate 32 7) = Some self"
    using expanded_key_new_total [of "replicate 32 7" Kalyna128_256] by (auto simp: xts_new_def)
  then show ?thesis
    using xts_roundtrip [of "replicate 32 7" Kalyna128_256 self "replicate 37 2" "replicate 16 1"] by simp
qed

end
