(* ===== verification/Kalyna_Kw.thy ===== *)
theory Kalyna_Kw
  imports Kalyna
begin

text \<open>
  \<open>crates/dstu-core/src/hazmat/kalyna_kw.rs\<close>: the key wrap. The message and an appended zero block
  are cut into half blocks and turned through the cipher \<open>v = 6 (n - 1)\<close> times; unwrapping turns
  back and insists on the zero block. \<open>out_len\<close> is the length of the caller's output slice, which
  both operations check before anything is computed.
\<close>

datatype kw_error = InvalidLength | ChecksumMismatch

definition MAX_R :: nat where "MAX_R = 20"

definition MAX_B_SLOTS :: nat where "MAX_B_SLOTS = 2 * MAX_R + 1"

definition half_bytes :: "kalyna_variant \<Rightarrow> nat" where
  "half_bytes v = block_bytes v div 2"

definition kw_tweak :: "nat \<Rightarrow> bytes" where
  "kw_tweak i = to_le_bytes 4 (of_nat i :: u32)"

text \<open>The bodies of the two loops over \<open>i\<close>; the slots below \<open>n - 1\<close> shift by one place.\<close>

definition kw_wrap_step :: "(bytes \<Rightarrow> bytes) \<Rightarrow> nat \<Rightarrow> nat \<Rightarrow> nat \<Rightarrow> bytes \<times> bytes list \<Rightarrow> bytes \<times> bytes list" where
  "kw_wrap_step enc half n i = (\<lambda>(big_b, b).
     let block = big_b @ b ! 0;
         tweaked = enc block;
         tweaked = take half tweaked @ xor_into (drop half tweaked) (kw_tweak i)
     in (drop half tweaked, slice 1 (n - 1) b @ [take half tweaked] @ drop (n - 1) b))"

definition kw_unwrap_step :: "(bytes \<Rightarrow> bytes) \<Rightarrow> nat \<Rightarrow> nat \<Rightarrow> nat \<Rightarrow> bytes \<times> bytes list \<Rightarrow> bytes \<times> bytes list" where
  "kw_unwrap_step dec half n i = (\<lambda>(big_b, b).
     let last = b ! (n - 2);
         tweaked_b = xor_into big_b (kw_tweak i);
         d = dec (last @ tweaked_b)
     in (take half d, [drop half d] @ take (n - 2) b @ drop (n - 1) b))"

definition kw_wrap_with_cipher :: "kalyna_variant \<Rightarrow> expanded_key \<Rightarrow> bytes \<Rightarrow> nat \<Rightarrow> kw_error + bytes" where
  "kw_wrap_with_cipher v cipher plaintext out_len =
     (let bl = block_bytes v; half = half_bytes v in
      if plaintext = [] \<or> length plaintext mod bl \<noteq> 0 \<or> length plaintext div bl > MAX_R \<or>
         out_len \<noteq> length plaintext + bl
      then Inl InvalidLength
      else let r = length plaintext div bl;
               n = 2 * (r + 1);
               steps = (n - 1) * 6;
               big_b = take half plaintext;
               slots = chunks_exact half (drop half plaintext);
               b = slots @ replicate (MAX_B_SLOTS - length slots) (replicate half 0);
               (big_b, b) = fold (kw_wrap_step (encrypt_block v cipher) half n) [1..<Suc steps] (big_b, b)
           in Inr (big_b @ concat (take (n - 1) b)))"

definition kw_unwrap_with_cipher :: "kalyna_variant \<Rightarrow> expanded_key \<Rightarrow> bytes \<Rightarrow> nat \<Rightarrow> kw_error + bytes" where
  "kw_unwrap_with_cipher v cipher ciphertext out_len =
     (let bl = block_bytes v; half = half_bytes v in
      if length ciphertext < 2 * bl \<or> length ciphertext mod bl \<noteq> 0 \<or>
         length ciphertext div bl - 1 > MAX_R \<or> out_len \<noteq> length ciphertext - bl
      then Inl InvalidLength
      else let r = length ciphertext div bl - 1;
               n = 2 * (r + 1);
               steps = (n - 1) * 6;
               big_b = take half ciphertext;
               slots = chunks_exact half (drop half ciphertext);
               b = slots @ replicate (MAX_B_SLOTS - length slots) (replicate half 0);
               (big_b, b) = fold (kw_unwrap_step (decrypt_block v cipher) half n) (rev [1..<Suc steps]) (big_b, b)
           in if b ! (n - 3) = replicate half 0 \<and> b ! (n - 2) = replicate half 0
              then Inr (big_b @ concat (take (n - 3) b))
              else Inl ChecksumMismatch)"

definition kw_wrap :: "kalyna_variant \<Rightarrow> bytes \<Rightarrow> bytes \<Rightarrow> nat \<Rightarrow> (kw_error + bytes) option" where
  "kw_wrap v key plaintext out_len =
     map_option (\<lambda>cipher. kw_wrap_with_cipher v cipher plaintext out_len) (expanded_key_new v key)"

definition kw_unwrap :: "kalyna_variant \<Rightarrow> bytes \<Rightarrow> bytes \<Rightarrow> nat \<Rightarrow> (kw_error + bytes) option" where
  "kw_unwrap v key ciphertext out_len =
     map_option (\<lambda>cipher. kw_unwrap_with_cipher v cipher ciphertext out_len) (expanded_key_new v key)"

section \<open>The turns are mutually inverse\<close>

definition kw_state_ok :: "nat \<Rightarrow> nat \<Rightarrow> bytes \<times> bytes list \<Rightarrow> bool" where
  "kw_state_ok half n s \<longleftrightarrow> length (fst s) = half \<and> n - 1 \<le> length (snd s) \<and> (\<forall>b \<in> set (snd s). length b = half)"

lemma length_kw_tweak [simp]: "length (kw_tweak i) = 4"
  by (simp add: kw_tweak_def)

lemma slots_rotate: "2 \<le> n \<Longrightarrow> n - 1 \<le> length b \<Longrightarrow> b ! 0 # slice 1 (n - 1) b @ drop (n - 1) b = b"
proof -
  assume n: "2 \<le> n" "n - 1 \<le> length b"
  then obtain m where m: "n = Suc (Suc m)" by (metis Suc_le_D numeral_2_eq_2 Suc_le_mono)
  with n show ?thesis by (cases b) (simp_all add: slice_def)
qed

lemma slots_rotate_back: "2 \<le> n \<Longrightarrow> n - 1 \<le> length b \<Longrightarrow> take (n - 2) b @ b ! (n - 2) # drop (n - 1) b = b"
proof -
  assume n: "2 \<le> n" "n - 1 \<le> length b"
  then have "n - 1 = Suc (n - 2)" "n - 2 < length b" by simp_all
  then show ?thesis by (simp add: id_take_nth_drop [symmetric])
qed

context block_cipher
begin

lemma kw_steps_inverse:
  assumes "valid k" "bl = 2 * half" "2 \<le> n" "kw_state_ok half n s"
  shows "kw_state_ok half n (kw_wrap_step (E k) half n i s)"
    and "kw_unwrap_step (D k) half n i (kw_wrap_step (E k) half n i s) = s"
    and "kw_state_ok half n (kw_unwrap_step (D k) half n i s)"
    and "kw_wrap_step (E k) half n i (kw_unwrap_step (D k) half n i s) = s"
proof -
  obtain x b where s: "s = (x, b)" by (cases s)
  have x: "length x = half" and b: "n - 1 \<le> length b" "\<forall>y \<in> set b. length y = half"
    using assms(4) by (simp_all add: kw_state_ok_def s)
  have n: "n - 1 = Suc (n - 2)" "n - 2 < length b" "b \<noteq> []" using assms(3) b by auto
  have nth: "length (b ! 0) = half" "length (b ! (n - 2)) = half" using b n by auto
  let ?e = "E k (x @ b ! 0)"
  have e: "length ?e = 2 * half" using assms(1,2) x nth by simp
  let ?b1 = "slice 1 (n - 1) b @ [take half ?e] @ drop (n - 1) b"
  have wrap: "kw_wrap_step (E k) half n i s = (xor_into (drop half ?e) (kw_tweak i), ?b1)"
    using e by (simp add: kw_wrap_step_def s Let_def)
  have len1: "length (slice 1 (n - 1) b) = n - 2" using b n by simp
  show "kw_state_ok half n (kw_wrap_step (E k) half n i s)"
    unfolding wrap kw_state_ok_def using e b n len1
    by (auto simp: slice_def dest!: in_set_takeD in_set_dropD)
  have "?b1 ! (n - 2) = take half ?e" "take (n - 2) ?b1 = slice 1 (n - 1) b" "drop (n - 1) ?b1 = drop (n - 1) b"
  proof -
    obtain m where m: "n = Suc (Suc m)" using n(1) by (metis Suc_diff_1 assms(3) diff_Suc_1 less_le_trans zero_less_numeral)
    show "?b1 ! (n - 2) = take half ?e" "take (n - 2) ?b1 = slice 1 (n - 1) b" "drop (n - 1) ?b1 = drop (n - 1) b"
      using len1 by (simp_all add: nth_append m)
  qed
  moreover have "D k ?e = x @ b ! 0" using assms(1,2) x nth by simp
  ultimately have "kw_unwrap_step (D k) half n i (xor_into (drop half ?e) (kw_tweak i), ?b1) =
      (take half (x @ b ! 0), [drop half (x @ b ! 0)] @ slice 1 (n - 1) b @ drop (n - 1) b)"
    by (simp only: kw_unwrap_step_def Let_def prod.case xor_into_twice append_take_drop_id)
  then show "kw_unwrap_step (D k) half n i (kw_wrap_step (E k) half n i s) = s"
    using slots_rotate [OF assms(3) b(1)] x unfolding wrap by (simp add: s)
  let ?d = "D k (b ! (n - 2) @ xor_into x (kw_tweak i))"
  have d: "length ?d = 2 * half" "E k ?d = b ! (n - 2) @ xor_into x (kw_tweak i)"
    using assms(1,2) x nth by simp_all
  let ?b2 = "drop half ?d # take (n - 2) b @ drop (n - 1) b"
  have unwrap: "kw_unwrap_step (D k) half n i s = (take half ?d, ?b2)"
    by (simp add: kw_unwrap_step_def s Let_def)
  show "kw_state_ok half n (kw_unwrap_step (D k) half n i s)"
    unfolding unwrap kw_state_ok_def using d b n by (auto dest!: in_set_takeD in_set_dropD)
  have "slice 1 (n - 1) ?b2 = take (n - 2) b" "drop (n - 1) ?b2 = drop (n - 1) b"
    using n by (simp_all add: slice_def)
  moreover have "take half ?d @ ?b2 ! 0 = ?d" "take half (E k ?d) = b ! (n - 2)"
    "xor_into (drop half (E k ?d)) (kw_tweak i) = x" using d(2) nth by simp_all
  ultimately have "kw_wrap_step (E k) half n i (take half ?d, ?b2) =
      (drop half (b ! (n - 2) @ x), take (n - 2) b @ [take half (b ! (n - 2) @ x)] @ drop (n - 1) b)"
    by (simp only: kw_wrap_step_def Let_def prod.case)
  then show "kw_wrap_step (E k) half n i (kw_unwrap_step (D k) half n i s) = s"
    using slots_rotate_back [OF assms(3) b(1)] nth unfolding unwrap by (simp add: s)
qed

lemma kw_turns_inverse:
  assumes "valid k" "bl = 2 * half" "2 \<le> n" "kw_state_ok half n s"
  shows "kw_state_ok half n (fold (kw_wrap_step (E k) half n) is s) \<and>
    fold (kw_unwrap_step (D k) half n) (rev is) (fold (kw_wrap_step (E k) half n) is s) = s"
    and "kw_state_ok half n (fold (kw_unwrap_step (D k) half n) is s) \<and>
    fold (kw_wrap_step (E k) half n) (rev is) (fold (kw_unwrap_step (D k) half n) is s) = s"
proof -
  show "kw_state_ok half n (fold (kw_wrap_step (E k) half n) is s) \<and>
    fold (kw_unwrap_step (D k) half n) (rev is) (fold (kw_wrap_step (E k) half n) is s) = s"
    using assms(4)
  proof (induction "is" arbitrary: s)
    case (Cons i "is")
    note step = kw_steps_inverse [OF assms(1-3) Cons.prems, of i]
    from Cons.IH [OF step(1)] step(2) show ?case by simp
  qed simp
  show "kw_state_ok half n (fold (kw_unwrap_step (D k) half n) is s) \<and>
    fold (kw_wrap_step (E k) half n) (rev is) (fold (kw_unwrap_step (D k) half n) is s) = s"
    using assms(4)
  proof (induction "is" arbitrary: s)
    case (Cons i "is")
    note step = kw_steps_inverse [OF assms(1-3) Cons.prems, of i]
    from Cons.IH [OF step(3)] step(4) show ?case by simp
  qed simp
qed

end

section \<open>Messages and halves\<close>

lemma half_bytes_double: "block_bytes v = 2 * half_bytes v" "0 < half_bytes v"
  by (cases v; simp add: half_bytes_def)+

text \<open>A message of \<open>m\<close> half blocks as the first half and the slots of the others.\<close>

lemma halves_message:
  assumes "0 < half" "length xs = half * Suc m"
  shows "take half xs @ concat (chunks_exact half (drop half xs)) = xs"
    "length (chunks_exact half (drop half xs)) = m" "length (take half xs) = half"
proof -
  show "length (chunks_exact half (drop half xs)) = m"
    using assms by (simp add: chunks_exact_count)
  have "length (drop half xs) mod half = 0" using assms(2) by simp
  then show "take half xs @ concat (chunks_exact half (drop half xs)) = xs"
    using assms(1) by (simp add: concat_chunks_exact_aligned)
qed (use assms in simp)

lemma halves_of_parts:
  assumes "0 < half" "length x = half" "\<forall>b \<in> set bs. length b = half"
  shows "take half (x @ concat bs) = x" "chunks_exact half (drop half (x @ concat bs)) = bs"
    "length (x @ concat bs) = half * Suc (length bs)"
  using assms length_concat_const [OF assms(3)] by (simp_all add: chunks_exact_concat)

text \<open>Both directions over the same slots: \<open>m\<close> message halves after the first, two zero halves.\<close>

lemma kw_steps_drop:
  "2 \<le> n \<Longrightarrow> n - 1 \<le> length (snd s) \<Longrightarrow> length (snd (kw_wrap_step enc half n i s)) = length (snd s) \<and>
     drop (n - 1) (snd (kw_wrap_step enc half n i s)) = drop (n - 1) (snd s)"
  "2 \<le> n \<Longrightarrow> n - 1 \<le> length (snd s) \<Longrightarrow> length (snd (kw_unwrap_step dec half n i s)) = length (snd s) \<and>
     drop (n - 1) (snd (kw_unwrap_step dec half n i s)) = drop (n - 1) (snd s)"
proof -
  assume n: "2 \<le> n" "n - 1 \<le> length (snd s)"
  then obtain m where m: "n = Suc (Suc m)" by (metis Suc_le_D numeral_2_eq_2 Suc_le_mono)
  show "length (snd (kw_wrap_step enc half n i s)) = length (snd s) \<and>
      drop (n - 1) (snd (kw_wrap_step enc half n i s)) = drop (n - 1) (snd s)"
    using n by (simp add: kw_wrap_step_def Let_def case_prod_beta slice_def m)
  show "length (snd (kw_unwrap_step dec half n i s)) = length (snd s) \<and>
      drop (n - 1) (snd (kw_unwrap_step dec half n i s)) = drop (n - 1) (snd s)"
    using n by (simp add: kw_unwrap_step_def Let_def case_prod_beta m)
qed

lemma kw_turns_drop:
  assumes "2 \<le> n"
  shows "n - 1 \<le> length (snd s) \<Longrightarrow> drop (n - 1) (snd (fold (kw_wrap_step enc half n) is s)) = drop (n - 1) (snd s)"
    and "n - 1 \<le> length (snd s) \<Longrightarrow> drop (n - 1) (snd (fold (kw_unwrap_step dec half n) is s)) = drop (n - 1) (snd s)"
proof -
  show "n - 1 \<le> length (snd s) \<Longrightarrow> drop (n - 1) (snd (fold (kw_wrap_step enc half n) is s)) = drop (n - 1) (snd s)"
  proof (induction "is" arbitrary: s)
    case (Cons i "is")
    from Cons.IH [of "kw_wrap_step enc half n i s"] kw_steps_drop(1) [OF assms Cons.prems, of enc half i] Cons.prems
    show ?case by simp
  qed simp
  show "n - 1 \<le> length (snd s) \<Longrightarrow> drop (n - 1) (snd (fold (kw_unwrap_step dec half n) is s)) = drop (n - 1) (snd s)"
  proof (induction "is" arbitrary: s)
    case (Cons i "is")
    from Cons.IH [of "kw_unwrap_step dec half n i s"] kw_steps_drop(2) [OF assms Cons.prems, of dec half i] Cons.prems
    show ?case by simp
  qed simp
qed

lemma drop_exact: "length a = n \<Longrightarrow> drop n (a @ b) = b"
  by simp

lemma take_exact: "length a = n \<Longrightarrow> take n (a @ b) = a"
  by simp

lemma split_two: "Suc (Suc k) \<le> length xs \<Longrightarrow> xs = take k xs @ [xs ! k, xs ! Suc k] @ drop (Suc (Suc k)) xs"
  by (simp add: Cons_nth_drop_Suc)

lemma kw_wrap_iff_unwrap:
  assumes "valid_expanded_key v ek" "length pt = block_bytes v * r" "0 < r" "r \<le> MAX_R"
    and "length ct = block_bytes v * Suc r"
  shows "kw_wrap_with_cipher v ek pt (length pt + block_bytes v) = Inr ct \<longleftrightarrow>
    kw_unwrap_with_cipher v ek ct (length ct - block_bytes v) = Inr pt"
    and "\<exists>c. kw_wrap_with_cipher v ek pt (length pt + block_bytes v) = Inr c \<and> length c = block_bytes v * Suc r"
    and "kw_unwrap_with_cipher v ek ct (length ct - block_bytes v) = Inr p \<Longrightarrow> length p = block_bytes v * r"
proof -
  let ?bl = "block_bytes v" and ?h = "half_bytes v" and ?n = "2 * (r + 1)" and ?z = "replicate (half_bytes v) (0 :: u8)"
  note h = half_bytes_double [of v]
  define ps where "ps = chunks_exact ?h (drop ?h pt)"
  define cs where "cs = chunks_exact ?h (drop ?h ct)"
  have "length pt = ?h * Suc (2 * r - 1)" "length ct = ?h * Suc (2 * r + 1)" using assms(2,3,5) h by auto
  note pt = halves_message [OF h(2) this(1), folded ps_def] and ct = halves_message [OF h(2) this(2), folded cs_def]
  have bl: "length pt mod ?bl = 0" "length pt div ?bl = r" "length ct mod ?bl = 0" "length ct div ?bl = Suc r"
    "pt \<noteq> []" "\<not> length ct < 2 * ?bl"
    using assms(2,3,5) kalyna.bl_pos [of v] by auto
  let ?is = "[1..<Suc ((?n - 1) * 6)]"
  let ?pad = "replicate (MAX_B_SLOTS - (2 * r + 1)) ?z"
  let ?s = "(take ?h pt, (ps @ [?z, ?z]) @ ?pad)" and ?t = "(take ?h ct, cs @ ?pad)"
  let ?W = "fold (kw_wrap_step (encrypt_block v ek) ?h ?n) ?is"
  let ?U = "fold (kw_unwrap_step (decrypt_block v ek) ?h ?n) (rev ?is)"
  have slots: "MAX_B_SLOTS - (2 * r - 1) = 2 + (MAX_B_SLOTS - (2 * r + 1))"
    using assms(3,4) by (simp add: MAX_B_SLOTS_def)
  have lens: "length (ps @ [?z, ?z]) = ?n - 1" "length cs = ?n - 1" using pt(2) ct(2) assms(3) by simp_all
  have halves: "\<forall>b \<in> set ps. length b = ?h" "\<forall>b \<in> set cs. length b = ?h"
    unfolding ps_def cs_def by (rule chunks_exact_lengths)+
  have ok: "kw_state_ok ?h ?n ?s" "kw_state_ok ?h ?n ?t"
    using lens pt(3) ct(3) halves by (auto simp: kw_state_ok_def)
  have wrap: "kw_wrap_with_cipher v ek pt (length pt + ?bl) = Inr (fst (?W ?s) @ concat (take (?n - 1) (snd (?W ?s))))"
    using bl pt(2) slots assms(4)
    by (simp add: kw_wrap_with_cipher_def Let_def ps_def [symmetric] case_prod_beta replicate_add
        numeral_2_eq_2 del: upt_Suc)
  have unwrap: "kw_unwrap_with_cipher v ek ct (length ct - ?bl) =
      (if snd (?U ?t) ! (?n - 3) = ?z \<and> snd (?U ?t) ! (?n - 2) = ?z
       then Inr (fst (?U ?t) @ concat (take (?n - 3) (snd (?U ?t)))) else Inl ChecksumMismatch)"
    using bl ct(2) slots assms(4)
    by (simp add: kw_unwrap_with_cipher_def Let_def cs_def [symmetric] case_prod_beta del: upt_Suc)
  have n: "2 \<le> ?n" by simp
  have hb: "?bl = 2 * ?h" by (rule h)
  note W = kalyna.kw_turns_inverse(1) [OF assms(1) hb n ok(1), of ?is]
    and U = kalyna.kw_turns_inverse(2) [OF assms(1) hb n ok(2), of "rev ?is", unfolded rev_rev_ident]
  have dW: "drop (?n - 1) (snd (?W ?s)) = ?pad" and dU: "drop (?n - 1) (snd (?U ?t)) = ?pad"
  proof -
    have "drop (?n - 1) (snd ?s) = ?pad" "drop (?n - 1) (snd ?t) = ?pad"
      by (simp_all only: snd_conv drop_exact [OF lens(1)] drop_exact [OF lens(2)])
    moreover have "?n - 1 \<le> length (snd ?s)" "?n - 1 \<le> length (snd ?t)"
      using ok by (simp_all only: kw_state_ok_def)
    ultimately show "drop (?n - 1) (snd (?W ?s)) = ?pad" "drop (?n - 1) (snd (?U ?t)) = ?pad"
      by (simp_all only: kw_turns_drop [OF n])
  qed
  have lp: "length ps = ?n - 3" using pt(2) by simp
  have Wok: "length (fst (?W ?s)) = ?h" "\<forall>b \<in> set (take (?n - 1) (snd (?W ?s))). length b = ?h"
    "length (take (?n - 1) (snd (?W ?s))) = ?n - 1"
    using W by (auto simp: kw_state_ok_def dest: in_set_takeD)
  have Uok: "length (fst (?U ?t)) = ?h" "\<forall>b \<in> set (take (?n - 3) (snd (?U ?t))). length b = ?h"
    "?n - 1 \<le> length (snd (?U ?t))"
    using U by (auto simp: kw_state_ok_def dest: in_set_takeD)
  show "\<exists>c. kw_wrap_with_cipher v ek pt (length pt + ?bl) = Inr c \<and> length c = ?bl * Suc r"
    using wrap halves_of_parts(3) [OF h(2) Wok(1,2)] Wok(3) hb by simp
  show "length p = ?bl * r" if "kw_unwrap_with_cipher v ek ct (length ct - ?bl) = Inr p"
  proof -
    have p: "p = fst (?U ?t) @ concat (take (?n - 3) (snd (?U ?t)))"
      using unwrap that by (auto split: if_splits)
    have "length (take (?n - 3) (snd (?U ?t))) = 2 * r - 1" using Uok(3) by simp
    then show ?thesis
      using halves_of_parts(3) [OF h(2) Uok(1,2)] hb assms(3) unfolding p by (cases r) simp_all
  qed
  show "kw_wrap_with_cipher v ek pt (length pt + ?bl) = Inr ct \<longleftrightarrow>
      kw_unwrap_with_cipher v ek ct (length ct - ?bl) = Inr pt"
  proof
    assume "kw_wrap_with_cipher v ek pt (length pt + ?bl) = Inr ct"
    then have c: "ct = fst (?W ?s) @ concat (take (?n - 1) (snd (?W ?s)))" using wrap by simp
    note parts = halves_of_parts [OF h(2) Wok(1,2), folded c, folded cs_def]
    have "?t = ?W ?s" using parts(1,2) dW append_take_drop_id [of "?n - 1" "snd (?W ?s)"]
      by (simp add: prod_eq_iff)
    then have "?U ?t = ?s" using W by (simp only:)
    moreover have "snd ?s ! (?n - 3) = ?z" "snd ?s ! (?n - 2) = ?z" "take (?n - 3) (snd ?s) = ps"
    proof -
      have "?n - 2 = Suc (?n - 3)" using assms(3) by simp
      then show "snd ?s ! (?n - 3) = ?z" "snd ?s ! (?n - 2) = ?z" "take (?n - 3) (snd ?s) = ps"
        unfolding lp [symmetric] by (simp_all add: nth_append)
    qed
    ultimately show "kw_unwrap_with_cipher v ek ct (length ct - ?bl) = Inr pt"
      using pt(1) by (simp only: unwrap fst_conv if_True simp_thms)
  next
    assume "kw_unwrap_with_cipher v ek ct (length ct - ?bl) = Inr pt"
    then have z: "snd (?U ?t) ! (?n - 3) = ?z" "snd (?U ?t) ! (?n - 2) = ?z"
      and p: "pt = fst (?U ?t) @ concat (take (?n - 3) (snd (?U ?t)))"
      using unwrap by (auto split: if_splits)
    note parts = halves_of_parts [OF h(2) Uok(1,2), folded p, folded ps_def]
    have "Suc (Suc (?n - 3)) = ?n - 1" "Suc (?n - 3) = ?n - 2" using assms(3) by simp_all
    then have "snd (?U ?t) = take (?n - 3) (snd (?U ?t)) @ [snd (?U ?t) ! (?n - 3), snd (?U ?t) ! (?n - 2)] @
        drop (?n - 1) (snd (?U ?t))"
      using split_two [of "?n - 3" "snd (?U ?t)"] Uok(3) by (simp only:)
    then have "?U ?t = ?s" using parts(1,2) z dU by (simp add: prod_eq_iff)
    then have "?W ?s = ?t" using U by (simp only:)
    then show "kw_wrap_with_cipher v ek pt (length pt + ?bl) = Inr ct"
      using wrap ct(1) take_exact [OF lens(2)] by (simp only: fst_conv snd_conv)
  qed
qed

lemma kw_wrap_lengths:
  assumes "kw_wrap_with_cipher v ek pt out_len = Inr ct"
  obtains r where "length pt = block_bytes v * r" "0 < r" "r \<le> MAX_R" "out_len = length pt + block_bytes v"
proof -
  have p: "pt \<noteq> []" "length pt mod block_bytes v = 0" "length pt div block_bytes v \<le> MAX_R"
    "out_len = length pt + block_bytes v"
    using assms by (auto simp: kw_wrap_with_cipher_def Let_def split: if_splits)
  obtain q where q: "length pt = block_bytes v * q" using p(2) by (auto elim!: dvdE simp: mod_eq_0_iff_dvd)
  have "0 < q" using p(1) q by (cases q) simp_all
  moreover have "length pt div block_bytes v = q" using q kalyna.bl_pos [of v] by simp
  ultimately show thesis using that [of q] p(3,4) q by simp
qed

lemma kw_unwrap_lengths:
  assumes "kw_unwrap_with_cipher v ek ct out_len = Inr pt"
  obtains r where "length ct = block_bytes v * Suc r" "0 < r" "r \<le> MAX_R" "out_len = length ct - block_bytes v"
proof -
  have c: "\<not> length ct < 2 * block_bytes v" "length ct mod block_bytes v = 0"
    "length ct div block_bytes v - 1 \<le> MAX_R" "out_len = length ct - block_bytes v"
    using assms by (auto simp: kw_unwrap_with_cipher_def Let_def split: if_splits)
  obtain q where q: "length ct = block_bytes v * q" using c(2) by (auto elim!: dvdE simp: mod_eq_0_iff_dvd)
  have "2 \<le> q" using c(1) q kalyna.bl_pos [of v] by (metis mult.commute mult_less_cancel2 not_less)
  moreover have "length ct div block_bytes v = q" using q kalyna.bl_pos [of v] by simp
  ultimately show thesis using that [of "q - 1"] c(3,4) q by simp
qed

lemma kw_exact:
  assumes "valid_expanded_key v ek"
  shows "kw_wrap_with_cipher v ek pt (length pt + block_bytes v) = Inr ct \<longleftrightarrow>
    kw_unwrap_with_cipher v ek ct (length ct - block_bytes v) = Inr pt"
proof
  assume w: "kw_wrap_with_cipher v ek pt (length pt + block_bytes v) = Inr ct"
  obtain r where r: "length pt = block_bytes v * r" "0 < r" "r \<le> MAX_R" using kw_wrap_lengths [OF w] by blast
  have "length ct = block_bytes v * Suc r"
    using kw_wrap_iff_unwrap(2) [OF assms r, of "replicate (block_bytes v * Suc r) 0"] w by simp
  with kw_wrap_iff_unwrap(1) [OF assms r] w
  show "kw_unwrap_with_cipher v ek ct (length ct - block_bytes v) = Inr pt" by blast
next
  assume u: "kw_unwrap_with_cipher v ek ct (length ct - block_bytes v) = Inr pt"
  obtain r where r: "length ct = block_bytes v * Suc r" "0 < r" "r \<le> MAX_R" using kw_unwrap_lengths [OF u] by blast
  have "length pt = block_bytes v * r"
    using kw_wrap_iff_unwrap(3) [OF assms _ r(2,3,1), of "replicate (block_bytes v * r) 0"] u by simp
  with kw_wrap_iff_unwrap(1) [OF assms _ r(2,3,1)] u
  show "kw_wrap_with_cipher v ek pt (length pt + block_bytes v) = Inr ct" by blast
qed

lemma kw_wrap_total:
  assumes "valid_expanded_key v ek" "pt \<noteq> []" "length pt mod block_bytes v = 0" "length pt div block_bytes v \<le> MAX_R"
  shows "\<exists>ct. kw_wrap_with_cipher v ek pt (length pt + block_bytes v) = Inr ct \<and> length ct = length pt + block_bytes v"
proof -
  let ?r = "length pt div block_bytes v"
  have r: "length pt = block_bytes v * ?r" using assms(3) by auto
  then have "0 < ?r" using assms(2) by (metis length_0_conv mult_0_right neq0_conv)
  from kw_wrap_iff_unwrap(2) [OF assms(1) r this assms(4), of "replicate (block_bytes v * Suc ?r) 0"] r
  show ?thesis by (metis add.commute length_replicate mult_Suc_right)
qed

section \<open>Properties\<close>

text \<open>A message of one to \<open>MAX_R\<close> blocks wraps, and a ciphertext unwraps to a message exactly
  when it is the wrapping of that message: unwrapping gives back every wrapped message and
  accepts nothing that \<open>wrap\<close> does not produce.\<close>

theorem kw_unwrap_exactly_wrapped:
  assumes "length key = key_bytes v"
  shows "(kw_wrap v key pt (length pt + block_bytes v) = Some (Inr ct) \<longleftrightarrow>
      kw_unwrap v key ct (length ct - block_bytes v) = Some (Inr pt)) \<and>
    (if pt \<noteq> [] \<and> length pt mod block_bytes v = 0 \<and> length pt div block_bytes v \<le> MAX_R
     then \<exists>c. kw_wrap v key pt (length pt + block_bytes v) = Some (Inr c) \<and> length c = length pt + block_bytes v
     else kw_wrap v key pt (length pt + block_bytes v) = Some (Inl InvalidLength))"
proof -
  obtain ek where ek: "expanded_key_new v key = Some ek" "valid_expanded_key v ek"
    using expanded_key_new_total [OF assms] by auto
  have "kw_wrap_with_cipher v ek pt (length pt + block_bytes v) = Inl InvalidLength"
    if "\<not> (pt \<noteq> [] \<and> length pt mod block_bytes v = 0 \<and> length pt div block_bytes v \<le> MAX_R)"
    using that by (auto simp: kw_wrap_with_cipher_def Let_def)
  then show ?thesis
    using ek kw_exact [OF ek(2), of pt ct] kw_wrap_total [OF ek(2), of pt]
    by (auto simp: kw_wrap_def kw_unwrap_def)
qed

theorem kw_unwrap_exactly_wrapped_witness:
  "\<exists>c. kw_wrap Kalyna128_128 (replicate 16 1) (replicate 32 2) 48 = Some (Inr c) \<and> length c = 48 \<and>
    kw_unwrap Kalyna128_128 (replicate 16 1) c 32 = Some (Inr (replicate 32 2))"
proof -
  obtain c where c: "kw_wrap Kalyna128_128 (replicate 16 1) (replicate 32 2) 48 = Some (Inr c)" "length c = 48"
    using kw_unwrap_exactly_wrapped [of "replicate 16 1" Kalyna128_128 "replicate 32 2" "[]"] by (auto simp: MAX_R_def)
  then show ?thesis
    using kw_unwrap_exactly_wrapped [of "replicate 16 1" Kalyna128_128 "replicate 32 2" c] by auto
qed

end
