(* ===== verification/Kalyna_Kw_P.thy ===== *)
theory Kalyna_Kw_P
  imports Kalyna_Kw
begin

text \<open>
  \<open>crates/dstu-core/src/hazmat/kalyna_kw_p.rs\<close>: key wrap with padding, for messages that are not
  block-aligned. \<open>unpad\<close> is translated with its 64-bit words and its branch-free selections, and
  proved to accept exactly the padded blocks the wrap side builds, so that unwrapping accepts one
  encoding per message.
\<close>

section \<open>Definitions\<close>

text \<open>\<open>conditional_select\<close> of the entry whose index, as a \<open>u64\<close>, equals \<open>a\<close>.\<close>

definition select_at :: "bytes \<Rightarrow> u64 \<Rightarrow> u8" where
  "select_at xs a = foldl (\<lambda>e (j, x). if a = of_nat j then x else e) 0 (enumerate 0 xs)"

definition last_nonzero :: "bytes \<Rightarrow> u64" where
  "last_nonzero p = foldl (\<lambda>m (i, b). if b \<noteq> 0 then of_nat i else m) 0 (enumerate 0 p)"

definition unpad :: "bytes \<Rightarrow> nat \<Rightarrow> nat \<Rightarrow> bool \<times> nat" where
  "unpad p block_n half_n =
     (let total = of_nat (length p) :: u64;
          block = of_nat block_n;
          half = of_nat half_n;
          marker_at = last_nonzero p;
          found = foldl (\<lambda>f b. f \<or> b \<noteq> 0) False p;
          marker = select_at p marker_at;
          len = marker_at - half;
          ok = (found \<and> marker = 0x80);
          ok = (ok \<and> marker_at > half + block);
          ok = (ok \<and> len AND (block - 1) \<noteq> 0);
          ok = (ok \<and> marker_at > total - block - 1);
          expected_field = to_le_bytes 8 (len * 8);
          ok = foldl (\<lambda>ok (i, b).
                 let i = of_nat i;
                     in_field = (\<not> i < len \<and> i < marker_at);
                     k = i - len;
                     expected = select_at expected_field k
                 in ok \<and> (\<not> in_field \<or> b = expected)) ok (enumerate 0 p)
      in (ok, unat len))"

definition kw_p_wrapped_len :: "kalyna_variant \<Rightarrow> nat \<Rightarrow> nat option" where
  "kw_p_wrapped_len v plaintext_len =
     (let bl = block_bytes v; half = half_bytes v in
      if plaintext_len \<le> bl \<or> plaintext_len mod bl = 0 then None
      else let padded = ((plaintext_len + half + 1 + bl - 1) div bl) * bl
           in if padded div bl > MAX_R then None else Some (padded + bl))"

definition kw_p_wrap_with_cipher :: "kalyna_variant \<Rightarrow> expanded_key \<Rightarrow> bytes \<Rightarrow> nat \<Rightarrow> kw_error + bytes" where
  "kw_p_wrap_with_cipher v cipher plaintext out_len =
     (if kw_p_wrapped_len v (length plaintext) \<noteq> Some out_len then Inl InvalidLength
      else let bl = block_bytes v; half = half_bytes v;
               padded_len = out_len - bl;
               padded = replicate (MAX_R * bl) 0;
               padded = write_at padded 0 plaintext;
               bits = of_nat (length plaintext) * 8 :: u64;
               padded = write_at padded (length plaintext) (to_le_bytes 8 bits);
               padded = padded[length plaintext + half := 0x80]
           in kw_wrap_with_cipher v cipher (take padded_len padded) out_len)"

text \<open>The result and the contents of \<open>out\<close> after the call.\<close>

definition kw_p_unwrap_with_cipher ::
  "kalyna_variant \<Rightarrow> expanded_key \<Rightarrow> bytes \<Rightarrow> bytes \<Rightarrow> (kw_error + nat) \<times> bytes" where
  "kw_p_unwrap_with_cipher v cipher ciphertext out =
     (let bl = block_bytes v; half = half_bytes v in
      if length ciphertext < 3 * bl \<or> length ciphertext mod bl \<noteq> 0 \<or>
         length ciphertext div bl - 1 > MAX_R \<or> length out \<noteq> length ciphertext - bl
      then (Inl InvalidLength, out)
      else let padded_len = length out in
        case kw_unwrap_with_cipher v cipher ciphertext padded_len of
          Inl e \<Rightarrow> (Inl e, replicate (length out) 0)
        | Inr padded \<Rightarrow>
            (let (ok, len) = unpad padded bl half;
                 out = map (\<lambda>i. if i < len \<and> ok then padded ! i else 0) [0..<length out]
             in (if ok then Inr len else Inl ChecksumMismatch, out)))"

definition kw_p_wrap :: "kalyna_variant \<Rightarrow> bytes \<Rightarrow> bytes \<Rightarrow> nat \<Rightarrow> (kw_error + bytes) option" where
  "kw_p_wrap v key plaintext out_len =
     map_option (\<lambda>cipher. kw_p_wrap_with_cipher v cipher plaintext out_len) (expanded_key_new v key)"

definition kw_p_unwrap :: "kalyna_variant \<Rightarrow> bytes \<Rightarrow> bytes \<Rightarrow> bytes \<Rightarrow> ((kw_error + nat) \<times> bytes) option" where
  "kw_p_unwrap v key ciphertext out =
     map_option (\<lambda>cipher. kw_p_unwrap_with_cipher v cipher ciphertext out) (expanded_key_new v key)"

section \<open>The scans\<close>

lemma u64_of_nat: "n < 2 ^ 64 \<Longrightarrow> unat (of_nat n :: u64) = n"
  by (simp add: unat_of_nat)

lemma enumerate_snoc: "enumerate 0 (xs @ [x]) = enumerate 0 xs @ [(length xs, x)]"
  by (simp add: enumerate_append_eq)

lemma select_at_nth: "length xs < 2 ^ 64 \<Longrightarrow> select_at xs a = (if unat a < length xs then xs ! unat a else 0)"
proof (induction xs rule: rev_induct)
  case (snoc x xs)
  have "a = of_nat (length xs) \<longleftrightarrow> unat a = length xs"
    using snoc.prems by (metis length_append_singleton less_SucI of_nat_unat u64_of_nat lessI order_less_trans ucast_id word_unat_eq_iff)
  with snoc show ?case
    by (auto simp: select_at_def enumerate_snoc nth_append less_Suc_eq)
qed (simp add: select_at_def)

lemma found_iff: "foldl (\<lambda>f b. f \<or> b \<noteq> 0) e p \<longleftrightarrow> e \<or> (\<exists>i < length p. p ! i \<noteq> (0 :: u8))"
proof (induction p arbitrary: e)
  case (Cons b p)
  then show ?case by (auto simp: Ex_less_Suc2)
qed simp

lemma last_nonzero_spec:
  assumes "\<exists>i < length p. p ! i \<noteq> 0"
  shows "\<exists>m < length p. p ! m \<noteq> 0 \<and> (\<forall>i. m < i \<longrightarrow> i < length p \<longrightarrow> p ! i = 0) \<and> last_nonzero p = of_nat m"
  using assms
proof (induction p rule: rev_induct)
  case (snoc b p)
  show ?case
  proof (cases "b = 0")
    case True
    with snoc.prems have "\<exists>i < length p. p ! i \<noteq> 0" by (auto simp: nth_append less_Suc_eq split: if_splits)
    with snoc.IH obtain m where "m < length p" "p ! m \<noteq> 0" "\<forall>i. m < i \<longrightarrow> i < length p \<longrightarrow> p ! i = 0"
      "last_nonzero p = of_nat m" by blast
    with True show ?thesis
      by (intro exI [of _ m]) (auto simp: last_nonzero_def enumerate_snoc nth_append)
  next
    case False
    then show ?thesis
      by (intro exI [of _ "length p"]) (auto simp: last_nonzero_def enumerate_snoc nth_append)
  qed
qed simp

lemma foldl_all_iff:
  "foldl (\<lambda>ok (i, b). ok \<and> P i b) e (enumerate 0 p) \<longleftrightarrow> e \<and> (\<forall>i < length p. P i (p ! i))"
proof (induction p rule: rev_induct)
  case (snoc b p)
  then show ?case by (auto simp: enumerate_snoc nth_append less_Suc_eq)
qed simp

section \<open>What \<open>unpad\<close> accepts\<close>

definition length_field :: "nat \<Rightarrow> bytes" where
  "length_field n = to_le_bytes 8 (of_nat n * 8 :: u64)"

text \<open>The conditions on a padded block with its marker at index \<open>m\<close>, over natural numbers.\<close>

definition marked_at :: "nat \<Rightarrow> nat \<Rightarrow> bytes \<Rightarrow> nat \<Rightarrow> bool" where
  "marked_at bl half p m \<longleftrightarrow> m < length p \<and> p ! m = 0x80 \<and> (\<forall>i. m < i \<longrightarrow> i < length p \<longrightarrow> p ! i = 0) \<and>
     half + bl < m \<and> (m - half) mod bl \<noteq> 0 \<and> length p - bl \<le> m \<and>
     (\<forall>i < length p. m - half \<le> i \<and> i < m \<longrightarrow>
        p ! i = (if i - (m - half) < 8 then length_field (m - half) ! (i - (m - half)) else 0))"

definition kw_block :: "nat \<Rightarrow> nat \<Rightarrow> nat \<Rightarrow> bool" where
  "kw_block bl half n \<longleftrightarrow> bl \<in> {16, 32, 64} \<and> bl = 2 * half \<and> bl < n \<and> n \<le> 20 * bl"

lemma block_mask_mod:
  assumes "bl \<in> {16, 32, 64}" "n < 2 ^ 64"
  shows "(of_nat n AND (of_nat bl - 1) = (0 :: u64)) \<longleftrightarrow> n mod bl = 0"
proof -
  obtain k where k: "bl = 2 ^ k" "k \<le> 6"
    using assms(1) that [of 4] that [of 5] that [of 6] by auto
  have "(of_nat bl - 1 :: u64) = mask k" using k by (simp add: mask_eq_exp_minus_1)
  then have "of_nat n AND (of_nat bl - 1) = take_bit k (of_nat n :: u64)" by (simp add: take_bit_eq_mask)
  also have "\<dots> = of_nat (take_bit k n)" by (simp add: take_bit_of_nat)
  finally have "unat (of_nat n AND (of_nat bl - 1) :: u64) = unat (of_nat (n mod bl) :: u64)"
    by (simp add: take_bit_eq_mod k)
  moreover have "n mod bl < 2 ^ 64" using assms(2) by (meson mod_less_eq_dividend order_le_less_trans)
  ultimately have "unat (of_nat n AND (of_nat bl - 1) :: u64) = n mod bl" by (simp only: u64_of_nat)
  then show ?thesis by (metis unat_eq_0)
qed

lemma unpad_marked:
  assumes blk: "kw_block bl half (length p)"
  shows "unpad p bl half = (True, L) \<longleftrightarrow> half \<le> L + half \<and> marked_at bl half p (L + half)"
proof (cases "\<exists>i < length p. p ! i \<noteq> 0")
  case False
  then have "\<not> fst (unpad p bl half)"
    by (simp only: unpad_def Let_def found_iff foldl_all_iff fst_conv) blast
  moreover have "\<not> marked_at bl half p (L + half)" using False by (auto simp: marked_at_def)
  ultimately show ?thesis by (metis fst_conv)
next
  case True
  from last_nonzero_spec [OF True] obtain m where m: "m < length p" "p ! m \<noteq> 0"
    "\<forall>i. m < i \<longrightarrow> i < length p \<longrightarrow> p ! i = 0" "last_nonzero p = of_nat m" by blast
  have bl: "bl \<in> {16, 32, 64}" "bl = 2 * half" "bl < length p" "length p \<le> 20 * bl" "bl \<le> 64"
    using blk by (auto simp: kw_block_def)
  have small: "length p < 2 ^ 64" "half + bl < 2 ^ 64" "m < 2 ^ 64" using bl m(1) by simp_all
  have mk: "select_at p (of_nat m) = p ! m"
    using m(1) small by (simp add: select_at_nth u64_of_nat)
  have gt1: "(of_nat half + of_nat bl :: u64) < of_nat m \<longleftrightarrow> half + bl < m"
    using small by (simp add: word_less_nat_alt u64_of_nat flip: of_nat_add)
  have e: "(of_nat (length p) - of_nat bl - 1 :: u64) = of_nat (length p - bl - 1)"
    using bl by simp
  have "unat (of_nat (length p - bl - 1) :: u64) = length p - bl - 1" "unat (of_nat m :: u64) = m"
    by (rule u64_of_nat, use small in simp)+
  then have gt2: "(of_nat (length p) - of_nat bl - 1 :: u64) < of_nat m \<longleftrightarrow> length p - bl \<le> m"
    unfolding e word_less_nat_alt using bl(3) by linarith
  let ?len = "of_nat m - of_nat half :: u64"
  have unp: "unpad p bl half = (p ! m = 0x80 \<and> half + bl < m \<and> ?len AND (of_nat bl - 1) \<noteq> 0 \<and> length p - bl \<le> m \<and>
      (\<forall>i < length p. \<not> (\<not> of_nat i < ?len \<and> of_nat i < (of_nat m :: u64)) \<or>
         p ! i = select_at (to_le_bytes 8 (?len * 8)) (of_nat i - ?len)), unat ?len)"
    using True by (simp only: unpad_def Let_def found_iff foldl_all_iff m(4) mk gt1 gt2 simp_thms conj_assoc)
  have uniq: "k = m" if "marked_at bl half p k" for k
  proof -
    have "k < length p" "p ! k \<noteq> 0" "\<forall>i. k < i \<longrightarrow> i < length p \<longrightarrow> p ! i = 0"
      using that unfolding marked_at_def by simp_all
    with m show "k = m" by (metis nat_neq_iff)
  qed
  show ?thesis
  proof (cases "half + bl < m")
    case False
    then have "\<not> marked_at bl half p (L + half)"
      using uniq [of "L + half"] unfolding marked_at_def by metis
    then show ?thesis using False unfolding unp by simp
  next
    case hm: True
    let ?n = "m - half"
    have len: "?len = of_nat ?n" using hm by simp
    have ul: "unat ?len = ?n" using small unfolding len by (simp add: u64_of_nat)
    have field: "(\<not> (\<not> of_nat i < ?len \<and> of_nat i < (of_nat m :: u64)) \<or>
        p ! i = select_at (to_le_bytes 8 (?len * 8)) (of_nat i - ?len)) \<longleftrightarrow>
      (?n \<le> i \<and> i < m \<longrightarrow> p ! i = (if i - ?n < 8 then length_field ?n ! (i - ?n) else 0))" if "i < length p" for i
    proof -
      have i: "i < 2 ^ 64" using that small by simp
      have "of_nat i < ?len \<longleftrightarrow> i < ?n" "of_nat i < (of_nat m :: u64) \<longleftrightarrow> i < m"
        unfolding len using i small by (simp_all add: word_less_nat_alt u64_of_nat)
      moreover have "select_at (to_le_bytes 8 (?len * 8)) (of_nat i - ?len) =
          (if i - ?n < 8 then length_field ?n ! (i - ?n) else 0)" if "?n \<le> i"
      proof -
        have "of_nat i - ?len = of_nat (i - ?n)" unfolding len using that by simp
        moreover have "unat (of_nat (i - ?n) :: u64) = i - ?n" using i by (intro u64_of_nat) simp
        ultimately show ?thesis by (simp add: select_at_nth length_field_def len)
      qed
      ultimately show ?thesis by auto
    qed
    have mod: "?len AND (of_nat bl - 1) \<noteq> 0 \<longleftrightarrow> ?n mod bl \<noteq> 0"
      unfolding len using block_mask_mod [OF bl(1), of ?n] small by simp
    have "unpad p bl half = (marked_at bl half p m, ?n)"
      unfolding unp ul mod marked_at_def using field m hm by auto
    then show ?thesis using uniq [of "L + half"] hm by auto
  qed
qed

text \<open>The padded block of a message, as section 15.4 of the standard lays it out.\<close>

definition kw_p_padded :: "nat \<Rightarrow> bytes \<Rightarrow> nat \<Rightarrow> bytes" where
  "kw_p_padded half msg n =
     msg @ length_field (length msg) @ replicate (half - 8) 0 @ [0x80] @ replicate (n - length msg - half - 1) 0"

lemma length_length_field [simp]: "length (length_field n) = 8"
  by (simp add: length_field_def)

lemma marked_at_padded:
  assumes "8 \<le> half" "bl < L" "L mod bl \<noteq> 0" "L + half < length p" "length p - bl \<le> L + half"
  shows "marked_at bl half p (L + half) \<longleftrightarrow> p = kw_p_padded half (take L p) (length p)"
proof -
  let ?m = "L + half"
  have field: "(\<forall>i < length p. L \<le> i \<and> i < ?m \<longrightarrow> p ! i = (if i - L < 8 then length_field L ! (i - L) else 0)) \<longleftrightarrow>
      slice L ?m p = length_field L @ replicate (half - 8) 0" (is "?F \<longleftrightarrow> ?G")
  proof
    assume F: ?F
    show ?G
    proof (rule nth_equalityI)
      fix j assume "j < length (slice L ?m p)"
      then have "j < half" "L + j < length p" using assms(4) by simp_all
      then show "slice L ?m p ! j = (length_field L @ replicate (half - 8) 0) ! j"
        using F [rule_format, of "L + j"] by (simp add: slice_def nth_append)
    qed (use assms in simp)
  next
    assume G: ?G
    show ?F
    proof (intro allI impI)
      fix i assume i: "i < length p" "L \<le> i \<and> i < ?m"
      then have "i - L < half" by linarith
      then have "p ! i = slice L ?m p ! (i - L)" using i by (simp add: slice_def)
      then show "p ! i = (if i - L < 8 then length_field L ! (i - L) else 0)"
        using i by (auto simp: G nth_append)
    qed
  qed
  have zeros: "(\<forall>i. ?m < i \<longrightarrow> i < length p \<longrightarrow> p ! i = 0) \<longleftrightarrow> drop (Suc ?m) p = replicate (length p - L - half - 1) 0"
    (is "?Z \<longleftrightarrow> ?Y")
  proof
    assume Z: ?Z
    then show ?Y using assms(4) by (intro nth_equalityI) auto
  next
    assume Y: ?Y
    show ?Z
    proof (intro allI impI)
      fix i assume i: "?m < i" "i < length p"
      then have "p ! i = drop (Suc ?m) p ! (i - Suc ?m)" by simp
      then show "p ! i = 0" using i unfolding Y by simp
    qed
  qed
  have split: "p = take L p @ slice L ?m p @ [p ! ?m] @ drop (Suc ?m) p"
    using assms(4) by (simp add: slice_def Cons_nth_drop_Suc) (metis append_take_drop_id drop_drop add.commute)
  have L: "length (take L p) = L" "L \<le> length p" using assms(4) by simp_all
  have "p = kw_p_padded half (take L p) (length p) \<longleftrightarrow>
      slice L ?m p = length_field L @ replicate (half - 8) 0 \<and> p ! ?m = 0x80 \<and>
      drop (Suc ?m) p = replicate (length p - L - half - 1) 0" (is "?P \<longleftrightarrow> ?Q")
  proof
    assume P: ?P
    have "take L p @ slice L ?m p @ [p ! ?m] @ drop (Suc ?m) p =
        take L p @ (length_field L @ replicate (half - 8) 0) @ [0x80] @ replicate (length p - L - half - 1) 0"
      using P [unfolded kw_p_padded_def L] split by simp
    moreover have "length (slice L ?m p) = length (length_field L @ replicate (half - 8) (0 :: u8))"
      using assms by simp
    ultimately have "slice L ?m p = length_field L @ replicate (half - 8) 0 \<and>
        [p ! ?m] @ drop (Suc ?m) p = [0x80] @ replicate (length p - L - half - 1) 0"
      by (simp only: same_append_eq append_eq_append_conv [OF disjI1])
    then show ?Q by simp
  next
    assume ?Q
    then show ?P using split unfolding kw_p_padded_def L by simp
  qed
  moreover have "?m - half = L" "half + bl < ?m" using assms by simp_all
  ultimately show ?thesis using assms(3-5) unfolding marked_at_def by (simp only: zeros field simp_thms) blast
qed

lemma unpad_iff_padded:
  assumes "kw_block bl half (length p)"
  shows "unpad p bl half = (True, L) \<longleftrightarrow> bl < L \<and> L mod bl \<noteq> 0 \<and> L + half < length p \<and>
    length p - bl \<le> L + half \<and> p = kw_p_padded half (take L p) (length p)"
proof -
  have half: "8 \<le> half" using assms by (auto simp: kw_block_def)
  have "marked_at bl half p (L + half) \<longleftrightarrow> bl < L \<and> L mod bl \<noteq> 0 \<and> L + half < length p \<and>
      length p - bl \<le> L + half \<and> marked_at bl half p (L + half)"
    unfolding marked_at_def by auto
  then show ?thesis using marked_at_padded [OF half, of bl L p] unpad_marked [OF assms, of L] by auto
qed

section \<open>Lengths\<close>

lemma div_ceil_last:
  assumes "0 < (bl :: nat)"
  shows "(m + 1 + bl - 1) div bl * bl = bl * r \<longleftrightarrow> m < bl * r \<and> bl * r - bl \<le> m"
proof -
  have "(m + 1 + bl - 1) div bl = Suc (m div bl)" using div_add_self2 [of bl m] assms by simp
  moreover have "Suc (m div bl) = r \<longleftrightarrow> m < bl * r \<and> bl * r - bl \<le> m"
  proof (cases r)
    case (Suc q)
    have "m div bl = q \<longleftrightarrow> q * bl \<le> m \<and> m < Suc q * bl"
      using assms by (metis div_nat_eqI dividend_less_div_times div_times_less_eq_dividend mult_Suc add.commute mult.commute)
    then show ?thesis using Suc by (auto simp: algebra_simps)
  qed simp
  moreover have "Suc (m div bl) * bl = bl * r \<longleftrightarrow> Suc (m div bl) = r"
    using assms by (metis mult.commute mult_cancel2 neq0_conv)
  ultimately show ?thesis by simp
qed

lemma kw_p_wrapped_len_iff:
  "kw_p_wrapped_len v L = Some (block_bytes v * r + block_bytes v) \<longleftrightarrow>
     block_bytes v < L \<and> L mod block_bytes v \<noteq> 0 \<and> L + half_bytes v < block_bytes v * r \<and>
     block_bytes v * r - block_bytes v \<le> L + half_bytes v \<and> r \<le> MAX_R"
proof -
  have bl: "0 < block_bytes v" by (cases v) simp_all
  show ?thesis
    using div_ceil_last [OF bl, of "L + half_bytes v" r] bl unfolding kw_p_wrapped_len_def Let_def
    by (auto simp del: One_nat_def)
qed

lemma kw_p_wrapped_len_aligned:
  assumes "kw_p_wrapped_len v L = Some n"
  obtains r where "n = block_bytes v * r + block_bytes v"
  using assms that unfolding kw_p_wrapped_len_def Let_def by (auto split: if_splits simp: mult.commute)

lemma kw_block_variant: "1 < r \<Longrightarrow> r \<le> MAX_R \<Longrightarrow> kw_block (block_bytes v) (half_bytes v) (block_bytes v * r)"
  by (cases v) (simp_all add: kw_block_def half_bytes_def MAX_R_def)

lemma length_kw_p_padded [simp]:
  "8 \<le> half \<Longrightarrow> length msg + half < n \<Longrightarrow> length (kw_p_padded half msg n) = n"
  by (simp add: kw_p_padded_def)

lemma padded_buffer:
  assumes "8 \<le> half" "length msg + half < n" "n \<le> N"
  shows "take n ((write_at (write_at (replicate N 0) 0 msg) (length msg)
      (to_le_bytes 8 (of_nat (length msg) * 8 :: u64)))[length msg + half := 0x80]) = kw_p_padded half msg n"
proof -
  have "N = length msg + (8 + ((half - 8) + (1 + ((n - length msg - half - 1) + (N - n)))))"
    using assms by simp
  then have buf: "replicate N 0 = replicate (length msg) 0 @ replicate 8 0 @ replicate (half - 8) 0 @ [0 :: u8] @
      replicate (n - length msg - half - 1) 0 @ replicate (N - n) 0"
    by (metis replicate_add replicate_Suc replicate_0 One_nat_def)
  have "write_at (replicate N 0) 0 msg = msg @ replicate 8 0 @ replicate (half - 8) 0 @ [0 :: u8] @
      replicate (n - length msg - half - 1) 0 @ replicate (N - n) 0"
    unfolding buf by (simp add: write_at_def)
  then have "write_at (write_at (replicate N 0) 0 msg) (length msg) (length_field (length msg)) =
      (msg @ length_field (length msg) @ replicate (half - 8) 0) @ [0 :: u8] @
      replicate (n - length msg - half - 1) 0 @ replicate (N - n) 0"
    by (simp add: write_at_middle)
  moreover have "length (msg @ length_field (length msg) @ replicate (half - 8) (0 :: u8)) = length msg + half"
    using assms(1) by simp
  ultimately have "(write_at (write_at (replicate N 0) 0 msg) (length msg) (length_field (length msg)))
      [length msg + half := 0x80] = kw_p_padded half msg n @ replicate (N - n) 0"
    by (simp only: kw_p_padded_def) (simp add: list_update_append)
  then show ?thesis using assms by (simp add: length_field_def)
qed

section \<open>Unwrapping accepts exactly the wrapped messages\<close>

lemma half_bytes_ge: "8 \<le> half_bytes v"
  by (cases v) (simp_all add: half_bytes_def)

lemma kw_p_wrap_padded:
  assumes "kw_p_wrapped_len v (length msg) = Some n"
  shows "kw_p_wrap_with_cipher v ek msg n =
    kw_wrap_with_cipher v ek (kw_p_padded (half_bytes v) msg (n - block_bytes v)) n"
    and "length (kw_p_padded (half_bytes v) msg (n - block_bytes v)) = n - block_bytes v"
proof -
  obtain r where r: "n = block_bytes v * r + block_bytes v" using kw_p_wrapped_len_aligned [OF assms] by blast
  then have l: "length msg + half_bytes v < n - block_bytes v" "r \<le> MAX_R"
    using assms kw_p_wrapped_len_iff [of v "length msg" r] by simp_all
  then have N: "n - block_bytes v \<le> MAX_R * block_bytes v" using r by (simp add: mult.commute)
  show "kw_p_wrap_with_cipher v ek msg n =
      kw_wrap_with_cipher v ek (kw_p_padded (half_bytes v) msg (n - block_bytes v)) n"
    using assms by (simp add: kw_p_wrap_with_cipher_def Let_def padded_buffer [OF half_bytes_ge l(1) N])
  show "length (kw_p_padded (half_bytes v) msg (n - block_bytes v)) = n - block_bytes v"
    using l half_bytes_ge by simp
qed

lemma length_kw_wrapped:
  assumes "valid_expanded_key v ek" "kw_wrap_with_cipher v ek pt n = Inr ct"
  shows "length ct = length pt + block_bytes v"
proof -
  obtain r where r: "length pt = block_bytes v * r" "0 < r" "r \<le> MAX_R" "n = length pt + block_bytes v"
    using kw_wrap_lengths [OF assms(2)] by blast
  show ?thesis
    using kw_wrap_iff_unwrap(2) [OF assms(1) r(1-3), of "replicate (block_bytes v * Suc r) 0"] assms(2) r(1,4) by simp
qed

lemma kw_p_unwrap_some:
  assumes "valid_expanded_key v ek" "kw_p_wrap_with_cipher v ek msg (length ct) = Inr ct" "length out = length ct - block_bytes v"
  shows "kw_p_unwrap_with_cipher v ek ct out = (Inr (length msg), msg @ replicate (length out - length msg) 0)"
proof -
  let ?bl = "block_bytes v" and ?half = "half_bytes v"
  have n: "kw_p_wrapped_len v (length msg) = Some (length ct)"
    using assms(2) by (auto simp: kw_p_wrap_with_cipher_def split: if_splits)
  obtain r where r: "length ct = ?bl * r + ?bl" using kw_p_wrapped_len_aligned [OF n] by blast
  have l: "?bl < length msg" "length msg mod ?bl \<noteq> 0" "length msg + ?half < ?bl * r"
    "?bl * r - ?bl \<le> length msg + ?half" "r \<le> MAX_R"
    using n kw_p_wrapped_len_iff [of v "length msg" r] r by simp_all
  let ?p = "kw_p_padded ?half msg (?bl * r)"
  have len: "length ?p = ?bl * r" "take (length msg) ?p = msg"
    using l(3) half_bytes_ge by (simp, simp add: kw_p_padded_def)
  have r2: "1 < r" using l by (metis Suc_lessI add_lessD1 less_one mult_0_right mult_1_right not_less_iff_gr_or_eq One_nat_def not_less_zero)
  have "kw_wrap_with_cipher v ek ?p (length ?p + ?bl) = Inr ct"
    using kw_p_wrap_padded(1) [OF n] assms(2) r len by simp
  then have u: "kw_unwrap_with_cipher v ek ct (?bl * r) = Inr ?p"
    using kw_exact [OF assms(1)] r by simp
  have up: "unpad ?p ?bl ?half = (True, length msg)"
    using unpad_iff_padded [of ?bl ?half ?p "length msg"] kw_block_variant [OF r2 l(5), of v] l len by simp
  have "3 * ?bl \<le> length ct" using r r2 by (cases r) (auto simp: Suc_le_eq)
  moreover have "length ct mod ?bl = 0" "length ct div ?bl - 1 = r" using r l by (auto simp: algebra_simps)
  moreover have "length out = ?bl * r" using assms(3) r by simp
  ultimately have "kw_p_unwrap_with_cipher v ek ct out =
      (Inr (length msg), map (\<lambda>i. if i < length msg then ?p ! i else 0) [0..<?bl * r])"
    using u up assms(3) l(5) unfolding kw_p_unwrap_with_cipher_def Let_def by (simp del: mult_eq_0_iff)
  moreover have "map (\<lambda>i. if i < length msg then ?p ! i else 0) [0..<?bl * r] = msg @ replicate (?bl * r - length msg) 0"
    using l(3) by (intro nth_equalityI) (auto simp: nth_append kw_p_padded_def)
  ultimately show ?thesis using assms(3) r by simp
qed

lemma kw_p_unwrap_cases:
  assumes "valid_expanded_key v ek" "length out = length ct - block_bytes v"
  shows "(\<exists>msg. kw_p_unwrap_with_cipher v ek ct out = (Inr (length msg), msg @ replicate (length out - length msg) 0) \<and>
        kw_p_wrap_with_cipher v ek msg (length ct) = Inr ct) \<or>
     kw_p_unwrap_with_cipher v ek ct out = (Inl ChecksumMismatch, replicate (length out) 0) \<or>
     kw_p_unwrap_with_cipher v ek ct out = (Inl InvalidLength, out)"
proof (cases "length ct < 3 * block_bytes v \<or> length ct mod block_bytes v \<noteq> 0 \<or> length ct div block_bytes v - 1 > MAX_R")
  case True
  then show ?thesis by (auto simp: kw_p_unwrap_with_cipher_def Let_def)
next
  case False
  let ?bl = "block_bytes v" and ?half = "half_bytes v"
  define r where "r = length ct div ?bl - 1"
  have bl: "0 < ?bl" by (cases v) simp_all
  have "length ct div ?bl \<ge> 3" using False bl by (metis div_le_mono nonzero_mult_div_cancel_right not_less not_gr_zero)
  then have "length ct div ?bl = Suc r" and r1: "1 < r" "r \<le> MAX_R" using False by (auto simp: r_def)
  then have r3: "length ct = ?bl * r + ?bl" using False by (metis add.commute mult_div_mod_eq mult_Suc_right add_0_right)
  note r = r1 r3
  have lo: "length out = ?bl * r" using assms(2) r3 by simp
  have guard: "kw_p_unwrap_with_cipher v ek ct out = (case kw_unwrap_with_cipher v ek ct (?bl * r) of
      Inl e \<Rightarrow> (Inl e, replicate (length out) 0)
    | Inr padded \<Rightarrow> (let (ok, len) = unpad padded ?bl ?half in
        (if ok then Inr len else Inl ChecksumMismatch, map (\<lambda>i. if i < len \<and> ok then padded ! i else 0) [0..<length out])))"
    using False assms(2) lo unfolding kw_p_unwrap_with_cipher_def Let_def by simp
  show ?thesis
  proof (cases "kw_unwrap_with_cipher v ek ct (?bl * r)")
    case (Inl e)
    moreover have "kw_unwrap_with_cipher v ek ct (?bl * r) \<noteq> Inl InvalidLength"
      using False r(3) by (auto simp: kw_unwrap_with_cipher_def Let_def split: prod.splits)
    ultimately have "e = ChecksumMismatch" by (cases e) auto
    then show ?thesis using guard Inl by simp
  next
    case (Inr p)
    have w: "kw_wrap_with_cipher v ek p (length p + ?bl) = Inr ct"
      using kw_exact [OF assms(1), of p ct] Inr r(3) by simp
    then have lp: "length p = ?bl * r" using length_kw_wrapped [OF assms(1) w] r(3) by simp
    obtain ok L where up: "unpad p ?bl ?half = (ok, L)" by fastforce
    show ?thesis
    proof (cases ok)
      case False
      then show ?thesis using guard Inr up by (simp add: map_replicate_const)
    next
      case True
      then have L: "?bl < L" "L mod ?bl \<noteq> 0" "L + ?half < ?bl * r" "?bl * r - ?bl \<le> L + ?half"
        "p = kw_p_padded ?half (take L p) (?bl * r)"
        using unpad_iff_padded [of ?bl ?half p L] kw_block_variant [OF r(1,2), of v] up lp by simp_all
      let ?m = "take L p"
      have lm: "length ?m = L" using L(3) lp by simp
      have n: "kw_p_wrapped_len v (length ?m) = Some (length ct)"
        unfolding lm r(3) kw_p_wrapped_len_iff using L r(2) by simp
      have "kw_p_wrap_with_cipher v ek ?m (length ct) = Inr ct"
        using kw_p_wrap_padded(1) [OF n, of ek] w lp L(5) r(3) by simp
      then show ?thesis using kw_p_unwrap_some [OF assms(1) _ assms(2)] by blast
    qed
  qed
qed

section \<open>Properties\<close>

text \<open>C37. Key wrap with padding has one encoding per message: \<open>wrap\<close> succeeds on every length
  \<open>wrapped_len\<close> accepts, unwrapping a ciphertext returns the message length and the message followed
  by zeros exactly when the ciphertext is the wrapping of that message, and every other outcome is
  a checksum mismatch with \<open>out\<close> zeroed, whether the checksum or the padding failed, or a length
  error with \<open>out\<close> untouched.\<close>

theorem kw_p_unwrap_exactly_wrapped:
  assumes "length key = key_bytes v" "length out = length ct - block_bytes v"
  shows "(kw_p_wrap v key msg (length ct) = Some (Inr ct) \<longleftrightarrow>
      kw_p_unwrap v key ct out = Some (Inr (length msg), msg @ replicate (length out - length msg) 0)) \<and>
    ((\<exists>m. kw_p_unwrap v key ct out = Some (Inr (length m), m @ replicate (length out - length m) 0)) \<or>
      kw_p_unwrap v key ct out = Some (Inl ChecksumMismatch, replicate (length out) 0) \<or>
      kw_p_unwrap v key ct out = Some (Inl InvalidLength, out)) \<and>
    (kw_p_wrapped_len v (length msg) = Some n \<longrightarrow>
      (\<exists>c. kw_p_wrap v key msg n = Some (Inr c) \<and> length c = n))"
proof (intro conjI impI)
  obtain ek where ek: "expanded_key_new v key = Some ek" "valid_expanded_key v ek"
    using expanded_key_new_total [OF assms(1)] by auto
  note defs = kw_p_wrap_def kw_p_unwrap_def ek(1)
  note some = kw_p_unwrap_some [OF ek(2) _ assms(2)]
  note outcome = kw_p_unwrap_cases [OF ek(2) assms(2)]
  show "kw_p_wrap v key msg (length ct) = Some (Inr ct) \<longleftrightarrow>
      kw_p_unwrap v key ct out = Some (Inr (length msg), msg @ replicate (length out - length msg) 0)"
  proof
    assume "kw_p_unwrap v key ct out = Some (Inr (length msg), msg @ replicate (length out - length msg) 0)"
    then have u: "kw_p_unwrap_with_cipher v ek ct out = (Inr (length msg), msg @ replicate (length out - length msg) 0)"
      by (simp add: defs)
    from outcome [unfolded u] have "kw_p_wrap_with_cipher v ek msg (length ct) = Inr ct"
      by (metis Pair_inject append_eq_append_conv sum.distinct(1) sum.inject(2))
    then show "kw_p_wrap v key msg (length ct) = Some (Inr ct)" by (simp add: defs)
  qed (use some in \<open>simp add: defs\<close>)
  show "(\<exists>m. kw_p_unwrap v key ct out = Some (Inr (length m), m @ replicate (length out - length m) 0)) \<or>
      kw_p_unwrap v key ct out = Some (Inl ChecksumMismatch, replicate (length out) 0) \<or>
      kw_p_unwrap v key ct out = Some (Inl InvalidLength, out)"
    unfolding defs using outcome by (simp only: option.map option.inject) blast
  assume n: "kw_p_wrapped_len v (length msg) = Some n"
  let ?p = "kw_p_padded (half_bytes v) msg (n - block_bytes v)"
  obtain r where r: "n = block_bytes v * r + block_bytes v" using kw_p_wrapped_len_aligned [OF n] by blast
  have l: "block_bytes v < length msg" "length msg + half_bytes v < block_bytes v * r" "r \<le> MAX_R" "length ?p = block_bytes v * r"
    using n kw_p_wrapped_len_iff [of v "length msg" r] kw_p_wrap_padded(2) [OF n] r by simp_all
  then have "?p \<noteq> []" "length ?p mod block_bytes v = 0" "length ?p div block_bytes v \<le> MAX_R" by auto
  from kw_wrap_total [OF ek(2) this] show "\<exists>c. kw_p_wrap v key msg n = Some (Inr c) \<and> length c = n"
    using kw_p_wrap_padded(1) [OF n, of ek] l(4) r by (auto simp: defs)
qed

theorem kw_p_unwrap_exactly_wrapped_witness:
  "\<exists>c. kw_p_wrap Kalyna128_128 (replicate 16 1) (replicate 20 2) 48 = Some (Inr c) \<and>
    kw_p_unwrap Kalyna128_128 (replicate 16 1) c (replicate 32 0) = Some (Inr 20, replicate 20 2 @ replicate 12 0)"
proof -
  have "kw_p_wrapped_len Kalyna128_128 20 = Some 48" by (simp add: kw_p_wrapped_len_def half_bytes_def MAX_R_def)
  then obtain c where c: "kw_p_wrap Kalyna128_128 (replicate 16 1) (replicate 20 2) 48 = Some (Inr c)" "length c = 48"
    using kw_p_unwrap_exactly_wrapped [of "replicate 16 1" Kalyna128_128 "replicate 32 0" "replicate 48 0" "replicate 20 2" 48]
    by auto
  then show ?thesis
    using kw_p_unwrap_exactly_wrapped [of "replicate 16 1" Kalyna128_128 "replicate 32 0" c "replicate 20 2" 48] by auto
qed

end
