(* ===== verification/Kalyna_Gcm.thy ===== *)
theory Kalyna_Gcm
  imports Kalyna_Xts
begin

text \<open>
  \<open>crates/dstu-core/src/hazmat/kalyna_gcm.rs\<close>, and \<open>checked_bit_len\<close> of \<open>hazmat/mod.rs\<close>: the
  authenticated mode. A doubly encrypted counter gives the keystream, a Horner chain over the field
  accumulates the associated data and the ciphertext, and the tag is the encryption of the
  accumulator and a block of both lengths. \<open>hw\<close> is the multiplication instruction of the field
  arithmetic, when the platform has one. Operations that write to a caller's buffer return its
  contents beside the result.
\<close>

section \<open>Definitions\<close>

datatype gcm_error = EmptyInput | InvalidLength | TagMismatch

definition checked_bit_len :: "nat \<Rightarrow> u64 option" where
  "checked_bit_len n = (if n < 2 ^ 64 \<and> n * 8 < 2 ^ 64 then Some (of_nat n * 8) else None)"

record kalyna_gcm =
  gcm_key :: expanded_key

definition gcm_new :: "kalyna_variant \<Rightarrow> bytes \<Rightarrow> kalyna_gcm option" where
  "gcm_new v key = map_option (\<lambda>ek. \<lparr>gcm_key = ek\<rparr>) (expanded_key_new v key)"

text \<open>The low 64 bits of the counter block step by one, the rest stays.\<close>

definition gcm_step_counter :: "bytes \<Rightarrow> bytes" where
  "gcm_step_counter gamma_old =
     (let low = from_le_bytes (slice 0 8 gamma_old) :: u64; low = low + 1
      in write_at gamma_old 0 (to_le_bytes 8 low))"

text \<open>The loop of \<open>apply_keystream\<close> over the bytes of \<open>data\<close> from \<open>off\<close> on.\<close>

function gcm_keystream_loop :: "(bytes \<Rightarrow> bytes) \<Rightarrow> nat \<Rightarrow> bytes \<Rightarrow> bytes \<Rightarrow> bytes" where
  "gcm_keystream_loop enc bl gamma_old data =
     (if bl = 0 \<or> data = [] then []
      else let gamma_old = gcm_step_counter gamma_old; gamma = enc gamma_old
           in xor_into (take bl data) gamma @ gcm_keystream_loop enc bl gamma_old (drop bl data))"
  by pat_completeness auto
termination by (relation "measure (\<lambda>(enc, bl, g, data). length data)") auto

declare gcm_keystream_loop.simps [simp del]

definition gcm_apply_keystream :: "kalyna_variant \<Rightarrow> kalyna_gcm \<Rightarrow> bytes \<Rightarrow> bytes \<Rightarrow> bytes" where
  "gcm_apply_keystream v self iv data =
     gcm_keystream_loop (encrypt_block v (gcm_key self)) (block_bytes v) (encrypt_block v (gcm_key self) iv) data"

definition gcm_absorb_block ::
  "(u64 \<Rightarrow> u64 \<Rightarrow> u64 \<times> u64) option \<Rightarrow> gf_field \<Rightarrow> u64 list \<Rightarrow> bytes \<Rightarrow> u64 list \<Rightarrow> u64 list" where
  "gcm_absorb_block hw F h_key block acc = gf_multiply hw F (gf_add F acc (gf_from_le_bytes F block)) h_key"

definition gcm_absorb_padded ::
  "(u64 \<Rightarrow> u64 \<Rightarrow> u64 \<times> u64) option \<Rightarrow> kalyna_variant \<Rightarrow> u64 list \<Rightarrow> u64 list \<Rightarrow> bytes \<Rightarrow> u64 list" where
  "gcm_absorb_padded hw v acc h_key data =
     (let bl = block_bytes v;
          acc = fold (gcm_absorb_block hw (v_gf v) h_key) (chunks_exact bl data) acc;
          tail = chunks_remainder bl data
      in if tail \<noteq> [] then
           (let block = (write_at (replicate bl 0) 0 tail)[length tail := 0x80]
            in gcm_absorb_block hw (v_gf v) h_key block acc)
         else acc)"

definition gcm_length_block :: "kalyna_variant \<Rightarrow> u64 \<Rightarrow> u64 \<Rightarrow> bytes" where
  "gcm_length_block v aad_len_bits ct_len_bits =
     (let length_block = replicate (block_bytes v) 0;
          length_block = write_at length_block 0 (to_le_bytes 8 aad_len_bits)
      in write_at length_block (block_bytes v div 2) (to_le_bytes 8 ct_len_bits))"

definition gcm_compute_tag ::
  "(u64 \<Rightarrow> u64 \<Rightarrow> u64 \<times> u64) option \<Rightarrow> kalyna_variant \<Rightarrow> kalyna_gcm \<Rightarrow> bytes \<Rightarrow> bytes \<Rightarrow> u64 \<Rightarrow> u64 \<Rightarrow> bytes" where
  "gcm_compute_tag hw v self aad ciphertext aad_len_bits ct_len_bits =
     (let F = v_gf v; enc = encrypt_block v (gcm_key self);
          h_key = gf_from_le_bytes F (enc (replicate (block_bytes v) 0));
          acc = gcm_absorb_padded hw v (replicate (gf_limbs F) 0) h_key aad;
          acc = gcm_absorb_padded hw v acc h_key ciphertext;
          combined = xor_into (gcm_length_block v aad_len_bits ct_len_bits) (gf_to_le_bytes F acc)
      in enc combined)"

definition gcm_encrypt ::
  "(u64 \<Rightarrow> u64 \<Rightarrow> u64 \<times> u64) option \<Rightarrow> kalyna_variant \<Rightarrow> kalyna_gcm \<Rightarrow> bytes \<Rightarrow> bytes \<Rightarrow> bytes \<Rightarrow> bytes \<Rightarrow>
   (gcm_error + bytes) \<times> bytes" where
  "gcm_encrypt hw v self iv aad plaintext ciphertext_out =
     (if length ciphertext_out \<noteq> length plaintext then (Inl InvalidLength, ciphertext_out)
      else if aad = [] \<and> plaintext = [] then (Inl EmptyInput, ciphertext_out)
      else case (checked_bit_len (length aad), checked_bit_len (length plaintext)) of
        (Some aad_bits, Some ct_bits) \<Rightarrow>
          (let ciphertext_out = gcm_apply_keystream v self iv plaintext
           in (Inr (gcm_compute_tag hw v self aad ciphertext_out aad_bits ct_bits), ciphertext_out))
      | _ \<Rightarrow> (Inl InvalidLength, ciphertext_out))"

definition gcm_decrypt ::
  "(u64 \<Rightarrow> u64 \<Rightarrow> u64 \<times> u64) option \<Rightarrow> kalyna_variant \<Rightarrow> kalyna_gcm \<Rightarrow> bytes \<Rightarrow> bytes \<Rightarrow> bytes \<Rightarrow> bytes \<Rightarrow> bytes \<Rightarrow>
   (gcm_error + unit) \<times> bytes" where
  "gcm_decrypt hw v self iv aad ciphertext tag plaintext_out =
     (if \<not> (8 \<le> length tag \<and> length tag \<le> block_bytes v) \<or> length plaintext_out \<noteq> length ciphertext
      then (Inl InvalidLength, plaintext_out)
      else if aad = [] \<and> ciphertext = [] then (Inl EmptyInput, plaintext_out)
      else case (checked_bit_len (length aad), checked_bit_len (length ciphertext)) of
        (Some aad_bits, Some ct_bits) \<Rightarrow>
          (let expected = gcm_compute_tag hw v self aad ciphertext aad_bits ct_bits
           in if take (length tag) expected \<noteq> tag
              then (Inl TagMismatch, replicate (length plaintext_out) 0)
              else (Inr (), gcm_apply_keystream v self iv ciphertext))
      | _ \<Rightarrow> (Inl InvalidLength, plaintext_out))"

section \<open>The keystream\<close>

lemma gcm_keystream_loop_step:
  "0 < bl \<Longrightarrow> data \<noteq> [] \<Longrightarrow> gcm_keystream_loop enc bl g data =
     xor_into (take bl data) (enc (gcm_step_counter g)) @ gcm_keystream_loop enc bl (gcm_step_counter g) (drop bl data)"
  by (simp add: gcm_keystream_loop.simps [of enc bl g data] Let_def)

lemma gcm_keystream_loop_Nil [simp]: "gcm_keystream_loop enc bl g [] = []"
  by (simp add: gcm_keystream_loop.simps [of enc bl g "[]"])

lemma gcm_keystream_loop_twice:
  "0 < bl \<Longrightarrow> gcm_keystream_loop enc bl g (gcm_keystream_loop enc bl g data) = data"
proof (induction enc bl g data rule: gcm_keystream_loop.induct)
  case (1 enc bl g data)
  show ?case
  proof (cases "data = []")
    case False
    let ?g = "gcm_step_counter g"
    let ?head = "xor_into (take bl data) (enc ?g)"
    let ?rest = "gcm_keystream_loop enc bl ?g (drop bl data)"
    define ys where "ys = gcm_keystream_loop enc bl g data"
    have ys: "ys = ?head @ ?rest" using gcm_keystream_loop_step [OF 1(2) False] by (simp add: ys_def)
    have ih: "gcm_keystream_loop enc bl ?g ?rest = drop bl data" using 1 False by simp
    have cut: "take bl ys = ?head" "drop bl ys = ?rest" unfolding ys by (cases "bl \<le> length data"; simp)+
    have "length ?head \<noteq> 0" using False 1(2) by simp
    then have "ys \<noteq> []" unfolding ys by (metis append_is_Nil_conv length_0_conv)
    from gcm_keystream_loop_step [OF 1(2) this, of enc g] show ?thesis
      unfolding ys_def [symmetric] cut ih by simp
  qed simp
qed

lemma length_gcm_keystream_loop: "0 < bl \<Longrightarrow> length (gcm_keystream_loop enc bl g data) = length data"
proof (induction enc bl g data rule: gcm_keystream_loop.induct)
  case (1 enc bl g data)
  then show ?case
    by (cases "data = []") (simp_all add: gcm_keystream_loop_step Let_def)
qed

lemma gcm_apply_keystream_twice [simp]:
  "gcm_apply_keystream v self iv (gcm_apply_keystream v self iv data) = data"
  "length (gcm_apply_keystream v self iv data) = length data"
  using kalyna.bl_pos [of v] by (simp_all add: gcm_apply_keystream_def gcm_keystream_loop_twice length_gcm_keystream_loop)

lemma gcm_apply_keystream_Nil [simp]:
  "gcm_apply_keystream v self iv data = [] \<longleftrightarrow> data = []" "[] = gcm_apply_keystream v self iv data \<longleftrightarrow> data = []"
  by (metis gcm_apply_keystream_twice(2) length_0_conv)+

section \<open>The input of the tag\<close>

text \<open>The blocks a stream is absorbed as, and the Horner chain over them.\<close>

definition gcm_blocks :: "kalyna_variant \<Rightarrow> bytes \<Rightarrow> bytes list" where
  "gcm_blocks v data =
     (let bl = block_bytes v; tail = chunks_remainder bl data
      in chunks_exact bl data @
        (if tail = [] then [] else [tail @ [0x80] @ replicate (bl - length tail - 1) 0]))"

lemma padded_tail_block:
  "length tail < bl \<Longrightarrow> (write_at (replicate bl 0) 0 tail)[length tail := 0x80] = tail @ [0x80] @ replicate (bl - length tail - 1) (0 :: u8)"
  by (cases "bl - length tail") (auto simp: write_at_def list_update_append)

lemma gcm_absorb_padded_blocks:
  "gcm_absorb_padded hw v acc h_key data = fold (gcm_absorb_block hw (v_gf v) h_key) (gcm_blocks v data) acc"
proof -
  have "length (chunks_remainder (block_bytes v) data) < block_bytes v"
    using kalyna.bl_pos [of v] by (simp add: length_chunks_remainder)
  then show ?thesis
    by (simp add: gcm_absorb_padded_def gcm_blocks_def Let_def padded_tail_block del: One_nat_def)
qed

lemma gcm_compute_tag_horner:
  "gcm_compute_tag hw v self aad ct la lc = encrypt_block v (gcm_key self)
     (xor_into (gcm_length_block v la lc) (gf_to_le_bytes (v_gf v)
       (fold (gcm_absorb_block hw (v_gf v) (gf_from_le_bytes (v_gf v) (encrypt_block v (gcm_key self) (replicate (block_bytes v) 0))))
         (gcm_blocks v aad @ gcm_blocks v ct) (replicate (gf_limbs (v_gf v)) 0))))"
  by (simp add: gcm_compute_tag_def gcm_absorb_padded_blocks Let_def)

lemma gcm_blocks_concat:
  obtains pad where "concat (gcm_blocks v data) = data @ pad"
  using chunks_exact_remainder [OF kalyna.bl_pos, of v data]
  by (cases "chunks_remainder (block_bytes v) data = []") (auto simp: gcm_blocks_def Let_def intro!: that simp flip: append_assoc)

lemma gcm_blocks_count: "length a = length b \<Longrightarrow> length (gcm_blocks v a) = length (gcm_blocks v b)"
  using kalyna.bl_pos [of v] length_chunks_remainder [of "block_bytes v" a] length_chunks_remainder [of "block_bytes v" b]
  by (auto simp: gcm_blocks_def Let_def chunks_exact_count simp flip: length_0_conv)

lemma gcm_blocks_inject: "length a = length b \<Longrightarrow> gcm_blocks v a = gcm_blocks v b \<longleftrightarrow> a = b"
  by (metis append_eq_append_conv gcm_blocks_concat)

lemma checked_bit_len_value: "checked_bit_len n = Some a \<Longrightarrow> unat a = n * 8"
  using unat_of_nat [of "n * 8", where 'a = 64] by (auto simp: checked_bit_len_def split: if_splits)

lemma checked_bit_len_inject: "checked_bit_len m = Some a \<Longrightarrow> checked_bit_len n = Some a \<Longrightarrow> m = n"
  using checked_bit_len_value [of m a] checked_bit_len_value [of n a] by simp

lemma gcm_length_block_parts:
  "gcm_length_block v la lc = to_le_bytes 8 la @ replicate (block_bytes v div 2 - 8) 0 @ to_le_bytes 8 lc @
     replicate (block_bytes v div 2 - 8) 0"
  by (cases v) (simp_all add: gcm_length_block_def write_at_def)

lemma gcm_length_block_inject: "gcm_length_block v la lc = gcm_length_block v la' lc' \<longleftrightarrow> la = la' \<and> lc = lc'"
  by (auto simp: gcm_length_block_parts to_le_bytes_inject)

lemma length_gcm_length_block [simp]: "length (gcm_length_block v la lc) = block_bytes v"
  by (cases v) (simp_all add: gcm_length_block_parts)

lemma gcm_absorb_length:
  assumes "\<forall>clm \<in> set_option hw. multiplies_carryless clm" "length h = gf_limbs F" "length acc = gf_limbs F"
  shows "length (fold (gcm_absorb_block hw F h) blocks acc) = gf_limbs F"
  using assms(3)
  by (induction blocks arbitrary: acc) (simp_all add: gcm_absorb_block_def gf_multiply_length [OF _ assms(2,1)])

lemma gf_limbs_block: "8 * gf_limbs (v_gf v) = block_bytes v"
  by (cases v) simp_all

lemma length_gcm_compute_tag:
  assumes "\<forall>clm \<in> set_option hw. multiplies_carryless clm" "valid_expanded_key v (gcm_key self)"
  shows "length (gcm_compute_tag hw v self aad ct la lc) = block_bytes v"
  unfolding gcm_compute_tag_horner using assms(2) by simp

section \<open>Outcomes\<close>

lemma gcm_decrypt_outcomes:
  "gcm_decrypt hw v self iv aad ct tag out =
     (if 8 \<le> length tag \<and> length tag \<le> block_bytes v \<and> length out = length ct \<and>
         checked_bit_len (length aad) \<noteq> None \<and> checked_bit_len (length ct) \<noteq> None
      then if aad = [] \<and> ct = [] then (Inl EmptyInput, out)
        else if take (length tag) (gcm_compute_tag hw v self aad ct (the (checked_bit_len (length aad))) (the (checked_bit_len (length ct)))) = tag
          then (Inr (), gcm_apply_keystream v self iv ct)
          else (Inl TagMismatch, replicate (length ct) 0)
      else if 8 \<le> length tag \<and> length tag \<le> block_bytes v \<and> length out = length ct \<and> aad = [] \<and> ct = []
        then (Inl EmptyInput, out)
        else (Inl InvalidLength, out))"
  by (auto simp: gcm_decrypt_def Let_def split: option.splits)

lemma gcm_encrypt_ok_iff:
  "gcm_encrypt hw v self iv aad pt out = (Inr t, ct) \<longleftrightarrow>
      length out = length pt \<and> (aad \<noteq> [] \<or> pt \<noteq> []) \<and> ct = gcm_apply_keystream v self iv pt \<and>
      (\<exists>la lc. checked_bit_len (length aad) = Some la \<and> checked_bit_len (length pt) = Some lc \<and>
        t = gcm_compute_tag hw v self aad ct la lc)"
    by (auto simp: gcm_encrypt_def Let_def split: option.splits)

section \<open>Properties\<close>

text \<open>What GCM encrypts it decrypts: for every message and associated data that are not both
  empty and whose bit lengths fit 64 bits, encryption returns a ciphertext of the message's length
  and a full-block tag, and decryption returns the message under every truncation of that tag to
  between 8 bytes and a block.\<close>

theorem gcm_roundtrip:
  assumes "length key = key_bytes v" "\<forall>clm \<in> set_option hw. multiplies_carryless clm"
    and "aad \<noteq> [] \<or> pt \<noteq> []" "8 * length aad < 2 ^ 64" "8 * length pt < 2 ^ 64"
    and "length ct_out = length pt" "length pt_out = length pt" "8 \<le> q" "q \<le> block_bytes v"
  shows "\<exists>self t ct. gcm_new v key = Some self \<and> gcm_encrypt hw v self iv aad pt ct_out = (Inr t, ct) \<and>
    length t = block_bytes v \<and> length ct = length pt \<and>
    gcm_decrypt hw v self iv aad ct (take q t) pt_out = (Inr (), pt)"
proof -
  obtain ek where ek: "expanded_key_new v key = Some ek" "valid_expanded_key v ek"
    using expanded_key_new_total [OF assms(1)] by auto
  let ?self = "\<lparr>gcm_key = ek\<rparr>"
  obtain la lc where l: "checked_bit_len (length aad) = Some la" "checked_bit_len (length pt) = Some lc"
    using assms(4,5) by (simp add: checked_bit_len_def)
  let ?ct = "gcm_apply_keystream v ?self iv pt"
  let ?t = "gcm_compute_tag hw v ?self aad ?ct la lc"
  have t: "length ?t = block_bytes v" using ek(2) by (intro length_gcm_compute_tag [OF assms(2)]) simp
  have "gcm_encrypt hw v ?self iv aad pt ct_out = (Inr ?t, ?ct)"
    using assms(3,6) l by (auto simp: gcm_encrypt_def Let_def)
  moreover have "gcm_decrypt hw v ?self iv aad ?ct (take q ?t) pt_out = (Inr (), pt)"
    using assms(3,7-9) l t by (auto simp: gcm_decrypt_outcomes min_def)
  ultimately show ?thesis using ek(1) t by (auto simp: gcm_new_def)
qed

theorem gcm_roundtrip_witness:
  "\<exists>self t ct. gcm_new Kalyna256_512 (replicate 64 3) = Some self \<and>
    gcm_encrypt None Kalyna256_512 self (replicate 32 1) [9] [1, 2, 3] [0, 0, 0] = (Inr t, ct) \<and>
    length t = 32 \<and> length ct = 3 \<and>
    gcm_decrypt None Kalyna256_512 self (replicate 32 1) [9] ct (take 16 t) [0, 0, 0] = (Inr (), [1, 2, 3])"
  using gcm_roundtrip [of "replicate 64 3" Kalyna256_512 None "[9]" "[1, 2, 3]" "[0, 0, 0]" "[0, 0, 0]" 16 "replicate 32 1"]
  by (simp add: numeral_3_eq_3)

text \<open>C38. Decryption accepts exactly the encryptions: it returns a message if and only if encrypting
  that message gives the ciphertext and a tag that starts with the one presented. On a tag mismatch
  the output buffer is all zeros, on any other error it is untouched, so unverified plaintext is
  never observable.\<close>

theorem gcm_decrypt_exact:
  "(gcm_decrypt hw v self iv aad ct tag out = (Inr (), pt) \<longleftrightarrow>
     length out = length ct \<and> 8 \<le> length tag \<and> length tag \<le> block_bytes v \<and>
     (\<exists>t. gcm_encrypt hw v self iv aad pt out = (Inr t, ct) \<and> take (length tag) t = tag)) \<and>
   (\<exists>r o'. gcm_decrypt hw v self iv aad ct tag out = (r, o') \<and>
     (r = Inr () \<or> r = Inl TagMismatch \<and> o' = replicate (length out) 0 \<or>
      r = Inl InvalidLength \<and> o' = out \<or> r = Inl EmptyInput \<and> o' = out))"
  by (auto simp: gcm_decrypt_outcomes gcm_encrypt_ok_iff)

text \<open>As the module warns, the tag does not cover the initialisation vector: what was encrypted
  under one vector verifies under every other, and decrypts there to the message masked with the
  difference of the two keystreams.\<close>

theorem gcm_tag_ignores_iv:
  assumes "gcm_encrypt hw v self iv aad pt out = (Inr t, ct)" "8 \<le> q" "q \<le> block_bytes v" "length t = block_bytes v"
  shows "gcm_decrypt hw v self iv' aad ct (take q t) out =
    (Inr (), gcm_apply_keystream v self iv' (gcm_apply_keystream v self iv pt))"
proof -
  obtain la lc where e: "length out = length pt" "aad \<noteq> [] \<or> pt \<noteq> []" "ct = gcm_apply_keystream v self iv pt"
    "checked_bit_len (length aad) = Some la" "checked_bit_len (length pt) = Some lc" "t = gcm_compute_tag hw v self aad ct la lc"
    using assms(1) unfolding gcm_encrypt_ok_iff by blast
  have "length (take q t) = q" using assms by simp
  then show ?thesis unfolding gcm_decrypt_outcomes using e assms(2-4) by auto
qed

theorem gcm_tag_ignores_iv_witness:
  "\<exists>self t ct. gcm_new Kalyna128_128 (replicate 16 3) = Some self \<and>
    gcm_encrypt None Kalyna128_128 self (replicate 16 1) [] [1, 2] [0, 0] = (Inr t, ct) \<and>
    gcm_decrypt None Kalyna128_128 self (replicate 16 8) [] ct (take 16 t) [0, 0] =
      (Inr (), gcm_apply_keystream Kalyna128_128 self (replicate 16 8)
         (gcm_apply_keystream Kalyna128_128 self (replicate 16 1) [1, 2]))"
proof -
  obtain ek where ek: "expanded_key_new Kalyna128_128 (replicate 16 3) = Some ek" "valid_expanded_key Kalyna128_128 ek"
    using expanded_key_new_total [of "replicate 16 3" Kalyna128_128] by auto
  let ?s = "\<lparr>gcm_key = ek\<rparr>"
  let ?c = "gcm_apply_keystream Kalyna128_128 ?s (replicate 16 1) [1, 2]"
  let ?t = "gcm_compute_tag None Kalyna128_128 ?s [] ?c 0 16"
  have e: "gcm_encrypt None Kalyna128_128 ?s (replicate 16 1) [] [1, 2] [0, 0] = (Inr ?t, ?c)"
    by (simp add: gcm_encrypt_def checked_bit_len_def Let_def)
  have t: "length ?t = 16" using length_gcm_compute_tag [of None Kalyna128_128 ?s] ek(2) by simp
  show ?thesis using gcm_tag_ignores_iv [OF e, of 16 "replicate 16 8"] e t ek(1) by (auto simp: gcm_new_def)
qed

text \<open>The tag is the encryption of the lengths masked with a Horner chain over padded blocks, and
  that input determines the associated data and the ciphertext: streams whose padded blocks and
  length block coincide are equal, so a ciphertext and the same bytes with their padding written out
  no longer share a tag input.\<close>

theorem gcm_tag_input_injective:
  assumes "checked_bit_len (length aad) = Some la" "checked_bit_len (length ct) = Some lc"
    and "checked_bit_len (length aad') = Some la'" "checked_bit_len (length ct') = Some lc'"
  shows "gcm_compute_tag hw v self aad ct la lc = encrypt_block v (gcm_key self)
      (xor_into (gcm_length_block v la lc) (gf_to_le_bytes (v_gf v)
        (fold (gcm_absorb_block hw (v_gf v) (gf_from_le_bytes (v_gf v) (encrypt_block v (gcm_key self) (replicate (block_bytes v) 0))))
          (gcm_blocks v aad @ gcm_blocks v ct) (replicate (gf_limbs (v_gf v)) 0)))) \<and>
    (gcm_blocks v aad @ gcm_blocks v ct = gcm_blocks v aad' @ gcm_blocks v ct' \<and>
       gcm_length_block v la lc = gcm_length_block v la' lc' \<longleftrightarrow> aad = aad' \<and> ct = ct')"
proof (intro conjI gcm_compute_tag_horner iffI)
  assume eq: "gcm_blocks v aad @ gcm_blocks v ct = gcm_blocks v aad' @ gcm_blocks v ct' \<and>
    gcm_length_block v la lc = gcm_length_block v la' lc'"
  then have len: "length aad = length aad'" "length ct = length ct'"
    using assms by (auto simp: gcm_length_block_inject dest: checked_bit_len_inject)
  then show "aad = aad'" "ct = ct'"
    using eq by (simp_all add: append_eq_append_conv gcm_blocks_count [OF len(1)] gcm_blocks_inject)
qed (use assms in auto)

theorem gcm_tag_input_injective_witness:
  "gcm_blocks Kalyna128_128 [] @ gcm_blocks Kalyna128_128 [1] = gcm_blocks Kalyna128_128 [] @ gcm_blocks Kalyna128_128 [1, 0x80] \<and>
     gcm_length_block Kalyna128_128 0 8 = gcm_length_block Kalyna128_128 0 16 \<longleftrightarrow> False"
  using gcm_tag_input_injective [of "[]" 0 "[1]" 8 "[]" 0 "[1, 0x80]" 16 None Kalyna128_128]
  by (auto simp: checked_bit_len_def)

end
