(* ===== verification/Kalyna_Gmac.thy ===== *)
theory Kalyna_Gmac
  imports Kalyna_Gcm
begin

text \<open>
  \<open>crates/dstu-core/src/hazmat/kalyna_gmac.rs\<close>: the MAC-only sibling of GCM. Its block loop works
  with offsets into the message where GCM's takes exact chunks; the two are proved to accumulate
  the same blocks, so that GMAC is the GCM tag of the message as associated data.
\<close>

section \<open>Definitions\<close>

datatype gmac_error = EmptyMessage | InvalidLength | TagMismatch

text \<open>The loop of \<open>mac_with_bit_len\<close>; \<open>rem\<close> and \<open>padded_len\<close> are the locals of those names.\<close>

function gmac_loop ::
  "(u64 \<Rightarrow> u64 \<Rightarrow> u64 \<times> u64) option \<Rightarrow> kalyna_variant \<Rightarrow> u64 list \<Rightarrow> bytes \<Rightarrow> nat \<Rightarrow> nat \<Rightarrow> nat \<Rightarrow> u64 list \<Rightarrow> u64 list" where
  "gmac_loop hw v h_key message rem padded_len off acc =
     (let bl = block_bytes v; msg_len = length message in
      if \<not> off < padded_len then acc
      else let e = min (off + bl) msg_len;
               block = replicate bl 0;
               block = (if e > off then write_at block 0 (slice off e message) else block);
               block = (if rem \<noteq> 0 \<and> msg_len \<ge> off \<and> msg_len < off + bl then block[msg_len - off := 0x80] else block);
               acc = gf_multiply hw (v_gf v) (gf_add (v_gf v) acc (gf_from_le_bytes (v_gf v) block)) h_key
           in gmac_loop hw v h_key message rem padded_len (off + bl) acc)"
  by pat_completeness auto
termination
  by (relation "measure (\<lambda>(hw, v, h, m, r, p, off, acc). p - off)") (use kalyna.bl_pos in \<open>auto simp: diff_less_mono2\<close>)

declare gmac_loop.simps [simp del]

definition gmac_mac_with_bit_len ::
  "(u64 \<Rightarrow> u64 \<Rightarrow> u64 \<times> u64) option \<Rightarrow> kalyna_variant \<Rightarrow> expanded_key \<Rightarrow> bytes \<Rightarrow> u64 \<Rightarrow> bytes" where
  "gmac_mac_with_bit_len hw v cipher message bit_len =
     (let bl = block_bytes v; F = v_gf v;
          h_key = gf_from_le_bytes F (encrypt_block v cipher (replicate bl 0));
          msg_len = length message;
          rem = msg_len mod bl;
          padded_len = (if rem = 0 then msg_len else msg_len + (bl - rem));
          acc = gmac_loop hw v h_key message rem padded_len 0 (replicate (gf_limbs F) 0);
          length_block = write_at (replicate bl 0) 0 (to_le_bytes 8 bit_len);
          combined = xor_into length_block (gf_to_le_bytes F acc)
      in encrypt_block v cipher combined)"

definition gmac_mac_with_cipher ::
  "(u64 \<Rightarrow> u64 \<Rightarrow> u64 \<times> u64) option \<Rightarrow> kalyna_variant \<Rightarrow> expanded_key \<Rightarrow> bytes \<Rightarrow> gmac_error + bytes" where
  "gmac_mac_with_cipher hw v cipher message =
     (if message = [] then Inl EmptyMessage
      else case checked_bit_len (length message) of
        None \<Rightarrow> Inl InvalidLength
      | Some bit_len \<Rightarrow> Inr (gmac_mac_with_bit_len hw v cipher message bit_len))"

definition gmac_mac ::
  "(u64 \<Rightarrow> u64 \<Rightarrow> u64 \<times> u64) option \<Rightarrow> kalyna_variant \<Rightarrow> bytes \<Rightarrow> bytes \<Rightarrow> (gmac_error + bytes) option" where
  "gmac_mac hw v key message =
     map_option (\<lambda>cipher. gmac_mac_with_cipher hw v cipher message) (expanded_key_new v key)"

definition gmac_verify_with_cipher ::
  "(u64 \<Rightarrow> u64 \<Rightarrow> u64 \<times> u64) option \<Rightarrow> kalyna_variant \<Rightarrow> expanded_key \<Rightarrow> bytes \<Rightarrow> bytes \<Rightarrow> gmac_error + unit" where
  "gmac_verify_with_cipher hw v cipher message tag =
     (if \<not> (8 \<le> length tag \<and> length tag \<le> block_bytes v) then Inl InvalidLength
      else case gmac_mac_with_cipher hw v cipher message of
        Inl e \<Rightarrow> Inl e
      | Inr expected \<Rightarrow> if take (length tag) expected = tag then Inr () else Inl TagMismatch)"

definition gmac_verify ::
  "(u64 \<Rightarrow> u64 \<Rightarrow> u64 \<times> u64) option \<Rightarrow> kalyna_variant \<Rightarrow> bytes \<Rightarrow> bytes \<Rightarrow> bytes \<Rightarrow> (gmac_error + unit) option" where
  "gmac_verify hw v key message tag =
     map_option (\<lambda>cipher. gmac_verify_with_cipher hw v cipher message tag) (expanded_key_new v key)"

section \<open>The loop absorbs the blocks of GCM\<close>

lemma gcm_blocks_Nil [simp]: "gcm_blocks v [] = []"
  by (simp add: gcm_blocks_def chunks_remainder_def)

lemma gcm_blocks_step:
  "block_bytes v \<le> length m \<Longrightarrow> gcm_blocks v m = take (block_bytes v) m # gcm_blocks v (drop (block_bytes v) m)"
  using kalyna.bl_pos [of v]
  by (simp add: gcm_blocks_def Let_def chunks_exact.simps [of "block_bytes v" m] chunks_remainder_def le_div_geq add.commute)

lemma gcm_blocks_tail:
  "m \<noteq> [] \<Longrightarrow> length m < block_bytes v \<Longrightarrow> gcm_blocks v m = [m @ [0x80] @ replicate (block_bytes v - length m - 1) 0]"
  by (simp add: gcm_blocks_def Let_def chunks_remainder_def)

lemma gmac_loop_blocks:
  assumes "off mod block_bytes v = 0" "off \<le> length message"
    and "padded_len = (if length message mod block_bytes v = 0 then length message
           else length message + (block_bytes v - length message mod block_bytes v))"
  shows "gmac_loop hw v h message (length message mod block_bytes v) padded_len off acc =
    fold (gcm_absorb_block hw (v_gf v) h) (gcm_blocks v (drop off message)) acc"
  using assms(1,2)
proof (induction "length message - off" arbitrary: off acc rule: less_induct)
  case less
  let ?bl = "block_bytes v" and ?n = "length message"
  note bl = kalyna.bl_pos [of v]
  let ?loop = "gmac_loop hw v h message (?n mod ?bl) padded_len"
  consider (finish) "off = ?n" | (whole) "off + ?bl \<le> ?n" | (part) "off < ?n" "?n < off + ?bl" using less.prems by linarith
  then show ?case
  proof cases
    case finish
    then show ?thesis using less.prems assms(3) by (simp add: gmac_loop.simps)
  next
    case whole
    have "?n \<le> padded_len" using assms(3) by auto
    then have "?loop off acc = ?loop (off + ?bl) (gcm_absorb_block hw (v_gf v) h (slice off (off + ?bl) message) acc)"
      using whole bl
      by (simp add: gmac_loop.simps [of hw v h message _ _ off] gcm_absorb_block_def Let_def min_absorb1 write_at_def)
    moreover have "?loop (off + ?bl) a = fold (gcm_absorb_block hw (v_gf v) h) (gcm_blocks v (drop (off + ?bl) message)) a" for a
      using whole bl less.prems by (intro less.hyps) simp_all
    moreover have "gcm_blocks v (drop off message) = slice off (off + ?bl) message # gcm_blocks v (drop (off + ?bl) message)"
      using whole gcm_blocks_step [of v "drop off message"] by (simp add: slice_def add.commute)
    ultimately show ?thesis by simp
  next
    case part
    have "?n mod ?bl = ?n - off"
    proof -
      have "(off + (?n - off)) mod ?bl = (?n - off) mod ?bl" using less.prems(1) by (metis add_0 mod_add_left_eq)
      then show ?thesis using part by simp
    qed
    then have pad: "?n mod ?bl \<noteq> 0" "padded_len = off + ?bl" using part assms(3) by simp_all
    have block: "(write_at (replicate ?bl 0) 0 (slice off ?n message))[?n - off := 0x80] =
        drop off message @ [0x80] @ replicate (?bl - length (drop off message) - 1) 0"
      using part padded_tail_block [of "drop off message" ?bl] by (simp add: slice_def)
    have "?loop off acc = gcm_absorb_block hw (v_gf v) h ((write_at (replicate ?bl 0) 0 (slice off ?n message))[?n - off := 0x80]) acc"
      using part pad bl
      by (simp add: gmac_loop.simps [of hw v h message _ _ off] gmac_loop.simps [of hw v h message _ _ "off + ?bl"]
          gcm_absorb_block_def Let_def min_absorb2)
    then show ?thesis unfolding block using part gcm_blocks_tail [of "drop off message" v] by simp
  qed
qed

lemma gmac_length_block: "write_at (replicate (block_bytes v) 0) 0 (to_le_bytes 8 n) = gcm_length_block v n 0"
proof -
  have "to_le_bytes 8 (0 :: u64) = replicate 8 0"
    by (rule nth_equalityI) (simp_all add: nth_to_le_bytes)
  then show ?thesis by (cases v) (simp_all add: gcm_length_block_parts write_at_def flip: replicate_add)
qed

lemma gmac_is_gcm_tag:
  "gmac_mac_with_bit_len hw v cipher message n = gcm_compute_tag hw v \<lparr>gcm_key = cipher\<rparr> message [] n 0"
  by (simp add: gmac_mac_with_bit_len_def gcm_compute_tag_horner gmac_loop_blocks gmac_length_block Let_def
      del: replicate.simps)

section \<open>Properties\<close>

text \<open>GMAC is GCM without a plaintext: for every message and initialisation vector the MAC is the
  tag GCM computes with the message as associated data and nothing to encrypt, with the same cases
  refused.\<close>

theorem gmac_is_gcm_without_plaintext:
  "gmac_mac_with_cipher hw v cipher message =
    (case fst (gcm_encrypt hw v \<lparr>gcm_key = cipher\<rparr> iv message [] []) of
       Inr tag \<Rightarrow> Inr tag
     | Inl EmptyInput \<Rightarrow> Inl EmptyMessage
     | Inl gcm_error.InvalidLength \<Rightarrow> Inl InvalidLength
     | Inl gcm_error.TagMismatch \<Rightarrow> Inl TagMismatch)"
proof -
  have "checked_bit_len 0 = Some 0" by (simp add: checked_bit_len_def)
  then show ?thesis
    by (simp add: gmac_mac_with_cipher_def gcm_encrypt_def gcm_apply_keystream_def gmac_is_gcm_tag Let_def split: option.splits)
qed

text \<open>Verification accepts a tag exactly when it is a truncation, to between 8 bytes and a block,
  of the MAC of the message under that key; an empty message is refused with its own error once the
  tag length is admissible.\<close>

theorem gmac_verify_exact:
  assumes "length key = key_bytes v"
  shows "(gmac_verify hw v key message tag = Some (Inr ()) \<longleftrightarrow>
      8 \<le> length tag \<and> length tag \<le> block_bytes v \<and>
      (\<exists>t. gmac_mac hw v key message = Some (Inr t) \<and> take (length tag) t = tag)) \<and>
    (8 \<le> length tag \<and> length tag \<le> block_bytes v \<longrightarrow>
      gmac_verify hw v key [] tag = Some (Inl EmptyMessage)) \<and>
    (message \<noteq> [] \<and> 8 * length message < 2 ^ 64 \<longrightarrow> (\<exists>t. gmac_mac hw v key message = Some (Inr t) \<and> length t = block_bytes v))"
proof -
  obtain ek where ek: "expanded_key_new v key = Some ek" "valid_expanded_key v ek"
    using expanded_key_new_total [OF assms] by auto
  have "length (gmac_mac_with_bit_len hw v ek message n) = block_bytes v" for n
    unfolding gmac_is_gcm_tag gcm_compute_tag_horner using ek(2) by simp
  moreover have "8 * length message < 2 ^ 64 \<Longrightarrow> \<exists>n. checked_bit_len (length message) = Some n"
    by (simp add: checked_bit_len_def)
  ultimately show ?thesis
    using ek(1) by (auto simp: gmac_verify_def gmac_mac_def gmac_verify_with_cipher_def gmac_mac_with_cipher_def
        split: option.splits sum.splits)
qed

theorem gmac_verify_exact_witness:
  "\<exists>t. gmac_mac None Kalyna128_256 (replicate 32 1) [1, 2, 3] = Some (Inr t) \<and> length t = 16 \<and>
    gmac_verify None Kalyna128_256 (replicate 32 1) [1, 2, 3] (take 8 t) = Some (Inr ())"
proof -
  obtain t where t: "gmac_mac None Kalyna128_256 (replicate 32 1) [1, 2, 3] = Some (Inr t)" "length t = 16"
    using gmac_verify_exact [of "replicate 32 1" Kalyna128_256 None "[1, 2, 3]" "[]"] by auto
  then show ?thesis
    using gmac_verify_exact [of "replicate 32 1" Kalyna128_256 None "[1, 2, 3]" "take 8 t"] by auto
qed

end
