(* ===== verification/Kalyna_Ccm.thy ===== *)
theory Kalyna_Ccm
  imports Kalyna_Ctr
begin

text \<open>
  \<open>crates/dstu-core/src/hazmat/kalyna_ccm.rs\<close>: the authenticated mode that MACs the plaintext
  (CBC-MAC over \<open>G1\<close>, \<open>G2\<close>, the associated data and the padded plaintext) and masks plaintext
  and MAC with a running keystream. The shared cores work on 64-byte arrays whatever the block
  length, as in the code. \<open>Gamma\<close> is shown to refine Kalyna-CTR, so that a sealed message is the
  CTR encryption of the plaintext followed by its MAC.
\<close>

section \<open>Definitions\<close>

definition MAX_BLOCK :: nat where "MAX_BLOCK = 64"

definition MAX_PLAINTEXT_LEN :: nat where "MAX_PLAINTEXT_LEN = 255"

definition MAX_AAD_LEN :: nat where "MAX_AAD_LEN = 255"

definition MAX_CCM_NB :: nat where "MAX_CCM_NB = 8"

definition H_BUF_LEN :: nat where "H_BUF_LEN = MAX_BLOCK + (MAX_CCM_NB + MAX_BLOCK - 1) + MAX_AAD_LEN"

definition P_BUF_LEN :: nat where "P_BUF_LEN = MAX_PLAINTEXT_LEN + MAX_BLOCK"

datatype ccm_error = EmptyPlaintext | PlaintextTooLong | AadTooLong | TagMismatch

definition ccm_increment_counter :: "bytes \<Rightarrow> nat \<Rightarrow> bytes" where
  "ccm_increment_counter counter block_len = increment_counter (take block_len counter) @ drop block_len counter"

definition tag_length_code :: "nat \<Rightarrow> u8" where
  "tag_length_code q =
     (if q = 8 then 2 else if q = 16 then 3 else if q = 32 then 4 else if q = 48 then 5 else if q = 64 then 6 else 0)"

definition ccm_g1 :: "nat \<Rightarrow> nat \<Rightarrow> nat \<Rightarrow> bytes \<Rightarrow> bytes \<Rightarrow> bytes \<Rightarrow> bytes" where
  "ccm_g1 block_len ccm_nb q nonce aad plaintext =
     (let prefix_len = block_len - ccm_nb - 1;
          g1 = replicate MAX_BLOCK 0;
          g1 = write_at g1 0 (take prefix_len nonce);
          m_len = to_le_bytes 8 (of_nat (length plaintext) :: u64);
          g1 = write_at g1 prefix_len (take ccm_nb m_len);
          flags = (if aad = [] then 0 else 0x80);
          flags = flags OR push_bit 4 (tag_length_code q);
          flags = flags OR of_nat (ccm_nb - 1)
      in g1[block_len - 1 := flags])"

definition ccm_h_buf :: "nat \<Rightarrow> nat \<Rightarrow> bytes \<Rightarrow> bytes \<Rightarrow> bytes \<times> nat" where
  "ccm_h_buf block_len ccm_nb g1 aad =
     (let h_buf = write_at (replicate H_BUF_LEN 0) 0 (take block_len g1);
          h_len = block_len
      in if aad \<noteq> [] then
           (let o_len = to_le_bytes 8 (of_nat (length aad) :: u64);
                h_buf = write_at h_buf h_len (take ccm_nb o_len);
                zeros = (2 * block_len - length aad mod block_len - ccm_nb) mod block_len;
                h_len = h_len + (ccm_nb + zeros);
                h_buf = write_at h_buf h_len aad
            in (h_buf, h_len + length aad))
         else (h_buf, h_len))"

definition ccm_p_buf :: "nat \<Rightarrow> bytes \<Rightarrow> bytes \<times> nat" where
  "ccm_p_buf block_len plaintext =
     (let p_buf = write_at (replicate P_BUF_LEN 0) 0 plaintext;
          p_len = length plaintext
      in if p_len mod block_len \<noteq> 0
         then (p_buf[p_len := 0x80], p_len + (block_len - p_len mod block_len))
         else (p_buf, p_len))"

definition ccm_chain :: "(bytes \<Rightarrow> bytes) \<Rightarrow> nat \<Rightarrow> bytes \<Rightarrow> bytes \<Rightarrow> bytes" where
  "ccm_chain enc block_len buf b = fold (\<lambda>chunk b. enc (xor_into b chunk)) (chunks_exact block_len buf) b"

definition ccm_compute_tag ::
  "(bytes \<Rightarrow> bytes) \<Rightarrow> nat \<Rightarrow> nat \<Rightarrow> nat \<Rightarrow> bytes \<Rightarrow> bytes \<Rightarrow> bytes \<Rightarrow> bytes" where
  "ccm_compute_tag enc block_len ccm_nb q nonce aad plaintext =
     (let g1 = ccm_g1 block_len ccm_nb q nonce aad plaintext;
          (h_buf, h_len) = ccm_h_buf block_len ccm_nb g1 aad;
          b = replicate MAX_BLOCK 0;
          b = ccm_chain enc block_len (take h_len h_buf) b;
          (p_buf, p_len) = ccm_p_buf block_len plaintext
      in ccm_chain enc block_len (take p_len p_buf) b)"

record ccm_gamma =
  gamma_counter :: bytes
  gamma_keystream :: bytes
  gamma_used :: nat
  gamma_block_len :: nat

definition gamma_new :: "nat \<Rightarrow> bytes \<Rightarrow> (bytes \<Rightarrow> bytes) \<Rightarrow> ccm_gamma" where
  "gamma_new block_len nonce_block enc =
     (let seed = enc nonce_block
      in \<lparr>gamma_counter = seed, gamma_keystream = seed, gamma_used = block_len, gamma_block_len = block_len\<rparr>)"

definition gamma_advance :: "(bytes \<Rightarrow> bytes) \<Rightarrow> ccm_gamma \<Rightarrow> ccm_gamma" where
  "gamma_advance enc self =
     (let counter = ccm_increment_counter (gamma_counter self) (gamma_block_len self)
      in self\<lparr>gamma_counter := counter, gamma_keystream := enc counter\<rparr>)"

text \<open>The three loops of \<open>apply\<close> over the rest of the buffer.\<close>

fun gamma_head :: "nat \<Rightarrow> bytes \<Rightarrow> nat \<Rightarrow> bytes \<Rightarrow> bytes \<times> nat \<times> bytes" where
  "gamma_head block_len ks offset [] = ([], offset, [])"
| "gamma_head block_len ks offset (b # bs) =
     (if offset < block_len
      then let (out, offset', rest) = gamma_head block_len ks (offset + 1) bs
           in ((b XOR ks ! offset) # out, offset', rest)
      else ([], offset, b # bs))"

function gamma_blocks :: "(bytes \<Rightarrow> bytes) \<Rightarrow> ccm_gamma \<Rightarrow> bytes \<Rightarrow> bytes \<times> ccm_gamma \<times> bytes" where
  "gamma_blocks enc self buf =
     (if 0 < gamma_block_len self \<and> gamma_block_len self \<le> length buf then
        (let block = map (\<lambda>i. buf ! i XOR gamma_keystream self ! i) [0..<gamma_block_len self];
             (out, self', rest) = gamma_blocks enc (gamma_advance enc self) (drop (gamma_block_len self) buf)
         in (block @ out, self', rest))
      else ([], self, buf))"
  by pat_completeness auto
termination
  by (relation "measure (\<lambda>(enc, self, buf). length buf)") auto

declare gamma_blocks.simps [simp del]

fun gamma_tail :: "bytes \<Rightarrow> nat \<Rightarrow> bytes \<Rightarrow> bytes \<times> nat" where
  "gamma_tail ks offset [] = ([], offset)"
| "gamma_tail ks offset (b # bs) =
     (let (out, offset') = gamma_tail ks (offset + 1) bs in ((b XOR ks ! offset) # out, offset'))"

definition gamma_apply :: "(bytes \<Rightarrow> bytes) \<Rightarrow> ccm_gamma \<Rightarrow> bytes \<Rightarrow> bytes \<times> ccm_gamma" where
  "gamma_apply enc self buf =
     (let offset = gamma_used self;
          (head, self, offset, rest) =
            (if offset \<noteq> 0 then
               (let (head, offset, rest) = gamma_head (gamma_block_len self) (gamma_keystream self) offset buf
                in if offset = gamma_block_len self then (head, gamma_advance enc self, 0, rest)
                   else (head, self, offset, rest))
             else ([], self, offset, buf));
          (blocks, self, rest) = gamma_blocks enc self rest;
          (tail, offset) = gamma_tail (gamma_keystream self) offset rest
      in (head @ blocks @ tail, self\<lparr>gamma_used := offset\<rparr>))"

text \<open>\<open>seal_core\<close> returns the tag buffer and the contents of \<open>buf\<close>; \<open>open_core\<close> the verdict and
  the contents of \<open>buf\<close>.\<close>

definition seal_core ::
  "(bytes \<Rightarrow> bytes) \<Rightarrow> nat \<Rightarrow> nat \<Rightarrow> nat \<Rightarrow> bytes \<Rightarrow> bytes \<Rightarrow> bytes \<Rightarrow> (ccm_error + bytes) \<times> bytes" where
  "seal_core enc block_len ccm_nb q nonce aad buf =
     (if buf = [] then (Inl EmptyPlaintext, buf)
      else if length buf > MAX_PLAINTEXT_LEN then (Inl PlaintextTooLong, buf)
      else if length aad > MAX_AAD_LEN then (Inl AadTooLong, buf)
      else let raw_tag = ccm_compute_tag enc block_len ccm_nb q nonce aad buf;
               nonce_block = write_at (replicate MAX_BLOCK 0) 0 (take block_len nonce);
               gamma = gamma_new block_len nonce_block enc;
               (buf, gamma) = gamma_apply enc gamma buf;
               tag_buf = write_at (replicate MAX_BLOCK 0) 0 (take q raw_tag);
               (masked, gamma) = gamma_apply enc gamma (take q tag_buf);
               tag_buf = masked @ drop q tag_buf
           in (Inr tag_buf, buf))"

definition open_core ::
  "(bytes \<Rightarrow> bytes) \<Rightarrow> nat \<Rightarrow> nat \<Rightarrow> nat \<Rightarrow> bytes \<Rightarrow> bytes \<Rightarrow> bytes \<Rightarrow> bytes \<Rightarrow> (ccm_error + unit) \<times> bytes" where
  "open_core enc block_len ccm_nb q nonce aad buf tag =
     (if buf = [] then (Inl EmptyPlaintext, buf)
      else if length buf > MAX_PLAINTEXT_LEN then (Inl PlaintextTooLong, buf)
      else if length aad > MAX_AAD_LEN then (Inl AadTooLong, buf)
      else let nonce_block = write_at (replicate MAX_BLOCK 0) 0 (take block_len nonce);
               gamma = gamma_new block_len nonce_block enc;
               (buf, gamma) = gamma_apply enc gamma buf;
               recovered_tag = write_at (replicate MAX_BLOCK 0) 0 (take q tag);
               (unmasked, gamma) = gamma_apply enc gamma (take q recovered_tag);
               recovered_tag = unmasked @ drop q recovered_tag;
               expected_tag = ccm_compute_tag enc block_len ccm_nb q nonce aad buf
           in if take q recovered_tag = take q expected_tag then (Inr (), buf)
              else (Inl TagMismatch, replicate (length buf) 0))"

fun v_ccm_nb :: "kalyna_variant \<Rightarrow> nat" where
  "v_ccm_nb Kalyna128_128 = 4" | "v_ccm_nb Kalyna128_256 = 4" | "v_ccm_nb Kalyna256_256 = 4"
| "v_ccm_nb Kalyna256_512 = 6" | "v_ccm_nb Kalyna512_512 = 8"

fun v_ccm_q :: "kalyna_variant \<Rightarrow> nat" where
  "v_ccm_q Kalyna128_128 = 16" | "v_ccm_q Kalyna128_256 = 16" | "v_ccm_q Kalyna256_256 = 16"
| "v_ccm_q Kalyna256_512 = 32" | "v_ccm_q Kalyna512_512 = 64"

record kalyna_ccm =
  ccm_key :: expanded_key

definition ccm_new :: "kalyna_variant \<Rightarrow> bytes \<Rightarrow> kalyna_ccm option" where
  "ccm_new v key = map_option (\<lambda>ek. \<lparr>ccm_key = ek\<rparr>) (expanded_key_new v key)"

definition encrypt_block_padded :: "kalyna_variant \<Rightarrow> kalyna_ccm \<Rightarrow> bytes \<Rightarrow> bytes" where
  "encrypt_block_padded v self block =
     (let out = encrypt_block v (ccm_key self) (take (block_bytes v) block)
      in write_at (replicate MAX_BLOCK 0) 0 out)"

definition ccm_seal_in_place :: "kalyna_variant \<Rightarrow> kalyna_ccm \<Rightarrow> bytes \<Rightarrow> bytes \<Rightarrow> bytes \<Rightarrow> (ccm_error + bytes) \<times> bytes" where
  "ccm_seal_in_place v self nonce aad buf =
     (case seal_core (encrypt_block_padded v self) (block_bytes v) (v_ccm_nb v) (v_ccm_q v) nonce aad buf of
        (Inl e, buf) \<Rightarrow> (Inl e, buf)
      | (Inr tag, buf) \<Rightarrow> (Inr (take (v_ccm_q v) tag), buf))"

definition ccm_open_in_place :: "kalyna_variant \<Rightarrow> kalyna_ccm \<Rightarrow> bytes \<Rightarrow> bytes \<Rightarrow> bytes \<Rightarrow> bytes \<Rightarrow> (ccm_error + unit) \<times> bytes" where
  "ccm_open_in_place v self nonce aad buf tag =
     open_core (encrypt_block_padded v self) (block_bytes v) (v_ccm_nb v) (v_ccm_q v) nonce aad buf tag"

section \<open>The gamma state refines the counter mode\<close>

definition gamma_abs :: "kalyna_ccm \<Rightarrow> ccm_gamma \<Rightarrow> kalyna_ctr" where
  "gamma_abs self g = \<lparr>ctr_key = ccm_key self, ctr_gamma = take (gamma_block_len g) (gamma_keystream g),
     ctr_feed = take (gamma_block_len g) (gamma_counter g), ctr_used_gamma_len = gamma_used g\<rparr>"

definition gamma_ok :: "kalyna_variant \<Rightarrow> kalyna_ccm \<Rightarrow> ccm_gamma \<Rightarrow> bool" where
  "gamma_ok v self g \<longleftrightarrow> gamma_block_len g = block_bytes v \<and> length (gamma_counter g) = 64 \<and>
     length (gamma_keystream g) = 64 \<and> gamma_used g \<le> block_bytes v \<and> valid_expanded_key v (ccm_key self)"

lemma block_bytes_le_64 [simp]: "block_bytes v \<le> 64"
  by (cases v) simp_all

lemma encrypt_block_padded_take:
  assumes "valid_expanded_key v (ccm_key self)" "length b = 64"
  shows "length (encrypt_block_padded v self b) = 64"
    and "take (block_bytes v) (encrypt_block_padded v self b) = encrypt_block v (ccm_key self) (take (block_bytes v) b)"
  using assms by (simp_all add: encrypt_block_padded_def write_at_def MAX_BLOCK_def Let_def)

lemma gamma_advance_abs:
  assumes "gamma_ok v self g"
  shows "gamma_abs self (gamma_advance (encrypt_block_padded v self) g) = ctr_advance v (gamma_abs self g)"
    and "gamma_ok v self (gamma_advance (encrypt_block_padded v self) g)"
proof -
  let ?c = "ccm_increment_counter (gamma_counter g) (block_bytes v)"
  have c: "length ?c = 64" "take (block_bytes v) ?c = increment_counter (take (block_bytes v) (gamma_counter g))"
    using assms by (simp_all add: gamma_ok_def ccm_increment_counter_def)
  with assms show "gamma_abs self (gamma_advance (encrypt_block_padded v self) g) = ctr_advance v (gamma_abs self g)"
    by (simp add: gamma_abs_def gamma_advance_def ctr_advance_def gamma_ok_def encrypt_block_padded_take Let_def)
  from c assms show "gamma_ok v self (gamma_advance (encrypt_block_padded v self) g)"
    by (simp add: gamma_advance_def gamma_ok_def encrypt_block_padded_take Let_def)
qed

lemma gamma_head_take:
  "block_len \<le> length ks \<Longrightarrow> gamma_head block_len ks off buf = ctr_head block_len (take block_len ks) off buf"
  by (induction buf arbitrary: off) simp_all

lemma gamma_blocks_abs:
  assumes "gamma_ok v self g"
  shows "\<exists>out g' rest. gamma_blocks (encrypt_block_padded v self) g buf = (out, g', rest) \<and>
    ctr_blocks v (gamma_abs self g) buf = (out, gamma_abs self g', rest) \<and> gamma_ok v self g' \<and>
    length rest < block_bytes v \<and> gamma_used g' = gamma_used g"
  using assms
proof (induction "length buf" arbitrary: buf g rule: less_induct)
  case less
  let ?e = "encrypt_block_padded v self" and ?bl = "block_bytes v"
  note bl = kalyna.bl_pos [of v]
  have gbl: "gamma_block_len g = ?bl" using less.prems by (simp add: gamma_ok_def)
  show ?case
  proof (cases "?bl \<le> length buf")
    case True
    have "length (drop ?bl buf) < length buf" using True bl by simp
    from less.hyps [OF this gamma_advance_abs(2) [OF less.prems]]
    obtain out g' rest where ih: "gamma_blocks ?e (gamma_advance ?e g) (drop ?bl buf) = (out, g', rest)"
      "ctr_blocks v (gamma_abs self (gamma_advance ?e g)) (drop ?bl buf) = (out, gamma_abs self g', rest)"
      "gamma_ok v self g'" "length rest < ?bl" "gamma_used g' = gamma_used (gamma_advance ?e g)" by blast
    have "map (\<lambda>i. buf ! i XOR gamma_keystream g ! i) [0..<?bl] = xor_into (take ?bl buf) (take ?bl (gamma_keystream g))"
      using True less.prems by (intro nth_equalityI) (simp_all add: nth_xor_into gamma_ok_def)
    then have 1: "gamma_blocks ?e g buf = (xor_into (take ?bl buf) (take ?bl (gamma_keystream g)) @ out, g', rest)"
      using ih(1) True bl gbl by (simp add: gamma_blocks.simps [of ?e g buf])
    have "ctr_gamma (gamma_abs self g) = take ?bl (gamma_keystream g)" by (simp add: gamma_abs_def gbl)
    then have 2: "ctr_blocks v (gamma_abs self g) buf = (xor_into (take ?bl buf) (take ?bl (gamma_keystream g)) @ out, gamma_abs self g', rest)"
      using ih(2) True gamma_advance_abs(1) [OF less.prems] by (simp add: ctr_blocks.simps [of v "gamma_abs self g" buf])
    have "gamma_used g' = gamma_used g" using ih(5) by (simp add: gamma_advance_def Let_def)
    with 1 2 ih(3,4) show ?thesis by blast
  next
    case False
    with less.prems gbl show ?thesis
      by (simp add: gamma_blocks.simps [of ?e g buf] ctr_blocks.simps [of v "gamma_abs self g" buf])
  qed
qed

lemma gamma_blocks_Nil: "gamma_blocks enc g [] = ([], g, [])"
  by (subst gamma_blocks.simps) auto

lemma gamma_tail_is: "gamma_tail ks off buf = ctr_tail ks off buf"
  by (induction buf arbitrary: off) simp_all

lemma ctr_tail_take: "off + length buf \<le> n \<Longrightarrow> n \<le> length ks \<Longrightarrow> ctr_tail (take n ks) off buf = ctr_tail ks off buf"
  by (induction buf arbitrary: off) simp_all

lemma gamma_apply_abs:
  assumes "gamma_ok v self g"
  shows "\<exists>out g'. gamma_apply (encrypt_block_padded v self) g buf = (out, g') \<and>
    ctr_apply_in_place v (gamma_abs self g) buf = (out, gamma_abs self g') \<and> gamma_ok v self g'"
proof -
  let ?e = "encrypt_block_padded v self" and ?bl = "block_bytes v"
  have g: "gamma_block_len g = ?bl" "length (gamma_keystream g) = 64" "gamma_used g \<le> ?bl"
    using assms by (simp_all add: gamma_ok_def)
  have inv: "ctr_inv v (gamma_abs self g)" using assms by (simp add: gamma_ok_def gamma_abs_def ctr_inv_def)
  obtain head g1 off rest where h: "gamma_ok v self g1" "off + length (if off = 0 then [] else rest) \<le> ?bl" "off = 0 \<or> rest = []"
    "(if gamma_used g \<noteq> 0 then
        (let (head, offset, rest) = gamma_head (gamma_block_len g) (gamma_keystream g) (gamma_used g) buf
         in if offset = gamma_block_len g then (head, gamma_advance ?e g, 0, rest) else (head, g, offset, rest))
      else ([], g, gamma_used g, buf)) = (head, g1, off, rest)"
    "(if gamma_used g \<noteq> 0 then
        (let (head, offset, rest) = ctr_head ?bl (ctr_gamma (gamma_abs self g)) (gamma_used g) buf
         in if offset = ?bl then (head, ctr_advance v (gamma_abs self g), 0, rest) else (head, gamma_abs self g, offset, rest))
      else ([], gamma_abs self g, gamma_used g, buf)) = (head, gamma_abs self g1, off, rest)"
  proof (cases "gamma_used g = 0")
    case True
    then show thesis using that [of g 0 buf "[]"] assms by simp
  next
    case False
    define n where "n = min (?bl - gamma_used g) (length buf)"
    have hd: "ctr_head ?bl (take ?bl (gamma_keystream g)) (gamma_used g) buf =
        (xor_into (take n buf) (drop (gamma_used g) (take ?bl (gamma_keystream g))), gamma_used g + n, drop n buf)"
      using g by (intro ctr_head_xor) (simp_all add: n_def)
    have gh: "gamma_head ?bl (gamma_keystream g) (gamma_used g) buf = ctr_head ?bl (take ?bl (gamma_keystream g)) (gamma_used g) buf"
      using g by (simp add: gamma_head_take)
    show thesis
    proof (cases "gamma_used g + n = ?bl")
      case True
      then show thesis
        using that [of "gamma_advance ?e g" 0 "drop n buf"] False g hd gh gamma_advance_abs [OF assms]
        by (simp add: gamma_abs_def [of self g])
    next
      case no: False
      then have "drop n buf = []" "gamma_used g + n \<le> ?bl" using g by (auto simp: n_def)
      then show thesis using that [of g "gamma_used g + n" "[]"] False no g hd gh assms by (simp add: gamma_abs_def [of self g])
    qed
  qed
  obtain out g2 rest2 where b: "gamma_blocks ?e g1 rest = (out, g2, rest2)"
    "ctr_blocks v (gamma_abs self g1) rest = (out, gamma_abs self g2, rest2)" "gamma_ok v self g2" "length rest2 < ?bl"
    using gamma_blocks_abs [OF h(1), of rest] by blast
  have r2: "off = 0 \<or> rest2 = []"
    using h(3) b(1) by (auto simp: gamma_blocks_Nil)
  have offbl: "off + length rest2 \<le> ?bl" using r2 h(2) b(4) by (auto split: if_splits)
  obtain tl off2 where t: "gamma_tail (gamma_keystream g2) off rest2 = (tl, off2)" by fastforce
  have "off + length rest2 \<le> 64" using offbl block_bytes_le_64 by (rule order_trans)
  then have off2: "off2 = off + length rest2"
    using t b(3) offbl ctr_tail_xor [of off rest2 "gamma_keystream g2"] by (auto simp: gamma_tail_is gamma_ok_def)
  have ct: "ctr_tail (ctr_gamma (gamma_abs self g2)) off rest2 = (tl, off2)"
    using t offbl b(3) by (simp add: gamma_abs_def gamma_tail_is ctr_tail_take gamma_ok_def)
  have "gamma_apply ?e g buf = (head @ out @ tl, g2\<lparr>gamma_used := off2\<rparr>)"
    by (simp only: gamma_apply_def Let_def h(4) [unfolded Let_def] prod.case b(1) t)
  moreover have used: "ctr_used_gamma_len (gamma_abs self g) = gamma_used g" by (simp add: gamma_abs_def)
  have "ctr_apply_in_place v (gamma_abs self g) buf = (head @ out @ tl, (gamma_abs self g2)\<lparr>ctr_used_gamma_len := off2\<rparr>)"
    by (simp only: ctr_apply_in_place_def used Let_def h(5) [unfolded Let_def] prod.case b(2) ct)
  moreover have "(gamma_abs self g2)\<lparr>ctr_used_gamma_len := off2\<rparr> = gamma_abs self (g2\<lparr>gamma_used := off2\<rparr>)"
    by (simp add: gamma_abs_def)
  moreover have "gamma_ok v self (g2\<lparr>gamma_used := off2\<rparr>)" using b(3) off2 offbl by (simp add: gamma_ok_def)
  ultimately show ?thesis by auto
qed

section \<open>Sealing and opening over the counter mode\<close>

text \<open>The counter state of a nonce, and the MAC a message is sealed with.\<close>

definition ccm_ctr :: "kalyna_variant \<Rightarrow> kalyna_ccm \<Rightarrow> bytes \<Rightarrow> kalyna_ctr" where
  "ccm_ctr v self nonce =
     (let gamma = encrypt_block v (ccm_key self) nonce
      in \<lparr>ctr_key = ccm_key self, ctr_gamma = gamma, ctr_feed = gamma, ctr_used_gamma_len = block_bytes v\<rparr>)"

definition ccm_mac :: "kalyna_variant \<Rightarrow> kalyna_ccm \<Rightarrow> bytes \<Rightarrow> bytes \<Rightarrow> bytes \<Rightarrow> bytes" where
  "ccm_mac v self nonce aad pt =
     take (v_ccm_q v) (ccm_compute_tag (encrypt_block_padded v self) (block_bytes v) (v_ccm_nb v) (v_ccm_q v) nonce aad pt)"

definition ccm_admissible :: "bytes \<Rightarrow> bytes \<Rightarrow> bool" where
  "ccm_admissible aad buf \<longleftrightarrow> buf \<noteq> [] \<and> length buf \<le> MAX_PLAINTEXT_LEN \<and> length aad \<le> MAX_AAD_LEN"

lemma v_ccm_q_le [simp]: "v_ccm_q v \<le> 64"
  by (cases v) simp_all

lemma length_ccm_chain:
  assumes "valid_expanded_key v (ccm_key self)" "length b = 64"
  shows "length (ccm_chain (encrypt_block_padded v self) n buf b) = 64"
proof -
  have "length (fold (\<lambda>chunk b. encrypt_block_padded v self (xor_into b chunk)) bs b) = 64" for bs
    using assms(2) by (induction bs arbitrary: b) (simp_all add: encrypt_block_padded_take [OF assms(1)])
  then show ?thesis by (simp add: ccm_chain_def)
qed

lemma length_ccm_mac:
  "valid_expanded_key v (ccm_key self) \<Longrightarrow> length (ccm_mac v self nonce aad pt) = v_ccm_q v"
  by (simp add: ccm_mac_def ccm_compute_tag_def Let_def case_prod_beta length_ccm_chain MAX_BLOCK_def)

lemma ccm_ctr_inv: "valid_expanded_key v (ccm_key self) \<Longrightarrow> length nonce = block_bytes v \<Longrightarrow> ctr_inv v (ccm_ctr v self nonce)"
  by (simp add: ccm_ctr_def ctr_inv_def Let_def)

lemma gamma_new_ok:
  fixes self :: kalyna_ccm
  assumes "valid_expanded_key v (ccm_key self)" "length nonce = block_bytes v"
  defines "g \<equiv> gamma_new (block_bytes v) (write_at (replicate MAX_BLOCK 0) 0 (take (block_bytes v) nonce)) (encrypt_block_padded v self)"
  shows "gamma_ok v self g" "gamma_abs self g = ccm_ctr v self nonce"
proof -
  let ?nb = "write_at (replicate MAX_BLOCK 0) 0 (take (block_bytes v) nonce)"
  have nb: "length ?nb = 64" "take (block_bytes v) ?nb = nonce" using assms(2) by (simp_all add: MAX_BLOCK_def write_at_def)
  show "gamma_ok v self g" "gamma_abs self g = ccm_ctr v self nonce"
    using assms(1) nb by (simp_all add: g_def gamma_new_def gamma_ok_def gamma_abs_def ccm_ctr_def encrypt_block_padded_take Let_def)
qed

text \<open>Two applications of \<open>Gamma\<close> are one application of the counter mode.\<close>

lemma gamma_twice:
  fixes self :: kalyna_ccm
  assumes "valid_expanded_key v (ccm_key self)" "length nonce = block_bytes v"
  defines "g \<equiv> gamma_new (block_bytes v) (write_at (replicate MAX_BLOCK 0) 0 (take (block_bytes v) nonce)) (encrypt_block_padded v self)"
  shows "\<exists>x g1 y g2. gamma_apply (encrypt_block_padded v self) g a = (x, g1) \<and>
    gamma_apply (encrypt_block_padded v self) g1 b = (y, g2) \<and> length x = length a \<and> length y = length b \<and>
    fst (ctr_apply_in_place v (ccm_ctr v self nonce) (a @ b)) = x @ y"
proof -
  note ok = gamma_new_ok [OF assms(1,2), folded g_def]
  obtain x g1 where x: "gamma_apply (encrypt_block_padded v self) g a = (x, g1)"
    "ctr_apply_in_place v (ccm_ctr v self nonce) a = (x, gamma_abs self g1)" "gamma_ok v self g1"
    using gamma_apply_abs [OF ok(1), of a] ok(2) by auto
  obtain y g2 where y: "gamma_apply (encrypt_block_padded v self) g1 b = (y, g2)"
    "ctr_apply_in_place v (gamma_abs self g1) b = (y, gamma_abs self g2)"
    using gamma_apply_abs [OF x(3), of b] by blast
  note inv = ccm_ctr_inv [OF assms(1,2)]
  have "length x = length a" using ctr.app_length [OF inv, of a] x(2) by simp
  moreover have "length y = length b"
    using ctr.app_length [OF ctr.app_inv [OF inv, of a], of b] x(2) y(2) by simp
  moreover have "fst (ctr_apply_in_place v (ccm_ctr v self nonce) (a @ b)) = x @ y"
    using ctr.app_append [OF inv, of a b] x(2) y(2) by simp
  ultimately show ?thesis using x(1) y(1) by blast
qed

lemma tag_buffer: "length t = q \<Longrightarrow> q \<le> 64 \<Longrightarrow> take q (write_at (replicate MAX_BLOCK 0) 0 (take q t)) = t"
  by (simp add: write_at_def MAX_BLOCK_def)

lemma ccm_seal_is_ctr:
  assumes "valid_expanded_key v (ccm_key self)" "length nonce = block_bytes v" "ccm_admissible aad pt"
  shows "ccm_seal_in_place v self nonce aad pt =
    (let c = fst (ctr_apply_in_place v (ccm_ctr v self nonce) (pt @ ccm_mac v self nonce aad pt))
     in (Inr (drop (length pt) c), take (length pt) c))"
proof -
  let ?e = "encrypt_block_padded v self" and ?m = "ccm_mac v self nonce aad pt"
  let ?g = "gamma_new (block_bytes v) (write_at (replicate MAX_BLOCK 0) 0 (take (block_bytes v) nonce)) ?e"
  obtain x g1 y g2 where xy: "gamma_apply ?e ?g pt = (x, g1)" "gamma_apply ?e g1 ?m = (y, g2)" "length x = length pt"
    "length y = length ?m" "fst (ctr_apply_in_place v (ccm_ctr v self nonce) (pt @ ?m)) = x @ y"
    using gamma_twice [OF assms(1,2), of pt ?m] by blast
  have m: "length ?m = v_ccm_q v" by (rule length_ccm_mac [OF assms(1)])
  have "take (v_ccm_q v) (write_at (replicate MAX_BLOCK 0) 0 ?m) = ?m" using tag_buffer [OF m v_ccm_q_le] m by simp
  then show ?thesis
    using assms(3) xy m by (simp add: ccm_seal_in_place_def seal_core_def ccm_admissible_def ccm_mac_def [symmetric] Let_def)
qed

lemma ccm_open_is_ctr:
  assumes "valid_expanded_key v (ccm_key self)" "length nonce = block_bytes v" "ccm_admissible aad ct" "length tag = v_ccm_q v"
  shows "ccm_open_in_place v self nonce aad ct tag =
    (let p = fst (ctr_apply_in_place v (ccm_ctr v self nonce) (ct @ tag)); pt = take (length ct) p
     in if drop (length ct) p = ccm_mac v self nonce aad pt then (Inr (), pt) else (Inl TagMismatch, replicate (length ct) 0))"
proof -
  let ?e = "encrypt_block_padded v self"
  let ?g = "gamma_new (block_bytes v) (write_at (replicate MAX_BLOCK 0) 0 (take (block_bytes v) nonce)) ?e"
  obtain x g1 y g2 where xy: "gamma_apply ?e ?g ct = (x, g1)" "gamma_apply ?e g1 tag = (y, g2)" "length x = length ct"
    "length y = length tag" "fst (ctr_apply_in_place v (ccm_ctr v self nonce) (ct @ tag)) = x @ y"
    using gamma_twice [OF assms(1,2), of ct tag] by blast
  have "take (v_ccm_q v) (write_at (replicate MAX_BLOCK 0) 0 (take (v_ccm_q v) tag)) = tag" using tag_buffer [OF assms(4) v_ccm_q_le] .
  then show ?thesis
    using assms(3,4) xy by (simp add: ccm_open_in_place_def open_core_def ccm_admissible_def ccm_mac_def [symmetric] Let_def)
qed

section \<open>The input of the MAC\<close>

definition ccm_flags :: "nat \<Rightarrow> nat \<Rightarrow> bytes \<Rightarrow> u8" where
  "ccm_flags nb q aad = ((if aad = [] then 0 else 0x80) OR push_bit 4 (tag_length_code q)) OR of_nat (nb - 1)"

definition ccm_zeros :: "nat \<Rightarrow> nat \<Rightarrow> bytes \<Rightarrow> nat" where
  "ccm_zeros bl nb aad = (2 * bl - length aad mod bl - nb) mod bl"

definition ccm_length_field :: "nat \<Rightarrow> bytes \<Rightarrow> bytes" where
  "ccm_length_field nb m = take nb (to_le_bytes 8 (of_nat (length m) :: u64))"

definition ccm_shape :: "nat \<Rightarrow> nat \<Rightarrow> bool" where
  "ccm_shape bl nb \<longleftrightarrow> bl \<in> {16, 32, 64} \<and> nb \<in> {4, 6, 8}"

lemma ccm_shape_variant [simp]: "ccm_shape (block_bytes v) (v_ccm_nb v)"
  by (cases v) (simp_all add: ccm_shape_def)

lemma ccm_shape_bounds: "ccm_shape bl nb \<Longrightarrow> nb < bl \<and> nb \<le> 8 \<and> 0 < nb \<and> bl \<le> 64 \<and> 0 < bl"
  by (auto simp: ccm_shape_def)

lemma length_ccm_length_field [simp]: "ccm_shape bl nb \<Longrightarrow> length (ccm_length_field nb m) = nb"
  using ccm_shape_bounds [of bl nb] by (simp add: ccm_length_field_def)

lemma update_middle: "length a = n \<Longrightarrow> (a @ [x] @ c)[n := y] = a @ [y] @ c"
  by auto

lemma take_exact_append: "length a = n \<Longrightarrow> take n (a @ b) = a"
  by simp

lemma ccm_g1_layout:
  assumes "ccm_shape bl nb" "length nonce = bl"
  shows "take bl (ccm_g1 bl nb q nonce aad pt) = take (bl - nb - 1) nonce @ ccm_length_field nb pt @ [ccm_flags nb q aad]"
proof -
  note b = ccm_shape_bounds [OF assms(1)]
  let ?p = "bl - nb - 1"
  have "(64 :: nat) = ?p + (nb + (1 + (64 - bl)))" using b by simp
  then have z: "replicate 64 (0 :: u8) = replicate ?p 0 @ replicate nb 0 @ [0] @ replicate (64 - bl) 0"
    by (metis replicate_add replicate_Suc replicate_0 One_nat_def)
  have pre: "length (take ?p nonce) = ?p" using assms(2) b by simp
  have w1: "write_at (replicate 64 0) 0 (take ?p nonce) = take ?p nonce @ replicate nb 0 @ [0 :: u8] @ replicate (64 - bl) 0"
    unfolding z using pre by (simp add: write_at_def)
  have w2: "write_at (write_at (replicate 64 0) 0 (take ?p nonce)) ?p (ccm_length_field nb pt) =
      (take ?p nonce @ ccm_length_field nb pt) @ [0 :: u8] @ replicate (64 - bl) 0"
    unfolding w1 using pre assms(1) by (subst write_at_middle) simp_all
  have l: "length (take ?p nonce @ ccm_length_field nb pt) = bl - 1" using pre assms(1) b by simp
  have "ccm_g1 bl nb q nonce aad pt =
      (write_at (write_at (replicate 64 0) 0 (take ?p nonce)) ?p (ccm_length_field nb pt))[bl - 1 := ccm_flags nb q aad]"
    by (simp add: ccm_g1_def ccm_flags_def ccm_length_field_def Let_def MAX_BLOCK_def)
  then have "ccm_g1 bl nb q nonce aad pt = (take ?p nonce @ ccm_length_field nb pt) @ [ccm_flags nb q aad] @ replicate (64 - bl) 0"
    by (simp only: w2 update_middle [OF l])
  moreover have "length ((take ?p nonce @ ccm_length_field nb pt) @ [ccm_flags nb q aad]) = bl" using l b by simp
  ultimately show ?thesis by (metis append_assoc take_exact_append)
qed

definition ccm_header :: "nat \<Rightarrow> nat \<Rightarrow> bytes \<Rightarrow> bytes" where
  "ccm_header bl nb aad =
     (if aad = [] then [] else ccm_length_field nb aad @ replicate (ccm_zeros bl nb aad) 0 @ aad)"

lemma ccm_header_aligned: "ccm_shape bl nb \<Longrightarrow> length (ccm_header bl nb aad) mod bl = 0"
proof -
  assume sh: "ccm_shape bl nb"
  let ?r = "length aad mod bl"
  have b: "nb < bl" "0 < bl" "?r < bl" using ccm_shape_bounds [OF sh] by auto
  have "(nb + (2 * bl - ?r - nb) mod bl + length aad) mod bl = (nb + (2 * bl - ?r - nb) + ?r) mod bl"
    by (metis mod_add_left_eq mod_add_right_eq)
  also have "nb + (2 * bl - ?r - nb) + ?r = 2 * bl" using b by linarith
  finally have "(nb + ccm_zeros bl nb aad + length aad) mod bl = 0" by (simp add: ccm_zeros_def)
  then show ?thesis using sh by (simp add: ccm_header_def add.assoc)
qed

lemma ccm_h_buf_layout:
  assumes "ccm_shape bl nb" "length g1 = bl" "length aad \<le> 255"
  shows "fst (ccm_h_buf bl nb (g1 @ rest) aad) = (g1 @ ccm_header bl nb aad) @ replicate (H_BUF_LEN - bl - length (ccm_header bl nb aad)) 0"
    and "snd (ccm_h_buf bl nb (g1 @ rest) aad) = bl + length (ccm_header bl nb aad)"
    and "bl + length (ccm_header bl nb aad) \<le> H_BUF_LEN"
proof -
  note b = ccm_shape_bounds [OF assms(1)]
  let ?z = "ccm_zeros bl nb aad" and ?f = "ccm_length_field nb aad" and ?n = "H_BUF_LEN - bl - length (ccm_header bl nb aad)"
  have z: "?z < bl" using b by (simp add: ccm_zeros_def)
  have "length (ccm_header bl nb aad) \<le> nb + ?z + length aad" using assms(1) by (simp add: ccm_header_def)
  then show le: "bl + length (ccm_header bl nb aad) \<le> H_BUF_LEN"
    using b z assms(3) by (simp add: H_BUF_LEN_def MAX_BLOCK_def MAX_CCM_NB_def MAX_AAD_LEN_def)
  have "fst (ccm_h_buf bl nb (g1 @ rest) aad) = (g1 @ ccm_header bl nb aad) @ replicate ?n 0 \<and>
      snd (ccm_h_buf bl nb (g1 @ rest) aad) = bl + length (ccm_header bl nb aad)"
  proof (cases "aad = []")
    case True
    then show ?thesis using assms(2) le by (simp add: ccm_h_buf_def ccm_header_def write_at_def Let_def)
  next
    case False
    then have "H_BUF_LEN = bl + (nb + (?z + (length aad + ?n)))" using le assms(1) by (simp add: ccm_header_def)
    then have buf: "replicate H_BUF_LEN (0 :: u8) = replicate bl 0 @ replicate nb 0 @ replicate ?z 0 @ replicate (length aad) 0 @ replicate ?n 0"
      by (metis replicate_add)
    have w1: "write_at (replicate H_BUF_LEN 0) 0 g1 = g1 @ replicate nb (0 :: u8) @ replicate ?z 0 @ replicate (length aad) 0 @ replicate ?n 0"
      unfolding buf using assms(2) by (simp add: write_at_def)
    have w2: "write_at (write_at (replicate H_BUF_LEN 0) 0 g1) bl ?f = (g1 @ ?f @ replicate ?z 0) @ replicate (length aad) 0 @ replicate ?n 0"
      unfolding w1 using assms(1,2) by (subst write_at_middle) simp_all
    have w3: "write_at (write_at (write_at (replicate H_BUF_LEN 0) 0 g1) bl ?f) (bl + (nb + ?z)) aad =
        (g1 @ ?f @ replicate ?z 0) @ aad @ replicate ?n 0"
      unfolding w2 using assms(1,2) by (subst write_at_middle) simp_all
    have "ccm_h_buf bl nb (g1 @ rest) aad =
        (write_at (write_at (write_at (replicate H_BUF_LEN 0) 0 g1) bl ?f) (bl + (nb + ?z)) aad, bl + (nb + ?z) + length aad)"
      using False assms(2) by (simp add: ccm_h_buf_def ccm_length_field_def ccm_zeros_def Let_def)
    then show ?thesis unfolding w3 using False assms(1) by (simp add: ccm_header_def)
  qed
  then show "fst (ccm_h_buf bl nb (g1 @ rest) aad) = (g1 @ ccm_header bl nb aad) @ replicate ?n 0"
    "snd (ccm_h_buf bl nb (g1 @ rest) aad) = bl + length (ccm_header bl nb aad)" by simp_all
qed

definition ccm_pad :: "nat \<Rightarrow> bytes \<Rightarrow> bytes" where
  "ccm_pad bl m = (if length m mod bl = 0 then m else m @ [0x80] @ replicate (bl - length m mod bl - 1) 0)"

lemma length_ccm_pad:
  "0 < bl \<Longrightarrow> length (ccm_pad bl m) = (if length m mod bl = 0 then length m else length m + (bl - length m mod bl))"
  using mod_less_divisor [of bl "length m"] by (simp add: ccm_pad_def del: mod_less_divisor) (intro impI, linarith)

lemma ccm_pad_aligned: "0 < bl \<Longrightarrow> length (ccm_pad bl m) mod bl = 0"
proof -
  assume bl: "0 < bl"
  have "(length m + (bl - length m mod bl)) mod bl = (length m mod bl + (bl - length m mod bl)) mod bl" by (simp add: mod_add_left_eq)
  also have "\<dots> = 0" using bl by (simp add: less_imp_le)
  finally show ?thesis using bl by (simp add: length_ccm_pad)
qed

lemma ccm_p_buf_layout:
  assumes "ccm_shape bl nb" "length m \<le> 255"
  shows "take (snd (ccm_p_buf bl m)) (fst (ccm_p_buf bl m)) = ccm_pad bl m"
    and "snd (ccm_p_buf bl m) = length (ccm_pad bl m)" "length (ccm_pad bl m) \<le> P_BUF_LEN"
proof -
  note b = ccm_shape_bounds [OF assms(1)]
  let ?z = "bl - length m mod bl - 1" and ?n = "P_BUF_LEN - length (ccm_pad bl m)"
  have r: "length m mod bl < bl" using b by simp
  show le: "length (ccm_pad bl m) \<le> P_BUF_LEN"
    using b assms(2) by (simp add: length_ccm_pad P_BUF_LEN_def MAX_PLAINTEXT_LEN_def MAX_BLOCK_def) (intro impI, linarith)
  have "fst (ccm_p_buf bl m) = ccm_pad bl m @ replicate ?n 0 \<and> snd (ccm_p_buf bl m) = length (ccm_pad bl m)"
  proof (cases "length m mod bl = 0")
    case True
    then show ?thesis using le by (simp add: ccm_p_buf_def ccm_pad_def write_at_def Let_def)
  next
    case False
    then have "P_BUF_LEN = length m + (1 + (?z + ?n))" using le r by (simp add: ccm_pad_def)
    then have buf: "replicate P_BUF_LEN (0 :: u8) = replicate (length m) 0 @ [0] @ replicate ?z 0 @ replicate ?n 0"
      by (metis replicate_add replicate_Suc replicate_0 One_nat_def)
    have "(write_at (replicate P_BUF_LEN 0) 0 m)[length m := 0x80] = (m @ [0x80] @ replicate ?z 0) @ replicate ?n 0"
      unfolding buf by (simp add: write_at_def)
    then show ?thesis using False r by (simp add: ccm_p_buf_def ccm_pad_def Let_def)
  qed
  then show "take (snd (ccm_p_buf bl m)) (fst (ccm_p_buf bl m)) = ccm_pad bl m"
    "snd (ccm_p_buf bl m) = length (ccm_pad bl m)" by simp_all
qed

text \<open>Everything the MAC chain reads, in order.\<close>

definition ccm_input :: "kalyna_variant \<Rightarrow> bytes \<Rightarrow> bytes \<Rightarrow> bytes \<Rightarrow> bytes" where
  "ccm_input v nonce aad pt =
     take (block_bytes v - v_ccm_nb v - 1) nonce @ ccm_length_field (v_ccm_nb v) pt @
     [ccm_flags (v_ccm_nb v) (v_ccm_q v) aad] @ ccm_header (block_bytes v) (v_ccm_nb v) aad @ ccm_pad (block_bytes v) pt"

lemma ccm_compute_tag_input:
  assumes "length nonce = block_bytes v" "ccm_admissible aad pt"
  shows "ccm_compute_tag enc (block_bytes v) (v_ccm_nb v) (v_ccm_q v) nonce aad pt =
      ccm_chain enc (block_bytes v) (ccm_input v nonce aad pt) (replicate 64 0)"
    and "length (ccm_input v nonce aad pt) mod block_bytes v = 0"
proof -
  let ?bl = "block_bytes v" and ?nb = "v_ccm_nb v" and ?q = "v_ccm_q v"
  let ?g = "take (?bl - ?nb - 1) nonce @ ccm_length_field ?nb pt @ [ccm_flags ?nb ?q aad]"
  let ?h = "ccm_header ?bl ?nb aad"
  note sh = ccm_shape_variant [of v] and b = ccm_shape_bounds [OF ccm_shape_variant [of v]]
  have g1: "take ?bl (ccm_g1 ?bl ?nb ?q nonce aad pt) = ?g" by (rule ccm_g1_layout [OF sh assms(1)])
  then obtain R where g: "ccm_g1 ?bl ?nb ?q nonce aad pt = ?g @ R" by (metis append_take_drop_id)
  have lg: "length ?g = ?bl" using assms(1) b length_ccm_length_field [OF sh] by simp
  have le: "length aad \<le> 255" "length pt \<le> 255" using assms(2) by (simp_all add: ccm_admissible_def MAX_PLAINTEXT_LEN_def MAX_AAD_LEN_def)
  note hb = ccm_h_buf_layout(1,2) [OF sh lg le(1), of R]
  have h: "take (snd (ccm_h_buf ?bl ?nb (ccm_g1 ?bl ?nb ?q nonce aad pt) aad)) (fst (ccm_h_buf ?bl ?nb (ccm_g1 ?bl ?nb ?q nonce aad pt) aad)) = ?g @ ?h"
    unfolding g hb using lg by (metis length_append take_exact_append)
  have al: "length (?g @ ?h) mod ?bl = 0" using lg ccm_header_aligned [OF sh, of aad] by (simp only: length_append mod_add_self1)
  have "chunks_exact ?bl ((?g @ ?h) @ ccm_pad ?bl pt) = chunks_exact ?bl (?g @ ?h) @ chunks_exact ?bl (ccm_pad ?bl pt)"
    using kalyna.bl_pos al by (rule chunks_exact_aligned_append)
  moreover have "ccm_input v nonce aad pt = (?g @ ?h) @ ccm_pad ?bl pt" by (simp add: ccm_input_def)
  ultimately show "ccm_compute_tag enc ?bl ?nb ?q nonce aad pt = ccm_chain enc ?bl (ccm_input v nonce aad pt) (replicate 64 0)"
    using h ccm_p_buf_layout(1) [OF sh le(2)]
    by (simp only: ccm_compute_tag_def Let_def case_prod_beta ccm_chain_def fold_append comp_apply MAX_BLOCK_def)
  have "length (ccm_pad ?bl pt) mod ?bl = 0" using kalyna.bl_pos by (rule ccm_pad_aligned)
  then show "length (ccm_input v nonce aad pt) mod ?bl = 0"
    using al \<open>ccm_input v nonce aad pt = (?g @ ?h) @ ccm_pad ?bl pt\<close> by (metis length_append mod_add_eq add_0 mod_0)
qed

lemma ccm_length_field_inject:
  assumes "ccm_shape bl nb" "length a \<le> 255" "length b \<le> 255" "ccm_length_field nb a = ccm_length_field nb b"
  shows "length a = length b"
proof -
  have nb: "0 < nb" "nb \<le> 8" using ccm_shape_bounds [OF assms(1)] by auto
  have "ccm_length_field nb m ! 0 = of_nat (length m)" if "length m \<le> 255" for m
    using nb that by (simp add: ccm_length_field_def nth_to_le_bytes unsigned_of_nat take_bit_nat_eq_self)
  then have "(of_nat (length a) :: u8) = of_nat (length b)" using assms(2-4) by metis
  moreover have "unat (of_nat (length a) :: u8) = length a" "unat (of_nat (length b) :: u8) = length b"
    using assms(2,3) by (simp_all add: unat_of_nat)
  ultimately show ?thesis by metis
qed

lemma ccm_pad_inject: "length a = length b \<Longrightarrow> ccm_pad bl a = ccm_pad bl b \<Longrightarrow> a = b"
  by (auto simp: ccm_pad_def split: if_splits)

lemma ccm_flags_aad: "ccm_flags (v_ccm_nb v) (v_ccm_q v) aad = ccm_flags (v_ccm_nb v) (v_ccm_q v) aad' \<Longrightarrow> aad = [] \<longleftrightarrow> aad' = []"
proof -
  have "bit (ccm_flags (v_ccm_nb v) (v_ccm_q v) a) 7 \<longleftrightarrow> a \<noteq> []" for a
    by (cases v; cases "a = []") (simp_all add: ccm_flags_def tag_length_code_def bit_simps)
  then show "ccm_flags (v_ccm_nb v) (v_ccm_q v) aad = ccm_flags (v_ccm_nb v) (v_ccm_q v) aad' \<Longrightarrow> aad = [] \<longleftrightarrow> aad' = []"
    by metis
qed

lemma ccm_header_inject:
  assumes "ccm_shape bl nb" "length aad \<le> 255" "length aad' \<le> 255" "aad = [] \<longleftrightarrow> aad' = []"
    and "ccm_header bl nb aad @ x = ccm_header bl nb aad' @ y"
  shows "aad = aad' \<and> x = y"
proof (cases "aad = []")
  case True
  then show ?thesis using assms(4,5) by (simp add: ccm_header_def)
next
  case False
  let ?f = "ccm_length_field nb" and ?z = "\<lambda>a. replicate (ccm_zeros bl nb a) (0 :: u8)"
  have eq: "?f aad @ (?z aad @ aad @ x) = ?f aad' @ (?z aad' @ aad' @ y)"
    using False assms(4,5) by (simp add: ccm_header_def)
  then have f: "?f aad = ?f aad'" "?z aad @ aad @ x = ?z aad' @ aad' @ y"
    using length_ccm_length_field [OF assms(1)] by (simp_all only: append_eq_append_conv [OF disjI1])
  have "length aad = length aad'" using assms(1-3) f(1) by (rule ccm_length_field_inject)
  then show ?thesis using f(2) by (simp add: ccm_zeros_def append_eq_append_conv)
qed

section \<open>Properties\<close>

text \<open>A sealed message is the Kalyna-CTR encryption, under the same key and nonce, of the plaintext
  followed by its CBC-MAC: the keystream of the tag starts where that of the plaintext stopped.\<close>

theorem ccm_seal_is_ctr_of_message_and_mac:
  assumes "length key = key_bytes v" "length nonce = block_bytes v"
    and "pt \<noteq> []" "length pt \<le> MAX_PLAINTEXT_LEN" "length aad \<le> MAX_AAD_LEN"
  shows "\<exists>self s ct tag. ccm_new v key = Some self \<and> ctr_new v key nonce = Some s \<and>
    ccm_seal_in_place v self nonce aad pt = (Inr tag, ct) \<and> length ct = length pt \<and> length tag = v_ccm_q v \<and>
    fst (ctr_apply_in_place v s (pt @ take (v_ccm_q v) (ccm_compute_tag (encrypt_block_padded v self)
      (block_bytes v) (v_ccm_nb v) (v_ccm_q v) nonce aad pt))) = ct @ tag"
proof -
  obtain ek where ek: "expanded_key_new v key = Some ek" "valid_expanded_key v ek"
    using expanded_key_new_total [OF assms(1)] by auto
  let ?self = "\<lparr>ccm_key = ek\<rparr>"
  have ok: "valid_expanded_key v (ccm_key ?self)" "ccm_admissible aad pt" using ek(2) assms(3-5) by (simp_all add: ccm_admissible_def)
  let ?c = "fst (ctr_apply_in_place v (ccm_ctr v ?self nonce) (pt @ ccm_mac v ?self nonce aad pt))"
  have len: "length ?c = length pt + v_ccm_q v"
    using ctr.app_length [OF ccm_ctr_inv [OF ok(1) assms(2)]] length_ccm_mac [OF ok(1)] by simp
  have "ccm_new v key = Some ?self" "ctr_new v key nonce = Some (ccm_ctr v ?self nonce)"
    using ek(1) by (simp_all add: ccm_new_def ctr_new_def ccm_ctr_def Let_def)
  moreover have "ccm_seal_in_place v ?self nonce aad pt = (Inr (drop (length pt) ?c), take (length pt) ?c)"
    using ccm_seal_is_ctr [OF ok(1) assms(2) ok(2)] by (simp add: Let_def)
  moreover have "?c = take (length pt) ?c @ drop (length pt) ?c" by simp
  ultimately show ?thesis unfolding ccm_mac_def [symmetric] using len
    by (intro exI [of _ ?self] exI [of _ "ccm_ctr v ?self nonce"] exI [of _ "take (length pt) ?c"] exI [of _ "drop (length pt) ?c"]) simp
qed

theorem ccm_seal_is_ctr_of_message_and_mac_witness:
  "\<exists>self s ct tag. ccm_new Kalyna128_128 (replicate 16 1) = Some self \<and> ctr_new Kalyna128_128 (replicate 16 1) (replicate 16 2) = Some s \<and>
    ccm_seal_in_place Kalyna128_128 self (replicate 16 2) [3] [4, 5] = (Inr tag, ct) \<and> length tag = 16"
  using ccm_seal_is_ctr_of_message_and_mac [of "replicate 16 1" Kalyna128_128 "replicate 16 2" "[4, 5]" "[3]"]
  by (auto simp: MAX_PLAINTEXT_LEN_def MAX_AAD_LEN_def)

lemma ccm_seal_iff:
  assumes "valid_expanded_key v (ccm_key self)" "length nonce = block_bytes v"
  shows "ccm_seal_in_place v self nonce aad pt = (Inr tag, ct) \<longleftrightarrow>
    ccm_admissible aad pt \<and> length ct = length pt \<and>
    fst (ctr_apply_in_place v (ccm_ctr v self nonce) (pt @ ccm_mac v self nonce aad pt)) = ct @ tag"
proof (cases "ccm_admissible aad pt")
  case True
  have "length (fst (ctr_apply_in_place v (ccm_ctr v self nonce) x)) = length x" for x
    using ctr.app_length [OF ccm_ctr_inv [OF assms]] by simp
  then show ?thesis using ccm_seal_is_ctr [OF assms True] True
    by (auto simp: Let_def append_eq_conv_conj)
next
  case False
  then show ?thesis by (auto simp: ccm_seal_in_place_def seal_core_def ccm_admissible_def Let_def split: if_splits)
qed

text \<open>C40. Opening accepts exactly what sealing produces: it returns a plaintext if and only if sealing
  that plaintext gives the ciphertext and the tag. On a mismatch the buffer is all zeros, on a
  length error it is untouched.\<close>

theorem ccm_open_exact:
  assumes "length key = key_bytes v" "ccm_new v key = Some self" "length nonce = block_bytes v" "length tag = v_ccm_q v"
  shows "(ccm_open_in_place v self nonce aad ct tag = (Inr (), pt) \<longleftrightarrow>
      ccm_seal_in_place v self nonce aad pt = (Inr tag, ct)) \<and>
    (\<exists>r buf. ccm_open_in_place v self nonce aad ct tag = (r, buf) \<and>
      (r = Inr () \<or> r = Inl TagMismatch \<and> buf = replicate (length ct) 0 \<or>
       r = Inl EmptyPlaintext \<and> ct = [] \<and> buf = ct \<or> r = Inl PlaintextTooLong \<and> buf = ct \<or> r = Inl AadTooLong \<and> buf = ct))"
proof -
  have k: "valid_expanded_key v (ccm_key self)"
    using assms(1,2) expanded_key_new_valid by (fastforce simp: ccm_new_def)
  note inv = ccm_ctr_inv [OF k assms(3)] and mac = length_ccm_mac [OF k, of nonce aad]
  let ?app = "\<lambda>x. fst (ctr_apply_in_place v (ccm_ctr v self nonce) x)"
  have app: "?app (?app x) = x" "length (?app x) = length x" for x
    using ctr.app_involutive [OF inv] ctr.app_length [OF inv] by simp_all
  note seal = ccm_seal_iff [OF k assms(3), of aad pt tag ct]
  show ?thesis
  proof (cases "ccm_admissible aad ct")
    case True
    let ?p = "?app (ct @ tag)"
    note op = ccm_open_is_ctr [OF k assms(3) True assms(4), unfolded Let_def]
    have "ccm_open_in_place v self nonce aad ct tag = (Inr (), pt) \<longleftrightarrow>
        length pt = length ct \<and> ?p = pt @ ccm_mac v self nonce aad pt"
      unfolding op using app(2) [of "ct @ tag"] mac [of pt] assms(4)
      by (auto simp: append_eq_conv_conj) (metis append_take_drop_id)
    also have "\<dots> \<longleftrightarrow> length pt = length ct \<and> ?app (pt @ ccm_mac v self nonce aad pt) = ct @ tag"
      using app(1) by metis
    also have "\<dots> \<longleftrightarrow> ccm_seal_in_place v self nonce aad pt = (Inr tag, ct)"
      unfolding seal using True by (auto simp: ccm_admissible_def)
    finally show ?thesis unfolding op by auto
  next
    case False
    then have "ccm_seal_in_place v self nonce aad pt \<noteq> (Inr tag, ct)" unfolding seal by (auto simp: ccm_admissible_def)
    then show ?thesis using False by (auto simp: ccm_open_in_place_def open_core_def ccm_admissible_def)
  qed
qed

theorem ccm_open_exact_witness:
  "\<exists>self ct tag. ccm_new Kalyna512_512 (replicate 64 1) = Some self \<and>
    ccm_seal_in_place Kalyna512_512 self (replicate 64 2) [] [9] = (Inr tag, ct) \<and>
    ccm_open_in_place Kalyna512_512 self (replicate 64 2) [] ct tag = (Inr (), [9])"
proof -
  obtain ek where ek: "expanded_key_new Kalyna512_512 (replicate 64 1) = Some ek" "valid_expanded_key Kalyna512_512 ek"
    using expanded_key_new_total [of "replicate 64 1" Kalyna512_512] by auto
  let ?self = "\<lparr>ccm_key = ek\<rparr>"
  have n: "ccm_new Kalyna512_512 (replicate 64 1) = Some ?self" using ek(1) by (simp add: ccm_new_def)
  have ok: "valid_expanded_key Kalyna512_512 (ccm_key ?self)" "length (replicate 64 (2 :: u8)) = block_bytes Kalyna512_512" using ek(2) by simp_all
  obtain tag ct where s: "ccm_seal_in_place Kalyna512_512 ?self (replicate 64 2) [] [9] = (Inr tag, ct)" "length tag = 64"
    using ccm_seal_is_ctr [OF ok, of "[]" "[9]"] length_ccm_mac [OF ok(1), of "replicate 64 2" "[]" "[9]"]
      ctr.app_length [OF ccm_ctr_inv [OF ok]]
    by (auto simp: ccm_admissible_def MAX_PLAINTEXT_LEN_def Let_def)
  show ?thesis using ccm_open_exact [of "replicate 64 1" Kalyna512_512 ?self "replicate 64 2" tag "[]" ct "[9]"] n s by auto
qed

text \<open>The MAC chain reads whole blocks of a string that determines the nonce prefix, the associated
  data and the plaintext; the fixed buffers of the code are large enough for every admissible input.\<close>

theorem ccm_mac_input_injective:
  assumes "length nonce = block_bytes v" "length nonce' = block_bytes v" "ccm_admissible aad pt" "ccm_admissible aad' pt'"
  shows "ccm_compute_tag enc (block_bytes v) (v_ccm_nb v) (v_ccm_q v) nonce aad pt =
      ccm_chain enc (block_bytes v) (ccm_input v nonce aad pt) (replicate 64 0) \<and>
    length (ccm_input v nonce aad pt) mod block_bytes v = 0 \<and>
    snd (ccm_h_buf (block_bytes v) (v_ccm_nb v) (ccm_g1 (block_bytes v) (v_ccm_nb v) (v_ccm_q v) nonce aad pt) aad) \<le> H_BUF_LEN \<and>
    snd (ccm_p_buf (block_bytes v) pt) \<le> P_BUF_LEN \<and>
    (ccm_input v nonce aad pt = ccm_input v nonce' aad' pt' \<longleftrightarrow>
      take (block_bytes v - v_ccm_nb v - 1) nonce = take (block_bytes v - v_ccm_nb v - 1) nonce' \<and> aad = aad' \<and> pt = pt')"
proof (intro conjI)
  let ?bl = "block_bytes v" and ?nb = "v_ccm_nb v" and ?q = "v_ccm_q v"
  note sh = ccm_shape_variant [of v] and b = ccm_shape_bounds [OF ccm_shape_variant [of v]]
  have le: "length aad \<le> 255" "length pt \<le> 255" "length aad' \<le> 255" "length pt' \<le> 255"
    using assms(3,4) by (simp_all add: ccm_admissible_def MAX_PLAINTEXT_LEN_def MAX_AAD_LEN_def)
  show "ccm_compute_tag enc ?bl ?nb ?q nonce aad pt = ccm_chain enc ?bl (ccm_input v nonce aad pt) (replicate 64 0)"
    "length (ccm_input v nonce aad pt) mod ?bl = 0"
    by (rule ccm_compute_tag_input [OF assms(1,3)])+
  have lg: "length (take (?bl - ?nb - 1) nonce @ ccm_length_field ?nb pt @ [ccm_flags ?nb ?q aad]) = ?bl"
    using assms(1) b length_ccm_length_field [OF sh] by simp
  obtain R where g: "ccm_g1 ?bl ?nb ?q nonce aad pt = (take (?bl - ?nb - 1) nonce @ ccm_length_field ?nb pt @ [ccm_flags ?nb ?q aad]) @ R"
    by (metis append_take_drop_id ccm_g1_layout [OF sh assms(1)])
  show "snd (ccm_h_buf ?bl ?nb (ccm_g1 ?bl ?nb ?q nonce aad pt) aad) \<le> H_BUF_LEN"
    unfolding g ccm_h_buf_layout(2) [OF sh lg le(1)] by (rule ccm_h_buf_layout(3) [OF sh lg le(1)])
  show "snd (ccm_p_buf ?bl pt) \<le> P_BUF_LEN" using ccm_p_buf_layout(2,3) [OF sh le(2)] by simp
  show "ccm_input v nonce aad pt = ccm_input v nonce' aad' pt' \<longleftrightarrow>
      take (?bl - ?nb - 1) nonce = take (?bl - ?nb - 1) nonce' \<and> aad = aad' \<and> pt = pt'" (is "?L \<longleftrightarrow> ?R")
  proof
    assume ?L
    then have 1: "take (?bl - ?nb - 1) nonce = take (?bl - ?nb - 1) nonce'" "ccm_length_field ?nb pt = ccm_length_field ?nb pt'"
      "ccm_flags ?nb ?q aad = ccm_flags ?nb ?q aad'" "ccm_header ?bl ?nb aad @ ccm_pad ?bl pt = ccm_header ?bl ?nb aad' @ ccm_pad ?bl pt'"
      using assms(1,2) length_ccm_length_field [OF sh] by (simp_all add: ccm_input_def append_eq_append_conv)
    have "aad = aad'" "ccm_pad ?bl pt = ccm_pad ?bl pt'"
      using ccm_header_inject [OF sh le(1,3) ccm_flags_aad [OF 1(3)] 1(4)] by simp_all
    moreover have "length pt = length pt'" using sh le(2,4) 1(2) by (rule ccm_length_field_inject)
    ultimately show ?R using 1(1) ccm_pad_inject by blast
  qed (simp add: ccm_input_def)
qed

theorem ccm_mac_input_injective_witness:
  "ccm_input Kalyna256_256 (replicate 32 1) [] [5] = ccm_input Kalyna256_256 (replicate 32 1) [] [5, 0x80] \<longleftrightarrow> False"
  using ccm_mac_input_injective [of "replicate 32 1" Kalyna256_256 "replicate 32 1" "[]" "[5]" "[]" "[5, 0x80]" "\<lambda>b. b"]
  by (simp add: ccm_admissible_def MAX_PLAINTEXT_LEN_def)

end
