(* ===== verification/Kupyna.thy ===== *)
theory Kupyna
  imports Kalyna
begin

text \<open>
  \<open>crates/dstu-core/src/hazmat/kupyna.rs\<close>: the Kupyna hash (DSTU 7564:2014). The round functions
  come in three forms, as in the code: the three-pass reference, the fused form over a run-time
  number of columns, and the const-generic twins the hot path uses. \<open>KupynaCore\<close> is the buffered
  compression state; its \<open>unreachable!\<close> arms are the value \<open>None\<close>. The \<open>wipe\<close> flags only clear
  locals and have no counterpart.
\<close>

section \<open>Round functions\<close>

definition MAX_COLUMNS :: nat where "MAX_COLUMNS = 16"

definition MAX_BLOCK_BYTES :: nat where "MAX_BLOCK_BYTES = MAX_COLUMNS * ROWS"

definition kupyna_sub_bytes :: "bytes list \<Rightarrow> bytes list" where
  "kupyna_sub_bytes state = map (\<lambda>column. map (\<lambda>row.
     SBOXES ! (row mod 4) ! unat (column ! row)) [0..<length column]) state"

definition kupyna_row_shift :: "nat \<Rightarrow> nat \<Rightarrow> nat" where
  "kupyna_row_shift last_row_shift row = (if row = ROWS - 1 then last_row_shift else row)"

definition shift_bytes_move :: "bytes list \<Rightarrow> nat \<Rightarrow> nat \<Rightarrow> nat \<Rightarrow> bytes list \<Rightarrow> bytes list" where
  "shift_bytes_move state last_row_shift row col shifted =
     (let columns = length state; shift = kupyna_row_shift last_row_shift row; dst = (col + shift) mod columns
      in shifted[dst := (shifted ! dst)[row := state ! col ! row]])"

definition shift_bytes :: "bytes list \<Rightarrow> nat \<Rightarrow> bytes list" where
  "shift_bytes state last_row_shift =
     take (length state)
       (fold (\<lambda>row. fold (\<lambda>col. shift_bytes_move state last_row_shift row col) [0..<length state]) [0..<ROWS]
         (replicate MAX_COLUMNS (replicate ROWS 0)))"

definition mix_columns :: "bytes list \<Rightarrow> bytes list" where
  "mix_columns state = apply_forward_matrix state"

definition naive_sub_shift_mix :: "bytes list \<Rightarrow> nat \<Rightarrow> bytes list" where
  "naive_sub_shift_mix state last_row_shift = mix_columns (shift_bytes (kupyna_sub_bytes state) last_row_shift)"

definition sub_shift_mix :: "bytes list \<Rightarrow> nat \<Rightarrow> bytes list" where
  "sub_shift_mix state last_row_shift =
     (let columns = length state; columns_mask = columns - 1
      in map (\<lambda>out_col. to_le_bytes 8 (foldl (\<lambda>acc row.
           let shift = kupyna_row_shift last_row_shift row;
               src_col = (out_col + columns - shift) AND columns_mask
           in acc XOR forward_sbox_mds row (state ! src_col ! row)) 0 [0..<ROWS])) [0..<columns])"

definition sub_shift_mix_n :: "nat \<Rightarrow> bytes list \<Rightarrow> nat \<Rightarrow> bytes list" where
  "sub_shift_mix_n COLUMNS state last_row_shift =
     (let columns_mask = COLUMNS - 1
      in map (\<lambda>out_col. to_le_bytes 8 (foldl (\<lambda>acc row.
           let shift = kupyna_row_shift last_row_shift row;
               src_col = (out_col + COLUMNS - shift) AND columns_mask
           in acc XOR forward_sbox_mds row (state ! src_col ! row)) 0 [0..<ROWS])) [0..<COLUMNS])"

definition add_round_constant_xor :: "bytes list \<Rightarrow> u8 \<Rightarrow> bytes list" where
  "add_round_constant_xor state round =
     map (\<lambda>col. (state ! col)[0 := state ! col ! 0 XOR ((of_nat col * 0x10) XOR round)]) [0..<length state]"

definition add_round_constant_xor_n :: "nat \<Rightarrow> bytes list \<Rightarrow> u8 \<Rightarrow> bytes list" where
  "add_round_constant_xor_n COLUMNS state round =
     map (\<lambda>col. (state ! col)[0 := state ! col ! 0 XOR ((of_nat col * 0x10) XOR round)]) [0..<COLUMNS]"

definition add_round_constant_add :: "bytes list \<Rightarrow> u8 \<Rightarrow> bytes list" where
  "add_round_constant_add state round =
     (let columns = length state
      in map (\<lambda>col.
           let top_byte = (of_nat (columns - 1 - col) * 0x10) XOR round;
               addend = from_le_bytes [0xF3, 0xF0, 0xF0, 0xF0, 0xF0, 0xF0, 0xF0, top_byte] :: u64
           in to_le_bytes 8 (from_le_bytes (state ! col) + addend)) [0..<columns])"

definition add_round_constant_add_n :: "nat \<Rightarrow> bytes list \<Rightarrow> u8 \<Rightarrow> bytes list" where
  "add_round_constant_add_n COLUMNS state round =
     map (\<lambda>col.
       let top_byte = (of_nat (COLUMNS - 1 - col) * 0x10) XOR round;
           addend = from_le_bytes [0xF3, 0xF0, 0xF0, 0xF0, 0xF0, 0xF0, 0xF0, top_byte] :: u64
       in to_le_bytes 8 (from_le_bytes (state ! col) + addend)) [0..<COLUMNS]"

definition t_transform :: "bytes list \<Rightarrow> nat \<Rightarrow> nat \<Rightarrow> bytes list" where
  "t_transform state rounds last_row_shift =
     fold (\<lambda>round st. sub_shift_mix (add_round_constant_xor st (of_nat round)) last_row_shift) [0..<rounds] state"

definition t_plus_transform :: "bytes list \<Rightarrow> nat \<Rightarrow> nat \<Rightarrow> bytes list" where
  "t_plus_transform state rounds last_row_shift =
     fold (\<lambda>round st. sub_shift_mix (add_round_constant_add st (of_nat round)) last_row_shift) [0..<rounds] state"

definition t_transform_n :: "nat \<Rightarrow> nat \<Rightarrow> bytes list \<Rightarrow> nat \<Rightarrow> bytes list" where
  "t_transform_n COLUMNS ROUNDS state last_row_shift =
     fold (\<lambda>round st. sub_shift_mix_n COLUMNS (add_round_constant_xor_n COLUMNS st (of_nat round)) last_row_shift)
       [0..<ROUNDS] state"

definition t_plus_transform_n :: "nat \<Rightarrow> nat \<Rightarrow> bytes list \<Rightarrow> nat \<Rightarrow> bytes list" where
  "t_plus_transform_n COLUMNS ROUNDS state last_row_shift =
     fold (\<lambda>round st. sub_shift_mix_n COLUMNS (add_round_constant_add_n COLUMNS st (of_nat round)) last_row_shift)
       [0..<ROUNDS] state"

text \<open>The double loops of \<open>compress\<close> over columns and rows are XORs of whole columns.\<close>

definition compress :: "bytes list \<Rightarrow> bytes list \<Rightarrow> nat \<Rightarrow> nat \<Rightarrow> bytes list" where
  "compress h block rounds last_row_shift =
     (let columns = length h;
          t_input = map (\<lambda>col. map (\<lambda>row. h ! col ! row XOR block ! col ! row) [0..<ROWS]) [0..<columns];
          q_input = map (\<lambda>col. map (\<lambda>row. block ! col ! row) [0..<ROWS]) [0..<columns];
          t_input = t_transform t_input rounds last_row_shift;
          q_input = t_plus_transform q_input rounds last_row_shift
      in map (\<lambda>col. map (\<lambda>row. h ! col ! row XOR (t_input ! col ! row XOR q_input ! col ! row)) [0..<ROWS]) [0..<columns])"

definition compress_n :: "nat \<Rightarrow> nat \<Rightarrow> bytes list \<Rightarrow> bytes list \<Rightarrow> nat \<Rightarrow> bytes list" where
  "compress_n COLUMNS ROUNDS h block last_row_shift =
     (let t_input = map (\<lambda>col. map (\<lambda>row. h ! col ! row XOR block ! col ! row) [0..<ROWS]) [0..<COLUMNS];
          q_input = map (\<lambda>col. map (\<lambda>row. block ! col ! row) [0..<ROWS]) [0..<COLUMNS];
          t_input = t_transform_n COLUMNS ROUNDS t_input last_row_shift;
          q_input = t_plus_transform_n COLUMNS ROUNDS q_input last_row_shift
      in map (\<lambda>col. map (\<lambda>row. h ! col ! row XOR (t_input ! col ! row XOR q_input ! col ! row)) [0..<ROWS]) [0..<COLUMNS])"

definition bytes_to_columns :: "bytes \<Rightarrow> nat \<Rightarrow> bytes list" where
  "bytes_to_columns bs columns =
     map (\<lambda>col. slice (col * ROWS) (col * ROWS + ROWS) bs) [0..<columns]
       @ replicate (MAX_COLUMNS - columns) (replicate ROWS 0)"

definition bytes_to_columns_n :: "nat \<Rightarrow> bytes \<Rightarrow> bytes list" where
  "bytes_to_columns_n COLUMNS bs = map (\<lambda>col. slice (col * ROWS) (col * ROWS + ROWS) bs) [0..<COLUMNS]"

section \<open>Padding and the compression state\<close>

definition kupyna_padding :: "bytes \<Rightarrow> 128 word \<Rightarrow> nat \<Rightarrow> bytes \<times> nat" where
  "kupyna_padding prefix msg_bits block_n =
     (let tail = replicate (2 * MAX_BLOCK_BYTES) 0;
          pos = length prefix;
          tail = write_at tail 0 prefix;
          tail = tail[pos := 0x80];
          pos = pos + 1;
          used = pos + 12;
          zero_bytes = (block_n - (used mod block_n)) mod block_n;
          pos = pos + zero_bytes;
          tail = write_at tail pos (take 12 (to_le_bytes 16 msg_bits));
          pos = pos + 12
      in (tail, pos))"

record kupyna_core =
  kc_h :: "bytes list"
  kc_buffer :: bytes
  kc_buffer_len :: nat
  kc_total_len :: u64
  kc_columns :: nat
  kc_rounds :: nat
  kc_last_row_shift :: nat

definition kupyna_core_new :: "nat \<Rightarrow> nat \<Rightarrow> nat \<Rightarrow> kupyna_core" where
  "kupyna_core_new columns rounds last_row_shift =
     (let block_n = columns * ROWS;
          h = replicate MAX_COLUMNS (replicate ROWS 0);
          h = h[0 := (h ! 0)[0 := of_nat block_n]]
      in \<lparr>kc_h = h, kc_buffer = replicate MAX_BLOCK_BYTES 0, kc_buffer_len = 0, kc_total_len = 0,
          kc_columns = columns, kc_rounds = rounds, kc_last_row_shift = last_row_shift\<rparr>)"

definition core_block_bytes :: "kupyna_core \<Rightarrow> nat" where
  "core_block_bytes self = kc_columns self * ROWS"

definition buffered :: "kupyna_core \<Rightarrow> bytes" where
  "buffered self = take (kc_buffer_len self) (kc_buffer self)"

text \<open>\<open>state_array_mut_kupyna\<close> views the first \<open>COLUMNS\<close> columns of \<open>h\<close> for writing.\<close>

definition compress_block :: "kupyna_core \<Rightarrow> bytes \<Rightarrow> kupyna_core option" where
  "compress_block self block =
     (if kc_columns self = 8 then
        Some (self\<lparr>kc_h := compress_n 8 10 (take 8 (kc_h self)) (bytes_to_columns_n 8 block) (kc_last_row_shift self)
                @ drop 8 (kc_h self)\<rparr>)
      else if kc_columns self = 16 then
        Some (self\<lparr>kc_h := compress_n 16 14 (take 16 (kc_h self)) (bytes_to_columns_n 16 block) (kc_last_row_shift self)
                @ drop 16 (kc_h self)\<rparr>)
      else None)"

fun compress_blocks :: "kupyna_core \<Rightarrow> bytes list \<Rightarrow> kupyna_core option" where
  "compress_blocks self [] = Some self"
| "compress_blocks self (block # blocks) =
     (case compress_block self block of None \<Rightarrow> None | Some self \<Rightarrow> compress_blocks self blocks)"

text \<open>The part of \<open>update\<close> after the buffer has been completed.\<close>

definition kupyna_update_blocks :: "kupyna_core \<Rightarrow> bytes \<Rightarrow> kupyna_core option" where
  "kupyna_update_blocks self data =
     (let block_n = core_block_bytes self in
      case compress_blocks self (chunks_exact block_n data) of
        None \<Rightarrow> None
      | Some self \<Rightarrow>
          (let remainder = chunks_remainder block_n data
           in Some (self\<lparr>kc_buffer := write_at (kc_buffer self) 0 remainder, kc_buffer_len := length remainder\<rparr>)))"

definition kupyna_core_update :: "kupyna_core \<Rightarrow> bytes \<Rightarrow> kupyna_core option" where
  "kupyna_core_update self data =
     (let self = self\<lparr>kc_total_len := kc_total_len self + of_nat (length data)\<rparr>;
          block_n = core_block_bytes self in
      if kc_buffer_len self > 0 then
        (let n = min (block_n - kc_buffer_len self) (length data);
             self = self\<lparr>kc_buffer := write_at (kc_buffer self) (kc_buffer_len self) (take n data),
                         kc_buffer_len := kc_buffer_len self + n\<rparr>;
             data = drop n data
         in if kc_buffer_len self < block_n then Some self
            else case compress_block self (take block_n (kc_buffer self)) of
              None \<Rightarrow> None
            | Some self \<Rightarrow> kupyna_update_blocks (self\<lparr>kc_buffer_len := 0\<rparr>) data)
      else kupyna_update_blocks self data)"

definition kupyna_xor_output :: "nat \<Rightarrow> nat \<Rightarrow> kupyna_core \<Rightarrow> bytes list" where
  "kupyna_xor_output COLUMNS ROUNDS self =
     (let t_final = t_transform_n COLUMNS ROUNDS (take COLUMNS (kc_h self)) (kc_last_row_shift self)
      in map (\<lambda>col. map (\<lambda>row. kc_h self ! col ! row XOR t_final ! col ! row) [0..<ROWS]) [0..<COLUMNS]
           @ drop COLUMNS (kc_h self))"

definition kupyna_output :: "kupyna_core \<Rightarrow> nat \<Rightarrow> bytes option" where
  "kupyna_output self output_bytes =
     (let block_n = core_block_bytes self in
      case (if kc_columns self = 8 then Some (kupyna_xor_output 8 10 self)
            else if kc_columns self = 16 then Some (kupyna_xor_output 16 14 self) else None) of
        None \<Rightarrow> None
      | Some h \<Rightarrow>
          (let flat = concat (take (kc_columns self) h) @ replicate (MAX_BLOCK_BYTES - kc_columns self * ROWS) 0
           in Some (write_at (replicate 64 0) 0 (slice (block_n - output_bytes) block_n flat))))"

definition kupyna_finalize :: "kupyna_core \<Rightarrow> nat \<Rightarrow> bytes option" where
  "kupyna_finalize self output_bytes =
     (let block_n = core_block_bytes self;
          msg_bits = ucast (kc_total_len self) * 8 :: 128 word;
          (tail, pos) = kupyna_padding (take (kc_buffer_len self) (kc_buffer self)) msg_bits block_n;
          tail_blocks = pos div block_n in
      case compress_blocks self (map (\<lambda>i. slice (i * block_n) ((i + 1) * block_n) tail) [0..<tail_blocks]) of
        None \<Rightarrow> None
      | Some self \<Rightarrow> kupyna_output self output_bytes)"

definition digest_generic :: "bytes \<Rightarrow> nat \<Rightarrow> nat \<Rightarrow> nat \<Rightarrow> nat \<Rightarrow> bytes option" where
  "digest_generic message columns rounds last_row_shift output_bytes =
     (case kupyna_core_update (kupyna_core_new columns rounds last_row_shift) message of
        None \<Rightarrow> None
      | Some core \<Rightarrow> kupyna_finalize core output_bytes)"

text \<open>The three hashes and their streaming twins.\<close>

datatype kupyna_variant = Kupyna256 | Kupyna384 | Kupyna512

fun kv_columns :: "kupyna_variant \<Rightarrow> nat" where
  "kv_columns Kupyna256 = 8" | "kv_columns Kupyna384 = 16" | "kv_columns Kupyna512 = 16"

fun kv_rounds :: "kupyna_variant \<Rightarrow> nat" where
  "kv_rounds Kupyna256 = 10" | "kv_rounds Kupyna384 = 14" | "kv_rounds Kupyna512 = 14"

fun kv_last_row_shift :: "kupyna_variant \<Rightarrow> nat" where
  "kv_last_row_shift Kupyna256 = 7" | "kv_last_row_shift Kupyna384 = 11" | "kv_last_row_shift Kupyna512 = 11"

fun kv_output :: "kupyna_variant \<Rightarrow> nat" where
  "kv_output Kupyna256 = 32" | "kv_output Kupyna384 = 48" | "kv_output Kupyna512 = 64"

definition kupyna_digest :: "kupyna_variant \<Rightarrow> bytes \<Rightarrow> bytes option" where
  "kupyna_digest v message =
     map_option (take (kv_output v))
       (digest_generic message (kv_columns v) (kv_rounds v) (kv_last_row_shift v) (kv_output v))"

definition hasher_new :: "kupyna_variant \<Rightarrow> kupyna_core" where
  "hasher_new v = kupyna_core_new (kv_columns v) (kv_rounds v) (kv_last_row_shift v)"

definition hasher_update :: "kupyna_variant \<Rightarrow> kupyna_core \<Rightarrow> bytes \<Rightarrow> kupyna_core option" where
  "hasher_update v self data = kupyna_core_update self data"

definition hasher_finalize :: "kupyna_variant \<Rightarrow> kupyna_core \<Rightarrow> bytes option" where
  "hasher_finalize v self = map_option (take (kv_output v)) (kupyna_finalize self (kv_output v))"

section \<open>The fused rounds and their twins\<close>

definition kupyna_shape :: "nat \<Rightarrow> nat \<Rightarrow> bool" where
  "kupyna_shape columns last_row_shift \<longleftrightarrow>
     columns = 8 \<and> last_row_shift = 7 \<or> columns = 16 \<and> last_row_shift = 11"

lemma kupyna_shape_variant [simp]: "kupyna_shape (kv_columns v) (kv_last_row_shift v)"
  by (cases v) (simp_all add: kupyna_shape_def)

lemma kupyna_shape_bounds:
  "kupyna_shape c s \<Longrightarrow> 0 < c" "kupyna_shape c s \<Longrightarrow> c \<le> 16"
  "kupyna_shape c s \<Longrightarrow> r < 8 \<Longrightarrow> kupyna_row_shift s r < c"
  by (auto simp: kupyna_shape_def kupyna_row_shift_def ROWS_def)

lemma kupyna_gather_mask: "kupyna_shape c s \<Longrightarrow> x AND (c - Suc 0) = x mod c"
  using and_mask_mod [of x 3] and_mask_mod [of x 4] by (auto simp: kupyna_shape_def)

lemma kupyna_sub_bytes_is: "kupyna_sub_bytes = sub_bytes"
  by (simp add: fun_eq_iff kupyna_sub_bytes_def sub_bytes_def)

lemma shift_bytes_alt: "shift_bytes st s = rotate_rows (kupyna_row_shift s) 16 st"
proof -
  have "shift_bytes_move st s row = (\<lambda>col l. l[(col + kupyna_row_shift s row) mod length st :=
      (l ! ((col + kupyna_row_shift s row) mod length st))[row := st ! col ! row]])" for row
    by (simp add: fun_eq_iff shift_bytes_move_def Let_def)
  then have "(\<lambda>row. fold (\<lambda>col. shift_bytes_move st s row col) [0..<length st]) = rotate_pass (kupyna_row_shift s) st"
    by (intro ext) (simp add: rotate_pass_def)
  then show ?thesis by (simp add: shift_bytes_def rotate_rows_def ROWS_def MAX_COLUMNS_def)
qed

lemma sub_shift_mix_n_eq:
  assumes "kupyna_shape c s" "length st = c" "wf_state st"
  shows "sub_shift_mix_n c st s = naive_sub_shift_mix st s"
proof -
  note b = kupyna_shape_bounds [OF assms(1)]
  let ?sh = "shift_bytes (kupyna_sub_bytes st) s"
  have w: "wf_state ?sh" "length ?sh = c"
    using b assms by (simp_all add: shift_bytes_alt kupyna_sub_bytes_is wf_rotate_rows)
  have src: "forward_sbox_mds r (st ! ((i + c - kupyna_row_shift s r) AND (c - 1)) ! r) = MDS_TABLE ! r ! unat (?sh ! i ! r)"
    if "i < c" "r < 8" for i r
  proof -
    have "?sh ! i ! r = sub_bytes st ! ((i + c - kupyna_row_shift s r) mod c) ! r"
      using that b(2) b(3) [of r] assms rotate_rows_nth [of i "sub_bytes st" 16 r "kupyna_row_shift s"]
      by (simp add: shift_bytes_alt kupyna_sub_bytes_is)
    then show ?thesis
      using that b(1) assms by (simp add: forward_sbox_mds_eq kupyna_gather_mask [OF assms(1)] sub_bytes_nth)
  qed
  show ?thesis
    unfolding sub_shift_mix_n_def naive_sub_shift_mix_def mix_columns_def apply_forward_matrix_def apply_matrix_def Let_def
  proof (rule nth_equalityI)
    fix i assume "i < length (map (\<lambda>out_col. to_le_bytes 8 (foldl (\<lambda>acc row. acc XOR
      forward_sbox_mds row (st ! ((out_col + c - kupyna_row_shift s row) AND (c - 1)) ! row)) 0 [0..<ROWS])) [0..<c])"
    then have i: "i < c" by simp
    show "map (\<lambda>out_col. to_le_bytes 8 (foldl (\<lambda>acc row. acc XOR
      forward_sbox_mds row (st ! ((out_col + c - kupyna_row_shift s row) AND (c - 1)) ! row)) 0 [0..<ROWS])) [0..<c] ! i =
      map (\<lambda>column. to_le_bytes 8 (mix_column MDS_TABLE column)) ?sh ! i"
      using i w src [OF i] by (simp add: ROWS_def mix_column_foldl wf_state_nth)
  qed (use w in simp)
qed

lemma kupyna_twins:
  "sub_shift_mix st s = sub_shift_mix_n (length st) st s"
  "add_round_constant_xor st r = add_round_constant_xor_n (length st) st r"
  "add_round_constant_add st r = add_round_constant_add_n (length st) st r"
  by (simp_all add: sub_shift_mix_def sub_shift_mix_n_def add_round_constant_xor_def add_round_constant_xor_n_def
      add_round_constant_add_def add_round_constant_add_n_def Let_def)

lemma length_kupyna_rounds [simp]:
  "length (sub_shift_mix_n c st s) = c" "length (add_round_constant_xor_n c st r) = c"
  "length (add_round_constant_add_n c st r) = c"
  by (simp_all add: sub_shift_mix_n_def add_round_constant_xor_n_def add_round_constant_add_n_def Let_def)

lemma wf_kupyna_rounds [simp]: "wf_state (sub_shift_mix_n c st s)"
  by (auto simp: wf_state_def sub_shift_mix_n_def Let_def)

lemma t_transform_twin:
  assumes "length st = c"
  shows "t_transform st n s = t_transform_n c n st s" "t_plus_transform st n s = t_plus_transform_n c n st s"
    "length (t_transform_n c n st s) = c" "length (t_plus_transform_n c n st s) = c"
proof -
  have "t_transform st n s = t_transform_n c n st s \<and> length (t_transform_n c n st s) = c"
    unfolding t_transform_def t_transform_n_def using assms by (induction n) (simp_all add: kupyna_twins)
  moreover have "t_plus_transform st n s = t_plus_transform_n c n st s \<and> length (t_plus_transform_n c n st s) = c"
    unfolding t_plus_transform_def t_plus_transform_n_def using assms by (induction n) (simp_all add: kupyna_twins)
  ultimately show "t_transform st n s = t_transform_n c n st s" "t_plus_transform st n s = t_plus_transform_n c n st s"
    "length (t_transform_n c n st s) = c" "length (t_plus_transform_n c n st s) = c" by simp_all
qed

lemma compress_twin: "length h = c \<Longrightarrow> compress h block n s = compress_n c n h block s"
  by (simp add: compress_def compress_n_def t_transform_twin Let_def)

lemma length_compress_n [simp]: "length (compress_n c n h b s) = c"
  by (simp add: compress_n_def Let_def)

end
