(* ===== verification/Kupyna_Hash.thy ===== *)
theory Kupyna_Hash
  imports Kupyna
begin

text \<open>
  The buffered Kupyna state refines a hash of whole messages: \<open>kupyna_hash\<close> pads the message,
  folds the compression function over its blocks and applies the output transformation. The
  \<open>streaming_hash\<close> interface is what the hashers promise and the MAC relies on; it is interpreted
  on the model of \<open>KupynaCore\<close>.
\<close>

section \<open>The interface of a streaming hash\<close>

fun feed :: "('s \<Rightarrow> bytes \<Rightarrow> 's option) \<Rightarrow> 's \<Rightarrow> bytes list \<Rightarrow> 's option" where
  "feed upd s [] = Some s"
| "feed upd s (d # ds) = (case upd s d of None \<Rightarrow> None | Some s' \<Rightarrow> feed upd s' ds)"

locale streaming_hash =
  fixes rep :: "bytes \<Rightarrow> 's \<Rightarrow> bool"
    and init :: 's
    and upd :: "'s \<Rightarrow> bytes \<Rightarrow> 's option"
    and fin :: "'s \<Rightarrow> bytes option"
    and H :: "bytes \<Rightarrow> bytes"
  assumes rep_init: "rep [] init"
    and rep_upd: "rep m s \<Longrightarrow> \<exists>s'. upd s d = Some s' \<and> rep (m @ d) s'"
    and fin_rep: "rep m s \<Longrightarrow> fin s = Some (H m)"
begin

lemma feed_rep: "rep m s \<Longrightarrow> \<exists>s'. feed upd s ds = Some s' \<and> rep (m @ concat ds) s'"
proof (induction ds arbitrary: m s)
  case (Cons d ds)
  obtain s' where "upd s d = Some s'" "rep (m @ d) s'" using rep_upd [OF Cons.prems] by blast
  with Cons.IH [of "m @ d" s'] show ?case by auto
qed simp

lemma streaming: "\<exists>s. feed upd init ds = Some s \<and> fin s = Some (H (concat ds))"
  using feed_rep [OF rep_init] fin_rep by fastforce

lemma chunking_irrelevant:
  "concat ds = concat es \<Longrightarrow> Option.bind (feed upd init ds) fin = Option.bind (feed upd init es) fin"
  using streaming [of ds] streaming [of es] by fastforce

end

section \<open>The specification\<close>

definition kv_block :: "kupyna_variant \<Rightarrow> nat" where
  "kv_block v = kv_columns v * 8"

definition kupyna_iv :: "kupyna_variant \<Rightarrow> bytes list" where
  "kupyna_iv v = (replicate (kv_columns v) (replicate 8 0))[0 := (replicate 8 0)[0 := of_nat (kv_block v)]]"

definition kupyna_step :: "kupyna_variant \<Rightarrow> bytes \<Rightarrow> bytes list \<Rightarrow> bytes list" where
  "kupyna_step v block h =
     compress_n (kv_columns v) (kv_rounds v) h (bytes_to_columns_n (kv_columns v) block) (kv_last_row_shift v)"

definition kupyna_pad :: "nat \<Rightarrow> bytes \<Rightarrow> 128 word \<Rightarrow> bytes" where
  "kupyna_pad bl m bits =
     m @ [0x80] @ replicate ((bl - (length m + 13) mod bl) mod bl) 0 @ take 12 (to_le_bytes 16 bits)"

definition kupyna_trunc :: "kupyna_variant \<Rightarrow> bytes list \<Rightarrow> bytes" where
  "kupyna_trunc v h =
     (let t = t_transform_n (kv_columns v) (kv_rounds v) h (kv_last_row_shift v)
      in drop (kv_block v - kv_output v) (concat (map (\<lambda>col. map (\<lambda>row. h ! col ! row XOR t ! col ! row) [0..<8]) [0..<kv_columns v])))"

definition kupyna_hash :: "kupyna_variant \<Rightarrow> bytes \<Rightarrow> bytes" where
  "kupyna_hash v m =
     kupyna_trunc v (fold (kupyna_step v)
       (chunks_exact (kv_block v) (kupyna_pad (kv_block v) m (ucast (of_nat (length m) :: u64) * 8))) (kupyna_iv v))"

section \<open>Blocks and padding\<close>

lemma kv_block_pos [simp]: "0 < kv_block v" "kv_block v \<le> 128" "13 < kv_block v"
  by (cases v; simp add: kv_block_def)+

lemma nth_chunks_exact:
  "0 < n \<Longrightarrow> i < length xs div n \<Longrightarrow> chunks_exact n xs ! i = slice (i * n) ((i + 1) * n) xs"
proof (induction n xs arbitrary: i rule: chunks_exact.induct)
  case (1 n xs)
  have len: "\<not> length xs < n" using "1.prems" by auto
  then have c: "chunks_exact n xs = take n xs # chunks_exact n (drop n xs)" using "1.prems" by (simp add: chunks_exact.simps [of n xs])
  show ?case
  proof (cases i)
    case 0
    then show ?thesis by (simp add: c slice_def)
  next
    case (Suc j)
    have "length xs div n = Suc ((length xs - n) div n)" using len "1.prems"(1) by (simp add: le_div_geq)
    then have "j < length (drop n xs) div n" using Suc "1.prems"(2) by simp
    with "1.IH" [of j] len "1.prems" Suc show ?thesis by (simp add: c slice_def add.commute)
  qed
qed

lemma chunks_exact_slices:
  assumes "0 < n" "p \<le> length xs" "p mod n = 0"
  shows "map (\<lambda>i. slice (i * n) ((i + 1) * n) xs) [0..<p div n] = chunks_exact n (take p xs)"
proof (rule nth_equalityI)
  fix i assume "i < length (map (\<lambda>i. slice (i * n) ((i + 1) * n) xs) [0..<p div n])"
  then have i: "i < p div n" by simp
  then have "(i + 1) * n \<le> p" by (metis Suc_eq_plus1 Suc_leI assms(3) mod_0_imp_dvd dvd_div_mult_self mult_le_mono1)
  then have "slice (i * n) ((i + 1) * n) (take p xs) = slice (i * n) ((i + 1) * n) xs"
    by (simp add: slice_def drop_take min_def)
  then show "map (\<lambda>i. slice (i * n) ((i + 1) * n) xs) [0..<p div n] ! i = chunks_exact n (take p xs) ! i"
    using i assms by (simp add: nth_chunks_exact)
qed (use assms in \<open>simp add: chunks_exact_count\<close>)

lemma chunks_exact_snoc:
  "0 < n \<Longrightarrow> length a mod n = 0 \<Longrightarrow> length b = n \<Longrightarrow> chunks_exact n (a @ b) = chunks_exact n a @ [b]"
  using chunks_exact_aligned_append [of n a b] chunks_exact_append [of b n "[]"] by simp

lemma remainder_aligned_append:
  assumes "0 < n" "length a mod n = 0"
  shows "chunks_remainder n (a @ r) = chunks_remainder n r"
proof -
  have "(length a + length r) div n = length a div n + length r div n" using assms by (metis div_plus_div_distrib_dvd_left mod_0_imp_dvd)
  moreover have "n * (length a div n) = length a" using assms by auto
  ultimately show ?thesis by (simp add: chunks_remainder_def distrib_left)
qed

lemma remainder_short [simp]: "length r < n \<Longrightarrow> chunks_remainder n r = r"
  by (simp add: chunks_remainder_def)

text \<open>A message as its whole blocks and the rest.\<close>

lemma message_split:
  assumes "0 < n"
  obtains a where "m = a @ chunks_remainder n m" "length a mod n = 0" "chunks_exact n m = chunks_exact n a"
proof -
  let ?a = "take (n * (length m div n)) m"
  have "length ?a = n * (length m div n)" by simp
  then have al: "length ?a mod n = 0" by simp
  have m: "m = ?a @ chunks_remainder n m" by (simp add: chunks_remainder_def)
  have "length (chunks_remainder n m) < n" using assms by (simp add: length_chunks_remainder)
  then have "chunks_exact n (?a @ chunks_remainder n m) = chunks_exact n ?a"
    using chunks_exact_aligned_append [OF assms al, of "chunks_remainder n m"] by simp
  with that [OF m al] m show thesis by simp
qed

lemma kupyna_padding_pad:
  assumes "length p < bl" "bl \<le> 128" "13 < bl"
  shows "take (snd (kupyna_padding p bits bl)) (fst (kupyna_padding p bits bl)) = kupyna_pad bl p bits"
    and "snd (kupyna_padding p bits bl) \<le> length (fst (kupyna_padding p bits bl))"
    and "snd (kupyna_padding p bits bl) = length (kupyna_pad bl p bits)"
proof -
  let ?z = "(bl - (length p + 13) mod bl) mod bl"
  let ?n = "length p + 1 + ?z"
  let ?rest = "256 - (?n + 12)"
  have z: "?z < bl" using assms(3) by simp
  then have fit: "?n + 12 \<le> 256"
  proof (cases "length p + 13 \<le> bl")
    case True
    then have "?z \<le> bl - (length p + 13)"
      using assms by (cases "length p + 13 = bl") simp_all
    then show ?thesis using True assms by linarith
  next
    case False
    then have "(length p + 13) mod bl = length p + 13 - bl" using assms by (simp add: mod_if)
    moreover have "bl - (length p + 13 - bl) = 2 * bl - (length p + 13)" using False by simp
    ultimately have "?z \<le> 2 * bl - (length p + 13)" using mod_less_eq_dividend [of "2 * bl - (length p + 13)" bl] by simp
    then show ?thesis using False assms by linarith
  qed
  have "256 = length p + (1 + (?z + (12 + ?rest)))" using fit by simp
  then have buf: "replicate 256 (0 :: u8) = replicate (length p) 0 @ [0] @ replicate ?z 0 @ replicate 12 0 @ replicate ?rest 0"
    by (metis replicate_add replicate_Suc replicate_0 One_nat_def)
  have b1: "(write_at (replicate 256 0) 0 p)[length p := 0x80] = (p @ [0x80] @ replicate ?z 0) @ replicate 12 0 @ replicate ?rest 0"
    unfolding buf by (simp add: write_at_def)
  have b2: "write_at ((write_at (replicate 256 0) 0 p)[length p := 0x80]) ?n (take 12 (to_le_bytes 16 bits)) =
      kupyna_pad bl p bits @ replicate ?rest 0"
    unfolding b1 by (subst write_at_middle) (simp_all add: kupyna_pad_def)
  have kp: "kupyna_padding p bits bl = (kupyna_pad bl p bits @ replicate ?rest 0, ?n + 12)"
    using b2 by (simp add: kupyna_padding_def Let_def MAX_BLOCK_BYTES_def MAX_COLUMNS_def ROWS_def add.commute add.left_commute)
  moreover have "length (kupyna_pad bl p bits) = ?n + 12" by (simp add: kupyna_pad_def)
  ultimately show "take (snd (kupyna_padding p bits bl)) (fst (kupyna_padding p bits bl)) = kupyna_pad bl p bits"
    "snd (kupyna_padding p bits bl) \<le> length (fst (kupyna_padding p bits bl))"
    "snd (kupyna_padding p bits bl) = length (kupyna_pad bl p bits)"
    by simp_all
qed

lemma kupyna_pad_aligned:
  assumes "0 < bl"
  shows "length (kupyna_pad bl m bits) mod bl = 0"
proof -
  let ?u = "length m + 13"
  have "(?u + (bl - ?u mod bl) mod bl) mod bl = (?u mod bl + (bl - ?u mod bl)) mod bl"
    by (metis mod_add_eq mod_mod_trivial)
  also have "\<dots> = 0" using assms by (simp add: less_imp_le)
  finally show ?thesis by (simp add: kupyna_pad_def algebra_simps)
qed

lemma kupyna_pad_append:
  assumes "0 < bl" "length a mod bl = 0"
  shows "kupyna_pad bl (a @ r) bits = a @ kupyna_pad bl r bits"
proof -
  have "(length a + length r + 13) mod bl = (length r + 13) mod bl" using assms by (metis add.assoc add_0 mod_add_left_eq)
  then show ?thesis by (simp add: kupyna_pad_def)
qed

section \<open>The state refines the specification\<close>

text \<open>A state that has absorbed the message \<open>m\<close>: its chaining value has every whole block, its buffer
  the rest.\<close>

definition core_rep :: "kupyna_variant \<Rightarrow> bytes \<Rightarrow> kupyna_core \<Rightarrow> bool" where
  "core_rep v m s \<longleftrightarrow>
     kc_columns s = kv_columns v \<and> kc_last_row_shift s = kv_last_row_shift v \<and> length (kc_h s) = 16 \<and>
     take (kv_columns v) (kc_h s) = fold (kupyna_step v) (chunks_exact (kv_block v) m) (kupyna_iv v) \<and>
     length (kc_buffer s) = 128 \<and> kc_buffer_len s < kv_block v \<and>
     buffered s = chunks_remainder (kv_block v) m \<and> kc_total_len s = of_nat (length m)"

lemma kv_columns_le [simp]: "kv_columns v \<le> 16" "0 < kv_columns v"
  by (cases v; simp)+

lemma length_kupyna_step [simp]: "length (kupyna_step v b h) = kv_columns v"
  by (simp add: kupyna_step_def)

lemma core_block_bytes_rep: "kc_columns s = kv_columns v \<Longrightarrow> core_block_bytes s = kv_block v"
  by (simp add: core_block_bytes_def kv_block_def ROWS_def)

lemma compress_block_step:
  assumes "kc_columns s = kv_columns v" "kc_last_row_shift s = kv_last_row_shift v"
  shows "compress_block s b =
    Some (s\<lparr>kc_h := kupyna_step v b (take (kv_columns v) (kc_h s)) @ drop (kv_columns v) (kc_h s)\<rparr>)"
  using assms by (cases v) (simp_all add: compress_block_def kupyna_step_def)

lemma compress_blocks_steps:
  assumes "kc_columns s = kv_columns v" "kc_last_row_shift s = kv_last_row_shift v" "length (kc_h s) = 16"
  shows "compress_blocks s bs =
    Some (s\<lparr>kc_h := fold (kupyna_step v) bs (take (kv_columns v) (kc_h s)) @ drop (kv_columns v) (kc_h s)\<rparr>)"
  using assms
proof (induction bs arbitrary: s)
  case (Cons b bs)
  let ?s = "s\<lparr>kc_h := kupyna_step v b (take (kv_columns v) (kc_h s)) @ drop (kv_columns v) (kc_h s)\<rparr>"
  have "compress_blocks ?s bs = Some (?s\<lparr>kc_h := fold (kupyna_step v) bs (take (kv_columns v) (kc_h ?s)) @ drop (kv_columns v) (kc_h ?s)\<rparr>)"
    using Cons.prems by (intro Cons.IH) simp_all
  then show ?case using Cons.prems by (simp add: compress_block_step)
qed simp

lemma length_fold_steps: "length h = kv_columns v \<Longrightarrow> length (fold (kupyna_step v) bs h) = kv_columns v"
  by (induction bs arbitrary: h) simp_all

lemma length_kupyna_iv [simp]: "length (kupyna_iv v) = kv_columns v"
  by (simp add: kupyna_iv_def)

lemma take_write_at_0: "length r \<le> length b \<Longrightarrow> take (length r) (write_at b 0 r) = r"
  by (simp add: write_at_def)

text \<open>\<open>update\<close> from an empty buffer.\<close>

lemma update_blocks_rep:
  assumes "kc_columns s = kv_columns v" "kc_last_row_shift s = kv_last_row_shift v" "length (kc_h s) = 16"
    and "take (kv_columns v) (kc_h s) = fold (kupyna_step v) (chunks_exact (kv_block v) a) (kupyna_iv v)"
    and "length (kc_buffer s) = 128" "length a mod kv_block v = 0" "kc_total_len s = of_nat (length (a @ data))"
  shows "\<exists>s'. kupyna_update_blocks s data = Some s' \<and> core_rep v (a @ data) s'"
proof -
  let ?bl = "kv_block v" and ?c = "kv_columns v"
  let ?r = "chunks_remainder ?bl data"
  let ?h = "fold (kupyna_step v) (chunks_exact ?bl data) (take ?c (kc_h s)) @ drop ?c (kc_h s)"
  have r: "length ?r < ?bl" by (simp add: length_chunks_remainder)
  then have r': "length ?r \<le> length (kc_buffer s)" using assms(5) kv_block_pos(2) [of v] by linarith
  have len: "length (fold (kupyna_step v) (chunks_exact ?bl data) (take ?c (kc_h s))) = ?c"
    using assms(3) by (intro length_fold_steps) simp
  have "chunks_exact ?bl (a @ data) = chunks_exact ?bl a @ chunks_exact ?bl data"
    using assms(6) by (intro chunks_exact_aligned_append) simp_all
  then have "take ?c ?h = fold (kupyna_step v) (chunks_exact ?bl (a @ data)) (kupyna_iv v)"
    using assms(4) len by simp
  moreover have "chunks_remainder ?bl (a @ data) = ?r" using assms(6) by (simp add: remainder_aligned_append)
  ultimately have "core_rep v (a @ data) (s\<lparr>kc_h := ?h, kc_buffer := write_at (kc_buffer s) 0 ?r, kc_buffer_len := length ?r\<rparr>)"
    using assms r r' len by (simp add: core_rep_def buffered_def take_write_at_0)
  then show ?thesis
    using assms by (simp add: kupyna_update_blocks_def core_block_bytes_rep compress_blocks_steps Let_def)
qed

lemma core_update_rep:
  assumes "core_rep v m s"
  shows "\<exists>s'. kupyna_core_update s data = Some s' \<and> core_rep v (m @ data) s'"
proof -
  let ?bl = "kv_block v" and ?n = "min (kv_block v - kc_buffer_len s) (length data)"
  have s: "kc_columns s = kv_columns v" "kc_last_row_shift s = kv_last_row_shift v" "length (kc_h s) = 16"
    "take (kv_columns v) (kc_h s) = fold (kupyna_step v) (chunks_exact ?bl m) (kupyna_iv v)"
    "length (kc_buffer s) = 128" "kc_buffer_len s < ?bl" "take (kc_buffer_len s) (kc_buffer s) = chunks_remainder ?bl m"
    "kc_total_len s = of_nat (length m)"
    using assms by (simp_all add: core_rep_def buffered_def)
  obtain a where a: "m = a @ chunks_remainder ?bl m" "length a mod ?bl = 0" "chunks_exact ?bl m = chunks_exact ?bl a"
    by (rule message_split [OF kv_block_pos(1)])
  let ?r = "chunks_remainder ?bl m"
  have r: "length ?r = kc_buffer_len s" using s(5-7) kv_block_pos(2) [of v] by (metis length_take min.absorb2 less_imp_le order_trans)
  let ?s0 = "s\<lparr>kc_total_len := kc_total_len s + of_nat (length data)\<rparr>"
  show ?thesis
  proof (cases "kc_buffer_len s = 0")
    case True
    then have "?r = []" using r by simp
    then have m: "m = a" using a(1) by simp
    have "\<exists>s'. kupyna_update_blocks ?s0 data = Some s' \<and> core_rep v (a @ data) s'"
      using s a(2) by (intro update_blocks_rep) (simp_all add: m)
    then show ?thesis using True m s(1) by (simp add: kupyna_core_update_def Let_def)
  next
    case False
    let ?b = "write_at (kc_buffer s) (kc_buffer_len s) (take ?n data)"
    have fits: "kc_buffer_len s + ?n \<le> ?bl" using s(6) by simp
    then have "kc_buffer_len s + ?n \<le> 128" using kv_block_pos(2) by (rule order_trans)
    then have "kc_buffer_len s + length (take ?n data) \<le> length (kc_buffer s)" using s(5) by simp
    then have b: "length ?b = 128" "take (kc_buffer_len s + ?n) ?b = ?r @ take ?n data"
      using s(5,7) r by simp_all (simp add: write_at_def)
    let ?s1 = "?s0\<lparr>kc_buffer := ?b, kc_buffer_len := kc_buffer_len s + ?n\<rparr>"
    show ?thesis
    proof (cases "kc_buffer_len s + ?n < ?bl")
      case True
      then have n: "?n = length data" by (simp add: min_def split: if_splits)
      have rd: "length (?r @ data) < ?bl" using True r n by simp
      then have "chunks_exact ?bl (m @ data) = chunks_exact ?bl m" "chunks_remainder ?bl (m @ data) = ?r @ data"
        using a chunks_exact_aligned_append [of ?bl a "?r @ data"] remainder_aligned_append [of ?bl a "?r @ data"]
        by (metis append.right_neutral append_assoc chunks_exact_short kv_block_pos(1), metis append_assoc kv_block_pos(1) remainder_short)
      then have "core_rep v (m @ data) ?s1" using s b True n by (simp add: core_rep_def buffered_def)
      then show ?thesis
        using True rd r False s(1) by (simp add: kupyna_core_update_def core_block_bytes_rep Let_def)
    next
      case full: False
      then have len: "kc_buffer_len s + ?n = ?bl" using fits by simp
      let ?a = "m @ take ?n data"
      let ?s2 = "?s1\<lparr>kc_h := kupyna_step v (?r @ take ?n data) (take (kv_columns v) (kc_h s)) @ drop (kv_columns v) (kc_h s),
                      kc_buffer_len := 0\<rparr>"
      have lb: "length (?r @ take ?n data) = ?bl" using len r by (simp add: min_def split: if_splits)
      have eq: "?a = a @ (?r @ take ?n data)" using a(1) by (metis append_assoc)
      have "length ?a = length a + ?bl" unfolding eq length_append [of a] lb ..
      then have "length ?a mod ?bl = 0" using a(2) by (simp only: mod_add_self2)
      moreover have "chunks_exact ?bl ?a = chunks_exact ?bl m @ [?r @ take ?n data]"
        unfolding eq a(3) by (rule chunks_exact_snoc [OF kv_block_pos(1) a(2) lb])
      ultimately have ch: "length ?a mod ?bl = 0" "chunks_exact ?bl ?a = chunks_exact ?bl m @ [?r @ take ?n data]" .
      have "\<exists>s'. kupyna_update_blocks ?s2 (drop ?n data) = Some s' \<and> core_rep v (?a @ drop ?n data) s'"
        using s b ch by (intro update_blocks_rep) simp_all
      moreover have "compress_block ?s1 (take ?bl ?b) = Some (?s1\<lparr>kc_h := kupyna_step v (?r @ take ?n data)
          (take (kv_columns v) (kc_h s)) @ drop (kv_columns v) (kc_h s)\<rparr>)"
        using s b(2) len by (simp add: compress_block_step)
      ultimately show ?thesis
        using full False s(1,6) by (simp add: kupyna_core_update_def core_block_bytes_rep Let_def)
    qed
  qed
qed

lemma core_output_rep:
  assumes "kc_columns s = kv_columns v" "kc_last_row_shift s = kv_last_row_shift v"
  shows "map_option (take (kv_output v)) (kupyna_output s (kv_output v)) = Some (kupyna_trunc v (take (kv_columns v) (kc_h s)))"
proof -
  have "map_option (take (kv_output v)) (kupyna_output s (kv_output v)) =
    Some (take (kv_output v) (write_at (replicate 64 0) 0 (slice (kv_block v - kv_output v) (kv_block v)
      (concat (take (kv_columns v) (kupyna_xor_output (kv_columns v) (kv_rounds v) s)) @
        replicate (MAX_BLOCK_BYTES - kv_columns v * ROWS) 0))))"
    using assms by (cases v) (simp_all add: kupyna_output_def kv_block_def core_block_bytes_def ROWS_def Let_def)
  moreover have "concat (take (kv_columns v) (kupyna_xor_output (kv_columns v) (kv_rounds v) s)) =
    concat (map (\<lambda>col. map (\<lambda>row. take (kv_columns v) (kc_h s) ! col ! row XOR
      t_transform_n (kv_columns v) (kv_rounds v) (take (kv_columns v) (kc_h s)) (kv_last_row_shift v) ! col ! row) [0..<8]) [0..<kv_columns v])"
    (is "_ = ?flat") using assms(2) by (auto simp: kupyna_xor_output_def ROWS_def Let_def intro!: arg_cong [where f = concat])
  moreover have "length ?flat = kv_block v" by (simp add: length_concat comp_def kv_block_def sum_list_triv)
  ultimately show ?thesis
    by (cases v) (simp_all add: kupyna_trunc_def slice_def write_at_def kv_block_def Let_def)
qed

lemma core_finalize_rep:
  assumes "core_rep v m s"
  shows "hasher_finalize v s = Some (kupyna_hash v m)"
proof -
  let ?bl = "kv_block v"
  have s: "kc_columns s = kv_columns v" "kc_last_row_shift s = kv_last_row_shift v" "length (kc_h s) = 16"
    "take (kv_columns v) (kc_h s) = fold (kupyna_step v) (chunks_exact ?bl m) (kupyna_iv v)"
    "take (kc_buffer_len s) (kc_buffer s) = chunks_remainder ?bl m" "kc_total_len s = of_nat (length m)"
    using assms by (simp_all add: core_rep_def buffered_def)
  obtain a where a: "m = a @ chunks_remainder ?bl m" "length a mod ?bl = 0" "chunks_exact ?bl m = chunks_exact ?bl a"
    by (rule message_split [OF kv_block_pos(1)])
  let ?bits = "ucast (of_nat (length m) :: u64) * 8 :: 128 word"
  let ?r = "chunks_remainder ?bl m"
  obtain tail pos where tp: "kupyna_padding ?r ?bits ?bl = (tail, pos)" by fastforce
  have "length ?r < ?bl" by (simp add: length_chunks_remainder)
  from kupyna_padding_pad [OF this kv_block_pos(2,3), of ?bits]
  have pad: "take pos tail = kupyna_pad ?bl ?r ?bits" "pos \<le> length tail" "pos mod ?bl = 0"
    using kupyna_pad_aligned [OF kv_block_pos(1)] by (simp_all add: tp)
  let ?bs = "map (\<lambda>i. slice (i * ?bl) ((i + 1) * ?bl) tail) [0..<pos div ?bl]"
  have bs: "?bs = chunks_exact ?bl (kupyna_pad ?bl ?r ?bits)"
    using chunks_exact_slices [OF kv_block_pos(1) pad(2,3)] pad(1) by simp
  have "kupyna_pad ?bl m ?bits = a @ kupyna_pad ?bl ?r ?bits"
    using kupyna_pad_append [OF kv_block_pos(1) a(2), of ?r] a(1) by simp
  then have all: "chunks_exact ?bl (kupyna_pad ?bl m ?bits) = chunks_exact ?bl m @ ?bs"
    using chunks_exact_aligned_append [OF kv_block_pos(1) a(2)] a(3) bs by simp
  let ?h = "fold (kupyna_step v) ?bs (take (kv_columns v) (kc_h s)) @ drop (kv_columns v) (kc_h s)"
  have "length (fold (kupyna_step v) ?bs (take (kv_columns v) (kc_h s))) = kv_columns v"
    using s(3) by (intro length_fold_steps) simp
  then have h: "take (kv_columns v) ?h = fold (kupyna_step v) (chunks_exact ?bl (kupyna_pad ?bl m ?bits)) (kupyna_iv v)"
    using s(4) by (simp add: all)
  have "hasher_finalize v s = map_option (take (kv_output v)) (kupyna_output (s\<lparr>kc_h := ?h\<rparr>) (kv_output v))"
    using s tp by (simp add: hasher_finalize_def kupyna_finalize_def core_block_bytes_rep compress_blocks_steps Let_def)
  also have "\<dots> = Some (kupyna_trunc v (take (kv_columns v) ?h))"
    using s(1,2) core_output_rep [of "s\<lparr>kc_h := ?h\<rparr>" v] by simp
  finally show ?thesis unfolding h by (simp add: kupyna_hash_def)
qed

lemma core_new_rep: "core_rep v [] (hasher_new v)"
  by (cases v) (simp_all add: core_rep_def hasher_new_def kupyna_core_new_def kupyna_iv_def kv_block_def
      buffered_def MAX_COLUMNS_def MAX_BLOCK_BYTES_def ROWS_def Let_def take_update_swap)

interpretation kupyna: streaming_hash "core_rep v" "hasher_new v" "hasher_update v" "hasher_finalize v" "kupyna_hash v" for v
  by unfold_locales (simp_all add: core_new_rep core_update_rep core_finalize_rep hasher_update_def)

lemma kupyna_digest_hash: "kupyna_digest v m = Some (kupyna_hash v m)"
proof -
  obtain s where s: "hasher_update v (hasher_new v) m = Some s" "core_rep v m s"
    using kupyna.rep_upd [OF kupyna.rep_init, of v m] by auto
  then show ?thesis
    using kupyna.fin_rep [OF s(2)]
    by (simp add: kupyna_digest_def digest_generic_def hasher_update_def hasher_new_def hasher_finalize_def)
qed

section \<open>Padding is injective\<close>

lemma nat_bits_small: "n < 2 ^ 64 \<Longrightarrow> unat (ucast (of_nat n :: u64) * 8 :: 128 word) = n * 8"
  by (simp add: unat_word_ariths unsigned_ucast_eq take_bit_eq_mod unsigned_of_nat)

lemma bits_below: "n < 2 ^ 64 \<Longrightarrow> unat (ucast (of_nat n :: u64) * 8 :: 128 word) < 2 ^ 96"
proof -
  assume n: "n < 2 ^ 64"
  then have "n * 8 < 2 ^ 64 * 8" by (rule mult_less_mono1) simp
  also have "\<dots> < 2 ^ 96" by simp
  finally show ?thesis using nat_bits_small [OF n] by argo
qed

lemma length_field_inject:
  assumes "take 12 (to_le_bytes 16 (a :: 128 word)) = take 12 (to_le_bytes 16 b)" "unat a < 2 ^ 96" "unat b < 2 ^ 96"
  shows "a = b"
proof -
  have small: "\<not> bit (x :: 128 word) i" if "unat x < 2 ^ 96" "96 \<le> i" for x i
  proof -
    have "unat x < 2 ^ i" using that by (meson less_le_trans one_le_numeral power_increasing)
    then have "\<not> bit (unat x) i" by (simp add: bit_iff_odd)
    then show ?thesis using bit_imp_le_length [of x i] by (auto simp: bit_unsigned_iff)
  qed
  have "to_le_bytes 16 a ! k = to_le_bytes 16 b ! k" if "k < 12" for k using assms(1) that by (metis nth_take)
  then have low: "bit a i = bit b i" if "i < 96" for i
  proof -
    have k: "i div 8 < 12" "i = 8 * (i div 8) + i mod 8" using that by simp_all
    have "bit (to_le_bytes 16 a ! (i div 8)) (i mod 8) = bit (to_le_bytes 16 b ! (i div 8)) (i mod 8)"
      using k(1) by (simp add: \<open>\<And>k. k < 12 \<Longrightarrow> to_le_bytes 16 a ! k = to_le_bytes 16 b ! k\<close>)
    then show ?thesis using k by (simp add: bit_to_le_bytes)
  qed
  show ?thesis
  proof (rule bit_word_eqI)
    fix i show "bit a i = bit b i" using low small [OF assms(2)] small [OF assms(3)] by (cases "i < 96") auto
  qed
qed

lemma kupyna_pad_inject:
  assumes "kupyna_pad bl m a = kupyna_pad bl m' b" "length m = length m'"
  shows "m = m'"
  using assms unfolding kupyna_pad_def by (metis append_eq_append_conv)

section \<open>Properties\<close>

text \<open>C39. Feeding a message to a hasher in any pieces never reaches an \<open>unreachable!\<close> arm and gives
  the digest of the whole message: the one-shot digest, which is the fold of the compression
  function over the padded message followed by the truncated output transformation.\<close>

theorem kupyna_streaming_is_digest:
  "\<exists>s. feed (hasher_update v) (hasher_new v) pieces = Some s \<and>
     hasher_finalize v s = kupyna_digest v (concat pieces) \<and>
     kupyna_digest v (concat pieces) = Some (kupyna_trunc v (fold (kupyna_step v)
       (chunks_exact (kv_block v) (kupyna_pad (kv_block v) (concat pieces)
         (ucast (of_nat (length (concat pieces)) :: u64) * 8))) (kupyna_iv v)))"
  using kupyna.streaming [of v pieces] by (auto simp: kupyna_digest_hash kupyna_hash_def)

text \<open>The padding fills whole blocks and is injective below \<open>2\<^sup>6\<^sup>4\<close> bytes: two messages with the
  same padded blocks are equal.\<close>

theorem kupyna_padding_injective:
  assumes "length m < 2 ^ 64" "length m' < 2 ^ 64"
  shows "length (kupyna_pad (kv_block v) m (ucast (of_nat (length m) :: u64) * 8)) mod kv_block v = 0 \<and>
    (kupyna_pad (kv_block v) m (ucast (of_nat (length m) :: u64) * 8) =
       kupyna_pad (kv_block v) m' (ucast (of_nat (length m') :: u64) * 8) \<longleftrightarrow> m = m') \<and>
    (length m < kv_block v \<longrightarrow> (let (tail, pos) = kupyna_padding m (ucast (of_nat (length m) :: u64) * 8) (kv_block v)
       in take pos tail = kupyna_pad (kv_block v) m (ucast (of_nat (length m) :: u64) * 8)))"
proof (intro conjI impI iffI)
  let ?b = "\<lambda>m :: bytes. ucast (of_nat (length m) :: u64) * 8 :: 128 word"
  let ?p = "\<lambda>m. kupyna_pad (kv_block v) m (?b m)"
  assume eq: "?p m = ?p m'"
  have tl: "drop (length (?p x) - 12) (?p x) = take 12 (to_le_bytes 16 (?b x))" for x
    by (simp add: kupyna_pad_def)
  have "take 12 (to_le_bytes 16 (?b m)) = drop (length (?p m') - 12) (?p m')" using tl [of m] by (simp only: eq)
  also note tl [of m']
  finally have "take 12 (to_le_bytes 16 (?b m)) = take 12 (to_le_bytes 16 (?b m'))" .
  then have "?b m = ?b m'" using bits_below [OF assms(1)] bits_below [OF assms(2)] by (rule length_field_inject)
  then have "length m * 8 = length m' * 8" by (simp only: flip: nat_bits_small [OF assms(1)] nat_bits_small [OF assms(2)])
  then have "length m = length m'" by simp
  with eq show "m = m'" by (rule kupyna_pad_inject)
qed (use kupyna_padding_pad(1) [of m "kv_block v"] in \<open>simp_all add: kupyna_pad_aligned case_prod_beta\<close>)

theorem kupyna_padding_injective_witness:
  "kupyna_pad (kv_block Kupyna256) [1] 8 = kupyna_pad (kv_block Kupyna256) [1, 0x80] 16 \<longleftrightarrow> False"
  using kupyna_padding_injective [of "[1]" "[1, 0x80]" Kupyna256] by simp

text \<open>The fused round, in its run-time and const-generic forms, equals the three-pass reference
  for both state sizes, and the const-generic compression equals the run-time one.\<close>

theorem kupyna_fused_matches_naive:
  assumes "columns = 8 \<and> last_row_shift = 7 \<or> columns = 16 \<and> last_row_shift = 11"
    and "length st = columns" "\<forall>c \<in> set st. length c = 8" "length h = columns"
  shows "sub_shift_mix st last_row_shift = naive_sub_shift_mix st last_row_shift \<and>
    sub_shift_mix_n columns st last_row_shift = naive_sub_shift_mix st last_row_shift \<and>
    compress_n columns rounds h block last_row_shift = compress h block rounds last_row_shift"
proof -
  have "kupyna_shape columns last_row_shift" "wf_state st"
    using assms by (simp_all add: kupyna_shape_def wf_state_def)
  then show ?thesis using assms(2,4) by (simp add: sub_shift_mix_n_eq kupyna_twins compress_twin)
qed

theorem kupyna_fused_matches_naive_witness:
  "sub_shift_mix (replicate 16 (replicate 8 0x3C)) 11 = naive_sub_shift_mix (replicate 16 (replicate 8 0x3C)) 11 \<and>
   sub_shift_mix_n 16 (replicate 16 (replicate 8 0x3C)) 11 = naive_sub_shift_mix (replicate 16 (replicate 8 0x3C)) 11"
  using kupyna_fused_matches_naive [of 16 11 "replicate 16 (replicate 8 0x3C)" "replicate 16 (replicate 8 0)" 14 "replicate 16 (replicate 8 0)"]
  by simp

text \<open>The 384-bit digest is the last 48 bytes of the 512-bit digest of the same message.\<close>

theorem kupyna384_truncates_512:
  "\<exists>d. kupyna_digest Kupyna512 m = Some d \<and> length d = 64 \<and> kupyna_digest Kupyna384 m = Some (drop 16 d)"
proof -
  have same: "kupyna_step Kupyna384 = kupyna_step Kupyna512" "kupyna_iv Kupyna384 = kupyna_iv Kupyna512"
    "kv_block Kupyna384 = kv_block Kupyna512"
    by (simp_all add: fun_eq_iff kupyna_step_def kupyna_iv_def kv_block_def)
  have "length (kupyna_trunc Kupyna512 h) = 64" for h
    by (simp add: kupyna_trunc_def kv_block_def length_concat comp_def sum_list_triv Let_def)
  moreover have "kupyna_trunc Kupyna384 h = drop 16 (kupyna_trunc Kupyna512 h)" for h
    by (simp add: kupyna_trunc_def kv_block_def Let_def)
  ultimately show ?thesis by (simp add: kupyna_digest_hash kupyna_hash_def same)
qed

end
