(* ===== verification/Kupyna_Kmac.thy ===== *)
theory Kupyna_Kmac
  imports Kupyna_Hash "HOL-Library.Monad_Syntax"
begin

text \<open>
  \<open>crates/dstu-core/src/hazmat/kupyna_kmac.rs\<close> and \<open>kupyna_kdf.rs\<close>, with the wrappers
  \<open>crypto_auth.rs\<close> and \<open>crypto_kdf.rs\<close>: the keyed uses of Kupyna. The MAC drives the buffered
  compression state directly, with two padding points of its own; it is shown to be the hash of
  the padded key, the padded message and the complemented key. An \<open>unreachable!\<close> is the value
  \<open>None\<close>, and no call reaches one.
\<close>

section \<open>Definitions\<close>

datatype kmac_error = WrongKeyLength | TagMismatch

definition kmac_bits :: "nat \<Rightarrow> 128 word" where
  "kmac_bits n = of_nat n * 8"

definition kmac_generic :: "bytes \<Rightarrow> bytes \<Rightarrow> nat \<Rightarrow> nat \<Rightarrow> nat \<Rightarrow> nat \<Rightarrow> (kmac_error + bytes) option" where
  "kmac_generic key message columns rounds last_row_shift output_bytes =
     (if length key \<noteq> output_bytes then Some (Inl WrongKeyLength)
      else do {
        let core = kupyna_core_new columns rounds last_row_shift;
        let block_n = core_block_bytes core;
        let (padded_key, padded_key_len) = kupyna_padding key (kmac_bits (length key)) block_n;
        core \<leftarrow> kupyna_core_update core (take padded_key_len padded_key);
        core \<leftarrow> kupyna_core_update core message;
        let (pad_m, pad_m_len) = kupyna_padding (buffered core) (kmac_bits (length message)) block_n;
        let already_buffered = length (buffered core);
        core \<leftarrow> kupyna_core_update core (slice already_buffered pad_m_len pad_m);
        let inverted_key = write_at (replicate 64 0) 0 (map (\<lambda>src. NOT src) key);
        core \<leftarrow> kupyna_core_update core (take (length key) inverted_key);
        out \<leftarrow> kupyna_finalize core output_bytes;
        Some (Inr out)
      })"

definition kmac_mac :: "kupyna_variant \<Rightarrow> bytes \<Rightarrow> bytes \<Rightarrow> (kmac_error + bytes) option" where
  "kmac_mac v key message =
     map_option (map_sum id (take (kv_output v)))
       (kmac_generic key message (kv_columns v) (kv_rounds v) (kv_last_row_shift v) (kv_output v))"

definition kmac_verify :: "kupyna_variant \<Rightarrow> bytes \<Rightarrow> bytes \<Rightarrow> bytes \<Rightarrow> (kmac_error + unit) option" where
  "kmac_verify v key message expected =
     map_option (\<lambda>r. case r of Inl e \<Rightarrow> Inl e | Inr mac \<Rightarrow> if mac = expected then Inr () else Inl TagMismatch)
       (kmac_mac v key message)"

definition derive_subkey :: "kupyna_variant \<Rightarrow> bytes \<Rightarrow> u64 \<Rightarrow> bytes \<Rightarrow> bytes option" where
  "derive_subkey v master_key subkey_id context_bytes =
     (let message = replicate 16 0;
          message = write_at message 0 context_bytes;
          message = write_at message 8 (to_le_bytes 8 subkey_id) in
      case kmac_mac v master_key message of
        Some (Inr subkey) \<Rightarrow> Some subkey
      | _ \<Rightarrow> None)"

text \<open>The \<open>crypto_*\<close> wrappers fix the 256-bit variant; a \<open>Key\<close> is its 32 bytes.\<close>

definition auth :: "bytes \<Rightarrow> bytes \<Rightarrow> bytes option" where
  "auth key message = (case kmac_mac Kupyna256 key message of Some (Inr tag) \<Rightarrow> Some tag | _ \<Rightarrow> None)"

definition auth_verify :: "bytes \<Rightarrow> bytes \<Rightarrow> bytes \<Rightarrow> (unit + unit) option" where
  "auth_verify key message tag =
     (case kmac_verify Kupyna256 key message tag of
        Some (Inr u) \<Rightarrow> Some (Inr u)
      | Some (Inl TagMismatch) \<Rightarrow> Some (Inl ())
      | _ \<Rightarrow> None)"

definition master_derive_subkey :: "bytes \<Rightarrow> u64 \<Rightarrow> bytes \<Rightarrow> bytes option" where
  "master_derive_subkey master_key subkey_id context_bytes = derive_subkey Kupyna256 master_key subkey_id context_bytes"

section \<open>The MAC is a hash\<close>

definition kmac_input :: "kupyna_variant \<Rightarrow> bytes \<Rightarrow> bytes \<Rightarrow> bytes" where
  "kmac_input v key message =
     kupyna_pad (kv_block v) key (kmac_bits (length key)) @
     kupyna_pad (kv_block v) message (kmac_bits (length message)) @ map (\<lambda>b. NOT b) key"

lemma kv_output_le: "kv_output v \<le> 64" "kv_output v < kv_block v"
  by (cases v; simp add: kv_block_def)+

lemma kmac_generic_hash:
  assumes "length key = kv_output v"
  shows "\<exists>s. kmac_generic key message (kv_columns v) (kv_rounds v) (kv_last_row_shift v) (kv_output v) =
      map_option Inr (kupyna_finalize s (kv_output v)) \<and> core_rep v (kmac_input v key message) s"
proof -
  let ?bl = "kv_block v"
  let ?pk = "kupyna_pad ?bl key (kmac_bits (length key))"
  let ?pm = "\<lambda>r. kupyna_pad ?bl r (kmac_bits (length message))"
  have key: "length key < ?bl" "length key \<le> 64" using assms kv_output_le [of v] by simp_all
  obtain t1 n1 where p1: "kupyna_padding key (kmac_bits (length key)) ?bl = (t1, n1)" by fastforce
  have pk: "take n1 t1 = ?pk" using kupyna_padding_pad(1) [OF key(1) kv_block_pos(2,3)] p1 by (metis fst_conv snd_conv)
  obtain s1 where s1: "kupyna_core_update (hasher_new v) ?pk = Some s1" "core_rep v ?pk s1"
    using core_update_rep [OF core_new_rep, of v ?pk] by auto
  obtain s2 where s2: "kupyna_core_update s1 message = Some s2" "core_rep v (?pk @ message) s2"
    using core_update_rep [OF s1(2)] by blast
  let ?r = "chunks_remainder ?bl message"
  have al: "length ?pk mod ?bl = 0" by (simp add: kupyna_pad_aligned)
  have buf: "buffered s2 = ?r"
    using s2(2) remainder_aligned_append [OF kv_block_pos(1) al, of message] by (simp add: core_rep_def)
  have r: "length ?r < ?bl" by (simp add: length_chunks_remainder)
  obtain t2 n2 where p2: "kupyna_padding ?r (kmac_bits (length message)) ?bl = (t2, n2)" by fastforce
  have pm: "take n2 t2 = ?pm ?r" using kupyna_padding_pad(1) [OF r kv_block_pos(2,3)] p2 by (metis fst_conv snd_conv)
  let ?suffix = "slice (length ?r) n2 t2"
  have suf: "?r @ ?suffix = ?pm ?r"
  proof -
    have "take (length ?r) (?pm ?r) = ?r" by (simp add: kupyna_pad_def)
    moreover have "?suffix = drop (length ?r) (?pm ?r)" unfolding pm [symmetric] by (simp add: slice_def drop_take)
    ultimately show ?thesis by (metis append_take_drop_id)
  qed
  obtain a where a: "message = a @ ?r" "length a mod ?bl = 0" "chunks_exact ?bl message = chunks_exact ?bl a"
    by (rule message_split [OF kv_block_pos(1)])
  have full: "message @ ?suffix = ?pm message"
    using kupyna_pad_append [OF kv_block_pos(1) a(2), of ?r] suf a(1) by (metis append_assoc)
  obtain s3 where s3: "kupyna_core_update s2 ?suffix = Some s3" "core_rep v (?pk @ ?pm message) s3"
    using core_update_rep [OF s2(2), of ?suffix] full by auto
  obtain s4 where s4: "kupyna_core_update s3 (map (\<lambda>b. NOT b) key) = Some s4" "core_rep v (kmac_input v key message) s4"
    using core_update_rep [OF s3(2), of "map (\<lambda>b. NOT b) key"] by (auto simp: kmac_input_def)
  have inv: "take (length key) (write_at (replicate 64 0) 0 (map (\<lambda>b. NOT b) key)) = map (\<lambda>b. NOT b) key"
    using key(2) by (simp add: write_at_def)
  have "core_block_bytes (hasher_new v) = ?bl"
    by (cases v) (simp_all add: hasher_new_def kupyna_core_new_def core_block_bytes_def kv_block_def ROWS_def Let_def)
  then have "kmac_generic key message (kv_columns v) (kv_rounds v) (kv_last_row_shift v) (kv_output v) =
      Option.bind (kupyna_finalize s4 (kv_output v)) (\<lambda>out. Some (Inr out))"
    using assms p1 pk s1(1) s2(1) buf p2 s3(1) s4(1) inv
    by (simp add: kmac_generic_def hasher_new_def [symmetric] Let_def)
  then show ?thesis using s4(2) by (auto simp: map_conv_bind_option comp_def)
qed

lemma kmac_mac_hash:
  assumes "length key = kv_output v"
  shows "kmac_mac v key message = Some (Inr (kupyna_hash v (kmac_input v key message)))"
proof -
  obtain s where s: "kmac_generic key message (kv_columns v) (kv_rounds v) (kv_last_row_shift v) (kv_output v) =
      map_option Inr (kupyna_finalize s (kv_output v))" "core_rep v (kmac_input v key message) s"
    using kmac_generic_hash [OF assms] by blast
  show ?thesis
    using core_finalize_rep [OF s(2)] by (auto simp: kmac_mac_def s(1) hasher_finalize_def)
qed

lemma kmac_mac_wrong_key: "length key \<noteq> kv_output v \<Longrightarrow> kmac_mac v key message = Some (Inl WrongKeyLength)"
  by (simp add: kmac_mac_def kmac_generic_def)

lemma length_kupyna_hash [simp]: "length (kupyna_hash v m) = kv_output v"
  by (cases v) (simp_all add: kupyna_hash_def kupyna_trunc_def kv_block_def length_concat comp_def sum_list_triv Let_def)

lemma kdf_message: "length ctx = 8 \<Longrightarrow> write_at (write_at (replicate 16 0) 0 ctx) 8 (to_le_bytes 8 subkey_id) =
    ctx @ to_le_bytes 8 (subkey_id :: u64)"
  by (simp add: write_at_def)

section \<open>Properties\<close>

text \<open>The MAC of a message under a key of the right length is the Kupyna hash of the padded key,
  the padded message and the complemented key, as annex V of the standard defines it; any other
  key length is refused.\<close>

theorem kmac_is_hash_of_padded_parts:
  "kmac_mac v key message =
    (if length key = kv_output v then
       map_option Inr (kupyna_digest v
         (kupyna_pad (kv_block v) key (kmac_bits (length key)) @
          kupyna_pad (kv_block v) message (kmac_bits (length message)) @ map (\<lambda>b. NOT b) key))
     else Some (Inl WrongKeyLength))"
  by (simp add: kmac_mac_hash kmac_mac_wrong_key kupyna_digest_hash kmac_input_def)

text \<open>Deriving a subkey never reaches its \<open>unreachable!\<close> arm and equals the authentication tag of
  the context followed by the identifier: \<open>crypto_kdf\<close> and \<open>crypto_auth\<close> share their key space, as
  their documentation warns. Different identifiers and contexts give different tag inputs.\<close>

theorem kdf_is_auth_of_context_and_id:
  assumes "length key = 32" "length ctx = 8" "length ctx' = 8"
  shows "\<exists>k. master_derive_subkey key i ctx = Some k \<and> length k = 32 \<and>
    auth key (ctx @ to_le_bytes 8 i) = Some k \<and>
    (ctx @ to_le_bytes 8 i = ctx' @ to_le_bytes 8 i' \<longleftrightarrow> ctx = ctx' \<and> i = i')"
  using assms by (auto simp: master_derive_subkey_def derive_subkey_def auth_def kdf_message kmac_mac_hash
      to_le_bytes_inject Let_def)

theorem kdf_is_auth_of_context_and_id_witness:
  "\<exists>k. master_derive_subkey (replicate 32 1) 5 (replicate 8 2) = Some k \<and> length k = 32 \<and>
    auth (replicate 32 1) (replicate 8 2 @ to_le_bytes 8 (5 :: u64)) = Some k"
  using kdf_is_auth_of_context_and_id [of "replicate 32 1" "replicate 8 2" "replicate 8 3" 5 6] by auto

text \<open>\<open>auth\<close> is total on 32-byte keys and \<open>verify\<close> accepts the tag it computes and nothing else,
  with \<open>TagMismatch\<close> as its only error.\<close>

theorem auth_verify_exact:
  assumes "length key = 32"
  shows "\<exists>t. auth key message = Some t \<and> length t = 32 \<and>
    auth_verify key message tag = Some (if tag = t then Inr () else Inl ())"
  using assms by (auto simp: auth_def auth_verify_def kmac_verify_def kmac_mac_hash)

theorem auth_verify_exact_witness:
  "\<exists>t. auth (replicate 32 7) [1, 2, 3] = Some t \<and> auth_verify (replicate 32 7) [1, 2, 3] [] = Some (Inl ())"
  using auth_verify_exact [of "replicate 32 7" "[1, 2, 3]" "[]"] by auto

end
