(* ===== verification/Gcm_Aead.thy ===== *)
theory Gcm_Aead
  imports Kalyna_Gcm
begin

text \<open>
  The interface through which \<open>crypto_secretbox\<close> and \<open>crypto_secretstream\<close> use authenticated
  encryption, and the source of randomness they share (\<open>crates/dstu-core/src/randombytes.rs\<close>). Both
  fix \<open>Kalyna256_256Gcm\<close> with tags cut to 16 bytes and never pass empty associated data; for those
  calls the partial operations of \<^const>\<open>gcm_encrypt\<close> and \<^const>\<open>gcm_decrypt\<close> are a total
  encryption and its partial inverse, which is all the clients rely on.
\<close>

section \<open>Randomness\<close>

text \<open>\<open>getrandom::fill\<close> belongs to another package: it is the parameter \<open>fill\<close>, which for a number
  of bytes gives that many bytes or an error.\<close>

datatype 'e random_error = RandomError 'e

definition randombytes_buf :: "(nat \<Rightarrow> 'e + bytes) \<Rightarrow> bytes \<Rightarrow> 'e random_error + bytes" where
  "randombytes_buf fill buf = map_sum RandomError id (fill (length buf))"

definition fills :: "(nat \<Rightarrow> 'e + bytes) \<Rightarrow> bool" where
  "fills fill \<longleftrightarrow> (\<forall>n bs. fill n = Inr bs \<longrightarrow> length bs = n)"

lemma randombytes_buf_cases:
  assumes "fills fill"
  obtains (err) e where "randombytes_buf fill buf = Inl (RandomError e)"
    | (ok) bs where "randombytes_buf fill buf = Inr bs" "length bs = length buf"
  using assms by (cases "fill (length buf)") (auto simp: randombytes_buf_def fills_def)

section \<open>The contract\<close>

locale aead =
  fixes enc :: "'k \<Rightarrow> 'n \<Rightarrow> 'a \<Rightarrow> bytes \<Rightarrow> 'c"
    and dec :: "'k \<Rightarrow> 'n \<Rightarrow> 'a \<Rightarrow> 'c \<Rightarrow> bytes option"
  assumes dec_enc [simp]: "dec k n a (enc k n a p) = Some p"
    and dec_only: "dec k n a c = Some p \<Longrightarrow> enc k n a p = c"
begin

lemma dec_iff: "dec k n a c = Some p \<longleftrightarrow> enc k n a p = c"
  using dec_only by auto

lemma enc_inject: "enc k n a p = enc k n a q \<longleftrightarrow> p = q"
  by (metis dec_enc option.inject)

lemma dec_none_iff: "dec k n a c = None \<longleftrightarrow> c \<notin> range (enc k n a)"
  by (cases "dec k n a c") (auto simp: dec_iff)

end

section \<open>Kalyna-256/256-GCM provides it\<close>

type_synonym clmul = "(u64 \<Rightarrow> u64 \<Rightarrow> u64 \<times> u64) option"

definition gcm16_tag :: "clmul \<Rightarrow> bytes \<Rightarrow> bytes \<Rightarrow> bytes \<Rightarrow> bytes" where
  "gcm16_tag hw key aad ct =
     take 16 (gcm_compute_tag hw Kalyna256_256 (the (gcm_new Kalyna256_256 key)) aad ct
       (of_nat (length aad) * 8) (of_nat (length ct) * 8))"

definition gcm16_stream :: "bytes \<Rightarrow> bytes \<Rightarrow> bytes \<Rightarrow> bytes" where
  "gcm16_stream key iv = gcm_apply_keystream Kalyna256_256 (the (gcm_new Kalyna256_256 key)) iv"

definition gcm16_enc :: "clmul \<Rightarrow> bytes \<Rightarrow> bytes \<Rightarrow> bytes \<Rightarrow> bytes \<Rightarrow> bytes \<times> bytes" where
  "gcm16_enc hw key iv aad pt = (let ct = gcm16_stream key iv pt in (ct, gcm16_tag hw key aad ct))"

definition gcm16_dec :: "clmul \<Rightarrow> bytes \<Rightarrow> bytes \<Rightarrow> bytes \<Rightarrow> bytes \<times> bytes \<Rightarrow> bytes option" where
  "gcm16_dec hw key iv aad c =
     (if gcm16_tag hw key aad (fst c) = snd c then Some (gcm16_stream key iv (fst c)) else None)"

lemma gcm16_stream_laws [simp]:
  "gcm16_stream key iv (gcm16_stream key iv data) = data"
  "length (gcm16_stream key iv data) = length data"
  by (simp_all add: gcm16_stream_def)

interpretation gcm16: aead "gcm16_enc hw" "gcm16_dec hw" for hw
  by unfold_locales (auto simp: gcm16_enc_def gcm16_dec_def Let_def split: if_splits)

lemma length_fst_gcm16_enc [simp]: "length (fst (gcm16_enc hw key iv aad pt)) = length pt"
  by (simp add: gcm16_enc_def Let_def)

lemma gcm_new_total:
  assumes "length key = key_bytes v"
  obtains self where "gcm_new v key = Some self" "valid_expanded_key v (gcm_key self)"
  using expanded_key_new_total [OF assms] by (auto simp: gcm_new_def)

lemma gcm_new_256_total:
  assumes "length key = 32"
  obtains self where "gcm_new Kalyna256_256 key = Some self" "valid_expanded_key Kalyna256_256 (gcm_key self)"
  using gcm_new_total [of key Kalyna256_256] assms by auto

lemma length_gcm16_tag:
  assumes "\<forall>clm \<in> set_option hw. multiplies_carryless clm" "length key = 32"
  shows "length (gcm16_tag hw key aad ct) = 16"
  by (rule gcm_new_256_total [OF assms(2)]) (simp add: gcm16_tag_def length_gcm_compute_tag [OF assms(1)])

lemma gcm_encrypt_gcm16:
  assumes "gcm_new Kalyna256_256 key = Some self" "aad \<noteq> []" "8 * length aad < 2 ^ 64" "8 * length pt < 2 ^ 64"
    and "length out = length pt"
  obtains t where "gcm_encrypt hw Kalyna256_256 self iv aad pt out = (Inr t, fst (gcm16_enc hw key iv aad pt))"
    and "take 16 t = snd (gcm16_enc hw key iv aad pt)"
proof
  let ?ct = "gcm_apply_keystream Kalyna256_256 self iv pt"
  let ?t = "gcm_compute_tag hw Kalyna256_256 self aad ?ct (of_nat (length aad) * 8) (of_nat (length pt) * 8)"
  show "gcm_encrypt hw Kalyna256_256 self iv aad pt out = (Inr ?t, fst (gcm16_enc hw key iv aad pt))"
    using assms by (simp add: gcm_encrypt_def checked_bit_len_def gcm16_enc_def gcm16_stream_def Let_def)
  show "take 16 ?t = snd (gcm16_enc hw key iv aad pt)"
    using assms(1) by (simp add: gcm16_enc_def gcm16_tag_def gcm16_stream_def Let_def)
qed

lemma gcm_decrypt_gcm16:
  assumes "gcm_new Kalyna256_256 key = Some self" "aad \<noteq> []" "8 * length aad < 2 ^ 64" "8 * length ct < 2 ^ 64"
    and "length out = length ct" "length tag = 16"
  shows "gcm_decrypt hw Kalyna256_256 self iv aad ct tag out =
    (case gcm16_dec hw key iv aad (ct, tag) of
       Some pt \<Rightarrow> (Inr (), pt) | None \<Rightarrow> (Inl gcm_error.TagMismatch, replicate (length ct) 0))"
  using assms by (auto simp: gcm_decrypt_outcomes gcm16_dec_def gcm16_tag_def gcm16_stream_def checked_bit_len_def)

end
