(* ===== verification/Crypto_Secretbox.thy ===== *)
theory Crypto_Secretbox
  imports Gcm_Aead "HOL-Library.Monad_Syntax"
begin

text \<open>
  \<open>crates/dstu-core/src/crypto_secretbox.rs\<close>: one-shot authenticated encryption with an internal
  nonce and the wire format \<open>version || nonce || ciphertext || tag\<close>. A \<open>SecretKey\<close> is its 32
  bytes; an \<open>unreachable!\<close> is the value \<open>None\<close>. A Rust slice holds fewer than \<open>2^63\<close> bytes and
  the field of the cipher counts bits in 64, so the one limit that remains is a message of
  \<open>2^61\<close> bytes, which the theorems state.
\<close>

section \<open>Definitions\<close>

definition secretbox_FORMAT_VERSION :: u8 where "secretbox_FORMAT_VERSION = 2"
definition NONCE_LEN :: nat where "NONCE_LEN = 32"
definition HEADER_LEN :: nat where "HEADER_LEN = 1 + NONCE_LEN"
definition secretbox_TAG_LEN :: nat where "secretbox_TAG_LEN = 16"

lemmas secretbox_consts [simp] =
  secretbox_FORMAT_VERSION_def NONCE_LEN_def HEADER_LEN_def secretbox_TAG_LEN_def

datatype 'e secretbox_error = Truncated | TagMismatch | UnsupportedVersion | Random "'e random_error"

definition secretkey_generate :: "(nat \<Rightarrow> 'e + bytes) \<Rightarrow> 'e secretbox_error + bytes" where
  "secretkey_generate fill = map_sum Random id (randombytes_buf fill (replicate 32 0))"

definition secretbox_aad :: "bytes \<Rightarrow> nat \<Rightarrow> bytes option" where
  "secretbox_aad nonce ciphertext_len =
     (if ciphertext_len < 2 ^ 64 then
        let len = of_nat ciphertext_len :: u64;
            aad = replicate (HEADER_LEN + 8) 0;
            aad = aad[0 := secretbox_FORMAT_VERSION];
            aad = write_at aad 1 nonce
        in Some (write_at aad HEADER_LEN (to_le_bytes 8 len))
      else None)"

definition secretbox_seal ::
  "clmul \<Rightarrow> (nat \<Rightarrow> 'e + bytes) \<Rightarrow> bytes \<Rightarrow> bytes \<Rightarrow> ('e secretbox_error + bytes) option" where
  "secretbox_seal hw fill key plaintext =
     (case randombytes_buf fill (replicate NONCE_LEN 0) of
        Inl e \<Rightarrow> Some (Inl (Random e))
      | Inr nonce \<Rightarrow> do {
          cipher \<leftarrow> gcm_new Kalyna256_256 key;
          let buf = replicate (length plaintext) 0;
          aad \<leftarrow> secretbox_aad nonce (length plaintext);
          case gcm_encrypt hw Kalyna256_256 cipher nonce aad plaintext buf of
            (Inl _, _) \<Rightarrow> None
          | (Inr full_tag, buf) \<Rightarrow>
              Some (Inr ([secretbox_FORMAT_VERSION] @ nonce @ buf @ take secretbox_TAG_LEN full_tag))
        })"

definition secretbox_open :: "clmul \<Rightarrow> bytes \<Rightarrow> bytes \<Rightarrow> ('e secretbox_error + bytes) option" where
  "secretbox_open hw key sealed =
     (if length sealed < HEADER_LEN + secretbox_TAG_LEN then Some (Inl Truncated)
      else if sealed ! 0 \<noteq> secretbox_FORMAT_VERSION then Some (Inl UnsupportedVersion)
      else do {
        let nonce = slice 1 HEADER_LEN sealed;
        let ciphertext_len = length sealed - HEADER_LEN - secretbox_TAG_LEN;
        let ciphertext = slice HEADER_LEN (HEADER_LEN + ciphertext_len) sealed;
        let tag = drop (HEADER_LEN + ciphertext_len) sealed;
        cipher \<leftarrow> gcm_new Kalyna256_256 key;
        let buf = replicate ciphertext_len 0;
        aad \<leftarrow> secretbox_aad nonce ciphertext_len;
        case gcm_decrypt hw Kalyna256_256 cipher nonce aad ciphertext tag buf of
          (Inl gcm_error.TagMismatch, _) \<Rightarrow> Some (Inl TagMismatch)
        | (Inl _, _) \<Rightarrow> None
        | (Inr _, buf) \<Rightarrow> Some (Inr buf)
      })"

section \<open>The wire format\<close>

text \<open>What \<open>seal\<close> writes for a given nonce.\<close>

definition box_aad :: "bytes \<Rightarrow> nat \<Rightarrow> bytes" where
  "box_aad nonce n = [2] @ nonce @ to_le_bytes 8 (of_nat n :: u64)"

definition box_bytes :: "clmul \<Rightarrow> bytes \<Rightarrow> bytes \<Rightarrow> bytes \<Rightarrow> bytes" where
  "box_bytes hw key nonce pt =
     (let (ct, tag) = gcm16_enc hw key nonce (box_aad nonce (length pt)) pt in [2] @ nonce @ ct @ tag)"

lemma secretbox_aad_bytes: "length nonce = 32 \<Longrightarrow> n < 2 ^ 64 \<Longrightarrow> secretbox_aad nonce n = Some (box_aad nonce n)"
proof -
  assume n: "length nonce = 32" "n < 2 ^ 64"
  have "replicate 41 (0 :: u8) = 0 # replicate 40 0" by (simp add: numeral_eq_Suc)
  then show ?thesis using n by (simp add: secretbox_aad_def box_aad_def write_at_def Let_def)
qed

lemma box_aad_simps [simp]: "box_aad nonce n \<noteq> []" "length (box_aad nonce n) = length nonce + 9"
  by (simp_all add: box_aad_def)

lemma box_parts:
  assumes "49 \<le> length sealed" "sealed ! 0 = 2"
  defines "n \<equiv> length sealed - 49"
  obtains nonce ct tag where "sealed = [2] @ nonce @ ct @ tag" "length nonce = 32" "length tag = 16" "length ct = n"
    and "slice 1 33 sealed = nonce" "slice 33 (33 + n) sealed = ct" "drop (33 + n) sealed = tag"
proof
  have "sealed = sealed ! 0 # drop 1 sealed" using assms(1) by (cases sealed) auto
  also have "drop 1 sealed = take 32 (drop 1 sealed) @ take n (drop 33 sealed) @ drop (33 + n) sealed"
    using append_take_drop_id [of 32 "drop 1 sealed"] append_take_drop_id [of n "drop 33 sealed"]
    by (simp add: add.commute)
  finally show "sealed = [2] @ slice 1 33 sealed @ slice 33 (33 + n) sealed @ drop (33 + n) sealed"
    using assms(2) by (simp add: slice_def)
qed (use assms in \<open>simp_all add: n_def\<close>)

lemma secretbox_seal_bytes:
  assumes "length key = 32" "8 * length pt < 2 ^ 64"
    and "randombytes_buf fill (replicate NONCE_LEN 0) = Inr nonce" "length nonce = 32"
  shows "secretbox_seal hw fill key pt = Some (Inr (box_bytes hw key nonce pt))"
proof -
  obtain self where self: "gcm_new Kalyna256_256 key = Some self" by (rule gcm_new_256_total [OF assms(1)])
  obtain t where "gcm_encrypt hw Kalyna256_256 self nonce (box_aad nonce (length pt)) pt (replicate (length pt) 0) =
      (Inr t, fst (gcm16_enc hw key nonce (box_aad nonce (length pt)) pt))"
    "take 16 t = snd (gcm16_enc hw key nonce (box_aad nonce (length pt)) pt)"
    by (rule gcm_encrypt_gcm16 [OF self, of "box_aad nonce (length pt)" pt "replicate (length pt) 0" hw nonce])
      (use assms in simp_all)
  then show ?thesis
    using assms self by (simp add: secretbox_seal_def secretbox_aad_bytes box_bytes_def case_prod_beta)
qed

lemma secretbox_open_cases:
  assumes "length key = 32" "8 * length sealed < 2 ^ 64"
  shows "length sealed < 49 \<Longrightarrow> secretbox_open hw key sealed = Some (Inl Truncated)"
    and "49 \<le> length sealed \<Longrightarrow> sealed ! 0 \<noteq> 2 \<Longrightarrow> secretbox_open hw key sealed = Some (Inl UnsupportedVersion)"
    and "sealed = [2] @ nonce @ ct @ tag \<Longrightarrow> length nonce = 32 \<Longrightarrow> length tag = 16 \<Longrightarrow>
      secretbox_open hw key sealed =
        Some (case gcm16_dec hw key nonce (box_aad nonce (length ct)) (ct, tag) of
          Some pt \<Rightarrow> Inr pt | None \<Rightarrow> Inl TagMismatch)"
proof -
  assume s: "sealed = [2] @ nonce @ ct @ tag" "length nonce = 32" "length tag = 16"
  obtain self where self: "gcm_new Kalyna256_256 key = Some self" by (rule gcm_new_256_total [OF assms(1)])
  have d: "gcm_decrypt hw Kalyna256_256 self nonce (box_aad nonce (length ct)) ct tag (replicate (length ct) 0) =
      (case gcm16_dec hw key nonce (box_aad nonce (length ct)) (ct, tag) of
         Some pt \<Rightarrow> (Inr (), pt) | None \<Rightarrow> (Inl gcm_error.TagMismatch, replicate (length ct) 0))"
    by (rule gcm_decrypt_gcm16 [OF self]) (use assms s in simp_all)
  have len: "length sealed - 33 - 16 = length ct" "\<not> length sealed < 33 + 16" using s by simp_all
  have parts: "slice 1 33 sealed = nonce" "slice 33 (33 + length ct) sealed = ct"
    using s by (simp_all add: slice_def)
  have "length ([2] @ nonce @ ct) = 33 + length ct" using s by simp
  then have parts': "drop (33 + length ct) sealed = tag" unfolding s(1) by (metis append_assoc append_eq_conv_conj)
  have "secretbox_aad nonce (length ct) = Some (box_aad nonce (length ct))"
    using s assms by (intro secretbox_aad_bytes) simp_all
  then show "secretbox_open hw key sealed =
        Some (case gcm16_dec hw key nonce (box_aad nonce (length ct)) (ct, tag) of
          Some pt \<Rightarrow> Inr pt | None \<Rightarrow> Inl TagMismatch)"
    using len parts parts' self d s(1)
    by (simp add: secretbox_open_def Let_def split: option.splits del: length_slice)
qed (simp_all add: secretbox_open_def)

lemma box_bytes_length:
  assumes "\<forall>clm \<in> set_option hw. multiplies_carryless clm" "length key = 32" "length nonce = 32"
  shows "length (box_bytes hw key nonce pt) = length pt + 49"
  using assms by (simp add: box_bytes_def gcm16_enc_def length_gcm16_tag Let_def)

lemma secretbox_open_iff:
  assumes hw: "\<forall>clm \<in> set_option hw. multiplies_carryless clm" and key: "length key = 32"
    and len: "8 * length sealed < 2 ^ 64"
  shows "secretbox_open hw key sealed = Some (Inr pt) \<longleftrightarrow>
    (\<exists>nonce. length nonce = 32 \<and> sealed = box_bytes hw key nonce pt)"
proof
  assume ok: "secretbox_open hw key sealed = Some (Inr pt)"
  have "49 \<le> length sealed" "sealed ! 0 = 2"
    using ok by (cases "length sealed < 49"; cases "sealed ! 0 = 2"; simp add: secretbox_open_def)+
  then obtain nonce ct tag where s: "sealed = [2] @ nonce @ ct @ tag" "length nonce = 32" "length tag = 16"
    using box_parts [of sealed] by metis
  have "gcm16_dec hw key nonce (box_aad nonce (length ct)) (ct, tag) = Some pt"
    using ok unfolding secretbox_open_cases(3) [OF key len s] by (simp split: option.splits)
  then have "gcm16_enc hw key nonce (box_aad nonce (length ct)) pt = (ct, tag)" by (simp add: gcm16.dec_iff)
  moreover from this have "length pt = length ct" by (metis fst_conv length_fst_gcm16_enc)
  ultimately show "\<exists>nonce. length nonce = 32 \<and> sealed = box_bytes hw key nonce pt"
    using s by (intro exI [of _ nonce]) (simp add: box_bytes_def)
next
  assume "\<exists>nonce. length nonce = 32 \<and> sealed = box_bytes hw key nonce pt"
  then obtain nonce where n: "length nonce = 32" "sealed = box_bytes hw key nonce pt" by blast
  obtain ct tag where e: "gcm16_enc hw key nonce (box_aad nonce (length pt)) pt = (ct, tag)" by fastforce
  have s: "length nonce = 32" "sealed = [2] @ nonce @ ct @ tag" using n by (simp_all add: box_bytes_def e)
  have c: "length ct = length pt" using e by (metis fst_conv length_fst_gcm16_enc)
  have t: "length tag = 16"
    using arg_cong [OF e, of snd] length_gcm16_tag [OF hw key] by (auto simp: gcm16_enc_def Let_def)
  show "secretbox_open hw key sealed = Some (Inr pt)"
    unfolding secretbox_open_cases(3) [OF key len s(2,1) t] using c by (simp flip: e)
qed

lemma secretbox_seal_too_long:
  "\<not> 8 * length pt < 2 ^ 64 \<Longrightarrow> secretbox_seal hw (\<lambda>_. Inr nonce) key pt = None"
  by (auto simp: secretbox_seal_def randombytes_buf_def gcm_encrypt_def checked_bit_len_def Let_def mult.commute
      split: option.splits Option.bind_splits)

lemma secretbox_open_genuine:
  assumes "\<forall>clm \<in> set_option hw. multiplies_carryless clm" "length key = 32" "8 * length sealed < 2 ^ 64"
  shows "secretbox_open hw key sealed = Some (Inr pt :: 'e secretbox_error + bytes) \<longleftrightarrow>
    (\<exists>nonce. length nonce = 32 \<and> secretbox_seal hw (\<lambda>_. Inr nonce :: 'e + bytes) key pt = Some (Inr sealed))"
proof -
  have "secretbox_seal hw (\<lambda>_. Inr nonce :: 'e + bytes) key pt = Some (Inr sealed) \<longleftrightarrow> sealed = box_bytes hw key nonce pt"
    if n: "length nonce = 32" for nonce
  proof (cases "8 * length pt < 2 ^ 64")
    case True
    have "secretbox_seal hw (\<lambda>_. Inr nonce :: 'e + bytes) key pt = Some (Inr (box_bytes hw key nonce pt))"
      using assms True n by (intro secretbox_seal_bytes) (simp_all add: randombytes_buf_def)
    then show ?thesis by auto
  next
    case False
    have "sealed \<noteq> box_bytes hw key nonce pt" using False box_bytes_length [OF assms(1,2) n, of pt] assms(3) by auto
    then show ?thesis by (simp add: secretbox_seal_too_long [OF False])
  qed
  then show ?thesis unfolding secretbox_open_iff [OF assms] by blast
qed

section \<open>Properties\<close>

text \<open>Sealing fails only when the operating system's generator does. Otherwise the sealed message
  is 49 bytes longer than the plaintext and opens, under the same key, to it.\<close>

theorem secretbox_roundtrip:
  assumes "\<forall>clm \<in> set_option hw. multiplies_carryless clm" "fills fill" "length key = 32" "8 * (length pt + 49) < 2 ^ 64"
  shows "(\<exists>e. fill 32 = Inl e \<and> secretbox_seal hw fill key pt = Some (Inl (Random (RandomError e)))) \<or>
    (\<exists>sealed. secretbox_seal hw fill key pt = Some (Inr sealed) \<and> length sealed = length pt + 49 \<and>
      secretbox_open hw key sealed = Some (Inr pt))"
proof (cases "fill 32")
  case (Inl e)
  then show ?thesis by (simp add: secretbox_seal_def randombytes_buf_def)
next
  case (Inr nonce)
  then have n: "length nonce = 32" using assms(2) by (auto simp: fills_def)
  have "secretbox_seal hw fill key pt = Some (Inr (box_bytes hw key nonce pt))"
    using assms Inr n by (intro secretbox_seal_bytes) (simp_all add: randombytes_buf_def)
  moreover have "secretbox_open hw key (box_bytes hw key nonce pt) = Some (Inr pt)"
    using assms n by (subst secretbox_open_iff) (auto simp: box_bytes_length)
  ultimately show ?thesis using assms n by (simp add: box_bytes_length)
qed

theorem secretbox_roundtrip_witness:
  "\<exists>sealed. secretbox_seal None (\<lambda>n. Inr (replicate n 9) :: unit + bytes) (replicate 32 1) [1, 2, 3] = Some (Inr sealed) \<and>
    length sealed = 52 \<and> secretbox_open None (replicate 32 1) sealed = Some (Inr [1, 2, 3] :: unit secretbox_error + bytes)"
  using secretbox_roundtrip [of None "\<lambda>n. Inr (replicate n 9) :: unit + bytes" "replicate 32 1" "[1, 2, 3]"]
  by (auto simp: fills_def)

text \<open>C28. Opening never panics, and it accepts a blob with a message exactly when sealing that message
  under some nonce writes that blob: any other byte string of at least 49 bytes and the right version
  is a tag mismatch, a shorter one truncated, another first byte an unsupported version.\<close>

theorem secretbox_open_exact:
  assumes "\<forall>clm \<in> set_option hw. multiplies_carryless clm" "length key = 32" "8 * length sealed < 2 ^ 64"
  shows "(secretbox_open hw key sealed = Some (Inr pt :: 'e secretbox_error + bytes) \<longleftrightarrow>
      (\<exists>nonce. length nonce = 32 \<and> secretbox_seal hw (\<lambda>_. Inr nonce :: 'e + bytes) key pt = Some (Inr sealed))) \<and>
    (secretbox_open hw key sealed =
      (if length sealed < 49 then Some (Inl Truncated)
       else if sealed ! 0 \<noteq> 2 then Some (Inl UnsupportedVersion)
       else if \<exists>nonce m. length nonce = 32 \<and> secretbox_seal hw (\<lambda>_. Inr nonce :: 'e + bytes) key m = Some (Inr sealed)
       then Some (Inr (gcm16_stream key (slice 1 33 sealed) (slice 33 (length sealed - 16) sealed)))
       else Some (Inl (TagMismatch :: 'e secretbox_error))))"
proof (intro conjI secretbox_open_genuine assms)
  show "secretbox_open hw key sealed =
      (if length sealed < 49 then Some (Inl Truncated)
       else if sealed ! 0 \<noteq> 2 then Some (Inl UnsupportedVersion)
       else if \<exists>nonce m. length nonce = 32 \<and> secretbox_seal hw (\<lambda>_. Inr nonce :: 'e + bytes) key m = Some (Inr sealed)
       then Some (Inr (gcm16_stream key (slice 1 33 sealed) (slice 33 (length sealed - 16) sealed)))
       else Some (Inl (TagMismatch :: 'e secretbox_error)))"
  proof (cases "49 \<le> length sealed \<and> sealed ! 0 = 2")
    case True
    then obtain nonce ct tag where s: "sealed = [2] @ nonce @ ct @ tag" "length nonce = 32" "length tag = 16"
      "slice 1 33 sealed = nonce" "slice 33 (33 + (length sealed - 49)) sealed = ct"
      using box_parts [of sealed] by metis
    have "33 + (length sealed - 49) = length sealed - 16" using True by simp
    then have sl: "slice 33 (length sealed - 16) sealed = ct" using s(5) by simp
    have o: "secretbox_open hw key sealed =
        Some (case gcm16_dec hw key nonce (box_aad nonce (length ct)) (ct, tag) of
          Some pt \<Rightarrow> Inr pt | None \<Rightarrow> Inl (TagMismatch :: 'e secretbox_error))"
      by (rule secretbox_open_cases(3) [OF assms(2,3) s(1-3)])
    show ?thesis
    proof (cases "gcm16_dec hw key nonce (box_aad nonce (length ct)) (ct, tag)")
      case None
      then have "secretbox_open hw key sealed \<noteq> Some (Inr m :: 'e secretbox_error + bytes)" for m using o by simp
      then show ?thesis using True o None secretbox_open_genuine [OF assms, where 'e = 'e] by auto
    next
      case (Some m)
      then have m: "m = gcm16_stream key nonce ct" by (simp add: gcm16_dec_def split: if_splits)
      have "secretbox_open hw key sealed = Some (Inr m :: 'e secretbox_error + bytes)" using o Some by simp
      moreover from this have "\<exists>nonce m. length nonce = 32 \<and> secretbox_seal hw (\<lambda>_. Inr nonce :: 'e + bytes) key m = Some (Inr sealed)"
        using secretbox_open_genuine [OF assms, of m, where 'e = 'e] by blast
      ultimately show ?thesis using True s(4) sl m by simp
    qed
  qed (auto simp: secretbox_open_def)
qed

theorem secretbox_open_exact_witness:
  "(secretbox_open None (replicate 32 1) (replicate 52 2) = Some (Inr [] :: unit secretbox_error + bytes) \<longleftrightarrow>
      (\<exists>nonce. length nonce = 32 \<and>
        secretbox_seal None (\<lambda>_. Inr nonce :: unit + bytes) (replicate 32 1) [] = Some (Inr (replicate 52 2)))) \<and>
   secretbox_open None (replicate 32 1) (replicate 52 7) = Some (Inl UnsupportedVersion :: unit secretbox_error + bytes)"
proof (intro conjI)
  show "secretbox_open None (replicate 32 1) (replicate 52 2) = Some (Inr [] :: unit secretbox_error + bytes) \<longleftrightarrow>
      (\<exists>nonce. length nonce = 32 \<and>
        secretbox_seal None (\<lambda>_. Inr nonce :: unit + bytes) (replicate 32 1) [] = Some (Inr (replicate 52 2)))"
    by (rule secretbox_open_exact [THEN conjunct1]) simp_all
  show "secretbox_open None (replicate 32 1) (replicate 52 7) = Some (Inl UnsupportedVersion :: unit secretbox_error + bytes)"
    using secretbox_open_exact [of None "replicate 32 1" "replicate 52 7" "[]", where 'e = unit] by simp
qed

end
