(* ===== verification/Crypto_Secretstream.thy ===== *)
theory Crypto_Secretstream
  imports Gcm_Aead Kupyna_Kmac
begin

text \<open>
  \<open>crates/dstu-core/src/crypto_secretstream.rs\<close>: the chunked authenticated stream. A sender and a
  receiver keep a subkey, a 64-bit chunk counter that is also the initialisation vector, and a
  finalisation flag; a chunk's tag can rekey or close the stream. An \<open>unreachable!\<close> is the value
  \<open>None\<close>; operations that write to a caller's buffer return its contents beside the result and the
  state.
\<close>

section \<open>Definitions\<close>

definition ascii :: "string \<Rightarrow> bytes" where
  "ascii s = map of_char s"

definition TAG_LEN :: nat where "TAG_LEN = 16"
definition REKEY_CONTEXT :: bytes where "REKEY_CONTEXT = ascii ''DSTU-secretstream-rekey''"
definition FORMAT_VERSION :: u8 where "FORMAT_VERSION = 2"
definition INITIAL_SUBKEY_LABEL :: bytes where "INITIAL_SUBKEY_LABEL = ascii ''DSTU-secretstream-v2''"

definition initial_subkey :: "bytes \<Rightarrow> bytes \<Rightarrow> bytes option" where
  "initial_subkey key header =
     (let message = replicate (length INITIAL_SUBKEY_LABEL + 32) 0;
          message = write_at message 0 INITIAL_SUBKEY_LABEL;
          message = write_at message (length INITIAL_SUBKEY_LABEL) header in
      case kmac_mac Kupyna256 key message of Some (Inr subkey) \<Rightarrow> Some subkey | _ \<Rightarrow> None)"

datatype stream_tag = Message | Push | Rekey | Final

fun to_byte :: "stream_tag \<Rightarrow> u8" where
  "to_byte Message = 0x00"
| "to_byte Push = 0x01"
| "to_byte Rekey = 0x02"
| "to_byte Final = 0x03"

definition from_byte :: "u8 \<Rightarrow> stream_tag option" where
  "from_byte b = (if b = 0x00 then Some Message else if b = 0x01 then Some Push
     else if b = 0x02 then Some Rekey else if b = 0x03 then Some Final else None)"

datatype 'e secretstream_error =
  InvalidLength | TagMismatch | UnknownTag | StreamFinalized | CounterExhausted | Random "'e random_error"

definition rekey :: "bytes \<Rightarrow> bytes option" where
  "rekey subkey = (case kmac_mac Kupyna256 subkey REKEY_CONTEXT of Some (Inr new_subkey) \<Rightarrow> Some new_subkey | _ \<Rightarrow> None)"

definition chunk_iv :: "u64 \<Rightarrow> bytes" where
  "chunk_iv counter = write_at (replicate 32 0) 0 (to_le_bytes 8 counter)"

definition chunk_aad :: "u64 \<Rightarrow> u8 \<Rightarrow> nat \<Rightarrow> bytes option" where
  "chunk_aad counter tag_byte ciphertext_len =
     (if ciphertext_len < 2 ^ 64 then
        let len = of_nat ciphertext_len :: u64;
            aad = replicate 17 0;
            aad = write_at aad 0 (to_le_bytes 8 counter);
            aad = aad[8 := tag_byte]
        in Some (write_at aad 9 (to_le_bytes 8 len))
      else None)"

definition checked_add :: "u64 \<Rightarrow> u64 \<Rightarrow> u64 option" where
  "checked_add a b = (if unat a + unat b < 2 ^ 64 then Some (a + b) else None)"

record push_state =
  push_subkey :: bytes
  push_counter :: u64
  push_finalized :: bool

definition push_init ::
  "(nat \<Rightarrow> 'e + bytes) \<Rightarrow> bytes \<Rightarrow> ('e secretstream_error + push_state \<times> bytes) option" where
  "push_init fill key =
     (case randombytes_buf fill (replicate 32 0) of
        Inl e \<Rightarrow> Some (Inl (Random e))
      | Inr header \<Rightarrow> do {
          subkey \<leftarrow> initial_subkey key header;
          Some (Inr (\<lparr>push_subkey = subkey, push_counter = 0, push_finalized = False\<rparr>, header))
        })"

definition push ::
  "clmul \<Rightarrow> push_state \<Rightarrow> stream_tag \<Rightarrow> bytes \<Rightarrow> bytes \<Rightarrow>
   (('e secretstream_error + bytes) \<times> push_state \<times> bytes) option" where
  "push hw self tag plaintext ciphertext_out =
     (if push_finalized self then Some (Inl StreamFinalized, self, ciphertext_out)
      else if length ciphertext_out \<noteq> length plaintext then Some (Inl InvalidLength, self, ciphertext_out)
      else case checked_add (push_counter self) 1 of
        None \<Rightarrow> Some (Inl CounterExhausted, self, ciphertext_out)
      | Some next_counter \<Rightarrow> do {
          cipher \<leftarrow> gcm_new Kalyna256_256 (push_subkey self);
          let iv = chunk_iv (push_counter self);
          aad \<leftarrow> chunk_aad (push_counter self) (to_byte tag) (length plaintext);
          (full_tag, ciphertext_out) \<leftarrow>
            (case gcm_encrypt hw Kalyna256_256 cipher iv aad plaintext ciphertext_out of
               (Inr full_tag, ct) \<Rightarrow> Some (full_tag, ct) | (Inl _, _) \<Rightarrow> None);
          let self = self\<lparr>push_counter := next_counter\<rparr>;
          self \<leftarrow> (case tag of
              Rekey \<Rightarrow> map_option (\<lambda>k. self\<lparr>push_subkey := k\<rparr>) (rekey (push_subkey self))
            | Final \<Rightarrow> Some (self\<lparr>push_finalized := True\<rparr>)
            | _ \<Rightarrow> Some self);
          Some (Inr (take TAG_LEN full_tag), self, ciphertext_out)
        })"

record pull_state =
  pull_subkey :: bytes
  pull_counter :: u64
  pull_finalized :: bool

definition pull_init :: "bytes \<Rightarrow> bytes \<Rightarrow> pull_state option" where
  "pull_init key header = do {
     subkey \<leftarrow> initial_subkey key header;
     Some \<lparr>pull_subkey = subkey, pull_counter = 0, pull_finalized = False\<rparr>
   }"

definition pull ::
  "clmul \<Rightarrow> pull_state \<Rightarrow> u8 \<Rightarrow> bytes \<Rightarrow> bytes \<Rightarrow> bytes \<Rightarrow>
   (('e secretstream_error + stream_tag) \<times> pull_state \<times> bytes) option" where
  "pull hw self tag_byte ciphertext auth_tag plaintext_out =
     (if pull_finalized self then Some (Inl StreamFinalized, self, plaintext_out)
      else case from_byte tag_byte of
        None \<Rightarrow> Some (Inl UnknownTag, self, plaintext_out)
      | Some tag \<Rightarrow>
          if length plaintext_out \<noteq> length ciphertext \<or> length auth_tag \<noteq> TAG_LEN
          then Some (Inl InvalidLength, self, plaintext_out)
          else case checked_add (pull_counter self) 1 of
            None \<Rightarrow> Some (Inl CounterExhausted, self, plaintext_out)
          | Some next_counter \<Rightarrow> do {
              cipher \<leftarrow> gcm_new Kalyna256_256 (pull_subkey self);
              let iv = chunk_iv (pull_counter self);
              aad \<leftarrow> chunk_aad (pull_counter self) tag_byte (length ciphertext);
              case gcm_decrypt hw Kalyna256_256 cipher iv aad ciphertext auth_tag plaintext_out of
                (Inl gcm_error.TagMismatch, plaintext_out) \<Rightarrow> Some (Inl TagMismatch, self, plaintext_out)
              | (Inl _, plaintext_out) \<Rightarrow> Some (Inl InvalidLength, self, plaintext_out)
              | (Inr _, plaintext_out) \<Rightarrow> do {
                  let self = self\<lparr>pull_counter := next_counter\<rparr>;
                  self \<leftarrow> (case tag of
                      Rekey \<Rightarrow> map_option (\<lambda>k. self\<lparr>pull_subkey := k\<rparr>) (rekey (pull_subkey self))
                    | Final \<Rightarrow> Some (self\<lparr>pull_finalized := True\<rparr>)
                    | _ \<Rightarrow> Some self);
                  Some (Inr tag, self, plaintext_out)
                }
            })"

section \<open>Keys, vectors and associated data\<close>

lemma length_ascii [simp]: "length (ascii s) = length s"
  by (simp add: ascii_def)

lemma initial_subkey_total:
  assumes "length key = 32" "length header = 32"
  shows "initial_subkey key header =
    Some (kupyna_hash Kupyna256 (kmac_input Kupyna256 key (INITIAL_SUBKEY_LABEL @ header)))"
proof -
  have "write_at (write_at (replicate (length INITIAL_SUBKEY_LABEL + 32) 0) 0 INITIAL_SUBKEY_LABEL)
      (length INITIAL_SUBKEY_LABEL) header = INITIAL_SUBKEY_LABEL @ header"
    using assms by (simp add: write_at_def)
  then show ?thesis using assms by (simp add: initial_subkey_def kmac_mac_hash Let_def)
qed

definition next_subkey :: "stream_tag \<Rightarrow> bytes \<Rightarrow> bytes" where
  "next_subkey tag subkey =
     (if tag = Rekey then kupyna_hash Kupyna256 (kmac_input Kupyna256 subkey REKEY_CONTEXT) else subkey)"

lemma rekey_total: "length subkey = 32 \<Longrightarrow> rekey subkey = Some (next_subkey Rekey subkey)"
  by (simp add: rekey_def next_subkey_def kmac_mac_hash)

lemma length_next_subkey [simp]: "length subkey = 32 \<Longrightarrow> length (next_subkey tag subkey) = 32"
  by (simp add: next_subkey_def)

lemma chunk_iv_inject: "chunk_iv a = chunk_iv b \<longleftrightarrow> a = b"
  by (simp add: chunk_iv_def write_at_def to_le_bytes_inject)

definition stream_aad :: "u64 \<Rightarrow> u8 \<Rightarrow> nat \<Rightarrow> bytes" where
  "stream_aad counter tag_byte n = to_le_bytes 8 counter @ [tag_byte] @ to_le_bytes 8 (of_nat n :: u64)"

lemma stream_aad_simps [simp]: "stream_aad c b n \<noteq> []" "length (stream_aad c b n) = 17"
  by (simp_all add: stream_aad_def)

lemma stream_aad_inject:
  "m < 2 ^ 64 \<Longrightarrow> n < 2 ^ 64 \<Longrightarrow> stream_aad c b m = stream_aad c' b' n \<longleftrightarrow> c = c' \<and> b = b' \<and> m = n"
  by (auto simp: stream_aad_def to_le_bytes_inject word_of_nat_eq_iff take_bit_nat_eq_self)

lemma chunk_aad_bytes: "n < 2 ^ 64 \<Longrightarrow> chunk_aad c b n = Some (stream_aad c b n)"
proof -
  assume n: "n < 2 ^ 64"
  have z: "replicate 17 (0 :: u8) = replicate 8 0 @ [0] @ replicate 8 0"
    by (simp add: replicate_add [symmetric] numeral_eq_Suc)
  have "(to_le_bytes 8 c @ [0] @ replicate 8 0)[8 := b] = to_le_bytes 8 c @ [b] @ replicate 8 (0 :: u8)"
    by (simp add: list_update_append)
  then show ?thesis using n by (simp add: chunk_aad_def stream_aad_def z write_at_def Let_def)
qed

lemma from_to_byte [simp]: "from_byte (to_byte t) = Some t"
  by (cases t) (simp_all add: from_byte_def)

lemma from_byte_iff: "from_byte b = Some t \<longleftrightarrow> b = to_byte t"
  by (cases t) (auto simp: from_byte_def)

lemma to_byte_inject [simp]: "to_byte s = to_byte t \<longleftrightarrow> s = t"
  by (metis from_to_byte option.inject)

lemma checked_add_1: "checked_add c 1 = (if unat c + 1 < 2 ^ 64 then Some (c + 1) else None)"
  by (simp add: checked_add_def)

section \<open>Outcomes of \<open>push\<close> and \<open>pull\<close>\<close>

definition push_next :: "stream_tag \<Rightarrow> push_state \<Rightarrow> push_state" where
  "push_next tag s = \<lparr>push_subkey = next_subkey tag (push_subkey s), push_counter = push_counter s + 1,
     push_finalized = (tag = Final)\<rparr>"

definition pull_next :: "stream_tag \<Rightarrow> pull_state \<Rightarrow> pull_state" where
  "pull_next tag s = \<lparr>pull_subkey = next_subkey tag (pull_subkey s), pull_counter = pull_counter s + 1,
     pull_finalized = (tag = Final)\<rparr>"

definition sealed_chunk :: "clmul \<Rightarrow> bytes \<Rightarrow> u64 \<Rightarrow> stream_tag \<Rightarrow> bytes \<Rightarrow> bytes \<times> bytes" where
  "sealed_chunk hw subkey counter tag pt =
     gcm16_enc hw subkey (chunk_iv counter) (stream_aad counter (to_byte tag) (length pt)) pt"

definition opened_chunk :: "clmul \<Rightarrow> bytes \<Rightarrow> u64 \<Rightarrow> stream_tag \<Rightarrow> bytes \<times> bytes \<Rightarrow> bytes option" where
  "opened_chunk hw subkey counter tag c =
     gcm16_dec hw subkey (chunk_iv counter) (stream_aad counter (to_byte tag) (length (fst c))) c"

lemma opened_chunk_iff: "opened_chunk hw k i t c = Some pt \<longleftrightarrow> sealed_chunk hw k i t pt = c"
  unfolding opened_chunk_def sealed_chunk_def gcm16.dec_iff
  by (metis length_fst_gcm16_enc)

lemma length_opened_chunk:
  assumes "opened_chunk hw k i tag (ct, t) = Some pt"
  shows "length pt = length ct"
proof -
  have "length (fst (sealed_chunk hw k i tag pt)) = length ct" using assms by (simp add: opened_chunk_iff)
  then show ?thesis by (simp add: sealed_chunk_def)
qed

lemma length_sealed_chunk:
  assumes "\<forall>clm \<in> set_option hw. multiplies_carryless clm" "length k = 32"
  shows "length (fst (sealed_chunk hw k i t pt)) = length pt" "length (snd (sealed_chunk hw k i t pt)) = 16"
  using length_gcm16_tag [OF assms] by (simp_all add: sealed_chunk_def gcm16_enc_def Let_def)

text \<open>What the mode's own \<open>encrypt\<close> returns for a plaintext under a key and an initialisation vector, the tag cut
  to sixteen bytes.\<close>

definition gcm_sealed :: "clmul \<Rightarrow> bytes \<Rightarrow> bytes \<Rightarrow> bytes \<Rightarrow> bytes \<Rightarrow> bytes \<Rightarrow> bytes \<Rightarrow> bool" where
  "gcm_sealed hw key iv aad pt ct auth_tag \<longleftrightarrow> (\<exists>cipher full_tag. gcm_new Kalyna256_256 key = Some cipher \<and>
     gcm_encrypt hw Kalyna256_256 cipher iv aad pt (replicate (length pt) 0) = (Inr full_tag, ct) \<and> auth_tag = take 16 full_tag)"

lemma gcm_sealed_chunk:
  assumes "length k = 32" "8 * length pt < 2 ^ 64"
  shows "gcm_sealed hw k (chunk_iv i) (stream_aad i (to_byte tag) (length pt)) pt ct t \<longleftrightarrow> sealed_chunk hw k i tag pt = (ct, t)"
proof -
  obtain self where self: "gcm_new Kalyna256_256 k = Some self" by (rule gcm_new_256_total [OF assms(1)])
  let ?aad = "stream_aad i (to_byte tag) (length pt)"
  obtain full where "gcm_encrypt hw Kalyna256_256 self (chunk_iv i) ?aad pt (replicate (length pt) 0) = (Inr full, fst (sealed_chunk hw k i tag pt))"
    "take 16 full = snd (sealed_chunk hw k i tag pt)"
    unfolding sealed_chunk_def by (rule gcm_encrypt_gcm16 [OF self, of ?aad pt "replicate (length pt) 0" hw "chunk_iv i"]) (use assms(2) in simp_all)
  then show ?thesis using self by (auto simp: gcm_sealed_def prod_eq_iff)
qed

lemma gcm_sealed_short: "gcm_sealed hw k iv aad pt ct t \<Longrightarrow> 8 * length pt < 2 ^ 64"
  by (auto simp: gcm_sealed_def gcm_encrypt_def checked_bit_len_def mult.commute split: if_splits option.splits)

lemma push_outcomes:
  assumes "length (push_subkey s) = 32"
  shows "push hw s tag pt out =
    (if push_finalized s then Some (Inl StreamFinalized, s, out)
     else if length out \<noteq> length pt then Some (Inl InvalidLength, s, out)
     else if \<not> unat (push_counter s) + 1 < 2 ^ 64 then Some (Inl CounterExhausted, s, out)
     else if \<not> 8 * length pt < 2 ^ 64 then None
     else case sealed_chunk hw (push_subkey s) (push_counter s) tag pt of
       (ct, auth_tag) \<Rightarrow> Some (Inr auth_tag, push_next tag s, ct))"
proof (cases "push_finalized s \<or> length out \<noteq> length pt \<or> \<not> unat (push_counter s) + 1 < 2 ^ 64")
  case True
  then show ?thesis by (auto simp: push_def checked_add_1)
next
  case False
  obtain self where self: "gcm_new Kalyna256_256 (push_subkey s) = Some self" by (rule gcm_new_256_total [OF assms])
  show ?thesis
  proof (cases "8 * length pt < 2 ^ 64")
    case long: False
    then show ?thesis using False
      by (auto simp: push_def checked_add_1 gcm_encrypt_def checked_bit_len_def Let_def mult.commute
        split: option.splits Option.bind_splits)
  next
    case True
    let ?aad = "stream_aad (push_counter s) (to_byte tag) (length pt)"
    obtain t where "gcm_encrypt hw Kalyna256_256 self (chunk_iv (push_counter s)) ?aad pt out =
        (Inr t, fst (sealed_chunk hw (push_subkey s) (push_counter s) tag pt))"
      "take 16 t = snd (sealed_chunk hw (push_subkey s) (push_counter s) tag pt)"
      unfolding sealed_chunk_def
      by (rule gcm_encrypt_gcm16 [OF self, of ?aad pt out hw "chunk_iv (push_counter s)"]) (use True False in simp_all)
    then show ?thesis using True False self assms
      by (cases tag) (simp_all add: push_def checked_add_1 chunk_aad_bytes rekey_total push_next_def TAG_LEN_def
        case_prod_beta next_subkey_def)
  qed
qed

lemma pull_outcomes:
  assumes k: "length (pull_subkey s) = 32" and len: "length ct < 2 ^ 64"
  shows "pull hw s tag_byte ct auth_tag out =
    Some (if pull_finalized s then (Inl StreamFinalized, s, out)
     else case from_byte tag_byte of None \<Rightarrow> (Inl UnknownTag, s, out) | Some tag \<Rightarrow>
       if length out \<noteq> length ct \<or> length auth_tag \<noteq> 16 then (Inl InvalidLength, s, out)
       else if \<not> unat (pull_counter s) + 1 < 2 ^ 64 then (Inl CounterExhausted, s, out)
       else if \<not> 8 * length ct < 2 ^ 64 then (Inl InvalidLength, s, out)
       else case opened_chunk hw (pull_subkey s) (pull_counter s) tag (ct, auth_tag) of
         None \<Rightarrow> (Inl TagMismatch, s, replicate (length ct) 0)
       | Some pt \<Rightarrow> (Inr tag, pull_next tag s, pt))"
proof (cases "pull_finalized s \<or> from_byte tag_byte = None \<or> length out \<noteq> length ct \<or> length auth_tag \<noteq> 16 \<or>
    \<not> unat (pull_counter s) + 1 < 2 ^ 64")
  case True
  then show ?thesis by (auto simp: pull_def checked_add_1 TAG_LEN_def split: option.splits)
next
  case False
  then obtain tag where tag: "from_byte tag_byte = Some tag" by auto
  then have b: "tag_byte = to_byte tag" by (simp add: from_byte_iff)
  obtain self where self: "gcm_new Kalyna256_256 (pull_subkey s) = Some self" by (rule gcm_new_256_total [OF k])
  show ?thesis
  proof (cases "8 * length ct < 2 ^ 64")
    case long: False
    then have "checked_bit_len (length ct) = None" by (simp add: checked_bit_len_def mult.commute)
    then have "gcm_decrypt hw Kalyna256_256 self iv aad ct auth_tag out = (Inl gcm_error.InvalidLength, out)"
      if "aad \<noteq> []" for iv aad
      using that by (auto simp: gcm_decrypt_def split: option.splits)
    with False long tag self len show ?thesis
      by (simp add: pull_def checked_add_1 TAG_LEN_def chunk_aad_bytes)
  next
    case True
    have "gcm_decrypt hw Kalyna256_256 self (chunk_iv (pull_counter s)) (stream_aad (pull_counter s) tag_byte (length ct)) ct auth_tag out =
      (case opened_chunk hw (pull_subkey s) (pull_counter s) tag (ct, auth_tag) of
         Some pt \<Rightarrow> (Inr (), pt) | None \<Rightarrow> (Inl gcm_error.TagMismatch, replicate (length ct) 0))"
      unfolding opened_chunk_def b fst_conv by (rule gcm_decrypt_gcm16 [OF self]) (use True False in simp_all)
    with True False tag self len k show ?thesis
      by (cases tag) (simp_all add: pull_def checked_add_1 TAG_LEN_def chunk_aad_bytes rekey_total pull_next_def
        next_subkey_def split: option.split)
  qed
qed

section \<open>Sender and receiver in lock step\<close>

text \<open>A stateful step applied to a sequence of inputs, stopping at the first refusal.\<close>

fun run_all :: "('s \<Rightarrow> 'x \<Rightarrow> ('y \<times> 's) option) \<Rightarrow> 's \<Rightarrow> 'x list \<Rightarrow> ('y list \<times> 's) option" where
  "run_all step s [] = Some ([], s)"
| "run_all step s (x # xs) = do {
     (y, s) \<leftarrow> step s x;
     (ys, s) \<leftarrow> run_all step s xs;
     Some (y # ys, s)
   }"

locale lockstep_channel =
  fixes send :: "'p \<Rightarrow> 'm \<Rightarrow> ('c \<times> 'p) option"
    and recv :: "'q \<Rightarrow> 'c \<Rightarrow> ('m \<times> 'q) option"
    and sync :: "'p \<Rightarrow> 'q \<Rightarrow> bool"
  assumes recv_of_send: "sync p q \<Longrightarrow> send p m = Some (c, p') \<Longrightarrow> \<exists>q'. recv q c = Some (m, q') \<and> sync p' q'"
    and send_of_recv: "sync p q \<Longrightarrow> recv q c = Some (m, q') \<Longrightarrow> \<exists>p'. send p m = Some (c, p') \<and> sync p' q'"
begin

lemma run_recv_of_send:
  "sync p q \<Longrightarrow> run_all send p ms = Some (cs, p') \<Longrightarrow> \<exists>q'. run_all recv q cs = Some (ms, q') \<and> sync p' q'"
proof (induction ms arbitrary: p q cs)
  case (Cons m ms)
  then obtain c p1 cs1 where c: "send p m = Some (c, p1)" "run_all send p1 ms = Some (cs1, p')" "cs = c # cs1"
    by (auto split: Option.bind_splits)
  obtain q1 where "recv q c = Some (m, q1)" "sync p1 q1" using recv_of_send [OF Cons.prems(1) c(1)] by blast
  with Cons.IH [OF _ c(2)] c(3) show ?case by fastforce
qed auto

lemma run_send_of_recv:
  "sync p q \<Longrightarrow> run_all recv q cs = Some (ms, q') \<Longrightarrow> \<exists>p'. run_all send p ms = Some (cs, p') \<and> sync p' q'"
proof (induction cs arbitrary: p q ms)
  case (Cons c cs)
  then obtain m q1 ms1 where m: "recv q c = Some (m, q1)" "run_all recv q1 cs = Some (ms1, q')" "ms = m # ms1"
    by (auto split: Option.bind_splits)
  obtain p1 where "send p m = Some (c, p1)" "sync p1 q1" using send_of_recv [OF Cons.prems(1) m(1)] by blast
  with Cons.IH [OF _ m(2)] m(3) show ?case by fastforce
qed auto

lemma run_recv_iff:
  "sync p q \<Longrightarrow> (\<exists>q'. run_all recv q cs = Some (ms, q')) \<longleftrightarrow> (\<exists>p'. run_all send p ms = Some (cs, p'))"
  using run_recv_of_send run_send_of_recv by blast

end

text \<open>The two ends over a wire that carries the tag byte, the ciphertext and the authentication tag
  of each chunk, with output buffers of the right length.\<close>

definition stream_send :: "clmul \<Rightarrow> push_state \<Rightarrow> stream_tag \<times> bytes \<Rightarrow> ((u8 \<times> bytes \<times> bytes) \<times> push_state) option" where
  "stream_send hw p m =
     (case push hw p (fst m) (snd m) (replicate (length (snd m)) 0) :: ((unit secretstream_error + bytes) \<times> push_state \<times> bytes) option of
        Some (Inr auth_tag, p', ct) \<Rightarrow> Some ((to_byte (fst m), ct, auth_tag), p') | _ \<Rightarrow> None)"

definition stream_recv :: "clmul \<Rightarrow> pull_state \<Rightarrow> u8 \<times> bytes \<times> bytes \<Rightarrow> ((stream_tag \<times> bytes) \<times> pull_state) option" where
  "stream_recv hw q c =
     (case c of (tag_byte, ct, auth_tag) \<Rightarrow>
       case pull hw q tag_byte ct auth_tag (replicate (length ct) 0) :: ((unit secretstream_error + stream_tag) \<times> pull_state \<times> bytes) option of
         Some (Inr tag, q', pt) \<Rightarrow> Some ((tag, pt), q') | _ \<Rightarrow> None)"

definition in_step :: "clmul \<Rightarrow> push_state \<Rightarrow> pull_state \<Rightarrow> bool" where
  "in_step hw p q \<longleftrightarrow> (\<forall>clm \<in> set_option hw. multiplies_carryless clm) \<and> length (push_subkey p) = 32 \<and>
     pull_subkey q = push_subkey p \<and> pull_counter q = push_counter p \<and> pull_finalized q = push_finalized p"

lemma stream_send_iff:
  assumes "length (push_subkey p) = 32"
  shows "stream_send hw p (tag, pt) = Some (c, p') \<longleftrightarrow>
    \<not> push_finalized p \<and> unat (push_counter p) + 1 < 2 ^ 64 \<and> 8 * length pt < 2 ^ 64 \<and>
    p' = push_next tag p \<and> c = (to_byte tag, sealed_chunk hw (push_subkey p) (push_counter p) tag pt)"
  by (auto simp: stream_send_def push_outcomes [OF assms] split: prod.splits)

lemma stream_recv_iff:
  assumes k: "length (pull_subkey q) = 32" and hw: "\<forall>clm \<in> set_option hw. multiplies_carryless clm"
  shows "stream_recv hw q c = Some ((tag, pt), q') \<longleftrightarrow>
    \<not> pull_finalized q \<and> unat (pull_counter q) + 1 < 2 ^ 64 \<and> 8 * length pt < 2 ^ 64 \<and>
    q' = pull_next tag q \<and> c = (to_byte tag, sealed_chunk hw (pull_subkey q) (pull_counter q) tag pt)"
proof -
  obtain tag_byte ct auth_tag where c: "c = (tag_byte, ct, auth_tag)" by (cases c) auto
  note ls = length_sealed_chunk [OF hw k, of "pull_counter q" tag pt]
  show ?thesis
  proof (cases "length ct < 2 ^ 64")
    case True
    have "stream_recv hw q c = Some ((tag, pt), q') \<longleftrightarrow> \<not> pull_finalized q \<and> from_byte tag_byte = Some tag \<and>
        length auth_tag = 16 \<and> unat (pull_counter q) + 1 < 2 ^ 64 \<and> 8 * length ct < 2 ^ 64 \<and> q' = pull_next tag q \<and>
        opened_chunk hw (pull_subkey q) (pull_counter q) tag (ct, auth_tag) = Some pt"
      unfolding c stream_recv_def by (auto simp: pull_outcomes [OF k True] split: option.splits if_splits)
    then show ?thesis
      using ls unfolding c opened_chunk_iff from_byte_iff by (metis fst_conv snd_conv prod.inject)
  next
    case False
    then have "chunk_aad (pull_counter q) tag_byte (length ct) = None" by (simp add: chunk_aad_def)
    then have "stream_recv hw q c \<noteq> Some ((tag, pt), q')"
      by (auto simp: stream_recv_def c pull_def split: option.splits Option.bind_splits if_splits)
    moreover have "\<not> (8 * length pt < 2 ^ 64 \<and> c = (to_byte tag, sealed_chunk hw (pull_subkey q) (pull_counter q) tag pt))"
    proof
      assume a: "8 * length pt < 2 ^ 64 \<and> c = (to_byte tag, sealed_chunk hw (pull_subkey q) (pull_counter q) tag pt)"
      then have "length ct = length pt" using ls(1) by (metis c fst_conv snd_conv)
      with a False show False by simp
    qed
    ultimately show ?thesis by blast
  qed
qed

interpretation secretstream: lockstep_channel "stream_send hw" "stream_recv hw" "in_step hw" for hw
proof
  fix p q m c p' assume s: "in_step hw p q" "stream_send hw p m = Some (c, p')"
  have k: "length (push_subkey p) = 32" "length (pull_subkey q) = 32" "\<forall>clm \<in> set_option hw. multiplies_carryless clm"
    using s(1) by (simp_all add: in_step_def)
  obtain tag pt where m: "m = (tag, pt)" by fastforce
  show "\<exists>q'. stream_recv hw q c = Some (m, q') \<and> in_step hw p' q'"
    using s unfolding m stream_send_iff [OF k(1)] stream_recv_iff [OF k(2,3)]
    by (simp add: in_step_def push_next_def pull_next_def)
next
  fix p q c m q' assume s: "in_step hw p q" "stream_recv hw q c = Some (m, q')"
  have k: "length (push_subkey p) = 32" "length (pull_subkey q) = 32" "\<forall>clm \<in> set_option hw. multiplies_carryless clm"
    using s(1) by (simp_all add: in_step_def)
  obtain tag pt where m: "m = (tag, pt)" by fastforce
  show "\<exists>p'. stream_send hw p m = Some (c, p') \<and> in_step hw p' q'"
    using s unfolding m stream_send_iff [OF k(1)] stream_recv_iff [OF k(2,3)]
    by (simp add: in_step_def push_next_def pull_next_def)
qed

text \<open>A fresh pair of ends is in step, and a sequence of chunks with no early \<^const>\<open>Final\<close> can be sent.\<close>

lemma push_init_cases:
  assumes "fills fill" "length key = 32" "push_init fill key = Some (Inr (p, header))"
  shows "length header = 32"
    and "p = \<lparr>push_subkey = the (initial_subkey key header), push_counter = 0, push_finalized = False\<rparr>"
  using assms by (auto simp: push_init_def split: sum.splits Option.bind_splits
    elim: randombytes_buf_cases [where buf = "replicate 32 0"])

lemma init_in_step:
  assumes "\<forall>clm \<in> set_option hw. multiplies_carryless clm" "fills fill" "length key = 32"
    and "push_init fill key = Some (Inr (p, header))"
  obtains q where "pull_init key header = Some q" "in_step hw p q" "push_counter p = 0" "\<not> push_finalized p"
proof
  show "pull_init key header = Some \<lparr>pull_subkey = the (initial_subkey key header), pull_counter = 0, pull_finalized = False\<rparr>"
    using push_init_cases [OF assms(2-4)] assms(3) by (simp add: pull_init_def initial_subkey_total)
qed (use push_init_cases [OF assms(2-4)] assms(1,3) in \<open>simp_all add: in_step_def initial_subkey_total\<close>)

lemma send_all_total:
  assumes "length (push_subkey p) = 32" "\<not> push_finalized p" "unat (push_counter p) + length ms < 2 ^ 64"
    and "\<forall>m \<in> set ms. 8 * length (snd m) < 2 ^ 64" "\<forall>m \<in> set (butlast ms). fst m \<noteq> Final"
  shows "\<exists>cs p'. run_all (stream_send hw) p ms = Some (cs, p') \<and>
    push_counter p' = push_counter p + of_nat (length ms) \<and>
    (push_finalized p' \<longleftrightarrow> ms \<noteq> [] \<and> fst (last ms) = Final)"
  using assms
proof (induction ms arbitrary: p)
  case (Cons m ms)
  obtain tag pt where m: "m = (tag, pt)" by fastforce
  let ?p = "push_next tag p"
  have s: "stream_send hw p m = Some ((to_byte tag, sealed_chunk hw (push_subkey p) (push_counter p) tag pt), ?p)"
    using Cons.prems by (simp add: m stream_send_iff)
  have c: "unat (push_counter ?p) = unat (push_counter p) + 1"
    using Cons.prems(3) by (simp add: push_next_def unat_word_ariths)
  show ?case
  proof (cases "ms = []")
    case True
    then show ?thesis using s by (simp add: m push_next_def)
  next
    case False
    then have "\<not> push_finalized ?p" using Cons.prems(5) by (simp add: m push_next_def)
    then obtain cs p' where "run_all (stream_send hw) ?p ms = Some (cs, p')"
      "push_counter p' = push_counter ?p + of_nat (length ms)" "push_finalized p' \<longleftrightarrow> ms \<noteq> [] \<and> fst (last ms) = Final"
      using Cons.IH [of ?p] Cons.prems False c by (auto simp: push_next_def)
    with s False show ?thesis by (simp add: push_next_def)
  qed
qed simp

section \<open>Runs of a sender\<close>

text \<open>The states a sender reaches by calls of \<open>push\<close> in any order, accepted or refused, with the log of the
  accepted ones: the tag and the plaintext passed in, the ciphertext and the authentication tag that came out.\<close>

inductive push_run :: "clmul \<Rightarrow> push_state \<Rightarrow> (stream_tag \<times> bytes \<times> bytes \<times> bytes) list \<Rightarrow> push_state \<Rightarrow> bool" for hw s where
  start: "push_run hw s [] s"
| accepted: "push_run hw s log s1 \<Longrightarrow>
    push hw s1 tag pt out = Some (Inr auth_tag :: unit secretstream_error + bytes, s2, ct) \<Longrightarrow>
    push_run hw s (log @ [(tag, pt, ct, auth_tag)]) s2"
| refused: "push_run hw s log s1 \<Longrightarrow>
    push hw s1 tag pt out = Some (Inl e :: unit secretstream_error + bytes, s2, out') \<Longrightarrow> push_run hw s log s2"

definition subkey_after :: "bytes \<Rightarrow> stream_tag list \<Rightarrow> bytes" where
  "subkey_after k tags = foldl (\<lambda>k tag. next_subkey tag k) k tags"

definition logged :: "clmul \<Rightarrow> bytes \<Rightarrow> u64 \<Rightarrow> stream_tag \<times> bytes \<times> bytes \<times> bytes \<Rightarrow> bool" where
  "logged hw k i = (\<lambda>(tag, pt, ct, auth_tag). gcm_sealed hw k (chunk_iv i) (stream_aad i (to_byte tag) (length pt)) pt ct auth_tag)"

lemma push_accepted:
  assumes "length (push_subkey s) = 32" "push hw s tag pt out = Some (Inr auth_tag, s', ct)"
  shows "s' = push_next tag s" "\<not> push_finalized s" "unat (push_counter s') = unat (push_counter s) + 1"
    "(ct, auth_tag) = sealed_chunk hw (push_subkey s) (push_counter s) tag pt" "logged hw (push_subkey s) (push_counter s) (tag, pt, ct, auth_tag)"
proof -
  have "s' = push_next tag s \<and> \<not> push_finalized s \<and> unat (push_counter s) + 1 < 2 ^ 64 \<and>
      (ct, auth_tag) = sealed_chunk hw (push_subkey s) (push_counter s) tag pt \<and> 8 * length pt < 2 ^ 64"
    using assms(2) unfolding push_outcomes [OF assms(1)] by (auto split: if_splits prod.splits)
  then show "s' = push_next tag s" "\<not> push_finalized s" "(ct, auth_tag) = sealed_chunk hw (push_subkey s) (push_counter s) tag pt"
    "unat (push_counter s') = unat (push_counter s) + 1" "logged hw (push_subkey s) (push_counter s) (tag, pt, ct, auth_tag)"
    using gcm_sealed_chunk [OF assms(1), of pt hw "push_counter s" tag ct auth_tag]
    by (auto simp: push_next_def unat_word_ariths logged_def)
qed

lemma push_refused:
  assumes "length (push_subkey s) = 32" "push hw s tag pt out = Some (Inl e, s', out')"
  shows "s' = s" "out' = out"
  using assms(2) unfolding push_outcomes [OF assms(1)] by (auto split: if_splits prod.splits)

lemma push_run_invariant:
  assumes "push_run hw s log s'" "length (push_subkey s) = 32" "push_counter s = 0"
  shows "length (push_subkey s') = 32 \<and> unat (push_counter s') = length log \<and>
    push_subkey s' = subkey_after (push_subkey s) (map fst log) \<and>
    (\<forall>i < length log. logged hw (subkey_after (push_subkey s) (map fst (take i log))) (of_nat i) (log ! i))"
  using assms
proof (induction rule: push_run.induct)
  case (accepted log s1 tag pt out auth_tag s2 ct)
  then have k: "length (push_subkey s1) = 32" by blast
  have "(of_nat (unat (push_counter s1)) :: u64) = push_counter s1" by simp
  then have c: "push_counter s1 = of_nat (length log)" using accepted by metis
  have "subkey_after (push_subkey s) (map fst (log @ [(tag, pt, ct, auth_tag)])) = next_subkey tag (push_subkey s1)"
    "length (next_subkey tag (push_subkey s1)) = 32"
    using accepted k by (simp_all add: subkey_after_def)
  then show ?case using accepted push_accepted [OF k accepted(2)] c by (simp add: push_next_def nth_append less_Suc_eq)
next
  case (refused log s1 tag pt out e s2 out')
  then have k: "length (push_subkey s1) = 32" by blast
  show ?case using refused push_refused [OF k refused(2)] by blast
qed (simp add: subkey_after_def)

section \<open>Properties\<close>

text \<open>C19. Whatever chunks a sender pushes, with any tags before the closing one, the receiver started
  from the same key and header pulls them back in order, tags included, and both ends finish in
  corresponding states: every push succeeds up to the \<open>2^64 - 1\<close> chunks the counter allows, and
  subkeys stay equal across rekeying.\<close>

theorem secretstream_roundtrip:
  assumes "\<forall>clm \<in> set_option hw. multiplies_carryless clm" "fills fill" "length key = 32"
    and "push_init fill key = Some (Inr (p, header))" "length ms < 2 ^ 64"
    and "\<forall>m \<in> set ms. 8 * length (snd m) < 2 ^ 64" "\<forall>m \<in> set (butlast ms). fst m \<noteq> Final"
  shows "\<exists>q cs p' q'. pull_init key header = Some q \<and> run_all (stream_send hw) p ms = Some (cs, p') \<and>
    run_all (stream_recv hw) q cs = Some (ms, q') \<and> in_step hw p' q' \<and> unat (push_counter p') = length ms \<and>
    (pull_finalized q' \<longleftrightarrow> ms \<noteq> [] \<and> fst (last ms) = Final)"
proof -
  obtain q where q: "pull_init key header = Some q" "in_step hw p q" "push_counter p = 0" "\<not> push_finalized p"
    by (rule init_in_step [OF assms(1-4)])
  obtain cs p' where p: "run_all (stream_send hw) p ms = Some (cs, p')" "push_counter p' = of_nat (length ms)"
    "push_finalized p' \<longleftrightarrow> ms \<noteq> [] \<and> fst (last ms) = Final"
    using send_all_total [of p ms hw] q assms by (auto simp: in_step_def)
  obtain q' where q': "run_all (stream_recv hw) q cs = Some (ms, q')" "in_step hw p' q'"
    using secretstream.run_recv_of_send [OF q(2) p(1)] by blast
  have "unat (push_counter p') = length ms" using p(2) assms(5) by (simp add: unat_of_nat)
  with q(1) p q' show ?thesis by (auto simp: in_step_def)
qed

theorem secretstream_roundtrip_witness:
  "\<exists>p header q cs p' q'. push_init (\<lambda>n. Inr (replicate n 4) :: unit + bytes) (replicate 32 1) = Some (Inr (p, header)) \<and>
    pull_init (replicate 32 1) header = Some q \<and>
    run_all (stream_send None) p [(Message, [1, 2]), (Rekey, []), (Final, [3])] = Some (cs, p') \<and>
    run_all (stream_recv None) q cs = Some ([(Message, [1, 2]), (Rekey, []), (Final, [3])], q') \<and> pull_finalized q'"
proof -
  obtain p header where p: "push_init (\<lambda>n. Inr (replicate n 4) :: unit + bytes) (replicate 32 1) = Some (Inr (p, header))"
    by (simp add: push_init_def randombytes_buf_def initial_subkey_total)
  show ?thesis
    using secretstream_roundtrip [of None _ "replicate 32 1" p header "[(Message, [1, 2]), (Rekey, []), (Final, [3])]", OF _ _ _ p]
      p by (auto simp: fills_def)
qed

text \<open>C20. A receiver accepts exactly what its sender would have written: a sequence of records is
  pulled to a sequence of tagged chunks if and only if pushing those chunks, in that order, from the
  corresponding sender state produces those records. A record moved to another position, with
  another tag byte or under another subkey is accepted only if the sender would have produced it
  there.\<close>

theorem secretstream_pull_exact:
  assumes "\<forall>clm \<in> set_option hw. multiplies_carryless clm" "fills fill" "length key = 32"
    and "push_init fill key = Some (Inr (p, header))" "pull_init key header = Some q"
  shows "(\<exists>q'. run_all (stream_recv hw) q cs = Some (ms, q')) \<longleftrightarrow> (\<exists>p'. run_all (stream_send hw) p ms = Some (cs, p'))"
  using init_in_step [OF assms(1-4)] assms(5) secretstream.run_recv_iff [of hw p q cs ms] by fastforce

theorem secretstream_pull_exact_witness:
  "\<exists>p header q. push_init (\<lambda>n. Inr (replicate n 4) :: unit + bytes) (replicate 32 1) = Some (Inr (p, header)) \<and>
    pull_init (replicate 32 1) header = Some q \<and>
    ((\<exists>q'. run_all (stream_recv None) q [(3, [1], replicate 16 0)] = Some ([(Final, [7])], q')) \<longleftrightarrow>
     (\<exists>p'. run_all (stream_send None) p [(Final, [7])] = Some ([(3, [1], replicate 16 0)], p')))"
proof -
  let ?fill = "\<lambda>n. Inr (replicate n 4) :: unit + bytes"
  have f: "fills ?fill" by (simp add: fills_def)
  obtain p header where p: "push_init ?fill (replicate 32 1) = Some (Inr (p, header))" "length header = 32"
    by (simp add: push_init_def randombytes_buf_def initial_subkey_total)
  obtain q where q: "pull_init (replicate 32 1) header = Some q" using p(2) by (simp add: pull_init_def initial_subkey_total)
  show ?thesis
    using secretstream_pull_exact [OF _ f _ p(1) q, of None "[(3, [1], replicate 16 0)]" "[(Final, [7])]"] p(1) q
    by (intro exI [of _ p] exI [of _ header] exI [of _ q] conjI) simp_all
qed

text \<open>C21. Over any sequence of calls to \<open>push\<close>, refused ones included, the chunk accepted as number \<open>i\<close> is what
  the mode's \<open>encrypt\<close> returns under the initialisation vector of counter \<open>i\<close>, with additional data of
  counter, tag byte and length, and under the subkey that the header gives and every \<open>Rekey\<close> among the
  earlier tags replaces. These vectors are pairwise distinct: none is used twice in a stream, also across
  rekeying, and the counter never wraps.\<close>

theorem secretstream_ivs_distinct:
  assumes "fills fill" "length key = 32" "push_init fill key = Some (Inr (p, header))" "push_run hw p log p'"
  defines "k0 \<equiv> the (initial_subkey key header)"
  shows "(\<forall>i < length log. case log ! i of (tag, pt, ct, auth_tag) \<Rightarrow>
      gcm_sealed hw (subkey_after k0 (map fst (take i log))) (chunk_iv (of_nat i)) (stream_aad (of_nat i) (to_byte tag) (length pt)) pt ct auth_tag) \<and>
    distinct (map (\<lambda>i. chunk_iv (of_nat i)) [0..<length log]) \<and> unat (push_counter p') = length log"
proof -
  have p: "length (push_subkey p) = 32" "push_counter p = 0" "push_subkey p = k0"
    using push_init_cases [OF assms(1-3)] assms(2) by (simp_all add: initial_subkey_total k0_def)
  note inv = push_run_invariant [OF assms(4) p(1,2), unfolded p(3)]
  then have len: "length log < 2 ^ 64" using unsigned_less [of "push_counter p'", where 'a = nat] by simp
  have "inj_on (\<lambda>i. chunk_iv (of_nat i)) (set [0..<length log])"
  proof (rule inj_onI)
    fix i j assume "i \<in> set [0..<length log]" "j \<in> set [0..<length log]" "chunk_iv (of_nat i) = chunk_iv (of_nat j)"
    then have "i < 2 ^ 64" "j < 2 ^ 64" "(of_nat i :: u64) = of_nat j" using len by (simp_all add: chunk_iv_inject)
    moreover have "unat (of_nat n :: u64) = n" if "n < 2 ^ 64" for n using that by (simp add: unat_of_nat)
    ultimately show "i = j" by metis
  qed
  then show ?thesis using inv by (simp add: distinct_map logged_def case_prod_unfold)
qed

theorem secretstream_ivs_distinct_witness:
  "\<exists>p header log. push_init (\<lambda>n. Inr (replicate n 4) :: unit + bytes) (replicate 32 1) = Some (Inr (p, header)) \<and>
     push_run None p log (push_next Final p) \<and> length log = 1 \<and> unat (push_counter (push_next Final p)) = 1"
proof -
  let ?fill = "\<lambda>n. Inr (replicate n 4) :: unit + bytes"
  have f: "fills ?fill" by (simp add: fills_def)
  obtain p header where p: "push_init ?fill (replicate 32 1) = Some (Inr (p, header))"
    "p = \<lparr>push_subkey = the (initial_subkey (replicate 32 1) (replicate 32 4)), push_counter = 0, push_finalized = False\<rparr>"
    by (simp add: push_init_def randombytes_buf_def initial_subkey_total)
  obtain ct t where c: "sealed_chunk None (push_subkey p) 0 Final [5] = (ct, t)" by fastforce
  have "push None p Final [5] [0] = Some (Inr t :: unit secretstream_error + bytes, push_next Final p, ct)"
    using c p(2) by (simp add: push_outcomes initial_subkey_total)
  from push_run.accepted [OF push_run.start this] have r: "push_run None p [(Final, [5], ct, t)] (push_next Final p)" by simp
  show ?thesis using secretstream_ivs_distinct [OF f _ p(1) r] p(1) r by auto
qed

text \<open>C22. \<open>pull\<close> never panics and its result is decided in the order of its checks: a finalized stream,
  an unknown tag byte, a wrong length, an exhausted counter, and then authentication. It succeeds only with a
  plaintext whose encryption by the mode, under the receiver's subkey and counter and with the tag byte, is the
  given ciphertext and tag; when no plaintext has that encryption the error is \<open>TagMismatch\<close>, and the output
  buffer is then all zeros. On every error the receiver's state is unchanged, and the buffer is untouched after
  any error but the mismatch: no unverified plaintext is ever exposed.\<close>

theorem secretstream_pull_errors:
  fixes s :: pull_state and hw :: clmul and tag_byte :: u8 and ct auth_tag out :: bytes
  assumes "length (pull_subkey s) = 32" "8 * length ct < 2 ^ 64"
  defines "sealed \<equiv> \<lambda>pt. gcm_sealed hw (pull_subkey s) (chunk_iv (pull_counter s))
      (stream_aad (pull_counter s) tag_byte (length pt)) pt ct auth_tag"
    and "checked \<equiv> \<not> pull_finalized s \<and> tag_byte \<in> {0, 1, 2, 3} \<and> length out = length ct \<and> length auth_tag = 16"
  shows "\<exists>r s' out'. pull hw s tag_byte ct auth_tag out = Some (r :: 'e secretstream_error + stream_tag, s', out') \<and>
    (r = Inl StreamFinalized \<longleftrightarrow> pull_finalized s) \<and>
    (r = Inl UnknownTag \<longleftrightarrow> \<not> pull_finalized s \<and> tag_byte \<notin> {0, 1, 2, 3}) \<and>
    (r = Inl InvalidLength \<longleftrightarrow> \<not> pull_finalized s \<and> tag_byte \<in> {0, 1, 2, 3} \<and>
      (length out \<noteq> length ct \<or> length auth_tag \<noteq> 16)) \<and>
    (r = Inl CounterExhausted \<longleftrightarrow> checked \<and> unat (pull_counter s) = 2 ^ 64 - 1) \<and>
    (r = Inl TagMismatch \<longleftrightarrow> checked \<and> unat (pull_counter s) \<noteq> 2 ^ 64 - 1 \<and> (\<nexists>pt. sealed pt)) \<and>
    (case r of Inl e \<Rightarrow> s' = s \<and> out' = (if e = TagMismatch then replicate (length out) 0 else out)
     | Inr tag \<Rightarrow> tag_byte = to_byte tag \<and> sealed out' \<and> s' = pull_next tag s)"
proof -
  have len: "length ct < 2 ^ 64" using assms(2) by simp
  have mx: "unat (pull_counter s) + 1 < 2 ^ 64 \<longleftrightarrow> unat (pull_counter s) \<noteq> 2 ^ 64 - 1"
    using unsigned_less [of "pull_counter s", where 'a = nat] by auto
  have tb: "from_byte tag_byte = None \<longleftrightarrow> tag_byte \<notin> {0, 1, 2, 3}" by (simp add: from_byte_def)
  have o: "opened_chunk hw (pull_subkey s) (pull_counter s) tag (ct, auth_tag) = Some pt \<longleftrightarrow> sealed pt"
    if "from_byte tag_byte = Some tag" for tag pt
  proof (cases "8 * length pt < 2 ^ 64")
    case True
    then show ?thesis using that gcm_sealed_chunk [OF assms(1) True] by (simp add: sealed_def opened_chunk_iff from_byte_iff)
  next
    case False
    then show ?thesis using assms(2) gcm_sealed_short length_opened_chunk unfolding sealed_def by (metis (no_types, lifting))
  qed
  show ?thesis
  proof (cases "checked \<and> unat (pull_counter s) \<noteq> 2 ^ 64 - 1")
    case True
    then obtain tag where tag: "from_byte tag_byte = Some tag" using tb by (auto simp: checked_def)
    then have out: "pull hw s tag_byte ct auth_tag out =
        Some (case opened_chunk hw (pull_subkey s) (pull_counter s) tag (ct, auth_tag) of
          None \<Rightarrow> (Inl TagMismatch, s, replicate (length out) 0) | Some pt \<Rightarrow> (Inr tag, pull_next tag s, pt))"
      using True assms(2) mx by (auto simp: pull_outcomes [OF assms(1) len] checked_def split: option.split)
    show ?thesis
    proof (cases "opened_chunk hw (pull_subkey s) (pull_counter s) tag (ct, auth_tag)")
      case None
      then show ?thesis using True o [OF tag] unfolding out by (simp add: checked_def)
    next
      case (Some pt)
      then show ?thesis using True o [OF tag, of pt] tag unfolding out by (auto simp: checked_def from_byte_iff)
    qed
  next
    case False
    then show ?thesis unfolding pull_outcomes [OF assms(1) len] mx using assms(2) tb
      by (auto simp: from_byte_iff checked_def split: option.splits)
  qed
qed

theorem secretstream_pull_errors_witness:
  "\<exists>r s' out'. pull None \<lparr>pull_subkey = replicate 32 1, pull_counter = 5, pull_finalized = False\<rparr> 9 [1, 2] [3] [0, 0] =
      Some (r :: unit secretstream_error + stream_tag, s', out') \<and> r = Inl UnknownTag \<and> out' = [0, 0]"
  using secretstream_pull_errors [of "\<lparr>pull_subkey = replicate 32 1, pull_counter = 5, pull_finalized = False\<rparr>"
      "[1, 2]" None 9 "[3]" "[0, 0]", where 'e = unit]
  by auto

end
