(* ===== verification/Secretstream_File.thy ===== *)
theory Secretstream_File
  imports Crypto_Secretstream
begin

text \<open>
  \<open>crates/dstu-core/src/crypto_secretstream/file.rs\<close>: the stream-file codec, a record framing over the
  chunked stream. The writer emits \<open>version || header || records\<close>; the reader is a state machine
  that is fed exactly the bytes it asks for. \<open>usize\<close> is 64 bits wide; an \<open>unreachable!\<close> of the
  layers below is the value \<open>None\<close>.
\<close>

section \<open>Definitions\<close>

definition CHUNK_BYTES :: nat where "CHUNK_BYTES = 8192"
definition HEADER_BYTES :: nat where "HEADER_BYTES = 32"
definition FILE_PREFIX_BYTES :: nat where "FILE_PREFIX_BYTES = 1 + HEADER_BYTES"
definition RECORD_HEAD_BYTES :: nat where "RECORD_HEAD_BYTES = 1 + 4"
definition RECORD_OVERHEAD_BYTES :: nat where "RECORD_OVERHEAD_BYTES = RECORD_HEAD_BYTES + TAG_LEN"
definition MAX_RECORD_BYTES :: nat where "MAX_RECORD_BYTES = CHUNK_BYTES + RECORD_OVERHEAD_BYTES"

lemmas file_consts [simp] = CHUNK_BYTES_def HEADER_BYTES_def FILE_PREFIX_BYTES_def RECORD_HEAD_BYTES_def
  RECORD_OVERHEAD_BYTES_def MAX_RECORD_BYTES_def TAG_LEN_def

datatype 'e file_error =
  UnsupportedVersion u8 | Truncated | ChunkTooLarge u32 | BadChunkLength u32 | UnknownTag | TrailingData
| Auth | Finished | InvalidLength | CounterExhausted | Random "'e random_error"

fun from_stream_error :: "'e secretstream_error \<Rightarrow> 'e file_error" where
  "from_stream_error secretstream_error.InvalidLength = InvalidLength"
| "from_stream_error secretstream_error.TagMismatch = Auth"
| "from_stream_error secretstream_error.UnknownTag = UnknownTag"
| "from_stream_error secretstream_error.StreamFinalized = Finished"
| "from_stream_error secretstream_error.CounterExhausted = CounterExhausted"
| "from_stream_error (secretstream_error.Random e) = Random e"

subsection \<open>The writer\<close>

record file_encryptor =
  fe_push :: push_state

definition file_encryptor_init ::
  "(nat \<Rightarrow> 'e + bytes) \<Rightarrow> bytes \<Rightarrow> ('e file_error + file_encryptor \<times> bytes) option" where
  "file_encryptor_init fill key = do {
     r \<leftarrow> push_init fill key;
     Some (case r of
       Inl e \<Rightarrow> Inl (from_stream_error e)
     | Inr (p, header) \<Rightarrow>
         (let prefix = replicate FILE_PREFIX_BYTES 0;
              prefix = prefix[0 := FORMAT_VERSION];
              prefix = write_at prefix 1 header
          in Inr (\<lparr>fe_push = p\<rparr>, prefix)))
   }"

definition fe_seal ::
  "clmul \<Rightarrow> file_encryptor \<Rightarrow> stream_tag \<Rightarrow> bytes \<Rightarrow> bytes \<Rightarrow> (('e file_error + nat) \<times> file_encryptor \<times> bytes) option" where
  "fe_seal hw self tag plaintext out =
     (if push_finalized (fe_push self) then Some (Inl Finished, self, out)
      else let record_len = length plaintext + RECORD_OVERHEAD_BYTES in
        if length plaintext > CHUNK_BYTES \<or> length out < record_len then Some (Inl InvalidLength, self, out)
        else if \<not> length plaintext < 2 ^ 32 then Some (Inl InvalidLength, self, out)
        else do {
          let len = (of_nat (length plaintext) :: u32);
          let ciphertext = slice RECORD_HEAD_BYTES (RECORD_HEAD_BYTES + length plaintext) out;
          (r, p, ciphertext) \<leftarrow> push hw (fe_push self) tag plaintext ciphertext;
          let self = \<lparr>fe_push = p\<rparr>;
          let out = write_at out RECORD_HEAD_BYTES ciphertext;
          Some (case r of
            Inl e \<Rightarrow> (Inl (from_stream_error e), self, out)
          | Inr auth_tag \<Rightarrow>
              (let out = write_at out (RECORD_HEAD_BYTES + length plaintext) auth_tag;
                   out = out[0 := to_byte tag];
                   out = write_at out 1 (to_le_bytes 4 len)
               in (Inr record_len, self, out)))
        })"

definition seal_chunk ::
  "clmul \<Rightarrow> file_encryptor \<Rightarrow> bytes \<Rightarrow> bytes \<Rightarrow> (('e file_error + unit) \<times> file_encryptor \<times> bytes) option" where
  "seal_chunk hw self chunk out =
     map_option (\<lambda>(r, s, o'). (map_sum id (\<lambda>_. ()) r, s, o')) (fe_seal hw self Message chunk out)"

definition seal_final ::
  "clmul \<Rightarrow> file_encryptor \<Rightarrow> bytes \<Rightarrow> bytes \<Rightarrow> (('e file_error + nat) \<times> file_encryptor \<times> bytes) option" where
  "seal_final hw self last_bytes out = fe_seal hw self Final last_bytes out"

text \<open>The loop of \<open>seal_all\<close>; \<open>record\<close> is its scratch buffer and \<open>out\<close> the caller's vector.\<close>

function seal_loop ::
  "clmul \<Rightarrow> file_encryptor \<Rightarrow> bytes \<Rightarrow> bytes \<Rightarrow> bytes \<Rightarrow> (('e file_error + unit) \<times> file_encryptor \<times> bytes) option" where
  "seal_loop hw enc rest rec out =
     (if length rest > CHUNK_BYTES then
        let chunk = take CHUNK_BYTES rest; tail = drop CHUNK_BYTES rest in
        case seal_chunk hw enc chunk rec of
          None \<Rightarrow> None
        | Some (Inl e, enc, rec) \<Rightarrow> Some (Inl e, enc, out)
        | Some (Inr _, enc, rec) \<Rightarrow> seal_loop hw enc tail rec (out @ rec)
      else case seal_final hw enc rest rec of
          None \<Rightarrow> None
        | Some (Inl e, enc, rec) \<Rightarrow> Some (Inl e, enc, out)
        | Some (Inr n, enc, rec) \<Rightarrow> Some (Inr (), enc, out @ take n rec))"
  by pat_completeness auto
termination by (relation "measure (\<lambda>(hw, enc, rest, rec, out). length rest)") auto

declare seal_loop.simps [simp del]

definition seal_all ::
  "clmul \<Rightarrow> file_encryptor \<Rightarrow> bytes \<Rightarrow> bytes \<Rightarrow> (('e file_error + unit) \<times> file_encryptor \<times> bytes) option" where
  "seal_all hw enc plaintext out = seal_loop hw enc plaintext (replicate MAX_RECORD_BYTES 0) out"

subsection \<open>The reader\<close>

datatype dec_state = Version | Header | RecordHead | RecordBody u8 nat | AfterFinal | Done

record file_decryptor =
  fd_key :: bytes
  fd_pull :: "pull_state option"
  fd_state :: dec_state
  fd_final_plaintext :: bytes
  fd_final_len :: nat

definition file_decryptor_new :: "bytes \<Rightarrow> file_decryptor" where
  "file_decryptor_new key = \<lparr>fd_key = key, fd_pull = None, fd_state = Version,
     fd_final_plaintext = replicate CHUNK_BYTES 0, fd_final_len = 0\<rparr>"

definition next_len :: "file_decryptor \<Rightarrow> nat" where
  "next_len self = (case fd_state self of
     Version \<Rightarrow> 1 | AfterFinal \<Rightarrow> 1 | Header \<Rightarrow> HEADER_BYTES | RecordHead \<Rightarrow> RECORD_HEAD_BYTES
   | RecordBody _ len \<Rightarrow> len + TAG_LEN | Done \<Rightarrow> 0)"

definition fd_fail :: "file_decryptor \<Rightarrow> file_decryptor" where
  "fd_fail self = self\<lparr>fd_state := Done, fd_pull := None, fd_key := replicate (length (fd_key self)) 0,
     fd_final_plaintext := replicate (length (fd_final_plaintext self)) 0, fd_final_len := 0\<rparr>"

definition step_head :: "file_decryptor \<Rightarrow> bytes \<Rightarrow> ('e file_error + nat) \<times> file_decryptor" where
  "step_head self input =
     (let tag_byte = input ! 0;
          declared = from_le_bytes [input ! 1, input ! 2, input ! 3, input ! 4] :: u32 in
      if \<not> unat declared < 2 ^ 64 then (Inl (ChunkTooLarge declared), self)
      else let len = unat declared in
        if len > CHUNK_BYTES then (Inl (ChunkTooLarge declared), self)
        else case from_byte tag_byte of
          None \<Rightarrow> (Inl UnknownTag, self)
        | Some tag \<Rightarrow>
            if tag \<noteq> Final \<and> len \<noteq> CHUNK_BYTES then (Inl (BadChunkLength declared), self)
            else (Inr 0, self\<lparr>fd_state := RecordBody tag_byte len\<rparr>))"

definition step_body ::
  "clmul \<Rightarrow> file_decryptor \<Rightarrow> u8 \<Rightarrow> nat \<Rightarrow> bytes \<Rightarrow> bytes \<Rightarrow> (('e file_error + nat) \<times> file_decryptor \<times> bytes) option" where
  "step_body hw self tag_byte len input plaintext_out =
     (let ciphertext = take len input; auth_tag = drop len input in
      case fd_pull self of
        None \<Rightarrow> Some (Inl Finished, self, plaintext_out)
      | Some q \<Rightarrow>
          if tag_byte = to_byte Final then do {
            (r, q, held) \<leftarrow> pull hw q tag_byte ciphertext auth_tag (take len (fd_final_plaintext self));
            let self = self\<lparr>fd_pull := Some q, fd_final_plaintext := write_at (fd_final_plaintext self) 0 held\<rparr>;
            Some (case r of
              Inl e \<Rightarrow> (Inl (from_stream_error e), self, plaintext_out)
            | Inr _ \<Rightarrow> (Inr 0, self\<lparr>fd_final_len := len, fd_state := AfterFinal\<rparr>, plaintext_out))
          } else do {
            (r, q, written) \<leftarrow> pull hw q tag_byte ciphertext auth_tag (take len plaintext_out);
            let self = self\<lparr>fd_pull := Some q\<rparr>;
            let plaintext_out = write_at plaintext_out 0 written;
            Some (case r of
              Inl e \<Rightarrow> (Inl (from_stream_error e), self, plaintext_out)
            | Inr _ \<Rightarrow> (Inr len, self\<lparr>fd_state := RecordHead\<rparr>, plaintext_out))
          })"

definition fd_step ::
  "clmul \<Rightarrow> file_decryptor \<Rightarrow> bytes \<Rightarrow> bytes \<Rightarrow> (('e file_error + nat) \<times> file_decryptor \<times> bytes) option" where
  "fd_step hw self input plaintext_out = (case fd_state self of
     Version \<Rightarrow>
       if input ! 0 \<noteq> FORMAT_VERSION then Some (Inl (UnsupportedVersion (input ! 0)), self, plaintext_out)
       else Some (Inr 0, self\<lparr>fd_state := Header\<rparr>, plaintext_out)
   | Header \<Rightarrow> do {
       q \<leftarrow> pull_init (fd_key self) input;
       Some (Inr 0, self\<lparr>fd_pull := Some q, fd_key := replicate (length (fd_key self)) 0, fd_state := RecordHead\<rparr>,
         plaintext_out)
     }
   | RecordHead \<Rightarrow> (case step_head self input of (r, self) \<Rightarrow> Some (r, self, plaintext_out))
   | RecordBody tag_byte len \<Rightarrow> step_body hw self tag_byte len input plaintext_out
   | AfterFinal \<Rightarrow> Some (Inl TrailingData, self, plaintext_out)
   | Done \<Rightarrow> Some (Inl Finished, self, plaintext_out))"

definition feed ::
  "clmul \<Rightarrow> file_decryptor \<Rightarrow> bytes \<Rightarrow> bytes \<Rightarrow> (('e file_error + nat) \<times> file_decryptor \<times> bytes) option" where
  "feed hw self input plaintext_out =
     (if fd_state self = Done then Some (Inl Finished, self, plaintext_out)
      else if length input \<noteq> next_len self \<or> length plaintext_out < CHUNK_BYTES
      then Some (Inl InvalidLength, self, plaintext_out)
      else do {
        (result, self, plaintext_out) \<leftarrow> fd_step hw self input plaintext_out;
        Some (result, if isl result then fd_fail self else self, plaintext_out)
      })"

definition finish :: "file_decryptor \<Rightarrow> bytes \<Rightarrow> ('e file_error + nat) \<times> file_decryptor \<times> bytes" where
  "finish self plaintext_out =
     (if fd_state self = Done then (Inl Finished, self, plaintext_out)
      else if length plaintext_out < CHUNK_BYTES then (Inl InvalidLength, self, plaintext_out)
      else if fd_state self = AfterFinal then
        (let len = fd_final_len self;
             plaintext_out = write_at plaintext_out 0 (take len (fd_final_plaintext self))
         in (Inr len, fd_fail self, plaintext_out))
      else (Inl Truncated, fd_fail self, plaintext_out))"

text \<open>The loop of \<open>open_all\<close>. It goes on only after a successful \<open>feed\<close>, which consumed at least one
  byte.\<close>

lemma feed_progress: "feed hw self input out = Some (Inr n, self', out') \<Longrightarrow> length input = next_len self \<and> 0 < next_len self"
  by (auto simp: feed_def next_len_def split: if_splits dec_state.splits)

function open_loop ::
  "clmul \<Rightarrow> file_decryptor \<Rightarrow> bytes \<Rightarrow> bytes \<Rightarrow> bytes \<Rightarrow> nat \<Rightarrow> (('e file_error + bytes) \<times> file_decryptor) option" where
  "open_loop hw dec file chunk plaintext pos =
     (let want = next_len dec in
      if \<not> pos + want \<le> length file then
        (case finish dec chunk of
           (Inl e, dec, chunk) \<Rightarrow> Some (Inl e, dec)
         | (Inr n, dec, chunk) \<Rightarrow> Some (Inr (plaintext @ take n chunk), dec))
      else case feed hw dec (slice pos (pos + want) file) chunk of
          None \<Rightarrow> None
        | Some (Inl e, dec, chunk) \<Rightarrow> Some (Inl e, dec)
        | Some (Inr n, dec, chunk) \<Rightarrow> open_loop hw dec file chunk (plaintext @ take n chunk) (pos + want))"
  by pat_completeness auto
termination
  by (relation "measure (\<lambda>(hw, dec, file, chunk, plaintext, pos). length file - pos)") (auto dest: feed_progress)

declare open_loop.simps [simp del]

definition open_all :: "clmul \<Rightarrow> file_decryptor \<Rightarrow> bytes \<Rightarrow> (('e file_error + bytes) \<times> file_decryptor) option" where
  "open_all hw dec file = open_loop hw dec file (replicate CHUNK_BYTES 0) [] 0"

section \<open>What the writer emits\<close>

definition record_bytes :: "u8 \<times> bytes \<times> bytes \<Rightarrow> bytes" where
  "record_bytes c = (case c of (tag_byte, ct, auth_tag) \<Rightarrow>
     [tag_byte] @ to_le_bytes 4 (of_nat (length ct) :: u32) @ ct @ auth_tag)"

text \<open>The chunks of a plaintext: full ones while more than a chunk is left, then the final one.\<close>

function file_messages :: "bytes \<Rightarrow> (stream_tag \<times> bytes) list" where
  "file_messages pt =
     (if length pt > CHUNK_BYTES then (Message, take CHUNK_BYTES pt) # file_messages (drop CHUNK_BYTES pt) else [(Final, pt)])"
  by pat_completeness auto
termination by (relation "measure length") auto

declare file_messages.simps [simp del]

lemma file_messages_short: "length pt \<le> 8192 \<Longrightarrow> file_messages pt = [(Final, pt)]"
  by (simp add: file_messages.simps)

lemma file_messages_long:
  "8192 < length pt \<Longrightarrow> file_messages pt = (Message, take 8192 pt) # file_messages (drop 8192 pt)"
  by (simp add: file_messages.simps [of pt])

lemma five_parts:
  assumes "n + 21 \<le> length out"
  obtains h a b c d where "out = [h] @ a @ b @ c @ d" "length a = 4" "length b = n" "length c = 16" "d = drop (n + 21) out"
proof -
  obtain x xs where out: "out = x # xs" using assms by (cases out) auto
  have d: "drop (n + 21) out = drop 16 (drop n (drop 4 xs))" by (simp add: out drop_Cons' add.commute)
  have "xs = take 4 xs @ take n (drop 4 xs) @ take 16 (drop n (drop 4 xs)) @ drop (n + 21) out"
    unfolding d by (simp only: append_take_drop_id)
  then show thesis
    using assms out by (intro that [of x "take 4 xs" "take n (drop 4 xs)" "take 16 (drop n (drop 4 xs))"]) auto
qed

lemma fe_seal_ok:
  assumes hw: "\<forall>clm \<in> set_option hw. multiplies_carryless clm" and k: "length (push_subkey p) = 32"
    and ok: "\<not> push_finalized p" "unat (push_counter p) + 1 < 2 ^ 64"
    and len: "length pt \<le> 8192" "length pt + 21 \<le> length out"
  shows "fe_seal hw \<lparr>fe_push = p\<rparr> tag pt out =
    Some (Inr (length pt + 21), \<lparr>fe_push = push_next tag p\<rparr>,
      record_bytes (to_byte tag, sealed_chunk hw (push_subkey p) (push_counter p) tag pt) @ drop (length pt + 21) out)"
proof -
  obtain ct t where c: "sealed_chunk hw (push_subkey p) (push_counter p) tag pt = (ct, t)" by fastforce
  have ct: "length ct = length pt" "length t = 16"
    using length_sealed_chunk [OF hw k, of "push_counter p" tag pt] by (simp_all add: c)
  obtain h a b f d where out: "out = [h] @ a @ b @ f @ d" "length a = 4" "length b = length pt" "length f = 16"
    "d = drop (length pt + 21) out"
    by (rule five_parts [OF len(2)])
  note parts = out(1-4)
  have "slice 5 (5 + length pt) out = b" using parts by (simp add: slice_def)
  then have p: "push hw p tag pt (slice 5 (5 + length pt) out) =
      Some (Inr t :: 'a secretstream_error + bytes, push_next tag p, ct)"
    using ok len out(3) by (simp add: push_outcomes [OF k] c)
  have w: "write_at (write_at out 5 ct) (5 + length pt) t = [h] @ a @ ct @ t @ d"
  proof -
    have "write_at (([h] @ a) @ b @ f @ d) 5 ct = ([h] @ a) @ ct @ f @ d"
      using parts ct by (intro write_at_middle) simp_all
    moreover have "write_at (([h] @ a @ ct) @ f @ d) (5 + length pt) t = ([h] @ a @ ct) @ t @ d"
      using parts ct by (intro write_at_middle) simp_all
    ultimately show ?thesis by (simp add: parts(1))
  qed
  have "write_at (([h] @ a @ ct @ t @ d)[0 := x]) 1 (to_le_bytes 4 y) = [x] @ to_le_bytes 4 (y :: u32) @ ct @ t @ d" for x y
    using parts by (simp add: write_at_def)
  then show ?thesis
    using p ok len ct w out(5) [symmetric] by (simp add: fe_seal_def c record_bytes_def Let_def)
qed

lemma length_record_bytes: "length (record_bytes (b, ct, t)) = length ct + length t + 5"
  by (simp add: record_bytes_def)

lemma seal_loop_records:
  assumes hw: "\<forall>clm \<in> set_option hw. multiplies_carryless clm" and "length (push_subkey p) = 32"
    and "\<not> push_finalized p" "unat (push_counter p) + length (file_messages pt) < 2 ^ 64" "length rec = 8213"
  shows "\<exists>cs p'. run_all (stream_send hw) p (file_messages pt) = Some (cs, p') \<and>
    seal_loop hw \<lparr>fe_push = p\<rparr> pt rec out = Some (Inr (), \<lparr>fe_push = p'\<rparr>, out @ concat (map record_bytes cs))"
  using assms(2-5)
proof (induction pt arbitrary: p rec out rule: file_messages.induct)
  case (1 pt)
  have c: "unat (push_counter p) + 1 < 2 ^ 64" using 1(4) by (simp add: file_messages.simps [of pt] split: if_splits)
  show ?case
  proof (cases "8192 < length pt")
    case False
    let ?c = "(to_byte Final, sealed_chunk hw (push_subkey p) (push_counter p) Final pt)"
    have "fe_seal hw \<lparr>fe_push = p\<rparr> Final pt rec = Some (Inr (length pt + 21) :: 'a file_error + nat, \<lparr>fe_push = push_next Final p\<rparr>,
        record_bytes ?c @ drop (length pt + 21) rec)"
      by (rule fe_seal_ok [OF hw]) (use 1 c False in simp_all)
    moreover have "length (record_bytes ?c) = length pt + 21"
      using length_sealed_chunk [OF hw 1(2), of "push_counter p" Final pt] by (cases ?c) (simp add: length_record_bytes)
    moreover have "stream_send hw p (Final, pt) = Some (?c, push_next Final p)"
      using False 1(2,3) c by (simp add: stream_send_iff)
    ultimately show ?thesis
      using False by (simp add: seal_loop.simps [of hw _ pt] seal_final_def file_messages_short)
  next
    case True
    let ?m = "take 8192 pt" let ?p = "push_next Message p"
    let ?c = "(to_byte Message, sealed_chunk hw (push_subkey p) (push_counter p) Message ?m)"
    have "fe_seal hw \<lparr>fe_push = p\<rparr> Message ?m rec = Some (Inr (length ?m + 21) :: 'a file_error + nat, \<lparr>fe_push = ?p\<rparr>,
        record_bytes ?c @ drop (length ?m + 21) rec)"
      by (rule fe_seal_ok [OF hw]) (use 1 c True in simp_all)
    then have s: "seal_chunk hw \<lparr>fe_push = p\<rparr> ?m rec = Some (Inr () :: 'a file_error + unit, \<lparr>fe_push = ?p\<rparr>, record_bytes ?c)"
      using True 1(5) by (simp add: seal_chunk_def)
    have l: "length (record_bytes ?c) = 8213"
      using length_sealed_chunk [OF hw 1(2), of "push_counter p" Message ?m] True by (cases ?c) (simp add: length_record_bytes)
    have fm: "file_messages pt = (Message, ?m) # file_messages (drop 8192 pt)" using True by (rule file_messages_long)
    have "unat (push_counter ?p) = unat (push_counter p) + 1" using c by (simp add: push_next_def unat_word_ariths)
    then obtain cs p' where "run_all (stream_send hw) ?p (file_messages (drop 8192 pt)) = Some (cs, p')"
      "seal_loop hw \<lparr>fe_push = ?p\<rparr> (drop 8192 pt) (record_bytes ?c) (out @ record_bytes ?c) =
         Some (Inr () :: 'a file_error + unit, \<lparr>fe_push = p'\<rparr>, (out @ record_bytes ?c) @ concat (map record_bytes cs))"
      using 1(1) [of ?p "record_bytes ?c" "out @ record_bytes ?c"] 1(2-4) True l fm by (auto simp: push_next_def next_subkey_def)
    moreover have "stream_send hw p (Message, ?m) = Some (?c, ?p)" using True 1(2,3) c by (simp add: stream_send_iff)
    ultimately show ?thesis
      using True s by (simp add: seal_loop.simps [of hw _ pt] fm Let_def)
  qed
qed

section \<open>A record-level specification of the reader\<close>

definition prepend :: "bytes \<Rightarrow> 'x + bytes \<Rightarrow> 'x + bytes" where
  "prepend acc r = (case r of Inl e \<Rightarrow> Inl e | Inr m \<Rightarrow> Inr (acc @ m))"

lemma prepend_simps [simp]:
  "prepend acc (Inl e) = Inl e" "prepend acc (Inr m) = Inr (acc @ m)" "prepend [] r = r"
  "prepend a (prepend b r) = prepend (a @ b) r"
  by (simp_all add: prepend_def split: sum.split)

lemma prepend_eq_Inr: "prepend a r = Inr m \<longleftrightarrow> (\<exists>m'. r = Inr m' \<and> m = a @ m')"
  by (cases r) auto

text \<open>Reads the records of a stream from a receiver state, checking each as the format demands.\<close>

function read_records :: "clmul \<Rightarrow> pull_state \<Rightarrow> bytes \<Rightarrow> 'e file_error + bytes" where
  "read_records hw q rest =
     (if length rest < 5 then Inl Truncated
      else let declared = from_le_bytes (slice 1 5 rest) :: u32; len = unat declared; after = drop (len + 21) rest in
        if len > 8192 then Inl (ChunkTooLarge declared)
        else case from_byte (rest ! 0) of
          None \<Rightarrow> Inl UnknownTag
        | Some tag \<Rightarrow>
            if tag \<noteq> Final \<and> len \<noteq> 8192 then Inl (BadChunkLength declared)
            else if length rest < len + 21 then Inl Truncated
            else case stream_recv hw q (rest ! 0, slice 5 (5 + len) rest, slice (5 + len) (len + 21) rest) of
              None \<Rightarrow> Inl (if unat (pull_counter q) + 1 < 2 ^ 64 then Auth else CounterExhausted)
            | Some ((t, pt), q) \<Rightarrow>
                if tag = Final then if after = [] then Inr pt else Inl TrailingData
                else prepend pt (read_records hw q after))"
  by pat_completeness auto
termination by (relation "measure (\<lambda>(hw, q, rest). length rest)") auto

declare read_records.simps [simp del]

definition read_file :: "clmul \<Rightarrow> bytes \<Rightarrow> bytes \<Rightarrow> 'e file_error + bytes" where
  "read_file hw key file =
     (if file = [] then Inl Truncated
      else if hd file \<noteq> 2 then Inl (UnsupportedVersion (hd file))
      else if length file < 33 then Inl Truncated
      else read_records hw (the (pull_init key (slice 1 33 file))) (drop 33 file))"

section \<open>The reader refines it\<close>

lemma pull_recv:
  assumes k: "length (pull_subkey q) = 32" and "\<not> pull_finalized q" "from_byte b = Some tag"
    and len: "length ct \<le> 8192" "length t = 16" "length out = length ct"
  shows "pull hw q b ct t out = Some (case stream_recv hw q (b, ct, t) of
      Some ((tag', pt), q') \<Rightarrow> (Inr tag', q', pt)
    | None \<Rightarrow> if unat (pull_counter q) + 1 < 2 ^ 64 then (Inl secretstream_error.TagMismatch, q, replicate (length ct) 0)
        else (Inl secretstream_error.CounterExhausted, q, out))"
proof -
  have l: "length ct < 2 ^ 64" "8 * length ct < 2 ^ 64" using len by simp_all
  show ?thesis using assms(2-) l(2) by (simp add: stream_recv_def pull_outcomes [OF k l(1)] split: option.split)
qed

lemma stream_recv_parts:
  assumes hw: "\<forall>clm \<in> set_option hw. multiplies_carryless clm" and k: "length (pull_subkey q) = 32"
    and r: "stream_recv hw q (b, ct, t) = Some ((tag, pt), q')"
  shows "b = to_byte tag" "length pt = length ct" "length t = 16" "q' = pull_next tag q" "length (pull_subkey q') = 32"
    "pull_finalized q' \<longleftrightarrow> tag = Final"
proof -
  have e: "b = to_byte tag" "sealed_chunk hw (pull_subkey q) (pull_counter q) tag pt = (ct, t)" "q' = pull_next tag q"
    using r unfolding stream_recv_iff [OF k hw] by auto
  show "b = to_byte tag" "q' = pull_next tag q" by fact+
  show "length pt = length ct" "length t = 16" using length_sealed_chunk [OF hw k, of "pull_counter q" tag pt] e(2) by simp_all
  show "length (pull_subkey q') = 32" "pull_finalized q' \<longleftrightarrow> tag = Final" using e(3) k by (simp_all add: pull_next_def)
qed

text \<open>One round of the loop.\<close>

lemma open_loop_end:
  "\<not> next_len dec \<le> length rest \<Longrightarrow> rest = drop pos file \<Longrightarrow> pos \<le> length file \<Longrightarrow>
   open_loop hw dec file chunk acc pos =
     (case finish dec chunk of
        (Inl e, dec, chunk) \<Rightarrow> Some (Inl e, dec)
      | (Inr n, dec, chunk) \<Rightarrow> Some (Inr (acc @ take n chunk), dec))"
  by (subst open_loop.simps) (auto simp: Let_def)

lemma open_loop_feed:
  assumes "next_len dec \<le> length rest" "rest = drop pos file" "pos \<le> length file"
    and "feed hw dec (take (next_len dec) rest) chunk = Some (r, dec', chunk')"
  shows "open_loop hw dec file chunk acc pos =
    (case r of Inl e \<Rightarrow> Some (Inl e, dec')
     | Inr n \<Rightarrow> open_loop hw dec' file chunk' (acc @ take n chunk') (pos + next_len dec))"
proof -
  have le: "pos + next_len dec \<le> length file" using assms by simp
  have f: "feed hw dec (slice pos (pos + next_len dec) file) chunk = Some (r, dec', chunk')"
    using assms by (simp add: slice_def)
  show ?thesis by (subst open_loop.simps) (cases r; simp add: Let_def le f)
qed

definition at_record :: "pull_state \<Rightarrow> file_decryptor \<Rightarrow> bool" where
  "at_record q dec \<longleftrightarrow> fd_pull dec = Some q \<and> length (pull_subkey q) = 32 \<and> \<not> pull_finalized q \<and>
     length (fd_final_plaintext dec) = 8192"

lemma feed_head:
  assumes "fd_state dec = RecordHead" "8192 \<le> length (chunk :: bytes)" "5 \<le> length rest"
  shows "feed hw dec (take 5 rest) chunk =
    (let declared = from_le_bytes (slice 1 5 rest) :: u32 in
     if unat declared > 8192 then Some (Inl (ChunkTooLarge declared), fd_fail dec, chunk)
     else case from_byte (rest ! 0) of
       None \<Rightarrow> Some (Inl UnknownTag, fd_fail dec, chunk)
     | Some tag \<Rightarrow> if tag \<noteq> Final \<and> unat declared \<noteq> 8192 then Some (Inl (BadChunkLength declared), fd_fail dec, chunk)
         else Some (Inr 0, dec\<lparr>fd_state := RecordBody (rest ! 0) (unat declared)\<rparr>, chunk))"
proof -
  have "slice 1 5 rest = map ((!) rest) [1..<5]"
    using assms(3) by (intro nth_equalityI) (simp_all add: slice_def)
  then have sl: "slice 1 5 rest = [rest ! 1, rest ! 2, rest ! 3, rest ! 4]" by (simp add: upt_rec numeral_eq_Suc)
  have n: "unat (w :: u32) < 2 ^ 64" for w
    by (rule less_trans [OF unsigned_less]) simp
  show ?thesis
    unfolding sl Let_def
    using assms n by (auto simp: feed_def next_len_def fd_step_def step_head_def Let_def split: option.split)
qed

lemma feed_body:
  assumes hw: "\<forall>clm \<in> set_option hw. multiplies_carryless clm" and q: "at_record q dec"
    and st: "fd_state dec = RecordBody b len" "from_byte b = Some tag"
    and len: "len \<le> 8192" "length input = len + 16" "8192 \<le> length chunk"
  shows "stream_recv hw q (b, take len input, drop len input) = Some ((t, pt), q') \<Longrightarrow>
      feed hw dec input chunk = Some (if tag = Final
        then (Inr 0, dec\<lparr>fd_pull := Some q', fd_final_plaintext := write_at (fd_final_plaintext dec) 0 pt,
                fd_final_len := len, fd_state := AfterFinal\<rparr>, chunk)
        else (Inr len, dec\<lparr>fd_pull := Some q', fd_state := RecordHead\<rparr>, write_at chunk 0 pt))"
    and "stream_recv hw q (b, take len input, drop len input) = None \<Longrightarrow>
      \<exists>dec' chunk'. feed hw dec input chunk =
        Some (Inl (if unat (pull_counter q) + 1 < 2 ^ 64 then Auth else CounterExhausted), fd_fail dec', chunk') \<and>
        length (fd_final_plaintext dec') = 8192 \<and> fd_key dec' = fd_key dec"
proof -
  have pull: "pull hw q b (take len input) (drop len input) out =
      Some (case stream_recv hw q (b, take len input, drop len input) of
        Some ((tag', pt), q') \<Rightarrow> (Inr tag', q', pt)
      | None \<Rightarrow> if unat (pull_counter q) + 1 < 2 ^ 64 then (Inl secretstream_error.TagMismatch, q, replicate (length (take len input)) 0)
          else (Inl secretstream_error.CounterExhausted, q, out))" if "length out = len" for out
    by (rule pull_recv) (use q st len that in \<open>simp_all add: at_record_def\<close>)
  have bF: "b = 3 \<longleftrightarrow> tag = Final" using st(2) by (cases tag) (auto simp: from_byte_iff)
  show "feed hw dec input chunk = Some (if tag = Final
        then (Inr 0, dec\<lparr>fd_pull := Some q', fd_final_plaintext := write_at (fd_final_plaintext dec) 0 pt,
                fd_final_len := len, fd_state := AfterFinal\<rparr>, chunk)
        else (Inr len, dec\<lparr>fd_pull := Some q', fd_state := RecordHead\<rparr>, write_at chunk 0 pt))"
    if "stream_recv hw q (b, take len input, drop len input) = Some ((t, pt), q')"
    using that q st len by (simp add: feed_def next_len_def fd_step_def step_body_def at_record_def pull bF Let_def)
  let ?out = "if tag = Final then fd_final_plaintext dec else chunk"
  let ?held = "if unat (pull_counter q) + 1 < 2 ^ 64 then replicate len 0 else take len ?out"
  let ?dec = "if tag = Final then dec\<lparr>fd_pull := Some q, fd_final_plaintext := write_at (fd_final_plaintext dec) 0 ?held\<rparr>
    else dec\<lparr>fd_pull := Some q\<rparr>"
  show "\<exists>dec' chunk'. feed hw dec input chunk =
        Some (Inl (if unat (pull_counter q) + 1 < 2 ^ 64 then Auth else CounterExhausted), fd_fail dec', chunk') \<and>
        length (fd_final_plaintext dec') = 8192 \<and> fd_key dec' = fd_key dec"
    if "stream_recv hw q (b, take len input, drop len input) = None"
    using that q st len
    by (intro exI [of _ ?dec] exI [of _ "if tag = Final then chunk else write_at chunk 0 ?held"])
      (simp add: feed_def next_len_def fd_step_def step_body_def at_record_def pull bF Let_def)
qed

lemma fd_fail_state [simp]: "fd_state (fd_fail dec) = Done"
  by (simp add: fd_fail_def)

lemma open_loop_after_final:
  assumes "fd_state dec = AfterFinal" "take (fd_final_len dec) (fd_final_plaintext dec) = pt" "length pt = fd_final_len dec"
    and "fd_final_len dec \<le> 8192" "length chunk = 8192" "rest = drop pos file" "pos \<le> length file"
  shows "\<exists>dec'. open_loop hw dec file chunk acc pos =
      Some (if rest = [] then Inr (acc @ pt) else Inl TrailingData, dec') \<and> fd_state dec' = Done"
proof (cases "rest = []")
  case True
  have "finish dec chunk = (Inr (fd_final_len dec) :: 'a file_error + nat, fd_fail dec, write_at chunk 0 pt)"
    using assms by (simp add: finish_def Let_def)
  then show ?thesis
    using True assms by (subst open_loop_end [OF _ assms(6,7)]) (simp_all add: next_len_def write_at_def)
next
  case False
  have n: "next_len dec = 1" using assms by (simp add: next_len_def)
  have "feed hw dec (take (next_len dec) rest) chunk = Some (Inl TrailingData :: 'a file_error + nat, fd_fail dec, chunk)"
    using False assms n by (simp add: feed_def fd_step_def Suc_le_eq)
  from open_loop_feed [OF _ assms(6,7) this] show ?thesis using False n by (simp add: Suc_le_eq)
qed

lemma open_loop_truncated:
  assumes "fd_state dec \<noteq> Done" "fd_state dec \<noteq> AfterFinal" "length chunk = 8192"
    and "length rest < next_len dec" "rest = drop pos file" "pos \<le> length file"
  shows "open_loop hw dec file chunk acc pos = Some (Inl Truncated, fd_fail dec)"
  using assms by (subst open_loop_end [OF _ assms(5,6)]) (simp_all add: finish_def)

lemma record_cut:
  "take n (take (n + 16) (drop 5 xs)) = slice 5 (5 + n) xs"
  "drop n (take (n + 16) (drop 5 xs)) = slice (5 + n) (n + 21) xs"
proof -
  show "take n (take (n + 16) (drop 5 xs)) = slice 5 (5 + n) xs" by (simp add: slice_def min_absorb1)
  have "n + 21 - (5 + n) = 16" by simp
  then show "drop n (take (n + 16) (drop 5 xs)) = slice (5 + n) (n + 21) xs"
    by (simp only: slice_def drop_take drop_drop add.commute [of 5 n]) simp
qed

lemma open_loop_records:
  assumes hw: "\<forall>clm \<in> set_option hw. multiplies_carryless clm"
    and "at_record q dec" "fd_state dec = RecordHead" "length chunk = 8192" "rest = drop pos file" "pos \<le> length file"
  shows "\<exists>dec'. open_loop hw dec file chunk acc pos = Some (prepend acc (read_records hw q rest), dec') \<and>
    fd_state dec' = Done"
  using assms
proof (induction hw q rest arbitrary: dec chunk acc pos rule: read_records.induct)
  case (1 hw q rest)
  let ?n = "unat (from_le_bytes (slice 1 5 rest) :: u32)"
  show ?case
  proof (cases "length rest < 5")
    case True
    then show ?thesis
      using 1(4) by (simp add: open_loop_truncated [OF _ _ 1(5) _ 1(6,7)] next_len_def read_records.simps [of hw q rest])
  next
    case long: False
    have n5: "next_len dec = 5" using 1(4) by (simp add: next_len_def)
    note simps = read_records.simps [of hw q rest] Let_def
    have head: "open_loop hw dec file chunk acc pos = Some (Inl e, fd_fail dec)"
      if "feed hw dec (take 5 rest) chunk = Some (Inl e, fd_fail dec, chunk)" for e
      using open_loop_feed [OF _ 1(6,7), of dec hw chunk "Inl e"] that n5 long by simp
    have c: "8192 \<le> length chunk" using 1(5) by simp
    note feed = feed_head [OF 1(4) c]
    show ?thesis
    proof (cases "?n > 8192 \<or> from_byte (rest ! 0) = None \<or> from_byte (rest ! 0) \<noteq> Some Final \<and> ?n \<noteq> 8192")
      case True
      then show ?thesis
        using long by (auto simp: simps feed intro!: exI [of _ "fd_fail dec"] head split: option.splits if_splits)
    next
      case ok: False
      then obtain tag where tag: "from_byte (rest ! 0) = Some tag" "tag = Final \<or> ?n = 8192" "?n \<le> 8192" by auto
      let ?dec = "dec\<lparr>fd_state := RecordBody (rest ! 0) ?n\<rparr>"
      have "feed hw dec (take (next_len dec) rest) chunk = Some (Inr 0 :: 'a file_error + nat, ?dec, chunk)"
        using long tag n5 by (simp add: feed Let_def)
      from open_loop_feed [OF _ 1(6,7) this] have step: "open_loop hw dec file chunk acc pos =
          (open_loop hw ?dec file chunk acc (pos + 5) :: (('a file_error + bytes) \<times> file_decryptor) option)"
        using n5 long by simp
      have rest5: "drop 5 rest = drop (pos + 5) file" "pos + 5 \<le> length file" using 1(6,7) long by (auto simp: add.commute)
      have nl: "next_len ?dec = ?n + 16" by (simp add: next_len_def)
      show ?thesis
      proof (cases "length rest < ?n + 21")
        case True
        have "open_loop hw ?dec file chunk acc (pos + 5) = Some (Inl Truncated :: 'a file_error + bytes, fd_fail ?dec)"
          by (rule open_loop_truncated [OF _ _ 1(5) _ rest5]) (use nl long True in simp_all)
        then show ?thesis using step tag long True by (simp add: simps)
      next
        case whole: False
        let ?b = "rest ! 0" let ?in = "take (?n + 16) (drop 5 rest)" let ?after = "drop (?n + 21) rest"
        have len: "length ?in = ?n + 16" using whole by simp
        have parts: "take ?n ?in = slice 5 (5 + ?n) rest" "drop ?n ?in = slice (5 + ?n) (?n + 21) rest"
          by (rule record_cut)+
        have at: "at_record q ?dec" "fd_state ?dec = RecordBody ?b ?n" using 1(3) by (simp_all add: at_record_def)
        note body = feed_body [OF 1(2) at tag(1,3) len c, unfolded parts]
        have after: "?after = drop (pos + 5 + (?n + 16)) file" "pos + 5 + (?n + 16) \<le> length file"
          using 1(6,7) whole by (auto simp: add_ac)
        show ?thesis
        proof (cases "stream_recv hw q (?b, slice 5 (5 + ?n) rest, slice (5 + ?n) (?n + 21) rest)")
          case None
          obtain dec' chunk' where "feed hw ?dec (take (next_len ?dec) (drop 5 rest)) chunk =
              Some (Inl (if unat (pull_counter q) + 1 < 2 ^ 64 then Auth else CounterExhausted) :: 'a file_error + nat, fd_fail dec', chunk')"
            using body(2) [OF None] nl by auto
          from open_loop_feed [OF _ rest5 this] show ?thesis
            using step nl whole long tag None by (simp add: simps)
        next
          case (Some r)
          then obtain t pt q' where r: "stream_recv hw q (?b, slice 5 (5 + ?n) rest, slice (5 + ?n) (?n + 21) rest) = Some ((t, pt), q')"
            by (cases r) auto
          have k: "length (pull_subkey q) = 32" using 1(3) by (simp add: at_record_def)
          note rp = stream_recv_parts [OF 1(2) k r]
          have t: "t = tag" using rp(1) tag(1) by simp
          have pt: "length pt = ?n" using rp(2) whole by simp
          show ?thesis
          proof (cases "tag = Final")
            case True
            let ?d = "?dec\<lparr>fd_pull := Some q', fd_final_plaintext := write_at (fd_final_plaintext dec) 0 pt,
              fd_final_len := ?n, fd_state := AfterFinal\<rparr>"
            have "feed hw ?dec (take (next_len ?dec) (drop 5 rest)) chunk = Some (Inr 0 :: 'a file_error + nat, ?d, chunk)"
              using body(1) [OF r] nl True by simp
            from open_loop_feed [OF _ rest5 this] have "open_loop hw dec file chunk acc pos =
                (open_loop hw ?d file chunk acc (pos + 5 + (?n + 16)) :: (('a file_error + bytes) \<times> file_decryptor) option)"
              using step nl whole by simp
            moreover have "\<exists>dec'. open_loop hw ?d file chunk acc (pos + 5 + (?n + 16)) =
                Some (if ?after = [] then Inr (acc @ pt) else Inl TrailingData :: 'a file_error + bytes, dec') \<and> fd_state dec' = Done"
              by (rule open_loop_after_final [OF _ _ _ _ 1(5) after]) (use pt tag in \<open>simp_all add: write_at_def\<close>)
            ultimately show ?thesis using long tag whole r True by (auto simp: simps)
          next
            case False
            let ?d = "?dec\<lparr>fd_pull := Some q', fd_state := RecordHead\<rparr>" let ?c = "write_at chunk 0 pt"
            have "feed hw ?dec (take (next_len ?dec) (drop 5 rest)) chunk = Some (Inr ?n :: 'a file_error + nat, ?d, ?c)"
              using body(1) [OF r] nl False by simp
            from open_loop_feed [OF _ rest5 this] have s: "open_loop hw dec file chunk acc pos =
                (open_loop hw ?d file ?c (acc @ pt) (pos + 5 + (?n + 16)) :: (('a file_error + bytes) \<times> file_decryptor) option)"
              using step nl whole pt by (simp add: write_at_def)
            have "\<exists>dec'. open_loop hw ?d file ?c (acc @ pt) (pos + 5 + (?n + 16)) =
                Some (prepend (acc @ pt) (read_records hw q' ?after) :: 'a file_error + bytes, dec') \<and> fd_state dec' = Done"
              by (rule 1(1) [OF _ refl refl refl _ tag(1) _ _ r refl refl False])
                (use 1(2,3,5) long tag whole False rp t pt after in \<open>simp_all add: at_record_def\<close>)
            then show ?thesis using s long tag whole r False
              by (auto simp: simps)
          qed
        qed
      qed
    qed
  qed
qed

lemma open_all_spec:
  assumes hw: "\<forall>clm \<in> set_option hw. multiplies_carryless clm" and key: "length key = 32"
  shows "\<exists>dec'. open_all hw (file_decryptor_new key) file = Some (read_file hw key file :: 'e file_error + bytes, dec') \<and>
    fd_state dec' = Done"
proof -
  let ?d0 = "file_decryptor_new key" let ?c = "replicate 8192 0 :: bytes"
  let ?d1 = "?d0\<lparr>fd_state := Header\<rparr>"
  have st: "fd_state ?d0 = Version" "next_len ?d0 = 1" "next_len ?d1 = 32" by (simp_all add: file_decryptor_new_def next_len_def)
  show ?thesis
  proof (cases "file")
    case Nil
    then have "open_loop hw ?d0 file ?c [] 0 = Some (Inl Truncated :: 'e file_error + bytes, fd_fail ?d0)"
      using st by (intro open_loop_truncated [where rest = "file"]) simp_all
    then show ?thesis using Nil by (simp add: open_all_def read_file_def)
  next
    case (Cons b file')
    have f0: "1 \<le> length file" "file = drop 0 file" using Cons by simp_all
    show ?thesis
    proof (cases "b = 2")
      case False
      then have "feed hw ?d0 (take (next_len ?d0) file) ?c = Some (Inl (UnsupportedVersion b) :: 'e file_error + nat, fd_fail ?d0, ?c)"
        using st Cons by (simp add: feed_def fd_step_def FORMAT_VERSION_def)
      from open_loop_feed [OF _ f0(2) _ this] show ?thesis using False Cons st by (simp add: open_all_def read_file_def)
    next
      case True
      then have "feed hw ?d0 (take (next_len ?d0) file) ?c = Some (Inr 0 :: 'e file_error + nat, ?d1, ?c)"
        using st Cons by (simp add: feed_def fd_step_def FORMAT_VERSION_def)
      from open_loop_feed [OF _ f0(2) _ this, of "[]"] have s1: "open_all hw ?d0 file =
          (open_loop hw ?d1 file ?c [] 1 :: (('e file_error + bytes) \<times> file_decryptor) option)"
        using Cons st by (simp add: open_all_def)
      have f1: "drop 1 file = drop 1 file" "1 \<le> length file" using Cons by simp_all
      show ?thesis
      proof (cases "length file < 33")
        case short: True
        then have "open_loop hw ?d1 file ?c [] 1 = Some (Inl Truncated :: 'e file_error + bytes, fd_fail ?d1)"
          using st by (intro open_loop_truncated [OF _ _ _ _ f1]) auto
        then show ?thesis using s1 short True Cons by (simp add: read_file_def)
      next
        case False
        obtain q where q: "pull_init key (slice 1 33 file) = Some q" "length (pull_subkey q) = 32" "\<not> pull_finalized q"
          using False key by (auto simp: pull_init_def initial_subkey_total)
        let ?d2 = "?d1\<lparr>fd_pull := Some q, fd_key := replicate (length (fd_key ?d1)) 0, fd_state := RecordHead\<rparr>"
        have "feed hw ?d1 (take (next_len ?d1) (drop 1 file)) ?c = Some (Inr 0 :: 'e file_error + nat, ?d2, ?c)"
          using q(1) st False by (simp add: feed_def fd_step_def slice_def file_decryptor_new_def)
        from open_loop_feed [OF _ f1 this, of "[]"] have s2: "open_all hw ?d0 file =
            (open_loop hw ?d2 file ?c [] 33 :: (('e file_error + bytes) \<times> file_decryptor) option)"
          using s1 st False by simp
        have "\<exists>dec'. open_loop hw ?d2 file ?c [] 33 =
            Some (prepend [] (read_records hw q (drop 33 file)) :: 'e file_error + bytes, dec') \<and> fd_state dec' = Done"
          by (rule open_loop_records [OF hw]) (use q False in \<open>simp_all add: at_record_def file_decryptor_new_def\<close>)
        then show ?thesis using s2 q(1) False True Cons by (simp add: read_file_def)
      qed
    qed
  qed
qed

section \<open>The files the reader accepts\<close>

definition file_shape :: "(stream_tag \<times> bytes) list \<Rightarrow> bool" where
  "file_shape ms \<longleftrightarrow> ms \<noteq> [] \<and> (\<forall>m \<in> set (butlast ms). fst m \<noteq> Final \<and> length (snd m) = 8192) \<and>
     fst (last ms) = Final \<and> length (snd (last ms)) \<le> 8192"

lemma file_shape_Cons:
  "file_shape (m # ms) \<longleftrightarrow>
     (if ms = [] then fst m = Final \<and> length (snd m) \<le> 8192 else fst m \<noteq> Final \<and> length (snd m) = 8192 \<and> file_shape ms)"
  by (auto simp: file_shape_def)

lemma record_bytes_parts:
  fixes b :: u8 and ct t after :: bytes
  assumes "length ct \<le> 8192" "length t = 16"
  defines "rest \<equiv> record_bytes (b, ct, t) @ after"
  shows "rest ! 0 = b" "unat (from_le_bytes (slice 1 5 rest) :: u32) = length ct"
    "slice 5 (5 + length ct) rest = ct" "slice (5 + length ct) (length ct + 21) rest = t" "drop (length ct + 21) rest = after"
    "length rest = length ct + 21 + length after"
proof -
  let ?l = "to_le_bytes 4 (of_nat (length ct) :: u32)"
  have r: "rest = [b] @ ?l @ ct @ t @ after" by (simp add: rest_def record_bytes_def)
  show "rest ! 0 = b" by (simp add: r)
  have "slice 1 5 rest = ?l" by (simp add: r slice_def)
  then show "unat (from_le_bytes (slice 1 5 rest) :: u32) = length ct" using assms(1) by (simp add: unat_of_nat)
  show "slice 5 (5 + length ct) rest = ct" by (simp add: r slice_def)
  have r': "rest = ([b] @ ?l @ ct) @ t @ after" "length ([b] @ ?l @ ct) = 5 + length ct" by (simp_all add: r)
  show "slice (5 + length ct) (length ct + 21) rest = t"
    unfolding r'(1) using r'(2) assms(2) by (intro slice_middle) simp_all
  show "drop (length ct + 21) rest = after"
  proof -
    have "rest = (([b] @ ?l @ ct) @ t) @ after" "length (([b] @ ?l @ ct) @ t) = length ct + 21"
      using r'(1) assms(2) by simp_all
    then show ?thesis by (metis append_eq_conv_conj)
  qed
  show "length rest = length ct + 21 + length after" using assms(2) by (simp add: r)
qed

lemma record_split:
  fixes rest :: bytes
  defines "n \<equiv> unat (from_le_bytes (slice 1 5 rest) :: u32)"
  assumes "n + 21 \<le> length rest"
  shows "rest = record_bytes (rest ! 0, slice 5 (5 + n) rest, slice (5 + n) (n + 21) rest) @ drop (n + 21) rest"
proof -
  obtain h a b c d where r: "rest = [h] @ a @ b @ c @ d" "length a = 4" "length b = n" "length c = 16" "d = drop (n + 21) rest"
    by (rule five_parts [OF assms(2)])
  have "slice 1 5 rest = a" "slice 5 (5 + n) rest = b" using r(1-3) by (simp_all add: slice_def)
  moreover have "slice (5 + n) (n + 21) (([h] @ a @ b) @ c @ d) = c" using r(2-4) by (intro slice_middle) simp_all
  then have "slice (5 + n) (n + 21) rest = c" using r(1) by simp
  moreover have "to_le_bytes 4 (of_nat n :: u32) = a" using r(2) \<open>slice 1 5 rest = a\<close> by (simp add: n_def)
  ultimately have "record_bytes (rest ! 0, slice 5 (5 + n) rest, slice (5 + n) (n + 21) rest) = [h] @ a @ b @ c"
    using r(1,3) by (simp add: record_bytes_def)
  then show ?thesis using r(1) r(5) [symmetric] by simp
qed

lemma read_records_record:
  assumes "length ct \<le> 8192" "length t = 16" "from_byte b = Some tag" "tag = Final \<or> length ct = 8192"
  shows "read_records hw q (record_bytes (b, ct, t) @ after) =
    (case stream_recv hw q (b, ct, t) of
       None \<Rightarrow> Inl (if unat (pull_counter q) + 1 < 2 ^ 64 then Auth else CounterExhausted)
     | Some ((t, pt), q) \<Rightarrow>
         if tag = Final then if after = [] then Inr pt else Inl TrailingData
         else prepend pt (read_records hw q after))"
proof -
  define rest where "rest = record_bytes (b, ct, t) @ after"
  note p = record_bytes_parts [OF assms(1,2), of b after, folded rest_def]
  have "\<not> length rest < 5" "\<not> length rest < length ct + 21" "\<not> 8192 < length ct" using p(6) assms(1) by simp_all
  then show ?thesis
    unfolding rest_def [symmetric] read_records.simps [of hw q rest] Let_def p using assms(3,4) by auto
qed

lemma read_records_accepted:
  assumes "\<forall>clm \<in> set_option hw. multiplies_carryless clm" "length (pull_subkey q) = 32"
    and "read_records hw q rest = (Inr pt :: 'e file_error + bytes)"
  shows "\<exists>ms cs q'. file_shape ms \<and> run_all (stream_recv hw) q cs = Some (ms, q') \<and>
    rest = concat (map record_bytes cs) \<and> pt = concat (map snd ms)"
  using assms
proof (induction hw q rest arbitrary: pt rule: read_records.induct)
  case (1 hw q rest)
  let ?n = "unat (from_le_bytes (slice 1 5 rest) :: u32)"
  let ?c = "(rest ! 0, slice 5 (5 + ?n) rest, slice (5 + ?n) (?n + 21) rest)" let ?after = "drop (?n + 21) rest"
  note ok = 1(4) [unfolded read_records.simps [of hw q rest] Let_def]
  have b: "\<not> length rest < 5" "\<not> 8192 < ?n" using ok by (auto split: if_splits)
  then obtain tag where tag: "from_byte (rest ! 0) = Some tag" using ok by (auto split: option.splits)
  have n: "\<not> (tag \<noteq> Final \<and> ?n \<noteq> 8192)" using ok b tag by (auto split: if_splits)
  have l: "\<not> length rest < ?n + 21" using ok b tag n by (auto split: if_splits)
  obtain t m q' where r: "stream_recv hw q ?c = Some ((t, m), q')"
    using ok b tag n l by (auto split: option.splits)
  note rp = stream_recv_parts [OF 1(2,3) r]
  have t: "t = tag" and m: "length m = ?n" using rp(1,2) tag l by simp_all
  have rest: "rest = record_bytes ?c @ ?after" using l by (intro record_split) simp
  show ?case
  proof (cases "tag = Final")
    case True
    then have "?after = []" "pt = m" using ok b tag n l r by (auto split: if_splits)
    then show ?thesis using rest r t m True b
      by (intro exI [of _ "[(t, m)]"] exI [of _ "[?c]"] exI [of _ q']) (simp add: file_shape_def)
  next
    case False
    then have "prepend m (read_records hw q' ?after :: 'e file_error + bytes) = Inr pt" using ok b tag n l r by auto
    then obtain pt' where pt: "read_records hw q' ?after = (Inr pt' :: 'e file_error + bytes)" "pt = m @ pt'" by (auto simp: prepend_eq_Inr)
    have "\<exists>ms cs q''. file_shape ms \<and> run_all (stream_recv hw) q' cs = Some (ms, q'') \<and>
        ?after = concat (map record_bytes cs) \<and> pt' = concat (map snd ms)"
      by (rule 1(1) [OF b(1) refl refl refl b(2) tag n l r refl refl False 1(2) rp(5) pt(1)])
    then obtain ms cs q'' where "file_shape ms" "run_all (stream_recv hw) q' cs = Some (ms, q'')"
      "?after = concat (map record_bytes cs)" "pt' = concat (map snd ms)" by blast
    moreover from this have "ms \<noteq> []" by (simp add: file_shape_def)
    ultimately show ?thesis using rest r t m n False pt(2)
      by (intro exI [of _ "(t, m) # ms"] exI [of _ "?c # cs"] exI [of _ q'']) (simp add: file_shape_Cons)
  qed
qed

lemma read_records_accepts:
  assumes "\<forall>clm \<in> set_option hw. multiplies_carryless clm" "length (pull_subkey q) = 32"
    and "file_shape ms" "run_all (stream_recv hw) q cs = Some (ms, q')"
  shows "read_records hw q (concat (map record_bytes cs)) = (Inr (concat (map snd ms)) :: 'e file_error + bytes)"
  using assms(2-4)
proof (induction cs arbitrary: q ms)
  case Nil
  then show ?case by (simp add: file_shape_def)
next
  case (Cons c cs)
  obtain b ct t where c: "c = (b, ct, t)" by (cases c) auto
  obtain tag m q1 ms' where r: "stream_recv hw q c = Some ((tag, m), q1)" "run_all (stream_recv hw) q1 cs = Some (ms', q')"
    "ms = (tag, m) # ms'"
    using Cons.prems(3) by (auto split: Option.bind_splits)
  note rp = stream_recv_parts [OF assms(1) Cons.prems(1) r(1) [unfolded c]]
  have sh: "length ct \<le> 8192" "tag = Final \<or> length ct = 8192" "tag = Final \<longleftrightarrow> ms' = []"
    using Cons.prems(2) rp(2) by (auto simp: r(3) file_shape_Cons split: if_splits)
  have "from_byte b = Some tag" using rp(1) by simp
  note step = read_records_record [OF sh(1) rp(3) this sh(2), of hw q "concat (map record_bytes cs)", where 'a = 'e]
  show ?case
  proof (cases "tag = Final")
    case True
    then have "ms' = []" using sh(3) by simp
    then have "cs = []" using r(2) by (cases cs) (auto split: Option.bind_splits)
    then show ?thesis using step r(1) c True by (simp add: r(3) \<open>ms' = []\<close>)
  next
    case False
    then have "file_shape ms'" using Cons.prems(2) sh(3) by (simp add: r(3) file_shape_Cons)
    then have "read_records hw q1 (concat (map record_bytes cs)) = (Inr (concat (map snd ms')) :: 'e file_error + bytes)"
      using Cons.IH [OF rp(5) _ r(2)] by simp
    then show ?thesis using step r(1) c False by (simp add: r(3))
  qed
qed

lemma read_records_short: "length rest < 5 \<Longrightarrow> read_records hw q rest = Inl Truncated"
  by (subst read_records.simps) simp

lemma read_records_partial:
  assumes "length ct \<le> 8192" "length t = 16" "from_byte b = Some tag" "tag = Final \<or> length ct = 8192" "n < length ct + 21"
  shows "read_records hw q (take n (record_bytes (b, ct, t) @ after)) = Inl Truncated"
proof (cases "n < 5")
  case True
  have "length (take n (record_bytes (b, ct, t) @ after)) \<le> n" by (simp only: length_take min.cobounded2)
  then have "length (take n (record_bytes (b, ct, t) @ after)) < 5" using True by (rule le_less_trans)
  then show ?thesis by (rule read_records_short)
next
  case False
  define rest where "rest = record_bytes (b, ct, t) @ after"
  note p = record_bytes_parts [OF assms(1,2), of b after, folded rest_def]
  have "slice 1 5 (take n rest) = slice 1 5 rest" using False by (simp add: slice_def drop_take)
  moreover have "take n rest ! 0 = b" using False p(1) by simp
  moreover have "length (take n rest) = n" using p(6) assms(5) by simp
  ultimately show ?thesis
    unfolding rest_def [symmetric] read_records.simps [of hw q "take n rest"] Let_def using False assms p(2) by simp
qed

lemma read_records_cut:
  assumes hw: "\<forall>clm \<in> set_option hw. multiplies_carryless clm" and "length (pull_subkey q) = 32"
    and "file_shape ms" "run_all (stream_recv hw) q cs = Some (ms, q')"
  shows "n < length (concat (map record_bytes cs)) \<Longrightarrow>
      read_records hw q (take n (concat (map record_bytes cs))) = (Inl Truncated :: 'e file_error + bytes)"
    and "x \<noteq> [] \<Longrightarrow> read_records hw q (concat (map record_bytes cs) @ x) = (Inl TrailingData :: 'e file_error + bytes)"
proof -
  have "(n < length (concat (map record_bytes cs)) \<longrightarrow>
        read_records hw q (take n (concat (map record_bytes cs))) = (Inl Truncated :: 'e file_error + bytes)) \<and>
      (x \<noteq> [] \<longrightarrow> read_records hw q (concat (map record_bytes cs) @ x) = (Inl TrailingData :: 'e file_error + bytes))"
    using assms(2-4)
  proof (induction cs arbitrary: q ms n)
    case Nil
    then show ?case by (simp add: file_shape_def)
  next
    case (Cons c cs)
    obtain b ct t where c: "c = (b, ct, t)" by (cases c) auto
    obtain tag m q1 ms' where r: "stream_recv hw q c = Some ((tag, m), q1)" "run_all (stream_recv hw) q1 cs = Some (ms', q')"
      "ms = (tag, m) # ms'"
      using Cons.prems(3) by (auto split: Option.bind_splits)
    note rp = stream_recv_parts [OF hw Cons.prems(1) r(1) [unfolded c]]
    have sh: "length ct \<le> 8192" "tag = Final \<or> length ct = 8192" "tag = Final \<longleftrightarrow> ms' = []"
      using Cons.prems(2) rp(2) by (auto simp: r(3) file_shape_Cons split: if_splits)
    have b: "from_byte b = Some tag" using rp(1) by simp
    note step = read_records_record [OF sh(1) rp(3) b sh(2), of hw q, where 'a = 'e]
    have lc: "length (record_bytes c) = length ct + 21" using rp(3) by (simp add: c length_record_bytes)
    show ?case
    proof (cases "tag = Final")
      case True
      then have "cs = []" using sh(3) r(2) by (cases cs) (auto split: Option.bind_splits)
      then show ?thesis
        using read_records_partial [OF sh(1) rp(3) b sh(2), of n hw q "[]", where 'a = 'e] step [of x] r(1) True lc by (simp add: c)
    next
      case False
      then have "file_shape ms'" using Cons.prems(2) sh(3) by (simp add: r(3) file_shape_Cons)
      note ih = Cons.IH [OF rp(5) this r(2)]
      show ?thesis
      proof (cases "n < length ct + 21")
        case True
        then show ?thesis
          using read_records_partial [OF sh(1) rp(3) b sh(2), of n hw q, where 'a = 'e] step r(1) ih False by (simp add: c)
      next
        case n: False
        then have "take n (record_bytes c @ concat (map record_bytes cs)) =
            record_bytes c @ take (n - (length ct + 21)) (concat (map record_bytes cs))" using lc by simp
        then show ?thesis
          using step r(1) ih [of "n - (length ct + 21)"] False n lc by (auto simp: c)
      qed
    qed
  qed
  then show "n < length (concat (map record_bytes cs)) \<Longrightarrow>
      read_records hw q (take n (concat (map record_bytes cs))) = (Inl Truncated :: 'e file_error + bytes)"
    "x \<noteq> [] \<Longrightarrow> read_records hw q (concat (map record_bytes cs) @ x) = (Inl TrailingData :: 'e file_error + bytes)" by blast+
qed

end
