(* ===== verification/Secretstream_Runs.thy ===== *)
theory Secretstream_Runs
  imports Secretstream_File
begin

text \<open>
  What a caller of the stream-file reader (\<open>crates/dstu-core/src/crypto_secretstream/file.rs\<close>) can
  observe over any sequence of calls: the invariant of the decryptor's state machine, by induction on
  runs.
\<close>

section \<open>Runs of a decryptor\<close>

text \<open>Any sequence of calls to \<open>feed\<close> and \<open>finish\<close>, refused ones included: the bytes consumed and the
  plaintext released so far.\<close>

inductive dec_run :: "clmul \<Rightarrow> bytes \<Rightarrow> bytes \<Rightarrow> bytes \<Rightarrow> file_decryptor \<Rightarrow> bool" for hw key where
  start: "dec_run hw key [] [] (file_decryptor_new key)"
| fed: "dec_run hw key inp rel d \<Longrightarrow> feed hw d input out = Some (Inr n :: unit file_error + nat, d', out') \<Longrightarrow>
    dec_run hw key (inp @ input) (rel @ take n out') d'"
| feed_refused: "dec_run hw key inp rel d \<Longrightarrow> feed hw d input out = Some (Inl e :: unit file_error + nat, d', out') \<Longrightarrow>
    dec_run hw key inp rel d'"
| finished: "dec_run hw key inp rel d \<Longrightarrow> finish d out = (Inr n :: unit file_error + nat, d', out') \<Longrightarrow>
    dec_run hw key inp (rel @ take n out') d'"
| finish_refused: "dec_run hw key inp rel d \<Longrightarrow> finish d out = (Inl e :: unit file_error + nat, d', out') \<Longrightarrow>
    dec_run hw key inp rel d'"

text \<open>The bytes \<open>inp\<close> are a version, a header and records that authenticate, in order, to the chunks
  \<open>ms\<close>.\<close>

definition authentic :: "clmul \<Rightarrow> bytes \<Rightarrow> bytes \<Rightarrow> (stream_tag \<times> bytes) list \<Rightarrow> pull_state \<Rightarrow> bool" where
  "authentic hw key inp ms q \<longleftrightarrow> (\<exists>header cs. length header = 32 \<and> inp = [2] @ header @ concat (map record_bytes cs) \<and>
     run_all (stream_recv hw) (the (pull_init key header)) cs = Some (ms, q))"

definition full_chunks :: "(stream_tag \<times> bytes) list \<Rightarrow> bool" where
  "full_chunks ms \<longleftrightarrow> (\<forall>m \<in> set ms. fst m \<noteq> Final \<and> length (snd m) = 8192)"

text \<open>Released bytes come from a prefix of the input that was fed: whole records, accepted under the key.\<close>

definition released :: "clmul \<Rightarrow> bytes \<Rightarrow> bytes \<Rightarrow> bytes \<Rightarrow> bool" where
  "released hw key inp rel \<longleftrightarrow> rel = [] \<or>
     (\<exists>inp' rest ms q. inp = inp' @ rest \<and> authentic hw key inp' ms q \<and> rel = concat (map snd ms))"

definition dec_inv :: "clmul \<Rightarrow> bytes \<Rightarrow> bytes \<Rightarrow> bytes \<Rightarrow> file_decryptor \<Rightarrow> bool" where
  "dec_inv hw key inp rel d \<longleftrightarrow> length (fd_final_plaintext d) = 8192 \<and>
     fd_key d = (if fd_state d \<in> {Version, Header} then key else replicate 32 0) \<and>
     (case fd_state d of
       Version \<Rightarrow> inp = [] \<and> rel = []
     | Header \<Rightarrow> inp = [2] \<and> rel = []
     | RecordHead \<Rightarrow> \<exists>ms q. authentic hw key inp ms q \<and> full_chunks ms \<and> rel = concat (map snd ms) \<and> at_record q d
     | RecordBody b len \<Rightarrow> \<exists>inp' ms q tag. inp = inp' @ [b] @ to_le_bytes 4 (of_nat len :: u32) \<and>
         from_byte b = Some tag \<and> (tag = Final \<or> len = 8192) \<and> len \<le> 8192 \<and>
         authentic hw key inp' ms q \<and> full_chunks ms \<and> rel = concat (map snd ms) \<and> at_record q d
     | AfterFinal \<Rightarrow> \<exists>ms q pt. authentic hw key inp (ms @ [(Final, pt)]) q \<and> full_chunks ms \<and> rel = concat (map snd ms) \<and>
         length pt \<le> 8192 \<and> fd_final_len d = length pt \<and> take (length pt) (fd_final_plaintext d) = pt
     | Done \<Rightarrow> released hw key inp rel \<and>
         fd_pull d = None \<and> fd_final_plaintext d = replicate 8192 0 \<and> fd_final_len d = 0)"

lemma run_all_unsnoc:
  "run_all step s xs = Some (ys @ [y], s2) \<Longrightarrow> \<exists>xs' x s1. xs = xs' @ [x] \<and> run_all step s xs' = Some (ys, s1)"
proof (induction ys arbitrary: s xs)
  case Nil
  then obtain x where "xs = [x]" by (cases xs; cases "tl xs") (auto split: Option.bind_splits)
  then show ?case by simp
next
  case (Cons z ys)
  then obtain x xs1 s1 where x: "xs = x # xs1" "step s x = Some (z, s1)" "run_all step s1 xs1 = Some (ys @ [y], s2)"
    by (cases xs) (auto split: Option.bind_splits)
  from Cons.IH [OF x(3)] obtain xs' x' s3 where "xs1 = xs' @ [x']" "run_all step s1 xs' = Some (ys, s3)" by blast
  with x(1,2) show ?case by (intro exI [of _ "x # xs'"] exI [of _ x'] exI [of _ s3]) simp
qed

lemma authentic_unsnoc:
  assumes "authentic hw key inp (ms @ [m]) q"
  shows "\<exists>inp' rest q'. inp = inp' @ rest \<and> authentic hw key inp' ms q'"
proof -
  obtain header cs where h: "length header = 32" "inp = [2] @ header @ concat (map record_bytes cs)"
    "run_all (stream_recv hw) (the (pull_init key header)) cs = Some (ms @ [m], q)"
    using assms unfolding authentic_def by blast
  from run_all_unsnoc [OF h(3)] obtain cs' c q' where "cs = cs' @ [c]"
    "run_all (stream_recv hw) (the (pull_init key header)) cs' = Some (ms, q')" by blast
  then show ?thesis unfolding authentic_def using h(1,2)
    by (intro exI [of _ "[2] @ header @ concat (map record_bytes cs')"] exI [of _ "record_bytes c"] exI [of _ q']) auto
qed

lemma releasedI: "authentic hw key inp' ms q \<Longrightarrow> released hw key (inp' @ rest) (concat (map snd ms))"
  by (auto simp: released_def)

lemma dec_inv_released:
  assumes "dec_inv hw key inp rel d"
  shows "released hw key inp rel"
proof (cases "fd_state d")
  case RecordHead
  then show ?thesis using assms releasedI [of hw key inp _ _ "[]"] by (auto simp: dec_inv_def)
next
  case (RecordBody b len)
  then show ?thesis using assms releasedI by (fastforce simp: dec_inv_def)
next
  case AfterFinal
  then obtain ms q pt where "authentic hw key inp (ms @ [(Final, pt)]) q" "rel = concat (map snd ms)"
    using assms by (auto simp: dec_inv_def)
  then show ?thesis using authentic_unsnoc releasedI by blast
qed (use assms in \<open>simp_all add: dec_inv_def released_def\<close>)

lemma dec_inv_fail:
  assumes "released hw key inp rel" "length (fd_final_plaintext d) = 8192" "length (fd_key d) = 32"
  shows "dec_inv hw key inp rel (fd_fail d)"
  using assms by (simp add: dec_inv_def fd_fail_def)

lemma run_all_snoc:
  "run_all step s xs = Some (ys, s1) \<Longrightarrow> step s1 x = Some (y, s2) \<Longrightarrow> run_all step s (xs @ [x]) = Some (ys @ [y], s2)"
  by (induction xs arbitrary: s ys) (auto split: Option.bind_splits)

lemma authentic_snoc:
  assumes "authentic hw key inp ms q" "stream_recv hw q c = Some (m, q')"
  shows "authentic hw key (inp @ record_bytes c) (ms @ [m]) q'"
proof -
  obtain header cs where h: "length header = 32" "inp = [2] @ header @ concat (map record_bytes cs)"
    "run_all (stream_recv hw) (the (pull_init key header)) cs = Some (ms, q)"
    using assms(1) unfolding authentic_def by blast
  from run_all_snoc [of "stream_recv hw", OF h(3) assms(2)] h(1,2) show ?thesis
    unfolding authentic_def by (intro exI [of _ header] exI [of _ "cs @ [c]"]) simp
qed

text \<open>A successful \<open>feed\<close>, state by state.\<close>

lemma dec_inv_header:
  assumes "length key = 32" "dec_inv hw key inp rel d" "fd_state d = Header" "length input = 32"
    and "feed hw d input out = Some (r :: 'e file_error + nat, d', out')" "8192 \<le> length out"
  shows "r = Inr 0 \<and> dec_inv hw key (inp @ input) rel d'"
proof -
  have k: "fd_key d = key" "inp = [2]" "rel = []" "length (fd_final_plaintext d) = 8192" using assms(2,3) by (auto simp: dec_inv_def)
  obtain q where q: "pull_init key input = Some q" "length (pull_subkey q) = 32" "\<not> pull_finalized q"
    using assms by (auto simp: pull_init_def initial_subkey_total)
  have a: "authentic hw key (inp @ input) [] q"
    unfolding authentic_def using k assms(4) q by (intro exI [of _ input] exI [of _ "[]"]) simp
  have d: "r = Inr 0" "d' = d\<lparr>fd_pull := Some q, fd_key := replicate (length (fd_key d)) 0, fd_state := RecordHead\<rparr>"
    using assms(3-6) q(1) k(1) by (auto simp: feed_def fd_step_def next_len_def)
  have "\<exists>ms q. authentic hw key (inp @ input) ms q \<and> full_chunks ms \<and> rel = concat (map snd ms) \<and> at_record q d'"
    using a q k(3,4) d(2) by (intro exI [of _ "[]"] exI [of _ q]) (simp add: full_chunks_def at_record_def)
  then show ?thesis using d k assms(1) by (simp add: dec_inv_def)
qed

lemma dec_inv_head:
  assumes "dec_inv hw key inp rel d" "fd_state d = RecordHead" "length input = 5"
    and f: "feed hw d input out = Some (Inr n :: 'e file_error + nat, d', out')" and out: "8192 \<le> length out"
  shows "n = 0 \<and> dec_inv hw key (inp @ input) rel d'"
proof -
  let ?w = "from_le_bytes (slice 1 5 input) :: u32"
  have "input = input ! 0 # slice 1 5 input" using assms(3) by (cases input) (simp_all add: slice_def)
  moreover have "to_le_bytes 4 (of_nat (unat ?w) :: u32) = slice 1 5 input" using assms(3) by simp
  ultimately have i: "input = [input ! 0] @ to_le_bytes 4 (of_nat (unat ?w) :: u32)" by simp
  have "feed hw d (take 5 input) out = Some (Inr n :: 'e file_error + nat, d', out')" using f assms(3) by simp
  then obtain tag where d: "n = 0" "d' = d\<lparr>fd_state := RecordBody (input ! 0) (unat ?w)\<rparr>"
    and t: "from_byte (input ! 0) = Some tag" "tag = Final \<or> unat ?w = 8192" "unat ?w \<le> 8192"
    unfolding feed_head [OF assms(2) out, of input, unfolded assms(3), OF order_refl] Let_def
    by (auto split: if_splits option.splits)
  obtain ms q where a: "authentic hw key inp ms q" "full_chunks ms" "rel = concat (map snd ms)" "at_record q d"
    using assms(1,2) by (auto simp: dec_inv_def)
  have at: "at_record q d'" using a(4) d(2) by (simp add: at_record_def)
  have "inp @ input = inp @ [input ! 0] @ to_le_bytes 4 (of_nat (unat ?w) :: u32)" using i by simp
  then have "\<exists>inp' ms q tag. inp @ input = inp' @ [input ! 0] @ to_le_bytes 4 (of_nat (unat ?w) :: u32) \<and>
      from_byte (input ! 0) = Some tag \<and> (tag = Final \<or> unat ?w = 8192) \<and> unat ?w \<le> 8192 \<and>
      authentic hw key inp' ms q \<and> full_chunks ms \<and> rel = concat (map snd ms) \<and> at_record q d'"
    using t a(1-3) at by blast
  then show ?thesis using d(1) assms(1,2) unfolding dec_inv_def by (simp add: d(2))
qed

lemma dec_inv_body:
  assumes hw: "\<forall>clm \<in> set_option hw. multiplies_carryless clm"
    and "dec_inv hw key inp rel d" "fd_state d = RecordBody b len" "length input = len + 16"
    and f: "feed hw d input out = Some (Inr n :: 'e file_error + nat, d', out')" and out: "8192 \<le> length out"
  shows "dec_inv hw key (inp @ input) (rel @ take n out') d'"
proof -
  obtain inp' ms q tag where i: "inp = inp' @ [b] @ to_le_bytes 4 (of_nat len :: u32)"
    and t: "from_byte b = Some tag" "tag = Final \<or> len = 8192" "len \<le> 8192"
    and a: "authentic hw key inp' ms q" "full_chunks ms" "rel = concat (map snd ms)" "at_record q d"
    and k: "fd_key d = replicate 32 0" "length (fd_final_plaintext d) = 8192"
    using assms(2,3) by (auto simp: dec_inv_def)
  let ?c = "(b, take len input, drop len input)"
  have c: "record_bytes ?c = [b] @ to_le_bytes 4 (of_nat len :: u32) @ input" using assms(4) by (simp add: record_bytes_def min_absorb2)
  note body = feed_body [OF hw a(4) assms(3) t(1,3) assms(4) out]
  obtain t' m q' where r: "stream_recv hw q ?c = Some ((t', m), q')"
  proof (cases "stream_recv hw q ?c")
    case None
    have "\<exists>dec' chunk'. feed hw d input out =
        Some (Inl (if unat (pull_counter q) + 1 < 2 ^ 64 then Auth else CounterExhausted) :: 'e file_error + nat, fd_fail dec', chunk') \<and>
        length (fd_final_plaintext dec') = 8192 \<and> fd_key dec' = fd_key d" by (rule body(2) [OF None])
    then show thesis using f by auto
  qed auto
  have sub: "length (pull_subkey q) = 32" using a(4) by (simp add: at_record_def)
  note rp = stream_recv_parts [OF hw sub r]
  have tm: "t' = tag" "length m = len" using rp(1,2) t(1) assms(4) by simp_all
  have au: "authentic hw key (inp @ input) (ms @ [(tag, m)]) q'"
    using authentic_snoc [OF a(1) r] tm(1) c i by simp
  have res: "feed hw d input out = Some (if tag = Final
      then (Inr 0 :: 'e file_error + nat, d\<lparr>fd_pull := Some q', fd_final_plaintext := write_at (fd_final_plaintext d) 0 m,
              fd_final_len := len, fd_state := AfterFinal\<rparr>, out)
      else (Inr len, d\<lparr>fd_pull := Some q', fd_state := RecordHead\<rparr>, write_at out 0 m))" by (rule body(1) [OF r])
  show ?thesis
  proof (cases "tag = Final")
    case True
    then have d: "n = 0" "d' = d\<lparr>fd_pull := Some q', fd_final_plaintext := write_at (fd_final_plaintext d) 0 m,
        fd_final_len := len, fd_state := AfterFinal\<rparr>" using f res by simp_all
    have "take (length m) (fd_final_plaintext d') = m" "length (fd_final_plaintext d') = 8192"
      using tm k t(3) by (simp_all add: d(2) write_at_def)
    then show ?thesis using au True a(2,3) tm t(3) k(1) d unfolding dec_inv_def
      by (auto simp: d(2) intro!: exI [of _ ms])
  next
    case False
    then have d: "n = len" "d' = d\<lparr>fd_pull := Some q', fd_state := RecordHead\<rparr>" "out' = write_at out 0 m" using f res by simp_all
    have "full_chunks (ms @ [(tag, m)])" using a(2) False t(2) tm by (simp add: full_chunks_def)
    moreover have "rel @ take n out' = concat (map snd (ms @ [(tag, m)]))" using a(3) d tm by (simp add: write_at_def)
    moreover have "at_record q' d'" using rp(5,6) tm False k d by (simp add: at_record_def)
    ultimately have "\<exists>ms q. authentic hw key (inp @ input) ms q \<and> full_chunks ms \<and> rel @ take n out' = concat (map snd ms) \<and> at_record q d'"
      using au by blast
    then show ?thesis using k d unfolding dec_inv_def by simp
  qed
qed

text \<open>A refused \<open>feed\<close> leaves the state as it was or wipes it.\<close>

lemma feed_refused_state:
  assumes hw: "\<forall>clm \<in> set_option hw. multiplies_carryless clm" and key: "length key = 32"
    and inv: "dec_inv hw key inp rel d" and f: "feed hw d input out = Some (Inl e :: 'e file_error + nat, d', out')"
  shows "d' = d \<or> (\<exists>d1. d' = fd_fail d1 \<and> length (fd_final_plaintext d1) = 8192 \<and> length (fd_key d1) = 32)"
proof (cases "fd_state d = Done \<or> length input \<noteq> next_len d \<or> length out < 8192")
  case True
  then show ?thesis using f by (auto simp: feed_def split: if_splits)
next
  case False
  have fp: "length (fd_final_plaintext d) = 8192" and kl: "length (fd_key d) = 32" using inv key by (auto simp: dec_inv_def)
  show ?thesis
  proof (cases "fd_state d")
    case (RecordBody b len)
    obtain q tag where q: "at_record q d" "from_byte b = Some tag" "len \<le> 8192" using inv RecordBody by (auto simp: dec_inv_def)
    have l: "length input = len + 16" "8192 \<le> length out" using False RecordBody by (simp_all add: next_len_def)
    note body = feed_body [OF hw q(1) RecordBody q(2,3) l]
    show ?thesis
    proof (cases "stream_recv hw q (b, take len input, drop len input)")
      case None
      have "\<exists>dec' chunk'. feed hw d input out =
        Some (Inl (if unat (pull_counter q) + 1 < 2 ^ 64 then Auth else CounterExhausted) :: 'e file_error + nat, fd_fail dec', chunk') \<and>
        length (fd_final_plaintext dec') = 8192 \<and> fd_key dec' = fd_key d" by (rule body(2) [OF None])
      then show ?thesis using f kl by auto
    next
      case (Some r)
      obtain t m q' where r: "stream_recv hw q (b, take len input, drop len input) = Some ((t, m), q')" using Some by (cases r) auto
      show ?thesis using f unfolding body(1) [OF r] by (auto split: if_splits)
    qed
  next
    case Header
    have "length input = 32" "8192 \<le> length out" using False Header by (simp_all add: next_len_def)
    then show ?thesis using dec_inv_header [OF key inv Header _ f] by simp
  qed (use False f fp kl in \<open>auto simp: feed_def fd_step_def step_head_def Let_def split: if_splits option.splits prod.splits\<close>)
qed

lemma dec_inv_feed:
  assumes "\<forall>clm \<in> set_option hw. multiplies_carryless clm" "length key = 32" "dec_inv hw key inp rel d"
    and f: "feed hw d input out = Some (Inr n :: 'e file_error + nat, d', out')"
  shows "dec_inv hw key (inp @ input) (rel @ take n out') d'"
proof -
  have l: "length input = next_len d" "8192 \<le> length out" "fd_state d \<noteq> Done" using f by (auto simp: feed_def split: if_splits)
  show ?thesis
  proof (cases "fd_state d")
    case Version
    then show ?thesis using f l assms(3)
      by (cases input) (auto simp: feed_def fd_step_def next_len_def dec_inv_def FORMAT_VERSION_def split: if_splits)
  next
    case Header
    then show ?thesis using dec_inv_header [OF assms(2,3) Header _ f l(2)] l by (simp add: next_len_def)
  next
    case RecordHead
    then show ?thesis using dec_inv_head [OF assms(3) RecordHead _ f l(2)] l by (simp add: next_len_def)
  next
    case (RecordBody b len)
    then show ?thesis using dec_inv_body [OF assms(1,3) RecordBody _ f l(2)] l by (simp add: next_len_def)
  qed (use f l in \<open>auto simp: feed_def fd_step_def\<close>)
qed

lemma dec_inv_finish_ok:
  assumes "length key = 32" "dec_inv hw key inp rel d" "finish d out = (Inr n :: 'e file_error + nat, d', out')"
  obtains ms pt q where "authentic hw key inp (ms @ [(Final, pt)]) q" "full_chunks ms" "length pt \<le> 8192"
    "rel @ take n out' = concat (map snd (ms @ [(Final, pt)]))" "d' = fd_fail d"
proof -
  have st: "fd_state d = AfterFinal" "8192 \<le> length out" using assms(3) by (auto simp: finish_def split: if_splits)
  then obtain ms q pt where a: "authentic hw key inp (ms @ [(Final, pt)]) q" "full_chunks ms" "rel = concat (map snd ms)"
    "length pt \<le> 8192" "fd_final_len d = length pt" "take (length pt) (fd_final_plaintext d) = pt"
    using assms(2) by (auto simp: dec_inv_def)
  have "n = length pt" "d' = fd_fail d" "out' = write_at out 0 pt" using assms(3) st a(5,6) by (auto simp: finish_def Let_def)
  then show thesis using that [OF a(1,2,4)] a(3) st(2) by (simp add: write_at_def)
qed

lemma dec_inv_finish:
  assumes "length key = 32" "dec_inv hw key inp rel d" "finish d out = (r :: 'e file_error + nat, d', out')"
  shows "case r of Inr n \<Rightarrow> dec_inv hw key inp (rel @ take n out') d' | Inl e \<Rightarrow> dec_inv hw key inp rel d'"
proof -
  have fp: "length (fd_final_plaintext d) = 8192" "length (fd_key d) = 32" using assms by (auto simp: dec_inv_def)
  show ?thesis
  proof (cases r)
    case (Inl e)
    then have "d' = d \<or> d' = fd_fail d" using assms(3) by (auto simp: finish_def Let_def split: if_splits)
    then show ?thesis using Inl assms(2) dec_inv_fail [OF dec_inv_released [OF assms(2)] fp] by auto
  next
    case (Inr n)
    obtain ms pt q where "authentic hw key inp (ms @ [(Final, pt)]) q" "rel @ take n out' = concat (map snd (ms @ [(Final, pt)]))"
      "d' = fd_fail d"
      by (rule dec_inv_finish_ok [OF assms(1,2) assms(3) [unfolded Inr]])
    then have "released hw key inp (rel @ take n out')" using releasedI [of hw key inp _ _ "[]"] by (metis append_Nil2)
    from dec_inv_fail [OF this fp] show ?thesis using Inr \<open>d' = fd_fail d\<close> by simp
  qed
qed

lemma dec_run_invariant:
  assumes "dec_run hw key inp rel d" "\<forall>clm \<in> set_option hw. multiplies_carryless clm" "length key = 32"
  shows "dec_inv hw key inp rel d"
  using assms(1)
proof (induction rule: dec_run.induct)
  case start
  then show ?case using assms(3) by (simp add: dec_inv_def file_decryptor_new_def)
next
  case (fed inp rel d input out n d' out')
  then show ?case by (intro dec_inv_feed [OF assms(2,3)])
next
  case (feed_refused inp rel d input out e d' out')
  from feed_refused_state [OF assms(2,3) feed_refused(3,2)] show ?case
    using feed_refused(3) dec_inv_fail [OF dec_inv_released [OF feed_refused(3)]] by auto
next
  case (finished inp rel d out n d' out')
  from dec_inv_finish [OF assms(3) finished(3,2)] show ?case by simp
next
  case (finish_refused inp rel d out e d' out')
  from dec_inv_finish [OF assms(3) finish_refused(3,2)] show ?case by simp
qed

section \<open>Whole files\<close>

lemma file_shape_snoc: "full_chunks ms \<Longrightarrow> length pt \<le> 8192 \<Longrightarrow> file_shape (ms @ [(Final, pt)])"
  by (simp add: file_shape_def full_chunks_def)

lemma read_file_authentic:
  assumes "\<forall>clm \<in> set_option hw. multiplies_carryless clm" "length key = 32" "authentic hw key inp ms q" "file_shape ms"
  shows "read_file hw key inp = Inr (concat (map snd ms))"
    and "n < length inp \<Longrightarrow> read_file hw key (take n inp) = Inl Truncated"
    and "x \<noteq> [] \<Longrightarrow> read_file hw key (inp @ x) = Inl TrailingData"
proof -
  obtain header cs where h: "length header = 32" "inp = [2] @ header @ concat (map record_bytes cs)"
    "run_all (stream_recv hw) (the (pull_init key header)) cs = Some (ms, q)"
    using assms(3) unfolding authentic_def by blast
  have sl: "slice 1 33 (2 # header @ ys) = header" "drop 33 (2 # header @ ys) = ys" for ys using h(1) by (simp_all add: slice_def)
  have k: "length (pull_subkey (the (pull_init key header))) = 32" using h(1) assms(2) by (simp add: pull_init_def initial_subkey_total)
  note acc = read_records_accepts [OF assms(1) k assms(4) h(3)] and cut = read_records_cut [OF assms(1) k assms(4) h(3)]
  show "read_file hw key inp = Inr (concat (map snd ms))"
    using h(1) by (simp add: read_file_def h(2) sl acc del: One_nat_def)
  show "read_file hw key (inp @ x) = Inl TrailingData" if "x \<noteq> []"
    using h(1) that by (simp add: read_file_def h(2) sl cut del: One_nat_def)
  show "read_file hw key (take n inp) = Inl Truncated" if n: "n < length inp"
  proof (cases "n < 33")
    case True
    then show ?thesis using n h(1) by (cases n) (simp_all add: read_file_def h(2))
  next
    case False
    then have "take n inp = 2 # header @ take (n - 33) (concat (map record_bytes cs))" using h(1,2) by (cases n) simp_all
    then show ?thesis using h n False by (simp add: read_file_def sl cut del: One_nat_def)
  qed
qed

lemma read_file_accepted:
  assumes "\<forall>clm \<in> set_option hw. multiplies_carryless clm" "length key = 32" "read_file hw key inp = (Inr pt :: 'e file_error + bytes)"
  obtains ms q where "authentic hw key inp ms q" "file_shape ms" "pt = concat (map snd ms)"
proof -
  have f: "inp \<noteq> []" "hd inp = 2" "33 \<le> length inp" "read_records hw (the (pull_init key (slice 1 33 inp))) (drop 33 inp) = (Inr pt :: 'e file_error + bytes)"
    using assms(3) by (auto simp: read_file_def split: if_splits)
  let ?h = "slice 1 33 inp"
  have h: "length ?h = 32" using f(3) by simp
  have "inp = hd inp # drop 1 inp" using f(1) by (cases inp) simp_all
  then have i: "inp = [2] @ ?h @ drop 33 inp" using f(2) append_take_drop_id [of 32 "drop 1 inp"] by (simp add: slice_def)
  have "length (pull_subkey (the (pull_init key ?h))) = 32" using h assms(2) by (simp add: pull_init_def initial_subkey_total)
  from read_records_accepted [OF assms(1) this f(4)] obtain ms cs q where "file_shape ms"
    "run_all (stream_recv hw) (the (pull_init key ?h)) cs = Some (ms, q)" "drop 33 inp = concat (map record_bytes cs)"
    "pt = concat (map snd ms)" by blast
  moreover from this have "authentic hw key inp ms q" unfolding authentic_def using h i by metis
  ultimately show thesis using that by blast
qed

lemma file_messages_shape: "file_shape (file_messages pt)"
proof (induction pt rule: file_messages.induct)
  case (1 pt)
  show ?case
  proof (cases "8192 < length pt")
    case True
    then have "file_shape (file_messages (drop 8192 pt))" using 1 by simp
    moreover from this have "file_messages (drop 8192 pt) \<noteq> []" by (auto simp: file_shape_def)
    ultimately show ?thesis using True by (simp add: file_messages_long file_shape_Cons)
  qed (simp add: file_messages_short file_shape_def)
qed

lemma file_messages_concat: "concat (map snd (file_messages pt)) = pt"
proof (induction pt rule: file_messages.induct)
  case (1 pt)
  then show ?case by (cases "8192 < length pt") (simp_all add: file_messages_long [of pt] file_messages_short [of pt])
qed

lemma file_messages_count: "length (file_messages pt) \<le> length pt + 1"
proof (induction pt rule: file_messages.induct)
  case (1 pt)
  then show ?case by (cases "8192 < length pt") (simp_all add: file_messages_long [of pt] file_messages_short [of pt])
qed

lemma file_encryptor_init_parts:
  assumes "fills fill" "length key = 32" "file_encryptor_init fill key = Some (Inr (enc, prefix))"
  obtains p header where "push_init fill key = Some (Inr (p, header))" "enc = \<lparr>fe_push = p\<rparr>" "prefix = [2] @ header"
    "length header = 32"
proof -
  obtain p header where p: "push_init fill key = Some (Inr (p, header))" "enc = \<lparr>fe_push = p\<rparr>"
    "prefix = write_at ((replicate 33 0)[0 := 2]) 1 header"
  proof (cases "push_init fill key")
    case (Some r)
    then show thesis using assms(3) that by (cases r) (auto simp: file_encryptor_init_def FORMAT_VERSION_def Let_def)
  qed (use assms(3) in \<open>simp add: file_encryptor_init_def\<close>)
  have h: "length header = 32" by (rule push_init_cases(1) [OF assms(1,2) p(1)])
  have "replicate 33 (0 :: u8) = 0 # replicate 32 0" by (simp add: numeral_eq_Suc)
  then have "prefix = [2] @ header" using p(3) h by (simp add: write_at_def)
  then show thesis using that p h by blast
qed

lemma seal_all_file:
  assumes "\<forall>clm \<in> set_option hw. multiplies_carryless clm" "fills fill" "length key = 32"
    and "file_encryptor_init fill key = Some (Inr (enc, prefix))" "length pt < 2 ^ 63"
  obtains enc' q inp where "seal_all hw enc pt prefix = Some (Inr () :: 'e file_error + unit, enc', inp)" "authentic hw key inp (file_messages pt) q"
proof -
  obtain p header where p: "push_init fill key = Some (Inr (p, header))" "enc = \<lparr>fe_push = p\<rparr>" "prefix = [2] @ header" "length header = 32"
    by (rule file_encryptor_init_parts [OF assms(2-4)])
  obtain q where q: "pull_init key header = Some q" "in_step hw p q" "push_counter p = 0" "\<not> push_finalized p"
    by (rule init_in_step [OF assms(1-3) p(1)])
  have "length (file_messages pt) < 2 ^ 64" using file_messages_count [of pt] assms(5) by simp
  then obtain cs p' where s: "run_all (stream_send hw) p (file_messages pt) = Some (cs, p')"
    "seal_loop hw \<lparr>fe_push = p\<rparr> pt (replicate 8213 0) prefix = Some (Inr () :: 'e file_error + unit, \<lparr>fe_push = p'\<rparr>, prefix @ concat (map record_bytes cs))"
    using seal_loop_records [of hw p pt "replicate 8213 0" prefix, where 'a = 'e] assms(1) q by (auto simp: in_step_def)
  obtain q' where q': "run_all (stream_recv hw) q cs = Some (file_messages pt, q')"
    using secretstream.run_recv_of_send [OF q(2) s(1)] by blast
  have "authentic hw key (prefix @ concat (map record_bytes cs)) (file_messages pt) q'"
    unfolding authentic_def using p(3,4) q(1) q' by (intro exI [of _ header] exI [of _ cs]) simp
  then show thesis using that [of "\<lparr>fe_push = p'\<rparr>"] s(2) p(2) by (simp add: seal_all_def)
qed

lemma authentic_iff_sent:
  assumes "\<forall>clm \<in> set_option hw. multiplies_carryless clm" "length key = 32"
  shows "(\<exists>q. authentic hw key inp ms q) \<longleftrightarrow>
    (\<exists>p header cs p'. length header = 32 \<and> push_init (\<lambda>_. Inr header :: 'e + bytes) key = Some (Inr (p, header)) \<and>
      run_all (stream_send hw) p ms = Some (cs, p') \<and> inp = [2] @ header @ concat (map record_bytes cs))"
proof -
  have "(\<exists>q'. run_all (stream_recv hw) (the (pull_init key header)) cs = Some (ms, q')) \<longleftrightarrow>
      (\<exists>p p'. push_init (\<lambda>_. Inr header :: 'e + bytes) key = Some (Inr (p, header)) \<and> run_all (stream_send hw) p ms = Some (cs, p'))"
    if h: "length header = 32" for header cs
  proof -
    let ?p = "\<lparr>push_subkey = the (initial_subkey key header), push_counter = 0, push_finalized = False\<rparr>"
    have p: "push_init (\<lambda>_. Inr header :: 'e + bytes) key = Some (Inr (?p, header))"
      using h assms(2) by (simp add: push_init_def randombytes_buf_def initial_subkey_total)
    have "in_step hw ?p (the (pull_init key header))"
      using assms h by (simp add: in_step_def pull_init_def initial_subkey_total)
    from secretstream.run_recv_iff [OF this] show ?thesis by (simp add: p)
  qed
  then show ?thesis unfolding authentic_def by metis
qed

lemma file_roundtrip:
  assumes "\<forall>clm \<in> set_option hw. multiplies_carryless clm" "fills fill" "length key = 32"
    and "file_encryptor_init fill key = Some (Inr (enc, prefix))" "length pt < 2 ^ 63"
  shows "\<exists>enc' inp dec'. seal_all hw enc pt prefix = Some (Inr () :: 'e file_error + unit, enc', inp) \<and>
    open_all hw (file_decryptor_new key) inp = Some (Inr pt :: 'e file_error + bytes, dec')"
proof -
  obtain enc' q inp where s: "seal_all hw enc pt prefix = Some (Inr () :: 'e file_error + unit, enc', inp)"
    "authentic hw key inp (file_messages pt) q"
    by (rule seal_all_file [OF assms])
  have "read_file hw key inp = (Inr pt :: 'e file_error + bytes)"
    using read_file_authentic(1) [OF assms(1,3) s(2) file_messages_shape] by (simp add: file_messages_concat)
  then show ?thesis using open_all_spec [OF assms(1,3), of inp, where 'e = 'e] s(1) by auto
qed

lemma seal_loop_out:
  "(seal_loop hw enc rest rec (h @ out) :: (('e file_error + unit) \<times> file_encryptor \<times> bytes) option) =
   map_option (\<lambda>(r, e, o'). (r, e, h @ o')) (seal_loop hw enc rest rec out)"
proof (induction "length rest" arbitrary: enc rest rec out rule: less_induct)
  case less
  show ?case
  proof (cases "8192 < length rest")
    case True
    let ?r = "seal_chunk hw enc (take 8192 rest) rec :: (('e file_error + unit) \<times> file_encryptor \<times> bytes) option"
    have ih: "(seal_loop hw e (drop 8192 rest) r (h @ o1) :: (('e file_error + unit) \<times> file_encryptor \<times> bytes) option) =
        map_option (\<lambda>(r, e, o'). (r, e, h @ o')) (seal_loop hw e (drop 8192 rest) r o1)" for e r o1
      using True by (intro less.hyps) simp
    show ?thesis
    proof (cases ?r)
      case None
      then show ?thesis using True by (simp add: seal_loop.simps [of hw enc rest rec])
    next
      case (Some t)
      obtain r e o1 where t: "t = (r, e, o1)" by (cases t)
      show ?thesis using True Some ih [of e o1 "out @ o1"] by (cases r) (simp_all add: t seal_loop.simps [of hw enc rest rec])
    qed
  next
    case False
    then show ?thesis
      by (simp add: seal_loop.simps [of hw enc rest rec] split: option.split sum.split prod.split)
  qed
qed

lemma init_outcomes:
  assumes "fills fill" "length key = 32"
  obtains (err) e where "file_encryptor_init fill key = Some (Inl (file_error.Random e))"
    | (ok) enc fp where "file_encryptor_init fill key = Some (Inr (enc, fp))" "length fp = 33"
  using assms(1)
proof (cases rule: randombytes_buf_cases [of fill "replicate 32 0"])
  case (err e)
  then show ?thesis using that(1) by (simp add: file_encryptor_init_def push_init_def)
next
  case (ok header)
  then obtain enc fp where init: "file_encryptor_init fill key = Some (Inr (enc, fp))"
    using assms(2) by (simp add: file_encryptor_init_def push_init_def initial_subkey_total)
  obtain p h where "fp = [2] @ h" "length h = 32" by (rule file_encryptor_init_parts [OF assms init])
  then show ?thesis using that(2) [OF init] by simp
qed

section \<open>Properties\<close>

text \<open>C3. A sealed file opens to its plaintext: for every plaintext, empty and block-aligned ones
  included, the writer succeeds and the reader, given the same key, returns exactly the plaintext.\<close>

theorem stream_file_roundtrip:
  assumes "\<forall>clm \<in> set_option hw. multiplies_carryless clm" "fills fill" "length key = 32"
    and "file_encryptor_init fill key = Some (Inr (enc, prefix))" "length pt < 2 ^ 63"
  shows "\<exists>enc' inp dec'. seal_all hw enc pt prefix = Some (Inr () :: 'e file_error + unit, enc', inp) \<and>
    open_all hw (file_decryptor_new key) inp = Some (Inr pt :: 'e file_error + bytes, dec')"
  by (rule file_roundtrip [OF assms])

theorem stream_file_roundtrip_witness:
  "\<exists>enc prefix enc' inp dec'. file_encryptor_init (\<lambda>n. Inr (replicate n 4) :: unit + bytes) (replicate 32 1) = Some (Inr (enc, prefix)) \<and>
    seal_all None enc [1, 2, 3] prefix = Some (Inr () :: unit file_error + unit, enc', inp) \<and>
    open_all None (file_decryptor_new (replicate 32 1)) inp = Some (Inr [1, 2, 3] :: unit file_error + bytes, dec')"
proof -
  let ?fill = "\<lambda>n. Inr (replicate n 4) :: unit + bytes"
  obtain enc prefix where e: "file_encryptor_init ?fill (replicate 32 1) = Some (Inr (enc, prefix))"
    by (simp add: file_encryptor_init_def push_init_def randombytes_buf_def initial_subkey_total Let_def)
  have "fills ?fill" by (simp add: fills_def)
  from stream_file_roundtrip [OF _ this _ e, of None "[1, 2, 3]", where 'e = unit] e show ?thesis by auto
qed

text \<open>C4. The reader accepts exactly the writer's language: a file opens to a plaintext if and only if it
  is the version, a header, and the records a sender writes under that header for chunks that are
  all full and not final but for one final chunk at the end, whose concatenation is the plaintext.\<close>

theorem stream_file_open_exact:
  assumes "\<forall>clm \<in> set_option hw. multiplies_carryless clm" "length key = 32"
  shows "(\<exists>dec'. open_all hw (file_decryptor_new key) inp = Some (Inr pt :: 'e file_error + bytes, dec')) \<longleftrightarrow>
    (\<exists>p header ms cs p'. length header = 32 \<and> push_init (\<lambda>_. Inr header :: 'e + bytes) key = Some (Inr (p, header)) \<and>
      run_all (stream_send hw) p ms = Some (cs, p') \<and> inp = [2] @ header @ concat (map record_bytes cs) \<and>
      file_shape ms \<and> pt = concat (map snd ms))"
proof -
  have "(\<exists>dec'. open_all hw (file_decryptor_new key) inp = Some (Inr pt :: 'e file_error + bytes, dec')) \<longleftrightarrow>
      read_file hw key inp = (Inr pt :: 'e file_error + bytes)"
    using open_all_spec [OF assms, of inp, where 'e = 'e] by auto
  also have "\<dots> \<longleftrightarrow> (\<exists>ms. (\<exists>q. authentic hw key inp ms q) \<and> file_shape ms \<and> pt = concat (map snd ms))"
  proof
    assume "read_file hw key inp = (Inr pt :: 'e file_error + bytes)"
    then obtain ms q where "authentic hw key inp ms q" "file_shape ms" "pt = concat (map snd ms)"
      by (rule read_file_accepted [OF assms])
    then show "\<exists>ms. (\<exists>q. authentic hw key inp ms q) \<and> file_shape ms \<and> pt = concat (map snd ms)" by blast
  qed (auto simp: read_file_authentic(1) [OF assms])
  finally show ?thesis unfolding authentic_iff_sent [OF assms, where 'e = 'e] by blast
qed

theorem stream_file_open_exact_witness:
  "(\<exists>dec'. open_all None (file_decryptor_new (replicate 32 1)) [2, 5] = Some (Inr [] :: unit file_error + bytes, dec')) \<longleftrightarrow>
    (\<exists>p header ms cs p'. length header = 32 \<and> push_init (\<lambda>_. Inr header :: unit + bytes) (replicate 32 1) = Some (Inr (p, header)) \<and>
      run_all (stream_send None) p ms = Some (cs, p') \<and> [2, 5] = [2] @ header @ concat (map record_bytes cs) \<and>
      file_shape ms \<and> [] = concat (map snd ms))"
  by (rule stream_file_open_exact) simp_all

text \<open>C5. Truncation and extension are always detected: cutting any number of bytes off the end of a
  file that opens gives \<open>Truncated\<close>, and appending anything gives \<open>TrailingData\<close>.\<close>

theorem stream_file_cut_detected:
  assumes "\<forall>clm \<in> set_option hw. multiplies_carryless clm" "length key = 32"
    and "open_all hw (file_decryptor_new key) inp = Some (Inr pt :: 'e file_error + bytes, dec')"
  shows "(n < length inp \<longrightarrow> (\<exists>d. open_all hw (file_decryptor_new key) (take n inp) = Some (Inl Truncated :: 'e file_error + bytes, d))) \<and>
    (x \<noteq> [] \<longrightarrow> (\<exists>d. open_all hw (file_decryptor_new key) (inp @ x) = Some (Inl TrailingData :: 'e file_error + bytes, d)))"
proof -
  note spec = open_all_spec [OF assms(1,2), where 'e = 'e]
  have "read_file hw key inp = (Inr pt :: 'e file_error + bytes)" using spec [of inp] assms(3) by auto
  then obtain ms q where "authentic hw key inp ms q" "file_shape ms" by (rule read_file_accepted [OF assms(1,2)])
  note cut = read_file_authentic(2,3) [OF assms(1,2) this]
  show ?thesis using spec [of "take n inp"] spec [of "inp @ x"] by (auto simp: cut)
qed

theorem stream_file_cut_detected_witness:
  "\<exists>inp dec'. open_all None (file_decryptor_new (replicate 32 1)) inp = Some (Inr [7] :: unit file_error + bytes, dec') \<and>
    (\<exists>d. open_all None (file_decryptor_new (replicate 32 1)) (inp @ [0]) = Some (Inl TrailingData :: unit file_error + bytes, d))"
proof -
  let ?fill = "\<lambda>n. Inr (replicate n 4) :: unit + bytes" let ?k = "replicate 32 1 :: bytes"
  obtain enc prefix where e: "file_encryptor_init ?fill ?k = Some (Inr (enc, prefix))"
    by (simp add: file_encryptor_init_def push_init_def randombytes_buf_def initial_subkey_total Let_def)
  have f: "fills ?fill" by (simp add: fills_def)
  obtain q inp where a: "authentic None ?k inp (file_messages [7]) q"
    by (rule seal_all_file [OF _ f _ e, of None "[7]", where 'e = unit]) simp_all
  have "read_file None ?k inp = (Inr [7] :: unit file_error + bytes)"
    using read_file_authentic(1) [OF _ _ a file_messages_shape] by (simp add: file_messages_concat)
  then obtain d where d: "open_all None (file_decryptor_new ?k) inp = Some (Inr [7] :: unit file_error + bytes, d)"
    using open_all_spec [of None ?k inp, where 'e = unit] by auto
  from stream_file_cut_detected [OF _ _ d, of 0 "[0]"] d show ?thesis by auto
qed

text \<open>C6. Over any sequence of \<open>feed\<close> and \<open>finish\<close> calls, the plaintext a decryptor has released is the
  concatenation of the chunks of a prefix of the bytes it was fed: the version byte, a header, and records that
  the receiver for the key and this header accepts in order, one after the other; the key is wiped once the
  header is read; after a failure or the end, the receiver state, the held plaintext and the key are
  gone and every call answers \<open>Finished\<close>; and \<open>finish\<close> succeeds only when the bytes consumed are a
  whole file, of which everything released is the plaintext.\<close>

theorem decryptor_runs_safe:
  assumes "\<forall>clm \<in> set_option hw. multiplies_carryless clm" "length key = 32" "dec_run hw key inp rel d"
  shows "(rel = [] \<or> (\<exists>header cs rest ms q. length header = 32 \<and> inp = [2] @ header @ concat (map record_bytes cs) @ rest \<and>
        run_all (stream_recv hw) (the (pull_init key header)) cs = Some (ms, q) \<and> rel = concat (map snd ms))) \<and>
    (fd_state d \<notin> {Version, Header} \<longrightarrow> fd_key d = replicate 32 0) \<and>
    (fd_state d = Done \<longrightarrow> fd_pull d = None \<and> fd_final_plaintext d = replicate 8192 0 \<and>
      feed hw d input out = Some (Inl Finished :: 'e file_error + nat, d, out) \<and> finish d out = (Inl Finished :: 'e file_error + nat, d, out)) \<and>
    (finish d out = (Inr n :: 'e file_error + nat, d', out') \<longrightarrow>
      (\<exists>dec'. open_all hw (file_decryptor_new key) inp = Some (Inr (rel @ take n out') :: 'e file_error + bytes, dec')))"
proof -
  have inv: "dec_inv hw key inp rel d" by (rule dec_run_invariant [OF assms(3,1,2)])
  have "\<exists>dec'. open_all hw (file_decryptor_new key) inp = Some (Inr (rel @ take n out') :: 'e file_error + bytes, dec')"
    if fin: "finish d out = (Inr n :: 'e file_error + nat, d', out')"
  proof -
    obtain ms pt q where "authentic hw key inp (ms @ [(Final, pt)]) q" "full_chunks ms" "length pt \<le> 8192"
      and r: "rel @ take n out' = concat (map snd (ms @ [(Final, pt)]))"
      by (rule dec_inv_finish_ok [OF assms(2) inv fin])
    then have "read_file hw key inp = (Inr (rel @ take n out') :: 'e file_error + bytes)"
      unfolding r by (intro read_file_authentic(1) [OF assms(1,2)] file_shape_snoc)
    then show ?thesis using open_all_spec [OF assms(1,2), of inp, where 'e = 'e] by auto
  qed
  moreover have "rel = [] \<or> (\<exists>header cs rest ms q. length header = 32 \<and> inp = [2] @ header @ concat (map record_bytes cs) @ rest \<and>
        run_all (stream_recv hw) (the (pull_init key header)) cs = Some (ms, q) \<and> rel = concat (map snd ms))"
    using dec_inv_released [OF inv] unfolding released_def authentic_def by fastforce
  ultimately show ?thesis using inv by (auto simp: dec_inv_def feed_def finish_def)
qed

theorem decryptor_runs_safe_witness:
  "\<exists>d. dec_run None (replicate 32 1) [] [] d \<and> fd_state d = Done \<and> fd_key d = replicate 32 0 \<and>
    finish d (replicate 8192 0) = (Inl Finished :: unit file_error + nat, d, replicate 8192 0)"
proof -
  let ?k = "replicate 32 1 :: bytes" let ?d = "fd_fail (file_decryptor_new ?k)"
  have "finish (file_decryptor_new ?k) (replicate 8192 0) = (Inl Truncated :: unit file_error + nat, ?d, replicate 8192 0)"
    by (simp add: finish_def file_decryptor_new_def)
  then have r: "dec_run None ?k [] [] ?d" by (rule dec_run.finish_refused [OF dec_run.start])
  from decryptor_runs_safe [OF _ _ r, of "[]" "replicate 8192 0", where 'e = unit] show ?thesis using r by (auto simp: exI [of _ ?d])
qed

text \<open>C7. The reader never panics, its loop ends, and it computes the record-level specification of the
  format, errors included, leaving the decryptor finished.\<close>

theorem open_all_refines_reader:
  assumes "\<forall>clm \<in> set_option hw. multiplies_carryless clm" "length key = 32"
  shows "\<exists>dec'. open_all hw (file_decryptor_new key) inp = Some (read_file hw key inp :: 'e file_error + bytes, dec') \<and>
    fd_state dec' = Done"
  by (rule open_all_spec [OF assms])

theorem open_all_refines_reader_witness:
  "\<exists>dec'. open_all None (file_decryptor_new (replicate 32 1)) [3] = Some (Inl (UnsupportedVersion 3) :: unit file_error + bytes, dec')"
  using open_all_refines_reader [of None "replicate 32 1" "[3]", where 'e = unit] by (auto simp: read_file_def)

end
