(* ===== verification/Strumok.thy ===== *)
theory Strumok
  imports Strumok_Tables Keystream Block_Cipher
begin

text \<open>
  \<open>crates/dstu-core/src/hazmat/strumok.rs\<close>: the stream cipher. The 16-word register is a ring buffer
  with a moving \<open>head\<close>; \<open>apply_keystream\<close> drains a pending block, runs whole 128-byte chunks through an
  unrolled step, and finishes byte by byte. The specification it refines is a plain shift register
  that emits one word per step.
\<close>

section \<open>Definitions\<close>

definition mul_alpha :: "u64 \<Rightarrow> u64" where
  "mul_alpha w = push_bit 8 w XOR MUL_ALPHA ! unat (drop_bit 56 w)"

definition mul_alpha_inv :: "u64 \<Rightarrow> u64" where
  "mul_alpha_inv w = drop_bit 8 w XOR MUL_ALPHA_INV ! unat (w AND 0xff)"

definition t_function :: "u64 \<Rightarrow> u64" where
  "t_function w =
     strumok_T0 ! unat (w AND 0xff) XOR strumok_T1 ! unat (drop_bit 8 w AND 0xff) XOR
     strumok_T2 ! unat (drop_bit 16 w AND 0xff) XOR strumok_T3 ! unat (drop_bit 24 w AND 0xff) XOR
     strumok_T4 ! unat (drop_bit 32 w AND 0xff) XOR strumok_T5 ! unat (drop_bit 40 w AND 0xff) XOR
     strumok_T6 ! unat (drop_bit 48 w AND 0xff) XOR strumok_T7 ! unat (drop_bit 56 w AND 0xff)"

text \<open>The \<open>small-tables\<close> profile.\<close>

definition t_function_small :: "u64 \<Rightarrow> u64" where
  "t_function_small w =
     (let column = to_le_bytes 8 w;
          column = map (\<lambda>row. SBOXES ! (row mod 4) ! unat (column ! row)) [0..<length column]
      in from_le_bytes (apply_forward_matrix_small [column] ! 0))"

definition fsm :: "u64 \<Rightarrow> u64 \<Rightarrow> u64 \<Rightarrow> u64" where
  "fsm x y z = (x + y) XOR z"

definition word_le :: "bytes \<Rightarrow> nat \<Rightarrow> u64" where
  "word_le bs index = (let start = index * 8 in from_le_bytes (slice start (start + 8) bs))"

definition init_state :: "bytes \<Rightarrow> bytes \<Rightarrow> u64 list" where
  "init_state key iv =
     (let ivw = word_le iv; kw = word_le key in
      if length key = 32 then
        [kw 3 XOR ivw 0, kw 2, kw 1 XOR ivw 1, kw 0 XOR ivw 2, kw 3, kw 2 XOR ivw 3, NOT (kw 1), NOT (kw 0),
         kw 3, kw 2, NOT (kw 1), kw 0, kw 3, NOT (kw 2), kw 1, NOT (kw 0)]
      else
        [kw 7 XOR ivw 0, kw 6, kw 5, kw 4 XOR ivw 1, kw 3, kw 2 XOR ivw 2, kw 1, NOT (kw 0),
         kw 4 XOR ivw 3, NOT (kw 6), kw 5, NOT (kw 7), kw 3, kw 2, NOT (kw 1), kw 0])"

type_synonym ring = "u64 list \<times> nat \<times> u64 \<times> u64"

definition next_step :: "ring \<Rightarrow> bool \<Rightarrow> ring" where
  "next_step st init_mode = (case st of (s, head, r0, r1) \<Rightarrow>
     (let s0 = s ! head;
          s11 = s ! ((head + 11) AND 15);
          s13 = s ! ((head + 13) AND 15);
          s15 = s ! ((head + 15) AND 15);
          new_r1 = t_function r0;
          new_r0 = r1 + s13;
          feedback = mul_alpha s0 XOR mul_alpha_inv s11 XOR s13;
          feedback = (if init_mode then feedback XOR fsm s15 r0 r1 else feedback)
      in (s[head := feedback], (head + 1) AND 15, new_r0, new_r1)))"

definition strm :: "u64 list \<Rightarrow> nat \<Rightarrow> u64 \<Rightarrow> u64 \<Rightarrow> u64" where
  "strm s head r0 r1 = fsm (s ! ((head + 15) AND 15)) r0 r1 XOR s ! head"

text \<open>One invocation of the \<open>step!\<close> macro of \<open>next_block\<close>, on \<open>(s, r0, r1, out)\<close>.\<close>

definition block_step ::
  "u64 list \<Rightarrow> nat \<Rightarrow> nat \<Rightarrow> nat \<Rightarrow> nat \<Rightarrow> u64 list \<times> u64 \<times> u64 \<times> u64 list \<Rightarrow> u64 list \<times> u64 \<times> u64 \<times> u64 list" where
  "block_step input k prev p11 p13 = (\<lambda>(s, r0, r1, out).
     (let sk = s ! k;
          out = out[k := input ! k XOR fsm (s ! prev) r0 r1 XOR sk];
          new_r1 = t_function r0;
          new_r0 = r1 + s ! p13;
          feedback = mul_alpha sk XOR mul_alpha_inv (s ! p11) XOR s ! p13
      in (s[k := feedback], new_r0, new_r1, out)))"

definition next_block :: "u64 list \<Rightarrow> u64 \<Rightarrow> u64 \<Rightarrow> u64 list \<Rightarrow> u64 list \<times> u64 \<times> u64 \<times> u64 list" where
  "next_block s r0 r1 input =
     (let st = (s, r0, r1, replicate 16 0);
          st = block_step input 0 15 11 13 st;
          st = block_step input 1 0 12 14 st;
          st = block_step input 2 1 13 15 st;
          st = block_step input 3 2 14 0 st;
          st = block_step input 4 3 15 1 st;
          st = block_step input 5 4 0 2 st;
          st = block_step input 6 5 1 3 st;
          st = block_step input 7 6 2 4 st;
          st = block_step input 8 7 3 5 st;
          st = block_step input 9 8 4 6 st;
          st = block_step input 10 9 5 7 st;
          st = block_step input 11 10 6 8 st;
          st = block_step input 12 11 7 9 st;
          st = block_step input 13 12 8 10 st;
          st = block_step input 14 13 9 11 st;
          st = block_step input 15 14 10 12 st
      in st)"

lemma block_step_out: "length (snd (snd (snd (block_step input k prev p11 p13 st)))) = length (snd (snd (snd st)))"
  by (simp add: block_step_def case_prod_beta Let_def)

lemma next_block_out: "length (snd (snd (snd (next_block s r0 r1 input)))) = 16"
  by (simp add: next_block_def block_step_out Let_def)

lemma next_block_out_length: "(s', r0', r1', out) = next_block s r0 r1 input \<Longrightarrow> length out = 16"
  by (metis next_block_out snd_conv)

record strumok_core =
  sc_s :: "u64 list"
  sc_head :: nat
  sc_r0 :: u64
  sc_r1 :: u64
  sc_block :: bytes
  sc_block_pos :: nat

definition core_new :: "bytes \<Rightarrow> bytes \<Rightarrow> strumok_core" where
  "core_new key iv =
     (let st = (init_state key iv, 0, 0, 0);
          st = ((\<lambda>st. next_step st True) ^^ 32) st;
          (s, head, r0, r1) = next_step st False
      in \<lparr>sc_s = s, sc_head = head, sc_r0 = r0, sc_r1 = r1, sc_block = replicate 8 0, sc_block_pos = 8\<rparr>)"

function drain :: "strumok_core \<Rightarrow> bytes \<Rightarrow> nat \<Rightarrow> strumok_core \<times> bytes \<times> nat" where
  "drain self data pos =
     (if pos < length data \<and> sc_block_pos self < 8 then
        drain (self\<lparr>sc_block_pos := sc_block_pos self + 1\<rparr>)
          (data[pos := data ! pos XOR sc_block self ! sc_block_pos self]) (pos + 1)
      else (self, data, pos))"
  by pat_completeness auto
termination by (relation "measure (\<lambda>(self, data, pos). length data - pos)") auto

function bulk_loop :: "strumok_core \<Rightarrow> bytes \<Rightarrow> nat \<Rightarrow> strumok_core \<times> bytes \<times> nat" where
  "bulk_loop self data pos =
     (if 128 \<le> length data - pos then
        let input = map from_le_bytes (chunks_exact 8 (slice pos (pos + 128) data));
            (s, r0, r1, out) = next_block (sc_s self) (sc_r0 self) (sc_r1 self) input;
            self = self\<lparr>sc_s := s, sc_r0 := r0, sc_r1 := r1\<rparr>;
            data = write_at data pos (concat (map (to_le_bytes 8) out))
        in bulk_loop self data (pos + 128)
      else (self, data, pos))"
  by pat_completeness auto
termination
  by (relation "measure (\<lambda>(self, data, pos). length data - pos)")
    (auto simp: write_at_def length_concat comp_def sum_list_triv dest!: next_block_out_length)

definition bulk :: "strumok_core \<Rightarrow> bytes \<Rightarrow> nat \<Rightarrow> strumok_core \<times> bytes \<times> nat" where
  "bulk self data pos =
     (if sc_block_pos self \<noteq> 8 \<or> length data - pos < 128 then (self, data, pos)
      else let self = (if sc_head self \<noteq> 0 then self\<lparr>sc_s := rotate (sc_head self) (sc_s self), sc_head := 0\<rparr> else self)
        in bulk_loop self data pos)"

text \<open>The refill at the head of the loop of \<open>remainder\<close>.\<close>

definition refill :: "strumok_core \<Rightarrow> strumok_core" where
  "refill self =
     (if sc_block_pos self = 8 then
        let z = strm (sc_s self) (sc_head self) (sc_r0 self) (sc_r1 self);
            (s, head, r0, r1) = next_step (sc_s self, sc_head self, sc_r0 self, sc_r1 self) False
        in \<lparr>sc_s = s, sc_head = head, sc_r0 = r0, sc_r1 = r1, sc_block = to_le_bytes 8 z, sc_block_pos = 0\<rparr>
      else self)"

function remainder :: "strumok_core \<Rightarrow> bytes \<Rightarrow> nat \<Rightarrow> strumok_core \<times> bytes" where
  "remainder self data pos =
     (if pos < length data then
        let self = refill self
        in remainder (self\<lparr>sc_block_pos := sc_block_pos self + 1\<rparr>)
          (data[pos := data ! pos XOR sc_block self ! sc_block_pos self]) (pos + 1)
      else (self, data))"
  by pat_completeness auto
termination by (relation "measure (\<lambda>(self, data, pos). length data - pos)") auto

declare drain.simps [simp del] bulk_loop.simps [simp del] remainder.simps [simp del]

definition core_apply_keystream :: "strumok_core \<Rightarrow> bytes \<Rightarrow> bytes \<times> strumok_core" where
  "core_apply_keystream self data =
     (let (self, data, pos) = drain self data 0;
          (self, data, pos) = bulk self data pos;
          (self, data) = remainder self data pos
      in (data, self))"

section \<open>The field multiplication and the substitution\<close>

lemma byte_and_take: "x AND 0xff = take_bit 8 (x :: u64)"
  by (simp add: take_bit_eq_mask mask_eq_exp_minus_1)

lemma byte_index: "unat (x AND 0xff :: u64) = unat (ucast x :: u8)"
  by (simp add: byte_and_take unsigned_ucast_eq unsigned_take_bit_eq)

lemma top_index: "unat (drop_bit 56 w :: u64) = unat (ucast (drop_bit 56 w) :: u8)"
proof -
  have "take_bit 8 (drop_bit 56 w) = drop_bit 56 w"
    by (rule bit_word_eqI) (auto simp: bit_simps dest: bit_imp_le_length)
  then show ?thesis by (metis byte_and_take byte_index)
qed

lemma mul_alpha_inv_mul_alpha: "mul_alpha_inv (mul_alpha w) = w"
proof -
  let ?t = "ucast (drop_bit 56 w) :: u8"
  let ?A = "MUL_ALPHA ! unat ?t"
  have m: "mul_alpha w = push_bit 8 w XOR ?A" by (simp add: mul_alpha_def top_index)
  have "(ucast (push_bit 8 w XOR ?A) :: u8) = ucast ?A" by (rule bit_word_eqI) (simp add: bit_simps)
  then have "mul_alpha_inv (mul_alpha w) = drop_bit 8 (push_bit 8 w XOR ?A) XOR (push_bit 56 (ucast ?t) XOR drop_bit 8 ?A)"
    by (simp add: mul_alpha_inv_def m byte_index MUL_ALPHA_INV_low)
  also have "\<dots> = drop_bit 8 (push_bit 8 w) XOR push_bit 56 (ucast ?t)"
    by (simp add: drop_bit_xor xor.assoc xor.left_commute xor.commute)
  also have "\<dots> = w" by (rule bit_word_eqI) (auto simp: bit_simps)
  finally show ?thesis .
qed

lemma mul_alpha_mul_alpha_inv: "mul_alpha (mul_alpha_inv w) = w"
  by (rule finite_left_inverse [where f = mul_alpha and g = mul_alpha_inv]) (rule mul_alpha_inv_mul_alpha)

lemma t_function_columns: "t_function w = mix_column MDS_TABLE (map (\<lambda>row. SBOXES ! (row mod 4) ! unat (to_le_bytes 8 w ! row)) [0..<8])"
  by (simp add: t_function_def byte_index strumok_T_nth mix_column_8 basis8 nth_to_le_bytes xor.assoc)

lemma t_function_profiles: "t_function_small w = t_function w"
proof -
  let ?c = "map (\<lambda>row. SBOXES ! (row mod 4) ! unat (to_le_bytes 8 w ! row)) [0..<8]"
  have "wf_state [?c]" by (simp add: wf_state_def)
  then have "apply_forward_matrix_small [?c] = apply_forward_matrix [?c]" by (simp add: apply_matrix_profiles)
  then show ?thesis
    by (simp add: t_function_small_def t_function_columns apply_forward_matrix_def apply_matrix_def Let_def)
qed

section \<open>The shift register\<close>

text \<open>The specification: a 16-word shift register, its two-word memory, and the pending key bytes.\<close>

type_synonym lfsr = "u64 list \<times> u64 \<times> u64"

definition lfsr_step :: "bool \<Rightarrow> lfsr \<Rightarrow> lfsr" where
  "lfsr_step init_mode = (\<lambda>(reg, r0, r1).
     (tl reg @ [mul_alpha (reg ! 0) XOR mul_alpha_inv (reg ! 11) XOR reg ! 13 XOR
        (if init_mode then fsm (reg ! 15) r0 r1 else 0)], r1 + reg ! 13, t_function r0))"

definition lfsr_word :: "lfsr \<Rightarrow> u64" where
  "lfsr_word = (\<lambda>(reg, r0, r1). fsm (reg ! 15) r0 r1 XOR reg ! 0)"

definition strumok_gen :: "lfsr \<times> bytes \<Rightarrow> u8 \<times> lfsr \<times> bytes" where
  "strumok_gen = (\<lambda>(l, pend). case pend of
     k # ks \<Rightarrow> (k, l, ks)
   | [] \<Rightarrow> (let z = to_le_bytes 8 (lfsr_word l) in (hd z, lfsr_step False l, tl z)))"

definition logical :: "ring \<Rightarrow> lfsr" where
  "logical = (\<lambda>(s, head, r0, r1). (rotate head s, r0, r1))"

definition ring_ok :: "ring \<Rightarrow> bool" where
  "ring_ok = (\<lambda>(s, head, r0, r1). length s = 16 \<and> head < 16)"

lemma and_15: "(n :: nat) AND 15 = n mod 16"
  using and_mask_mod [of n 4] by simp

lemma rotate_head_update:
  assumes "length s = 16" "head < 16"
  shows "rotate ((head + 1) mod 16) (s[head := x]) = tl (rotate head s) @ [x]"
proof (rule nth_equalityI)
  fix i assume "i < length (rotate ((head + 1) mod 16) (s[head := x]))"
  then have i: "i < 16" using assms by simp
  have l: "rotate ((head + 1) mod 16) (s[head := x]) ! i = s[head := x] ! ((head + 1 + i) mod 16)"
    using assms i by (simp add: nth_rotate mod_simps)
  show "rotate ((head + 1) mod 16) (s[head := x]) ! i = (tl (rotate head s) @ [x]) ! i"
  proof (cases "i = 15")
    case True
    have "(head + 1 + i) mod 16 = head" using assms True by simp
    then show ?thesis unfolding l using assms True by (simp add: nth_append)
  next
    case False
    have "(head + 1 + i) mod 16 = (if head + 1 + i < 16 then head + 1 + i else head + 1 + i - 16)"
      using i assms(2) by (simp add: mod_if)
    then have "(head + 1 + i) mod 16 \<noteq> head" using False i by (simp split: if_splits; linarith)
    then show ?thesis unfolding l using False i assms by (simp add: nth_append nth_tl nth_rotate add.assoc)
  qed
qed (use assms in simp)

lemma next_step_refines:
  assumes "ring_ok st"
  shows "logical (next_step st m) = lfsr_step m (logical st)" "ring_ok (next_step st m)"
    and "fst (snd (next_step st m)) = (fst (snd st) + 1) mod 16"
proof -
  obtain s head r0 r1 where st: "st = (s, head, r0, r1)" by (cases st)
  have ok: "length s = 16" "head < 16" using assms by (simp_all add: st ring_ok_def)
  have n: "rotate head s ! k = s ! ((head + k) mod 16)" if "k < 16" for k using ok that by (simp add: nth_rotate)
  show "logical (next_step st m) = lfsr_step m (logical st)"
    using ok by (simp add: st logical_def next_step_def lfsr_step_def and_15 rotate_head_update [simplified] n xor.assoc Let_def)
  show "ring_ok (next_step st m)" "fst (snd (next_step st m)) = (fst (snd st) + 1) mod 16"
    using ok by (simp_all add: st ring_ok_def next_step_def and_15 Let_def)
qed

lemma strm_refines: "ring_ok (s, head, r0, r1) \<Longrightarrow> strm s head r0 r1 = lfsr_word (logical (s, head, r0, r1))"
  by (simp add: ring_ok_def strm_def lfsr_word_def logical_def and_15 nth_rotate)

section \<open>The unrolled block is sixteen steps\<close>

text \<open>The words the shift register emits over a list of input words, XORed into them.\<close>

fun lfsr_words :: "lfsr \<Rightarrow> u64 list \<Rightarrow> u64 list \<times> lfsr" where
  "lfsr_words l [] = ([], l)"
| "lfsr_words l (w # ws) = (let (out, l') = lfsr_words (lfsr_step False l) ws in ((w XOR lfsr_word l) # out, l'))"

lemma lfsr_words_snoc:
  "lfsr_words l (ws @ [w]) = (let (out, l') = lfsr_words l ws in (out @ [w XOR lfsr_word l'], lfsr_step False l'))"
  by (induction ws arbitrary: l) (simp_all add: Let_def case_prod_beta)

lemma length_lfsr_words [simp]: "length (fst (lfsr_words l ws)) = length ws"
  by (induction ws arbitrary: l) (simp_all add: Let_def case_prod_beta)

lemma next_block_fold:
  "next_block s r0 r1 input =
     fold (\<lambda>k. block_step input k ((k + 15) mod 16) ((k + 11) mod 16) ((k + 13) mod 16)) [0..<16] (s, r0, r1, replicate 16 0)"
proof -
  have "[0..<16] = [0, 1, 2, 3, 4, 5, 6, 7, 8, 9, 10, 11, 12, 13, 14, 15 :: nat]" by (simp add: upt_rec)
  then show ?thesis by (simp add: next_block_def Let_def)
qed

lemma block_step_next_step:
  assumes "ring_ok (s, k, r0, r1)" "next_step (s, k, r0, r1) False = (s', k', r0', r1')"
  shows "block_step input k ((k + 15) mod 16) ((k + 11) mod 16) ((k + 13) mod 16) (s, r0, r1, out) =
    (s', r0', r1', out[k := input ! k XOR lfsr_word (logical (s, k, r0, r1))])"
  using assms strm_refines [OF assms(1)]
  by (auto simp: block_step_def next_step_def strm_def and_15 xor.assoc Let_def)

lemma block_steps:
  assumes "length s = 16" "length input = 16" "n \<le> 16"
  shows "\<exists>s' r0' r1'. fold (\<lambda>k. block_step input k ((k + 15) mod 16) ((k + 11) mod 16) ((k + 13) mod 16)) [0..<n] (s, r0, r1, replicate 16 0) =
      (s', r0', r1', fst (lfsr_words (s, r0, r1) (take n input)) @ replicate (16 - n) 0) \<and>
    length s' = 16 \<and> logical (s', n mod 16, r0', r1') = snd (lfsr_words (s, r0, r1) (take n input))"
  using assms(3)
proof (induction n)
  case 0
  then show ?case using assms(1) by (simp add: logical_def)
next
  case (Suc n)
  let ?l = "(s, r0, r1)"
  obtain s1 r01 r11 where ih: "fold (\<lambda>k. block_step input k ((k + 15) mod 16) ((k + 11) mod 16) ((k + 13) mod 16)) [0..<n] (s, r0, r1, replicate 16 0) =
      (s1, r01, r11, fst (lfsr_words ?l (take n input)) @ replicate (16 - n) 0)"
    "length s1 = 16" "logical (s1, n, r01, r11) = snd (lfsr_words ?l (take n input))"
    using Suc by auto
  have ok: "ring_ok (s1, n, r01, r11)" using ih(2) Suc.prems by (simp add: ring_ok_def)
  obtain s2 k2 r02 r12 where st: "next_step (s1, n, r01, r11) False = (s2, k2, r02, r12)" by (cases "next_step (s1, n, r01, r11) False")
  note ref = next_step_refines [OF ok, of False, unfolded st]
  have k2: "k2 = Suc n mod 16" using ref(3) by simp
  have "length (fst (lfsr_words ?l (take n input))) = n" using Suc.prems assms(2) by simp
  moreover have "replicate (16 - n) (0 :: u64) = 0 # replicate (16 - Suc n) 0"
    using Suc.prems by (simp flip: replicate_Suc add: Suc_diff_Suc)
  ultimately have out: "(fst (lfsr_words ?l (take n input)) @ replicate (16 - n) 0)[n := x] =
      (fst (lfsr_words ?l (take n input)) @ [x]) @ replicate (16 - Suc n) 0" for x
    by (simp add: list_update_append)
  have "take (Suc n) input = take n input @ [input ! n]" using Suc.prems assms(2) by (simp add: take_Suc_conv_app_nth)
  then have w: "lfsr_words ?l (take (Suc n) input) =
      (fst (lfsr_words ?l (take n input)) @ [input ! n XOR lfsr_word (logical (s1, n, r01, r11))],
       lfsr_step False (logical (s1, n, r01, r11)))"
    by (simp add: lfsr_words_snoc ih(3) case_prod_beta Let_def)
  show ?case
    using ih(1) block_step_next_step [OF ok st] ref(1,2) k2 by (simp add: out w ring_ok_def)
qed

lemma next_block_words:
  assumes "length s = 16" "length input = 16"
  obtains s' r0' r1' out where "next_block s r0 r1 input = (s', r0', r1', out)" "length s' = 16"
    "lfsr_words (s, r0, r1) input = (out, logical (s', 0, r0', r1'))"
proof -
  obtain s' r0' r1' where "next_block s r0 r1 input = (s', r0', r1', fst (lfsr_words (s, r0, r1) input))" "length s' = 16"
    "logical (s', 0, r0', r1') = snd (lfsr_words (s, r0, r1) input)"
    using block_steps [OF assms, of 16 r0 r1] assms(2) by (auto simp: next_block_fold)
  then show thesis by (intro that [of s' r0' r1']) (simp_all add: prod_eq_iff)
qed

section \<open>Words and bytes\<close>

lemma gen_pending:
  "length xs \<le> length pend \<Longrightarrow> xor_stream strumok_gen (l, pend) xs = (xor_into xs pend, l, drop (length xs) pend)"
proof (induction xs arbitrary: pend)
  case (Cons x xs)
  then obtain k ks where "pend = k # ks" by (cases pend) auto
  then show ?case using Cons by (simp add: strumok_gen_def)
qed simp

lemma gen_word:
  assumes "length w = 8"
  shows "xor_stream strumok_gen (l, []) w = (to_le_bytes 8 (from_le_bytes w XOR lfsr_word l), lfsr_step False l, [])"
proof -
  let ?z = "to_le_bytes 8 (lfsr_word l)"
  obtain x xs where w: "w = x # xs" using assms by (cases w) auto
  obtain k ks where z: "?z = k # ks" "length ks = 7" by (cases ?z) (auto dest: arg_cong [where f = length])
  have "xor_stream strumok_gen (l, []) w = (xor_into w ?z, lfsr_step False l, [])"
    using gen_pending [of xs ks "lfsr_step False l"] assms z by (simp add: w strumok_gen_def)
  also have "xor_into w ?z = to_le_bytes 8 (from_le_bytes w XOR lfsr_word l)"
    using assms by (simp add: to_le_bytes_xor)
  finally show ?thesis .
qed

lemma gen_words:
  assumes "\<forall>w \<in> set ws. length w = 8"
  shows "xor_stream strumok_gen (l, []) (concat ws) =
    (concat (map (to_le_bytes 8) (fst (lfsr_words l (map from_le_bytes ws)))), snd (lfsr_words l (map from_le_bytes ws)), [])"
  using assms
  by (induction ws arbitrary: l) (simp_all add: xor_stream_append gen_word Let_def case_prod_beta)

section \<open>The three phases\<close>

definition core_ok :: "strumok_core \<Rightarrow> bool" where
  "core_ok c \<longleftrightarrow> length (sc_s c) = 16 \<and> sc_head c < 16 \<and> length (sc_block c) = 8 \<and> sc_block_pos c \<le> 8"

definition core_abs :: "strumok_core \<Rightarrow> lfsr \<times> bytes" where
  "core_abs c = (logical (sc_s c, sc_head c, sc_r0 c, sc_r1 c), drop (sc_block_pos c) (sc_block c))"

text \<open>From position \<open>p\<close> to \<open>p'\<close> of the buffer \<open>d\<close>, the keystream was applied.\<close>

definition advanced :: "strumok_core \<Rightarrow> bytes \<Rightarrow> nat \<Rightarrow> strumok_core \<Rightarrow> bytes \<Rightarrow> nat \<Rightarrow> bool" where
  "advanced c d p c' d' p' \<longleftrightarrow> core_ok c' \<and> p \<le> p' \<and> p' \<le> length d \<and>
     (\<exists>out. xor_stream strumok_gen (core_abs c) (slice p p' d) = (out, core_abs c') \<and> d' = take p d @ out @ drop p' d)"

lemma advanced_refl: "core_ok c \<Longrightarrow> p \<le> length d \<Longrightarrow> advanced c d p c d p"
  by (simp add: advanced_def slice_def)

lemma advanced_length: "advanced c d p c' d' p' \<Longrightarrow> length d' = length d"
proof -
  assume "advanced c d p c' d' p'"
  then obtain out where o: "xor_stream strumok_gen (core_abs c) (slice p p' d) = (out, core_abs c')" "d' = take p d @ out @ drop p' d"
    "p \<le> p'" "p' \<le> length d" by (auto simp: advanced_def)
  have "length out = p' - p" using arg_cong [OF o(1), of fst] o(3,4) by (metis length_xor_stream fst_conv length_slice diff_le_mono min_absorb1)
  then show ?thesis using o by simp
qed

lemma advanced_trans:
  assumes "advanced c d p c1 d1 p1" "advanced c1 d1 p1 c2 d2 p2"
  shows "advanced c d p c2 d2 p2"
proof -
  obtain o1 where o1: "xor_stream strumok_gen (core_abs c) (slice p p1 d) = (o1, core_abs c1)" "d1 = take p d @ o1 @ drop p1 d"
    "p \<le> p1" "p1 \<le> length d" using assms(1) by (auto simp: advanced_def)
  obtain o2 where o2: "xor_stream strumok_gen (core_abs c1) (slice p1 p2 d1) = (o2, core_abs c2)" "d2 = take p1 d1 @ o2 @ drop p2 d1"
    "p1 \<le> p2" "p2 \<le> length d1" "core_ok c2" using assms(2) by (auto simp: advanced_def)
  have "length (fst (xor_stream strumok_gen (core_abs c) (slice p p1 d))) = p1 - p" using o1(3,4) by simp
  then have l: "length o1 = p1 - p" by (simp add: o1(1))
  have len: "length d1 = length d" by (rule advanced_length [OF assms(1)])
  have cut: "take p1 d1 = take p d @ o1" "drop p1 d1 = drop p1 d" using o1 l by simp_all
  have "drop p2 d1 = drop (p2 - p1) (drop p1 d1)" using o2(3) by simp
  then have dr: "drop p2 d1 = drop p2 d" unfolding cut(2) using o2(3) by simp
  have sl: "slice p1 p2 d1 = slice p1 p2 d" by (simp only: slice_def cut(2))
  have "slice p p2 d = slice p p1 d @ slice p1 p2 d"
    using o1(3) o2(3) take_add [of "p1 - p" "p2 - p1" "drop p d"] by (simp add: slice_def)
  then have "xor_stream strumok_gen (core_abs c) (slice p p2 d) = (o1 @ o2, core_abs c2)"
    using o1(1) o2(1) by (simp add: xor_stream_append sl)
  then show ?thesis using o1 o2 len cut dr by (simp add: advanced_def)
qed

lemma advanced_byte:
  assumes "core_ok c'" "p < length d" "strumok_gen (core_abs c) = (k, core_abs c')"
  shows "advanced c d p c' (d[p := d ! p XOR k]) (p + 1)"
proof -
  have "slice p (p + 1) d = [d ! p]" using assms(2) by (simp add: slice_def take_Suc_conv_app_nth [of 0] hd_drop_conv_nth take_Suc)
  then show ?thesis
    using assms by (simp add: advanced_def upd_conv_take_nth_drop case_prod_beta)
qed

lemma drain_advances:
  assumes "core_ok c" "p \<le> length d" "drain c d p = (c', d', p')"
  shows "advanced c d p c' d' p' \<and> (p' = length d \<or> sc_block_pos c' = 8)"
  using assms
proof (induction c d p rule: drain.induct)
  case (1 c d p)
  show ?case
  proof (cases "p < length d \<and> sc_block_pos c < 8")
    case True
    let ?c = "c\<lparr>sc_block_pos := sc_block_pos c + 1\<rparr>" let ?k = "sc_block c ! sc_block_pos c"
    have ok: "core_ok ?c" using 1(2) True by (simp add: core_ok_def)
    have "drop (sc_block_pos c) (sc_block c) = ?k # drop (Suc (sc_block_pos c)) (sc_block c)"
      using 1(2) True by (simp add: Cons_nth_drop_Suc core_ok_def)
    then have "strumok_gen (core_abs c) = (?k, core_abs ?c)" by (simp add: core_abs_def strumok_gen_def)
    note step = advanced_byte [OF ok conjunct1 [OF True] this]
    have "drain ?c (d[p := d ! p XOR ?k]) (p + 1) = (c', d', p')" using 1(4) True by (simp add: drain.simps [of c d p])
    from 1(1) [OF True ok _ this] show ?thesis using advanced_trans [OF step] True by auto
  next
    case False
    then have "c' = c \<and> d' = d \<and> p' = p" using 1(4) by (auto simp: drain.simps [of c d p])
    then show ?thesis using False 1 by (auto simp: advanced_refl core_ok_def)
  qed
qed

lemma refill_gen:
  assumes "core_ok c"
  defines "c1 \<equiv> refill c"
  shows "core_ok (c1\<lparr>sc_block_pos := sc_block_pos c1 + 1\<rparr>)"
    and "strumok_gen (core_abs c) = (sc_block c1 ! sc_block_pos c1, core_abs (c1\<lparr>sc_block_pos := sc_block_pos c1 + 1\<rparr>))"
proof -
  obtain s h r0 r1 where st: "next_step (sc_s c, sc_head c, sc_r0 c, sc_r1 c) False = (s, h, r0, r1)"
    by (cases "next_step (sc_s c, sc_head c, sc_r0 c, sc_r1 c) False")
  let ?z = "strm (sc_s c) (sc_head c) (sc_r0 c) (sc_r1 c)"
  have c1: "c1 = (if sc_block_pos c = 8 then
      \<lparr>sc_s = s, sc_head = h, sc_r0 = r0, sc_r1 = r1, sc_block = to_le_bytes 8 ?z, sc_block_pos = 0\<rparr> else c)"
    by (simp add: c1_def refill_def st Let_def)
  have ring: "ring_ok (sc_s c, sc_head c, sc_r0 c, sc_r1 c)" using assms(1) by (simp add: ring_ok_def core_ok_def)
  note ref = next_step_refines [OF ring, of False, unfolded st]
  show "core_ok (c1\<lparr>sc_block_pos := sc_block_pos c1 + 1\<rparr>)" using assms(1) ref(2) by (auto simp: core_ok_def c1 ring_ok_def)
  show "strumok_gen (core_abs c) = (sc_block c1 ! sc_block_pos c1, core_abs (c1\<lparr>sc_block_pos := sc_block_pos c1 + 1\<rparr>))"
  proof (cases "sc_block_pos c = 8")
    case True
    have "to_le_bytes 8 ?z \<noteq> []" by (metis length_to_le_bytes list.size(3) zero_neq_numeral)
    then have "hd (to_le_bytes 8 ?z) = to_le_bytes 8 ?z ! 0" by (rule hd_conv_nth)
    then show ?thesis using True assms(1) ref(1) strm_refines [OF ring]
      by (simp add: core_abs_def c1 strumok_gen_def core_ok_def drop_Suc Let_def)
  next
    case False
    then have "drop (sc_block_pos c) (sc_block c) = sc_block c ! sc_block_pos c # drop (Suc (sc_block_pos c)) (sc_block c)"
      using assms(1) by (simp add: Cons_nth_drop_Suc core_ok_def)
    then show ?thesis using False by (simp add: core_abs_def c1 strumok_gen_def)
  qed
qed

lemma remainder_advances:
  assumes "core_ok c" "p \<le> length d" "remainder c d p = (c', d')"
  shows "advanced c d p c' d' (length d)"
  using assms
proof (induction c d p rule: remainder.induct)
  case (1 c d p)
  show ?case
  proof (cases "p < length d")
    case True
    let ?r = "refill c" let ?c = "?r\<lparr>sc_block_pos := sc_block_pos ?r + 1\<rparr>"
    let ?d = "d[p := d ! p XOR sc_block ?r ! sc_block_pos ?r]"
    note gen = refill_gen [OF 1(2)]
    have "remainder ?c ?d (p + 1) = (c', d')" using 1(4) True by (simp add: remainder.simps [of c d p] Let_def)
    from 1(1) [OF True refl gen(1) _ this] have "advanced ?c ?d (p + 1) c' d' (length d)" using True by simp
    then show ?thesis by (rule advanced_trans [OF advanced_byte [OF gen(1) True gen(2)]])
  next
    case False
    then have "c' = c \<and> d' = d" using 1(4) by (subst (asm) remainder.simps) simp
    then show ?thesis using False 1(2,3) by (simp add: advanced_refl)
  qed
qed

lemma bulk_loop_advances:
  assumes "core_ok c" "sc_head c = 0" "sc_block_pos c = 8" "p \<le> length d" "bulk_loop c d p = (c', d', p')"
  shows "advanced c d p c' d' p'"
  using assms
proof (induction c d p rule: bulk_loop.induct)
  case (1 c d p)
  show ?case
  proof (cases "128 \<le> length d - p")
    case True
    let ?w = "slice p (p + 128) d"
    let ?ws = "chunks_exact 8 ?w"
    let ?in = "map from_le_bytes ?ws :: u64 list"
    have w: "length ?w = 128" using True by simp
    have "concat ?ws = ?w" using w by (intro concat_chunks_exact_aligned) simp_all
    have lws: "length ?ws = 16" using w by (simp add: chunks_exact_count)
    obtain s r0 r1 out where nb: "next_block (sc_s c) (sc_r0 c) (sc_r1 c) ?in = (s, r0, r1, out)" "length s = 16"
      "lfsr_words (sc_s c, sc_r0 c, sc_r1 c) ?in = (out, logical (s, 0, r0, r1))"
      by (rule next_block_words [of "sc_s c" ?in]) (use 1(2) lws in \<open>simp_all add: core_ok_def\<close>)
    let ?c = "c\<lparr>sc_s := s, sc_r0 := r0, sc_r1 := r1\<rparr>" let ?o = "concat (map (to_le_bytes 8) out)"
    have ok: "core_ok ?c" using 1(2) nb(2) by (simp add: core_ok_def)
    have lo: "length ?o = 128" using arg_cong [OF nb(3), of fst] lws
      by (simp add: length_concat comp_def sum_list_triv) (metis fst_conv length_lfsr_words length_map)
    have "logical (sc_s c, sc_head c, sc_r0 c, sc_r1 c) = (sc_s c, sc_r0 c, sc_r1 c)" using 1(3) by (simp add: logical_def)
    then have "xor_stream strumok_gen (core_abs c) ?w = (?o, core_abs ?c)"
      using gen_words [of ?ws "(sc_s c, sc_r0 c, sc_r1 c)", OF chunks_exact_lengths] \<open>concat ?ws = ?w\<close> nb(3) 1(2-4)
      by (simp add: core_abs_def core_ok_def)
    then have step: "advanced c d p ?c (write_at d p ?o) (p + 128)"
      using ok True lo 1(5) by (auto simp: advanced_def write_at_def)
    have len: "length (write_at d p ?o) = length d" using lo True by simp
    have "bulk_loop ?c (write_at d p ?o) (p + 128) = (c', d', p')"
      using 1(6) True nb(1) by (simp add: bulk_loop.simps [of c d p] Let_def)
    with ok len True have "advanced ?c (write_at d p ?o) (p + 128) c' d' p'"
      using 1(3,4) by (intro 1(1) [OF True refl refl nb(1) [symmetric] refl refl refl refl]) simp_all
    then show ?thesis by (rule advanced_trans [OF step])
  next
    case False
    then show ?thesis using 1 by (auto simp: bulk_loop.simps [of c d p] advanced_refl)
  qed
qed

lemma bulk_advances:
  assumes "core_ok c" "p \<le> length d" "bulk c d p = (c', d', p')"
  shows "advanced c d p c' d' p'"
proof (cases "sc_block_pos c \<noteq> 8 \<or> length d - p < 128")
  case True
  then show ?thesis using assms by (auto simp: bulk_def advanced_refl)
next
  case False
  let ?c = "if sc_head c \<noteq> 0 then c\<lparr>sc_s := rotate (sc_head c) (sc_s c), sc_head := 0\<rparr> else c"
  have "bulk_loop ?c d p = (c', d', p')" using False assms(3) by (simp add: bulk_def Let_def)
  with assms(1,2) False have "advanced ?c d p c' d' p'"
    by (intro bulk_loop_advances) (simp_all add: core_ok_def)
  moreover have "core_abs ?c = core_abs c" by (simp add: core_abs_def logical_def)
  ultimately show ?thesis by (simp only: advanced_def)
qed

lemma core_apply_keystream_refines:
  assumes "core_ok c" "core_apply_keystream c d = (d', c')"
  shows "core_ok c' \<and> xor_stream strumok_gen (core_abs c) d = (d', core_abs c')"
proof -
  obtain c1 d1 p1 where 1: "drain c d 0 = (c1, d1, p1)" by (cases "drain c d 0")
  obtain c2 d2 p2 where 2: "bulk c1 d1 p1 = (c2, d2, p2)" by (cases "bulk c1 d1 p1")
  have 3: "remainder c2 d2 p2 = (c', d')" using assms(2) by (simp add: core_apply_keystream_def 1 2 case_prod_beta prod_eq_iff)
  have a1: "advanced c d 0 c1 d1 p1" using drain_advances [OF assms(1) _ 1] by simp
  have b1: "core_ok c1" "p1 \<le> length d1" using a1 advanced_length [OF a1] by (simp_all add: advanced_def)
  note a2 = bulk_advances [OF b1 2]
  have b2: "core_ok c2" "p2 \<le> length d2" using a2 advanced_length [OF a2] by (simp_all add: advanced_def)
  note a = advanced_trans [OF a1 advanced_trans [OF a2 remainder_advances [OF b2 3]]]
  have "length d2 = length d" using advanced_length [OF a1] advanced_length [OF a2] by simp
  then show ?thesis using a by (simp add: advanced_def)
qed

interpretation strumok: keystream_refinement core_ok core_abs strumok_gen core_apply_keystream
proof unfold_locales
  fix s :: strumok_core and buf assume "core_ok s"
  note core_apply_keystream_refines [OF this, of buf "fst (core_apply_keystream s buf)" "snd (core_apply_keystream s buf)"]
  then show "fst (core_apply_keystream s buf) = fst (xor_stream strumok_gen (core_abs s) buf)"
    "core_abs (snd (core_apply_keystream s buf)) = snd (xor_stream strumok_gen (core_abs s) buf)"
    "core_ok (snd (core_apply_keystream s buf))" by simp_all
qed

section \<open>Initialization\<close>

lemma init_state_length [simp]: "length (init_state key iv) = 16"
  by (simp add: init_state_def Let_def)

lemma next_steps_refine:
  "ring_ok st \<Longrightarrow> logical (((\<lambda>st. next_step st True) ^^ n) st) = (lfsr_step True ^^ n) (logical st) \<and>
    ring_ok (((\<lambda>st. next_step st True) ^^ n) st)"
  by (induction n) (simp_all add: next_step_refines)

text \<open>The register of the specification after initialization.\<close>

definition lfsr_init :: "bytes \<Rightarrow> bytes \<Rightarrow> lfsr" where
  "lfsr_init key iv = lfsr_step False ((lfsr_step True ^^ 32) (init_state key iv, 0, 0))"

lemma core_new_refines: "core_ok (core_new key iv)" "core_abs (core_new key iv) = (lfsr_init key iv, [])"
proof -
  let ?st = "(init_state key iv, 0, 0, 0) :: ring"
  let ?m = "((\<lambda>st. next_step st True) ^^ 32) ?st"
  have "ring_ok ?st" by (simp add: ring_ok_def)
  from next_steps_refine [OF this, of 32]
  have "logical ?m = (lfsr_step True ^^ 32) (init_state key iv, 0, 0)" "ring_ok ?m" by (simp_all add: logical_def)
  note end_step = next_step_refines [OF this(2), of False, unfolded this(1)]
  obtain s h r0 r1 where e: "next_step ?m False = (s, h, r0, r1)" by (cases "next_step ?m False")
  have c: "core_new key iv = \<lparr>sc_s = s, sc_head = h, sc_r0 = r0, sc_r1 = r1, sc_block = replicate 8 0, sc_block_pos = 8\<rparr>"
    by (simp add: core_new_def e Let_def)
  show "core_ok (core_new key iv)" using end_step(2) by (simp add: c e core_ok_def ring_ok_def)
  show "core_abs (core_new key iv) = (lfsr_init key iv, [])" using end_step(1) by (simp add: c e core_abs_def lfsr_init_def)
qed

lemma t_function_inj: "t_function v = t_function w \<longleftrightarrow> v = w"
proof
  let ?c = "\<lambda>w. map (\<lambda>row. SBOXES ! (row mod 4) ! unat (to_le_bytes 8 w ! row)) [0..<8]"
  assume "t_function v = t_function w"
  moreover have "from_le_bytes (?c w) = mix_column MDS_INV_TABLE (to_le_bytes 8 (t_function w))" for w
    by (simp only: t_function_columns) (simp add: mix_inverse_forward del: upt_Suc)
  ultimately have "(from_le_bytes (?c v) :: u64) = from_le_bytes (?c w)" by simp
  then have c: "?c v = ?c w" by (subst (asm) from_le_bytes_inject [of _ 8]) simp_all
  have "to_le_bytes 8 v ! i = to_le_bytes 8 w ! i" if "i < 8" for i
    using arg_cong [OF c, of "\<lambda>c. SBOXES_DEC ! (i mod 4) ! unat (c ! i)"] that by simp
  then have "to_le_bytes 8 v = to_le_bytes 8 w" by (intro nth_equalityI) simp_all
  then show "v = w" by (simp add: to_le_bytes_inject)
qed simp

lemma mul_alpha_inj: "mul_alpha v = mul_alpha w \<longleftrightarrow> v = w"
  by (metis mul_alpha_inv_mul_alpha)

lemma word_xor_cancel_right [simp]: "(a :: u64) XOR c = b XOR c \<longleftrightarrow> a = b"
proof
  assume "a XOR c = b XOR c"
  then have "(a XOR c) XOR c = (b XOR c) XOR c" by (rule arg_cong)
  then show "a = b" by (simp add: xor.assoc)
qed simp

lemma word_xor_cancel_left [simp]: "(c :: u64) XOR a = c XOR b \<longleftrightarrow> a = b"
  by (simp add: xor.commute [of c])

text \<open>No step of the register loses information.\<close>

lemma lfsr_step_inj:
  assumes "length s = 16" "length s' = 16" "lfsr_step m (s, r0, r1) = lfsr_step m (s', r0', r1')"
  shows "s = s' \<and> r0 = r0' \<and> r1 = r1'"
proof -
  have tl: "tl s = tl s'" using assms by (simp add: lfsr_step_def)
  have n: "s ! k = s' ! k" if "0 < k" "k < 16" for k
    using arg_cong [OF tl, of "\<lambda>xs. xs ! (k - 1)"] that assms(1,2) by (simp add: nth_tl)
  have r: "r0 = r0'" "r1 = r1'" using assms(3) n [of 13] by (simp_all add: lfsr_step_def t_function_inj)
  have "mul_alpha (s ! 0) = mul_alpha (s' ! 0)"
    using assms(3) n [of 11] n [of 13] n [of 15] r by (cases m) (simp_all add: lfsr_step_def)
  then have "s ! 0 = s' ! 0" by (simp add: mul_alpha_inj)
  then have "s = s'" using n assms(1,2) by (intro nth_equalityI) (metis, metis bot_nat_0.not_eq_extremum)
  with r show ?thesis by simp
qed

lemma lfsr_step_length: "length s = 16 \<Longrightarrow> length (fst (lfsr_step m (s, r0, r1))) = 16"
  by (simp add: lfsr_step_def)

lemma lfsr_steps_length: "length (fst l) = 16 \<Longrightarrow> length (fst ((lfsr_step m ^^ n) l)) = 16"
  by (induction n) (simp_all, metis lfsr_step_length prod.collapse)

lemma lfsr_steps_inj:
  assumes "length (fst l) = 16" "length (fst l') = 16" "(lfsr_step m ^^ n) l = (lfsr_step m ^^ n) l'"
  shows "l = l'"
  using assms(3)
proof (induction n)
  case (Suc n)
  obtain s r0 r1 where a: "(lfsr_step m ^^ n) l = (s, r0, r1)" by (cases "(lfsr_step m ^^ n) l")
  obtain s' r0' r1' where b: "(lfsr_step m ^^ n) l' = (s', r0', r1')" by (cases "(lfsr_step m ^^ n) l'")
  have "length s = 16" "length s' = 16"
    using lfsr_steps_length [OF assms(1), of n m] lfsr_steps_length [OF assms(2), of n m] by (simp_all add: a b)
  then have "s = s' \<and> r0 = r0' \<and> r1 = r1'" by (rule lfsr_step_inj [of _ _ m]) (use Suc.prems in \<open>simp add: a b\<close>)
  then show ?case by (intro Suc.IH) (simp add: a b)
qed simp

lemma lfsr_init_inj:
  assumes "lfsr_init key iv = lfsr_init key' iv'"
  shows "init_state key iv = init_state key' iv'"
proof -
  let ?l = "(lfsr_step True ^^ 32) (init_state key iv, 0, 0)" let ?l' = "(lfsr_step True ^^ 32) (init_state key' iv', 0, 0)"
  have "length (fst ?l) = 16" "length (fst ?l') = 16" by (simp_all add: lfsr_steps_length)
  moreover have "(lfsr_step False ^^ 1) ?l = (lfsr_step False ^^ 1) ?l'" using assms by (simp add: lfsr_init_def)
  ultimately have "?l = ?l'" by (rule lfsr_steps_inj)
  from lfsr_steps_inj [OF _ _ this] show ?thesis by simp
qed

lemma words_determine:
  assumes "length bs = 8 * n" "length cs = 8 * n" "\<And>i. i < n \<Longrightarrow> word_le bs i = word_le cs i"
  shows "bs = cs"
proof (rule nth_equalityI)
  fix j assume "j < length bs"
  then have j: "j div 8 < n" "j < 8 * n" using assms(1) by auto
  let ?a = "j div 8 * 8"
  have "slice ?a (?a + 8) bs = slice ?a (?a + 8) cs"
    using assms(3) [OF j(1)] assms(1,2) j by (simp add: word_le_def Let_def from_le_bytes_inject [of _ 8])
  from arg_cong [OF this, of "\<lambda>xs. xs ! (j mod 8)"] show "bs ! j = cs ! j"
    using assms(1,2) j by (simp add: slice_def)
qed (use assms in simp)

lemma init_state_256_inj:
  assumes "length key = 32" "length key' = 32" "length iv = 32" "length iv' = 32"
    and "init_state key iv = init_state key' iv'"
  shows "key = key' \<and> iv = iv'"
proof -
  have s: "init_state key iv ! j = init_state key' iv' ! j" for j using assms(5) by simp
  have k: "word_le key 0 = word_le key' 0" "word_le key 1 = word_le key' 1" "word_le key 2 = word_le key' 2" "word_le key 3 = word_le key' 3"
    using s [of 11] s [of 14] s [of 9] s [of 12] assms(1,2) by (simp_all add: init_state_def Let_def)
  have v: "word_le iv 0 = word_le iv' 0" "word_le iv 1 = word_le iv' 1" "word_le iv 2 = word_le iv' 2" "word_le iv 3 = word_le iv' 3"
    using s [of 0] s [of 2] s [of 3] s [of 5] k assms(1,2) by (simp_all add: init_state_def Let_def)
  show ?thesis using k v assms(1-4)
    by (intro conjI words_determine [of _ 4]) (auto simp: less_Suc_eq numeral_eq_Suc)
qed

lemma init_state_iv_inj:
  assumes "length key = 64" "length iv = 32" "length iv' = 32" "init_state key iv = init_state key iv'"
  shows "iv = iv'"
proof -
  have s: "init_state key iv ! j = init_state key iv' ! j" for j using assms(4) by simp
  have "word_le iv 0 = word_le iv' 0" "word_le iv 1 = word_le iv' 1" "word_le iv 2 = word_le iv' 2" "word_le iv 3 = word_le iv' 3"
    using s [of 0] s [of 3] s [of 5] s [of 8] assms(1) by (simp_all add: init_state_def Let_def)
  then show ?thesis using assms(2,3)
    by (intro words_determine [of _ 4]) (auto simp: less_Suc_eq numeral_eq_Suc)
qed

section \<open>Properties\<close>

text \<open>C32. The three-phase \<open>apply_keystream\<close> (ring buffer, unrolled 128-byte batches, byte-wise rest)
  refines the plain shift register: from a fresh cipher, whatever the pieces the message is handed
  over in, the output is the message XORed with the bytes of the words the register emits, one word
  per step, after the 33 steps of initialization.\<close>

theorem strumok_refines_shift_register:
  "apply_chunks core_apply_keystream (core_new key iv) chunks =
     fst (xor_stream strumok_gen (lfsr_init key iv, []) (concat chunks))"
  using strumok.apply_chunks_stream [OF core_new_refines(1), of key iv chunks] by (simp add: core_new_refines(2))

text \<open>Initialization loses nothing: two fresh 256-bit-key ciphers are in the same state only
  for the same key and IV, and two 512-bit-key ciphers under one key only for the same IV. (Key and
  IV together are not determined in the 512-bit case: word 4 of the key enters only XORed with
  words of the IV.)\<close>

theorem strumok_initialization_injective:
  assumes "length iv = 32" "length iv' = 32" "core_new key iv = core_new key' iv'"
    and "length key = 32 \<and> length key' = 32 \<or> length key = 64 \<and> key' = key"
  shows "key = key' \<and> iv = iv'"
proof -
  have "lfsr_init key iv = lfsr_init key' iv'" using arg_cong [OF assms(3), of core_abs] by (simp add: core_new_refines(2))
  note init = lfsr_init_inj [OF this]
  show ?thesis using assms(4) init init_state_256_inj init_state_iv_inj assms(1,2) by metis
qed

theorem strumok_initialization_injective_witness:
  "core_new (replicate 32 1) (replicate 32 2) \<noteq> core_new (replicate 32 1) (replicate 32 3)"
proof
  assume "core_new (replicate 32 1) (replicate 32 2) = core_new (replicate 32 1) (replicate 32 3)"
  from strumok_initialization_injective [OF _ _ this] show False by simp
qed

text \<open>The two resource profiles compute the same substitution \<open>T\<close> (eight folded tables against
  the shared S-boxes and matrix), and the table-driven multiplications by the root \<open>alpha\<close> and by its inverse
  undo each other.\<close>

theorem strumok_tables_sound:
  "t_function_small w = t_function w \<and> mul_alpha_inv (mul_alpha w) = w \<and> mul_alpha (mul_alpha_inv w) = w"
  by (simp add: t_function_profiles mul_alpha_inv_mul_alpha mul_alpha_mul_alpha_inv)

end
