(* ===== verification/Crypto_Stream.thy ===== *)
theory Crypto_Stream
  imports Strumok Gcm_Aead
begin

text \<open>
  \<open>crates/dstu-core/src/crypto_stream.rs\<close>: Strumok-256 under a random IV that travels in front of
  the ciphertext, with no authentication. Keys are 32-byte strings; the source of randomness is the
  parameter \<open>fill\<close> of \<^const>\<open>randombytes_buf\<close>.
\<close>

section \<open>Definitions\<close>

definition IV_LEN :: nat where "IV_LEN = 32"

datatype 'e stream_error = Truncated | Random "'e random_error"

definition generate :: "(nat \<Rightarrow> 'e + bytes) \<Rightarrow> 'e random_error + bytes" where
  "generate fill = randombytes_buf fill (replicate 32 0)"

definition stream_encrypt :: "(nat \<Rightarrow> 'e + bytes) \<Rightarrow> bytes \<Rightarrow> bytes \<Rightarrow> 'e stream_error + bytes" where
  "stream_encrypt fill key plaintext =
     (case randombytes_buf fill (replicate IV_LEN 0) of
        Inl e \<Rightarrow> Inl (Random e)
      | Inr iv \<Rightarrow>
          let cipher = core_new key iv;
              (buf, cipher) = core_apply_keystream cipher plaintext
          in Inr (iv @ buf))"

definition stream_decrypt :: "bytes \<Rightarrow> bytes \<Rightarrow> 'e stream_error + bytes" where
  "stream_decrypt key sealed =
     (if length sealed < IV_LEN then Inl Truncated
      else let iv = take IV_LEN sealed;
               cipher = core_new key iv;
               (buf, cipher) = core_apply_keystream cipher (drop IV_LEN sealed)
           in Inr buf)"

section \<open>The keystream of a key and an IV\<close>

definition strumok_xor :: "bytes \<Rightarrow> bytes \<Rightarrow> bytes \<Rightarrow> bytes" where
  "strumok_xor key iv data = fst (xor_stream strumok_gen (lfsr_init key iv, []) data)"

lemma strumok_xor_core: "fst (core_apply_keystream (core_new key iv) data) = strumok_xor key iv data"
  by (simp add: strumok_xor_def strumok.app_out core_new_refines)

lemma strumok_xor_laws [simp]:
  "strumok_xor key iv (strumok_xor key iv data) = data" "length (strumok_xor key iv data) = length data"
  by (simp_all add: strumok_xor_def xor_stream_involutive)

lemma xor_stream_xor:
  "length m = length d \<Longrightarrow> fst (xor_stream gen s (xor_into d m)) = xor_into (fst (xor_stream gen s d)) m"
proof (induction d arbitrary: s m)
  case (Cons x d)
  then obtain y m' where "m = y # m'" "length m' = length d" by (cases m) auto
  then show ?case using Cons.IH by (simp add: case_prod_beta ac_simps)
qed simp

lemma stream_encrypt_cases:
  assumes "fills fill"
  obtains (err) e where "stream_encrypt fill key pt = Inl (Random (RandomError e))" "fill 32 = Inl e"
    | (ok) iv where "fill 32 = Inr iv" "length iv = 32" "stream_encrypt fill key pt = Inr (iv @ strumok_xor key iv pt)"
  using assms by (cases "fill 32")
    (auto simp: stream_encrypt_def randombytes_buf_def IV_LEN_def fills_def Let_def case_prod_beta strumok_xor_core)

lemma stream_decrypt_framed:
  "length iv = 32 \<Longrightarrow> stream_decrypt key (iv @ ct) = Inr (strumok_xor key iv ct)"
  by (simp add: stream_decrypt_def IV_LEN_def Let_def case_prod_beta strumok_xor_core)

section \<open>Properties\<close>

text \<open>\<open>crypto_stream\<close>: encryption fails exactly when the source of randomness fails and with its
  error; otherwise its output is 32 bytes longer than the message and decrypts, under the same key,
  to the message.\<close>

theorem stream_round_trip:
  fixes fill :: "nat \<Rightarrow> 'e + bytes"
  assumes "fills fill"
  shows "case stream_encrypt fill key pt of
      Inl err \<Rightarrow> (\<exists>e. fill 32 = Inl e \<and> err = Random (RandomError e))
    | Inr sealed \<Rightarrow> length sealed = length pt + 32 \<and> (stream_decrypt key sealed :: 'e stream_error + bytes) = Inr pt"
  using assms
proof (cases rule: stream_encrypt_cases [of fill key pt])
  case (err e)
  then show ?thesis by simp
next
  case (ok iv)
  then show ?thesis by (simp add: stream_decrypt_framed)
qed

theorem stream_round_trip_witness:
  "stream_encrypt (\<lambda>n. Inl ()) (replicate 32 1) [1, 2, 3] = Inl (Random (RandomError ())) \<and>
   (stream_decrypt (replicate 32 1) (projr (stream_encrypt (\<lambda>n. Inr (replicate n 7) :: unit + bytes) (replicate 32 1) [1, 2, 3]))
     :: unit stream_error + bytes) = Inr [1, 2, 3]"
proof
  show "stream_encrypt (\<lambda>n. Inl ()) (replicate 32 1) [1, 2, 3] = Inl (Random (RandomError ()))"
    by (simp add: stream_encrypt_def randombytes_buf_def)
  have "fills (\<lambda>n. Inr (replicate n 7) :: unit + bytes)" by (simp add: fills_def)
  from stream_round_trip [OF this, where key = "replicate 32 1" and pt = "[1, 2, 3]"]
  show "(stream_decrypt (replicate 32 1) (projr (stream_encrypt (\<lambda>n. Inr (replicate n 7) :: unit + bytes) (replicate 32 1) [1, 2, 3]))
     :: unit stream_error + bytes) = Inr [1, 2, 3]"
    by (auto split: sum.splits)
qed

text \<open>Decryption fails exactly on inputs shorter than an IV; on every longer input it succeeds,
  and flipping bits of the ciphertext flips the same bits of the result: there is no integrity.\<close>

theorem stream_decrypt_malleable:
  assumes "length delta = length ct"
  shows "((stream_decrypt key sealed :: 'e stream_error + bytes) = Inl Truncated \<longleftrightarrow> length sealed < 32) \<and>
    (length iv = 32 \<longrightarrow> (\<exists>pt. (stream_decrypt key (iv @ ct) :: 'e stream_error + bytes) = Inr pt \<and>
      (stream_decrypt key (iv @ xor_into ct delta) :: 'e stream_error + bytes) = Inr (xor_into pt delta)))"
proof -
  have "strumok_xor key iv (xor_into ct delta) = xor_into (strumok_xor key iv ct) delta"
    using assms by (simp add: strumok_xor_def xor_stream_xor)
  then show ?thesis by (auto simp: stream_decrypt_framed) (auto simp: stream_decrypt_def IV_LEN_def Let_def case_prod_beta split: if_splits)
qed

theorem stream_decrypt_malleable_witness:
  "\<exists>pt. (stream_decrypt (replicate 32 1) (replicate 32 2 @ [5, 6]) :: unit stream_error + bytes) = Inr pt \<and>
    (stream_decrypt (replicate 32 1) (replicate 32 2 @ xor_into [5, 6] [0, 1]) :: unit stream_error + bytes) = Inr (xor_into pt [0, 1])"
  using stream_decrypt_malleable [where delta = "[0, 1]" and ct = "[5, 6]" and iv = "replicate 32 2" and key = "replicate 32 1"
      and sealed = "[]" and 'e = unit] by simp

end
