(* ===== verification/Limb.thy ===== *)
theory Limb
  imports Gf2m_Wide
begin

text \<open>
  \<open>crates/dstu-core/src/hazmat/limb.rs\<close> and the multi-limb loops its clients build from it: carry
  arithmetic on 64-bit words whose carries are computed with bitwise operations only. Each word
  operation and each loop is proved against the natural number its limbs stand for
  (\<^const>\<open>lv\<close>).
\<close>

section \<open>Word operations\<close>

definition adc :: "u64 \<Rightarrow> u64 \<Rightarrow> u64 \<Rightarrow> u64 \<times> u64" where
  "adc a b carry_in =
     (let s = a + b + carry_in
      in (s, drop_bit 63 ((a AND b) OR ((a OR b) AND NOT s))))"

definition sbb :: "u64 \<Rightarrow> u64 \<Rightarrow> u64 \<Rightarrow> u64 \<times> u64" where
  "sbb a b borrow_in =
     (let d = a - b - borrow_in
      in (d, drop_bit 63 ((NOT a AND b) OR ((NOT a OR b) AND d))))"

type_synonym u128 = "128 word"

definition mac :: "u64 \<Rightarrow> u64 \<Rightarrow> u64 \<Rightarrow> u64 \<Rightarrow> u64 \<times> u64" where
  "mac r a b carry =
     (let product = (ucast a :: u128) * ucast b;
          (lo, c1) = adc (ucast product) r 0;
          (lo, c2) = adc lo carry 0
      in (lo, ucast (drop_bit 64 product) + c1 + c2))"

section \<open>Limb loops\<close>

text \<open>The loops over equally long limb arrays: addition, subtraction, the masked choice, and the
  schoolbook product.\<close>

fun add_loop :: "u64 list \<Rightarrow> u64 list \<Rightarrow> u64 \<Rightarrow> u64 list \<times> u64" where
  "add_loop (a # as) (b # bs) carry =
     (let (s, carry) = adc a b carry; (out, carry) = add_loop as bs carry in (s # out, carry))"
| "add_loop _ _ carry = ([], carry)"

fun sub_loop :: "u64 list \<Rightarrow> u64 list \<Rightarrow> u64 \<Rightarrow> u64 list \<times> u64" where
  "sub_loop (a # as) (b # bs) borrow =
     (let (d, borrow) = sbb a b borrow; (out, borrow) = sub_loop as bs borrow in (d # out, borrow))"
| "sub_loop _ _ borrow = ([], borrow)"

definition cond_sub_if_ge :: "u64 list \<Rightarrow> u64 list \<Rightarrow> u64 list" where
  "cond_sub_if_ge a b =
     (let (diff, borrow) = sub_loop a b 0;
          msk = borrow - 1
      in map2 (\<lambda>x d. x XOR (msk AND (x XOR d))) a diff)"

text \<open>The inner loop of the product, writing from index \<open>k\<close>.\<close>

fun mul_row :: "u64 \<Rightarrow> u64 list \<Rightarrow> nat \<Rightarrow> u64 list \<Rightarrow> u64 \<Rightarrow> u64 list \<times> u64" where
  "mul_row a [] k out carry = (out, carry)"
| "mul_row a (b # bs) k out carry =
     (let (w, carry) = mac (out ! k) a b carry in mul_row a bs (k + 1) (out[k := w]) carry)"

definition mul_limbs :: "u64 list \<Rightarrow> u64 list \<Rightarrow> u64 list" where
  "mul_limbs a b =
     fold (\<lambda>i out. let (out, carry) = mul_row (a ! i) b i out 0 in out[i + length b := carry])
       [0..<length a] (replicate (length a + length b) 0)"

definition shl1_or :: "u64 list \<Rightarrow> u64 \<Rightarrow> u64 list" where
  "shl1_or x bit_val = shl_limbs 1 bit_val x"

text \<open>One pass of the restoring division.\<close>

definition div_step :: "u64 list \<Rightarrow> u64 \<Rightarrow> u64 list \<Rightarrow> u64 list" where
  "div_step n bit_val r = cond_sub_if_ge (shl1_or r bit_val) n"

text \<open>The passes over the low \<open>k\<close> bits of a word, the most significant first.\<close>

definition div_word :: "u64 list \<Rightarrow> nat \<Rightarrow> 'a::len word \<Rightarrow> u64 list \<Rightarrow> u64 list" where
  "div_word n k w r = fold (\<lambda>bit. div_step n (ucast (drop_bit bit w AND 1))) (rev [0..<k]) r"

section \<open>The carries are right\<close>

lemma unat64: "unat (x :: u64) < 2 ^ 64"
  using unsigned_less [of x, where 'a = nat] by simp

lemma top_bit_iff: "bit (x :: u64) 63 \<longleftrightarrow> 2 ^ 63 \<le> unat x"
proof -
  have "bit x 63 \<longleftrightarrow> bit (unat x) 63" by (simp add: bit_unsigned_iff)
  also have "\<dots> \<longleftrightarrow> odd (unat x div 2 ^ 63)" by (simp only: bit_iff_odd)
  also have "\<dots> \<longleftrightarrow> 2 ^ 63 \<le> unat x"
  proof (cases "2 ^ 63 \<le> unat x")
    case True
    then have "unat x div 2 ^ 63 = 1" using unat64 [of x] by (intro div_nat_eqI) simp_all
    then show ?thesis using True by simp
  next
    case False
    then show ?thesis by (simp add: not_le)
  qed
  finally show ?thesis .
qed

lemma top_bit_drop: "drop_bit 63 (x :: u64) = (if bit x 63 then 1 else 0)"
proof (rule bit_word_eqI)
  fix n assume "n < LENGTH(64)"
  have "\<not> bit x (63 + n)" if "n \<noteq> 0" using that by (auto dest: bit_imp_le_length)
  then show "bit (drop_bit 63 x) n = bit (if bit x 63 then 1 else 0 :: u64) n" by (cases "n = 0") (simp_all add: bit_simps)
qed

lemma adc_value:
  assumes "c \<le> 1" "adc a b c = (s, c')"
  shows "unat s + 2 ^ 64 * unat c' = unat a + unat b + unat c" "c' \<le> 1"
proof -
  let ?t = "unat a + unat b + unat c"
  have c: "unat c \<le> 1" using assms(1) by (simp add: word_le_nat_alt)
  have s: "s = a + b + c" and c': "c' = drop_bit 63 ((a AND b) OR ((a OR b) AND NOT s))"
    using assms(2) by (auto simp: adc_def Let_def)
  have us: "unat s = ?t mod 2 ^ 64" by (simp add: s unat_word_ariths mod_simps)
  note ab = unat64 [of a] unat64 [of b]
  have carry: "c' = (if bit a 63 \<and> bit b 63 \<or> (bit a 63 \<or> bit b 63) \<and> \<not> bit s 63 then 1 else 0)"
    by (simp add: c' top_bit_drop bit_simps)
  show "c' \<le> 1" by (simp add: carry)
  show "unat s + 2 ^ 64 * unat c' = ?t"
  proof (cases "?t < 2 ^ 64")
    case True
    then have "unat s = ?t" by (simp add: us)
    then show ?thesis using True ab c by (auto simp: carry top_bit_iff)
  next
    case False
    have "?t mod 2 ^ 64 = (?t - 2 ^ 64) mod 2 ^ 64" using False by (simp add: le_mod_geq)
    also have "\<dots> = ?t - 2 ^ 64" using ab c by simp
    finally have "unat s = ?t - 2 ^ 64" by (simp add: us)
    then show ?thesis using False ab c by (auto simp: carry top_bit_iff)
  qed
qed

lemma sbb_value:
  assumes "c \<le> 1" "sbb a b c = (d, c')"
  shows "unat d + unat b + unat c = unat a + 2 ^ 64 * unat c'" "c' \<le> 1"
proof -
  have c: "unat c \<le> 1" using assms(1) by (simp add: word_le_nat_alt)
  have d: "d = a - b - c" and c': "c' = drop_bit 63 ((NOT a AND b) OR ((NOT a OR b) AND d))"
    using assms(2) by (auto simp: sbb_def Let_def)
  note ab = unat64 [of a] unat64 [of b] unat64 [of d]
  have borrow: "c' = (if \<not> bit a 63 \<and> bit b 63 \<or> (\<not> bit a 63 \<or> bit b 63) \<and> bit d 63 then 1 else 0)"
    by (simp add: c' top_bit_drop bit_simps)
  show "c' \<le> 1" by (simp add: borrow)
  have "a = d + b + c" by (simp add: d)
  then have "unat a = (unat d + unat b + unat c) mod 2 ^ 64" by (simp add: unat_word_ariths mod_simps)
  moreover have "(unat d + unat b + unat c) mod 2 ^ 64 =
      (if unat d + unat b + unat c < 2 ^ 64 then unat d + unat b + unat c else unat d + unat b + unat c - 2 ^ 64)"
    using ab c by (simp add: mod_if)
  ultimately show "unat d + unat b + unat c = unat a + 2 ^ 64 * unat c'"
    using ab c by (auto simp: borrow top_bit_iff split: if_splits)
qed

lemma limb_sum:
  fixes B P :: nat
  assumes "l1 + B * c1 = P mod B + r" "l2 + B * c2 = l1 + c"
  shows "l2 + B * (P div B + c1 + c2) = r + P + c"
proof -
  have "l2 + B * (q + c1 + c2) = r + (m + B * q) + c" if "l1 + B * c1 = m + r" for q m
    using that assms(2) by algebra
  from this [OF assms(1), of "P div B"] show ?thesis by simp
qed

lemma mac_value:
  assumes "mac r a b c = (lo, hi)"
  shows "unat lo + 2 ^ 64 * unat hi = unat r + unat a * unat b + unat c"
proof -
  let ?p = "(ucast a :: u128) * ucast b" let ?P = "unat a * unat b"
  have small: "?P \<le> (2 ^ 64 - 1) * (2 ^ 64 - 1)"
    using unat64 [of a] unat64 [of b] by (intro mult_le_mono) simp_all
  have "take_bit 128 (unat x) = unat x" for x :: u64 using unat64 [of x] by (intro take_bit_nat_eq_self) simp
  then have p: "unat ?p = ?P" using small by (simp add: unat_word_ariths unsigned_ucast_eq)
  have l: "unat (ucast ?p :: u64) = ?P mod 2 ^ 64"
    by (simp add: unsigned_ucast_eq take_bit_eq_mod p)
  have h: "unat (ucast (drop_bit 64 ?p) :: u64) = ?P div 2 ^ 64"
  proof -
    have "?P div 2 ^ 64 < 2 ^ 64" using small by (simp add: less_mult_imp_div_less)
    moreover have "take_bit LENGTH(128) ?P = ?P" using small by (simp add: take_bit_nat_eq_self)
    then have "unat (drop_bit 64 ?p) = ?P div 2 ^ 64" by (subst unsigned_drop_bit_eq) (simp only: p drop_bit_eq_div)
    ultimately show ?thesis by (simp only: unsigned_ucast_eq) (simp add: take_bit_nat_eq_self)
  qed
  obtain l1 c1 where 1: "adc (ucast ?p) r 0 = (l1, c1)" by fastforce
  obtain l2 c2 where 2: "adc l1 c 0 = (l2, c2)" by fastforce
  have out: "lo = l2" "hi = ucast (drop_bit 64 ?p) + c1 + c2" using assms 1 2 by (auto simp: mac_def Let_def)
  note v1 = adc_value [OF _ 1] and v2 = adc_value [OF _ 2]
  have le: "unat c1 \<le> 1" "unat c2 \<le> 1" using v1(2) v2(2) by (simp_all add: word_le_nat_alt)
  have sum: "unat l2 + 2 ^ 64 * (?P div 2 ^ 64 + unat c1 + unat c2) = unat r + ?P + unat c"
    using limb_sum [of "unat l1" "2 ^ 64" "unat c1" ?P "unat r" "unat l2" "unat c2" "unat c"] v1(1) v2(1) l by simp
  moreover have "?P div 2 ^ 64 + unat c1 + unat c2 < 2 ^ 64"
    using sum small unat64 [of r] unat64 [of c] by simp
  ultimately show ?thesis by (simp add: out h unat_word_ariths)
qed

section \<open>The loops are right\<close>

lemma pow64_Suc: "(2 :: nat) ^ (64 * Suc n) = 2 ^ 64 * 2 ^ (64 * n)"
  by (simp only: power_add [symmetric]) simp

lemma limb_carry:
  fixes B P :: nat
  assumes "lo + P * c2 = x + y + c1" "w + B * c1 = a + b + c"
  shows "(w + B * lo) + B * P * c2 = (a + B * x) + (b + B * y) + c"
  using assms by algebra

lemma limb_borrow:
  fixes B P :: nat
  assumes "lo + y + c1 = x + P * c2" "w + b + c = a + B * c1"
  shows "(w + B * lo) + (b + B * y) + c = (a + B * x) + B * P * c2"
  using assms by algebra

lemma add_loop_value:
  assumes "length a = length b" "c \<le> 1" "add_loop a b c = (s, c')"
  shows "lv s + 2 ^ (64 * length a) * unat c' = lv a + lv b + unat c \<and> c' \<le> 1 \<and> length s = length a"
  using assms
proof (induction a b c arbitrary: s c' rule: add_loop.induct)
  case (1 a as b bs c)
  obtain w c1 where w: "adc a b c = (w, c1)" by fastforce
  obtain out c2 where out: "add_loop as bs c1 = (out, c2)" by fastforce
  note v = adc_value [OF 1(3) w]
  have "lv out + 2 ^ (64 * length as) * unat c2 = lv as + lv bs + unat c1 \<and> c2 \<le> 1 \<and> length out = length as"
    using 1(1) [OF w [symmetric] refl _ v(2) out] 1(2) by simp
  moreover have "s = w # out" "c' = c2" using 1(4) w out by simp_all
  ultimately show ?case using limb_carry [OF _ v(1)] by (simp only: lv.simps length_Cons pow64_Suc)
qed (auto simp: lv.simps)

lemma sub_loop_value:
  assumes "length a = length b" "c \<le> 1" "sub_loop a b c = (d, c')"
  shows "lv d + lv b + unat c = lv a + 2 ^ (64 * length a) * unat c' \<and> c' \<le> 1 \<and> length d = length a"
  using assms
proof (induction a b c arbitrary: d c' rule: sub_loop.induct)
  case (1 a as b bs c)
  obtain w c1 where w: "sbb a b c = (w, c1)" by fastforce
  obtain out c2 where out: "sub_loop as bs c1 = (out, c2)" by fastforce
  note v = sbb_value [OF 1(3) w]
  have "lv out + lv bs + unat c1 = lv as + 2 ^ (64 * length as) * unat c2 \<and> c2 \<le> 1 \<and> length out = length as"
    using 1(1) [OF w [symmetric] refl _ v(2) out] 1(2) by simp
  moreover have "d = w # out" "c' = c2" using 1(4) w out by simp_all
  ultimately show ?case using limb_borrow [OF _ v(1)] by (simp only: lv.simps length_Cons pow64_Suc)
qed (auto simp: lv.simps)

lemma sub_loop_borrow:
  assumes "length a = length b" "sub_loop a b 0 = (d, c')"
  shows "c' = (if lv a < lv b then 1 else 0)" "\<not> lv a < lv b \<Longrightarrow> lv d = lv a - lv b"
    and "length d = length a"
proof -
  have v: "lv d + lv b = lv a + 2 ^ (64 * length a) * unat c'" "c' \<le> 1" "length d = length a"
    using sub_loop_value [OF assms(1) _ assms(2)] by simp_all
  have less: "lv d < 2 ^ (64 * length a)" "lv a < 2 ^ (64 * length a)"  "lv b < 2 ^ (64 * length a)"
    using lv_less [of d] lv_less [of a] lv_less [of b] assms(1) v(3) by simp_all
  have "c' = 0 \<or> c' = 1" using v(2) by (auto simp: le_less word_less_nat_alt unat_eq_0)
  then show "c' = (if lv a < lv b then 1 else 0)" "\<not> lv a < lv b \<Longrightarrow> lv d = lv a - lv b"
    using v(1) less by auto
  show "length d = length a" by (rule v)
qed

lemma cond_sub_value:
  assumes "length a = length b"
  shows "lv (cond_sub_if_ge a b) = (if lv a < lv b then lv a else lv a - lv b)"
    and "length (cond_sub_if_ge a b) = length a"
proof -
  obtain d c' where d: "sub_loop a b 0 = (d, c')" by fastforce
  note v = sub_loop_borrow [OF assms d]
  show "length (cond_sub_if_ge a b) = length a" using v(3) by (simp add: cond_sub_if_ge_def d)
  have "cond_sub_if_ge a b = (if lv a < lv b then a else d)"
    using v(1,3) by (auto simp: cond_sub_if_ge_def d Let_def intro!: nth_equalityI)
  then show "lv (cond_sub_if_ge a b) = (if lv a < lv b then lv a else lv a - lv b)" using v(2) by simp
qed

lemma lv_update:
  assumes "k < length out"
  shows "lv (out[k := w]) + 2 ^ (64 * k) * unat (out ! k) = lv out + 2 ^ (64 * k) * unat w"
proof -
  have "lv (take k out @ x # drop (Suc k) out) = lv (take k out) + 2 ^ (64 * k) * (unat x + 2 ^ 64 * lv (drop (Suc k) out))" for x
    using assms by (simp add: lv_append lv.simps)
  from this [of w] this [of "out ! k"] show ?thesis
    using assms by (simp add: upd_conv_take_nth_drop id_take_nth_drop [symmetric] distrib_left)
qed

lemma limb_product:
  fixes B K :: nat
  assumes "lo + K * x = l + K * w" "w + B * c1 = x + a * b + c"
  shows "lo + K * B * (a * bs + c1) = l + K * (a * (b + B * bs) + c)"
  using assms by algebra

lemma mul_row_value:
  assumes "k + length b \<le> length out" "mul_row a b k out c = (out', c')"
  shows "lv out' + 2 ^ (64 * (k + length b)) * unat c' = lv out + 2 ^ (64 * k) * (unat a * lv b + unat c) \<and>
    length out' = length out \<and> (\<forall>j. j < k \<or> k + length b \<le> j \<longrightarrow> out' ! j = out ! j)"
  using assms
proof (induction a b k out c rule: mul_row.induct)
  case (2 a b bs k out c)
  obtain w c1 where w: "mac (out ! k) a b c = (w, c1)" by fastforce
  let ?K = "2 ^ (64 * k)" let ?o = "out[k := w]"
  have row: "mul_row a bs (k + 1) ?o c1 = (out', c')" "k + 1 + length bs \<le> length ?o" using 2(2,3) w by simp_all
  note ih = 2(1) [OF w [symmetric] refl row(2,1)]
  have e: "k + length (b # bs) = k + 1 + length bs" "2 ^ (64 * (k + 1)) = ?K * (2 ^ 64 :: nat)" by (simp, simp add: power_add)
  have u: "lv ?o + ?K * unat (out ! k) = lv out + ?K * unat w" using 2(2) by (intro lv_update) simp
  have "lv out' + 2 ^ (64 * (k + length (b # bs))) * unat c' = lv ?o + ?K * 2 ^ 64 * (unat a * lv bs + unat c1)"
    using ih unfolding e by blast
  also have "\<dots> = lv out + ?K * (unat a * lv (b # bs) + unat c)"
    unfolding lv.simps by (rule limb_product [OF u mac_value [OF w]])
  finally show ?case using ih by simp
qed (simp add: lv.simps)

lemma mul_limbs_prefix:
  fixes a b :: "u64 list"
  assumes "i \<le> length a"
  defines "out \<equiv> fold (\<lambda>i out. let (out, carry) = mul_row (a ! i) b i out 0 in out[i + length b := carry])
    [0..<i] (replicate (length a + length b) 0)"
  shows "lv out = lv (take i a) * lv b \<and> length out = length a + length b \<and> (\<forall>j \<ge> i + length b. j < length out \<longrightarrow> out ! j = 0)"
  using assms(1) unfolding out_def
proof (induction i)
  case (Suc i)
  let ?f = "\<lambda>i out. let (out, carry) = mul_row (a ! i) b i out 0 in out[i + length b := carry]"
  let ?o = "fold ?f [0..<i] (replicate (length a + length b) 0)"
  note ih = Suc.IH [OF Suc_leD [OF Suc.prems]]
  obtain o1 c1 where row: "mul_row (a ! i) b i ?o 0 = (o1, c1)" by fastforce
  have len: "i + length b < length ?o" using ih Suc.prems by simp
  note v = mul_row_value [OF less_imp_le [OF len] row]
  have zero: "o1 ! (i + length b) = 0" using v ih len by simp
  have "lv (o1[i + length b := c1]) = lv o1 + 2 ^ (64 * (i + length b)) * unat c1"
    using lv_update [of "i + length b" o1 c1] zero v len by simp
  also have "\<dots> = lv ?o + 2 ^ (64 * i) * (unat (a ! i) * lv b)" using v by simp
  also have "\<dots> = lv (take (Suc i) a) * lv b"
    using ih Suc.prems by (simp add: take_Suc_conv_app_nth lv_append lv.simps algebra_simps)
  finally show ?case using v ih row by (auto simp: nth_list_update)
qed (simp add: lv.simps)

lemma mul_limbs_value: "lv (mul_limbs a b) = lv a * lv b" "length (mul_limbs a b) = length a + length b"
  using mul_limbs_prefix [of "length a" a b] by (simp_all add: mul_limbs_def)

lemma shl_limb_value:
  assumes "c \<le> 1"
  shows "unat (push_bit 1 w OR c) + 2 ^ 64 * unat (drop_bit 63 w) = unat w + unat w + unat (c :: u64)" "drop_bit 63 w \<le> (1 :: u64)"
proof -
  have "c = 0 \<or> c = 1" using assms by (auto simp: le_less word_less_nat_alt unat_eq_0)
  then have "push_bit 1 w OR c = w + w + c"
  proof
    assume "c = 1"
    have "push_bit 1 w OR 1 = push_bit 1 w + (1 :: u64)" by (rule disjunctive_add [symmetric]) (simp only: bit_push_bit_iff bit_1_iff, auto)
    then show ?thesis using \<open>c = 1\<close> by simp
  qed simp
  then have "adc w w c = (push_bit 1 w OR c, drop_bit 63 w)"
    by (auto simp: adc_def Let_def top_bit_drop bit_simps)
  from adc_value [OF assms this] show "unat (push_bit 1 w OR c) + 2 ^ 64 * unat (drop_bit 63 w) = unat w + unat w + unat c"
    "drop_bit 63 w \<le> (1 :: u64)" by simp_all
qed

lemma shl_loop_value:
  "c \<le> 1 \<Longrightarrow> \<exists>c' \<le> 1. lv (shl_limbs 1 c x) + 2 ^ (64 * length x) * c' = lv x + lv x + unat (c :: u64)"
proof (induction x arbitrary: c)
  case (Cons w x)
  note v = shl_limb_value [OF Cons.prems, of w]
  obtain c' where c': "c' \<le> 1" "lv (shl_limbs 1 (drop_bit 63 w) x) + 2 ^ (64 * length x) * c' = lv x + lv x + unat (drop_bit 63 w)"
    using Cons.IH [OF v(2)] by auto
  have "lv (shl_limbs 1 c (w # x)) = unat (push_bit 1 w OR c) + 2 ^ 64 * lv (shl_limbs 1 (drop_bit 63 w) x)"
    by (simp add: lv.simps)
  then show ?case using c'(1) limb_carry [OF c'(2) v(1)] by (intro exI [of _ c']) (simp only: lv.simps length_Cons pow64_Suc)
qed (auto simp: lv.simps word_le_nat_alt)

lemma shl1_or_value:
  assumes "c \<le> 1" "2 * lv x + unat c < 2 ^ (64 * length x)"
  shows "lv (shl1_or x c) = 2 * lv x + unat c"
proof -
  obtain c' where c': "lv (shl1_or x c) + 2 ^ (64 * length x) * c' = 2 * lv x + unat c"
    using shl_loop_value [OF assms(1), of x] unfolding shl1_or_def mult_2 by blast
  with assms(2) have "c' = 0" by (cases c') simp_all
  with c' show ?thesis by simp
qed

lemma div_step_value:
  assumes "c \<le> 1" "lv r < lv n" "length r = length n" "2 * lv n \<le> 2 ^ (64 * length n)"
  shows "lv (div_step n c r) = (2 * lv r + unat c) mod lv n" "length (div_step n c r) = length n"
proof -
  have "unat c \<le> 1" using assms(1) by (simp add: word_le_nat_alt)
  then have s: "lv (shl1_or r c) = 2 * lv r + unat c" using assms by (intro shl1_or_value) simp_all
  have l: "length (shl1_or r c) = length n" using assms(3) by (simp add: shl1_or_def)
  show "length (div_step n c r) = length n" by (simp add: div_step_def cond_sub_value(2) [OF l] l)
  show "lv (div_step n c r) = (2 * lv r + unat c) mod lv n"
    using \<open>unat c \<le> 1\<close> assms(2) by (simp add: div_step_def cond_sub_value(1) [OF l] s mod_if)
qed

lemma div_word_value:
  assumes "lv r < lv n" "length r = length n" "2 * lv n \<le> 2 ^ (64 * length n)"
  shows "lv (div_word n k w r) = (2 ^ k * lv r + take_bit k (unat w)) mod lv n \<and> length (div_word n k w r) = length n"
  using assms(1,2)
proof (induction k arbitrary: r)
  case (Suc k)
  let ?b = "ucast (drop_bit k w AND 1) :: u64"
  have b: "?b = (if bit w k then 1 else 0)" by (simp add: and_one_eq mod_2_eq_odd bit_iff_odd_drop_bit)
  then have ub: "unat ?b = of_bool (bit (unat w) k)" "?b \<le> 1" by (auto simp: bit_unsigned_iff)
  note v = div_step_value [OF ub(2) Suc.prems assms(3)]
  have "lv (div_step n ?b r) < lv n" using v(1) Suc.prems(1) by simp
  from Suc.IH [OF this v(2)] have "lv (div_word n k w (div_step n ?b r)) = (2 ^ k * ((2 * lv r + unat ?b) mod lv n) + take_bit k (unat w)) mod lv n \<and>
      length (div_word n k w (div_step n ?b r)) = length n" by (simp add: v(1))
  moreover have "div_word n (Suc k) w r = div_word n k w (div_step n ?b r)" by (simp add: div_word_def)
  moreover have "(2 ^ k * ((2 * lv r + unat ?b) mod lv n) + take_bit k (unat w)) mod lv n =
      (2 ^ k * (2 * lv r + unat ?b) + take_bit k (unat w)) mod lv n"
    by (metis mod_add_left_eq mod_mult_right_eq)
  moreover have "2 ^ k * (2 * lv r + unat ?b) + take_bit k (unat w) = 2 ^ Suc k * lv r + take_bit (Suc k) (unat w)"
    unfolding ub(1) take_bit_Suc_from_most by (simp add: distrib_left)
  ultimately show ?case by simp
qed (simp add: div_word_def)

section \<open>Properties\<close>

text \<open>The carry arithmetic without comparisons is exact: for a carry or borrow of at most one the
  sum, the difference and the carry-out read from the top bits are those of the integers, and
  multiply-accumulate never loses a bit, whatever its operands.\<close>

theorem limb_operations_exact:
  assumes "c \<le> 1"
  shows "(case adc a b c of (s, c') \<Rightarrow> unat s + 2 ^ 64 * unat c' = unat a + unat b + unat c \<and> c' \<le> 1) \<and>
    (case sbb a b c of (d, c') \<Rightarrow> unat d + unat b + unat c = unat a + 2 ^ 64 * unat c' \<and> c' \<le> 1) \<and>
    (case mac r a b k of (lo, hi) \<Rightarrow> unat lo + 2 ^ 64 * unat hi = unat r + unat a * unat b + unat k)"
  using adc_value [OF assms] sbb_value [OF assms] mac_value by (auto split: prod.splits)

theorem limb_operations_exact_witness:
  "case mac 0xFFFFFFFFFFFFFFFF 0xFFFFFFFFFFFFFFFF 0xFFFFFFFFFFFFFFFF 0xFFFFFFFFFFFFFFFF of (lo, hi) \<Rightarrow> unat lo + 2 ^ 64 * unat hi = 2 ^ 128 - 1"
  using limb_operations_exact [where c = 1 and a = "0xFFFFFFFFFFFFFFFF" and b = "0xFFFFFFFFFFFFFFFF" and r = "0xFFFFFFFFFFFFFFFF" and k = "0xFFFFFFFFFFFFFFFF"]
  by (simp split: prod.splits)

end
