(* ===== verification/Dstu4145_Scalar.thy ===== *)
theory Dstu4145_Scalar
  imports Limb "HOL-Library.Monad_Syntax"
begin

text \<open>
  \<open>crates/dstu-core/src/hazmat/dstu4145/scalar.rs\<close> and \<open>scalar257.rs\<close>: integers modulo the group
  orders of the two DSTU 4145 curves, as arrays of three and five limbs. The two files are one
  program at two widths, and the model takes the curve as an argument. Every operation is proved
  against the integers modulo the order.
\<close>

section \<open>Definitions\<close>

datatype dstu4145_curve = M163 | M257

fun sc_limbs :: "dstu4145_curve \<Rightarrow> nat" where
  "sc_limbs M163 = 3" | "sc_limbs M257 = 5"

fun sc_bytes :: "dstu4145_curve \<Rightarrow> nat" where
  "sc_bytes M163 = 21" | "sc_bytes M257 = 33"

definition curve163_order :: bytes where
  "curve163_order =
     [0x04, 0x00, 0x00, 0x00, 0x00, 0x00, 0x00, 0x00, 0x00, 0x00, 0x02, 0xBE, 0xC1, 0x2B, 0xE2,
      0x26, 0x2D, 0x39, 0xBC, 0xF1, 0x4D]"

definition curve257_order :: bytes where
  "curve257_order =
     [0x00, 0x80, 0x00, 0x00, 0x00, 0x00, 0x00, 0x00, 0x00, 0x00, 0x00, 0x00, 0x00, 0x00, 0x00,
      0x00, 0x00, 0x67, 0x59, 0x21, 0x3A, 0xF1, 0x82, 0xE9, 0x87, 0xD3, 0xE1, 0x77, 0x14, 0x90,
      0x7D, 0x47, 0x0D]"

fun curve_order :: "dstu4145_curve \<Rightarrow> bytes" where
  "curve_order M163 = curve163_order" | "curve_order M257 = curve257_order"

text \<open>\<open>limbs_from_be_bytes\<close>: a slice longer than the limbs indexes out of range, \<open>None\<close>.\<close>

definition put_byte :: "nat \<times> u8 \<Rightarrow> u64 list \<Rightarrow> u64 list" where
  "put_byte = (\<lambda>(i, b) limbs. limbs[i div 8 := limbs ! (i div 8) OR push_bit (i mod 8 * 8) (ucast b)])"

definition limbs_from_be_bytes :: "nat \<Rightarrow> bytes \<Rightarrow> u64 list option" where
  "limbs_from_be_bytes n bs =
     (if 8 * n < length bs then None else Some (fold put_byte (enumerate 0 (rev bs)) (replicate n 0)))"

definition scalar_from_be_bytes :: "dstu4145_curve \<Rightarrow> bytes \<Rightarrow> u64 list option" where
  "scalar_from_be_bytes m bs = limbs_from_be_bytes (sc_limbs m) bs"

definition scalar_to_be_bytes :: "dstu4145_curve \<Rightarrow> u64 list \<Rightarrow> bytes" where
  "scalar_to_be_bytes m self = rev (map (\<lambda>i. ucast (drop_bit (i mod 8 * 8) (self ! (i div 8)))) [0..<sc_bytes m])"

definition scalar_is_zero :: "dstu4145_curve \<Rightarrow> u64 list \<Rightarrow> bool" where
  "scalar_is_zero m self \<longleftrightarrow> self = replicate (sc_limbs m) 0"

definition scalar_n :: "dstu4145_curve \<Rightarrow> u64 list" where
  "scalar_n m = (case limbs_from_be_bytes (sc_limbs m) (curve_order m) of Some n \<Rightarrow> n | None \<Rightarrow> [])"

definition from_candidate_bytes :: "dstu4145_curve \<Rightarrow> bytes \<Rightarrow> u64 list option" where
  "from_candidate_bytes m bs = do {
     limbs \<leftarrow> limbs_from_be_bytes (sc_limbs m) bs;
     let (_, borrow) = sub_loop limbs (scalar_n m) 0;
     let in_range = (borrow = 1);
     let nonzero = (fold (\<lambda>l acc. acc OR l) limbs 0 \<noteq> 0);
     if in_range \<and> nonzero then Some limbs else None
   }"

definition reduce_mod_n :: "dstu4145_curve \<Rightarrow> u64 list \<Rightarrow> u64 list" where
  "reduce_mod_n m product =
     fold (\<lambda>limb_idx. div_word (scalar_n m) 64 (product ! limb_idx)) (rev [0..<length product]) (replicate (sc_limbs m) 0)"

definition scalar_multiply :: "dstu4145_curve \<Rightarrow> u64 list \<Rightarrow> u64 list \<Rightarrow> u64 list" where
  "scalar_multiply m self other = reduce_mod_n m (mul_limbs self other)"

definition reduce_wide_bytes :: "dstu4145_curve \<Rightarrow> bytes \<Rightarrow> u64 list" where
  "reduce_wide_bytes m bs = fold (\<lambda>b. div_word (scalar_n m) 8 b) bs (replicate (sc_limbs m) 0)"

definition scalar_add :: "dstu4145_curve \<Rightarrow> u64 list \<Rightarrow> u64 list \<Rightarrow> u64 list" where
  "scalar_add m self other = (let (s, _) = add_loop self other 0 in cond_sub_if_ge s (scalar_n m))"

section \<open>Bytes and limbs\<close>

text \<open>The number a big-endian string stands for.\<close>

definition be_value :: "bytes \<Rightarrow> nat" where
  "be_value bs = foldl (\<lambda>acc b. 256 * acc + unat b) 0 bs"

lemma be_value_simps [simp]: "be_value [] = 0" "be_value (bs @ [b]) = 256 * be_value bs + unat b"
  by (simp_all add: be_value_def)

lemma be_value_zeros: "foldl (\<lambda>acc b. 256 * acc + unat b) 0 (replicate n (0 :: u8)) = 0"
  by (induction n) simp_all

lemma bit_be_value: "bit (be_value bs) k \<longleftrightarrow> k div 8 < length bs \<and> bit (rev bs ! (k div 8)) (k mod 8)"
proof (induction bs arbitrary: k rule: rev_induct)
  case (snoc b bs)
  have "push_bit 8 (be_value bs) + unat b = push_bit 8 (be_value bs) OR unat b"
    by (rule disjunctive_add) (auto simp: bit_simps dest: bit_u8_less)
  then have "be_value (bs @ [b]) = push_bit 8 (be_value bs) OR unat b" by (simp add: push_bit_eq_mult mult.commute)
  then have "bit (be_value (bs @ [b])) k \<longleftrightarrow> 8 \<le> k \<and> bit (be_value bs) (k - 8) \<or> bit b k"
    by (simp only: bit_or_iff bit_push_bit_iff bit_unsigned_iff) (auto dest: bit_u8_less)
  then show ?case using bit_u8_less [of b k] by (cases "k < 8") (auto simp: snoc.IH le_div_geq le_mod_geq nth_Cons' not_less)
qed simp

lemma be_value_inject: "length a = length b \<Longrightarrow> be_value a = be_value b \<longleftrightarrow> a = b"
proof (rule iffI)
  assume len: "length a = length b" and eq: "be_value a = be_value b"
  have "rev a = rev b"
  proof (rule nth_equalityI)
    fix i assume i: "i < length (rev a)"
    show "rev a ! i = rev b ! i"
    proof (rule bit_word_eqI)
      fix t assume "t < LENGTH(8)"
      then have "(8 * i + t) div 8 = i" "(8 * i + t) mod 8 = t" by simp_all
      with bit_be_value [of a "8 * i + t"] bit_be_value [of b "8 * i + t"] eq i len
      show "bit (rev a ! i) t = bit (rev b ! i) t" by simp
    qed
  qed (simp add: len)
  then show "a = b" by simp
qed simp

lemma put_byte_laws [simp]: "length (put_byte x limbs) = length limbs"
  by (simp add: put_byte_def case_prod_beta)

lemma length_fold_put_byte [simp]: "length (fold put_byte xs limbs) = length limbs"
  by (induction xs arbitrary: limbs) simp_all

lemma bit_put_byte:
  assumes "i div 8 < length L" "k div 64 < length L"
  shows "bit (lv (put_byte (i, y) L)) k \<longleftrightarrow>
    bit (lv L) k \<or> k div 64 = i div 8 \<and> i mod 8 * 8 \<le> k mod 64 \<and> bit y (k mod 64 - i mod 8 * 8)"
  using assms
  by (cases "k div 64 = i div 8") (auto simp: put_byte_def bit_lv bit_or_iff bit_push_bit_iff bit_ucast_iff dest: bit_u8_less)

lemma byte_digits: "k div 64 = k div 8 div (8 :: nat)" "k mod 64 = 8 * (k div 8 mod 8) + k mod (8 :: nat)"
  using div_mult2_eq [of k 8 8] mod_mult2_eq [of k 8 8] by simp_all

lemma byte_position:
  "k div 64 = i div 8 \<and> i mod 8 * 8 \<le> k mod 64 \<and> bit (y :: u8) (k mod 64 - i mod 8 * 8) \<longleftrightarrow> k div 8 = i \<and> bit y (k mod 8)"
proof -
  define q c where "q = k div 8" and "c = k mod 8"
  have c: "c < 8" by (simp add: c_def)
  have k: "k div 64 = q div 8" "k mod 64 = 8 * (q mod 8) + c" by (simp_all add: byte_digits q_def c_def)
  have "q mod 8 = i mod 8" if "i mod 8 * 8 \<le> 8 * (q mod 8) + c" "bit y (8 * (q mod 8) + c - i mod 8 * 8)"
    using bit_u8_less [OF that(2)] that(1) c by linarith
  then show ?thesis unfolding k q_def [symmetric] c_def [symmetric]
    by (auto simp: mult.commute) (metis div_mult_mod_eq)+
qed

lemma bit_put_bytes:
  "length ys \<le> 8 * n \<Longrightarrow> k < 64 * n \<Longrightarrow>
   bit (lv (fold put_byte (enumerate 0 ys) (replicate n 0))) k \<longleftrightarrow> k div 8 < length ys \<and> bit (ys ! (k div 8)) (k mod 8)"
proof (induction ys rule: rev_induct)
  case (snoc y ys)
  let ?L = "fold put_byte (enumerate 0 ys) (replicate n 0)" let ?i = "length ys"
  have i: "?i div 8 < n" and kn: "k div 64 < n" using snoc.prems by auto
  have "bit (lv (put_byte (?i, y) ?L)) k \<longleftrightarrow>
      bit (lv ?L) k \<or> k div 64 = ?i div 8 \<and> ?i mod 8 * 8 \<le> k mod 64 \<and> bit y (k mod 64 - ?i mod 8 * 8)"
    using i kn by (intro bit_put_byte) simp_all
  moreover have "k div 64 = ?i div 8 \<and> ?i mod 8 * 8 \<le> k mod 64 \<and> bit y (k mod 64 - ?i mod 8 * 8) \<longleftrightarrow>
      k div 8 = ?i \<and> bit y (k mod 8)"
    by (rule byte_position)
  moreover have "fold put_byte (enumerate 0 (ys @ [y])) (replicate n 0) = put_byte (?i, y) ?L"
    by (simp add: enumerate_append_eq)
  ultimately show ?case using snoc by (auto simp: nth_append less_Suc_eq)
qed simp

lemma limbs_from_be_bytes_value:
  assumes "length bs \<le> 8 * n"
  obtains limbs where "limbs_from_be_bytes n bs = Some limbs" "lv limbs = be_value bs" "length limbs = n"
proof
  let ?L = "fold put_byte (enumerate 0 (rev bs)) (replicate n 0)"
  show "limbs_from_be_bytes n bs = Some ?L" "length ?L = n" using assms by (simp_all add: limbs_from_be_bytes_def)
  show "lv ?L = be_value bs"
  proof (rule bit_eqI)
    fix k
    show "bit (lv ?L) k \<longleftrightarrow> bit (be_value bs) k"
    proof (cases "k < 64 * n")
      case True
      then show ?thesis using bit_put_bytes [of "rev bs" n k] assms by (simp add: bit_be_value)
    next
      case False
      then have "\<not> k div 64 < n" "\<not> k div 8 < length bs" using assms by auto
      then show ?thesis by (simp add: bit_lv bit_be_value)
    qed
  qed
qed

lemma to_be_bytes_value:
  assumes "length self = sc_limbs m"
  shows "be_value (scalar_to_be_bytes m self) = lv self mod 256 ^ sc_bytes m" "length (scalar_to_be_bytes m self) = sc_bytes m"
proof -
  show "length (scalar_to_be_bytes m self) = sc_bytes m" by (simp add: scalar_to_be_bytes_def)
  have room: "sc_bytes m \<le> 8 * sc_limbs m" by (cases m) simp_all
  have "256 ^ sc_bytes m = (2 :: nat) ^ (8 * sc_bytes m)" by (simp add: power_mult)
  moreover have "be_value (scalar_to_be_bytes m self) = take_bit (8 * sc_bytes m) (lv self)"
  proof (rule bit_eqI)
    fix k :: nat
    have "k div 64 < sc_limbs m" if "k div 8 < sc_bytes m"
      using that room by (simp add: byte_digits div_less_iff_less_mult mult.commute)
    then show "bit (be_value (scalar_to_be_bytes m self)) k \<longleftrightarrow> bit (take_bit (8 * sc_bytes m) (lv self)) k"
      using assms by (auto simp: bit_be_value scalar_to_be_bytes_def bit_take_bit_iff bit_lv bit_ucast_iff bit_drop_bit_eq byte_digits mult.commute)
  qed
  ultimately show "be_value (scalar_to_be_bytes m self) = lv self mod 256 ^ sc_bytes m" by (simp add: take_bit_eq_mod)
qed

section \<open>Arithmetic modulo the order\<close>

definition order_value :: "dstu4145_curve \<Rightarrow> nat" where
  "order_value m = be_value (curve_order m)"

lemma order_163: "order_value M163 = 0x400000000000000000002BEC12BE2262D39BCF14D"
  by (simp add: order_value_def curve163_order_def be_value_def)

lemma order_257: "order_value M257 = 0x800000000000000000000000000000006759213AF182E987D3E17714907D470D"
  by (simp add: order_value_def curve257_order_def be_value_def)

lemma order_bounds: "1 < order_value m" "2 * order_value m \<le> 2 ^ (64 * sc_limbs m)" "order_value m \<le> 256 ^ sc_bytes m"
  by (cases m; simp add: order_163 order_257)+

lemma scalar_n_value: "lv (scalar_n m) = order_value m" "length (scalar_n m) = sc_limbs m"
proof -
  have "length (curve_order m) \<le> 8 * sc_limbs m" by (cases m) (simp_all add: curve163_order_def curve257_order_def)
  then obtain limbs where "limbs_from_be_bytes (sc_limbs m) (curve_order m) = Some limbs" "lv limbs = order_value m" "length limbs = sc_limbs m"
    by (rule limbs_from_be_bytes_value) (simp add: order_value_def)
  then show "lv (scalar_n m) = order_value m" "length (scalar_n m) = sc_limbs m" by (simp_all add: scalar_n_def)
qed

text \<open>The scalars the operations are meant for: reduced, at the curve's width.\<close>

definition valid_scalar :: "dstu4145_curve \<Rightarrow> u64 list \<Rightarrow> bool" where
  "valid_scalar m s \<longleftrightarrow> length s = sc_limbs m \<and> lv s < order_value m"

lemma valid_zero: "valid_scalar m (replicate (sc_limbs m) 0)"
  using order_bounds(1) [of m] by (simp add: valid_scalar_def)

lemma valid_div_word:
  assumes "valid_scalar m r"
  shows "valid_scalar m (div_word (scalar_n m) k w r)"
    "lv (div_word (scalar_n m) k w r) = (2 ^ k * lv r + take_bit k (unat w)) mod order_value m"
  using assms div_word_value [of r "scalar_n m" k w] order_bounds [of m]
  by (simp_all add: valid_scalar_def scalar_n_value)

lemma reduce_limbs:
  "valid_scalar m r \<Longrightarrow>
   valid_scalar m (fold (div_word (scalar_n m) 64) (rev ws) r) \<and>
   lv (fold (div_word (scalar_n m) 64) (rev ws) r) = (2 ^ (64 * length ws) * lv r + lv ws) mod order_value m"
  for ws :: "u64 list"
proof (induction ws)
  case (Cons w ws)
  let ?r = "fold (div_word (scalar_n m) 64) (rev ws) r"
  note ih = Cons.IH [OF Cons.prems]
  have "take_bit 64 (unat w) = unat w" using unat64 [of w] by (simp add: take_bit_nat_eq_self)
  moreover have "(2 ^ 64 * ((2 ^ (64 * length ws) * lv r + lv ws) mod order_value m) + unat w) mod order_value m =
      (2 ^ 64 * (2 ^ (64 * length ws) * lv r + lv ws) + unat w) mod order_value m"
    by (metis mod_add_left_eq mod_mult_right_eq)
  moreover have "2 ^ 64 * (2 ^ (64 * length ws) * lv r + lv ws) + unat w = 2 ^ (64 * length (w # ws)) * lv r + lv (w # ws)"
    unfolding lv.simps length_Cons pow64_Suc by algebra
  ultimately show ?case using valid_div_word [of m ?r 64 w] ih by simp
qed (simp add: valid_scalar_def lv.simps)

lemma reduce_mod_n_value:
  "valid_scalar m (reduce_mod_n m p) \<and> lv (reduce_mod_n m p) = lv p mod order_value m"
proof -
  have "reduce_mod_n m p = fold (div_word (scalar_n m) 64) (map ((!) p) (rev [0..<length p])) (replicate (sc_limbs m) 0)"
    by (simp add: reduce_mod_n_def fold_map comp_def)
  also have "map ((!) p) (rev [0..<length p]) = rev p" by (simp add: rev_map [symmetric] map_nth)
  finally show ?thesis using reduce_limbs [OF valid_zero, of m p] by simp
qed

lemma reduce_wide_value:
  "valid_scalar m (reduce_wide_bytes m bs) \<and> lv (reduce_wide_bytes m bs) = be_value bs mod order_value m"
  unfolding reduce_wide_bytes_def
proof (induction bs rule: rev_induct)
  case (snoc b bs)
  have "take_bit 8 (unat b) = unat b" using unat_u8_less [of b] by (simp add: take_bit_nat_eq_self)
  moreover have "(256 * (be_value bs mod order_value m) + unat b) mod order_value m = (256 * be_value bs + unat b) mod order_value m"
    by (metis mod_add_left_eq mod_mult_right_eq)
  ultimately show ?case using valid_div_word [OF conjunct1 [OF snoc.IH], of 8 b] snoc.IH by simp
qed (use valid_zero in simp)

lemma scalar_add_value:
  assumes "valid_scalar m a" "valid_scalar m b"
  shows "valid_scalar m (scalar_add m a b) \<and> lv (scalar_add m a b) = (lv a + lv b) mod order_value m"
proof -
  obtain s c where s: "add_loop a b 0 = (s, c)" by fastforce
  have ab: "length a = sc_limbs m" "length b = sc_limbs m" "lv a < order_value m" "lv b < order_value m"
    using assms by (simp_all add: valid_scalar_def)
  have v: "lv s + 2 ^ (64 * sc_limbs m) * unat c = lv a + lv b" "length s = sc_limbs m"
    using add_loop_value [OF _ _ s] ab by simp_all
  have "lv a + lv b < 2 ^ (64 * sc_limbs m)" using ab order_bounds(2) [of m] by linarith
  with v(1) have "lv s = lv a + lv b" by (cases "unat c") simp_all
  then show ?thesis using cond_sub_value [of s "scalar_n m"] v(2) ab
    by (simp add: scalar_add_def s valid_scalar_def scalar_n_value mod_if)
qed

lemma fold_or_zero: "fold (\<lambda>l acc. acc OR l) ls acc = 0 \<longleftrightarrow> acc = 0 \<and> (\<forall>l \<in> set ls. l = (0 :: u64))"
  by (induction ls arbitrary: acc) (auto simp: or_eq_0_iff)

lemma lv_eq_0: "lv ls = 0 \<longleftrightarrow> (\<forall>l \<in> set ls. l = 0)"
  by (induction ls) (auto simp: lv.simps unat_eq_0)

lemma candidate_cases:
  assumes "length bs = sc_bytes m"
  shows "case from_candidate_bytes m bs of
      None \<Rightarrow> be_value bs = 0 \<or> order_value m \<le> be_value bs
    | Some s \<Rightarrow> valid_scalar m s \<and> \<not> scalar_is_zero m s \<and> lv s = be_value bs \<and> scalar_to_be_bytes m s = bs"
proof -
  have "length bs \<le> 8 * sc_limbs m" using assms by (cases m) simp_all
  then obtain limbs where l: "limbs_from_be_bytes (sc_limbs m) bs = Some limbs" "lv limbs = be_value bs" "length limbs = sc_limbs m"
    by (rule limbs_from_be_bytes_value)
  obtain d c where d: "sub_loop limbs (scalar_n m) 0 = (d, c)" by fastforce
  have c: "c = (if be_value bs < order_value m then 1 else 0)"
    using sub_loop_borrow(1) [OF _ d] l by (simp add: scalar_n_value)
  have nz: "fold (\<lambda>l acc. acc OR l) limbs 0 \<noteq> 0 \<longleftrightarrow> be_value bs \<noteq> 0" by (simp add: fold_or_zero lv_eq_0 [symmetric] l(2))
  have "scalar_to_be_bytes m limbs = bs" if "be_value bs < order_value m"
    using that to_be_bytes_value [OF l(3)] order_bounds(3) [of m] l(2) assms be_value_inject [of "scalar_to_be_bytes m limbs" bs] by simp
  moreover have "scalar_is_zero m limbs \<longleftrightarrow> be_value bs = 0"
    using lv_inject [of limbs "replicate (sc_limbs m) 0"] l by (simp add: scalar_is_zero_def)
  ultimately show ?thesis using l by (auto simp: from_candidate_bytes_def d c nz valid_scalar_def)
qed

section \<open>Properties\<close>

text \<open>Scalar arithmetic is arithmetic modulo the group order: on reduced scalars the branchless
  product and sum are the product and sum modulo the order, and folding a byte string of any length
  gives its big-endian value modulo the order; every result is reduced again.\<close>

theorem scalar_arithmetic_modulo_order:
  assumes "valid_scalar m a" "valid_scalar m b"
  shows "valid_scalar m (scalar_multiply m a b) \<and> lv (scalar_multiply m a b) = lv a * lv b mod order_value m \<and>
    valid_scalar m (scalar_add m a b) \<and> lv (scalar_add m a b) = (lv a + lv b) mod order_value m \<and>
    valid_scalar m (reduce_wide_bytes m bs) \<and> lv (reduce_wide_bytes m bs) = be_value bs mod order_value m"
  using reduce_mod_n_value [of m "mul_limbs a b"] scalar_add_value [OF assms] reduce_wide_value [of m bs]
  by (simp add: scalar_multiply_def mul_limbs_value)

theorem scalar_arithmetic_modulo_order_witness:
  "lv (scalar_multiply M163 [3, 0, 0] [5, 0, 0]) = 15 \<and> lv (scalar_add M163 [3, 0, 0] [5, 0, 0]) = 8 \<and>
   lv (reduce_wide_bytes M163 (replicate 30 0 @ [1, 0])) = 256"
proof -
  have "valid_scalar M163 [3, 0, 0]" "valid_scalar M163 [5, 0, 0]" by (simp_all add: valid_scalar_def lv.simps order_163)
  from scalar_arithmetic_modulo_order [OF this, of "replicate 30 0 @ [1, 0]"]
  show ?thesis by (simp add: lv.simps order_163 be_value_zeros be_value_def)
qed

text \<open>C34. The range check of secret keys: a candidate string is accepted exactly when its value lies
  strictly between zero and the group order, and the accepted scalar is that value and encodes back
  to the candidate.\<close>

theorem candidate_accepted_exactly_in_range:
  assumes "length bs = sc_bytes m"
  shows "case from_candidate_bytes m bs of
      None \<Rightarrow> be_value bs = 0 \<or> order_value m \<le> be_value bs
    | Some s \<Rightarrow> valid_scalar m s \<and> \<not> scalar_is_zero m s \<and> lv s = be_value bs \<and> scalar_to_be_bytes m s = bs"
  by (rule candidate_cases [OF assms])

theorem candidate_accepted_exactly_in_range_witness:
  "from_candidate_bytes M163 curve163_order = None \<and>
   (\<exists>s. from_candidate_bytes M257 (replicate 32 0 @ [7]) = Some s \<and> lv s = 7)"
proof
  have "length curve163_order = sc_bytes M163" by (simp add: curve163_order_def)
  from candidate_accepted_exactly_in_range [OF this] show "from_candidate_bytes M163 curve163_order = None"
    by (auto simp: valid_scalar_def order_value_def split: option.splits)
  have "be_value (replicate 32 0 @ [7]) = 7" by (simp add: be_value_zeros be_value_def)
  then show "\<exists>s. from_candidate_bytes M257 (replicate 32 0 @ [7]) = Some s \<and> lv s = 7"
    using candidate_accepted_exactly_in_range [of "replicate 32 0 @ [7]" M257] by (auto simp: order_257 split: option.splits)
qed

end
