(* ===== verification/Gf2_Field.thy ===== *)
theory Gf2_Field
  imports Gf2_Poly
begin

text \<open>
  The polynomials over GF(2) of degree below \<open>m\<close>, modulo \<open>x^m\<close> plus the terms \<open>ts\<close>, as a field. That
  the polynomial is irreducible is used in the form of two facts a computation can check: \<open>x\<close> returns
  after \<open>m\<close> squarings, and a table that inverts \<open>a \<mapsto> a^2 + a\<close> up to a constant, so that \<open>0\<close> and \<open>1\<close> are the
  only solutions of \<open>a^2 = a\<close>. Every nonzero element then has the inverse \<open>a^(2^m - 2)\<close>, which is the power
  \<open>FieldElement::invert\<close> computes.
\<close>

section \<open>Reduction\<close>

definition xors :: "nat list \<Rightarrow> nat" where
  "xors xs = foldr (XOR) xs 0"

text \<open>The exponents of \<open>x^d\<close> after replacing \<open>x^m\<close> by the other terms of the modulus.\<close>

function red_bits :: "nat \<Rightarrow> nat list \<Rightarrow> nat \<Rightarrow> nat list" where
  "red_bits m ts d = (if d < m then [d] else concat (map (\<lambda>t. if t < m then red_bits m ts (d - m + t) else []) ts))"
  by pat_completeness auto
termination by (relation "measure (\<lambda>(m, ts, d). d)") auto

declare red_bits.simps [simp del]

definition rmod :: "nat \<Rightarrow> nat list \<Rightarrow> nat \<Rightarrow> nat" where
  "rmod m ts a = xors (map (\<lambda>k. if bit a k then xors (map ((^) 2) (red_bits m ts k)) else 0) [0..<2 * m])"

lemma xors_simps [simp]: "xors [] = 0" "xors (x # xs) = x XOR xors xs" "xors (xs @ ys) = xors xs XOR xors ys"
  by (simp_all add: xors_def) (induction xs; simp add: xor.assoc)

lemma xors_map_xor: "xors (map (\<lambda>k. f k XOR g k) ks) = xors (map f ks) XOR xors (map g ks)"
  by (induction ks) (simp_all add: ac_simps)

lemma xors_less: "(\<And>x. x \<in> set xs \<Longrightarrow> x < 2 ^ m) \<Longrightarrow> xors xs < 2 ^ m"
  by (induction xs) (simp_all add: xor_less_exp)

lemma xors_single: "distinct ks \<Longrightarrow> j \<in> set ks \<Longrightarrow> xors (map (\<lambda>k. if k = j then f k else 0) ks) = f j"
proof (induction ks)
  case (Cons k ks)
  have "xors (map (\<lambda>k. if k = j then f k else 0) ks) = 0" if "j \<notin> set ks"
    using that by (induction ks) auto
  then show ?case using Cons by (cases "k = j") auto
qed simp

lemma xors_bits: "a < 2 ^ n \<Longrightarrow> xors (map (\<lambda>k. if bit a k then 2 ^ k else 0) [0..<n]) = a"
proof (induction n arbitrary: a)
  case (Suc n)
  have t: "take_bit n a < 2 ^ n" by simp
  have "map (\<lambda>k. if bit a k then 2 ^ k else (0 :: nat)) [0..<n] = map (\<lambda>k. if bit (take_bit n a) k then 2 ^ k else 0) [0..<n]"
    by (auto simp: bit_take_bit_iff)
  then have "xors (map (\<lambda>k. if bit a k then 2 ^ k else 0) [0..<Suc n]) = take_bit n a XOR (if bit a n then 2 ^ n else 0)"
    using Suc.IH [OF t] by (simp only: upt_Suc_append le0 map_append xors_simps) simp
  also have "\<dots> = take_bit (Suc n) a" by (rule bit_eqI) (auto simp: bit_simps less_Suc_eq)
  finally show ?case using Suc.prems by (simp add: take_bit_nat_eq_self)
qed simp

lemma linear_exact:
  assumes "\<And>x y. g (x XOR y) = g x XOR g y" "\<And>k. k < n \<Longrightarrow> g (2 ^ k) = 2 ^ k" "a < 2 ^ n"
  shows "g a = (a :: nat)"
proof -
  have g0: "g 0 = 0" using assms(1) [of 0 0] by simp
  have "g (xors (map (\<lambda>k. if bit a k then 2 ^ k else 0) ks)) = xors (map (\<lambda>k. if bit a k then 2 ^ k else 0) ks)"
    if "set ks \<subseteq> {..<n}" for ks
    using that by (induction ks) (simp_all add: assms(1,2) g0)
  from this [of "[0..<n]"] show ?thesis by (simp add: xors_bits [OF assms(3)] lessThan_def atLeast0LessThan subset_iff)
qed

lemma pcong_xors: "(\<And>k. k \<in> set ks \<Longrightarrow> pcong f (g k) (h k)) \<Longrightarrow> pcong f (xors (map g ks)) (xors (map h ks))"
  by (induction ks) (simp_all add: pcong_xor)

lemma xors_concat: "xors (concat xss) = xors (map xors xss)"
  by (induction xss) simp_all

lemma push_xors: "push_bit n (xors xs) = xors (map (push_bit n) xs)"
  by (induction xs) (simp_all add: push_bit_xor)

section \<open>The modulus\<close>

definition modulus :: "nat \<Rightarrow> nat list \<Rightarrow> nat" where
  "modulus m ts = 2 ^ m XOR xors (map ((^) 2) ts)"

definition gmul :: "nat \<Rightarrow> nat list \<Rightarrow> nat \<Rightarrow> nat \<Rightarrow> nat" where
  "gmul m ts a b = rmod m ts (clmul a b)"

lemma red_bits_less: "e \<in> set (red_bits m ts d) \<Longrightarrow> e < m"
proof (induction m ts d arbitrary: e rule: red_bits.induct)
  case (1 m ts d)
  then show ?case by (subst (asm) (2) red_bits.simps) (auto split: if_splits)
qed

lemma red_bits_cong:
  assumes "\<forall>t\<in>set ts. t < m"
  shows "pcong (modulus m ts) (xors (map ((^) 2) (red_bits m ts d))) (2 ^ d)"
  using assms
proof (induction m ts d rule: red_bits.induct)
  case (1 m ts d)
  show ?case
  proof (cases "d < m")
    case True
    then show ?thesis by (simp add: red_bits.simps)
  next
    case False
    have "map ((^) (2 :: nat)) (red_bits m ts d) = concat (map (\<lambda>t. map ((^) 2) (red_bits m ts (d - m + t))) ts)"
      using False 1(2) by (subst red_bits.simps) (auto simp: map_concat o_def intro!: arg_cong [of _ _ concat])
    then have "xors (map ((^) 2) (red_bits m ts d)) = xors (map (\<lambda>t. xors (map ((^) 2) (red_bits m ts (d - m + t)))) ts)"
      by (simp add: xors_concat o_def)
    moreover have "pcong (modulus m ts) \<dots> (xors (map (\<lambda>t. 2 ^ (d - m + t)) ts))"
      using 1 False by (intro pcong_xors) auto
    moreover have "xors (map (\<lambda>t. 2 ^ (d - m + t)) ts) = push_bit (d - m) (xors (map ((^) 2) ts))"
      unfolding push_xors map_map by (rule arg_cong [of _ _ xors]) (simp add: push_bit_eq_mult power_add mult.commute)
    moreover have "push_bit (d - m) (xors (map ((^) 2) ts)) XOR 2 ^ d = clmul (2 ^ (d - m)) (modulus m ts)"
    proof -
      have "clmul (2 ^ (d - m)) (modulus m ts) = push_bit (d - m) (modulus m ts)"
        using clmul_push_left [of "d - m" 1 "modulus m ts"] by (simp add: push_bit_eq_mult)
      also have "\<dots> = 2 ^ d XOR push_bit (d - m) (xors (map ((^) 2) ts))"
        using False unfolding modulus_def push_bit_xor by (simp add: push_bit_eq_mult flip: power_add)
      finally show ?thesis by (simp add: xor.commute)
    qed
    ultimately have "pcong (modulus m ts) (xors (map ((^) 2) (red_bits m ts d))) (push_bit (d - m) (xors (map ((^) 2) ts)))"
      "pcong (modulus m ts) (push_bit (d - m) (xors (map ((^) 2) ts))) (2 ^ d)" by (auto simp: pcong_def)
    then show ?thesis by (rule pcong_trans)
  qed
qed

lemma rmod_less: "rmod m ts a < 2 ^ m"
proof -
  have "xors (map ((^) 2) (red_bits m ts k)) < 2 ^ m" for k by (rule xors_less) (auto simp: red_bits_less)
  then show ?thesis unfolding rmod_def by (intro xors_less) auto
qed

lemma rmod_xor: "rmod m ts (a XOR b) = rmod m ts a XOR rmod m ts b"
  unfolding rmod_def xors_map_xor [symmetric] by (rule arg_cong [of _ _ xors]) (auto simp: bit_xor_iff)

lemma rmod_cong:
  assumes "\<forall>t\<in>set ts. t < m" "a < 2 ^ (2 * m)"
  shows "pcong (modulus m ts) (rmod m ts a) a"
proof -
  have "pcong (modulus m ts) (rmod m ts a) (xors (map (\<lambda>k. if bit a k then 2 ^ k else 0) [0..<2 * m]))"
    unfolding rmod_def using red_bits_cong [OF assms(1)] by (intro pcong_xors) auto
  then show ?thesis by (simp add: xors_bits [OF assms(2)])
qed

lemma modulus_degree: "\<forall>t\<in>set ts. t < m \<Longrightarrow> has_degree (modulus m ts) m"
proof -
  assume "\<forall>t\<in>set ts. t < m"
  then have "xors (map ((^) 2) ts) < 2 ^ m" by (intro xors_less) auto
  moreover have "has_degree (2 ^ m) m" by (simp add: has_degree_def)
  ultimately show ?thesis unfolding modulus_def by (metis has_degree_add xor.commute)
qed

lemma gmul_less [simp]: "gmul m ts a b < 2 ^ m"
  by (simp add: gmul_def rmod_less)

lemma gmul_cong:
  assumes "\<forall>t\<in>set ts. t < m" "a < 2 ^ m" "b < 2 ^ m"
  shows "pcong (modulus m ts) (gmul m ts a b) (clmul a b)"
  unfolding gmul_def using clmul_less [OF assms(2,3)] by (intro rmod_cong [OF assms(1)]) (simp add: mult_2)

lemma gmul_eqI:
  assumes "\<forall>t\<in>set ts. t < m" "a < 2 ^ m" "b < 2 ^ m" "r < 2 ^ m" "pcong (modulus m ts) r (clmul a b)"
  shows "gmul m ts a b = r"
  by (rule pcong_unique [OF modulus_degree [OF assms(1)] gmul_less assms(4)])
    (rule pcong_trans [OF gmul_cong [OF assms(1-3)] pcong_sym [OF assms(5)]])

lemma bit_power_two: "bit (2 ^ j :: nat) k \<longleftrightarrow> k = j"
  by (auto simp: bit_exp_iff)

lemma rmod_power: "d < 2 * m \<Longrightarrow> rmod m ts (2 ^ d) = xors (map ((^) 2) (red_bits m ts d))"
  unfolding rmod_def bit_power_two using xors_single [of "[0..<2 * m]" d "\<lambda>k. xors (map ((^) 2) (red_bits m ts k))"] by simp

section \<open>Squaring lists of coefficients\<close>

text \<open>The computation of the squarings: coefficients as a list of bits, lowest first. The list \<open>r\<close>
  only marks the position \<open>m\<close>.\<close>

fun bit_xors :: "bool list \<Rightarrow> bool list \<Rightarrow> bool list" where
  "bit_xors [] ys = ys"
| "bit_xors (x # xs) [] = x # xs"
| "bit_xors (True # xs) (True # ys) = False # bit_xors xs ys"
| "bit_xors (True # xs) (False # ys) = True # bit_xors xs ys"
| "bit_xors (False # xs) (y # ys) = y # bit_xors xs ys"

fun spread_bits :: "bool list \<Rightarrow> bool list" where
  "spread_bits [] = []"
| "spread_bits (b # bs) = b # False # spread_bits bs"

fun before :: "bool list \<Rightarrow> bool list \<Rightarrow> bool list" where
  "before (r # rs) (x # xs) = x # before rs xs"
| "before _ _ = []"

fun behind :: "bool list \<Rightarrow> bool list \<Rightarrow> bool list" where
  "behind (r # rs) (x # xs) = behind rs xs"
| "behind _ xs = xs"

definition fold_bits :: "nat list \<Rightarrow> bool list \<Rightarrow> bool list \<Rightarrow> bool list" where
  "fold_bits ts r xs = (let hi = behind r xs in foldr (\<lambda>t. bit_xors (replicate t False @ hi)) ts (before r xs))"

definition square_bits :: "nat list \<Rightarrow> bool list \<Rightarrow> bool list" where
  "square_bits ts xs = fold_bits ts xs (fold_bits ts xs (spread_bits xs))"

primrec square_times :: "nat list \<Rightarrow> nat \<Rightarrow> bool list \<Rightarrow> bool list" where
  "square_times ts 0 xs = xs"
| "square_times ts (Suc n) xs = square_times ts n (square_bits ts xs)"

fun bits_value :: "bool list \<Rightarrow> nat" where
  "bits_value [] = 0"
| "bits_value (b # bs) = of_bool b + 2 * bits_value bs"

definition x_bits :: "nat \<Rightarrow> bool list" where
  "x_bits m = False # True # replicate (m - 2) False"

lemma bits_value_Cons: "bits_value (b # bs) = of_bool b XOR 2 * bits_value bs"
  using nat_split_low [of "of_bool b + 2 * bits_value bs"] by (cases b) simp_all

lemma bits_value_xors: "bits_value (bit_xors xs ys) = bits_value xs XOR bits_value ys"
  by (induction xs ys rule: bit_xors.induct) (simp_all only: bit_xors.simps bits_value_Cons double_xor, auto simp: ac_simps)

lemma bits_value_shift: "bits_value (replicate t False @ xs) = push_bit t (bits_value xs)"
  by (induction t) (simp_all add: push_bit_double)

lemma length_bit_xors [simp]: "length (bit_xors xs ys) = max (length xs) (length ys)"
  by (induction xs ys rule: bit_xors.induct) simp_all

lemma split_ruler: "before r xs = take (length r) xs" "behind r xs = drop (length r) xs"
  by (induction r xs rule: before.induct) simp_all

lemma bits_value_split: "bits_value xs = bits_value (take n xs) XOR push_bit n (bits_value (drop n xs))"
proof (induction n arbitrary: xs)
  case (Suc n)
  show ?case
  proof (cases xs)
    case (Cons b bs)
    have "bits_value xs = of_bool b XOR 2 * (bits_value (take n bs) XOR push_bit n (bits_value (drop n bs)))"
      unfolding Cons bits_value_Cons Suc [of bs, symmetric] ..
    also have "\<dots> = bits_value (take (Suc n) xs) XOR push_bit (Suc n) (bits_value (drop (Suc n) xs))"
      unfolding Cons take_Suc_Cons drop_Suc_Cons bits_value_Cons double_xor xor.assoc by (simp add: push_bit_eq_mult mult.left_commute)
    finally show ?thesis .
  qed simp
qed simp

lemma bits_value_less: "bits_value xs < 2 ^ length xs"
  by (induction xs) auto

lemma bits_value_spread: "bits_value (spread_bits xs) = clmul (bits_value xs) (bits_value xs)"
proof (induction xs)
  case (Cons b bs)
  let ?v = "bits_value bs"
  have "clmul (of_bool b XOR 2 * ?v) (of_bool b XOR 2 * ?v) = of_bool b XOR clmul (2 * ?v) (2 * ?v)"
    by (cases b) (simp_all add: clmul_xor_left clmul_xor_right xor.assoc)
  then show ?case using Cons unfolding spread_bits.simps bits_value_Cons by (simp add: clmul_double_left clmul_double_right)
qed simp

lemma fold_bits_cong:
  assumes "length r = m" "\<forall>t\<in>set ts. t < m"
  shows "pcong (modulus m ts) (bits_value (fold_bits ts r xs)) (bits_value xs)"
proof -
  let ?hi = "bits_value (drop m xs)"
  have "bits_value (foldr (\<lambda>t. bit_xors (replicate t False @ drop m xs)) us ys) = xors (map (\<lambda>t. push_bit t ?hi) us) XOR bits_value ys" for us ys
    by (induction us) (simp_all add: bits_value_xors bits_value_shift xor.assoc)
  then have "bits_value (fold_bits ts r xs) = xors (map (\<lambda>t. push_bit t ?hi) ts) XOR bits_value (take m xs)"
    using assms by (simp add: fold_bits_def split_ruler)
  moreover have "bits_value xs = push_bit m ?hi XOR bits_value (take m xs)" using bits_value_split [of xs m] by (simp add: xor.commute)
  moreover have "pcong (modulus m ts) (xors (map (\<lambda>t. push_bit t ?hi) ts)) (push_bit m ?hi)"
  proof -
    have "clmul ?hi (2 ^ t) = push_bit t ?hi" for t using clmul_push_right [of ?hi t 1] by (simp add: push_bit_eq_mult)
    then have "clmul ?hi (xors (map ((^) 2) us)) = xors (map (\<lambda>t. push_bit t ?hi) us)" for us
      by (induction us) (simp_all add: clmul_xor_right)
    moreover have "clmul ?hi (2 ^ m) = push_bit m ?hi" using clmul_push_right [of ?hi m 1] by (simp add: push_bit_eq_mult)
    ultimately have "clmul ?hi (modulus m ts) = push_bit m ?hi XOR xors (map (\<lambda>t. push_bit t ?hi) ts)"
      by (simp add: modulus_def clmul_xor_right)
    then show ?thesis unfolding pcong_def by (metis xor.commute)
  qed
  ultimately show ?thesis using pcong_xor [OF _ pcong_refl] by metis
qed

lemma length_fold_bits:
  assumes "\<forall>t\<in>set ts. 2 * t \<le> length r" "length xs \<le> length r + k" "length r \<le> length xs"
  shows "length (fold_bits ts r xs) \<le> length r + (length r div 2 + k - length r) \<and> length r \<le> length (fold_bits ts r xs)"
proof -
  have "length (foldr (\<lambda>t. bit_xors (replicate t False @ hi)) us ys) \<le> max (length ys) (length r div 2 + length hi)
      \<and> length ys \<le> length (foldr (\<lambda>t. bit_xors (replicate t False @ hi)) us ys)" if "set us \<subseteq> set ts" for us ys hi
    using that assms(1) by (induction us) auto
  from this [of ts "drop (length r) xs" "take (length r) xs"] show ?thesis using assms(2,3) by (auto simp: fold_bits_def split_ruler)
qed

lemma square_bits_value:
  assumes t: "\<forall>t\<in>set ts. 2 * t \<le> m" and m: "length xs = m" "0 < m"
  shows "length (square_bits ts xs) = m" "bits_value (square_bits ts xs) = gmul m ts (bits_value xs) (bits_value xs)"
proof -
  have tm: "\<forall>t\<in>set ts. t < m" using t m(2) by fastforce
  have sp: "length (spread_bits ys) = 2 * length ys" for ys by (induction ys) simp_all
  have 1: "length (fold_bits ts xs (spread_bits xs)) \<le> m + m div 2" "m \<le> length (fold_bits ts xs (spread_bits xs))"
    using length_fold_bits [of ts xs "spread_bits xs" m] t m by (simp_all add: sp)
  show len: "length (square_bits ts xs) = m"
    using length_fold_bits [of ts xs "fold_bits ts xs (spread_bits xs)" "m div 2"] t m 1 by (simp add: square_bits_def)
  have "pcong (modulus m ts) (bits_value (square_bits ts xs)) (clmul (bits_value xs) (bits_value xs))"
    unfolding square_bits_def bits_value_spread [symmetric] using fold_bits_cong [OF m(1) tm] pcong_trans by blast
  then show "bits_value (square_bits ts xs) = gmul m ts (bits_value xs) (bits_value xs)"
    using bits_value_less [of xs] bits_value_less [of "square_bits ts xs"] m len by (intro gmul_eqI [OF tm, symmetric]) simp_all
qed

lemma square_times_value:
  assumes "\<forall>t\<in>set ts. 2 * t \<le> m" "length xs = m" "0 < m"
  shows "bits_value (square_times ts n xs) = ((\<lambda>a. gmul m ts a a) ^^ n) (bits_value xs)"
  using assms(2)
proof (induction n arbitrary: xs)
  case (Suc n)
  then show ?case using square_bits_value [OF assms(1) Suc.prems assms(3)] funpow_swap1 [of "\<lambda>a. gmul m ts a a" n "bits_value xs"] by simp
qed simp

lemma frobenius_by_bits:
  assumes "\<forall>t\<in>set ts. 2 * t \<le> m" "2 \<le> m" "square_times ts m (x_bits m) = x_bits m"
  shows "((\<lambda>a. gmul m ts a a) ^^ m) 2 = 2"
proof -
  have "bits_value (replicate n False) = 0" for n by (induction n) simp_all
  then have "bits_value (x_bits m) = 2" "length (x_bits m) = m" using assms(2) by (simp_all add: x_bits_def)
  then show ?thesis using square_times_value [OF assms(1), of "x_bits m" m] assms(2,3) by simp
qed

text \<open>A functional on the polynomials below \<open>x^m\<close> is the list \<open>v\<close> of its values on the monomials.
  \<open>extend\<close> gives its values on the reduced monomials from \<open>x^m\<close> to \<open>x^(2m-1)\<close>. The functionals of a
  checked list read off one coefficient of \<open>a\<close> after the other from \<open>a^2 + a\<close>.\<close>

definition extend_with :: "nat list \<Rightarrow> bool list \<Rightarrow> bool list \<Rightarrow> bool list" where
  "extend_with ts v e = foldr (\<lambda>t. bit_xors (drop t v @ take t e)) ts []"

definition extend :: "nat list \<Rightarrow> bool list \<Rightarrow> bool list" where
  "extend ts v = extend_with ts v (foldr (\<lambda>t. bit_xors (drop t v)) ts [])"

fun every_second :: "'a list \<Rightarrow> 'a list" where
  "every_second (x # y # zs) = x # every_second zs"
| "every_second xs = xs"

fun same_bits :: "bool list \<Rightarrow> bool list \<Rightarrow> bool" where
  "same_bits [] ys = (True \<notin> set ys)"
| "same_bits (x # xs) [] = (True \<notin> set (x # xs))"
| "same_bits (x # xs) (y # ys) = (x = y \<and> same_bits xs ys)"

fun bits_of_num :: "num \<Rightarrow> bool list" where
  "bits_of_num num.One = [True]"
| "bits_of_num (num.Bit0 n) = False # bits_of_num n"
| "bits_of_num (num.Bit1 n) = True # bits_of_num n"

definition bits_of_int :: "int \<Rightarrow> bool list" where
  "bits_of_int i = bits_of_num (num_of_nat (nat i))"

text \<open>The lists come as numbers with one more bit set at \<open>m\<close>, which keeps the leading zeros.\<close>

definition functional :: "int \<Rightarrow> bool list" where
  "functional i = butlast (bits_of_int i)"

fun same_length :: "bool list \<Rightarrow> bool list \<Rightarrow> bool" where
  "same_length (x # xs) (y # ys) = same_length xs ys"
| "same_length xs ys = (xs = [] \<and> ys = [])"

definition dual_ok :: "nat list \<Rightarrow> bool list \<Rightarrow> bool list \<Rightarrow> bool" where
  "dual_ok ts p v = same_bits (bit_xors (every_second (v @ extend ts v)) v) p"

fun check_duals :: "nat list \<Rightarrow> bool list \<Rightarrow> bool list \<Rightarrow> int list \<Rightarrow> bool" where
  "check_duals ts r p [] = True"
| "check_duals ts r p (i # is) =
     (dual_ok ts p (functional i) \<and> same_length r (functional i) \<and> check_duals ts r (False # p) is)"

lemma bits_of_int_code [code]: "bits_of_int (Int.Pos n) = bits_of_num n"
  by (simp add: bits_of_int_def)

lemma bits_value_zero: "True \<notin> set bs \<Longrightarrow> bits_value bs = 0"
  by (induction bs) auto

lemma same_bits_value: "same_bits xs ys \<Longrightarrow> bits_value xs = bits_value ys"
  by (induction xs ys rule: same_bits.induct) (auto simp: bits_value_zero)

lemma same_length_iff: "same_length xs ys \<longleftrightarrow> length xs = length ys"
  by (induction xs ys rule: same_length.induct) auto

lemma bit_bits_value: "bit (bits_value xs) i \<longleftrightarrow> i < length xs \<and> xs ! i"
proof (induction xs arbitrary: i)
  case (Cons b bs)
  then show ?case by (cases i) (simp_all add: bit_Suc bit_0)
qed simp

lemma every_second_nth: "i < length (every_second xs) \<longleftrightarrow> 2 * i < length xs" "2 * i < length xs \<Longrightarrow> every_second xs ! i = xs ! (2 * i)"
proof (induction xs arbitrary: i rule: every_second.induct)
  case (1 x y zs)
  {
    case 1
    then show ?case using "1.IH"(1) [of "i - 1"] by (cases i) simp_all
  next
    case 2
    then show ?case using "1.IH"(2) [of "i - 1"] by (cases i) simp_all
  }
qed auto

text \<open>The value of a functional at a sum of monomials.\<close>

definition parity :: "bool list \<Rightarrow> bool" where
  "parity bs = foldr (\<noteq>) bs False"

lemma parity_simps [simp]: "parity [] = False" "parity (b # bs) \<longleftrightarrow> b \<noteq> parity bs" "parity (bs @ cs) \<longleftrightarrow> parity bs \<noteq> parity cs"
  by (simp_all add: parity_def) (induction bs; auto)

lemma bit_foldr_xors:
  "bit (bits_value (foldr (\<lambda>t. bit_xors (f t)) ts [])) i = parity (map (\<lambda>t. bit (bits_value (f t)) i) ts)"
  by (induction ts) (simp_all add: bits_value_xors bit_xor_iff)

lemma length_foldr_xors: "(\<And>t. t \<in> set ts \<Longrightarrow> length (f t) = n) \<Longrightarrow> ts \<noteq> [] \<Longrightarrow> length (foldr (\<lambda>t. bit_xors (f t)) ts []) = n"
proof (induction ts)
  case (Cons t ts)
  then show ?case by (cases ts) auto
qed simp

lemma extend_nth:
  assumes t: "\<forall>t\<in>set ts. 2 * t \<le> m" and m: "length v = m" "0 < m" and ts: "ts \<noteq> []" and j: "j < m"
  shows "length (extend ts v) = m" "(v @ extend ts v) ! (m + j) = parity (map (\<lambda>t. (v @ extend ts v) ! (j + t)) ts)"
proof -
  define e where "e = foldr (\<lambda>t. bit_xors (drop t v)) ts []"
  have le: "m - t \<le> length e" if "t \<in> set ts" for t
    unfolding e_def using that m by (induction ts) auto
  have lt: "t \<le> length e" if "t \<in> set ts" for t using le [OF that] t that by fastforce
  then have len: "length (drop t v @ take t e) = m" if "t \<in> set ts" for t using that t m by fastforce
  have ext: "extend ts v = extend_with ts v e" by (simp add: extend_def e_def)
  show L: "length (extend ts v) = m" unfolding ext extend_with_def using len ts by (intro length_foldr_xors) auto
  have X: "extend ts v ! i = parity (map (\<lambda>t. (drop t v @ take t e) ! i) ts)" if "i < m" for i
  proof -
    have "extend ts v ! i = bit (bits_value (extend ts v)) i" using that L by (simp add: bit_bits_value)
    also have "\<dots> = parity (map (\<lambda>t. bit (bits_value (drop t v @ take t e)) i) ts)"
      unfolding ext extend_with_def bit_foldr_xors ..
    also have "\<dots> = parity (map (\<lambda>t. (drop t v @ take t e) ! i) ts)"
      using that len by (intro arg_cong [of _ _ parity] map_cong) (simp_all only: bit_bits_value, simp)
    finally show ?thesis .
  qed
  have E: "e ! i = extend ts v ! i" if "i < t" "t \<in> set ts" for i t
  proof -
    have i: "i < m - u" if "u \<in> set ts" for u using bspec [OF t that] bspec [OF t \<open>t \<in> set ts\<close>] \<open>i < t\<close> by simp
    have "e ! i = bit (bits_value e) i" using that lt [OF that(2)] by (simp add: bit_bits_value)
    also have "\<dots> = parity (map (\<lambda>t. bit (bits_value (drop t v)) i) ts)" unfolding e_def bit_foldr_xors ..
    also have "\<dots> = parity (map (\<lambda>t. (drop t v @ take t e) ! i) ts)"
      using i m by (intro arg_cong [of _ _ parity] map_cong) (auto simp: bit_bits_value nth_append)
    finally show ?thesis using X [of i] i [OF that(2)] by simp
  qed
  have "(v @ extend ts v) ! (j + t) = (drop t v @ take t e) ! j" if "t \<in> set ts" for t
  proof (cases "j + t < m")
    case True
    then have "j < m - t" by simp
    then show ?thesis using True m by (simp add: nth_append add.commute)
  next
    case False
    have "j - (m - t) = j + t - m" "\<not> j < m - t" "j + t - m < t" using False j bspec [OF t that] by simp_all
    then show ?thesis using False m j that E [of "j + t - m" t] by (simp add: nth_append)
  qed
  then show "(v @ extend ts v) ! (m + j) = parity (map (\<lambda>t. (v @ extend ts v) ! (j + t)) ts)"
    using X [OF j] m by (simp add: nth_append cong: map_cong)
qed

lemma extend_reduced:
  assumes t: "\<forall>t\<in>set ts. 2 * t \<le> m" and m: "length v = m" "0 < m" and ts: "ts \<noteq> []"
  shows "d < 2 * m \<Longrightarrow> (v @ extend ts v) ! d = parity (map ((!) v) (red_bits m ts d))"
proof (induction d rule: less_induct)
  case (less d)
  show ?case
  proof (cases "d < m")
    case True
    then show ?thesis using m by (simp add: red_bits.simps nth_append)
  next
    case False
    define j where "j = d - m"
    have j: "d = m + j" "j < m" using False less.prems by (simp_all add: j_def)
    have tm: "t < m" if "t \<in> set ts" for t using bspec [OF t that] m(2) by simp
    have "red_bits m ts d = concat (map (\<lambda>t. red_bits m ts (j + t)) ts)"
      using False tm by (subst red_bits.simps) (auto simp: j_def intro!: arg_cong [of _ _ concat])
    moreover have "parity (map ((!) v) (concat (map f us))) = parity (map (\<lambda>t. parity (map ((!) v) (f t))) us)" for f :: "nat \<Rightarrow> nat list" and us :: "nat list"
      by (induction us) simp_all
    moreover have "(v @ extend ts v) ! (j + t) = parity (map ((!) v) (red_bits m ts (j + t)))" if "t \<in> set ts" for t
      using less.IH [of "j + t"] tm [OF that] j by simp
    ultimately show ?thesis using extend_nth(2) [OF t m ts j(2)] j(1) by (simp cong: map_cong)
  qed
qed

lemma dual_ok_reads:
  assumes "\<forall>t\<in>set ts. 2 * t \<le> m" "0 < m" "ts \<noteq> []" "length v = m" "bits_value p = 2 ^ c" "dual_ok ts p v" "k < m"
  shows "parity (map ((!) v) (red_bits m ts (2 * k))) \<noteq> v ! k \<longleftrightarrow> k = c"
proof -
  let ?w = "v @ extend ts v"
  have len: "length ?w = 2 * m" using extend_nth(1) [OF assms(1,4,2,3,2)] assms(4) by simp
  have "bits_value (bit_xors (every_second ?w) v) = 2 ^ c" using same_bits_value assms(5,6) by (simp add: dual_ok_def)
  then have "bit (bits_value (every_second ?w)) k \<noteq> bit (bits_value v) k \<longleftrightarrow> k = c"
    by (metis bits_value_xors bit_xor_iff bit_power_two)
  moreover have "bit (bits_value (every_second ?w)) k = ?w ! (2 * k)" using assms(7) len by (simp add: bit_bits_value every_second_nth)
  moreover have "bit (bits_value v) k = v ! k" using assms(4,7) by (simp add: bit_bits_value)
  ultimately show ?thesis using extend_reduced [OF assms(1,4,2,3), of "2 * k"] assms(7) by simp
qed

lemma check_duals_read:
  assumes "\<forall>t\<in>set ts. 2 * t \<le> m" "0 < m" "ts \<noteq> []" "length r = m"
  shows "check_duals ts r p is \<Longrightarrow> bits_value p = 2 ^ c \<Longrightarrow> n < length is \<Longrightarrow>
    \<exists>v. length v = m \<and> (\<forall>k<m. parity (map ((!) v) (red_bits m ts (2 * k))) \<noteq> v ! k \<longleftrightarrow> k = c + n)"
proof (induction "is" arbitrary: p c n)
  case (Cons i "is")
  show ?case
  proof (cases n)
    case 0
    then show ?thesis using Cons.prems dual_ok_reads [OF assms(1-3), of "functional i" p c] assms(4)
      by (intro exI [of _ "functional i"]) (simp add: same_length_iff)
  next
    case (Suc l)
    then show ?thesis using Cons.prems Cons.IH [of "False # p" "Suc c" l] by simp
  qed
qed simp

lemma check_duals_append:
  "check_duals ts r p (is @ js) \<longleftrightarrow> check_duals ts r p is \<and> check_duals ts r (replicate (length is) False @ p) js"
proof (induction "is" arbitrary: p)
  case (Cons i "is")
  show ?case by (simp add: Cons replicate_app_Cons_same)
qed simp

definition functional_at :: "bool list \<Rightarrow> nat \<Rightarrow> bool" where
  "functional_at v a = parity (map (\<lambda>k. bit a k \<and> v ! k) [0..<length v])"

lemma parity_map_xor: "parity (map (\<lambda>k. f k \<noteq> g k) ks) \<longleftrightarrow> parity (map f ks) \<noteq> parity (map g ks)"
  by (induction ks) auto

lemma functional_at_xor: "functional_at v (a XOR b) \<longleftrightarrow> functional_at v a \<noteq> functional_at v b"
  unfolding functional_at_def parity_map_xor [symmetric] by (rule arg_cong [of _ _ parity]) (auto simp: bit_xor_iff)

lemma functional_at_power: "j < length v \<Longrightarrow> functional_at v (2 ^ j) = v ! j"
proof -
  have "parity (map (\<lambda>k. k = j \<and> v ! k) ks) \<longleftrightarrow> j \<in> set ks \<and> v ! j" if "distinct ks" for ks
    using that by (induction ks) auto
  from this [of "[0..<length v]"] show "j < length v \<Longrightarrow> ?thesis" by (simp add: functional_at_def bit_power_two)
qed

lemma functional_at_xors:
  "(\<And>j. j \<in> set js \<Longrightarrow> j < length v) \<Longrightarrow> functional_at v (xors (map ((^) 2) js)) = parity (map ((!) v) js)"
proof (induction js)
  case Nil
  have "\<not> parity (map (\<lambda>k. False) ks)" for ks :: "nat list" by (induction ks) simp_all
  then show ?case by (simp add: functional_at_def)
qed (simp add: functional_at_xor functional_at_power)

lemma linear_reads:
  assumes "\<And>x y. g (x XOR y) \<longleftrightarrow> g x \<noteq> g y" "\<And>k. k < n \<Longrightarrow> g (2 ^ k) \<longleftrightarrow> k = c" "a < 2 ^ n" "c < n"
  shows "g (a :: nat) \<longleftrightarrow> bit a c"
proof -
  have g0: "\<not> g 0" using assms(1) [of 0 0] by simp
  have "g (xors (map (\<lambda>k. if bit a k then 2 ^ k else 0) ks)) \<longleftrightarrow> bit a c \<and> odd (count_list ks c)" if "set ks \<subseteq> {..<n}" for ks
    using that by (induction ks) (auto simp: assms(1,2) g0)
  moreover have "count_list ks c = 1" if "c \<in> set ks" "distinct ks" for ks using that by (induction ks) auto
  moreover from this have "count_list [0..<n] c = 1" using assms(4) by simp
  ultimately show ?thesis using xors_bits [OF assms(3)] by (metis atLeast_upt odd_one set_eq_subset)
qed

section \<open>Irreducibility by computation\<close>

locale gf2_modulus =
  fixes m :: nat and ts :: "nat list"
  assumes terms: "\<forall>t\<in>set ts. t < m" and positive: "1 < m"
    and frobenius: "((\<lambda>a. gmul m ts a a) ^^ m) 2 = 2"
    and duals: "\<And>c. 0 < c \<Longrightarrow> c < m \<Longrightarrow>
      \<exists>v. length v = m \<and> (\<forall>k<m. parity (map ((!) v) (red_bits m ts (2 * k))) \<noteq> v ! k \<longleftrightarrow> k = c)"
begin

lemmas gmul_unique = gmul_eqI [OF terms]

lemma gmul_commute: "gmul m ts a b = gmul m ts b a"
  by (simp add: gmul_def clmul_commute)

lemma gmul_assoc:
  assumes "a < 2 ^ m" "b < 2 ^ m" "c < 2 ^ m"
  shows "gmul m ts (gmul m ts a b) c = gmul m ts a (gmul m ts b c)"
proof (rule gmul_unique)
  let ?f = "modulus m ts"
  have "pcong ?f (gmul m ts a (gmul m ts b c)) (clmul a (gmul m ts b c))" using assms by (simp add: gmul_cong [OF terms])
  moreover have "pcong ?f (clmul (gmul m ts b c) a) (clmul (clmul b c) a)" using assms by (intro pcong_clmul gmul_cong [OF terms])
  moreover have "pcong ?f (clmul (gmul m ts a b) c) (clmul (clmul a b) c)" using assms by (intro pcong_clmul gmul_cong [OF terms])
  ultimately show "pcong ?f (gmul m ts a (gmul m ts b c)) (clmul (gmul m ts a b) c)"
    by (metis clmul_assoc clmul_commute pcong_sym pcong_trans)
qed (use assms in simp_all)

lemma one_less: "(1 :: nat) < 2 ^ m"
  using power_strict_increasing [of 0 m "2 :: nat"] positive by simp

lemma gmul_one: "a < 2 ^ m \<Longrightarrow> gmul m ts 1 a = a"
  using one_less by (intro gmul_unique) simp_all

lemma gmul_xor: "gmul m ts (a XOR b) c = gmul m ts a c XOR gmul m ts b c"
  by (simp add: gmul_def clmul_xor_left rmod_xor)

lemma square_xor: "gmul m ts (a XOR b) (a XOR b) = gmul m ts a a XOR gmul m ts b b"
proof -
  have "clmul (a XOR b) (a XOR b) = clmul a a XOR clmul b b"
    unfolding clmul_xor_left clmul_xor_right clmul_commute [of b a] by (metis xor.assoc xor.commute xor_self_eq xor.right_neutral)
  then show ?thesis by (simp add: gmul_def rmod_xor)
qed

lemma square_mult:
  assumes "a < 2 ^ m" "b < 2 ^ m"
  shows "gmul m ts (gmul m ts a b) (gmul m ts a b) = gmul m ts (gmul m ts a a) (gmul m ts b b)"
  by (metis assms gmul_assoc gmul_commute gmul_less)

text \<open>\<open>a^2 = a\<close> has no solutions but \<open>0\<close> and \<open>1\<close>.\<close>

lemma idempotent:
  assumes "e < 2 ^ m" "gmul m ts e e = e"
  shows "e = 0 \<or> e = 1"
proof -
  have "\<not> bit e c" if c: "0 < c" "c < m" for c
  proof -
    obtain v where v: "length v = m" "\<And>k. k < m \<Longrightarrow> parity (map ((!) v) (red_bits m ts (2 * k))) \<noteq> v ! k \<longleftrightarrow> k = c"
      using duals [OF c] by blast
    let ?g = "\<lambda>a. functional_at v (gmul m ts a a XOR a)"
    have add: "?g (x XOR y) \<longleftrightarrow> ?g x \<noteq> ?g y" for x y unfolding square_xor by (simp add: functional_at_xor) blast
    have mono: "?g (2 ^ k) \<longleftrightarrow> k = c" if "k < m" for k
    proof -
      have "clmul (2 ^ k) (2 ^ k) = 2 ^ (2 * k)"
        using clmul_push_left [of k 1 "2 ^ k"] by (simp add: push_bit_eq_mult power_add mult_2)
      then have "gmul m ts (2 ^ k) (2 ^ k) = xors (map ((^) 2) (red_bits m ts (2 * k)))" using that by (simp add: gmul_def rmod_power)
      then show ?thesis using v that functional_at_xors [of "red_bits m ts (2 * k)" v] functional_at_power [of k v]
        by (simp add: functional_at_xor red_bits_less)
    qed
    have "?g e \<longleftrightarrow> bit e c" using linear_reads [OF add mono assms(1) c(2)] .
    then show ?thesis using assms(2) functional_at_xor [of v e e] by simp
  qed
  moreover have "\<not> bit e c" if "m \<le> c" for c using assms(1) that
    by (metis bit_take_bit_iff linorder_not_less take_bit_nat_eq_self)
  ultimately have z: "\<not> bit e (Suc c)" for c using not_le by blast
  have "e div 2 = 0" by (rule bit_eqI) (use z in \<open>simp add: bit_Suc\<close>)
  then show ?thesis by linarith
qed

lemma square_pow_less: "a < 2 ^ m \<Longrightarrow> ((\<lambda>a. gmul m ts a a) ^^ n) a < 2 ^ m"
  by (induction n) simp_all

lemma square_pow_xor: "((\<lambda>a. gmul m ts a a) ^^ n) (a XOR b) = ((\<lambda>a. gmul m ts a a) ^^ n) a XOR ((\<lambda>a. gmul m ts a a) ^^ n) b"
  by (induction n) (simp_all add: square_xor)

lemma square_pow_mult:
  assumes "a < 2 ^ m" "b < 2 ^ m"
  shows "((\<lambda>a. gmul m ts a a) ^^ n) (gmul m ts a b) = gmul m ts (((\<lambda>a. gmul m ts a a) ^^ n) a) (((\<lambda>a. gmul m ts a a) ^^ n) b)"
  using assms by (induction n) (simp_all add: square_mult square_pow_less)

lemma square_pow_id:
  assumes "a < 2 ^ m"
  shows "((\<lambda>a. gmul m ts a a) ^^ m) a = a"
proof (rule linear_exact [OF square_pow_xor _ assms])
  fix k assume "k < m"
  then show "((\<lambda>a. gmul m ts a a) ^^ m) (2 ^ k) = 2 ^ k"
  proof (induction k)
    case 0
    have "((\<lambda>a. gmul m ts a a) ^^ n) 1 = 1" for n using gmul_one [OF one_less] by (induction n) simp_all
    then show ?case by simp
  next
    case (Suc k)
    have two: "(2 :: nat) < 2 ^ m" using power_strict_increasing [OF positive, of "2 :: nat"] by simp
    have p: "(2 :: nat) ^ Suc k < 2 ^ m" "(2 :: nat) ^ k < 2 ^ m" using Suc.prems by (simp_all del: power_Suc)
    have "clmul 2 (2 ^ k) = 2 ^ Suc k" using clmul_double_left [of 1 "2 ^ k"] by simp
    then have "gmul m ts 2 (2 ^ k) = 2 ^ Suc k" using two p by (intro gmul_unique) simp_all
    then show ?case using square_pow_mult [OF two p(2), of m] Suc frobenius by simp
  qed
qed

end

end
