(* ===== verification/Gf2_Tables.thy ===== *)
theory Gf2_Tables
  imports Gf2_Field
begin

text \<open>
  The two fields of DSTU 4145, \<open>x^163 + x^7 + x^6 + x^3 + 1\<close> and \<open>x^257 + x^12 + 1\<close>: the functionals that
  read the coefficients of \<open>a\<close> off \<open>a^2 + a\<close>, and the computations that make the two polynomials
  instances of \<open>gf2_modulus\<close>.
\<close>

definition duals163_0 :: "int list" where
  "duals163_0 = [
    0xe2016f834a5c9ccd7189206c639af442a53a0d0ca, 0xe9ca40565bad3e3f48676623b4d9e2e85b6236190, 0x9d1a0b805fafdf7d98a91d043cffd05c9bf3975f6,
    0xef3f72db95842a6bc701edf35c826c6f782af0300, 0xc0d948794f803db9cda363636c1d6c6669eaa60a0, 0x80000000000000000000000000000000000000048,
    0xaa25275f3d4881c3ef3600cfde066d82f8ac30996, 0xcde7552190588b1f7b2baefc5305f44bb4fa5b248, 0xc82417e86a03cdd2d856209e206f338182d443848,
    0x95e70b25673bffcacbb55ec4ed7e25faaf8f0c880, 0x914c57a1cba24c3caee416bc64298a99a84142e20, 0x97e754117a2c2f168d5c5ef9708d8fbb70cd73f7e,
    0xc8256b61437ef07dd70960e667b3fc62ad7a0d0c8, 0xba5f5f8edf8f4fba2b2013fcbced04179ac9d67b6, 0xe04c406c8a3e3f80860862a2819c0820058004080,
    0xf7e7182f041a5ea8b5633ed0c9381e5b251b5d7fe, 0x95b965288b3be981a00f9d6c056440de8ea3a8420, 0xca37093ad5c619e18309a1c53e964446d9aaf4396,
    0xd8048ffac6bef718fcf9f08f29bd3b70c5d7afce8, 0xd8017dbd4db9284f78a5b07ded42f0d3ee3269248]"

definition duals163_1 :: "int list" where
  "duals163_1 = [
    0x95b973994568e8a180271d756e2040dfe821e0620, 0x9304d539136051131a5d14bd563553d9f9f3777fe, 0xaa20c3bb519c0296c9cb40257581a660fc423a116,
    0x95f45c720bbafa05f62b5fbb0530f87d4d23ec6a0, 0xd8048b75432422f6910cb087e4839490e87923468, 0xf7e751b8feded276512b3ef53bb3b45bd51b7d7fe,
    0xe4f56c9fc036e89ae32e2be9e1a1248664c8aa000, 0xf5aa25fa010198c28eb2bc0f04520918ca0520c20, 0xf7afc5ca1a2ed81fb4b0bcee10b1d91a937517dfe,
    0xac8ae72b6a02009fd79a082c6001fd00a47c0b848, 0xf07ef61bce0d9c15675473b968d9efb56b6de6ea0, 0xe78e6c49e0b0864a16fd6caa610a1be834161995e,
    0x825aa919f38f87333753430574cd5f64dafeb395e, 0xcec785d85b8e4a7681e76acf34a386e2984a12116, 0xbb33ce62f1be3acfaaf3956a3592c35e9d279cdb6,
    0xf304c2aedc5b79d2517834a0bb77371917dd5fffe, 0xe4f0c0ca452ecb022c192b222ca40946088680800, 0x8320c3e51da7892092c04426dcc4122cba909115e,
    0xf0681f6ea5dc203b6b29321e8f8164598c6b4a620, 0xe5d5f49e2badc78942072ff984ec60df4aa3e0620]"

definition duals163_2 :: "int list" where
  "duals163_2 = [
    0x8799f8da7895656fb800cd7331eed00f56b0f935e, 0xe7d1690118979266938c2f6451d294ceb71a9d1de, 0xe37f8e1c1e2c395d761b27c99897f9ce51f6b79de,
    0xab49a136f5c28146e07d4645be06a2ead88230116, 0xc95f12de07f611ba982fe7d38f9512ef4dd2ef2c8, 0x84e3dbea8c78f436ee5bca760b39af63854e4ea80,
    0xab1239f3175f9db466f685175fdda38dffc4feb96, 0xa95aacee2926f417c5af470a84b9fcec097a870c8, 0x914883f2e25d868ba416960723c86998c62528c20,
    0xa8244895acf5564a7bc140a1cbfa7660673a2d0c8, 0x95aa36b9aba1767c008d5c19447b00f96b43666a0, 0x8133d8c5c691b3e74a82c572e957e02f27e0ce280,
    0x86b847b2d09f65b21df7492d31ef1fe4d6debb95e, 0xe6e393495e540d40b6d1ea567b8a1b63b41659b5e, 0x95f45c3aadbbfc01e42b5fb90d70687d4f23ec6a0,
    0x927a225adc120f47dd9e9303391efd9455bdbddfe, 0xf35b8e70b138ac641116f74b152a95be5c1db9d7e, 0x81252634247b33f34bbf44c98b1765ea45ee2e880,
    0x949d2c88642cafdbcd3899c8280f6d1600ed82c20, 0xdb7fd13f95c72c938e8477f5dfc948bffe61fa736]"

definition duals163_3 :: "int list" where
  "duals163_3 = [
    0xf5aa25fa01018aa28eb2bc0f06400918ca0520c20, 0x96c78109da89584a1d6b9ac474721e52bb1b155fe, 0xcff1f14dfdaf26fae892ef76f4cb212fba44d2b16,
    0x97f5243d6edc4b607656dfc9fba63bbe7495b9d7e, 0x9116a55da19168ccefcf958fe562aedcee0ba8420, 0xaec342c895c9221e4be74a625e41a6e23a4a12116,
    0xba05ad77505c7cfb0cb990cf73bb4952f5673edb6, 0xccc2726def9a6c479aa5aa33ed2ad0c16c3269248, 0x9100178006acae7a418d141e088b24d9804b42620,
    0xbebcda2cd221ade42e7359b4b04e8b759287d0f36, 0x817ebeab05154ead43d187904de8e74d2e2ec8a00, 0xdf8b9ba21d201a49838ebc441c12449a9929145b6,
    0x95f45c3aadbf7661e42b5f990dfa687d4f23ec6a0, 0xdd8e24a3a473df657833fcc84b7ef17a27b70dce8, 0x906da5c7e5c7859404e1924eeecd8a52aac302420,
    0x825b9c11952bc610b3e6c2595c6916a37a587335e, 0x95ab11c3e33a2d160ce91e56650d8a5bacc34a620, 0xcdf45d0e84758899feefabbc8bc17ac58672cb248,
    0x927a3064dbf7bb9f12a11b12b7d5d0551ff3df7fe, 0xdcf45d0e84758899feefabbc8bc17ac58672cb248]"

definition duals163_4 :: "int list" where
  "duals163_4 = [
    0xe0000000000000000000000000000000000000000, 0x84f5328dce2914548f668bd0e85b8e872348c6280, 0x94d124554e5e7d8fa1475b4bebbcc6f665abac4a0,
    0xafe63aa2da0417d20aa28e90309f000911c056396, 0xaed015d2f361959760508b1f365de305dbe4f6b96, 0xdcf533bd245db05d79117bd5cbd3f577e77fefee8,
    0xbeaa6d0311a65beea446982c54b68a90b981145b6, 0xe6f57eb3b01f65eab759ebf951ee1f67769ef9b5e, 0xbcb973d1ae638fddff1919774a4ffd57e2ffe3e68,
    0xab13082b9a9db26f0449054051d2ca4e37229c196, 0xbef1f14976a192f24ba01b7678532417b349d67b6, 0xa9000048eb0b677c7f3e0402246fbd880adc03848,
    0x8133cb90cb01b0f9cd82456524536c2ecb68a6080, 0xe6f57a3c3585b004daacabf19cd0b0875b10f53de, 0xcdf56cd72b3d8fe69c102febc5ce990e6e94a9848,
    0xf69c0e5ad12f68e67932f98b34e2b5345a1db1d7e, 0x968b8c27fb882c11bdf8d848f4095f32387d13d7e, 0xcfafc5ced8b208d5ab436ceeb103c66a946a1a116,
    0xcdafc03820915229d3c16ce10170766a473a2d0c8, 0xf27b4cedbea6e71391e1f36ad8ad567630fb9357e]"

definition duals163_5 :: "int list" where
  "duals163_5 = [
    0xbfc7daa07d6e28eec06a5ef03e82a23b180150736, 0xca3638e2580437466bc1a192309ea645118ad4396, 0x9104c2f1a08ade4ee7fad4a3403aaf38610d24ca0,
    0xf698c87e7a9839545845b923b117b2d455d3bf5fe, 0xe12401114f5baaf20d3724856f430dc8ee4e2a800, 0x804c410342d758c543ec42a463f2e6a0a7280c080,
    0xe332fec7d1394f2858c8e53af56c322d3e90d935e, 0xe79c46a39fc4cf4010c06da85eae122c38909115e, 0x95b81d39ef6ca4c4a7c71d1d6e8a8edde80be0620,
    0x906970b76001e34c49de1271e066a793628d60e20, 0xf3016a2bfbe8609bddf8f46076217f3a387d13d7e, 0xe01238c3ee6d2e662975a1126aca87c5220ec0a00,
    0xdf9881fa9daec5b6a14cfd071cad86bcd8c9b2536, 0xe217cf765a790857323761efb343d1e6d676bb95e, 0xda1795b4be31529d25cc31dd9971ce97d769fe7b6,
    0xce98967a9b026bcce0c1e91b1426a2655882f0316, 0xe36971dd5f6c46fa71e6e677feab36abf8587335e, 0xcfe3c98e138e24fcc1e76e64948ba6ea984a12116,
    0xdef533bd7ec5ee58e4207bd5faeb2837f241f2736, 0xf6c2601ebc566bec7d0ffa219ba6bcf0549b3957e]"

definition duals163_6 :: "int list" where
  "duals163_6 = [
    0xdd99f9eac8799f63d3467d76235e76bf87b9cd6e8, 0xbef533bd7ec5ee58e4205bd5faeb2837f241f2736, 0xe213444bf2081663dc48216a701a7a063130951de,
    0xf349ec383b180af4b314f669150395ba5c5d3bd7e, 0x805f5ebe6f63b5b6406ec3f9ae5da2a74bc0e6280, 0xdeaa379a5c6b99be2371381d3a558751d3cf76fb6,
    0xcdb81d714db99806f834ed1f6d50b1adef14edac8, 0x816c952ea462054f8fec869c8a0ece8980a840200, 0x935f5b4d77561658b76117f6ff9b1e5fbd5bdf7fe,
    0xdb339156b631b41765cc35579959ee9fd769fe7b6, 0xccc3551684f35766dc2dea7d8b7eb8e3c7926d2c8, 0xac9881ed0a383eb4770b4906c119bc64a55a8f0c8,
    0xca3753a716bb6a518236e1f4d96341a7b664dab16, 0xade75407cba8fdb4d11acef8e43db52b29dc47ac8, 0xcfaa7f2adb01711c2fc3ac3c34758e499bca56396,
    0xdf8f4e9ef9d7cc9525f1fce9b7e9cf7a5e6f3ad36, 0xdee63e2c3040952f0ce23a98921cca1111a1547b6, 0x9032fed046af94aa8e8f513b28d808f54303e46a0,
    0x8598db2a47e61e08003dcd342e9801ed8906c4a80, 0xbd8f4ff16f2ed3d57d04dcef6cb7fcbae9f9274e8]"

definition duals163_7 :: "int list" where
  "duals163_7 = [
    0xcec7cd6d38627af26aaf2aeed23320c2b14216196, 0xd80122c08fbf816bd37bb0420dc677520ebf09c68, 0xdf9c0bba9da6c5b6a14cfd851cad86bcd8c9b2536,
    0xce9893d35501cf442ac1e9177c6e8265fa82f0316, 0x95b93fb1ca06196d2b4f5d5d6096c6ffe1abe46a0, 0xccc350f7caf0d3ee162dea73e33698e365926d2c8,
    0x825bc6c551f29822f6ec036af7103a863d109d1de, 0xdf8e6c14dcbd733ca979bca9b9f5875857cf3edb6, 0x83692fd511f1a2f239ee464fd74316aafe583b15e,
    0xdcbdf8c961b20d0dfa0e39f2650cf0972cb1c9668, 0xda16b7be9b5b6d34a944719d976d86b5dec9fa736, 0xcdaee0b82993d80053416ca1057036684f1a2d0c8,
    0x8321fb73fc14c8bb5b42c47779a1762bf4787b35e, 0xcfafa80f515d7459820b2cc0f7fb404a3f621e196, 0xcff5a67d78614022a5ad6fcbf2600cee720ab0116,
    0x804ad4a6ede56a4962ac8238aee260810a2040200, 0x95b11fb1ca06196d2b4f5d5d6096c6ffe1abe46a0, 0xccf45d0e84758899feefabbc8bc17ac58672cb248,
    0xcf3f72db95842a6bc701edf35c826c6f782af0316, 0x82000000000000000000000000000000000000000]"

definition duals163_8 :: "int list" where
  "duals163_8 = [
    0x8bcb2fd511f1a2f239ee464fd74316aafe583b15e, 0xe4f45d0e84758899feefabbc8bc17ac58672cb248]"

definition duals257_0 :: "int list" where
  "duals257_0 = [
    0x29cb4fdd6b28395b22cf0ff49110df61866fe41742cf953e4ae9e2dda263c2622, 0x35c88adeabc83375512bc1b977ba9761fe038617f4657d1e7849fafdb273d3778,
    0x388f9b53ef422c18232be7ce0b21bd1ab0d76e09046e845d13e84a8bd6207831e, 0x2601701ef8be810aabad953a53fc78e4e871b18404dd37b2a3548bdd0787cceb6,
    0x25ca9edfa318ff31c22428552baec3a2ee1bc53d6083c4a4296de06886e20a020, 0x35d781864c7ad309e20bca8b309b5fbb5fc4ab346060517d7e85a237f8c1f277e,
    0x259a4794e8a1d69e8baecbe766c423e12d2da07984a6ea864cc348a0aa6002080, 0x239b76cad15e928be5a2808f01d75a0a457a37906c00c7f02f1d282f0dc0ce396,
    0x29c05c055ac0ec821346a038b05801f00638f2281681130709301854c513ad6e8, 0x259812d52130dfc5dd00fc590e3f762dad13c53efc3b49f8cd6db9672ed6cbe68,
    0x211259151b5da9169e456ed9ca95f5ac0535d7c59aeb61fc8dfed2678fb2cdac8, 0x35d581864c7ad309e20bca8b309b5fbb5fc4ab346060517d7e85a237f8c1f377e,
    0x200000400000d009008008020820c100000200304000002400012000804000000, 0x399982972841dcb0f84a05aa806e6be15541c279320c02a67e635080ba70171de,
    0x38118817d37d6e7c6eee4178a12be96b7141f7ebaaa70466767e40cabba21c196, 0x30528c0a822820f41f24d40c2591b58f530800039cb88d5cf400590fb834c1a48,
    0x209e13443c3f42644dc5a6b6aa0a5461c19699e2aec9803a65960a412d826c280, 0x249846d0f9f81393d2668d7d8be2e351e92b3715728fc627645df0e8ebf2672c8,
    0x2cc81b91b2613a1c98e86bdfd69c32112a1552519227f99141f350f567736f6e8, 0x2002140108d0cc44930fe9ec5c1454c30018432a94e6b9ba41241a952490c9248]"

definition duals257_1 :: "int list" where
  "duals257_1 = [
    0x2d5e1a04af6ba6791028e5f47fe345780f908e4b502fbe6f0d0a70dacc3129468, 0x2140d51f997589e28161bad5ef044023463dd7c60653eca069fe8b6827820c080,
    0x37edcc1252b13332be5c9dd0e1267b15dee931551b9f24b5fa57d5c9f3f677bde, 0x35d581864c7ad309e20bca8b309b5fbb5fc4ab346060517d7e85a237f8d1f377e,
    0x2914c9cf1fff390ace474f8dd7902a3025a6dfd42aecfd010cbf82bc49e1a64a0, 0x200000400000d009008008020820c100000200304000002400012000800000000,
    0x300715cc141a877c7b46ab4df467f8bb30de990fb686faf15394d8b375317d7fe, 0x399982972841dcb0f84a05aa806e6be15541c279320c02a67e635080bb70171de,
    0x2542c11a91a141621a6a82e4ab1645404e251466120285ae28da900c8110850c8, 0x38118817d37d6e7c6eee4178a12be96b7141f7ebaaa70466767e40cabfa21c196,
    0x2dca1ad5a338ff11c1202d453bbae2a1ee13c53d640ed520696de8bc2ee18a420, 0x30528c0a822820f41f24d40c2591b58f530800039cb88d5cf400590fa834c1a48,
    0x259a4794e8a1d69e8baecbe766c423e02d2da07984a6ea860cc348a0aa6002000, 0x209e13443c3f42644dc5a6b6aa0a5461c19699e2aec9803a65960a416d826c280,
    0x36ff950749ec9a242019f3092bb38fb9dbdce6908174454d77a907ae7c4cba916, 0x249846d0f9f81393d2668d7d8be2e351e92b3715728fc627645df0e9ebf2672c8,
    0x20d0811a41b840a49b02cb38678109d2c305252094252c4724cc18c8ca9221048, 0x2cc81b91b2613a1c98e86bdfd69c32112a1552519227f99141f350f167736f6e8,
    0x30498792699d85bcad81c6c339eda518324d25cd8c6a56cd12ceca32d2a130536, 0x2002140108d0cc44930fe9ec5c1454c30018432a94e6b9ba41241a852490c9248]"

definition duals257_2 :: "int list" where
  "duals257_2 = [
    0x2c9cc20bf58e4fcb156f4004d7f6bd02c9a07cae5ee0bf9c2438ba3d8911c56e8, 0x2d5e1a04af6ba6791028e5f47fe345780f908e4b502fbe6f0d0a709acc3129468,
    0x251e4a002662336352c0c86daaa74b486da00a167222c0e62c01b0a2885003048, 0x2140d51f997589e28161bad5ef044023463dd7c60653eca069fe8a6827820c080,
    0x2d9e960a2d538259024cedf59b6969cacd980f4342afd6662d0e62fa8ca308420, 0x37edcc1252b13332be5c9dd0e1267b15dee931551b9f24b5fa57d1c9f3f677bde,
    0x2cc81b91b2613a1c98e86bdfd68c33112a1552519227f89541f358f1e7736f6e8, 0x35d581864c7ad309e20bca8b309b5fbb5fc4ab346060517d7e85b237f8d1f377e,
    0x25934058d099c3cea1e841decc970f928d6331668627a9cd0e56a8c6cb82a4080, 0x2914c9cf1fff390ace474f8dd7902a3025a6dfd42aecfd010cbfc2bc49e1a64a0,
    0x3dd15018898886ce7be9ec99cd3e1511bf71040ab6696d9d5f489a6dfe12f935e, 0x200000400000d009008008020820c100000200304000002400002000800000000,
    0x2c9a839e388cd3680d878fea76cf8be9a90590b60cce3ac644d38a92ab41064a0, 0x300715cc141a877c7b46ab4df467f8bb30de990fb686faf15390d8b375317d7fe,
    0x31cf8b42b607a54c2d2783d319a81d01b6c618ce8cc7541c5a9a8af9b103547b6, 0x399982972841dcb0f84a05aa806e6be15541c279320c02a67e735080bb70171de,
    0x3913dc420bf56e77b501ecc22bd7118b357a07ebdc6a07d45f2e7a0fbcb0d935e, 0x2542c11a91a141621a6a82e4ab1645404e251466120285ae289a900c8110850c8,
    0x30cddf126fcab0cfbb0426215f1727d912fd2e12d4887dcf5349383ef651bb57e, 0x38118817d37d6e7c6eee4178a12be96b7141f7ebaaa70466777e40cabfa21c196]"

definition duals257_3 :: "int list" where
  "duals257_3 = [
    0x200000400000c0080080080200204100000200200000002402000000800000000, 0x2dca1ad5a338ff11c1202d453bbae2a1ee13c53d640ed5206d6de8bc2ee18a420,
    0x3d03c503c0e00a2e73e4ce4de6aa48007c6c6200b6aae82032a0182010101115e, 0x30528c0a822820f41f24d40c2591b58f530800039cb88d5ce400590fa834c1a48,
    0x388f9b53ef422c18232be7ce0b21bd1af0d76e09046e845d13e84a8bd62078316, 0x259a4794e8a1d69e8baecbe766c423e02d2da07984a6ea864cc348a0aa6002000,
    0x211259151b5da9169e456ed9ca95f5a80535d7c59aeb61fc8dfed2678fb2cd2c8, 0x209e13443c3f42644dc5a6b6aa0a5461c19699e2aec9803b65960a416d826c280,
    0x29525c055ac0ec821346a038b05811b00738f228168113170d301855cd13ed6e8, 0x36ff950749ec9a242019f3092bb38fb9dbdce6908174454977a907ae7c4cba916,
    0x309906882825c51836830dfb5e6da8caf14800ed184f7aca3602d2f218331157e, 0x249846d0f9f81393d2668d7d8be2e351e92b3715728fc637645df0e9ebf2672c8,
    0x20000000000000000000000000004100000000000000000400000000800000000, 0x20d0811a41b840a49b02cb38678109d2c305252094252c0724cc18c8ca9221048,
    0x21860cd0df9a20f080a645102141b819848b3d0300ad06d1485c40cb63a264280, 0x2cc81b91b2613a1c98e86bdfd69c32112a1552519227f89141f350f167736f6e8,
    0x3d01d102c830c66ae0eb27a1aafe1cc37c74212a224c419a7b8402a53480d8316, 0x30498792699d85bcad81c6c339eda518324d25cd8c6a52cd12ceca32d2a130536,
    0x3c05c483ddab8ad323ec4dfe8d9b15c838e87c4346af855e123a68cf9122d4396, 0x2002140108d0cc44930fe9ec5c1454c30018432a94e6a9ba41241a852490c9248]"

definition duals257_4 :: "int list" where
  "duals257_4 = [
    0x315bde8772c02caa33c4a81ab27850b03778f208168133311f3018555d13fd7fe, 0x2c9cc20bf58e4fcb156f4004d7f6bd02c9a07cae5ee0ff9c2438ba3d8911c56e8,
    0x218418d1d74aecb413a9acf86d55ecda84937e29944bafeb09785a4e4732ad0c8, 0x2d5e1a04af6ba6791028e5f47fe345780f908e4b502ebe6f0d0a709acc3129468,
    0x2d18dada22c4a37f06c6ecbdbaa351d84d330287caabd0772d40e073ce2368620, 0x251e4a002662336352c0c86daaa74b486da00a167226c0e62c01b0a2885003048,
    0x249a52d1f128dfd741696591c7f2a792e933743fe6656f0d2579eaeccf62ae080, 0x2140d51f997589e28161bad5ef044023463dd7c60643eca069fe8a6827820c080,
    0x34558d879fb3aa95a3a5062a558750fb3bccdd41c4e83cf356be6a1b79a1747b6, 0x2d9e960a2d538259024cedf59b6969cacd980f4342efd6662d0e62fa8ca308420,
    0x29c448d55e4379ae51418475b811e2eae6a3fa74b6cbd16228739a760353874e8, 0x37edcc1252b13332be5c9dd0e1267b15dee931551a9f24b5fa57d1c9f3f677bde,
    0x3c8d9b53ef422c18336be7ce0b21bd1ab8d76e09146e845d13e85a8bd6307935e, 0x2cc81b91b2613a1c98e86bdfd68c33112a1552519627f89541f358f1e7736f6e8,
    0x2c580fc5bbb12a9d87a7462855a711fb0b0ed541c4e83cd744be6a1be9a1646a0, 0x35d581864c7ad309e20bca8b309b5fbb5fc4ab347060517d7e85b237f8d1f377e,
    0x2902854e1179c52d1bcc438afd22f0b3440e976cf6a43c31689eb8996191656e8, 0x25934058d099c3cea1e841decc970f928d633166c627a9cd0e56a8c6cb82a4080,
    0x314bc787b9d199f6f1658f47ff201bb3566cd75736cefc157abfdab9f1f1777fe, 0x2914c9cf1fff390ace474f8dd7902a3025a6dfd52aecfd010cbfc2bc49e1a64a0]"

definition duals257_5 :: "int list" where
  "duals257_5 = [
    0x259c4710e5f65373d6e2c29de5b6b211edad2fb57a21ed916ccdf06d6af2e3248, 0x3dd15018898886ce7be9ec99cd3e1511bf71040eb6696d9d5f489a6dfe12f935e,
    0x2904c4dbdc7b5d8e43248c645c9bce5824ab7b74a48ab96b0877881643c1a64a0, 0x200000400000d009008008020820c100000200204000002400002000800000000,
    0x210a47c0e8e45b075722c3bde4a71b88642e2294fc25e8d42881b8e3805243248, 0x2c9a839e388cd3680d878fea76cf8be9a90590f60cce3ac644d38a92ab41064a0,
    0x28849dcac736f04cd0242ea05715a2c9a09e2d32b0883dc2418d101e24d18b468, 0x300715cc141a877c7b46ab4df467f8bb30de980fb686faf15390d8b375317d7fe,
    0x38cd0e4ca67ea0683663c8dbecaa2cb2f2ca89821a6368093204126050923115e, 0x31cf8b42b607a54c2d2783d319a81d01b6c61cce8cc7541c5a9a8af9b103547b6,
    0x23b84195cd0299a71de9dbfab4a12beee525e414de771846ace9bbd28a5703c68, 0x399982972841dcb0f84a05aa806e6be15541d279320c02a67e735080bb70171de,
    0x388b8bd7ab043cadace6cbf9811b77691047e498caa7457e52e920efb242d2316, 0x3913dc420bf56e77b501ecc22bd7118b357a47ebdc6a07d45f2e7a0fbcb0d935e,
    0x31130d59c211ae4131660a3b9048d4d0754fe14a5681523b3ee638715a937177e, 0x2542c11a91a141621a6a82e4ab1645404e241466120285ae289a900c8110850c8,
    0x23b84195c902d9a71d69d3fab4a12beee527e434de771846ace9bbd28a5703c68, 0x30cddf126fcab0cfbb0426215f1727d912f92e12d4887dcf5349383ef651bb57e,
    0x250c5344ec2243b2c8adefaa6e9dd1fbccbea82520ec29f76980c287e420e8200, 0x38118817d37d6e7c6eee4178a12be96b7151f7ebaaa70466777e40cabfa21c196]"

definition duals257_6 :: "int list" where
  "duals257_6 = [
    0x39cf4a1876f62063ef8c45616656d452b6c13b826cae6bbb1a5428a55380f4396, 0x200000400000c0080080080200204100004200200000002402000000800000000,
    0x3bb5c3d7e90019af3debdbf8b4816aeed567e414de771862bee9bbd21a5713d7e, 0x2dca1ad5a338ff11c1202d453bbae2a1ef13c53d640ed5206d6de8bc2ee18a420,
    0x2d888adeabc83375512bc1b977ba9761ee038617f4657d1e6849fafda273c3668, 0x3d03c503c0e00a2e73e4ce4de6aa4800786c6200b6aae82032a0182010101115e,
    0x29581ad5a338ff11c1202d453bbae2a1ef13c53d640ed5206d6de8bc2ee18a420, 0x30528c0a822820f41f24d40c2591b58f430800039cb88d5ce400590fa834c1a48,
    0x29cb4fdd6b28395b22cf0ff49110df61866fe41742cf953e4ae9e2dda263c2620, 0x388f9b53ef422c18232be7ce0b21bd1ab0d76e09046e845d13e84a8bd62078316,
    0x25ca9edfa318ff31c22428552baec3a2ee1bc53d6083c4a4296de06886e20a000, 0x259a4794e8a1d69e8baecbe766c423e12d2da07984a6ea864cc348a0aa6002000,
    0x29c05c055ac0ec821346a038b05801f00638f2281681130709301854c513ad4e8, 0x211259151b5da9169e456ed9ca95f5ac0535d7c59aeb61fc8dfed2678fb2cd2c8,
    0x29cb4f9d6b28e952224f07f699301e61866de42702cf951a4ae8c2dd2223c0620, 0x209e13443c3f42644dc5a6b6aa0a5471c19699e2aec9803b65960a416d826c280,
    0x25548d9b9f27bd558fe18ee381a497c32f8d5cdfce4a449e4cfbea29ab6046280, 0x29525c055ac0ec821346a038b05811f00738f228168113170d301855cd13ed6e8,
    0x249e4601f5ab4afb036e45cccfbb448809a87c6346aead68043a688e092084080, 0x36ff950749ec9a242019f3092bb38eb9dbdce6908174454977a907ae7c4cba916]"

definition duals257_7 :: "int list" where
  "duals257_7 = [
    0x20df865274d7d058ec08487b4ea03451a3cb3bf32823681b465740616be266280, 0x309906882825c51836830dfb5e6daccaf14800ed184f7aca3602d2f218331157e,
    0x20164c810e86fc37958b0c072ab2d28361a848b9dc48c13064217a252870c3248, 0x249846d0f9f81393d2668d7d8be2f351e92b3715728fc637645df0e9ebf2672c8,
    0x210401951d0a9c6588c08e2ba97f67682485dc1ac20847ee08f9202e834086080, 0x20000000000000000000000000000100000000000000000400000000800000000,
    0x200f0748356f90fc770a834329213d8360ce1ed3bc06445c629b58aba170472c8, 0x20d0811a41b840a49b02cb38678009d2c305252094252c0724cc18c8ca9221048,
    0x2c8a8e8afb08b3fc80e44c03fd446f81a808341782a87eac4019c038a161064a0, 0x21860cd0df9a20f080a645102145b819848b3d0300ad06d1485c40cb63a264280,
    0x2c9a979f30591e3c8a8c63de32160ea2e91dd35980a7918825f740d40fe38e4a0, 0x2cc81b91b2613a1c98e86bdfd68c32112a1552519227f89141f350f167736f6e8,
    0x259c4710e5f65332d6e2c29de5b63211edad2fb53a21ed916ccdd06d6af2e3248, 0x3d01d102c830c66ae0eb27a1aabe1cc37c74212a224c419a7b8402a53480d8316,
    0x20100d14c38460948d63c3e98b8be468010da4a18e66446a04c84aaa0a2000000, 0x30498792699d85bcad81c6c338eda518324d25cd8c6a52cd12ceca32d2a130536,
    0x35894bdd3bac704b3f8d8f1c19c11f29dc67d4b25ccd965c7af93adbb353577fe, 0x3c05c483ddab8ad323ec4dfe899b15c838e87c4346af855e123a68cf9122d4396,
    0x259c4750e5f6933ad662ca9fe5967311edaf2f953a21edb56ccdd06deaf2e3248, 0x2002140108d0cc44930fe9ec4c1454c30018432a94e6a9ba41241a852490c9248]"

definition duals257_8 :: "int list" where
  "duals257_8 = [
    0x389f96472cc64c8cae48242780aa5972f1dacaa88a08c03737200021dc0078316, 0x315bde8772c02caa33c4a81af27850b03778f208168133311f3018555d13fd7fe,
    0x3cdb17d8616c9cc92ccb2f24a9990e99db5f269a4a4c854977c9228e7e40ba116, 0x2c9cc20bf58e4fcb156f4005d7f6bd02c9a07cae5ee0ff9c2438ba3d8911c56e8,
    0x259c4750e5f6933ad662ca9fe5963211edaf2f953a21ed916ccdd06d6af2e3248, 0x218418d1d74aecb413a9acfc6d55ecda84937e29944bafeb09785a4e4732ad0c8,
    0x259e4745e4f68ae64ea303862a5445b18daeeb82a84483ad4ca40284e880a0000, 0x2d5e1a04af6ba6791028e5e47fe345780f908e4b502ebe6f0d0a709acc3129468,
    0x2d80c95f13acb0631f0f873e1be15e29ec27d4925ccd967868f93adb2353476e8, 0x2d18dada22c4a37f06c6ecfdbaa351d84d330287caabd0772d40e073ce2368620,
    0x28849d8ac7323045d0a426225f3563c9a09c2d12f0883de6418d301ea4d18b468, 0x251e4a002662336352c0c96daaa74b486da00a167226c0e62c01b0a2885003048,
    0x31cbcac27b452073ed0605ac7fd3154ab66236c36c8cbf5e1a1a689f9121d47b6, 0x249a52d1f128dfd741696191c7f2a792e933743fe6656f0d2579eaeccf62ae080,
    0x310d520cfcee9c7b2c6460f010c0e33354f0ba9b4aa312257b116050f5633e5b6, 0x2140d51f997589e28161aad5ef044023463dd7c60643eca069fe8a6827820c080,
    0x218618c4d64bf568cb6865a8a217937ae492ba7e262c01d729138887c540ee280, 0x34558d879fb3aa95a3a5462a558750fb3bccdd41c4e83cf356be6a1b79a1747b6,
    0x34578dd29eb373003be4c7319a65a75b5bcf197416ad52cf76d798f2fbd3375fe, 0x2d9e960a2d538259024dedf59b6969cacd980f4342efd6662d0e62fa8ca308420]"

definition duals257_9 :: "int list" where
  "duals257_9 = [
    0x300715cc140ac77c7b46a34df467f8bb30de982fb686faf15390d8b375317d7fe, 0x29c448d55e4379ae51458475b811e2eae6a3fa74b6cbd16228739a760353874e8,
    0x394b168870355500fd0bad734ebdbfc8165831fc3c4f69de1b179ae795d2df3de, 0x37edcc1252b13332be4c9dd0e1267b15dee931551a9f24b5fa57d1c9f3f677bde,
    0x2cdc060535b74fad97020cc81b7ed0324b88ddecdc0a17b1243eb81d4991e56e8, 0x3c8d9b53ef422c18332be7ce0b21bd1ab8d76e09146e845d13e85a8bd6307935e,
    0x33bf5459dd081edb662f70b740c6d355d5fb7c1b68f1e2b7ff796361ff667eb96, 0x2cc81b91b2613a1c99e86bdfd68c33112a1552519627f89541f358f1e7736f6e8,
    0x20845c9006c375631287e81228eb6b9aa0b90a7e50e102650143b242c6522b048, 0x2c580fc5bbb12a9d83a7462855a711fb0b0ed541c4e83cd744be6a1be9a1646a0,
    0x21548cdb9e7f7cd8c629cd716cc44753a78b5bfb286f6aaf4c7742e0ebe226080, 0x35d581864c7ad309f20bca8b309b5fbb5fc4ab347060517d7e85b237f8d1f377e,
    0x3a741b84b620278044e07f43d1d60c347394980c2a3e7789b59081bc5d05bcdb6, 0x2902854e1179c52d5bcc438afd22f0b3440e976cf6a43c31689eb8996191656e8,
    0x294400955c0399e101c1482a98b36a68a681f856466011620873aa160341864a0, 0x25934058d099c3cfa1e841decc970f928d633166c627a9cd0e56a8c6cb82a4080,
    0x240001400158c18d49c84392ed60d0b088060724e6252e31008ca8c9408260200, 0x314bc787b9d199f2f1658f47ff201bb3566cd75736cefc157abfdab9f1f1777fe,
    0x3aab9dd6c2f7f7d8a8e837389f763a65d05fa3ff021d1f92f3c7c1dd36e7daf36, 0x2914c9cf1fff391ace474f8dd7902a3025a6dfd52aecfd010cbfc2bc49e1a64a0]"

definition duals257_10 :: "int list" where
  "duals257_10 = [
    0x28400100410905848901c60131cc2d008204244c8468568c008a8a38800100420, 0x259c4710e5f65333d6e2c29de5b6b211edad2fb57a21ed916ccdf06d6af2e3248,
    0x288a8fcafa507271c92c0f911026bf31200e3333648d509d409568f1e1e3666a0, 0x3dd15018898887ce7be9ec99cd3e1511bf71040eb6696d9d5f489a6dfe12f935e,
    0x3f37dac62701a4ea7e0af5a57ae008743df28c4a383cf2039f0a11b05c1539d7e, 0x2904c4dbdc7b598e43248c645c9bce5824ab7b74a48ab96b0877881643c1a64a0,
    0x3dc94add7aa575cfb68c491d2a0d32295e63f0fed8a5c0d07a73b0e33352573de, 0x200000400000c009008008020820c100000200204000002400002000800000000,
    0x3015198dd6963efd67642bb6b08ce643d1d4f99bee8590aa77b568d03de31e5b6, 0x210a47c0e8e41b075722c3bde4a71b88642e2294fc25e8d42881b8e3805243248,
    0x3aab9d96c2f737d0a8683f389f763a65d05da3df021d1f92f3c7c1dd36e7daf36, 0x2c9a839e388dd3680d878fea76cf8be9a90590f60cce3ac644d38a92ab41064a0,
    0x304983826909c5aca983ce0331ec6c00b244246c846856a8128a8a38100110536, 0x28849dcac732f04cd0242ea05715a2c9a09e2d32b0883dc2418d101e24d18b468,
    0x21ded34fadd31e8e8a622c1acf5ff30967b6cf5882092ff46daf004facc2ca200, 0x300715cc140a877c7b46ab4df467f8bb30de980fb686faf15390d8b375317d7fe,
    0x3b2d855214bcc2b863007a903d61a91f34cf19a124311e45dad4495af3a734db6, 0x38cd0e4ca63ea0683663c8dbecaa2cb2f2ca89821a6368093204126050923115e,
    0x204e964e7d0302d0d2c76d4ec58b94bb829abc4332eeac59411a528b65306d2c8, 0x31cf8b42b707a54c2d2783d319a81d01b6c61cce8cc7541c5a9a8af9b103547b6]"

definition duals257_11 :: "int list" where
  "duals257_11 = [
    0x2d02d54a986451231d4020d2d421233b2c3e12b45e0338454991b852e5532f4e8, 0x23b84195c90299a71de9dbfab4a12beee525e414de771846ace9bbd28a5703c68,
    0x3ba9d9c2127fb7db73879282158ac285947613df74d01c20db97fb1835f51fdfe, 0x399982973841dcb0f84a05aa806e6be15541d279320c02a67e735080bb70171de,
    0x3a3a8dcacb232550b627120d145d988ff10e244f18d0dbd0f48ad3373835d1f7e, 0x388b8bd7eb043cadace6cbf9811b77691047e498caa7457e52e920efb242d2316,
    0x2902d40a993c90ac548863403941f38ba4381590b8261674491d109ba5d14f6e8, 0x3913dc430bf56e77b501ecc22bd7118b357a47ebdc6a07d45f2e7a0fbcb0d935e,
    0x33e9d8c25376b27ffa8654832446ef8516723793f0b84aacdb1d7120b5f41f9de, 0x31130d5dc211ae4131660a3b9048d4d0754fe14a5681523b3ee638715a937177e,
    0x250d570cec2283bac82de7a86ebd90fbccfca80520ec29d36b80c2876420e8200, 0x2542c10a91a141621a6a82e4ab1645404e241466120285ae289a900c8110850c8,
    0x3917cd874faa8e5133ec48f689cd15c875ecec0b56a386de3ea8784b98325135e, 0x23b841d5c902d9a71d69d3fab4a12beee527e434de771846ace9bbd28a5703c68,
    0x23a05b403a7d77d353059a8015aa8385a43613ff74d01c04c997fb18a5f50fce8, 0x30cdde126fcab0cfbb0426215f1727d912f92e12d4887dcf5349383ef651bb57e,
    0x3e20d25ef8be4102ab2d9d3853dc39e4f833b1a404dd3796b1548bdd9787dcfb6, 0x250c5744ec2243b2c8adefaa6e9dd1fbccbea82520ec29f76980c287e420e8200,
    0x341518cdd5cedf722eac68245dec36f359d2febf08a0be9b7739c0197d617e7b6, 0x38119817d37d6e7c6eee4178a12be96b7151f7ebaaa70466777e40cabfa21c196]"

definition duals257_12 :: "int list" where
  "duals257_12 = [
    0x399ad68ad15e5283e522888d01f71b0a553837b06c00c7d43d1d282f9dc0de396, 0x39cf0a1876f62063ef8c45616656d452b6c13b826cae6bbb1a5428a55380f4396,
    0x2dc90a9eabc8f37d51abc9bb779ad661ee418637f4657d3a6a49fafd2273c3668, 0x200100400000c0080080080200204100004200200000002402000000800000000,
    0x2d02d56a9a6451231d4020d2d421233b2c3e12b45e0338454991b852e5532f4e8, 0x3bb1c3d7e90019af3debdbf8b4816aeed567e414de771862bee9bbd21a5713d7e,
    0x27ba06d429e013814e0f15b5522b22eead0b861468ddf0428c49a3f20a4702c20, 0x2dda1ad5a338ff11c1202d453bbae2a1ef13c53d640ed5206d6de8bc2ee18a420,
    0x3453fc147a96a1feb4894136766dcd6bbb79b1879865baee5754d2d2bfb31d5fe, 0x2dc88adeabc83375512bc1b977ba9761ee038617f4657d1e6849fafda273c3668,
    0x20020000000000000000000000000000000000000000000000000000000000000, 0x3c03c503c0e00a2e73e4ce4de6aa4800786c6200b6aae82032a0182010101115e,
    0x33c9fac05376b27ffa8654832446ef8516723793f0b84aacdb1d7120b5f41f9de, 0x2d581ad5a338ff11c1202d453bbae2a1ef13c53d640ed5206d6de8bc2ee18a420,
    0x259a06d429e013814e0f15b5522b22eead0b861468ddf0428c49a3f20a4702c20, 0x20528c0a822820f41f24d40c2591b58f430800039cb88d5ce400590fa834c1a48]"

section \<open>The computations\<close>

lemma squares_return163: "square_times [0, 3, 6, 7] 163 (x_bits 163) = x_bits 163"
  by code_simp

lemma duals_ok163_0: "check_duals [0, 3, 6, 7] (x_bits 163) (replicate 0 False @ [False, True]) duals163_0"
  by code_simp

lemma duals_ok163_1: "check_duals [0, 3, 6, 7] (x_bits 163) (replicate 20 False @ [False, True]) duals163_1"
  by code_simp

lemma duals_ok163_2: "check_duals [0, 3, 6, 7] (x_bits 163) (replicate 40 False @ [False, True]) duals163_2"
  by code_simp

lemma duals_ok163_3: "check_duals [0, 3, 6, 7] (x_bits 163) (replicate 60 False @ [False, True]) duals163_3"
  by code_simp

lemma duals_ok163_4: "check_duals [0, 3, 6, 7] (x_bits 163) (replicate 80 False @ [False, True]) duals163_4"
  by code_simp

lemma duals_ok163_5: "check_duals [0, 3, 6, 7] (x_bits 163) (replicate 100 False @ [False, True]) duals163_5"
  by code_simp

lemma duals_ok163_6: "check_duals [0, 3, 6, 7] (x_bits 163) (replicate 120 False @ [False, True]) duals163_6"
  by code_simp

lemma duals_ok163_7: "check_duals [0, 3, 6, 7] (x_bits 163) (replicate 140 False @ [False, True]) duals163_7"
  by code_simp

lemma duals_ok163_8: "check_duals [0, 3, 6, 7] (x_bits 163) (replicate 160 False @ [False, True]) duals163_8"
  by code_simp

lemmas duals_ok163 =
  duals_ok163_0 duals_ok163_1 duals_ok163_2 duals_ok163_3 duals_ok163_4 duals_ok163_5 duals_ok163_6 duals_ok163_7 duals_ok163_8

lemma squares_return257: "square_times [0, 12] 257 (x_bits 257) = x_bits 257"
  by code_simp

lemma duals_ok257_0: "check_duals [0, 12] (x_bits 257) (replicate 0 False @ [False, True]) duals257_0"
  by code_simp

lemma duals_ok257_1: "check_duals [0, 12] (x_bits 257) (replicate 20 False @ [False, True]) duals257_1"
  by code_simp

lemma duals_ok257_2: "check_duals [0, 12] (x_bits 257) (replicate 40 False @ [False, True]) duals257_2"
  by code_simp

lemma duals_ok257_3: "check_duals [0, 12] (x_bits 257) (replicate 60 False @ [False, True]) duals257_3"
  by code_simp

lemma duals_ok257_4: "check_duals [0, 12] (x_bits 257) (replicate 80 False @ [False, True]) duals257_4"
  by code_simp

lemma duals_ok257_5: "check_duals [0, 12] (x_bits 257) (replicate 100 False @ [False, True]) duals257_5"
  by code_simp

lemma duals_ok257_6: "check_duals [0, 12] (x_bits 257) (replicate 120 False @ [False, True]) duals257_6"
  by code_simp

lemma duals_ok257_7: "check_duals [0, 12] (x_bits 257) (replicate 140 False @ [False, True]) duals257_7"
  by code_simp

lemma duals_ok257_8: "check_duals [0, 12] (x_bits 257) (replicate 160 False @ [False, True]) duals257_8"
  by code_simp

lemma duals_ok257_9: "check_duals [0, 12] (x_bits 257) (replicate 180 False @ [False, True]) duals257_9"
  by code_simp

lemma duals_ok257_10: "check_duals [0, 12] (x_bits 257) (replicate 200 False @ [False, True]) duals257_10"
  by code_simp

lemma duals_ok257_11: "check_duals [0, 12] (x_bits 257) (replicate 220 False @ [False, True]) duals257_11"
  by code_simp

lemma duals_ok257_12: "check_duals [0, 12] (x_bits 257) (replicate 240 False @ [False, True]) duals257_12"
  by code_simp

lemmas duals_ok257 =
  duals_ok257_0 duals_ok257_1 duals_ok257_2 duals_ok257_3 duals_ok257_4 duals_ok257_5 duals_ok257_6 duals_ok257_7 duals_ok257_8 duals_ok257_9 duals_ok257_10 duals_ok257_11 duals_ok257_12

lemma length_duals163:
  "length duals163_0 = 20" "length duals163_1 = 20" "length duals163_2 = 20" "length duals163_3 = 20" "length duals163_4 = 20" "length duals163_5 = 20" "length duals163_6 = 20" "length duals163_7 = 20" "length duals163_8 = 2"
  by (simp_all add: duals163_0_def duals163_1_def duals163_2_def duals163_3_def duals163_4_def duals163_5_def duals163_6_def duals163_7_def duals163_8_def)

lemma all_duals163:
  "check_duals [0, 3, 6, 7] (x_bits 163) [False, True] (duals163_0 @ duals163_1 @ duals163_2 @ duals163_3 @ duals163_4 @ duals163_5 @ duals163_6 @ duals163_7 @ duals163_8)"
  using duals_ok163 by (simp add: check_duals_append length_duals163 replicate_add [symmetric] flip: append_assoc)

interpretation gf163: gf2_modulus 163 "[0, 3, 6, 7]"
proof
  fix c :: nat assume c: "0 < c" "c < 163"
  then show "\<exists>v. length v = 163 \<and> (\<forall>k<163. parity (map ((!) v) (red_bits 163 [0, 3, 6, 7] (2 * k))) \<noteq> v ! k \<longleftrightarrow> k = c)"
    using check_duals_read [OF _ _ _ _ all_duals163, of 163 1 "c - 1"] by (simp add: x_bits_def length_duals163)
qed (simp_all add: frobenius_by_bits squares_return163)

lemma length_duals257:
  "length duals257_0 = 20" "length duals257_1 = 20" "length duals257_2 = 20" "length duals257_3 = 20" "length duals257_4 = 20" "length duals257_5 = 20" "length duals257_6 = 20" "length duals257_7 = 20" "length duals257_8 = 20" "length duals257_9 = 20" "length duals257_10 = 20" "length duals257_11 = 20" "length duals257_12 = 16"
  by (simp_all add: duals257_0_def duals257_1_def duals257_2_def duals257_3_def duals257_4_def duals257_5_def duals257_6_def duals257_7_def duals257_8_def duals257_9_def duals257_10_def duals257_11_def duals257_12_def)

lemma all_duals257:
  "check_duals [0, 12] (x_bits 257) [False, True] (duals257_0 @ duals257_1 @ duals257_2 @ duals257_3 @ duals257_4 @ duals257_5 @ duals257_6 @ duals257_7 @ duals257_8 @ duals257_9 @ duals257_10 @ duals257_11 @ duals257_12)"
  using duals_ok257 by (simp add: check_duals_append length_duals257 replicate_add [symmetric] flip: append_assoc)

interpretation gf257: gf2_modulus 257 "[0, 12]"
proof
  fix c :: nat assume c: "0 < c" "c < 257"
  then show "\<exists>v. length v = 257 \<and> (\<forall>k<257. parity (map ((!) v) (red_bits 257 [0, 12] (2 * k))) \<noteq> v ! k \<longleftrightarrow> k = c)"
    using check_duals_read [OF _ _ _ _ all_duals257, of 257 1 "c - 1"] by (simp add: x_bits_def length_duals257)
qed (simp_all add: frobenius_by_bits squares_return257)

end
