(* ===== verification/Gf2_Types.thy ===== *)
theory Gf2_Types
  imports Gf2_Tables
begin

text \<open>
  The fields of 2^163 and 2^257 elements as types of the class \<open>field\<close>: the number of a polynomial is
  its representative, addition is the exclusive or, and the inverse is the power \<open>2^m - 2\<close>.
\<close>

text \<open>Where \<open>2^m\<close>-th powers are the identity and only \<open>0\<close> and \<open>1\<close> are idempotent, \<open>a^(2^m - 1)\<close> is one.\<close>

lemma inverse_by_power:
  fixes a :: "'a::comm_ring_1"
  assumes fixed: "a ^ (2 ^ m) = a" and idem: "\<And>e :: 'a. e * e = e \<Longrightarrow> e = 0 \<or> e = 1" and "a \<noteq> 0" "2 \<le> m"
  shows "a ^ (2 ^ m - 2) * a = 1"
proof -
  define e where "e = a ^ (2 ^ m - 2) * a"
  have m: "2 ^ m = Suc (Suc (2 ^ m - 2))" using power_increasing [OF assms(4), of "2 :: nat"] by simp
  have ea: "e * a = a" using fixed by (subst (asm) m) (simp add: e_def ac_simps)
  have "e * e = e"
    using ea unfolding e_def by (metis mult.assoc mult.commute)
  then show ?thesis using idem ea assms(3) by (metis e_def mult_zero_left)
qed

lemma power_squares: "(a :: 'a::comm_ring_1) ^ (2 ^ n) = ((\<lambda>x. x * x) ^^ n) a"
  by (induction n) (simp_all add: mult_2 power_add)

section \<open>GF(2^163)\<close>

typedef gf163 = "{n :: nat. n < 2 ^ 163}"
  by (rule exI [of _ 0]) simp

setup_lifting type_definition_gf163

instantiation gf163 :: comm_ring_1
begin

lift_definition zero_gf163 :: gf163 is 0 by simp
lift_definition one_gf163 :: gf163 is 1 by simp
lift_definition plus_gf163 :: "gf163 \<Rightarrow> gf163 \<Rightarrow> gf163" is "(XOR)" by (rule xor_less_exp)
lift_definition minus_gf163 :: "gf163 \<Rightarrow> gf163 \<Rightarrow> gf163" is "(XOR)" by (rule xor_less_exp)
lift_definition uminus_gf163 :: "gf163 \<Rightarrow> gf163" is id by simp
lift_definition times_gf163 :: "gf163 \<Rightarrow> gf163 \<Rightarrow> gf163" is "gmul 163 [0, 3, 6, 7]" by (rule gmul_less)

instance
proof
  fix a b c :: gf163
  show "a + b + c = a + (b + c)" by transfer (rule xor.assoc)
  show "a + b = b + a" by transfer (rule xor.commute)
  show "0 + a = a" by transfer simp
  show "- a + a = 0" by transfer simp
  show "a - b = a + - b" by transfer simp
  show "a * b * c = a * (b * c)" by transfer (rule gf163.gmul_assoc)
  show "a * b = b * a" by transfer (rule gf163.gmul_commute)
  show "1 * a = a" by transfer (rule gf163.gmul_one)
  show "(a + b) * c = a * c + b * c" by transfer (rule gf163.gmul_xor)
  show "(0 :: gf163) \<noteq> 1" by transfer simp
qed

end

lemma gf163_two [simp]: "(2 :: gf163) = 0"
proof -
  have "(1 :: gf163) + 1 = 0" by transfer simp
  then show ?thesis by (simp add: numeral_2_eq_2 [symmetric] one_add_one)
qed

lemma gf163_idempotent: "(e :: gf163) * e = e \<Longrightarrow> e = 0 \<or> e = 1"
  by transfer (rule gf163.idempotent)

lemma gf163_frobenius: "(a :: gf163) ^ (2 ^ 163) = a"
proof -
  have "Rep_gf163 (((\<lambda>x. x * x) ^^ n) a) = ((\<lambda>x. gmul 163 [0, 3, 6, 7] x x) ^^ n) (Rep_gf163 a)" for n
    by (induction n) (simp_all add: times_gf163.rep_eq)
  then have "Rep_gf163 (a ^ (2 ^ 163)) = Rep_gf163 a"
    unfolding power_squares using gf163.square_pow_id Rep_gf163 [of a] by (simp only: mem_Collect_eq)
  then show ?thesis by (simp only: Rep_gf163_inject)
qed

instantiation gf163 :: field
begin

definition inverse_gf163 :: "gf163 \<Rightarrow> gf163" where "inverse_gf163 a = a ^ (2 ^ 163 - 2)"
definition divide_gf163 :: "gf163 \<Rightarrow> gf163 \<Rightarrow> gf163" where "divide_gf163 a b = a * inverse b"

instance
proof
  fix a b :: gf163
  show "a \<noteq> 0 \<Longrightarrow> inverse a * a = 1"
    unfolding inverse_gf163_def by (rule inverse_by_power [OF gf163_frobenius gf163_idempotent]) simp_all
  show "a div b = a * inverse b" by (rule divide_gf163_def)
  show "inverse (0 :: gf163) = 0" unfolding inverse_gf163_def by (rule zero_power) simp
qed

end

section \<open>GF(2^257)\<close>

typedef gf257 = "{n :: nat. n < 2 ^ 257}"
  by (rule exI [of _ 0]) simp

setup_lifting type_definition_gf257

instantiation gf257 :: comm_ring_1
begin

lift_definition zero_gf257 :: gf257 is 0 by simp
lift_definition one_gf257 :: gf257 is 1 by simp
lift_definition plus_gf257 :: "gf257 \<Rightarrow> gf257 \<Rightarrow> gf257" is "(XOR)" by (rule xor_less_exp)
lift_definition minus_gf257 :: "gf257 \<Rightarrow> gf257 \<Rightarrow> gf257" is "(XOR)" by (rule xor_less_exp)
lift_definition uminus_gf257 :: "gf257 \<Rightarrow> gf257" is id by simp
lift_definition times_gf257 :: "gf257 \<Rightarrow> gf257 \<Rightarrow> gf257" is "gmul 257 [0, 12]" by (rule gmul_less)

instance
proof
  fix a b c :: gf257
  show "a + b + c = a + (b + c)" by transfer (rule xor.assoc)
  show "a + b = b + a" by transfer (rule xor.commute)
  show "0 + a = a" by transfer simp
  show "- a + a = 0" by transfer simp
  show "a - b = a + - b" by transfer simp
  show "a * b * c = a * (b * c)" by transfer (rule gf257.gmul_assoc)
  show "a * b = b * a" by transfer (rule gf257.gmul_commute)
  show "1 * a = a" by transfer (rule gf257.gmul_one)
  show "(a + b) * c = a * c + b * c" by transfer (rule gf257.gmul_xor)
  show "(0 :: gf257) \<noteq> 1" by transfer simp
qed

end

lemma gf257_two [simp]: "(2 :: gf257) = 0"
proof -
  have "(1 :: gf257) + 1 = 0" by transfer simp
  then show ?thesis by (simp add: numeral_2_eq_2 [symmetric] one_add_one)
qed

lemma gf257_idempotent: "(e :: gf257) * e = e \<Longrightarrow> e = 0 \<or> e = 1"
  by transfer (rule gf257.idempotent)

lemma gf257_frobenius: "(a :: gf257) ^ (2 ^ 257) = a"
proof -
  have "Rep_gf257 (((\<lambda>x. x * x) ^^ n) a) = ((\<lambda>x. gmul 257 [0, 12] x x) ^^ n) (Rep_gf257 a)" for n
    by (induction n) (simp_all add: times_gf257.rep_eq)
  then have "Rep_gf257 (a ^ (2 ^ 257)) = Rep_gf257 a"
    unfolding power_squares using gf257.square_pow_id Rep_gf257 [of a] by (simp only: mem_Collect_eq)
  then show ?thesis by (simp only: Rep_gf257_inject)
qed

instantiation gf257 :: field
begin

definition inverse_gf257 :: "gf257 \<Rightarrow> gf257" where "inverse_gf257 a = a ^ (2 ^ 257 - 2)"
definition divide_gf257 :: "gf257 \<Rightarrow> gf257 \<Rightarrow> gf257" where "divide_gf257 a b = a * inverse b"

instance
proof
  fix a b :: gf257
  show "a \<noteq> 0 \<Longrightarrow> inverse a * a = 1"
    unfolding inverse_gf257_def by (rule inverse_by_power [OF gf257_frobenius gf257_idempotent]) simp_all
  show "a div b = a * inverse b" by (rule divide_gf257_def)
  show "inverse (0 :: gf257) = 0" unfolding inverse_gf257_def by (rule zero_power) simp
qed

end

end
