(* ===== verification/Dstu4145_Field.thy ===== *)
theory Dstu4145_Field
  imports Dstu4145_Scalar Gf2_Types
begin

text \<open>
  \<open>crates/dstu-core/src/hazmat/dstu4145/gf2m163.rs\<close> and \<open>gf2m257.rs\<close>: the field elements of the two
  curves as arrays of three and five limbs. The bit-serial and the instruction multiply, the bit-spreading
  square, the two hand-written reductions and the addition chains of the inversion are translated one by
  one and shown to compute in the fields \<^typ>\<open>gf163\<close> and \<^typ>\<open>gf257\<close>.
\<close>

section \<open>Definitions\<close>

fun fe_m :: "dstu4145_curve \<Rightarrow> nat" where
  "fe_m M163 = 163" | "fe_m M257 = 257"

fun fe_terms :: "dstu4145_curve \<Rightarrow> nat list" where
  "fe_terms M163 = [0, 3, 6, 7]" | "fe_terms M257 = [0, 12]"

definition fe_add :: "u64 list \<Rightarrow> u64 list \<Rightarrow> u64 list" where
  "fe_add self other = map2 (XOR) self other"

definition fe_ZERO :: "dstu4145_curve \<Rightarrow> u64 list" where
  "fe_ZERO c = replicate (sc_limbs c) 0"

definition fe_ONE :: "dstu4145_curve \<Rightarrow> u64 list" where
  "fe_ONE c = 1 # replicate (sc_limbs c - 1) 0"

fun is_canonical :: "dstu4145_curve \<Rightarrow> u64 list \<Rightarrow> bool" where
  "is_canonical M163 self = (drop_bit 35 (self ! 2) = 0)"
| "is_canonical M257 self = (drop_bit 1 (self ! 4) = 0)"

text \<open>The byte conversions repeat those of the scalars; a slice longer than the limbs is \<open>None\<close>.\<close>

definition fe_from_be_bytes :: "dstu4145_curve \<Rightarrow> bytes \<Rightarrow> u64 list option" where
  "fe_from_be_bytes c bs =
     (if 8 * sc_limbs c < length bs then None
      else Some (fold put_byte (enumerate 0 (rev bs)) (replicate (sc_limbs c) 0)))"

definition fe_to_be_bytes :: "dstu4145_curve \<Rightarrow> u64 list \<Rightarrow> bytes" where
  "fe_to_be_bytes c self = rev (map (\<lambda>i. ucast (drop_bit (i mod 8 * 8) (self ! (i div 8)))) [0..<sc_bytes c])"

definition mul_bit :: "u64 list \<Rightarrow> nat \<Rightarrow> u64 list \<times> u64 list \<Rightarrow> u64 list \<times> u64 list" where
  "mul_bit a bit_index = (\<lambda>(acc, shifted).
     let bit_value = drop_bit (bit_index mod 64) (a ! (bit_index div 64)) AND 1;
         msk = 0 - bit_value
     in (map2 (\<lambda>x s. x XOR (s AND msk)) acc shifted, shl1 shifted))"

definition fe_mul_wide :: "dstu4145_curve \<Rightarrow> u64 list \<Rightarrow> u64 list \<Rightarrow> u64 list" where
  "fe_mul_wide c a b =
     fst (fold (mul_bit a) [0..<fe_m c] (replicate (2 * sc_limbs c) 0, b @ replicate (sc_limbs c) 0))"

definition fe_mul_wide_hw :: "(u64 \<Rightarrow> u64 \<Rightarrow> u64 \<times> u64) \<Rightarrow> dstu4145_curve \<Rightarrow> u64 list \<Rightarrow> u64 list \<Rightarrow> u64 list" where
  "fe_mul_wide_hw clm c a b =
     fold (hw_step clm a b) (List.product [0..<sc_limbs c] [0..<sc_limbs c]) (replicate (2 * sc_limbs c) 0)"

definition spread32to64 :: "u32 \<Rightarrow> u64" where
  "spread32to64 x =
     (let x = ucast x;
          x = (x OR push_bit 16 x) AND 0x0000FFFF0000FFFF;
          x = (x OR push_bit 8 x) AND 0x00FF00FF00FF00FF;
          x = (x OR push_bit 4 x) AND 0x0F0F0F0F0F0F0F0F;
          x = (x OR push_bit 2 x) AND 0x3333333333333333;
          x = (x OR push_bit 1 x) AND 0x5555555555555555
      in x)"

definition square_wide :: "u64 list \<Rightarrow> u64 list" where
  "square_wide a = concat (map (\<lambda>w. let lo = ucast w; hi = ucast (drop_bit 32 w) in [spread32to64 lo, spread32to64 hi]) a)"

definition reduce163_word :: "nat \<Rightarrow> u64 list \<Rightarrow> u64 list" where
  "reduce163_word j c =
     (let zz = c ! j;
          c = c[j := 0];
          c = c[j - 2 := c ! (j - 2) XOR (drop_bit 28 zz XOR drop_bit 29 zz XOR drop_bit 32 zz XOR drop_bit 35 zz)]
      in c[j - 3 := c ! (j - 3) XOR (push_bit 36 zz XOR push_bit 35 zz XOR push_bit 32 zz XOR push_bit 29 zz)])"

definition reduce163_cleanup :: "u64 list \<Rightarrow> u64 list" where
  "reduce163_cleanup c =
     (let overflow = drop_bit 35 (c ! 2);
          c = c[2 := drop_bit 29 (push_bit 29 (c ! 2))]
      in c[0 := c ! 0 XOR (overflow XOR push_bit 3 overflow XOR push_bit 6 overflow XOR push_bit 7 overflow)])"

definition reduce163 :: "u64 list \<Rightarrow> u64 list" where
  "reduce163 c = (let c = fold reduce163_word [5, 4, 3] c; c = (reduce163_cleanup ^^ 2) c in [c ! 0, c ! 1, c ! 2])"

definition reduce257 :: "u64 list \<Rightarrow> u64 list" where
  "reduce257 c =
     (let h1 = map (\<lambda>i. drop_bit 1 (c ! (i + 4)) OR push_bit 63 (c ! (i + 5))) [0..<5];
          lo1 = [c ! 0, c ! 1, c ! 2, c ! 3, c ! 4 AND 1];
          h1_shifted = push_bit 12 (h1 ! 0) # map (\<lambda>i. push_bit 12 (h1 ! i) OR drop_bit 52 (h1 ! (i - 1))) [1..<5];
          pass1 = map (\<lambda>i. lo1 ! i XOR h1 ! i XOR h1_shifted ! i) [0..<5];
          h2 = drop_bit 1 (pass1 ! 4);
          h2_shifted = push_bit 12 h2;
          result = [pass1 ! 0, pass1 ! 1, pass1 ! 2, pass1 ! 3, pass1 ! 4 AND 1]
      in result[0 := result ! 0 XOR (h2 XOR h2_shifted)])"

fun fe_reduce :: "dstu4145_curve \<Rightarrow> u64 list \<Rightarrow> u64 list" where
  "fe_reduce M163 c = reduce163 c" | "fe_reduce M257 c = reduce257 c"

definition fe_multiply ::
  "(u64 \<Rightarrow> u64 \<Rightarrow> u64 \<times> u64) option \<Rightarrow> dstu4145_curve \<Rightarrow> u64 list \<Rightarrow> u64 list \<Rightarrow> u64 list" where
  "fe_multiply hw c self other =
     (case hw of
        Some clm \<Rightarrow> fe_reduce c (fe_mul_wide_hw clm c self other)
      | None \<Rightarrow> fe_reduce c (fe_mul_wide c self other))"

definition fe_square :: "dstu4145_curve \<Rightarrow> u64 list \<Rightarrow> u64 list" where
  "fe_square c self = fe_reduce c (square_wide self)"

definition sq_n :: "dstu4145_curve \<Rightarrow> u64 list \<Rightarrow> nat \<Rightarrow> u64 list" where
  "sq_n c x n = (fe_square c ^^ n) x"

definition invert163 :: "(u64 \<Rightarrow> u64 \<Rightarrow> u64 \<times> u64) option \<Rightarrow> u64 list \<Rightarrow> u64 list" where
  "invert163 hw self =
     (let t1 = self;
          t2 = fe_multiply hw M163 (fe_square M163 t1) t1;
          t3 = fe_multiply hw M163 (sq_n M163 t2 1) t1;
          t6 = fe_multiply hw M163 (sq_n M163 t3 3) t3;
          t12 = fe_multiply hw M163 (sq_n M163 t6 6) t6;
          t24 = fe_multiply hw M163 (sq_n M163 t12 12) t12;
          t27 = fe_multiply hw M163 (sq_n M163 t24 3) t3;
          t54 = fe_multiply hw M163 (sq_n M163 t27 27) t27;
          t81 = fe_multiply hw M163 (sq_n M163 t54 27) t27;
          t162 = fe_multiply hw M163 (sq_n M163 t81 81) t81
      in fe_square M163 t162)"

definition invert257 :: "(u64 \<Rightarrow> u64 \<Rightarrow> u64 \<times> u64) option \<Rightarrow> u64 list \<Rightarrow> u64 list" where
  "invert257 hw self =
     (let t1 = self;
          t2 = fe_multiply hw M257 (sq_n M257 t1 1) t1;
          t4 = fe_multiply hw M257 (sq_n M257 t2 2) t2;
          t8 = fe_multiply hw M257 (sq_n M257 t4 4) t4;
          t16 = fe_multiply hw M257 (sq_n M257 t8 8) t8;
          t32 = fe_multiply hw M257 (sq_n M257 t16 16) t16;
          t64 = fe_multiply hw M257 (sq_n M257 t32 32) t32;
          t128 = fe_multiply hw M257 (sq_n M257 t64 64) t64;
          t256 = fe_multiply hw M257 (sq_n M257 t128 128) t128
      in fe_square M257 t256)"

fun fe_invert :: "(u64 \<Rightarrow> u64 \<Rightarrow> u64 \<times> u64) option \<Rightarrow> dstu4145_curve \<Rightarrow> u64 list \<Rightarrow> u64 list" where
  "fe_invert hw M163 self = invert163 hw self" | "fe_invert hw M257 self = invert257 hw self"

section \<open>The products\<close>

text \<open>Field elements: the limbs of the curve with the top bits clear.\<close>

definition fe_ok :: "dstu4145_curve \<Rightarrow> u64 list \<Rightarrow> bool" where
  "fe_ok c a \<longleftrightarrow> length a = sc_limbs c \<and> lv a < 2 ^ fe_m c"

text \<open>What the modules rely on of the instruction, when there is one.\<close>

definition hw_ok :: "(u64 \<Rightarrow> u64 \<Rightarrow> u64 \<times> u64) option \<Rightarrow> bool" where
  "hw_ok hw \<longleftrightarrow> (\<forall>clm. hw = Some clm \<longrightarrow> multiplies_carryless clm)"

lemma fe_mul_wide_hw_value:
  assumes "multiplies_carryless clm" "length a = sc_limbs c" "length b = sc_limbs c"
  shows "length (fe_mul_wide_hw clm c a b) = 2 * sc_limbs c" "lv (fe_mul_wide_hw clm c a b) = clmul (lv a) (lv b)"
  using hw_products_value [OF assms] by (simp_all add: fe_mul_wide_hw_def)

lemma lv_map2_masked:
  "length acc = length s \<Longrightarrow> lv (map2 (\<lambda>x s. x XOR (s AND - (drop_bit k w AND 1))) acc s) = lv acc XOR (if bit w k then lv s else 0)"
  unfolding bit_mask by (rule bit_eqI) (auto simp: bit_lv bit_simps)

lemma fe_mul_wide_value:
  assumes "length a = sc_limbs c" "fe_ok c b" "lv a < 2 ^ fe_m c"
  shows "length (fe_mul_wide c a b) = 2 * sc_limbs c" "lv (fe_mul_wide c a b) = clmul (lv b) (lv a)"
proof -
  let ?z = "(replicate (2 * sc_limbs c) (0 :: u64), b @ replicate (sc_limbs c) 0)"
  have room: "fe_m c + fe_m c \<le> 64 * (2 * sc_limbs c)" by (cases c) simp_all
  have b: "lv b < 2 ^ fe_m c" "length b = sc_limbs c" using assms(2) by (simp_all add: fe_ok_def)
  have "n \<le> fe_m c \<Longrightarrow> length (fst (fold (mul_bit a) [0..<n] ?z)) = 2 * sc_limbs c \<and> length (snd (fold (mul_bit a) [0..<n] ?z)) = 2 * sc_limbs c \<and>
      lv (fst (fold (mul_bit a) [0..<n] ?z)) = clmul (lv b) (take_bit n (lv a)) \<and> lv (snd (fold (mul_bit a) [0..<n] ?z)) = push_bit n (lv b)" for n
  proof (induction n)
    case 0
    then show ?case using b by (simp add: lv_append_xor)
  next
    case (Suc n)
    obtain acc s where st: "fold (mul_bit a) [0..<n] ?z = (acc, s)" by fastforce
    have IH: "length acc = 2 * sc_limbs c" "length s = 2 * sc_limbs c" "lv acc = clmul (lv b) (take_bit n (lv a))" "lv s = push_bit n (lv b)"
      using Suc st by simp_all
    have n: "n div 64 < length a" using Suc.prems assms(1) by (cases c) auto
    have "push_bit 1 (lv s) < 2 ^ (64 * length s)"
    proof -
      have "push_bit (Suc n) (lv b) < 2 ^ (Suc n + fe_m c)" using b by (simp add: push_bit_eq_mult power_add mult.commute)
      also have "\<dots> \<le> 2 ^ (64 * length s)" using Suc.prems room IH(2) by (intro power_increasing) simp_all
      finally show ?thesis by (simp add: IH(4) push_bit_push_bit)
    qed
    then have sh: "lv (shl1 s) = push_bit (Suc n) (lv b)" "length (shl1 s) = length s"
      using lv_shl_exact [of 1 s] IH(4) by (simp_all add: shl1_def push_bit_push_bit)
    have "take_bit (Suc n) (lv a) = take_bit n (lv a) XOR (if bit (lv a) n then 2 ^ n else 0)"
      by (rule bit_eqI) (auto simp: bit_simps less_Suc_eq)
    moreover have "clmul (lv b) (2 ^ n) = push_bit n (lv b)" using clmul_push_right [of "lv b" n 1] by (simp add: push_bit_eq_mult)
    ultimately have "clmul (lv b) (take_bit (Suc n) (lv a)) = lv acc XOR (if bit (a ! (n div 64)) (n mod 64) then lv s else 0)"
      using n by (simp add: clmul_xor_right IH bit_lv)
    moreover have "fold (mul_bit a) [0..<Suc n] ?z =
        (map2 (\<lambda>x s. x XOR (s AND - (drop_bit (n mod 64) (a ! (n div 64)) AND 1))) acc s, shl1 s)"
      using st by (simp add: mul_bit_def [of a n] Let_def)
    ultimately show ?case using sh IH by (simp add: lv_map2_masked)
  qed
  from this [of "fe_m c"] show "length (fe_mul_wide c a b) = 2 * sc_limbs c" "lv (fe_mul_wide c a b) = clmul (lv b) (lv a)"
    using assms(3) by (simp_all add: fe_mul_wide_def take_bit_nat_eq_self)
qed

section \<open>Squaring\<close>

text \<open>One step of the spreading: blocks of \<open>2h\<close> bits at a distance of \<open>4h\<close> become blocks of \<open>h\<close> bits at a
  distance of \<open>2h\<close>.\<close>

lemma spread_stage:
  fixes x :: u64
  assumes h: "0 < h" and x: "\<And>n. n < 64 \<Longrightarrow> bit x n \<longleftrightarrow> n mod (4 * h) < 2 * h \<and> P (n div (4 * h) * (2 * h) + n mod (2 * h))"
    and msk: "\<And>n. n < 64 \<Longrightarrow> bit msk n \<longleftrightarrow> n mod (2 * h) < h" and n: "n < 64"
  shows "bit ((x OR push_bit h x) AND msk) n \<longleftrightarrow> n mod (2 * h) < h \<and> P (n div (2 * h) * h + n mod h)"
proof (cases "n mod (2 * h) < h")
  case True
  note r = True
  define q where "q = n div (2 * h)"
  define r where "r = n mod (2 * h)"
  have nq: "n = 2 * h * q + r" "r < h" using True by (simp_all add: q_def r_def)
  have "(r + h * (2 * q)) mod h = r" using nq(2) by (simp only: mod_mult_self2 mod_less)
  then have nh: "n mod h = r" unfolding nq(1) by (simp add: algebra_simps)
  have bits: "bit ((x OR push_bit h x) AND msk) n \<longleftrightarrow> bit x n \<or> h \<le> n \<and> bit x (n - h)"
    using r msk [OF n] n by (auto simp: bit_simps)
  have at: "bit x (4 * h * k + 2 * h * j + i) \<longleftrightarrow> j = 0 \<and> P (2 * h * k + i)"
    if "4 * h * k + 2 * h * j + i < 64" "j \<le> 1" "i < 2 * h" for k j i
  proof -
    have "(4 * h * k + (2 * h * j + i)) mod (4 * h) = 2 * h * j + i" "(4 * h * k + (2 * h * j + i)) div (4 * h) = k"
      using that(2,3) h by (cases j; simp)+
    moreover have "(4 * h * k + 2 * h * j + i) mod (2 * h) = i"
      using that(3) mod_mult_self3 [of "2 * k + j" "2 * h" i] by (simp add: algebra_simps)
    ultimately show ?thesis using x [OF that(1)] that(2,3) by (cases j) (simp_all add: add.assoc mult.commute)
  qed
  show ?thesis
  proof (cases "even q")
    case True
    then obtain k where k: "q = 2 * k" by blast
    have "bit x n \<longleftrightarrow> P (q * h + r)" using at [of k 0 r] nq n k by (simp add: algebra_simps)
    moreover have "\<not> (h \<le> n \<and> bit x (n - h))"
    proof (cases k)
      case (Suc l)
      then show ?thesis using at [of l 1 "h + r"] nq n k by (auto simp: algebra_simps)
    qed (use nq k in simp)
    ultimately show ?thesis unfolding bits nh q_def [symmetric] using r by blast
  next
    case False
    then obtain k where k: "q = 2 * k + 1" using oddE by blast
    have "\<not> bit x n" using at [of k 1 r] nq n k by (simp add: algebra_simps)
    moreover have "bit x (n - h) \<longleftrightarrow> P (q * h + r)" using at [of k 0 "h + r"] nq n k by (simp add: algebra_simps)
    moreover have "h \<le> n" using nq k by simp
    ultimately show ?thesis unfolding bits nh q_def [symmetric] using r by blast
  qed
qed (use msk n in \<open>simp add: bit_and_iff\<close>)

lemma spread_masks:
  assumes "n < 64"
  shows "bit (0x0000FFFF0000FFFF :: u64) n \<longleftrightarrow> n mod 32 < 16" "bit (0x00FF00FF00FF00FF :: u64) n \<longleftrightarrow> n mod 16 < 8"
    "bit (0x0F0F0F0F0F0F0F0F :: u64) n \<longleftrightarrow> n mod 8 < 4" "bit (0x3333333333333333 :: u64) n \<longleftrightarrow> n mod 4 < 2"
    "bit (0x5555555555555555 :: u64) n \<longleftrightarrow> n mod 2 < 1"
proof -
  have "\<forall>n\<in>set [0..<64]. bit (0x0000FFFF0000FFFF :: u64) n \<longleftrightarrow> n mod 32 < 16"
    "\<forall>n\<in>set [0..<64]. bit (0x00FF00FF00FF00FF :: u64) n \<longleftrightarrow> n mod 16 < 8"
    "\<forall>n\<in>set [0..<64]. bit (0x0F0F0F0F0F0F0F0F :: u64) n \<longleftrightarrow> n mod 8 < 4"
    "\<forall>n\<in>set [0..<64]. bit (0x3333333333333333 :: u64) n \<longleftrightarrow> n mod 4 < 2"
    "\<forall>n\<in>set [0..<64]. bit (0x5555555555555555 :: u64) n \<longleftrightarrow> n mod 2 < 1"
    by (simp_all add: upt_rec [of _ 64] del: set_upt)
  then show "bit (0x0000FFFF0000FFFF :: u64) n \<longleftrightarrow> n mod 32 < 16" "bit (0x00FF00FF00FF00FF :: u64) n \<longleftrightarrow> n mod 16 < 8"
    "bit (0x0F0F0F0F0F0F0F0F :: u64) n \<longleftrightarrow> n mod 8 < 4" "bit (0x3333333333333333 :: u64) n \<longleftrightarrow> n mod 4 < 2"
    "bit (0x5555555555555555 :: u64) n \<longleftrightarrow> n mod 2 < 1"
    using assms by simp_all
qed

lemma spread_bit:
  assumes "n < 64"
  shows "bit (spread32to64 x) n \<longleftrightarrow> even n \<and> bit x (n div 2)"
proof -
  have 0: "bit (ucast x :: u64) n \<longleftrightarrow> n mod (4 * 16) < 2 * 16 \<and> bit x (n div (4 * 16) * (2 * 16) + n mod (2 * 16))" if "n < 64" for n
    using that bit_imp_le_length [of x n] by (cases "n < 32") (auto simp: bit_ucast_iff)
  define x1 where "x1 = (ucast x OR push_bit 16 (ucast x)) AND (0x0000FFFF0000FFFF :: u64)"
  define x2 where "x2 = (x1 OR push_bit 8 x1) AND 0x00FF00FF00FF00FF"
  define x3 where "x3 = (x2 OR push_bit 4 x2) AND 0x0F0F0F0F0F0F0F0F"
  define x4 where "x4 = (x3 OR push_bit 2 x3) AND 0x3333333333333333"
  define x5 where "x5 = (x4 OR push_bit 1 x4) AND 0x5555555555555555"
  have 1: "bit x1 n \<longleftrightarrow> n mod (4 * 8) < 2 * 8 \<and> bit x (n div (4 * 8) * (2 * 8) + n mod (2 * 8))" if "n < 64" for n
    using spread_stage [of 16 "ucast x" "bit x" _ n, OF _ 0 _ that] spread_masks(1) unfolding x1_def by simp
  have 2: "bit x2 n \<longleftrightarrow> n mod (4 * 4) < 2 * 4 \<and> bit x (n div (4 * 4) * (2 * 4) + n mod (2 * 4))" if "n < 64" for n
    using spread_stage [of 8 x1 "bit x" _ n, OF _ 1 _ that] spread_masks(2) unfolding x2_def by simp
  have 3: "bit x3 n \<longleftrightarrow> n mod (4 * 2) < 2 * 2 \<and> bit x (n div (4 * 2) * (2 * 2) + n mod (2 * 2))" if "n < 64" for n
    using spread_stage [of 4 x2 "bit x" _ n, OF _ 2 _ that] spread_masks(3) unfolding x3_def by simp
  have 4: "bit x4 n \<longleftrightarrow> n mod (4 * 1) < 2 * 1 \<and> bit x (n div (4 * 1) * (2 * 1) + n mod (2 * 1))" if "n < 64" for n
    using spread_stage [of 2 x3 "bit x" _ n, OF _ 3 _ that] spread_masks(4) unfolding x4_def by simp
  have "bit x5 n \<longleftrightarrow> even n \<and> bit x (n div 2)"
    using spread_stage [of 1 x4 "bit x" _ n, OF _ 4 _ assms] spread_masks(5) unfolding x5_def by (simp add: even_iff_mod_2_eq_zero)
  then show ?thesis by (simp only: spread32to64_def Let_def x1_def x2_def x3_def x4_def x5_def)
qed

lemma clmul_self_bit: "bit (clmul a a) n \<longleftrightarrow> even n \<and> bit a (n div 2)"
proof (induction a arbitrary: n rule: less_induct)
  case (less a)
  show ?case
  proof (cases "a = 0")
    case False
    let ?h = "a div 2"
    have a: "a = of_bool (odd a) XOR 2 * ?h" by (subst nat_split_low) (simp only: of_bool_def)
    have "clmul (of_bool b XOR y) (of_bool b XOR y) = of_bool b XOR clmul y y" for b y
      by (cases b) (simp_all add: clmul_xor_left clmul_xor_right xor.assoc)
    then have "clmul a a = of_bool (odd a) XOR clmul (2 * ?h) (2 * ?h)" using arg_cong2 [where f = clmul, OF a a] by simp
    also have "\<dots> = of_bool (odd a) XOR push_bit 2 (clmul ?h ?h)" by (simp add: clmul_double_left clmul_double_right push_bit_eq_mult mult.commute)
    finally have e: "clmul a a = of_bool (odd a) XOR push_bit 2 (clmul ?h ?h)" .
    show ?thesis
    proof (cases "n < 2")
      case True
      then show ?thesis unfolding e by (auto simp: less_2_cases_iff bit_xor_iff bit_push_bit_iff bit_0 bit_1_iff)
    next
      case False
      then obtain k where k: "n = k + 2" by (metis add.commute le_Suc_ex not_less)
      have "bit a (n div 2) \<longleftrightarrow> bit ?h (k div 2)" by (simp add: k bit_Suc)
      moreover have "\<not> bit (of_bool (odd a) :: nat) n" using False bit_1_iff [of n, where 'a = nat] by simp
      ultimately show ?thesis unfolding e using less [of ?h k] \<open>a \<noteq> 0\<close> by (simp add: k bit_xor_iff bit_push_bit_iff)
    qed
  qed simp
qed

lemma square_wide_value: "length (square_wide a) = 2 * length a" "lv (square_wide a) = clmul (lv a) (lv a)"
proof -
  show len: "length (square_wide a) = 2 * length a" by (induction a) (simp_all add: square_wide_def Let_def)
  have nth: "square_wide a ! i = spread32to64 (ucast (drop_bit (32 * (i mod 2)) (a ! (i div 2))))" if "i < 2 * length a" for i a
    using that
  proof (induction a arbitrary: i)
    case (Cons w a)
    have sq: "square_wide (w # a) = spread32to64 (ucast w) # spread32to64 (ucast (drop_bit 32 w)) # square_wide a"
      by (simp add: square_wide_def)
    show ?case
    proof (cases "i < 2")
      case False
      then obtain k where k: "i = Suc (Suc k)" by (metis less_2_cases_iff not_less_eq less_Suc_eq_0_disj numeral_2_eq_2 old.nat.exhaust)
      then show ?thesis using Cons sq by simp
    qed (auto simp: sq less_2_cases_iff)
  qed simp
  show "lv (square_wide a) = clmul (lv a) (lv a)"
  proof (rule bit_eqI)
    fix n :: nat
    define q where "q = n div 64"
    define r where "r = n mod 64"
    have n: "n = 64 * q + r" "r < 64" by (simp_all add: q_def r_def)
    have even: "even r \<longleftrightarrow> even n" "r div 2 < 32" using n by simp_all
    have half: "n div 2 = 32 * q + r div 2" unfolding n(1) by simp
    have d: "n div 2 div 64 = q div 2" by (simp add: q_def flip: div_mult2_eq)
    have m: "n div 2 mod 64 = 32 * (q mod 2) + r div 2"
    proof (cases "even q")
      case True
      then show ?thesis unfolding half using n(2) by (auto elim!: evenE)
    next
      case False
      then obtain k where k: "q = 2 * k + 1" by (rule oddE)
      have "32 * q + r div 2 = (32 + r div 2) + 64 * k" "q mod 2 = 1" using k by simp_all
      then show ?thesis unfolding half using n(2) by (simp only: mod_mult_self2) simp
    qed
    have "bit (lv (square_wide a)) n \<longleftrightarrow> n div 64 < 2 * length a \<and> even n \<and> bit (a ! (n div 64 div 2)) (32 * (n div 64 mod 2) + n mod 64 div 2)"
      using nth [of "n div 64" a] n(2) even unfolding q_def r_def
      by (auto simp: bit_lv len spread_bit bit_ucast_iff bit_drop_bit_eq)
    also have "\<dots> \<longleftrightarrow> bit (clmul (lv a) (lv a)) n"
      unfolding clmul_self_bit bit_lv d m q_def r_def by auto
    finally show "bit (lv (square_wide a)) n \<longleftrightarrow> bit (clmul (lv a) (lv a)) n" .
  qed
qed

section \<open>The reductions\<close>

abbreviation fe_poly :: "dstu4145_curve \<Rightarrow> nat" where
  "fe_poly c \<equiv> modulus (fe_m c) (fe_terms c)"

lemma fe_terms_ok: "\<forall>t\<in>set (fe_terms c). t < fe_m c" "\<forall>t\<in>set (fe_terms c). 2 * t \<le> fe_m c"
  by (cases c; simp)+

text \<open>A multiple \<open>z x^(k + m)\<close> may be replaced by the other terms of the modulus.\<close>

lemma pcong_fold:
  "pcong (modulus m ts) (r XOR xors (map (\<lambda>t. push_bit (k + t) z) ts)) (r XOR push_bit (k + m) z)"
proof -
  have "clmul (push_bit k z) (2 ^ t) = push_bit (k + t) z" for t
    using clmul_push_right [of "push_bit k z" t 1] by (simp add: push_bit_eq_mult push_bit_push_bit power_add ac_simps)
  then have "clmul (push_bit k z) (xors (map ((^) 2) us)) = xors (map (\<lambda>t. push_bit (k + t) z) us)"
    "clmul (push_bit k z) (2 ^ m) = push_bit (k + m) z" for us
    by (induction us) (simp_all add: clmul_xor_right)
  then have "xors (map (\<lambda>t. push_bit (k + t) z) ts) XOR push_bit (k + m) z = clmul (push_bit k z) (modulus m ts)"
    by (simp add: modulus_def clmul_xor_right xor.commute)
  then have "pcong (modulus m ts) (xors (map (\<lambda>t. push_bit (k + t) z) ts)) (push_bit (k + m) z)" by (auto simp: pcong_def)
  then show ?thesis using pcong_xor [OF pcong_refl] by blast
qed

lemma reduce163_word_value:
  assumes "length c = 6" "3 \<le> j" "j < 6"
  shows "length (reduce163_word j c) = 6" "pcong (fe_poly M163) (lv (reduce163_word j c)) (lv c)"
    "reduce163_word j c ! j = 0" "\<And>i. j < i \<Longrightarrow> reduce163_word j c ! i = c ! i"
proof -
  define z where "z = c ! j"
  define k where "k = 64 * (j - 3)"
  define w1 where "w1 = drop_bit 28 z XOR drop_bit 29 z XOR drop_bit 32 z XOR drop_bit 35 z"
  define w2 where "w2 = push_bit 36 z XOR push_bit 35 z XOR push_bit 32 z XOR push_bit 29 z"
  define c1 where "c1 = c[j := c ! j XOR z]"
  define c2 where "c2 = c1[j - 2 := c1 ! (j - 2) XOR w1]"
  have r: "reduce163_word j c = c2[j - 3 := c2 ! (j - 3) XOR w2]"
    by (simp add: reduce163_word_def Let_def c2_def c1_def w1_def w2_def z_def)
  show "length (reduce163_word j c) = 6" using assms by (simp add: r c2_def c1_def)
  show "reduce163_word j c ! j = 0" using assms by (simp add: r c2_def c1_def z_def)
  show "reduce163_word j c ! i = c ! i" if "j < i" for i using that by (simp add: r c2_def c1_def)
  have l: "length c1 = 6" "length c2 = 6" using assms(1) by (simp_all add: c1_def c2_def)
  have "lv (reduce163_word j c) = lv c2 XOR push_bit k (unat w2)" using assms l by (simp add: r lv_update_xor k_def)
  also have "lv c2 = lv c1 XOR push_bit (64 * (j - 2)) (unat w1)" using assms l unfolding c2_def by (subst lv_update_xor) simp_all
  also have "lv c1 = lv c XOR push_bit (64 * j) (unat z)" using assms unfolding c1_def by (subst lv_update_xor) simp_all
  finally have v: "lv (reduce163_word j c) = lv c XOR push_bit (64 * j) (unat z) XOR push_bit (64 * (j - 2)) (unat w1) XOR push_bit k (unat w2)"
    by (simp only: xor.assoc)
  have j: "64 * j = (k + 29) + 163" "64 * (j - 2) = k + 64" using assms by (simp_all add: k_def)
  have sp: "push_bit (k + s) (unat z) = push_bit k (unat (push_bit s z)) XOR push_bit (k + 64) (unat (drop_bit (64 - s) z))"
    if "0 < s" "s < 64" for s
    using split_shift [OF that, of z] by (simp add: push_bit_xor push_bit_push_bit add.commute flip: push_bit_push_bit)
  have "push_bit (k + 64) (unat w1) XOR push_bit k (unat w2) = xors (map (\<lambda>t. push_bit (k + 29 + t) (unat z)) (fe_terms M163))"
    using sp [of 29] sp [of 32] sp [of 35] sp [of 36] unfolding w1_def w2_def
    by (simp add: unsigned_xor_eq push_bit_xor ac_simps)
  then have "lv (reduce163_word j c) = (lv c XOR push_bit (64 * j) (unat z)) XOR xors (map (\<lambda>t. push_bit (k + 29 + t) (unat z)) (fe_terms M163))"
    unfolding v j(2) by (simp only: xor.assoc)
  moreover have "(lv c XOR push_bit (64 * j) (unat z)) XOR push_bit (k + 29 + 163) (unat z) = lv c"
    unfolding j(1) by (simp add: xor.assoc)
  ultimately show "pcong (fe_poly M163) (lv (reduce163_word j c)) (lv c)"
    using pcong_fold [of 163 "fe_terms M163" "lv c XOR push_bit (64 * j) (unat z)" "k + 29" "unat z"] by simp
qed

lemma reduce163_cleanup_value:
  assumes "length c = 3"
  shows "length (reduce163_cleanup c) = 3" "pcong (fe_poly M163) (lv (reduce163_cleanup c)) (lv c)" "lv (reduce163_cleanup c) < 2 ^ 163"
proof -
  obtain a0 a1 a2 where c: "c = [a0, a1, a2]" using assms by (auto simp: length_Suc_conv numeral_3_eq_3)
  define z where "z = drop_bit 35 a2"
  define w where "w = z XOR push_bit 3 z XOR push_bit 6 z XOR push_bit 7 z"
  have low: "drop_bit 29 (push_bit 29 a2) = take_bit 35 a2" by (rule bit_word_eqI) (auto simp: bit_simps)
  have r: "reduce163_cleanup c = [a0 XOR w, a1, take_bit 35 a2]"
    by (simp add: reduce163_cleanup_def Let_def c low w_def z_def numeral_2_eq_2)
  have z: "unat z < 2 ^ 29" using unsigned_less [of a2, where 'a = nat] by (simp add: z_def drop_bit_eq_div unat_div)
  have sh: "unat (push_bit s z) = push_bit s (unat z)" if "s \<le> 7" for s
  proof -
    have "push_bit s (unat z) < 2 ^ (29 + 7)"
      using z power_increasing [OF that, of "2 :: nat"] mult_less_le_imp_less [of "unat z" "2 ^ 29" "2 ^ s" "2 ^ 7"]
      unfolding power_add push_bit_eq_mult by simp
    then show ?thesis by (simp add: unsigned_push_bit_eq take_bit_nat_eq_self)
  qed
  have w: "unat w = xors (map (\<lambda>t. push_bit (0 + t) (unat z)) (fe_terms M163))"
    by (simp add: w_def unsigned_xor_eq sh xor.assoc)
  define r0 where "r0 = lv [a0, a1, take_bit 35 a2]"
  have a2: "a2 = take_bit 35 a2 XOR push_bit 35 z" by (rule bit_word_eqI) (auto simp: z_def bit_simps)
  have p35: "unat (push_bit 35 z) = push_bit 35 (unat z)"
  proof -
    have "push_bit 35 (unat z) < 2 ^ 64" using z by (simp add: push_bit_eq_mult)
    then show ?thesis by (simp add: unsigned_push_bit_eq take_bit_nat_eq_self)
  qed
  have "lv c = lv ([a0, a1, take_bit 35 a2][2 := [a0, a1, take_bit 35 a2] ! 2 XOR push_bit 35 z])"
    using a2 by (simp add: c numeral_2_eq_2)
  also have "\<dots> = r0 XOR push_bit (64 * 2) (unat (push_bit 35 z))" unfolding r0_def by (subst lv_update_xor) simp_all
  finally have lc: "lv c = r0 XOR push_bit (0 + 163) (unat z)" by (simp add: p35 push_bit_push_bit)
  have "lv (reduce163_cleanup c) = lv ([a0, a1, take_bit 35 a2][0 := [a0, a1, take_bit 35 a2] ! 0 XOR w])" by (simp add: r)
  also have "\<dots> = r0 XOR push_bit (64 * 0) (unat w)" unfolding r0_def by (subst lv_update_xor) simp_all
  finally have lr: "lv (reduce163_cleanup c) = r0 XOR unat w" by simp
  show "length (reduce163_cleanup c) = 3" by (simp add: r)
  show "pcong (fe_poly M163) (lv (reduce163_cleanup c)) (lv c)"
    unfolding lr lc w using pcong_fold [of 163 "fe_terms M163" r0 0 "unat z"] by simp
  have "lv (reduce163_cleanup c) = lv [a0 XOR w, a1] + 2 ^ 128 * unat (take_bit 35 a2)"
    unfolding r using lv_append [of "[a0 XOR w, a1]" "[take_bit 35 a2]"] by (simp add: lv.simps)
  moreover have "lv [a0 XOR w, a1] < 2 ^ 128" using lv_less [of "[a0 XOR w, a1]"] by simp
  moreover have "unat (take_bit 35 a2) < 2 ^ 35" using take_bit_nat_less_exp [of 35 "unat a2"] by (simp add: unsigned_take_bit_eq)
  ultimately show "lv (reduce163_cleanup c) < 2 ^ 163" by simp
qed

lemma reduce163_value:
  assumes "length c = 6"
  shows "fe_ok M163 (reduce163 c)" "pcong (fe_poly M163) (lv (reduce163 c)) (lv c)"
proof -
  let ?c1 = "reduce163_word 5 c"
  let ?c2 = "reduce163_word 4 ?c1"
  let ?c3 = "reduce163_word 3 ?c2"
  note 1 = reduce163_word_value [OF assms, of 5]
  note 2 = reduce163_word_value [of ?c1 4]
  note 3 = reduce163_word_value [of ?c2 3]
  have len: "length ?c1 = 6" "length ?c2 = 6" "length ?c3 = 6" using 1 2 3 by simp_all
  have hi: "?c3 ! 3 = 0" "?c3 ! 4 = 0" "?c3 ! 5 = 0" using 1 2 3 len by simp_all
  have cong: "pcong (fe_poly M163) (lv ?c3) (lv c)" by (rule pcong_trans [OF 3(2) pcong_trans [OF 2(2) 1(2)]]) (simp_all add: len)
  define t where "t = take 3 ?c3"
  have split: "?c3 = t @ replicate 3 0"
    unfolding t_def using len hi by (intro nth_equalityI) (auto simp: nth_append less_Suc_eq numeral_eq_Suc)
  have "lv ?c3 = lv t" unfolding split by (simp only: lv_append lv_replicate_0)
  moreover have "length t = 3" using len by (simp add: t_def)
  ultimately have lt: "lv ?c3 = lv t" "length t = 3" by simp_all
  have step: "reduce163_cleanup (x @ replicate 3 0) = reduce163_cleanup x @ replicate 3 0" if "length x = 3" for x
    using that by (simp add: reduce163_cleanup_def Let_def nth_append list_update_append)
  let ?r = "reduce163_cleanup (reduce163_cleanup t)"
  have "(reduce163_cleanup ^^ 2) ?c3 = ?r @ replicate 3 0"
    using step lt(2) reduce163_cleanup_value(1) by (simp add: split numeral_2_eq_2)
  moreover have lr: "length ?r = 3" using reduce163_cleanup_value(1) lt(2) by simp
  ultimately have "reduce163 c = ?r"
    unfolding reduce163_def Let_def by (intro nth_equalityI) (auto simp: nth_append less_Suc_eq numeral_eq_Suc nth_Cons')
  moreover have "pcong (fe_poly M163) (lv ?r) (lv t)" using reduce163_cleanup_value lt(2) pcong_trans by metis
  ultimately show "fe_ok M163 (reduce163 c)" "pcong (fe_poly M163) (lv (reduce163 c)) (lv c)"
    using lr reduce163_cleanup_value(3) [of "reduce163_cleanup t"] reduce163_cleanup_value(1) [OF lt(2)] cong lt(1) pcong_trans
    by (auto simp: fe_ok_def)
qed

lemma lv_top:
  assumes "length c = Suc k"
  shows "lv (c[k := take_bit j (c ! k)]) = take_bit (64 * k + j) (lv c)" "unat (drop_bit j (c ! k)) = drop_bit (64 * k + j) (lv c)"
proof -
  have c: "c = take k c @ [c ! k]" using assms by (simp flip: take_Suc_conv_app_nth)
  have lc: "lv c = lv (take k c) XOR push_bit (64 * k) (unat (c ! k))"
    by (subst c) (use assms in \<open>simp add: lv_append_xor lv.simps\<close>)
  have small: "lv (take k c) < 2 ^ (64 * k)" using lv_less [of "take k c"] assms by simp
  have "c[k := take_bit j (c ! k)] = take k c @ [take_bit j (c ! k)]" using assms by (simp add: upd_conv_take_nth_drop)
  then have "lv (c[k := take_bit j (c ! k)]) = lv (take k c) XOR push_bit (64 * k) (take_bit j (unat (c ! k)))"
    using assms by (simp add: lv_append_xor lv.simps unsigned_take_bit_eq)
  moreover have "take_bit (64 * k + j) (push_bit (64 * k) x) = push_bit (64 * k) (take_bit j x)" for x :: nat
    by (rule bit_eqI) (auto simp: bit_simps)
  moreover have "take_bit (64 * k + j) (lv (take k c)) = lv (take k c)"
    using small power_increasing [of "64 * k" "64 * k + j" "2 :: nat"] by (intro take_bit_nat_eq_self) linarith
  ultimately show "lv (c[k := take_bit j (c ! k)]) = take_bit (64 * k + j) (lv c)" by (simp add: lc take_bit_xor)
  have "drop_bit (64 * k) (lv c) = unat (c ! k)"
  proof -
    have "drop_bit (64 * k) (lv (take k c)) = 0" using small by (simp add: drop_bit_eq_div)
    moreover have "drop_bit (64 * k) (push_bit (64 * k) x) = x" for x :: nat by (rule bit_eqI) (simp add: bit_simps)
    ultimately show ?thesis by (simp add: lc drop_bit_xor)
  qed
  moreover have "unat (drop_bit j (c ! k)) = drop_bit j (unat (c ! k))"
    by (rule bit_eqI) (auto simp: bit_simps dest: bit_imp_le_length)
  ultimately show "unat (drop_bit j (c ! k)) = drop_bit (64 * k + j) (lv c)"
    by (metis add.commute drop_bit_drop_bit)
qed

text \<open>The two folding passes of the trinomial: the parts of the first, and their sum.\<close>

lemma reduce257_high:
  assumes "length c = 10" "lv c < 2 ^ 513"
  shows "lv (map (\<lambda>i. drop_bit 1 (c ! (i + 4)) OR push_bit 63 (c ! (i + 5))) [0..<5]) = drop_bit 257 (lv c)" (is "lv ?h1 = ?H")
proof (rule bit_eqI)
  fix n :: nat
  define i where "i = n div 64"
  define j where "j = n mod 64"
  have n: "n = 64 * i + j" "j < 64" by (simp_all add: i_def j_def)
  show "bit (lv ?h1) n \<longleftrightarrow> bit ?H n"
  proof (cases "i < 5")
    case True
    have at: "bit (lv ?h1) n \<longleftrightarrow> bit (drop_bit 1 (c ! (i + 4)) OR push_bit 63 (c ! (i + 5))) j"
      using True by (simp add: bit_lv flip: i_def j_def)
    have pos: "257 + n = (if j = 63 then 0 else Suc j) + (i + (if j = 63 then 5 else 4)) * 64" using n by simp
    have "(257 + n) div 64 = i + (if j = 63 then 5 else 4)" "(257 + n) mod 64 = (if j = 63 then 0 else Suc j)"
      unfolding pos using n(2) by (simp_all only: div_mult_self1 mod_mult_self1) simp_all
    then show ?thesis unfolding at using True n(2) assms(1)
      by (auto simp: bit_drop_bit_eq bit_lv bit_or_iff bit_push_bit_iff dest: bit_imp_le_length)
  next
    case False
    then have "513 \<le> 257 + n" using n by simp
    then have "\<not> bit ?H n" using assms(2) by (metis bit_drop_bit_eq bit_take_bit_iff comp_apply not_less take_bit_nat_eq_self)
    then show ?thesis using False by (simp add: bit_lv flip: i_def)
  qed
qed

lemma reduce257_low:
  assumes "length c = 10"
  shows "lv [c ! 0, c ! 1, c ! 2, c ! 3, c ! 4 AND 1] = take_bit 257 (lv c)"
proof -
  have and1: "w AND 1 = take_bit 1 w" for w :: u64 by (simp add: and_one_eq take_bit_eq_mod)
  have "take 5 c = [c ! 0, c ! 1, c ! 2, c ! 3, c ! 4]" using assms by (intro nth_equalityI) (auto simp: less_Suc_eq numeral_eq_Suc)
  then have "[c ! 0, c ! 1, c ! 2, c ! 3, c ! 4 AND 1] = (take 5 c)[4 := take_bit 1 (take 5 c ! 4)]"
    by (simp add: and1 numeral_eq_Suc)
  then have "lv [c ! 0, c ! 1, c ! 2, c ! 3, c ! 4 AND 1] = take_bit 257 (lv (take 5 c))" using lv_top(1) [of "take 5 c" 4 1] assms by simp
  moreover have "lv c = lv (take 5 c) XOR push_bit 320 (lv (drop 5 c))" using lv_append_xor [of "take 5 c" "drop 5 c"] assms by simp
  moreover have "take_bit 257 (push_bit 320 x) = 0" for x :: nat by (rule bit_eqI) (auto simp: bit_simps)
  ultimately show ?thesis by (simp add: take_bit_xor)
qed

lemma reduce257_shifted:
  assumes "length h = 5" "lv h < 2 ^ 256"
  shows "lv (push_bit 12 (h ! 0) # map (\<lambda>i. push_bit 12 (h ! i) OR drop_bit 52 (h ! (i - 1))) [1..<5]) = push_bit 12 (lv h)"
proof -
  have "push_bit 12 (h ! 0) # map (\<lambda>i. push_bit 12 (h ! i) OR drop_bit 52 (h ! (i - 1))) [1..<5] = shl_limbs 12 0 h"
    using assms(1) by (intro nth_equalityI) (auto simp: shl_limbs_nth nth_Cons')
  moreover have "push_bit 12 (lv h) < 2 ^ (64 * length h)" using assms by (simp add: push_bit_eq_mult)
  ultimately show ?thesis using lv_shl_exact [of 12 h] by simp
qed

lemma reduce257_second:
  assumes "length p = 5" "lv p < 2 ^ 268"
  defines "h2 \<equiv> drop_bit 1 (p ! 4)" and "q \<equiv> [p ! 0, p ! 1, p ! 2, p ! 3, p ! 4 AND 1]"
  defines "r \<equiv> q[0 := q ! 0 XOR (h2 XOR push_bit 12 h2)]"
  shows "lv r < 2 ^ 257" "pcong (fe_poly M257) (lv r) (lv p)"
proof -
  have h2: "unat h2 = drop_bit 257 (lv p)" "unat h2 < 2 ^ 11"
    using lv_top(2) [of p 4 1] assms(1,2) by (simp_all add: h2_def drop_bit_eq_div div_less_iff_less_mult)
  have "q = p[4 := take_bit 1 (p ! 4)]"
    unfolding q_def and_one_eq by (intro nth_equalityI) (auto simp: assms(1) less_Suc_eq numeral_eq_Suc and_one_eq take_bit_eq_mod)
  then have lq: "lv q = take_bit 257 (lv p)" using lv_top(1) [of p 4 1] assms(1) by simp
  have "push_bit 12 (unat h2) < 2 ^ 64" using h2(2) by (simp add: push_bit_eq_mult)
  then have "unat (push_bit 12 h2) = push_bit 12 (unat h2)" by (simp add: unsigned_push_bit_eq take_bit_nat_eq_self)
  then have lr: "lv r = take_bit 257 (lv p) XOR (unat h2 XOR push_bit 12 (unat h2))"
    unfolding r_def lq [symmetric] using lv_update_xor [of 0 q "h2 XOR push_bit 12 h2"] by (simp add: q_def unsigned_xor_eq)
  have "take_bit 257 (lv p) XOR push_bit (0 + 257) (unat h2) = lv p" unfolding h2(1) by (rule bit_eqI) (auto simp: bit_simps)
  then show "pcong (fe_poly M257) (lv r) (lv p)"
    using pcong_fold [of 257 "fe_terms M257" "take_bit 257 (lv p)" 0 "unat h2"] by (simp add: lr)
  have "unat h2 < 2 ^ 257" "push_bit 12 (unat h2) < 2 ^ 257" using h2(2) by (simp_all add: push_bit_eq_mult)
  then show "lv r < 2 ^ 257" unfolding lr by (intro xor_less_exp take_bit_nat_less_exp)
qed

lemma reduce257_value:
  assumes "length c = 10" "lv c < 2 ^ 513"
  shows "fe_ok M257 (reduce257 c)" "pcong (fe_poly M257) (lv (reduce257 c)) (lv c)"
proof -
  define h1 where "h1 = map (\<lambda>i. drop_bit 1 (c ! (i + 4)) OR push_bit 63 (c ! (i + 5))) [0..<5]"
  define lo1 where "lo1 = [c ! 0, c ! 1, c ! 2, c ! 3, c ! 4 AND 1]"
  define hs where "hs = push_bit 12 (h1 ! 0) # map (\<lambda>i. push_bit 12 (h1 ! i) OR drop_bit 52 (h1 ! (i - 1))) [1..<5]"
  define p where "p = map (\<lambda>i. lo1 ! i XOR h1 ! i XOR hs ! i) [0..<5]"
  define H where "H = drop_bit 257 (lv c)"
  have H: "H < 2 ^ 256" using assms(2) by (simp add: H_def drop_bit_eq_div div_less_iff_less_mult)
  have len: "length h1 = 5" "length lo1 = 5" "length hs = 5" "length p = 5" by (simp_all add: h1_def lo1_def hs_def p_def)
  have parts: "lv h1 = H" "lv lo1 = take_bit 257 (lv c)" "lv hs = push_bit 12 H"
    using reduce257_high [OF assms] reduce257_low [OF assms(1)] reduce257_shifted [OF len(1)] H by (simp_all add: h1_def lo1_def hs_def H_def)
  have "p = map2 (XOR) lo1 (map2 (XOR) h1 hs)" using len by (intro nth_equalityI) (simp_all add: p_def)
  then have p: "lv p = take_bit 257 (lv c) XOR (H XOR push_bit 12 H)" by (simp add: lv_map2_xor len parts)
  have "take_bit 257 (lv c) XOR push_bit (0 + 257) H = lv c" by (rule bit_eqI) (auto simp: H_def bit_simps)
  then have pc: "pcong (fe_poly M257) (lv p) (lv c)" using pcong_fold [of 257 "fe_terms M257" "take_bit 257 (lv c)" 0 H] by (simp add: p)
  have lp: "lv p < 2 ^ 268" using H unfolding p by (intro xor_less_exp) (auto simp: push_bit_eq_mult intro: less_trans [OF take_bit_nat_less_exp])
  have r: "reduce257 c = (let q = [p ! 0, p ! 1, p ! 2, p ! 3, p ! 4 AND 1] in q[0 := q ! 0 XOR (drop_bit 1 (p ! 4) XOR push_bit 12 (drop_bit 1 (p ! 4)))])"
    unfolding reduce257_def Let_def h1_def [symmetric] lo1_def [symmetric] hs_def [symmetric] p_def [symmetric] ..
  show "pcong (fe_poly M257) (lv (reduce257 c)) (lv c)" "fe_ok M257 (reduce257 c)"
    using reduce257_second [OF len(4) lp] pcong_trans [OF _ pc] by (simp_all add: r Let_def fe_ok_def)
qed

end
