(* ===== verification/Field_Embedding.thy ===== *)
theory Field_Embedding
  imports Dstu4145_Field
begin

text \<open>
  The limb arithmetic of \<open>gf2m163.rs\<close> and \<open>gf2m257.rs\<close> is the arithmetic of the fields \<^typ>\<open>gf163\<close> and
  \<^typ>\<open>gf257\<close>. The locale \<open>field_embedding\<close> holds what the curve code uses of the field elements, and is
  interpreted on both.
\<close>

section \<open>The operations on limbs\<close>

lemma fe_dimensions: "fe_m c \<le> 64 * sc_limbs c" "2 \<le> fe_m c" "\<forall>t \<in> set (fe_terms c). t < fe_m c" "fe_m c \<le> 8 * sc_bytes c"
  "0 < sc_limbs c" "sc_bytes c \<le> 8 * sc_limbs c"
  by (cases c; simp)+

lemma fe_reduce_value:
  assumes "length p = 2 * sc_limbs c" "lv p < 2 ^ (fe_m c + (fe_m c - 1))"
  shows "fe_ok c (fe_reduce c p)" "pcong (fe_poly c) (lv (fe_reduce c p)) (lv p)"
  using assms reduce163_value [of p] reduce257_value [of p] by (cases c; simp)+

lemma clmul_less_tight: "a < 2 ^ m \<Longrightarrow> b < 2 ^ Suc n \<Longrightarrow> clmul a b < 2 ^ (m + n)"
proof -
  assume a: "a < 2 ^ m" and b: "b < 2 ^ Suc n"
  have "take_bit (Suc n) b = take_bit n b XOR push_bit n (of_bool (bit b n))"
    by (rule bit_eqI) (auto simp: bit_simps less_Suc_eq)
  then have "b = take_bit n b XOR push_bit n (of_bool (bit b n))" using b by (simp only: take_bit_nat_eq_self)
  then have "clmul a b = clmul a (take_bit n b) XOR push_bit n (clmul a (of_bool (bit b n)))"
    by (metis clmul_push_right clmul_xor_right)
  moreover have "push_bit n (clmul a (of_bool (bit b n))) < 2 ^ (m + n)"
    using a by (cases "bit b n") (simp_all add: push_bit_eq_mult power_add mult.commute)
  ultimately show ?thesis using clmul_less [OF a take_bit_nat_less_exp, of n b] by (simp add: xor_less_exp)
qed

lemma fe_product_value:
  assumes "fe_ok c a" "fe_ok c b" "length p = 2 * sc_limbs c" "lv p = clmul (lv a) (lv b)"
  shows "fe_ok c (fe_reduce c p)" "lv (fe_reduce c p) = gmul (fe_m c) (fe_terms c) (lv a) (lv b)"
proof -
  have m: "fe_m c = Suc (fe_m c - 1)" by (cases c) simp_all
  have "lv b < 2 ^ Suc (fe_m c - 1)" using assms(2) m by (simp add: fe_ok_def)
  then have "lv p < 2 ^ (fe_m c + (fe_m c - 1))"
    using assms(1,4) clmul_less_tight [of "lv a" "fe_m c" "lv b" "fe_m c - 1"] by (simp add: fe_ok_def)
  note r = fe_reduce_value [OF assms(3) this]
  show "fe_ok c (fe_reduce c p)" by (rule r)
  show "lv (fe_reduce c p) = gmul (fe_m c) (fe_terms c) (lv a) (lv b)"
    using gmul_eqI [OF fe_dimensions(3), of "lv a" c "lv b" "lv (fe_reduce c p)"] r assms by (simp add: fe_ok_def)
qed

lemma fe_multiply_value:
  assumes "hw_ok hw" "fe_ok c a" "fe_ok c b"
  shows "fe_ok c (fe_multiply hw c a b)" "lv (fe_multiply hw c a b) = gmul (fe_m c) (fe_terms c) (lv a) (lv b)"
proof -
  define p where "p = (case hw of Some clm \<Rightarrow> fe_mul_wide_hw clm c a b | None \<Rightarrow> fe_mul_wide c a b)"
  have "length p = 2 * sc_limbs c" "lv p = clmul (lv a) (lv b)"
    using assms fe_mul_wide_hw_value [of _ a c b] fe_mul_wide_value [of a c b] clmul_commute [of "lv a" "lv b"]
    by (auto simp: p_def hw_ok_def fe_ok_def split: option.splits)
  note r = fe_product_value [OF assms(2,3) this]
  have "fe_multiply hw c a b = fe_reduce c p" by (simp add: fe_multiply_def p_def split: option.splits)
  with r show "fe_ok c (fe_multiply hw c a b)" "lv (fe_multiply hw c a b) = gmul (fe_m c) (fe_terms c) (lv a) (lv b)" by simp_all
qed

lemma fe_square_value:
  assumes "fe_ok c a"
  shows "fe_ok c (fe_square c a)" "lv (fe_square c a) = gmul (fe_m c) (fe_terms c) (lv a) (lv a)"
  using fe_product_value [OF assms assms, of "square_wide a"] assms square_wide_value [of a]
  by (simp_all add: fe_square_def fe_ok_def)

lemma fe_add_value:
  assumes "fe_ok c a" "fe_ok c b"
  shows "fe_ok c (fe_add a b)" "lv (fe_add a b) = lv a XOR lv b"
  using assms by (simp_all add: fe_ok_def fe_add_def lv_map2_xor xor_less_exp)

lemma fe_constants:
  shows "fe_ok c (fe_ZERO c)" "lv (fe_ZERO c) = 0" "fe_ok c (fe_ONE c)" "lv (fe_ONE c) = 1"
proof -
  show z: "fe_ok c (fe_ZERO c)" "lv (fe_ZERO c) = 0" by (simp_all add: fe_ok_def fe_ZERO_def)
  show o: "lv (fe_ONE c) = 1" by (simp add: fe_ONE_def lv.simps)
  show "fe_ok c (fe_ONE c)"
    using fe_dimensions(2) [of c] power_increasing [of 2 "fe_m c" "2 :: nat"] o by (simp add: fe_ok_def fe_ONE_def fe_dimensions(5))
qed

lemma fe_inject: "fe_ok c a \<Longrightarrow> fe_ok c b \<Longrightarrow> lv a = lv b \<longleftrightarrow> a = b"
  by (simp add: fe_ok_def lv_inject)

lemma is_canonical_iff:
  assumes "length a = sc_limbs c"
  shows "is_canonical c a \<longleftrightarrow> lv a < 2 ^ fe_m c"
proof -
  define k j where "k = sc_limbs c - 1" and "j = fe_m c - 64 * k"
  have k: "length a = Suc k" "64 * k + j = fe_m c" using assms by (cases c; simp add: k_def j_def)+
  have "is_canonical c a \<longleftrightarrow> unat (drop_bit j (a ! k)) = 0"
    by (cases c) (simp_all add: k_def j_def unat_eq_0)
  also have "\<dots> \<longleftrightarrow> lv a < 2 ^ fe_m c"
    unfolding lv_top(2) [OF k(1)] k(2) by (simp add: drop_bit_eq_div div_eq_0_iff)
  finally show ?thesis .
qed

lemma fe_bytes_eq: "fe_from_be_bytes c = limbs_from_be_bytes (sc_limbs c)" "fe_to_be_bytes c = scalar_to_be_bytes c"
  by (rule ext, simp add: fe_from_be_bytes_def limbs_from_be_bytes_def fe_to_be_bytes_def scalar_to_be_bytes_def)+

section \<open>The interface of the field\<close>

text \<open>What the curve code relies on: an injection of the limb arrays into a field of characteristic two that
  carries the operations over.\<close>

locale field_embedding =
  fixes c :: dstu4145_curve and emb :: "u64 list \<Rightarrow> 'a::field"
  assumes two: "(2 :: 'a) = 0"
    and emb_inject: "fe_ok c a \<Longrightarrow> fe_ok c b \<Longrightarrow> emb a = emb b \<longleftrightarrow> a = b"
    and emb_zero [simp]: "emb (fe_ZERO c) = 0"
    and emb_one [simp]: "emb (fe_ONE c) = 1"
    and emb_add: "fe_ok c a \<Longrightarrow> fe_ok c b \<Longrightarrow> emb (fe_add a b) = emb a + emb b"
    and emb_multiply: "hw_ok hw \<Longrightarrow> fe_ok c a \<Longrightarrow> fe_ok c b \<Longrightarrow> emb (fe_multiply hw c a b) = emb a * emb b"
    and emb_square: "fe_ok c a \<Longrightarrow> emb (fe_square c a) = emb a * emb a"
    and inverse_power: "inverse (x :: 'a) = x ^ (2 ^ fe_m c - 2)"
begin

lemma emb_sq_n: "fe_ok c a \<Longrightarrow> fe_ok c (sq_n c a n) \<and> emb (sq_n c a n) = emb a ^ (2 ^ n)"
proof (induction n)
  case (Suc n)
  then show ?case using fe_square_value(1) by (simp add: sq_n_def emb_square power_mult_distrib flip: power_add) (simp add: mult_2)
qed (simp add: sq_n_def)

text \<open>One link of the addition chains: from the powers \<open>2^i - 1\<close> and \<open>2^j - 1\<close> to \<open>2^(i + j) - 1\<close>.\<close>

lemma chain_link:
  assumes "hw_ok hw" "fe_ok c u \<and> emb u = x ^ (2 ^ i - 1)" "fe_ok c v \<and> emb v = x ^ (2 ^ j - 1)" "k = i + j"
  shows "fe_ok c (fe_multiply hw c (sq_n c u j) v) \<and> emb (fe_multiply hw c (sq_n c u j) v) = x ^ (2 ^ k - 1)"
proof -
  have "(2 ^ i - 1) * 2 ^ j + (2 ^ j - 1) = (2 ^ k - 1 :: nat)"
  proof -
    have "(1 :: nat) \<le> 2 ^ i" "(1 :: nat) \<le> 2 ^ j" by simp_all
    then obtain p q :: nat where "2 ^ i = p + 1" "2 ^ j = q + 1" by (metis le_Suc_ex add.commute)
    then show ?thesis by (simp add: assms(4) power_add)
  qed
  moreover note emb_sq_n [of u j] fe_multiply_value(1) [OF assms(1), of c "sq_n c u j" v]
  ultimately show ?thesis using assms by (simp add: emb_multiply flip: power_mult power_add)
qed

lemma chain_end:
  assumes "fe_ok c u \<and> emb u = x ^ (2 ^ (fe_m c - 1) - 1)"
  shows "fe_ok c (fe_square c u)" "emb (fe_square c u) = inverse x"
proof -
  have m: "fe_m c = Suc (fe_m c - 1)" by (cases c) simp_all
  have "(2 ^ (fe_m c - 1) - 1) + (2 ^ (fe_m c - 1) - 1) = (2 ^ fe_m c - 2 :: nat)" by (subst (3) m) simp
  then show "fe_ok c (fe_square c u)" "emb (fe_square c u) = inverse x"
    using assms fe_square_value(1) by (simp_all add: emb_square inverse_power flip: power_add)
qed

text \<open>\<open>invert163\<close> and \<open>invert257\<close> raise to the power \<open>2^m - 2\<close>.\<close>

lemma emb_invert163:
  assumes "c = M163" "hw_ok hw" "fe_ok c a"
  shows "fe_ok c (fe_invert hw c a)" "emb (fe_invert hw c a) = inverse (emb a)"
proof -
  note link = chain_link [OF assms(2), of _ "emb a"]
  define t1 where "t1 = a"
  define t2 where "t2 = fe_multiply hw c (sq_n c t1 1) t1"
  define t3 where "t3 = fe_multiply hw c (sq_n c t2 1) t1"
  define t6 where "t6 = fe_multiply hw c (sq_n c t3 3) t3"
  define t12 where "t12 = fe_multiply hw c (sq_n c t6 6) t6"
  define t24 where "t24 = fe_multiply hw c (sq_n c t12 12) t12"
  define t27 where "t27 = fe_multiply hw c (sq_n c t24 3) t3"
  define t54 where "t54 = fe_multiply hw c (sq_n c t27 27) t27"
  define t81 where "t81 = fe_multiply hw c (sq_n c t54 27) t27"
  define t162 where "t162 = fe_multiply hw c (sq_n c t81 81) t81"
  have 1: "fe_ok c t1 \<and> emb t1 = emb a ^ (2 ^ 1 - 1)" using assms(3) by (simp add: t1_def)
  have 2: "fe_ok c t2 \<and> emb t2 = emb a ^ (2 ^ 2 - 1)" unfolding t2_def by (rule link [OF 1 1]) simp
  have 3: "fe_ok c t3 \<and> emb t3 = emb a ^ (2 ^ 3 - 1)" unfolding t3_def by (rule link [OF 2 1]) simp
  have 6: "fe_ok c t6 \<and> emb t6 = emb a ^ (2 ^ 6 - 1)" unfolding t6_def by (rule link [OF 3 3]) simp
  have 12: "fe_ok c t12 \<and> emb t12 = emb a ^ (2 ^ 12 - 1)" unfolding t12_def by (rule link [OF 6 6]) simp
  have 24: "fe_ok c t24 \<and> emb t24 = emb a ^ (2 ^ 24 - 1)" unfolding t24_def by (rule link [OF 12 12]) simp
  have 27: "fe_ok c t27 \<and> emb t27 = emb a ^ (2 ^ 27 - 1)" unfolding t27_def by (rule link [OF 24 3]) simp
  have 54: "fe_ok c t54 \<and> emb t54 = emb a ^ (2 ^ 54 - 1)" unfolding t54_def by (rule link [OF 27 27]) simp
  have 81: "fe_ok c t81 \<and> emb t81 = emb a ^ (2 ^ 81 - 1)" unfolding t81_def by (rule link [OF 54 27]) simp
  have "fe_ok c t162 \<and> emb t162 = emb a ^ (2 ^ (fe_m c - 1) - 1)" unfolding t162_def by (rule link [OF 81 81]) (simp add: assms(1))
  moreover have "fe_invert hw c a = fe_square c t162"
    by (simp add: assms(1) invert163_def Let_def t162_def t81_def t54_def t27_def t24_def t12_def t6_def t3_def t2_def t1_def sq_n_def)
  ultimately show "fe_ok c (fe_invert hw c a)" "emb (fe_invert hw c a) = inverse (emb a)" using chain_end [of t162] by simp_all
qed

lemma emb_invert257:
  assumes "c = M257" "hw_ok hw" "fe_ok c a"
  shows "fe_ok c (fe_invert hw c a)" "emb (fe_invert hw c a) = inverse (emb a)"
proof -
  note link = chain_link [OF assms(2), of _ "emb a"]
  define t1 where "t1 = a"
  define t2 where "t2 = fe_multiply hw c (sq_n c t1 1) t1"
  define t4 where "t4 = fe_multiply hw c (sq_n c t2 2) t2"
  define t8 where "t8 = fe_multiply hw c (sq_n c t4 4) t4"
  define t16 where "t16 = fe_multiply hw c (sq_n c t8 8) t8"
  define t32 where "t32 = fe_multiply hw c (sq_n c t16 16) t16"
  define t64 where "t64 = fe_multiply hw c (sq_n c t32 32) t32"
  define t128 where "t128 = fe_multiply hw c (sq_n c t64 64) t64"
  define t256 where "t256 = fe_multiply hw c (sq_n c t128 128) t128"
  have 1: "fe_ok c t1 \<and> emb t1 = emb a ^ (2 ^ 1 - 1)" using assms(3) by (simp add: t1_def)
  have 2: "fe_ok c t2 \<and> emb t2 = emb a ^ (2 ^ 2 - 1)" unfolding t2_def by (rule link [OF 1 1]) simp
  have 4: "fe_ok c t4 \<and> emb t4 = emb a ^ (2 ^ 4 - 1)" unfolding t4_def by (rule link [OF 2 2]) simp
  have 8: "fe_ok c t8 \<and> emb t8 = emb a ^ (2 ^ 8 - 1)" unfolding t8_def by (rule link [OF 4 4]) simp
  have 16: "fe_ok c t16 \<and> emb t16 = emb a ^ (2 ^ 16 - 1)" unfolding t16_def by (rule link [OF 8 8]) simp
  have 32: "fe_ok c t32 \<and> emb t32 = emb a ^ (2 ^ 32 - 1)" unfolding t32_def by (rule link [OF 16 16]) simp
  have 64: "fe_ok c t64 \<and> emb t64 = emb a ^ (2 ^ 64 - 1)" unfolding t64_def by (rule link [OF 32 32]) simp
  have 128: "fe_ok c t128 \<and> emb t128 = emb a ^ (2 ^ 128 - 1)" unfolding t128_def by (rule link [OF 64 64]) simp
  have "fe_ok c t256 \<and> emb t256 = emb a ^ (2 ^ (fe_m c - 1) - 1)" unfolding t256_def by (rule link [OF 128 128]) (simp add: assms(1))
  moreover have "fe_invert hw c a = fe_square c t256"
    by (simp add: assms(1) invert257_def Let_def t256_def t128_def t64_def t32_def t16_def t8_def t4_def t2_def t1_def)
  ultimately show "fe_ok c (fe_invert hw c a)" "emb (fe_invert hw c a) = inverse (emb a)" using chain_end [of t256] by simp_all
qed

lemma emb_invert:
  assumes "hw_ok hw" "fe_ok c a"
  shows "fe_ok c (fe_invert hw c a)" "emb (fe_invert hw c a) = inverse (emb a)"
  using assms emb_invert163 emb_invert257 by (metis dstu4145_curve.exhaust)+

lemma arithmetic:
  assumes "hw_ok hw" "fe_ok c a" "fe_ok c b" "fe_ok c d"
  shows "fe_ok c (fe_add a b)" "fe_ok c (fe_multiply hw c a b)" "fe_ok c (fe_square c a)" "fe_ok c (fe_invert hw c a)"
    "fe_multiply hw c a b = fe_multiply hw c b a"
    "fe_multiply hw c (fe_multiply hw c a b) d = fe_multiply hw c a (fe_multiply hw c b d)"
    "fe_multiply hw c a (fe_add b d) = fe_add (fe_multiply hw c a b) (fe_multiply hw c a d)"
    "fe_square c a = fe_multiply hw c a a" "fe_multiply hw c (fe_ONE c) a = a"
    "fe_multiply hw c a (fe_invert hw c a) = (if a = fe_ZERO c then fe_ZERO c else fe_ONE c)"
proof -
  note ok = fe_add_value(1) fe_multiply_value(1) [OF assms(1)] fe_square_value(1) emb_invert(1) [OF assms(1)] fe_constants(1,3) assms(2-)
  note emb = emb_add emb_multiply [OF assms(1)] emb_square emb_invert(2) [OF assms(1)]
  show "fe_ok c (fe_add a b)" "fe_ok c (fe_multiply hw c a b)" "fe_ok c (fe_square c a)" "fe_ok c (fe_invert hw c a)"
    by (simp_all add: ok)
  have eqI: "x = y" if "fe_ok c x" "fe_ok c y" "emb x = emb y" for x y using that by (simp add: emb_inject)
  show "fe_multiply hw c a b = fe_multiply hw c b a" by (rule eqI) (simp_all add: ok emb)
  show "fe_multiply hw c (fe_multiply hw c a b) d = fe_multiply hw c a (fe_multiply hw c b d)" by (rule eqI) (simp_all add: ok emb)
  show "fe_multiply hw c a (fe_add b d) = fe_add (fe_multiply hw c a b) (fe_multiply hw c a d)"
    by (rule eqI) (simp_all add: ok emb distrib_left)
  show "fe_square c a = fe_multiply hw c a a" "fe_multiply hw c (fe_ONE c) a = a" by (rule eqI; simp add: ok emb)+
  have "a = fe_ZERO c \<longleftrightarrow> emb a = 0" using emb_inject [of a "fe_ZERO c"] by (simp add: ok)
  then show "fe_multiply hw c a (fe_invert hw c a) = (if a = fe_ZERO c then fe_ZERO c else fe_ONE c)"
    by (intro eqI) (auto simp: ok emb)
qed

end

section \<open>The two fields\<close>

definition emb163 :: "u64 list \<Rightarrow> gf163" where
  "emb163 a = Abs_gf163 (lv a)"

definition emb257 :: "u64 list \<Rightarrow> gf257" where
  "emb257 a = Abs_gf257 (lv a)"

lemma Rep_emb163: "fe_ok M163 a \<Longrightarrow> Rep_gf163 (emb163 a) = lv a"
  by (simp add: emb163_def fe_ok_def Abs_gf163_inverse)

lemma Rep_emb257: "fe_ok M257 a \<Longrightarrow> Rep_gf257 (emb257 a) = lv a"
  by (simp add: emb257_def fe_ok_def Abs_gf257_inverse)

interpretation fe163: field_embedding M163 emb163
proof
  fix a b :: "u64 list" and hw :: "(u64 \<Rightarrow> u64 \<Rightarrow> u64 \<times> u64) option" and x :: gf163
  show "(2 :: gf163) = 0" by (rule gf163_two)
  show "emb163 (fe_ZERO M163) = 0" "emb163 (fe_ONE M163) = 1"
    by (simp_all add: emb163_def fe_constants zero_gf163_def one_gf163_def)
  show "inverse x = x ^ (2 ^ fe_m M163 - 2)" by (simp only: inverse_gf163_def fe_m.simps)
  assume a: "fe_ok M163 a"
  note sq = fe_square_value [OF a]
  show "emb163 (fe_square M163 a) = emb163 a * emb163 a"
    using sq(2) by (intro Rep_gf163_inject [THEN iffD1]) (simp add: times_gf163.rep_eq Rep_emb163 sq(1) a)
  assume b: "fe_ok M163 b"
  show "emb163 a = emb163 b \<longleftrightarrow> a = b" by (metis Rep_emb163 a b fe_inject)
  show "emb163 (fe_add a b) = emb163 a + emb163 b"
    using fe_add_value [OF a b] by (intro Rep_gf163_inject [THEN iffD1]) (simp add: plus_gf163.rep_eq Rep_emb163 a b)
  assume "hw_ok hw"
  note mul = fe_multiply_value [OF this a b]
  show "emb163 (fe_multiply hw M163 a b) = emb163 a * emb163 b"
    using mul(2) by (intro Rep_gf163_inject [THEN iffD1]) (simp add: times_gf163.rep_eq Rep_emb163 mul(1) a b)
qed

interpretation fe257: field_embedding M257 emb257
proof
  fix a b :: "u64 list" and hw :: "(u64 \<Rightarrow> u64 \<Rightarrow> u64 \<times> u64) option" and x :: gf257
  show "(2 :: gf257) = 0" by (rule gf257_two)
  show "emb257 (fe_ZERO M257) = 0" "emb257 (fe_ONE M257) = 1"
    by (simp_all add: emb257_def fe_constants zero_gf257_def one_gf257_def)
  show "inverse x = x ^ (2 ^ fe_m M257 - 2)" by (simp only: inverse_gf257_def fe_m.simps)
  assume a: "fe_ok M257 a"
  note sq = fe_square_value [OF a]
  show "emb257 (fe_square M257 a) = emb257 a * emb257 a"
    using sq(2) by (intro Rep_gf257_inject [THEN iffD1]) (simp add: times_gf257.rep_eq Rep_emb257 sq(1) a)
  assume b: "fe_ok M257 b"
  show "emb257 a = emb257 b \<longleftrightarrow> a = b" by (metis Rep_emb257 a b fe_inject)
  show "emb257 (fe_add a b) = emb257 a + emb257 b"
    using fe_add_value [OF a b] by (intro Rep_gf257_inject [THEN iffD1]) (simp add: plus_gf257.rep_eq Rep_emb257 a b)
  assume "hw_ok hw"
  note mul = fe_multiply_value [OF this a b]
  show "emb257 (fe_multiply hw M257 a b) = emb257 a * emb257 b"
    using mul(2) by (intro Rep_gf257_inject [THEN iffD1]) (simp add: times_gf257.rep_eq Rep_emb257 mul(1) a b)
qed

section \<open>Properties\<close>

text \<open>C27. The limb routines of both curves compute in a field: for canonical elements and either multiply
  routine, every operation returns a canonical element, \<open>multiply\<close> is commutative, associative and
  distributes over \<open>add\<close>, \<open>square\<close> is the product with itself, and \<open>invert\<close> is the inverse of every
  element but zero, which it maps to zero.\<close>

theorem field_arithmetic:
  assumes "hw_ok hw" "fe_ok c a" "fe_ok c b" "fe_ok c d"
  shows "fe_ok c (fe_add a b) \<and> fe_ok c (fe_multiply hw c a b) \<and> fe_ok c (fe_square c a) \<and> fe_ok c (fe_invert hw c a) \<and>
    fe_multiply hw c a b = fe_multiply hw c b a \<and>
    fe_multiply hw c (fe_multiply hw c a b) d = fe_multiply hw c a (fe_multiply hw c b d) \<and>
    fe_multiply hw c a (fe_add b d) = fe_add (fe_multiply hw c a b) (fe_multiply hw c a d) \<and>
    fe_square c a = fe_multiply hw c a a \<and> fe_multiply hw c (fe_ONE c) a = a \<and>
    fe_multiply hw c a (fe_invert hw c a) = (if a = fe_ZERO c then fe_ZERO c else fe_ONE c)"
  using fe163.arithmetic [of hw a b d] fe257.arithmetic [of hw a b d] assms by (cases c) simp_all

text \<open>The instruction as the manuals document it, for concrete runs.\<close>

definition clmul_instance :: "u64 \<Rightarrow> u64 \<Rightarrow> u64 \<times> u64" where
  "clmul_instance x y = (word_of_nat (clmul (unat x) (unat y)), word_of_nat (clmul (unat x) (unat y) div 2 ^ 64))"

lemma hw_ok_instance: "hw_ok (Some clmul_instance)"
  using carryless_instance by (simp add: hw_ok_def clmul_instance_def [abs_def])

lemma hw_ok_portable: "hw_ok None"
  by (simp add: hw_ok_def)

theorem field_arithmetic_witness:
  "fe_multiply (Some clmul_instance) M163 [3, 0, 0] (fe_invert (Some clmul_instance) M163 [3, 0, 0]) = fe_ONE M163 \<and>
   fe_multiply None M257 [3, 1, 0, 0, 1] (fe_invert None M257 [3, 1, 0, 0, 1]) = fe_ONE M257"
proof -
  have "fe_ok M163 [3, 0, 0]" "fe_ok M257 [3, 1, 0, 0, 1]" by (simp_all add: fe_ok_def lv.simps)
  moreover have "lv [3, 0, 0] \<noteq> lv (fe_ZERO M163)" "lv [3, 1, 0, 0, 1] \<noteq> lv (fe_ZERO M257)" by (simp_all add: fe_constants lv.simps)
  moreover from this have "[3, 0, 0] \<noteq> fe_ZERO M163" "[3, 1, 0, 0, 1] \<noteq> fe_ZERO M257" by metis+
  ultimately show ?thesis
    using field_arithmetic [OF hw_ok_instance, of M163 "[3, 0, 0]" "[3, 0, 0]" "[3, 0, 0]"]
      field_arithmetic [OF hw_ok_portable, of M257 "[3, 1, 0, 0, 1]" "[3, 1, 0, 0, 1]" "[3, 1, 0, 0, 1]"]
    by (simp del: fe_invert.simps)
qed

end
