(* ===== verification/Binary_Curve.thy ===== *)
theory Binary_Curve
  imports Main
begin

text \<open>
  The reference group of the DSTU 4145 signatures: the points of \<open>y^2 + xy = x^3 + ax^2 + b\<close> over a
  field of characteristic two, with the chord-and-tangent addition. The group laws are proved for every
  such field and every nonzero \<open>b\<close>; the curve arithmetic of \<open>crates/dstu-core/src/hazmat/dstu4145/\<close> is
  shown to compute in this group.
\<close>

section \<open>Points and addition\<close>

datatype 'a pt = Inf | Pt 'a 'a

fun on_curve :: "'a::field \<Rightarrow> 'a \<Rightarrow> 'a pt \<Rightarrow> bool" where
  "on_curve a b Inf = True"
| "on_curve a b (Pt x y) = (y * y + x * y = x * x * x + a * (x * x) + b)"

fun pt_neg :: "'a::field pt \<Rightarrow> 'a pt" where
  "pt_neg Inf = Inf"
| "pt_neg (Pt x y) = Pt x (x + y)"

text \<open>The third point, reflected, of the line with slope \<open>u\<close> through two points of the curve.\<close>

definition third :: "'a::field \<Rightarrow> 'a \<Rightarrow> 'a \<Rightarrow> 'a \<Rightarrow> 'a \<Rightarrow> 'a pt" where
  "third a u x1 y1 x2 = (let x = u * u + u + a + x1 + x2 in Pt x (u * (x1 + x) + x + y1))"

fun pt_add :: "'a::field \<Rightarrow> 'a pt \<Rightarrow> 'a pt \<Rightarrow> 'a pt" where
  "pt_add a Inf q = q"
| "pt_add a p Inf = p"
| "pt_add a (Pt x1 y1) (Pt x2 y2) =
     (if x1 = x2 then
        if y1 = y2 \<and> x1 \<noteq> 0 then third a (x1 + y1 / x1) x1 y1 x2 else Inf
      else third a ((y1 + y2) / (x1 + x2)) x1 y1 x2)"

text \<open>Multiples by repeated addition.\<close>

primrec pt_mult :: "'a::field \<Rightarrow> nat \<Rightarrow> 'a pt \<Rightarrow> 'a pt" where
  "pt_mult a 0 p = Inf"
| "pt_mult a (Suc n) p = pt_add a (pt_mult a n p) p"

text \<open>A slope fits two points when both lie on its line and the line's coefficient of \<open>x\<close> in the
  cubic has the value that the three intersections give it: for equal points it is the tangent.\<close>

definition fits :: "'a::field \<Rightarrow> 'a \<Rightarrow> 'a \<Rightarrow> 'a \<Rightarrow> 'a \<Rightarrow> 'a \<Rightarrow> bool" where
  "fits a u x1 y1 x2 y2 \<longleftrightarrow> y1 + y2 = u * (x1 + x2) \<and>
     x1 * x2 + (u * u + u + a + x1 + x2) * (x1 + x2) = y1 + u * x1"

text \<open>The coordinates the implementation computes with: \<open>X/Z\<close> alone, and \<open>(X/Z, Y/Z^2)\<close>.\<close>

fun xz :: "'a::field \<Rightarrow> 'a \<Rightarrow> 'a pt \<Rightarrow> bool" where
  "xz X Z Inf \<longleftrightarrow> Z = 0 \<and> X \<noteq> 0"
| "xz X Z (Pt x y) \<longleftrightarrow> Z \<noteq> 0 \<and> X = x * Z"

fun ld :: "'a::field \<Rightarrow> 'a \<Rightarrow> 'a \<Rightarrow> 'a pt \<Rightarrow> bool" where
  "ld X Y Z Inf \<longleftrightarrow> Z = 0"
| "ld X Y Z (Pt x y) \<longleftrightarrow> Z \<noteq> 0 \<and> X = x * Z \<and> Y = y * (Z * Z)"

section \<open>The group laws\<close>

locale binary_curve =
  fixes a b :: "'a::field"
  assumes two [simp]: "(2 :: 'a) = 0" and b_nonzero: "b \<noteq> 0"
begin

lemma add_self [simp]: "x + x = (0 :: 'a)"
proof -
  have "x + x = 2 * x" by simp
  then show ?thesis by (simp only: two mult_zero_left)
qed

lemma add_self_left [simp]: "x + (x + y) = (y :: 'a)"
  by (simp add: add.assoc [symmetric])

lemma sum_zero [simp]: "x + y = 0 \<longleftrightarrow> x = (y :: 'a)"
  by (metis add_self add_self_left add.right_neutral)

lemma add_eq_iff: "x + y = z \<longleftrightarrow> x = z + (y :: 'a)"
  by (metis add_self_left add.commute)

lemma uminus_self [simp]: "- x = (x :: 'a)" "x - y = x + y"
  by (metis add_self add_eq_0_iff sum_zero) (metis add_diff_cancel add_self_left add.commute)

lemma on_curve_iff: "on_curve a b (Pt x y) \<longleftrightarrow> y * y + x * y + x * x * x + a * (x * x) + b = 0"
  using sum_zero [of "y * y + x * y" "x * x * x + a * (x * x) + b"] by (simp only: on_curve.simps add.assoc)

lemma pt_neg_neg [simp]: "pt_neg (pt_neg p) = (p :: 'a pt)"
  by (cases p) simp_all

lemma on_curve_neg [simp]: "on_curve a b (pt_neg p) \<longleftrightarrow> on_curve a b p"
  by (cases p) (simp_all add: algebra_simps)

lemma fits_chord:
  assumes "on_curve a b (Pt x1 y1)" "on_curve a b (Pt x2 y2)" "x1 \<noteq> x2"
  shows "fits a u x1 y1 x2 y2 \<longleftrightarrow> u = (y1 + y2) / (x1 + x2)"
proof -
  let ?s = "x1 + x2"
  have s: "?s \<noteq> 0" using assms(3) by simp
  have "x1 * x2 + (u * u + u + a + x1 + x2) * ?s = y1 + u * x1" if u: "y1 + y2 = u * ?s"
  proof -
    have y2: "y2 = y1 + u * ?s" using u by (metis add_self_left)
    have "?s * (x1 * x2 + (u * u + u + a + x1 + x2) * ?s + (y1 + u * x1)) =
        (y1 * y1 + x1 * y1 + x1 * x1 * x1 + a * (x1 * x1) + b) + (y2 * y2 + x2 * y2 + x2 * x2 * x2 + a * (x2 * x2) + b)"
      unfolding y2 by (simp add: algebra_simps)
    also have "\<dots> = 0" using assms(1,2) by (simp only: on_curve_iff add_0)
    finally show ?thesis using s by simp
  qed
  then show ?thesis using s unfolding fits_def by (auto simp: nonzero_eq_divide_eq)
qed

lemma fits_tangent: "x \<noteq> 0 \<Longrightarrow> fits a u x y x y \<longleftrightarrow> u = x + y / x"
proof -
  assume x: "x \<noteq> 0"
  have "u = x + y / x \<longleftrightarrow> u * x = (x + y / x) * x" using x by simp
  also have "\<dots> \<longleftrightarrow> x * x = y + u * x" using x by (simp add: distrib_right) (metis add_self_left add.commute)
  finally show ?thesis by (simp add: fits_def)
qed

lemma pt_add_third:
  assumes "on_curve a b (Pt x1 y1)" "on_curve a b (Pt x2 y2)" "x1 \<noteq> x2 \<or> y1 = y2 \<and> x1 \<noteq> 0" "fits a u x1 y1 x2 y2"
  shows "pt_add a (Pt x1 y1) (Pt x2 y2) = third a u x1 y1 x2"
  using assms fits_chord [OF assms(1,2)] fits_tangent [of x1 u y1] by (cases "x1 = x2") auto

lemma pt_add_finite:
  assumes "on_curve a b (Pt x1 y1)" "on_curve a b (Pt x2 y2)" "Pt x2 y2 \<noteq> pt_neg (Pt x1 y1)"
  shows "x1 \<noteq> x2 \<or> y1 = y2 \<and> x1 \<noteq> 0"
proof (rule ccontr)
  assume n: "\<not> ?thesis"
  then have x: "x2 = x1" and y: "y2 \<noteq> x1 + y1" "y1 \<noteq> y2 \<or> x1 = 0" using assms(3) by auto
  have "(y1 + y2) * (y2 + (x1 + y1)) =
     (y1 * y1 + x1 * y1 + x1 * x1 * x1 + a * (x1 * x1) + b) + (y2 * y2 + x2 * y2 + x2 * x2 * x2 + a * (x2 * x2) + b)"
    unfolding x by (simp add: algebra_simps)
  also have "\<dots> = 0" using assms(1,2) by (simp only: on_curve_iff add_0)
  finally have "y1 = y2" using y by (simp only: mult_eq_0_iff sum_zero) simp
  then show False using y x assms(3) by auto
qed

lemma fits_third:
  assumes "on_curve a b (Pt x1 y1)" "fits a u x1 y1 x2 y2"
  shows "on_curve a b (third a u x1 y1 x2)"
proof -
  define x where "x = u * u + u + a + x1 + x2"
  have c: "x1 * x2 + x * (x1 + x2) + (y1 + u * x1) = 0" using assms(2) unfolding fits_def x_def by (simp only: sum_zero)
  have "a = u * u + u + x + x1 + x2" unfolding x_def by (simp add: algebra_simps)
  have "on_curve a b (Pt x (u * (x1 + x) + x + y1))"
  proof -
    let ?y = "u * (x1 + x) + x + y1"
    have "?y * ?y + x * ?y + x * x * x + a * (x * x) + b =
      (y1 * y1 + x1 * y1 + x1 * x1 * x1 + a * (x1 * x1) + b) + (x1 + x) * (x1 * x2 + x * (x1 + x2) + (y1 + u * x1))"
      unfolding \<open>a = u * u + u + x + x1 + x2\<close> by (simp add: algebra_simps)
    then show ?thesis using assms(1) c by (simp only: on_curve_iff mult_zero_right add_0)
  qed
  then show ?thesis by (simp only: third_def Let_def x_def)
qed

lemma exists_fits:
  assumes "on_curve a b (Pt x1 y1)" "on_curve a b (Pt x2 y2)" "Pt x2 y2 \<noteq> pt_neg (Pt x1 y1)"
  obtains u where "fits a u x1 y1 x2 y2" "pt_add a (Pt x1 y1) (Pt x2 y2) = third a u x1 y1 x2"
proof -
  note fin = pt_add_finite [OF assms]
  have "\<exists>u. fits a u x1 y1 x2 y2" using fin fits_chord [OF assms(1,2)] fits_tangent [of x1 _ y1] by (cases "x1 = x2") auto
  then show thesis using that pt_add_third [OF assms(1,2) fin] by blast
qed

lemma pt_add_neg [simp]: "pt_add a p (pt_neg p) = Inf" "pt_add a (pt_neg p) p = Inf"
  by (cases p; simp)+

lemma pt_add_Inf [simp]: "pt_add a p Inf = p"
  by (cases p) simp_all

lemma on_curve_add [simp]: "on_curve a b p \<Longrightarrow> on_curve a b q \<Longrightarrow> on_curve a b (pt_add a p q)"
proof (cases p; cases q)
  fix x1 y1 x2 y2
  assume *: "on_curve a b p" "on_curve a b q" "p = Pt x1 y1" "q = Pt x2 y2"
  show ?thesis
  proof (cases "q = pt_neg p")
    case False
    then show ?thesis using * exists_fits [of x1 y1 x2 y2] fits_third by metis
  qed simp
qed simp_all

lemma fits_swap: "fits a u x1 y1 x2 y2 \<Longrightarrow> fits a u x2 y2 x1 y1 \<and> third a u x2 y2 x1 = third a u x1 y1 x2"
proof -
  assume f: "fits a u x1 y1 x2 y2"
  then have y: "y2 = y1 + u * (x1 + x2)" unfolding fits_def by (metis add_self_left)
  show ?thesis using f unfolding fits_def third_def Let_def y by (simp add: algebra_simps)
qed

lemma pt_add_commute: "on_curve a b p \<Longrightarrow> on_curve a b q \<Longrightarrow> pt_add a p q = pt_add a q p"
proof (cases p; cases q)
  fix x1 y1 x2 y2
  assume *: "on_curve a b p" "on_curve a b q" "p = Pt x1 y1" "q = Pt x2 y2"
  show ?thesis
  proof (cases "q = pt_neg p")
    case False
    then obtain u where u: "fits a u x1 y1 x2 y2" "pt_add a p q = third a u x1 y1 x2" using * exists_fits by metis
    have "x2 \<noteq> x1 \<or> y2 = y1 \<and> x2 \<noteq> 0" using pt_add_finite [of x1 y1 x2 y2] * False by auto
    then have "pt_add a q p = third a u x2 y2 x1" using pt_add_third [of x2 y2 x1 y1 u] * fits_swap [OF u(1)] by simp
    then show ?thesis using u fits_swap [OF u(1)] by simp
  qed simp
qed simp_all

lemma pt_add_cancel:
  assumes "on_curve a b p" "on_curve a b r"
  shows "pt_add a p (pt_add a (pt_neg p) r) = r"
proof (cases p; cases r)
  fix x1 y1 x2 y2
  assume [simp]: "p = Pt x1 y1" "r = Pt x2 y2"
  show ?thesis
  proof (cases "r = p")
    case False
    then have "Pt x2 y2 \<noteq> pt_neg (Pt x1 (x1 + y1))" by simp
    moreover have c: "on_curve a b (Pt x1 (x1 + y1))" "on_curve a b (Pt x2 y2)" using assms on_curve_neg [of p] by simp_all
    ultimately obtain u where u: "fits a u x1 (x1 + y1) x2 y2" "pt_add a (pt_neg p) r = third a u x1 (x1 + y1) x2"
      using exists_fits by (metis pt_neg.simps(2) \<open>p = Pt x1 y1\<close> \<open>r = Pt x2 y2\<close>)
    define X where "X = u * u + u + a + x1 + x2"
    define Y where "Y = u * (x1 + X) + X + (x1 + y1)"
    have third: "third a u x1 (x1 + y1) x2 = Pt X Y" by (simp add: third_def X_def Y_def)
    have S: "on_curve a b (Pt X Y)" using fits_third [OF c(1) u(1)] third by simp
    have a: "a = X + u * u + u + x1 + x2" unfolding X_def by (simp add: algebra_simps)
    have f: "x1 + y1 + y2 = u * (x1 + x2)" "x1 * x2 + X * (x1 + x2) = x1 + y1 + u * x1"
      using u(1) unfolding fits_def X_def by simp_all
    have y2: "y2 = x1 + y1 + u * (x1 + x2)" using f(1) by (metis add_self_left)
    have y1: "y1 = x1 + u * x1 + x1 * x2 + X * (x1 + x2)" using f(2) by (simp add: algebra_simps add_eq_iff)
    have "fits a (u + 1) x1 y1 X Y" unfolding fits_def Y_def a by (simp add: y1 algebra_simps)
    moreover have "x1 \<noteq> X \<or> y1 = Y \<and> x1 \<noteq> 0"
    proof (rule ccontr)
      assume "\<not> ?thesis"
      then have "x1 = X" "x1 = 0" by (auto simp: Y_def)
      then have "x1 = 0" "y1 = 0" using y1 by simp_all
      then show False using assms(1) b_nonzero by simp
    qed
    moreover have "third a (u + 1) x1 y1 X = r" by (simp add: third_def Let_def a y2 algebra_simps)
    ultimately show ?thesis using pt_add_third [OF _ S] assms(1) u(2) third by simp
  qed simp
qed simp_all

lemma fits_assoc:
  assumes u: "fits a u x1 y1 x2 y2" "third a u x1 y1 x2 = Pt X Y" and v: "fits a v x2 y2 x3 y3" "third a v x2 y2 x3 = Pt W Z"
    and nz: "x1 \<noteq> x3" "u \<noteq> v"
  shows "\<exists>l m. fits a l X Y x3 y3 \<and> fits a m x1 y1 W Z \<and> third a l X Y x3 = third a m x1 y1 W"
proof -
  define t where "t = u + v"
  define k where "k = (x1 + x3) / t"
  define q where "q = x2 + x3"
  define p where "p = X + x3"
  have t: "t \<noteq> 0" "v = u + t" using nz(2) by (simp_all add: t_def)
  have "t * k = x1 + x3" using t by (simp add: k_def)
  then have x1: "x1 = x3 + t * k" by (metis add.commute add_self_left)
  have x2: "x2 = x3 + q" and X: "X = x3 + p" by (simp_all add: q_def p_def add.commute)
  have aX: "X = u * u + u + a + x1 + x2" and Y: "Y = u * (x1 + X) + X + y1" using u(2) by (auto simp: third_def Let_def)
  have W: "W = v * v + v + a + x2 + x3" and Z: "Z = v * (x2 + W) + W + y2" using v(2) by (auto simp: third_def Let_def)
  have a: "a = X + u * u + u + x1 + x2" unfolding aX by (simp add: algebra_simps)
  have W': "W = X + t * t + t + t * k" unfolding W a t(2) x1 by (simp add: algebra_simps)
  have y1: "y1 = y2 + u * (x1 + x2)" using u(1) unfolding fits_def by (metis add_self_left add.commute)
  have y3: "y3 = y2 + v * (x2 + x3)" using v(1) unfolding fits_def by (metis add_self_left)
  have c1: "x1 * x2 + X * (x1 + x2) = y2 + u * x2" using u(1) unfolding fits_def aX y1 by (simp add: algebra_simps)
  have c2: "x2 * x3 + W * (x2 + x3) = y2 + v * x2" using v(1) unfolding fits_def W by simp
  have y2: "y2 = u * x2 + x1 * x2 + X * (x1 + x2)" using c1 by (simp add: add_eq_iff)
  have "t * (k * p + (q * t + x3)) = (x1 * x2 + X * (x1 + x2) + (y2 + u * x2)) + (x2 * x3 + W * (x2 + x3) + (y2 + v * x2))"
    unfolding W' x1 x2 X t(2) by (simp add: algebra_simps)
  also have "\<dots> = 0" unfolding c1 c2 by (simp only: add_self add_0)
  finally have "k * p + (q * t + x3) = 0" using t(1) by (simp only: mult_eq_0_iff) simp
  then have x3: "x3 = k * p + q * t" by (simp add: add.assoc [symmetric])
  let ?l = "u + 1 + k" and ?m = "v + 1 + k"
  have "fits a ?l X Y x3 y3" unfolding fits_def Y y1 y3 y2 a t(2) unfolding x1 x2 X x3 by (simp add: algebra_simps)
  moreover have "fits a ?m x1 y1 W Z" unfolding fits_def Z W' y1 y2 a t(2) unfolding x1 x2 X x3 by (simp add: algebra_simps)
  moreover have "third a ?l X Y x3 = third a ?m x1 y1 W"
    unfolding third_def Let_def Y y1 y2 a t(2) W' unfolding x1 x2 X x3 by (simp add: algebra_simps)
  ultimately show ?thesis by blast
qed

lemma pt_add_cancel':
  assumes "on_curve a b p" "on_curve a b q"
  shows "pt_add a (pt_add a p q) (pt_neg q) = p" "pt_add a (pt_add a p (pt_neg q)) q = p" "pt_add a (pt_neg p) (pt_add a p q) = q"
  using pt_add_cancel [of "pt_neg q" p] pt_add_cancel [of q p] pt_add_cancel [of "pt_neg p" q] assms
  by (simp_all add: pt_add_commute)

lemma pt_neg_add: "on_curve a b p \<Longrightarrow> on_curve a b q \<Longrightarrow> pt_neg (pt_add a p q) = pt_add a (pt_neg p) (pt_neg q)"
proof (cases p; cases q)
  fix x1 y1 x2 y2
  assume *: "on_curve a b p" "on_curve a b q" and [simp]: "p = Pt x1 y1" "q = Pt x2 y2"
  show ?thesis
  proof (cases "q = pt_neg p")
    case False
    then obtain u where u: "fits a u x1 y1 x2 y2" "pt_add a p q = third a u x1 y1 x2"
      using * exists_fits by (metis \<open>p = Pt x1 y1\<close> \<open>q = Pt x2 y2\<close>)
    have "fits a (u + 1) x1 (x1 + y1) x2 (x2 + y2)" using u(1) unfolding fits_def by (simp add: algebra_simps)
    moreover have "x1 \<noteq> x2 \<or> x1 + y1 = x2 + y2 \<and> x1 \<noteq> 0" using pt_add_finite [of x1 y1 x2 y2] * False by auto
    moreover have "on_curve a b (Pt x1 (x1 + y1))" "on_curve a b (Pt x2 (x2 + y2))" using * on_curve_neg [of p] on_curve_neg [of q] by simp_all
    ultimately have "pt_add a (pt_neg p) (pt_neg q) = third a (u + 1) x1 (x1 + y1) x2" using pt_add_third by simp
    then show ?thesis unfolding u(2) by (simp add: third_def Let_def algebra_simps)
  qed simp
qed simp_all

theorem pt_add_assoc:
  assumes "on_curve a b p" "on_curve a b q" "on_curve a b r"
  shows "pt_add a (pt_add a p q) r = pt_add a p (pt_add a q r)"
proof -
  consider (easy) "p = Inf \<or> q = Inf \<or> r = Inf \<or> q = pt_neg p \<or> r = pt_neg q \<or> p = r \<or> p = pt_neg r"
    | (left) "pt_add a p q = pt_neg r" | (right) "pt_add a q r = pt_neg p"
    | (generic) "p \<noteq> Inf" "q \<noteq> Inf" "r \<noteq> Inf" "q \<noteq> pt_neg p" "r \<noteq> pt_neg q" "p \<noteq> r" "p \<noteq> pt_neg r"
        "pt_add a p q \<noteq> pt_neg r" "pt_add a q r \<noteq> pt_neg p"
    by blast
  then show ?thesis
  proof cases
    case easy
    then show ?thesis using assms pt_add_cancel [OF assms(1,3)] pt_add_cancel' [OF assms(1,2)]
        pt_add_cancel' [OF assms(2,3)] pt_add_cancel [of "pt_neg r" q] by (auto simp: pt_add_commute)
  next
    case left
    have "q = pt_add a (pt_neg p) (pt_neg r)" using pt_add_cancel' (3) [OF assms(1,2)] left by simp
    then have "pt_add a q r = pt_neg p" using assms by (simp add: pt_add_cancel')
    then show ?thesis using left by simp
  next
    case right
    have "q = pt_add a (pt_neg p) (pt_neg r)" using pt_add_cancel' (1) [OF assms(2,3)] right by simp
    then have "pt_add a p q = pt_neg r" using assms pt_add_cancel [of p "pt_neg r"] by simp
    then show ?thesis using right by simp
  next
    case generic
    obtain x1 y1 x2 y2 x3 y3 where [simp]: "p = Pt x1 y1" "q = Pt x2 y2" "r = Pt x3 y3"
      using generic(1-3) by (metis pt.exhaust)
    obtain u where u: "fits a u x1 y1 x2 y2" "pt_add a p q = third a u x1 y1 x2"
      using exists_fits [of x1 y1 x2 y2] assms generic(4) by auto
    obtain v where v: "fits a v x2 y2 x3 y3" "pt_add a q r = third a v x2 y2 x3"
      using exists_fits [of x2 y2 x3 y3] assms generic(5) by auto
    obtain X Y W Z where XY: "third a u x1 y1 x2 = Pt X Y" and WZ: "third a v x2 y2 x3 = Pt W Z"
      by (simp add: third_def Let_def)
    have c: "on_curve a b (Pt X Y)" "on_curve a b (Pt W Z)"
      using fits_third [OF _ u(1)] fits_third [OF _ v(1)] assms XY WZ by simp_all
    have x13: "x1 \<noteq> x3" using pt_add_finite [of x3 y3 x1 y1] assms generic(6,7) by auto
    have uv: "u \<noteq> v"
    proof
      assume [simp]: "u = v"
      have y: "y1 = y2 + v * (x1 + x2)" using u(1) unfolding fits_def by (metis \<open>u = v\<close> add_self_left add.commute)
      have y2: "y2 = v * x2 + x2 * x3 + (v * v + v + a + x2 + x3) * (x2 + x3)"
        using v(1) unfolding fits_def by (simp add: add_eq_iff algebra_simps)
      have W: "W = v * v + v + a + x2 + x3" and Z: "Z = v * (x2 + W) + W + y2" using WZ by (auto simp: third_def Let_def)
      have "(x1 + x3) * (W + x1) = 0"
        using u(1) unfolding fits_def y y2 W by (simp add: add_eq_iff algebra_simps)
      then have "W = x1" using x13 by simp
      then show False using generic(9) Z y unfolding v(2) WZ by (simp add: algebra_simps)
    qed
    obtain l m where lm: "fits a l X Y x3 y3" "fits a m x1 y1 W Z" "third a l X Y x3 = third a m x1 y1 W"
      using fits_assoc [OF u(1) XY v(1) WZ x13 uv] by blast
    have "X \<noteq> x3 \<or> Y = y3 \<and> X \<noteq> 0" using pt_add_finite [OF c(1), of x3 y3] assms(3) generic(8) u(2) XY by force
    moreover have "x1 \<noteq> W \<or> y1 = Z \<and> x1 \<noteq> 0" using pt_add_finite [OF _ c(2), of x1 y1] assms(1) generic(9) v(2) WZ by auto
    ultimately show ?thesis
      using pt_add_third [OF c(1) _ _ lm(1)] pt_add_third [OF _ c(2) _ lm(2)] assms u(2) v(2) XY WZ lm(3) by simp
  qed
qed

lemma on_curve_mult [simp]: "on_curve a b p \<Longrightarrow> on_curve a b (pt_mult a n p)"
  by (induction n) simp_all

lemma pt_mult_add: "on_curve a b p \<Longrightarrow> pt_mult a (m + n) p = pt_add a (pt_mult a m p) (pt_mult a n p)"
  by (induction n) (simp_all add: pt_add_assoc)

lemma pt_mult_mult: "on_curve a b p \<Longrightarrow> pt_mult a (m * n) p = pt_mult a m (pt_mult a n p)"
  by (induction m) (simp_all add: pt_mult_add pt_add_commute)

lemma pt_mult_Inf [simp]: "pt_mult a n Inf = Inf"
  by (induction n) simp_all

lemma pt_mult_mod: "on_curve a b p \<Longrightarrow> pt_mult a n p = Inf \<Longrightarrow> pt_mult a (k mod n) p = pt_mult a k p"
  using pt_mult_add [of p "k div n * n" "k mod n"] pt_mult_mult [of p "k div n" n] by simp

lemma pt_mult_neg: "on_curve a b p \<Longrightarrow> pt_mult a n (pt_neg p) = pt_neg (pt_mult a n p)"
  by (induction n) (simp_all add: pt_neg_add)

text \<open>The \<open>x\<close>-only formulas of the Montgomery ladder, and the recovery of \<open>y\<close>.\<close>

lemma tangent_x:
  assumes "on_curve a b (Pt x y)" "x \<noteq> 0" "pt_add a (Pt x y) (Pt x y) = Pt X Y"
  shows "X * (x * x) = x * x * (x * x) + b"
proof -
  define u where "u = x + y / x"
  have ux: "u * x = x * x + y" using assms(2) by (simp add: u_def distrib_right)
  have "third a u x y x = Pt X Y" using assms(2,3) by (simp add: u_def)
  then have X: "X = u * u + u + a" by (auto simp: third_def Let_def add.assoc)
  have "X * (x * x) = (u * x) * (u * x) + (u * x) * x + a * (x * x)" unfolding X by (simp add: algebra_simps)
  also have "\<dots> = x * x * (x * x) + b + (y * y + x * y + x * x * x + a * (x * x) + b)" unfolding ux by (simp add: algebra_simps)
  finally show ?thesis using assms(1) by (simp only: on_curve_iff add_0_right)
qed

lemma xz_double:
  assumes "on_curve a b p" "xz X Z p"
  shows "xz (X * X * (X * X) + b * (Z * Z * (Z * Z))) (X * X * (Z * Z)) (pt_add a p p)"
proof (cases p)
  case (Pt x y)
  show ?thesis
  proof (cases "x = 0")
    case False
    then obtain X' Y' where d: "pt_add a (Pt x y) (Pt x y) = Pt X' Y'" by (simp add: third_def Let_def)
    have X: "X = x * Z" using assms Pt by simp
    have "X * X * (X * X) + b * (Z * Z * (Z * Z)) = (x * x * (x * x) + b) * (Z * Z * (Z * Z))"
      unfolding X by (simp only: algebra_simps)
    also have "\<dots> = X' * (X * X * (Z * Z))"
      unfolding tangent_x [OF assms(1) [unfolded Pt] False d, symmetric] X by (simp only: algebra_simps)
    finally show ?thesis using assms Pt False d by simp
  qed (use assms Pt b_nonzero in simp)
qed (use assms in simp)

lemma chord_x:
  assumes "x1 \<noteq> x2" "pt_add a (Pt x1 y1) (Pt x2 y2) = Pt X Y" "pt_add a (pt_neg (Pt x1 y1)) (Pt x2 y2) = Pt x y"
  shows "X * ((x1 + x2) * (x1 + x2)) = x * ((x1 + x2) * (x1 + x2)) + x1 * x2"
proof -
  define s where "s = x1 + x2"
  define u where "u = (y1 + y2) / s"
  define w where "w = x1 / s"
  have s: "s \<noteq> 0" using assms(1) by (simp add: s_def)
  have v: "(x1 + y1 + y2) / s = u + w" by (simp add: u_def w_def add_divide_distrib)
  have "third a u x1 y1 x2 = Pt X Y" "third a (u + w) x1 (x1 + y1) x2 = Pt x y"
    using assms v by (simp_all add: u_def s_def)
  then have X: "X = u * u + u + a + x1 + x2" "x = (u + w) * (u + w) + (u + w) + a + x1 + x2"
    by (auto simp: third_def Let_def)
  have w: "w * s = x1" using s by (simp add: w_def)
  have "(X + x) * (s * s) = (w * s) * (w * s) + (w * s) * s" unfolding X by (simp add: algebra_simps)
  also have "\<dots> = x1 * x2" unfolding w by (simp add: s_def algebra_simps)
  finally show ?thesis unfolding s_def [symmetric] by (simp add: algebra_simps add_eq_iff)
qed

lemma xz_diff_add:
  assumes c: "on_curve a b p1" "on_curve a b p2" and d: "pt_add a (pt_neg p1) p2 = Pt x y"
    and r: "xz X1 Z1 p1" "xz X2 Z2 p2"
  shows "xz (x * ((X1 * Z2 + X2 * Z1) * (X1 * Z2 + X2 * Z1)) + X1 * X2 * Z1 * Z2) ((X1 * Z2 + X2 * Z1) * (X1 * Z2 + X2 * Z1)) (pt_add a p1 p2)"
proof (cases p1; cases p2)
  fix x1 y1 x2 y2
  assume p: "p1 = Pt x1 y1" "p2 = Pt x2 y2"
  have s: "X1 * Z2 + X2 * Z1 = (x1 + x2) * (Z1 * Z2)" and z: "Z1 \<noteq> 0" "Z2 \<noteq> 0" "X1 = x1 * Z1" "X2 = x2 * Z2"
    using r p by (simp_all add: algebra_simps)
  show ?thesis
  proof (cases "x1 = x2")
    case True
    have ne: "p2 \<noteq> p1" using d by (metis pt_add_neg(2) pt.distinct(1))
    have "p2 = pt_neg p1" using pt_add_finite [of x1 y1 x2 y2] c p True ne by auto
    then have "x1 \<noteq> 0" "pt_add a p1 p2 = Inf" using ne p by auto
    then show ?thesis unfolding s using z True by simp
  next
    case False
    then obtain X Y where XY: "pt_add a p1 p2 = Pt X Y" using p by (simp add: third_def Let_def)
    have "x * ((x1 + x2) * (Z1 * Z2) * ((x1 + x2) * (Z1 * Z2))) + X1 * X2 * Z1 * Z2 =
        (x * ((x1 + x2) * (x1 + x2)) + x1 * x2) * (Z1 * Z2 * (Z1 * Z2))" unfolding z by (simp only: algebra_simps)
    also have "\<dots> = X * ((x1 + x2) * (Z1 * Z2) * ((x1 + x2) * (Z1 * Z2)))"
      unfolding chord_x [OF False XY [unfolded p] d [unfolded p], symmetric] by (simp only: algebra_simps)
    finally show ?thesis unfolding s XY using z False by simp
  qed
qed (use d r in auto)

lemma recover_y:
  assumes "on_curve a b (Pt x y)" "on_curve a b (Pt x1 y1)" "x \<noteq> 0" "pt_add a (Pt x1 y1) (Pt x y) = Pt x2 y2"
  shows "y1 = 1 / x * (x1 + x) * ((x1 + x) * (x2 + x) + x * x + y) + y"
proof -
  have "Pt x1 y1 \<noteq> pt_neg (Pt x y)" using assms(4) by (metis pt_add_neg(2) pt.distinct(1))
  then obtain u where u: "fits a u x y x1 y1" "pt_add a (Pt x y) (Pt x1 y1) = third a u x y x1" using assms(1,2) exists_fits by metis
  then have x2: "x2 = u * u + u + a + x + x1" using assms pt_add_commute [of "Pt x1 y1" "Pt x y"] by (simp add: third_def Let_def)
  have "u * x = y + (x * x1 + x2 * (x + x1))" using u(1) unfolding fits_def x2 by (simp add: add_eq_iff)
  then have "u * x = (x1 + x) * (x2 + x) + x * x + y" by (simp add: algebra_simps)
  then have "u = 1 / x * ((x1 + x) * (x2 + x) + x * x + y)" using assms(3) by (metis nonzero_mult_div_cancel_right times_divide_eq_left mult_1)
  moreover have "y1 = y + u * (x + x1)" using u(1) unfolding fits_def by (metis add_self_left)
  ultimately show ?thesis by (simp only: mult.commute mult.left_commute add.commute mult.assoc)
qed

text \<open>The projective formulas of the verifier.\<close>

lemma ld_double:
  assumes c: "on_curve a b p" and r: "ld X Y Z p" and z: "Z \<noteq> 0"
    and A: "A = Z * Z" and B: "B = b * (A * A)" and C: "C = X * X" and Z3: "Z3 = A * C" and X3: "X3 = C * C + B"
  shows "ld X3 ((Y * Y + a * Z3 + B) * X3 + Z3 * B) Z3 (pt_add a p p)"
proof (cases p)
  case (Pt x y)
  have X: "X = x * Z" and Y: "Y = y * (Z * Z)" using r Pt by simp_all
  show ?thesis
  proof (cases "x = 0")
    case False
    define u where "u = x + y / x"
    define x3 where "x3 = u * u + u + a"
    have ux: "u * x = x * x + y" using False by (simp add: u_def distrib_right)
    then have y: "y = u * x + x * x" by (simp add: add.commute)
    have d: "pt_add a p p = Pt x3 (u * (x + x3) + x3 + y)" using False Pt by (simp add: third_def Let_def u_def [symmetric] x3_def add.assoc)
    have "x3 * (x * x) = x * x * (x * x) + b" using tangent_x [of x y] c Pt False d by simp
    then have b: "b = x3 * (x * x) + x * x * (x * x)" by (simp add: add.commute)
    have "X3 = x3 * Z3" unfolding X3 Z3 B C A X b by (simp add: algebra_simps)
    moreover have "(Y * Y + a * Z3 + B) * X3 + Z3 * B = (u * (x + x3) + x3 + y) * (Z3 * Z3)"
      unfolding X3 Z3 B C A X Y b y x3_def by (simp add: algebra_simps)
    moreover have "Z3 \<noteq> 0" using z False by (simp add: Z3 A C X)
    ultimately show ?thesis unfolding d by simp
  qed (use Pt X in \<open>simp add: Z3 C\<close>)
qed (use r z in simp)

lemma ld_mixed_add:
  assumes c: "on_curve a b p" "on_curve a b (Pt x2 y2)" and r: "ld X Y Z p" and z: "Z \<noteq> 0"
    and A: "A = Y + y2 * (Z * Z)" and B: "B = X + x2 * Z" and nz: "B \<noteq> 0" and C: "C = B * Z" and Z3: "Z3 = C * C" and D: "D = x2 * Z3"
    and X3: "X3 = A * A + C * (A + B * B + a * C)"
  shows "ld X3 ((D + X3) * (A * C + Z3) + (y2 + x2) * (Z3 * Z3)) Z3 (pt_add a p (Pt x2 y2))"
proof (cases p)
  case (Pt x y)
  have X: "X = x * Z" and Y: "Y = y * (Z * Z)" using r Pt by simp_all
  have x: "x \<noteq> x2" using nz by (auto simp: B X)
  define s where "s = x + x2"
  define u where "u = (y + y2) / s"
  have s: "s \<noteq> 0" "x2 = x + s" using x by (simp_all add: s_def)
  then have "u * s = y + y2" by (simp add: u_def)
  then have y2: "y2 = y + u * s" by simp
  define x3 where "x3 = u * u + u + a + x + x2"
  have d: "pt_add a p (Pt x2 y2) = Pt x3 (u * (x + x3) + x3 + y)" using x Pt by (simp add: third_def Let_def u_def [symmetric] s_def [symmetric] x3_def)
  have "X3 = x3 * Z3" unfolding X3 Z3 C A B X Y y2 s(2) x3_def by (simp add: algebra_simps)
  moreover have "(D + X3) * (A * C + Z3) + (y2 + x2) * (Z3 * Z3) = (u * (x + x3) + x3 + y) * (Z3 * Z3)"
    unfolding calculation D unfolding Z3 C A B X Y y2 s(2) by (simp add: algebra_simps)
  moreover have "Z3 \<noteq> 0" using z nz by (simp add: Z3 C)
  ultimately show ?thesis unfolding d by simp
qed (use r z in simp)

lemma ld_mixed_add_same:
  assumes c: "on_curve a b p" "on_curve a b (Pt x2 y2)" and r: "ld X Y Z p" and z: "Z \<noteq> 0" and B: "X + x2 * Z = 0"
  shows "Y + y2 * (Z * Z) = 0 \<Longrightarrow> p = Pt x2 y2" "Y + y2 * (Z * Z) \<noteq> 0 \<Longrightarrow> pt_add a p (Pt x2 y2) = Inf"
proof -
  obtain x y where p: "p = Pt x y" using r z by (cases p) simp_all
  have "x * Z = x2 * Z" using B r p by auto
  then have x: "x = x2" using z by simp
  show "Y + y2 * (Z * Z) = 0 \<Longrightarrow> p = Pt x2 y2" using r p x z by simp
  assume "Y + y2 * (Z * Z) \<noteq> 0"
  then have "y \<noteq> y2" using r p by auto
  then show "pt_add a p (Pt x2 y2) = Inf" using p x by simp
qed

end

end
