(* ===== verification/Dstu4145_Curve.thy ===== *)
theory Dstu4145_Curve
  imports Field_Embedding Binary_Curve
begin

text \<open>
  \<open>crates/dstu-core/src/hazmat/dstu4145/curve163.rs\<close> and \<open>curve257.rs\<close>: affine points, the Montgomery
  ladder of \<open>scalar_multiply\<close> with its masked swaps, the Lopez-Dahab coordinates and Shamir's trick of
  \<open>verify_combine\<close>. The two files differ in the widths and in the coefficient \<open>a\<close>, so one definition
  takes the curve as an argument. \<open>hw\<close> is the carry-less multiply instruction, when there is one.
\<close>

section \<open>Parameters\<close>

type_synonym clmul_hw = "(u64 \<Rightarrow> u64 \<Rightarrow> u64 \<times> u64) option"

definition curve163_b :: bytes where
  "curve163_b =
     [0x05, 0xFF, 0x61, 0x08, 0x46, 0x2A, 0x2D, 0xC8, 0x21, 0x0A, 0xB4, 0x03, 0x92, 0x5E, 0x63,
      0x8A, 0x19, 0xC1, 0x45, 0x5D, 0x21]"

definition curve163_gx :: bytes where
  "curve163_gx =
     [0x07, 0x2D, 0x86, 0x7F, 0x93, 0xA9, 0x3A, 0xC2, 0x7D, 0xF9, 0xFF, 0x01, 0xAF, 0xFE, 0x74,
      0x88, 0x5C, 0x8C, 0x54, 0x04, 0x20]"

definition curve163_gy :: bytes where
  "curve163_gy =
     [0x00, 0x22, 0x4A, 0x9C, 0x39, 0x47, 0x85, 0x2B, 0x97, 0xC5, 0x59, 0x9D, 0x5F, 0x4A, 0xB8,
      0x11, 0x22, 0xAD, 0xC3, 0xFD, 0x9B]"

definition curve257_b :: bytes where
  "curve257_b =
     [0x01, 0xCE, 0xF4, 0x94, 0x72, 0x01, 0x15, 0x65, 0x7E, 0x18, 0xF9, 0x38, 0xD7, 0xA7, 0x94,
      0x23, 0x94, 0xFF, 0x94, 0x25, 0xC1, 0x45, 0x8C, 0x57, 0x86, 0x1F, 0x9E, 0xEA, 0x6A, 0xDB,
      0xE3, 0xBE, 0x10]"

definition curve257_gx :: bytes where
  "curve257_gx =
     [0x00, 0x2A, 0x29, 0xEF, 0x20, 0x7D, 0x0E, 0x9B, 0x6C, 0x55, 0xCD, 0x26, 0x0B, 0x30, 0x6C,
      0x7E, 0x00, 0x7A, 0xC4, 0x91, 0xCA, 0x1B, 0x10, 0xC6, 0x23, 0x34, 0xA9, 0xE8, 0xDC, 0xD8,
      0xD2, 0x0F, 0xB7]"

definition curve257_gy :: bytes where
  "curve257_gy =
     [0x01, 0x06, 0x86, 0xD4, 0x1F, 0xF7, 0x44, 0xD4, 0x44, 0x9F, 0xCC, 0xF6, 0xD8, 0xEE, 0xA0,
      0x31, 0x02, 0xE6, 0x81, 0x2C, 0x93, 0xA9, 0xD6, 0x0B, 0x97, 0x8B, 0x70, 0x2C, 0xF1, 0x56,
      0xD8, 0x14, 0xEF]"

definition fe_const :: "dstu4145_curve \<Rightarrow> bytes \<Rightarrow> u64 list" where
  "fe_const c bs = (case fe_from_be_bytes c bs of Some x \<Rightarrow> x | None \<Rightarrow> [])"

definition curve_b :: "dstu4145_curve \<Rightarrow> u64 list" where
  "curve_b c = fe_const c (case c of M163 \<Rightarrow> curve163_b | M257 \<Rightarrow> curve257_b)"

definition curve_gx :: "dstu4145_curve \<Rightarrow> u64 list" where
  "curve_gx c = fe_const c (case c of M163 \<Rightarrow> curve163_gx | M257 \<Rightarrow> curve257_gx)"

definition curve_gy :: "dstu4145_curve \<Rightarrow> u64 list" where
  "curve_gy c = fe_const c (case c of M163 \<Rightarrow> curve163_gy | M257 \<Rightarrow> curve257_gy)"

section \<open>Affine points\<close>

datatype point = Infinity | Affine "u64 list" "u64 list"

definition generator :: "dstu4145_curve \<Rightarrow> point" where
  "generator c = Affine (curve_gx c) (curve_gy c)"

fun negate :: "point \<Rightarrow> point" where
  "negate Infinity = Infinity"
| "negate (Affine x y) = Affine x (fe_add x y)"

fun is_on_curve :: "clmul_hw \<Rightarrow> dstu4145_curve \<Rightarrow> point \<Rightarrow> bool" where
  "is_on_curve hw c Infinity = False"
| "is_on_curve hw c (Affine x y) =
     (if \<not> is_canonical c x \<or> \<not> is_canonical c y then False
      else let lhs = fe_add (fe_square c y) (fe_multiply hw c x y);
               rhs = (case c of
                   M163 \<Rightarrow> fe_add (fe_add (fe_multiply hw c x (fe_square c x)) (fe_square c x)) (curve_b c)
                 | M257 \<Rightarrow> fe_add (fe_multiply hw c x (fe_square c x)) (curve_b c))
           in lhs = rhs)"

fun point_double :: "clmul_hw \<Rightarrow> dstu4145_curve \<Rightarrow> point \<Rightarrow> point" where
  "point_double hw c Infinity = Infinity"
| "point_double hw c (Affine x1 y1) =
     (if x1 = fe_ZERO c then Infinity
      else let lambda = fe_add x1 (fe_multiply hw c y1 (fe_invert hw c x1));
               x3 = (case c of
                   M163 \<Rightarrow> fe_add (fe_add (fe_square c lambda) lambda) (fe_ONE c)
                 | M257 \<Rightarrow> fe_add (fe_square c lambda) lambda);
               y3 = fe_add (fe_square c x1) (fe_multiply hw c (fe_add lambda (fe_ONE c)) x3)
           in Affine x3 y3)"

fun point_add :: "clmul_hw \<Rightarrow> dstu4145_curve \<Rightarrow> point \<Rightarrow> point \<Rightarrow> point" where
  "point_add hw c Infinity q = q"
| "point_add hw c p Infinity = p"
| "point_add hw c (Affine x1 y1) (Affine x2 y2) =
     (if x1 = x2 then
        if y1 = y2 then point_double hw c (Affine x1 y1) else Infinity
      else let lambda = fe_multiply hw c (fe_add y1 y2) (fe_invert hw c (fe_add x1 x2));
               x3 = (case c of
                   M163 \<Rightarrow> fe_add (fe_add (fe_add (fe_add (fe_square c lambda) lambda) x1) x2) (fe_ONE c)
                 | M257 \<Rightarrow> fe_add (fe_add (fe_add (fe_square c lambda) lambda) x1) x2);
               y3 = fe_add (fe_add (fe_multiply hw c lambda (fe_add x1 x3)) x3) y1
           in Affine x3 y3)"

section \<open>The Montgomery ladder\<close>

definition bit_at :: "dstu4145_curve \<Rightarrow> bytes \<Rightarrow> nat \<Rightarrow> u64" where
  "bit_at c bs i =
     (let byte_index = sc_bytes c - 1 - i div 8; bit_in_byte = i mod 8
      in ucast (drop_bit bit_in_byte (bs ! byte_index) AND 1))"

definition cswap :: "u64 \<Rightarrow> u64 list \<Rightarrow> u64 list \<Rightarrow> u64 list \<times> u64 list" where
  "cswap swap a b =
     (let msk = 0 - swap;
          t = map2 (\<lambda>a b. msk AND (a XOR b)) a b
      in (map2 (XOR) a t, map2 (XOR) b t))"

definition is_zero_mask :: "u64 list \<Rightarrow> u64" where
  "is_zero_mask a =
     (let combined = fold (\<lambda>l acc. acc OR l) a 0;
          is_nonzero = drop_bit 63 (combined OR (- combined))
      in 0 - (1 XOR is_nonzero))"

definition mask_select :: "u64 \<Rightarrow> u64 list \<Rightarrow> u64 list \<Rightarrow> u64 list" where
  "mask_select msk if_mask otherwise = map2 (\<lambda>a b. b XOR (msk AND (a XOR b))) if_mask otherwise"

definition ladder_step ::
  "clmul_hw \<Rightarrow> dstu4145_curve \<Rightarrow> u64 list \<Rightarrow> bytes \<Rightarrow> nat \<Rightarrow>
   u64 list \<times> u64 list \<times> u64 list \<times> u64 list \<Rightarrow> u64 list \<times> u64 list \<times> u64 list \<times> u64 list" where
  "ladder_step hw c x k i = (\<lambda>(x1, z1, x2, z2).
     let bit = bit_at c k i;
         swap = bit XOR 1;
         (x1, x2) = cswap swap x1 x2;
         (z1, z2) = cswap swap z1 z2;
         t1 = z1;
         z1 = fe_square c (fe_add (fe_multiply hw c x1 z2) (fe_multiply hw c x2 z1));
         x1 = fe_add (fe_multiply hw c x z1) (fe_multiply hw c (fe_multiply hw c (fe_multiply hw c x1 x2) t1) z2);
         t2 = x2;
         x2 = fe_add (fe_square c (fe_square c x2)) (fe_multiply hw c (curve_b c) (fe_square c (fe_square c z2)));
         z2 = fe_multiply hw c (fe_square c t2) (fe_square c z2);
         (x1, x2) = cswap swap x1 x2;
         (z1, z2) = cswap swap z1 z2
     in (x1, z1, x2, z2))"

fun point_scalar_multiply :: "clmul_hw \<Rightarrow> dstu4145_curve \<Rightarrow> point \<Rightarrow> bytes \<Rightarrow> point" where
  "point_scalar_multiply hw c Infinity k = Infinity"
| "point_scalar_multiply hw c (Affine x y) k =
     (let (x1, z1, x2, z2) = fold (ladder_step hw c x k) (rev [0..<fe_m c]) (fe_ONE c, fe_ZERO c, x, fe_ONE c)
      in if is_zero_mask z1 \<noteq> 0 then Infinity
         else let x1_affine = fe_multiply hw c x1 (fe_invert hw c z1);
                  x2_affine = fe_multiply hw c x2 (fe_invert hw c z2);
                  t1 = fe_add x1_affine x;
                  t2 = fe_add x2_affine x;
                  inner = fe_add (fe_add (fe_multiply hw c t1 t2) (fe_square c x)) y;
                  y1_affine_formula = fe_add (fe_multiply hw c (fe_multiply hw c (fe_invert hw c x) t1) inner) y;
                  y1_affine = mask_select (is_zero_mask z2) (fe_add x y) y1_affine_formula
              in Affine x1_affine y1_affine)"

section \<open>The projective fast path of the 163-bit curve\<close>

record projective_point =
  px :: "u64 list"
  py :: "u64 list"
  pz :: "u64 list"

fun from_affine :: "point \<Rightarrow> projective_point" where
  "from_affine Infinity = \<lparr>px = fe_ONE M163, py = fe_ONE M163, pz = fe_ZERO M163\<rparr>"
| "from_affine (Affine x y) = \<lparr>px = x, py = y, pz = fe_ONE M163\<rparr>"

definition projective_double :: "clmul_hw \<Rightarrow> projective_point \<Rightarrow> projective_point" where
  "projective_double hw self =
     (if pz self = fe_ZERO M163 then self
      else let a = fe_square M163 (pz self);
               big_b = fe_multiply hw M163 (curve_b M163) (fe_square M163 a);
               c = fe_square M163 (px self);
               z3 = fe_multiply hw M163 a c;
               x3 = fe_add (fe_square M163 c) big_b;
               y3 = fe_add (fe_multiply hw M163 (fe_add (fe_add (fe_square M163 (py self)) z3) big_b) x3)
                      (fe_multiply hw M163 z3 big_b)
           in \<lparr>px = x3, py = y3, pz = z3\<rparr>)"

fun mixed_add :: "clmul_hw \<Rightarrow> projective_point \<Rightarrow> point \<Rightarrow> projective_point" where
  "mixed_add hw self Infinity = self"
| "mixed_add hw self (Affine x2 y2) =
     (if pz self = fe_ZERO M163 then from_affine (Affine x2 y2)
      else let z1_sq = fe_square M163 (pz self);
               a = fe_add (py self) (fe_multiply hw M163 y2 z1_sq);
               b_val = fe_add (px self) (fe_multiply hw M163 x2 (pz self))
           in if b_val = fe_ZERO M163 then
                if a = fe_ZERO M163 then projective_double hw self
                else \<lparr>px = fe_ONE M163, py = fe_ONE M163, pz = fe_ZERO M163\<rparr>
              else let c = fe_multiply hw M163 b_val (pz self);
                       z3 = fe_square M163 c;
                       d = fe_multiply hw M163 x2 z3;
                       b_sq = fe_square M163 b_val;
                       x3 = fe_add (fe_square M163 a) (fe_multiply hw M163 c (fe_add (fe_add a b_sq) c));
                       y3 = fe_add (fe_multiply hw M163 (fe_add d x3) (fe_add (fe_multiply hw M163 a c) z3))
                              (fe_multiply hw M163 (fe_add y2 x2) (fe_square M163 z3))
                   in \<lparr>px = x3, py = y3, pz = z3\<rparr>)"

definition to_affine :: "clmul_hw \<Rightarrow> projective_point \<Rightarrow> point" where
  "to_affine hw self =
     (if pz self = fe_ZERO M163 then Infinity
      else let z_inv = fe_invert hw M163 (pz self);
               x = fe_multiply hw M163 (px self) z_inv;
               y = fe_multiply hw M163 (py self) (fe_square M163 z_inv)
           in Affine x y)"

definition shamir_entry :: "clmul_hw \<Rightarrow> point \<Rightarrow> bytes \<Rightarrow> point \<Rightarrow> bytes \<Rightarrow> nat \<Rightarrow> point" where
  "shamir_entry hw g s q r i =
     (let table = [Infinity, q, g, point_add hw M163 g q];
          index = unat (push_bit 1 (bit_at M163 s i) OR bit_at M163 r i)
      in table ! index)"

definition shamir_step ::
  "clmul_hw \<Rightarrow> point \<Rightarrow> bytes \<Rightarrow> point \<Rightarrow> bytes \<Rightarrow> nat \<Rightarrow> projective_point \<Rightarrow> projective_point" where
  "shamir_step hw g s q r i acc =
     (let acc = projective_double hw acc; entry = shamir_entry hw g s q r i
      in if entry \<noteq> Infinity then mixed_add hw acc entry else acc)"

definition shamir_double_scalar_multiply :: "clmul_hw \<Rightarrow> point \<Rightarrow> bytes \<Rightarrow> point \<Rightarrow> bytes \<Rightarrow> point" where
  "shamir_double_scalar_multiply hw g s q r =
     (case find (\<lambda>i. bit_at M163 s i \<noteq> 0 \<or> bit_at M163 r i \<noteq> 0) (rev [0..<163]) of
        None \<Rightarrow> Infinity
      | Some top_bit \<Rightarrow>
          to_affine hw (fold (shamir_step hw g s q r) (rev [0..<top_bit]) (from_affine (shamir_entry hw g s q r top_bit))))"

text \<open>\<open>small_tables\<close> is the cargo feature that selects the body.\<close>

definition verify_combine :: "bool \<Rightarrow> clmul_hw \<Rightarrow> point \<Rightarrow> bytes \<Rightarrow> point \<Rightarrow> bytes \<Rightarrow> point" where
  "verify_combine small_tables hw g s q r =
     (if small_tables then point_add hw M163 (point_scalar_multiply hw M163 g s) (point_scalar_multiply hw M163 q r)
      else shamir_double_scalar_multiply hw g s q r)"

section \<open>Points of the group\<close>

text \<open>Points whose coordinates are arrays of the curve's width, and those with canonical coordinates.\<close>

fun point_limbs :: "dstu4145_curve \<Rightarrow> point \<Rightarrow> bool" where
  "point_limbs c Infinity = True"
| "point_limbs c (Affine x y) = (length x = sc_limbs c \<and> length y = sc_limbs c)"

fun point_ok :: "dstu4145_curve \<Rightarrow> point \<Rightarrow> bool" where
  "point_ok c Infinity = True"
| "point_ok c (Affine x y) = (fe_ok c x \<and> fe_ok c y)"

text \<open>The points of the group: the identity and what \<open>is_on_curve\<close> accepts.\<close>

definition group_point :: "clmul_hw \<Rightarrow> dstu4145_curve \<Rightarrow> point \<Rightarrow> bool" where
  "group_point hw c p \<longleftrightarrow> p = Infinity \<or> point_limbs c p \<and> is_on_curve hw c p"

text \<open>The reference for \<open>scalar_multiply\<close>: repeated addition.\<close>

primrec point_times :: "clmul_hw \<Rightarrow> dstu4145_curve \<Rightarrow> nat \<Rightarrow> point \<Rightarrow> point" where
  "point_times hw c 0 p = Infinity"
| "point_times hw c (Suc n) p = point_add hw c (point_times hw c n p) p"

end
