(* ===== verification/Dstu4145_Group.thy ===== *)
theory Dstu4145_Group
  imports Dstu4145_Curve
begin

text \<open>
  The curve code computes in the group of the curve: \<open>Point::add\<close>, \<open>double\<close> and \<open>negate\<close> are the
  chord-and-tangent operations of \<open>Binary_Curve\<close> under the embedding of the field elements,
  \<open>scalar_multiply\<close> is repeated addition, and \<open>verify_combine\<close> is the same point in both build profiles.
  The proofs are made once in the locale \<open>field_embedding\<close> and read off its interpretations.
\<close>

section \<open>Masks and bits\<close>

lemma bit_at_value: "length k = sc_bytes c \<Longrightarrow> i < fe_m c \<Longrightarrow> bit_at c k i = of_bool (bit (be_value k) i)"
proof -
  assume k: "length k = sc_bytes c" and i: "i < fe_m c"
  have d: "i div 8 < length k" using i k by (cases c) auto
  have "drop_bit j w AND 1 = (of_bool (bit w j) :: u8)" for w j by (rule bit_eqI) (auto simp: bit_simps)
  then show ?thesis using d by (simp add: bit_at_def bit_be_value rev_nth k)
qed

lemma xor_back: "x XOR (x XOR y) = y" "x XOR (y XOR x) = (y :: u64)"
  by (simp_all add: ac_simps flip: xor.assoc)

lemma cswap_value:
  assumes "length a = length b"
  shows "cswap (of_bool p XOR 1) a b = (if p then (a, b) else (b, a))"
  using assms by (cases p) (auto simp: cswap_def Let_def xor_back intro!: nth_equalityI)

lemma is_zero_mask_value: "is_zero_mask a = (if lv a = 0 then - 1 else 0)"
proof -
  define w where "w = fold (\<lambda>l acc. acc OR l) a 0"
  have w: "w = 0 \<longleftrightarrow> lv a = 0" by (simp add: w_def fold_or_zero lv_eq_0)
  have "bit (w OR - w) 63" if "w \<noteq> 0"
  proof (cases "bit w 63")
    case False
    have "unat w < 2 ^ 63"
    proof -
      have "bit (take_bit 63 w) n \<longleftrightarrow> bit w n" for n
        using False by (cases "n = 63") (auto simp: bit_simps dest: bit_imp_le_length)
      then have "take_bit 63 w = w" by (intro bit_eqI)
      then show ?thesis by (metis take_bit_nat_less_exp unsigned_take_bit_eq)
    qed
    moreover have "unat (w - 1) < unat w" using that by (simp add: unat_minus_one unat_gt_0)
    ultimately have "unat (w - 1) < 2 ^ 63" by simp
    then have "take_bit 63 (unat (w - 1)) = unat (w - 1)" by (rule take_bit_nat_eq_self)
    then have "\<not> bit (unat (w - 1)) 63" by (metis bit_take_bit_iff less_irrefl)
    then have "\<not> bit (w - 1) 63" by (simp add: bit_unsigned_iff)
    then have "bit (- w) 63" by (simp add: minus_eq_not_minus_1 bit_not_iff)
    then show ?thesis by (simp add: bit_or_iff)
  qed (simp add: bit_simps)
  then have "drop_bit 63 (w OR - w) = 1" if "w \<noteq> 0"
    using that by (intro bit_eqI) (auto simp: bit_simps dest: bit_imp_le_length)
  then show ?thesis using w by (cases "w = 0") (simp_all only: is_zero_mask_def Let_def w_def [symmetric], simp_all)
qed

lemma mask_select_value: "length a = length b \<Longrightarrow> mask_select (if p then - 1 else 0) a b = (if p then a else b)"
  by (auto simp: mask_select_def xor_back intro!: nth_equalityI)

section \<open>The embedding of the points\<close>

fun curve_a :: "dstu4145_curve \<Rightarrow> 'a::field" where
  "curve_a M163 = 1" | "curve_a M257 = 0"

fun emb_pt :: "(u64 list \<Rightarrow> 'a::field) \<Rightarrow> point \<Rightarrow> 'a pt" where
  "emb_pt emb Infinity = Inf"
| "emb_pt emb (Affine x y) = Pt (emb x) (emb y)"

lemma fe_const_value:
  assumes "length bs = sc_bytes c" "be_value bs < 2 ^ fe_m c"
  shows "fe_ok c (fe_const c bs)" "lv (fe_const c bs) = be_value bs"
proof -
  have "length bs \<le> 8 * sc_limbs c" using assms(1) fe_dimensions(6) by simp
  then obtain l where "limbs_from_be_bytes (sc_limbs c) bs = Some l" "lv l = be_value bs" "length l = sc_limbs c"
    by (rule limbs_from_be_bytes_value)
  then show "fe_ok c (fe_const c bs)" "lv (fe_const c bs) = be_value bs"
    using assms(2) by (simp_all add: fe_const_def fe_bytes_eq fe_ok_def)
qed

lemma fe_ok_length: "fe_ok c x \<Longrightarrow> length x = sc_limbs c"
  by (simp add: fe_ok_def)

lemma curve_b_ok: "fe_ok c (curve_b c)" "curve_b c \<noteq> fe_ZERO c"
proof -
  have b: "fe_ok c (curve_b c) \<and> lv (curve_b c) \<noteq> 0"
    using fe_const_value [of curve163_b M163] fe_const_value [of curve257_b M257]
    by (cases c) (simp_all add: curve_b_def curve163_b_def curve257_b_def be_value_def)
  then show "fe_ok c (curve_b c)" "curve_b c \<noteq> fe_ZERO c" by (auto simp: fe_constants)
qed

lemma generator_ok: "point_ok c (generator c)"
  using fe_const_value(1) [of curve163_gx M163] fe_const_value(1) [of curve257_gx M257]
    fe_const_value(1) [of curve163_gy M163] fe_const_value(1) [of curve257_gy M257]
  by (cases c) (simp_all add: generator_def curve_gx_def curve_gy_def curve163_gx_def curve257_gx_def curve163_gy_def curve257_gy_def be_value_def)

sublocale field_embedding \<subseteq> curve: binary_curve "curve_a c" "emb (curve_b c)"
  using two emb_inject [OF curve_b_ok(1) fe_constants(1)] curve_b_ok(2) by unfold_locales simp_all

context field_embedding
begin

lemmas closed = fe_add_value(1) fe_multiply_value(1) fe_square_value(1) emb_invert(1) fe_constants(1,3) curve_b_ok(1)
lemmas embs = emb_add emb_multiply emb_square emb_invert(2)

lemma emb_eq_zero: "fe_ok c x \<Longrightarrow> x = fe_ZERO c \<longleftrightarrow> emb x = 0"
  using emb_inject [of x "fe_ZERO c"] by (simp add: closed)

lemma lv_eq_zero: "fe_ok c x \<Longrightarrow> lv x = 0 \<longleftrightarrow> emb x = 0"
  using fe_inject [of c x "fe_ZERO c"] by (simp add: fe_constants emb_eq_zero)

lemma emb_pt_inject: "point_ok c p \<Longrightarrow> point_ok c q \<Longrightarrow> emb_pt emb p = emb_pt emb q \<longleftrightarrow> p = q"
  by (cases p; cases q) (simp_all add: emb_inject)

lemma emb_pt_Inf [simp]: "emb_pt emb p = Inf \<longleftrightarrow> p = Infinity"
  by (cases p) simp_all

lemma emb_negate: "point_ok c p \<Longrightarrow> point_ok c (negate p) \<and> emb_pt emb (negate p) = pt_neg (emb_pt emb p)"
  by (cases p) (simp_all add: closed embs)

lemma emb_double:
  assumes hw: "hw_ok hw" and p: "point_ok c p"
  shows "point_ok c (point_double hw c p) \<and> emb_pt emb (point_double hw c p) = pt_add (curve_a c) (emb_pt emb p) (emb_pt emb p)"
proof (cases p)
  case (Affine x y)
  note ok = p [unfolded Affine point_ok.simps]
  define lam where "lam = fe_add x (fe_multiply hw c y (fe_invert hw c x))"
  define x3 where "x3 = (case c of M163 \<Rightarrow> fe_add (fe_add (fe_square c lam) lam) (fe_ONE c) | M257 \<Rightarrow> fe_add (fe_square c lam) lam)"
  define y3 where "y3 = fe_add (fe_square c x) (fe_multiply hw c (fe_add lam (fe_ONE c)) x3)"
  have lam: "fe_ok c lam" "emb lam = emb x + emb y / emb x" using ok hw by (simp_all add: lam_def closed embs divide_inverse)
  have x3: "fe_ok c x3" "emb x3 = emb lam * emb lam + emb lam + curve_a c"
  proof -
    have "fe_ok c (fe_add (fe_square c lam) lam)" "emb (fe_add (fe_square c lam) lam) = emb lam * emb lam + emb lam"
      using lam(1) by (simp_all add: closed embs)
    moreover from this have "fe_ok c (fe_add (fe_add (fe_square c lam) lam) (fe_ONE c))"
        "emb (fe_add (fe_add (fe_square c lam) lam) (fe_ONE c)) = emb lam * emb lam + emb lam + 1"
      by (simp_all add: closed embs)
    ultimately show "fe_ok c x3" "emb x3 = emb lam * emb lam + emb lam + curve_a c" unfolding x3_def by (cases c; simp)+
  qed
  have y3: "fe_ok c y3" "emb y3 = emb x * emb x + (emb lam + 1) * emb x3" using ok hw lam(1) x3(1) by (simp_all add: y3_def closed embs)
  show ?thesis
  proof (cases "x = fe_ZERO c")
    case False
    then have nz: "emb x \<noteq> 0" using emb_eq_zero ok by simp
    have ux: "emb lam * emb x = emb x * emb x + emb y" using nz by (simp add: lam(2) distrib_right)
    have "emb y3 = emb lam * (emb x + emb x3) + emb x3 + emb y" by (simp add: y3(2) distrib_left distrib_right ux ac_simps)
    then show ?thesis
      using False nz x3 y3(1) by (simp add: Affine Let_def lam_def [symmetric] x3_def [symmetric] y3_def [symmetric] third_def ac_simps flip: lam(2))
  qed (simp add: Affine)
qed simp

lemma emb_point_add:
  assumes hw: "hw_ok hw" and p: "point_ok c p" and q: "point_ok c q"
  shows "point_ok c (point_add hw c p q) \<and> emb_pt emb (point_add hw c p q) = pt_add (curve_a c) (emb_pt emb p) (emb_pt emb q)"
proof (cases p; cases q)
  fix x1 y1 x2 y2
  assume pq: "p = Affine x1 y1" "q = Affine x2 y2"
  note ok = p [unfolded pq point_ok.simps] q [unfolded pq point_ok.simps]
  define lam where "lam = fe_multiply hw c (fe_add y1 y2) (fe_invert hw c (fe_add x1 x2))"
  define x3 where "x3 = (case c of M163 \<Rightarrow> fe_add (fe_add (fe_add (fe_add (fe_square c lam) lam) x1) x2) (fe_ONE c)
    | M257 \<Rightarrow> fe_add (fe_add (fe_add (fe_square c lam) lam) x1) x2)"
  define y3 where "y3 = fe_add (fe_add (fe_multiply hw c lam (fe_add x1 x3)) x3) y1"
  have lam: "fe_ok c lam" "emb lam = (emb y1 + emb y2) / (emb x1 + emb x2)" using ok hw by (simp_all add: lam_def closed embs divide_inverse)
  have x3: "fe_ok c x3" "emb x3 = emb lam * emb lam + emb lam + curve_a c + emb x1 + emb x2"
  proof -
    let ?s = "fe_add (fe_add (fe_add (fe_square c lam) lam) x1) x2"
    have "fe_ok c ?s" "emb ?s = emb lam * emb lam + emb lam + emb x1 + emb x2" using lam(1) ok by (simp_all add: closed embs)
    moreover from this have "fe_ok c (fe_add ?s (fe_ONE c))" "emb (fe_add ?s (fe_ONE c)) = emb lam * emb lam + emb lam + 1 + emb x1 + emb x2"
      by (simp_all add: closed embs ac_simps)
    ultimately show "fe_ok c x3" "emb x3 = emb lam * emb lam + emb lam + curve_a c + emb x1 + emb x2" unfolding x3_def by (cases c; simp)+
  qed
  have y3: "fe_ok c y3" "emb y3 = emb lam * (emb x1 + emb x3) + emb x3 + emb y1"
    using ok hw lam(1) x3(1) by (simp_all add: y3_def closed embs)
  show ?thesis
  proof (cases "x1 = x2")
    case True
    then show ?thesis using emb_double [OF hw p] ok emb_inject [of y1 y2] by (cases "y1 = y2") (simp_all add: pq del: point_double.simps)
  next
    case False
    then have "emb x1 \<noteq> emb x2" using emb_inject ok by simp
    then show ?thesis
      using False x3 y3 by (simp add: pq Let_def lam_def [symmetric] x3_def [symmetric] y3_def [symmetric] third_def flip: lam(2))
  qed
qed (use p q in simp_all)

lemma emb_is_on_curve:
  assumes "hw_ok hw" "point_limbs c p"
  shows "is_on_curve hw c p \<longleftrightarrow> p \<noteq> Infinity \<and> point_ok c p \<and> on_curve (curve_a c) (emb (curve_b c)) (emb_pt emb p)"
proof (cases p)
  case (Affine x y)
  have can: "is_canonical c x \<longleftrightarrow> fe_ok c x" "is_canonical c y \<longleftrightarrow> fe_ok c y" using assms(2) by (simp_all add: Affine is_canonical_iff fe_ok_def)
  show ?thesis
  proof (cases "fe_ok c x \<and> fe_ok c y")
    case True
    note ok = True [THEN conjunct1] True [THEN conjunct2] assms(1)
    define lhs where "lhs = fe_add (fe_square c y) (fe_multiply hw c x y)"
    define rhs where "rhs = (case c of M163 \<Rightarrow> fe_add (fe_add (fe_multiply hw c x (fe_square c x)) (fe_square c x)) (curve_b c)
      | M257 \<Rightarrow> fe_add (fe_multiply hw c x (fe_square c x)) (curve_b c))"
    have l: "fe_ok c lhs" "emb lhs = emb y * emb y + emb x * emb y" using ok by (simp_all add: lhs_def closed embs)
    have r: "fe_ok c rhs" "emb rhs = emb x * emb x * emb x + curve_a c * (emb x * emb x) + emb (curve_b c)"
    proof -
      have "fe_ok c (fe_add (fe_multiply hw c x (fe_square c x)) (curve_b c))"
        "emb (fe_add (fe_multiply hw c x (fe_square c x)) (curve_b c)) = emb x * emb x * emb x + emb (curve_b c)"
        "fe_ok c (fe_add (fe_add (fe_multiply hw c x (fe_square c x)) (fe_square c x)) (curve_b c))"
        "emb (fe_add (fe_add (fe_multiply hw c x (fe_square c x)) (fe_square c x)) (curve_b c)) = emb x * emb x * emb x + emb x * emb x + emb (curve_b c)"
        using ok by (simp_all add: closed embs)
      then show "fe_ok c rhs" "emb rhs = emb x * emb x * emb x + curve_a c * (emb x * emb x) + emb (curve_b c)" unfolding rhs_def by (cases c; simp)+
    qed
    have "is_on_curve hw c p \<longleftrightarrow> lhs = rhs" using True by (simp add: Affine can lhs_def rhs_def Let_def)
    also have "\<dots> \<longleftrightarrow> emb lhs = emb rhs" using emb_inject [OF l(1) r(1)] by simp
    finally show ?thesis using True by (simp add: Affine l r)
  qed (auto simp: Affine can)
qed simp


text \<open>The points of the group are the canonical points of the curve, and the group laws carry over.\<close>

lemma group_point_iff:
  assumes "hw_ok hw"
  shows "group_point hw c p \<longleftrightarrow> point_ok c p \<and> on_curve (curve_a c) (emb (curve_b c)) (emb_pt emb p)"
proof -
  have "point_ok c p \<Longrightarrow> point_limbs c p" by (cases p) (simp_all add: fe_ok_def)
  then show ?thesis using emb_is_on_curve [OF assms, of p] by (cases p) (auto simp: group_point_def)
qed

lemma emb_times:
  assumes "hw_ok hw" "point_ok c p"
  shows "point_ok c (point_times hw c n p) \<and> emb_pt emb (point_times hw c n p) = pt_mult (curve_a c) n (emb_pt emb p)"
  using assms by (induction n) (simp_all add: emb_point_add)

lemma group_laws:
  assumes hw: "hw_ok hw" and g: "group_point hw c p" "group_point hw c q" "group_point hw c r"
  shows "group_point hw c (point_add hw c p q)" "group_point hw c (negate p)" "group_point hw c (point_times hw c n p)"
    "point_add hw c p q = point_add hw c q p"
    "point_add hw c (point_add hw c p q) r = point_add hw c p (point_add hw c q r)"
    "point_add hw c p (negate p) = Infinity"
proof -
  note ok = g [unfolded group_point_iff [OF hw]]
  note add = emb_point_add [OF hw] and neg = emb_negate
  show "group_point hw c (point_add hw c p q)" "group_point hw c (negate p)" "group_point hw c (point_times hw c n p)"
    using ok by (simp_all add: group_point_iff [OF hw] add neg emb_times [OF hw])
  have eqI: "x = y" if "point_ok c x" "point_ok c y" "emb_pt emb x = emb_pt emb y" for x y using that by (simp add: emb_pt_inject)
  show "point_add hw c p q = point_add hw c q p"
    using ok by (intro eqI) (simp_all add: add curve.pt_add_commute)
  show "point_add hw c (point_add hw c p q) r = point_add hw c p (point_add hw c q r)"
    using ok by (intro eqI) (simp_all add: add curve.pt_add_assoc)
  show "point_add hw c p (negate p) = Infinity"
    using ok by (intro eqI) (simp_all add: add neg curve.pt_add_commute)
qed

text \<open>The formulas of one ladder step, for two points whose difference has the abscissa \<open>x\<close>.\<close>

lemma ladder_formulas:
  assumes hw: "hw_ok hw" and ok: "fe_ok c x" "fe_ok c x1" "fe_ok c z1" "fe_ok c x2" "fe_ok c z2"
    and cv: "on_curve (curve_a c) (emb (curve_b c)) p1" "on_curve (curve_a c) (emb (curve_b c)) p2"
    and diff: "pt_add (curve_a c) (pt_neg p1) p2 = Pt (emb x) y"
    and rep: "xz (emb x1) (emb z1) p1" "xz (emb x2) (emb z2) p2"
  defines "z \<equiv> fe_square c (fe_add (fe_multiply hw c x1 z2) (fe_multiply hw c x2 z1))"
  shows "fe_ok c z" "fe_ok c (fe_add (fe_multiply hw c x z) (fe_multiply hw c (fe_multiply hw c (fe_multiply hw c x1 x2) z1) z2))"
    "xz (emb (fe_add (fe_multiply hw c x z) (fe_multiply hw c (fe_multiply hw c (fe_multiply hw c x1 x2) z1) z2))) (emb z) (pt_add (curve_a c) p1 p2)"
    "fe_ok c (fe_add (fe_square c (fe_square c x2)) (fe_multiply hw c (curve_b c) (fe_square c (fe_square c z2))))"
    "fe_ok c (fe_multiply hw c (fe_square c x2) (fe_square c z2))"
    "xz (emb (fe_add (fe_square c (fe_square c x2)) (fe_multiply hw c (curve_b c) (fe_square c (fe_square c z2)))))
       (emb (fe_multiply hw c (fe_square c x2) (fe_square c z2))) (pt_add (curve_a c) p2 p2)"
  using curve.xz_diff_add [OF cv diff rep] curve.xz_double [OF cv(2) rep(2)] ok hw by (simp_all add: z_def closed embs)

end

text \<open>A state of the ladder after the bits of \<open>n\<close>: the two pairs are \<open>nP\<close> and \<open>(n + 1)P\<close>.\<close>

fun ladder_state ::
  "dstu4145_curve \<Rightarrow> (u64 list \<Rightarrow> 'a::field) \<Rightarrow> 'a pt \<Rightarrow> nat \<Rightarrow> u64 list \<times> u64 list \<times> u64 list \<times> u64 list \<Rightarrow> bool" where
  "ladder_state c emb P n (x1, z1, x2, z2) \<longleftrightarrow>
     fe_ok c x1 \<and> fe_ok c z1 \<and> fe_ok c x2 \<and> fe_ok c z2 \<and>
     xz (emb x1) (emb z1) (pt_mult (curve_a c) n P) \<and> xz (emb x2) (emb z2) (pt_mult (curve_a c) (Suc n) P)"

context field_embedding
begin

lemma ladder_step_state:
  assumes hw: "hw_ok hw" and x: "fe_ok c x" and P: "P = Pt (emb x) y" "on_curve (curve_a c) (emb (curve_b c)) P"
    and k: "bit_at c k i = of_bool \<beta>" and st: "ladder_state c emb P n st"
  shows "ladder_state c emb P (2 * n + of_bool \<beta>) (ladder_step hw c x k i st)"
proof -
  obtain x1 z1 x2 z2 where s: "st = (x1, z1, x2, z2)" by (cases st)
  note ok = st [unfolded s ladder_state.simps]
  let ?p = "pt_mult (curve_a c) n P" and ?q = "pt_mult (curve_a c) (Suc n) P"
  have len: "length x1 = length x2" "length z1 = length z2" using ok by (simp_all add: fe_ok_def)
  have cv: "on_curve (curve_a c) (emb (curve_b c)) ?p" "on_curve (curve_a c) (emb (curve_b c)) ?q"
    using P(2) curve.on_curve_mult by blast+
  have pq: "?q = pt_add (curve_a c) ?p P" by simp
  have d1: "pt_add (curve_a c) (pt_neg ?p) ?q = P"
    unfolding pq using cv P(2) by (subst curve.pt_add_assoc [symmetric]) (simp_all add: curve.pt_add_commute [of "pt_neg ?p"])
  then have d1': "pt_add (curve_a c) (pt_neg ?p) ?q = Pt (emb x) y" by (simp only: P(1))
  have "pt_add (curve_a c) (pt_neg ?q) ?p = pt_neg (pt_add (curve_a c) (pt_neg ?p) ?q)"
    using cv by (simp add: curve.pt_neg_add curve.pt_add_commute del: pt_mult.simps)
  then have d2: "pt_add (curve_a c) (pt_neg ?q) ?p = Pt (emb x) (emb x + y)" unfolding d1 by (simp add: P(1))
  have sums: "pt_add (curve_a c) ?p ?q = pt_mult (curve_a c) (Suc (2 * n)) P" "pt_add (curve_a c) ?q ?q = pt_mult (curve_a c) (Suc (Suc (2 * n))) P"
    "pt_add (curve_a c) ?q ?p = pt_mult (curve_a c) (Suc (2 * n)) P" "pt_add (curve_a c) ?p ?p = pt_mult (curve_a c) (2 * n) P"
    using P(2) by (simp_all add: mult_2 del: pt_mult.simps flip: curve.pt_mult_add)
  have run: "ladder_step hw c x k i st = (if \<beta> then (X, Z, X', Z') else (X', Z', X, Z))"
    if "(u1, u2) = (if \<beta> then (x1, x2) else (x2, x1))" "(v1, v2) = (if \<beta> then (z1, z2) else (z2, z1))"
      "Z = fe_square c (fe_add (fe_multiply hw c u1 v2) (fe_multiply hw c u2 v1))"
      "X = fe_add (fe_multiply hw c x Z) (fe_multiply hw c (fe_multiply hw c (fe_multiply hw c u1 u2) v1) v2)"
      "X' = fe_add (fe_square c (fe_square c u2)) (fe_multiply hw c (curve_b c) (fe_square c (fe_square c v2)))"
      "Z' = fe_multiply hw c (fe_square c u2) (fe_square c v2)" "length X = length X'" "length Z = length Z'" for u1 u2 v1 v2 X Z X' Z'
    using that len by (cases \<beta>) (simp_all add: s ladder_step_def Let_def k cswap_value [of _ _ True, simplified] cswap_value [of _ _ False, simplified])
  show ?thesis
  proof (cases \<beta>)
    case True
    note f = ladder_formulas [OF hw x, of x1 z1 x2 z2 ?p ?q y]
    show ?thesis using f run [of x1 x2 z1 z2] ok cv d1' by (simp add: True sums fe_ok_length del: pt_mult.simps)
  next
    case False
    note f = ladder_formulas [OF hw x, of x2 z2 x1 z1 ?q ?p "emb x + y"]
    show ?thesis using f run [of x2 x1 z2 z1] ok cv d2 by (simp add: False sums fe_ok_length del: pt_mult.simps)
  qed
qed


lemma ladder_loop:
  assumes hw: "hw_ok hw" and x: "fe_ok c x" and P: "P = Pt (emb x) y" "on_curve (curve_a c) (emb (curve_b c)) P"
    and k: "length k = sc_bytes c"
  shows "m \<le> fe_m c \<Longrightarrow> ladder_state c emb P n st \<Longrightarrow>
    ladder_state c emb P (n * 2 ^ m + take_bit m (be_value k)) (fold (ladder_step hw c x k) (rev [0..<m]) st)"
proof (induction m arbitrary: n st)
  case (Suc m)
  let ?b = "of_bool (bit (be_value k) m) :: nat"
  have "ladder_state c emb P (2 * n + ?b) (ladder_step hw c x k m st)"
    using ladder_step_state [OF hw x P bit_at_value [OF k] Suc.prems(2)] Suc.prems(1) by simp
  then have "ladder_state c emb P ((2 * n + ?b) * 2 ^ m + take_bit m (be_value k)) (fold (ladder_step hw c x k) (rev [0..<m]) (ladder_step hw c x k m st))"
    using Suc.prems(1) by (intro Suc.IH) simp
  moreover have "(2 * n + ?b) * 2 ^ m + take_bit m (be_value k) = n * 2 ^ Suc m + take_bit (Suc m) (be_value k)"
    by (simp add: take_bit_Suc_from_most algebra_simps)
  ultimately show ?case by simp
qed simp

text \<open>A point with abscissa zero is its own opposite, so its multiples alternate.\<close>

lemma order_two_multiple:
  "on_curve (curve_a c) (emb (curve_b c)) (Pt 0 y) \<Longrightarrow> pt_mult (curve_a c) n (Pt 0 y) = Inf \<or> pt_mult (curve_a c) (Suc n) (Pt 0 y) = Inf"
  by (induction n) auto

text \<open>The ordinate after the ladder: the recovery formula, or \<open>-P\<close> when \<open>(n + 1)P\<close> is the identity.\<close>

lemma ladder_ordinate:
  assumes on: "on_curve (curve_a c) (emb (curve_b c)) (Pt x y)" and n: "pt_mult (curve_a c) n (Pt x y) = Pt X Y"
    and x2: "xz X2 Z2 (pt_mult (curve_a c) (Suc n) (Pt x y))"
  shows "Y = (if Z2 = 0 then x + y else 1 / x * (X + x) * ((X + x) * (X2 / Z2 + x) + x * x + y) + y)"
proof (cases "pt_mult (curve_a c) (Suc n) (Pt x y)")
  case Inf
  then have "pt_mult (curve_a c) n (Pt x y) = pt_neg (Pt x y)"
    using curve.pt_add_cancel'(1) [of "pt_mult (curve_a c) n (Pt x y)" "Pt x y"] on by simp
  then show ?thesis using n Inf x2 by simp
next
  case (Pt X' Y')
  have sum: "pt_add (curve_a c) (Pt X Y) (Pt x y) = Pt X' Y'" using Pt n by simp
  have on': "on_curve (curve_a c) (emb (curve_b c)) (Pt X Y)" using curve.on_curve_mult [OF on, of n] n by simp
  have "x \<noteq> 0" using order_two_multiple [of y n] on Pt n by (auto simp del: pt_mult.simps)
  then show ?thesis using curve.recover_y [OF on on' _ sum] x2 Pt by (simp del: pt_mult.simps)
qed

lemma ladder_result:
  assumes hw: "hw_ok hw" and g: "group_point hw c (Affine x y)" and k: "length k = sc_bytes c"
  obtains x1 z1 x2 z2 where
    "fold (ladder_step hw c x k) (rev [0..<fe_m c]) (fe_ONE c, fe_ZERO c, x, fe_ONE c) = (x1, z1, x2, z2)"
    "ladder_state c emb (Pt (emb x) (emb y)) (take_bit (fe_m c) (be_value k)) (x1, z1, x2, z2)"
proof -
  let ?P = "Pt (emb x) (emb y)"
  have ok: "fe_ok c x" "fe_ok c y" "on_curve (curve_a c) (emb (curve_b c)) ?P" using g by (simp_all add: group_point_iff [OF hw])
  obtain x1 z1 x2 z2 where f: "fold (ladder_step hw c x k) (rev [0..<fe_m c]) (fe_ONE c, fe_ZERO c, x, fe_ONE c) = (x1, z1, x2, z2)"
    by (metis prod_cases4)
  have "ladder_state c emb ?P (0 * 2 ^ fe_m c + take_bit (fe_m c) (be_value k)) (x1, z1, x2, z2)"
    unfolding f [symmetric] by (rule ladder_loop [OF hw ok(1) refl ok(3) k order_refl]) (simp add: closed ok)
  then show ?thesis using that f by simp
qed

lemma emb_scalar_multiply:
  assumes hw: "hw_ok hw" and g: "group_point hw c p" and k: "length k = sc_bytes c"
  defines "n \<equiv> take_bit (fe_m c) (be_value k)"
  shows "point_ok c (point_scalar_multiply hw c p k) \<and> emb_pt emb (point_scalar_multiply hw c p k) = pt_mult (curve_a c) n (emb_pt emb p)"
proof (cases p)
  case (Affine x y)
  let ?P = "Pt (emb x) (emb y)"
  have ok: "fe_ok c x" "fe_ok c y" "on_curve (curve_a c) (emb (curve_b c)) ?P" using g by (simp_all add: group_point_iff [OF hw] Affine)
  obtain x1 z1 x2 z2 where f: "fold (ladder_step hw c x k) (rev [0..<fe_m c]) (fe_ONE c, fe_ZERO c, x, fe_ONE c) = (x1, z1, x2, z2)"
      and "ladder_state c emb ?P n (x1, z1, x2, z2)"
    using ladder_result [OF hw _ k] g unfolding Affine n_def by metis
  then have st: "fe_ok c x1" "fe_ok c z1" "fe_ok c x2" "fe_ok c z2"
      "xz (emb x1) (emb z1) (pt_mult (curve_a c) n ?P)" "xz (emb x2) (emb z2) (pt_mult (curve_a c) (Suc n) ?P)" by simp_all
  show ?thesis
  proof (cases "pt_mult (curve_a c) n ?P")
    case Inf
    then have "is_zero_mask z1 \<noteq> 0" using st by (simp add: is_zero_mask_value lv_eq_zero)
    then show ?thesis using Inf by (simp add: Affine f)
  next
    case (Pt X1 Y1)
    have z1: "emb z1 \<noteq> 0" "emb x1 = X1 * emb z1" using st(5) Pt by simp_all
    define xa where "xa = fe_multiply hw c x1 (fe_invert hw c z1)"
    define t where "t = fe_add (fe_multiply hw c x2 (fe_invert hw c z2)) x"
    define ya where "ya = fe_add (fe_multiply hw c (fe_multiply hw c (fe_invert hw c x) (fe_add xa x))
      (fe_add (fe_add (fe_multiply hw c (fe_add xa x) t) (fe_square c x)) y)) y"
    have xa: "fe_ok c xa" "emb xa = X1" using st z1 hw by (simp_all add: xa_def closed embs)
    have t: "fe_ok c t" "emb t = emb x2 / emb z2 + emb x" using st ok hw by (simp_all add: t_def closed embs divide_inverse)
    have ya: "fe_ok c ya" "emb ya = 1 / emb x * (X1 + emb x) * ((X1 + emb x) * emb t + emb x * emb x + emb y) + emb y"
      using ok xa t(1) hw by (simp_all add: ya_def closed embs divide_inverse)
    have xy: "fe_ok c (fe_add x y)" "emb (fe_add x y) = emb x + emb y" using ok by (simp_all add: closed embs)
    have "lv z1 \<noteq> 0" using lv_eq_zero [OF st(2)] z1 by simp
    then have "point_scalar_multiply hw c p k = Affine xa (if emb z2 = 0 then fe_add x y else ya)"
      using mask_select_value [of "fe_add x y" ya "lv z2 = 0"] lv_eq_zero [OF st(4)] xy ya(1)
      by (simp add: Affine f is_zero_mask_value Let_def fe_ok_length flip: xa_def t_def ya_def)
    then show ?thesis using ladder_ordinate [OF ok(3) Pt st(6)] xa xy ya Pt by (simp add: Affine t(2))
  qed
qed simp

end
section \<open>The projective fast path\<close>

context binary_curve
begin

lemma combine_add:
  assumes "on_curve a b p" "on_curve a b q"
  shows "pt_add a (pt_add a (pt_mult a u p) (pt_mult a v q)) (pt_add a (pt_mult a u' p) (pt_mult a v' q)) =
    pt_add a (pt_mult a (u + u') p) (pt_mult a (v + v') q)"
proof -
  let ?u = "pt_mult a u p" and ?v = "pt_mult a v q" and ?u' = "pt_mult a u' p" and ?v' = "pt_mult a v' q"
  have c: "on_curve a b ?u" "on_curve a b ?v" "on_curve a b ?u'" "on_curve a b ?v'" using assms by simp_all
  have "pt_add a (pt_add a ?u ?v) (pt_add a ?u' ?v') = pt_add a ?u (pt_add a (pt_add a ?v ?u') ?v')" using c by (simp add: pt_add_assoc)
  also have "\<dots> = pt_add a ?u (pt_add a (pt_add a ?u' ?v) ?v')" using c by (simp add: pt_add_commute [of ?v])
  also have "\<dots> = pt_add a (pt_add a ?u ?u') (pt_add a ?v ?v')" using c by (simp add: pt_add_assoc)
  finally show ?thesis using assms by (simp add: pt_mult_add)
qed

end

text \<open>What a projective point stands for.\<close>

definition projective_rep :: "projective_point \<Rightarrow> gf163 pt \<Rightarrow> bool" where
  "projective_rep p P \<longleftrightarrow> fe_ok M163 (px p) \<and> fe_ok M163 (py p) \<and> fe_ok M163 (pz p) \<and>
     ld (emb163 (px p)) (emb163 (py p)) (emb163 (pz p)) P"

abbreviation on163 :: "gf163 pt \<Rightarrow> bool" where
  "on163 \<equiv> on_curve (curve_a M163) (emb163 (curve_b M163))"

lemma from_affine_rep: "point_ok M163 p \<Longrightarrow> projective_rep (from_affine p) (emb_pt emb163 p)"
  by (cases p) (simp_all add: projective_rep_def fe163.closed)

lemma projective_zero: "projective_rep p P \<Longrightarrow> pz p = fe_ZERO M163 \<longleftrightarrow> P = Inf"
  using fe163.emb_eq_zero [of "pz p"] by (cases P) (simp_all add: projective_rep_def)

lemma projective_double_rep:
  assumes hw: "hw_ok hw" and r: "projective_rep p P" and c: "on163 P"
  shows "projective_rep (projective_double hw p) (pt_add (curve_a M163) P P)"
proof (cases "pz p = fe_ZERO M163")
  case True
  then show ?thesis using r projective_zero [OF r] by (simp add: projective_double_def)
next
  case False
  have ok: "fe_ok M163 (px p)" "fe_ok M163 (py p)" "fe_ok M163 (pz p)" and rep: "ld (emb163 (px p)) (emb163 (py p)) (emb163 (pz p)) P"
    using r by (simp_all add: projective_rep_def)
  have "emb163 (pz p) \<noteq> 0" using False fe163.emb_eq_zero ok(3) by simp
  from fe163.curve.ld_double [OF c rep this refl refl refl refl refl] show ?thesis
    using ok hw False by (simp add: projective_double_def Let_def projective_rep_def fe163.closed fe163.embs)
qed

lemma mixed_add_rep:
  assumes hw: "hw_ok hw" and r: "projective_rep p P" and c: "on163 P" "on163 (emb_pt emb163 q)" and q: "point_ok M163 q"
  shows "projective_rep (mixed_add hw p q) (pt_add (curve_a M163) P (emb_pt emb163 q))"
proof (cases q)
  case Infinity
  then show ?thesis using r by (cases P) simp_all
next
  case (Affine x2 y2)
  have ok: "fe_ok M163 (px p)" "fe_ok M163 (py p)" "fe_ok M163 (pz p)" "fe_ok M163 x2" "fe_ok M163 y2"
      and rep: "ld (emb163 (px p)) (emb163 (py p)) (emb163 (pz p)) P" and c2: "on163 (Pt (emb163 x2) (emb163 y2))"
    using r q c by (simp_all add: projective_rep_def Affine)
  define A where "A = fe_add (py p) (fe_multiply hw M163 y2 (fe_square M163 (pz p)))"
  define B where "B = fe_add (px p) (fe_multiply hw M163 x2 (pz p))"
  have A: "fe_ok M163 A" "emb163 A = emb163 (py p) + emb163 y2 * (emb163 (pz p) * emb163 (pz p))" using ok hw by (simp_all add: A_def fe163.closed fe163.embs)
  have B: "fe_ok M163 B" "emb163 B = emb163 (px p) + emb163 x2 * emb163 (pz p)" using ok hw by (simp_all add: B_def fe163.closed fe163.embs)
  note zero = fe163.emb_eq_zero [OF A(1)] fe163.emb_eq_zero [OF B(1)]
  consider (inf) "pz p = fe_ZERO M163" | (same) "pz p \<noteq> fe_ZERO M163" "B = fe_ZERO M163" | (chord) "pz p \<noteq> fe_ZERO M163" "B \<noteq> fe_ZERO M163"
    by blast
  then show ?thesis
  proof cases
    case inf
    then show ?thesis using from_affine_rep [OF q] projective_zero [OF r] by (simp add: Affine)
  next
    case same
    then have z: "emb163 (pz p) \<noteq> 0" using fe163.emb_eq_zero ok(3) by simp
    have b0: "emb163 (px p) + emb163 x2 * emb163 (pz p) = 0" using same zero(2) by (simp only: B(2))
    note s = fe163.curve.ld_mixed_add_same [OF c(1) c2 rep z b0, folded A(2)]
    have m: "mixed_add hw p q = (if A = fe_ZERO M163 then projective_double hw p else \<lparr>px = fe_ONE M163, py = fe_ONE M163, pz = fe_ZERO M163\<rparr>)"
      using same by (simp add: Affine Let_def A_def B_def)
    show ?thesis
    proof (cases "A = fe_ZERO M163")
      case True
      then have "P = emb_pt emb163 q" using s(1) zero(1) by (simp add: Affine)
      then show ?thesis using projective_double_rep [OF hw r c(1)] True by (simp only: m simp_thms if_True)
    next
      case False
      then have "pt_add (curve_a M163) P (emb_pt emb163 q) = Inf" using s(2) zero(1) by (simp add: Affine)
      then show ?thesis using from_affine_rep [of Infinity] False by (simp add: m)
    qed
  next
    case chord
    then have z: "emb163 (pz p) \<noteq> 0" using fe163.emb_eq_zero ok(3) by simp
    have nz: "emb163 B \<noteq> 0" using chord zero(2) by simp
    note l = fe163.curve.ld_mixed_add [OF c(1) c2 rep z A(2) B(2) nz refl refl refl refl]
    show ?thesis using l ok A(1) B(1) hw chord
      by (simp add: Affine Let_def A_def [symmetric] B_def [symmetric] projective_rep_def fe163.closed fe163.embs)
  qed
qed

lemma to_affine_rep:
  assumes hw: "hw_ok hw" and r: "projective_rep p P"
  shows "point_ok M163 (to_affine hw p) \<and> emb_pt emb163 (to_affine hw p) = P"
proof (cases P)
  case Inf
  then show ?thesis using projective_zero [OF r] by (simp add: to_affine_def)
next
  case (Pt x y)
  have "pz p \<noteq> fe_ZERO M163" "emb163 (pz p) \<noteq> 0" using projective_zero [OF r] r Pt by (simp_all add: projective_rep_def)
  moreover have "z * z * (inverse z * inverse z) = 1" if "z \<noteq> 0" for z :: gf163 using that by (simp add: ac_simps)
  ultimately show ?thesis
    using r Pt hw by (simp add: to_affine_def Let_def projective_rep_def fe163.closed fe163.embs mult.assoc [symmetric] del: fe_invert.simps)
qed

text \<open>Shamir's trick: the accumulator is \<open>uG + vQ\<close> for the bits read so far.\<close>

lemma shamir_entry_value:
  assumes hw: "hw_ok hw" and g: "group_point hw M163 g" "group_point hw M163 q" and k: "length s = 21" "length r = 21" and i: "i < 163"
  shows "point_ok M163 (shamir_entry hw g s q r i)" "emb_pt emb163 (shamir_entry hw g s q r i) =
    pt_add (curve_a M163) (pt_mult (curve_a M163) (of_bool (bit (be_value s) i)) (emb_pt emb163 g))
      (pt_mult (curve_a M163) (of_bool (bit (be_value r) i)) (emb_pt emb163 q))"
proof -
  have ok: "point_ok M163 g" "point_ok M163 q" using g by (simp_all add: fe163.group_point_iff [OF hw])
  have "bit_at M163 s i = of_bool (bit (be_value s) i)" "bit_at M163 r i = of_bool (bit (be_value r) i)"
    using k i bit_at_value [of _ M163 i] by simp_all
  moreover have "pt_add (curve_a M163) p Inf = p" for p :: "gf163 pt" by (cases p) simp_all
  ultimately show "point_ok M163 (shamir_entry hw g s q r i)" "emb_pt emb163 (shamir_entry hw g s q r i) =
    pt_add (curve_a M163) (pt_mult (curve_a M163) (of_bool (bit (be_value s) i)) (emb_pt emb163 g))
      (pt_mult (curve_a M163) (of_bool (bit (be_value r) i)) (emb_pt emb163 q))"
    using fe163.emb_point_add [OF hw ok] ok
    by (cases "bit (be_value s) i"; cases "bit (be_value r) i"; simp add: shamir_entry_def Let_def del: curve_a.simps)+
qed

lemma shamir_loop:
  assumes hw: "hw_ok hw" and g: "group_point hw M163 g" "group_point hw M163 q" and k: "length s = 21" "length r = 21"
  defines "C \<equiv> \<lambda>u v. pt_add (curve_a M163) (pt_mult (curve_a M163) u (emb_pt emb163 g)) (pt_mult (curve_a M163) v (emb_pt emb163 q))"
  shows "m \<le> 163 \<Longrightarrow> projective_rep acc (C u v) \<Longrightarrow>
    projective_rep (fold (shamir_step hw g s q r) (rev [0..<m]) acc) (C (u * 2 ^ m + take_bit m (be_value s)) (v * 2 ^ m + take_bit m (be_value r)))"
proof (induction m arbitrary: acc u v)
  case (Suc m)
  have on: "on163 (emb_pt emb163 g)" "on163 (emb_pt emb163 q)" using g by (simp_all add: fe163.group_point_iff [OF hw])
  have cC: "on163 (C u v)" for u v using on unfolding C_def by (intro fe163.curve.on_curve_add fe163.curve.on_curve_mult)
  have add: "pt_add (curve_a M163) (C u v) (C u' v') = C (u + u') (v + v')" for u v u' v'
    unfolding C_def by (rule fe163.curve.combine_add [OF on])
  define bs br where "bs = (of_bool (bit (be_value s) m) :: nat)" and "br = (of_bool (bit (be_value r) m) :: nat)"
  have m: "m < 163" using Suc.prems(1) by simp
  have e: "point_ok M163 (shamir_entry hw g s q r m)" "emb_pt emb163 (shamir_entry hw g s q r m) = C bs br"
    using shamir_entry_value [OF hw g k m] unfolding C_def bs_def br_def .
  have d: "projective_rep (projective_double hw acc) (C (2 * u) (2 * v))"
    using projective_double_rep [OF hw Suc.prems(2) cC] by (simp only: add mult_2)
  have "projective_rep (mixed_add hw (projective_double hw acc) (shamir_entry hw g s q r m)) (C (2 * u + bs) (2 * v + br))"
    using mixed_add_rep [OF hw d cC, of "shamir_entry hw g s q r m"] cC unfolding e(2) add using e(1) by blast
  then have "projective_rep (shamir_step hw g s q r m acc) (C (2 * u + bs) (2 * v + br))" by (auto simp: shamir_step_def Let_def)
  from Suc.IH [OF _ this] Suc.prems(1) have "projective_rep (fold (shamir_step hw g s q r) (rev [0..<Suc m]) acc)
      (C ((2 * u + bs) * 2 ^ m + take_bit m (be_value s)) ((2 * v + br) * 2 ^ m + take_bit m (be_value r)))" by simp
  moreover have "(2 * w + of_bool (bit x m)) * 2 ^ m + take_bit m x = w * 2 ^ Suc m + take_bit (Suc m) x" for w x :: nat
    by (simp add: take_bit_Suc_from_most algebra_simps)
  ultimately show ?case unfolding bs_def br_def by (simp only:)
qed simp

lemma find_top_bit:
  assumes "find P (rev [0..<m]) = Some t"
  shows "t < m" "P t" "\<And>i. t < i \<Longrightarrow> i < m \<Longrightarrow> \<not> P i"
proof -
  obtain j where j: "j < m" "P (rev [0..<m] ! j)" "t = rev [0..<m] ! j" "\<forall>i<j. \<not> P (rev [0..<m] ! i)"
    using assms by (auto simp: find_Some_iff)
  have t: "t = m - Suc j" using j(1,3) by (simp add: rev_nth)
  show "t < m" "P t" using t j by simp_all
  fix i assume i: "t < i" "i < m"
  then have "m - Suc i < j" "rev [0..<m] ! (m - Suc i) = i" using t j(1) by (simp_all add: rev_nth)
  then show "\<not> P i" using j(4) by metis
qed

lemma take_bit_top:
  assumes "t < m" "\<And>i. t < i \<Longrightarrow> i < m \<Longrightarrow> \<not> bit x i"
  shows "take_bit m x = of_bool (bit x t) * 2 ^ t + take_bit t (x :: nat)"
proof -
  have "bit (take_bit m x) i \<longleftrightarrow> bit (take_bit (Suc t) x) i" for i
    using assms by (cases "t < i") (auto simp: bit_simps not_less)
  then have "take_bit m x = take_bit (Suc t) x" by (intro bit_eqI)
  then show ?thesis by (simp add: take_bit_Suc_from_most)
qed

lemma shamir_value:
  assumes hw: "hw_ok hw" and g: "group_point hw M163 g" "group_point hw M163 q" and k: "length s = 21" "length r = 21"
  defines "p \<equiv> shamir_double_scalar_multiply hw g s q r"
  shows "point_ok M163 p \<and> emb_pt emb163 p = pt_add (curve_a M163) (pt_mult (curve_a M163) (take_bit 163 (be_value s)) (emb_pt emb163 g))
    (pt_mult (curve_a M163) (take_bit 163 (be_value r)) (emb_pt emb163 q))"
proof -
  define F where "F = (\<lambda>i. bit_at M163 s i \<noteq> 0 \<or> bit_at M163 r i \<noteq> 0)"
  have F: "F i \<longleftrightarrow> bit (be_value s) i \<or> bit (be_value r) i" if "i < 163" for i
    using that k bit_at_value [of _ M163 i] by (auto simp: F_def)
  show ?thesis
  proof (cases "find F (rev [0..<163])")
    case None
    then have "\<not> bit (be_value s) i" "\<not> bit (be_value r) i" if "i < 163" for i using F that by (auto simp: find_None_iff)
    then have "take_bit 163 (be_value s) = 0" "take_bit 163 (be_value r) = 0" by (auto intro!: bit_eqI simp: bit_simps)
    then show ?thesis using None by (simp add: p_def shamir_double_scalar_multiply_def F_def)
  next
    case (Some t)
    have t: "t < 163" "\<And>i. t < i \<Longrightarrow> i < 163 \<Longrightarrow> \<not> bit (be_value s) i" "\<And>i. t < i \<Longrightarrow> i < 163 \<Longrightarrow> \<not> bit (be_value r) i"
      using find_top_bit [OF Some] F by auto
    note e = shamir_entry_value [OF hw g k t(1)]
    have top: "take_bit 163 (be_value s) = of_bool (bit (be_value s) t) * 2 ^ t + take_bit t (be_value s)"
        "take_bit 163 (be_value r) = of_bool (bit (be_value r) t) * 2 ^ t + take_bit t (be_value r)"
      by (rule take_bit_top; use t in blast)+
    have "projective_rep (fold (shamir_step hw g s q r) (rev [0..<t]) (from_affine (shamir_entry hw g s q r t)))
        (pt_add (curve_a M163) (pt_mult (curve_a M163) (take_bit 163 (be_value s)) (emb_pt emb163 g))
          (pt_mult (curve_a M163) (take_bit 163 (be_value r)) (emb_pt emb163 q)))"
      unfolding top using shamir_loop [OF hw g k, of t] from_affine_rep [OF e(1)] t(1) unfolding e(2) by simp
    from to_affine_rep [OF hw this] show ?thesis using Some by (simp add: p_def shamir_double_scalar_multiply_def F_def)
  qed
qed

section \<open>Scalar multiplication on limbs\<close>

context field_embedding
begin

lemma scalar_multiply_times:
  assumes "hw_ok hw" "group_point hw c p" "length k = sc_bytes c"
  shows "point_scalar_multiply hw c p k = point_times hw c (take_bit (fe_m c) (be_value k)) p"
proof -
  have "point_ok c p" using assms(1,2) by (simp add: group_point_iff)
  then show ?thesis
    using emb_pt_inject [of "point_scalar_multiply hw c p k" "point_times hw c (take_bit (fe_m c) (be_value k)) p"]
      emb_scalar_multiply [OF assms] emb_times [OF assms(1)] by simp
qed

end

lemma curve_times_closed:
  assumes "hw_ok hw" "group_point hw c p"
  shows "group_point hw c (point_times hw c n p)"
  using fe163.group_laws(3) [of hw p p p n] fe257.group_laws(3) [of hw p p p n] assms by (cases c) simp_all

lemma curve_point_ok:
  assumes "hw_ok hw" "group_point hw c p"
  shows "point_ok c p"
  using fe163.group_point_iff [of hw p] fe257.group_point_iff [of hw p] assms by (cases c) simp_all

lemma combine_times163:
  assumes "hw_ok hw" "group_point hw M163 g" "group_point hw M163 q" "length s = 21" "length r = 21"
    "be_value s < 2 ^ 163" "be_value r < 2 ^ 163"
  shows "verify_combine small_tables hw g s q r =
    point_add hw M163 (point_times hw M163 (be_value s) g) (point_times hw M163 (be_value r) q)"
proof -
  have ok: "point_ok M163 g" "point_ok M163 q" using assms(1-3) by (simp_all add: fe163.group_point_iff)
  note t = fe163.emb_times [OF assms(1) ok(1), of "be_value s"] fe163.emb_times [OF assms(1) ok(2), of "be_value r"]
  note sh = shamir_value [OF assms(1-5), unfolded take_bit_nat_eq_self [OF assms(6)] take_bit_nat_eq_self [OF assms(7)]]
  have "shamir_double_scalar_multiply hw g s q r = point_add hw M163 (point_times hw M163 (be_value s) g) (point_times hw M163 (be_value r) q)"
    using sh t fe163.emb_point_add [OF assms(1)] by (intro fe163.emb_pt_inject [THEN iffD1]) (simp_all del: curve_a.simps)
  then show ?thesis
    using fe163.scalar_multiply_times [OF assms(1,2), of s] fe163.scalar_multiply_times [OF assms(1,3), of r] assms(4-)
    by (simp add: verify_combine_def take_bit_nat_eq_self)
qed

lemma curve_scalar_multiply:
  assumes "hw_ok hw" "group_point hw c p" "length k = sc_bytes c" "be_value k < 2 ^ fe_m c"
  shows "point_scalar_multiply hw c p k = point_times hw c (be_value k) p"
  using fe163.scalar_multiply_times [of hw p k] fe257.scalar_multiply_times [of hw p k] assms
  by (cases c) (simp_all only: take_bit_nat_eq_self)

end
