(* ===== verification/Gf2_Calc.thy ===== *)
theory Gf2_Calc
  imports Gf2_Types
begin

text \<open>
  Multiplication of polynomials as lists of coefficients, for calculations in the kernel: the points of the
  curves that the development names are checked with it.
\<close>

section \<open>Products of coefficient lists\<close>

fun mul_acc :: "bool list \<Rightarrow> bool list \<Rightarrow> bool list \<Rightarrow> bool list" where
  "mul_acc z [] ys = z"
| "mul_acc z (True # xs) ys = bit_xors ys (False # mul_acc z xs ys)"
| "mul_acc z (False # xs) ys = False # mul_acc z xs ys"

text \<open>\<open>r\<close> is a list of \<open>m\<close> coefficients, all zero.\<close>

definition mul_bits :: "nat list \<Rightarrow> bool list \<Rightarrow> bool list \<Rightarrow> bool list \<Rightarrow> bool list" where
  "mul_bits ts r xs ys = fold_bits ts r (fold_bits ts r (mul_acc r xs ys))"

lemma mul_acc_value:
  assumes "True \<notin> set z" "length ys = length z"
  shows "length (mul_acc z xs ys) = length z + length xs" "bits_value (mul_acc z xs ys) = clmul (bits_value xs) (bits_value ys)"
proof (induction xs)
  case (Cons x xs)
  {
    case 1
    show ?case using Cons(1) assms(2) by (cases x) simp_all
  next
    case 2
    have "clmul (bits_value (x # xs)) (bits_value ys) = (if x then bits_value ys else 0) XOR 2 * clmul (bits_value xs) (bits_value ys)"
      by (simp only: bits_value_Cons clmul_xor_left) (simp add: clmul_commute [of _ "bits_value ys"] clmul_double_right)
    then show ?case using Cons(2) by (cases x) (simp_all add: bits_value_xors bits_value_Cons)
  }
qed (simp_all add: assms bits_value_zero)

lemma mul_bits_value:
  assumes t: "\<forall>t\<in>set ts. 2 * t \<le> m" and z: "True \<notin> set r" "length r = m" "0 < m" and l: "length xs = m" "length ys = m"
  shows "length (mul_bits ts r xs ys) = m" "bits_value (mul_bits ts r xs ys) = gmul m ts (bits_value xs) (bits_value ys)"
proof -
  have tm: "\<forall>t\<in>set ts. t < m" using t z(3) by fastforce
  note acc = mul_acc_value [OF z(1), of ys xs]
  have 1: "length (fold_bits ts r (mul_acc r xs ys)) \<le> m + m div 2" "m \<le> length (fold_bits ts r (mul_acc r xs ys))"
    using length_fold_bits [of ts r "mul_acc r xs ys" m] t z l acc by simp_all
  show len: "length (mul_bits ts r xs ys) = m"
    using length_fold_bits [of ts r "fold_bits ts r (mul_acc r xs ys)" "m div 2"] t z 1 by (simp add: mul_bits_def)
  have "pcong (modulus m ts) (bits_value (mul_bits ts r xs ys)) (bits_value (mul_acc r xs ys))"
    unfolding mul_bits_def using fold_bits_cong [OF z(2) tm] pcong_trans by blast
  then show "bits_value (mul_bits ts r xs ys) = gmul m ts (bits_value xs) (bits_value ys)"
    using bits_value_less [of xs] bits_value_less [of ys] bits_value_less [of "mul_bits ts r xs ys"] acc l z len
    by (intro gmul_eqI [OF tm, symmetric]) simp_all
qed

section \<open>The two fields\<close>

abbreviation mul163 :: "bool list \<Rightarrow> bool list \<Rightarrow> bool list" where
  "mul163 \<equiv> mul_bits [0, 3, 6, 7] (replicate 163 False)"

abbreviation mul257 :: "bool list \<Rightarrow> bool list \<Rightarrow> bool list" where
  "mul257 \<equiv> mul_bits [0, 12] (replicate 257 False)"

definition gf163_bits :: "bool list \<Rightarrow> gf163" where
  "gf163_bits xs = Abs_gf163 (bits_value xs)"

definition gf257_bits :: "bool list \<Rightarrow> gf257" where
  "gf257_bits xs = Abs_gf257 (bits_value xs)"

lemma bits_value_fits: "length xs \<le> m \<Longrightarrow> bits_value xs < 2 ^ m"
  by (rule less_le_trans [OF bits_value_less power_increasing]) simp_all

lemma Rep_gf163_bits: "length xs \<le> 163 \<Longrightarrow> Rep_gf163 (gf163_bits xs) = bits_value xs"
  unfolding gf163_bits_def by (rule Abs_gf163_inverse) (simp only: mem_Collect_eq bits_value_fits)

lemma Rep_gf257_bits: "length xs \<le> 257 \<Longrightarrow> Rep_gf257 (gf257_bits xs) = bits_value xs"
  unfolding gf257_bits_def by (rule Abs_gf257_inverse) (simp only: mem_Collect_eq bits_value_fits)

lemma gf163_bits_calc:
  shows "length xs \<le> 163 \<Longrightarrow> length ys \<le> 163 \<Longrightarrow> gf163_bits (bit_xors xs ys) = gf163_bits xs + gf163_bits ys"
    and "length xs = 163 \<Longrightarrow> length ys = 163 \<Longrightarrow> gf163_bits (mul163 xs ys) = gf163_bits xs * gf163_bits ys"
    and "length xs = 163 \<Longrightarrow> gf163_bits (square_bits [0, 3, 6, 7] xs) = gf163_bits xs * gf163_bits xs"
    and "gf163_bits [True] = 1"
  using mul_bits_value [of "[0, 3, 6, 7]" 163 "replicate 163 False" xs ys] square_bits_value [of "[0, 3, 6, 7]" 163 xs]
  by (auto simp: Rep_gf163_bits plus_gf163.rep_eq times_gf163.rep_eq one_gf163.rep_eq bits_value_xors simp flip: Rep_gf163_inject)

lemma gf257_bits_calc:
  shows "length xs \<le> 257 \<Longrightarrow> length ys \<le> 257 \<Longrightarrow> gf257_bits (bit_xors xs ys) = gf257_bits xs + gf257_bits ys"
    and "length xs = 257 \<Longrightarrow> length ys = 257 \<Longrightarrow> gf257_bits (mul257 xs ys) = gf257_bits xs * gf257_bits ys"
    and "length xs = 257 \<Longrightarrow> gf257_bits (square_bits [0, 12] xs) = gf257_bits xs * gf257_bits xs"
  using mul_bits_value [of "[0, 12]" 257 "replicate 257 False" xs ys] square_bits_value [of "[0, 12]" 257 xs]
  by (auto simp: Rep_gf257_bits plus_gf257.rep_eq times_gf257.rep_eq bits_value_xors simp flip: Rep_gf257_inject)

lemma gf163_bits_eq: "same_bits xs ys \<Longrightarrow> gf163_bits xs = gf163_bits ys"
  by (simp add: gf163_bits_def same_bits_value)

lemma gf257_bits_eq: "same_bits xs ys \<Longrightarrow> gf257_bits xs = gf257_bits ys"
  by (simp add: gf257_bits_def same_bits_value)

lemma bits_value_nonzero: "True \<in> set xs \<Longrightarrow> bits_value xs \<noteq> 0"
  by (induction xs) auto

lemma gf163_bits_nonzero: "length xs \<le> 163 \<Longrightarrow> True \<in> set xs \<Longrightarrow> gf163_bits xs \<noteq> 0"
  using bits_value_nonzero [of xs] by (auto simp: Rep_gf163_bits zero_gf163.rep_eq simp flip: Rep_gf163_inject)

lemma mul_square_length:
  "length xs = 163 \<Longrightarrow> length ys = 163 \<Longrightarrow> length (mul163 xs ys) = 163"
  "length xs = 163 \<Longrightarrow> length (square_bits [0, 3, 6, 7] xs) = 163"
  "length us = 257 \<Longrightarrow> length vs = 257 \<Longrightarrow> length (mul257 us vs) = 257"
  "length us = 257 \<Longrightarrow> length (square_bits [0, 12] us) = 257"
  by (rule mul_bits_value(1) square_bits_value(1); simp)+

end
