(* ===== verification/Dstu4145_Generator.thy ===== *)
theory Dstu4145_Generator
  imports Dstu4145_Group Gf2_Calc
begin

text \<open>
  The base points of \<open>curve163.rs\<close> and \<open>curve257.rs\<close> lie on their curves, and \<open>n\<close> times the base point
  of the 163-bit curve is the identity, for the \<open>n\<close> of \<open>curve163::order\<close>. The second fact is checked along
  a chain of doublings and additions: a point is kept as \<open>(x, l)\<close> with \<open>y = x(l + x)\<close>, and every link
  names the slope it uses, so that a link costs a few products and no inversion.
\<close>

section \<open>Reading the constants\<close>

lemma bits_value_num: "bits_value (bits_of_num k) = numeral k" "bits_of_num k \<noteq> []" "last (bits_of_num k) = True"
  by (induction k) simp_all

lemma bits_value_butlast: "xs \<noteq> [] \<Longrightarrow> last xs \<Longrightarrow> bits_value (butlast xs) + 2 ^ (length xs - 1) = bits_value xs"
proof (induction xs)
  case (Cons x xs)
  then show ?case by (cases xs) auto
qed simp

lemma functional_value: "length (functional (numeral k)) = m \<Longrightarrow> bits_value (functional (numeral k)) + 2 ^ m = numeral k"
  using bits_value_butlast [of "bits_of_num k"] bits_value_num [of k]
  by (auto simp: functional_def bits_of_int_def num_of_nat_numeral_eq)

definition gx163 :: "bool list" where "gx163 = functional 0xF2D867F93A93AC27DF9FF01AFFE74885C8C540420"
definition gy163 :: "bool list" where "gy163 = functional 0x8224A9C3947852B97C5599D5F4AB81122ADC3FD9B"
definition lg163 :: "bool list" where "lg163 = functional 0xF3BEB6BD2B56221E5614FA83677DABAE1543F1A04"
definition b163 :: "bool list" where "b163 = functional 0xDFF6108462A2DC8210AB403925E638A19C1455D21"
definition gx257 :: "bool list" where "gx257 = functional 0x22A29EF207D0E9B6C55CD260B306C7E007AC491CA1B10C62334A9E8DCD8D20FB7"
definition gy257 :: "bool list" where "gy257 = functional 0x30686D41FF744D4449FCCF6D8EEA03102E6812C93A9D60B978B702CF156D814EF"
definition b257 :: "bool list" where "b257 = functional 0x3CEF494720115657E18F938D7A7942394FF9425C1458C57861F9EEA6ADBE3BE10"

lemma constants_length:
  "length gx163 = 163" "length gy163 = 163" "length lg163 = 163" "length b163 = 163"
  "length gx257 = 257" "length gy257 = 257" "length b257 = 257"
  by (simp_all add: gx163_def gy163_def lg163_def b163_def gx257_def gy257_def b257_def functional_def bits_of_int_def)

lemma functional_eq: "length (functional (numeral k)) = m \<Longrightarrow> numeral k = 2 ^ m + v \<Longrightarrow> bits_value (functional (numeral k)) = v"
  using functional_value [of k m] by simp

lemma constants_values:
  "bits_value gx163 = be_value curve163_gx" "bits_value gy163 = be_value curve163_gy" "bits_value b163 = be_value curve163_b"
  "bits_value gx257 = be_value curve257_gx" "bits_value gy257 = be_value curve257_gy" "bits_value b257 = be_value curve257_b"
  using constants_length unfolding gx163_def gy163_def b163_def gx257_def gy257_def b257_def
  by (auto intro!: functional_eq simp: be_value_def curve163_gx_def curve163_gy_def curve163_b_def curve257_gx_def curve257_gy_def curve257_b_def)

lemma emb163_const: "length xs = 163 \<Longrightarrow> length bs = 21 \<Longrightarrow> bits_value xs = be_value bs \<Longrightarrow> emb163 (fe_const M163 bs) = gf163_bits xs"
  using fe_const_value [of bs M163] bits_value_less [of xs] by (simp add: emb163_def gf163_bits_def)

lemma emb257_const: "length xs = 257 \<Longrightarrow> length bs = 33 \<Longrightarrow> bits_value xs = be_value bs \<Longrightarrow> emb257 (fe_const M257 bs) = gf257_bits xs"
  using fe_const_value [of bs M257] bits_value_less [of xs] by (simp add: emb257_def gf257_bits_def)

lemma constants163: "emb163 (curve_gx M163) = gf163_bits gx163" "emb163 (curve_gy M163) = gf163_bits gy163" "emb163 (curve_b M163) = gf163_bits b163"
  unfolding curve_gx_def curve_gy_def curve_b_def dstu4145_curve.case
  by (rule emb163_const; simp add: constants_values constants_length curve163_gx_def curve163_gy_def curve163_b_def)+

lemma constants257: "emb257 (curve_gx M257) = gf257_bits gx257" "emb257 (curve_gy M257) = gf257_bits gy257" "emb257 (curve_b M257) = gf257_bits b257"
  unfolding curve_gx_def curve_gy_def curve_b_def dstu4145_curve.case
  by (rule emb257_const; simp add: constants_values constants_length curve257_gx_def curve257_gy_def curve257_b_def)+

section \<open>The base points are on their curves\<close>

lemma generator_bits163:
  "same_bits (bit_xors (square_bits [0, 3, 6, 7] gy163) (mul163 gx163 gy163))
     (bit_xors (bit_xors (mul163 (square_bits [0, 3, 6, 7] gx163) gx163) (square_bits [0, 3, 6, 7] gx163)) b163)"
  by code_simp

lemma generator_bits257:
  "same_bits (bit_xors (square_bits [0, 12] gy257) (mul257 gx257 gy257)) (bit_xors (mul257 (square_bits [0, 12] gx257) gx257) b257)"
  by code_simp

lemma generator163_on: "on163 (emb_pt emb163 (generator M163))"
  using gf163_bits_eq [OF generator_bits163] constants_length
  by (simp add: generator_def constants163 gf163_bits_calc mul_square_length)

lemma generator257_on: "on_curve (curve_a M257) (emb257 (curve_b M257)) (emb_pt emb257 (generator M257))"
  using gf257_bits_eq [OF generator_bits257] constants_length
  by (simp add: generator_def constants257 gf257_bits_calc mul_square_length)

lemma generator_group: "hw_ok hw \<Longrightarrow> group_point hw c (generator c)"
  using fe163.group_point_iff [of hw "generator M163"] fe257.group_point_iff [of hw "generator M257"] generator163_on generator257_on generator_ok [of c]
  by (cases c) simp_all

section \<open>Chains\<close>

datatype chain_step = Dbl int | Add int int | Sub int int

definition add_end :: "bool list \<Rightarrow> bool list \<Rightarrow> bool list \<Rightarrow> bool list \<Rightarrow> bool list \<Rightarrow> bool list \<Rightarrow> bool list \<Rightarrow> (bool list \<times> bool list) option" where
  "add_end x qy u l3 y dx x3 =
     (if same_length x u \<and> same_length x l3 \<and> True \<in> set dx \<and> same_bits (mul163 u dx) (bit_xors y qy) \<and>
        same_bits (mul163 l3 x3) (bit_xors (square_bits [0, 3, 6, 7] x3) (bit_xors (bit_xors (mul163 u (bit_xors x x3)) x3) y))
      then Some (x3, l3) else None)"

definition add_mid :: "bool list \<Rightarrow> bool list \<Rightarrow> bool list \<Rightarrow> bool list \<Rightarrow> bool list \<Rightarrow> bool list \<Rightarrow> (bool list \<times> bool list) option" where
  "add_mid x qy u l3 y dx = add_end x qy u l3 y dx (bit_xors (bit_xors (bit_xors (square_bits [0, 3, 6, 7] u) u) [True]) dx)"

definition add_step :: "bool list \<Rightarrow> bool list \<Rightarrow> bool list \<Rightarrow> bool list \<Rightarrow> bool list \<Rightarrow> bool list \<Rightarrow> (bool list \<times> bool list) option" where
  "add_step x l qx qy u l3 = add_mid x qy u l3 (mul163 x (bit_xors l x)) (bit_xors x qx)"

definition dbl_end :: "bool list \<Rightarrow> bool list \<Rightarrow> bool list \<Rightarrow> bool list \<Rightarrow> (bool list \<times> bool list) option" where
  "dbl_end x l l3 x3 =
     (if True \<in> set x \<and> same_length x l3 \<and>
        same_bits (mul163 (bit_xors (bit_xors l3 l) [True]) x3) (square_bits [0, 3, 6, 7] (bit_xors x3 x))
      then Some (x3, l3) else None)"

fun run_step :: "bool list \<Rightarrow> bool list \<Rightarrow> chain_step \<Rightarrow> (bool list \<times> bool list) option" where
  "run_step x l (Dbl i) = dbl_end x l (functional i) (bit_xors (bit_xors (square_bits [0, 3, 6, 7] l) l) [True])"
| "run_step x l (Add i j) = add_step x l gx163 gy163 (functional i) (functional j)"
| "run_step x l (Sub i j) = add_step x l gx163 (bit_xors gx163 gy163) (functional i) (functional j)"

fun run_chain :: "(bool list \<times> bool list) option \<Rightarrow> chain_step list \<Rightarrow> bool list \<Rightarrow> bool list \<Rightarrow> bool" where
  "run_chain None ss x' l' = False"
| "run_chain (Some (x, l)) [] x' l' = (same_bits x x' \<and> same_bits l l' \<and> same_length x x' \<and> same_length l l')"
| "run_chain (Some (x, l)) (s # ss) x' l' = run_chain (run_step x l s) ss x' l'"

fun chain_value :: "chain_step list \<Rightarrow> nat \<Rightarrow> nat" where
  "chain_value [] k = k"
| "chain_value (Dbl i # ss) k = chain_value ss (2 * k)"
| "chain_value (Add i j # ss) k = chain_value ss (k + 1)"
| "chain_value (Sub i j # ss) k = chain_value ss (k - 1)"

text \<open>What a pair stands for.\<close>

definition chain_rep :: "bool list \<Rightarrow> bool list \<Rightarrow> gf163 pt \<Rightarrow> bool" where
  "chain_rep x l P \<longleftrightarrow> length x = 163 \<and> length l = 163 \<and> P = Pt (gf163_bits x) (gf163_bits x * (gf163_bits l + gf163_bits x))"

lemma tangent_by_slope:
  fixes x l l3 :: gf163
  assumes "x \<noteq> 0" "x3 = l * l + l + 1" "(l3 + l + 1) * x3 = (x3 + x) * (x3 + x)"
  shows "pt_add 1 (Pt x (x * (l + x))) (Pt x (x * (l + x))) = Pt x3 (x3 * (l3 + x3))"
proof -
  have s: "x + x * (l + x) / x = l" using assms(1) by (simp add: ac_simps)
  have "x3 * l3 = (l3 + l + 1) * x3 + (l + 1) * x3" by (simp add: algebra_simps)
  then have "x3 * l3 = (x3 + x) * (x3 + x) + (l + 1) * x3" by (simp only: assms(3))
  then have "x3 * (l3 + x3) = l * (x + x3) + x3 + x * (l + x)" by (simp add: distrib_left distrib_right ac_simps)
  moreover have "l * l + l + 1 + x + x = x3" using assms(2) by (simp add: add.assoc)
  ultimately show ?thesis using assms(1) s by (simp add: third_def Let_def)
qed

lemma chord_by_slope:
  fixes x y qx qy u l3 :: gf163
  assumes "x + qx \<noteq> 0" "u * (x + qx) = y + qy" "x3 = u * u + u + 1 + (x + qx)" "l3 * x3 = x3 * x3 + (u * (x + x3) + x3 + y)"
  shows "pt_add 1 (Pt x y) (Pt qx qy) = Pt x3 (x3 * (l3 + x3))"
proof -
  have s: "(y + qy) / (x + qx) = u" "x \<noteq> qx" using assms(1,2) by (auto simp: nonzero_divide_eq_eq)
  have "x3 * (l3 + x3) = u * (x + x3) + x3 + y" using assms(4) by (simp add: distrib_left mult.commute [of x3 l3] ac_simps)
  then show ?thesis using s assms(3) by (simp add: third_def Let_def add.assoc)
qed

lemma add_step_rep:
  assumes "chain_rep x l P" "length qx = 163" "length qy = 163" "add_step x l qx qy u l3 = Some (x', l')"
  shows "chain_rep x' l' (pt_add 1 P (Pt (gf163_bits qx) (gf163_bits qy)))"
proof -
  have P: "length x = 163" "length l = 163" "P = Pt (gf163_bits x) (gf163_bits x * (gf163_bits l + gf163_bits x))"
    using assms(1) by (simp_all add: chain_rep_def)
  define y dx where "y = mul163 x (bit_xors l x)" and "dx = bit_xors x qx"
  define x3 where "x3 = bit_xors (bit_xors (bit_xors (square_bits [0, 3, 6, 7] u) u) [True]) dx"
  define y3 where "y3 = bit_xors (bit_xors (mul163 u (bit_xors x x3)) x3) y"
  have c: "length u = 163" "length l3 = 163" "True \<in> set dx" "same_bits (mul163 u dx) (bit_xors y qy)"
      "same_bits (mul163 l3 x3) (bit_xors (square_bits [0, 3, 6, 7] x3) y3)" "x' = x3" "l' = l3"
    using assms(4) P(1) by (auto simp: add_step_def add_mid_def add_end_def same_length_iff simp flip: y_def dx_def x3_def y3_def split: if_splits)
  have len: "length y = 163" "length dx = 163" "length x3 = 163" "length y3 = 163"
    using P c assms(2) by (simp_all add: y_def dx_def x3_def y3_def mul_square_length)
  note calc = gf163_bits_calc mul_square_length P c(1,2) assms(2,3) len
  have dx: "gf163_bits dx = gf163_bits x + gf163_bits qx" by (simp add: dx_def calc)
  have y: "gf163_bits y = gf163_bits x * (gf163_bits l + gf163_bits x)" by (simp add: y_def calc)
  have "pt_add 1 (Pt (gf163_bits x) (gf163_bits y)) (Pt (gf163_bits qx) (gf163_bits qy)) = Pt (gf163_bits x3) (gf163_bits x3 * (gf163_bits l3 + gf163_bits x3))"
  proof (rule chord_by_slope)
    show "gf163_bits x + gf163_bits qx \<noteq> 0" using gf163_bits_nonzero [OF _ c(3)] len by (simp only: dx) simp
    show "gf163_bits u * (gf163_bits x + gf163_bits qx) = gf163_bits y + gf163_bits qy" using gf163_bits_eq [OF c(4)] by (simp add: calc dx)
    show "gf163_bits x3 = gf163_bits u * gf163_bits u + gf163_bits u + 1 + (gf163_bits x + gf163_bits qx)" by (simp add: x3_def calc dx)
    show "gf163_bits l3 * gf163_bits x3 = gf163_bits x3 * gf163_bits x3 + (gf163_bits u * (gf163_bits x + gf163_bits x3) + gf163_bits x3 + gf163_bits y)"
      using gf163_bits_eq [OF c(5)] by (simp add: calc) (simp add: y3_def calc)
  qed
  then show ?thesis using c len by (simp add: chain_rep_def P(3) y)
qed

lemma dbl_step_rep:
  assumes "chain_rep x l P" "run_step x l (Dbl i) = Some (x', l')"
  shows "chain_rep x' l' (pt_add 1 P P)"
proof -
  have P: "length x = 163" "length l = 163" "P = Pt (gf163_bits x) (gf163_bits x * (gf163_bits l + gf163_bits x))"
    using assms(1) by (simp_all add: chain_rep_def)
  define x3 where "x3 = bit_xors (bit_xors (square_bits [0, 3, 6, 7] l) l) [True]"
  have c: "True \<in> set x" "length l' = 163" "same_bits (mul163 (bit_xors (bit_xors l' l) [True]) x3) (square_bits [0, 3, 6, 7] (bit_xors x3 x))" "x' = x3"
    using assms(2) P(1) by (auto simp: dbl_end_def same_length_iff simp flip: x3_def split: if_splits)
  have len: "length x3 = 163" using P by (simp add: x3_def mul_square_length)
  note calc = gf163_bits_calc mul_square_length P c(2) len
  have "pt_add 1 P P = Pt (gf163_bits x3) (gf163_bits x3 * (gf163_bits l' + gf163_bits x3))" unfolding P(3)
  proof (rule tangent_by_slope)
    show "gf163_bits x \<noteq> 0" using gf163_bits_nonzero [OF _ c(1)] P by simp
    show "gf163_bits x3 = gf163_bits l * gf163_bits l + gf163_bits l + 1" by (simp add: x3_def calc)
    show "(gf163_bits l' + gf163_bits l + 1) * gf163_bits x3 = (gf163_bits x3 + gf163_bits x) * (gf163_bits x3 + gf163_bits x)"
      using gf163_bits_eq [OF c(3)] by (simp add: calc)
  qed
  then show ?thesis using c len by (simp add: chain_rep_def)
qed

abbreviation G163 :: "gf163 pt" where
  "G163 \<equiv> Pt (gf163_bits gx163) (gf163_bits gy163)"

lemma G163_on: "on_curve 1 (gf163_bits b163) G163"
  using generator163_on by (simp add: generator_def constants163)

interpretation base: binary_curve 1 "gf163_bits b163"
  using fe163.curve.binary_curve_axioms by (simp add: constants163)

lemma run_step_rep:
  assumes "chain_rep x l (pt_mult 1 k G163)" "run_step x l s = Some (x', l')"
  shows "chain_rep x' l' (pt_mult 1 (chain_value [s] k) G163)"
proof (cases s)
  case (Dbl i)
  then show ?thesis using dbl_step_rep assms base.pt_mult_add [OF G163_on, of k k] by (simp add: mult_2)
next
  case (Add i j)
  then show ?thesis using add_step_rep [OF assms(1) constants_length(1,2)] assms(2) by simp
next
  case (Sub i j)
  have neg: "Pt (gf163_bits gx163) (gf163_bits (bit_xors gx163 gy163)) = pt_neg G163" using constants_length by (simp add: gf163_bits_calc)
  obtain k' where k: "k = Suc k'" using assms(1) by (cases k) (simp_all add: chain_rep_def)
  have "pt_add 1 (pt_mult 1 k G163) (pt_neg G163) = pt_mult 1 k' G163"
    using base.pt_add_cancel'(1) [of "pt_mult 1 k' G163" G163] G163_on by (simp add: k)
  moreover have "length (bit_xors gx163 gy163) = 163" using constants_length by simp
  ultimately show ?thesis
    using add_step_rep [OF assms(1) constants_length(1), of "bit_xors gx163 gy163"] assms(2) unfolding neg by (simp add: Sub k)
qed

lemma same_bits_rep: "chain_rep x l P \<Longrightarrow> same_bits x x' \<Longrightarrow> same_bits l l' \<Longrightarrow> length x' = 163 \<Longrightarrow> length l' = 163 \<Longrightarrow> chain_rep x' l' P"
  using gf163_bits_eq by (auto simp: chain_rep_def)

lemma run_chain_rep:
  assumes "run_chain (Some (x, l)) ss x' l'" "chain_rep x l (pt_mult 1 k G163)"
  shows "chain_rep x' l' (pt_mult 1 (chain_value ss k) G163)"
  using assms
proof (induction ss arbitrary: x l k)
  case Nil
  have "length x = 163" "length l = 163" using Nil.prems(2) by (simp_all add: chain_rep_def)
  then show ?case using same_bits_rep [OF Nil.prems(2), of x' l'] Nil.prems(1) by (simp add: same_length_iff)
next
  case (Cons s ss)
  obtain a b where ab: "run_step x l s = Some (a, b)" "run_chain (Some (a, b)) ss x' l'" using Cons.prems(1) by (cases "run_step x l s") auto
  have "chain_rep a b (pt_mult 1 (chain_value [s] k) G163)" using run_step_rep [OF Cons.prems(2) ab(1)] .
  moreover have "chain_value (s # ss) k = chain_value ss (chain_value [s] k)" by (cases s) simp_all
  ultimately show ?case using Cons.IH [OF ab(2)] by metis
qed

section \<open>The chain of the order\<close>

definition chain_0 :: "chain_step list" where
  "chain_0 =
     [Dbl 0xCC77D602337AC08D708B2A0C73571F0BB9C7FE138,
      Dbl 0x97A999D90956CAABC4D58A6EA060661D9E23DE33E,
      Dbl 0x8EB727D1FC697674ADBA92A9D9A254C3275175BAB,
      Dbl 0xB369C3AD42CA29EFA558EE149B04DF2A64E3E18D0,
      Dbl 0xFBEDBDBF5B0F62BBAC68A7C5F39937DD72DC00A91,
      Dbl 0x991C76E417637B18FAEB14CAE52AA231B550C4104,
      Dbl 0xA6AC2B6152DCA914B0F3BD301AE8C9C979AF21D2D,
      Dbl 0xC7876061EC5DC4A674657EA6B2934B6803D24AD60,
      Dbl 0xBC7F57586372A9D715AF5A16C9BD153C35DA8A251,
      Dbl 0xB6B7E636BD7EF047CBB25A96C40DE12E519AE2707,
      Dbl 0xB686FFF83AA8F7BEBF87529C73C9A7DCE7A2AAD25,
      Dbl 0x96A66445C5572B46232BC71516D38DD1F74771DA4]"

definition chain_1 :: "chain_step list" where
  "chain_1 =
     [Dbl 0xB358AF6318A2DC02BF3897546855A72722A33B57F,
      Dbl 0xAD8E1720E48D6A7CE5EBFDDC4162D96DFCBFCAA4B,
      Dbl 0xAE18774335E39F01C8F6FE1CB6FE8161F28EEE2A1,
      Dbl 0xD500969CF4D1933DB9392E3B1A8ABB88387D98F2E,
      Dbl 0xFB5F43B7363EEC3D40B206C9F00DE2C6707194FB0,
      Dbl 0xFD17A74B3305239B94620B644EBCF5C9A2EC3B3FE,
      Dbl 0x8EB79B3000FD321E712DA74C7AEF0C17F150EFD30,
      Dbl 0xCA2048027488E0090F7B72232A31DC3208718BC29,
      Dbl 0xF39919E1100C7C64E5817BD32D03D2261949DE297,
      Dbl 0xC8FBC77C6C4FB47E2DB80332F671319970B843D6E,
      Dbl 0xFB284ADFCCBBDBBE4D113B4ACDFC396DC0CEAAFF8,
      Dbl 0xE770A558FF95AD8A2796E3B8882B25F051948BC04]"

definition chain_2 :: "chain_step list" where
  "chain_2 =
     [Dbl 0xC0724E89EDDBF45EA0B4846331C9B70B0246905B0,
      Dbl 0xA701E191E7BFCFAE0214FBAE2F2C83672996B599D,
      Dbl 0x84E271E17F840E5F96FCB93044DBBDAF782D03075,
      Dbl 0x88147F33AB39D1B31CB2AFF5BC8B7A588CEF8B5CC,
      Dbl 0xBE2D665C43F212639DD8ACC106A4F0CD0E38B510F,
      Dbl 0xF636350119F02310DFF78B9A02DD81FD34E249E6A,
      Dbl 0xC01157ACCAB9F8AC373B2AECCBDDAA9AC03542C34,
      Dbl 0xD51A88E425A6B59C1F9D8427F26CCF6BDD95F502B,
      Dbl 0xCF5A57DD0A646E2C49BC7343341C64342A88C4903,
      Dbl 0xF72C7B614EAAA21782F7A716BA74A6352807E6189,
      Dbl 0xEB3F28C0FACEBB8B36C03371725FF85D016991335,
      Dbl 0xDA4CC88A1AD5974C11C38B962AA3B19AC1CCFF60C]"

definition chain_3 :: "chain_step list" where
  "chain_3 =
     [Dbl 0xA0A2897C65B368700BBDD3D24D169B795701A3278,
      Dbl 0xD06916F9F402B9338B1A4C87A48C7DB848227C3C6,
      Dbl 0x90771E76592E66F648679DEA83D84338CB6C2E482,
      Dbl 0xED104503CA2A3BDDB6A77724CA22877BF9E896D86,
      Dbl 0x805D6CC8E120D0FBD1C69F8FCA98F743C2CBC07A2,
      Dbl 0xC6BF1AC35842C71034AECB39336D7171C7DF2EEC4,
      Dbl 0xE0E69A5277FE6BCC77E3BCAA787766AAB0DE305E2,
      Dbl 0x8C5D51474860DC3FDEDB78A657452EC74C8214F2D,
      Dbl 0xB2B1091F66D0770F93D09BD28E479D96314BF3DDD,
      Dbl 0xC570AC8FC071C3DD7A73C824F22D652D5D77B2E19,
      Dbl 0xE6A8452C3BD04B7C0E06447E943DCF1ADCA2FEB97,
      Dbl 0xBC5829B9DBA56E2D46C0734A4489180C938BBF106]"

definition chain_4 :: "chain_step list" where
  "chain_4 =
     [Dbl 0xDF7F9C1524F75B0D9D1F21FAC56B69E32C36AB369,
      Dbl 0xCED84FA8B9CC8E91816AEF5DC6B884994552526E1,
      Dbl 0x883C76C37B3A20047F47DC23EF934FB6DF09A8A1B,
      Dbl 0xA6CB10F3023140F0051D1240AD39269616DE900CC,
      Dbl 0xDB8AB4C200CE17EBCEC0CE506283BA588C89B116D,
      Dbl 0xD2526457D017C135CE92B9B6FFF5F29D6781F14E9,
      Dbl 0xA3DD7E5DBD009753D2CE0D0556C6C8798F1E0F87B,
      Dbl 0xDB8280422C49DB6AE0285988A8A58FDE37F793FD0,
      Dbl 0xA6E81DD03AEAD7ACA2CEEFD031258E761B098FE2F,
      Dbl 0x959BC3A762E24B86C178DC57ACB3E014C700A9043,
      Dbl 0xD4BB504D4204FE26B109E714A5BFB8BC4DE0B1188,
      Dbl 0x99D0E129CB71BC8E23803EFBC9AB639696C8A3563]"

definition chain_5 :: "chain_step list" where
  "chain_5 =
     [Dbl 0xBB3C80CBF5A93F7011A10CC48BE0B70FAE99BB1DF,
      Dbl 0xD54509BE64860EA9C9417B4F6EF936C8BC527C317,
      Dbl 0xF37172BE0211E6A5E8A485978BF4BA0A78C3F224A,
      Dbl 0xDE0547B818B4C0F9EA96A9BC8A2EA2A32D8843FA9,
      Dbl 0xB2BE681CF9436AACA03B52D4A0FFD260DC4D0D1EB,
      Dbl 0x81979DF537F306A2D83A9D3230DB1FD20DF8F195F,
      Dbl 0xA70E715BC06BC85BC5CD37E74DA9CFFA69C21A487,
      Dbl 0xB8F85D0BF5E4513E327DF11D5A0E435AD424BAD17,
      Dbl 0xA3A30387866AC6A03A62EA12ED489244008A7C4C5,
      Dbl 0x812AECD65AC6ABEF54F17E82B4D32DFDEDD128C58,
      Dbl 0xA94ED3C3C8983A9FE2828EA5370F0420D11099E2A,
      Dbl 0xDB765886668555ABDC09F0F1AFEBB5E7001966E4B]"

definition chain_6 :: "chain_step list" where
  "chain_6 =
     [Dbl 0x8945B2B177FF4976E97DC7F3A90E564E056C7748E,
      Dbl 0xD868D55D85E2438E055EA8FB5A216DB99ED3AF3A2,
      Dbl 0x84DE5272374454A52B1DEDC77F8A47E2FA6C66862,
      Dbl 0xF5FAEEE57F33D269364422D5D5B0C20D53C12D8BD,
      Dbl 0xC6ED2A0E4C236385ACCCDAB20AC438932EFB20A95,
      Dbl 0x93316D8A57270053AA04F4CA8A34A06A1C83A9F26,
      Dbl 0xC9F967A8E75227DD816A520AA5E01F8716FD51684,
      Dbl 0xA6668039E29B6E3505B04B13F3F12610526781CC8,
      Add 0xDD2526A09F293AEC05CB4B2C39C485A0C38B219EA 0xC29C6EFDFA027B2445B79D33A1B5E94B95B9D4FC3,
      Dbl 0xA772EA7D1E250AD2C7234522F52BE441790EEE2B4,
      Dbl 0xE8F3BA8739196B03513EC92F66B3CCCE7ED19110A,
      Sub 0x8912F3BD90A562388AB352B55847D7AB32C871BF9 0x95E09106D3E852525D66545BF6802092B8A683AE2]"

definition chain_7 :: "chain_step list" where
  "chain_7 =
     [Dbl 0xCDBE117A15A7C63E18E5A44B09D4259E259F50DFE,
      Dbl 0xE0599FECA976AD48D25EDF1F088E7E74F42FEE6E8,
      Sub 0xD7756AB1972E2E849B2CCEDDC7B8FDED737B0F3DB 0xF552E0FFED5E60017B5A39363B5658D44C0872509,
      Dbl 0xF9E3F3185062E31252EA9A5096D4B6408774D3C2F,
      Dbl 0xB51A3550EEE6E27C3030FBC43B1B7A9ACD8ABF37F,
      Dbl 0xEF42AFAB023C5A29F8A22AAE24052481AC8ABD679,
      Dbl 0xC41A20F05A29BC50E053A99BBBEF8BFC68CF7F2E4,
      Dbl 0xBDA92B5AA3EC458F9CEACD876B5DB6413CCD85FFB,
      Dbl 0xF7E4D746B5B5B18EC852EB6E8E188BDF2627CDB53,
      Sub 0x97929BB5AA0B60A8D4949397B7EF160A68767AA3B 0xD3BEAADFE39CA9E4D7FBA746DBB02892DA66BD79D,
      Dbl 0x89161B3FC74473DBE467F41CC907B969011E81060,
      Dbl 0xC6D288CC8D4DA848CD8DE4DC68E57CDEEDA6A4E69]"

definition chain_8 :: "chain_step list" where
  "chain_8 =
     [Sub 0x9C89DA1481361CEB7B65A2DEBBC8E81E35A39B08B 0x88BF2B167004E80B87F0756510C9251A486349F3E,
      Dbl 0x8F4C02CE9ACA34FCE666868E6E16A14794EA7F542,
      Dbl 0x8A1A055BDDCACC1D2064E8451D42826A6A1358E91,
      Dbl 0xAE8C0C5EBA947C6D03DBE9CEFF70477928447EEA7,
      Dbl 0xE85DF71740ED8BD64AB3A7FF7E88ADCECE34CCC72,
      Dbl 0xAD91AC409065D7E899CF9CAC97E04C12A1D40AE9D,
      Dbl 0xA2CF6727AC88B3725CEBFF8CD2C7E0D71C4EC5998,
      Add 0xAA3248D5D5DA14357B8A556418ACC33302A448C6F 0xCB19CEC716A7899F1225F9A69649F97795E828240,
      Dbl 0xF367B5151F7A47086679A841ED9BFEC026535EE24,
      Dbl 0xE8EE498B311D5AD46D01DA564C66CFCEB85E5177E,
      Add 0xA0547339A4C963A7020BAA9EBB7343062283CEBCA 0x966906D6F2F0AC4BCB4A25EB814DDCA28673706D4,
      Dbl 0xE3885DE1A3B9D5BC4FE2D5AA08CAD3E0955DDE74E]"

definition chain_9 :: "chain_step list" where
  "chain_9 =
     [Dbl 0x85C5DEBDD365223BC64EEC41F0163E06FE4A04079,
      Sub 0xA92F8B80D4D90B6B5CF1DB13B626CEE4C775A8B5A 0xCD050E2E6D96BF362C288AFD75B9604C8AD3BACA7,
      Dbl 0xA12E290BF9EEB459E1FC915570B7571E20E701C31,
      Dbl 0xC317ADB6EB11CB1213B848E88A30CDABE37538746,
      Sub 0xE1D04D86B73310530F1B82E73061A9577690A44EC 0xE9D39085DFF25B301C54A5D922C132CE56A42A9FE,
      Dbl 0xB39F2FE0F9A1FF0018DCCEA8C864B34FF7076C212,
      Dbl 0x84C0A44592FD23D3629A7793DB4BCAEDA861255F7,
      Dbl 0x8D29013F085E8E8B7E713D777676E3D1004787429,
      Dbl 0xCE1384C4278844A0B5976166677F10AC0F9BB41F4,
      Dbl 0x9B1702042AB390A4ECF6C58245D8E2359A18D7F8B,
      Sub 0x88A4747C5B6CCB79306F87666DFC7C1D3E01E287E 0xB6648423B9DE8FF26F63336A7BEF721932BF211A0,
      Dbl 0xABA696C4F42EFB06090990532C0F258A1E2B3DB7B]"

definition chain_10 :: "chain_step list" where
  "chain_10 =
     [Dbl 0xC2090D6EEC9E0A5D58B5AF493A4512E5CD95E4DEB,
      Dbl 0x95C057497D6E2F56DB28DAED35C97BC6F8B378512,
      Dbl 0x9DE36488C7DC3E9F1A75962692EE2B43103993578,
      Add 0x86AC5ED22BC4B89A99903B38A7F49666CE0D78340 0x85B7B83754C4C891E4FE670787366AB154EADCBCB,
      Dbl 0xEA390F30F7058CD95E66760D7057D2EB125AA2079,
      Dbl 0xD2AB8129A3F8E8621BEDF2E4AEBC5D87C64CD5BE6,
      Dbl 0xE39BAFE1AB53D9140893234A81905691F7CC6C003,
      Dbl 0xE7B6D8E87DA6E85480E6CF74A46CF49B7B097254F,
      Add 0xB187F072EE7938711D7EE85835355C76730485523 0xC425C1BFFC0BB03B15CE598740F8803134002C428,
      Dbl 0xC823B8963CF476A6682C0C8BB7DC05309B41DA630,
      Dbl 0xAC311B2AA238AFF2AC8631901987E7124CCC164D6,
      Add 0xA7030EA548E3F4D67666F77AAF84F97EA38667A66 0xDC7475A99F551926B6FBC30839C83C4D7ACF52A7C]"

definition chain_11 :: "chain_step list" where
  "chain_11 =
     [Dbl 0xFC7A8831E22FE61C98DEF33E2DD744BBD86F82E66,
      Dbl 0x8F423AA69F5A5D0CCBC4B8C0704C3C0BB5EB69B61,
      Sub 0xF563FD4D697C087BED6E52C1DDFEC54B6F69DC3F6 0x97EFF3C85263DF001458349A9623DD71A97C15E29,
      Dbl 0xA503320FF89C1DF785BEEC71585C1AAC993F0102B,
      Dbl 0x9D4BA8C255C130513C89BE087BAE61EA2EFBD36DE,
      Dbl 0xC126991D1A61B5731A6A583F0FC6770A243ABBEA6,
      Add 0xA1A28E71081AD80A9F370885BFD59633B3EE40927 0x836C4A302C36146DB6CB3860F3EC007EC917009AB,
      Dbl 0xFD889AC886BD854AFB4C70A1CD5B9F818A44BDA61,
      Dbl 0xA2ACE2034FBF126ABA3612A1F7BAF11D67F6AE8BA,
      Sub 0x8F17C3E66C7D55EFB2E9C702A40A531825D90BF7B 0xDB993926EEA6878EB6650696925C12BD7716C50EC,
      Dbl 0x9F30AB39B53ADC28AFC13DF92BB0FECCACC8E3D3B,
      Dbl 0x97BD6B112CB083320522BD2FA977205F57D827CF4]"

definition chain_12 :: "chain_step list" where
  "chain_12 =
     [Sub 0xE4749B68B3FA49E853BF8189B9F55A093D8699A75 0xD475134FD39A9CDFBEED5C9408E816365BA64061D,
      Dbl 0xC28B0971ECA57C4633766236456FCA5DED68C0E7F,
      Dbl 0xCAA7B2A0F5847B5EC87EE0748EE945F7C59D6637B,
      Add 0x82F64A5A30C5438FA91F4CF91B4F88946497B9147 0xC039F87A15EF00F593EE7E1F3F723E1EDF29A2A72,
      Dbl 0x904573FB4042760348683502EF4888293344C3C1F,
      Dbl 0xE4AEF1E549E9117D091DFFE4341919D4C4EB4EA31,
      Add 0x97EA1C71662677DCA09C137470D0B9540BA7D781F 0xA1A85A583AD99F35E4A9A4FEE5B921A716D8BEACA,
      Dbl 0xFEA9A7C6508E1F7A03A838AA34FC0883996375371,
      Dbl 0xAF6C9A5BAF618156BEED624CF022A117742A4A5A9,
      Dbl 0x9DD96E2F0457252E337040E4D09455501F8303598,
      Sub 0xB0974DD504E9CAB25A1734803B3878F2243B17126 0xB90D43295387DC58BB77F8B7B0BB3989B44AABC9A,
      Dbl 0xB11D10A88E6388C554EAF3527944E262D2CD6C1FB]"

definition chain_13 :: "chain_step list" where
  "chain_13 =
     [Dbl 0xD3CF331B7C27767D3D7FDE33C95DEA5A2EC1D5525,
      Add 0xAD2A78F5BEF50AD0FEAFA95B5B4EA4EBB2B0A2D61 0xDC2B0DCA6C9F67E48A62B1A856468AC519A1E3C6D,
      Dbl 0xC22393AB60DEC565DE2EBF61E7DD7464FA2CEF282,
      Dbl 0xA1EEF0C0A75E49C0A50865EA0190D5A6223B12F63,
      Dbl 0xDCD8FF87AE6F4AADD8060A794EAF9F8E8764184AF,
      Sub 0x8AB6F6ADBB69D77E786800DE01DC967E7D2657B19 0xB1BB8CC9A86196D3FE8F344BDFE6221E77BDFB918,
      Dbl 0x8C6EC6602E91F3A22EB0CBA9136042D26052485F5,
      Dbl 0xFF5024E183B621C94BBD89CB3D544770B3E180585,
      Dbl 0xD720EE875DB12C7F78B9AEB5B6E87157ACD3CD8A6,
      Dbl 0xACEA4CC8146B8EF24A9A6B861FE2B2102730446F0,
      Sub 0x8EE508C441F818C496060B02FB7E71D4F4AAE0577 0xF961D36F4A6454952D66CC1E0C578F0B62E8E0E40,
      Dbl 0xA640E8B5C9840C512287E07776D97F89BC706C080]"

definition chain_14 :: "chain_step list" where
  "chain_14 =
     [Dbl 0xBE9B79166AB1042A7ED6D26C6B9AE2F4737C87BEB,
      Add 0xD3E679B39459CC2F00655580619E23E21EF44BD7E 0x8A6ECB8F206CC33828467F17CA431A2B7F58D6CA1,
      Dbl 0x94B2FAEB5DA0B417E8489749499EDA666C0488355,
      Dbl 0x8FA2E4AA4BE1C3DC49DB1C81BCA4E965C70B2267F,
      Dbl 0xAAAEB58FD9E214124CACBAF2045CD42BA4861F18B,
      Dbl 0xF73E47BFD060A625AF9C316BF945D0BF399738EFC,
      Sub 0xA5AF5656316E352842749D41D73AB7B2C3C85661C 0x8337759B6D248631C0D33D0E2579F1CFFDA21826E,
      Dbl 0xDAAE15B8DF6208A5989752C787DBDCB78AA26B1B2,
      Dbl 0xA456846D3E2F36B808B0587E6299A117C90C31861,
      Dbl 0xC9CD718B52898229C28F4A5FF284A4426731F5B15,
      Dbl 0xA8F60AA7B175CB1A01046146A5C3D688AAAAACCB0,
      Add 0xA92D6FD4E299F2F6A208A01F6CD96D7EA804D8A5A 0xEDDC6C27AA26CC71B3C6A76E29447E24AEA59D50A]"

definition chain_15 :: "chain_step list" where
  "chain_15 =
     [Dbl 0xD16DB56A10F6D4E92CECD95AE02881210227789AF,
      Dbl 0xC54B2F783C2C446FC95E5E76F3A6FF5A13681A5FE,
      Add 0x86C5590A521898E94F50C9DA6DD3F2370A9DF16F0 0xF420BA61AA315B9EA7F5ADF27031E628F58EF91C8,
      Dbl 0x95BB858ACFA747E4ED595D1BFB8D3500A07338DB7,
      Dbl 0x8BD5474D3B4358D674334282F71A75A854BC62335,
      Add 0xB8B4A23CE06E29E53C93892FC6734C1726971D4F2 0xA3404354985930097326E76F0781C0A924E26BE07,
      Dbl 0xDBC6CF92C2475F8FB83C02EB88A63211ED6EA24EB,
      Dbl 0xDEAF3F68F63FA9A8B85157AC68EA053E0387FA46D,
      Sub 0xF632D762AC12E55B71C2F607711CA1EA9537EEC26 0xF02724C152F945A9D260BA5080F660DAC4F1AB026,
      Dbl 0x9D8A8504B265E071C299C48352BDE76B2EB863381,
      Dbl 0xF3BEB6BD2B56221E5614FA83677DABAE1543F1A05]"

lemma chain_run_0: "run_chain (Some (functional 0xF2D867F93A93AC27DF9FF01AFFE74885C8C540420, functional 0xF3BEB6BD2B56221E5614FA83677DABAE1543F1A04)) chain_0
    (functional 0xE3CE75EB6AFDED2D4678EB635604C61383F924330) (functional 0x96A66445C5572B46232BC71516D38DD1F74771DA4)"
  by code_simp

lemma chain_run_1: "run_chain (Some (functional 0xE3CE75EB6AFDED2D4678EB635604C61383F924330, functional 0x96A66445C5572B46232BC71516D38DD1F74771DA4)) chain_1
    (functional 0xB62562038B1AC6B9C4C347799CC01DD8D8B86D38C) (functional 0xE770A558FF95AD8A2796E3B8882B25F051948BC04)"
  by code_simp

lemma chain_run_2: "run_chain (Some (functional 0xB62562038B1AC6B9C4C347799CC01DD8D8B86D38C, functional 0xE770A558FF95AD8A2796E3B8882B25F051948BC04)) chain_2
    (functional 0xB033D8AD86720EA47A74FDEA4B705F14D46C6076B) (functional 0xDA4CC88A1AD5974C11C38B962AA3B19AC1CCFF60C)"
  by code_simp

lemma chain_run_3: "run_chain (Some (functional 0xB033D8AD86720EA47A74FDEA4B705F14D46C6076B, functional 0xDA4CC88A1AD5974C11C38B962AA3B19AC1CCFF60C)) chain_3
    (functional 0x90A3BCF112642BCEB2706222C27D08FFF20EB4CDF) (functional 0xBC5829B9DBA56E2D46C0734A4489180C938BBF106)"
  by code_simp

lemma chain_run_4: "run_chain (Some (functional 0x90A3BCF112642BCEB2706222C27D08FFF20EB4CDF, functional 0xBC5829B9DBA56E2D46C0734A4489180C938BBF106)) chain_4
    (functional 0xBEA8780BB109F759C345AB4FA144AFB34662C124A) (functional 0x99D0E129CB71BC8E23803EFBC9AB639696C8A3563)"
  by code_simp

lemma chain_run_5: "run_chain (Some (functional 0xBEA8780BB109F759C345AB4FA144AFB34662C124A, functional 0x99D0E129CB71BC8E23803EFBC9AB639696C8A3563)) chain_5
    (functional 0x8101C947AC6F98682767B8279FB27C252B295FDCB) (functional 0xDB765886668555ABDC09F0F1AFEBB5E7001966E4B)"
  by code_simp

lemma chain_run_6: "run_chain (Some (functional 0x8101C947AC6F98682767B8279FB27C252B295FDCB, functional 0xDB765886668555ABDC09F0F1AFEBB5E7001966E4B)) chain_6
    (functional 0xFE1B076C066D21A939D623D35A25F0FACA00DC850) (functional 0x95E09106D3E852525D66545BF6802092B8A683AE2)"
  by code_simp

lemma chain_run_7: "run_chain (Some (functional 0xFE1B076C066D21A939D623D35A25F0FACA00DC850, functional 0x95E09106D3E852525D66545BF6802092B8A683AE2)) chain_7
    (functional 0xBD0583533209D2880E95893234B1FD0CF031F6C1B) (functional 0xC6D288CC8D4DA848CD8DE4DC68E57CDEEDA6A4E69)"
  by code_simp

lemma chain_run_8: "run_chain (Some (functional 0xBD0583533209D2880E95893234B1FD0CF031F6C1B, functional 0xC6D288CC8D4DA848CD8DE4DC68E57CDEEDA6A4E69)) chain_8
    (functional 0xDA0B4F90EDF5844CA27C1FCD35B5CFD4153177A1E) (functional 0xE3885DE1A3B9D5BC4FE2D5AA08CAD3E0955DDE74E)"
  by code_simp

lemma chain_run_9: "run_chain (Some (functional 0xDA0B4F90EDF5844CA27C1FCD35B5CFD4153177A1E, functional 0xE3885DE1A3B9D5BC4FE2D5AA08CAD3E0955DDE74E)) chain_9
    (functional 0xA342B12674AD851A004D6EF6D1AB5B1E60CA5AC36) (functional 0xABA696C4F42EFB06090990532C0F258A1E2B3DB7B)"
  by code_simp

lemma chain_run_10: "run_chain (Some (functional 0xA342B12674AD851A004D6EF6D1AB5B1E60CA5AC36, functional 0xABA696C4F42EFB06090990532C0F258A1E2B3DB7B)) chain_10
    (functional 0xDBD1C9B91FEAE79677F5823535EC4F9E4CE6BF376) (functional 0xDC7475A99F551926B6FBC30839C83C4D7ACF52A7C)"
  by code_simp

lemma chain_run_11: "run_chain (Some (functional 0xDBD1C9B91FEAE79677F5823535EC4F9E4CE6BF376, functional 0xDC7475A99F551926B6FBC30839C83C4D7ACF52A7C)) chain_11
    (functional 0xA258254B5A33335CB83180492113D62B5E9A52004) (functional 0x97BD6B112CB083320522BD2FA977205F57D827CF4)"
  by code_simp

lemma chain_run_12: "run_chain (Some (functional 0xA258254B5A33335CB83180492113D62B5E9A52004, functional 0x97BD6B112CB083320522BD2FA977205F57D827CF4)) chain_12
    (functional 0xD21B6E56245FA5025ADD6225AE02EB2EC95B4B192) (functional 0xB11D10A88E6388C554EAF3527944E262D2CD6C1FB)"
  by code_simp

lemma chain_run_13: "run_chain (Some (functional 0xD21B6E56245FA5025ADD6225AE02EB2EC95B4B192, functional 0xB11D10A88E6388C554EAF3527944E262D2CD6C1FB)) chain_13
    (functional 0xE36CAFC17AA057A26AE1B977E757C1BA16C0D7F0E) (functional 0xA640E8B5C9840C512287E07776D97F89BC706C080)"
  by code_simp

lemma chain_run_14: "run_chain (Some (functional 0xE36CAFC17AA057A26AE1B977E757C1BA16C0D7F0E, functional 0xA640E8B5C9840C512287E07776D97F89BC706C080)) chain_14
    (functional 0xBE0291A3763201F4E109DD419E9698CC2A84E3C0E) (functional 0xEDDC6C27AA26CC71B3C6A76E29447E24AEA59D50A)"
  by code_simp

lemma chain_run_15: "run_chain (Some (functional 0xBE0291A3763201F4E109DD419E9698CC2A84E3C0E, functional 0xEDDC6C27AA26CC71B3C6A76E29447E24AEA59D50A)) chain_15
    (functional 0xF2D867F93A93AC27DF9FF01AFFE74885C8C540420) (functional 0xF3BEB6BD2B56221E5614FA83677DABAE1543F1A05)"
  by code_simp

lemma chain_value_0: "chain_value chain_0 1 = 0x1000"
  by (simp add: chain_0_def)

lemma chain_value_1: "chain_value chain_1 0x1000 = 0x1000000"
  by (simp add: chain_1_def)

lemma chain_value_2: "chain_value chain_2 0x1000000 = 0x1000000000"
  by (simp add: chain_2_def)

lemma chain_value_3: "chain_value chain_3 0x1000000000 = 0x1000000000000"
  by (simp add: chain_3_def)

lemma chain_value_4: "chain_value chain_4 0x1000000000000 = 0x1000000000000000"
  by (simp add: chain_4_def)

lemma chain_value_5: "chain_value chain_5 0x1000000000000000 = 0x1000000000000000000"
  by (simp add: chain_5_def)

lemma chain_value_6: "chain_value chain_6 0x1000000000000000000 = 0x400000000000000000003"
  by (simp add: chain_6_def)

lemma chain_value_7: "chain_value chain_7 0x400000000000000000003 = 0x100000000000000000000afc"
  by (simp add: chain_7_def)

lemma chain_value_8: "chain_value chain_8 0x100000000000000000000afc = 0x2000000000000000000015f60a"
  by (simp add: chain_8_def)

lemma chain_value_9: "chain_value chain_9 0x2000000000000000000015f60a = 0x400000000000000000002bec12be"
  by (simp add: chain_9_def)

lemma chain_value_10: "chain_value chain_10 0x400000000000000000002bec12be = 0x8000000000000000000057d8257c45"
  by (simp add: chain_10_def)

lemma chain_value_11: "chain_value chain_11 0x8000000000000000000057d8257c45 = 0x100000000000000000000afb04af8898c"
  by (simp add: chain_11_def)

lemma chain_value_12: "chain_value chain_12 0x100000000000000000000afb04af8898c = 0x100000000000000000000afb04af8898b4e"
  by (simp add: chain_12_def)

lemma chain_value_13: "chain_value chain_13 0x100000000000000000000afb04af8898b4e = 0x2000000000000000000015f6095f113169cde"
  by (simp add: chain_13_def)

lemma chain_value_14: "chain_value chain_14 0x2000000000000000000015f6095f113169cde = 0x400000000000000000002bec12be2262d39bcf1"
  by (simp add: chain_14_def)

lemma chain_value_15: "chain_value chain_15 0x400000000000000000002bec12be2262d39bcf1 = 0x400000000000000000002bec12be2262d39bcf14c"
  by (simp add: chain_15_def)

lemma base_slope: "same_bits (mul163 gx163 (bit_xors lg163 gx163)) gy163"
  by code_simp

lemma chain_reps_0: "chain_rep gx163 lg163 (pt_mult 1 1 G163)"
  using constants_length gf163_bits_eq [OF base_slope] by (simp add: chain_rep_def gf163_bits_calc)

lemma chain_reps_1: "chain_rep (functional 0xE3CE75EB6AFDED2D4678EB635604C61383F924330) (functional 0x96A66445C5572B46232BC71516D38DD1F74771DA4) (pt_mult 1 0x1000 G163)"
  using run_chain_rep [OF chain_run_0 [folded gx163_def lg163_def] chain_reps_0] unfolding chain_value_0 .

lemma chain_reps_2: "chain_rep (functional 0xB62562038B1AC6B9C4C347799CC01DD8D8B86D38C) (functional 0xE770A558FF95AD8A2796E3B8882B25F051948BC04) (pt_mult 1 0x1000000 G163)"
  using run_chain_rep [OF chain_run_1 chain_reps_1] unfolding chain_value_1 .

lemma chain_reps_3: "chain_rep (functional 0xB033D8AD86720EA47A74FDEA4B705F14D46C6076B) (functional 0xDA4CC88A1AD5974C11C38B962AA3B19AC1CCFF60C) (pt_mult 1 0x1000000000 G163)"
  using run_chain_rep [OF chain_run_2 chain_reps_2] unfolding chain_value_2 .

lemma chain_reps_4: "chain_rep (functional 0x90A3BCF112642BCEB2706222C27D08FFF20EB4CDF) (functional 0xBC5829B9DBA56E2D46C0734A4489180C938BBF106) (pt_mult 1 0x1000000000000 G163)"
  using run_chain_rep [OF chain_run_3 chain_reps_3] unfolding chain_value_3 .

lemma chain_reps_5: "chain_rep (functional 0xBEA8780BB109F759C345AB4FA144AFB34662C124A) (functional 0x99D0E129CB71BC8E23803EFBC9AB639696C8A3563) (pt_mult 1 0x1000000000000000 G163)"
  using run_chain_rep [OF chain_run_4 chain_reps_4] unfolding chain_value_4 .

lemma chain_reps_6: "chain_rep (functional 0x8101C947AC6F98682767B8279FB27C252B295FDCB) (functional 0xDB765886668555ABDC09F0F1AFEBB5E7001966E4B) (pt_mult 1 0x1000000000000000000 G163)"
  using run_chain_rep [OF chain_run_5 chain_reps_5] unfolding chain_value_5 .

lemma chain_reps_7: "chain_rep (functional 0xFE1B076C066D21A939D623D35A25F0FACA00DC850) (functional 0x95E09106D3E852525D66545BF6802092B8A683AE2) (pt_mult 1 0x400000000000000000003 G163)"
  using run_chain_rep [OF chain_run_6 chain_reps_6] unfolding chain_value_6 .

lemma chain_reps_8: "chain_rep (functional 0xBD0583533209D2880E95893234B1FD0CF031F6C1B) (functional 0xC6D288CC8D4DA848CD8DE4DC68E57CDEEDA6A4E69) (pt_mult 1 0x100000000000000000000afc G163)"
  using run_chain_rep [OF chain_run_7 chain_reps_7] unfolding chain_value_7 .

lemma chain_reps_9: "chain_rep (functional 0xDA0B4F90EDF5844CA27C1FCD35B5CFD4153177A1E) (functional 0xE3885DE1A3B9D5BC4FE2D5AA08CAD3E0955DDE74E) (pt_mult 1 0x2000000000000000000015f60a G163)"
  using run_chain_rep [OF chain_run_8 chain_reps_8] unfolding chain_value_8 .

lemma chain_reps_10: "chain_rep (functional 0xA342B12674AD851A004D6EF6D1AB5B1E60CA5AC36) (functional 0xABA696C4F42EFB06090990532C0F258A1E2B3DB7B) (pt_mult 1 0x400000000000000000002bec12be G163)"
  using run_chain_rep [OF chain_run_9 chain_reps_9] unfolding chain_value_9 .

lemma chain_reps_11: "chain_rep (functional 0xDBD1C9B91FEAE79677F5823535EC4F9E4CE6BF376) (functional 0xDC7475A99F551926B6FBC30839C83C4D7ACF52A7C) (pt_mult 1 0x8000000000000000000057d8257c45 G163)"
  using run_chain_rep [OF chain_run_10 chain_reps_10] unfolding chain_value_10 .

lemma chain_reps_12: "chain_rep (functional 0xA258254B5A33335CB83180492113D62B5E9A52004) (functional 0x97BD6B112CB083320522BD2FA977205F57D827CF4) (pt_mult 1 0x100000000000000000000afb04af8898c G163)"
  using run_chain_rep [OF chain_run_11 chain_reps_11] unfolding chain_value_11 .

lemma chain_reps_13: "chain_rep (functional 0xD21B6E56245FA5025ADD6225AE02EB2EC95B4B192) (functional 0xB11D10A88E6388C554EAF3527944E262D2CD6C1FB) (pt_mult 1 0x100000000000000000000afb04af8898b4e G163)"
  using run_chain_rep [OF chain_run_12 chain_reps_12] unfolding chain_value_12 .

lemma chain_reps_14: "chain_rep (functional 0xE36CAFC17AA057A26AE1B977E757C1BA16C0D7F0E) (functional 0xA640E8B5C9840C512287E07776D97F89BC706C080) (pt_mult 1 0x2000000000000000000015f6095f113169cde G163)"
  using run_chain_rep [OF chain_run_13 chain_reps_13] unfolding chain_value_13 .

lemma chain_reps_15: "chain_rep (functional 0xBE0291A3763201F4E109DD419E9698CC2A84E3C0E) (functional 0xEDDC6C27AA26CC71B3C6A76E29447E24AEA59D50A) (pt_mult 1 0x400000000000000000002bec12be2262d39bcf1 G163)"
  using run_chain_rep [OF chain_run_14 chain_reps_14] unfolding chain_value_14 .

lemma chain_reps_16: "chain_rep (functional 0xF2D867F93A93AC27DF9FF01AFFE74885C8C540420) (functional 0xF3BEB6BD2B56221E5614FA83677DABAE1543F1A05) (pt_mult 1 0x400000000000000000002bec12be2262d39bcf14c G163)"
  using run_chain_rep [OF chain_run_15 chain_reps_15] unfolding chain_value_15 .

lemma base_opposite: "same_bits (mul163 gx163 (bit_xors (functional 0xF3BEB6BD2B56221E5614FA83677DABAE1543F1A05) gx163)) (bit_xors gx163 gy163)"
  by code_simp

text \<open>\<open>(n - 1)G\<close> is \<open>-G\<close>.\<close>

lemma order_times_G163: "pt_mult 1 (order_value M163) G163 = Inf"
proof -
  have "length (functional 0xF3BEB6BD2B56221E5614FA83677DABAE1543F1A05) = 163" using chain_reps_16 by (simp add: chain_rep_def)
  then have "pt_mult 1 (order_value M163 - 1) G163 = pt_neg G163"
    using chain_reps_16 constants_length gf163_bits_eq [OF base_opposite]
    by (simp add: chain_rep_def gf163_bits_calc order_163 gx163_def [symmetric])
  moreover have "order_value M163 = Suc (order_value M163 - 1)" using order_bounds(1) [of M163] by simp
  ultimately show ?thesis by (metis base.pt_add_neg(2) pt_mult.simps(2))
qed

lemma generator_order: "hw_ok hw \<Longrightarrow> point_times hw M163 (order_value M163) (generator M163) = Infinity"
  using fe163.emb_times [of hw "generator M163" "order_value M163"] order_times_G163 generator_ok [of M163]
  by (simp add: generator_def constants163)

end
