(* ===== verification/Dstu4145_Points.thy ===== *)
theory Dstu4145_Points
  imports Dstu4145_Generator
begin

text \<open>
  The properties of the curve code: the group laws of \<open>Point\<close>, \<open>scalar_multiply\<close> as repeated addition, both
  bodies of \<open>verify_combine\<close> and the order of the base point.
\<close>

section \<open>Properties\<close>

text \<open>C23. The points that \<open>is_on_curve\<close> accepts, with the identity, form a commutative group under the code's
  \<open>add\<close> and \<open>negate\<close> on both curves: the operations stay on the curve and the sum is commutative and
  associative with \<open>Infinity\<close> neutral and \<open>negate\<close> the inverse.\<close>

theorem curve_group:
  assumes "hw_ok hw" "group_point hw c p" "group_point hw c q" "group_point hw c r"
  shows "group_point hw c (point_add hw c p q) \<and> group_point hw c (negate p) \<and>
    point_add hw c p q = point_add hw c q p \<and>
    point_add hw c (point_add hw c p q) r = point_add hw c p (point_add hw c q r) \<and>
    point_add hw c Infinity p = p \<and> point_add hw c p (negate p) = Infinity"
  using fe163.group_laws [of hw p q r] fe257.group_laws [of hw p q r] assms by (cases c) auto

theorem curve_group_witness:
  "point_add (Some clmul_instance) M257 (generator M257) (negate (generator M257)) = Infinity \<and>
   group_point None M163 (point_add None M163 (generator M163) (generator M163))"
  using curve_group [OF hw_ok_instance generator_group generator_group generator_group, of M257] hw_ok_instance
    curve_group [OF hw_ok_portable generator_group generator_group generator_group, of M163] hw_ok_portable by blast


text \<open>C13. The constant-time ladder is repeated addition: for every point of the group, those of order two
  included, and every scalar of the curve's bit length, \<open>scalar_multiply\<close> is the sum of that many copies of
  the point, with the identity and the recovery at \<open>(k + 1)P = Infinity\<close> right.\<close>

theorem scalar_multiply_is_repeated_addition:
  assumes "hw_ok hw" "group_point hw c p" "length k = sc_bytes c" "be_value k < 2 ^ fe_m c"
  shows "point_scalar_multiply hw c p k = point_times hw c (be_value k) p"
  by (rule curve_scalar_multiply [OF assms])

theorem scalar_multiply_is_repeated_addition_witness:
  "point_scalar_multiply None M257 (generator M257) (replicate 32 0 @ [2]) = point_add None M257 (generator M257) (generator M257)"
proof -
  have "be_value (replicate 32 0 @ [2]) = 2" by (simp add: be_value_simps(2) be_value_def be_value_zeros)
  then show ?thesis
    using scalar_multiply_is_repeated_addition [OF hw_ok_portable generator_group [OF hw_ok_portable], of "replicate 32 0 @ [2]" M257] by simp
qed


text \<open>C14. Both build profiles of \<open>verify_combine\<close> return \<open>s\<close> copies of the first point plus \<open>r\<close> copies of
  the second: Shamir's trick in projective coordinates, with its shortcuts at the identity and at equal
  abscissas, and the two ladders of the small profile.\<close>

theorem verify_combine_profiles_agree:
  assumes "hw_ok hw" "group_point hw M163 g" "group_point hw M163 q" "length s = 21" "length r = 21"
    "be_value s < 2 ^ 163" "be_value r < 2 ^ 163"
  shows "verify_combine small_tables hw g s q r =
    point_add hw M163 (point_times hw M163 (be_value s) g) (point_times hw M163 (be_value r) q)"
  by (rule combine_times163 [OF assms])

theorem verify_combine_profiles_agree_witness:
  "verify_combine True None (generator M163) (replicate 20 0 @ [1]) (negate (generator M163)) (replicate 20 0 @ [1]) = Infinity \<and>
   verify_combine False None (generator M163) (replicate 20 0 @ [1]) (negate (generator M163)) (replicate 20 0 @ [1]) = Infinity"
proof -
  note g = generator_group [OF hw_ok_portable, of M163]
  have n: "group_point None M163 (negate (generator M163))" "point_add None M163 (generator M163) (negate (generator M163)) = Infinity"
    using fe163.group_laws(2,6) [OF hw_ok_portable g g g] by blast+
  have "be_value (replicate 20 0 @ [1]) = 1" by (simp add: be_value_simps(2) be_value_def be_value_zeros)
  then show ?thesis
    using verify_combine_profiles_agree [OF hw_ok_portable g n(1), of "replicate 20 0 @ [1]" "replicate 20 0 @ [1]"] n(2) by simp
qed

text \<open>C24. The base points are points of their curves, and \<open>n\<close> times the base point of the 163-bit curve is
  the identity, as \<open>scalar_multiply\<close> computes it with the constant of \<open>curve163::order\<close>.\<close>

theorem base_point_order:
  assumes "hw_ok hw"
  shows "is_on_curve hw M163 (generator M163) \<and> is_on_curve hw M257 (generator M257) \<and>
    point_scalar_multiply hw M163 (generator M163) (curve_order M163) = Infinity"
proof -
  have "is_on_curve hw c (generator c)" for c using generator_group [OF assms, of c] by (auto simp: group_point_def generator_def simp del: is_on_curve.simps)
  moreover have "point_scalar_multiply hw M163 (generator M163) (curve_order M163) = Infinity"
    using curve_scalar_multiply [OF assms generator_group [OF assms], of "curve_order M163" M163] generator_order [OF assms] order_163
    by (simp add: order_value_def curve163_order_def)
  ultimately show ?thesis by blast
qed

theorem base_point_order_witness:
  "is_on_curve (Some clmul_instance) M257 (generator M257) \<and> point_scalar_multiply None M163 (generator M163) (curve_order M163) = Infinity"
  using base_point_order [OF hw_ok_instance] base_point_order [OF hw_ok_portable] by blast

end
