(* ===== verification/Dstu4145_Signature.thy ===== *)
theory Dstu4145_Signature
  imports Dstu4145_Points
begin

text \<open>
  \<open>crates/dstu-core/src/hazmat/dstu4145/signature.rs\<close> and \<open>signature257.rs\<close>: the sign and verify routines
  over an already computed digest. The files differ in the widths, the truncation and the combine step;
  \<open>small_tables\<close> is the cargo feature of \<open>verify_combine\<close>.
\<close>

section \<open>Definitions\<close>

definition hash_to_field :: "dstu4145_curve \<Rightarrow> bytes \<Rightarrow> u64 list" where
  "hash_to_field c hash =
     (let tk = min (length hash) (sc_bytes c);
          bs = replicate (sc_bytes c - tk) 0 @ drop (length hash - tk) hash;
          bs = (if tk = sc_bytes c then bs[0 := bs ! 0 AND (case c of M163 \<Rightarrow> 0x07 | M257 \<Rightarrow> 0x01)] else bs)
      in fe_const c bs)"

text \<open>\<open>truncate_162\<close> and \<open>truncate_255\<close>: the low \<open>n.bit_length() - 1\<close> bits.\<close>

definition sig_truncate :: "dstu4145_curve \<Rightarrow> u64 list \<Rightarrow> bytes" where
  "sig_truncate c y =
     (let bs = fe_to_be_bytes c y
      in case c of M163 \<Rightarrow> bs[0 := bs ! 0 AND 0x03] | M257 \<Rightarrow> bs[0 := 0, 1 := bs[0 := 0] ! 1 AND 0x7F])"

definition bytes_is_zero :: "bytes \<Rightarrow> bool" where
  "bytes_is_zero bs = list_all (\<lambda>b. b = 0) bs"

text \<open>The order of byte arrays is lexicographic.\<close>

fun less_than :: "bytes \<Rightarrow> bytes \<Rightarrow> bool" where
  "less_than (a # as) (b # bs) = (a < b \<or> a = b \<and> less_than as bs)"
| "less_than [] bs = (bs \<noteq> [])"
| "less_than (a # as) [] = False"

definition combine :: "bool \<Rightarrow> clmul_hw \<Rightarrow> dstu4145_curve \<Rightarrow> point \<Rightarrow> bytes \<Rightarrow> point \<Rightarrow> bytes \<Rightarrow> point" where
  "combine small_tables hw c g s q r =
     (case c of
        M163 \<Rightarrow> verify_combine small_tables hw g s q r
      | M257 \<Rightarrow> point_add hw c (point_scalar_multiply hw c g s) (point_scalar_multiply hw c q r))"

definition sig_verify :: "bool \<Rightarrow> clmul_hw \<Rightarrow> dstu4145_curve \<Rightarrow> bytes \<Rightarrow> bytes \<Rightarrow> bytes \<Rightarrow> point \<Rightarrow> point \<Rightarrow> bool" where
  "sig_verify small_tables hw c hash r s q g =
     (let n = curve_order c
      in if bytes_is_zero r \<or> bytes_is_zero s \<or> \<not> less_than r n \<or> \<not> less_than s n then False
         else if \<not> is_on_curve hw c q \<or> point_scalar_multiply hw c q n \<noteq> Infinity then False
         else let h = hash_to_field c hash;
                  h = (if h = fe_ZERO c then fe_ONE c else h)
              in case combine small_tables hw c g s q r of
                   Infinity \<Rightarrow> False
                 | Affine rx ry \<Rightarrow> sig_truncate c (fe_multiply hw c h rx) = r)"

definition sign :: "clmul_hw \<Rightarrow> dstu4145_curve \<Rightarrow> bytes \<Rightarrow> u64 list \<Rightarrow> u64 list \<Rightarrow> point \<Rightarrow> (bytes \<times> bytes) option" where
  "sign hw c hash d e g =
     (let h = hash_to_field c hash;
          h = (if h = fe_ZERO c then fe_ONE c else h);
          e_bytes = scalar_to_be_bytes c e
      in case point_scalar_multiply hw c g e_bytes of
           Infinity \<Rightarrow> None
         | Affine fe_x fe_y \<Rightarrow>
             if fe_x = fe_ZERO c then None
             else let y = fe_multiply hw c h fe_x;
                      r_bytes = sig_truncate c y
                  in if bytes_is_zero r_bytes then None
                     else case scalar_from_be_bytes c r_bytes of
                         None \<Rightarrow> None
                       | Some r \<Rightarrow>
                           let s = scalar_add c (scalar_multiply c r d) e
                           in if scalar_is_zero c s then None else Some (r_bytes, scalar_to_be_bytes c s))"

section \<open>Bytes\<close>

lemma bytes_is_zero_iff: "bytes_is_zero bs \<longleftrightarrow> be_value bs = 0"
proof (induction bs rule: rev_induct)
  case (snoc b bs)
  then show ?case by (auto simp: bytes_is_zero_def unat_eq_0)
qed (simp add: bytes_is_zero_def)

lemma be_value_Cons: "be_value (b # bs) = unat b * 256 ^ length bs + be_value bs"
proof (induction bs rule: rev_induct)
  case (snoc x bs)
  have "be_value ((b # bs) @ [x]) = 256 * be_value (b # bs) + unat x" by (rule be_value_simps(2))
  then show ?case using snoc by (simp add: algebra_simps)
qed (simp add: be_value_def)

lemma be_value_less: "be_value bs < 256 ^ length bs"
proof (induction bs rule: rev_induct)
  case (snoc b bs)
  have "unat b < 256" by (rule unat_u8_less)
  then show ?case using snoc by simp
qed simp

lemma less_than_iff: "length a = length b \<Longrightarrow> less_than a b \<longleftrightarrow> be_value a < be_value b"
proof (induction a b rule: less_than.induct)
  case (1 a as b bs)
  have less: "be_value (a # as) < be_value (b # bs)" if "a < b" "length as = length bs" for a b :: u8 and as bs
  proof -
    have "Suc (unat a) * 256 ^ length as \<le> unat b * 256 ^ length as" using that by (intro mult_le_mono1) (simp add: word_less_nat_alt)
    then show ?thesis using be_value_less [of as] that by (simp add: be_value_Cons)
  qed
  consider "a < b" | "a = b" | "b < a" by (rule linorder_cases)
  then show ?case
  proof cases
    case 1
    then show ?thesis using less [of a b as bs] "1.prems" by simp
  next
    case 2
    then show ?thesis using "1.IH" "1.prems" by (simp add: be_value_Cons)
  next
    case 3
    then show ?thesis using less [of b a bs as] "1.prems" by auto
  qed
qed simp_all

text \<open>Clearing the high bits of the first byte keeps the low bits of the number.\<close>

lemma be_value_mask_top:
  assumes "length bs = Suc k" "j \<le> 8"
  shows "be_value (bs[0 := take_bit j (bs ! 0)]) = take_bit (8 * k + j) (be_value bs)"
proof (rule bit_eqI)
  fix i :: nat
  obtain b t where bs: "bs = b # t" "length t = k" using assms(1) by (cases bs) simp_all
  have i: "i = 8 * (i div 8) + i mod 8" "i mod 8 < 8" by simp_all
  have "k = i div 8 \<Longrightarrow> i < 8 * k + j \<longleftrightarrow> i mod 8 < j" using i by linarith
  moreover have "i div 8 < k \<Longrightarrow> i < 8 * k + j" using i by linarith
  ultimately show "bit (be_value (bs[0 := take_bit j (bs ! 0)])) i \<longleftrightarrow> bit (take_bit (8 * k + j) (be_value bs)) i"
    using bs by (auto simp: bit_be_value bit_take_bit_iff nth_append less_Suc_eq)
qed

lemma be_value_drop: "be_value (drop (length bs - k) bs) = take_bit (8 * k) (be_value bs)"
proof (rule bit_eqI)
  fix i :: nat
  have "i div 8 < k \<longleftrightarrow> i < 8 * k" by (rule div_less_iff_less_mult [of 8 i k, unfolded mult.commute [of k]]) simp
  then show "bit (be_value (drop (length bs - k) bs)) i \<longleftrightarrow> bit (take_bit (8 * k) (be_value bs)) i"
    by (auto simp: bit_be_value bit_take_bit_iff rev_drop min_def)
qed

lemma be_value_leading_zeros: "be_value (replicate k 0 @ bs) = be_value bs"
  by (induction k) (simp_all add: be_value_Cons)

lemma u8_masks: "w AND 0x07 = take_bit 3 w" "w AND 0x03 = take_bit 2 w" "w AND 0x01 = take_bit 1 w" "w AND 0x7F = take_bit 7 (w :: u8)"
  by (simp_all add: take_bit_eq_mask mask_eq_exp_minus_1)

lemma hash_to_field_value: "fe_ok c (hash_to_field c hash)" "lv (hash_to_field c hash) = take_bit (fe_m c) (be_value hash)"
proof -
  define tk where "tk = min (length hash) (sc_bytes c)"
  define bs where "bs = replicate (sc_bytes c - tk) 0 @ drop (length hash - tk) hash"
  define bs' where "bs' = (if tk = sc_bytes c then bs[0 := bs ! 0 AND (case c of M163 \<Rightarrow> 0x07 | M257 \<Rightarrow> 0x01)] else bs)"
  have len: "length bs = sc_bytes c" by (simp add: bs_def tk_def)
  have v: "be_value bs = take_bit (8 * tk) (be_value hash)" by (simp add: bs_def be_value_leading_zeros be_value_drop)
  have "be_value bs' = take_bit (fe_m c) (be_value hash)"
  proof (cases "tk = sc_bytes c")
    case True
    define j :: nat where "j = (case c of M163 \<Rightarrow> 3 | M257 \<Rightarrow> 1)"
    have j: "fe_m c = 8 * (sc_bytes c - 1) + j" "j \<le> 8" by (cases c; simp add: j_def)+
    have "bs' = bs[0 := take_bit j (bs ! 0)]" unfolding bs'_def j_def using True by (cases c) (simp_all add: u8_masks)
    then have "be_value bs' = take_bit (fe_m c) (be_value bs)"
      using be_value_mask_top [of bs "sc_bytes c - 1" j] len fe_dimensions(5,6) [of c] j by (cases c) simp_all
    then show ?thesis unfolding v True using fe_dimensions(4) [of c] by (simp add: take_bit_take_bit min_absorb1)
  next
    case False
    then have tk: "tk = length hash" "8 * tk \<le> fe_m c" by (cases c; simp add: tk_def)+
    have "be_value hash < 2 ^ (8 * tk)" using be_value_less [of hash] by (simp add: tk power_mult)
    moreover from this have "be_value hash < 2 ^ fe_m c" using power_increasing [OF tk(2), of "2 :: nat"] by linarith
    ultimately show ?thesis using False by (simp add: bs'_def v take_bit_nat_eq_self)
  qed
  moreover have "hash_to_field c hash = fe_const c bs'" unfolding hash_to_field_def bs'_def bs_def tk_def Let_def ..
  moreover have "length bs' = sc_bytes c" using len by (simp add: bs'_def)
  ultimately show "fe_ok c (hash_to_field c hash)" "lv (hash_to_field c hash) = take_bit (fe_m c) (be_value hash)"
    using fe_const_value [of bs' c] by (simp_all add: take_bit_nat_less_exp)
qed

text \<open>The truncation keeps one bit less than the order has.\<close>

fun order_bits :: "dstu4145_curve \<Rightarrow> nat" where
  "order_bits M163 = 162" | "order_bits M257 = 255"

lemma order_bits_le: "2 ^ order_bits c < order_value c" "order_value c < 2 ^ fe_m c"
  by (cases c; simp add: order_163 order_257)+

lemma truncate_value:
  assumes "fe_ok c y"
  shows "length (sig_truncate c y) = sc_bytes c" "be_value (sig_truncate c y) = take_bit (order_bits c) (lv y)"
proof -
  define bs where "bs = fe_to_be_bytes c y"
  have "length y = sc_limbs c" "lv y < 2 ^ fe_m c" using assms by (simp_all add: fe_ok_def)
  moreover have "(2 :: nat) ^ fe_m c \<le> 256 ^ sc_bytes c" by (cases c) simp_all
  ultimately have bs: "length bs = sc_bytes c" "be_value bs = lv y"
    using to_be_bytes_value [of y c] by (simp_all add: bs_def fe_bytes_eq)
  have tr: "sig_truncate c y = (case c of M163 \<Rightarrow> bs[0 := bs ! 0 AND 0x03] | M257 \<Rightarrow> bs[0 := 0, 1 := bs[0 := 0] ! 1 AND 0x7F])"
    unfolding sig_truncate_def bs_def Let_def ..
  show "length (sig_truncate c y) = sc_bytes c" unfolding tr using bs by (cases c) simp_all
  show "be_value (sig_truncate c y) = take_bit (order_bits c) (lv y)"
  proof (cases c)
    case M163
    then show ?thesis unfolding tr using be_value_mask_top [of bs 20 2] bs by (simp add: u8_masks)
  next
    case M257
    obtain b0 b1 t where b: "bs = b0 # b1 # t" "length t = 31" using bs(1) M257 by (cases bs; cases "tl bs") auto
    have "be_value (sig_truncate c y) = be_value (0 # (b1 # t)[0 := take_bit 7 ((b1 # t) ! 0)])"
      unfolding tr using M257 b by (simp add: u8_masks)
    also have "\<dots> = take_bit 255 (be_value (b1 # t))" using be_value_mask_top [of "b1 # t" 31 7] b by (simp add: be_value_Cons)
    also have "\<dots> = take_bit 255 (be_value bs)"
    proof -
      have "take_bit 256 (be_value bs) = be_value (b1 # t)" using be_value_drop [of bs 32] b by simp
      then show ?thesis unfolding \<open>take_bit 256 (be_value bs) = be_value (b1 # t)\<close> [symmetric] take_bit_take_bit by (simp only: min_def) simp
    qed
    finally show ?thesis using bs M257 by simp
  qed
qed

section \<open>Multiples in the group\<close>

context field_embedding
begin

lemma times_eqI:
  assumes "hw_ok hw" "point_ok c p" "point_ok c q" "emb_pt emb p = emb_pt emb q"
  shows "p = q"
  using assms emb_pt_inject by blast

text \<open>What makes signatures verify: in a group of exponent \<open>n\<close>, \<open>sG - r(dG)\<close> is \<open>eG\<close> when \<open>s\<close> is
  \<open>rd + e\<close> modulo \<open>n\<close>.\<close>

lemma signature_equation:
  assumes hw: "hw_ok hw" and g: "group_point hw c g" and n: "point_times hw c n g = Infinity"
    and q_def: "q = negate (point_times hw c d g)"
  shows "group_point hw c q" "point_times hw c n q = Infinity"
    "point_add hw c (point_times hw c ((r * d + e) mod n) g) (point_times hw c r q) = point_times hw c e g"
proof -
  let ?G = "emb_pt emb g" and ?a = "curve_a c" and ?b = "emb (curve_b c)"
  have gk: "point_ok c g" and on: "on_curve ?a ?b ?G" using g by (simp_all add: group_point_iff [OF hw])
  have onm: "on_curve ?a ?b (pt_mult ?a k ?G)" for k using on by (rule curve.on_curve_mult)
  note t = emb_times [OF hw]
  have q: "point_ok c q" "emb_pt emb q = pt_neg (pt_mult ?a d ?G)" using t [OF gk] emb_negate by (simp_all add: q_def)
  then show "group_point hw c q" using onm by (simp add: group_point_iff [OF hw])
  have nG: "pt_mult ?a n ?G = Inf" using t [OF gk, of n] n by simp
  have rq: "pt_mult ?a k (emb_pt emb q) = pt_neg (pt_mult ?a (k * d) ?G)" for k
    using on onm by (simp add: q curve.pt_mult_neg curve.pt_mult_mult)
  have "pt_mult ?a (n * d) ?G = Inf" using nG on curve.pt_mult_mult [of ?G d n] by (simp add: mult.commute)
  then show "point_times hw c n q = Infinity" using t [OF q(1), of n] rq [of n] by simp
  have "pt_mult ?a ((r * d + e) mod n) ?G = pt_add ?a (pt_mult ?a e ?G) (pt_mult ?a (r * d) ?G)"
    using curve.pt_mult_mod [OF on nG] curve.pt_mult_add [OF on, of e "r * d"] by (simp add: add.commute)
  then have "pt_add ?a (pt_mult ?a ((r * d + e) mod n) ?G) (pt_mult ?a r (emb_pt emb q)) = pt_mult ?a e ?G"
    using curve.pt_add_cancel'(1) [OF onm onm] by (simp add: rq)
  then show "point_add hw c (point_times hw c ((r * d + e) mod n) g) (point_times hw c r q) = point_times hw c e g"
    using t [OF gk] t [OF q(1)] emb_point_add [OF hw] by (intro times_eqI [OF hw]) simp_all
qed

lemma times_of_sum:
  assumes hw: "hw_ok hw" and p: "group_point hw c p" and q: "group_point hw c q"
  shows "point_times hw c n (point_add hw c p q) = point_add hw c (point_times hw c n p) (point_times hw c n q)"
proof (induction n)
  case (Suc n)
  let ?add = "point_add hw c" let ?np = "point_times hw c n p" and ?nq = "point_times hw c n q"
  note gp = group_laws(3) [OF hw p p p, of n] and gq = group_laws(3) [OF hw q q q, of n]
  note pq = group_laws(1) [OF hw p q q] and as = group_laws(5) [OF hw]
  have "?add (?add ?np ?nq) (?add p q) = ?add ?np (?add (?add ?nq p) q)" using as [OF gp gq pq] as [OF gq p q] by simp
  also have "\<dots> = ?add ?np (?add (?add p ?nq) q)" using group_laws(4) [OF hw gq p p] by simp
  also have "\<dots> = ?add (?add ?np p) (?add ?nq q)"
    using as [OF p gq q] as [OF gp p group_laws(1) [OF hw gq q q]] by simp
  finally show ?case using Suc by simp
qed simp

text \<open>A point whose order divides two coprime numbers is the identity.\<close>

lemma coprime_multiples:
  assumes hw: "hw_ok hw" and p: "group_point hw c p" and k: "coprime k n" "point_times hw c k p = Infinity" "point_times hw c n p = Infinity"
  shows "p = Infinity"
proof (cases "k = 0")
  case True
  then show ?thesis using k by simp
next
  case False
  let ?P = "emb_pt emb p" and ?a = "curve_a c"
  have ok: "point_ok c p" and on: "on_curve ?a (emb (curve_b c)) ?P" using p by (simp_all add: group_point_iff [OF hw])
  have z: "pt_mult ?a k ?P = Inf" "pt_mult ?a n ?P = Inf" using emb_times [OF hw ok, of k] emb_times [OF hw ok, of n] k by simp_all
  obtain x y where "k * x = n * y + gcd k n" using bezout_nat [OF False, of n] by blast
  then have xy: "x * k = y * n + 1" using k(1) by (simp add: mult.commute)
  have "pt_mult ?a (x * k) ?P = Inf" "pt_mult ?a (y * n) ?P = Inf" using curve.pt_mult_mult [OF on] z by simp_all
  then have "pt_mult ?a 1 ?P = Inf" using curve.pt_mult_add [OF on, of "y * n" 1] unfolding xy by simp
  then show ?thesis by simp
qed

text \<open>The multiply routine does not matter: every machine computes the same points.\<close>

lemma hw_agree:
  assumes "hw_ok hw" "hw_ok hw'"
  shows "group_point hw c p \<longleftrightarrow> group_point hw' c p" "point_ok c p \<Longrightarrow> point_times hw c n p = point_times hw' c n p"
    "fe_ok c x \<Longrightarrow> fe_ok c y \<Longrightarrow> fe_multiply hw c x y = fe_multiply hw' c x y"
proof -
  show "group_point hw c p \<longleftrightarrow> group_point hw' c p" by (simp add: group_point_iff assms)
  show "point_times hw c n p = point_times hw' c n p" if "point_ok c p"
    using emb_times [OF assms(1) that, of n] emb_times [OF assms(2) that, of n] by (intro times_eqI [OF assms(1)]) simp_all
  show "fe_multiply hw c x y = fe_multiply hw' c x y" if "fe_ok c x" "fe_ok c y"
    using fe_multiply_value [OF assms(1) that] fe_multiply_value [OF assms(2) that] fe_inject [of c "fe_multiply hw c x y" "fe_multiply hw' c x y"] by simp
qed

end

lemma machines_agree:
  assumes "hw_ok hw" "hw_ok hw'"
  shows "group_point hw c p \<longleftrightarrow> group_point hw' c p" "point_ok c p \<Longrightarrow> point_times hw c n p = point_times hw' c n p"
    "fe_ok c x \<Longrightarrow> fe_ok c y \<Longrightarrow> fe_multiply hw c x y = fe_multiply hw' c x y"
  using fe163.hw_agree [OF assms] fe257.hw_agree [OF assms] by (cases c; blast)+

lemma coprime_orders:
  assumes "hw_ok hw" "group_point hw c p" "coprime k n" "point_times hw c k p = Infinity" "point_times hw c n p = Infinity"
  shows "p = Infinity"
  using fe163.coprime_multiples [of hw p k n] fe257.coprime_multiples [of hw p k n] assms by (cases c) simp_all

lemma signature_sum:
  assumes "hw_ok hw" "group_point hw c g" "point_times hw c n g = Infinity" "q = negate (point_times hw c d g)"
  shows "group_point hw c q" "point_times hw c n q = Infinity"
    "point_add hw c (point_times hw c ((r * d + e) mod n) g) (point_times hw c r q) = point_times hw c e g"
  using fe163.signature_equation(1,2) [of hw g n q d] fe163.signature_equation(3) [of hw g n q d r e]
    fe257.signature_equation(1,2) [of hw g n q d] fe257.signature_equation(3) [of hw g n q d r e] assms by (cases c; simp)+

lemma combine_value:
  assumes "hw_ok hw" "group_point hw c g" "group_point hw c q" "length s = sc_bytes c" "length r = sc_bytes c"
    "be_value s < 2 ^ fe_m c" "be_value r < 2 ^ fe_m c"
  shows "combine small_tables hw c g s q r = point_add hw c (point_times hw c (be_value s) g) (point_times hw c (be_value r) q)"
  using assms combine_times163 [of hw g q s r small_tables] curve_scalar_multiply [of hw c] by (cases c) (simp_all add: combine_def)

section \<open>Signing and verifying\<close>

lemma valid_scalar_bytes:
  assumes "valid_scalar c d"
  shows "length (scalar_to_be_bytes c d) = sc_bytes c" "be_value (scalar_to_be_bytes c d) = lv d" "lv d < 2 ^ fe_m c"
  using to_be_bytes_value [of d c] assms order_bounds(3) [of c] order_bits_le(2) [of c]
  by (simp_all add: valid_scalar_def less_le_trans)

lemma scalar_product_sum:
  assumes "valid_scalar c r" "valid_scalar c d" "valid_scalar c e"
  shows "valid_scalar c (scalar_add c (scalar_multiply c r d) e)" "lv (scalar_add c (scalar_multiply c r d) e) = (lv r * lv d + lv e) mod order_value c"
proof -
  have "valid_scalar c (scalar_multiply c r d)" "lv (scalar_multiply c r d) = lv r * lv d mod order_value c"
    using reduce_mod_n_value [of c "mul_limbs r d"] assms mul_limbs_value [of r d] by (simp_all add: scalar_multiply_def)
  then show "valid_scalar c (scalar_add c (scalar_multiply c r d) e)" "lv (scalar_add c (scalar_multiply c r d) e) = (lv r * lv d + lv e) mod order_value c"
    using scalar_add_value [OF _ assms(3), of "scalar_multiply c r d"] by (simp_all add: mod_add_left_eq)
qed

lemma curve_order_length: "length (curve_order c) = sc_bytes c"
  by (cases c) (simp_all add: curve163_order_def curve257_order_def)

text \<open>What a signature is: \<open>r\<close> is the truncated product of the hash with the abscissa of \<open>eG\<close> and
  \<open>s\<close> is \<open>rd + e\<close> modulo the order.\<close>

lemma sign_SomeD:
  assumes hw: "hw_ok hw" and g: "group_point hw c g" and d: "valid_scalar c d" and e: "valid_scalar c e"
    and sg: "sign hw c hash d e g = Some (r, s)"
  defines "h \<equiv> (if hash_to_field c hash = fe_ZERO c then fe_ONE c else hash_to_field c hash)"
  obtains x y where "point_times hw c (lv e) g = Affine x y" "fe_ok c x" "r = sig_truncate c (fe_multiply hw c h x)" "be_value r \<noteq> 0"
    "length r = sc_bytes c" "be_value r < order_value c"
    "length s = sc_bytes c" "be_value s = (be_value r * lv d + lv e) mod order_value c" "be_value s \<noteq> 0"
proof -
  note eb = valid_scalar_bytes [OF e]
  have psm: "point_scalar_multiply hw c g (scalar_to_be_bytes c e) = point_times hw c (lv e) g"
    using curve_scalar_multiply [OF hw g, of "scalar_to_be_bytes c e"] eb by simp
  obtain x y where xy: "point_times hw c (lv e) g = Affine x y" using sg by (cases "point_times hw c (lv e) g") (simp_all add: sign_def psm Let_def)
  have "group_point hw c (Affine x y)"
    using curve_times_closed [OF hw g, of "lv e"] by (simp add: xy)
  then have x: "fe_ok c x" using curve_point_ok [OF hw] by fastforce
  have h: "fe_ok c h" using hash_to_field_value(1) fe_constants(3) by (simp add: h_def)
  define rb where "rb = sig_truncate c (fe_multiply hw c h x)"
  note tr = truncate_value [OF fe_multiply_value(1) [OF hw h x], folded rb_def]
  have rn: "be_value rb < order_value c" using order_bits_le(1) [of c] by (simp add: tr) (meson less_trans take_bit_nat_less_exp)
  obtain rl where rl: "scalar_from_be_bytes c rb = Some rl" "lv rl = be_value rb" "length rl = sc_limbs c"
    using limbs_from_be_bytes_value [of rb "sc_limbs c"] tr(1) fe_dimensions(6) [of c] unfolding scalar_from_be_bytes_def by metis
  define sl where "sl = scalar_add c (scalar_multiply c rl d) e"
  have "valid_scalar c rl" using rl rn by (simp add: valid_scalar_def)
  then have sl: "valid_scalar c sl" "lv sl = (be_value rb * lv d + lv e) mod order_value c"
    using scalar_product_sum [of c rl d e] d e rl(2) by (simp_all add: sl_def)
  have "r = rb" "s = scalar_to_be_bytes c sl" "be_value rb \<noteq> 0" "\<not> scalar_is_zero c sl"
    using sg by (simp_all add: sign_def Let_def psm xy rl bytes_is_zero_iff flip: h_def rb_def sl_def split: if_splits)
  moreover have "lv sl \<noteq> 0" if "\<not> scalar_is_zero c sl"
    using that sl(1) lv_inject [of sl "replicate (sc_limbs c) 0"] by (auto simp: scalar_is_zero_def valid_scalar_def)
  ultimately show ?thesis using that [OF xy x] tr rn valid_scalar_bytes [OF sl(1)] sl(2) by (simp add: rb_def)
qed

lemma verify_accepts:
  assumes hw: "hw_ok hw" and g: "group_point hw c g" and q: "group_point hw c q" "q \<noteq> Infinity" "point_times hw c (order_value c) q = Infinity"
    and r: "length r = sc_bytes c" "be_value r \<noteq> 0" "be_value r < order_value c"
    and s: "length s = sc_bytes c" "be_value s \<noteq> 0" "be_value s < order_value c"
    and R: "point_add hw c (point_times hw c (be_value s) g) (point_times hw c (be_value r) q) = Affine x y"
  shows "sig_verify small_tables hw c hash r s q g \<longleftrightarrow>
    sig_truncate c (fe_multiply hw c (if hash_to_field c hash = fe_ZERO c then fe_ONE c else hash_to_field c hash) x) = r"
proof -
  have bound: "be_value r < 2 ^ fe_m c" "be_value s < 2 ^ fe_m c" using r s order_bits_le(2) [of c] by linarith+
  have "combine small_tables hw c g s q r = Affine x y" using combine_value [OF hw g q(1) s(1) r(1) bound(2,1)] R by simp
  moreover have "is_on_curve hw c q" using q by (auto simp: group_point_def)
  moreover have "point_scalar_multiply hw c q (curve_order c) = Infinity"
    using curve_scalar_multiply [OF hw q(1) curve_order_length] q(3) order_bits_le(2) [of c] by (simp add: order_value_def)
  moreover have "less_than r (curve_order c)" "less_than s (curve_order c)"
    using less_than_iff [of _ "curve_order c"] r s curve_order_length [of c] by (simp_all add: order_value_def)
  ultimately show ?thesis using r s by (simp add: sig_verify_def bytes_is_zero_iff)
qed

lemma signature_verifies:
  assumes "hw_ok hw" "hw_ok hw'" "group_point hw c g" "point_times hw c (order_value c) g = Infinity"
    "valid_scalar c d" "valid_scalar c e" "sign hw c hash d e g = Some (r, s)"
    "q = negate (point_scalar_multiply hw c g (scalar_to_be_bytes c d))" "q \<noteq> Infinity"
  shows "sig_verify small_tables hw' c hash r s q g"
proof -
  have g': "group_point hw' c g" and gk: "point_ok c g" using machines_agree(1) [OF assms(1,2)] curve_point_ok [OF assms(1)] assms(3) by auto
  note ag = machines_agree [OF assms(1,2)]
  obtain x y where x: "point_times hw c (lv e) g = Affine x y" "fe_ok c x"
      and rs: "r = sig_truncate c (fe_multiply hw c (if hash_to_field c hash = fe_ZERO c then fe_ONE c else hash_to_field c hash) x)"
        "be_value r \<noteq> 0" "length r = sc_bytes c" "be_value r < order_value c"
        "length s = sc_bytes c" "be_value s = (be_value r * lv d + lv e) mod order_value c" "be_value s \<noteq> 0"
    by (rule sign_SomeD [OF assms(1,3,5,6,7)])
  have "point_scalar_multiply hw c g (scalar_to_be_bytes c d) = point_times hw c (lv d) g"
    using curve_scalar_multiply [OF assms(1,3)] valid_scalar_bytes [OF assms(5)] by simp
  then have q: "q = negate (point_times hw' c (lv d) g)" using ag(2) [OF gk] assms(8) by simp
  have n: "point_times hw' c (order_value c) g = Infinity" using ag(2) [OF gk] assms(4) by simp
  note sum = signature_sum [OF assms(2) g' n q]
  have R: "point_add hw' c (point_times hw' c (be_value s) g) (point_times hw' c (be_value r) q) = Affine x y"
    unfolding rs(6) using sum(3) x(1) ag(2) [OF gk] by simp
  have sn: "be_value s < order_value c" unfolding rs(6) using order_bounds(1) [of c] by simp
  have "fe_ok c (if hash_to_field c hash = fe_ZERO c then fe_ONE c else hash_to_field c hash)"
    using fe_constants(3) hash_to_field_value(1) by simp
  from ag(3) [OF this x(2)] show ?thesis
    using verify_accepts [OF assms(2) g' sum(1) assms(9) sum(2) rs(3,2,4,5,7) sn R] rs(1) by simp
qed

section \<open>Properties\<close>

lemma verify_key_checked:
  assumes "hw_ok hw" "point_limbs c q" "length r = sc_bytes c" "length s = sc_bytes c" "sig_verify small_tables hw c hash r s q g"
  shows "0 < be_value r" "be_value r < order_value c" "0 < be_value s" "be_value s < order_value c"
    "is_on_curve hw c q" "q \<noteq> Infinity" "point_times hw c (order_value c) q = Infinity"
proof -
  have v: "\<not> bytes_is_zero r" "\<not> bytes_is_zero s" "less_than r (curve_order c)" "less_than s (curve_order c)"
    and on: "is_on_curve hw c q" and n: "point_scalar_multiply hw c q (curve_order c) = Infinity"
    using assms(5) by (auto simp: sig_verify_def Let_def split: if_splits)
  show "0 < be_value r" "be_value r < order_value c" "0 < be_value s" "be_value s < order_value c"
    using v less_than_iff [of _ "curve_order c"] assms(3,4) curve_order_length [of c] by (simp_all add: bytes_is_zero_iff order_value_def)
  show "is_on_curve hw c q" "q \<noteq> Infinity" using on by auto
  have "group_point hw c q" using on assms(2) by (auto simp: group_point_def)
  then show "point_times hw c (order_value c) q = Infinity"
    using curve_scalar_multiply [OF assms(1) _ curve_order_length] order_bits_le(2) [of c] n by (simp add: order_value_def)
qed

lemma verify_iff:
  assumes hw: "hw_ok hw" and g: "group_point hw c g" and q: "point_limbs c q" and len: "length r = sc_bytes c" "length s = sc_bytes c"
  shows "sig_verify small_tables hw c hash r s q g \<longleftrightarrow>
    0 < be_value r \<and> be_value r < order_value c \<and> 0 < be_value s \<and> be_value s < order_value c \<and>
    is_on_curve hw c q \<and> q \<noteq> Infinity \<and> point_times hw c (order_value c) q = Infinity \<and>
    (\<exists>x y. point_add hw c (point_times hw c (be_value s) g) (point_times hw c (be_value r) q) = Affine x y \<and>
      sig_truncate c (fe_multiply hw c (if hash_to_field c hash = fe_ZERO c then fe_ONE c else hash_to_field c hash) x) = r)"
proof (cases "0 < be_value r \<and> be_value r < order_value c \<and> 0 < be_value s \<and> be_value s < order_value c \<and>
    is_on_curve hw c q \<and> q \<noteq> Infinity \<and> point_times hw c (order_value c) q = Infinity")
  case True
  then have gq: "group_point hw c q" using q by (auto simp: group_point_def)
  show ?thesis
  proof (cases "point_add hw c (point_times hw c (be_value s) g) (point_times hw c (be_value r) q)")
    case Infinity
    have "be_value r < 2 ^ fe_m c" "be_value s < 2 ^ fe_m c" using True order_bits_le(2) [of c] by linarith+
    then have "combine small_tables hw c g s q r = Infinity" using combine_value [OF hw g gq len(2,1)] Infinity by simp
    then show ?thesis using Infinity by (simp add: sig_verify_def Let_def)
  next
    case (Affine x y)
    show ?thesis using True Affine verify_accepts [OF hw g gq _ _ len(1) _ _ len(2) _ _ Affine, of small_tables hash] by simp
  qed
next
  case False
  then have "\<not> sig_verify small_tables hw c hash r s q g" using verify_key_checked [OF hw q len, of small_tables hash g] by blast
  then show ?thesis using False by blast
qed

text \<open>C8. A signature verifies: for a base point of the curve whose order divides the curve's \<open>n\<close>, what
  \<open>sign\<close> returns for a secret key \<open>d\<close> and nonce \<open>e\<close> is accepted by \<open>verify\<close> under the public key
  \<open>-dG\<close>, unless that key is the identity. It does not matter whether either side has the multiply
  instruction, nor which profile the verifier was built with.\<close>

theorem sign_then_verify:
  assumes "hw_ok hw" "hw_ok hw'" "group_point hw c g" "point_times hw c (order_value c) g = Infinity"
    "valid_scalar c d" "valid_scalar c e" "sign hw c hash d e g = Some (r, s)"
    "q = negate (point_scalar_multiply hw c g (scalar_to_be_bytes c d))" "q \<noteq> Infinity"
  shows "sig_verify small_tables hw' c hash r s q g"
  by (rule signature_verifies [OF assms])

lemma generator_signs:
  assumes hw: "hw_ok hw"
  obtains r s where "sign hw M163 [] [1, 0, 0] [1, 0, 0] (generator M163) = Some (r, s)"
proof -
  have one: "valid_scalar M163 [1, 0, 0]" "lv [1, 0, 0] = 1" by (simp_all add: valid_scalar_def lv.simps order_163)
  note g = generator_group [OF hw, of M163]
  have "be_value (scalar_to_be_bytes M163 [1, 0, 0]) = 1" "length (scalar_to_be_bytes M163 [1, 0, 0]) = 21"
    using valid_scalar_bytes [OF one(1)] one(2) by simp_all
  then have psm: "point_scalar_multiply hw M163 (generator M163) (scalar_to_be_bytes M163 [1, 0, 0]) = Affine (curve_gx M163) (curve_gy M163)"
    using curve_scalar_multiply [OF hw g, of "scalar_to_be_bytes M163 [1, 0, 0]"] by (simp add: generator_def)
  have gx: "fe_ok M163 (curve_gx M163)" using generator_ok [of M163] by (simp add: generator_def)
  have lgx: "lv (curve_gx M163) = 0x72D867F93A93AC27DF9FF01AFFE74885C8C540420"
    using fe_const_value [of curve163_gx M163] by (simp add: curve_gx_def curve163_gx_def be_value_def)
  have h: "hash_to_field M163 [] = fe_ZERO M163"
    using hash_to_field_value [of M163 "[]"] fe_constants(1,2) [of M163] fe_inject [of M163 "hash_to_field M163 []" "fe_ZERO M163"] by simp
  have m: "fe_multiply hw M163 (fe_ONE M163) (curve_gx M163) = curve_gx M163"
    using fe163.arithmetic(9) [OF hw gx gx gx] .
  define rb where "rb = sig_truncate M163 (curve_gx M163)"
  have tr: "length rb = 21" "be_value rb = take_bit 162 (lv (curve_gx M163))" using truncate_value [OF gx] by (simp_all add: rb_def)
  have nz: "be_value rb \<noteq> 0" "be_value rb < order_value M163 - 1" by (simp_all add: tr(2) lgx take_bit_eq_mod order_163)
  have "length rb \<le> 8 * 3" using tr by simp
  then obtain rl where "limbs_from_be_bytes 3 rb = Some rl" and rl: "lv rl = be_value rb" "length rl = 3" by (rule limbs_from_be_bytes_value)
  then have fr: "scalar_from_be_bytes M163 rb = Some rl" by (simp add: scalar_from_be_bytes_def)
  have "valid_scalar M163 rl" using rl nz by (simp add: valid_scalar_def)
  then have "lv (scalar_add M163 (scalar_multiply M163 rl [1, 0, 0]) [1, 0, 0]) = be_value rb + 1"
    using scalar_product_sum(2) [OF _ one(1) one(1), of rl] rl(1) one(2) nz by simp
  then have "\<not> scalar_is_zero M163 (scalar_add M163 (scalar_multiply M163 rl [1, 0, 0]) [1, 0, 0])"
    by (auto simp: scalar_is_zero_def)
  moreover have "curve_gx M163 \<noteq> fe_ZERO M163" using lgx fe_constants(2) [of M163] by auto
  ultimately have "\<exists>s. sign hw M163 [] [1, 0, 0] [1, 0, 0] (generator M163) = Some (rb, s)"
    using nz fr by (simp add: sign_def Let_def psm h m bytes_is_zero_iff flip: rb_def)
  then show ?thesis using that by blast
qed

theorem sign_then_verify_witness:
  "\<exists>r s. sign (Some clmul_instance) M163 [] [1, 0, 0] [1, 0, 0] (generator M163) = Some (r, s) \<and>
    sig_verify False None M163 [] r s (negate (generator M163)) (generator M163)"
proof -
  note g = generator_group [OF hw_ok_instance, of M163]
  have one: "valid_scalar M163 [1, 0, 0]" by (simp add: valid_scalar_def lv.simps order_163)
  have "negate (point_scalar_multiply (Some clmul_instance) M163 (generator M163) (scalar_to_be_bytes M163 [1, 0, 0])) = negate (generator M163)"
    using curve_scalar_multiply [OF hw_ok_instance g] valid_scalar_bytes [OF one] by (simp add: lv.simps generator_def)
  moreover obtain r s where rs: "sign (Some clmul_instance) M163 [] [1, 0, 0] [1, 0, 0] (generator M163) = Some (r, s)"
    by (rule generator_signs [OF hw_ok_instance])
  ultimately have "sig_verify False None M163 [] r s (negate (generator M163)) (generator M163)"
    by (intro sign_then_verify [OF hw_ok_instance hw_ok_portable g generator_order [OF hw_ok_instance] one one rs]) (simp_all add: generator_def)
  then show ?thesis using rs by blast
qed

text \<open>C9. Verification accepts exactly what the standard describes: both halves of the signature in \<open>[1, n)\<close>, a
  public key on the curve, not the identity, that \<open>n\<close> maps to the identity, and a point \<open>sG + rQ\<close>, not the
  identity, whose abscissa times the hash, truncated, is \<open>r\<close>. So every key outside the subgroup of order \<open>n\<close>
  is refused whatever the signature: the points of the cofactor and the sums of such a point and a point of
  the subgroup.\<close>

theorem verify_exact:
  assumes "hw_ok hw" "group_point hw c g" "point_limbs c q" "length r = sc_bytes c" "length s = sc_bytes c"
  shows "sig_verify small_tables hw c hash r s q g \<longleftrightarrow>
    0 < be_value r \<and> be_value r < order_value c \<and> 0 < be_value s \<and> be_value s < order_value c \<and>
    is_on_curve hw c q \<and> q \<noteq> Infinity \<and> point_times hw c (order_value c) q = Infinity \<and>
    (\<exists>x y. point_add hw c (point_times hw c (be_value s) g) (point_times hw c (be_value r) q) = Affine x y \<and>
      sig_truncate c (fe_multiply hw c (if hash_to_field c hash = fe_ZERO c then fe_ONE c else hash_to_field c hash) x) = r)"
  by (rule verify_iff [OF assms])

text \<open>The point of order two of the 163-bit curve.\<close>

definition order_two_point :: point where
  "order_two_point = Affine [0, 0, 0] [0xCC67B62D21ACF623, 0x700D3D77B6C9323E, 0x23DA43CCB]"

definition order_two_y :: "bool list" where
  "order_two_y = functional 0xA3DA43CCB700D3D77B6C9323ECC67B62D21ACF623"

lemma order_two_square: "same_bits (square_bits [0, 3, 6, 7] order_two_y) b163"
  by code_simp

lemma order_two_on_curve: "group_point None M163 order_two_point"
proof -
  let ?y = "[0xCC67B62D21ACF623, 0x700D3D77B6C9323E, 0x23DA43CCB] :: u64 list"
  have len: "length order_two_y = 163" by (simp add: order_two_y_def functional_def bits_of_int_def)
  then have v: "bits_value order_two_y = lv ?y" unfolding order_two_y_def
    by (intro functional_eq [where m = 163]) (simp_all add: lv.simps unat_of_nat)
  then have ok: "fe_ok M163 ?y" "emb163 ?y = gf163_bits order_two_y"
    using bits_value_less [of order_two_y] len by (simp_all add: fe_ok_def emb163_def gf163_bits_def)
  have z: "fe_ok M163 [0, 0, 0]" "emb163 [0, 0, 0] = 0" by (simp_all add: fe_ok_def lv.simps emb163_def zero_gf163_def)
  have "emb163 ?y * emb163 ?y = emb163 (curve_b M163)"
    using gf163_bits_eq [OF order_two_square] len by (simp add: ok(2) constants163 gf163_bits_calc)
  then show ?thesis using ok z by (simp add: fe163.group_point_iff [OF hw_ok_portable] order_two_point_def)
qed

lemma mixed_order_point:
  assumes "group_point None M163 q" "point_times None M163 (order_value M163) q = Infinity"
  shows "group_point None M163 (point_add None M163 q order_two_point)"
    "point_times None M163 (order_value M163) (point_add None M163 q order_two_point) \<noteq> Infinity"
proof -
  note t2 = order_two_on_curve
  show "group_point None M163 (point_add None M163 q order_two_point)" using fe163.group_laws(1) [OF hw_ok_portable assms(1) t2 t2] .
  have "[0, 0, 0] = fe_ZERO M163" by (simp add: fe_ZERO_def numeral_3_eq_3)
  then have two: "point_times None M163 (Suc (Suc 0)) order_two_point = Infinity" by (simp add: order_two_point_def)
  have "order_two_point \<noteq> Infinity" by (simp add: order_two_point_def)
  moreover have "coprime (Suc (Suc 0)) (order_value M163)" by (simp add: order_163 flip: numeral_2_eq_2)
  ultimately have "point_times None M163 (order_value M163) order_two_point \<noteq> Infinity"
    using coprime_orders [OF hw_ok_portable t2 _ two] by blast
  then show "point_times None M163 (order_value M163) (point_add None M163 q order_two_point) \<noteq> Infinity"
    using fe163.times_of_sum [OF hw_ok_portable assms(1) t2] assms(2) by simp
qed

theorem verify_exact_witness:
  "is_on_curve None M163 (point_add None M163 (generator M163) order_two_point) \<and>
   \<not> sig_verify False None M163 [] (replicate 20 0 @ [1]) (replicate 20 0 @ [1])
     (point_add None M163 (generator M163) order_two_point) (generator M163)"
proof -
  let ?q = "point_add None M163 (generator M163) order_two_point"
  note g = generator_group [OF hw_ok_portable, of M163]
  have n: "point_times None M163 (order_value M163) (generator M163) = Infinity" using generator_order [OF hw_ok_portable] by (simp add: order_163)
  note q = mixed_order_point [OF g n]
  have "point_times None M163 n Infinity = Infinity" for n by (induction n) simp_all
  then have "?q \<noteq> Infinity" using q(2) by metis
  then have "point_limbs M163 ?q" "is_on_curve None M163 ?q" using q(1) by (auto simp: group_point_def simp del: is_on_curve.simps point_add.simps)
  then show ?thesis using verify_exact [OF hw_ok_portable g, of ?q "replicate 20 0 @ [1]" "replicate 20 0 @ [1]" False "[]"] q(2)
    by (simp del: is_on_curve.simps point_add.simps)
qed

end
