(* ===== verification/Crypto_Sign.thy ===== *)
theory Crypto_Sign
  imports Dstu4145_Signature Kupyna_Kmac Gcm_Aead
begin

text \<open>
  \<open>crates/dstu-core/src/crypto_sign.rs\<close> and \<open>crypto_sign257.rs\<close>: keys, signatures and their encodings over
  the DSTU 4145 routines, with the deterministic nonce and the retry loop. The two files differ in the
  widths, the mask of a drawn candidate and the KMAC of the nonce. The operating system's generator is the
  parameter \<open>fill\<close>: \<open>fill i\<close> answers the \<open>i\<close>-th request.
\<close>

section \<open>Definitions\<close>

fun curve_id_to_byte :: "dstu4145_curve \<Rightarrow> u8" where
  "curve_id_to_byte M163 = 0x01" | "curve_id_to_byte M257 = 0x02"

definition curve_id_from_byte :: "u8 \<Rightarrow> dstu4145_curve option" where
  "curve_id_from_byte tag = (if tag = 0x01 then Some M163 else if tag = 0x02 then Some M257 else None)"

record signature =
  sig_r :: bytes
  sig_s :: bytes

definition signature_to_bytes :: "signature \<Rightarrow> bytes" where
  "signature_to_bytes self = sig_r self @ sig_s self"

definition signature_from_bytes :: "dstu4145_curve \<Rightarrow> bytes \<Rightarrow> signature" where
  "signature_from_bytes c bs = \<lparr>sig_r = take (sc_bytes c) bs, sig_s = drop (sc_bytes c) bs\<rparr>"

definition signing_key_from_bytes :: "dstu4145_curve \<Rightarrow> bytes \<Rightarrow> u64 list option" where
  "signing_key_from_bytes c d = from_candidate_bytes c d"

definition mask_candidate :: "dstu4145_curve \<Rightarrow> bytes \<Rightarrow> bytes" where
  "mask_candidate c candidate =
     (case c of M163 \<Rightarrow> candidate[0 := candidate ! 0 AND 0x07] | M257 \<Rightarrow> candidate[0 := 0])"

partial_function (option) generate_from ::
  "dstu4145_curve \<Rightarrow> (nat \<Rightarrow> nat \<Rightarrow> 'e + bytes) \<Rightarrow> nat \<Rightarrow> ('e random_error + u64 list) option" where
  "generate_from c fill i =
     (case randombytes_buf (fill i) (replicate (sc_bytes c) 0) of
        Inl e \<Rightarrow> Some (Inl e)
      | Inr candidate \<Rightarrow>
          (case from_candidate_bytes c (mask_candidate c candidate) of
             Some scalar \<Rightarrow> Some (Inr scalar)
           | None \<Rightarrow> generate_from c fill (Suc i)))"

definition signing_key_generate ::
  "dstu4145_curve \<Rightarrow> (nat \<Rightarrow> nat \<Rightarrow> 'e + bytes) \<Rightarrow> ('e random_error + u64 list) option" where
  "signing_key_generate c fill = generate_from c fill 0"

definition signing_key_to_bytes :: "dstu4145_curve \<Rightarrow> u64 list \<Rightarrow> bytes" where
  "signing_key_to_bytes c self = scalar_to_be_bytes c self"

definition verifying_key :: "clmul_hw \<Rightarrow> dstu4145_curve \<Rightarrow> u64 list \<Rightarrow> point" where
  "verifying_key hw c self =
     (let g = generator c; d_bytes = scalar_to_be_bytes c self
      in negate (point_scalar_multiply hw c g d_bytes))"

fun nonce_kmac :: "dstu4145_curve \<Rightarrow> kupyna_variant" where
  "nonce_kmac M163 = Kupyna256" | "nonce_kmac M257 = Kupyna384"

text \<open>The \<open>unreachable!\<close> arm is \<open>None\<close>.\<close>

definition derive_nonce :: "dstu4145_curve \<Rightarrow> u64 list \<Rightarrow> bytes \<Rightarrow> u8 \<Rightarrow> u64 list option" where
  "derive_nonce c d hash counter =
     (let d_bytes = scalar_to_be_bytes c d;
          key = replicate (kv_output (nonce_kmac c) - sc_bytes c) 0 @ d_bytes;
          message = hash @ [counter]
      in case kmac_mac (nonce_kmac c) key message of
           Some (Inr tag) \<Rightarrow> Some (reduce_wide_bytes c tag)
         | _ \<Rightarrow> None)"

text \<open>The retry loop. \<open>None\<close> is a run that never returns.\<close>

partial_function (option) sign_from :: "clmul_hw \<Rightarrow> dstu4145_curve \<Rightarrow> u64 list \<Rightarrow> bytes \<Rightarrow> u8 \<Rightarrow> signature option" where
  "sign_from hw c self digest counter =
     (case derive_nonce c self digest counter of
        None \<Rightarrow> None
      | Some e \<Rightarrow>
          (case sign hw c digest self e (generator c) of
             Some (r, s) \<Rightarrow> Some \<lparr>sig_r = r, sig_s = s\<rparr>
           | None \<Rightarrow> sign_from hw c self digest (counter + 1)))"

definition sign_digest :: "clmul_hw \<Rightarrow> dstu4145_curve \<Rightarrow> u64 list \<Rightarrow> bytes \<Rightarrow> signature option" where
  "sign_digest hw c self digest = sign_from hw c self digest 0"

definition sign_message :: "clmul_hw \<Rightarrow> dstu4145_curve \<Rightarrow> u64 list \<Rightarrow> bytes \<Rightarrow> signature option" where
  "sign_message hw c self message =
     (case kupyna_digest Kupyna256 message of None \<Rightarrow> None | Some digest \<Rightarrow> sign_digest hw c self digest)"

fun to_uncompressed_bytes :: "dstu4145_curve \<Rightarrow> point \<Rightarrow> bytes" where
  "to_uncompressed_bytes c (Affine x y) = fe_to_be_bytes c x @ fe_to_be_bytes c y"
| "to_uncompressed_bytes c Infinity = replicate (2 * sc_bytes c) 0"

definition from_uncompressed_bytes :: "dstu4145_curve \<Rightarrow> bytes \<Rightarrow> point option" where
  "from_uncompressed_bytes c bs =
     (case (fe_from_be_bytes c (take (sc_bytes c) bs), fe_from_be_bytes c (drop (sc_bytes c) bs)) of
        (Some x, Some y) \<Rightarrow> Some (Affine x y)
      | _ \<Rightarrow> None)"

definition verify_digest :: "bool \<Rightarrow> clmul_hw \<Rightarrow> dstu4145_curve \<Rightarrow> point \<Rightarrow> bytes \<Rightarrow> signature \<Rightarrow> bool" where
  "verify_digest small_tables hw c self digest sig =
     sig_verify small_tables hw c digest (sig_r sig) (sig_s sig) self (generator c)"

definition verify_message :: "bool \<Rightarrow> clmul_hw \<Rightarrow> dstu4145_curve \<Rightarrow> point \<Rightarrow> bytes \<Rightarrow> signature \<Rightarrow> bool option" where
  "verify_message small_tables hw c self message sig =
     map_option (\<lambda>digest. verify_digest small_tables hw c self digest sig) (kupyna_digest Kupyna256 message)"

section \<open>Nonces\<close>

lemma derive_nonce_total:
  assumes "valid_scalar c d"
  obtains e where "derive_nonce c d hash counter = Some e" "valid_scalar c e"
proof -
  have "length (replicate (kv_output (nonce_kmac c) - sc_bytes c) 0 @ scalar_to_be_bytes c d) = kv_output (nonce_kmac c)"
    using valid_scalar_bytes(1) [OF assms] by (cases c) simp_all
  then show ?thesis using that reduce_wide_value by (auto simp: derive_nonce_def kmac_mac_hash)
qed

text \<open>The attempt with one counter.\<close>

definition attempt :: "clmul_hw \<Rightarrow> dstu4145_curve \<Rightarrow> u64 list \<Rightarrow> bytes \<Rightarrow> u8 \<Rightarrow> (bytes \<times> bytes) option" where
  "attempt hw c d digest counter = Option.bind (derive_nonce c d digest counter) (\<lambda>e. sign hw c digest d e (generator c))"

lemma sign_from_step:
  assumes "valid_scalar c d"
  shows "sign_from hw c d digest k =
    (case attempt hw c d digest k of Some (r, s) \<Rightarrow> Some \<lparr>sig_r = r, sig_s = s\<rparr> | None \<Rightarrow> sign_from hw c d digest (k + 1))"
  by (rule derive_nonce_total [OF assms, of digest k]) (subst sign_from.simps, simp add: attempt_def)

lemma sign_from_reaches:
  assumes d: "valid_scalar c d" and s: "attempt hw c d digest (k + of_nat m) \<noteq> None"
  shows "sign_from hw c d digest k \<noteq> None"
  using s
proof (induction m arbitrary: k)
  case 0
  then show ?case by (subst sign_from_step [OF d]) auto
next
  case (Suc m)
  then have "sign_from hw c d digest (k + 1) \<noteq> None" by (intro Suc.IH) (simp add: ac_simps)
  then show ?case by (subst sign_from_step [OF d]) (auto split: option.split)
qed

lemma sign_from_result:
  assumes "sign_from hw c d digest k = Some sig"
  shows "\<exists>j. attempt hw c d digest j = Some (sig_r sig, sig_s sig)"
proof (rule sign_from.raw_induct [OF _ assms])
  fix f hw c d digest k sig
  assume IH: "\<And>hw c d digest k sig. f hw c d digest k = Some sig \<Longrightarrow> \<exists>j. attempt hw c d digest j = Some (sig_r sig, sig_s sig)"
    and body: "(case derive_nonce c d digest k of None \<Rightarrow> None
      | Some e \<Rightarrow> case sign hw c digest d e (generator c) of
          None \<Rightarrow> f hw c d digest (k + 1) | Some (r, s) \<Rightarrow> Some \<lparr>sig_r = r, sig_s = s\<rparr>) = Some sig"
  obtain e where e: "derive_nonce c d digest k = Some e" using body by (cases "derive_nonce c d digest k") simp_all
  show "\<exists>j. attempt hw c d digest j = Some (sig_r sig, sig_s sig)"
  proof (cases "sign hw c digest d e (generator c)")
    case None
    then show ?thesis using IH [of hw c d digest "k + 1" sig] body by (simp add: e)
  next
    case (Some rs)
    then show ?thesis using body by (intro exI [of _ k]) (auto simp: e attempt_def split: prod.splits)
  qed
qed

section \<open>Encodings\<close>

lemma from_uncompressed_to:
  assumes "point_ok c q" "q \<noteq> Infinity"
  shows "from_uncompressed_bytes c (to_uncompressed_bytes c q) = Some q"
proof (cases q)
  case (Affine x y)
  have len: "length (scalar_to_be_bytes c z) = sc_bytes c" for z by (simp add: scalar_to_be_bytes_def)
  have inv: "limbs_from_be_bytes (sc_limbs c) (scalar_to_be_bytes c z) = Some z" if z: "fe_ok c z" for z
  proof -
    have "length (scalar_to_be_bytes c z) \<le> 8 * sc_limbs c" using len fe_dimensions(6) by simp
    then obtain l where l: "limbs_from_be_bytes (sc_limbs c) (scalar_to_be_bytes c z) = Some l" "lv l = be_value (scalar_to_be_bytes c z)" "length l = sc_limbs c"
      by (rule limbs_from_be_bytes_value)
    have "lv z < 256 ^ sc_bytes c"
      using z fe_dimensions(4) [of c] power_increasing [of "fe_m c" "8 * sc_bytes c" "2 :: nat"] by (simp add: fe_ok_def power_mult)
    then have "lv l = lv z" using to_be_bytes_value(1) [of z c] z l(2) by (simp add: fe_ok_def)
    then show ?thesis using l lv_inject [of l z] z by (simp add: fe_ok_def)
  qed
  show ?thesis using assms(1) by (simp add: Affine from_uncompressed_bytes_def fe_bytes_eq len inv)
qed (use assms in simp)

lemma signature_from_to: "length (sig_r sig) = sc_bytes c \<Longrightarrow> signature_from_bytes c (signature_to_bytes sig) = sig"
  by (simp add: signature_from_bytes_def signature_to_bytes_def)

section \<open>Drawn keys\<close>

lemma mask_candidate_value:
  assumes "length bs = sc_bytes c"
  shows "length (mask_candidate c bs) = sc_bytes c" "be_value (mask_candidate c bs) = take_bit (case c of M163 \<Rightarrow> 163 | M257 \<Rightarrow> 256) (be_value bs)"
proof -
  show "length (mask_candidate c bs) = sc_bytes c" using assms by (cases c) (simp_all add: mask_candidate_def)
  have "(0 :: u8) = take_bit 0 (bs ! 0)" by simp
  then have m: "mask_candidate c bs = bs[0 := take_bit (case c of M163 \<Rightarrow> 3 | M257 \<Rightarrow> 0) (bs ! 0)]"
    by (cases c) (simp_all add: mask_candidate_def u8_masks)
  show "be_value (mask_candidate c bs) = take_bit (case c of M163 \<Rightarrow> 163 | M257 \<Rightarrow> 256) (be_value bs)"
    unfolding m using be_value_mask_top [of bs 20 3] be_value_mask_top [of bs 32 0] assms by (cases c) simp_all
qed

lemma own_bytes_accepted:
  assumes "valid_scalar c s" "lv s \<noteq> 0"
  shows "from_candidate_bytes c (scalar_to_be_bytes c s) = Some s"
proof -
  note b = valid_scalar_bytes [OF assms(1)]
  obtain t where "from_candidate_bytes c (scalar_to_be_bytes c s) = Some t" "lv t = lv s" "length t = sc_limbs c"
    using candidate_cases [OF b(1)] assms b(2) by (auto simp: valid_scalar_def split: option.splits)
  then show ?thesis using assms lv_inject [of t s] by (simp add: valid_scalar_def)
qed

lemma own_bytes_masked:
  assumes "valid_scalar c s"
  shows "mask_candidate c (scalar_to_be_bytes c s) = scalar_to_be_bytes c s"
proof -
  note b = valid_scalar_bytes [OF assms]
  have "be_value (scalar_to_be_bytes c s) < 2 ^ (case c of M163 \<Rightarrow> 163 | M257 \<Rightarrow> 256)"
    using assms b(2) by (cases c) (simp_all add: valid_scalar_def order_163 order_257)
  then show ?thesis
    using mask_candidate_value [OF b(1)] be_value_inject [of "mask_candidate c (scalar_to_be_bytes c s)"] b(1)
    by (simp add: take_bit_nat_eq_self)
qed

lemma generate_result:
  assumes "generate_from c fill i = Some (Inr s)" "\<And>i. fills (fill i)"
  shows "valid_scalar c s \<and> lv s \<noteq> 0"
proof -
  have "\<forall>s. res = Inr s \<longrightarrow> (\<forall>i. fills (fill i)) \<longrightarrow> valid_scalar c s \<and> lv s \<noteq> 0" if "generate_from c fill i = Some res" for c fill i and res :: "'a random_error + u64 list"
  proof (rule generate_from.raw_induct [OF _ that])
    fix f c i and fill :: "nat \<Rightarrow> nat \<Rightarrow> 'a + bytes" and res :: "'a random_error + u64 list"
    assume IH: "\<And>c fill i res. f c fill i = Some res \<Longrightarrow> \<forall>s. res = Inr s \<longrightarrow> (\<forall>i. fills (fill i)) \<longrightarrow> valid_scalar c s \<and> lv s \<noteq> 0"
      and body: "(case randombytes_buf (fill i) (replicate (sc_bytes c) 0) of Inl e \<Rightarrow> Some (Inl e)
        | Inr candidate \<Rightarrow> case from_candidate_bytes c (mask_candidate c candidate) of None \<Rightarrow> f c fill (Suc i) | Some scalar \<Rightarrow> Some (Inr scalar)) = Some res"
    show "\<forall>s. res = Inr s \<longrightarrow> (\<forall>i. fills (fill i)) \<longrightarrow> valid_scalar c s \<and> lv s \<noteq> 0"
    proof (intro allI impI)
      fix s assume res: "res = Inr s" and fl: "\<forall>i. fills (fill i)"
      show "valid_scalar c s \<and> lv s \<noteq> 0"
      proof (cases "randombytes_buf (fill i) (replicate (sc_bytes c) 0)")
        case (Inr bs)
        then have ok: "randombytes_buf (fill i) (replicate (sc_bytes c) 0) = Inr bs" "length bs = sc_bytes c"
          using randombytes_buf_cases [OF fl [rule_format], of i "replicate (sc_bytes c) 0"] by auto
        then have len: "length (mask_candidate c bs) = sc_bytes c" by (intro mask_candidate_value) simp
        show ?thesis
        proof (cases "from_candidate_bytes c (mask_candidate c bs)")
          case None
          then show ?thesis using IH [of c fill "Suc i" res] body ok res fl by simp
        next
          case (Some t)
          then show ?thesis using candidate_cases [OF len] body ok res lv_inject [of t "replicate (sc_limbs c) 0"]
            by (auto simp: scalar_is_zero_def valid_scalar_def)
        qed
      qed (use body res in simp)
    qed
  qed
  then show ?thesis using assms by blast
qed

lemma verifying_key_ok:
  assumes "hw_ok hw" "valid_scalar c sk"
  shows "point_ok c (verifying_key hw c sk)"
proof -
  note g = generator_group [OF assms(1), of c]
  have "point_scalar_multiply hw c (generator c) (scalar_to_be_bytes c sk) = point_times hw c (lv sk) (generator c)"
    using curve_scalar_multiply [OF assms(1) g] valid_scalar_bytes [OF assms(2)] by simp
  moreover have "point_ok c (point_times hw c (lv sk) (generator c))" using curve_point_ok [OF assms(1) curve_times_closed [OF assms(1) g]] .
  ultimately show ?thesis by (cases "point_times hw c (lv sk) (generator c)") (simp_all add: verifying_key_def fe_add_value)
qed

section \<open>The retry loop as a search\<close>

lemma u8_index: "\<exists>i<256. (k :: u8) = of_nat i"
  by (intro exI [of _ "unat k"]) (simp add: unat_u8_less)

lemma sign_from_skips:
  assumes "valid_scalar c d" "\<And>j. j < i \<Longrightarrow> attempt hw c d digest (of_nat j) = None"
  shows "sign_from hw c d digest 0 = sign_from hw c d digest (of_nat i)"
  using assms(2)
proof (induction i)
  case (Suc i)
  then have "sign_from hw c d digest 0 = sign_from hw c d digest (of_nat i)" by simp
  also have "\<dots> = sign_from hw c d digest (of_nat i + 1)" using Suc.prems [of i] by (subst sign_from_step [OF assms(1)]) simp
  finally show ?case by (simp add: add.commute)
qed simp

lemma sign_digest_search:
  assumes "valid_scalar c d"
  shows "sign_digest hw c d digest =
    (case find (\<lambda>k. attempt hw c d digest k \<noteq> None) (map of_nat [0..<256]) of
       None \<Rightarrow> None
     | Some k \<Rightarrow> map_option (\<lambda>(r, s). \<lparr>sig_r = r, sig_s = s\<rparr>) (attempt hw c d digest k))"
proof (cases "find (\<lambda>k. attempt hw c d digest k \<noteq> None) (map of_nat [0..<256])")
  case None
  then have none: "attempt hw c d digest (of_nat i) = None" if "i < 256" for i 
    using that by (simp add: find_None_iff del: not_None_eq)
  have "sign_digest hw c d digest \<noteq> Some sig" for sig
    using sign_from_result [of hw c d digest 0 sig] none u8_index unfolding sign_digest_def by (metis option.distinct(1))
  then have "sign_digest hw c d digest = None" by (cases "sign_digest hw c d digest") blast+
  then show ?thesis using None by simp
next
  case (Some k)
  then obtain i where i: "i < 256" "k = of_nat i" "attempt hw c d digest k \<noteq> None" "\<And>j. j < i \<Longrightarrow> attempt hw c d digest (of_nat j) = None"
    by (auto simp: find_Some_iff simp del: not_None_eq)
  then show ?thesis
    using sign_from_skips [OF assms i(4)] sign_from_step [OF assms, of hw digest k] Some
    by (auto simp: sign_digest_def split: option.splits)
qed

section \<open>Properties\<close>

text \<open>C10. Signing a message and verifying it with the published key: for a key that \<open>from_bytes\<close> accepted,
  either every one of the 256 nonce counters is degenerate and \<open>sign\<close> does not return, or the signature it
  returns, written out and read back, verifies for the message under the verifying key, written out and
  read back, on any machine and in any build profile. The verifying key must not be the identity, and the
  base point must have an order that divides \<open>n\<close>.\<close>

theorem signed_message_verifies:
  assumes "hw_ok hw" "hw_ok hw'" "point_times hw c (order_value c) (generator c) = Infinity"
    "length d = sc_bytes c" "signing_key_from_bytes c d = Some sk" "verifying_key hw c sk \<noteq> Infinity"
  shows "case sign_message hw c sk message of
      None \<Rightarrow> \<forall>k. Option.bind (derive_nonce c sk (kupyna_hash Kupyna256 message) k)
        (\<lambda>e. sign hw c (kupyna_hash Kupyna256 message) sk e (generator c)) = None
    | Some sig \<Rightarrow> \<exists>q. from_uncompressed_bytes c (to_uncompressed_bytes c (verifying_key hw c sk)) = Some q \<and>
        verify_message small_tables hw' c q message (signature_from_bytes c (signature_to_bytes sig)) = Some True"
proof -
  let ?h = "kupyna_hash Kupyna256 message"
  have sk: "valid_scalar c sk" using candidate_cases [OF assms(4)] assms(5) by (simp add: signing_key_from_bytes_def)
  note g = generator_group [OF assms(1), of c]
  have q: "verifying_key hw c sk = negate (point_scalar_multiply hw c (generator c) (scalar_to_be_bytes c sk))"
    by (simp add: verifying_key_def)
  have dig: "sign_message hw c sk message = sign_from hw c sk ?h 0" by (simp add: sign_message_def kupyna_digest_hash sign_digest_def)
  show ?thesis
  proof (cases "sign_message hw c sk message")
    case None
    have "attempt hw c sk ?h k = None" for k
      using sign_from_reaches [OF sk, of hw ?h 0 "unat k"] None dig by (cases "attempt hw c sk ?h k") simp_all
    then show ?thesis using None by (simp add: attempt_def)
  next
    case (Some sig)
    then obtain j where "attempt hw c sk ?h j = Some (sig_r sig, sig_s sig)" using sign_from_result dig by metis
    moreover obtain e where e: "derive_nonce c sk ?h j = Some e" "valid_scalar c e" by (rule derive_nonce_total [OF sk])
    ultimately have sg: "sign hw c ?h sk e (generator c) = Some (sig_r sig, sig_s sig)" by (simp add: attempt_def)
    have v: "sig_verify small_tables hw' c ?h (sig_r sig) (sig_s sig) (verifying_key hw c sk) (generator c)"
      by (rule signature_verifies [OF assms(1,2) g assms(3) sk e(2) sg q assms(6)])
    have len: "length (sig_r sig) = sc_bytes c" by (rule sign_SomeD [OF assms(1) g sk e(2) sg])
    have "point_ok c (verifying_key hw c sk)" by (rule verifying_key_ok [OF assms(1) sk])
    then show ?thesis using v Some len from_uncompressed_to [OF _ assms(6)] signature_from_to
      by (simp add: verify_message_def kupyna_digest_hash verify_digest_def)
  qed
qed

theorem signed_message_verifies_witness:
  "case sign_message (Some clmul_instance) M163 [1, 0, 0] [0x61] of
      None \<Rightarrow> \<forall>k. Option.bind (derive_nonce M163 [1, 0, 0] (kupyna_hash Kupyna256 [0x61]) k)
        (\<lambda>e. sign (Some clmul_instance) M163 (kupyna_hash Kupyna256 [0x61]) [1, 0, 0] e (generator M163)) = None
    | Some sig \<Rightarrow> \<exists>q. from_uncompressed_bytes M163 (to_uncompressed_bytes M163 (verifying_key (Some clmul_instance) M163 [1, 0, 0])) = Some q \<and>
        verify_message False None M163 q [0x61] (signature_from_bytes M163 (signature_to_bytes sig)) = Some True"
proof -
  note g = generator_group [OF hw_ok_instance, of M163]
  have one: "valid_scalar M163 [1, 0, 0]" by (simp add: valid_scalar_def lv.simps order_163)
  have "verifying_key (Some clmul_instance) M163 [1, 0, 0] = negate (generator M163)"
    using curve_scalar_multiply [OF hw_ok_instance g] valid_scalar_bytes [OF one] by (simp add: verifying_key_def lv.simps generator_def)
  moreover have "signing_key_from_bytes M163 (scalar_to_be_bytes M163 [1, 0, 0]) = Some [1, 0, 0]"
    using own_bytes_accepted [OF one] by (simp add: signing_key_from_bytes_def lv.simps)
  ultimately show ?thesis
    by (intro signed_message_verifies [OF hw_ok_instance hw_ok_portable generator_order [OF hw_ok_instance], of "scalar_to_be_bytes M163 [1, 0, 0]"])
      (simp_all add: valid_scalar_bytes [OF one] generator_def)
qed

text \<open>C11. The retry loop returns exactly when it should: \<open>sign_digest\<close> is the search for the first of the 256
  nonce counters that gives a signature, so it returns whenever one of them does, with the signature of the
  smallest, and runs forever only when none does.\<close>

theorem sign_digest_returns_first:
  assumes "valid_scalar c d"
  shows "sign_digest hw c d digest =
    (case find (\<lambda>k. Option.bind (derive_nonce c d digest k) (\<lambda>e. sign hw c digest d e (generator c)) \<noteq> None) (map of_nat [0..<256]) of
       None \<Rightarrow> None
     | Some k \<Rightarrow> map_option (\<lambda>(r, s). \<lparr>sig_r = r, sig_s = s\<rparr>)
         (Option.bind (derive_nonce c d digest k) (\<lambda>e. sign hw c digest d e (generator c))))"
  using sign_digest_search [OF assms] unfolding attempt_def .

theorem sign_digest_returns_first_witness:
  "sign_digest None M163 [1, 0, 0] (replicate 32 0) =
    (case find (\<lambda>k. Option.bind (derive_nonce M163 [1, 0, 0] (replicate 32 0) k)
        (\<lambda>e. sign None M163 (replicate 32 0) [1, 0, 0] e (generator M163)) \<noteq> None) (map of_nat [0..<256]) of
       None \<Rightarrow> None
     | Some k \<Rightarrow> map_option (\<lambda>(r, s). \<lparr>sig_r = r, sig_s = s\<rparr>)
         (Option.bind (derive_nonce M163 [1, 0, 0] (replicate 32 0) k) (\<lambda>e. sign None M163 (replicate 32 0) [1, 0, 0] e (generator M163))))"
proof -
  have "valid_scalar M163 [1, 0, 0]" by (simp add: valid_scalar_def lv.simps order_163)
  then show ?thesis by (rule sign_digest_returns_first)
qed

text \<open>C12. The keys that \<open>generate\<close> can return are exactly the valid ones: every result is a scalar strictly
  between zero and the order, and every such scalar comes out for some answer of the random generator, so
  the masking of the candidates loses no key. On the 257-bit curve the code clears the first byte of a candidate
  and nothing else, although a comment in \<open>scalar257.rs\<close> says that the second byte is masked too.\<close>

theorem generated_keys_exact:
  "(\<exists>fill :: nat \<Rightarrow> nat \<Rightarrow> unit + bytes. (\<forall>i. fills (fill i)) \<and> signing_key_generate c fill = Some (Inr s)) \<longleftrightarrow>
   valid_scalar c s \<and> lv s \<noteq> 0"
proof
  assume "\<exists>fill :: nat \<Rightarrow> nat \<Rightarrow> unit + bytes. (\<forall>i. fills (fill i)) \<and> signing_key_generate c fill = Some (Inr s)"
  then show "valid_scalar c s \<and> lv s \<noteq> 0" using generate_result unfolding signing_key_generate_def by blast
next
  assume s: "valid_scalar c s \<and> lv s \<noteq> 0"
  let ?fill = "\<lambda>(_ :: nat) n. if n = sc_bytes c then Inr (scalar_to_be_bytes c s) else (Inl () :: unit + bytes)"
  have "signing_key_generate c ?fill = Some (Inr s)" using s own_bytes_accepted own_bytes_masked
    unfolding signing_key_generate_def by (subst generate_from.simps) (simp add: randombytes_buf_def)
  moreover have "\<forall>i. fills (?fill i)" using valid_scalar_bytes(1) s by (simp add: fills_def)
  ultimately show "\<exists>fill :: nat \<Rightarrow> nat \<Rightarrow> unit + bytes. (\<forall>i. fills (fill i)) \<and> signing_key_generate c fill = Some (Inr s)"
    by (intro exI [of _ ?fill] conjI)
qed

end
