(* ===== verification/Dstu9041_Field.thy ===== *)
theory Dstu9041_Field
  imports Dstu4145_Scalar
begin

text \<open>
  \<open>crates/dstu-core/src/hazmat/dstu9041/fp256.rs\<close>, \<open>fp384.rs\<close> and \<open>fp512.rs\<close>: arithmetic modulo
  \<open>p = 2^256 - 435\<close>, \<open>2^384 - 2147\<close> and \<open>2^512 - 875\<close> on little-endian limbs. The three files differ in the
  number of limbs and the constants, which are functions of \<open>dstu9041_size\<close> here. Every routine is proved to
  compute modulo \<open>p\<close> on the numbers its limbs stand for.
\<close>

section \<open>Definitions\<close>

datatype dstu9041_size = E256 | E384 | E512

fun fp_limbs :: "dstu9041_size \<Rightarrow> nat" where
  "fp_limbs E256 = 4" | "fp_limbs E384 = 6" | "fp_limbs E512 = 8"

abbreviation fp_bytes :: "dstu9041_size \<Rightarrow> nat" where
  "fp_bytes c \<equiv> 8 * fp_limbs c"

fun fp_C :: "dstu9041_size \<Rightarrow> u64" where
  "fp_C E256 = 435" | "fp_C E384 = 2147" | "fp_C E512 = 875"

fun fp_P_LIMBS :: "dstu9041_size \<Rightarrow> u64 list" where
  "fp_P_LIMBS E256 =
     [0xFFFFFFFFFFFFFE4D, 0xFFFFFFFFFFFFFFFF, 0xFFFFFFFFFFFFFFFF, 0xFFFFFFFFFFFFFFFF]"
| "fp_P_LIMBS E384 =
     [0xFFFFFFFFFFFFF79D, 0xFFFFFFFFFFFFFFFF, 0xFFFFFFFFFFFFFFFF, 0xFFFFFFFFFFFFFFFF,
      0xFFFFFFFFFFFFFFFF, 0xFFFFFFFFFFFFFFFF]"
| "fp_P_LIMBS E512 =
     [0xFFFFFFFFFFFFFC95, 0xFFFFFFFFFFFFFFFF, 0xFFFFFFFFFFFFFFFF, 0xFFFFFFFFFFFFFFFF,
      0xFFFFFFFFFFFFFFFF, 0xFFFFFFFFFFFFFFFF, 0xFFFFFFFFFFFFFFFF, 0xFFFFFFFFFFFFFFFF]"

fun fp_W :: "dstu9041_size \<Rightarrow> u64 list" where
  "fp_W E256 =
     [0x74956ADEF6968654, 0xFDEF5BA9F4C42B4B, 0x06B724D287DA9D3A, 0xFA3A4105C178A375]"
| "fp_W E384 =
     [0x7F1D389EE5CEA1C1, 0xA5A0A33C2009F6B0, 0x5ED990AE67926D52, 0x2818CECA634EC925,
      0x87CFADDA26368BFF, 0xCF5F8268D23125BE]"
| "fp_W E512 =
     [0x278BE8FE8CBA96E3, 0x04014FA539A5B43A, 0xBB8D8350BE2041AB, 0xCA1E4B1E98EBFDF4,
      0xC423A043A8BAB910, 0xEAE556FC1EA5D8F2, 0x12E6867995AC2A62, 0x658DDAB5D2027479]"

fun P_MINUS_2 :: "dstu9041_size \<Rightarrow> bytes" where
  "P_MINUS_2 E256 =
     [0xFF, 0xFF, 0xFF, 0xFF, 0xFF, 0xFF, 0xFF, 0xFF, 0xFF, 0xFF, 0xFF, 0xFF, 0xFF, 0xFF, 0xFF, 0xFF,
      0xFF, 0xFF, 0xFF, 0xFF, 0xFF, 0xFF, 0xFF, 0xFF, 0xFF, 0xFF, 0xFF, 0xFF, 0xFF, 0xFF, 0xFE, 0x4B]"
| "P_MINUS_2 E384 =
     [0xFF, 0xFF, 0xFF, 0xFF, 0xFF, 0xFF, 0xFF, 0xFF, 0xFF, 0xFF, 0xFF, 0xFF, 0xFF, 0xFF, 0xFF, 0xFF,
      0xFF, 0xFF, 0xFF, 0xFF, 0xFF, 0xFF, 0xFF, 0xFF, 0xFF, 0xFF, 0xFF, 0xFF, 0xFF, 0xFF, 0xFF, 0xFF,
      0xFF, 0xFF, 0xFF, 0xFF, 0xFF, 0xFF, 0xFF, 0xFF, 0xFF, 0xFF, 0xFF, 0xFF, 0xFF, 0xFF, 0xF7, 0x9B]"
| "P_MINUS_2 E512 =
     [0xFF, 0xFF, 0xFF, 0xFF, 0xFF, 0xFF, 0xFF, 0xFF, 0xFF, 0xFF, 0xFF, 0xFF, 0xFF, 0xFF, 0xFF, 0xFF,
      0xFF, 0xFF, 0xFF, 0xFF, 0xFF, 0xFF, 0xFF, 0xFF, 0xFF, 0xFF, 0xFF, 0xFF, 0xFF, 0xFF, 0xFF, 0xFF,
      0xFF, 0xFF, 0xFF, 0xFF, 0xFF, 0xFF, 0xFF, 0xFF, 0xFF, 0xFF, 0xFF, 0xFF, 0xFF, 0xFF, 0xFF, 0xFF,
      0xFF, 0xFF, 0xFF, 0xFF, 0xFF, 0xFF, 0xFF, 0xFF, 0xFF, 0xFF, 0xFF, 0xFF, 0xFF, 0xFF, 0xFC, 0x93]"

fun P_MINUS_1_OVER_2 :: "dstu9041_size \<Rightarrow> bytes" where
  "P_MINUS_1_OVER_2 E256 =
     [0x7F, 0xFF, 0xFF, 0xFF, 0xFF, 0xFF, 0xFF, 0xFF, 0xFF, 0xFF, 0xFF, 0xFF, 0xFF, 0xFF, 0xFF, 0xFF,
      0xFF, 0xFF, 0xFF, 0xFF, 0xFF, 0xFF, 0xFF, 0xFF, 0xFF, 0xFF, 0xFF, 0xFF, 0xFF, 0xFF, 0xFF, 0x26]"
| "P_MINUS_1_OVER_2 E384 =
     [0x7F, 0xFF, 0xFF, 0xFF, 0xFF, 0xFF, 0xFF, 0xFF, 0xFF, 0xFF, 0xFF, 0xFF, 0xFF, 0xFF, 0xFF, 0xFF,
      0xFF, 0xFF, 0xFF, 0xFF, 0xFF, 0xFF, 0xFF, 0xFF, 0xFF, 0xFF, 0xFF, 0xFF, 0xFF, 0xFF, 0xFF, 0xFF,
      0xFF, 0xFF, 0xFF, 0xFF, 0xFF, 0xFF, 0xFF, 0xFF, 0xFF, 0xFF, 0xFF, 0xFF, 0xFF, 0xFF, 0xFB, 0xCE]"
| "P_MINUS_1_OVER_2 E512 =
     [0x7F, 0xFF, 0xFF, 0xFF, 0xFF, 0xFF, 0xFF, 0xFF, 0xFF, 0xFF, 0xFF, 0xFF, 0xFF, 0xFF, 0xFF, 0xFF,
      0xFF, 0xFF, 0xFF, 0xFF, 0xFF, 0xFF, 0xFF, 0xFF, 0xFF, 0xFF, 0xFF, 0xFF, 0xFF, 0xFF, 0xFF, 0xFF,
      0xFF, 0xFF, 0xFF, 0xFF, 0xFF, 0xFF, 0xFF, 0xFF, 0xFF, 0xFF, 0xFF, 0xFF, 0xFF, 0xFF, 0xFF, 0xFF,
      0xFF, 0xFF, 0xFF, 0xFF, 0xFF, 0xFF, 0xFF, 0xFF, 0xFF, 0xFF, 0xFF, 0xFF, 0xFF, 0xFF, 0xFE, 0x4A]"

fun P_MINUS_1_OVER_4 :: "dstu9041_size \<Rightarrow> bytes" where
  "P_MINUS_1_OVER_4 E256 =
     [0x3F, 0xFF, 0xFF, 0xFF, 0xFF, 0xFF, 0xFF, 0xFF, 0xFF, 0xFF, 0xFF, 0xFF, 0xFF, 0xFF, 0xFF, 0xFF,
      0xFF, 0xFF, 0xFF, 0xFF, 0xFF, 0xFF, 0xFF, 0xFF, 0xFF, 0xFF, 0xFF, 0xFF, 0xFF, 0xFF, 0xFF, 0x93]"
| "P_MINUS_1_OVER_4 E384 =
     [0x3F, 0xFF, 0xFF, 0xFF, 0xFF, 0xFF, 0xFF, 0xFF, 0xFF, 0xFF, 0xFF, 0xFF, 0xFF, 0xFF, 0xFF, 0xFF,
      0xFF, 0xFF, 0xFF, 0xFF, 0xFF, 0xFF, 0xFF, 0xFF, 0xFF, 0xFF, 0xFF, 0xFF, 0xFF, 0xFF, 0xFF, 0xFF,
      0xFF, 0xFF, 0xFF, 0xFF, 0xFF, 0xFF, 0xFF, 0xFF, 0xFF, 0xFF, 0xFF, 0xFF, 0xFF, 0xFF, 0xFD, 0xE7]"
| "P_MINUS_1_OVER_4 E512 =
     [0x3F, 0xFF, 0xFF, 0xFF, 0xFF, 0xFF, 0xFF, 0xFF, 0xFF, 0xFF, 0xFF, 0xFF, 0xFF, 0xFF, 0xFF, 0xFF,
      0xFF, 0xFF, 0xFF, 0xFF, 0xFF, 0xFF, 0xFF, 0xFF, 0xFF, 0xFF, 0xFF, 0xFF, 0xFF, 0xFF, 0xFF, 0xFF,
      0xFF, 0xFF, 0xFF, 0xFF, 0xFF, 0xFF, 0xFF, 0xFF, 0xFF, 0xFF, 0xFF, 0xFF, 0xFF, 0xFF, 0xFF, 0xFF,
      0xFF, 0xFF, 0xFF, 0xFF, 0xFF, 0xFF, 0xFF, 0xFF, 0xFF, 0xFF, 0xFF, 0xFF, 0xFF, 0xFF, 0xFF, 0x25]"

fun P_PLUS_3_OVER_8 :: "dstu9041_size \<Rightarrow> bytes" where
  "P_PLUS_3_OVER_8 E256 =
     [0x1F, 0xFF, 0xFF, 0xFF, 0xFF, 0xFF, 0xFF, 0xFF, 0xFF, 0xFF, 0xFF, 0xFF, 0xFF, 0xFF, 0xFF, 0xFF,
      0xFF, 0xFF, 0xFF, 0xFF, 0xFF, 0xFF, 0xFF, 0xFF, 0xFF, 0xFF, 0xFF, 0xFF, 0xFF, 0xFF, 0xFF, 0xCA]"
| "P_PLUS_3_OVER_8 E384 =
     [0x1F, 0xFF, 0xFF, 0xFF, 0xFF, 0xFF, 0xFF, 0xFF, 0xFF, 0xFF, 0xFF, 0xFF, 0xFF, 0xFF, 0xFF, 0xFF,
      0xFF, 0xFF, 0xFF, 0xFF, 0xFF, 0xFF, 0xFF, 0xFF, 0xFF, 0xFF, 0xFF, 0xFF, 0xFF, 0xFF, 0xFF, 0xFF,
      0xFF, 0xFF, 0xFF, 0xFF, 0xFF, 0xFF, 0xFF, 0xFF, 0xFF, 0xFF, 0xFF, 0xFF, 0xFF, 0xFF, 0xFE, 0xF4]"
| "P_PLUS_3_OVER_8 E512 =
     [0x1F, 0xFF, 0xFF, 0xFF, 0xFF, 0xFF, 0xFF, 0xFF, 0xFF, 0xFF, 0xFF, 0xFF, 0xFF, 0xFF, 0xFF, 0xFF,
      0xFF, 0xFF, 0xFF, 0xFF, 0xFF, 0xFF, 0xFF, 0xFF, 0xFF, 0xFF, 0xFF, 0xFF, 0xFF, 0xFF, 0xFF, 0xFF,
      0xFF, 0xFF, 0xFF, 0xFF, 0xFF, 0xFF, 0xFF, 0xFF, 0xFF, 0xFF, 0xFF, 0xFF, 0xFF, 0xFF, 0xFF, 0xFF,
      0xFF, 0xFF, 0xFF, 0xFF, 0xFF, 0xFF, 0xFF, 0xFF, 0xFF, 0xFF, 0xFF, 0xFF, 0xFF, 0xFF, 0xFF, 0x93]"

definition add_limbs :: "u64 list \<Rightarrow> u64 list \<Rightarrow> u64 list \<times> u64" where
  "add_limbs a b = add_loop a b 0"

text \<open>\<open>select\<close>, whose mask and choice \<open>conditional_sub_p\<close> and \<open>add\<close> write out.\<close>

definition fp_select :: "u64 \<Rightarrow> u64 list \<Rightarrow> u64 list \<Rightarrow> u64 list" where
  "fp_select bit_val a b = (let msk = 0 - bit_val in map2 (\<lambda>x y. (x AND msk) OR (y AND NOT msk)) a b)"

definition conditional_sub_p :: "dstu9041_size \<Rightarrow> u64 list \<Rightarrow> u64 list" where
  "conditional_sub_p c x =
     (let (t, borrow) = sub_loop x (fp_P_LIMBS c) 0
      in fp_select (borrow XOR 1) t x)"

fun small_loop :: "u64 list \<Rightarrow> u64 \<Rightarrow> u64 \<Rightarrow> u64 list \<times> u64" where
  "small_loop [] c carry = ([], carry)"
| "small_loop (a # as) c carry =
     (let (r, carry) = mac 0 a c carry; (rs, carry) = small_loop as c carry in (r # rs, carry))"

definition mul_small :: "u64 list \<Rightarrow> u64 \<Rightarrow> u64 list \<times> u64" where
  "mul_small a c = small_loop a c 0"

text \<open>The pass that carries a row's last word through the limbs above it.\<close>

fun carry_up :: "u64 list \<Rightarrow> u64 \<Rightarrow> u64 list" where
  "carry_up [] c = []"
| "carry_up (r # rs) c = (let (r, c) = adc r c 0 in r # carry_up rs c)"

definition wide_row :: "u64 list \<Rightarrow> u64 list \<Rightarrow> nat \<Rightarrow> u64 list \<Rightarrow> u64 list" where
  "wide_row a b i r =
     (let (r, carry) = mul_row (a ! i) b i r 0
      in take (i + length b) r @ carry_up (drop (i + length b) r) carry)"

definition wide_mul :: "u64 list \<Rightarrow> u64 list \<Rightarrow> u64 list" where
  "wide_mul a b = fold (wide_row a b) [0..<length a] (replicate (length a + length b) 0)"

definition reduce_wide :: "dstu9041_size \<Rightarrow> u64 list \<Rightarrow> u64 list" where
  "reduce_wide c wide =
     (let low = take (fp_limbs c) wide; high = drop (fp_limbs c) wide;
          (hc, hc_top) = mul_small high (fp_C c);
          (acc, carry) = add_limbs low hc;
          overflow = carry + hc_top;
          addition = overflow * fp_C c;
          (acc2, carry2) = add_limbs acc (addition # replicate (fp_limbs c - 1) 0);
          addition2 = carry2 * fp_C c;
          (acc3, carry3) = add_limbs acc2 (addition2 # replicate (fp_limbs c - 1) 0);
          r1 = conditional_sub_p c acc3;
          r2 = conditional_sub_p c r1
      in conditional_sub_p c r2)"

definition fp_ZERO :: "dstu9041_size \<Rightarrow> u64 list" where
  "fp_ZERO c = replicate (fp_limbs c) 0"

definition fp_ONE :: "dstu9041_size \<Rightarrow> u64 list" where
  "fp_ONE c = 1 # replicate (fp_limbs c - 1) 0"

text \<open>Limb \<open>n - 1 - i\<close> is the \<open>i\<close>-th group of eight bytes.\<close>

definition fp_from_be_bytes :: "dstu9041_size \<Rightarrow> bytes \<Rightarrow> u64 list" where
  "fp_from_be_bytes c bs = rev (map (\<lambda>i. from_le_bytes (rev (slice (i * 8) (i * 8 + 8) bs))) [0..<fp_limbs c])"

definition fp_to_be_bytes :: "dstu9041_size \<Rightarrow> u64 list \<Rightarrow> bytes" where
  "fp_to_be_bytes c self = concat (map (\<lambda>i. rev (to_le_bytes 8 (self ! (fp_limbs c - 1 - i)))) [0..<fp_limbs c])"

definition fp_add :: "dstu9041_size \<Rightarrow> u64 list \<Rightarrow> u64 list \<Rightarrow> u64 list" where
  "fp_add c self other =
     (let (r, carry) = add_limbs self other;
          (t, borrow) = sub_loop r (fp_P_LIMBS c) 0;
          take_t = carry OR (borrow XOR 1)
      in fp_select take_t t r)"

definition fp_sub :: "dstu9041_size \<Rightarrow> u64 list \<Rightarrow> u64 list \<Rightarrow> u64 list" where
  "fp_sub c self other =
     (let (r, borrow) = sub_loop self other 0;
          msk = 0 - borrow
      in fst (sub_loop r ((fp_C c AND msk) # replicate (fp_limbs c - 1) 0) 0))"

definition fp_multiply :: "dstu9041_size \<Rightarrow> u64 list \<Rightarrow> u64 list \<Rightarrow> u64 list" where
  "fp_multiply c self other = reduce_wide c (wide_mul self other)"

definition fp_square :: "dstu9041_size \<Rightarrow> u64 list \<Rightarrow> u64 list" where
  "fp_square c self = fp_multiply c self self"

text \<open>One pass of the exponentiation, for bit \<open>bit_idx\<close> of \<open>byte\<close>.\<close>

definition pow_bit :: "dstu9041_size \<Rightarrow> u64 list \<Rightarrow> u8 \<Rightarrow> nat \<Rightarrow> u64 list \<Rightarrow> u64 list" where
  "pow_bit c self byte bit_idx result =
     (let result = fp_square c result;
          bit_val = ucast (drop_bit bit_idx byte AND 1);
          candidate = fp_multiply c result self
      in fp_select bit_val candidate result)"

definition pow_mod :: "dstu9041_size \<Rightarrow> u64 list \<Rightarrow> bytes \<Rightarrow> u64 list" where
  "pow_mod c self exponent = fold (\<lambda>byte. fold (pow_bit c self byte) (rev [0..<8])) exponent (fp_ONE c)"

definition fp_invert :: "dstu9041_size \<Rightarrow> u64 list \<Rightarrow> u64 list" where
  "fp_invert c self = pow_mod c self (P_MINUS_2 c)"

definition euler_criterion :: "dstu9041_size \<Rightarrow> u64 list \<Rightarrow> bool" where
  "euler_criterion c self \<longleftrightarrow> pow_mod c self (P_MINUS_1_OVER_2 c) = fp_ONE c"

definition fp_sqrt :: "dstu9041_size \<Rightarrow> u64 list \<Rightarrow> u64 list" where
  "fp_sqrt c self =
     (let f = pow_mod c self (P_MINUS_1_OVER_4 c);
          z = pow_mod c self (P_PLUS_3_OVER_8 c);
          p_minus_1 = (fp_P_LIMBS c)[0 := fp_P_LIMBS c ! 0 - 1];
          is_minus_one = (if f = p_minus_1 then 1 else 0);
          z_corrected = fp_multiply c (fp_W c) z
      in fp_select is_minus_one z_corrected z)"

definition fp_from_candidate_bytes :: "dstu9041_size \<Rightarrow> bytes \<Rightarrow> u64 list option" where
  "fp_from_candidate_bytes c bs =
     (let candidate = fp_from_be_bytes c bs; (_, borrow) = sub_loop candidate (fp_P_LIMBS c) 0
      in if borrow = 1 then Some candidate else None)"

declare fp_P_LIMBS.simps [simp del] fp_W.simps [simp del] P_MINUS_2.simps [simp del] P_MINUS_1_OVER_2.simps [simp del]
  P_MINUS_1_OVER_4.simps [simp del] P_PLUS_3_OVER_8.simps [simp del] fp_C.simps [simp del]

section \<open>The modulus\<close>

definition fp_p :: "dstu9041_size \<Rightarrow> nat" where
  "fp_p c = lv (fp_P_LIMBS c)"

lemma length_P_LIMBS [simp]: "length (fp_P_LIMBS c) = fp_limbs c"
  by (cases c) (simp_all add: fp_P_LIMBS.simps)

lemma fp_modulus: "fp_p c + unat (fp_C c) = 2 ^ (64 * fp_limbs c)"
  by (cases c) (simp_all add: fp_p_def fp_P_LIMBS.simps fp_C.simps lv.simps)

lemma fp_C_bounds: "0 < unat (fp_C c)" "unat (fp_C c) < 2 ^ 16"
  by (cases c; simp add: fp_C.simps)+

lemma fp_limbs_pos [simp]: "0 < fp_limbs c" "fp_limbs c \<noteq> 0" "Suc (fp_limbs c - Suc 0) = fp_limbs c" "fp_limbs c \<ge> 1"
  by (cases c; simp)+

text \<open>Powers of the word size are large: what the bounds below need of them.\<close>

lemma fp_room: "(2 :: nat) ^ 64 \<le> 2 ^ (64 * fp_limbs c)"
  by (rule power_increasing) (use fp_limbs_pos(4) [of c] in simp_all)

text \<open>The field elements: reduced, at the field's width.\<close>

definition fp_ok :: "dstu9041_size \<Rightarrow> u64 list \<Rightarrow> bool" where
  "fp_ok c a \<longleftrightarrow> length a = fp_limbs c \<and> lv a < fp_p c"

section \<open>Masks, carries and products\<close>

lemma fp_select_choice:
  assumes "length a = length b"
  shows "fp_select 1 a b = a" "fp_select 0 a b = b"
  using assms by (auto simp: fp_select_def Let_def intro!: nth_equalityI)

lemma cond_sub_p_value:
  assumes "length x = fp_limbs c"
  shows "lv (conditional_sub_p c x) = lv x mod fp_p c" "length (conditional_sub_p c x) = fp_limbs c"
proof -
  obtain t b where t: "sub_loop x (fp_P_LIMBS c) 0 = (t, b)" by fastforce
  note v = sub_loop_borrow [OF _ t]
  have "b XOR 1 = (if lv x < fp_p c then 0 else 1)" using v(1) assms by (simp add: fp_p_def)
  then have "conditional_sub_p c x = (if lv x < fp_p c then x else t)"
    using fp_select_choice [of t x] v(3) assms by (simp add: conditional_sub_p_def t)
  moreover have "lv x < 2 * fp_p c"
    using lv_less [of x] assms fp_modulus [of c] fp_C_bounds [of c] fp_room [of c] by simp
  ultimately show "lv (conditional_sub_p c x) = lv x mod fp_p c" "length (conditional_sub_p c x) = fp_limbs c"
    using v assms by (auto simp: fp_p_def le_mod_geq not_less)
qed

lemma limb_scaled:
  fixes B P :: nat
  assumes "w + B * k1 = a * c + k" "lo + P * k2 = l * c + k1"
  shows "(w + B * lo) + B * P * k2 = (a + B * l) * c + k"
  using assms by algebra

lemma small_loop_value:
  "small_loop a c k = (r, k') \<Longrightarrow> lv r + 2 ^ (64 * length a) * unat k' = lv a * unat c + unat k \<and> length r = length a"
proof (induction a c k arbitrary: r k' rule: small_loop.induct)
  case (2 a as c k)
  obtain w k1 where w: "mac 0 a c k = (w, k1)" by fastforce
  obtain rs k2 where rs: "small_loop as c k1 = (rs, k2)" by fastforce
  have ih: "lv rs + 2 ^ (64 * length as) * unat k2 = lv as * unat c + unat k1 \<and> length rs = length as"
    using 2(1) [OF w [symmetric] refl rs] .
  moreover have "unat w + 2 ^ 64 * unat k1 = unat a * unat c + unat k" using mac_value [OF w] by simp
  moreover have "r = w # rs" "k' = k2" using 2(2) w rs by simp_all
  ultimately show ?case using limb_scaled by (simp only: lv.simps length_Cons pow64_Suc)
qed (simp add: lv.simps)

lemma limb_rest:
  fixes B P :: nat
  assumes "r + B * l + c < B * P" "s + B * k = r + c"
  shows "l + k < P"
proof -
  have "B * (l + k) < B * P" using assms by (simp only: distrib_left)
  then show ?thesis by simp
qed

lemma carry_up_value:
  "lv rs + unat c < 2 ^ (64 * length rs) \<Longrightarrow> lv (carry_up rs c) = lv rs + unat c \<and> length (carry_up rs c) = length rs"
proof (induction rs c rule: carry_up.induct)
  case (2 r rs c)
  obtain s k where s: "adc r c 0 = (s, k)" by fastforce
  have v: "unat s + 2 ^ 64 * unat k = unat r + unat c" using adc_value(1) [OF _ s] by simp
  have "lv rs + unat k < 2 ^ (64 * length rs)"
    by (rule limb_rest [OF _ v]) (use 2(2) in \<open>simp only: lv.simps length_Cons pow64_Suc\<close>)
  from 2(1) [OF s [symmetric] refl this] v show ?case by (simp add: s lv.simps)
qed (simp add: lv.simps)

lemma wide_row_value:
  assumes "i < length a" "length r = length a + length b" "lv r = lv (take i a) * lv b"
  shows "lv (wide_row a b i r) = lv (take (Suc i) a) * lv b" "length (wide_row a b i r) = length a + length b"
proof -
  let ?k = "i + length b"
  obtain o1 c1 where row: "mul_row (a ! i) b i r 0 = (o1, c1)" by fastforce
  have v: "lv o1 + 2 ^ (64 * ?k) * unat c1 = lv r + 2 ^ (64 * i) * (unat (a ! i) * lv b)" "length o1 = length r"
    using mul_row_value [OF _ row] assms by auto
  have "lv o1 = lv (take ?k o1) + 2 ^ (64 * ?k) * lv (drop ?k o1)"
    using lv_append [of "take ?k o1" "drop ?k o1"] v(2) assms by simp
  then have sum: "lv (take ?k o1) + 2 ^ (64 * ?k) * (lv (drop ?k o1) + unat c1) = lv (take (Suc i) a) * lv b"
    using v(1) assms by (simp add: take_Suc_conv_app_nth lv_append lv.simps algebra_simps)
  have "lv (take (Suc i) a) * lv b < 2 ^ (64 * Suc i) * 2 ^ (64 * length b)"
    using lv_less [of "take (Suc i) a"] lv_less [of b] assms(1) by (intro mult_strict_mono') simp_all
  also have "\<dots> \<le> 2 ^ (64 * ?k) * 2 ^ (64 * (length a - i))"
    unfolding power_add [symmetric] using assms(1) by (intro power_increasing) (simp_all add: Suc_leI)
  finally have "2 ^ (64 * ?k) * (lv (drop ?k o1) + unat c1) < 2 ^ (64 * ?k) * (2 :: nat) ^ (64 * (length a - i))"
    using sum by linarith
  then have "lv (carry_up (drop ?k o1) c1) = lv (drop ?k o1) + unat c1 \<and> length (carry_up (drop ?k o1) c1) = length a - i"
    using carry_up_value [of "drop ?k o1" c1] v(2) assms by simp
  then show "lv (wide_row a b i r) = lv (take (Suc i) a) * lv b" "length (wide_row a b i r) = length a + length b"
    using sum v(2) assms by (simp_all add: wide_row_def row lv_append)
qed

lemma wide_mul_value: "lv (wide_mul a b) = lv a * lv b" "length (wide_mul a b) = length a + length b"
proof -
  have "lv (fold (wide_row a b) [0..<i] (replicate (length a + length b) 0)) = lv (take i a) * lv b \<and>
      length (fold (wide_row a b) [0..<i] (replicate (length a + length b) 0)) = length a + length b" if "i \<le> length a" for i
    using that by (induction i) (simp_all add: wide_row_value lv.simps)
  then show "lv (wide_mul a b) = lv a * lv b" "length (wide_mul a b) = length a + length b"
    by (simp_all add: wide_mul_def)
qed

section \<open>Reduction\<close>

lemma add_limbs_value:
  assumes "length a = length b" "add_limbs a b = (s, c')"
  shows "lv s + 2 ^ (64 * length a) * unat c' = lv a + lv b" "unat c' \<le> 1" "length s = length a"
  using add_loop_value [OF assms(1) _ assms(2) [unfolded add_limbs_def]] by (simp_all add: word_le_nat_alt)

lemma fold_identity:
  fixes p :: nat
  assumes "p + C = B" "hc + B * ht = h * C" "acc + B * cy = l + hc" "acc2 + B * c2 = acc + (cy + ht) * C"
  shows "l + B * h = acc2 + c2 * C + p * (h + (cy + ht) + c2)"
  using assms(2-4) unfolding assms(1) [symmetric] by (simp add: algebra_simps)

lemma fp_reduce_wide_value:
  assumes "length wide = 2 * fp_limbs c"
  shows "lv (reduce_wide c wide) = lv wide mod fp_p c" "length (reduce_wide c wide) = fp_limbs c"
proof -
  let ?n = "fp_limbs c" let ?B = "2 ^ (64 * ?n) :: nat" let ?C = "unat (fp_C c)"
  let ?l = "take ?n wide" let ?h = "drop ?n wide"
  obtain hc ht where hc: "mul_small ?h (fp_C c) = (hc, ht)" by fastforce
  obtain acc cy where acc: "add_limbs ?l hc = (acc, cy)" by fastforce
  define a1 where "a1 = (cy + ht) * fp_C c"
  obtain acc2 c2 where acc2: "add_limbs acc (a1 # replicate (?n - 1) 0) = (acc2, c2)" by fastforce
  define a2 where "a2 = c2 * fp_C c"
  obtain acc3 c3 where acc3: "add_limbs acc2 (a2 # replicate (?n - 1) 0) = (acc3, c3)" by fastforce
  have v1: "lv hc + ?B * unat ht = lv ?h * ?C" "length hc = ?n"
    using small_loop_value [of ?h "fp_C c" 0] hc assms by (simp_all add: mul_small_def)
  have v2: "lv acc + ?B * unat cy = lv ?l + lv hc" "unat cy \<le> 1" "length acc = ?n"
    using add_limbs_value [OF _ acc] v1(2) assms by simp_all
  have "lv ?h * ?C < ?B * ?C" using lv_less [of ?h] assms fp_C_bounds(1) [of c] by simp
  then have "?B * unat ht < ?B * ?C" using v1(1) by linarith
  then have ht: "unat ht < 2 ^ 16" using fp_C_bounds(2) [of c] by simp
  have o: "unat (cy + ht) = unat cy + unat ht" using ht v2(2) by (simp add: unat_word_ariths)
  have small: "(unat cy + unat ht) * ?C \<le> 2 ^ 17 * 2 ^ 16" using ht v2(2) fp_C_bounds(2) [of c] by (intro mult_le_mono) simp_all
  then have a1: "unat a1 = (unat cy + unat ht) * ?C" by (simp add: a1_def unat_word_ariths(2) o)
  have v3: "lv acc2 + ?B * unat c2 = lv acc + (unat cy + unat ht) * ?C" "unat c2 \<le> 1" "length acc2 = ?n"
    using add_limbs_value [OF _ acc2] v2(3) a1 by (simp_all add: lv.simps)
  have a2: "unat a2 = unat c2 * ?C"
    using v3(2) fp_C_bounds(2) [of c] by (cases "unat c2") (simp_all add: a2_def unat_word_ariths)
  have v4: "lv acc3 + ?B * unat c3 = lv acc2 + unat c2 * ?C" "unat c3 \<le> 1" "length acc3 = ?n"
    using add_limbs_value [OF _ acc3] v3(3) a2 by (simp_all add: lv.simps)
  have "lv acc2 + unat c2 * ?C < ?B"
    using v3(1,2) small lv_less [of acc2] lv_less [of acc] v2(3) v3(3) fp_C_bounds(2) [of c] fp_room [of c]
    by (cases "unat c2") simp_all
  then have "lv acc3 = lv acc2 + unat c2 * ?C" using v4(1) by (cases "unat c3") simp_all
  moreover have "lv wide = lv ?l + ?B * lv ?h" using lv_append [of ?l ?h] assms by simp
  ultimately have "lv wide mod fp_p c = lv acc3 mod fp_p c"
    using fold_identity [OF fp_modulus v1(1) v2(1) v3(1)] by simp
  moreover have "reduce_wide c wide = conditional_sub_p c (conditional_sub_p c (conditional_sub_p c acc3))"
    using hc acc acc2 acc3 unfolding a1_def a2_def by (simp add: reduce_wide_def Let_def)
  ultimately show "lv (reduce_wide c wide) = lv wide mod fp_p c" "length (reduce_wide c wide) = fp_limbs c"
    by (simp_all add: cond_sub_p_value v4(3))
qed

section \<open>Bytes\<close>

lemma fp_from_be_bytes_value:
  assumes "length bs = fp_bytes c"
  shows "lv (fp_from_be_bytes c bs) = be_value bs" "length (fp_from_be_bytes c bs) = fp_limbs c"
proof -
  let ?n = "fp_limbs c"
  show "length (fp_from_be_bytes c bs) = ?n" by (simp add: fp_from_be_bytes_def)
  show "lv (fp_from_be_bytes c bs) = be_value bs"
  proof (rule bit_eqI)
    fix k :: nat
    define q j where "q = k div 64" and "j = k div 8 mod 8"
    have k: "k div 8 = 8 * q + j" "k mod 64 = 8 * j + k mod 8" "j < 8" by (simp_all add: q_def j_def byte_digits)
    have dv: "(k mod 64) div 8 = j" "(k mod 64) mod 8 = k mod 8" unfolding k(2) by simp_all
    show "bit (lv (fp_from_be_bytes c bs)) k \<longleftrightarrow> bit (be_value bs) k"
    proof (cases "q < ?n")
      case True
      then have idx: "(?n - 1 - q) * 8 + (7 - j) = 8 * ?n - Suc (8 * q + j)" "8 * q + j < 8 * ?n" "(?n - 1 - q) * 8 + 8 \<le> 8 * ?n"
        using k(3) by (simp_all add: diff_mult_distrib)
      let ?s = "slice ((?n - 1 - q) * 8) ((?n - 1 - q) * 8 + 8) bs"
      have len: "length ?s = 8" using assms idx(3) by simp
      have "rev ?s ! j = bs ! (8 * ?n - Suc (8 * q + j))"
        using len k(3) assms idx by (simp add: rev_nth slice_def)
      then have "bit (from_le_bytes (rev ?s) :: u64) (k mod 64) \<longleftrightarrow> bit (rev bs ! (8 * q + j)) (k mod 8)"
        using len assms idx(2) k(3) by (simp add: bit_from_le_bytes dv rev_nth)
      then show ?thesis
        using True idx(2) assms by (simp add: bit_lv fp_from_be_bytes_def q_def [symmetric] rev_nth bit_be_value k(1))
    next
      case False
      then have "\<not> k div 8 < 8 * ?n" by (simp add: k(1))
      then show ?thesis using False assms by (simp add: bit_lv fp_from_be_bytes_def q_def [symmetric] bit_be_value)
    qed
  qed
qed

lemma slice_concat_words:
  assumes "\<And>i. length (f i) = m" "i < n"
  shows "slice (i * m) (i * m + m) (concat (map f [0..<n])) = f i"
proof -
  have len: "length (concat (map f [0..<n])) = n * m" for n by (induction n) (simp_all add: assms(1))
  show ?thesis using assms(2)
  proof (induction n)
    case (Suc n)
    show ?case
    proof (cases "i = n")
      case True
      then show ?thesis using len [of n] assms(1) by (simp add: slice_def)
    next
      case False
      then have "i * m + m \<le> n * m" using Suc.prems by (metis add.commute less_antisym mult_Suc mult_le_mono1 Suc_leI)
      then show ?thesis using False Suc len [of n] by (simp add: slice_append_left)
    qed
  qed simp
qed

lemma fp_to_be_bytes_laws:
  assumes "length a = fp_limbs c"
  shows "length (fp_to_be_bytes c a) = fp_bytes c" "fp_from_be_bytes c (fp_to_be_bytes c a) = a"
    "be_value (fp_to_be_bytes c a) = lv a"
proof -
  show len: "length (fp_to_be_bytes c a) = fp_bytes c"
    by (simp add: fp_to_be_bytes_def length_concat comp_def sum_list_triv)
  show inv: "fp_from_be_bytes c (fp_to_be_bytes c a) = a"
  proof (rule nth_equalityI)
    fix i assume "i < length (fp_from_be_bytes c (fp_to_be_bytes c a))"
    then have i: "i < fp_limbs c" by (simp add: fp_from_be_bytes_def)
    have "slice ((fp_limbs c - 1 - i) * 8) ((fp_limbs c - 1 - i) * 8 + 8) (fp_to_be_bytes c a) = rev (to_le_bytes 8 (a ! i))"
      unfolding fp_to_be_bytes_def using i by (subst slice_concat_words) simp_all
    then show "fp_from_be_bytes c (fp_to_be_bytes c a) ! i = a ! i" using i by (simp add: fp_from_be_bytes_def rev_nth)
  qed (simp add: fp_from_be_bytes_def assms)
  show "be_value (fp_to_be_bytes c a) = lv a" using fp_from_be_bytes_value(1) [OF len] inv by simp
qed

lemma fp_to_from_be_bytes:
  assumes "length bs = fp_bytes c"
  shows "fp_to_be_bytes c (fp_from_be_bytes c bs) = bs"
  using fp_to_be_bytes_laws [OF fp_from_be_bytes_value(2) [OF assms]] fp_from_be_bytes_value(1) [OF assms] assms
  by (simp add: be_value_inject)

lemma fp_candidate_cases:
  assumes "length bs = fp_bytes c"
  shows "fp_from_candidate_bytes c bs = (if be_value bs < fp_p c then Some (fp_from_be_bytes c bs) else None)"
proof -
  obtain d b where d: "sub_loop (fp_from_be_bytes c bs) (fp_P_LIMBS c) 0 = (d, b)" by fastforce
  then show ?thesis using sub_loop_borrow(1) [OF _ d] fp_from_be_bytes_value [OF assms]
    by (simp add: fp_from_candidate_bytes_def fp_p_def)
qed

section \<open>The field operations\<close>

lemma fp_add_value:
  assumes "fp_ok c a" "fp_ok c b"
  shows "lv (fp_add c a b) = (lv a + lv b) mod fp_p c" "length (fp_add c a b) = fp_limbs c"
proof -
  let ?B = "2 ^ (64 * fp_limbs c) :: nat"
  obtain r cy where r: "add_limbs a b = (r, cy)" by fastforce
  obtain t b' where t: "sub_loop r (fp_P_LIMBS c) 0 = (t, b')" by fastforce
  have v: "lv r + ?B * unat cy = lv a + lv b" "unat cy \<le> 1" "length r = fp_limbs c"
    using add_limbs_value [OF _ r] assms by (simp_all add: fp_ok_def)
  note bw = sub_loop_borrow [OF _ t]
  have sub: "lv t + fp_p c = lv r + ?B * unat b'" "length t = fp_limbs c"
    using sub_loop_value [OF _ _ t] v(3) by (simp_all add: fp_p_def)
  have ab: "lv a < fp_p c" "lv b < fp_p c" and pB: "fp_p c \<le> ?B" using assms fp_modulus [of c] by (simp_all add: fp_ok_def)
  have cy: "cy = 0 \<or> cy = 1" using v(2) by (cases "unat cy") (auto simp: unat_eq_0 intro: word_unat_eq_iff [THEN iffD2])
  have b': "b' = (if lv r < fp_p c then 1 else 0)" using bw(1) v(3) by (simp add: fp_p_def)
  have "fp_add c a b = (if lv a + lv b < fp_p c then r else t)"
    using cy b' v pB lv_less [of r] fp_select_choice [of t r] sub(2) by (auto simp: fp_add_def r t)
  moreover have "lv t = lv a + lv b - fp_p c" if "\<not> lv a + lv b < fp_p c"
    using that cy b' v ab pB sub(1) by (auto split: if_splits)
  moreover have "lv r = lv a + lv b" if "lv a + lv b < fp_p c"
    using that cy v pB by auto
  ultimately show "lv (fp_add c a b) = (lv a + lv b) mod fp_p c" "length (fp_add c a b) = fp_limbs c"
    using ab v(3) sub(2) by (simp_all add: mod_if)
qed

lemma fp_sub_value:
  assumes "fp_ok c a" "fp_ok c b"
  shows "lv (fp_sub c a b) = (lv a + fp_p c - lv b) mod fp_p c" "length (fp_sub c a b) = fp_limbs c"
proof -
  let ?B = "2 ^ (64 * fp_limbs c) :: nat"
  obtain r b' where r: "sub_loop a b 0 = (r, b')" by fastforce
  define k where "k = (fp_C c AND (0 - b')) # replicate (fp_limbs c - 1) 0"
  obtain o' b2 where o': "sub_loop r k 0 = (o', b2)" by fastforce
  have v: "lv r + lv b = lv a + ?B * unat b'" "length r = fp_limbs c"
    using sub_loop_value [OF _ _ r] assms by (simp_all add: fp_ok_def)
  have b': "b' = (if lv a < lv b then 1 else 0)" using sub_loop_borrow(1) [OF _ r] assms by (simp add: fp_ok_def)
  have k: "length k = fp_limbs c" "lv k = (if lv a < lv b then unat (fp_C c) else 0)" by (simp_all add: k_def b' lv.simps)
  have ab: "lv a < fp_p c" "lv b < fp_p c" using assms by (simp_all add: fp_ok_def)
  have "lv k \<le> lv r" using v(1) b' k(2) ab fp_modulus [of c] by (auto split: if_splits)
  then have o: "lv o' = lv r - lv k" "length o' = fp_limbs c" using sub_loop_borrow(2,3) [OF _ o'] k(1) v(2) by simp_all
  have res: "fp_sub c a b = o'" using o' by (simp add: fp_sub_def r k_def)
  show "length (fp_sub c a b) = fp_limbs c" by (simp add: res o)
  show "lv (fp_sub c a b) = (lv a + fp_p c - lv b) mod fp_p c"
  proof (cases "lv a < lv b")
    case True
    then have "lv o' = lv a + fp_p c - lv b" using o v(1) b' k(2) fp_modulus [of c] by simp
    then show ?thesis using True ab by (simp add: res)
  next
    case False
    then have "lv o' = lv a - lv b" using o(1) v(1) unfolding b' k(2) by simp
    moreover have "lv a + fp_p c - lv b = lv a - lv b + fp_p c" using False by simp
    ultimately show ?thesis using ab by (simp only: res mod_add_self2) simp
  qed
qed

lemma fp_p_bounds: "2 < fp_p c" "fp_p c < 2 ^ (64 * fp_limbs c)"
  using fp_modulus [of c] fp_C_bounds [of c] fp_room [of c] by simp_all

lemma fp_multiply_value:
  assumes "length a = fp_limbs c" "length b = fp_limbs c"
  shows "lv (fp_multiply c a b) = lv a * lv b mod fp_p c" "length (fp_multiply c a b) = fp_limbs c"
  using fp_reduce_wide_value [of "wide_mul a b" c] assms by (simp_all add: fp_multiply_def wide_mul_value)

lemma fp_const_values [simp]: "lv (fp_ZERO c) = 0" "lv (fp_ONE c) = 1" "length (fp_ZERO c) = fp_limbs c" "length (fp_ONE c) = fp_limbs c"
  by (simp_all add: fp_ZERO_def fp_ONE_def lv.simps)

lemma fp_ok_closed [simp, intro]:
  "fp_ok c (fp_ZERO c)" "fp_ok c (fp_ONE c)" "fp_ok c a \<Longrightarrow> fp_ok c b \<Longrightarrow> fp_ok c (fp_add c a b)"
  "fp_ok c a \<Longrightarrow> fp_ok c b \<Longrightarrow> fp_ok c (fp_sub c a b)" "fp_ok c a \<Longrightarrow> fp_ok c b \<Longrightarrow> fp_ok c (fp_multiply c a b)"
  "fp_ok c a \<Longrightarrow> fp_ok c (fp_square c a)"
  using fp_p_bounds(1) [of c]
  by (auto simp: fp_ok_def fp_add_value fp_sub_value fp_multiply_value fp_square_def)

lemma fp_eq_iff: "fp_ok c a \<Longrightarrow> fp_ok c b \<Longrightarrow> a = b \<longleftrightarrow> lv a = lv b"
  by (simp add: fp_ok_def lv_inject)

section \<open>Exponentiation\<close>

lemma pow_bit_value:
  assumes "fp_ok c a" "fp_ok c r"
  shows "fp_ok c (pow_bit c a b i r)" "lv (pow_bit c a b i r) = lv r ^ 2 * lv a ^ of_bool (bit b i) mod fp_p c"
proof -
  have bit: "(ucast (drop_bit i b AND 1) :: u64) = (if bit b i then 1 else 0)"
    by (simp add: and_one_eq mod_2_eq_odd even_drop_bit_iff_not_bit)
  note m = fp_multiply_value [of _ c]
  have "pow_bit c a b i r = (if bit b i then fp_multiply c (fp_square c r) a else fp_square c r)"
    using assms by (auto simp: pow_bit_def bit Let_def fp_square_def fp_ok_def m fp_select_choice)
  then show "fp_ok c (pow_bit c a b i r)" "lv (pow_bit c a b i r) = lv r ^ 2 * lv a ^ of_bool (bit b i) mod fp_p c"
    using assms by (auto simp: fp_square_def fp_ok_def m power2_eq_square mod_mult_left_eq)
qed

lemma pow_bits_value:
  assumes "fp_ok c a"
  shows "fp_ok c r \<Longrightarrow> fp_ok c (fold (pow_bit c a b) (rev [0..<k]) r) \<and>
    lv (fold (pow_bit c a b) (rev [0..<k]) r) = lv r ^ (2 ^ k) * lv a ^ take_bit k (unat b) mod fp_p c"
proof (induction k arbitrary: r)
  case 0
  then show ?case by (simp add: fp_ok_def)
next
  case (Suc k)
  let ?r = "pow_bit c a b k r" and ?e = "of_bool (bit b k) :: nat"
  note v = pow_bit_value [OF assms Suc.prems, of b k]
  have e: "take_bit (Suc k) (unat b) = take_bit k (unat b) + 2 ^ k * ?e"
    by (simp add: take_bit_Suc_from_most bit_unsigned_iff)
  have "lv ?r ^ 2 ^ k * lv a ^ take_bit k (unat b) mod fp_p c = (lv r ^ 2 * lv a ^ ?e) ^ 2 ^ k * lv a ^ take_bit k (unat b) mod fp_p c"
    by (metis v(2) mod_mult_left_eq power_mod)
  also have "(lv r ^ 2 * lv a ^ ?e) ^ 2 ^ k * lv a ^ take_bit k (unat b) = lv r ^ 2 ^ Suc k * lv a ^ take_bit (Suc k) (unat b)"
    unfolding e by (simp add: power_mult_distrib power_add power_mult [symmetric] mult_ac)
  finally show ?case using Suc.IH [OF v(1)] by simp
qed

lemma pow_mod_value:
  assumes "fp_ok c a"
  shows "fp_ok c (pow_mod c a e) \<and> lv (pow_mod c a e) = lv a ^ be_value e mod fp_p c"
  unfolding pow_mod_def
proof (induction e rule: rev_induct)
  case Nil
  then show ?case using fp_p_bounds(1) [of c] by simp
next
  case (snoc b e)
  let ?r = "fold (\<lambda>byte. fold (pow_bit c a byte) (rev [0..<8])) e (fp_ONE c)"
  have b: "take_bit 8 (unat b) = unat b" using unat_u8_less [of b] by (simp add: take_bit_nat_eq_self)
  note v = pow_bits_value [OF assms, of ?r b 8]
  have "lv ?r ^ (2 ^ 8) * lv a ^ unat b mod fp_p c = (lv a ^ be_value e) ^ 2 ^ 8 * lv a ^ unat b mod fp_p c"
    by (metis snoc.IH mod_mult_left_eq power_mod)
  also have "(lv a ^ be_value e) ^ 2 ^ 8 * lv a ^ unat b = lv a ^ be_value (e @ [b])"
    by (simp only: be_value_simps power_add power_mult [symmetric]) (simp add: mult.commute)
  finally show ?case using v snoc.IH b by simp
qed

section \<open>Inverses and square roots\<close>

lemma fp_exponents:
  "be_value (P_MINUS_2 c) = fp_p c - 2" "2 * be_value (P_MINUS_1_OVER_2 c) + 1 = fp_p c"
  "4 * be_value (P_MINUS_1_OVER_4 c) + 1 = fp_p c" "8 * be_value (P_PLUS_3_OVER_8 c) = fp_p c + 3"
proof -
  have p: "fp_p c = 2 ^ (64 * fp_limbs c) - unat (fp_C c)" using fp_modulus [of c] by simp
  show "be_value (P_MINUS_2 c) = fp_p c - 2" unfolding p by (cases c) (simp_all add: P_MINUS_2.simps fp_C.simps be_value_def)
  show "2 * be_value (P_MINUS_1_OVER_2 c) + 1 = fp_p c" unfolding p by (cases c) (simp_all add: P_MINUS_1_OVER_2.simps fp_C.simps be_value_def)
  show "4 * be_value (P_MINUS_1_OVER_4 c) + 1 = fp_p c" unfolding p by (cases c) (simp_all add: P_MINUS_1_OVER_4.simps fp_C.simps be_value_def)
  show "8 * be_value (P_PLUS_3_OVER_8 c) = fp_p c + 3" unfolding p by (cases c) (simp_all add: P_PLUS_3_OVER_8.simps fp_C.simps be_value_def)
qed

text \<open>The square of \<open>W\<close> is \<open>-1\<close>: the quotients by \<open>p\<close> are given.\<close>

lemma square_quotient: "w * w + 1 + C * q = q * B \<Longrightarrow> p + C = B \<Longrightarrow> w * w + 1 = q * p" for p :: nat
  by (auto simp: algebra_simps)

lemma W_square_256: "lv (fp_W E256) * lv (fp_W E256) + 1 = 0xf495d440c4ff364b0613ae333ecb90a11bc480f567de1d8d7ead400b8f850c55 * fp_p E256"
proof -
  have w: "lv (fp_W E256) = 0xfa3a4105c178a37506b724d287da9d3afdef5ba9f4c42b4b74956adef6968654" by (simp add: fp_W.simps lv.simps)
  have "lv (fp_W E256) * lv (fp_W E256) + 1 + 435 * 0xf495d440c4ff364b0613ae333ecb90a11bc480f567de1d8d7ead400b8f850c55 = 0xf495d440c4ff364b0613ae333ecb90a11bc480f567de1d8d7ead400b8f850c55 * 2 ^ 256" unfolding w by simp
  moreover have "fp_p E256 + 435 = 2 ^ 256" using fp_modulus [of E256] by (simp add: fp_C.simps)
  ultimately show ?thesis by (rule square_quotient)
qed

lemma W_square_384: "lv (fp_W E384) * lv (fp_W E384) + 1 = 0xa7fb988790261be981e37f632654babb5980b421f10a3192a92ce598c18bc4185a4b421925c4405971fceaf6882a96ea * fp_p E384"
proof -
  have w: "lv (fp_W E384) = 0xcf5f8268d23125be87cfadda26368bff2818ceca634ec9255ed990ae67926d52a5a0a33c2009f6b07f1d389ee5cea1c1" by (simp add: fp_W.simps lv.simps)
  have "lv (fp_W E384) * lv (fp_W E384) + 1 + 2147 * 0xa7fb988790261be981e37f632654babb5980b421f10a3192a92ce598c18bc4185a4b421925c4405971fceaf6882a96ea = 0xa7fb988790261be981e37f632654babb5980b421f10a3192a92ce598c18bc4185a4b421925c4405971fceaf6882a96ea * 2 ^ 384" unfolding w by simp
  moreover have "fp_p E384 + 2147 = 2 ^ 384" using fp_modulus [of E384] by (simp add: fp_C.simps)
  ultimately show ?thesis by (rule square_quotient)
qed

lemma W_square_512: "lv (fp_W E512) * lv (fp_W E512) + 1 = 0x28493d2e1ed9716aa867a68e12ee668cf8977480fa9953045b738288ee896f25c9d2f05d4b54f7d27cc0fd8a02da120a2355520bfc71e5318d160e330ef45ba2 * fp_p E512"
proof -
  have w: "lv (fp_W E512) = 0x658ddab5d202747912e6867995ac2a62eae556fc1ea5d8f2c423a043a8bab910ca1e4b1e98ebfdf4bb8d8350be2041ab04014fa539a5b43a278be8fe8cba96e3" by (simp add: fp_W.simps lv.simps)
  have "lv (fp_W E512) * lv (fp_W E512) + 1 + 875 * 0x28493d2e1ed9716aa867a68e12ee668cf8977480fa9953045b738288ee896f25c9d2f05d4b54f7d27cc0fd8a02da120a2355520bfc71e5318d160e330ef45ba2 = 0x28493d2e1ed9716aa867a68e12ee668cf8977480fa9953045b738288ee896f25c9d2f05d4b54f7d27cc0fd8a02da120a2355520bfc71e5318d160e330ef45ba2 * 2 ^ 512" unfolding w by simp
  moreover have "fp_p E512 + 875 = 2 ^ 512" using fp_modulus [of E512] by (simp add: fp_C.simps)
  ultimately show ?thesis by (rule square_quotient)
qed

lemma W_square: "lv (fp_W c) * lv (fp_W c) mod fp_p c = fp_p c - 1" "length (fp_W c) = fp_limbs c"
proof -
  obtain q where q: "lv (fp_W c) * lv (fp_W c) + 1 = q * fp_p c"
    using W_square_256 W_square_384 W_square_512 by (cases c) blast+
  then have "lv (fp_W c) * lv (fp_W c) = (fp_p c - 1) + (q - 1) * fp_p c"
    using fp_p_bounds(1) [of c] by (cases q) simp_all
  then show "lv (fp_W c) * lv (fp_W c) mod fp_p c = fp_p c - 1"
    using fp_p_bounds(1) [of c] by (simp only: mod_mult_self1) simp
  show "length (fp_W c) = fp_limbs c" by (cases c) (simp_all add: fp_W.simps)
qed

lemma fp_minus_one:
  "lv ((fp_P_LIMBS c)[0 := fp_P_LIMBS c ! 0 - 1]) = fp_p c - 1" "length ((fp_P_LIMBS c)[0 := fp_P_LIMBS c ! 0 - 1]) = fp_limbs c"
  by (cases c; simp add: fp_p_def fp_P_LIMBS.simps lv.simps)+

lemma fp_minus_one_ok: "fp_ok c ((fp_P_LIMBS c)[0 := fp_P_LIMBS c ! 0 - 1])"
  using fp_p_bounds(1) [of c] fp_minus_one [of c] by (simp add: fp_ok_def)

lemma minus_one_squared: "(p - 1) * (p - 1) mod p = (1 :: nat)" if "2 < p"
proof -
  have "(p - 1) * (p - 1) = 1 + (p - 2) * p" using that by (cases p; cases "p - 1") (auto simp: algebra_simps)
  then show ?thesis using that by (simp only: mod_mult_self1) simp
qed

lemma fp_sqrt_squares:
  assumes a: "fp_ok c a" and f: "lv a ^ ((fp_p c - 1) div 4) mod fp_p c \<in> {1, fp_p c - 1}"
  shows "fp_square c (fp_sqrt c a) = a"
proof -
  let ?p = "fp_p c" let ?q = "be_value (P_MINUS_1_OVER_4 c)" let ?h = "be_value (P_PLUS_3_OVER_8 c)"
  have q: "(?p - 1) div 4 = ?q" using fp_exponents(3) [of c] by simp
  have h: "2 * ?h = ?q + 1" using fp_exponents(3,4) [of c] by simp
  define f z where "f = pow_mod c a (P_MINUS_1_OVER_4 c)" and "z = pow_mod c a (P_PLUS_3_OVER_8 c)"
  have fv: "fp_ok c f" "lv f = lv a ^ ?q mod ?p" and zv: "fp_ok c z" "lv z = lv a ^ ?h mod ?p"
    using pow_mod_value [OF a] by (simp_all add: f_def z_def)
  have zz: "lv z * lv z mod ?p = lv f * lv a mod ?p"
  proof -
    have "lv z * lv z mod ?p = lv a ^ (2 * ?h) mod ?p" by (simp add: zv(2) mod_mult_eq mult_2 power_add)
    also have "\<dots> = lv f * lv a mod ?p" unfolding h by (simp add: fv(2) power_add mod_mult_right_eq mult.commute)
    finally show ?thesis .
  qed
  have is_m1: "f = (fp_P_LIMBS c)[0 := fp_P_LIMBS c ! 0 - 1] \<longleftrightarrow> lv f = ?p - 1"
    using fp_eq_iff [OF fv(1) fp_minus_one_ok] fp_minus_one by simp
  have wz: "fp_ok c (fp_multiply c (fp_W c) z)" "lv (fp_multiply c (fp_W c) z) = lv (fp_W c) * lv z mod ?p"
    using fp_multiply_value [of "fp_W c" c z] zv(1) W_square(2) fp_p_bounds(1) [of c] by (simp_all add: fp_ok_def)
  have s: "fp_sqrt c a = (if lv f = ?p - 1 then fp_multiply c (fp_W c) z else z)"
    using fp_select_choice [of "fp_multiply c (fp_W c) z" z] wz(1) zv(1) is_m1
    by (simp add: fp_sqrt_def f_def [symmetric] z_def [symmetric] Let_def fp_ok_def)
  have "lv (fp_square c (fp_sqrt c a)) = lv a"
  proof (cases "lv f = ?p - 1")
    case True
    have "lv (fp_W c) * lv z mod ?p * (lv (fp_W c) * lv z mod ?p) mod ?p = (lv (fp_W c) * lv (fp_W c)) * (lv z * lv z) mod ?p"
      by (simp add: mod_mult_eq mult_ac)
    also have "\<dots> = (?p - 1) * ((?p - 1) * lv a) mod ?p" 
      using zz True W_square(1) [of c] fp_p_bounds(1) [of c] by (subst mod_mult_cong [of "lv (fp_W c) * lv (fp_W c)" ?p "?p - 1" "lv z * lv z" "(?p - 1) * lv a"]) simp_all
    also have "\<dots> = ((?p - 1) * (?p - 1) mod ?p) * lv a mod ?p" by (simp add: mod_mult_right_eq mult_ac)
    also have "\<dots> = lv a" using minus_one_squared [OF fp_p_bounds(1)] a by (simp add: fp_ok_def)
    finally show ?thesis using wz True by (simp add: s fp_square_def fp_multiply_value fp_ok_def)
  next
    case False
    then have "lv f = 1" using f q fv(2) by simp
    then show ?thesis using False zv(1) zz a by (simp add: s fp_square_def fp_multiply_value fp_ok_def)
  qed
  moreover have "fp_ok c (fp_square c (fp_sqrt c a))" using s wz(1) zv(1) by auto
  ultimately show ?thesis using fp_eq_iff a by blast
qed

section \<open>Properties\<close>

text \<open>C26. The prime-field routines compute modulo \<open>p\<close>, at all three sizes: on reduced operands addition,
  subtraction, multiplication and exponentiation with their masks, carries and folding passes give the
  reduced sum, difference, product and power, and \<open>invert\<close> the power \<open>p - 2\<close>; every result is reduced again.\<close>

theorem prime_field_arithmetic:
  assumes "fp_ok c a" "fp_ok c b"
  shows "fp_ok c (fp_add c a b) \<and> lv (fp_add c a b) = (lv a + lv b) mod fp_p c \<and>
    fp_ok c (fp_sub c a b) \<and> lv (fp_sub c a b) = (lv a + fp_p c - lv b) mod fp_p c \<and>
    fp_ok c (fp_multiply c a b) \<and> lv (fp_multiply c a b) = lv a * lv b mod fp_p c \<and>
    fp_ok c (pow_mod c a e) \<and> lv (pow_mod c a e) = lv a ^ be_value e mod fp_p c \<and>
    lv (fp_invert c a) = lv a ^ (fp_p c - 2) mod fp_p c"
  using assms fp_add_value [OF assms] fp_sub_value [OF assms] fp_multiply_value [of a c b] pow_mod_value [OF assms(1)]
  by (auto simp: fp_invert_def fp_exponents fp_ok_def)

theorem prime_field_arithmetic_witness:
  "lv (fp_sub E384 (fp_ZERO E384) (fp_ONE E384)) = fp_p E384 - 1 \<and>
   lv (pow_mod E512 (fp_ONE E512) [1, 2]) = 1"
  using prime_field_arithmetic [of E384 "fp_ZERO E384" "fp_ONE E384"] prime_field_arithmetic [of E512 "fp_ONE E512" "fp_ONE E512" "[1, 2]"]
    fp_p_bounds(1) [of E384] fp_p_bounds(1) [of E512] by simp

text \<open>\<open>sqrt\<close> returns square roots: at all three sizes the square of what it returns is the argument,
  whenever the power \<open>(p - 1) / 4\<close> of the argument is one or minus one, as it is for every residue modulo a
  prime; the constant \<open>W\<close> is a square root of minus one.\<close>

theorem sqrt_squares_back:
  assumes "fp_ok c a" "lv a ^ ((fp_p c - 1) div 4) mod fp_p c \<in> {1, fp_p c - 1}"
  shows "fp_square c (fp_sqrt c a) = a \<and> lv (fp_W c) * lv (fp_W c) mod fp_p c = fp_p c - 1"
  using fp_sqrt_squares [OF assms] W_square(1) by blast

theorem sqrt_squares_back_witness:
  "fp_square E256 (fp_sqrt E256 (fp_ONE E256)) = fp_ONE E256"
  using sqrt_squares_back [of E256 "fp_ONE E256"] fp_p_bounds(1) [of E256] by simp

end
