(* ===== verification/Dstu9041_Curve.thy ===== *)
theory Dstu9041_Curve
  imports Dstu9041_Field
begin

text \<open>
  \<open>crates/dstu-core/src/hazmat/dstu9041/curve256.rs\<close>, \<open>curve384.rs\<close> and \<open>curve512.rs\<close>: points of the twisted
  Edwards curves \<open>x^2 + a y^2 = 1 + d x^2 y^2\<close>, their projective addition law, the constant-time scalar
  multiplication and the reconstruction of a point from its abscissa.
\<close>

section \<open>Definitions\<close>

fun ed_BASE_X :: "dstu9041_size \<Rightarrow> bytes" where
  "ed_BASE_X E256 =
     [0x91, 0xF5, 0xD0, 0xE7, 0xE2, 0xD4, 0x17, 0xE3, 0x10, 0x8B, 0x13, 0xB0, 0x75, 0xCD, 0xC7, 0x75,
      0x60, 0x45, 0xF8, 0x42, 0x44, 0x79, 0xFC, 0xFE, 0x8F, 0x23, 0xD2, 0x72, 0x50, 0xA0, 0x88, 0x3F]"
| "ed_BASE_X E384 =
     [0xF5, 0xFC, 0x15, 0x1B, 0x62, 0x64, 0xCB, 0x53, 0xA4, 0xB8, 0x79, 0xAA, 0x9A, 0x1F, 0x4A, 0x51,
      0x56, 0xBB, 0xF0, 0x63, 0xB5, 0x6A, 0xAA, 0x91, 0x26, 0x17, 0xC0, 0xE4, 0xCE, 0xFF, 0x15, 0xD2,
      0xDF, 0x49, 0x7D, 0x9A, 0xEF, 0x12, 0x37, 0x4A, 0x22, 0xD2, 0x2C, 0x3B, 0x40, 0x2B, 0x2C, 0x71]"
| "ed_BASE_X E512 =
     [0x52, 0x30, 0xA1, 0xEE, 0x74, 0x70, 0x50, 0xA0, 0x72, 0xBD, 0x73, 0x19, 0x74, 0x15, 0x86, 0xEA,
      0x52, 0x03, 0x88, 0xB6, 0xB5, 0x30, 0x94, 0x57, 0x1C, 0x82, 0x1A, 0x2F, 0xC9, 0xA9, 0xE8, 0x3D,
      0x56, 0x66, 0x53, 0x46, 0xB5, 0xDB, 0x04, 0xC4, 0x3E, 0x75, 0x26, 0x1D, 0xBD, 0xA5, 0x12, 0x72,
      0x8F, 0xAA, 0xFA, 0xC4, 0x8A, 0xE9, 0x26, 0x0A, 0x5A, 0x18, 0x4E, 0x29, 0x33, 0xE3, 0xA4, 0x00]"

fun ed_BASE_Y :: "dstu9041_size \<Rightarrow> bytes" where
  "ed_BASE_Y E256 =
     [0x74, 0x2F, 0x27, 0xA2, 0x68, 0x64, 0x1C, 0x9D, 0x7D, 0xDF, 0x69, 0x89, 0x2B, 0xE3, 0xDF, 0x3D,
      0x8F, 0x9C, 0xC5, 0x22, 0x60, 0xB8, 0x9A, 0x49, 0x53, 0xC8, 0x37, 0x9C, 0x7C, 0x0A, 0x21, 0x2B]"
| "ed_BASE_Y E384 =
     [0xA9, 0x02, 0x72, 0x07, 0xE8, 0x80, 0x74, 0xF4, 0xAF, 0xA3, 0xD4, 0x4D, 0x45, 0x90, 0xDD, 0x04,
      0xBA, 0xFB, 0xF6, 0xAE, 0x3D, 0x32, 0x10, 0x91, 0xF5, 0x00, 0xC7, 0x83, 0xF4, 0x70, 0x79, 0x40,
      0xB7, 0xF5, 0xEB, 0xDD, 0x93, 0x32, 0x5C, 0x53, 0x91, 0x84, 0x3F, 0x9A, 0x78, 0x52, 0x6B, 0xB1]"
| "ed_BASE_Y E512 =
     [0x05, 0x3A, 0x0D, 0x50, 0xCC, 0x63, 0xC9, 0x21, 0x97, 0x62, 0xF4, 0x51, 0x97, 0x8A, 0xEF, 0x21,
      0x4D, 0xBC, 0xFC, 0xC3, 0xA5, 0xCB, 0x5E, 0xF2, 0x71, 0x24, 0x99, 0x1A, 0x86, 0xB4, 0x2B, 0x3A,
      0x1A, 0x83, 0x27, 0x24, 0xA0, 0xE6, 0xB9, 0x30, 0xFD, 0xD1, 0xDA, 0x2E, 0x27, 0xA5, 0x40, 0xD6,
      0xB6, 0x75, 0xE4, 0x42, 0x2C, 0x44, 0x4F, 0x52, 0x9C, 0x50, 0x8F, 0x0B, 0xAE, 0x7D, 0x0A, 0x85]"

fun ed_ORDER_N :: "dstu9041_size \<Rightarrow> bytes" where
  "ed_ORDER_N E256 =
     [0x40, 0x00, 0x00, 0x00, 0x00, 0x00, 0x00, 0x00, 0x00, 0x00, 0x00, 0x00, 0x00, 0x00, 0x00, 0x00,
      0x29, 0xE2, 0x60, 0x87, 0x78, 0x9B, 0xC2, 0x81, 0x5B, 0xDF, 0xF9, 0x70, 0x93, 0x54, 0x3C, 0xCF]"
| "ed_ORDER_N E384 =
     [0x40, 0x00, 0x00, 0x00, 0x00, 0x00, 0x00, 0x00, 0x00, 0x00, 0x00, 0x00, 0x00, 0x00, 0x00, 0x00,
      0x00, 0x00, 0x00, 0x00, 0x00, 0x00, 0x00, 0x00, 0x0A, 0xF9, 0x05, 0xB7, 0x36, 0x74, 0xAC, 0x7D,
      0x4A, 0xF3, 0x8C, 0x53, 0x33, 0x1D, 0xC2, 0x08, 0xA5, 0x17, 0xDC, 0xB3, 0xF3, 0x40, 0xEE, 0xCF]"
| "ed_ORDER_N E512 =
     [0x40, 0x00, 0x00, 0x00, 0x00, 0x00, 0x00, 0x00, 0x00, 0x00, 0x00, 0x00, 0x00, 0x00, 0x00, 0x00,
      0x00, 0x00, 0x00, 0x00, 0x00, 0x00, 0x00, 0x00, 0x00, 0x00, 0x00, 0x00, 0x00, 0x00, 0x00, 0x00,
      0x28, 0xA3, 0xCE, 0x52, 0x20, 0x9E, 0x2B, 0xD4, 0x95, 0x28, 0x82, 0xD5, 0x57, 0x41, 0x65, 0x19,
      0x2C, 0x46, 0xC0, 0xD0, 0x31, 0x1F, 0xEA, 0x6B, 0xF9, 0xFE, 0xCE, 0x70, 0xEE, 0x63, 0xB5, 0x9F]"

fun ed_A_DIV_D :: "dstu9041_size \<Rightarrow> bytes" where
  "ed_A_DIV_D E256 =
     [0xEA, 0xAA, 0xAA, 0xAA, 0xAA, 0xAA, 0xAA, 0xAA, 0xAA, 0xAA, 0xAA, 0xAA, 0xAA, 0xAA, 0xAA, 0xAA,
      0xAA, 0xAA, 0xAA, 0xAA, 0xAA, 0xAA, 0xAA, 0xAA, 0xAA, 0xAA, 0xAA, 0xAA, 0xAA, 0xAA, 0xA9, 0x1C]"
| "ed_A_DIV_D E384 =
     [0x3E, 0x8E, 0x6F, 0xA3, 0x9B, 0xE8, 0xE6, 0xFA, 0x39, 0xBE, 0x8E, 0x6F, 0xA3, 0x9B, 0xE8, 0xE6,
      0xFA, 0x39, 0xBE, 0x8E, 0x6F, 0xA3, 0x9B, 0xE8, 0xE6, 0xFA, 0x39, 0xBE, 0x8E, 0x6F, 0xA3, 0x9B,
      0xE8, 0xE6, 0xFA, 0x39, 0xBE, 0x8E, 0x6F, 0xA3, 0x9B, 0xE8, 0xE6, 0xFA, 0x39, 0xBE, 0x8C, 0x63]"
| "ed_A_DIV_D E512 =
     [0x4C, 0x22, 0x42, 0x9D, 0xFA, 0x4A, 0x3B, 0x00, 0xF3, 0xA0, 0xD5, 0x2C, 0xBA, 0x87, 0x23, 0x36,
      0x3E, 0xCF, 0x76, 0xF5, 0x88, 0x16, 0xD7, 0x13, 0xFC, 0x31, 0x7C, 0xAB, 0x4D, 0x15, 0xE3, 0x73,
      0x27, 0x04, 0xC2, 0x24, 0x29, 0xDF, 0xA4, 0xA3, 0xB0, 0x0F, 0x3A, 0x0D, 0x52, 0xCB, 0xA8, 0x72,
      0x33, 0x63, 0xEC, 0xF7, 0x6F, 0x58, 0x81, 0x6D, 0x71, 0x3F, 0xC3, 0x17, 0xCA, 0xB4, 0xD0, 0x5A]"

declare ed_BASE_X.simps [simp del] ed_BASE_Y.simps [simp del] ed_ORDER_N.simps [simp del] ed_A_DIV_D.simps [simp del]

definition ed_a :: "dstu9041_size \<Rightarrow> u64 list" where
  "ed_a c = fp_from_be_bytes c ((replicate (fp_bytes c) 0)[fp_bytes c - 1 := 2])"

fun ed_d_bytes :: "dstu9041_size \<Rightarrow> bytes" where
  "ed_d_bytes E256 = (replicate 32 0)[31 := 0x18]"
| "ed_d_bytes E384 = (replicate 48 0)[46 := 0x02, 47 := 0x14]"
| "ed_d_bytes E512 = (replicate 64 0)[62 := 0x01, 63 := 0x0D]"

definition ed_d :: "dstu9041_size \<Rightarrow> u64 list" where
  "ed_d c = fp_from_be_bytes c (ed_d_bytes c)"

record edwards_point =
  ed_x :: "u64 list"
  ed_y :: "u64 list"

definition ed_NEUTRAL :: "dstu9041_size \<Rightarrow> edwards_point" where
  "ed_NEUTRAL c = \<lparr>ed_x = fp_ONE c, ed_y = fp_ZERO c\<rparr>"

definition ed_is_on_curve :: "dstu9041_size \<Rightarrow> edwards_point \<Rightarrow> bool" where
  "ed_is_on_curve c self =
     (let x2 = fp_square c (ed_x self);
          y2 = fp_square c (ed_y self);
          lhs = fp_add c x2 (fp_multiply c (ed_a c) y2);
          rhs = fp_add c (fp_multiply c (fp_multiply c (ed_d c) x2) y2) (fp_ONE c)
      in lhs = rhs)"

record edwards_projective =
  pr_x :: "u64 list"
  pr_y :: "u64 list"
  pr_z :: "u64 list"

definition ed_from_affine :: "dstu9041_size \<Rightarrow> edwards_point \<Rightarrow> edwards_projective" where
  "ed_from_affine c p = \<lparr>pr_x = ed_x p, pr_y = ed_y p, pr_z = fp_ONE c\<rparr>"

definition ed_to_affine :: "dstu9041_size \<Rightarrow> edwards_projective \<Rightarrow> edwards_point" where
  "ed_to_affine c self =
     (let z_inv = fp_invert c (pr_z self)
      in \<lparr>ed_x = fp_multiply c (pr_x self) z_inv, ed_y = fp_multiply c (pr_y self) z_inv\<rparr>)"

definition ed_proj_add :: "dstu9041_size \<Rightarrow> edwards_projective \<Rightarrow> edwards_projective \<Rightarrow> edwards_projective" where
  "ed_proj_add cv self other =
     (let a = ed_a cv; d = ed_d cv;
          zz = fp_multiply cv (pr_z self) (pr_z other);
          b = fp_square cv zz;
          c = fp_multiply cv (pr_x self) (pr_x other);
          dd = fp_multiply cv (pr_y self) (pr_y other);
          e = fp_multiply cv (fp_multiply cv d c) dd;
          f = fp_sub cv b e;
          g = fp_add cv b e;
          x_sum = fp_add cv (pr_x self) (pr_y self);
          y_sum = fp_add cv (pr_x other) (pr_y other);
          cross = fp_multiply cv x_sum y_sum;
          x_r = fp_multiply cv (fp_multiply cv zz g) (fp_sub cv c (fp_multiply cv a dd));
          y_r = fp_multiply cv (fp_multiply cv zz f) (fp_sub cv (fp_sub cv cross c) dd);
          z_r = fp_multiply cv f g
      in \<lparr>pr_x = x_r, pr_y = y_r, pr_z = z_r\<rparr>)"

definition ed_select :: "u64 \<Rightarrow> edwards_projective \<Rightarrow> edwards_projective \<Rightarrow> edwards_projective" where
  "ed_select bit_val a b =
     \<lparr>pr_x = fp_select bit_val (pr_x a) (pr_x b), pr_y = fp_select bit_val (pr_y a) (pr_y b), pr_z = fp_select bit_val (pr_z a) (pr_z b)\<rparr>"

definition ed_add :: "dstu9041_size \<Rightarrow> edwards_point \<Rightarrow> edwards_point \<Rightarrow> edwards_point" where
  "ed_add c self other = ed_to_affine c (ed_proj_add c (ed_from_affine c self) (ed_from_affine c other))"

text \<open>One pass of the scalar multiplication, for bit \<open>bit_idx\<close> of \<open>byte\<close>.\<close>

definition ed_mul_bit :: "dstu9041_size \<Rightarrow> edwards_projective \<Rightarrow> u8 \<Rightarrow> nat \<Rightarrow> edwards_projective \<Rightarrow> edwards_projective" where
  "ed_mul_bit c base byte bit_idx acc =
     (let acc = ed_proj_add c acc acc;
          bit_val = ucast (drop_bit bit_idx byte AND 1);
          candidate = ed_proj_add c acc base
      in ed_select bit_val candidate acc)"

definition ed_scalar_multiply :: "dstu9041_size \<Rightarrow> edwards_point \<Rightarrow> bytes \<Rightarrow> edwards_point" where
  "ed_scalar_multiply c self scalar =
     (let base = ed_from_affine c self; acc = ed_from_affine c (ed_NEUTRAL c)
      in ed_to_affine c (fold (\<lambda>byte. fold (ed_mul_bit c base byte) (rev [0..<8])) scalar acc))"

definition base_point :: "dstu9041_size \<Rightarrow> edwards_point" where
  "base_point c = \<lparr>ed_x = fp_from_be_bytes c (ed_BASE_X c), ed_y = fp_from_be_bytes c (ed_BASE_Y c)\<rparr>"

definition ed_order :: "dstu9041_size \<Rightarrow> bytes" where
  "ed_order c = ed_ORDER_N c"

definition point_from_x :: "dstu9041_size \<Rightarrow> u64 list \<Rightarrow> edwards_point option" where
  "point_from_x c x =
     (let a = ed_a c; d = ed_d c;
          a_div_d = fp_from_be_bytes c (ed_A_DIV_D c);
          p_minus_1 = fp_sub c (fp_ZERO c) (fp_ONE c);
          x_squared = fp_square c x
      in if x = fp_ZERO c \<or> x = fp_ONE c \<or> x = p_minus_1 \<or> x_squared = a_div_d then None
         else
           let numerator = fp_sub c (fp_ONE c) x_squared;
               denominator = fp_sub c a (fp_multiply c d x_squared);
               v = fp_multiply c numerator (fp_invert c denominator)
           in if \<not> euler_criterion c v then None
              else
                let candidate = \<lparr>ed_x = x, ed_y = fp_sqrt c v\<rparr>
                in if ed_scalar_multiply c candidate (ed_order c) \<noteq> ed_NEUTRAL c then None else Some candidate)"

definition bytes_be_to_limbs :: "dstu9041_size \<Rightarrow> bytes \<Rightarrow> u64 list" where
  "bytes_be_to_limbs c bs = rev (map (\<lambda>i. from_le_bytes (rev (slice (i * 8) (i * 8 + 8) bs))) [0..<fp_limbs c])"

definition is_less_than :: "dstu9041_size \<Rightarrow> bytes \<Rightarrow> bytes \<Rightarrow> bool" where
  "is_less_than c a b =
     (let al = bytes_be_to_limbs c a; bl = bytes_be_to_limbs c b; (_, borrow) = sub_loop al bl 0
      in borrow = 1)"

definition is_valid_scalar :: "dstu9041_size \<Rightarrow> bytes \<Rightarrow> bool" where
  "is_valid_scalar c scalar =
     (let one = (replicate (fp_bytes c) 0)[fp_bytes c - 1 := 1];
          n_minus_1 = (ed_ORDER_N c)[fp_bytes c - 1 := ed_ORDER_N c ! (fp_bytes c - 1) - 1];
          scalar_gt_one = is_less_than c one scalar;
          scalar_lt_n_minus_1 = is_less_than c scalar n_minus_1
      in scalar_gt_one \<and> scalar_lt_n_minus_1)"

section \<open>Scalars\<close>

definition ed_n :: "dstu9041_size \<Rightarrow> nat" where
  "ed_n c = be_value (ed_ORDER_N c)"

lemma is_less_than_value:
  assumes "length a = fp_bytes c" "length b = fp_bytes c"
  shows "is_less_than c a b \<longleftrightarrow> be_value a < be_value b"
proof -
  have eq: "bytes_be_to_limbs c bs = fp_from_be_bytes c bs" for bs by (simp add: bytes_be_to_limbs_def fp_from_be_bytes_def)
  obtain d w where d: "sub_loop (fp_from_be_bytes c a) (fp_from_be_bytes c b) 0 = (d, w)" by fastforce
  show ?thesis using sub_loop_borrow(1) [OF _ d] fp_from_be_bytes_value [OF assms(1)] fp_from_be_bytes_value [OF assms(2)]
    by (simp add: is_less_than_def eq d)
qed

lemma be_value_one_byte: "be_value ((replicate n 0)[n - 1 := b]) = (if n = 0 then 0 else unat b)"
proof (cases n)
  case (Suc m)
  have "(replicate (Suc m) 0)[m := b] = replicate m (0 :: u8) @ [b]" by (simp add: replicate_append_same [symmetric] list_update_append)
  then show ?thesis using be_value_zeros [of m] by (simp add: Suc be_value_def)
qed (simp add: be_value_def)

lemma ed_order_facts: "length (ed_ORDER_N c) = fp_bytes c" "4 < ed_n c"
  "be_value ((ed_ORDER_N c)[fp_bytes c - 1 := ed_ORDER_N c ! (fp_bytes c - 1) - 1]) = ed_n c - 1"
  by (cases c; simp add: ed_n_def ed_ORDER_N.simps be_value_def)+

lemma is_valid_scalar_value:
  assumes "length e = fp_bytes c"
  shows "is_valid_scalar c e \<longleftrightarrow> 1 < be_value e \<and> be_value e < ed_n c - 1"
  using assms ed_order_facts(1,3) [of c] be_value_one_byte [of "fp_bytes c" 1]
  by (simp add: is_valid_scalar_def is_less_than_value Let_def)

section \<open>Points modulo p\<close>

abbreviation ip :: "dstu9041_size \<Rightarrow> int" where
  "ip c \<equiv> int (fp_p c)"

lemma fp_int_values:
  assumes "fp_ok c a" "fp_ok c b"
  shows "int (lv (fp_add c a b)) = (int (lv a) + int (lv b)) mod ip c"
    "int (lv (fp_sub c a b)) = (int (lv a) - int (lv b)) mod ip c"
    "int (lv (fp_multiply c a b)) = (int (lv a) * int (lv b)) mod ip c"
    "int (lv (fp_square c a)) = (int (lv a) * int (lv a)) mod ip c"
proof -
  have "int (lv a + fp_p c - lv b) = (int (lv a) - int (lv b)) + ip c" using assms by (simp add: fp_ok_def)
  then show "int (lv (fp_sub c a b)) = (int (lv a) - int (lv b)) mod ip c"
    unfolding fp_sub_value [OF assms] zmod_int by simp
qed (use assms in \<open>simp_all add: fp_ok_def fp_add_value [OF assms] fp_multiply_value fp_square_def zmod_int\<close>)

lemma ed_a_value: "fp_ok c (ed_a c)" "lv (ed_a c) = 2"
proof -
  have "be_value ((replicate (fp_bytes c) 0)[fp_bytes c - 1 := 2]) = 2" using be_value_one_byte [of "fp_bytes c" 2] by simp
  then show "lv (ed_a c) = 2" using fp_from_be_bytes_value(1) by (simp add: ed_a_def)
  then show "fp_ok c (ed_a c)" using fp_from_be_bytes_value(2) fp_p_bounds(1) [of c] by (simp add: fp_ok_def ed_a_def)
qed

lemma ed_d_bytes_split:
  "ed_d_bytes E256 = replicate 30 0 @ [0, 0x18]" "ed_d_bytes E384 = replicate 46 0 @ [0x02, 0x14]"
  "ed_d_bytes E512 = replicate 62 0 @ [0x01, 0x0D]"
  by code_simp+

lemma ed_d_value: "fp_ok c (ed_d c)" "lv (ed_d c) = (case c of E256 \<Rightarrow> 24 | E384 \<Rightarrow> 532 | E512 \<Rightarrow> 269)"
proof -
  have len: "length (ed_d_bytes c) = fp_bytes c" by (cases c) simp_all
  have "be_value (ed_d_bytes c) = (case c of E256 \<Rightarrow> 24 | E384 \<Rightarrow> 532 | E512 \<Rightarrow> 269)"
    by (cases c) (simp_all add: ed_d_bytes_split be_value_def be_value_zeros del: ed_d_bytes.simps)
  then show v: "lv (ed_d c) = (case c of E256 \<Rightarrow> 24 | E384 \<Rightarrow> 532 | E512 \<Rightarrow> 269)"
    using fp_from_be_bytes_value(1) [OF len] by (simp add: ed_d_def)
  have "fp_p c > 2 ^ 32" using fp_modulus [of c] fp_C_bounds [of c] fp_room [of c] by simp
  then show "fp_ok c (ed_d c)" using v fp_from_be_bytes_value(2) [OF len] by (cases c) (simp_all add: fp_ok_def ed_d_def)
qed

text \<open>The addition law of the standard on residues, and multiples by doubling and adding.\<close>

type_synonym residues = "int \<times> int \<times> int"

fun law :: "dstu9041_size \<Rightarrow> residues \<Rightarrow> residues \<Rightarrow> residues" where
  "law c (x1, y1, z1) (x2, y2, z2) =
     (let e = int (lv (ed_d c)) * x1 * x2 * y1 * y2; b = (z1 * z2)\<^sup>2
      in (z1 * z2 * (b + e) * (x1 * x2 - 2 * y1 * y2) mod ip c,
          z1 * z2 * (b - e) * (x1 * y2 + y1 * x2) mod ip c,
          (b - e) * (b + e) mod ip c))"

fun multiple :: "dstu9041_size \<Rightarrow> residues \<Rightarrow> nat \<Rightarrow> residues" where
  "multiple c q 0 = (1, 0, 1)"
| "multiple c q (Suc k) =
     (let half = multiple c q (Suc k div 2); twice = law c half half
      in if odd (Suc k) then law c twice q else twice)"

definition pr_ok :: "dstu9041_size \<Rightarrow> edwards_projective \<Rightarrow> bool" where
  "pr_ok c p \<longleftrightarrow> fp_ok c (pr_x p) \<and> fp_ok c (pr_y p) \<and> fp_ok c (pr_z p)"

definition ed_ok :: "dstu9041_size \<Rightarrow> edwards_point \<Rightarrow> bool" where
  "ed_ok c p \<longleftrightarrow> fp_ok c (ed_x p) \<and> fp_ok c (ed_y p)"

definition res :: "edwards_projective \<Rightarrow> residues" where
  "res p = (int (lv (pr_x p)), int (lv (pr_y p)), int (lv (pr_z p)))"

lemma proj_add_law:
  assumes "pr_ok c p" "pr_ok c q"
  shows "pr_ok c (ed_proj_add c p q)" "res (ed_proj_add c p q) = law c (res p) (res q)"
proof -
  note ok = assms [unfolded pr_ok_def] ed_a_value(1) [of c] ed_d_value(1) [of c]
  show "pr_ok c (ed_proj_add c p q)" using ok by (simp add: pr_ok_def ed_proj_add_def Let_def fp_ok_closed)
  show "res (ed_proj_add c p q) = law c (res p) (res q)"
    using ok unfolding res_def ed_proj_add_def Let_def
    by (simp add: fp_int_values fp_ok_closed ed_a_value(2) mod_simps) (simp add: power2_eq_square algebra_simps)
qed

section \<open>Scalar multiplication\<close>

lemma multiple_step:
  "multiple c q (2 * k + of_bool b) =
     (let twice = law c (multiple c q k) (multiple c q k) in if b then law c twice q else twice)"
proof (cases "2 * k + of_bool b")
  case 0
  then show ?thesis using fp_p_bounds(1) [of c] by simp
next
  case (Suc m)
  have "Suc m div 2 = k" "odd (Suc m) = b" unfolding Suc [symmetric] by simp_all
  then show ?thesis unfolding Suc multiple.simps by (simp add: Let_def)
qed

lemma ed_mul_bit_value:
  assumes "pr_ok c base" "pr_ok c acc"
  shows "pr_ok c (ed_mul_bit c base b i acc)"
    "res acc = multiple c (res base) k \<Longrightarrow> res (ed_mul_bit c base b i acc) = multiple c (res base) (2 * k + of_bool (bit b i))"
proof -
  have bit: "(ucast (drop_bit i b AND 1) :: u64) = (if bit b i then 1 else 0)"
    by (simp add: and_one_eq mod_2_eq_odd even_drop_bit_iff_not_bit)
  note twice = proj_add_law [OF assms(2,2)]
  note plus = proj_add_law [OF twice(1) assms(1)]
  have "ed_mul_bit c base b i acc =
      (if bit b i then ed_proj_add c (ed_proj_add c acc acc) base else ed_proj_add c acc acc)"
    using twice(1) plus(1) by (simp add: ed_mul_bit_def bit Let_def ed_select_def pr_ok_def fp_ok_def fp_select_choice)
  then show "pr_ok c (ed_mul_bit c base b i acc)"
    "res acc = multiple c (res base) k \<Longrightarrow> res (ed_mul_bit c base b i acc) = multiple c (res base) (2 * k + of_bool (bit b i))"
    using twice plus by (simp_all add: multiple_step Let_def)
qed

lemma ed_mul_bits_value:
  assumes "pr_ok c base"
  shows "pr_ok c acc \<Longrightarrow> res acc = multiple c (res base) k \<Longrightarrow>
    pr_ok c (fold (ed_mul_bit c base b) (rev [0..<m]) acc) \<and>
    res (fold (ed_mul_bit c base b) (rev [0..<m]) acc) = multiple c (res base) (2 ^ m * k + take_bit m (unat b))"
proof (induction m arbitrary: acc k)
  case (Suc m)
  note v = ed_mul_bit_value [OF assms Suc.prems(1), where b = b and i = m]
  have "take_bit (Suc m) (unat b) = take_bit m (unat b) + 2 ^ m * of_bool (bit b m)"
    by (simp add: take_bit_Suc_from_most bit_unsigned_iff)
  then have "2 ^ m * (2 * k + of_bool (bit b m)) + take_bit m (unat b) = 2 ^ Suc m * k + take_bit (Suc m) (unat b)"
    by (simp add: algebra_simps)
  then show ?case using Suc.IH [OF v(1) v(2) [OF Suc.prems(2)]] by simp
qed simp

lemma ed_mul_loop_value:
  assumes "pr_ok c base"
  shows "pr_ok c (fold (\<lambda>byte. fold (ed_mul_bit c base byte) (rev [0..<8])) s (ed_from_affine c (ed_NEUTRAL c))) \<and>
    res (fold (\<lambda>byte. fold (ed_mul_bit c base byte) (rev [0..<8])) s (ed_from_affine c (ed_NEUTRAL c))) = multiple c (res base) (be_value s)"
proof (induction s rule: rev_induct)
  case Nil
  show ?case by (simp add: pr_ok_def res_def ed_from_affine_def ed_NEUTRAL_def)
next
  case (snoc b s)
  have "take_bit 8 (unat b) = unat b" using unat_u8_less [of b] by (simp add: take_bit_nat_eq_self)
  then show ?case using ed_mul_bits_value [OF assms, of _ _ b 8] snoc.IH by simp
qed

text \<open>The affine point of residues: coordinates divided by the third, as \<open>to_affine\<close> does it.\<close>

fun affine :: "dstu9041_size \<Rightarrow> residues \<Rightarrow> int \<times> int" where
  "affine c (x, y, z) = (x * z ^ (fp_p c - 2) mod ip c, y * z ^ (fp_p c - 2) mod ip c)"

definition coords :: "edwards_point \<Rightarrow> int \<times> int" where
  "coords p = (int (lv (ed_x p)), int (lv (ed_y p)))"

lemma ed_to_affine_value:
  assumes "pr_ok c p"
  shows "ed_ok c (ed_to_affine c p)" "coords (ed_to_affine c p) = affine c (res p)"
proof -
  have inv: "fp_ok c (fp_invert c (pr_z p))" "lv (fp_invert c (pr_z p)) = lv (pr_z p) ^ (fp_p c - 2) mod fp_p c"
    using pow_mod_value assms by (simp_all add: fp_invert_def pr_ok_def fp_exponents)
  show "ed_ok c (ed_to_affine c p)" using inv(1) assms by (simp add: ed_to_affine_def ed_ok_def pr_ok_def Let_def fp_ok_closed)
  show "coords (ed_to_affine c p) = affine c (res p)"
    using inv assms by (simp add: coords_def ed_to_affine_def res_def Let_def pr_ok_def fp_int_values zmod_int mod_simps)
qed

lemma ed_from_affine_ok: "ed_ok c q \<Longrightarrow> pr_ok c (ed_from_affine c q)" "res (ed_from_affine c q) = (fst (coords q), snd (coords q), 1)"
  by (simp_all add: ed_ok_def pr_ok_def ed_from_affine_def res_def coords_def)

lemma coords_inject: "ed_ok c p \<Longrightarrow> ed_ok c q \<Longrightarrow> coords p = coords q \<longleftrightarrow> p = q"
  by (cases p; cases q) (auto simp: coords_def ed_ok_def fp_ok_def lv_inject)

lemma ed_scalar_multiply_value:
  assumes "ed_ok c q"
  shows "ed_ok c (ed_scalar_multiply c q s)"
    "coords (ed_scalar_multiply c q s) = affine c (multiple c (fst (coords q), snd (coords q), 1) (be_value s))"
  using ed_mul_loop_value [OF ed_from_affine_ok(1) [OF assms], of s] ed_to_affine_value
  by (simp_all add: ed_scalar_multiply_def ed_from_affine_ok(2))

lemma ed_add_value:
  assumes "ed_ok c p" "ed_ok c q"
  shows "ed_ok c (ed_add c p q)"
    "coords (ed_add c p q) = affine c (law c (fst (coords p), snd (coords p), 1) (fst (coords q), snd (coords q), 1))"
  using proj_add_law [OF ed_from_affine_ok(1) [OF assms(1)] ed_from_affine_ok(1) [OF assms(2)]] ed_to_affine_value
  by (simp_all add: ed_add_def ed_from_affine_ok(2))

lemma ed_is_on_curve_value:
  assumes "ed_ok c q" "coords q = (x, y)"
  shows "ed_is_on_curve c q \<longleftrightarrow> (x\<^sup>2 + 2 * y\<^sup>2) mod ip c = (1 + int (lv (ed_d c)) * x\<^sup>2 * y\<^sup>2) mod ip c"
proof -
  note ok = assms(1) [unfolded ed_ok_def] ed_a_value(1) [of c] ed_d_value(1) [of c]
  let ?x2 = "fp_square c (ed_x q)" let ?y2 = "fp_square c (ed_y q)"
  let ?l = "fp_add c ?x2 (fp_multiply c (ed_a c) ?y2)"
  let ?r = "fp_add c (fp_multiply c (fp_multiply c (ed_d c) ?x2) ?y2) (fp_ONE c)"
  have "ed_is_on_curve c q \<longleftrightarrow> int (lv ?l) = int (lv ?r)"
    using fp_eq_iff [of c ?l ?r] ok by (simp add: ed_is_on_curve_def Let_def fp_ok_closed)
  also have "int (lv ?l) = (x\<^sup>2 + 2 * y\<^sup>2) mod ip c"
    using ok assms(2) by (simp add: coords_def fp_int_values fp_ok_closed ed_a_value(2) mod_simps power2_eq_square)
  also have "int (lv ?r) = (1 + int (lv (ed_d c)) * x\<^sup>2 * y\<^sup>2) mod ip c"
    using ok assms(2) by (simp add: coords_def fp_int_values fp_ok_closed mod_simps power2_eq_square add.commute mult.assoc)
  finally show ?thesis .
qed

text \<open>A sum or multiple whose third coordinate vanishes comes out as \<open>(0, 0)\<close>, which is off the curve.\<close>

lemma exceptional_off_curve:
  assumes "pr_ok c p" "lv (pr_z p) = 0"
  shows "coords (ed_to_affine c p) = (0, 0)" "\<not> ed_is_on_curve c (ed_to_affine c p)"
proof -
  have pz: "(0 :: int) ^ (fp_p c - 2) = 0" using fp_p_bounds(1) [of c] by (intro zero_power) simp
  show z: "coords (ed_to_affine c p) = (0, 0)"
    using ed_to_affine_value(2) [OF assms(1)] by (simp add: res_def assms(2) pz)
  show "\<not> ed_is_on_curve c (ed_to_affine c p)"
    using ed_is_on_curve_value [OF ed_to_affine_value(1) [OF assms(1)] z] fp_p_bounds(1) [of c] by simp
qed

section \<open>Properties\<close>

text \<open>C25. The constant-time scalar multiplication is multiplication by the scalar's value: the masked loop over
  every bit computes the multiple that plain doubling and adding with the standard's addition law gives
  modulo \<open>p\<close>, so that leading zero bits do not matter and no bit is mixed up; the result is reduced, and
  \<open>add\<close> is one application of the law.\<close>

theorem edwards_multiply_is_double_and_add:
  assumes "ed_ok c p" "ed_ok c q"
  shows "ed_ok c (ed_scalar_multiply c q s) \<and>
    coords (ed_scalar_multiply c q s) = affine c (multiple c (fst (coords q), snd (coords q), 1) (be_value s)) \<and>
    ed_ok c (ed_add c p q) \<and>
    coords (ed_add c p q) = affine c (law c (fst (coords p), snd (coords p), 1) (fst (coords q), snd (coords q), 1))"
  using ed_scalar_multiply_value [OF assms(2)] ed_add_value [OF assms] by blast

theorem edwards_multiply_is_double_and_add_witness:
  "coords (ed_scalar_multiply E512 (ed_NEUTRAL E512) [0, 3]) = affine E512 (multiple E512 (1, 0, 1) 3)"
proof -
  have "ed_ok E512 (ed_NEUTRAL E512)" by (simp add: ed_ok_def ed_NEUTRAL_def)
  from edwards_multiply_is_double_and_add [OF this this, of "[0, 3]"] show ?thesis
    by (simp add: coords_def ed_NEUTRAL_def be_value_def del: multiple.simps)
qed

text \<open>\<open>is_valid_scalar\<close> accepts exactly the scalars strictly between one and \<open>n - 1\<close>, for byte strings of
  the field's width: the borrow chains are the comparisons of the numbers.\<close>

theorem valid_scalars_exact:
  assumes "length e = fp_bytes c"
  shows "is_valid_scalar c e \<longleftrightarrow> 1 < be_value e \<and> be_value e < be_value (ed_order c) - 1"
  using is_valid_scalar_value [OF assms] by (simp add: ed_order_def ed_n_def)

theorem valid_scalars_exact_witness: "\<not> is_valid_scalar E384 (replicate 48 0)"
  using valid_scalars_exact [of "replicate 48 0" E384] by (simp add: be_value_def be_value_zeros)

end
