(* ===== verification/Dstu9041_Encryption.thy ===== *)
theory Dstu9041_Encryption
  imports Dstu9041_Curve Kalyna_Kw_P Kupyna_Kmac
begin

text \<open>
  \<open>crates/dstu-core/src/hazmat/dstu9041/message.rs\<close>, \<open>message384.rs\<close>, \<open>message512.rs\<close> and \<open>encryption.rs\<close>,
  \<open>encryption384.rs\<close>, \<open>encryption512.rs\<close>: the formatted message with its length and truncated hash, and the
  encapsulation of it under the abscissa of a shared point. Decryption is characterised exactly.
\<close>

section \<open>Message formatting\<close>

fun L_MAX_P :: "dstu9041_size \<Rightarrow> nat" where
  "L_MAX_P E256 = 200" | "L_MAX_P E384 = 296" | "L_MAX_P E512 = 424"

definition M_TILDE_BYTES :: "dstu9041_size \<Rightarrow> nat" where
  "M_TILDE_BYTES c = L_MAX_P c div 8"

fun L_H_BYTES :: "dstu9041_size \<Rightarrow> nat" where
  "L_H_BYTES E256 = 4" | "L_H_BYTES E384 = 8" | "L_H_BYTES E512 = 8"

definition M_PRIME_BYTES :: "dstu9041_size \<Rightarrow> nat" where
  "M_PRIME_BYTES c = 1 + L_H_BYTES c + 2 + M_TILDE_BYTES c"

datatype message_error = ZeroLength | MessageTooLong | LengthMismatch | HashMismatch | PaddingNotZero

record kem_message =
  msg_hash_id :: u8
  msg_bit_length :: nat
  msg_m_tilde :: bytes

definition format_m_tilde :: "dstu9041_size \<Rightarrow> bytes \<Rightarrow> nat \<Rightarrow> message_error + bytes" where
  "format_m_tilde c message message_bits =
     (if message_bits = 0 then Inl ZeroLength
      else if message_bits > L_MAX_P c then Inl MessageTooLong
      else let message_bytes = (message_bits + 7) div 8
           in if length message \<noteq> message_bytes then Inl LengthMismatch
              else Inr (write_at (replicate (M_TILDE_BYTES c) 0) (M_TILDE_BYTES c - message_bytes) message))"

definition encode_l_m_tilde :: "nat \<Rightarrow> bytes" where
  "encode_l_m_tilde message_bits = rev (to_le_bytes 2 (of_nat message_bits :: 16 word))"

definition build_m_prime :: "dstu9041_size \<Rightarrow> u8 \<Rightarrow> bytes \<Rightarrow> bytes \<Rightarrow> bytes option" where
  "build_m_prime c hash_id m_tilde l_m_tilde =
     (let hashed_input = l_m_tilde @ m_tilde
      in case kupyna_digest Kupyna256 hashed_input of
           None \<Rightarrow> None
         | Some digest \<Rightarrow> Some (hash_id # drop (length digest - L_H_BYTES c) digest @ l_m_tilde @ m_tilde))"

definition kw_plaintext_from_m_prime :: "dstu9041_size \<Rightarrow> bytes \<Rightarrow> bytes" where
  "kw_plaintext_from_m_prime c m_prime = m_prime @ replicate (M_PRIME_BYTES c) 0"

definition parse_m_prime :: "dstu9041_size \<Rightarrow> bytes \<Rightarrow> (message_error + kem_message) option" where
  "parse_m_prime c m_prime =
     (let hash_id = m_prime ! 0;
          embedded_hash = slice 1 (1 + L_H_BYTES c) m_prime;
          l_m_tilde = slice (1 + L_H_BYTES c) (3 + L_H_BYTES c) m_prime;
          m_tilde = drop (3 + L_H_BYTES c) m_prime;
          bit_length = unat (from_le_bytes (rev l_m_tilde) :: 16 word)
      in if bit_length = 0 then Some (Inl ZeroLength)
         else if bit_length > L_MAX_P c then Some (Inl MessageTooLong)
         else case kupyna_digest Kupyna256 (l_m_tilde @ m_tilde) of
             None \<Rightarrow> None
           | Some digest \<Rightarrow>
               if drop (length digest - L_H_BYTES c) digest \<noteq> embedded_hash then Some (Inl HashMismatch)
               else let message_bytes = (bit_length + 7) div 8;
                        padding_len = M_TILDE_BYTES c - message_bytes;
                        bad_padding = fold (\<lambda>(i, byte) bad.
                            bad OR ((if i < padding_len then 1 else 0) AND (if byte \<noteq> 0 then 1 else 0)))
                          (enumerate 0 m_tilde) (0 :: u8)
                    in if bad_padding \<noteq> 0 then Some (Inl PaddingNotZero)
                       else Some (Inr \<lparr>msg_hash_id = hash_id, msg_bit_length = bit_length, msg_m_tilde = m_tilde\<rparr>))"

section \<open>Encryption\<close>

definition HASH_ID_KUPYNA256 :: u8 where "HASH_ID_KUPYNA256 = 0x01"

datatype encrypt_error = InvalidMessage | InvalidEphemeralKey | InvalidPublicKey
datatype decrypt_error = InvalidCiphertext

definition is_usable_recipient :: "dstu9041_size \<Rightarrow> edwards_point \<Rightarrow> bool" where
  "is_usable_recipient c q =
     (let q2 = ed_add c q q;
          q4 = ed_add c q2 q2
      in ed_is_on_curve c q \<and> q4 \<noteq> ed_NEUTRAL c \<and> ed_is_on_curve c q4)"

definition kappa_from_x :: "bytes \<Rightarrow> bytes" where
  "kappa_from_x x = drop 16 x"

fun T_BYTES :: "dstu9041_size \<Rightarrow> nat" where
  "T_BYTES E256 = 96" | "T_BYTES E384 = 128" | "T_BYTES E512 = 192"

abbreviation CIPHERTEXT_BYTES :: "dstu9041_size \<Rightarrow> nat" where
  "CIPHERTEXT_BYTES c \<equiv> fp_bytes c + T_BYTES c"

text \<open>The key wrap of each size, under the abscissa of the shared point.\<close>

fun wrap_m_prime :: "dstu9041_size \<Rightarrow> bytes \<Rightarrow> bytes \<Rightarrow> (kw_error + bytes) option" where
  "wrap_m_prime E256 x m_prime = kw_wrap Kalyna256_256 x (kw_plaintext_from_m_prime E256 m_prime) 96"
| "wrap_m_prime E384 x m_prime = kw_p_wrap Kalyna256_256 (kappa_from_x x) m_prime 128"
| "wrap_m_prime E512 x m_prime = kw_wrap Kalyna512_512 x (kw_plaintext_from_m_prime E512 m_prime) 192"

definition kem_encrypt :: "dstu9041_size \<Rightarrow> bytes \<Rightarrow> nat \<Rightarrow> edwards_point \<Rightarrow> bytes \<Rightarrow> (encrypt_error + bytes) option" where
  "kem_encrypt c message message_bits q epsilon =
     (if \<not> is_valid_scalar c epsilon then Some (Inl InvalidEphemeralKey)
      else if \<not> is_usable_recipient c q then Some (Inl InvalidPublicKey)
      else case format_m_tilde c message message_bits of
          Inl _ \<Rightarrow> Some (Inl InvalidMessage)
        | Inr m_tilde \<Rightarrow> do {
            let l_m_tilde = encode_l_m_tilde message_bits;
            m_prime \<leftarrow> build_m_prime c HASH_ID_KUPYNA256 m_tilde l_m_tilde;
            let r_point = ed_scalar_multiply c (base_point c) epsilon;
            let r_bytes = fp_to_be_bytes c (ed_x r_point);
            let t_point = ed_scalar_multiply c q epsilon;
            t \<leftarrow> wrap_m_prime c (fp_to_be_bytes c (ed_x t_point)) m_prime;
            Some (case t of Inl _ \<Rightarrow> Inl InvalidMessage | Inr t \<Rightarrow> Inr (r_bytes @ t))
          })"

text \<open>The unwrapping of each size with its check of what the wrap appended.\<close>

definition appended_block_bad :: "bytes \<Rightarrow> u8" where
  "appended_block_bad bs = fold (\<lambda>byte bad. bad OR (if byte \<noteq> 0 then 1 else 0)) bs 0"

definition checked_block :: "nat \<Rightarrow> kw_error + bytes \<Rightarrow> bytes option" where
  "checked_block n r =
     (case r of Inl _ \<Rightarrow> None
      | Inr recovered \<Rightarrow> if appended_block_bad (drop n recovered) \<noteq> 0 then None else Some (take n recovered))"

fun unwrap_m_prime :: "dstu9041_size \<Rightarrow> bytes \<Rightarrow> bytes \<Rightarrow> bytes option option" where
  "unwrap_m_prime E256 x t = map_option (checked_block 32) (kw_unwrap Kalyna256_256 x t 64)"
| "unwrap_m_prime E384 x t =
     map_option (\<lambda>(len, recovered). case len of
         Inl _ \<Rightarrow> None
       | Inr len \<Rightarrow> if len \<noteq> M_PRIME_BYTES E384 then None else Some (take (M_PRIME_BYTES E384) recovered))
       (kw_p_unwrap Kalyna256_256 (kappa_from_x x) t (replicate (128 - 32) 0))"
| "unwrap_m_prime E512 x t = map_option (checked_block 64) (kw_unwrap Kalyna512_512 x t 128)"

definition kem_decrypt :: "dstu9041_size \<Rightarrow> bytes \<Rightarrow> bytes \<Rightarrow> (decrypt_error + bytes \<times> nat) option" where
  "kem_decrypt c ciphertext e =
     (if \<not> is_valid_scalar c e then Some (Inl InvalidCiphertext)
      else let r_bytes = take (fp_bytes c) ciphertext in
      case fp_from_candidate_bytes c r_bytes of
        None \<Rightarrow> Some (Inl InvalidCiphertext)
      | Some r_field \<Rightarrow>
          (case point_from_x c r_field of
             None \<Rightarrow> Some (Inl InvalidCiphertext)
           | Some r_prime \<Rightarrow> do {
               let t_prime = ed_scalar_multiply c r_prime e;
               recovered \<leftarrow> unwrap_m_prime c (fp_to_be_bytes c (ed_x t_prime)) (drop (fp_bytes c) ciphertext);
               case recovered of
                 None \<Rightarrow> Some (Inl InvalidCiphertext)
               | Some m_prime \<Rightarrow> do {
                   parsed \<leftarrow> parse_m_prime c m_prime;
                   Some (case parsed of Inl _ \<Rightarrow> Inl InvalidCiphertext | Inr p \<Rightarrow> Inr (msg_m_tilde p, msg_bit_length p))
                 }
             }))"

section \<open>Formatted messages\<close>

abbreviation pad_len :: "dstu9041_size \<Rightarrow> nat \<Rightarrow> nat" where
  "pad_len c l \<equiv> M_TILDE_BYTES c - (l + 7) div 8"

text \<open>What a ciphertext can carry: the padded message with its length in bits.\<close>

definition kem_plain :: "dstu9041_size \<Rightarrow> bytes \<Rightarrow> nat \<Rightarrow> bool" where
  "kem_plain c m l \<longleftrightarrow> 0 < l \<and> l \<le> L_MAX_P c \<and> length m = M_TILDE_BYTES c \<and> take (pad_len c l) m = replicate (pad_len c l) 0"

definition m_prime_of :: "dstu9041_size \<Rightarrow> u8 \<Rightarrow> bytes \<Rightarrow> nat \<Rightarrow> bytes" where
  "m_prime_of c h m l =
     h # drop (32 - L_H_BYTES c) (kupyna_hash Kupyna256 (encode_l_m_tilde l @ m)) @ encode_l_m_tilde l @ m"

lemma kem_dims: "0 < M_TILDE_BYTES c" "8 * M_TILDE_BYTES c = L_MAX_P c" "L_MAX_P c < 2 ^ 16" "L_H_BYTES c \<le> 32"
  "M_PRIME_BYTES c = fp_bytes c"
  by (cases c; simp add: M_TILDE_BYTES_def M_PRIME_BYTES_def)+

lemma length_encode [simp]: "length (encode_l_m_tilde l) = 2"
  by (simp add: encode_l_m_tilde_def)

lemma encode_decode:
  "l < 2 ^ 16 \<Longrightarrow> unat (from_le_bytes (rev (encode_l_m_tilde l)) :: 16 word) = l"
  "length bs = 2 \<Longrightarrow> encode_l_m_tilde (unat (from_le_bytes (rev bs) :: 16 word)) = bs"
  by (simp_all add: encode_l_m_tilde_def unat_of_nat)

lemma build_m_prime_eq: "build_m_prime c h m (encode_l_m_tilde l) = Some (m_prime_of c h m l)"
  by (simp add: build_m_prime_def kupyna_digest_hash m_prime_of_def Let_def)

lemma length_m_prime_of: "length m = M_TILDE_BYTES c \<Longrightarrow> length (m_prime_of c h m l) = M_PRIME_BYTES c"
  using kem_dims(4) [of c] by (simp add: m_prime_of_def M_PRIME_BYTES_def)

lemma bad_padding_iff:
  "fold (\<lambda>(i, byte) bad. bad OR ((if i < n then 1 else 0) AND (if byte \<noteq> 0 then 1 else 0))) (enumerate 0 m) (0 :: u8) = 0 \<longleftrightarrow>
   take n m = replicate (min n (length m)) (0 :: u8)"
proof (induction m rule: rev_induct)
  case (snoc b m)
  have "take n (m @ [b]) = replicate (min n (length (m @ [b]))) 0 \<longleftrightarrow>
      take n m = replicate (min n (length m)) 0 \<and> (length m < n \<longrightarrow> b = 0)"
  proof (cases "length m < n")
    case True
    then have "take n m = m" "min n (length m) = length m" "min n (length (m @ [b])) = Suc (length m)" "take n (m @ [b]) = m @ [b]" by simp_all
    moreover have "m @ [b] = replicate (Suc (length m)) 0 \<longleftrightarrow> m = replicate (length m) 0 \<and> b = 0"
      by (simp add: replicate_append_same [symmetric])
    ultimately show ?thesis using True by simp
  qed simp
  then show ?case using snoc by (auto simp: enumerate_snoc or_eq_0_iff)
qed simp

lemma four_fields:
  assumes "3 + n \<le> length mp"
  shows "mp ! 0 # slice 1 (1 + n) mp @ slice (1 + n) (3 + n) mp @ drop (3 + n) mp = mp"
proof (cases mp)
  case (Cons x xs)
  have "take 2 (drop n xs) @ drop (2 + n) xs = drop n xs" by (metis append_take_drop_id drop_drop)
  then show ?thesis by (simp add: Cons slice_def numeral_3_eq_3)
qed (use assms in simp)

lemma parse_m_prime_iff:
  assumes "length mp = M_PRIME_BYTES c"
  shows "parse_m_prime c mp \<noteq> None"
    "parse_m_prime c mp = Some (Inr p) \<longleftrightarrow>
      kem_plain c (msg_m_tilde p) (msg_bit_length p) \<and> mp = m_prime_of c (msg_hash_id p) (msg_m_tilde p) (msg_bit_length p)"
proof -
  let ?H = "L_H_BYTES c"
  define h eh lm m where "h = mp ! 0" and "eh = slice 1 (1 + ?H) mp" and "lm = slice (1 + ?H) (3 + ?H) mp" and "m = drop (3 + ?H) mp"
  define l where "l = unat (from_le_bytes (rev lm) :: 16 word)"
  have len: "length eh = ?H" "length lm = 2" "length m = M_TILDE_BYTES c"
    using assms by (simp_all add: eh_def lm_def m_def M_PRIME_BYTES_def)
  have split: "mp = h # eh @ lm @ m"
    using assms four_fields [of ?H mp] by (simp add: h_def eh_def lm_def m_def M_PRIME_BYTES_def)
  have enc: "encode_l_m_tilde l = lm" unfolding l_def using len(2) by (rule encode_decode(2))
  have ok: "parse_m_prime c mp = Some (if l = 0 then Inl ZeroLength else if l > L_MAX_P c then Inl MessageTooLong
      else if drop (32 - ?H) (kupyna_hash Kupyna256 (lm @ m)) \<noteq> eh then Inl HashMismatch
      else if take (pad_len c l) m \<noteq> replicate (pad_len c l) 0 then Inl PaddingNotZero
      else Inr \<lparr>msg_hash_id = h, msg_bit_length = l, msg_m_tilde = m\<rparr>)"
    unfolding parse_m_prime_def h_def [symmetric] eh_def [symmetric] lm_def [symmetric] m_def [symmetric] Let_def
    using bad_padding_iff [of "pad_len c l" m] len(3) by (simp add: l_def kupyna_digest_hash Let_def)
  then show "parse_m_prime c mp \<noteq> None" by simp
  have inj: "mp = m_prime_of c h' m' l' \<longleftrightarrow> h' = h \<and> m' = m \<and> l' = l \<and> drop (32 - ?H) (kupyna_hash Kupyna256 (lm @ m)) = eh"
    if "l' < 2 ^ 16" for h' m' l'
  proof
    assume mp: "mp = m_prime_of c h' m' l'"
    then have "encode_l_m_tilde l' = lm \<and> m' = m \<and> h' = h \<and> drop (32 - ?H) (kupyna_hash Kupyna256 (encode_l_m_tilde l' @ m')) = eh"
      using split kem_dims(4) [of c] len by (simp add: m_prime_of_def append_eq_append_conv)
    moreover from this have "l' = l" using encode_decode(1) [OF that] by (simp add: l_def)
    ultimately show "h' = h \<and> m' = m \<and> l' = l \<and> drop (32 - ?H) (kupyna_hash Kupyna256 (lm @ m)) = eh" by auto
  qed (use split enc in \<open>simp add: m_prime_of_def\<close>)
  have "parse_m_prime c mp = Some (Inr p) \<longleftrightarrow> kem_plain c m l \<and> drop (32 - ?H) (kupyna_hash Kupyna256 (lm @ m)) = eh \<and>
      p = \<lparr>msg_hash_id = h, msg_bit_length = l, msg_m_tilde = m\<rparr>"
    using len(3) by (auto simp: ok kem_plain_def)
  also have "\<dots> \<longleftrightarrow> kem_plain c (msg_m_tilde p) (msg_bit_length p) \<and> mp = m_prime_of c (msg_hash_id p) (msg_m_tilde p) (msg_bit_length p)"
    using inj [of "msg_bit_length p" "msg_hash_id p" "msg_m_tilde p"] kem_dims(3) [of c]
    by (cases p) (auto simp: kem_plain_def)
  finally show "parse_m_prime c mp = Some (Inr p) \<longleftrightarrow>
      kem_plain c (msg_m_tilde p) (msg_bit_length p) \<and> mp = m_prime_of c (msg_hash_id p) (msg_m_tilde p) (msg_bit_length p)" .
qed

lemma format_m_tilde_ok:
  assumes "0 < l" "l \<le> L_MAX_P c" "length message = (l + 7) div 8"
  shows "format_m_tilde c message l = Inr (replicate (pad_len c l) 0 @ message)" "kem_plain c (replicate (pad_len c l) 0 @ message) l"
proof -
  have "(l + 7) div 8 \<le> M_TILDE_BYTES c" using assms(2) kem_dims(2) [of c] by simp
  then show "format_m_tilde c message l = Inr (replicate (pad_len c l) 0 @ message)"
    "kem_plain c (replicate (pad_len c l) 0 @ message) l"
    using assms by (simp_all add: format_m_tilde_def write_at_def kem_plain_def)
qed

section \<open>The key wraps\<close>

lemma appended_block_iff: "appended_block_bad bs = 0 \<longleftrightarrow> bs = replicate (length bs) 0"
proof -
  have "fold (\<lambda>byte bad. bad OR (if byte \<noteq> 0 then 1 else 0)) bs acc = (0 :: u8) \<longleftrightarrow> acc = 0 \<and> bs = replicate (length bs) (0 :: u8)" for acc
    by (induction bs arbitrary: acc) (auto simp: or_eq_0_iff)
  then show ?thesis by (simp add: appended_block_bad_def)
qed

lemma take_drop_iff: "n \<le> length xs \<Longrightarrow> take n xs = a \<and> drop n xs = b \<longleftrightarrow> length a = n \<and> xs = a @ b"
  by (metis append_eq_conv_conj length_take min.absorb2 append_take_drop_id)

lemma kw_block_exact:
  assumes "length x = key_bytes v" "key_bytes v = block_bytes v" "length t = 3 * block_bytes v" "length z = block_bytes v"
  shows "\<exists>r. kw_unwrap v x t (2 * block_bytes v) = Some r \<and>
    (checked_block (block_bytes v) r = Some m \<longleftrightarrow> length m = block_bytes v \<and> kw_wrap v x (m @ replicate (block_bytes v) 0) (3 * block_bytes v) = Some (Inr t))"
    "\<exists>t. length t = 3 * block_bytes v \<and> kw_wrap v x (z @ replicate (block_bytes v) 0) (3 * block_bytes v) = Some (Inr t)"
proof -
  let ?b = "block_bytes v"
  obtain ek where ek: "expanded_key_new v x = Some ek" "valid_expanded_key v ek" using expanded_key_new_total [OF assms(1)] by auto
  have pos: "0 < ?b" by (cases v) simp_all
  note ex = kw_exact [OF ek(2), of _ t]
  have len: "length pt = 2 * ?b" if "kw_unwrap_with_cipher v ek t (2 * ?b) = Inr pt" for pt
    using length_kw_wrapped [OF ek(2), of pt _ t] ex [of pt] that assms(3) by simp
  have wrapped: "kw_wrap_with_cipher v ek (m @ replicate ?b 0) (3 * ?b) = Inr t \<longleftrightarrow> kw_unwrap_with_cipher v ek t (2 * ?b) = Inr (m @ replicate ?b 0)"
    if "length m = ?b"
  proof -
    have "length (m @ replicate ?b 0) + ?b = 3 * ?b" "length t - ?b = 2 * ?b" using that assms(3) by simp_all
    then show ?thesis using ex [of "m @ replicate ?b 0"] by (simp only:)
  qed
  have "checked_block ?b (kw_unwrap_with_cipher v ek t (2 * ?b)) = Some m \<longleftrightarrow>
      length m = ?b \<and> kw_unwrap_with_cipher v ek t (2 * ?b) = Inr (m @ replicate ?b 0)"
  proof (cases "kw_unwrap_with_cipher v ek t (2 * ?b)")
    case (Inr pt)
    have "(take ?b pt = m \<and> drop ?b pt = replicate ?b 0) \<longleftrightarrow> length m = ?b \<and> pt = m @ replicate ?b 0"
      using len [OF Inr] by (intro take_drop_iff) simp
    then show ?thesis using len [OF Inr] by (auto simp: Inr checked_block_def appended_block_iff)
  qed (simp add: checked_block_def)
  then show "\<exists>r. kw_unwrap v x t (2 * ?b) = Some r \<and>
    (checked_block ?b r = Some m \<longleftrightarrow> length m = ?b \<and> kw_wrap v x (m @ replicate ?b 0) (3 * ?b) = Some (Inr t))"
    using wrapped by (auto simp: kw_unwrap_def kw_wrap_def ek(1))
  show "\<exists>t. length t = 3 * ?b \<and> kw_wrap v x (z @ replicate ?b 0) (3 * ?b) = Some (Inr t)"
    using kw_wrap_total [OF ek(2), of "z @ replicate ?b 0"] assms(4) pos
    by (auto simp: kw_wrap_def ek(1) MAX_R_def mult_2 [symmetric])
qed

lemma kw_p_block_exact:
  assumes "length x = 32" "length t = 128" "length z = 48"
  shows "\<exists>r out. kw_p_unwrap Kalyna256_256 x t (replicate 96 0) = Some (r, out) \<and>
    (r = Inr 48 \<and> take 48 out = m \<longleftrightarrow> length m = 48 \<and> kw_p_wrap Kalyna256_256 x m 128 = Some (Inr t))"
    "\<exists>t. length t = 128 \<and> kw_p_wrap Kalyna256_256 x z 128 = Some (Inr t)"
proof -
  let ?v = Kalyna256_256
  obtain ek where ek: "expanded_key_new ?v x = Some ek" "valid_expanded_key ?v ek" using expanded_key_new_total [of x ?v] assms(1) by auto
  have len: "length (replicate 96 0 :: bytes) = length t - block_bytes ?v" using assms(2) by simp
  let ?u = "kw_p_unwrap_with_cipher ?v ek t (replicate 96 0)"
  have "fst ?u = Inr 48 \<and> take 48 (snd ?u) = m \<longleftrightarrow> length m = 48 \<and> kw_p_wrap_with_cipher ?v ek m 128 = Inr t"
    using kw_p_unwrap_cases [OF ek(2) len] kw_p_unwrap_some [OF ek(2) _ len, of m] assms(2) by auto
  then show "\<exists>r out. kw_p_unwrap ?v x t (replicate 96 0) = Some (r, out) \<and>
    (r = Inr 48 \<and> take 48 out = m \<longleftrightarrow> length m = 48 \<and> kw_p_wrap ?v x m 128 = Some (Inr t))"
    by (intro exI [of _ "fst ?u"] exI [of _ "snd ?u"]) (simp add: kw_p_unwrap_def kw_p_wrap_def ek(1))
  have n: "kw_p_wrapped_len ?v (length z) = Some 128" using assms(3) by (simp add: kw_p_wrapped_len_def half_bytes_def MAX_R_def)
  note p = kw_p_wrap_padded(1) [OF n, of ek] kw_p_wrap_padded(2) [OF n]
  have "length (kw_p_padded (half_bytes ?v) z (128 - block_bytes ?v)) = 96" using p(2) by simp
  moreover from this have "kw_p_padded (half_bytes ?v) z (128 - block_bytes ?v) \<noteq> []" by (metis list.size(3) zero_neq_numeral)
  ultimately show "\<exists>t. length t = 128 \<and> kw_p_wrap ?v x z 128 = Some (Inr t)"
    using kw_wrap_total [OF ek(2), of "kw_p_padded (half_bytes ?v) z (128 - block_bytes ?v)"] p(1)
    by (auto simp: kw_p_wrap_def ek(1) MAX_R_def)
qed

lemma unwrap_exact:
  assumes "length x = fp_bytes c" "length t = T_BYTES c"
  shows "unwrap_m_prime c x t \<noteq> None"
    "unwrap_m_prime c x t = Some (Some m) \<longleftrightarrow> length m = M_PRIME_BYTES c \<and> wrap_m_prime c x m = Some (Inr t)"
proof -
  have "unwrap_m_prime c x t \<noteq> None \<and>
    (unwrap_m_prime c x t = Some (Some m) \<longleftrightarrow> length m = M_PRIME_BYTES c \<and> wrap_m_prime c x m = Some (Inr t))"
  proof (cases c)
    case E256
    then show ?thesis using kw_block_exact(1) [of x Kalyna256_256 t "replicate 32 0" m] assms
      by (auto simp: kw_plaintext_from_m_prime_def kem_dims)
  next
    case E384
    have "length (kappa_from_x x) = 32" "length t = 128" using E384 assms by (simp_all add: kappa_from_x_def)
    then obtain r out where "kw_p_unwrap Kalyna256_256 (kappa_from_x x) t (replicate 96 0) = Some (r, out)"
      "r = Inr 48 \<and> take 48 out = m \<longleftrightarrow> length m = 48 \<and> kw_p_wrap Kalyna256_256 (kappa_from_x x) m 128 = Some (Inr t)"
      using kw_p_block_exact(1) [of "kappa_from_x x" t "replicate 48 0" m] by auto
    then show ?thesis using E384 by (cases r) (simp_all add: kem_dims, blast)
  next
    case E512
    then show ?thesis using kw_block_exact(1) [of x Kalyna512_512 t "replicate 64 0" m] assms
      by (auto simp: kw_plaintext_from_m_prime_def kem_dims)
  qed
  then show "unwrap_m_prime c x t \<noteq> None"
    "unwrap_m_prime c x t = Some (Some m) \<longleftrightarrow> length m = M_PRIME_BYTES c \<and> wrap_m_prime c x m = Some (Inr t)" by blast+
qed

lemma wrap_total:
  assumes "length x = fp_bytes c" "length m = M_PRIME_BYTES c"
  obtains t where "length t = T_BYTES c" "wrap_m_prime c x m = Some (Inr t)"
proof -
  have "\<exists>t. length t = T_BYTES c \<and> wrap_m_prime c x m = Some (Inr t)"
  proof (cases c)
    case E256
    then show ?thesis using kw_block_exact(2) [of x Kalyna256_256 "replicate 96 0" m] assms
      by (auto simp: kw_plaintext_from_m_prime_def kem_dims)
  next
    case E384
    then show ?thesis using kw_p_block_exact(2) [of "kappa_from_x x" "replicate 128 0" m] assms
      by (auto simp: kem_dims kappa_from_x_def)
  next
    case E512
    then show ?thesis using kw_block_exact(2) [of x Kalyna512_512 "replicate 192 0" m] assms
      by (auto simp: kw_plaintext_from_m_prime_def kem_dims)
  qed
  then show thesis using that by blast
qed

section \<open>Decryption\<close>

lemma base_point_ok: "ed_ok c (base_point c)"
proof -
  have len: "length (ed_BASE_X c) = fp_bytes c" "length (ed_BASE_Y c) = fp_bytes c" by (cases c; simp add: ed_BASE_X.simps ed_BASE_Y.simps)+
  have "fp_p c = 2 ^ (64 * fp_limbs c) - unat (fp_C c)" using fp_modulus [of c] by simp
  then have "be_value (ed_BASE_X c) < fp_p c" "be_value (ed_BASE_Y c) < fp_p c"
    by (cases c; simp add: ed_BASE_X.simps ed_BASE_Y.simps be_value_def fp_C.simps)+
  then show ?thesis using len by (simp add: ed_ok_def base_point_def fp_ok_def fp_from_be_bytes_value)
qed

lemma point_from_x_ok:
  assumes "fp_ok c x" "point_from_x c x = Some q"
  shows "ed_ok c q" "ed_x q = x" "ed_scalar_multiply c q (ed_order c) = ed_NEUTRAL c" "x \<noteq> fp_ZERO c" "x \<noteq> fp_ONE c"
proof -
  let ?v = "fp_multiply c (fp_sub c (fp_ONE c) (fp_square c x))
    (fp_invert c (fp_sub c (ed_a c) (fp_multiply c (ed_d c) (fp_square c x))))"
  have q: "q = \<lparr>ed_x = x, ed_y = fp_sqrt c ?v\<rparr>" "x \<noteq> fp_ZERO c" "x \<noteq> fp_ONE c" "ed_scalar_multiply c q (ed_order c) = ed_NEUTRAL c"
    using assms(2) by (auto simp: point_from_x_def Let_def split: if_splits)
  have "fp_ok c (fp_invert c z)" if "fp_ok c z" for z using pow_mod_value [OF that] by (simp add: fp_invert_def)
  then have v: "fp_ok c ?v" using assms(1) ed_a_value(1) ed_d_value(1) by (intro fp_ok_closed) auto
  have "fp_ok c (fp_sqrt c a)" if a: "fp_ok c a" for a
  proof -
    note z = pow_mod_value [OF a, of "P_PLUS_3_OVER_8 c"]
    have "fp_ok c (fp_multiply c (fp_W c) (pow_mod c a (P_PLUS_3_OVER_8 c)))"
      using z W_square(2) fp_multiply_value [of "fp_W c" c] fp_p_bounds(1) [of c] by (auto simp: fp_ok_def)
    then show ?thesis using z fp_select_choice by (auto simp: fp_sqrt_def Let_def fp_ok_def)
  qed
  then show "ed_ok c q" using assms(1) v by (simp add: q(1) ed_ok_def)
  show "ed_x q = x" by (simp add: q(1))
qed (use assms(2) in \<open>auto simp: point_from_x_def Let_def split: if_splits\<close>)

lemma kem_decrypt_iff:
  assumes "length ct = CIPHERTEXT_BYTES c" "length e = fp_bytes c"
  shows "kem_decrypt c ct e = Some (Inr (m, l)) \<longleftrightarrow>
      is_valid_scalar c e \<and> kem_plain c m l \<and>
      (\<exists>r q h. fp_from_candidate_bytes c (take (fp_bytes c) ct) = Some r \<and> point_from_x c r = Some q \<and>
        wrap_m_prime c (fp_to_be_bytes c (ed_x (ed_scalar_multiply c q e))) (m_prime_of c h m l) = Some (Inr (drop (fp_bytes c) ct)))"
    "(\<exists>m l. kem_decrypt c ct e = Some (Inr (m, l))) \<or> kem_decrypt c ct e = Some (Inl InvalidCiphertext)"
proof -
  have "(kem_decrypt c ct e = Some (Inr (m, l)) \<longleftrightarrow>
      is_valid_scalar c e \<and> kem_plain c m l \<and>
      (\<exists>r q h. fp_from_candidate_bytes c (take (fp_bytes c) ct) = Some r \<and> point_from_x c r = Some q \<and>
        wrap_m_prime c (fp_to_be_bytes c (ed_x (ed_scalar_multiply c q e))) (m_prime_of c h m l) = Some (Inr (drop (fp_bytes c) ct)))) \<and>
    ((\<exists>m l. kem_decrypt c ct e = Some (Inr (m, l))) \<or> kem_decrypt c ct e = Some (Inl InvalidCiphertext))"
  proof (cases "is_valid_scalar c e \<and> (\<exists>r q. fp_from_candidate_bytes c (take (fp_bytes c) ct) = Some r \<and> point_from_x c r = Some q)")
    case False
    then show ?thesis by (auto simp: kem_decrypt_def split: option.splits)
  next
    case True
    then obtain r q where rq: "is_valid_scalar c e" "fp_from_candidate_bytes c (take (fp_bytes c) ct) = Some r" "point_from_x c r = Some q" by blast
    have "fp_ok c r" using rq(2) fp_candidate_cases [of "take (fp_bytes c) ct" c] fp_from_be_bytes_value [of "take (fp_bytes c) ct" c] assms(1)
      by (auto simp: fp_ok_def split: if_splits)
    then have "ed_ok c (ed_scalar_multiply c q e)" using point_from_x_ok(1) rq(3) ed_scalar_multiply_value(1) by blast
    then have x: "length (fp_to_be_bytes c (ed_x (ed_scalar_multiply c q e))) = fp_bytes c"
      using fp_to_be_bytes_laws(1) by (simp add: ed_ok_def fp_ok_def)
    have t: "length (drop (fp_bytes c) ct) = T_BYTES c" using assms(1) by simp
    note u = unwrap_exact [OF x t]
    obtain rec where rec: "unwrap_m_prime c (fp_to_be_bytes c (ed_x (ed_scalar_multiply c q e))) (drop (fp_bytes c) ct) = Some rec" using u(1) by blast
    show ?thesis
    proof (cases rec)
      case None
      then show ?thesis using rq rec u(2) length_m_prime_of [of m c _ l] by (auto simp: kem_decrypt_def kem_plain_def)
    next
      case (Some mp)
      then have mp: "length mp = M_PRIME_BYTES c" using u(2) [of mp] rec by simp
      obtain parsed where parsed: "parse_m_prime c mp = Some parsed" using parse_m_prime_iff(1) [OF mp] by blast
      have d: "kem_decrypt c ct e = Some (case parsed of Inl _ \<Rightarrow> Inl InvalidCiphertext | Inr p \<Rightarrow> Inr (msg_m_tilde p, msg_bit_length p))"
        using rq rec Some parsed by (simp add: kem_decrypt_def Let_def)
      have w: "wrap_m_prime c (fp_to_be_bytes c (ed_x (ed_scalar_multiply c q e))) (m_prime_of c h m l) = Some (Inr (drop (fp_bytes c) ct)) \<longleftrightarrow> mp = m_prime_of c h m l"
        if "kem_plain c m l" for h m l
        using u(2) [of "m_prime_of c h m l"] rec Some length_m_prime_of that by (auto simp: kem_plain_def)
      have "(\<exists>p. parsed = Inr p \<and> m = msg_m_tilde p \<and> l = msg_bit_length p) \<longleftrightarrow> kem_plain c m l \<and> (\<exists>h. mp = m_prime_of c h m l)"
        using parse_m_prime_iff(2) [OF mp, unfolded parsed] kem_message.select_convs by (metis option.inject)
      then show ?thesis using rq d w by (auto split: sum.splits)
    qed
  qed
  then show "kem_decrypt c ct e = Some (Inr (m, l)) \<longleftrightarrow>
      is_valid_scalar c e \<and> kem_plain c m l \<and>
      (\<exists>r q h. fp_from_candidate_bytes c (take (fp_bytes c) ct) = Some r \<and> point_from_x c r = Some q \<and>
        wrap_m_prime c (fp_to_be_bytes c (ed_x (ed_scalar_multiply c q e))) (m_prime_of c h m l) = Some (Inr (drop (fp_bytes c) ct)))"
    "(\<exists>m l. kem_decrypt c ct e = Some (Inr (m, l))) \<or> kem_decrypt c ct e = Some (Inl InvalidCiphertext)" by blast+
qed

section \<open>Properties\<close>

text \<open>Two checks of the standard's decryption that the code does not make: the identifier of the hash is read and
  ignored, Kupyna being used whatever it is, and of the padding only the whole bytes are compared with zero,
  not the unused bits of the byte that holds the first bits of the message.\<close>

theorem parse_ignores_hash_id_and_unused_bits:
  "\<exists>mp. build_m_prime E256 0x7F (replicate 24 0 @ [0xFF]) (encode_l_m_tilde 1) = Some mp \<and>
    parse_m_prime E256 mp = Some (Inr \<lparr>msg_hash_id = 0x7F, msg_bit_length = 1, msg_m_tilde = replicate 24 0 @ [0xFF]\<rparr>)"
proof -
  let ?m = "replicate 24 0 @ [0xFF] :: bytes" let ?mp = "m_prime_of E256 0x7F ?m 1"
  have p: "kem_plain E256 ?m 1" by (simp add: kem_plain_def M_TILDE_BYTES_def)
  then have "parse_m_prime E256 ?mp = Some (Inr \<lparr>msg_hash_id = 0x7F, msg_bit_length = 1, msg_m_tilde = ?m\<rparr>)"
    using parse_m_prime_iff(2) [of ?mp E256] length_m_prime_of [of ?m E256] p by (simp add: kem_plain_def)
  then show ?thesis using build_m_prime_eq [of E256 "0x7F" ?m 1] by blast
qed

text \<open>C17. What decryption accepts: at all three sizes \<open>decrypt\<close> returns a padded message and its length if and
  only if the private scalar is in range, the first part of the ciphertext is the abscissa of a point that
  \<open>point_from_x\<close> reconstructs, hence a point that the order maps to the neutral element, and the rest is the
  key wrap, under the abscissa of the scalar times that point, of an identifier byte, the hash, the length and
  the message behind zero bytes; everything else gives the one error, and no input makes it panic. The
  identifier may be any byte, and the unused bits of the first byte of the message may be set: the code checks
  neither, where clause 12 of the standard validates the one and requires the other to be zero.\<close>

theorem decrypt_exact:
  assumes "length ct = CIPHERTEXT_BYTES c" "length e = fp_bytes c"
  shows "(kem_decrypt c ct e = Some (Inr (m, l)) \<longleftrightarrow>
      is_valid_scalar c e \<and> 0 < l \<and> l \<le> L_MAX_P c \<and> length m = M_TILDE_BYTES c \<and> take (pad_len c l) m = replicate (pad_len c l) 0 \<and>
      (\<exists>r q h mp. fp_from_candidate_bytes c (take (fp_bytes c) ct) = Some r \<and> point_from_x c r = Some q \<and>
        ed_x q = r \<and> ed_scalar_multiply c q (ed_order c) = ed_NEUTRAL c \<and>
        build_m_prime c h m (encode_l_m_tilde l) = Some mp \<and>
        wrap_m_prime c (fp_to_be_bytes c (ed_x (ed_scalar_multiply c q e))) mp = Some (Inr (drop (fp_bytes c) ct)))) \<and>
    ((\<exists>m l. kem_decrypt c ct e = Some (Inr (m, l))) \<or> kem_decrypt c ct e = Some (Inl InvalidCiphertext))"
proof -
  have "ed_x q = r \<and> ed_scalar_multiply c q (ed_order c) = ed_NEUTRAL c"
    if "fp_from_candidate_bytes c (take (fp_bytes c) ct) = Some r" "point_from_x c r = Some q" for r q
  proof -
    have "fp_ok c r" using that(1) fp_candidate_cases [of "take (fp_bytes c) ct" c] fp_from_be_bytes_value [of "take (fp_bytes c) ct" c] assms(1)
      by (auto simp: fp_ok_def split: if_splits)
    then show ?thesis using point_from_x_ok(2,3) that(2) by blast
  qed
  then show ?thesis using kem_decrypt_iff [OF assms] by (simp add: kem_plain_def build_m_prime_eq) blast
qed

theorem decrypt_exact_witness:
  "kem_decrypt E256 (replicate 128 0) (replicate 32 0) = Some (Inl InvalidCiphertext)"
proof -
  have "\<not> is_valid_scalar E256 (replicate 32 0)"
    using is_valid_scalar_value [of "replicate 32 0" E256] by (simp add: be_value_def be_value_zeros)
  then show ?thesis using decrypt_exact [of "replicate 128 0" E256 "replicate 32 0"] by auto
qed

text \<open>C18. What is encrypted can be recovered: for a message of admissible length \<open>encrypt\<close> fails only for an
  ephemeral scalar out of range or an unusable public key, in this order; otherwise it returns the abscissa
  of the ephemeral scalar times the base point followed by a key wrap, and whoever has the abscissa of the
  shared point unwraps it and parses the message, its length and the hash identifier out of it.\<close>

theorem encrypt_recoverable:
  assumes "ed_ok c q" "0 < l" "l \<le> L_MAX_P c" "length message = (l + 7) div 8"
  shows "\<exists>t mp. length t = T_BYTES c \<and>
    kem_encrypt c message l q epsilon =
      (if \<not> is_valid_scalar c epsilon then Some (Inl InvalidEphemeralKey)
       else if \<not> is_usable_recipient c q then Some (Inl InvalidPublicKey)
       else Some (Inr (fp_to_be_bytes c (ed_x (ed_scalar_multiply c (base_point c) epsilon)) @ t))) \<and>
    unwrap_m_prime c (fp_to_be_bytes c (ed_x (ed_scalar_multiply c q epsilon))) t = Some (Some mp) \<and>
    parse_m_prime c mp = Some (Inr \<lparr>msg_hash_id = 0x01, msg_bit_length = l, msg_m_tilde = replicate (pad_len c l) 0 @ message\<rparr>)"
proof -
  let ?m = "replicate (pad_len c l) 0 @ message" let ?x = "fp_to_be_bytes c (ed_x (ed_scalar_multiply c q epsilon))"
  let ?mp = "m_prime_of c 0x01 ?m l"
  note f = format_m_tilde_ok [OF assms(2-4)]
  have mp: "length ?mp = M_PRIME_BYTES c" using length_m_prime_of f(2) by (simp add: kem_plain_def)
  have x: "length ?x = fp_bytes c"
    using fp_to_be_bytes_laws(1) ed_scalar_multiply_value(1) [OF assms(1)] by (simp add: ed_ok_def fp_ok_def)
  obtain t where t: "length t = T_BYTES c" "wrap_m_prime c ?x ?mp = Some (Inr t)" by (rule wrap_total [OF x mp])
  have "parse_m_prime c ?mp = Some (Inr \<lparr>msg_hash_id = 0x01, msg_bit_length = l, msg_m_tilde = ?m\<rparr>)"
    using parse_m_prime_iff(2) [OF mp] f(2) by simp
  moreover have "unwrap_m_prime c ?x t = Some (Some ?mp)" using unwrap_exact(2) [OF x t(1)] t(2) mp by simp
  moreover have "kem_encrypt c message l q epsilon =
      (if \<not> is_valid_scalar c epsilon then Some (Inl InvalidEphemeralKey)
       else if \<not> is_usable_recipient c q then Some (Inl InvalidPublicKey)
       else Some (Inr (fp_to_be_bytes c (ed_x (ed_scalar_multiply c (base_point c) epsilon)) @ t)))"
    using t(2) f(1) by (simp add: kem_encrypt_def build_m_prime_eq HASH_ID_KUPYNA256_def Let_def)
  ultimately show ?thesis using t(1) by blast
qed

theorem encrypt_recoverable_witness:
  "\<exists>t mp. length t = 128 \<and>
    unwrap_m_prime E384 (fp_to_be_bytes E384 (ed_x (ed_scalar_multiply E384 (base_point E384) (replicate 47 0 @ [3])))) t = Some (Some mp) \<and>
    parse_m_prime E384 mp = Some (Inr \<lparr>msg_hash_id = 0x01, msg_bit_length = 12, msg_m_tilde = replicate 35 0 @ [0x0A, 0xBC]\<rparr>)"
  using encrypt_recoverable [OF base_point_ok, of 12 E384 "[0x0A, 0xBC]" "replicate 47 0 @ [3]"]
  by (simp add: M_TILDE_BYTES_def) blast

end
