(* ===== verification/Crypto_Box.thy ===== *)
theory Crypto_Box
  imports Dstu9041_Encryption Secretstream_Runs
begin

text \<open>
  \<open>crates/dstu-core/src/crypto_box.rs\<close>, \<open>crypto_box384.rs\<close> and \<open>crypto_box512.rs\<close>: public-key encryption of a
  message of any length, a DSTU 9041 encapsulation of a random seed followed by a stream file under a key
  derived from the seed, the encapsulation and the recipient. The operating system's generator is the
  parameter \<open>fill\<close>: \<open>fill i\<close> answers the \<open>i\<close>-th request.
\<close>

section \<open>Definitions\<close>

fun SEED_LEN :: "dstu9041_size \<Rightarrow> nat" where
  "SEED_LEN E256 = L_MAX_P E256 div 8" | "SEED_LEN E384 = 32" | "SEED_LEN E512 = 32"

fun SEED_BITS :: "dstu9041_size \<Rightarrow> nat" where
  "SEED_BITS E256 = L_MAX_P E256" | "SEED_BITS E384 = SEED_LEN E384 * 8" | "SEED_BITS E512 = SEED_LEN E512 * 8"

abbreviation KEM_CIPHERTEXT_LEN :: "dstu9041_size \<Rightarrow> nat" where
  "KEM_CIPHERTEXT_LEN c \<equiv> CIPHERTEXT_BYTES c"

definition BOX_FORMAT_VERSION :: u8 where "BOX_FORMAT_VERSION = 3"

definition BOX_PREFIX_LEN :: "dstu9041_size \<Rightarrow> nat" where
  "BOX_PREFIX_LEN c = 1 + KEM_CIPHERTEXT_LEN c"

definition BOX_SEAL_STREAM_PREFIX_BYTES :: "dstu9041_size \<Rightarrow> nat" where
  "BOX_SEAL_STREAM_PREFIX_BYTES c = BOX_PREFIX_LEN c + FILE_PREFIX_BYTES"

definition MIN_SEALED_LEN :: "dstu9041_size \<Rightarrow> nat" where
  "MIN_SEALED_LEN c = BOX_SEAL_STREAM_PREFIX_BYTES c + RECORD_OVERHEAD_BYTES"

fun KDF_LABEL :: "dstu9041_size \<Rightarrow> bytes" where
  "KDF_LABEL E256 = [0x63, 0x72, 0x79, 0x70, 0x74, 0x62, 0x6F, 0x78]"
| "KDF_LABEL E384 = [0x63, 0x72, 0x79, 0x70, 0x74, 0x62, 0x78, 0x33]"
| "KDF_LABEL E512 = [0x63, 0x72, 0x79, 0x70, 0x74, 0x62, 0x78, 0x35]"

text \<open>The \<open>unreachable!\<close> arms are \<open>None\<close>, here and below.\<close>

definition box_stream_key :: "dstu9041_size \<Rightarrow> bytes \<Rightarrow> bytes \<Rightarrow> bytes \<Rightarrow> u8 \<Rightarrow> bytes option" where
  "box_stream_key c seed kem_ciphertext recipient version =
     (let message = KDF_LABEL c @ [version] @ kem_ciphertext @ recipient
      in case kmac_mac Kupyna256 seed message of Some (Inr derived) \<Rightarrow> Some derived | _ \<Rightarrow> None)"

datatype 'e box_seal_error = SealRandom "'e random_error"
datatype box_open_error = OpenTruncated | OpenUnsupportedVersion | OpenInvalidCiphertext

text \<open>The draw of a scalar, with the number of the next request.\<close>

partial_function (option) random_valid_scalar ::
  "dstu9041_size \<Rightarrow> (nat \<Rightarrow> nat \<Rightarrow> 'e + bytes) \<Rightarrow> nat \<Rightarrow> ('e random_error + bytes \<times> nat) option" where
  "random_valid_scalar c fill i =
     (case randombytes_buf (fill i) (replicate (fp_bytes c) 0) of
        Inl e \<Rightarrow> Some (Inl e)
      | Inr candidate \<Rightarrow>
          if is_valid_scalar c candidate then Some (Inr (candidate, Suc i)) else random_valid_scalar c fill (Suc i))"

fun embed_seed :: "dstu9041_size \<Rightarrow> bytes \<Rightarrow> bytes" where
  "embed_seed E256 seed = replicate (32 - SEED_LEN E256) 0 @ seed"
| "embed_seed E384 seed = seed"
| "embed_seed E512 seed = seed"

record box_secret_key =
  sk_e :: bytes
  sk_public :: edwards_point

definition from_valid_scalar :: "dstu9041_size \<Rightarrow> bytes \<Rightarrow> box_secret_key" where
  "from_valid_scalar c e = \<lparr>sk_e = e, sk_public = ed_scalar_multiply c (base_point c) e\<rparr>"

definition box_secret_from_bytes :: "dstu9041_size \<Rightarrow> bytes \<Rightarrow> box_secret_key option" where
  "box_secret_from_bytes c e = (if is_valid_scalar c e then Some (from_valid_scalar c e) else None)"

definition box_secret_generate ::
  "dstu9041_size \<Rightarrow> (nat \<Rightarrow> nat \<Rightarrow> 'e + bytes) \<Rightarrow> ('e random_error + box_secret_key) option" where
  "box_secret_generate c fill = map_option (map_sum id (\<lambda>(e, _). from_valid_scalar c e)) (random_valid_scalar c fill 0)"

definition box_public_from_bytes :: "dstu9041_size \<Rightarrow> bytes \<Rightarrow> edwards_point option" where
  "box_public_from_bytes c bs = Option.bind (fp_from_candidate_bytes c bs) (point_from_x c)"

definition box_public_to_bytes :: "dstu9041_size \<Rightarrow> edwards_point \<Rightarrow> bytes" where
  "box_public_to_bytes c self = fp_to_be_bytes c (ed_x self)"

definition encapsulate ::
  "dstu9041_size \<Rightarrow> (nat \<Rightarrow> nat \<Rightarrow> 'e + bytes) \<Rightarrow> edwards_point \<Rightarrow> u8 \<Rightarrow> ('e random_error + bytes \<times> bytes \<times> nat) option" where
  "encapsulate c fill recipient version =
     (case randombytes_buf (fill 0) (replicate (SEED_LEN c) 0) of
        Inl e \<Rightarrow> Some (Inl e)
      | Inr seed \<Rightarrow>
     (case random_valid_scalar c fill 1 of
        None \<Rightarrow> None
      | Some (Inl e) \<Rightarrow> Some (Inl e)
      | Some (Inr (epsilon, i)) \<Rightarrow>
     (case kem_encrypt c seed (SEED_BITS c) recipient epsilon of
        Some (Inr kem_ciphertext) \<Rightarrow> do {
          key \<leftarrow> box_stream_key c (embed_seed c seed) kem_ciphertext (box_public_to_bytes c recipient) version;
          Some (Inr (kem_ciphertext, key, i))
        }
      | _ \<Rightarrow> None)))"

fun seed_of_m_tilde :: "dstu9041_size \<Rightarrow> bytes \<Rightarrow> bytes" where
  "seed_of_m_tilde E256 m_tilde = embed_seed E256 m_tilde"
| "seed_of_m_tilde E384 m_tilde = drop (length m_tilde - SEED_LEN E384) m_tilde"
| "seed_of_m_tilde E512 m_tilde = drop (length m_tilde - SEED_LEN E512) m_tilde"

definition decapsulate :: "dstu9041_size \<Rightarrow> bytes \<Rightarrow> box_secret_key \<Rightarrow> u8 \<Rightarrow> (box_open_error + bytes) option" where
  "decapsulate c kem_ciphertext secret version =
     (case kem_decrypt c kem_ciphertext (sk_e secret) of
        None \<Rightarrow> None
      | Some (Inl _) \<Rightarrow> Some (Inl OpenInvalidCiphertext)
      | Some (Inr (m_tilde, bit_len)) \<Rightarrow>
          if bit_len \<noteq> SEED_BITS c then Some (Inl OpenInvalidCiphertext)
          else map_option Inr (box_stream_key c (seed_of_m_tilde c m_tilde) kem_ciphertext
                 (box_public_to_bytes c (sk_public secret)) version))"

definition box_seal_stream ::
  "dstu9041_size \<Rightarrow> (nat \<Rightarrow> nat \<Rightarrow> 'e + bytes) \<Rightarrow> edwards_point \<Rightarrow> ('e box_seal_error + file_encryptor \<times> bytes) option" where
  "box_seal_stream c fill recipient =
     (case encapsulate c fill recipient BOX_FORMAT_VERSION of
        None \<Rightarrow> None
      | Some (Inl e) \<Rightarrow> Some (Inl (SealRandom e))
      | Some (Inr (kem_ciphertext, key, i)) \<Rightarrow>
     (case file_encryptor_init (fill i) key of
        None \<Rightarrow> None
      | Some (Inl (file_error.Random e)) \<Rightarrow> Some (Inl (SealRandom e))
      | Some (Inl _) \<Rightarrow> None
      | Some (Inr (enc, file_prefix)) \<Rightarrow> Some (Inr (enc, [BOX_FORMAT_VERSION] @ kem_ciphertext @ file_prefix))))"

definition box_open_stream :: "dstu9041_size \<Rightarrow> bytes \<Rightarrow> box_secret_key \<Rightarrow> (box_open_error + file_decryptor) option" where
  "box_open_stream c prefix secret =
     (if prefix ! 0 \<noteq> BOX_FORMAT_VERSION then Some (Inl OpenUnsupportedVersion)
      else map_option (map_sum id file_decryptor_new) (decapsulate c (drop 1 prefix) secret BOX_FORMAT_VERSION))"

text \<open>\<open>checked_mul\<close> and \<open>checked_add\<close> of a 64-bit \<open>usize\<close>.\<close>

definition checked :: "nat \<Rightarrow> nat option" where
  "checked n = (if n < 2 ^ 64 then Some n else None)"

definition box_sealed_len :: "dstu9041_size \<Rightarrow> nat \<Rightarrow> nat option" where
  "box_sealed_len c message_len = do {
     let records = max ((message_len + CHUNK_BYTES - 1) div CHUNK_BYTES) 1;
     n \<leftarrow> checked (records * RECORD_OVERHEAD_BYTES);
     n \<leftarrow> checked (n + message_len);
     checked (n + BOX_SEAL_STREAM_PREFIX_BYTES c)
   }"

definition box_seal ::
  "dstu9041_size \<Rightarrow> clmul \<Rightarrow> (nat \<Rightarrow> nat \<Rightarrow> 'e + bytes) \<Rightarrow> bytes \<Rightarrow> edwards_point \<Rightarrow> ('e box_seal_error + bytes) option" where
  "box_seal c hw fill message recipient =
     (case box_seal_stream c fill recipient of
        None \<Rightarrow> None
      | Some (Inl e) \<Rightarrow> Some (Inl e)
      | Some (Inr (enc, prefix)) \<Rightarrow>
     (case seal_all hw enc message prefix :: (('e file_error + unit) \<times> file_encryptor \<times> bytes) option of
        Some (Inr _, _, out) \<Rightarrow> Some (Inr out)
      | _ \<Rightarrow> None))"

definition box_open ::
  "dstu9041_size \<Rightarrow> clmul \<Rightarrow> bytes \<Rightarrow> box_secret_key \<Rightarrow> (box_open_error + bytes) option" where
  "box_open c hw sealed secret =
     (if sealed = [] then Some (Inl OpenTruncated)
      else if sealed ! 0 \<noteq> BOX_FORMAT_VERSION then Some (Inl OpenUnsupportedVersion)
      else if length sealed < MIN_SEALED_LEN c then Some (Inl OpenTruncated)
      else let prefix = take (BOX_PREFIX_LEN c) sealed; file = drop (BOX_PREFIX_LEN c) sealed in
      case box_open_stream c prefix secret of
        None \<Rightarrow> None
      | Some (Inl e) \<Rightarrow> Some (Inl e)
      | Some (Inr dec) \<Rightarrow>
     (case open_all hw dec file :: ((unit file_error + bytes) \<times> file_decryptor) option of
        None \<Rightarrow> None
      | Some (Inl Truncated, _) \<Rightarrow> Some (Inl OpenTruncated)
      | Some (Inl _, _) \<Rightarrow> Some (Inl OpenInvalidCiphertext)
      | Some (Inr plaintext, _) \<Rightarrow> Some (Inr plaintext)))"

lemmas box_consts = BOX_FORMAT_VERSION_def BOX_PREFIX_LEN_def BOX_SEAL_STREAM_PREFIX_BYTES_def MIN_SEALED_LEN_def

section \<open>Keys and draws\<close>

lemma box_dims: "SEED_LEN c \<le> 32" "0 < SEED_BITS c" "SEED_BITS c \<le> L_MAX_P c" "(SEED_BITS c + 7) div 8 = SEED_LEN c"
  by (cases c; simp)+

lemma length_embed_seed: "length seed = SEED_LEN c \<Longrightarrow> length (embed_seed c seed) = 32"
  by (cases c) simp_all

lemma seed_of_padded: "length seed = SEED_LEN c \<Longrightarrow> seed_of_m_tilde c (replicate (pad_len c (SEED_BITS c)) 0 @ seed) = embed_seed c seed"
  by (cases c) (simp_all add: M_TILDE_BYTES_def)

lemma length_seed_of_m_tilde: "length m = M_TILDE_BYTES c \<Longrightarrow> length (seed_of_m_tilde c m) = 32"
  by (cases c) (simp_all add: M_TILDE_BYTES_def)

lemma box_stream_key_total:
  assumes "length seed = 32"
  obtains key where "box_stream_key c seed kem pk v = Some key" "length key = 32"
  using assms that by (simp add: box_stream_key_def kmac_mac_hash Let_def)

text \<open>The scalar is the first admissible answer of the generator.\<close>

lemma random_scalar_result:
  assumes "random_valid_scalar c fill i = Some (Inr (e, j))"
  shows "\<exists>k. j = Suc (i + k) \<and> fill (i + k) (fp_bytes c) = Inr e \<and> is_valid_scalar c e \<and>
    (\<forall>m < k. \<exists>bs. fill (i + m) (fp_bytes c) = Inr bs \<and> \<not> is_valid_scalar c bs)"
proof -
  let ?P = "\<lambda>c fill i res. \<forall>e j. res = Inr (e, j) \<longrightarrow> (\<exists>k. j = Suc (i + k) \<and> fill (i + k) (fp_bytes c) = Inr e \<and>
    is_valid_scalar c e \<and> (\<forall>m < k. \<exists>bs. fill (i + m) (fp_bytes c) = Inr bs \<and> \<not> is_valid_scalar c bs))"
  have "?P c fill i res" if "random_valid_scalar c fill i = Some res" for c fill i and res :: "'a random_error + bytes \<times> nat"
  proof (rule random_valid_scalar.raw_induct [OF _ that])
    fix f c i and fill :: "nat \<Rightarrow> nat \<Rightarrow> 'a + bytes" and res :: "'a random_error + bytes \<times> nat"
    assume IH: "\<And>c fill i res. f c fill i = Some res \<Longrightarrow> ?P c fill i res"
      and body: "(case randombytes_buf (fill i) (replicate (fp_bytes c) 0) of Inl e \<Rightarrow> Some (Inl e)
        | Inr candidate \<Rightarrow> if is_valid_scalar c candidate then Some (Inr (candidate, Suc i)) else f c fill (Suc i)) = Some res"
    show "?P c fill i res"
    proof (intro allI impI)
      fix e j assume res: "res = Inr (e, j)"
      then obtain x where x: "fill i (fp_bytes c) = Inr x" using body by (cases "fill i (fp_bytes c)") (auto simp: randombytes_buf_def)
      show "\<exists>k. j = Suc (i + k) \<and> fill (i + k) (fp_bytes c) = Inr e \<and> is_valid_scalar c e \<and>
        (\<forall>m < k. \<exists>bs. fill (i + m) (fp_bytes c) = Inr bs \<and> \<not> is_valid_scalar c bs)"
      proof (cases "is_valid_scalar c x")
        case True
        then show ?thesis using body res x by (intro exI [of _ 0]) (simp add: randombytes_buf_def)
      next
        case False
        then have "f c fill (Suc i) = Some res" using body x by (simp add: randombytes_buf_def)
        then obtain k where k: "j = Suc (Suc i + k)" "fill (Suc i + k) (fp_bytes c) = Inr e" "is_valid_scalar c e"
          "\<forall>m < k. \<exists>bs. fill (Suc i + m) (fp_bytes c) = Inr bs \<and> \<not> is_valid_scalar c bs" using IH res by blast
        have "\<exists>bs. fill (i + m) (fp_bytes c) = Inr bs \<and> \<not> is_valid_scalar c bs" if "m < Suc k" for m
          using that k(4) x False by (cases m) auto
        then show ?thesis using k(1-3) by (intro exI [of _ "Suc k"]) simp
      qed
    qed
  qed
  then show ?thesis using assms by blast
qed

lemma random_scalar_error:
  assumes "random_valid_scalar c fill i = Some (Inl e)"
  shows "\<exists>k n x. fill k n = Inl x \<and> e = RandomError x"
proof -
  have "\<forall>e. res = Inl e \<longrightarrow> (\<exists>k n x. fill k n = Inl x \<and> e = RandomError x)"
    if "random_valid_scalar c fill i = Some res" for c fill i and res :: "'a random_error + bytes \<times> nat"
  proof (rule random_valid_scalar.raw_induct [OF _ that])
    fix f c i and fill :: "nat \<Rightarrow> nat \<Rightarrow> 'a + bytes" and res :: "'a random_error + bytes \<times> nat"
    assume IH: "\<And>c fill i res. f c fill i = Some res \<Longrightarrow> \<forall>e. res = Inl e \<longrightarrow> (\<exists>k n x. fill k n = Inl x \<and> e = RandomError x)"
      and body: "(case randombytes_buf (fill i) (replicate (fp_bytes c) 0) of Inl e \<Rightarrow> Some (Inl e)
        | Inr candidate \<Rightarrow> if is_valid_scalar c candidate then Some (Inr (candidate, Suc i)) else f c fill (Suc i)) = Some res"
    show "\<forall>e. res = Inl e \<longrightarrow> (\<exists>k n x. fill k n = Inl x \<and> e = RandomError x)"
      using IH [of c fill "Suc i" res] body by (cases "fill i (fp_bytes c)") (auto simp: randombytes_buf_def split: if_splits)
  qed
  then show ?thesis using assms by blast
qed

text \<open>The draw runs forever only if every answer is refused.\<close>

lemma random_scalar_refused:
  assumes "random_valid_scalar c fill i = None"
  shows "\<exists>bs. randombytes_buf (fill (i + k)) (replicate (fp_bytes c) 0) = Inr bs \<and> \<not> is_valid_scalar c bs"
  using assms
proof (induction k arbitrary: i)
  case 0
  then show ?case by (subst (asm) random_valid_scalar.simps) (auto split: sum.splits if_splits)
next
  case (Suc k)
  then have "random_valid_scalar c fill (Suc i) = None"
    by (subst (asm) (2) random_valid_scalar.simps) (auto split: sum.splits if_splits)
  from Suc.IH [OF this] show ?case by simp
qed

section \<open>The length of a stream file\<close>

lemma records_length:
  assumes "\<forall>clm \<in> set_option hw. multiplies_carryless clm"
  shows "run_all (stream_recv hw) q cs = Some (ms, q') \<Longrightarrow> length (pull_subkey q) = 32 \<Longrightarrow>
    length (concat (map record_bytes cs)) = length (concat (map snd ms)) + 21 * length ms"
proof (induction cs arbitrary: q ms)
  case (Cons r cs)
  obtain b ct t where r: "r = (b, ct, t)" by (cases r)
  obtain tag pt q1 ms1 where m: "stream_recv hw q r = Some ((tag, pt), q1)" "run_all (stream_recv hw) q1 cs = Some (ms1, q')" "ms = (tag, pt) # ms1"
    using Cons.prems(1) by (auto split: Option.bind_splits)
  note p = stream_recv_parts [OF assms Cons.prems(2) m(1) [unfolded r]]
  show ?case using Cons.IH [OF m(2) p(5)] p(2,3) by (simp add: r m(3) length_record_bytes)
qed simp

lemma authentic_length:
  assumes "\<forall>clm \<in> set_option hw. multiplies_carryless clm" "length key = 32" "authentic hw key inp ms q"
  shows "length inp = 33 + length (concat (map snd ms)) + 21 * length ms"
proof -
  obtain header cs where h: "length header = 32" "inp = [2] @ header @ concat (map record_bytes cs)"
    "run_all (stream_recv hw) (the (pull_init key header)) cs = Some (ms, q)"
    using assms(3) unfolding authentic_def by blast
  have "length (pull_subkey (the (pull_init key header))) = 32" using h(1) assms(2) by (simp add: pull_init_def initial_subkey_total)
  from records_length [OF assms(1) h(3) this] show ?thesis using h(1,2) by simp
qed

lemma file_messages_records: "length (file_messages pt) = max ((length pt + 8191) div 8192) 1"
proof (induction pt rule: file_messages.induct)
  case (1 pt)
  show ?case
  proof (cases "8192 < length pt")
    case True
    then have "length pt + 8191 = (length pt - 8192 + 8191) + 8192" by simp
    then have "(length pt + 8191) div 8192 = Suc ((length pt - 8192 + 8191) div 8192)" by (simp only: div_add_self2)
    moreover have "8192 div 8192 \<le> (length pt - 8192 + 8191) div 8192" using True by (intro div_le_mono) simp
    ultimately show ?thesis using 1 True by (simp add: file_messages_long [of pt])
  next
    case False
    then have "(length pt + 8191) div 8192 \<le> 1" by simp
    then show ?thesis using False by (simp add: file_messages_short)
  qed
qed

lemma box_sealed_len_value:
  assumes "n < 2 ^ 63"
  shows "box_sealed_len c n = Some (max ((n + 8191) div 8192) 1 * 21 + n + BOX_SEAL_STREAM_PREFIX_BYTES c)"
proof -
  define r where "r = max ((n + 8191) div 8192) 1"
  have "(n + 8191) div 8192 \<le> 2 ^ 51" using assms by (simp add: div_le_mono less_imp_le)
  then have r: "r \<le> 2 ^ 51" by (simp add: r_def)
  have p: "BOX_SEAL_STREAM_PREFIX_BYTES c < 2 ^ 20" by (cases c) (simp_all add: box_consts)
  have e: "max ((n + CHUNK_BYTES - 1) div CHUNK_BYTES) 1 = r" "RECORD_OVERHEAD_BYTES = 21" by (simp_all add: r_def add.commute TAG_LEN_def)
  show ?thesis using r p assms unfolding box_sealed_len_def Let_def e r_def [symmetric] by (simp add: checked_def)
qed

section \<open>Opening\<close>

lemma decapsulate_iff:
  assumes "length kem = KEM_CIPHERTEXT_LEN c" "length (sk_e sk) = fp_bytes c"
  shows "decapsulate c kem sk v \<noteq> None"
    "decapsulate c kem sk v = Some (Inr key) \<longleftrightarrow>
      (\<exists>m. kem_decrypt c kem (sk_e sk) = Some (Inr (m, SEED_BITS c)) \<and>
        box_stream_key c (seed_of_m_tilde c m) kem (box_public_to_bytes c (sk_public sk)) v = Some key)"
    "decapsulate c kem sk v = Some (Inr key) \<Longrightarrow> length key = 32"
    "decapsulate c kem sk v = Some (Inl e) \<Longrightarrow> e = OpenInvalidCiphertext"
proof -
  note d = kem_decrypt_iff [OF assms]
  have total: "\<exists>key. box_stream_key c (seed_of_m_tilde c m) kem pk v = Some key \<and> length key = 32"
    if "kem_decrypt c kem (sk_e sk) = Some (Inr (m, l))" for m l pk
  proof -
    have "length (seed_of_m_tilde c m) = 32" using that d(1) length_seed_of_m_tilde by (simp add: kem_plain_def)
    then show ?thesis by (rule box_stream_key_total) blast
  qed
  consider (bad) "kem_decrypt c kem (sk_e sk) = Some (Inl InvalidCiphertext)"
    | (ok) m l where "kem_decrypt c kem (sk_e sk) = Some (Inr (m, l))" using d(2) by blast
  then have "decapsulate c kem sk v \<noteq> None \<and>
    (decapsulate c kem sk v = Some (Inr key) \<longleftrightarrow>
      (\<exists>m. kem_decrypt c kem (sk_e sk) = Some (Inr (m, SEED_BITS c)) \<and>
        box_stream_key c (seed_of_m_tilde c m) kem (box_public_to_bytes c (sk_public sk)) v = Some key)) \<and>
    (decapsulate c kem sk v = Some (Inr key) \<longrightarrow> length key = 32) \<and>
    (decapsulate c kem sk v = Some (Inl e) \<longrightarrow> e = OpenInvalidCiphertext)"
  proof cases
    case ok
    then show ?thesis using total [OF ok, of "box_public_to_bytes c (sk_public sk)"] by (auto simp: decapsulate_def)
  qed (simp add: decapsulate_def)
  then show "decapsulate c kem sk v \<noteq> None"
    "decapsulate c kem sk v = Some (Inr key) \<longleftrightarrow>
      (\<exists>m. kem_decrypt c kem (sk_e sk) = Some (Inr (m, SEED_BITS c)) \<and>
        box_stream_key c (seed_of_m_tilde c m) kem (box_public_to_bytes c (sk_public sk)) v = Some key)"
    "decapsulate c kem sk v = Some (Inr key) \<Longrightarrow> length key = 32"
    "decapsulate c kem sk v = Some (Inl e) \<Longrightarrow> e = OpenInvalidCiphertext" by blast+
qed

lemma opened_file_length:
  assumes "\<forall>clm \<in> set_option hw. multiplies_carryless clm" "length key = 32"
    "open_all hw (file_decryptor_new key) inp = Some (Inr pt :: 'e file_error + bytes, dec')"
  shows "54 \<le> length inp"
proof -
  have "read_file hw key inp = (Inr pt :: 'e file_error + bytes)" using open_all_spec [OF assms(1,2), of inp, where 'e = 'e] assms(3) by auto
  then obtain ms q where m: "authentic hw key inp ms q" "file_shape ms" by (rule read_file_accepted [OF assms(1,2)])
  then have "1 \<le> length ms" by (cases ms) (simp_all add: file_shape_def)
  then show ?thesis using authentic_length [OF assms(1,2) m(1)] by simp
qed

lemma openable_length:
  fixes sk :: box_secret_key
  assumes "\<forall>clm \<in> set_option hw. multiplies_carryless clm" "length (sk_e sk) = fp_bytes c"
    "length kem = KEM_CIPHERTEXT_LEN c" "kem_decrypt c kem (sk_e sk) = Some (Inr (m, SEED_BITS c))"
    "box_stream_key c (seed_of_m_tilde c m) kem (box_public_to_bytes c (sk_public sk)) 3 = Some key"
    "open_all hw (file_decryptor_new key) inp = Some (Inr msg :: 'e file_error + bytes, dec')"
  shows "MIN_SEALED_LEN c \<le> length ([3] @ kem @ inp)"
proof -
  have "length key = 32" using decapsulate_iff(2,3) [OF assms(3,2), of 3 key] assms(4,5) by blast
  from opened_file_length [OF assms(1) this assms(6)] show ?thesis using assms(3) by (simp add: box_consts TAG_LEN_def)
qed

text \<open>Opening, once the version and the length are accepted: the encapsulated key, then the stream file.\<close>

definition open_parts :: "dstu9041_size \<Rightarrow> clmul \<Rightarrow> bytes \<Rightarrow> bytes \<Rightarrow> box_secret_key \<Rightarrow> (box_open_error + bytes) option" where
  "open_parts c hw kem inp sk = (case decapsulate c kem sk 3 of
      None \<Rightarrow> None
    | Some (Inl e) \<Rightarrow> Some (Inl e)
    | Some (Inr key) \<Rightarrow>
       (case open_all hw (file_decryptor_new key) inp :: ((unit file_error + bytes) \<times> file_decryptor) option of
          None \<Rightarrow> None
        | Some (Inl Truncated, _) \<Rightarrow> Some (Inl OpenTruncated)
        | Some (Inl _, _) \<Rightarrow> Some (Inl OpenInvalidCiphertext)
        | Some (Inr plaintext, _) \<Rightarrow> Some (Inr plaintext)))"

lemma box_open_parts:
  assumes "length kem = KEM_CIPHERTEXT_LEN c" "MIN_SEALED_LEN c \<le> length ([3] @ kem @ inp)"
  shows "box_open c hw ([3] @ kem @ inp) sk = open_parts c hw kem inp sk"
proof -
  have "box_open_stream c (take (BOX_PREFIX_LEN c) ([3] @ kem @ inp)) sk = map_option (map_sum id file_decryptor_new) (decapsulate c kem sk 3)"
    using assms(1) by (simp add: box_open_stream_def box_consts)
  then show ?thesis using assms
    by (cases "decapsulate c kem sk 3") (auto simp: box_open_def open_parts_def BOX_FORMAT_VERSION_def BOX_PREFIX_LEN_def split: sum.splits)
qed

lemma open_parts_outcome:
  assumes "\<forall>clm \<in> set_option hw. multiplies_carryless clm" "length kem = KEM_CIPHERTEXT_LEN c" "length (sk_e sk) = fp_bytes c"
  shows "(open_parts c hw kem inp sk = Some (Inr msg) \<longleftrightarrow>
      (\<exists>key dec'. decapsulate c kem sk 3 = Some (Inr key) \<and>
        open_all hw (file_decryptor_new key) inp = Some (Inr msg :: unit file_error + bytes, dec'))) \<and>
    open_parts c hw kem inp sk \<noteq> Some (Inl OpenUnsupportedVersion) \<and> open_parts c hw kem inp sk \<noteq> None"
proof -
  note d = decapsulate_iff [OF assms(2,3), of 3]
  obtain r where r: "decapsulate c kem sk 3 = Some r" using d(1) by blast
  show ?thesis
  proof (cases r)
    case (Inl e)
    then show ?thesis using r d(4) [of e] by (simp add: open_parts_def)
  next
    case (Inr key)
    then obtain r' dec' where "open_all hw (file_decryptor_new key) inp = Some (r' :: unit file_error + bytes, dec')"
      using open_all_spec [OF assms(1) d(3)] r by blast
    then show ?thesis using r Inr by (cases r') (simp_all add: open_parts_def split: file_error.split)
  qed
qed

section \<open>Sealing\<close>

lemma kem_encrypt_ok:
  assumes "ed_ok c q" "0 < l" "l \<le> L_MAX_P c" "length message = (l + 7) div 8" "is_valid_scalar c epsilon" "is_usable_recipient c q"
  obtains kem where "kem_encrypt c message l q epsilon = Some (Inr kem)" "length kem = KEM_CIPHERTEXT_LEN c"
proof -
  note f = format_m_tilde_ok [OF assms(2-4)]
  have mp: "length (m_prime_of c 0x01 (replicate (pad_len c l) 0 @ message) l) = M_PRIME_BYTES c"
    using length_m_prime_of f(2) by (simp add: kem_plain_def)
  have x: "length (fp_to_be_bytes c (ed_x (ed_scalar_multiply c p epsilon))) = fp_bytes c" if "ed_ok c p" for p
    using fp_to_be_bytes_laws(1) ed_scalar_multiply_value(1) [OF that] by (simp add: ed_ok_def fp_ok_def)
  obtain t where "length t = T_BYTES c" "wrap_m_prime c (fp_to_be_bytes c (ed_x (ed_scalar_multiply c q epsilon)))
      (m_prime_of c 0x01 (replicate (pad_len c l) 0 @ message) l) = Some (Inr t)"
    by (rule wrap_total [OF x [OF assms(1)] mp])
  then show thesis using that assms(5,6) f(1) x [OF base_point_ok] by (simp add: kem_encrypt_def build_m_prime_eq HASH_ID_KUPYNA256_def Let_def)
qed

lemma init_fails:
  assumes "file_encryptor_init fill key = Some (Inl (file_error.Random e))" "length key = 32"
  shows "\<exists>n x. fill n = Inl x \<and> e = RandomError x"
  using assms by (cases "fill 32") (auto simp: file_encryptor_init_def push_init_def randombytes_buf_def initial_subkey_total Let_def split: if_splits Option.bind_splits)

text \<open>A box as \<open>seal\<close> builds it from the answers of the generator: the seed, the first admissible ephemeral scalar
  and the header of the stream file, in this order.\<close>

definition box_of_answers ::
  "dstu9041_size \<Rightarrow> clmul \<Rightarrow> (nat \<Rightarrow> nat \<Rightarrow> 'e + bytes) \<Rightarrow> bytes \<Rightarrow> edwards_point \<Rightarrow> bytes \<Rightarrow> bool" where
  "box_of_answers c hw fill message pk sealed \<longleftrightarrow>
     (\<exists>seed k epsilon header kem key records dec'. fill 0 (SEED_LEN c) = Inr seed \<and>
       fill (Suc k) (fp_bytes c) = Inr epsilon \<and> is_valid_scalar c epsilon \<and>
       (\<forall>m < k. \<exists>bs. fill (Suc m) (fp_bytes c) = Inr bs \<and> \<not> is_valid_scalar c bs) \<and> fill (k + 2) 32 = Inr header \<and>
       kem_encrypt c seed (SEED_BITS c) pk epsilon = Some (Inr kem) \<and>
       box_stream_key c (embed_seed c seed) kem (box_public_to_bytes c pk) 3 = Some key \<and>
       sealed = [3] @ kem @ [2] @ header @ records \<and>
       open_all hw (file_decryptor_new key) ([2] @ header @ records) = Some (Inr message :: 'e file_error + bytes, dec'))"

lemma init_prefix:
  assumes "file_encryptor_init fill key = Some (Inr (enc, fp))" "fills fill" "length key = 32"
  shows "\<exists>header. fill 32 = Inr header \<and> fp = [2] @ header"
proof -
  obtain p header where "push_init fill key = Some (Inr (p, header))" "fp = [2] @ header"
    by (rule file_encryptor_init_parts [OF assms(2,3,1)])
  then show ?thesis by (cases "fill 32") (auto simp: push_init_def randombytes_buf_def split: Option.bind_splits)
qed

lemma sealed_after_encapsulation:
  fixes fill :: "nat \<Rightarrow> nat \<Rightarrow> 'e + bytes"
  assumes hw: "\<forall>clm \<in> set_option hw. multiplies_carryless clm" and fills: "\<And>i. fills (fill i)" and len: "length message < 2 ^ 63"
    and enc: "encapsulate c fill pk 3 = Some (Inr (kem, key, i))"
    and seed: "fill 0 (SEED_LEN c) = Inr seed"
    and eps: "i = k + 2" "fill (Suc k) (fp_bytes c) = Inr epsilon" "is_valid_scalar c epsilon"
      "\<forall>m < k. \<exists>bs. fill (Suc m) (fp_bytes c) = Inr bs \<and> \<not> is_valid_scalar c bs"
    and kem: "kem_encrypt c seed (SEED_BITS c) pk epsilon = Some (Inr kem)" "length kem = KEM_CIPHERTEXT_LEN c"
    and key: "box_stream_key c (embed_seed c seed) kem (box_public_to_bytes c pk) 3 = Some key" "length key = 32"
  shows "case box_seal c hw fill message pk of
      None \<Rightarrow> \<not> is_usable_recipient c pk \<or>
        (\<forall>i. \<exists>bs. randombytes_buf (fill (Suc i)) (replicate (fp_bytes c) 0) = Inr bs \<and> \<not> is_valid_scalar c bs)
    | Some (Inl (SealRandom e)) \<Rightarrow> \<exists>i n x. fill i n = Inl x \<and> e = RandomError x
    | Some (Inr sealed) \<Rightarrow> box_sealed_len c (length message) = Some (length sealed) \<and> box_of_answers c hw fill message pk sealed"
  using fills [of i] key(2)
proof (cases rule: init_outcomes)
  case (err e)
  then have "box_seal c hw fill message pk = Some (Inl (SealRandom e))"
    using enc by (simp add: box_seal_def box_seal_stream_def BOX_FORMAT_VERSION_def)
  then show ?thesis using init_fails [OF err key(2)] by auto
next
  case (ok e fp)
  obtain enc' q inp where s: "seal_all hw e message fp = Some (Inr () :: 'e file_error + unit, enc', inp)" "authentic hw key inp (file_messages message) q"
    by (rule seal_all_file [OF hw fills key(2) ok(1) len])
  obtain header where h: "fill i 32 = Inr header" "fp = [2] @ header" using init_prefix [OF ok(1) fills key(2)] by blast
  obtain records where inp: "inp = [2] @ header @ records"
    using s(1) seal_loop_out [of hw e message _ fp "[]", where 'e = 'e] h(2) by (auto simp: seal_all_def)
  have out: "box_seal c hw fill message pk = Some (Inr ([3] @ kem @ inp))"
    using enc ok(1) s(1) seal_loop_out [of hw e message _ "3 # kem" fp, where 'e = 'e]
    by (simp add: box_seal_def box_seal_stream_def BOX_FORMAT_VERSION_def seal_all_def)
  have "read_file hw key inp = (Inr message :: 'e file_error + bytes)"
    using read_file_authentic(1) [OF hw key(2) s(2) file_messages_shape] by (simp add: file_messages_concat)
  then obtain dec' where "open_all hw (file_decryptor_new key) inp = Some (Inr message :: 'e file_error + bytes, dec')"
    using open_all_spec [OF hw key(2), of inp, where 'e = 'e] by auto
  moreover have "box_sealed_len c (length message) = Some (length ([3] @ kem @ inp))"
    using box_sealed_len_value [OF len, of c] authentic_length [OF hw key(2) s(2)] kem(2)
    by (simp add: file_messages_records file_messages_concat box_consts)
  moreover have "box_of_answers c hw fill message pk ([3] @ kem @ inp)"
    unfolding box_of_answers_def using seed eps h(1) kem(1) key(1) calculation(1) inp
    by (intro exI [of _ seed] exI [of _ k] exI [of _ epsilon] exI [of _ header] exI [of _ kem] exI [of _ key] exI [of _ records] exI [of _ dec']) simp
  ultimately show ?thesis by (simp add: out)
qed

lemma box_seal_outcome:
  fixes fill :: "nat \<Rightarrow> nat \<Rightarrow> 'e + bytes"
  assumes hw: "\<forall>clm \<in> set_option hw. multiplies_carryless clm" and fills: "\<And>i. fills (fill i)"
    and pk: "ed_ok c pk" and len: "length message < 2 ^ 63"
  shows "case box_seal c hw fill message pk of
      None \<Rightarrow> \<not> is_usable_recipient c pk \<or>
        (\<forall>i. \<exists>bs. randombytes_buf (fill (Suc i)) (replicate (fp_bytes c) 0) = Inr bs \<and> \<not> is_valid_scalar c bs)
    | Some (Inl (SealRandom e)) \<Rightarrow> \<exists>i n x. fill i n = Inl x \<and> e = RandomError x
    | Some (Inr sealed) \<Rightarrow> box_sealed_len c (length message) = Some (length sealed) \<and> box_of_answers c hw fill message pk sealed"
proof (cases "randombytes_buf (fill 0) (replicate (SEED_LEN c) 0)")
  case (Inl e)
  then have "\<exists>x. fill 0 (SEED_LEN c) = Inl x \<and> e = RandomError x" 
    by (cases "fill 0 (SEED_LEN c)") (auto simp: randombytes_buf_def)
  then show ?thesis using Inl by (auto simp: box_seal_def box_seal_stream_def encapsulate_def)
next
  case (Inr seed)
  then have seed: "fill 0 (SEED_LEN c) = Inr seed" "length seed = SEED_LEN c" using fills [of 0]
    by (cases "fill 0 (SEED_LEN c)"; auto simp: randombytes_buf_def fills_def)+
  show ?thesis
  proof (cases "random_valid_scalar c fill 1")
    case None
    then show ?thesis using Inr random_scalar_refused [OF None] by (simp add: box_seal_def box_seal_stream_def encapsulate_def)
  next
    case (Some r)
    show ?thesis
    proof (cases r)
      case (Inl e)
      then show ?thesis using Inr Some random_scalar_error [of c fill 1 e] by (simp add: box_seal_def box_seal_stream_def encapsulate_def)
    next
      case draw: (Inr ej)
      obtain epsilon i where ej: "ej = (epsilon, i)" by (cases ej)
      then obtain k where eps: "i = k + 2" "fill (Suc k) (fp_bytes c) = Inr epsilon" "is_valid_scalar c epsilon"
        "\<forall>m < k. \<exists>bs. fill (Suc m) (fp_bytes c) = Inr bs \<and> \<not> is_valid_scalar c bs"
        using random_scalar_result [of c fill 1 epsilon i] Some draw by auto
      show ?thesis
      proof (cases "is_usable_recipient c pk")
        case False
        then show ?thesis using Inr Some draw ej eps(3) by (simp add: box_seal_def box_seal_stream_def encapsulate_def kem_encrypt_def)
      next
        case True
        obtain kem where kem: "kem_encrypt c seed (SEED_BITS c) pk epsilon = Some (Inr kem)" "length kem = KEM_CIPHERTEXT_LEN c"
          by (rule kem_encrypt_ok [OF pk box_dims(2,3) _ eps(3) True]) (use seed(2) box_dims(4) in simp)
        obtain key where key: "box_stream_key c (embed_seed c seed) kem (box_public_to_bytes c pk) 3 = Some key" "length key = 32"
          by (rule box_stream_key_total [OF length_embed_seed [OF seed(2)]])
        have enc: "encapsulate c fill pk 3 = Some (Inr (kem, key, i))" using Inr Some draw ej kem(1) key(1) by (simp add: encapsulate_def)
        show ?thesis by (rule sealed_after_encapsulation [OF hw fills len enc seed(1) eps kem key])
      qed
    qed
  qed
qed

section \<open>Properties\<close>

text \<open>C15. Opening accepts exactly the sealed boxes: \<open>open\<close> returns a message if and only if the input is the
  version byte, an encapsulation that decrypts under the secret key to a seed of the full length, and a
  stream file that opens to the message under the key derived from that seed, the encapsulation and the
  recipient's public key; the length check in front refuses no such box. The version is rejected exactly
  when the first byte differs, and no input makes it panic.\<close>

theorem box_open_exact:
  assumes "\<forall>clm \<in> set_option hw. multiplies_carryless clm" "length (sk_e sk) = fp_bytes c"
  shows "(box_open c hw sealed sk = Some (Inr msg) \<longleftrightarrow>
      (\<exists>kem inp m key dec'. sealed = [3] @ kem @ inp \<and> length kem = KEM_CIPHERTEXT_LEN c \<and>
        kem_decrypt c kem (sk_e sk) = Some (Inr (m, SEED_BITS c)) \<and>
        box_stream_key c (seed_of_m_tilde c m) kem (box_public_to_bytes c (sk_public sk)) 3 = Some key \<and>
        open_all hw (file_decryptor_new key) inp = Some (Inr msg :: unit file_error + bytes, dec'))) \<and>
    (box_open c hw sealed sk = Some (Inl OpenUnsupportedVersion) \<longleftrightarrow> sealed \<noteq> [] \<and> hd sealed \<noteq> 3) \<and>
    box_open c hw sealed sk \<noteq> None"
proof (cases "sealed \<noteq> [] \<and> hd sealed = 3 \<and> MIN_SEALED_LEN c \<le> length sealed")
  case False
  then have "\<nexists>kem inp m key dec'. sealed = [3] @ kem @ inp \<and> length kem = KEM_CIPHERTEXT_LEN c \<and>
        kem_decrypt c kem (sk_e sk) = Some (Inr (m, SEED_BITS c)) \<and>
        box_stream_key c (seed_of_m_tilde c m) kem (box_public_to_bytes c (sk_public sk)) 3 = Some key \<and>
        open_all hw (file_decryptor_new key) inp = Some (Inr msg :: unit file_error + bytes, dec')"
    using openable_length [OF assms, where 'e = unit] by fastforce
  then show ?thesis using False by (auto simp: box_open_def box_consts hd_conv_nth not_le)
next
  case True
  then have "sealed = [3] @ take (KEM_CIPHERTEXT_LEN c) (drop 1 sealed) @ drop (Suc (KEM_CIPHERTEXT_LEN c)) sealed"
    by (cases sealed) simp_all
  then obtain kem inp where s: "sealed = [3] @ kem @ inp" "length kem = KEM_CIPHERTEXT_LEN c"
    using True by (force simp: box_consts)
  have o: "box_open c hw sealed sk = open_parts c hw kem inp sk"
    using box_open_parts [OF s(2)] True s(1) by simp
  note d = decapsulate_iff [OF s(2) assms(2), of 3]
  have ex: "(\<exists>kem inp m key dec'. sealed = [3] @ kem @ inp \<and> length kem = KEM_CIPHERTEXT_LEN c \<and>
        kem_decrypt c kem (sk_e sk) = Some (Inr (m, SEED_BITS c)) \<and>
        box_stream_key c (seed_of_m_tilde c m) kem (box_public_to_bytes c (sk_public sk)) 3 = Some key \<and>
        open_all hw (file_decryptor_new key) inp = Some (Inr msg :: unit file_error + bytes, dec')) \<longleftrightarrow>
      (\<exists>key dec'. decapsulate c kem sk 3 = Some (Inr key) \<and>
        open_all hw (file_decryptor_new key) inp = Some (Inr msg :: unit file_error + bytes, dec'))"
  proof -
    have "kem' = kem \<and> inp' = inp" if "sealed = [3] @ kem' @ inp'" "length kem' = KEM_CIPHERTEXT_LEN c" for kem' inp'
      using that s by simp
    then show ?thesis unfolding d(2) using s by metis
  qed
  show ?thesis unfolding ex o using open_parts_outcome [OF assms(1) s(2) assms(2)] True by blast
qed

theorem box_open_exact_witness:
  "box_open E256 None [2, 0] (from_valid_scalar E256 (replicate 31 0 @ [2])) = Some (Inl OpenUnsupportedVersion)"
  using box_open_exact [of None "from_valid_scalar E256 (replicate 31 0 @ [2])" E256 "[2, 0]"] by (simp add: from_valid_scalar_def)

text \<open>C16. What \<open>seal\<close> emits: it fails only with the generator, does not return only if the recipient's key is
  unusable or the generator never yields a scalar in range, and otherwise returns the version byte, the
  encapsulation for the recipient and a stream file that opens to the message under the key derived from the
  seed, the encapsulation and the public key, with exactly the length \<open>sealed_len\<close> announces. The seed is the
  first answer of the generator, the ephemeral scalar the first admissible one among the next, and the header
  of the stream the one after it: nothing secret is constant or used twice.\<close>

theorem box_seal_emits:
  fixes fill :: "nat \<Rightarrow> nat \<Rightarrow> 'e + bytes"
  assumes hw: "\<forall>clm \<in> set_option hw. multiplies_carryless clm" and fills: "\<And>i. fills (fill i)"
    and pk: "ed_ok c pk" and len: "length message < 2 ^ 63"
  shows "case box_seal c hw fill message pk of
      None \<Rightarrow> \<not> is_usable_recipient c pk \<or>
        (\<forall>i. \<exists>bs. randombytes_buf (fill (Suc i)) (replicate (fp_bytes c) 0) = Inr bs \<and> \<not> is_valid_scalar c bs)
    | Some (Inl (SealRandom e)) \<Rightarrow> \<exists>i n x. fill i n = Inl x \<and> e = RandomError x
    | Some (Inr sealed) \<Rightarrow> box_sealed_len c (length message) = Some (length sealed) \<and>
        (\<exists>seed k epsilon header kem key records dec'. fill 0 (SEED_LEN c) = Inr seed \<and>
          fill (Suc k) (fp_bytes c) = Inr epsilon \<and> is_valid_scalar c epsilon \<and>
          (\<forall>m < k. \<exists>bs. fill (Suc m) (fp_bytes c) = Inr bs \<and> \<not> is_valid_scalar c bs) \<and> fill (k + 2) 32 = Inr header \<and>
          kem_encrypt c seed (SEED_BITS c) pk epsilon = Some (Inr kem) \<and>
          box_stream_key c (embed_seed c seed) kem (box_public_to_bytes c pk) 3 = Some key \<and>
          sealed = [3] @ kem @ [2] @ header @ records \<and>
          open_all hw (file_decryptor_new key) ([2] @ header @ records) = Some (Inr message :: 'e file_error + bytes, dec'))"
  using box_seal_outcome [OF assms] unfolding box_of_answers_def .

theorem box_seal_emits_witness:
  "case box_seal E256 None (\<lambda>_ n. Inr (replicate n 4) :: unit + bytes) [0x61] (base_point E256) of
      None \<Rightarrow> \<not> is_usable_recipient E256 (base_point E256) \<or>
        (\<forall>i :: nat. \<exists>bs. randombytes_buf (\<lambda>n. Inr (replicate n 4) :: unit + bytes) (replicate 32 0) = Inr bs \<and> \<not> is_valid_scalar E256 bs)
    | Some (Inl (SealRandom e)) \<Rightarrow> False
    | Some (Inr sealed) \<Rightarrow> length sealed = 184 \<and>
        (\<exists>kem key records dec'. kem_encrypt E256 (replicate 25 4) 200 (base_point E256) (replicate 32 4) = Some (Inr kem) \<and>
          box_stream_key E256 (embed_seed E256 (replicate 25 4)) kem (box_public_to_bytes E256 (base_point E256)) 3 = Some key \<and>
          sealed = [3] @ kem @ [2] @ replicate 32 4 @ records \<and>
          open_all None (file_decryptor_new key) ([2] @ replicate 32 4 @ records) = Some (Inr [0x61] :: unit file_error + bytes, dec'))"
proof -
  have "box_sealed_len E256 (length [0x61 :: u8]) = Some 184" by (simp add: box_sealed_len_value box_consts)
  then show ?thesis
    using box_seal_emits [of None "\<lambda>_ n. Inr (replicate n 4) :: unit + bytes" E256 "base_point E256" "[0x61]"]
    by (auto simp: fills_def base_point_ok split: option.split_asm option.split sum.split_asm sum.split box_seal_error.split_asm box_seal_error.split)
qed

end
