(* ===== verification/Crypto_Pwhash.thy ===== *)
theory Crypto_Pwhash
  imports Gcm_Aead "HOL-Library.Multiset"
begin

text \<open>
  \<open>crates/dstu-core/src/crypto_pwhash.rs\<close>: password hashing and key derivation around Argon2. The
  Argon2 function, its memory, the PHC string format and the limits of its parameters belong to the
  \<open>argon2\<close> package: they are the fields of a record the operations take, and what the module relies
  on is stated as \<open>argon2_documented\<close>.
\<close>

section \<open>The package\<close>

datatype algorithm = Argon2id | Argon2i

type_synonym costs = "u32 \<times> u32 \<times> u32"

text \<open>A parsed PHC string; a parameter carries the outcome of reading its value as a decimal.\<close>

record phc =
  phc_algorithm :: string
  phc_version :: "u32 option"
  phc_params :: "(string \<times> u32 option) list"
  phc_salt :: "string option"
  phc_hash :: "bytes option"

record ('d, 'h) argon2 =
  params_new :: "costs \<Rightarrow> nat option \<Rightarrow> costs option"
  block_count :: "costs \<Rightarrow> nat"
  try_reserve_exact :: "nat \<Rightarrow> bool"
  hash_password_into_with_memory :: "algorithm \<Rightarrow> costs \<Rightarrow> bytes \<Rightarrow> bytes \<Rightarrow> nat \<Rightarrow> 'd + bytes"
  into_hash_error :: "'d \<Rightarrow> 'h"
  encode_b64 :: "bytes \<Rightarrow> 'h + string"
  decode_b64 :: "string \<Rightarrow> bytes option"
  params_string :: "costs \<Rightarrow> 'h + (string \<times> u32 option) list"
  output_new :: "bytes \<Rightarrow> 'h + bytes"
  phc_to_string :: "phc \<Rightarrow> string"
  phc_parse :: "string \<Rightarrow> phc option"
  output_MAX_LENGTH :: nat
  MIN_SALT_LEN :: nat
  MAX_P_COST :: u32

section \<open>Definitions\<close>

datatype strength = Interactive | Moderate | Sensitive

fun m_and_t_cost :: "strength \<Rightarrow> u32 \<times> u32" where
  "m_and_t_cost Interactive = (65536, 2)"
| "m_and_t_cost Moderate = (262144, 3)"
| "m_and_t_cost Sensitive = (1048576, 4)"

definition cost :: "strength \<Rightarrow> costs" where
  "cost self = (let (m_cost, t_cost) = m_and_t_cost self in (m_cost, t_cost, 1))"

definition from_cost :: "u32 \<Rightarrow> u32 \<Rightarrow> u32 \<Rightarrow> strength option" where
  "from_cost m_cost t_cost p_cost = List.find (\<lambda>s. cost s = (m_cost, t_cost, p_cost)) [Interactive, Moderate, Sensitive]"

definition SALT_BYTES :: nat where "SALT_BYTES = 16"
definition KEY_BYTES :: nat where "KEY_BYTES = 32"

datatype ('e, 'd, 'h) pw_hash_error = Random "'e random_error" | Hash 'h | OutOfMemory | Derive 'd

definition hash_into_reserved_memory ::
  "('d, 'h) argon2 \<Rightarrow> algorithm \<Rightarrow> costs \<Rightarrow> bytes \<Rightarrow> bytes \<Rightarrow> nat \<Rightarrow> ('e, 'd, 'h) pw_hash_error + bytes" where
  "hash_into_reserved_memory env alg params password salt out_len =
     (if \<not> try_reserve_exact env (block_count env params) then Inl OutOfMemory
      else map_sum Derive id (hash_password_into_with_memory env alg params password salt out_len))"

definition hash_with_salt ::
  "('d, 'h) argon2 \<Rightarrow> bytes \<Rightarrow> bytes \<Rightarrow> strength \<Rightarrow> ('e, 'd, 'h) pw_hash_error + string" where
  "hash_with_salt env password salt_bytes strength =
     (case hash_into_reserved_memory env Argon2id (cost strength) password salt_bytes 32 of
        Inl (Derive e) \<Rightarrow> Inl (Hash (into_hash_error env e))
      | Inl e \<Rightarrow> Inl e
      | Inr tag \<Rightarrow>
          (case encode_b64 env salt_bytes of
             Inl e \<Rightarrow> Inl (Hash e)
           | Inr salt \<Rightarrow>
               (case params_string env (cost strength) of
                  Inl e \<Rightarrow> Inl (Hash e)
                | Inr params \<Rightarrow>
                    (case output_new env tag of
                       Inl e \<Rightarrow> Inl (Hash e)
                     | Inr out \<Rightarrow>
                         Inr (phc_to_string env
                           \<lparr>phc_algorithm = ''argon2id'', phc_version = Some 0x13, phc_params = params,
                            phc_salt = Some salt, phc_hash = Some out\<rparr>)))))"

definition hash_password ::
  "(nat \<Rightarrow> 'e + bytes) \<Rightarrow> ('d, 'h) argon2 \<Rightarrow> bytes \<Rightarrow> strength \<Rightarrow> ('e, 'd, 'h) pw_hash_error + string" where
  "hash_password fill env password strength =
     (case randombytes_buf fill (replicate SALT_BYTES 0) of
        Inl e \<Rightarrow> Inl (Random e)
      | Inr salt_bytes \<Rightarrow> hash_with_salt env password salt_bytes strength)"

definition VERIFY_MAX_M_COST :: u32 where "VERIFY_MAX_M_COST = 1048576"
definition VERIFY_MAX_WORK :: u64 where "VERIFY_MAX_WORK = 4 * 1048576"
definition VERIFY_MIN_TAG_LEN :: nat where "VERIFY_MIN_TAG_LEN = 16"

definition verify_context ::
  "('d, 'h) argon2 \<Rightarrow> string \<Rightarrow> u32 option \<Rightarrow> costs \<Rightarrow> nat \<Rightarrow> nat \<Rightarrow> (algorithm \<times> costs) option" where
  "verify_context env algorithm version costs tag_len salt_len =
     (case costs of (m_cost, t_cost, p_cost) \<Rightarrow>
      case (if algorithm = ''argon2id'' then Some Argon2id else if algorithm = ''argon2i'' then Some Argon2i else None) of
        None \<Rightarrow> None
      | Some alg \<Rightarrow>
          if version \<noteq> Some 0x13 \<or> m_cost > VERIFY_MAX_M_COST \<or>
             (ucast m_cost :: u64) * ucast t_cost > VERIFY_MAX_WORK \<or>
             \<not> (VERIFY_MIN_TAG_LEN \<le> tag_len \<and> tag_len \<le> output_MAX_LENGTH env) \<or>
             salt_len < MIN_SALT_LEN env \<or> p_cost > MAX_P_COST env
          then None
          else case params_new env (m_cost, t_cost, p_cost) (Some tag_len) of
            None \<Rightarrow> None
          | Some params \<Rightarrow> Some (alg, params))"

text \<open>The loop of \<open>phc_costs\<close> over the slots for \<open>m\<close>, \<open>t\<close> and \<open>p\<close>.\<close>

fun phc_slots ::
  "u32 option \<Rightarrow> u32 option \<Rightarrow> u32 option \<Rightarrow> (string \<times> u32 option) list \<Rightarrow> (u32 option \<times> u32 option \<times> u32 option) option" where
  "phc_slots m t p [] = Some (m, t, p)"
| "phc_slots m t p ((ident, decimal) # rest) =
     (if ident = ''m'' then
        (case decimal of None \<Rightarrow> None | Some v \<Rightarrow> if m \<noteq> None then None else phc_slots (Some v) t p rest)
      else if ident = ''t'' then
        (case decimal of None \<Rightarrow> None | Some v \<Rightarrow> if t \<noteq> None then None else phc_slots m (Some v) p rest)
      else if ident = ''p'' then
        (case decimal of None \<Rightarrow> None | Some v \<Rightarrow> if p \<noteq> None then None else phc_slots m t (Some v) rest)
      else None)"

definition phc_costs :: "phc \<Rightarrow> costs option" where
  "phc_costs parsed =
     (case phc_slots None None None (phc_params parsed) of
        Some (Some m, Some t, Some p) \<Rightarrow> Some (m, t, p) | _ \<Rightarrow> None)"

definition verify_password :: "('d, 'h) argon2 \<Rightarrow> bytes \<Rightarrow> string \<Rightarrow> bool" where
  "verify_password env password hash =
     (case phc_parse env hash of
        None \<Rightarrow> False
      | Some parsed \<Rightarrow>
     (case (phc_salt parsed, phc_hash parsed) of
        (Some salt, Some expected) \<Rightarrow>
     (case phc_costs parsed of
        None \<Rightarrow> False
      | Some costs \<Rightarrow>
     (case decode_b64 env salt of
        None \<Rightarrow> False
      | Some salt \<Rightarrow>
     (case verify_context env (phc_algorithm parsed) (phc_version parsed) costs (length expected) (length salt) of
        None \<Rightarrow> False
      | Some (alg, params) \<Rightarrow>
          if \<not> try_reserve_exact env (block_count env params) then False
          else case hash_password_into_with_memory env alg params password salt (length expected) of
            Inl _ \<Rightarrow> False
          | Inr tag \<Rightarrow> tag = expected)))
      | _ \<Rightarrow> False))"

definition derive_key ::
  "('d, 'h) argon2 \<Rightarrow> bytes \<Rightarrow> bytes \<Rightarrow> strength \<Rightarrow> ('e, 'd, 'h) pw_hash_error + bytes" where
  "derive_key env password salt strength =
     hash_into_reserved_memory env Argon2id (cost strength) password salt KEY_BYTES"

section \<open>Presets and parameters\<close>

lemma cost_simps [simp]:
  "cost Interactive = (65536, 2, 1)" "cost Moderate = (262144, 3, 1)" "cost Sensitive = (1048576, 4, 1)"
  by (simp_all add: cost_def)

lemma from_cost_iff: "from_cost m t p = Some s \<longleftrightarrow> cost s = (m, t, p)"
  by (cases s) (auto simp: from_cost_def)


definition filled :: "string \<Rightarrow> u32 option \<Rightarrow> (string \<times> u32 option) multiset" where
  "filled ident slot = (case slot of None \<Rightarrow> {#} | Some v \<Rightarrow> {#(ident, Some v)#})"

lemma filled_simps [simp]: "filled ident None = {#}" "filled ident (Some v) = {#(ident, Some v)#}"
  by (simp_all add: filled_def)

lemma phc_slots_sound:
  "phc_slots m t p ps = Some (m', t', p') \<Longrightarrow>
   mset ps + (filled ''m'' m + filled ''t'' t + filled ''p'' p) = filled ''m'' m' + filled ''t'' t' + filled ''p'' p'"
  by (induction m t p ps rule: phc_slots.induct) (auto split: if_splits option.splits)

lemma phc_costs_iff:
  "phc_costs parsed = Some (m, t, p) \<longleftrightarrow> mset (phc_params parsed) = {#(''m'', Some m), (''t'', Some t), (''p'', Some p)#}"
proof
  assume "phc_costs parsed = Some (m, t, p)"
  then have "phc_slots None None None (phc_params parsed) = Some (Some m, Some t, Some p)"
    by (auto simp: phc_costs_def split: option.splits prod.splits)
  from phc_slots_sound [OF this] show "mset (phc_params parsed) = {#(''m'', Some m), (''t'', Some t), (''p'', Some p)#}" by simp
next
  assume ms: "mset (phc_params parsed) = {#(''m'', Some m), (''t'', Some t), (''p'', Some p)#}"
  then have "length (phc_params parsed) = 3" by (metis size_mset size_add_mset size_empty numeral_3_eq_3)
  then obtain x y z where xyz: "phc_params parsed = [x, y, z]" by (auto simp: length_Suc_conv numeral_3_eq_3)
  show "phc_costs parsed = Some (m, t, p)"
    using ms unfolding xyz by (auto simp: phc_costs_def xyz add_eq_conv_ex)
qed

section \<open>What the package documents\<close>

definition own_phc :: "(string \<times> u32 option) list \<Rightarrow> string \<Rightarrow> bytes \<Rightarrow> phc" where
  "own_phc params salt out = \<lparr>phc_algorithm = ''argon2id'', phc_version = Some 0x13, phc_params = params,
     phc_salt = Some salt, phc_hash = Some out\<rparr>"

text \<open>Base64, the PHC format and the output buffer round-trip, the presets are valid parameters, and
  the presets' lengths are within the limits.\<close>

definition argon2_documented :: "('d, 'h) argon2 \<Rightarrow> bool" where
  "argon2_documented env \<longleftrightarrow>
     (\<forall>bs b64. encode_b64 env bs = Inr b64 \<longrightarrow> decode_b64 env b64 = Some bs) \<and>
     (\<forall>m t p ps. params_string env (m, t, p) = Inr ps \<longrightarrow> mset ps = {#(''m'', Some m), (''t'', Some t), (''p'', Some p)#}) \<and>
     (\<forall>tag out. output_new env tag = Inr out \<longrightarrow> out = tag) \<and>
     (\<forall>bs b64 s ps tag out. encode_b64 env bs = Inr b64 \<and> params_string env (cost s) = Inr ps \<and> output_new env tag = Inr out \<longrightarrow>
        phc_parse env (phc_to_string env (own_phc ps b64 out)) = Some (own_phc ps b64 out)) \<and>
     (\<forall>alg c pw salt n tag. hash_password_into_with_memory env alg c pw salt n = Inr tag \<longrightarrow> length tag = n) \<and>
     (\<forall>s. params_new env (cost s) (Some 32) = Some (cost s)) \<and>
     32 \<le> output_MAX_LENGTH env \<and> MIN_SALT_LEN env \<le> 16 \<and> 1 \<le> MAX_P_COST env"

lemma argon2_documentedD:
  assumes "argon2_documented env"
  shows "encode_b64 env bs = Inr b64 \<Longrightarrow> decode_b64 env b64 = Some bs"
    and "params_string env (m, t, p) = Inr ps \<Longrightarrow> mset ps = {#(''m'', Some m), (''t'', Some t), (''p'', Some p)#}"
    and "output_new env tag = Inr out \<Longrightarrow> out = tag"
    and "encode_b64 env bs = Inr b64 \<Longrightarrow> params_string env (cost s) = Inr ps \<Longrightarrow> output_new env tag = Inr out \<Longrightarrow>
      phc_parse env (phc_to_string env (own_phc ps b64 out)) = Some (own_phc ps b64 out)"
    and "hash_password_into_with_memory env alg c pw salt n = Inr tag \<Longrightarrow> length tag = n"
  using assms unfolding argon2_documented_def by (cases c; auto)+

lemma verify_context_presets:
  assumes "argon2_documented env"
  shows "verify_context env ''argon2id'' (Some 0x13) (cost s) 32 16 = Some (Argon2id, cost s)"
  using assms
  by (cases s) (auto simp: argon2_documented_def verify_context_def VERIFY_MAX_M_COST_def VERIFY_MAX_WORK_def VERIFY_MIN_TAG_LEN_def
      not_less dest: spec [where x = s])

lemma hash_with_salt_verifies:
  assumes "argon2_documented env" "length salt = 16" "hash_with_salt env pw salt s = Inr h"
  shows "verify_password env pw' h \<longleftrightarrow>
    (\<exists>tag. hash_password_into_with_memory env Argon2id (cost s) pw' salt 32 = Inr tag \<and>
      hash_password_into_with_memory env Argon2id (cost s) pw salt 32 = Inr tag)"
proof -
  obtain tag b64 ps out where parts: "try_reserve_exact env (block_count env (cost s))"
    "hash_password_into_with_memory env Argon2id (cost s) pw salt 32 = Inr tag" "encode_b64 env salt = Inr b64"
    "params_string env (cost s) = Inr ps" "output_new env tag = Inr out" "h = phc_to_string env (own_phc ps b64 out)"
    using assms(3) by (cases "hash_password_into_with_memory env Argon2id (cost s) pw salt 32")
      (auto simp: hash_with_salt_def hash_into_reserved_memory_def own_phc_def split: sum.splits if_splits pw_hash_error.splits)
  obtain m t p where c: "cost s = (m, t, p)" by (cases "cost s")
  note docs = argon2_documentedD [OF assms(1)]
  have "out = tag" by (rule docs(3) [OF parts(5)])
  moreover have "length tag = 32" by (rule docs(5) [OF parts(2)])
  moreover have "decode_b64 env b64 = Some salt" by (rule docs(1) [OF parts(3)])
  moreover have "phc_parse env h = Some (own_phc ps b64 out)" unfolding parts(6) by (rule docs(4) [OF parts(3-5)])
  moreover have "mset ps = {#(''m'', Some m), (''t'', Some t), (''p'', Some p)#}" using parts(4) by (intro docs(2)) (simp add: c)
  ultimately show ?thesis
    using parts(1,2) verify_context_presets [OF assms(1), of s] assms(2) phc_costs_iff [of "own_phc ps b64 out" m t p] c
    by (auto simp: verify_password_def own_phc_def split: sum.splits)
qed

lemma cost_product:
  fixes m t :: u32
  assumes "m \<le> 1048576"
  shows "unat ((ucast m :: u64) * ucast t) = unat m * unat t"
proof -
  have m: "unat m \<le> 2 ^ 20" using assms by (simp add: word_le_nat_alt)
  have t: "unat t < 2 ^ 32" using unsigned_less [of t, where 'a = nat] by simp
  have "unat m * unat t \<le> 2 ^ 20 * (2 ^ 32 - 1)" using m t by (intro mult_le_mono) simp_all
  then show ?thesis using m t by (simp add: unat_word_ariths unsigned_ucast_eq take_bit_nat_eq_self)
qed

text \<open>What Argon2 may be asked for on behalf of a hash string.\<close>

definition admissible_request :: "('d, 'h) argon2 \<Rightarrow> costs \<Rightarrow> nat \<Rightarrow> nat \<Rightarrow> bool" where
  "admissible_request env costs tag_len salt_len \<longleftrightarrow> (case costs of (m, t, p) \<Rightarrow>
     unat m \<le> 2 ^ 20 \<and> unat m * unat t \<le> 2 ^ 22 \<and> p \<le> MAX_P_COST env \<and> 16 \<le> tag_len \<and>
     tag_len \<le> output_MAX_LENGTH env \<and> MIN_SALT_LEN env \<le> salt_len)"

lemma verify_context_iff:
  "verify_context env algorithm version costs tag_len salt_len = Some (alg, params) \<longleftrightarrow>
   (algorithm, alg) \<in> {(''argon2id'', Argon2id), (''argon2i'', Argon2i)} \<and> version = Some 0x13 \<and>
   admissible_request env costs tag_len salt_len \<and> params_new env costs (Some tag_len) = Some params"
proof -
  obtain m t p where c: "costs = (m, t, p)" by (cases costs)
  have m: "m \<le> VERIFY_MAX_M_COST \<longleftrightarrow> unat m \<le> 2 ^ 20" by (simp add: VERIFY_MAX_M_COST_def word_le_nat_alt)
  have w: "m \<le> VERIFY_MAX_M_COST \<Longrightarrow> (ucast m :: u64) * ucast t \<le> VERIFY_MAX_WORK \<longleftrightarrow> unat m * unat t \<le> 2 ^ 22"
    using cost_product [of m t] by (simp add: VERIFY_MAX_M_COST_def VERIFY_MAX_WORK_def word_le_nat_alt)
  show ?thesis using m w
    by (auto simp: verify_context_def c admissible_request_def VERIFY_MIN_TAG_LEN_def not_less not_le split: option.splits)
qed

lemma verify_password_iff:
  assumes "\<forall>cs n ps. params_new env cs n = Some ps \<longrightarrow> ps = cs"
  shows "verify_password env pw hash \<longleftrightarrow>
    (\<exists>parsed b64 salt expected m t p alg. phc_parse env hash = Some parsed \<and> phc_salt parsed = Some b64 \<and> phc_hash parsed = Some expected \<and>
      mset (phc_params parsed) = {#(''m'', Some m), (''t'', Some t), (''p'', Some p)#} \<and> decode_b64 env b64 = Some salt \<and>
      (phc_algorithm parsed, alg) \<in> {(''argon2id'', Argon2id), (''argon2i'', Argon2i)} \<and> phc_version parsed = Some 0x13 \<and>
      admissible_request env (m, t, p) (length expected) (length salt) \<and> params_new env (m, t, p) (Some (length expected)) \<noteq> None \<and>
      try_reserve_exact env (block_count env (m, t, p)) \<and>
      hash_password_into_with_memory env alg (m, t, p) pw salt (length expected) = Inr expected)" (is "?L \<longleftrightarrow> ?R")
proof
  assume ?L
  then obtain parsed b64 expected m t p salt alg ps where v: "phc_parse env hash = Some parsed" "phc_salt parsed = Some b64"
    "phc_hash parsed = Some expected" "phc_costs parsed = Some (m, t, p)" "decode_b64 env b64 = Some salt"
    "verify_context env (phc_algorithm parsed) (phc_version parsed) (m, t, p) (length expected) (length salt) = Some (alg, ps)"
    "try_reserve_exact env (block_count env ps) \<and>
      (case hash_password_into_with_memory env alg ps pw salt (length expected) of Inl _ \<Rightarrow> False | Inr tag \<Rightarrow> tag = expected)"
    by (auto simp: verify_password_def simp del: split_paired_Ex split_paired_All split: option.split_asm if_split_asm)
  have "ps = (m, t, p)" using v(6) assms unfolding verify_context_iff by blast
  then show ?R using v(1-3,5-7) v(4) [unfolded phc_costs_iff]
    by (intro exI [of _ parsed] exI [of _ b64] exI [of _ salt] exI [of _ expected] exI [of _ m] exI [of _ t] exI [of _ p] exI [of _ alg])
      (auto simp: verify_context_iff split: sum.split_asm)
next
  assume ?R
  then obtain parsed b64 salt expected m t p alg where v: "phc_parse env hash = Some parsed" "phc_salt parsed = Some b64"
    "phc_hash parsed = Some expected" "phc_costs parsed = Some (m, t, p)" "decode_b64 env b64 = Some salt"
    "(phc_algorithm parsed, alg) \<in> {(''argon2id'', Argon2id), (''argon2i'', Argon2i)} \<and> phc_version parsed = Some 0x13 \<and>
      admissible_request env (m, t, p) (length expected) (length salt)" "params_new env (m, t, p) (Some (length expected)) \<noteq> None"
    "try_reserve_exact env (block_count env (m, t, p))" "hash_password_into_with_memory env alg (m, t, p) pw salt (length expected) = Inr expected"
    unfolding phc_costs_iff by blast
  from v(7) assms have "params_new env (m, t, p) (Some (length expected)) = Some (m, t, p)" by (metis option.exhaust)
  then have "verify_context env (phc_algorithm parsed) (phc_version parsed) (m, t, p) (length expected) (length salt) = Some (alg, (m, t, p))"
    using v(6) by (simp add: verify_context_iff)
  then show ?L using v by (simp add: verify_password_def)
qed

section \<open>Properties\<close>

text \<open>A password verifies against its own hash: what \<open>hash_password\<close> returns for a password is
  accepted for that password, and for another one only if Argon2 maps both to the same tag. The
  hypothesis is the documented behaviour of the \<open>argon2\<close> package.\<close>

theorem pwhash_verifies_own_hashes:
  fixes fill :: "nat \<Rightarrow> 'e + bytes" and env :: "('d, 'h) argon2"
  assumes "argon2_documented env" "fills fill" "hash_password fill env pw s = Inr h"
  shows "verify_password env pw h \<and>
    (verify_password env pw' h \<longrightarrow> (\<exists>salt. length salt = 16 \<and>
      hash_password_into_with_memory env Argon2id (cost s) pw' salt 32 = hash_password_into_with_memory env Argon2id (cost s) pw salt 32))"
  using assms(2)
proof (cases rule: randombytes_buf_cases [of fill "replicate SALT_BYTES 0"])
  case (err e)
  then show ?thesis using assms(3) by (simp add: hash_password_def)
next
  case (ok salt)
  then have h: "(hash_with_salt env pw salt s :: ('e, 'd, 'h) pw_hash_error + string) = Inr h" "length salt = 16"
    using assms(3) by (simp_all add: hash_password_def SALT_BYTES_def)
  then obtain tag where "hash_password_into_with_memory env Argon2id (cost s) pw salt 32 = Inr tag"
    by (cases "hash_password_into_with_memory env Argon2id (cost s) pw salt 32")
      (auto simp: hash_with_salt_def hash_into_reserved_memory_def split: if_splits)
  then show ?thesis using hash_with_salt_verifies [OF assms(1) h(2,1)] h(2) by auto
qed

text \<open>A package with the documented behaviour, for the witness: the tag is a cut of password and salt.\<close>

definition toy_argon2 :: "(unit, unit) argon2" where
  "toy_argon2 = \<lparr>
     params_new = (\<lambda>c _. Some c), block_count = (\<lambda>_. 8), try_reserve_exact = (\<lambda>_. True),
     hash_password_into_with_memory = (\<lambda>_ _ pw salt n. Inr (take n (pw @ salt @ replicate n 0))),
     into_hash_error = id,
     encode_b64 = (\<lambda>bs. Inr (map (\<lambda>b. char_of (unat b)) bs)),
     decode_b64 = (\<lambda>s. Some (map (\<lambda>c. of_nat (of_char c)) s)),
     params_string = (\<lambda>(m, t, p). Inr [(''m'', Some m), (''t'', Some t), (''p'', Some p)]),
     output_new = (\<lambda>tag. if length tag = 32 then Inr tag else Inl ()),
     phc_to_string = (\<lambda>p. (if phc_params p ! 0 = (''m'', Some 65536) then CHR ''i''
         else if phc_params p ! 0 = (''m'', Some 262144) then CHR ''m'' else CHR ''s'') #
       map (\<lambda>b. char_of (unat b)) (case phc_hash p of Some h \<Rightarrow> h | None \<Rightarrow> []) @ (case phc_salt p of Some s \<Rightarrow> s | None \<Rightarrow> [])),
     phc_parse = (\<lambda>s. case s of [] \<Rightarrow> None | c # cs \<Rightarrow>
       (case cost (if c = CHR ''i'' then Interactive else if c = CHR ''m'' then Moderate else Sensitive) of (m, t, p) \<Rightarrow>
         Some (own_phc [(''m'', Some m), (''t'', Some t), (''p'', Some p)] (drop 32 cs) (map (\<lambda>c. of_nat (of_char c)) (take 32 cs))))),
     output_MAX_LENGTH = 64, MIN_SALT_LEN = 8, MAX_P_COST = 0xFFFFFF\<rparr>"

lemma byte_mod_256 [simp]: "(of_nat (unat (b :: u8) mod 256) :: u8) = b"
  using unat_u8_less [of b] by simp

lemma toy_argon2_documented: "argon2_documented toy_argon2"
proof -
  have parse: "phc_parse toy_argon2 (phc_to_string toy_argon2 (own_phc ps b64 out)) = Some (own_phc ps b64 out)"
    if "encode_b64 toy_argon2 bs = Inr b64 \<and> params_string toy_argon2 (cost s) = Inr ps \<and> output_new toy_argon2 tag = Inr out"
    for bs ps b64 out s tag
    using that by (cases s) (auto simp: toy_argon2_def own_phc_def comp_def split: if_splits)
  show ?thesis unfolding argon2_documented_def
  proof (intro conjI allI impI)
    fix bs b64 s ps tag out
    assume "encode_b64 toy_argon2 bs = Inr b64 \<and> params_string toy_argon2 (cost s) = Inr ps \<and> output_new toy_argon2 tag = Inr out"
    then show "phc_parse toy_argon2 (phc_to_string toy_argon2 (own_phc ps b64 out)) = Some (own_phc ps b64 out)" by (rule parse)
  qed (auto simp: toy_argon2_def comp_def split: if_splits)
qed

theorem pwhash_verifies_own_hashes_witness:
  "\<exists>h. hash_password (\<lambda>n. Inr (replicate n 7) :: unit + bytes) toy_argon2 [1, 2] Moderate = Inr h \<and> verify_password toy_argon2 [1, 2] h"
proof -
  obtain h where h: "hash_password (\<lambda>n. Inr (replicate n 7) :: unit + bytes) toy_argon2 [1, 2] Moderate = Inr h"
    by (simp add: hash_password_def randombytes_buf_def hash_with_salt_def hash_into_reserved_memory_def toy_argon2_def SALT_BYTES_def)
  have "fills (\<lambda>n. Inr (replicate n 7) :: unit + bytes)" by (simp add: fills_def)
  from pwhash_verifies_own_hashes [OF toy_argon2_documented this h] h show ?thesis by blast
qed

text \<open>C33. Untrusted hash strings cannot buy unbounded work. \<open>verify_password\<close> asks for memory and for Argon2 only
  with at most 1 GiB of memory, at most the work of the strongest preset (the 64-bit product of the check does
  not wrap), the allowed parallelism and tags and salts within the limits: an Argon2 and an allocator that
  answer these requests as before and every other request in any other way give the same verdict. And it
  accepts exactly the well-formed strings, with one \<open>m\<close>, one \<open>t\<close> and one \<open>p\<close> in any order, within these limits
  and of one of the two algorithms at version 19, whose tag is what Argon2 returns. The hypothesis on the
  package is that \<open>Params::new\<close> keeps the costs it is given.\<close>

theorem verify_costs_bounded:
  fixes env :: "('d, 'h) argon2"
  assumes params: "\<forall>cs n ps. params_new env cs n = Some ps \<longrightarrow> ps = cs"
    and agree: "\<And>alg m t p salt n. unat m \<le> 2 ^ 20 \<Longrightarrow> unat m * unat t \<le> 2 ^ 22 \<Longrightarrow> p \<le> MAX_P_COST env \<Longrightarrow>
      16 \<le> n \<Longrightarrow> n \<le> output_MAX_LENGTH env \<Longrightarrow> MIN_SALT_LEN env \<le> length salt \<Longrightarrow>
      reserve' (block_count env (m, t, p)) = try_reserve_exact env (block_count env (m, t, p)) \<and>
      argon2' alg (m, t, p) pw salt n = hash_password_into_with_memory env alg (m, t, p) pw salt n"
  shows "verify_password (env\<lparr>try_reserve_exact := reserve', hash_password_into_with_memory := argon2'\<rparr>) pw hash = verify_password env pw hash \<and>
    (verify_password env pw hash \<longleftrightarrow>
      (\<exists>parsed b64 salt expected m t p alg. phc_parse env hash = Some parsed \<and> phc_salt parsed = Some b64 \<and> phc_hash parsed = Some expected \<and>
        mset (phc_params parsed) = {#(''m'', Some m), (''t'', Some t), (''p'', Some p)#} \<and> decode_b64 env b64 = Some salt \<and>
        (phc_algorithm parsed, alg) \<in> {(''argon2id'', Argon2id), (''argon2i'', Argon2i)} \<and> phc_version parsed = Some 0x13 \<and>
        unat m \<le> 2 ^ 20 \<and> unat m * unat t \<le> 2 ^ 22 \<and> p \<le> MAX_P_COST env \<and> 16 \<le> length expected \<and>
        length expected \<le> output_MAX_LENGTH env \<and> MIN_SALT_LEN env \<le> length salt \<and>
        params_new env (m, t, p) (Some (length expected)) \<noteq> None \<and> try_reserve_exact env (block_count env (m, t, p)) \<and>
        hash_password_into_with_memory env alg (m, t, p) pw salt (length expected) = Inr expected))"
proof -
  let ?env = "env\<lparr>try_reserve_exact := reserve', hash_password_into_with_memory := argon2'\<rparr>"
  have ag: "reserve' (block_count env (m, t, p)) = try_reserve_exact env (block_count env (m, t, p))"
    "argon2' alg (m, t, p) pw salt n = hash_password_into_with_memory env alg (m, t, p) pw salt n"
    if "admissible_request env (m, t, p) n (length salt)" for alg m t p salt n
    using agree [of m t p n salt alg] that by (simp_all add: admissible_request_def)
  have adm: "admissible_request ?env = admissible_request env" by (simp add: admissible_request_def fun_eq_iff)
  have "\<forall>cs n ps. params_new ?env cs n = Some ps \<longrightarrow> ps = cs" using params by simp
  from verify_password_iff [OF this] have "verify_password ?env pw hash = verify_password env pw hash"
    unfolding verify_password_iff [OF params] adm by (simp add: ag cong: conj_cong)
  then show ?thesis unfolding verify_password_iff [OF params] admissible_request_def by simp
qed

theorem verify_costs_bounded_witness:
  "\<exists>h. hash_password (\<lambda>n. Inr (replicate n 7) :: unit + bytes) toy_argon2 [1, 2] Moderate = Inr h \<and>
    verify_password (toy_argon2\<lparr>try_reserve_exact := (\<lambda>_. True),
      hash_password_into_with_memory := (\<lambda>alg (m, t, p) pw salt n. if 2 ^ 20 < unat m then Inl () else
        hash_password_into_with_memory toy_argon2 alg (m, t, p) pw salt n)\<rparr>) [1, 2] h =
    verify_password toy_argon2 [1, 2] h"
proof -
  have "try_reserve_exact toy_argon2 n" "params_new toy_argon2 cs k = Some ps \<longrightarrow> ps = cs" for n cs k ps
    by (simp_all add: toy_argon2_def)
  moreover obtain h where "hash_password (\<lambda>n. Inr (replicate n 7) :: unit + bytes) toy_argon2 [1, 2] Moderate = Inr h"
    by (simp add: hash_password_def randombytes_buf_def hash_with_salt_def hash_into_reserved_memory_def toy_argon2_def SALT_BYTES_def)
  ultimately show ?thesis
    using verify_costs_bounded [of toy_argon2 "\<lambda>_. True" "\<lambda>alg (m, t, p) pw salt n. if 2 ^ 20 < unat m then Inl () else
      hash_password_into_with_memory toy_argon2 alg (m, t, p) pw salt n" "[1, 2]" h] by auto
qed

end
