(* ===== verification/Passphrase_File.thy ===== *)
theory Passphrase_File
  imports Crypto_Pwhash Secretstream_Runs
begin

text \<open>
  \<open>crates/dstu-core/src/crypto_pwhash/passphrase_file.rs\<close>: a 28-byte header in front of a stream file
  whose key is derived from a passphrase. The two draws of randomness of \<open>seal_stream\<close> are the
  parameters \<open>fill\<close> (salt) and \<open>fill'\<close> (stream header).
\<close>

section \<open>Definitions\<close>

definition CONTAINER_TYPE :: u8 where "CONTAINER_TYPE = 0x50"
definition CONTAINER_VERSION :: u8 where "CONTAINER_VERSION = 0x01"
definition KDF_ARGON2ID13 :: u8 where "KDF_ARGON2ID13 = 0x01"
definition PREFIX_LEN :: nat where "PREFIX_LEN = 3 + 4 + 4 + 1"
definition pf_HEADER_BYTES :: nat where "pf_HEADER_BYTES = PREFIX_LEN + SALT_BYTES"
definition SEAL_STREAM_PREFIX_BYTES :: nat where "SEAL_STREAM_PREFIX_BYTES = pf_HEADER_BYTES + FILE_PREFIX_BYTES"
definition STRENGTH :: strength where "STRENGTH = Moderate"

lemmas pf_consts = CONTAINER_TYPE_def CONTAINER_VERSION_def KDF_ARGON2ID13_def PREFIX_LEN_def pf_HEADER_BYTES_def
  SEAL_STREAM_PREFIX_BYTES_def STRENGTH_def SALT_BYTES_def

datatype ('e, 'd, 'h) passphrase_file_error =
  NotPassphraseFile | UnsupportedFormat u8 u8 | UnsupportedParams u32 u32 u8 | EmptyPassphrase
| PwHash "('e, 'd, 'h) pw_hash_error"

definition stream_key ::
  "('d, 'h) argon2 \<Rightarrow> bytes \<Rightarrow> bytes \<Rightarrow> ('e, 'd, 'h) passphrase_file_error + bytes" where
  "stream_key env passphrase salt =
     (if passphrase = [] then Inl EmptyPassphrase else map_sum PwHash id (derive_key env passphrase salt STRENGTH))"

text \<open>\<open>None\<close> is the \<open>unreachable!\<close> of \<open>seal_stream\<close> and of the layers below.\<close>

definition seal_stream ::
  "(nat \<Rightarrow> 'e + bytes) \<Rightarrow> (nat \<Rightarrow> 'e + bytes) \<Rightarrow> ('d, 'h) argon2 \<Rightarrow> bytes \<Rightarrow>
   (('e, 'd, 'h) passphrase_file_error + file_encryptor \<times> bytes) option" where
  "seal_stream fill fill' env passphrase =
     (case randombytes_buf fill (replicate SALT_BYTES 0) of
        Inl e \<Rightarrow> Some (Inl (PwHash (pw_hash_error.Random e)))
      | Inr salt \<Rightarrow>
     (case stream_key env passphrase salt of
        Inl e \<Rightarrow> Some (Inl e)
      | Inr key \<Rightarrow>
     (case file_encryptor_init fill' key of
        None \<Rightarrow> None
      | Some (Inl (file_error.Random e)) \<Rightarrow> Some (Inl (PwHash (pw_hash_error.Random e)))
      | Some (Inl _) \<Rightarrow> None
      | Some (Inr (enc, file_prefix)) \<Rightarrow>
          (let (m_cost, t_cost, p_cost) = cost STRENGTH;
               prefix = replicate SEAL_STREAM_PREFIX_BYTES 0;
               prefix = write_at prefix 0 [CONTAINER_TYPE, CONTAINER_VERSION, KDF_ARGON2ID13];
               prefix = write_at prefix 3 (to_le_bytes 4 m_cost);
               prefix = write_at prefix 7 (to_le_bytes 4 t_cost);
               prefix = prefix[11 := (if unat p_cost < 256 then ucast p_cost else 0xFF)];
               prefix = write_at prefix PREFIX_LEN salt;
               prefix = write_at prefix pf_HEADER_BYTES file_prefix
           in Some (Inr (enc, prefix))))))"

record pf_header =
  pf_salt :: bytes

definition header_parse :: "bytes \<Rightarrow> ('e, 'd, 'h) passphrase_file_error + pf_header" where
  "header_parse header =
     (let kind = header ! 0; version = header ! 1; kdf = header ! 2; p = header ! 11; salt = drop 12 header in
      if kind \<noteq> CONTAINER_TYPE then Inl NotPassphraseFile
      else if version \<noteq> CONTAINER_VERSION \<or> kdf \<noteq> KDF_ARGON2ID13 then Inl (UnsupportedFormat version kdf)
      else let m_cost = from_le_bytes [header ! 3, header ! 4, header ! 5, header ! 6];
               t_cost = from_le_bytes [header ! 7, header ! 8, header ! 9, header ! 10] in
        if from_cost m_cost t_cost (ucast p) \<noteq> Some STRENGTH then Inl (UnsupportedParams m_cost t_cost p)
        else Inr \<lparr>pf_salt = salt\<rparr>)"

definition open_stream ::
  "('d, 'h) argon2 \<Rightarrow> pf_header \<Rightarrow> bytes \<Rightarrow> ('e, 'd, 'h) passphrase_file_error + file_decryptor" where
  "open_stream env self passphrase =
     (case stream_key env passphrase (pf_salt self) of
        Inl e \<Rightarrow> Inl e
      | Inr key \<Rightarrow> Inr (file_decryptor_new key))"

section \<open>The header\<close>

definition pf_header_bytes :: "bytes \<Rightarrow> bytes" where
  "pf_header_bytes salt = [0x50, 1, 1, 0, 0, 4, 0, 3, 0, 0, 0, 1] @ salt"

lemma preset_bytes:
  "to_le_bytes 4 (262144 :: u32) = [0, 0, 4, 0]" "to_le_bytes 4 (3 :: u32) = [3, 0, 0, 0]"
  by (simp_all add: to_le_bytes_def upt_rec)

lemma le_bytes_4_iff:
  "(from_le_bytes [a, b, c, d] :: u32) = w \<longleftrightarrow> [a, b, c, d] = to_le_bytes 4 w"
proof
  have "to_le_bytes 4 (from_le_bytes [a, b, c, d] :: u32) = [a, b, c, d]" by (rule to_from_le_bytes) simp_all
  then show "(from_le_bytes [a, b, c, d] :: u32) = w \<Longrightarrow> [a, b, c, d] = to_le_bytes 4 w" by simp
  show "[a, b, c, d] = to_le_bytes 4 w \<Longrightarrow> (from_le_bytes [a, b, c, d] :: u32) = w" by simp
qed

lemma header_list:
  assumes "length header = 28"
  obtains h0 h1 h2 h3 h4 h5 h6 h7 h8 h9 h10 h11 salt where
    "header = [h0, h1, h2, h3, h4, h5, h6, h7, h8, h9, h10, h11] @ salt" "length salt = 16"
proof
  have "header = take 12 header @ drop 12 header" by simp
  moreover have "take 12 header = map ((!) header) [0..<12]" using assms by (intro nth_equalityI) simp_all
  moreover have "[0..<12] = [0, 1, 2, 3, 4, 5, 6, 7, 8, 9, 10, 11 :: nat]" by (simp add: upt_rec)
  ultimately show "header = [header ! 0, header ! 1, header ! 2, header ! 3, header ! 4, header ! 5, header ! 6, header ! 7,
      header ! 8, header ! 9, header ! 10, header ! 11] @ drop 12 header"
    by (simp only: list.map)
  show "length (drop 12 header) = 16" using assms by simp
qed

lemma header_parse_ok_iff:
  assumes "length header = 28"
  shows "header_parse header = Inr h \<longleftrightarrow> header = pf_header_bytes (pf_salt h)"
proof -
  obtain h0 h1 h2 h3 h4 h5 h6 h7 h8 h9 h10 h11 salt where
    h: "header = [h0, h1, h2, h3, h4, h5, h6, h7, h8, h9, h10, h11] @ salt" "length salt = 16"
    by (rule header_list [OF assms])
  have "unat (ucast h11 :: u32) = unat h11" using unat_u8_less [of h11] by (simp add: unsigned_ucast_eq take_bit_nat_eq_self)
  then have p: "(1 :: u32) = ucast h11 \<longleftrightarrow> h11 = 1" by (auto simp: word_unat_eq_iff)
  show ?thesis
    using h(2) by (cases h) (auto simp: h(1) header_parse_def pf_consts from_cost_iff pf_header_bytes_def Let_def le_bytes_4_iff preset_bytes p
        dest!: sym [of _ "from_le_bytes _"])
qed

lemma header_parse_accepts: "length salt = 16 \<Longrightarrow> header_parse (pf_header_bytes salt) = Inr \<lparr>pf_salt = salt\<rparr>"
  by (subst header_parse_ok_iff) (simp_all add: pf_header_bytes_def)

lemma prefix_layout:
  assumes "length salt = 16" "length fp = 33"
  shows "write_at (write_at ((write_at (write_at (write_at (replicate 61 0) 0 [0x50, 1, 1]) 3 [0, 0, 4, 0]) 7 [3, 0, 0, 0])[11 := 1]) 12 salt) 28 fp =
    pf_header_bytes salt @ fp"
proof -
  have fields: "(write_at (write_at (write_at ([0, 0, 0, 0, 0, 0, 0, 0, 0, 0, 0, 0] @ zs) 0 [0x50, 1, 1]) 3 [0, 0, 4, 0]) 7 [3, 0, 0, 0])[11 := 1] =
      [0x50, 1, 1, 0, 0, 4, 0, 3, 0, 0, 0, 1] @ zs" for zs :: bytes
    by (simp add: write_at_def)
  have "replicate 61 0 = [0, 0, 0, 0, 0, 0, 0, 0, 0, 0, 0, 0] @ replicate 49 (0 :: u8)" by (simp add: numeral_eq_Suc)
  then show ?thesis using fields [of "replicate 49 0"] assms by (simp only:) (simp add: write_at_def pf_header_bytes_def)
qed

lemma seal_stream_outcomes:
  fixes fill fill' :: "nat \<Rightarrow> 'e + bytes" and env :: "('d, 'h) argon2"
  assumes "argon2_documented env" "fills fill" "fills fill'"
  obtains (err) e where "seal_stream fill fill' env pw = Some (Inl e)" "e = EmptyPassphrase \<and> pw = [] \<or> (\<exists>x. e = PwHash x)"
    | (ok) salt key enc fp where "length salt = 16" "(stream_key env pw salt :: ('e, 'd, 'h) passphrase_file_error + bytes) = Inr key"
      "length key = 32" "file_encryptor_init fill' key = Some (Inr (enc, fp))"
      "seal_stream fill fill' env pw = Some (Inr (enc, pf_header_bytes salt @ fp))"
  using assms(2)
proof (cases rule: randombytes_buf_cases [of fill "replicate SALT_BYTES 0"])
  case (err e)
  then show ?thesis using that(1) [of "PwHash (pw_hash_error.Random (RandomError e))"] by (simp add: seal_stream_def)
next
  case (ok salt)
  then have salt: "length salt = 16" by (simp add: SALT_BYTES_def)
  show ?thesis
  proof (cases "stream_key env pw salt :: ('e, 'd, 'h) passphrase_file_error + bytes")
    case (Inl e)
    then have "e = EmptyPassphrase \<and> pw = [] \<or> (\<exists>x. e = PwHash x)"
      by (cases "derive_key env pw salt STRENGTH :: ('e, 'd, 'h) pw_hash_error + bytes") (auto simp: stream_key_def split: if_splits)
    then show ?thesis using that(1) ok Inl by (simp add: seal_stream_def)
  next
    case (Inr key)
    then have key: "length key = 32"
      using argon2_documentedD(5) [OF assms(1)]
      by (cases "hash_password_into_with_memory env Argon2id (cost STRENGTH) pw salt KEY_BYTES")
        (auto simp: stream_key_def derive_key_def hash_into_reserved_memory_def KEY_BYTES_def split: if_splits)
    from assms(3) this show ?thesis
    proof (cases rule: init_outcomes)
      case (err e)
      then show ?thesis using that(1) [of "PwHash (pw_hash_error.Random e)"] ok Inr by (simp add: seal_stream_def)
    next
      case init: (ok enc fp)
      have "seal_stream fill fill' env pw = Some (Inr (enc, pf_header_bytes salt @ fp))"
        using ok Inr init prefix_layout [OF salt init(2)]
        by (simp add: seal_stream_def pf_consts preset_bytes)
      then show ?thesis using that(2) [OF salt Inr key init(1)] by simp
    qed
  qed
qed

section \<open>Properties\<close>

text \<open>C29. A passphrase file opens under its passphrase: \<open>seal_stream\<close> never reaches its \<open>unreachable!\<close> and
  fails only for an empty passphrase, the generator or Argon2; otherwise the records sealed after
  its prefix make a file whose header is accepted, whose key is derived again from the passphrase,
  and whose stream opens to the plaintext.\<close>

theorem passphrase_file_roundtrip:
  fixes fill fill' :: "nat \<Rightarrow> 'e + bytes" and env :: "('d, 'h) argon2"
  assumes "\<forall>clm \<in> set_option hw. multiplies_carryless clm" "argon2_documented env" "fills fill" "fills fill'" "length pt < 2 ^ 63"
  shows "case seal_stream fill fill' env pw of
      None \<Rightarrow> False
    | Some (Inl err) \<Rightarrow> err = EmptyPassphrase \<and> pw = [] \<or> (\<exists>x. err = PwHash x)
    | Some (Inr (enc, prefix)) \<Rightarrow>
        \<exists>enc' inp h dec dec'. seal_all hw enc pt prefix = Some (Inr () :: 'e file_error + unit, enc', inp) \<and>
          (header_parse (take 28 inp) :: ('e, 'd, 'h) passphrase_file_error + pf_header) = Inr h \<and>
          (open_stream env h pw :: ('e, 'd, 'h) passphrase_file_error + file_decryptor) = Inr dec \<and>
          open_all hw dec (drop 28 inp) = Some (Inr pt :: 'e file_error + bytes, dec')"
  using assms(2-4)
proof (cases rule: seal_stream_outcomes [of env fill fill' pw])
  case (err e)
  then show ?thesis by simp
next
  case (ok salt key enc fp)
  obtain enc' inp dec' where s: "seal_all hw enc pt fp = Some (Inr () :: 'e file_error + unit, enc', inp)"
    "open_all hw (file_decryptor_new key) inp = Some (Inr pt :: 'e file_error + bytes, dec')"
    using file_roundtrip [OF assms(1,4) ok(3,4) assms(5)] by blast
  have "seal_all hw enc pt (pf_header_bytes salt @ fp) = Some (Inr () :: 'e file_error + unit, enc', pf_header_bytes salt @ inp)"
    using s(1) by (simp add: seal_all_def seal_loop_out)
  moreover have "length (pf_header_bytes salt) = 28" using ok(1) by (simp add: pf_header_bytes_def)
  ultimately show ?thesis using ok s(2) by (simp add: header_parse_accepts open_stream_def)
qed

theorem passphrase_file_roundtrip_witness:
  "\<exists>enc prefix enc' inp h dec dec'.
     seal_stream (\<lambda>n. Inr (replicate n 3) :: unit + bytes) (\<lambda>n. Inr (replicate n 4)) toy_argon2 [1] = Some (Inr (enc, prefix)) \<and>
     seal_all None enc [7, 8, 9] prefix = Some (Inr () :: unit file_error + unit, enc', inp) \<and>
     (header_parse (take 28 inp) :: (unit, unit, unit) passphrase_file_error + pf_header) = Inr h \<and>
     (open_stream toy_argon2 h [1] :: (unit, unit, unit) passphrase_file_error + file_decryptor) = Inr dec \<and>
     open_all None dec (drop 28 inp) = Some (Inr [7, 8, 9] :: unit file_error + bytes, dec')"
proof -
  let ?fill = "\<lambda>n. Inr (replicate n 3) :: unit + bytes" let ?fill' = "\<lambda>n. Inr (replicate n 4) :: unit + bytes"
  have f: "fills ?fill" "fills ?fill'" by (simp_all add: fills_def)
  have "\<nexists>e. seal_stream ?fill ?fill' toy_argon2 [1] = Some (Inl e)"
    by (simp add: seal_stream_def randombytes_buf_def stream_key_def derive_key_def hash_into_reserved_memory_def toy_argon2_def
        file_encryptor_init_def push_init_def initial_subkey_total KEY_BYTES_def pf_consts)
  then show ?thesis
    using passphrase_file_roundtrip [OF _ toy_argon2_documented f, where hw = None and pw = "[1]" and pt = "[7, 8, 9]"]
    by (auto split: option.splits sum.splits prod.splits)
qed

text \<open>A reader runs Argon2 only with the one preset: a 28-byte header is accepted exactly when it
  is the container's marker, version, function and the preset's costs in front of any salt, and the
  error of a refused header names the first field that differs.\<close>

theorem passphrase_header_exact:
  assumes "length header = 28"
  shows "((header_parse header :: ('e, 'd, 'h) passphrase_file_error + pf_header) = Inr h \<longleftrightarrow>
      header = [0x50, 1, 1] @ to_le_bytes 4 (fst (cost Moderate)) @ to_le_bytes 4 (fst (snd (cost Moderate))) @ [1] @ pf_salt h) \<and>
    ((header_parse header :: ('e, 'd, 'h) passphrase_file_error + pf_header) = Inl NotPassphraseFile \<longleftrightarrow> header ! 0 \<noteq> 0x50) \<and>
    ((header_parse header :: ('e, 'd, 'h) passphrase_file_error + pf_header) = Inl (UnsupportedFormat v k) \<longleftrightarrow>
      header ! 0 = 0x50 \<and> header ! 1 = v \<and> header ! 2 = k \<and> (v \<noteq> 1 \<or> k \<noteq> 1))"
  using header_parse_ok_iff [OF assms, where h = h]
  by (auto simp: pf_header_bytes_def preset_bytes) (auto simp: header_parse_def pf_consts Let_def split: if_splits)

theorem passphrase_header_exact_witness:
  "(header_parse ([0x50, 1, 1, 0, 0, 4, 0, 3, 0, 0, 0, 1] @ replicate 16 9) :: (unit, unit, unit) passphrase_file_error + pf_header) =
     Inr \<lparr>pf_salt = replicate 16 9\<rparr>"
  using passphrase_header_exact [where header = "[0x50, 1, 1, 0, 0, 4, 0, 3, 0, 0, 0, 1] @ replicate 16 9"
      and h = "\<lparr>pf_salt = replicate 16 9\<rparr>" and 'e = unit and 'd = unit and 'h = unit]
  by (simp add: preset_bytes)

end
