(* ===== verification/Keyfile.thy ===== *)
theory Keyfile
  imports Crypto_Secretstream
begin

text \<open>
  \<open>crates/uacrypt/src/keyfile.rs\<close>: the typed key files of the command line, one text line
  \<open><prefix>:<hex key>:<hex check>\<close>. The branch-free hexadecimal routines compute on \<open>i32\<close> values between
  \<open>-128\<close> and \<open>383\<close>, modelled as \<^typ>\<open>int\<close> (\<open>>>\<close> is the arithmetic shift); \<open>None\<close> is a panic of the
  hash function, which never happens. Reading the file itself is the outcome \<open>contents\<close>.
\<close>

section \<open>Definitions\<close>

definition CHECK_DOMAIN :: bytes where "CHECK_DOMAIN = ascii ''uacrypt-key-v1''"
definition CHECK_LEN :: nat where "CHECK_LEN = 4"
definition MAX_KEY_FILE_BYTES :: nat where "MAX_KEY_FILE_BYTES = 256"

datatype key_kind =
  Symmetric | Sign163Secret | Sign163Public | Sign257Secret | Sign257Public
| Box256Secret | Box256Public | Box384Secret | Box384Public | Box512Secret | Box512Public

definition ALL_KINDS :: "key_kind list" where
  "ALL_KINDS = [Symmetric, Sign163Secret, Sign163Public, Sign257Secret, Sign257Public,
     Box256Secret, Box256Public, Box384Secret, Box384Public, Box512Secret, Box512Public]"

fun kind_prefix :: "key_kind \<Rightarrow> string" where
  "kind_prefix Symmetric = ''UACRYPT-SECRET-SYMMETRIC''"
| "kind_prefix Sign163Secret = ''UACRYPT-SECRET-SIGN163''"
| "kind_prefix Sign163Public = ''uacrypt-sign163-public''"
| "kind_prefix Sign257Secret = ''UACRYPT-SECRET-SIGN257''"
| "kind_prefix Sign257Public = ''uacrypt-sign257-public''"
| "kind_prefix Box256Secret = ''UACRYPT-SECRET-BOX256''"
| "kind_prefix Box256Public = ''uacrypt-box256-public''"
| "kind_prefix Box384Secret = ''UACRYPT-SECRET-BOX384''"
| "kind_prefix Box384Public = ''uacrypt-box384-public''"
| "kind_prefix Box512Secret = ''UACRYPT-SECRET-BOX512''"
| "kind_prefix Box512Public = ''uacrypt-box512-public''"

fun key_len :: "key_kind \<Rightarrow> nat" where
  "key_len Sign163Secret = 21"
| "key_len Symmetric = 32" | "key_len Box256Secret = 32" | "key_len Box256Public = 32"
| "key_len Sign257Secret = 33"
| "key_len Sign163Public = 42"
| "key_len Box384Secret = 48" | "key_len Box384Public = 48"
| "key_len Sign257Public = 66"
| "key_len Box512Secret = 64" | "key_len Box512Public = 64"

definition is_secret :: "key_kind \<Rightarrow> bool" where
  "is_secret self \<longleftrightarrow> self \<in> {Symmetric, Sign163Secret, Sign257Secret, Box256Secret, Box384Secret, Box512Secret}"

fun kind_name :: "key_kind \<Rightarrow> string" where
  "kind_name Symmetric = ''symmetric''"
| "kind_name Sign163Secret = ''sign163-secret''"
| "kind_name Sign163Public = ''sign163-public''"
| "kind_name Sign257Secret = ''sign257-secret''"
| "kind_name Sign257Public = ''sign257-public''"
| "kind_name Box256Secret = ''box256-secret''"
| "kind_name Box256Public = ''box256-public''"
| "kind_name Box384Secret = ''box384-secret''"
| "kind_name Box384Public = ''box384-public''"
| "kind_name Box512Secret = ''box512-secret''"
| "kind_name Box512Public = ''box512-public''"

fun label :: "key_kind \<Rightarrow> string" where
  "label Symmetric = ''symmetric key (for encrypt/decrypt)''"
| "label Sign163Secret = ''signing key (DSTU 4145, m=163)''"
| "label Sign163Public = ''verifying key (DSTU 4145, m=163)''"
| "label Sign257Secret = ''signing key (DSTU 4145, m=257)''"
| "label Sign257Public = ''verifying key (DSTU 4145, m=257)''"
| "label Box256Secret = ''box secret key (DSTU 9041, l(p)=256)''"
| "label Box256Public = ''box public key (DSTU 9041, l(p)=256)''"
| "label Box384Secret = ''box secret key (DSTU 9041, l(p)=384)''"
| "label Box384Public = ''box public key (DSTU 9041, l(p)=384)''"
| "label Box512Secret = ''box secret key (DSTU 9041, l(p)=512)''"
| "label Box512Public = ''box public key (DSTU 9041, l(p)=512)''"

fun made_by :: "key_kind \<Rightarrow> string" where
  "made_by Symmetric = ''uacrypt keygen''"
| "made_by Sign163Secret = ''uacrypt sign-keygen''"
| "made_by Sign257Secret = ''uacrypt sign-keygen257''"
| "made_by Sign163Public = ''uacrypt sign-pubkey''"
| "made_by Sign257Public = ''uacrypt sign-pubkey''"
| "made_by Box256Secret = ''uacrypt box-keygen''"
| "made_by Box384Secret = ''uacrypt box-keygen384''"
| "made_by Box512Secret = ''uacrypt box-keygen512''"
| "made_by Box256Public = ''uacrypt box-pubkey''"
| "made_by Box384Public = ''uacrypt box-pubkey''"
| "made_by Box512Public = ''uacrypt box-pubkey''"

definition parse_name :: "string \<Rightarrow> key_kind option" where
  "parse_name v = List.find (\<lambda>k. kind_name k = v) ALL_KINDS"

definition kind_names :: "string list" where
  "kind_names = map kind_name ALL_KINDS"

definition join :: "string \<Rightarrow> string list \<Rightarrow> string" where
  "join sep parts = (case parts of [] \<Rightarrow> [] | p # ps \<Rightarrow> p @ concat (map (\<lambda>q. sep @ q) ps))"

definition wrong_kind_hint :: "key_kind list \<Rightarrow> string" where
  "wrong_kind_hint expected =
     (let makers = foldl (\<lambda>makers maker. if maker \<in> set makers then makers else makers @ [maker]) []
            (map (\<lambda>k. ''`'' @ made_by k @ ''`'') expected)
      in ''make the right key with '' @ join '' or '' makers)"

datatype decode_error = NotTyped | Malformed key_kind | CheckMismatch key_kind

definition check_value :: "key_kind \<Rightarrow> bytes \<Rightarrow> bytes option" where
  "check_value kind key = do {
     hasher \<leftarrow> hasher_update Kupyna256 (hasher_new Kupyna256) CHECK_DOMAIN;
     hasher \<leftarrow> hasher_update Kupyna256 hasher [0];
     hasher \<leftarrow> hasher_update Kupyna256 hasher (ascii (kind_prefix kind));
     hasher \<leftarrow> hasher_update Kupyna256 hasher [0];
     hasher \<leftarrow> hasher_update Kupyna256 hasher key;
     digest \<leftarrow> hasher_finalize Kupyna256 hasher;
     Some (take CHECK_LEN digest)
   }"

definition hex_digit :: "u8 \<Rightarrow> u8" where
  "hex_digit n =
     (let n = uint n;
          letter_gap = drop_bit 31 (9 - n) AND 39
      in of_int (n + 0x30 + letter_gap))"

definition hex_value :: "u8 \<Rightarrow> u8 \<times> u8" where
  "hex_value c =
     (let c = uint c;
          d = c - 0x30;
          l = c - 0x61 + 10;
          d_ok = NOT (drop_bit 31 (d OR (9 - d))) AND 1;
          l_ok = NOT (drop_bit 31 ((l - 10) OR (15 - l))) AND 1;
          v = (d AND - d_ok) OR (l AND - l_ok)
      in (of_int v, of_int (d_ok OR l_ok)))"

fun decode_hex_loop :: "bytes list \<Rightarrow> bytes \<Rightarrow> u8 \<Rightarrow> bytes \<times> u8" where
  "decode_hex_loop (pair # pairs) (b # out) ok =
     (let (hi, hi_ok) = hex_value (pair ! 0);
          (lo, lo_ok) = hex_value (pair ! 1);
          (out, ok) = decode_hex_loop pairs out (ok AND (hi_ok AND lo_ok))
      in ((push_bit 4 hi OR lo) # out, ok))"
| "decode_hex_loop _ out ok = (out, ok)"

definition decode_hex :: "bytes \<Rightarrow> bytes \<Rightarrow> bytes \<times> u8" where
  "decode_hex hex out = decode_hex_loop (chunks_exact 2 hex) out 1"

text \<open>The two loops of \<open>encode\<close> that push the digits of a byte string.\<close>

definition push_hex :: "bytes \<Rightarrow> bytes" where
  "push_hex bs = concat (map (\<lambda>b. [hex_digit (drop_bit 4 b), hex_digit (b AND 0x0F)]) bs)"

definition encode :: "key_kind \<Rightarrow> bytes \<Rightarrow> bytes option" where
  "encode kind key = do {
     check \<leftarrow> check_value kind key;
     Some (ascii (kind_prefix kind) @ [0x3A] @ push_hex key @ [0x3A] @ push_hex check @ [0x0A])
   }"

text \<open>The standard library's \<open>{:02x}\<close> of a byte.\<close>

definition fmt_02x :: "u8 \<Rightarrow> string" where
  "fmt_02x b = [''0123456789abcdef'' ! (unat b div 16), ''0123456789abcdef'' ! (unat b mod 16)]"

definition check_hex :: "key_kind \<Rightarrow> bytes \<Rightarrow> string option" where
  "check_hex kind key = do {
     check \<leftarrow> check_value kind key;
     Some (foldl (\<lambda>out b. out @ fmt_02x b) [] check)
   }"

definition SNIFF_LEN :: nat where "SNIFF_LEN = 28"

definition strip_prefix :: "bytes \<Rightarrow> bytes \<Rightarrow> bytes option" where
  "strip_prefix p s = (if take (length p) s = p then Some (drop (length p) s) else None)"

definition strip_suffix :: "bytes \<Rightarrow> bytes \<Rightarrow> bytes option" where
  "strip_suffix p s =
     (if length p \<le> length s \<and> drop (length s - length p) s = p then Some (take (length s - length p) s) else None)"

definition sniff_kind :: "bytes \<Rightarrow> key_kind option" where
  "sniff_kind head =
     (let head = (case strip_prefix [0xEF, 0xBB, 0xBF] head of Some rest \<Rightarrow> rest | None \<Rightarrow> head)
      in List.find (\<lambda>kind. case strip_prefix (ascii (kind_prefix kind)) head of
           Some (c # _) \<Rightarrow> c = 0x3A | _ \<Rightarrow> False) ALL_KINDS)"

definition key_line :: "bytes \<Rightarrow> bytes" where
  "key_line text =
     (case strip_suffix [0x0D, 0x0A] text of Some l \<Rightarrow> l
      | None \<Rightarrow> (case strip_suffix [0x0A] text of Some l \<Rightarrow> l | None \<Rightarrow> text))"

definition decode :: "bytes \<Rightarrow> (decode_error + key_kind \<times> bytes) option" where
  "decode text =
     (let line = key_line text in
      case List.find (\<lambda>k. let p = ascii (kind_prefix k) in
             length line > length p \<and> take (length p) line = p \<and> line ! length p = 0x3A) ALL_KINDS of
        None \<Rightarrow> Some (Inl NotTyped)
      | Some kind \<Rightarrow>
          let key_start = length (kind_prefix kind) + 1;
              key_end = key_start + 2 * key_len kind in
          if length line \<noteq> key_end + 1 + 2 * CHECK_LEN \<or> line ! key_end \<noteq> 0x3A then Some (Inl (Malformed kind))
          else
            let (key, ok1) = decode_hex (slice key_start key_end line) (replicate (key_len kind) 0);
                (check, ok2) = decode_hex (drop (key_end + 1) line) (replicate CHECK_LEN 0) in
            if ok1 AND ok2 \<noteq> 1 then Some (Inl (Malformed kind))
            else do {
              expected \<leftarrow> check_value kind key;
              Some (if expected \<noteq> check then Inl (CheckMismatch kind) else Inr (kind, key))
            })"

datatype 'io key_error =
  Io 'io | KeyFileNotTyped | KeyFileMalformed key_kind | KeyCheckMismatch key_kind | KeyKindMismatch key_kind "key_kind list"

fun from_decode_error :: "decode_error \<Rightarrow> 'io key_error" where
  "from_decode_error NotTyped = KeyFileNotTyped"
| "from_decode_error (Malformed kind) = KeyFileMalformed kind"
| "from_decode_error (CheckMismatch kind) = KeyCheckMismatch kind"

definition read_key :: "'io + bytes \<Rightarrow> key_kind list \<Rightarrow> ('io key_error + key_kind \<times> bytes) option" where
  "read_key contents expected =
     (case contents of
        Inl e \<Rightarrow> Some (Inl (Io e))
      | Inr content \<Rightarrow> do {
          r \<leftarrow> decode (take (MAX_KEY_FILE_BYTES + 1) content);
          Some (case r of
            Inl e \<Rightarrow> Inl (from_decode_error e)
          | Inr (kind, key) \<Rightarrow>
              if kind \<notin> set expected then Inl (KeyKindMismatch kind expected) else Inr (kind, key))
        })"

section \<open>Hexadecimal without branches\<close>

lemma sign_shift: "- 2147483648 \<le> x \<Longrightarrow> x < 2147483648 \<Longrightarrow> drop_bit 31 (x :: int) = (if x < 0 then - 1 else 0)"
  by (auto simp: drop_bit_eq_div div_pos_neg_trivial zdiv_eq_0_iff)

lemma byte_int: "0 \<le> uint (c :: u8)" "uint c < 256"
  using unsigned_less [of c, where 'a = int] by simp_all

lemma hex_value_cases:
  "hex_value c = (if 48 \<le> uint c \<and> uint c \<le> 57 then (c - 48, 1) else if 97 \<le> uint c \<and> uint c \<le> 102 then (c - 87, 1) else (0, 0))"
proof -
  note c = byte_int [of c]
  have s: "drop_bit 31 (uint c - 0x30 OR (9 - (uint c - 0x30))) = (if 48 \<le> uint c \<and> uint c \<le> 57 then 0 else - 1)"
    "drop_bit 31 (uint c - 0x61 + 10 - 10 OR (15 - (uint c - 0x61 + 10))) = (if 97 \<le> uint c \<and> uint c \<le> 102 then 0 else - 1)"
    unfolding drop_bit_or using c by (simp_all add: sign_shift)
  have w: "of_int (uint c - 48) = c - 48" "of_int (uint c - 87) = c - 87" by simp_all
  show ?thesis unfolding hex_value_def Let_def s using w by (simp add: algebra_simps)
qed

lemma byte_shift:
  "0 \<le> uint c + k \<Longrightarrow> uint c + k < 256 \<Longrightarrow> uint (c + of_int k :: u8) = uint c + k"
  "0 \<le> uint c - k \<Longrightarrow> uint c - k < 256 \<Longrightarrow> uint (c - of_int k :: u8) = uint c - k"
  by (simp_all add: uint_word_ariths uint_word_of_int mod_simps)

lemma hex_digit_cases: "uint n < 16 \<Longrightarrow> hex_digit n = (if uint n \<le> 9 then n + 48 else n + 87)"
proof -
  assume "uint n < 16"
  moreover have "- 2147483648 \<le> 9 - uint n" "9 - uint n < 2147483648" using byte_int [of n] by linarith+
  from sign_shift [OF this] have "drop_bit 31 (9 - uint n) = (if 9 < uint n then - 1 else 0)" by simp
  ultimately show ?thesis by (simp add: hex_digit_def Let_def)
qed

lemma hex_value_digit: "uint n < 16 \<Longrightarrow> hex_value (hex_digit n) = (n, 1)"
  using byte_int [of n] byte_shift(1) [of n 48] byte_shift(1) [of n 87] by (simp add: hex_digit_cases hex_value_cases)

lemma hex_digit_value:
  assumes "hex_value c = (v, 1)"
  shows "uint v < 16" "hex_digit v = c"
proof -
  have "48 \<le> uint c \<and> uint c \<le> 57 \<and> v = c - 48 \<or> 97 \<le> uint c \<and> uint c \<le> 102 \<and> v = c - 87"
    using assms by (auto simp: hex_value_cases split: if_splits)
  then have "uint v < 16 \<and> hex_digit v = c"
    using byte_shift(2) [of c 48] byte_shift(2) [of c 87] by (auto simp: hex_digit_cases)
  then show "uint v < 16" "hex_digit v = c" by simp_all
qed

lemma hex_value_ok: "hex_value c = (v, ok) \<Longrightarrow> ok = 0 \<or> ok = 1"
  by (auto simp: hex_value_cases split: if_splits)

lemma nibbles: "push_bit 4 (drop_bit 4 b) OR (b AND 0x0F) = (b :: u8)" "uint (drop_bit 4 b) < 16" "uint (b AND 0x0F) < 16"
proof -
  have low: "b AND 0x0F = take_bit 4 b" by (simp add: take_bit_eq_mask mask_eq_exp_minus_1)
  show "push_bit 4 (drop_bit 4 b) OR (b AND 0x0F) = b" unfolding low by (rule bit_word_eqI) (auto simp: bit_simps)
  show "uint (drop_bit 4 b) < 16" using byte_int [of b] by (simp add: drop_bit_eq_div uint_div)
  show "uint (b AND 0x0F) < 16" unfolding low by (simp add: take_bit_eq_mod uint_mod)
qed

lemma nibbles_of:
  assumes "uint hi < 16" "uint (lo :: u8) < 16"
  shows "drop_bit 4 (push_bit 4 hi OR lo) = hi" "(push_bit 4 hi OR lo) AND 0x0F = lo"
proof -
  have hl: "take_bit 4 hi = hi" "take_bit 4 lo = lo" using assms by (simp_all add: take_bit_eq_mod word_uint_eq_iff uint_mod)
  then have b: "bit hi n \<Longrightarrow> n < 4" "bit lo n \<Longrightarrow> n < 4" for n by (metis bit_take_bit_iff)+
  have low: "x AND 0x0F = take_bit 4 x" for x :: u8 by (simp add: take_bit_eq_mask mask_eq_exp_minus_1)
  show "drop_bit 4 (push_bit 4 hi OR lo) = hi" by (rule bit_word_eqI) (auto simp: bit_simps dest: b)
  show "(push_bit 4 hi OR lo) AND 0x0F = lo" unfolding low by (rule bit_word_eqI) (auto simp: bit_simps dest: b)
qed

lemma push_hex_simps [simp]:
  "push_hex [] = []" "push_hex (b # bs) = hex_digit (drop_bit 4 b) # hex_digit (b AND 0x0F) # push_hex bs"
  "length (push_hex bs) = 2 * length bs"
  by (simp_all add: push_hex_def) (induction bs; simp)

lemma decode_hex_loop_ok: "ok = 0 \<or> ok = 1 \<Longrightarrow> snd (decode_hex_loop ps out ok) = 0 \<or> snd (decode_hex_loop ps out ok) = 1"
proof (induction ps out ok rule: decode_hex_loop.induct)
  case (1 pair pairs b out ok)
  obtain hi hi_ok where h: "hex_value (pair ! 0) = (hi, hi_ok)" by fastforce
  obtain lo lo_ok where l: "hex_value (pair ! 1) = (lo, lo_ok)" by fastforce
  have "ok AND (hi_ok AND lo_ok) = 0 \<or> ok AND (hi_ok AND lo_ok) = 1"
    using 1(2) hex_value_ok [OF h] hex_value_ok [OF l] by auto
  from 1(1) [OF h [symmetric] refl l [symmetric] refl this] show ?case using h l by (simp add: case_prod_beta)
qed auto

lemma decode_hex_loop_zero: "snd (decode_hex_loop ps out 0) = 0"
proof (induction ps arbitrary: out)
  case (Cons pair pairs)
  then show ?case by (cases out) (simp_all add: case_prod_beta)
qed simp

lemma decode_hex_loop_iff:
  "length hex = 2 * length out \<Longrightarrow> decode_hex_loop (chunks_exact 2 hex) out 1 = (bs, 1) \<longleftrightarrow> length bs = length out \<and> hex = push_hex bs"
proof (induction out arbitrary: hex bs)
  case (Cons b out)
  then obtain x y rest where hex: "hex = x # y # rest" "length rest = 2 * length out" by (auto simp: length_Suc_conv)
  have ch: "chunks_exact 2 hex = [x, y] # chunks_exact 2 rest" using chunks_exact_append [of "[x, y]" 2 rest] hex by simp
  obtain hi hi_ok where h: "hex_value x = (hi, hi_ok)" by fastforce
  obtain lo lo_ok where l: "hex_value y = (lo, lo_ok)" by fastforce
  show ?case
  proof (cases "hi_ok = 1 \<and> lo_ok = 1")
    case True
    have d: "uint hi < 16" "hex_digit hi = x" "uint lo < 16" "hex_digit lo = y"
      using hex_digit_value [of x hi] hex_digit_value [of y lo] h l True by simp_all
    have "decode_hex_loop (chunks_exact 2 hex) (b # out) 1 =
        (let (o', ok) = decode_hex_loop (chunks_exact 2 rest) out 1 in ((push_bit 4 hi OR lo) # o', ok))"
      using h l True by (simp add: ch case_prod_beta)
    moreover have "hex = push_hex (c # cs) \<longleftrightarrow> c = push_bit 4 hi OR lo \<and> rest = push_hex cs" for c cs
    proof
      assume "hex = push_hex (c # cs)"
      then have e: "x = hex_digit (drop_bit 4 c)" "y = hex_digit (c AND 0x0F)" "rest = push_hex cs" by (simp_all add: hex(1))
      then have "hi = drop_bit 4 c" "lo = c AND 0x0F"
        using h l hex_value_digit [OF nibbles(2) [of c]] hex_value_digit [OF nibbles(3) [of c]] by simp_all
      then show "c = push_bit 4 hi OR lo \<and> rest = push_hex cs" using e(3) nibbles(1) [of c] by simp
    next
      assume "c = push_bit 4 hi OR lo \<and> rest = push_hex cs"
      then show "hex = push_hex (c # cs)" using nibbles_of [OF d(1,3)] d(2,4) by (simp add: hex(1))
    qed
    ultimately show ?thesis using Cons.IH [OF hex(2)] by (cases bs) (auto simp: case_prod_beta prod_eq_iff)
  next
    case False
    have z: "hi_ok AND lo_ok = 0" using False hex_value_ok [OF h] hex_value_ok [OF l] by auto
    have "snd (decode_hex_loop (chunks_exact 2 hex) (b # out) 1) = 0"
      using h l z by (simp add: ch case_prod_beta decode_hex_loop_zero)
    moreover have "hex \<noteq> push_hex (c # cs)" for c cs
      using h l False hex(1) hex_value_digit [OF nibbles(2) [of c]] hex_value_digit [OF nibbles(3) [of c]] by auto
    ultimately show ?thesis by (cases bs) auto
  qed
qed auto

section \<open>Recognising a line\<close>

lemma check_value_total:
  "check_value kind key = Some (take 4 (kupyna_hash Kupyna256 (CHECK_DOMAIN @ [0] @ ascii (kind_prefix kind) @ [0] @ key)))"
proof -
  obtain s where s: "feed (hasher_update Kupyna256) (hasher_new Kupyna256) [CHECK_DOMAIN, [0], ascii (kind_prefix kind), [0], key] = Some s"
    "hasher_finalize Kupyna256 s = Some (kupyna_hash Kupyna256 (concat [CHECK_DOMAIN, [0], ascii (kind_prefix kind), [0], key]))"
    using kupyna.streaming [of Kupyna256 "[CHECK_DOMAIN, [0], ascii (kind_prefix kind), [0], key]"] by blast
  then show ?thesis by (auto simp: check_value_def CHECK_LEN_def split: option.splits)
qed

definition check_of :: "key_kind \<Rightarrow> bytes \<Rightarrow> bytes" where
  "check_of kind key = take 4 (kupyna_hash Kupyna256 (CHECK_DOMAIN @ [0] @ ascii (kind_prefix kind) @ [0] @ key))"

lemma length_check_of [simp]: "length (check_of kind key) = 4"
  by (simp add: check_of_def)

definition key_body :: "key_kind \<Rightarrow> bytes \<Rightarrow> bytes" where
  "key_body kind key = ascii (kind_prefix kind) @ [0x3A] @ push_hex key @ [0x3A] @ push_hex (check_of kind key)"

lemma encode_body: "encode kind key = Some (key_body kind key @ [0x0A])"
  by (simp add: encode_def check_value_total key_body_def check_of_def)

lemma kinds_complete: "kind \<in> set ALL_KINDS"
  by (cases kind) (simp_all add: ALL_KINDS_def)

lemma prefix_no_colon: "0x3A \<notin> set (ascii (kind_prefix kind))"
  by (cases kind) (simp_all add: ascii_def)

lemma typed_split:
  "length line > length p \<and> take (length p) line = p \<and> line ! length p = c \<longleftrightarrow> (\<exists>rest. line = p @ c # rest)"
proof
  assume "length line > length p \<and> take (length p) line = p \<and> line ! length p = c"
  then show "\<exists>rest. line = p @ c # rest" by (metis id_take_nth_drop)
qed auto

lemma first_colon: "c \<notin> set p \<Longrightarrow> c \<notin> set q \<Longrightarrow> p @ c # r = q @ c # s \<Longrightarrow> p = q"
proof (induction p arbitrary: q)
  case Nil
  then show ?case by (cases q) auto
next
  case (Cons x p)
  then show ?case by (cases q) auto
qed

lemma find_unique:
  assumes "x \<in> set xs" "\<And>y. P y \<longleftrightarrow> Q y" "\<And>y. Q y \<Longrightarrow> Q x \<Longrightarrow> y = x"
  shows "List.find P xs = Some x \<longleftrightarrow> Q x"
proof
  assume "List.find P xs = Some x"
  then show "Q x" using assms(2) by (auto simp: find_Some_iff)
next
  assume x: "Q x"
  then have "List.find P xs \<noteq> None" using assms(1,2) by (auto simp: find_None_iff)
  then obtain z where z: "List.find P xs = Some z" by blast
  then have "P z" by (auto simp: find_Some_iff)
  then show "List.find P xs = Some x" using z x assms(2,3) by blast
qed

lemma typed_unique:
  assumes "\<exists>rest. line = ascii (kind_prefix k) @ 0x3A # rest" "\<exists>rest. line = ascii (kind_prefix kind) @ 0x3A # rest"
  shows "k = kind"
proof -
  have "ascii (kind_prefix k) = ascii (kind_prefix kind)"
    using assms first_colon [OF prefix_no_colon prefix_no_colon] by metis
  then show ?thesis by (cases k; cases kind; simp add: ascii_def)
qed

lemma find_kind:
  "List.find (\<lambda>k. let p = ascii (kind_prefix k) in length line > length p \<and> take (length p) line = p \<and> line ! length p = 0x3A) ALL_KINDS =
     Some kind \<longleftrightarrow> (\<exists>rest. line = ascii (kind_prefix kind) @ 0x3A # rest)"
  by (rule find_unique [OF kinds_complete]) (simp_all only: Let_def typed_split typed_unique)

section \<open>Decoding a line\<close>

lemma decode_hex_push: "length out = length bs \<Longrightarrow> decode_hex (push_hex bs) out = (bs, 1)"
  using decode_hex_loop_iff [of "push_hex bs" out bs] by (simp add: decode_hex_def)

lemma decode_hex_ok:
  assumes "length hex = 2 * length out" "decode_hex hex out = (bs, ok)"
  shows "ok = 0 \<or> ok = 1" "ok = 1 \<Longrightarrow> length bs = length out \<and> hex = push_hex bs"
  using decode_hex_loop_ok [of 1 "chunks_exact 2 hex" out] decode_hex_loop_iff [OF assms(1), of bs] assms(2)
  by (simp_all add: decode_hex_def)

text \<open>The checks of \<open>decode\<close> after the prefix, on the part of the line behind its colon.\<close>

definition decode_rest :: "key_kind \<Rightarrow> bytes \<Rightarrow> (decode_error + key_kind \<times> bytes)" where
  "decode_rest kind rest =
     (let n = 2 * key_len kind in
      if length rest \<noteq> n + 9 \<or> rest ! n \<noteq> 0x3A then Inl (Malformed kind)
      else let (key, ok1) = decode_hex (take n rest) (replicate (key_len kind) 0);
               (check, ok2) = decode_hex (drop (n + 1) rest) (replicate 4 0)
        in if ok1 AND ok2 \<noteq> 1 then Inl (Malformed kind)
           else if check_of kind key \<noteq> check then Inl (CheckMismatch kind) else Inr (kind, key))"

lemma decode_cases:
  "decode text = Some (case List.find (\<lambda>k. let p = ascii (kind_prefix k) in
       length (key_line text) > length p \<and> take (length p) (key_line text) = p \<and> key_line text ! length p = 0x3A) ALL_KINDS of
     None \<Rightarrow> Inl NotTyped
   | Some kind \<Rightarrow> decode_rest kind (drop (length (kind_prefix kind) + 1) (key_line text)))"
  (is "_ = Some (case ?found of None \<Rightarrow> _ | Some kind \<Rightarrow> _ kind)")
proof (cases ?found)
  case None
  show ?thesis unfolding decode_def Let_def [of "key_line text"] None option.case ..
next
  case (Some kind)
  let ?line = "key_line text" let ?p = "length (kind_prefix kind)" let ?n = "2 * key_len kind"
  obtain rest where line: "?line = ascii (kind_prefix kind) @ 0x3A # rest" using Some find_kind by blast
  have e: "?p + 1 + ?n = ?p + Suc ?n" "?p + 1 + ?n + 1 = ?p + Suc (?n + 1)" by simp_all
  have at: "?line ! (?p + 1 + ?n) = rest ! ?n" "slice (?p + 1) (?p + 1 + ?n) ?line = take ?n rest"
    "drop (?p + 1 + ?n + 1) ?line = drop (?n + 1) rest" "drop (?p + 1) ?line = rest" "length ?line = ?p + 1 + length rest"
    unfolding e line by (simp_all add: slice_def nth_append)
  show ?thesis unfolding decode_def Let_def [of "key_line text"] Some option.case
    unfolding Let_def at by (simp add: decode_rest_def check_value_total check_of_def CHECK_LEN_def Let_def case_prod_beta)
qed

lemma decode_rest_iff:
  "decode_rest kind rest = Inr (k, key) \<longleftrightarrow>
   k = kind \<and> length key = key_len kind \<and> rest = push_hex key @ 0x3A # push_hex (check_of kind key)"
proof
  let ?n = "2 * key_len kind"
  assume *: "decode_rest kind rest = Inr (k, key)"
  obtain key' ok1 where d1: "decode_hex (take ?n rest) (replicate (key_len kind) 0) = (key', ok1)" by fastforce
  obtain check ok2 where d2: "decode_hex (drop (?n + 1) rest) (replicate 4 0) = (check, ok2)" by fastforce
  have r: "length rest = ?n + 9" "rest ! ?n = 0x3A" "ok1 AND ok2 = 1" "check_of kind key' = check" "k = kind" "key = key'"
    using * d1 d2 by (auto simp: decode_rest_def Let_def split: if_splits)
  have l: "length (take ?n rest) = 2 * length (replicate (key_len kind) (0 :: u8))" "length (drop (?n + 1) rest) = 2 * length (replicate 4 (0 :: u8))"
    using r(1) by simp_all
  have "ok1 = 1" "ok2 = 1" using r(3) decode_hex_ok(1) [OF l(1) d1] decode_hex_ok(1) [OF l(2) d2] by auto
  then have h: "length key' = key_len kind" "take ?n rest = push_hex key'" "drop (?n + 1) rest = push_hex check"
    using decode_hex_ok(2) [OF l(1) d1] decode_hex_ok(2) [OF l(2) d2] by simp_all
  have "rest = take ?n rest @ rest ! ?n # drop (?n + 1) rest" using r(1) by (simp add: id_take_nth_drop)
  then show "k = kind \<and> length key = key_len kind \<and> rest = push_hex key @ 0x3A # push_hex (check_of kind key)"
    using r h by simp
next
  assume *: "k = kind \<and> length key = key_len kind \<and> rest = push_hex key @ 0x3A # push_hex (check_of kind key)"
  then have "decode_hex (take (2 * key_len kind) rest) (replicate (key_len kind) 0) = (key, 1)"
    "decode_hex (drop (2 * key_len kind + 1) rest) (replicate 4 0) = (check_of kind key, 1)"
    by (simp_all add: decode_hex_push)
  then show "decode_rest kind rest = Inr (k, key)" using * by (simp add: decode_rest_def nth_append)
qed

lemma decode_line_iff:
  "decode text = Some (Inr (kind, key)) \<longleftrightarrow> length key = key_len kind \<and> key_line text = key_body kind key"
proof -
  have body: "key_body kind key = ascii (kind_prefix kind) @ 0x3A # (push_hex key @ 0x3A # push_hex (check_of kind key))" for kind
    by (simp add: key_body_def)
  show ?thesis
  proof
    assume "decode text = Some (Inr (kind, key))"
    then obtain k where k: "List.find (\<lambda>k. let p = ascii (kind_prefix k) in
        length (key_line text) > length p \<and> take (length p) (key_line text) = p \<and> key_line text ! length p = 0x3A) ALL_KINDS = Some k"
      "decode_rest k (drop (length (kind_prefix k) + 1) (key_line text)) = Inr (kind, key)"
      unfolding decode_cases by (auto split: option.splits)
    obtain rest where "key_line text = ascii (kind_prefix k) @ 0x3A # rest" using k(1) find_kind by blast
    then show "length key = key_len kind \<and> key_line text = key_body kind key"
      using k(2) by (auto simp: decode_rest_iff body)
  next
    assume *: "length key = key_len kind \<and> key_line text = key_body kind key"
    then have "List.find (\<lambda>k. let p = ascii (kind_prefix k) in
        length (key_line text) > length p \<and> take (length p) (key_line text) = p \<and> key_line text ! length p = 0x3A) ALL_KINDS = Some kind"
      unfolding find_kind body by blast
    then show "decode text = Some (Inr (kind, key))" using * unfolding decode_cases by (simp add: decode_rest_iff body)
  qed
qed

section \<open>The accepted files\<close>

lemma hex_digit_no_newline: "uint n < 16 \<Longrightarrow> hex_digit n \<noteq> 0x0A \<and> hex_digit n \<noteq> 0x0D"
  using byte_int [of n] byte_shift(1) [of n 48] byte_shift(1) [of n 87]
  by (auto simp: hex_digit_cases word_uint_eq_iff) (use byte_int [of n] in linarith)+

lemma last_push_hex: "bs \<noteq> [] \<Longrightarrow> last (push_hex bs) = hex_digit (last bs AND 0x0F)"
  by (induction bs) (auto simp: push_hex_def)

lemma key_body_last: "key_body kind key \<noteq> []" "last (key_body kind key) \<noteq> 0x0A" "last (key_body kind key) \<noteq> 0x0D"
proof -
  have n: "check_of kind key \<noteq> []" "push_hex (check_of kind key) \<noteq> []"
    using length_check_of [of kind key] push_hex_simps(3) [of "check_of kind key"] by (metis list.size(3) numeral_eq_Suc old.nat.distinct(1) mult_is_0)+
  then have "last (key_body kind key) = hex_digit (last (check_of kind key) AND 0x0F)"
    by (simp add: key_body_def last_push_hex)
  then show "last (key_body kind key) \<noteq> 0x0A" "last (key_body kind key) \<noteq> 0x0D"
    using hex_digit_no_newline [OF nibbles(3)] by simp_all
qed (simp add: key_body_def)

lemma length_key_body: "length (key_body kind key) = length (kind_prefix kind) + 2 * length key + 10"
  by (simp add: key_body_def)

lemma strip_suffix_iff: "strip_suffix p s = Some l \<longleftrightarrow> s = l @ p"
  unfolding strip_suffix_def by (auto simp: append_eq_conv_conj) (metis append_take_drop_id)

lemma strip_suffix_None_iff: "strip_suffix p s = None \<longleftrightarrow> (\<forall>l. s \<noteq> l @ p)"
  using strip_suffix_iff [of p s] by (cases "strip_suffix p s") auto

lemma key_line_iff:
  assumes "L \<noteq> []" "last L \<noteq> 0x0A" "last L \<noteq> 0x0D"
  shows "key_line text = L \<longleftrightarrow> text \<in> {L, L @ [0x0A], L @ [0x0D, 0x0A]}"
proof
  assume "key_line text = L"
  then show "text \<in> {L, L @ [0x0A], L @ [0x0D, 0x0A]}"
    by (auto simp: key_line_def strip_suffix_iff split: option.splits)
next
  have n: "L \<noteq> l @ [0x0A]" "L \<noteq> l @ [0x0D]" for l using assms by auto
  have crlf: "strip_suffix [0x0D, 0x0A] L = None" "strip_suffix [0x0A] L = None" "strip_suffix [0x0D, 0x0A] (L @ [0x0A]) = None"
    using n n(1) [of "_ @ [0x0D]"] by (auto simp: strip_suffix_None_iff)
  have ok: "strip_suffix p (L @ p) = Some L" for p by (simp add: strip_suffix_iff)
  assume "text \<in> {L, L @ [0x0A], L @ [0x0D, 0x0A]}"
  then show "key_line text = L" using crlf ok [of "[0x0A]"] ok [of "[0x0D, 0x0A]"] by (auto simp: key_line_def)
qed

lemma decode_iff:
  "decode text = Some (Inr (kind, key)) \<longleftrightarrow> length key = key_len kind \<and>
     text \<in> {key_body kind key, key_body kind key @ [0x0A], key_body kind key @ [0x0D, 0x0A]}"
  unfolding decode_line_iff key_line_iff [OF key_body_last] ..

lemma key_file_bound: "length key = key_len kind \<Longrightarrow> length (key_body kind key) \<le> 164"
  by (cases kind) (simp_all add: length_key_body)

lemma decode_truncated:
  "decode (take (MAX_KEY_FILE_BYTES + 1) content) = Some (Inr (kind, key)) \<longleftrightarrow> decode content = Some (Inr (kind, key))"
proof -
  have "length key = key_len kind \<Longrightarrow> take 257 content = key_body kind key @ nl \<longleftrightarrow> content = key_body kind key @ nl"
    if "length nl \<le> 2" for nl
    using key_file_bound [of key kind] that by (cases "257 \<le> length content") (auto dest: arg_cong [of _ _ length])
  from this [of "[]"] this [of "[0x0A]"] this [of "[0x0D, 0x0A]"] show ?thesis
    by (auto simp: decode_iff MAX_KEY_FILE_BYTES_def)
qed

section \<open>Recognising a damaged file\<close>

lemma strip_prefix_iff: "strip_prefix p s = Some rest \<longleftrightarrow> s = p @ rest"
  by (auto simp: strip_prefix_def append_eq_conv_conj) (metis append_take_drop_id)

lemma strip_prefix_typed:
  "(case strip_prefix p s of Some (c # _) \<Rightarrow> c = x | _ \<Rightarrow> False) \<longleftrightarrow> (\<exists>rest. s = p @ x # rest)"
proof (cases "strip_prefix p s")
  case None
  then have "s \<noteq> p @ r" for r by (metis option.distinct(1) strip_prefix_iff)
  then show ?thesis using None by simp
next
  case (Some r)
  then have "s = p @ r" by (simp add: strip_prefix_iff)
  then show ?thesis using Some by (cases r) auto
qed

definition without_bom :: "bytes \<Rightarrow> bytes" where
  "without_bom head = (case strip_prefix [0xEF, 0xBB, 0xBF] head of Some rest \<Rightarrow> rest | None \<Rightarrow> head)"

lemma sniff_kind_iff: "sniff_kind head = Some kind \<longleftrightarrow> (\<exists>rest. without_bom head = ascii (kind_prefix kind) @ 0x3A # rest)"
  unfolding sniff_kind_def Let_def without_bom_def [symmetric]
  by (rule find_unique [OF kinds_complete]) (simp_all only: strip_prefix_typed typed_unique)

lemma take_prefix_iff:
  "length p < n \<Longrightarrow> (\<exists>rest. take n s = p @ c # rest) \<longleftrightarrow> (\<exists>rest. s = p @ c # rest)"
proof
  assume n: "length p < n" and "\<exists>rest. take n s = p @ c # rest"
  then obtain rest where "take n s = p @ c # rest" by blast
  then have "s = p @ c # rest @ drop n s" by (metis append_take_drop_id append.assoc append_Cons)
  then show "\<exists>rest. s = p @ c # rest" by blast
next
  assume n: "length p < n" and "\<exists>rest. s = p @ c # rest"
  then show "\<exists>rest. take n s = p @ c # rest" by (auto simp: take_Cons' )
qed

lemma kind_prefix_bound: "length (ascii (kind_prefix kind)) < 25"
  by (cases kind) (simp_all add: ascii_def)

lemma without_bom_cases: "without_bom head = (if take 3 head = [0xEF, 0xBB, 0xBF] then drop 3 head else head)"
  by (simp add: without_bom_def strip_prefix_def numeral_3_eq_3)

lemma sniff_kind_head: "sniff_kind (take SNIFF_LEN head) = sniff_kind head"
proof -
  have "sniff_kind (take 28 head) = Some kind \<longleftrightarrow> sniff_kind head = Some kind" for kind
  proof (cases "take 3 head = [0xEF, 0xBB, 0xBF]")
    case True
    then have "without_bom (take 28 head) = take 25 (drop 3 head)" "without_bom head = drop 3 head"
      by (simp_all add: without_bom_cases drop_take)
    then show ?thesis using kind_prefix_bound [of kind] by (simp only: sniff_kind_iff take_prefix_iff)
  next
    case False
    then have "without_bom (take 28 head) = take 28 head" "without_bom head = head"
      by (simp_all add: without_bom_cases)
    moreover have "length (ascii (kind_prefix kind)) < 28" using kind_prefix_bound [of kind] by linarith
    ultimately show ?thesis by (simp only: sniff_kind_iff take_prefix_iff)
  qed
  then show ?thesis unfolding SNIFF_LEN_def by (metis option.exhaust)
qed

lemma key_line_prefix: "\<exists>nl. text = key_line text @ nl"
proof -
  have "text = l @ p" if "strip_suffix p text = Some l" for l p using that by (simp add: strip_suffix_iff)
  then show ?thesis by (auto simp: key_line_def split: option.splits)
qed

lemma prefix_no_bom: "without_bom (ascii (kind_prefix kind) @ s) = ascii (kind_prefix kind) @ s"
  by (cases kind) (simp_all add: without_bom_def strip_prefix_def ascii_def)

lemma decode_sniff:
  assumes "decode text = Some r" "r \<noteq> Inl NotTyped"
  shows "\<exists>kind. sniff_kind text = Some kind \<and> (r = Inl (Malformed kind) \<or> r = Inl (CheckMismatch kind) \<or> (\<exists>key. r = Inr (kind, key)))"
proof -
  obtain kind where k: "List.find (\<lambda>k. let p = ascii (kind_prefix k) in
      length (key_line text) > length p \<and> take (length p) (key_line text) = p \<and> key_line text ! length p = 0x3A) ALL_KINDS = Some kind"
    and r: "r = decode_rest kind (drop (length (kind_prefix kind) + 1) (key_line text))"
    using assms unfolding decode_cases by (auto split: option.splits)
  obtain rest nl where "text = ascii (kind_prefix kind) @ 0x3A # rest @ nl"
    using k key_line_prefix [of "text"] unfolding find_kind by (metis append.assoc append_Cons)
  then have "sniff_kind text = Some kind" unfolding sniff_kind_iff by (metis prefix_no_bom)
  then show ?thesis unfolding r decode_rest_def Let_def by (auto split: prod.splits if_splits)
qed

lemma hex_digit_char: "n < 16 \<Longrightarrow> of_char (''0123456789abcdef'' ! n) = hex_digit (of_nat n)"
proof -
  have "\<forall>n\<in>set [0..<16]. of_char (''0123456789abcdef'' ! n) = hex_digit (of_nat n)"
    by (simp add: upt_rec [of _ 16] hex_digit_cases)
  then show "n < 16 \<Longrightarrow> ?thesis" by simp
qed

lemma fmt_02x_push_hex: "ascii (fmt_02x b) = push_hex [b]"
proof -
  have "b AND 0x0F = take_bit 4 b" by (simp add: take_bit_eq_mask mask_eq_exp_minus_1)
  then have "b div 16 = drop_bit 4 b" "b mod 16 = b AND 0x0F" by (simp_all add: drop_bit_eq_div take_bit_eq_mod)
  then have "of_nat (unat b div 16) = drop_bit 4 b" "of_nat (unat b mod 16) = b AND 0x0F"
    by (simp_all add: word_arith_nat_div word_arith_nat_mod)
  moreover have "unat b div 16 < 16" using unsigned_less [of b, where 'a = nat] by simp
  ultimately show ?thesis by (simp add: fmt_02x_def ascii_def hex_digit_char)
qed

section \<open>Properties\<close>

text \<open>C30. A key file is accepted by \<open>decode\<close> exactly when it is the line of its kind and key -
  the prefix, a colon, the lower-case hexadecimal of \<open>key_len\<close> bytes, a colon and the hexadecimal of
  the first four bytes of Kupyna-256 over the domain, the prefix and the key - with nothing, a line
  feed or a carriage return and line feed behind it; the line feed form is what \<open>encode\<close> writes.\<close>

theorem keyfile_decode_exact:
  "(decode text = Some (Inr (kind, key)) \<longleftrightarrow>
     length key = key_len kind \<and>
     (\<exists>line. encode kind key = Some (line @ [0x0A]) \<and> text \<in> {line, line @ [0x0A], line @ [0x0D, 0x0A]} \<and>
        line = ascii (kind_prefix kind) @ [0x3A] @ push_hex key @ [0x3A] @
          push_hex (take 4 (kupyna_hash Kupyna256 (CHECK_DOMAIN @ [0] @ ascii (kind_prefix kind) @ [0] @ key)))))
   \<and> (\<exists>r. decode text = Some r)"
proof (intro conjI)
  show "\<exists>r. decode text = Some r" unfolding decode_cases by blast
qed (unfold decode_iff encode_body, auto simp: key_body_def check_of_def)

text \<open>C31. \<open>read_key\<close> looks at the first 257 bytes of the file only, and still accepts exactly the
  files that \<open>decode\<close> accepts whole and whose kind the command expects: a longer file never passes
  because its beginning is a key line. A readable key of another kind is reported as such by name, and
  anything else is the error of the decoder, so no file makes the command continue with a wrong key.\<close>

theorem read_key_exact:
  "(read_key (Inr content) expected = Some (Inr (kind, key)) \<longleftrightarrow>
     decode content = Some (Inr (kind, key)) \<and> kind \<in> set expected)
   \<and> (read_key (Inr content) expected = Some (Inl (KeyKindMismatch kind allowed)) \<longleftrightarrow>
     (\<exists>key. decode content = Some (Inr (kind, key))) \<and> kind \<notin> set expected \<and> allowed = expected)
   \<and> (\<exists>r. read_key (Inr content) expected = Some r)"
proof -
  obtain r where r: "decode (take (MAX_KEY_FILE_BYTES + 1) content) = Some r" unfolding decode_cases by blast
  have d: "decode content = Some (Inr (k, b)) \<longleftrightarrow> r = Inr (k, b)" for k b
    using decode_truncated [of content k b] unfolding r by simp
  have e: "from_decode_error x \<noteq> KeyKindMismatch kind allowed" for x by (cases x) simp_all
  show ?thesis unfolding d read_key_def sum.case r using e
    by (cases r) (auto split: prod.splits)
qed

text \<open>\<open>SNIFF_LEN\<close> bytes are enough for \<open>sniff_kind\<close>, and every file that \<open>decode\<close> does not call
  untyped - intact, malformed or with a wrong check value - is recognised by \<open>sniff_kind\<close> as the kind the
  decoder names, so a damaged key file is never taken for an ordinary input file.\<close>

theorem sniff_kind_recognises:
  "sniff_kind (take SNIFF_LEN head) = sniff_kind head \<and>
   (decode text = Some r \<and> r \<noteq> Inl NotTyped \<longrightarrow>
     (\<exists>kind. sniff_kind text = Some kind \<and>
        (r = Inl (Malformed kind) \<or> r = Inl (CheckMismatch kind) \<or> (\<exists>key. r = Inr (kind, key)))))"
  using sniff_kind_head decode_sniff by blast

theorem sniff_kind_recognises_witness:
  "\<exists>kind. sniff_kind (ascii ''UACRYPT-SECRET-SIGN163:00'') = Some kind"
proof -
  have "decode (ascii ''UACRYPT-SECRET-SIGN163:00'') = Some (Inl (Malformed Sign163Secret))"
    by (simp add: decode_def ascii_def key_line_def strip_suffix_def ALL_KINDS_def Let_def)
  then show ?thesis using sniff_kind_recognises [of "[]" "ascii ''UACRYPT-SECRET-SIGN163:00''" "Inl (Malformed Sign163Secret)"] by simp
qed

text \<open>The check value that \<open>key-import\<close> reports is the last field of the file that \<open>encode\<close> writes.\<close>

theorem check_hex_is_last_field:
  "\<exists>check. check_hex kind key = Some check \<and> length check = 8 \<and>
     encode kind key = Some (ascii (kind_prefix kind) @ [0x3A] @ push_hex key @ [0x3A] @ ascii check @ [0x0A])"
proof -
  have "ascii (foldl (\<lambda>out b. out @ fmt_02x b) s bs) = ascii s @ push_hex bs" for s bs
    by (induction bs arbitrary: s) (use fmt_02x_push_hex in \<open>simp_all add: ascii_def\<close>)
  from this [of "[]"] have hex: "ascii (foldl (\<lambda>out b. out @ fmt_02x b) [] (check_of kind key)) = push_hex (check_of kind key)"
    by (simp add: ascii_def)
  then have "length (foldl (\<lambda>out b. out @ fmt_02x b) [] (check_of kind key)) = 8"
    by (metis length_ascii length_check_of push_hex_simps(3) mult_2 numeral_Bit0)
  then show ?thesis unfolding check_hex_def encode_def check_value_total check_of_def [symmetric] by (simp add: hex)
qed

end
