(* ===== verification/Spec2Isabelle.thy ===== *)
theory Spec2Isabelle
  imports Kalyna_Ecb Kalyna_Cbc Kalyna_Ofb Kalyna_Ctr Kalyna_Cfb Kalyna_Cmac Kalyna_Xts Kalyna_Kw_P Kalyna_Gmac Kalyna_Ccm Kupyna_Kmac
    Crypto_Secretbox Secretstream_Runs Crypto_Stream Crypto_Sign Crypto_Box Passphrase_File Keyfile
begin

text \<open>
  Verification library of \<open>uacrypt\<close>, the Rust implementation of the Ukrainian DSTU cryptographic
  standards (\<open>src/crates/dstu-core\<close>, the library, and \<open>src/crates/uacrypt\<close>, its command line).

  \<^bold>\<open>The program.\<close> The lowest layer (\<open>hazmat\<close>) has the primitives: the byte tables shared by the
  block cipher Kalyna (DSTU 7624) and the hash Kupyna (DSTU 7564), the cipher's modes of operation,
  three wide binary fields for the modes that multiply, the stream cipher Strumok (DSTU 8845), and the
  elliptic-curve signature DSTU 4145 and key encapsulation DSTU 9041 over hand-written limb arithmetic.
  The upper layer (\<open>crypto_*\<close>) fixes one construction per task: a sealed box and a chunked stream on
  Kalyna-256/256-GCM, a file format over the chunked stream, passphrase files that put an Argon2 header
  in front of that format, an unauthenticated stream on Strumok, MAC, key derivation and password hashing.
  The command line reads typed key files and drives the upper layer. Calls go downwards only; a state is
  owned by its caller (an expanded key, a mode's register, a sender, a decryptor), and randomness comes
  from one function.

  \<^bold>\<open>Conventions.\<close> A byte slice is a list of 8-bit words, a machine integer a word of its width, so
  arithmetic wraps where the code's does. A struct is a record, an enum a datatype; a method takes the
  state and returns the new one. A \<open>Result\<close> is a sum with the error on the left; an array access that
  would panic, an \<open>unreachable!\<close> and a failed length check of \<open>copy_from_slice\<close> are \<open>None\<close>, and the
  theorems show that the public operations are never \<open>None\<close>. A \<open>debug_assert\<close>, which release builds do not
  compile, is not translated. Masked selections and branch-free loops
  are translated with their masks, because their correctness is one of the questions. Two things are
  parameters: the source of randomness (\<open>fill\<close>, a function of the number of bytes) and, in the fields, the
  carry-less multiply instruction (\<open>hw\<close>, an optional function), with the behaviour of the instruction set
  as the named hypothesis \<open>multiplies_carryless\<close>. The package \<open>argon2\<close> is the record of the same name with the
  named hypothesis \<open>argon2_documented\<close>.

  \<^bold>\<open>Shared theories.\<close> \<open>Dstu_Prelude\<close> has machine types, slices and the little-endian conversions with
  their lemmas. \<open>Block_Cipher\<close> is the interface the modes are proved against, interpreted in \<open>Kalyna\<close> on
  all variants; \<open>Keystream\<close> the interface of the modes and ciphers that XOR a generated stream (refined
  by Kalyna-OFB, Kalyna-CTR and Strumok); \<open>Gcm_Aead\<close> the interface of authenticated encryption
  its clients use, and the random source; \<open>Kupyna_Hash\<close> has the interface of a streaming hash and
  \<open>Crypto_Secretstream\<close> that of a channel whose two ends keep in step.

  \<^bold>\<open>Correspondence\<close> (theory, then source under \<open>src/crates/dstu-core/src/\<close> unless it says otherwise):
  \<^item> \<open>Table_Data\<close>, \<open>Tables\<close>: \<open>hazmat/tables.rs\<close>. The printed tables are the literal arrays; they are
    proved equal to what their definition (S-boxes and the MDS matrix over GF(2^8)) gives.
  \<^item> \<open>Kalyna\<close>: \<open>hazmat/kalyna.rs\<close>. Rounds, fused rounds, key schedule, single blocks, for the five
    block and key sizes. Fused equals reference, decryption inverts encryption, key expansion is
    total and its round keys have a closed form.
  \<^item> \<open>Kalyna_Ecb\<close>, \<open>Kalyna_Cbc\<close>, \<open>Kalyna_Ofb\<close>, \<open>Kalyna_Ctr\<close>, \<open>Kalyna_Cfb\<close>, \<open>Kalyna_Cmac\<close>, \<open>Kalyna_Xts\<close>,
    \<open>Kalyna_Kw\<close>, \<open>Kalyna_Kw_P\<close>, \<open>Kalyna_Gcm\<close>, \<open>Kalyna_Gmac\<close>, \<open>Kalyna_Ccm\<close>: the files \<open>hazmat/kalyna_*.rs\<close>
    of the same names. Round trips, independence of how the message is cut, what exactly the
    authenticated modes and key wraps accept, injectivity of the MAC inputs.
  \<^item> \<open>Gf2_Poly\<close>, \<open>Gf2m_Wide\<close>: \<open>hazmat/gf2m_wide.rs\<close>. The first is the reference (polynomials over GF(2) as
    numbers); the limb routines compute its product modulo the field polynomial on both dispatch paths.
  \<^item> \<open>Kupyna\<close>, \<open>Kupyna_Hash\<close>, \<open>Kupyna_Kmac\<close>: \<open>hazmat/kupyna.rs\<close>, \<open>kupyna_kmac.rs\<close>, \<open>kupyna_kdf.rs\<close>,
    \<open>crypto_auth.rs\<close>, \<open>crypto_kdf.rs\<close>. Streaming equals one-shot hashing, padding is injective.
  \<^item> \<open>Strumok_Tables\<close>, \<open>Strumok\<close>, \<open>Crypto_Stream\<close>: \<open>hazmat/strumok.rs\<close>, \<open>crypto_stream.rs\<close>. The unrolled,
    buffered implementation refines the plain shift register; initialisation is injective.
  \<^item> \<open>Crypto_Secretbox\<close>, \<open>Crypto_Secretstream\<close>, \<open>Secretstream_File\<close>, \<open>Secretstream_Runs\<close>:
    \<open>crypto_secretbox.rs\<close>, \<open>crypto_secretstream.rs\<close>, \<open>crypto_secretstream/file.rs\<close>. What is opened was
    sealed, at its position, in its order and to its end; the incremental reader is a state machine whose
    runs are covered by an invariant, and the one-shot reader refines it.
  \<^item> \<open>Crypto_Pwhash\<close>, \<open>Passphrase_File\<close>: \<open>crypto_pwhash.rs\<close>, \<open>crypto_pwhash/passphrase_file.rs\<close>. A hash
    string or a header cannot ask Argon2 for more than the fixed limits.
  \<^item> \<open>Limb\<close>, \<open>Dstu4145_Scalar\<close>: \<open>hazmat/limb.rs\<close>, \<open>hazmat/dstu4145/scalar.rs\<close> and \<open>scalar257.rs\<close>.
  \<^item> \<open>Gf2_Field\<close>, \<open>Gf2_Tables\<close>, \<open>Gf2_Types\<close>, \<open>Gf2_Calc\<close>: no source, the fields of 2^163 and 2^257 elements as
    types of the class \<open>field\<close>. That the moduli of the code give fields is checked on tables of
    linear functionals, not assumed.
  \<^item> \<open>Dstu4145_Field\<close>, \<open>Field_Embedding\<close>: \<open>hazmat/dstu4145/gf2m163.rs\<close>, \<open>gf2m257.rs\<close>. Products, squares,
    reductions and the addition chains of the inversion; the interface \<open>field_embedding\<close> of what the curve
    code uses, interpreted on both fields.
  \<^item> \<open>Binary_Curve\<close>, \<open>Dstu4145_Curve\<close>, \<open>Dstu4145_Group\<close>, \<open>Dstu4145_Generator\<close>, \<open>Dstu4145_Points\<close>:
    \<open>hazmat/dstu4145/curve163.rs\<close>, \<open>curve257.rs\<close>. The first proves the group laws of the curve equation in
    any field of characteristic two; the code's points embed in it, so that affine addition, the masked
    ladder, the projective formulas and Shamir's trick all compute there. The order of the 163-bit base
    point is checked along a chain of doublings and additions.
  \<^item> \<open>Dstu4145_Signature\<close>: \<open>hazmat/dstu4145/signature.rs\<close>, \<open>signature257.rs\<close>. Signatures verify, and \<open>verify\<close>
    accepts exactly the signatures of the equation under keys of the subgroup of order \<open>n\<close>.
  \<^item> \<open>Crypto_Sign\<close>: \<open>crypto_sign.rs\<close>, \<open>crypto_sign257.rs\<close>. Keys, the deterministic nonce, the retry loop and the
    encodings; the loop is the search for the first usable nonce counter, and drawn keys are exactly the
    valid ones.
  \<^item> \<open>Dstu9041_Field\<close>, \<open>Dstu9041_Curve\<close>, \<open>Dstu9041_Encryption\<close>: \<open>hazmat/dstu9041/fp*.rs\<close>, \<open>curve*.rs\<close>,
    \<open>message*.rs\<close>, \<open>encryption*.rs\<close>, the three sizes as one model. The limb routines compute modulo \<open>p\<close>, the
    constant-time multiplication is doubling and adding with the standard's law, what \<open>encrypt\<close> wraps can be
    unwrapped under the same abscissa, and \<open>decrypt\<close> is characterised exactly, with the two checks of the
    standard that it leaves out.
  \<^item> \<open>Crypto_Box\<close>: \<open>crypto_box.rs\<close>, \<open>crypto_box384.rs\<close>, \<open>crypto_box512.rs\<close>. The encapsulated seed, the derived key
    and the stream file behind it: what \<open>seal\<close> emits, from which random answers, and what \<open>open\<close> accepts.
  \<^item> \<open>Keyfile\<close>: \<open>src/crates/uacrypt/src/keyfile.rs\<close>. The branch-free hexadecimal codec, the line format
    and the bounded reader.

  \<^bold>\<open>Loops and bounds.\<close> Every loop is a structural recursion, a fold, or a \<open>function\<close> with a measure;
  there is no fuel. The three loops that may run forever, the draws of a signing key and of a scalar of
  DSTU 9041 and the retry of a signature, are \<open>partial_function (option)\<close>: \<open>None\<close> is a run that never returns, and the theorems say when
  it does. Lengths are natural numbers: a Rust slice has fewer than \<open>2^63\<close> bytes, and the
  theorems state the tighter limits where one matters (bit counts in 64 bits, 32-bit chunk lengths,
  a 64-bit chunk counter).

  \<^bold>\<open>Not modelled.\<close> The
  known-answer self tests; the C interface and the language bindings, which convert pointers and types;
  argument parsing, terminal and file-system code of the command line; the build tasks, firmware and fuzz
  drivers. The order of the 257-bit base point and the primality of the orders are not proved: the theorems
  that need the first state it as a hypothesis, and a public key that is the identity is excluded. The
  primality of the moduli of DSTU 9041 and the group law of its Edwards curves are not proved either: the
  theorems about encryption and boxes speak of the abscissas that the two sides compute. Timing
  and the wiping of memory have no counterpart in a functional model.
\<close>

end
